(* ===== verification/Octa_Prelude.thy ===== *)
theory Octa_Prelude
  imports Main "HOL-Library.Word" "HOL-Library.List_Lexorder"
begin

text \<open>
  Shared vocabulary of the development: Rust's fixed-width integers, \<^verbatim>\<open>Result\<close> and
  \<^verbatim>\<open>Option\<close> combinators, text values and adjacent pairs of a slice, with the rewrite rules that
  invert fallible computations.
\<close>

section \<open>Collections of rewrite rules\<close>

named_theorems res_simps \<open>inversion rules for fallible computations\<close>
named_theorems text_simps \<open>facts on validated text\<close>

section \<open>Machine integers\<close>

type_synonym u8 = "8 word"
type_synonym u16 = "16 word"
type_synonym u32 = "32 word"
type_synonym u64 = "64 word"

text \<open>Opaque identifiers are UUIDs; their derived order is the big-endian byte order, which
  is the unsigned order of the 128-bit value.\<close>

type_synonym uuid = "128 word"

text \<open>\<^verbatim>\<open>checked_add\<close> and \<^verbatim>\<open>checked_sub\<close> of the unsigned integer types.\<close>

definition checked_add :: "'w::len word \<Rightarrow> 'w word \<Rightarrow> 'w word option" where
  "checked_add a b = (if unat a + unat b < 2 ^ LENGTH('w) then Some (a + b) else None)"

definition checked_sub :: "'w::len word \<Rightarrow> 'w word \<Rightarrow> 'w word option" where
  "checked_sub a b = (if b \<le> a then Some (a - b) else None)"

text \<open>Signed 64-bit values are integers; the range check of \<^verbatim>\<open>checked_sub\<close> and
  \<^verbatim>\<open>checked_mul\<close> is written out.\<close>

definition i64_range :: "int \<Rightarrow> bool" where
  "i64_range v \<longleftrightarrow> - (2 ^ 63) \<le> v \<and> v < 2 ^ 63"

definition i64_checked_sub :: "int \<Rightarrow> int \<Rightarrow> int option" where
  "i64_checked_sub a b = (if i64_range (a - b) then Some (a - b) else None)"

definition i64_checked_mul :: "int \<Rightarrow> int \<Rightarrow> int option" where
  "i64_checked_mul a b = (if i64_range (a * b) then Some (a * b) else None)"

lemma checked_add_Some_iff [res_simps]:
  "checked_add a b = Some (c :: 'w::len word) \<longleftrightarrow>
     unat a + unat b < 2 ^ LENGTH('w) \<and> c = a + b"
  by (auto simp: checked_add_def)

lemma unat_checked_add:
  "checked_add a b = Some c \<Longrightarrow> unat c = unat a + unat b"
  by (metis checked_add_Some_iff unat_add_lem)

lemma unat_checked_sub:
  "checked_sub a b = Some c \<Longrightarrow> unat a = unat c + unat b"
  by (auto simp: checked_sub_def unat_sub word_le_nat_alt split: if_splits)

lemma checked_sub_Some_iff [res_simps]:
  "checked_sub a b = Some c \<longleftrightarrow> b \<le> a \<and> c = a - b"
  by (auto simp: checked_sub_def)

lemma checked_add_sub_cancel:
  assumes "checked_add a b = Some c"
  shows "checked_sub c b = Some a"
proof -
  from assms have c: "c = a + b" by (simp add: checked_add_Some_iff)
  from assms have u: "unat c = unat a + unat b" by (rule unat_checked_add)
  from u have "b \<le> c" by (simp add: word_le_nat_alt)
  with c show ?thesis by (simp add: checked_sub_def)
qed

section \<open>Results\<close>

text \<open>\<^verbatim>\<open>Result<T, E>\<close> is the sum \<open>'e + 'a\<close> with the error on the left. \<open>and_then\<close> is the
  \<^verbatim>\<open>?\<close> operator, \<open>ensure\<close> an early return of an error, \<open>try_map\<close> the collection of an
  iterator of results.\<close>

definition and_then :: "'e + 'a \<Rightarrow> ('a \<Rightarrow> 'e + 'b) \<Rightarrow> 'e + 'b" where
  "and_then m f = (case m of Inl e \<Rightarrow> Inl e | Inr x \<Rightarrow> f x)"

definition map_err :: "('e \<Rightarrow> 'f) \<Rightarrow> 'e + 'a \<Rightarrow> 'f + 'a" where
  "map_err h m = (case m of Inl e \<Rightarrow> Inl (h e) | Inr x \<Rightarrow> Inr x)"

definition map_ok :: "('a \<Rightarrow> 'b) \<Rightarrow> 'e + 'a \<Rightarrow> 'e + 'b" where
  "map_ok h m = (case m of Inl e \<Rightarrow> Inl e | Inr x \<Rightarrow> Inr (h x))"

definition ok_or :: "'e \<Rightarrow> 'a option \<Rightarrow> 'e + 'a" where
  "ok_or e v = (case v of None \<Rightarrow> Inl e | Some x \<Rightarrow> Inr x)"

definition ensure :: "bool \<Rightarrow> 'e \<Rightarrow> 'e + unit" where
  "ensure b e = (if b then Inr () else Inl e)"

definition is_ok :: "'e + 'a \<Rightarrow> bool" where
  "is_ok m = (case m of Inl _ \<Rightarrow> False | Inr _ \<Rightarrow> True)"

primrec try_map :: "('a \<Rightarrow> 'e + 'b) \<Rightarrow> 'a list \<Rightarrow> 'e + 'b list" where
  "try_map f [] = Inr []"
| "try_map f (x # xs) = and_then (f x) (\<lambda>y. and_then (try_map f xs) (\<lambda>ys. Inr (y # ys)))"

primrec try_each :: "('a \<Rightarrow> 'e + unit) \<Rightarrow> 'a list \<Rightarrow> 'e + unit" where
  "try_each f [] = Inr ()"
| "try_each f (x # xs) = and_then (f x) (\<lambda>_. try_each f xs)"

lemma and_then_simps [simp]:
  "and_then (Inl e) f = Inl e"
  "and_then (Inr x) f = f x"
  by (simp_all add: and_then_def)

lemma and_then_Inr_iff [res_simps]:
  "and_then m f = Inr y \<longleftrightarrow> (\<exists>x. m = Inr x \<and> f x = Inr y)"
  by (cases m) auto

lemma and_then_Inl_iff [res_simps]:
  "and_then m f = Inl e \<longleftrightarrow> m = Inl e \<or> (\<exists>x. m = Inr x \<and> f x = Inl e)"
  by (cases m) auto

lemma map_err_simps [simp]:
  "map_err h (Inl e) = Inl (h e)"
  "map_err h (Inr x) = Inr x"
  by (simp_all add: map_err_def)

lemma map_err_Inr_iff [res_simps]: "map_err h m = Inr x \<longleftrightarrow> m = Inr x"
  by (cases m) auto

lemma map_ok_simps [simp]:
  "map_ok h (Inl e) = Inl e"
  "map_ok h (Inr x) = Inr (h x)"
  by (simp_all add: map_ok_def)

lemma map_ok_Inr_iff [res_simps]: "map_ok h m = Inr y \<longleftrightarrow> (\<exists>x. m = Inr x \<and> y = h x)"
  by (cases m) auto

lemma ok_or_simps [simp]:
  "ok_or e None = Inl e"
  "ok_or e (Some x) = Inr x"
  by (simp_all add: ok_or_def)

lemma ok_or_Inr_iff [res_simps]: "ok_or e v = Inr x \<longleftrightarrow> v = Some x"
  by (cases v) auto

lemma ensure_simps [simp]:
  "ensure True e = Inr ()"
  "ensure False e = Inl e"
  by (simp_all add: ensure_def)

lemma ensure_Inr_iff [res_simps]: "ensure b e = Inr u \<longleftrightarrow> b"
  by (simp add: ensure_def)

lemma ensure_Inl_iff [res_simps]: "ensure b e = Inl e' \<longleftrightarrow> \<not> b \<and> e' = e"
  by (auto simp: ensure_def)

lemma is_ok_simps [simp]: "is_ok (Inl e) = False" "is_ok (Inr x) = True"
  by (simp_all add: is_ok_def)

lemma is_ok_iff: "is_ok m \<longleftrightarrow> (\<exists>x. m = Inr x)"
  by (cases m) auto

lemma try_map_Inr_iff [res_simps]:
  "try_map f xs = Inr ys \<longleftrightarrow> list_all2 (\<lambda>x y. f x = Inr y) xs ys"
  by (induction xs arbitrary: ys) (auto simp: res_simps list_all2_Cons1)

lemma try_each_Inr_iff [res_simps]:
  "try_each f xs = Inr u \<longleftrightarrow> (\<forall>x\<in>set xs. f x = Inr ())"
  by (induction xs) (auto simp: res_simps)

lemma try_each_Inl_imp:
  "try_each f xs = Inl e \<Longrightarrow> \<exists>x\<in>set xs. f x = Inl e"
  by (induction xs) (auto simp: res_simps)

definition is_some_and :: "('a \<Rightarrow> bool) \<Rightarrow> 'a option \<Rightarrow> bool" where
  "is_some_and p v = (case v of None \<Rightarrow> False | Some x \<Rightarrow> p x)"

section \<open>Results that may panic\<close>

text \<open>A panic is the value \<open>None\<close>.\<close>

definition also_then :: "('e + 'a) option \<Rightarrow> ('a \<Rightarrow> ('e + 'b) option) \<Rightarrow> ('e + 'b) option" where
  "also_then m f = (case m of None \<Rightarrow> None | Some (Inl e) \<Rightarrow> Some (Inl e) | Some (Inr x) \<Rightarrow> f x)"

lemma also_then_simps [simp]:
  "also_then None f = None"
  "also_then (Some (Inl e)) f = Some (Inl e)"
  "also_then (Some (Inr x)) f = f x"
  by (simp_all add: also_then_def)

lemma also_then_Inr_iff: "also_then m f = Some (Inr y) \<longleftrightarrow> (\<exists>x. m = Some (Inr x) \<and> f x = Some (Inr y))"
  by (auto simp: also_then_def split: option.splits sum.splits)

lemma also_then_None_iff: "also_then m f = None \<longleftrightarrow> m = None \<or> (\<exists>x. m = Some (Inr x) \<and> f x = None)"
  by (auto simp: also_then_def split: option.splits sum.splits)

section \<open>Text\<close>

text \<open>A Rust \<^verbatim>\<open>String\<close> is the list of its Unicode scalar values; \<^verbatim>\<open>len\<close> counts the bytes of its
  UTF-8 encoding. The order of \<^verbatim>\<open>str\<close> (bytewise) is the lexicographic order of the scalar
  values, because UTF-8 preserves it.\<close>

type_synonym rchar = nat
type_synonym rstr = "rchar list"

definition lit :: "string \<Rightarrow> rstr" where
  "lit s = map of_char s"

definition utf8_width :: "rchar \<Rightarrow> nat" where
  "utf8_width c = (if c < 128 then 1 else if c < 2048 then 2 else if c < 65536 then 3 else 4)"

definition str_len :: "rstr \<Rightarrow> nat" where
  "str_len s = sum_list (map utf8_width s)"

text \<open>\<^verbatim>\<open>char::is_control\<close> is the general category Cc, \<^verbatim>\<open>char::is_whitespace\<close> (used by \<^verbatim>\<open>trim\<close>) the
  property White\_Space.\<close>

definition is_control :: "rchar \<Rightarrow> bool" where
  "is_control c \<longleftrightarrow> c < 32 \<or> 127 \<le> c \<and> c < 160"

definition is_whitespace :: "rchar \<Rightarrow> bool" where
  "is_whitespace c \<longleftrightarrow> 9 \<le> c \<and> c \<le> 13 \<or> c = 32 \<or> c = 133 \<or> c = 160 \<or> c = 5760 \<or>
     8192 \<le> c \<and> c \<le> 8202 \<or> c = 8232 \<or> c = 8233 \<or> c = 8239 \<or> c = 8287 \<or> c = 12288"

definition is_ascii_digit :: "rchar \<Rightarrow> bool" where
  "is_ascii_digit c \<longleftrightarrow> 48 \<le> c \<and> c \<le> 57"

definition is_ascii_lowercase :: "rchar \<Rightarrow> bool" where
  "is_ascii_lowercase c \<longleftrightarrow> 97 \<le> c \<and> c \<le> 122"

definition is_ascii_uppercase :: "rchar \<Rightarrow> bool" where
  "is_ascii_uppercase c \<longleftrightarrow> 65 \<le> c \<and> c \<le> 90"

definition is_ascii_alphanumeric :: "rchar \<Rightarrow> bool" where
  "is_ascii_alphanumeric c \<longleftrightarrow> is_ascii_digit c \<or> is_ascii_lowercase c \<or> is_ascii_uppercase c"

definition trim :: "rstr \<Rightarrow> rstr" where
  "trim s = rev (dropWhile is_whitespace (rev (dropWhile is_whitespace s)))"

text \<open>The test repeated by every bounded textual value of the server: non-empty, within its byte
  bound, without surrounding whitespace and without control characters.\<close>

definition visible_text :: "nat \<Rightarrow> rstr \<Rightarrow> bool" where
  "visible_text maximum s \<longleftrightarrow>
     s \<noteq> [] \<and> str_len s \<le> maximum \<and> trim s = s \<and> \<not> list_ex is_control s"

lemmas ascii_defs =
  is_ascii_digit_def is_ascii_lowercase_def is_ascii_uppercase_def is_ascii_alphanumeric_def

lemma utf8_width_pos [simp]: "0 < utf8_width c"
  by (simp add: utf8_width_def)

lemma length_le_str_len: "length s \<le> str_len s"
proof (induction s)
  case (Cons c s)
  have "1 \<le> utf8_width c" by (simp add: utf8_width_def)
  with Cons show ?case by (simp add: str_len_def)
qed (simp add: str_len_def)

lemma str_len_ascii [text_simps]: "\<forall>c\<in>set s. c < 128 \<Longrightarrow> str_len s = length s"
  by (induction s) (auto simp: str_len_def utf8_width_def)

lemma dropWhile_id_iff: "dropWhile P xs = xs \<longleftrightarrow> xs = [] \<or> \<not> P (hd xs)"
proof (cases xs)
  case (Cons x ys)
  have "length (dropWhile P ys) \<le> length ys" by (rule length_dropWhile_le)
  with Cons show ?thesis by (cases "P x") auto
qed simp

lemma trim_id_iff [text_simps]:
  "trim s = s \<longleftrightarrow> s = [] \<or> \<not> is_whitespace (hd s) \<and> \<not> is_whitespace (last s)"
proof (cases "s = []")
  case False
  have front: "dropWhile is_whitespace s = s" if "trim s = s"
  proof -
    have "length (trim s) \<le> length (dropWhile is_whitespace s)"
      unfolding trim_def using length_dropWhile_le by (metis length_rev)
    with that have "length s \<le> length (dropWhile is_whitespace s)" by simp
    moreover have "dropWhile is_whitespace s = drop (length s - length (dropWhile is_whitespace s)) s"
      by (metis append_eq_conv_conj length_append add_diff_cancel_right' takeWhile_dropWhile_id)
    ultimately show ?thesis by simp
  qed
  have "trim s = s \<longleftrightarrow> dropWhile is_whitespace s = s \<and> dropWhile is_whitespace (rev s) = rev s"
    using front by (auto simp: trim_def rev_swap)
  with False show ?thesis by (simp add: dropWhile_id_iff hd_rev)
qed (simp add: trim_def)

lemma not_whitespace_of_graphic: "33 \<le> c \<Longrightarrow> c \<le> 126 \<Longrightarrow> \<not> is_whitespace c \<and> \<not> is_control c"
  by (simp add: is_whitespace_def is_control_def)

lemma visible_text_of_graphic:
  assumes "s \<noteq> []" and "length s \<le> maximum" and "\<forall>c\<in>set s. 33 \<le> c \<and> c \<le> 126"
  shows "visible_text maximum s"
proof -
  from assms(3) have "\<forall>c\<in>set s. c < 128" by auto
  then have "str_len s = length s" by (rule str_len_ascii)
  moreover have "\<not> is_whitespace (hd s)" "\<not> is_whitespace (last s)"
    using assms(1,3) by (auto dest: not_whitespace_of_graphic)
  moreover have "\<not> list_ex is_control s"
    using assms(3) by (auto simp: list_ex_iff dest: not_whitespace_of_graphic)
  ultimately show ?thesis using assms(1,2) by (simp add: visible_text_def trim_id_iff)
qed

section \<open>Adjacent pairs\<close>

text \<open>\<^verbatim>\<open>windows(2)\<close> over a sorted slice, the idiom that detects duplicates.\<close>

definition windows2 :: "'a list \<Rightarrow> ('a \<times> 'a) list" where
  "windows2 xs = zip xs (tl xs)"

definition has_adjacent_duplicate :: "'a list \<Rightarrow> bool" where
  "has_adjacent_duplicate xs = list_ex (\<lambda>(a, b). a = b) (windows2 xs)"

lemma windows2_simps [simp]:
  "windows2 [] = []" "windows2 [x] = []"
  "windows2 (x # y # xs) = (x, y) # windows2 (y # xs)"
  by (simp_all add: windows2_def)

lemma has_adjacent_duplicate_iff:
  "sorted xs \<Longrightarrow> has_adjacent_duplicate xs \<longleftrightarrow> \<not> distinct (xs :: 'a::linorder list)"
proof (induction xs rule: induct_list012)
  case (3 x y xs)
  then show ?case
    by (cases "x = y") (auto simp: has_adjacent_duplicate_def)
qed (simp_all add: has_adjacent_duplicate_def)

end
