(* ===== verification/Octa_Containers.thy ===== *)
theory Octa_Containers
  imports Octa_Prelude
begin

text \<open>
  The ordered containers of Rust's standard library. A \<^verbatim>\<open>BTreeMap\<close> is an association list in
  strictly increasing key order, a \<^verbatim>\<open>BTreeSet\<close> a strictly increasing list. The contract the
  components rely on is the locale \<open>ordered_map\<close>; it is interpreted on the association lists.
\<close>

section \<open>Ordered maps\<close>

type_synonym ('k, 'v) btree = "('k \<times> 'v) list"

primrec bt_insert :: "'k::linorder \<Rightarrow> 'v \<Rightarrow> ('k, 'v) btree \<Rightarrow> ('k, 'v) btree" where
  "bt_insert k v [] = [(k, v)]"
| "bt_insert k v (e # m) =
     (if fst e < k then e # bt_insert k v m
      else if fst e = k then (k, v) # m
      else (k, v) # e # m)"

definition bt_get :: "('k, 'v) btree \<Rightarrow> 'k \<Rightarrow> 'v option" where
  "bt_get m k = map_of m k"

definition bt_keys :: "('k, 'v) btree \<Rightarrow> 'k list" where
  "bt_keys m = map fst m"

definition bt_values :: "('k, 'v) btree \<Rightarrow> 'v list" where
  "bt_values m = map snd m"

definition bt_wf :: "('k::linorder, 'v) btree \<Rightarrow> bool" where
  "bt_wf m \<longleftrightarrow> sorted_wrt (<) (map fst m)"

lemmas bt_defs = bt_get_def bt_keys_def bt_values_def bt_wf_def

text \<open>What a client of an ordered map relies on: the value read after an insertion, and the keys
  listed once each in increasing order.\<close>

locale ordered_map =
  fixes empty :: 'm
    and insert :: "'k::linorder \<Rightarrow> 'v \<Rightarrow> 'm \<Rightarrow> 'm"
    and get :: "'m \<Rightarrow> 'k \<Rightarrow> 'v option"
    and keys :: "'m \<Rightarrow> 'k list"
    and wf :: "'m \<Rightarrow> bool"
  assumes wf_empty: "wf empty"
    and wf_insert: "wf m \<Longrightarrow> wf (insert k v m)"
    and get_empty: "get empty k = None"
    and get_insert: "wf m \<Longrightarrow> get (insert k v m) k' = (if k' = k then Some v else get m k')"
    and keys_increasing: "wf m \<Longrightarrow> sorted_wrt (<) (keys m)"
    and keys_get: "wf m \<Longrightarrow> k \<in> set (keys m) \<longleftrightarrow> get m k \<noteq> None"
begin

lemma set_keys_insert: "wf m \<Longrightarrow> set (keys (insert k v m)) = Set.insert k (set (keys m))"
  by (auto simp: set_eq_iff keys_get wf_insert get_insert)

lemma keys_insert_present:
  assumes "wf m" and "get m k \<noteq> None"
  shows "keys (insert k v m) = keys m"
proof (rule strict_sorted_equal)
  show "sorted_wrt (<) (keys (insert k v m))"
    using assms(1) by (intro keys_increasing wf_insert)
  show "sorted_wrt (<) (keys m)" using assms(1) by (rule keys_increasing)
  show "set (keys (insert k v m)) = set (keys m)"
    using assms keys_get [of m k] by (auto simp: set_keys_insert)
qed

lemma wf_insert_all: "wf m \<Longrightarrow> wf (fold (\<lambda>(k, v). insert k v) kvs m)"
  by (induction kvs arbitrary: m) (auto intro: wf_insert)

lemma get_insert_all:
  "wf m \<Longrightarrow> get (fold (\<lambda>(k, v). insert k v) kvs m) k =
     (case map_of (rev kvs) k of Some v \<Rightarrow> Some v | None \<Rightarrow> get m k)"
proof (induction kvs arbitrary: m)
  case (Cons e kvs)
  then show ?case
    by (cases e) (auto simp: wf_insert get_insert map_add_def split: option.splits)
qed simp

end

lemma set_bt_insert: "set (map fst (bt_insert k v m)) = insert k (set (map fst m))"
  by (induction m) auto

lemma bt_wf_insert: "bt_wf m \<Longrightarrow> bt_wf (bt_insert k v m)"
proof (induction m)
  case (Cons e m)
  then have "bt_wf (bt_insert k v m)" by (simp add: bt_wf_def)
  with Cons.prems set_bt_insert [of k v m] show ?case
    by (auto simp: bt_wf_def simp del: set_map)
qed (simp add: bt_wf_def)

lemma bt_get_insert: "bt_get (bt_insert k v m) k' = (if k' = k then Some v else bt_get m k')"
  by (induction m) (auto simp: bt_get_def)

interpretation bt: ordered_map "[]" bt_insert bt_get bt_keys bt_wf
proof unfold_locales
  fix m :: "('a::linorder \<times> 'b) list" and k
  show "(k \<in> set (bt_keys m)) = (bt_get m k \<noteq> None)"
    by (auto simp: bt_defs map_of_eq_None_iff dest: map_of_SomeD)
qed (simp_all add: bt_wf_insert bt_get_insert, simp_all add: bt_defs)

lemma bt_get_in_set: "bt_get m k = Some v \<Longrightarrow> (k, v) \<in> set m"
  by (simp add: bt_get_def map_of_SomeD)

lemma bt_wf_distinct: "bt_wf m \<Longrightarrow> distinct (map fst m)"
  by (simp add: bt_wf_def strict_sorted_iff)

lemma bt_get_iff: "bt_wf m \<Longrightarrow> bt_get m k = Some v \<longleftrightarrow> (k, v) \<in> set m"
  by (metis bt_get_def bt_wf_distinct map_of_eq_Some_iff)

lemma sort_key_Nil_iff [simp]: "sort_key f xs = [] \<longleftrightarrow> xs = []"
  by (metis set_empty set_sort)

lemma bt_wf_sort_key: "distinct (map fst kvs) \<Longrightarrow> bt_wf (sort_key fst kvs)"
  by (simp add: bt_wf_def strict_sorted_iff distinct_map)

lemma bt_wf_unique:
  assumes "bt_wf m" and "bt_wf m'" and "set m = set m'"
  shows "m = m'"
proof (rule map_sorted_distinct_set_unique)
  show "inj_on fst (set m \<union> set m')"
    using bt_wf_distinct [OF assms(1)] assms(3) by (simp add: distinct_map)
qed (use assms in \<open>simp_all add: bt_wf_def strict_sorted_iff\<close>)

text \<open>The loop that fills a map and rejects the first repeated key.\<close>

primrec collect_unique :: "('k::linorder \<times> 'v) list \<Rightarrow> ('k, 'v) btree \<Rightarrow> 'k + ('k, 'v) btree" where
  "collect_unique [] m = Inr m"
| "collect_unique (e # es) m =
     (if bt_get m (fst e) \<noteq> None then Inl (fst e)
      else collect_unique es (bt_insert (fst e) (snd e) m))"

lemma set_bt_insert_new: "bt_get m k = None \<Longrightarrow> set (bt_insert k v m) = insert (k, v) (set m)"
  by (induction m) (auto simp: bt_get_def split: if_splits)

lemma collect_unique_gen:
  "bt_wf m \<Longrightarrow> collect_unique es m = Inr m' \<longleftrightarrow>
     distinct (map fst es) \<and> set (map fst es) \<inter> set (map fst m) = {} \<and>
     bt_wf m' \<and> set m' = set es \<union> set m"
proof (induction es arbitrary: m)
  case Nil
  then show ?case by (auto intro: bt_wf_unique)
next
  case (Cons e es)
  show ?case
  proof (cases "bt_get m (fst e) = None")
    case True
    then have "fst e \<notin> set (map fst m)" by (simp add: bt_get_def map_of_eq_None_iff)
    then show ?thesis
      using True Cons set_bt_insert [of "fst e" "snd e" m]
      by (auto simp: bt_wf_insert set_bt_insert_new)
  next
    case False
    then have "fst e \<in> set (map fst m)" by (simp add: bt_get_def map_of_eq_None_iff)
    with False show ?thesis by auto
  qed
qed

lemma collect_unique_Inr_iff:
  "collect_unique es [] = Inr m \<longleftrightarrow> distinct (map fst es) \<and> m = sort_key fst es"
proof -
  have "collect_unique es [] = Inr m \<longleftrightarrow> distinct (map fst es) \<and> bt_wf m \<and> set m = set es"
    by (subst collect_unique_gen) (auto simp: bt_wf_def)
  also have "\<dots> \<longleftrightarrow> distinct (map fst es) \<and> m = sort_key fst es"
    by (auto intro: bt_wf_unique bt_wf_sort_key)
  finally show ?thesis .
qed

lemma collect_unique_Inl:
  "collect_unique es m = Inl k \<Longrightarrow>
     \<exists>xs e ys. es = xs @ e # ys \<and> fst e = k \<and> k \<in> set (map fst xs) \<union> set (map fst m)"
proof (induction es arbitrary: m)
  case (Cons e es)
  show ?case
  proof (cases "bt_get m (fst e) = None")
    case True
    with Cons.prems have "collect_unique es (bt_insert (fst e) (snd e) m) = Inl k" by simp
    then obtain xs e' ys where split: "es = xs @ e' # ys" "fst e' = k"
      "k \<in> set (map fst xs) \<union> set (map fst (bt_insert (fst e) (snd e) m))"
      using Cons.IH by blast
    then have "e # es = (e # xs) @ e' # ys \<and> fst e' = k \<and>
      k \<in> set (map fst (e # xs)) \<union> set (map fst m)"
      using set_bt_insert [of "fst e" "snd e" m] by auto
    then show ?thesis by blast
  next
    case False
    with Cons.prems have "fst e = k" "k \<in> set (map fst m)"
      by (auto simp: bt_get_def map_of_eq_None_iff)
    then have "e # es = [] @ e # es \<and> fst e = k \<and> k \<in> set (map fst []) \<union> set (map fst m)"
      by simp
    then show ?thesis by blast
  qed
qed simp

text \<open>Updating the value of a present key, as \<^verbatim>\<open>get_mut\<close> does.\<close>

lemma bt_update_present:
  assumes "bt_wf m" and "bt_get m k = Some v0"
  shows "map fst (bt_insert k v m) = map fst m"
    and "set (bt_insert k v m) = insert (k, v) (set m - {(k, v0)})"
proof -
  from assms show keys: "map fst (bt_insert k v m) = map fst m"
    using bt.keys_insert_present [of m k v] by (simp add: bt_keys_def)
  have "(a, b) \<in> set (bt_insert k v m) \<longleftrightarrow> (a, b) \<in> insert (k, v) (set m - {(k, v0)})" for a b
    using assms(2) unfolding bt_get_iff [OF bt_wf_insert [OF assms(1)], symmetric] insert_iff Diff_iff
      bt_get_iff [OF assms(1), symmetric] bt_get_insert by auto
  then show "set (bt_insert k v m) = insert (k, v) (set m - {(k, v0)})" by (auto simp: set_eq_iff)
qed

lemma bt_insert_mid:
  "\<forall>x\<in>set xs. fst x < k \<Longrightarrow> bt_insert k v (xs @ (k, w) # ys) = xs @ (k, v) # ys"
  by (induction xs) auto

section \<open>Ordered sets\<close>

text \<open>A \<^verbatim>\<open>BTreeSet\<close> in iteration order; insertion is \<open>insort_insert\<close> of the list library.\<close>

definition bs_insert :: "'k::linorder \<Rightarrow> 'k list \<Rightarrow> 'k list" where
  "bs_insert x xs = insort_insert x xs"

definition bs_wf :: "'k::linorder list \<Rightarrow> bool" where
  "bs_wf xs \<longleftrightarrow> sorted_wrt (<) xs"

definition bs_of_list :: "'k::linorder list \<Rightarrow> 'k list" where
  "bs_of_list xs = fold bs_insert xs []"

lemma set_bs_insert [simp]: "set (bs_insert x xs) = insert x (set xs)"
  by (simp add: bs_insert_def set_insort_insert)

lemma bs_wf_insert: "bs_wf xs \<Longrightarrow> bs_wf (bs_insert x xs)"
  by (simp add: bs_wf_def bs_insert_def strict_sorted_iff sorted_insort_insert
      distinct_insort_insert)

lemma bs_wf_Nil [simp]: "bs_wf []"
  by (simp add: bs_wf_def)

lemma bs_wf_distinct: "bs_wf xs \<Longrightarrow> distinct xs"
  by (simp add: bs_wf_def strict_sorted_iff)

lemma fold_bs_insert:
  "set (fold bs_insert ys xs) = set xs \<union> set ys"
  "bs_wf xs \<Longrightarrow> bs_wf (fold bs_insert ys xs)"
  by (induction ys arbitrary: xs) (auto simp: bs_wf_insert)

lemma set_bs_of_list [simp]: "set (bs_of_list xs) = set xs"
  by (simp add: bs_of_list_def fold_bs_insert)

lemma bs_wf_of_list [simp]: "bs_wf (bs_of_list xs)"
  by (simp add: bs_of_list_def fold_bs_insert)

lemma bs_of_list_eq: "bs_of_list xs = sorted_list_of_set (set xs)"
proof (rule strict_sorted_equal)
  show "sorted_wrt (<) (bs_of_list xs)" using bs_wf_of_list [of xs] by (simp add: bs_wf_def)
qed simp_all

end
