(* ===== verification/Octa_Contracts.thy ===== *)
theory Octa_Contracts
  imports Octa_Containers
begin

text \<open>
  The contracts shared by several components: transition systems with terminal states, the
  same with a rank that bounds every run, invariants of record transitions, optimistic versions, and dependency
  graphs given by the direct predecessors of each node.
\<close>

section \<open>Runs of a fallible transition function\<close>

primrec run_events :: "('s \<Rightarrow> 'e \<Rightarrow> 'err + 's) \<Rightarrow> 's \<Rightarrow> 'e list \<Rightarrow> 'err + 's" where
  "run_events step s [] = Inr s"
| "run_events step s (e # es) = and_then (step s e) (\<lambda>s'. run_events step s' es)"

inductive reachable :: "('s \<Rightarrow> 'e \<Rightarrow> 'err + 's) \<Rightarrow> 's \<Rightarrow> 's \<Rightarrow> bool"
  for step :: "'s \<Rightarrow> 'e \<Rightarrow> 'err + 's" and s0 :: 's where
  start: "reachable step s0 s0"
| advance: "reachable step s0 s \<Longrightarrow> step s e = Inr s' \<Longrightarrow> reachable step s0 s'"

lemma run_events_append:
  "run_events step s (es @ fs) = and_then (run_events step s es) (\<lambda>s'. run_events step s' fs)"
proof (induction es arbitrary: s)
  case (Cons e es)
  then show ?case by (cases "step s e") simp_all
qed simp

lemma reachable_iff_run: "reachable step s0 s \<longleftrightarrow> (\<exists>es. run_events step s0 es = Inr s)"
proof
  assume "reachable step s0 s"
  then show "\<exists>es. run_events step s0 es = Inr s"
  proof induction
    case start
    have "run_events step s0 [] = Inr s0" by simp
    then show ?case ..
  next
    case (advance s e s')
    then obtain es where "run_events step s0 es = Inr s" by blast
    with advance.hyps(2) have "run_events step s0 (es @ [e]) = Inr s'"
      by (simp add: run_events_append)
    then show ?case ..
  qed
next
  assume "\<exists>es. run_events step s0 es = Inr s"
  then obtain es where "run_events step s0 es = Inr s" ..
  then show "reachable step s0 s"
  proof (induction es arbitrary: s rule: rev_induct)
    case Nil
    then show ?case by (simp add: reachable.start)
  next
    case (snoc e es)
    then obtain t where "run_events step s0 es = Inr t" "step t e = Inr s"
      by (auto simp: run_events_append res_simps)
    then show ?case by (blast intro: snoc.IH reachable.advance [of step s0 t e s])
  qed
qed

text \<open>A component whose accepted transitions keep an invariant.\<close>

locale invariant_system =
  fixes step :: "'s \<Rightarrow> 'e \<Rightarrow> 'err + 's"
    and inv :: "'s \<Rightarrow> bool"
  assumes step_inv: "inv s \<Longrightarrow> step s e = Inr s' \<Longrightarrow> inv s'"
begin

lemma reachable_inv: "reachable step s0 s \<Longrightarrow> inv s0 \<Longrightarrow> inv s"
  by (induction rule: reachable.induct) (auto intro: step_inv)

lemma run_inv: "run_events step s0 es = Inr s \<Longrightarrow> inv s0 \<Longrightarrow> inv s"
  using reachable_inv by (metis reachable_iff_run)

end

text \<open>A lifecycle with terminal states: no accepted event leaves one of them.\<close>

locale lifecycle =
  fixes step :: "'s \<Rightarrow> 'e \<Rightarrow> 'err + 's"
    and terminal :: "'s \<Rightarrow> bool"
  assumes terminal_stays: "terminal s \<Longrightarrow> step s e = Inr s' \<Longrightarrow> s' = s"
begin

lemma run_terminal: "terminal s \<Longrightarrow> run_events step s es = Inr s' \<Longrightarrow> s' = s"
proof (induction es arbitrary: s)
  case (Cons e es)
  then show ?case using terminal_stays by (auto simp: res_simps)
qed simp

lemma reachable_from_terminal: "reachable step s0 s \<Longrightarrow> terminal s0 \<Longrightarrow> s = s0"
  using run_terminal by (metis reachable_iff_run)

end

text \<open>A lifecycle in which every accepted event decreases a rank: every run is bounded.\<close>

locale ranked_lifecycle = lifecycle +
  fixes rank :: "'a \<Rightarrow> nat"
  assumes rank_decreases: "step s e = Inr s' \<Longrightarrow> rank s' < rank s"
begin

lemma run_bounded: "run_events step s es = Inr s' \<Longrightarrow> rank s' + length es \<le> rank s"
proof (induction es arbitrary: s)
  case (Cons e es)
  then obtain t where t: "step s e = Inr t" "run_events step t es = Inr s'"
    by (auto simp: res_simps)
  from Cons.IH [OF t(2)] rank_decreases [OF t(1)] show ?case by simp
qed simp

end

text \<open>An entity with an optimistic version: every accepted mutation moves to the next version.\<close>

locale versioned_entity =
  fixes step :: "'s \<Rightarrow> 'e \<Rightarrow> 'err + 's"
    and version :: "'s \<Rightarrow> u64"
  assumes version_step: "step s e = Inr s' \<Longrightarrow> checked_add (version s) 1 = Some (version s')"
begin

lemma version_run: "run_events step s es = Inr s' \<Longrightarrow> unat (version s') = unat (version s) + length es"
proof (induction es arbitrary: s)
  case (Cons e es)
  then obtain t where t: "step s e = Inr t" "run_events step t es = Inr s'" by (auto simp: res_simps)
  from unat_checked_add [OF version_step [OF t(1)]] Cons.IH [OF t(2)] show ?case by simp
qed simp

end

section \<open>Dependency graphs\<close>

definition dep_rel :: "'a set \<Rightarrow> ('a \<Rightarrow> 'a set) \<Rightarrow> ('a \<times> 'a) set" where
  "dep_rel N p = {(d, n). n \<in> N \<and> d \<in> p n}"

text \<open>\<open>topo_from p S xs\<close>: every element of \<open>xs\<close> is new and comes after its predecessors, where
  the elements of \<open>S\<close> came before.\<close>

primrec topo_from :: "('a \<Rightarrow> 'a set) \<Rightarrow> 'a set \<Rightarrow> 'a list \<Rightarrow> bool" where
  "topo_from p S [] = True"
| "topo_from p S (x # xs) = (x \<notin> S \<and> p x \<subseteq> S \<and> topo_from p (insert x S) xs)"

lemma topo_from_append:
  "topo_from p S (xs @ ys) \<longleftrightarrow> topo_from p S xs \<and> topo_from p (S \<union> set xs) ys"
  by (induction xs arbitrary: S) auto

lemma topo_from_distinct: "topo_from p S xs \<Longrightarrow> distinct xs \<and> set xs \<inter> S = {}"
  by (induction xs arbitrary: S) force+

lemma topo_from_before:
  assumes "topo_from p S xs" and "xs = ys @ n # zs" and "d \<in> p n"
  shows "d \<in> S \<union> set ys"
  using assms by (auto simp: topo_from_append)

lemma topo_acyclic:
  assumes "topo_from p {} xs" and "set xs = N"
  shows "acyclic (dep_rel N p)"
proof -
  let ?pos = "\<lambda>x. length (takeWhile (\<lambda>y. y \<noteq> x) xs)"
  have "?pos d < ?pos n" if "n \<in> N" "d \<in> p n" for d n
  proof -
    from that(1) assms(2) obtain ys zs where xs: "xs = ys @ n # zs" and n: "n \<notin> set ys"
      by (auto dest: split_list_first)
    from topo_from_before [OF assms(1) xs that(2)] have "d \<in> set ys" by simp
    then have "?pos d < length ys"
      by (auto simp: xs takeWhile_append dest!: split_list_first)
    moreover have "?pos n = length ys" using n by (subst xs) (auto simp: takeWhile_append)
    ultimately show ?thesis by simp
  qed
  then have "dep_rel N p \<subseteq> measure ?pos" by (auto simp: dep_rel_def)
  then show ?thesis by (rule wf_acyclic [OF wf_subset [OF wf_measure]])
qed

lemma acyclic_progress:
  assumes "finite N" and "\<forall>n\<in>N. p n \<subseteq> N" and "acyclic (dep_rel N p)" and "\<not> N \<subseteq> S"
  shows "\<exists>n\<in>N - S. p n \<subseteq> S"
proof -
  have "dep_rel N p \<subseteq> N \<times> N" using assms(2) by (auto simp: dep_rel_def)
  then have "finite (dep_rel N p)" using assms(1) by (metis finite_SigmaI finite_subset)
  then have "wf (dep_rel N p)" using assms(3) by (rule finite_acyclic_wf)
  moreover obtain x where "x \<in> N - S" using assms(4) by blast
  ultimately obtain n where n: "n \<in> N - S" "\<And>y. (y, n) \<in> dep_rel N p \<Longrightarrow> y \<notin> N - S"
    by (metis wfE_min)
  have "p n \<subseteq> S"
  proof
    fix d assume "d \<in> p n"
    with n have "d \<notin> N - S" by (auto simp: dep_rel_def)
    with \<open>d \<in> p n\<close> n(1) assms(2) show "d \<in> S" by blast
  qed
  with n(1) show ?thesis by blast
qed

text \<open>A component that holds dependency graphs: the nodes of a graph in a fixed order and the
  direct predecessors of a node. A well-formed graph has its predecessors among its nodes.\<close>

locale dependency_source =
  fixes nodes :: "'g \<Rightarrow> 'a list"
    and preds :: "'g \<Rightarrow> 'a \<Rightarrow> 'a set"
    and closed :: "'g \<Rightarrow> bool"
  assumes preds_in_nodes: "closed g \<Longrightarrow> n \<in> set (nodes g) \<Longrightarrow> preds g n \<subseteq> set (nodes g)"
begin

definition acyclic_graph :: "'g \<Rightarrow> bool" where
  "acyclic_graph g \<longleftrightarrow> acyclic (dep_rel (set (nodes g)) (preds g))"

lemma progress:
  "closed g \<Longrightarrow> acyclic_graph g \<Longrightarrow> \<not> set (nodes g) \<subseteq> S \<Longrightarrow>
     \<exists>n\<in>set (nodes g) - S. preds g n \<subseteq> S"
  unfolding acyclic_graph_def using preds_in_nodes by (intro acyclic_progress) auto

lemma acyclic_of_order:
  "topo_from (preds g) {} xs \<Longrightarrow> set xs = set (nodes g) \<Longrightarrow> acyclic_graph g"
  unfolding acyclic_graph_def by (rule topo_acyclic)

lemma dependency_induct:
  assumes "closed g" and "acyclic_graph g" and "n \<in> set (nodes g)"
    and step: "\<And>n. n \<in> set (nodes g) \<Longrightarrow> (\<And>d. d \<in> preds g n \<Longrightarrow> P d) \<Longrightarrow> P n"
  shows "P n"
proof (rule ccontr)
  assume "\<not> P n"
  let ?S = "{x. P x}"
  from \<open>\<not> P n\<close> assms(3) have "\<not> set (nodes g) \<subseteq> ?S" by blast
  from progress [OF assms(1,2) this] obtain m where
    "m \<in> set (nodes g)" "\<not> P m" "preds g m \<subseteq> ?S" by blast
  with step [of m] show False by blast
qed

end

end
