(* ===== verification/Domain.thy ===== *)
theory Domain
  imports Octa_Contracts
begin

text \<open>
  Value objects of \<^verbatim>\<open>server/core/octacity-server-domain\<close>: entity kinds, typed errors, opaque
  identifiers, positive versions and attempt numbers, bounded names and identities, timestamps,
  runtime classes and artifact ceilings. Every constructor of the source is a function into \<open>domain_value_error + _\<close>, with the reasons in the order the code tests
  them.
\<close>

section \<open>Errors\<close>

datatype EntityKind =
    EK_Project | EK_Issue | EK_IssueWorkflow | EK_Configuration | EK_FlowDefinition
  | EK_FactoryConfiguration | EK_FactoryRole | EK_FactoryRoleProfile | EK_WorkEnvelope
  | EK_FactoryRun | EK_Pipeline | EK_Repository | EK_Build | EK_Attempt | EK_Job | EK_Pool
  | EK_Agent | EK_AgentEnrollmentCredential | EK_AgentRegistration | EK_Lease | EK_Artifact
  | EK_ArtifactUpload | EK_Integration | EK_Trigger | EK_PipelineNode | EK_CacheSession
  | EK_Orchestration | EK_LogChunk | EK_LogIndexingWork | EK_RetentionWork | EK_RetentionHold
  | EK_AuditFact

datatype IdentifierErrorKind = Identifier_Malformed | Identifier_Nil | Identifier_NonCanonical

datatype TextErrorKind =
    Text_Empty | Text_TooLong | Text_SurroundingWhitespace | Text_ControlCharacter
  | Text_InvalidCharacter | Text_InvalidStart

datatype VersionErrorKind = Version_Zero | Version_Overflow

datatype TimestampErrorKind = Timestamp_OutOfRange

datatype DomainValueError =
    InvalidIdentifier EntityKind IdentifierErrorKind
  | InvalidName EntityKind TextErrorKind
  | InvalidVersion EntityKind VersionErrorKind
  | InvalidAttemptNumber VersionErrorKind
  | InvalidTimestamp TimestampErrorKind
  | InvalidTriggerIdentity TextErrorKind
  | InvalidPipelineNodeIdentity TextErrorKind

datatype DomainError =
    DE_InvalidValue DomainValueError
  | DE_NotFound EntityKind
  | DE_AlreadyExists EntityKind
  | DE_Conflict EntityKind
  | DE_VersionConflict EntityKind u64 u64
  | DE_InvalidTransition EntityKind
  | DE_PolicyViolation EntityKind
  | DE_LimitExceeded EntityKind

text \<open>\<^verbatim>\<open>TransitionError<S, E>\<close>: the entity, the state that was kept and the rejected event.\<close>

datatype ('s, 'e) TransitionError = TransitionError EntityKind 's 'e

fun transition_error_into_domain :: "('s, 'e) TransitionError \<Rightarrow> DomainError" where
  "transition_error_into_domain (TransitionError k s e) = DE_InvalidTransition k"

section \<open>Identifiers\<close>

text \<open>\<^verbatim>\<open>opaque_id!\<close>: every identifier type is a non-nil UUID. Parsing and printing of UUID text belong to
  the uuid crate and are the arguments \<open>parse\<close> and \<open>hyphenated\<close>.\<close>

definition id_from_uuid :: "EntityKind \<Rightarrow> uuid \<Rightarrow> DomainValueError + uuid" where
  "id_from_uuid entity value =
     (if value = 0 then Inl (InvalidIdentifier entity Identifier_Nil) else Inr value)"

definition id_from_str ::
  "(rstr \<Rightarrow> uuid option) \<Rightarrow> (uuid \<Rightarrow> rstr) \<Rightarrow> EntityKind \<Rightarrow> rstr \<Rightarrow> DomainValueError + uuid"
where
  "id_from_str parse hyphenated entity value =
     and_then (ok_or (InvalidIdentifier entity Identifier_Malformed) (parse value)) (\<lambda>parsed.
       if parsed = 0 then Inl (InvalidIdentifier entity Identifier_Nil)
       else if hyphenated parsed \<noteq> value then Inl (InvalidIdentifier entity Identifier_NonCanonical)
       else Inr parsed)"

section \<open>Versions\<close>

text \<open>\<^verbatim>\<open>positive_version!\<close> and \<^verbatim>\<open>AttemptNumber\<close> wrap a \<^verbatim>\<open>NonZeroU64\<close>.\<close>

definition version_initial :: u64 where
  "version_initial = 1"

definition version_new :: "EntityKind \<Rightarrow> u64 \<Rightarrow> DomainValueError + u64" where
  "version_new entity value =
     (if value = 0 then Inl (InvalidVersion entity Version_Zero) else Inr value)"

definition version_next :: "EntityKind \<Rightarrow> u64 \<Rightarrow> DomainValueError + u64" where
  "version_next entity value =
     ok_or (InvalidVersion entity Version_Overflow) (checked_add value 1)"

definition attempt_number_first :: u64 where
  "attempt_number_first = 1"

definition attempt_number_new :: "u64 \<Rightarrow> DomainValueError + u64" where
  "attempt_number_new value =
     (if value = 0 then Inl (InvalidAttemptNumber Version_Zero) else Inr value)"

definition attempt_number_next :: "u64 \<Rightarrow> DomainValueError + u64" where
  "attempt_number_next value = ok_or (InvalidAttemptNumber Version_Overflow) (checked_add value 1)"

section \<open>Names and identities\<close>

definition MAX_RESOURCE_NAME_BYTES :: nat where "MAX_RESOURCE_NAME_BYTES = 128"
definition MAX_ARTIFACT_NAME_BYTES :: nat where "MAX_ARTIFACT_NAME_BYTES = 256"
definition MAX_TRIGGER_IDENTITY_BYTES :: nat where "MAX_TRIGGER_IDENTITY_BYTES = 256"
definition MAX_PIPELINE_NODE_ID_BYTES :: nat where "MAX_PIPELINE_NODE_ID_BYTES = 128"

definition validate_name :: "rstr \<Rightarrow> EntityKind \<Rightarrow> nat \<Rightarrow> DomainValueError + unit" where
  "validate_name value entity max_bytes =
     (let reason =
        (if value = [] then Some Text_Empty
         else if max_bytes < str_len value then Some Text_TooLong
         else if trim value \<noteq> value then Some Text_SurroundingWhitespace
         else if list_ex is_control value then Some Text_ControlCharacter
         else None)
      in case reason of Some r \<Rightarrow> Inl (InvalidName entity r) | None \<Rightarrow> Inr ())"

text \<open>\<^verbatim>\<open>bounded_name!\<close>: the constructor of every display name.\<close>

definition name_new :: "EntityKind \<Rightarrow> nat \<Rightarrow> rstr \<Rightarrow> DomainValueError + rstr" where
  "name_new entity max_bytes value =
     and_then (validate_name value entity max_bytes) (\<lambda>_. Inr value)"

definition trigger_identity_new :: "rstr \<Rightarrow> DomainValueError + rstr" where
  "trigger_identity_new value =
     (let reason =
        (if value = [] then Some Text_Empty
         else if MAX_TRIGGER_IDENTITY_BYTES < str_len value then Some Text_TooLong
         else if trim value \<noteq> value then Some Text_SurroundingWhitespace
         else if list_ex is_control value then Some Text_ControlCharacter
         else None)
      in case reason of Some r \<Rightarrow> Inl (InvalidTriggerIdentity r) | None \<Rightarrow> Inr value)"

definition pipeline_node_id_tail :: "rchar \<Rightarrow> bool" where
  "pipeline_node_id_tail c \<longleftrightarrow> is_ascii_alphanumeric c \<or> c = 46 \<or> c = 95 \<or> c = 45"

definition pipeline_node_id_new :: "rstr \<Rightarrow> DomainValueError + rstr" where
  "pipeline_node_id_new value =
     (let reason =
        (if value = [] then Some Text_Empty
         else if MAX_PIPELINE_NODE_ID_BYTES < str_len value then Some Text_TooLong
         else if \<not> (case value of [] \<Rightarrow> False | c # _ \<Rightarrow> is_ascii_alphanumeric c)
           then Some Text_InvalidStart
         else if \<not> list_all pipeline_node_id_tail (tl value) then Some Text_InvalidCharacter
         else None)
      in case reason of Some r \<Rightarrow> Inl (InvalidPipelineNodeIdentity r) | None \<Rightarrow> Inr value)"

section \<open>Timestamps\<close>

definition MIN_TIMESTAMP_MILLIS :: int where "MIN_TIMESTAMP_MILLIS = -62135596800000"
definition MAX_TIMESTAMP_MILLIS :: int where "MAX_TIMESTAMP_MILLIS = 253402300799999"

text \<open>A \<^verbatim>\<open>Timestamp\<close> is its Unix millisecond count.\<close>

type_synonym timestamp = int

definition timestamp_ok :: "timestamp \<Rightarrow> bool" where
  "timestamp_ok t \<longleftrightarrow> MIN_TIMESTAMP_MILLIS \<le> t \<and> t \<le> MAX_TIMESTAMP_MILLIS"

definition from_unix_millis :: "int \<Rightarrow> DomainValueError + timestamp" where
  "from_unix_millis value =
     (if \<not> (MIN_TIMESTAMP_MILLIS \<le> value \<and> value \<le> MAX_TIMESTAMP_MILLIS)
      then Inl (InvalidTimestamp Timestamp_OutOfRange) else Inr value)"

section \<open>Execution policy\<close>

datatype RuntimeClass =
    RC_Native | RC_OciProcess | RC_OciHypervisor | RC_Host | RC_Isolation | RC_Virtualization

definition runtime_class_is_legacy :: "RuntimeClass \<Rightarrow> bool" where
  "runtime_class_is_legacy c = (case c of
     RC_Native \<Rightarrow> True | RC_OciProcess \<Rightarrow> True | RC_OciHypervisor \<Rightarrow> True | _ \<Rightarrow> False)"

record ArtifactPolicy =
  artifact_count :: u32
  artifact_bytes :: u64
  report_count :: u32
  report_bytes :: u64
  single_output_bytes :: u64

definition artifact_policy_validate :: "ArtifactPolicy \<Rightarrow> unit + unit" where
  "artifact_policy_validate p =
     (let artifact_shape = ((artifact_count p = 0) = (artifact_bytes p = 0));
          report_shape = ((report_count p = 0) = (report_bytes p = 0))
      in if \<not> artifact_shape
           \<or> \<not> report_shape
           \<or> (0 < artifact_count p \<or> 0 < report_count p) \<and> single_output_bytes p = 0
           \<or> 0 < artifact_count p \<and> artifact_bytes p < single_output_bytes p
           \<or> 0 < report_count p \<and> report_bytes p < single_output_bytes p
         then Inl () else Inr ())"

end
