(* ===== verification/Job_State.thy ===== *)
theory Job_State
  imports Domain
begin

text \<open>
  The durable Job state machine of \<^verbatim>\<open>server/core/octacity-server-job/src/lib.rs\<close>: states,
  events, the transition function with its typed rejection, and the terminal states. It is
  interpreted as a \<open>lifecycle\<close>, so no accepted event leaves a terminal state.
\<close>

datatype JobState =
    Job_Blocked | Job_Ready | Job_Leased | Job_Running | Job_Cancelling
  | Job_Succeeded | Job_Failed | Job_Cancelled | Job_Skipped

datatype JobFailureClass = Failure_Execution | Failure_Infrastructure

datatype JobEvent =
    Ev_DependenciesSatisfied | Ev_DependencyFailed | Ev_LeaseGranted | Ev_ExecutionStarted
  | Ev_CancellationRequested | Ev_LeaseLost | Ev_Succeed | Ev_Fail | Ev_Cancel

type_synonym job_id = uuid

fun job_transition :: "JobState \<Rightarrow> JobEvent \<Rightarrow> (JobState, JobEvent) TransitionError + JobState" where
  "job_transition Job_Blocked Ev_DependenciesSatisfied = Inr Job_Ready"
| "job_transition Job_Blocked Ev_DependencyFailed = Inr Job_Skipped"
| "job_transition Job_Blocked Ev_CancellationRequested = Inr Job_Cancelled"
| "job_transition Job_Ready Ev_CancellationRequested = Inr Job_Cancelled"
| "job_transition Job_Ready Ev_LeaseGranted = Inr Job_Leased"
| "job_transition Job_Leased Ev_ExecutionStarted = Inr Job_Running"
| "job_transition Job_Leased Ev_CancellationRequested = Inr Job_Cancelling"
| "job_transition Job_Running Ev_CancellationRequested = Inr Job_Cancelling"
| "job_transition Job_Leased Ev_LeaseLost = Inr Job_Ready"
| "job_transition Job_Running Ev_LeaseLost = Inr Job_Ready"
| "job_transition Job_Cancelling Ev_LeaseLost = Inr Job_Cancelled"
| "job_transition Job_Cancelling Ev_Cancel = Inr Job_Cancelled"
| "job_transition Job_Running Ev_Succeed = Inr Job_Succeeded"
| "job_transition Job_Cancelling Ev_Succeed = Inr Job_Succeeded"
| "job_transition Job_Running Ev_Fail = Inr Job_Failed"
| "job_transition Job_Cancelling Ev_Fail = Inr Job_Failed"
| "job_transition Job_Running Ev_Cancel = Inr Job_Cancelled"
| "job_transition s e = Inl (TransitionError EK_Job s e)"

definition job_is_terminal :: "JobState \<Rightarrow> bool" where
  "job_is_terminal s = (case s of
     Job_Succeeded \<Rightarrow> True | Job_Failed \<Rightarrow> True | Job_Cancelled \<Rightarrow> True | Job_Skipped \<Rightarrow> True | _ \<Rightarrow> False)"

lemma job_transition_error:
  "job_transition s e = Inl err \<Longrightarrow> err = TransitionError EK_Job s e"
  by (cases s; cases e) simp_all

lemma job_terminal_rejects: "job_is_terminal s \<Longrightarrow> \<not> is_ok (job_transition s e)"
  by (cases s; cases e) (simp_all add: job_is_terminal_def)

lemma job_nonterminal_accepts: "\<not> job_is_terminal s \<Longrightarrow> \<exists>e. is_ok (job_transition s e)"
  by (cases s) (auto simp: job_is_terminal_def intro: exI [of _ Ev_CancellationRequested]
      exI [of _ Ev_Cancel])

interpretation job: lifecycle job_transition job_is_terminal
proof
  fix s e s' assume "job_is_terminal s" "job_transition s e = Inr s'"
  with job_terminal_rejects [of s e] show "s' = s" by simp
qed

text \<open>States in which a Job can still be handed to, or is owned by, an Agent.\<close>

definition job_is_live :: "JobState \<Rightarrow> bool" where
  "job_is_live s \<longleftrightarrow> s = Job_Ready \<or> s = Job_Leased \<or> s = Job_Running \<or> s = Job_Cancelling"

lemma job_state_trichotomy: "s = Job_Blocked \<or> job_is_live s \<or> job_is_terminal s"
  by (cases s) (simp_all add: job_is_live_def job_is_terminal_def)

text \<open>The states from which cancellation is no longer pending or already decided.\<close>

definition job_cancellation_settled :: "JobState \<Rightarrow> bool" where
  "job_cancellation_settled s \<longleftrightarrow> s = Job_Cancelling \<or> job_is_terminal s"

interpretation job_cancel: invariant_system job_transition job_cancellation_settled
proof
  fix s e s' assume "job_cancellation_settled s" "job_transition s e = Inr s'"
  then show "job_cancellation_settled s'"
    by (cases s; cases e) (simp_all add: job_cancellation_settled_def job_is_terminal_def)
qed

section \<open>Properties\<close>

text \<open>A cancelled Job is never handed out again (C36): once cancellation has been requested of a Job
  that is leased or running, no sequence of accepted events, a lost lease included, brings it back
  to a state in which it can be leased or run, and a terminal state is never left.\<close>

theorem job_cancellation_final:
  assumes "job_transition s Ev_CancellationRequested = Inr s'" and "run_events job_transition s' es = Inr t"
  shows "t \<in> {Job_Cancelling, Job_Succeeded, Job_Failed, Job_Cancelled, Job_Skipped} \<and>
    (job_is_terminal s' \<longrightarrow> t = s')"
proof -
  have "job_cancellation_settled s'"
    using assms(1) by (cases s) (auto simp: job_cancellation_settled_def job_is_terminal_def)
  with assms(2) have "job_cancellation_settled t" by (rule job_cancel.run_inv)
  then have "t \<in> {Job_Cancelling, Job_Succeeded, Job_Failed, Job_Cancelled, Job_Skipped}"
    by (cases t) (simp_all add: job_cancellation_settled_def job_is_terminal_def)
  moreover have "t = s'" if "job_is_terminal s'" using that assms(2) by (rule job.run_terminal)
  ultimately show ?thesis by blast
qed

theorem job_cancellation_final_witness:
  "Job_Cancelled \<in> {Job_Cancelling, Job_Succeeded, Job_Failed, Job_Cancelled, Job_Skipped} \<and>
   run_events job_transition Job_Cancelling [Ev_LeaseLost] = Inr Job_Cancelled"
  using job_cancellation_final [of Job_Running Job_Cancelling "[Ev_LeaseLost]" Job_Cancelled] by simp

end
