(* ===== verification/Orchestrator_State.thy ===== *)
theory Orchestrator_State
  imports Job_State
begin

text \<open>
  Aggregate state machines of \<^verbatim>\<open>server/core/octacity-server-orchestrator\<close>: Attempt, Build and
  reconciliation cycle, the retry decision and the propagation of a cancellation through the
  Jobs of one Attempt.
\<close>

section \<open>Attempt\<close>

datatype AttemptState =
  Attempt_Created | Attempt_Running | Attempt_Succeeded | Attempt_Failed | Attempt_Cancelled

datatype AttemptEvent = AE_Start | AE_Succeed | AE_Fail | AE_Cancel

fun attempt_transition ::
  "AttemptState \<Rightarrow> AttemptEvent \<Rightarrow> (AttemptState, AttemptEvent) TransitionError + AttemptState"
where
  "attempt_transition Attempt_Created AE_Start = Inr Attempt_Running"
| "attempt_transition Attempt_Created AE_Cancel = Inr Attempt_Cancelled"
| "attempt_transition Attempt_Running AE_Cancel = Inr Attempt_Cancelled"
| "attempt_transition Attempt_Running AE_Succeed = Inr Attempt_Succeeded"
| "attempt_transition Attempt_Running AE_Fail = Inr Attempt_Failed"
| "attempt_transition s e = Inl (TransitionError EK_Attempt s e)"

definition attempt_is_terminal :: "AttemptState \<Rightarrow> bool" where
  "attempt_is_terminal s = (case s of
     Attempt_Succeeded \<Rightarrow> True | Attempt_Failed \<Rightarrow> True | Attempt_Cancelled \<Rightarrow> True | _ \<Rightarrow> False)"

section \<open>Build\<close>

datatype BuildState =
  Build_Queued | Build_Running | Build_Succeeded | Build_Failed | Build_Cancelled

datatype BuildEvent = BE_Start | BE_Succeed | BE_Fail | BE_Cancel | BE_Retry

fun build_transition ::
  "BuildState \<Rightarrow> BuildEvent \<Rightarrow> (BuildState, BuildEvent) TransitionError + BuildState"
where
  "build_transition Build_Queued BE_Start = Inr Build_Running"
| "build_transition Build_Queued BE_Cancel = Inr Build_Cancelled"
| "build_transition Build_Running BE_Cancel = Inr Build_Cancelled"
| "build_transition Build_Running BE_Succeed = Inr Build_Succeeded"
| "build_transition Build_Running BE_Fail = Inr Build_Failed"
| "build_transition Build_Failed BE_Retry = Inr Build_Queued"
| "build_transition s e = Inl (TransitionError EK_Build s e)"

definition build_is_terminal :: "BuildState \<Rightarrow> bool" where
  "build_is_terminal s = (case s of
     Build_Succeeded \<Rightarrow> True | Build_Failed \<Rightarrow> True | Build_Cancelled \<Rightarrow> True | _ \<Rightarrow> False)"

section \<open>Reconciliation cycle\<close>

datatype OrchestrationState =
  Orch_Pending | Orch_Reconciling | Orch_Waiting | Orch_Completed | Orch_Failed

datatype OrchestrationEvent = OE_Begin | OE_Wait | OE_Resume | OE_Complete | OE_Fail | OE_Retry

fun orchestration_transition ::
  "OrchestrationState \<Rightarrow> OrchestrationEvent \<Rightarrow>
     (OrchestrationState, OrchestrationEvent) TransitionError + OrchestrationState"
where
  "orchestration_transition Orch_Pending OE_Begin = Inr Orch_Reconciling"
| "orchestration_transition Orch_Reconciling OE_Wait = Inr Orch_Waiting"
| "orchestration_transition Orch_Reconciling OE_Complete = Inr Orch_Completed"
| "orchestration_transition Orch_Reconciling OE_Fail = Inr Orch_Failed"
| "orchestration_transition Orch_Waiting OE_Resume = Inr Orch_Pending"
| "orchestration_transition Orch_Failed OE_Retry = Inr Orch_Pending"
| "orchestration_transition s e = Inl (TransitionError EK_Orchestration s e)"

definition orchestration_is_terminal :: "OrchestrationState \<Rightarrow> bool" where
  "orchestration_is_terminal s \<longleftrightarrow> s = Orch_Completed"

section \<open>Retry\<close>

record RetryDecision =
  rd_attempt_number :: u64
  rd_attempt_state :: AttemptState
  rd_build_state :: BuildState

datatype RetryDecisionError = BuildNotFailed | AttemptNotFailed | AttemptNumberOverflow

definition decide_retry :: "BuildState \<Rightarrow> AttemptState \<Rightarrow> u64 \<Rightarrow> RetryDecisionError + RetryDecision" where
  "decide_retry build_state attempt_state latest_attempt_number =
     and_then (map_err (\<lambda>_. BuildNotFailed) (build_transition build_state BE_Retry)) (\<lambda>queued.
     and_then (ensure (attempt_state = Attempt_Failed) AttemptNotFailed) (\<lambda>_.
     and_then (map_err (\<lambda>_. BuildNotFailed) (build_transition queued BE_Start)) (\<lambda>build_state'.
     and_then (map_err (\<lambda>_. AttemptNotFailed) (attempt_transition Attempt_Created AE_Start))
       (\<lambda>attempt_state'.
     and_then (map_err (\<lambda>_. AttemptNumberOverflow) (attempt_number_next latest_attempt_number))
       (\<lambda>attempt_number.
     Inr \<lparr>rd_attempt_number = attempt_number, rd_attempt_state = attempt_state',
          rd_build_state = build_state'\<rparr>)))))"

section \<open>Cancellation\<close>

record CancellationDecision =
  cd_transitions :: "(job_id \<times> JobState) list"
  cd_attempt_state :: AttemptState
  cd_build_state :: BuildState

datatype CancellationError =
    CE_BuildNotActive
  | CE_AttemptNotActive
  | CE_EmptyAttempt
  | CE_DuplicateJob job_id
  | CE_InvalidTransition job_id

text \<open>The state selected for one Job: \<^verbatim>\<open>Some(state.transition(CancellationRequested)?)\<close> for the four
  active states and \<^verbatim>\<open>None\<close> for the others.\<close>

definition cancel_next :: "job_id \<Rightarrow> JobState \<Rightarrow> CancellationError + JobState option" where
  "cancel_next job_id state = (case state of
     Job_Blocked \<Rightarrow> map_ok Some (map_err (\<lambda>_. CE_InvalidTransition job_id)
       (job_transition state Ev_CancellationRequested))
   | Job_Ready \<Rightarrow> map_ok Some (map_err (\<lambda>_. CE_InvalidTransition job_id)
       (job_transition state Ev_CancellationRequested))
   | Job_Leased \<Rightarrow> map_ok Some (map_err (\<lambda>_. CE_InvalidTransition job_id)
       (job_transition state Ev_CancellationRequested))
   | Job_Running \<Rightarrow> map_ok Some (map_err (\<lambda>_. CE_InvalidTransition job_id)
       (job_transition state Ev_CancellationRequested))
   | _ \<Rightarrow> Inr None)"

text \<open>The loop over the collected Jobs: the transitions in order and the updated state map.\<close>

primrec cancel_loop ::
  "(job_id \<times> JobState) list \<Rightarrow> (job_id \<times> JobState) list \<times> (job_id, JobState) btree \<Rightarrow>
     CancellationError + (job_id \<times> JobState) list \<times> (job_id, JobState) btree"
where
  "cancel_loop [] acc = Inr acc"
| "cancel_loop (e # es) acc =
     and_then (cancel_next (fst e) (snd e)) (\<lambda>next.
       case next of
         Some s \<Rightarrow> cancel_loop es (fst acc @ [(fst e, s)], bt_insert (fst e) s (snd acc))
       | None \<Rightarrow> cancel_loop es acc)"

definition cancel_job_states ::
  "BuildState \<Rightarrow> AttemptState \<Rightarrow> (job_id \<times> JobState) list \<Rightarrow> CancellationError + CancellationDecision"
where
  "cancel_job_states build_state attempt_state jobs =
     (if \<not> (build_state = Build_Queued \<or> build_state = Build_Running) then Inl CE_BuildNotActive
      else if \<not> (attempt_state = Attempt_Created \<or> attempt_state = Attempt_Running)
        then Inl CE_AttemptNotActive
      else and_then (map_err CE_DuplicateJob (collect_unique jobs [])) (\<lambda>states.
        if states = [] then Inl CE_EmptyAttempt
        else and_then (cancel_loop states ([], states)) (\<lambda>(transitions, states').
          let cancellation_pending = list_ex (\<lambda>s. s = Job_Cancelling) (bt_values states')
          in Inr \<lparr>cd_transitions = transitions,
               cd_attempt_state =
                 (if cancellation_pending then Attempt_Running else Attempt_Cancelled),
               cd_build_state =
                 (if cancellation_pending then Build_Running else Build_Cancelled)\<rparr>)))"

section \<open>Lifecycle facts\<close>

primrec attempt_rank :: "AttemptState \<Rightarrow> nat" where
  "attempt_rank Attempt_Created = 2"
| "attempt_rank Attempt_Running = 1"
| "attempt_rank Attempt_Succeeded = 0"
| "attempt_rank Attempt_Failed = 0"
| "attempt_rank Attempt_Cancelled = 0"

interpretation attempt: ranked_lifecycle attempt_transition attempt_is_terminal attempt_rank
proof
  fix s e s'
  show "attempt_is_terminal s \<Longrightarrow> attempt_transition s e = Inr s' \<Longrightarrow> s' = s"
    by (cases s; cases e) (simp_all add: attempt_is_terminal_def)
  show "attempt_transition s e = Inr s' \<Longrightarrow> attempt_rank s' < attempt_rank s"
    by (cases s; cases e) auto
qed

interpretation orchestration: lifecycle orchestration_transition orchestration_is_terminal
proof
  fix s e s'
  show "orchestration_is_terminal s \<Longrightarrow> orchestration_transition s e = Inr s' \<Longrightarrow> s' = s"
    by (cases s; cases e) (simp_all add: orchestration_is_terminal_def)
qed

lemma build_terminal_only_retry:
  "build_is_terminal s \<Longrightarrow> build_transition s e = Inr s' \<Longrightarrow>
     s = Build_Failed \<and> e = BE_Retry \<and> s' = Build_Queued"
  by (cases s; cases e) (simp_all add: build_is_terminal_def)

section \<open>Retry decisions\<close>

lemma attempt_number_next_Inr_iff:
  "attempt_number_next n = Inr m \<longleftrightarrow> n \<noteq> -1 \<and> m = n + 1"
proof -
  have "unat n + 1 < 2 ^ 64 \<longleftrightarrow> n \<noteq> -1"
    using unsigned_less [of n, where 'a = nat]
    by (auto simp: word_unat_eq_iff unsigned_minus_1_eq_mask mask_eq_exp_minus_1)
  then show ?thesis by (auto simp: attempt_number_next_def res_simps)
qed

lemma attempt_number_next_error:
  "attempt_number_next (-1) = Inl (InvalidAttemptNumber Version_Overflow)"
  using attempt_number_next_Inr_iff [of "-1"]
  by (cases "attempt_number_next (-1)") (auto simp: attempt_number_next_def ok_or_def split: option.splits)

lemma unat_attempt_number_next:
  "attempt_number_next n = Inr m \<Longrightarrow> unat m = Suc (unat n)"
  unfolding attempt_number_next_def ok_or_Inr_iff by (drule unat_checked_add) simp

section \<open>Cancellation propagation\<close>

definition cancel_active :: "JobState \<Rightarrow> bool" where
  "cancel_active s \<longleftrightarrow> s = Job_Blocked \<or> s = Job_Ready \<or> s = Job_Leased \<or> s = Job_Running"

text \<open>The effect of a cancellation on one Job: a Job no Agent owns becomes terminal, an owned Job
  is asked to stop, a terminal Job is kept.\<close>

definition cancel_state :: "JobState \<Rightarrow> JobState" where
  "cancel_state s =
     (if s = Job_Blocked \<or> s = Job_Ready then Job_Cancelled
      else if s = Job_Leased \<or> s = Job_Running then Job_Cancelling
      else s)"

lemma cancel_next_eq:
  "cancel_next j s = Inr (if cancel_active s then Some (cancel_state s) else None)"
  by (cases s) (simp_all add: cancel_next_def cancel_active_def cancel_state_def)

lemma cancel_state_settled: "job_cancellation_settled (cancel_state s)"
  by (cases s) (simp_all add: cancel_state_def job_cancellation_settled_def job_is_terminal_def)

lemma cancel_state_inactive: "\<not> cancel_active s \<Longrightarrow> cancel_state s = s"
  by (simp add: cancel_active_def cancel_state_def)

lemma cancel_loop_eq:
  "sorted_wrt (<) (map fst done @ map fst es) \<Longrightarrow>
   cancel_loop es (ts, map (\<lambda>(j, s). (j, cancel_state s)) done @ es) =
     Inr (ts @ map (\<lambda>(j, s). (j, cancel_state s)) (filter (\<lambda>(j, s). cancel_active s) es),
          map (\<lambda>(j, s). (j, cancel_state s)) (done @ es))"
proof (induction es arbitrary: ts "done")
  case (Cons e es)
  obtain j s where e: "e = (j, s)" by (cases e)
  have below: "\<forall>x\<in>set (map (\<lambda>(j, s). (j, cancel_state s)) done). fst x < j"
    using Cons.prems by (auto simp: e sorted_wrt_append)
  have prem: "sorted_wrt (<) (map fst (done @ [e]) @ map fst es)" using Cons.prems by simp
  show ?case
  proof (cases "cancel_active s")
    case True
    then show ?thesis using Cons.IH [OF prem] bt_insert_mid [OF below]
      by (simp add: e cancel_next_eq)
  next
    case False
    then show ?thesis using Cons.IH [OF prem]
      by (simp add: e cancel_next_eq cancel_state_inactive)
  qed
qed simp

lemma cancel_job_states_eq:
  assumes "build_state = Build_Queued \<or> build_state = Build_Running"
    and "attempt_state = Attempt_Created \<or> attempt_state = Attempt_Running"
    and "jobs \<noteq> []" and "distinct (map fst jobs)"
  shows "cancel_job_states build_state attempt_state jobs = Inr
    (let pending = (Job_Cancelling \<in> cancel_state ` snd ` set jobs) in
     \<lparr>cd_transitions =
        map (\<lambda>(j, s). (j, cancel_state s)) (filter (\<lambda>(j, s). cancel_active s) (sort_key fst jobs)),
      cd_attempt_state = (if pending then Attempt_Running else Attempt_Cancelled),
      cd_build_state = (if pending then Build_Running else Build_Cancelled)\<rparr>)"
proof -
  let ?states = "sort_key fst jobs"
  have collect: "collect_unique jobs [] = Inr ?states"
    using assms(4) by (simp add: collect_unique_Inr_iff)
  have "bt_wf ?states" using assms(4) by (rule bt_wf_sort_key)
  then have loop: "cancel_loop ?states ([], ?states) =
     Inr (map (\<lambda>(j, s). (j, cancel_state s)) (filter (\<lambda>(j, s). cancel_active s) ?states),
          map (\<lambda>(j, s). (j, cancel_state s)) ?states)"
    using cancel_loop_eq [of "[]" ?states "[]"] by (simp add: bt_wf_def)
  have nonempty: "?states \<noteq> []" using assms(3) by simp
  have pending: "list_ex (\<lambda>s. s = Job_Cancelling) (bt_values (map (\<lambda>(j, s). (j, cancel_state s)) ?states))
      = (Job_Cancelling \<in> cancel_state ` snd ` set jobs)"
    by (force simp: bt_values_def list_ex_iff image_iff)
  have b: "\<not> \<not> (build_state = Build_Queued \<or> build_state = Build_Running)"
    and a: "\<not> \<not> (attempt_state = Attempt_Created \<or> attempt_state = Attempt_Running)"
    using assms(1,2) by blast+
  show ?thesis
    unfolding cancel_job_states_def if_not_P [OF b] if_not_P [OF a]
    using nonempty by (simp add: collect loop pending Let_def)
qed

text \<open>The errors of a cancellation, one for each guard.\<close>

lemma cancel_job_states_errors:
  "cancel_job_states build_state attempt_state jobs = Inl err \<longleftrightarrow>
     \<not> (build_state = Build_Queued \<or> build_state = Build_Running) \<and> err = CE_BuildNotActive \<or>
     (build_state = Build_Queued \<or> build_state = Build_Running) \<and>
     (\<not> (attempt_state = Attempt_Created \<or> attempt_state = Attempt_Running) \<and> err = CE_AttemptNotActive \<or>
      (attempt_state = Attempt_Created \<or> attempt_state = Attempt_Running) \<and>
      (jobs = [] \<and> err = CE_EmptyAttempt \<or>
       (\<exists>j. collect_unique jobs [] = Inl j \<and> err = CE_DuplicateJob j)))"
proof (cases "(build_state = Build_Queued \<or> build_state = Build_Running) \<and>
    (attempt_state = Attempt_Created \<or> attempt_state = Attempt_Running)")
  case False
  then show ?thesis by (auto simp: cancel_job_states_def)
next
  case True
  show ?thesis
  proof (cases "collect_unique jobs []")
    case (Inl j)
    then show ?thesis using True by (auto simp: cancel_job_states_def)
  next
    case (Inr m)
    then have "distinct (map fst jobs)" by (simp add: collect_unique_Inr_iff)
    show ?thesis
    proof (cases "jobs = []")
      case True
      then show ?thesis using \<open>_ \<and> _\<close> by (auto simp: cancel_job_states_def)
    next
      case False
      then show ?thesis
        using True Inr cancel_job_states_eq [OF _ _ False \<open>distinct _\<close>] by auto
    qed
  qed
qed

section \<open>Properties\<close>

text \<open>Retry is decided exactly: a retry is granted if and only if both the Build and its
  latest Attempt failed and the attempt number is not exhausted; the new Attempt is running under a
  running Build and carries the next number, which does not wrap.\<close>

theorem decide_retry_exact:
  "decide_retry b a n = Inr d \<longleftrightarrow>
     b = Build_Failed \<and> a = Attempt_Failed \<and> n \<noteq> -1 \<and>
     d = \<lparr>rd_attempt_number = n + 1, rd_attempt_state = Attempt_Running, rd_build_state = Build_Running\<rparr> \<and>
     unat (rd_attempt_number d) = Suc (unat n)"
proof -
  have number: "attempt_number_next n = Inr m \<longleftrightarrow> n \<noteq> -1 \<and> m = n + 1 \<and> unat m = Suc (unat n)" for m
    using attempt_number_next_Inr_iff [of n m] unat_attempt_number_next [of n m] by blast
  show ?thesis
    by (cases b; cases a) (auto simp: decide_retry_def res_simps number)
qed

text \<open>Cancellation reaches every active Job: for an active Build and Attempt with at least one
  Job and distinct Job identities the decision exists; its transitions are in increasing identity
  order and name exactly the blocked, ready, leased and running Jobs, each with the state the Job
  machine gives for a cancellation request; the Attempt and the Build stay running exactly while
  some Job still has to confirm.\<close>

theorem cancellation_reaches_all:
  assumes "b \<in> {Build_Queued, Build_Running}" and "a \<in> {Attempt_Created, Attempt_Running}"
    and "jobs \<noteq> []" and "distinct (map fst jobs)"
  shows "\<exists>d. cancel_job_states b a jobs = Inr d \<and>
    sorted_wrt (<) (map fst (cd_transitions d)) \<and>
    set (cd_transitions d) =
      {(j, s') |j s s'. (j, s) \<in> set jobs \<and> job_transition s Ev_CancellationRequested = Inr s'} \<and>
    (cd_attempt_state d = Attempt_Running \<longleftrightarrow>
       (\<exists>(j, s)\<in>set jobs. s \<in> {Job_Leased, Job_Running, Job_Cancelling})) \<and>
    (cd_attempt_state d, cd_build_state d) \<in>
       {(Attempt_Running, Build_Running), (Attempt_Cancelled, Build_Cancelled)}"
proof -
  have active: "b = Build_Queued \<or> b = Build_Running" "a = Attempt_Created \<or> a = Attempt_Running"
    using assms(1,2) by auto
  let ?f = "\<lambda>(j, s). (j, cancel_state s)" and ?P = "\<lambda>(j, s). cancel_active s"
  have "sorted_wrt (<) (map fst (filter ?P (sort_key fst jobs)))"
    using bt_wf_sort_key [OF assms(4)] by (simp add: bt_wf_def sorted_wrt_map sorted_wrt_filter)
  then have sorted: "sorted_wrt (<) (map fst (map ?f (filter ?P (sort_key fst jobs))))"
    by (simp add: comp_def case_prod_unfold)
  have accept: "job_transition s Ev_CancellationRequested = Inr s' \<longleftrightarrow> cancel_active s \<and> s' = cancel_state s"
    for s s' by (cases s) (auto simp: cancel_active_def cancel_state_def)
  have moved: "set (map ?f (filter ?P (sort_key fst jobs))) =
      {(j, s') |j s s'. (j, s) \<in> set jobs \<and> job_transition s Ev_CancellationRequested = Inr s'}"
    unfolding accept by force
  have pending: "Job_Cancelling \<in> cancel_state ` snd ` set jobs \<longleftrightarrow>
      (\<exists>(j, s)\<in>set jobs. s \<in> {Job_Leased, Job_Running, Job_Cancelling})"
    by (force simp: cancel_state_def image_iff split: if_splits)
  show ?thesis
    unfolding cancel_job_states_eq [OF active assms(3,4)] Let_def pending
    by (intro exI conjI, rule refl) (use sorted moved in simp_all)
qed

theorem cancellation_reaches_all_witness:
  "\<exists>d. cancel_job_states Build_Running Attempt_Running [(7, Job_Running), (3, Job_Ready), (5, Job_Failed)] = Inr d \<and>
     cd_transitions d = [(3, Job_Cancelled), (7, Job_Cancelling)] \<and> cd_attempt_state d = Attempt_Running"
proof -
  have "cancel_job_states Build_Running Attempt_Running [(7, Job_Running), (3, Job_Ready), (5, Job_Failed)] =
      Inr \<lparr>cd_transitions = [(3, Job_Cancelled), (7, Job_Cancelling)],
           cd_attempt_state = Attempt_Running, cd_build_state = Build_Running\<rparr>" by code_simp
  then show ?thesis
    using cancellation_reaches_all [of Build_Running Attempt_Running
        "[(7, Job_Running), (3, Job_Ready), (5, Job_Failed)]"] by simp
qed

text \<open>Attempts are bounded: at most two events are accepted in the life of an Attempt, and a
  sequence that used both has ended in a terminal state, from which no event is accepted.\<close>

theorem attempt_life_bounded:
  assumes "run_events attempt_transition Attempt_Created es = Inr s"
  shows "length es \<le> 2 \<and> (length es = 2 \<longrightarrow> attempt_is_terminal s) \<and>
    (attempt_is_terminal s \<longrightarrow> (\<forall>e. \<not> is_ok (attempt_transition s e)))"
proof -
  have "attempt_rank s + length es \<le> 2" using attempt.run_bounded [OF assms] by simp
  moreover have "attempt_rank s = 0 \<Longrightarrow> attempt_is_terminal s"
    by (cases s) (simp_all add: attempt_is_terminal_def)
  moreover have "\<not> is_ok (attempt_transition s e)" if "attempt_is_terminal s" for e
    using that by (cases s; cases e) (simp_all add: attempt_is_terminal_def)
  ultimately show ?thesis by auto
qed

theorem attempt_life_bounded_witness:
  "length [AE_Start, AE_Succeed] \<le> 2 \<and> attempt_is_terminal Attempt_Succeeded \<and>
   \<not> is_ok (attempt_transition Attempt_Succeeded AE_Cancel)"
  using attempt_life_bounded [of "[AE_Start, AE_Succeed]" Attempt_Succeeded]
  by (simp add: attempt_is_terminal_def)

end
