(* ===== verification/Pipeline_Policy.thy ===== *)
theory Pipeline_Policy
  imports Domain
begin

text \<open>
  Fan-in policy of a Pipeline Job, \<^verbatim>\<open>server/core/octacity-server-pipeline/src/policy.rs\<close>: the
  four-flag scan over the predecessors' outcomes and the decision taken from the flags.
\<close>

datatype DependencyPolicy = AllSucceeded | AllCompleted | AnySucceeded

datatype DependencyOutcome =
    Out_Pending | Out_Succeeded | Out_Failed | Out_Cancelled | Out_Skipped

datatype DependencyDecision = Dec_Blocked | Dec_Ready | Dec_Skipped

record outcome_scan =
  sc_observed :: bool
  sc_pending :: bool
  sc_succeeded :: bool
  sc_unsuccessful :: bool

fun scan_outcome :: "DependencyOutcome \<Rightarrow> outcome_scan \<Rightarrow> outcome_scan" where
  "scan_outcome Out_Pending s = s\<lparr>sc_observed := True, sc_pending := True\<rparr>"
| "scan_outcome Out_Succeeded s = s\<lparr>sc_observed := True, sc_succeeded := True\<rparr>"
| "scan_outcome Out_Failed s = s\<lparr>sc_observed := True, sc_unsuccessful := True\<rparr>"
| "scan_outcome Out_Cancelled s = s\<lparr>sc_observed := True, sc_unsuccessful := True\<rparr>"
| "scan_outcome Out_Skipped s = s\<lparr>sc_observed := True, sc_unsuccessful := True\<rparr>"

definition scan_outcomes :: "DependencyOutcome list \<Rightarrow> outcome_scan" where
  "scan_outcomes os =
     fold scan_outcome os \<lparr>sc_observed = False, sc_pending = False, sc_succeeded = False, sc_unsuccessful = False\<rparr>"

definition policy_decide :: "DependencyPolicy \<Rightarrow> DependencyOutcome list \<Rightarrow> DependencyDecision" where
  "policy_decide p os =
     (let s = scan_outcomes os in
      if \<not> sc_observed s then Dec_Blocked
      else case p of
        AllSucceeded \<Rightarrow>
          if sc_unsuccessful s then Dec_Skipped else if sc_pending s then Dec_Blocked else Dec_Ready
      | AllCompleted \<Rightarrow> if sc_pending s then Dec_Blocked else Dec_Ready
      | AnySucceeded \<Rightarrow>
          if sc_succeeded s then Dec_Ready else if sc_pending s then Dec_Blocked else Dec_Skipped)"

definition policy_is_satisfied :: "DependencyPolicy \<Rightarrow> DependencyOutcome list \<Rightarrow> bool" where
  "policy_is_satisfied p os \<longleftrightarrow> policy_decide p os = Dec_Ready"

definition outcome_unsuccessful :: "DependencyOutcome \<Rightarrow> bool" where
  "outcome_unsuccessful o' \<longleftrightarrow> o' \<in> {Out_Failed, Out_Cancelled, Out_Skipped}"

lemma scan_fold:
  "fold scan_outcome os s =
     \<lparr>sc_observed = sc_observed s \<or> os \<noteq> [],
      sc_pending = sc_pending s \<or> Out_Pending \<in> set os,
      sc_succeeded = sc_succeeded s \<or> Out_Succeeded \<in> set os,
      sc_unsuccessful = sc_unsuccessful s \<or> (\<exists>o'\<in>set os. outcome_unsuccessful o')\<rparr>"
proof (induction os arbitrary: s)
  case (Cons x os)
  show ?case by (cases x) (auto simp: Cons.IH outcome_unsuccessful_def)
qed simp

lemma policy_decide_eq:
  "policy_decide p os =
     (if os = [] then Dec_Blocked
      else case p of
        AllSucceeded \<Rightarrow>
          if \<exists>o'\<in>set os. outcome_unsuccessful o' then Dec_Skipped
          else if Out_Pending \<in> set os then Dec_Blocked else Dec_Ready
      | AllCompleted \<Rightarrow> if Out_Pending \<in> set os then Dec_Blocked else Dec_Ready
      | AnySucceeded \<Rightarrow>
          if Out_Succeeded \<in> set os then Dec_Ready
          else if Out_Pending \<in> set os then Dec_Blocked else Dec_Skipped)"
  by (cases p) (auto simp: policy_decide_def scan_outcomes_def scan_fold Let_def)

text \<open>A predecessor outcome can only be resolved, never revised.\<close>

definition outcome_le :: "DependencyOutcome \<Rightarrow> DependencyOutcome \<Rightarrow> bool" where
  "outcome_le a b \<longleftrightarrow> a = Out_Pending \<or> a = b"

lemma policy_decide_stable:
  assumes "policy_decide p os \<noteq> Dec_Blocked" and "list_all2 outcome_le os os'"
  shows "policy_decide p os' = policy_decide p os"
proof -
  have nil: "os = [] \<longleftrightarrow> os' = []" using assms(2) by auto
  have keep: "x \<in> set os'" if "x \<in> set os" "x \<noteq> Out_Pending" for x
    using assms(2) that
    by (induction rule: list_all2_induct) (auto simp: outcome_le_def)
  have settled: "os' = os" if "Out_Pending \<notin> set os"
    using assms(2) that
    by (induction rule: list_all2_induct) (auto simp: outcome_le_def)
  show ?thesis
  proof (cases "Out_Pending \<in> set os")
    case False
    with settled show ?thesis by simp
  next
    case True
    show ?thesis
    proof (cases p)
      case AllSucceeded
      with True assms(1) obtain x where "x \<in> set os" "outcome_unsuccessful x"
        by (auto simp: policy_decide_eq split: if_splits)
      moreover from this have "x \<in> set os'" by (intro keep) (auto simp: outcome_unsuccessful_def)
      ultimately show ?thesis using AllSucceeded nil by (auto simp: policy_decide_eq)
    next
      case AllCompleted
      with True assms(1) show ?thesis by (auto simp: policy_decide_eq split: if_splits)
    next
      case AnySucceeded
      with True assms(1) have "Out_Succeeded \<in> set os"
        by (auto simp: policy_decide_eq split: if_splits)
      with keep [of Out_Succeeded] AnySucceeded nil show ?thesis by (auto simp: policy_decide_eq)
    qed
  qed
qed

lemma policy_decide_blocked_pending:
  "os \<noteq> [] \<Longrightarrow> policy_decide p os = Dec_Blocked \<Longrightarrow> Out_Pending \<in> set os"
  by (cases p) (auto simp: policy_decide_eq split: if_splits)

section \<open>Properties\<close>

text \<open>Fan-in decisions are final: for a Job with predecessors each policy decides as its name
  says, and a decision that is not \<open>Blocked\<close> stays the same however the pending predecessors are
  resolved later.\<close>

theorem policy_decision_final:
  assumes "policy_decide p os \<noteq> Dec_Blocked" and "list_all2 outcome_le os os'"
  shows "policy_decide p os' = policy_decide p os \<and>
    (policy_is_satisfied p os \<longleftrightarrow> os \<noteq> [] \<and>
       (case p of AllSucceeded \<Rightarrow> set os \<subseteq> {Out_Succeeded}
        | AllCompleted \<Rightarrow> Out_Pending \<notin> set os
        | AnySucceeded \<Rightarrow> Out_Succeeded \<in> set os))"
proof
  show "policy_decide p os' = policy_decide p os" using assms by (rule policy_decide_stable)
  have "set os \<subseteq> {Out_Succeeded} \<longleftrightarrow> Out_Pending \<notin> set os \<and> \<not> (\<exists>o'\<in>set os. outcome_unsuccessful o')"
  proof -
    have "o' = Out_Succeeded \<longleftrightarrow> o' \<noteq> Out_Pending \<and> \<not> outcome_unsuccessful o'" for o'
      by (cases o') (simp_all add: outcome_unsuccessful_def)
    then show ?thesis by (auto simp: subset_iff)
  qed
  then show "policy_is_satisfied p os \<longleftrightarrow> os \<noteq> [] \<and>
       (case p of AllSucceeded \<Rightarrow> set os \<subseteq> {Out_Succeeded}
        | AllCompleted \<Rightarrow> Out_Pending \<notin> set os
        | AnySucceeded \<Rightarrow> Out_Succeeded \<in> set os)"
    by (cases p) (auto simp: policy_is_satisfied_def policy_decide_eq)
qed

theorem policy_decision_final_witness:
  "policy_decide AllSucceeded [Out_Failed, Out_Pending] = Dec_Skipped \<and>
   policy_decide AllSucceeded [Out_Failed, Out_Succeeded] = Dec_Skipped"
proof -
  have first: "policy_decide AllSucceeded [Out_Failed, Out_Pending] = Dec_Skipped" by code_simp
  then have "policy_decide AllSucceeded [Out_Failed, Out_Succeeded] =
      policy_decide AllSucceeded [Out_Failed, Out_Pending]"
    using policy_decision_final [of AllSucceeded "[Out_Failed, Out_Pending]" "[Out_Failed, Out_Succeeded]"]
    by (simp add: outcome_le_def)
  with first show ?thesis by simp
qed

end
