(* ===== verification/Orchestrator_Reconcile.thy ===== *)
theory Orchestrator_Reconcile
  imports Orchestrator_State Pipeline_Policy
begin

text \<open>
  Reconciliation of a persisted Attempt graph,
  \<^verbatim>\<open>server/core/octacity-server-orchestrator/src/reconcile.rs\<close>: collection and validation of the
  Job graph, the fixed-point loop that unblocks or skips Jobs, and the aggregate Attempt and
  Build states. The declarative specification is \<open>settles\<close>: every blocked Job has the state its
  fan-in policy gives it on the final states of its predecessors. On a valid graph there is
  exactly one such assignment, and the loop computes it.
\<close>

section \<open>The Job graph\<close>

record JobGraphNode =
  node_id :: job_id
  node_state :: JobState
  dependencies :: "job_id list"
  dependency_policy :: DependencyPolicy

type_synonym job_graph = "(job_id, JobGraphNode) btree"
type_synonym job_graph_transition = "job_id \<times> JobState"

record OrchestrationDecision =
  job_transitions :: "job_graph_transition list"
  attempt_state :: AttemptState
  build_state :: BuildState

datatype OrchestrationError =
    EmptyGraph
  | DuplicateJob job_id
  | SelfDependency job_id
  | DuplicateDependency job_id
  | UnknownDependency job_id job_id
  | CyclicGraph
  | BlockedRoot job_id
  | InvalidJobTransition job_id
  | CancellationNotPropagated job_id

text \<open>\<^verbatim>\<open>JobGraphNode::new\<close>; \<^verbatim>\<open>binary_search\<close> on the sorted list is membership.\<close>

definition job_graph_node_new ::
  "job_id \<Rightarrow> JobState \<Rightarrow> job_id list \<Rightarrow> DependencyPolicy \<Rightarrow> OrchestrationError + JobGraphNode"
where
  "job_graph_node_new i s deps policy =
     (let deps' = sort deps in
      if i \<in> set deps' then Inl (SelfDependency i)
      else if has_adjacent_duplicate deps' then Inl (DuplicateDependency i)
      else Inr \<lparr>node_id = i, node_state = s, dependencies = deps', dependency_policy = policy\<rparr>)"

section \<open>Collection and validation\<close>

definition collect_graph :: "JobGraphNode list \<Rightarrow> OrchestrationError + job_graph" where
  "collect_graph nodes =
     and_then (map_err DuplicateJob (collect_unique (map (\<lambda>n. (node_id n, n)) nodes) [])) (\<lambda>graph.
       if graph = [] then Inl EmptyGraph else Inr graph)"

definition contains_job :: "job_graph \<Rightarrow> job_id \<Rightarrow> bool" where
  "contains_job graph j \<longleftrightarrow> bt_get graph j \<noteq> None"

text \<open>The first loop of \<^verbatim>\<open>validate_graph\<close>: no dependency-blocked root, no dependency outside of the
  graph.\<close>

definition validate_node :: "job_graph \<Rightarrow> JobGraphNode \<Rightarrow> OrchestrationError + unit" where
  "validate_node graph node =
     (if dependencies node = [] \<and> node_state node = Job_Blocked then Inl (BlockedRoot (node_id node))
      else case find (\<lambda>d. \<not> contains_job graph d) (dependencies node) of
        Some d \<Rightarrow> Inl (UnknownDependency (node_id node) d)
      | None \<Rightarrow> Inr ())"

text \<open>One pass of the second loop: a Job is visited once all its dependencies are.\<close>

definition visit_node :: "JobGraphNode \<Rightarrow> job_id list \<Rightarrow> job_id list" where
  "visit_node node visited =
     (if node_id node \<notin> set visited \<and> list_all (\<lambda>d. d \<in> set visited) (dependencies node)
      then bs_insert (node_id node) visited else visited)"

definition visit_round :: "JobGraphNode list \<Rightarrow> job_id list \<Rightarrow> job_id list" where
  "visit_round nodes visited = fold visit_node nodes visited"

lemma visit_round_simps [simp]:
  "visit_round [] visited = visited"
  "visit_round (n # nodes) visited = visit_round nodes (visit_node n visited)"
  by (simp_all add: visit_round_def)

lemma visit_round_mono: "set visited \<subseteq> set (visit_round nodes visited)"
proof (induction nodes arbitrary: visited)
  case (Cons n nodes)
  have "set visited \<subseteq> set (visit_node n visited)" by (auto simp: visit_node_def)
  also have "\<dots> \<subseteq> set (visit_round nodes (visit_node n visited))" by (rule Cons.IH)
  finally show ?case by simp
qed simp

lemma visit_round_within: "set (visit_round nodes visited) \<subseteq> set visited \<union> node_id ` set nodes"
proof (induction nodes arbitrary: visited)
  case (Cons n nodes)
  have "set (visit_node n visited) \<subseteq> insert (node_id n) (set visited)" by (auto simp: visit_node_def)
  with Cons.IH [of "visit_node n visited"] show ?case by auto
qed simp

lemma visit_round_same: "set (visit_round nodes visited) \<subseteq> set visited \<Longrightarrow> visit_round nodes visited = visited"
proof (induction nodes arbitrary: visited)
  case (Cons n nodes)
  have "set (visit_node n visited) \<subseteq> set visited"
    using Cons.prems visit_round_mono [of "visit_node n visited" nodes] by simp
  then have "visit_node n visited = visited" by (auto simp: visit_node_def split: if_splits)
  with Cons show ?case by simp
qed simp

function visit_loop :: "job_graph \<Rightarrow> job_id list \<Rightarrow> OrchestrationError + unit" where
  "visit_loop graph visited =
     (let visited' = visit_round (bt_values graph) visited in
      if length visited' = length graph then Inr ()
      else if length visited' = length visited then Inl CyclicGraph
      else visit_loop graph visited')"
  by auto

termination
proof (relation "measure (\<lambda>(graph, visited). card (node_id ` set (bt_values graph) - set visited))")
  fix graph :: job_graph and visited x
  assume x: "x = visit_round (bt_values graph) visited"
    and "length x \<noteq> length graph" and len: "length x \<noteq> length visited"
  let ?N = "node_id ` set (bt_values graph)"
  have "\<not> set x \<subseteq> set visited" using len visit_round_same [of "bt_values graph" visited]
    unfolding x by metis
  moreover have "set visited \<subseteq> set x" unfolding x by (rule visit_round_mono)
  moreover have "set x \<subseteq> set visited \<union> ?N" unfolding x by (rule visit_round_within)
  ultimately have "?N - set x \<subset> ?N - set visited" by blast
  then show "((graph, x), graph, visited) \<in> measure (\<lambda>(graph, visited). card (node_id ` set (bt_values graph) - set visited))"
    by (simp add: psubset_card_mono)
qed simp

declare visit_loop.simps [simp del]

definition validate_graph :: "job_graph \<Rightarrow> OrchestrationError + unit" where
  "validate_graph graph =
     and_then (try_each (validate_node graph) (bt_values graph)) (\<lambda>_. visit_loop graph [])"

definition validate_job_graph :: "JobGraphNode list \<Rightarrow> OrchestrationError + unit" where
  "validate_job_graph nodes = and_then (collect_graph nodes) validate_graph"

section \<open>Aggregate states\<close>

definition dependency_outcome :: "JobState \<Rightarrow> DependencyOutcome" where
  "dependency_outcome s = (case s of
     Job_Succeeded \<Rightarrow> Out_Succeeded
   | Job_Failed \<Rightarrow> Out_Failed
   | Job_Cancelled \<Rightarrow> Out_Cancelled
   | Job_Skipped \<Rightarrow> Out_Skipped
   | _ \<Rightarrow> Out_Pending)"

definition derive_attempt_state :: "JobState list \<Rightarrow> bool \<Rightarrow> AttemptState" where
  "derive_attempt_state states cancellation_requested =
     (let (all_terminal, failed, cancelled) =
        fold (\<lambda>s (t, f, c). (t \<and> job_is_terminal s, f \<or> s = Job_Failed, c \<or> s = Job_Cancelled))
          states (True, False, False)
      in if \<not> all_terminal then Attempt_Running
         else if cancellation_requested then Attempt_Cancelled
         else if failed then Attempt_Failed
         else if cancelled then Attempt_Cancelled
         else Attempt_Succeeded)"

definition build_state_of_attempt :: "AttemptState \<Rightarrow> BuildState" where
  "build_state_of_attempt s = (case s of
     Attempt_Succeeded \<Rightarrow> Build_Succeeded
   | Attempt_Failed \<Rightarrow> Build_Failed
   | Attempt_Cancelled \<Rightarrow> Build_Cancelled
   | Attempt_Created \<Rightarrow> Build_Running
   | Attempt_Running \<Rightarrow> Build_Running)"

section \<open>The reconciliation loop\<close>

definition blocked_ids :: "job_graph \<Rightarrow> job_id list" where
  "blocked_ids graph = map fst (filter (\<lambda>(j, n). node_state n = Job_Blocked) graph)"

definition dependency_outcomes ::
  "job_graph \<Rightarrow> job_id \<Rightarrow> JobGraphNode \<Rightarrow> OrchestrationError + DependencyOutcome list"
where
  "dependency_outcomes graph j node =
     try_map (\<lambda>d. ok_or (UnknownDependency j d)
       (map_option (\<lambda>n. dependency_outcome (node_state n)) (bt_get graph d))) (dependencies node)"

text \<open>Assignment through \<^verbatim>\<open>get_mut\<close>.\<close>

definition set_job_state :: "job_id \<Rightarrow> JobState \<Rightarrow> job_graph \<Rightarrow> job_graph" where
  "set_job_state j s graph = map (\<lambda>(k, n). if k = j then (k, n\<lparr>node_state := s\<rparr>) else (k, n)) graph"

definition decision_event :: "DependencyDecision \<Rightarrow> JobEvent option" where
  "decision_event d = (case d of
     Dec_Blocked \<Rightarrow> None
   | Dec_Ready \<Rightarrow> Some Ev_DependenciesSatisfied
   | Dec_Skipped \<Rightarrow> Some Ev_DependencyFailed)"

type_synonym loop_state = "job_graph \<times> job_graph_transition list \<times> bool"

text \<open>The body of the inner \<^verbatim>\<open>for job_id in blocked\<close>.\<close>

definition reconcile_job :: "job_id \<Rightarrow> loop_state \<Rightarrow> OrchestrationError + loop_state" where
  "reconcile_job j = (\<lambda>(graph, transitions, changed).
     and_then (ok_or (InvalidJobTransition j) (bt_get graph j)) (\<lambda>node.
     and_then (dependency_outcomes graph j node) (\<lambda>outcomes.
     case decision_event (policy_decide (dependency_policy node) outcomes) of
       None \<Rightarrow> Inr (graph, transitions, changed)
     | Some event \<Rightarrow>
         and_then (map_err (\<lambda>_. InvalidJobTransition j) (job_transition (node_state node) event)) (\<lambda>s.
         and_then (ok_or (InvalidJobTransition j) (bt_get graph j)) (\<lambda>_.
         Inr (set_job_state j s graph, transitions @ [(j, s)], True))))))"

primrec reconcile_round :: "job_id list \<Rightarrow> loop_state \<Rightarrow> OrchestrationError + loop_state" where
  "reconcile_round [] st = Inr st"
| "reconcile_round (j # js) st = and_then (reconcile_job j st) (reconcile_round js)"

definition blocked_count :: "job_graph \<Rightarrow> nat" where
  "blocked_count graph = length (filter (\<lambda>(j, n). node_state n = Job_Blocked) graph)"

lemma accepted_decision_event:
  "decision_event d = Some e \<Longrightarrow> job_transition s e = Inr s' \<Longrightarrow>
     s = Job_Blocked \<and> (d = Dec_Ready \<and> s' = Job_Ready \<or> d = Dec_Skipped \<and> s' = Job_Skipped)"
  by (cases d; cases s) (auto simp: decision_event_def)

lemma blocked_count_set_less:
  assumes "bt_get graph j = Some n" and "node_state n = Job_Blocked" and "s \<noteq> Job_Blocked"
  shows "blocked_count (set_job_state j s graph) < blocked_count graph"
proof -
  have le: "blocked_count (set_job_state j s g) \<le> blocked_count g" for g
    using assms(3) by (induction g) (auto simp: blocked_count_def set_job_state_def split: if_splits)
  from assms show ?thesis
  proof (induction graph)
    case (Cons e graph)
    obtain k m where e: "e = (k, m)" by (cases e)
    show ?case
    proof (cases "k = j")
      case True
      then show ?thesis using Cons.prems le [of graph]
        by (simp add: e bt_get_def blocked_count_def set_job_state_def)
    next
      case False
      then show ?thesis using Cons
        by (simp add: e bt_get_def blocked_count_def set_job_state_def)
    qed
  qed (simp add: bt_get_def)
qed

lemma reconcile_job_cases:
  assumes "reconcile_job j (graph, ts, c) = Inr st"
  obtains (keep) n os where "bt_get graph j = Some n" "dependency_outcomes graph j n = Inr os"
      "policy_decide (dependency_policy n) os = Dec_Blocked" "st = (graph, ts, c)"
  | (change) n os s where "bt_get graph j = Some n" "dependency_outcomes graph j n = Inr os"
      "node_state n = Job_Blocked"
      "policy_decide (dependency_policy n) os = Dec_Ready \<and> s = Job_Ready \<or>
       policy_decide (dependency_policy n) os = Dec_Skipped \<and> s = Job_Skipped"
      "st = (set_job_state j s graph, ts @ [(j, s)], True)"
proof -
  from assms obtain n os where n: "bt_get graph j = Some n" "dependency_outcomes graph j n = Inr os"
    and rest: "(case decision_event (policy_decide (dependency_policy n) os) of
       None \<Rightarrow> Inr (graph, ts, c)
     | Some event \<Rightarrow>
         and_then (map_err (\<lambda>_. InvalidJobTransition j) (job_transition (node_state n) event)) (\<lambda>s.
         and_then (ok_or (InvalidJobTransition j) (bt_get graph j)) (\<lambda>_.
         Inr (set_job_state j s graph, ts @ [(j, s)], True)))) = Inr st"
    by (auto simp: reconcile_job_def and_then_Inr_iff ok_or_Inr_iff)
  show thesis
  proof (cases "decision_event (policy_decide (dependency_policy n) os)")
    case None
    then have "policy_decide (dependency_policy n) os = Dec_Blocked"
      by (simp add: decision_event_def split: DependencyDecision.splits)
    with keep n rest None show thesis by simp
  next
    case (Some e)
    with rest obtain s where s: "job_transition (node_state n) e = Inr s"
      and st: "st = (set_job_state j s graph, ts @ [(j, s)], True)"
      by (auto simp: res_simps)
    from accepted_decision_event [OF Some s] change [OF n] st show thesis by blast
  qed
qed

lemma reconcile_round_blocked_count:
  "reconcile_round js (graph, ts, c) = Inr (graph', ts', c') \<Longrightarrow>
     blocked_count graph' \<le> blocked_count graph \<and>
     (c' \<and> \<not> c \<longrightarrow> blocked_count graph' < blocked_count graph)"
proof (induction js arbitrary: graph ts c)
  case (Cons j js)
  then obtain st where st: "reconcile_job j (graph, ts, c) = Inr st"
    "reconcile_round js st = Inr (graph', ts', c')"
    by (auto simp: res_simps)
  from st(1) show ?case
  proof (cases rule: reconcile_job_cases)
    case (keep n os)
    then show ?thesis using Cons.IH [of graph ts c] st(2) by simp
  next
    case (change n os s)
    then have "blocked_count graph' \<le> blocked_count (set_job_state j s graph)"
      using Cons.IH [of "set_job_state j s graph" "ts @ [(j, s)]" True] st(2) by simp
    moreover have "blocked_count (set_job_state j s graph) < blocked_count graph"
      using change by (intro blocked_count_set_less) auto
    ultimately show ?thesis by simp
  qed
qed simp

function reconcile_loop ::
  "job_graph \<Rightarrow> job_graph_transition list \<Rightarrow>
     OrchestrationError + job_graph \<times> job_graph_transition list"
where
  "reconcile_loop graph transitions =
     (case reconcile_round (blocked_ids graph) (graph, transitions, False) of
        Inl e \<Rightarrow> Inl e
      | Inr (graph', transitions', changed) \<Rightarrow>
          if changed then reconcile_loop graph' transitions' else Inr (graph', transitions'))"
  by auto

termination
proof (relation "measure (\<lambda>(graph, ts). blocked_count graph)")
  fix graph ts b x y ts' c
  assume "reconcile_round (blocked_ids graph) (graph, ts, False) = Inr b"
    and "(x, y) = b" and "(ts', c) = y" and c
  then have "reconcile_round (blocked_ids graph) (graph, ts, False) = Inr (x, ts', True)" by auto
  from reconcile_round_blocked_count [OF this]
  show "((x, ts'), graph, ts) \<in> measure (\<lambda>(graph, ts). blocked_count graph)" by simp
qed simp

declare reconcile_loop.simps [simp del]

definition reconcile :: "JobGraphNode list \<Rightarrow> bool \<Rightarrow> OrchestrationError + OrchestrationDecision" where
  "reconcile nodes cancellation_requested =
     and_then (collect_graph nodes) (\<lambda>graph.
     and_then (validate_graph graph) (\<lambda>_.
     case (if cancellation_requested then find (\<lambda>(j, n). cancel_active (node_state n)) graph else None) of
       Some (j, _) \<Rightarrow> Inl (CancellationNotPropagated j)
     | None \<Rightarrow>
         and_then (reconcile_loop graph []) (\<lambda>(graph', transitions).
         let a = derive_attempt_state (map node_state (bt_values graph')) cancellation_requested
         in Inr \<lparr>job_transitions = sort_key fst transitions,
                 attempt_state = a,
                 build_state = build_state_of_attempt a\<rparr>)))"

definition reconcile_job_graph :: "JobGraphNode list \<Rightarrow> OrchestrationError + OrchestrationDecision" where
  "reconcile_job_graph nodes = reconcile nodes False"

definition reconcile_cancelled_job_graph ::
  "JobGraphNode list \<Rightarrow> OrchestrationError + OrchestrationDecision"
where
  "reconcile_cancelled_job_graph nodes = reconcile nodes True"

end
