(* ===== verification/Orchestrator_Validation.thy ===== *)
theory Orchestrator_Validation
  imports Orchestrator_Reconcile
begin

text \<open>
  Correctness of the structural validation of Job graphs: \<open>validate_graph\<close> accepts exactly the
  graphs whose dependencies are present, that have no dependency-blocked root and no cycle. Job
  graphs are interpreted as a \<open>dependency_source\<close>.
\<close>

section \<open>Job graphs as dependency graphs\<close>

definition job_preds :: "job_graph \<Rightarrow> job_id \<Rightarrow> job_id set" where
  "job_preds graph j = (case bt_get graph j of Some n \<Rightarrow> set (dependencies n) | None \<Rightarrow> {})"

definition graph_closed :: "job_graph \<Rightarrow> bool" where
  "graph_closed graph \<longleftrightarrow> (\<forall>n\<in>set (bt_values graph). set (dependencies n) \<subseteq> set (bt_keys graph))"

text \<open>Entries are stored under the identity of their node, in key order.\<close>

definition graph_wf :: "job_graph \<Rightarrow> bool" where
  "graph_wf graph \<longleftrightarrow> bt_wf graph \<and> (\<forall>(j, n)\<in>set graph. node_id n = j)"

definition no_blocked_root :: "job_graph \<Rightarrow> bool" where
  "no_blocked_root graph \<longleftrightarrow>
     (\<forall>n\<in>set (bt_values graph). node_state n = Job_Blocked \<longrightarrow> dependencies n \<noteq> [])"

lemma job_preds_entry: "bt_wf graph \<Longrightarrow> (j, n) \<in> set graph \<Longrightarrow> job_preds graph j = set (dependencies n)"
  by (simp add: job_preds_def flip: bt_get_iff)

interpretation job_deps: dependency_source bt_keys job_preds graph_closed
proof
  fix g n assume closed: "graph_closed g"
  show "job_preds g n \<subseteq> set (bt_keys g)"
  proof (cases "bt_get g n")
    case (Some m)
    then have "m \<in> set (bt_values g)"
      by (force simp: bt_get_def bt_values_def dest: map_of_SomeD)
    with closed Some show ?thesis by (simp add: graph_closed_def job_preds_def)
  qed (simp add: job_preds_def)
qed

section \<open>Collection\<close>

lemma collect_graph_Inr_iff:
  "collect_graph nodes = Inr graph \<longleftrightarrow>
     nodes \<noteq> [] \<and> distinct (map node_id nodes) \<and>
     graph = sort_key fst (map (\<lambda>n. (node_id n, n)) nodes)"
  by (auto simp: collect_graph_def res_simps collect_unique_Inr_iff comp_def split: if_splits)

lemma collect_graph_wf:
  assumes "collect_graph nodes = Inr graph"
  shows "graph_wf graph" and "set (bt_values graph) = set nodes"
    and "set (bt_keys graph) = node_id ` set nodes" and "graph \<noteq> []"
proof -
  from assms have g: "graph = sort_key fst (map (\<lambda>n. (node_id n, n)) nodes)"
    and d: "distinct (map node_id nodes)" and "nodes \<noteq> []"
    by (simp_all add: collect_graph_Inr_iff)
  from d show "graph_wf graph"
    unfolding graph_wf_def g by (auto intro!: bt_wf_sort_key simp: comp_def)
  show "set (bt_values graph) = set nodes" "set (bt_keys graph) = node_id ` set nodes"
    by (auto simp: g bt_values_def bt_keys_def image_image)
  from \<open>nodes \<noteq> []\<close> show "graph \<noteq> []" by (simp add: g)
qed

section \<open>The local checks\<close>

lemma contains_job_iff: "contains_job graph j \<longleftrightarrow> j \<in> set (bt_keys graph)"
  by (auto simp: contains_job_def bt_get_def bt_keys_def map_of_eq_None_iff)

lemma validate_node_Inr_iff:
  "validate_node graph n = Inr () \<longleftrightarrow>
     (node_state n = Job_Blocked \<longrightarrow> dependencies n \<noteq> []) \<and>
     set (dependencies n) \<subseteq> set (bt_keys graph)"
proof (cases "find (\<lambda>d. \<not> contains_job graph d) (dependencies n)")
  case None
  then have "set (dependencies n) \<subseteq> set (bt_keys graph)"
    by (auto simp: find_None_iff contains_job_iff)
  with None show ?thesis by (auto simp: validate_node_def)
next
  case (Some d)
  then have "d \<in> set (dependencies n)" "d \<notin> set (bt_keys graph)"
    by (auto simp: find_Some_iff contains_job_iff)
  with Some show ?thesis by (auto simp: validate_node_def)
qed

lemma validate_nodes_Inr_iff:
  "try_each (validate_node graph) (bt_values graph) = Inr u \<longleftrightarrow>
     no_blocked_root graph \<and> graph_closed graph"
  by (auto simp: res_simps validate_node_Inr_iff no_blocked_root_def graph_closed_def)

section \<open>The visiting loop\<close>

definition topo_set :: "job_graph \<Rightarrow> job_id set \<Rightarrow> bool" where
  "topo_set graph V \<longleftrightarrow> (\<exists>xs. topo_from (job_preds graph) {} xs \<and> set xs = V)"

lemma topo_set_empty [simp]: "topo_set graph {}"
  by (simp add: topo_set_def)

lemma topo_set_insert:
  assumes "topo_set graph V" and "j \<notin> V" and "job_preds graph j \<subseteq> V"
  shows "topo_set graph (insert j V)"
proof -
  from assms(1) obtain xs where "topo_from (job_preds graph) {} xs" "set xs = V"
    by (auto simp: topo_set_def)
  with assms(2,3) have "topo_from (job_preds graph) {} (xs @ [j]) \<and> set (xs @ [j]) = insert j V"
    by (simp add: topo_from_append)
  then show ?thesis unfolding topo_set_def by blast
qed

lemma visit_round_topo:
  assumes "graph_wf graph" and "set nodes \<subseteq> set (bt_values graph)" and "topo_set graph (set visited)"
  shows "topo_set graph (set (visit_round nodes visited))"
  using assms(2,3)
proof (induction nodes arbitrary: visited)
  case (Cons n nodes)
  from Cons.prems(1) assms(1) have "(node_id n, n) \<in> set graph"
    by (auto simp: bt_values_def graph_wf_def)
  then have "job_preds graph (node_id n) = set (dependencies n)"
    using assms(1) by (intro job_preds_entry) (simp add: graph_wf_def)
  with Cons.prems(2) have "topo_set graph (set (visit_node n visited))"
    by (auto simp: visit_node_def list_all_iff intro: topo_set_insert)
  with Cons show ?case by simp
qed simp

lemma visit_round_wf: "bs_wf visited \<Longrightarrow> bs_wf (visit_round nodes visited)"
  by (induction nodes arbitrary: visited) (simp_all add: visit_node_def bs_wf_insert)

lemma visit_round_ready:
  assumes "n \<in> set nodes" and "set (dependencies n) \<subseteq> set visited"
  shows "node_id n \<in> set (visit_round nodes visited)"
  using assms
proof (induction nodes arbitrary: visited)
  case (Cons m nodes)
  have mono: "set visited \<subseteq> set (visit_node m visited)" by (auto simp: visit_node_def)
  show ?case
  proof (cases "n = m")
    case True
    then have "node_id n \<in> set (visit_node m visited)"
      using Cons.prems(2) by (auto simp: visit_node_def list_all_iff)
    then show ?thesis using visit_round_mono by auto
  next
    case False
    then show ?thesis using Cons mono by auto
  qed
qed simp

lemma card_full_iff:
  assumes "bs_wf visited" and "bt_wf graph" and "set visited \<subseteq> set (bt_keys graph)"
  shows "length visited = length graph \<longleftrightarrow> set visited = set (bt_keys graph)"
proof -
  have "length visited = card (set visited)"
    using assms(1) by (simp add: bs_wf_distinct distinct_card)
  moreover have "length graph = card (set (bt_keys graph))"
    using assms(2) by (metis bt_keys_def bt_wf_distinct distinct_card length_map)
  ultimately show ?thesis using assms(3) by (metis List.finite_set card_subset_eq)
qed

lemma visit_round_stuck:
  assumes "graph_wf graph" and "graph_closed graph" and "job_deps.acyclic_graph graph"
    and "\<not> set (bt_keys graph) \<subseteq> set visited"
  shows "visit_round (bt_values graph) visited \<noteq> visited"
proof -
  obtain j where j: "j \<in> set (bt_keys graph) - set visited" "job_preds graph j \<subseteq> set visited"
    using job_deps.progress [OF assms(2,3,4)] by blast
  then obtain n where n: "(j, n) \<in> set graph" by (auto simp: bt_keys_def)
  with assms(1) have "node_id n = j" "job_preds graph j = set (dependencies n)"
    by (auto simp: graph_wf_def job_preds_entry)
  moreover have "n \<in> set (bt_values graph)" using n by (force simp: bt_values_def)
  ultimately have "j \<in> set (visit_round (bt_values graph) visited)"
    using visit_round_ready [of n "bt_values graph" visited] j(2) by simp
  with j(1) show ?thesis by auto
qed

lemma visit_loop_iff:
  assumes "graph_wf graph" and "graph_closed graph"
  shows "bs_wf visited \<Longrightarrow> set visited \<subseteq> set (bt_keys graph) \<Longrightarrow> topo_set graph (set visited) \<Longrightarrow>
    visit_loop graph visited = (if job_deps.acyclic_graph graph then Inr () else Inl CyclicGraph)"
proof (induction "card (set (bt_keys graph) - set visited)" arbitrary: visited rule: less_induct)
  case less
  let ?v = "visit_round (bt_values graph) visited"
  have keys: "node_id ` set (bt_values graph) = set (bt_keys graph)"
    using assms(1) by (force simp: graph_wf_def bt_values_def bt_keys_def)
  have wf: "bs_wf ?v" using less.prems(1) by (rule visit_round_wf)
  have sub: "set ?v \<subseteq> set (bt_keys graph)"
    using visit_round_within [of "bt_values graph" visited] less.prems(2) keys by blast
  have topo: "topo_set graph (set ?v)"
    using assms(1) less.prems(3) by (intro visit_round_topo) auto
  have full: "length ?v = length graph \<longleftrightarrow> set ?v = set (bt_keys graph)"
    using wf sub assms(1) by (intro card_full_iff) (simp_all add: graph_wf_def)
  show ?case
  proof (cases "length ?v = length graph")
    case True
    with full topo have "job_deps.acyclic_graph graph"
      by (auto simp: topo_set_def intro: job_deps.acyclic_of_order)
    then show ?thesis using True by (subst visit_loop.simps) (simp add: Let_def)
  next
    case notfull: False
    show ?thesis
    proof (cases "length ?v = length visited")
      case True
      then have "set ?v = set visited"
        using wf less.prems(1) visit_round_mono [of visited "bt_values graph"]
        by (metis List.finite_set bs_wf_distinct card_subset_eq distinct_card)
      then have same: "?v = visited" by (intro visit_round_same) simp
      then have "\<not> set (bt_keys graph) \<subseteq> set visited" using notfull full sub by auto
      then have "\<not> job_deps.acyclic_graph graph" using visit_round_stuck assms same by blast
      then show ?thesis using True notfull by (subst visit_loop.simps) (simp add: Let_def)
    next
      case False
      then have "set visited \<subset> set ?v"
        using visit_round_mono [of visited "bt_values graph"] visit_round_same [of "bt_values graph" visited]
        by auto
      then have "card (set (bt_keys graph) - set ?v) < card (set (bt_keys graph) - set visited)"
        using sub by (intro psubset_card_mono) auto
      then show ?thesis using less.hyps [OF _ wf sub topo] notfull False
        by (subst visit_loop.simps) (simp add: Let_def)
    qed
  qed
qed

section \<open>The whole validation\<close>

definition graph_valid :: "job_graph \<Rightarrow> bool" where
  "graph_valid graph \<longleftrightarrow> graph_wf graph \<and> graph_closed graph \<and> no_blocked_root graph \<and>
     job_deps.acyclic_graph graph"

lemma validate_graph_Inr_iff:
  "graph_wf graph \<Longrightarrow> validate_graph graph = Inr u \<longleftrightarrow> graph_valid graph"
  using visit_loop_iff [of graph "[]"]
  by (auto simp: validate_graph_def validate_nodes_Inr_iff graph_valid_def and_then_Inr_iff
      split: if_splits)

lemma validate_job_graph_Inr_iff:
  "validate_job_graph nodes = Inr u \<longleftrightarrow> (\<exists>graph. collect_graph nodes = Inr graph \<and> graph_valid graph)"
  unfolding validate_job_graph_def and_then_Inr_iff
  using collect_graph_wf(1) validate_graph_Inr_iff by blast

end
