(* ===== verification/Orchestrator_Fixpoint.thy ===== *)
theory Orchestrator_Fixpoint
  imports Orchestrator_Validation
begin

text \<open>
  The reconciliation loop computes the settled assignment: \<open>settles graph \<sigma>\<close> says that every
  Job that is not blocked keeps its state, and every blocked Job has the state its policy gives on
  the outcomes of its predecessors under \<open>\<sigma>\<close>. A valid graph has exactly one settled assignment,
  the loop ends on it and reports the Jobs it moved.
\<close>

section \<open>Settled assignments\<close>

definition decided_state :: "DependencyDecision \<Rightarrow> JobState" where
  "decided_state d = (case d of
     Dec_Blocked \<Rightarrow> Job_Blocked | Dec_Ready \<Rightarrow> Job_Ready | Dec_Skipped \<Rightarrow> Job_Skipped)"

definition node_decision :: "(job_id \<Rightarrow> JobState) \<Rightarrow> JobGraphNode \<Rightarrow> DependencyDecision" where
  "node_decision \<sigma> n =
     policy_decide (dependency_policy n) (map (\<lambda>d. dependency_outcome (\<sigma> d)) (dependencies n))"

definition settles :: "job_graph \<Rightarrow> (job_id \<Rightarrow> JobState) \<Rightarrow> bool" where
  "settles graph \<sigma> \<longleftrightarrow> (\<forall>(j, n)\<in>set graph.
     \<sigma> j = (if node_state n = Job_Blocked then decided_state (node_decision \<sigma> n) else node_state n))"

definition state_of :: "job_graph \<Rightarrow> job_id \<Rightarrow> JobState" where
  "state_of graph j = (case bt_get graph j of Some n \<Rightarrow> node_state n | None \<Rightarrow> Job_Blocked)"

lemma state_of_entry: "bt_wf graph \<Longrightarrow> (j, n) \<in> set graph \<Longrightarrow> state_of graph j = node_state n"
  by (simp add: state_of_def flip: bt_get_iff)

lemma node_decision_cong:
  "(\<And>d. d \<in> set (dependencies n) \<Longrightarrow> \<sigma> d = \<tau> d) \<Longrightarrow> node_decision \<sigma> n = node_decision \<tau> n"
  unfolding node_decision_def by (intro arg_cong2 [where f = policy_decide] map_cong) simp_all

lemma settles_unique:
  assumes valid: "graph_valid graph" and "settles graph \<sigma>" and "settles graph \<tau>"
    and "j \<in> set (bt_keys graph)"
  shows "\<sigma> j = \<tau> j"
proof (rule job_deps.dependency_induct [where g = graph and P = "\<lambda>j. \<sigma> j = \<tau> j"])
  fix j assume "j \<in> set (bt_keys graph)" and IH: "\<And>d. d \<in> job_preds graph j \<Longrightarrow> \<sigma> d = \<tau> d"
  then obtain n where n: "(j, n) \<in> set graph" by (auto simp: bt_keys_def)
  moreover have "job_preds graph j = set (dependencies n)"
    using valid n by (intro job_preds_entry) (simp_all add: graph_valid_def graph_wf_def)
  ultimately have "node_decision \<sigma> n = node_decision \<tau> n" using IH by (intro node_decision_cong) simp
  with assms(2,3) n show "\<sigma> j = \<tau> j" by (fastforce simp: settles_def)
qed (use assms in \<open>simp_all add: graph_valid_def\<close>)

section \<open>Updating one Job\<close>

lemma keys_set_job_state [simp]: "map fst (set_job_state j s graph) = map fst graph"
  by (induction graph) (auto simp: set_job_state_def)

lemma bt_wf_set_job_state [simp]: "bt_wf (set_job_state j s graph) = bt_wf graph"
  by (simp add: bt_wf_def)

lemma bt_get_set_job_state:
  "bt_get (set_job_state j s graph) k =
     (if k = j then map_option (\<lambda>n. n\<lparr>node_state := s\<rparr>) (bt_get graph k) else bt_get graph k)"
  by (induction graph) (auto simp: set_job_state_def bt_get_def)

lemma state_of_set:
  "bt_get graph j = Some n \<Longrightarrow> state_of (set_job_state j s graph) = (state_of graph)(j := s)"
  by (rule ext) (simp add: state_of_def bt_get_set_job_state split: option.splits)

text \<open>Everything but the states.\<close>

definition erase_states :: "job_graph \<Rightarrow> job_graph" where
  "erase_states graph = map (\<lambda>(j, n). (j, n\<lparr>node_state := Job_Blocked\<rparr>)) graph"

lemma erase_set_job_state [simp]: "erase_states (set_job_state j s graph) = erase_states graph"
  by (auto simp: erase_states_def set_job_state_def)

lemma erase_states_get:
  "erase_states g = erase_states h \<Longrightarrow> bt_get g j = Some n \<Longrightarrow>
     \<exists>m. bt_get h j = Some m \<and> n = m\<lparr>node_state := node_state n\<rparr>"
proof (induction g arbitrary: h)
  case (Cons e g)
  obtain k a where e: "e = (k, a)" by (cases e)
  from Cons.prems(1) obtain b h' where h: "h = (k, b) # h'" "erase_states g = erase_states h'"
    and ab: "a\<lparr>node_state := Job_Blocked\<rparr> = b\<lparr>node_state := Job_Blocked\<rparr>"
    by (cases h) (auto simp: e erase_states_def)
  from ab have "a = b\<lparr>node_state := node_state a\<rparr>" by (cases a; cases b) simp
  then show ?case using Cons.IH [OF h(2)] Cons.prems(2)
    by (auto simp: e h(1) bt_get_def split: if_splits)
qed (simp add: bt_get_def)

lemma erase_states_keys: "erase_states g = erase_states h \<Longrightarrow> map fst g = map fst h"
proof -
  have "map fst (erase_states x) = map fst x" for x by (auto simp: erase_states_def)
  then show "erase_states g = erase_states h \<Longrightarrow> map fst g = map fst h" by metis
qed

section \<open>The loop invariant\<close>

text \<open>\<open>progressed g0 g ts\<close>: from the collected graph \<open>g0\<close> the loop reached \<open>g\<close> and recorded \<open>ts\<close>.
  A Job that left \<open>Blocked\<close> has the state its policy still decides on \<open>g\<close>.\<close>

definition progressed :: "job_graph \<Rightarrow> job_graph \<Rightarrow> job_graph_transition list \<Rightarrow> bool" where
  "progressed g0 g ts \<longleftrightarrow>
     erase_states g = erase_states g0 \<and>
     (\<forall>(j, n)\<in>set g0.
        if node_state n = Job_Blocked
        then state_of g j = Job_Blocked \<or>
             node_decision (state_of g) n \<noteq> Dec_Blocked \<and>
             state_of g j = decided_state (node_decision (state_of g) n)
        else state_of g j = node_state n) \<and>
     distinct (map fst ts) \<and>
     set ts = {(j, state_of g j) |j n. (j, n) \<in> set g0 \<and> node_state n = Job_Blocked \<and>
       state_of g j \<noteq> Job_Blocked}"

definition released :: "JobState \<Rightarrow> bool" where
  "released s \<longleftrightarrow> s = Job_Ready \<or> s = Job_Skipped"

lemma node_decision_stable:
  assumes "node_decision \<sigma> n \<noteq> Dec_Blocked" and "\<sigma> j = Job_Blocked"
  shows "node_decision (\<sigma>(j := s)) n = node_decision \<sigma> n"
proof -
  have "list_all2 outcome_le (map (\<lambda>d. dependency_outcome (\<sigma> d)) ds)
      (map (\<lambda>d. dependency_outcome ((\<sigma>(j := s)) d)) ds)" for ds
    using assms(2) by (induction ds) (auto simp: outcome_le_def dependency_outcome_def)
  with assms(1) show ?thesis unfolding node_decision_def by (intro policy_decide_stable)
qed

lemma node_decision_erased: "node_decision \<sigma> (n\<lparr>node_state := s\<rparr>) = node_decision \<sigma> n"
  by (simp add: node_decision_def)

lemma dependency_outcomes_eq:
  assumes "dependency_outcomes g j n = Inr os"
  shows "os = map (\<lambda>d. dependency_outcome (state_of g d)) (dependencies n)"
proof -
  from assms have "list_all2 (\<lambda>d v. \<exists>m. bt_get g d = Some m \<and> v = dependency_outcome (node_state m))
      (dependencies n) os"
    by (auto simp: dependency_outcomes_def res_simps elim!: list_all2_mono)
  then show ?thesis
    by (induction rule: list_all2_induct) (auto simp: state_of_def)
qed

lemma progressed_set:
  assumes prog: "progressed g0 g ts" and wf: "bt_wf g0"
    and j: "bt_get g j = Some n" "node_state n = Job_Blocked"
    and s: "node_decision (state_of g) n \<noteq> Dec_Blocked" "s = decided_state (node_decision (state_of g) n)"
  shows "progressed g0 (set_job_state j s g) (ts @ [(j, s)])"
proof -
  have blocked: "state_of g j = Job_Blocked" using j by (simp add: state_of_def)
  have snb: "s \<noteq> Job_Blocked"
    using s by (cases "node_decision (state_of g) n") (auto simp: decided_state_def)
  have erased: "erase_states g = erase_states g0" using prog by (simp add: progressed_def)
  obtain n0 where n0: "(j, n0) \<in> set g0" "n = n0\<lparr>node_state := node_state n\<rparr>"
    using erase_states_get [OF erased j(1)] wf by (auto simp: bt_get_iff)
  have dec: "node_decision \<sigma> n = node_decision \<sigma> n0" for \<sigma>
    by (metis n0(2) node_decision_erased)
  have uniq: "m = n0" if "(j, m) \<in> set g0" for m
    using that n0(1) wf by (metis bt_get_iff option.inject)
  have n0_blocked: "node_state n0 = Job_Blocked"
    using prog n0(1) blocked by (fastforce simp: progressed_def split: if_splits)
  have upd: "state_of (set_job_state j s g) = (state_of g)(j := s)" using j(1) by (rule state_of_set)
  have stable: "node_decision (state_of g) m \<noteq> Dec_Blocked \<Longrightarrow>
      node_decision ((state_of g)(j := s)) m = node_decision (state_of g) m" for m
    using node_decision_stable blocked by blast
  show ?thesis
    unfolding progressed_def upd
  proof (intro conjI ballI, goal_cases)
    case 1
    show ?case using erased by simp
  next
    case (2 e)
    obtain k m where e: "e = (k, m)" by (cases e)
    show ?case
    proof (cases "k = j")
      case True
      then show ?thesis using 2 e uniq n0_blocked stable s dec by auto
    next
      case False
      then show ?thesis using 2 e prog stable by (fastforce simp: progressed_def split: if_splits)
    qed
  next
    case 3
    show ?case using prog blocked by (auto simp: progressed_def)
  next
    case 4
    have "set ts = {(k, state_of g k) |k m. (k, m) \<in> set g0 \<and> node_state m = Job_Blocked \<and>
        state_of g k \<noteq> Job_Blocked}" using prog by (simp add: progressed_def)
    then show ?case using n0(1) n0_blocked snb blocked by auto
  qed
qed

section \<open>Rounds\<close>

lemma dependency_outcomes_total:
  assumes "erase_states g = erase_states g0" and "graph_closed g0" and "bt_get g j = Some n"
  shows "dependency_outcomes g j n = Inr (map (\<lambda>d. dependency_outcome (state_of g d)) (dependencies n))"
proof -
  have present: "\<exists>m. bt_get g d = Some m" if "d \<in> set (dependencies n)" for d
  proof -
    from erase_states_get [OF assms(1,3)] obtain m where m: "bt_get g0 j = Some m" "dependencies m = dependencies n"
      by (metis JobGraphNode.select_convs(3) JobGraphNode.surjective JobGraphNode.update_convs(2))
    then have "m \<in> set (bt_values g0)" by (force simp: bt_get_def bt_values_def dest: map_of_SomeD)
    with assms(2) have "set (dependencies m) \<subseteq> set (bt_keys g0)" by (simp add: graph_closed_def)
    with m(2) that have "d \<in> set (bt_keys g0)" by auto
    then have "d \<in> set (map fst g)" using erase_states_keys [OF assms(1)] by (simp add: bt_keys_def)
    then show ?thesis by (metis bt_get_def map_of_eq_None_iff not_None_eq list.set_map)
  qed
  have "list_all2 (\<lambda>d v. ok_or (UnknownDependency j d)
      (map_option (\<lambda>n. dependency_outcome (node_state n)) (bt_get g d)) = Inr v)
      (dependencies n) (map (\<lambda>d. dependency_outcome (state_of g d)) (dependencies n))"
    by (auto simp: list_all2_map2 list_all2_same state_of_def dest!: present)
  then show ?thesis by (simp add: dependency_outcomes_def try_map_Inr_iff)
qed

text \<open>One Job of a round: it is still blocked when its turn comes, and the step succeeds.\<close>

lemma reconcile_job_step:
  assumes prog: "progressed g0 g ts" and valid: "graph_wf g0" "graph_closed g0"
    and j: "bt_get g j = Some n" "node_state n = Job_Blocked"
  shows "reconcile_job j (g, ts, c) = Inr
    (let d = node_decision (state_of g) n in
     if d = Dec_Blocked then (g, ts, c)
     else (set_job_state j (decided_state d) g, ts @ [(j, decided_state d)], True))"
proof -
  have "erase_states g = erase_states g0" using prog by (simp add: progressed_def)
  then have os: "dependency_outcomes g j n =
      Inr (map (\<lambda>d. dependency_outcome (state_of g d)) (dependencies n))"
    using valid(2) j(1) by (rule dependency_outcomes_total)
  show ?thesis
    by (cases "node_decision (state_of g) n")
      (simp_all add: reconcile_job_def j os node_decision_def [symmetric] decision_event_def
        decided_state_def Let_def)
qed

lemma reconcile_round_total:
  assumes valid: "graph_wf g0" "graph_closed g0" and "distinct js" and "progressed g0 g ts"
    and "\<forall>j\<in>set js. \<exists>n. bt_get g j = Some n \<and> node_state n = Job_Blocked"
  shows "\<exists>g' ts' c'. reconcile_round js (g, ts, c) = Inr (g', ts', c') \<and> progressed g0 g' ts' \<and>
    (c' \<or> g' = g \<and> ts' = ts \<and>
      (\<forall>j\<in>set js. \<forall>n. bt_get g j = Some n \<longrightarrow> node_decision (state_of g) n = Dec_Blocked)) \<and>
    (c \<longrightarrow> c')"
  using assms(3,4,5)
proof (induction js arbitrary: g ts c)
  case (Cons j js)
  from Cons.prems(3) obtain n where n: "bt_get g j = Some n" "node_state n = Job_Blocked" by auto
  let ?d = "node_decision (state_of g) n"
  note step = reconcile_job_step [OF Cons.prems(2) valid n, of c]
  show ?case
  proof (cases "?d = Dec_Blocked")
    case True
    obtain g' ts' c' where "reconcile_round js (g, ts, c) = Inr (g', ts', c')" "progressed g0 g' ts'"
      "c' \<or> g' = g \<and> ts' = ts \<and>
        (\<forall>j\<in>set js. \<forall>n. bt_get g j = Some n \<longrightarrow> node_decision (state_of g) n = Dec_Blocked)" "c \<longrightarrow> c'"
      using Cons.IH [of g ts c] Cons.prems by auto
    with True step n show ?thesis by (auto simp: Let_def)
  next
    case False
    let ?g = "set_job_state j (decided_state ?d) g" and ?ts = "ts @ [(j, decided_state ?d)]"
    have "progressed g0 ?g ?ts"
      using Cons.prems(2) valid n False by (intro progressed_set) (auto simp: graph_wf_def)
    moreover have "\<forall>k\<in>set js. \<exists>m. bt_get ?g k = Some m \<and> node_state m = Job_Blocked"
      using Cons.prems(1,3) by (auto simp: bt_get_set_job_state)
    moreover have "distinct js" using Cons.prems(1) by simp
    ultimately obtain g' ts' c' where "reconcile_round js (?g, ?ts, True) = Inr (g', ts', c')"
      "progressed g0 g' ts'" c'
      using Cons.IH [of ?g ?ts True] by blast
    moreover from this have "c' = True" by simp
    ultimately show ?thesis using False step by (simp add: Let_def) blast
  qed
qed simp

section \<open>The loop ends on the settled assignment\<close>

lemma blocked_ids_blocked:
  assumes "bt_wf g"
  shows "\<forall>j\<in>set (blocked_ids g). \<exists>n. bt_get g j = Some n \<and> node_state n = Job_Blocked"
    and "distinct (blocked_ids g)"
  using assms bt_wf_distinct [OF assms]
  by (auto simp: blocked_ids_def bt_get_iff intro: distinct_map_filter)

lemma progressed_settles:
  assumes "progressed g0 g ts" and "graph_wf g0"
    and stuck: "\<forall>j\<in>set (blocked_ids g). \<forall>n. bt_get g j = Some n \<longrightarrow>
      node_decision (state_of g) n = Dec_Blocked"
  shows "settles g0 (state_of g)"
  unfolding settles_def
proof (clarify)
  fix j n assume jn: "(j, n) \<in> set g0"
  have erased: "erase_states g0 = erase_states g" using assms(1) by (simp add: progressed_def)
  have get0: "bt_get g0 j = Some n" using jn assms(2) by (simp add: bt_get_iff graph_wf_def)
  obtain m where m: "bt_get g j = Some m" "n = m\<lparr>node_state := node_state n\<rparr>"
    using erase_states_get [OF erased get0] by auto
  have st: "state_of g j = node_state m" using m(1) by (simp add: state_of_def)
  have dec: "node_decision \<sigma> n = node_decision \<sigma> m" for \<sigma> by (metis m(2) node_decision_erased)
  have "node_decision (state_of g) n = Dec_Blocked" if "state_of g j = Job_Blocked"
  proof -
    have "j \<in> set (blocked_ids g)" using that st m(1)
      by (force simp: blocked_ids_def bt_get_def dest: map_of_SomeD)
    with stuck m(1) dec show ?thesis by simp
  qed
  then show "state_of g j = (if node_state n = Job_Blocked
      then decided_state (node_decision (state_of g) n) else node_state n)"
    using assms(1) jn by (fastforce simp: progressed_def decided_state_def split: if_splits)
qed

lemma reconcile_loop_total:
  assumes valid: "graph_wf g0" "graph_closed g0"
  shows "progressed g0 g ts \<Longrightarrow>
    \<exists>g' ts'. reconcile_loop g ts = Inr (g', ts') \<and> progressed g0 g' ts' \<and> settles g0 (state_of g')"
proof (induction g ts rule: reconcile_loop.induct)
  case (1 g ts)
  have "bt_wf g"
    using 1(2) valid(1) erase_states_keys [of g g0] by (simp add: bt_wf_def graph_wf_def progressed_def)
  note blocked = blocked_ids_blocked [OF this]
  obtain g' ts' c' where round: "reconcile_round (blocked_ids g) (g, ts, False) = Inr (g', ts', c')"
    "progressed g0 g' ts'"
    and unchanged: "c' \<or> g' = g \<and> ts' = ts \<and> (\<forall>j\<in>set (blocked_ids g). \<forall>n. bt_get g j = Some n \<longrightarrow>
      node_decision (state_of g) n = Dec_Blocked)"
    using reconcile_round_total [OF valid blocked(2) 1(2) blocked(1)] by blast
  show ?case
  proof (cases c')
    case True
    with 1(1) [OF round(1)] round show ?thesis by (subst reconcile_loop.simps) simp
  next
    case False
    with unchanged have "settles g0 (state_of g')" "g' = g" "ts' = ts"
      using progressed_settles [OF 1(2) valid(1)] by auto
    with False round show ?thesis by (subst reconcile_loop.simps) simp
  qed
qed

lemma progressed_start:
  assumes "graph_wf g" shows "progressed g g []"
proof -
  have "state_of g j = node_state n" if "(j, n) \<in> set g" for j n
    using that assms state_of_entry by (auto simp: graph_wf_def)
  then show ?thesis by (auto simp: progressed_def)
qed

end
