(* ===== verification/Orchestrator_Correct.thy ===== *)
theory Orchestrator_Correct
  imports Orchestrator_Fixpoint
begin

text \<open>
  The properties of the Orchestrator: what validation accepts, that reconciliation returns on every
  valid graph with the unique settled assignment, that replaying it changes nothing, that a running
  Attempt has a Job to wait for, and that a propagated cancellation is accepted and dominates.
\<close>

section \<open>Settled assignments of a node list\<close>

definition settled :: "JobGraphNode list \<Rightarrow> (job_id \<Rightarrow> JobState) \<Rightarrow> bool" where
  "settled nodes \<sigma> \<longleftrightarrow> (\<forall>n\<in>set nodes.
     \<sigma> (node_id n) =
       (if node_state n = Job_Blocked then decided_state (node_decision \<sigma> n) else node_state n))"

lemma settles_iff_settled:
  assumes "collect_graph nodes = Inr graph"
  shows "settles graph \<sigma> \<longleftrightarrow> settled nodes \<sigma>"
proof -
  from assms have "set graph = (\<lambda>n. (node_id n, n)) ` set nodes" by (auto simp: collect_graph_Inr_iff)
  then show ?thesis by (auto simp: settles_def settled_def)
qed

lemma derive_fold:
  "fold (\<lambda>s (t, f, c). (t \<and> job_is_terminal s, f \<or> s = Job_Failed, c \<or> s = Job_Cancelled)) ss (t, f, c)
     = (t \<and> (\<forall>s\<in>set ss. job_is_terminal s), f \<or> Job_Failed \<in> set ss, c \<or> Job_Cancelled \<in> set ss)"
  by (induction ss arbitrary: t f c) auto

lemma derive_attempt_state_eq:
  "derive_attempt_state ss c =
     (if \<not> (\<forall>s\<in>set ss. job_is_terminal s) then Attempt_Running
      else if c then Attempt_Cancelled
      else if Job_Failed \<in> set ss then Attempt_Failed
      else if Job_Cancelled \<in> set ss then Attempt_Cancelled
      else Attempt_Succeeded)"
  by (simp add: derive_attempt_state_def derive_fold)

lemma derive_attempt_state_cong:
  "set ss = set ss' \<Longrightarrow> derive_attempt_state ss c = derive_attempt_state ss' c"
  by (simp add: derive_attempt_state_eq)

text \<open>The decision read off an assignment.\<close>

definition decision_of ::
  "JobGraphNode list \<Rightarrow> (job_id \<Rightarrow> JobState) \<Rightarrow> bool \<Rightarrow> OrchestrationDecision"
where
  "decision_of nodes \<sigma> c =
     \<lparr>job_transitions = map (\<lambda>n. (node_id n, \<sigma> (node_id n)))
        (filter (\<lambda>n. node_state n = Job_Blocked \<and> \<sigma> (node_id n) \<noteq> Job_Blocked) (sort_key node_id nodes)),
      attempt_state = derive_attempt_state (map (\<lambda>n. \<sigma> (node_id n)) nodes) c,
      build_state = build_state_of_attempt (derive_attempt_state (map (\<lambda>n. \<sigma> (node_id n)) nodes) c)\<rparr>"

lemma sorted_transitions_wf:
  assumes "distinct (map node_id nodes)"
  shows "bt_wf (map (\<lambda>n. (node_id n, f n)) (filter P (sort_key node_id nodes)))"
proof -
  have "sorted_wrt (<) (map node_id (sort_key node_id nodes))"
    using assms by (simp add: strict_sorted_iff distinct_map)
  then have "sorted_wrt (<) (map node_id (filter P (sort_key node_id nodes)))"
    by (simp add: sorted_wrt_map sorted_wrt_filter)
  then show ?thesis by (simp add: bt_wf_def comp_def)
qed

lemma reconcile_valid:
  assumes col: "collect_graph nodes = Inr graph" and valid: "graph_valid graph"
    and cancel: "c \<Longrightarrow> \<forall>n\<in>set nodes. \<not> cancel_active (node_state n)"
  shows "\<exists>\<sigma>. settled nodes \<sigma> \<and> reconcile nodes c = Inr (decision_of nodes \<sigma> c)"
proof -
  have wf: "graph_wf graph" and closed: "graph_closed graph" using valid by (simp_all add: graph_valid_def)
  obtain g' ts where loop: "reconcile_loop graph [] = Inr (g', ts)"
    and prog: "progressed graph g' ts" and settles: "settles graph (state_of g')"
    using reconcile_loop_total [OF wf closed progressed_start [OF wf]] by blast
  have entries: "set graph = (\<lambda>n. (node_id n, n)) ` set nodes" and dist: "distinct (map node_id nodes)"
    using col by (auto simp: collect_graph_Inr_iff)
  have "sort_key fst ts = job_transitions (decision_of nodes (state_of g') c)"
  proof (rule bt_wf_unique)
    show "bt_wf (sort_key fst ts)" using prog by (intro bt_wf_sort_key) (simp add: progressed_def)
    show "bt_wf (job_transitions (decision_of nodes (state_of g') c))"
      using sorted_transitions_wf [OF dist] by (simp add: decision_of_def)
    show "set (sort_key fst ts) = set (job_transitions (decision_of nodes (state_of g') c))"
      using prog by (auto simp: decision_of_def progressed_def entries)
  qed
  moreover have "map node_state (bt_values g') = map (state_of g') (map fst graph)"
  proof -
    have keys: "map fst g' = map fst graph"
      using prog by (intro erase_states_keys) (simp add: progressed_def)
    then have "bt_wf g'" using wf by (simp add: bt_wf_def graph_wf_def)
    then have "map node_state (bt_values g') = map (state_of g') (map fst g')"
      by (auto simp: bt_values_def state_of_entry)
    with keys show ?thesis by simp
  qed
  moreover have "set (map (state_of g') (map fst graph)) = set (map (\<lambda>n. state_of g' (node_id n)) nodes)"
    by (simp add: entries image_image)
  ultimately have "derive_attempt_state (map node_state (bt_values g')) c =
      derive_attempt_state (map (\<lambda>n. state_of g' (node_id n)) nodes) c"
    and ts: "sort_key fst ts = job_transitions (decision_of nodes (state_of g') c)"
    using derive_attempt_state_cong by metis+
  moreover have "(if c then find (\<lambda>(j, n). cancel_active (node_state n)) graph else None) = None"
    using cancel by (auto simp: find_None_iff entries)
  ultimately have "reconcile nodes c = Inr (decision_of nodes (state_of g') c)"
    using valid validate_graph_Inr_iff [OF wf, of "()"]
    by (simp add: reconcile_def col loop Let_def) (simp add: decision_of_def)
  with settles settles_iff_settled [OF col] show ?thesis by blast
qed

lemma settled_unique:
  assumes "validate_job_graph nodes = Inr ()" and "settled nodes \<sigma>" and "settled nodes \<tau>" and "n \<in> set nodes"
  shows "\<sigma> (node_id n) = \<tau> (node_id n)"
proof -
  from assms(1) obtain g where g: "collect_graph nodes = Inr g" "graph_valid g"
    by (auto simp: validate_job_graph_Inr_iff)
  with assms(2-4) show ?thesis
    using settles_unique [OF g(2)] settles_iff_settled [OF g(1)] collect_graph_wf(3) [OF g(1)] by auto
qed

lemma decision_of_cong:
  "(\<And>n. n \<in> set nodes \<Longrightarrow> \<sigma> (node_id n) = \<tau> (node_id n)) \<Longrightarrow> decision_of nodes \<sigma> c = decision_of nodes \<tau> c"
proof -
  assume eq: "\<And>n. n \<in> set nodes \<Longrightarrow> \<sigma> (node_id n) = \<tau> (node_id n)"
  have states: "map (\<lambda>n. \<sigma> (node_id n)) nodes = map (\<lambda>n. \<tau> (node_id n)) nodes" using eq by simp
  have moved: "filter (\<lambda>n. node_state n = Job_Blocked \<and> \<sigma> (node_id n) \<noteq> Job_Blocked) (sort_key node_id nodes) =
      filter (\<lambda>n. node_state n = Job_Blocked \<and> \<tau> (node_id n) \<noteq> Job_Blocked) (sort_key node_id nodes)"
    using eq by (intro filter_cong) auto
  show ?thesis unfolding decision_of_def states moved using eq by simp
qed

lemma reconcile_job_graph_iff:
  assumes "validate_job_graph nodes = Inr ()"
  shows "reconcile_job_graph nodes = Inr d \<longleftrightarrow> (\<exists>\<sigma>. settled nodes \<sigma> \<and> d = decision_of nodes \<sigma> False)"
proof -
  obtain \<sigma> where s: "settled nodes \<sigma>" "reconcile nodes False = Inr (decision_of nodes \<sigma> False)"
    using assms reconcile_valid [of nodes _ False] by (auto simp: validate_job_graph_Inr_iff)
  have "decision_of nodes \<tau> False = decision_of nodes \<sigma> False" if "settled nodes \<tau>" for \<tau>
    using settled_unique [OF assms that s(1)] by (rule decision_of_cong)
  with s(1) have "(\<exists>\<tau>. settled nodes \<tau> \<and> d = decision_of nodes \<tau> False) \<longleftrightarrow> d = decision_of nodes \<sigma> False"
    by metis
  with s(2) show ?thesis by (auto simp: reconcile_job_graph_def)
qed

section \<open>Replay\<close>

text \<open>The store applies the transitions of a decision to the rows they name.\<close>

definition apply_transitions :: "job_graph_transition list \<Rightarrow> JobGraphNode list \<Rightarrow> JobGraphNode list" where
  "apply_transitions ts nodes =
     map (\<lambda>n. case map_of ts (node_id n) of Some s \<Rightarrow> n\<lparr>node_state := s\<rparr> | None \<Rightarrow> n) nodes"

lemma apply_transitions_eq:
  assumes "distinct (map fst ts)" and "set ts = {(node_id n, f n) |n. n \<in> set nodes \<and> P n}"
    and "distinct (map node_id nodes)"
  shows "apply_transitions ts nodes =
    map (\<lambda>n. n\<lparr>node_state := (if P n then f n else node_state n)\<rparr>) nodes"
  unfolding apply_transitions_def
proof (rule map_cong [OF refl])
  fix n assume n: "n \<in> set nodes"
  have inj: "m = n" if "m \<in> set nodes" "node_id m = node_id n" for m
    using assms(3) n that by (auto simp: distinct_map inj_on_def)
  show "(case map_of ts (node_id n) of Some s \<Rightarrow> n\<lparr>node_state := s\<rparr> | None \<Rightarrow> n) =
    n\<lparr>node_state := (if P n then f n else node_state n)\<rparr>"
  proof (cases "P n")
    case True
    then have "(node_id n, f n) \<in> set ts" using n assms(2) by blast
    with assms(1) True show ?thesis by simp
  next
    case False
    then have "node_id n \<notin> fst ` set ts" using inj unfolding assms(2) by auto
    then have "map_of ts (node_id n) = None" by (simp add: map_of_eq_None_iff)
    with False show ?thesis by simp
  qed
qed

text \<open>Validity does not depend on the states as long as no root becomes blocked.\<close>

definition ids_of :: "JobGraphNode list \<Rightarrow> job_id set" where
  "ids_of nodes = node_id ` set nodes"

definition dep_edges :: "JobGraphNode list \<Rightarrow> (job_id \<times> job_id) set" where
  "dep_edges nodes = (\<Union>n\<in>set nodes. (\<lambda>d. (d, node_id n)) ` set (dependencies n))"

lemma dep_rel_collected:
  assumes "collect_graph nodes = Inr g"
  shows "dep_rel (set (bt_keys g)) (job_preds g) = dep_edges nodes"
proof -
  have wf: "bt_wf g" using collect_graph_wf(1) [OF assms] by (simp add: graph_wf_def)
  have entries: "set g = (\<lambda>n. (node_id n, n)) ` set nodes" using assms by (auto simp: collect_graph_Inr_iff)
  have "job_preds g (node_id n) = set (dependencies n)" if "n \<in> set nodes" for n
    using wf that entries by (intro job_preds_entry) auto
  then show ?thesis
    by (auto simp: dep_rel_def dep_edges_def collect_graph_wf(3) [OF assms])
qed

lemma validate_job_graph_facts:
  "validate_job_graph nodes = Inr u \<longleftrightarrow>
     nodes \<noteq> [] \<and> distinct (map node_id nodes) \<and>
     (\<forall>n\<in>set nodes. set (dependencies n) \<subseteq> ids_of nodes \<and>
        \<not> (node_state n = Job_Blocked \<and> dependencies n = [])) \<and>
     acyclic (dep_edges nodes)"
proof (cases "\<exists>g. collect_graph nodes = Inr g")
  case True
  then obtain g where g: "collect_graph nodes = Inr g" ..
  note facts = collect_graph_wf [OF g]
  have "nodes \<noteq> []" "distinct (map node_id nodes)" using g by (simp_all add: collect_graph_Inr_iff)
  moreover have "job_deps.acyclic_graph g \<longleftrightarrow> acyclic (dep_edges nodes)"
    by (simp only: job_deps.acyclic_graph_def dep_rel_collected [OF g])
  ultimately show ?thesis
    unfolding validate_job_graph_Inr_iff g
    by (auto simp: graph_valid_def graph_closed_def no_blocked_root_def facts ids_of_def)
next
  case False
  then show ?thesis by (auto simp: validate_job_graph_Inr_iff collect_graph_Inr_iff)
qed

lemma restated_nodes:
  assumes "nodes' = map (\<lambda>n. n\<lparr>node_state := h n\<rparr>) nodes"
  shows "map node_id nodes' = map node_id nodes" and "ids_of nodes' = ids_of nodes"
    and "dep_edges nodes' = dep_edges nodes"
proof -
  show "map node_id nodes' = map node_id nodes" by (simp add: assms comp_def)
  show "ids_of nodes' = ids_of nodes" by (simp add: assms ids_of_def image_image)
  show "dep_edges nodes' = dep_edges nodes" by (simp add: assms dep_edges_def)
qed

lemma validate_restated:
  assumes "validate_job_graph nodes = Inr ()" and "nodes' = map (\<lambda>n. n\<lparr>node_state := h n\<rparr>) nodes"
    and "\<And>n. n \<in> set nodes \<Longrightarrow> h n = Job_Blocked \<Longrightarrow> node_state n = Job_Blocked"
  shows "validate_job_graph nodes' = Inr ()"
  using assms(1,3) unfolding validate_job_graph_facts restated_nodes [OF assms(2)]
  by (auto simp: assms(2))

lemma settled_replay:
  assumes "validate_job_graph nodes = Inr ()" and "settled nodes \<sigma>"
    and nodes': "nodes' = map (\<lambda>n. n\<lparr>node_state := \<sigma> (node_id n)\<rparr>) nodes"
  shows "reconcile_job_graph nodes' = Inr ((decision_of nodes \<sigma> False)\<lparr>job_transitions := []\<rparr>)"
proof -
  have kept: "node_state n = Job_Blocked" if "n \<in> set nodes" "\<sigma> (node_id n) = Job_Blocked" for n
    using assms(2) that by (fastforce simp: settled_def split: if_splits)
  have valid: "validate_job_graph nodes' = Inr ()" by (rule validate_restated [OF assms(1) nodes' kept])
  have "settled nodes' \<sigma>"
    unfolding settled_def
  proof
    fix m assume "m \<in> set nodes'"
    then obtain n where n: "n \<in> set nodes" "m = n\<lparr>node_state := \<sigma> (node_id n)\<rparr>" by (auto simp: nodes')
    have "\<sigma> (node_id n) = decided_state (node_decision \<sigma> n)" if "\<sigma> (node_id n) = Job_Blocked"
      using assms(2) kept [OF n(1) that] n(1) by (simp add: settled_def)
    then show "\<sigma> (node_id m) =
        (if node_state m = Job_Blocked then decided_state (node_decision \<sigma> m) else node_state m)"
      by (simp add: n(2) node_decision_erased)
  qed
  then have "reconcile_job_graph nodes' = Inr (decision_of nodes' \<sigma> False)"
    using reconcile_job_graph_iff [OF valid] by blast
  moreover have "decision_of nodes' \<sigma> False = (decision_of nodes \<sigma> False)\<lparr>job_transitions := []\<rparr>"
    by (auto simp: decision_of_def nodes' comp_def filter_empty_conv)
  ultimately show ?thesis by simp
qed

lemma applied_decision:
  assumes "validate_job_graph nodes = Inr ()" and "settled nodes \<sigma>"
  shows "apply_transitions (job_transitions (decision_of nodes \<sigma> c)) nodes =
    map (\<lambda>n. n\<lparr>node_state := \<sigma> (node_id n)\<rparr>) nodes"
proof -
  have dist: "distinct (map node_id nodes)" using assms(1) by (simp add: validate_job_graph_facts)
  let ?P = "\<lambda>n. node_state n = Job_Blocked \<and> \<sigma> (node_id n) \<noteq> Job_Blocked"
  let ?ts = "job_transitions (decision_of nodes \<sigma> c)"
  have "apply_transitions ?ts nodes =
      map (\<lambda>n. n\<lparr>node_state := (if ?P n then \<sigma> (node_id n) else node_state n)\<rparr>) nodes"
  proof (rule apply_transitions_eq [OF _ _ dist])
    have "bt_wf ?ts" using sorted_transitions_wf [OF dist] by (simp add: decision_of_def)
    then show "distinct (map fst ?ts)" by (rule bt_wf_distinct)
    show "set ?ts = {(node_id n, \<sigma> (node_id n)) |n. n \<in> set nodes \<and> ?P n}"
      by (auto simp: decision_of_def)
  qed
  also have "\<dots> = map (\<lambda>n. n\<lparr>node_state := \<sigma> (node_id n)\<rparr>) nodes"
    using assms(2) by (auto simp: settled_def)
  finally show ?thesis .
qed

lemma collect_graph_sorted:
  assumes "collect_graph nodes = Inr g"
  shows "g = map (\<lambda>n. (node_id n, n)) (sort_key node_id nodes)"
proof (rule bt_wf_unique)
  have dist: "distinct (map node_id nodes)" using assms by (simp add: collect_graph_Inr_iff)
  show "bt_wf g" using collect_graph_wf(1) [OF assms] by (simp add: graph_wf_def)
  show "bt_wf (map (\<lambda>n. (node_id n, n)) (sort_key node_id nodes))"
    using sorted_transitions_wf [OF dist, of "\<lambda>n. n" "\<lambda>_. True"] by simp
qed (use assms in \<open>simp add: collect_graph_Inr_iff\<close>)

lemma find_map_pair:
  "find (\<lambda>(j, n). P n) (map (\<lambda>n. (f n, n)) xs) = map_option (\<lambda>n. (f n, n)) (find P xs)"
  by (induction xs) auto

lemma reconcile_Inr_valid: "reconcile nodes c = Inr d \<Longrightarrow> validate_job_graph nodes = Inr ()"
  by (auto simp: reconcile_def validate_job_graph_def res_simps)

section \<open>Liveness of a settled graph\<close>

lemma blocked_has_pending_dependency:
  assumes "settled nodes \<sigma>" and "n \<in> set nodes" and "\<sigma> (node_id n) = Job_Blocked"
    and "node_state n = Job_Blocked \<Longrightarrow> dependencies n \<noteq> []"
  shows "\<exists>d\<in>set (dependencies n). \<not> job_is_terminal (\<sigma> d)"
proof -
  from assms(1,2,3) have st: "node_state n = Job_Blocked"
    and dec: "decided_state (node_decision \<sigma> n) = Job_Blocked"
    by (fastforce simp: settled_def split: if_splits)+
  from dec have "node_decision \<sigma> n = Dec_Blocked"
    by (simp add: decided_state_def split: DependencyDecision.splits)
  then have "Out_Pending \<in> set (map (\<lambda>d. dependency_outcome (\<sigma> d)) (dependencies n))"
    using assms(4) [OF st] unfolding node_decision_def by (intro policy_decide_blocked_pending) auto
  then obtain d where "d \<in> set (dependencies n)" "dependency_outcome (\<sigma> d) = Out_Pending" by auto
  then have "\<not> job_is_terminal (\<sigma> d)"
    by (cases "\<sigma> d") (simp_all add: dependency_outcome_def job_is_terminal_def)
  with \<open>d \<in> set (dependencies n)\<close> show ?thesis by blast
qed

lemma settled_live_or_terminal:
  assumes valid: "validate_job_graph nodes = Inr ()" and settled: "settled nodes \<sigma>"
    and dead: "\<forall>n\<in>set nodes. \<not> job_is_live (\<sigma> (node_id n))"
  shows "\<forall>n\<in>set nodes. job_is_terminal (\<sigma> (node_id n))"
proof
  fix n assume "n \<in> set nodes"
  obtain g where g: "collect_graph nodes = Inr g" "graph_valid g"
    using valid by (auto simp: validate_job_graph_Inr_iff)
  have entries: "set g = (\<lambda>n. (node_id n, n)) ` set nodes" using g(1) by (auto simp: collect_graph_Inr_iff)
  show "job_is_terminal (\<sigma> (node_id n))"
  proof (rule job_deps.dependency_induct [where g = g and P = "\<lambda>j. job_is_terminal (\<sigma> j)"])
    fix j assume "j \<in> set (bt_keys g)" and IH: "\<And>d. d \<in> job_preds g j \<Longrightarrow> job_is_terminal (\<sigma> d)"
    then obtain m where m: "m \<in> set nodes" "j = node_id m" by (auto simp: collect_graph_wf(3) [OF g(1)])
    have "job_preds g j = set (dependencies m)"
      using g(2) m entries by (intro job_preds_entry) (auto simp: graph_valid_def graph_wf_def)
    with IH have "\<not> (\<exists>d\<in>set (dependencies m). \<not> job_is_terminal (\<sigma> d))" by blast
    then have "\<sigma> j \<noteq> Job_Blocked"
      using blocked_has_pending_dependency [OF settled m(1)] valid m
      by (auto simp: validate_job_graph_facts)
    with job_state_trichotomy [of "\<sigma> j"] dead m show "job_is_terminal (\<sigma> j)" by auto
  qed (use g collect_graph_wf(3) [OF g(1)] \<open>n \<in> set nodes\<close> in \<open>auto simp: graph_valid_def\<close>)
qed

section \<open>Cancelled graphs\<close>

text \<open>The decision on a graph a cancellation request has reached.\<close>

lemma reconcile_cancelled_eq:
  assumes valid: "validate_job_graph nodes = Inr ()"
    and reached: "\<forall>n\<in>set nodes. \<not> cancel_active (node_state n)"
  shows "reconcile_cancelled_job_graph nodes = Inr
    (let a = (if Job_Cancelling \<in> node_state ` set nodes then Attempt_Running else Attempt_Cancelled) in
     \<lparr>job_transitions = [], attempt_state = a, build_state = build_state_of_attempt a\<rparr>)"
proof -
  obtain \<sigma> where s: "settled nodes \<sigma>" "reconcile nodes True = Inr (decision_of nodes \<sigma> True)"
    using valid reached reconcile_valid [of nodes _ True] by (auto simp: validate_job_graph_Inr_iff)
  have st: "\<sigma> (node_id n) = node_state n" "node_state n \<noteq> Job_Blocked" if "n \<in> set nodes" for n
    using s(1) reached that by (auto simp: settled_def cancel_active_def)
  have "\<not> job_is_terminal (node_state n) \<longleftrightarrow> node_state n = Job_Cancelling" if "n \<in> set nodes" for n
    using reached that by (cases "node_state n") (auto simp: cancel_active_def job_is_terminal_def)
  then have "derive_attempt_state (map (\<lambda>n. \<sigma> (node_id n)) nodes) True =
      (if Job_Cancelling \<in> node_state ` set nodes then Attempt_Running else Attempt_Cancelled)"
    using st(1) by (auto simp: derive_attempt_state_eq image_iff) metis+
  then show ?thesis using s(2) st
    by (auto simp: reconcile_cancelled_job_graph_def decision_of_def Let_def filter_empty_conv)
qed

section \<open>Properties\<close>

text \<open>The graph used by the examples: a failed build Job, a blocked deployment that needs it, a
  blocked report that runs whatever happened, and a blocked notification behind the deployment.\<close>

definition sample_graph :: "JobGraphNode list" where
  "sample_graph =
     [\<lparr>node_id = 4, node_state = Job_Blocked, dependencies = [2], dependency_policy = AllSucceeded\<rparr>,
      \<lparr>node_id = 1, node_state = Job_Failed, dependencies = [], dependency_policy = AllSucceeded\<rparr>,
      \<lparr>node_id = 2, node_state = Job_Blocked, dependencies = [1], dependency_policy = AllSucceeded\<rparr>,
      \<lparr>node_id = 3, node_state = Job_Blocked, dependencies = [1, 2], dependency_policy = AllCompleted\<rparr>]"

lemma sample_graph_valid: "validate_job_graph sample_graph = Inr ()"
  by code_simp

text \<open>Reconciliation refines its declarative specification (C1): on every graph the validation
  accepts it returns, and its decision is the one read off the settled assignment, which is unique
  on the Jobs of the graph: a blocked Job gets the state its fan-in policy decides on the final
  states of its predecessors, every other Job keeps its state, the reported transitions are the
  blocked Jobs that moved, in increasing identity order, and the Attempt state is derived from the
  final states.\<close>

theorem reconcile_refines_settled:
  assumes "validate_job_graph nodes = Inr ()"
  shows "\<exists>\<sigma>. settled nodes \<sigma> \<and> reconcile_job_graph nodes = Inr (decision_of nodes \<sigma> False) \<and>
    (\<forall>\<tau>. settled nodes \<tau> \<longrightarrow> (\<forall>n\<in>set nodes. \<tau> (node_id n) = \<sigma> (node_id n)))"
proof -
  obtain \<sigma> where "settled nodes \<sigma>" "reconcile nodes False = Inr (decision_of nodes \<sigma> False)"
    using assms reconcile_valid [of nodes _ False] by (auto simp: validate_job_graph_Inr_iff)
  then show ?thesis using settled_unique [OF assms] unfolding reconcile_job_graph_def by blast
qed

theorem reconcile_refines_settled_witness:
  "(\<exists>\<sigma>. settled sample_graph \<sigma> \<and>
      reconcile_job_graph sample_graph = Inr (decision_of sample_graph \<sigma> False)) \<and>
   reconcile_job_graph sample_graph =
     Inr \<lparr>job_transitions = [(2, Job_Skipped), (3, Job_Ready), (4, Job_Skipped)],
          attempt_state = Attempt_Running, build_state = Build_Running\<rparr>"
proof
  show "\<exists>\<sigma>. settled sample_graph \<sigma> \<and>
      reconcile_job_graph sample_graph = Inr (decision_of sample_graph \<sigma> False)"
    using reconcile_refines_settled [OF sample_graph_valid] by blast
qed code_simp

text \<open>Structural validation is exact (C2): a Job graph is accepted if and only if it is non-empty,
  names every Job once, has its dependencies inside the graph, has no dependency-blocked root and
  has no dependency cycle.\<close>

theorem validate_job_graph_exact:
  "validate_job_graph nodes = Inr () \<longleftrightarrow>
     nodes \<noteq> [] \<and> distinct (map node_id nodes) \<and>
     list_all (\<lambda>n. set (dependencies n) \<subseteq> ids_of nodes) nodes \<and>
     list_all (\<lambda>n. \<not> (node_state n = Job_Blocked \<and> dependencies n = [])) nodes \<and>
     acyclic (dep_edges nodes)"
  unfolding validate_job_graph_facts list_all_iff by blast

text \<open>Every error of reconciliation is a validation error: without a cancellation request the
  loop itself never fails, so \<open>UnknownDependency\<close> and \<open>InvalidJobTransition\<close> cannot come from it;
  with a cancellation request the only other error names the first Job the request has not
  reached.\<close>

theorem reconcile_errors:
  "reconcile nodes cancelled = Inl err \<longleftrightarrow>
     validate_job_graph nodes = Inl err \<or>
     cancelled \<and> validate_job_graph nodes = Inr () \<and>
     (\<exists>n. find (\<lambda>n. cancel_active (node_state n)) (sort_key node_id nodes) = Some n \<and>
        err = CancellationNotPropagated (node_id n))"
proof (cases "validate_job_graph nodes")
  case (Inl e)
  then show ?thesis
    by (auto simp: reconcile_def validate_job_graph_def and_then_Inl_iff)
next
  case (Inr u)
  then obtain g where g: "collect_graph nodes = Inr g" "graph_valid g"
    by (auto simp: validate_job_graph_Inr_iff)
  then have valid: "validate_graph g = Inr ()"
    using validate_graph_Inr_iff collect_graph_wf(1) by blast
  have sorted: "g = map (\<lambda>n. (node_id n, n)) (sort_key node_id nodes)"
    using g(1) by (rule collect_graph_sorted)
  show ?thesis
  proof (cases "cancelled \<and> (\<exists>n\<in>set nodes. cancel_active (node_state n))")
    case False
    then have "\<exists>d. reconcile nodes cancelled = Inr d" using reconcile_valid [OF g] by blast
    moreover have "find (\<lambda>n. cancel_active (node_state n)) (sort_key node_id nodes) = None" if cancelled
      using False that by (simp add: find_None_iff)
    ultimately show ?thesis using Inr by auto
  next
    case True
    then obtain n where n: "find (\<lambda>n. cancel_active (node_state n)) (sort_key node_id nodes) = Some n"
      by (cases "find (\<lambda>n. cancel_active (node_state n)) (sort_key node_id nodes)")
        (auto simp: find_None_iff)
    then have "find (\<lambda>(j, n). cancel_active (node_state n)) g = Some (node_id n, n)"
      by (simp add: sorted find_map_pair)
    with True n Inr g(1) valid show ?thesis by (auto simp: reconcile_def)
  qed
qed

text \<open>Replay is a no-op: once the transitions of a decision are stored, reconciling the graph
  again returns no transition and the same Attempt and Build state.\<close>

theorem reconcile_replay_noop:
  assumes "reconcile_job_graph nodes = Inr d"
  shows "reconcile_job_graph (apply_transitions (job_transitions d) nodes) = Inr (d\<lparr>job_transitions := []\<rparr>)"
proof -
  have valid: "validate_job_graph nodes = Inr ()"
    using assms reconcile_Inr_valid by (simp add: reconcile_job_graph_def)
  then obtain \<sigma> where s: "settled nodes \<sigma>" and d: "d = decision_of nodes \<sigma> False"
    using assms reconcile_job_graph_iff by blast
  show ?thesis unfolding d applied_decision [OF valid s] by (rule settled_replay [OF valid s refl])
qed

theorem reconcile_replay_noop_witness:
  "reconcile_job_graph (apply_transitions [(2, Job_Skipped), (3, Job_Ready), (4, Job_Skipped)] sample_graph) =
     Inr \<lparr>job_transitions = [], attempt_state = Attempt_Running, build_state = Build_Running\<rparr>"
proof -
  have "reconcile_job_graph sample_graph =
     Inr \<lparr>job_transitions = [(2, Job_Skipped), (3, Job_Ready), (4, Job_Skipped)],
          attempt_state = Attempt_Running, build_state = Build_Running\<rparr>" by code_simp
  from reconcile_replay_noop [OF this] show ?thesis by simp
qed

text \<open>No deadlock: when reconciliation leaves the Attempt running, some Job of the graph is
  ready, leased, running or being cancelled in the final assignment, so the Attempt can still
  advance; blocked Jobs alone never keep it open.\<close>

theorem reconcile_running_has_live_job:
  assumes "reconcile_job_graph nodes = Inr d" and "attempt_state d = Attempt_Running"
  shows "\<exists>n\<in>set (apply_transitions (job_transitions d) nodes). job_is_live (node_state n)"
proof (rule ccontr)
  assume dead: "\<not> ?thesis"
  have valid: "validate_job_graph nodes = Inr ()"
    using assms(1) reconcile_Inr_valid by (simp add: reconcile_job_graph_def)
  then obtain \<sigma> where s: "settled nodes \<sigma>" and d: "d = decision_of nodes \<sigma> False"
    using assms(1) reconcile_job_graph_iff by blast
  from dead have "\<forall>n\<in>set nodes. \<not> job_is_live (\<sigma> (node_id n))"
    unfolding d applied_decision [OF valid s] by auto
  from settled_live_or_terminal [OF valid s this] assms(2) show False
    by (auto simp: d decision_of_def derive_attempt_state_eq split: if_splits)
qed

theorem reconcile_running_has_live_job_witness:
  "\<exists>n\<in>set (apply_transitions [(2, Job_Skipped), (3, Job_Ready), (4, Job_Skipped)] sample_graph).
     job_is_live (node_state n)"
proof -
  have "reconcile_job_graph sample_graph =
     Inr \<lparr>job_transitions = [(2, Job_Skipped), (3, Job_Ready), (4, Job_Skipped)],
          attempt_state = Attempt_Running, build_state = Build_Running\<rparr>" by code_simp
  from reconcile_running_has_live_job [OF this] show ?thesis by simp
qed

text \<open>Cancellation composes with reconciliation (C6): after the transitions chosen by
  \<^verbatim>\<open>cancel_job_states\<close> are stored, \<^verbatim>\<open>reconcile_cancelled_job_graph\<close> accepts the graph, moves no
  further Job and derives exactly the Attempt and Build states the cancellation announced.\<close>

theorem cancellation_then_reconcile:
  assumes "validate_job_graph nodes = Inr ()"
    and "cancel_job_states b a (map (\<lambda>n. (node_id n, node_state n)) nodes) = Inr d"
  shows "reconcile_cancelled_job_graph (apply_transitions (cd_transitions d) nodes) =
    Inr \<lparr>job_transitions = [], attempt_state = cd_attempt_state d, build_state = cd_build_state d\<rparr>"
proof -
  let ?jobs = "map (\<lambda>n. (node_id n, node_state n)) nodes"
  have active: "b = Build_Queued \<or> b = Build_Running" "a = Attempt_Created \<or> a = Attempt_Running"
    using assms(2) by (auto simp: cancel_job_states_def split: if_splits)
  have "nodes \<noteq> []" and dist: "distinct (map node_id nodes)"
    using assms(1) by (simp_all add: validate_job_graph_facts)
  then have jobs: "?jobs \<noteq> []" "distinct (map fst ?jobs)" by (simp_all add: comp_def)
  note d = assms(2) [unfolded cancel_job_states_eq [OF active jobs] Let_def sum.inject, symmetric]
  let ?nodes = "map (\<lambda>n. n\<lparr>node_state := cancel_state (node_state n)\<rparr>) nodes"
  have "apply_transitions (cd_transitions d) nodes = map (\<lambda>n. n\<lparr>node_state :=
      (if cancel_active (node_state n) then cancel_state (node_state n) else node_state n)\<rparr>) nodes"
  proof (rule apply_transitions_eq [OF _ _ dist])
    have "bt_wf (sort_key fst ?jobs)" using jobs(2) by (rule bt_wf_sort_key)
    then have "distinct (map fst (filter (\<lambda>(j, s). cancel_active s) (sort_key fst ?jobs)))"
      by (intro distinct_map_filter bt_wf_distinct)
    then show "distinct (map fst (cd_transitions d))" by (simp add: d comp_def case_prod_unfold)
    show "set (cd_transitions d) = {(node_id n, cancel_state (node_state n)) |n.
        n \<in> set nodes \<and> cancel_active (node_state n)}" by (force simp: d)
  qed
  also have "\<dots> = ?nodes" by (auto simp: cancel_state_inactive)
  finally have applied: "apply_transitions (cd_transitions d) nodes = ?nodes" .
  have valid: "validate_job_graph ?nodes = Inr ()"
    using assms(1) refl by (rule validate_restated) (auto simp: cancel_state_def split: if_splits)
  have reached: "\<forall>n\<in>set ?nodes. \<not> cancel_active (node_state n)"
    by (auto simp: cancel_active_def cancel_state_def)
  have "node_state ` set ?nodes = cancel_state ` snd ` set ?jobs" by (simp add: image_image)
  then show ?thesis
    unfolding applied reconcile_cancelled_eq [OF valid reached]
    by (simp add: d Let_def build_state_of_attempt_def)
qed

text \<open>A graph with an unfinished Job of every kind, and the decision of its cancellation.\<close>

definition sample_active_graph :: "JobGraphNode list" where
  "sample_active_graph =
     [\<lparr>node_id = 1, node_state = Job_Succeeded, dependencies = [], dependency_policy = AllSucceeded\<rparr>,
      \<lparr>node_id = 3, node_state = Job_Blocked, dependencies = [2], dependency_policy = AllSucceeded\<rparr>,
      \<lparr>node_id = 2, node_state = Job_Running, dependencies = [1], dependency_policy = AllSucceeded\<rparr>]"

theorem cancellation_then_reconcile_witness:
  "reconcile_cancelled_job_graph
     (apply_transitions [(2, Job_Cancelling), (3, Job_Cancelled)] sample_active_graph) =
   Inr \<lparr>job_transitions = [], attempt_state = Attempt_Running, build_state = Build_Running\<rparr>"
proof -
  have valid: "validate_job_graph sample_active_graph = Inr ()" by code_simp
  have "cancel_job_states Build_Running Attempt_Running
      (map (\<lambda>n. (node_id n, node_state n)) sample_active_graph) =
    Inr \<lparr>cd_transitions = [(2, Job_Cancelling), (3, Job_Cancelled)],
         cd_attempt_state = Attempt_Running, cd_build_state = Build_Running\<rparr>" by code_simp
  from cancellation_then_reconcile [OF valid this] show ?thesis by simp
qed

end
