(* ===== verification/Canonical_Json.thy ===== *)
theory Canonical_Json
  imports Domain
begin

text \<open>
  Bounded canonical JSON, \<^verbatim>\<open>server/core/octacity-server-domain/src/json.rs\<close>. An object of
  serde\_json is the list of its entries in iteration order, with every key once. The recursion is
  shown to be \<open>sort_json\<close> guarded by the nesting bound, and its results to be fixed points.
\<close>

text \<open>A number is kept as its text; canonicalization does not look into it.\<close>

datatype Json =
    JNull
  | JBool bool
  | JNumber rstr
  | JString rstr
  | JArray "Json list"
  | JObject "(rstr \<times> Json) list"

datatype JsonCanonicalizationError = TooDeep

definition MAX_CANONICAL_JSON_DEPTH :: nat where "MAX_CANONICAL_JSON_DEPTH = 128"

lemma try_map_cong [fundef_cong]:
  "xs = ys \<Longrightarrow> (\<And>x. x \<in> set ys \<Longrightarrow> f x = g x) \<Longrightarrow> try_map f xs = try_map g ys"
  by (induction ys arbitrary: xs) auto

lemma size_entry_less: "(k, v) \<in> set kvs \<Longrightarrow> size v < Suc (size_list (size_prod (\<lambda>_. 0) size) kvs)"
  by (induction kvs) auto

text \<open>\<^verbatim>\<open>collect\<close> into the ordered result map keeps the sorted entries, whose keys are distinct.\<close>

function canonicalize_at :: "Json \<Rightarrow> nat \<Rightarrow> JsonCanonicalizationError + Json" where
  "canonicalize_at value depth =
     (if MAX_CANONICAL_JSON_DEPTH < depth then Inl TooDeep
      else case value of
        JArray values \<Rightarrow> map_ok JArray (try_map (\<lambda>v. canonicalize_at v (depth + 1)) values)
      | JObject values \<Rightarrow>
          map_ok JObject (try_map (\<lambda>e. map_ok (Pair (fst e)) (canonicalize_at (snd e) (depth + 1)))
            (sort_key fst values))
      | scalar \<Rightarrow> Inr scalar)"
  by auto

termination
proof (relation "measure (\<lambda>(v, d). size v)")
  fix "value" depth x5 x assume "value = JArray x5" "x \<in> set x5"
  then show "((x, depth + 1), value, depth) \<in> measure (\<lambda>(v, d). size v)"
    using size_list_estimation' [of x x5 "size x" size] by (simp add: less_Suc_eq_le)
next
  fix "value" depth x6 e assume "value = JObject x6" "e \<in> set (sort_key fst x6)"
  then show "((snd e, depth + 1), value, depth) \<in> measure (\<lambda>(v, d). size v)"
    using size_entry_less [of "fst e" "snd e" x6] by simp
qed simp

declare canonicalize_at.simps [simp del]

definition canonicalize_json :: "Json \<Rightarrow> JsonCanonicalizationError + Json" where
  "canonicalize_json value = canonicalize_at value 0"

definition is_object :: "Json \<Rightarrow> bool" where
  "is_object v = (case v of JObject _ \<Rightarrow> True | _ \<Rightarrow> False)"

section \<open>Specification\<close>

text \<open>Nesting depth, the recursive sort and canonical values.\<close>

fun json_depth :: "Json \<Rightarrow> nat" where
  "json_depth (JArray vs) = fold max (map (\<lambda>v. Suc (json_depth v)) vs) 0"
| "json_depth (JObject kvs) = fold max (map (\<lambda>e. Suc (json_depth (snd e))) kvs) 0"
| "json_depth _ = 0"

fun sort_json :: "Json \<Rightarrow> Json" where
  "sort_json (JArray vs) = JArray (map sort_json vs)"
| "sort_json (JObject kvs) = JObject (sort_key fst (map (\<lambda>e. (fst e, sort_json (snd e))) kvs))"
| "sort_json v = v"

fun json_canonical :: "Json \<Rightarrow> bool" where
  "json_canonical (JArray vs) = list_all json_canonical vs"
| "json_canonical (JObject kvs) = (sorted (map fst kvs) \<and> list_all (\<lambda>e. json_canonical (snd e)) kvs)"
| "json_canonical _ = True"

lemma fold_max_le: "fold max xs (m :: nat) \<le> n \<longleftrightarrow> m \<le> n \<and> (\<forall>x\<in>set xs. x \<le> n)"
  by (induction xs arbitrary: m) auto

lemma fold_max_cong: "set xs = set ys \<Longrightarrow> fold max xs (m :: nat) = fold max ys m"
  using fold_max_le [of xs m "fold max ys m"] fold_max_le [of ys m "fold max xs m"]
    fold_max_le [of xs m "fold max xs m"] fold_max_le [of ys m "fold max ys m"]
  by (intro order_antisym) simp_all

lemma depth_bound_iff:
  "d \<le> M \<Longrightarrow> d + fold max (map (\<lambda>x. Suc (h x)) xs) 0 \<le> M \<longleftrightarrow> (\<forall>x\<in>set xs. d + 1 + h x \<le> M)"
  using fold_max_le [of "map (\<lambda>x. Suc (h x)) xs" 0 "M - d"] by auto

lemma sort_key_map_pair:
  "sort_key fst (map (\<lambda>e. (fst e, f (snd e))) kvs) = map (\<lambda>e. (fst e, f (snd e))) (sort_key fst kvs)"
proof -
  have "insort_key fst (fst e, f (snd e)) (map (\<lambda>e. (fst e, f (snd e))) xs) =
      map (\<lambda>e. (fst e, f (snd e))) (insort_key fst e xs)" for e and xs :: "('a \<times> 'c) list"
    by (induction xs) auto
  then show ?thesis by (induction kvs) (simp_all add: sort_key_def)
qed

lemma try_map_pure:
  "(\<And>x. x \<in> set xs \<Longrightarrow> f x = Inr (g x)) \<Longrightarrow> try_map f xs = Inr (map g xs)"
  by (induction xs) auto

lemma try_map_fails:
  "(\<And>x. x \<in> set xs \<Longrightarrow> f x = (if P x then Inr (g x) else Inl e)) \<Longrightarrow> \<exists>x\<in>set xs. \<not> P x \<Longrightarrow>
     try_map f xs = Inl e"
  by (induction xs) auto

lemma canonicalize_at_eq:
  "canonicalize_at v depth =
     (if depth + json_depth v \<le> MAX_CANONICAL_JSON_DEPTH then Inr (sort_json v) else Inl TooDeep)"
proof (induction v depth rule: canonicalize_at.induct)
  case (1 v depth)
  let ?M = "MAX_CANONICAL_JSON_DEPTH"
  show ?case
  proof (cases "?M < depth")
    case True
    then show ?thesis by (simp add: canonicalize_at.simps [of v])
  next
    case False
    show ?thesis
    proof (cases v)
      case (JArray vs)
      note IH = 1(1) [OF False JArray]
      have depth: "depth + json_depth v \<le> ?M \<longleftrightarrow> (\<forall>x\<in>set vs. depth + 1 + json_depth x \<le> ?M)"
        using False by (simp add: JArray depth_bound_iff)
      show ?thesis
      proof (cases "\<forall>x\<in>set vs. depth + 1 + json_depth x \<le> ?M")
        case True
        then have "try_map (\<lambda>v. canonicalize_at v (depth + 1)) vs = Inr (map sort_json vs)"
          using IH by (intro try_map_pure) simp
        then show ?thesis using True False unfolding depth by (subst canonicalize_at.simps) (simp add: JArray)
      next
        case bad: False
        then have "try_map (\<lambda>v. canonicalize_at v (depth + 1)) vs = Inl TooDeep"
          using IH by (intro try_map_fails [where g = sort_json]) auto
        then show ?thesis using bad False unfolding depth by (subst canonicalize_at.simps) (simp add: JArray)
      qed
    next
      case (JObject kvs)
      note IH = 1(2) [OF False JObject]
      let ?f = "\<lambda>e. map_ok (Pair (fst e)) (canonicalize_at (snd e) (depth + 1))"
      have step: "?f e = (if depth + 1 + json_depth (snd e) \<le> ?M then Inr (fst e, sort_json (snd e)) else Inl TooDeep)"
        if "e \<in> set (sort_key fst kvs)" for e
        using IH [OF that] by simp
      have depth: "depth + json_depth v \<le> ?M \<longleftrightarrow> (\<forall>e\<in>set kvs. depth + 1 + json_depth (snd e) \<le> ?M)"
        using False by (simp add: JObject depth_bound_iff)
      show ?thesis
      proof (cases "\<forall>e\<in>set kvs. depth + 1 + json_depth (snd e) \<le> ?M")
        case True
        then have "try_map ?f (sort_key fst kvs) = Inr (map (\<lambda>e. (fst e, sort_json (snd e))) (sort_key fst kvs))"
          using step by (intro try_map_pure) simp
        then show ?thesis using True False unfolding depth
          by (subst canonicalize_at.simps) (simp add: JObject sort_key_map_pair)
      next
        case bad: False
        then have "try_map ?f (sort_key fst kvs) = Inl TooDeep"
          using step by (intro try_map_fails) auto
        then show ?thesis using bad False unfolding depth by (subst canonicalize_at.simps) (simp add: JObject)
      qed
    qed (use False in \<open>simp_all add: canonicalize_at.simps\<close>)
  qed
qed

lemma sort_json_canonical: "json_canonical (sort_json v)"
  by (induction v rule: sort_json.induct) (auto simp: list_all_iff)

lemma sort_json_depth: "json_depth (sort_json v) = json_depth v"
proof (induction v rule: sort_json.induct)
  case (1 vs)
  then have "map (\<lambda>v. Suc (json_depth v)) (map sort_json vs) = map (\<lambda>v. Suc (json_depth v)) vs" by simp
  then show ?case by (simp only: sort_json.simps json_depth.simps)
next
  case (2 kvs)
  have "set (map (\<lambda>e. Suc (json_depth (snd e))) (sort_key fst (map (\<lambda>e. (fst e, sort_json (snd e))) kvs)))
      = set (map (\<lambda>e. Suc (json_depth (snd e))) kvs)"
    using 2 by (auto simp: image_image)
  then show ?case unfolding sort_json.simps json_depth.simps by (rule fold_max_cong)
qed simp_all

lemma sort_json_canonical_id: "json_canonical v \<Longrightarrow> sort_json v = v"
proof (induction v rule: sort_json.induct)
  case (1 vs)
  then show ?case by (simp add: list_all_iff map_idI)
next
  case (2 kvs)
  have "map (\<lambda>e. (fst e, sort_json (snd e))) kvs = kvs"
    using 2 by (intro map_idI) (auto simp: list_all_iff prod_eq_iff)
  moreover have "sort_key fst kvs = kvs" using 2(2) by (intro sort_key_id_if_sorted) simp
  ultimately show ?case by simp
qed simp_all

lemma canonicalize_json_Inr_iff:
  "canonicalize_json v = Inr w \<longleftrightarrow> json_depth v \<le> MAX_CANONICAL_JSON_DEPTH \<and> w = sort_json v"
  by (auto simp: canonicalize_json_def canonicalize_at_eq)

lemma canonicalize_json_idem: "canonicalize_json v = Inr w \<Longrightarrow> canonicalize_json w = Inr w"
  by (simp add: canonicalize_json_Inr_iff sort_json_depth sort_json_canonical sort_json_canonical_id)

section \<open>Properties\<close>

text \<open>Canonical JSON: a value is accepted exactly when it nests at most 128 levels; the result
  then has every object sorted by key at every level, keeps the nesting depth, and is a fixed
  point of canonicalization.\<close>

theorem canonicalize_json_canonical:
  "(canonicalize_json v = Inl TooDeep \<longleftrightarrow> 128 < json_depth v) \<and>
   (\<forall>w. canonicalize_json v = Inr w \<longrightarrow>
      json_canonical w \<and> json_depth w = json_depth v \<and> canonicalize_json w = Inr w)"
proof
  show "canonicalize_json v = Inl TooDeep \<longleftrightarrow> 128 < json_depth v"
    by (auto simp: canonicalize_json_def canonicalize_at_eq MAX_CANONICAL_JSON_DEPTH_def)
  show "\<forall>w. canonicalize_json v = Inr w \<longrightarrow>
      json_canonical w \<and> json_depth w = json_depth v \<and> canonicalize_json w = Inr w"
    using canonicalize_json_idem
    by (auto simp: canonicalize_json_Inr_iff sort_json_canonical sort_json_depth)
qed

theorem canonicalize_json_canonical_witness:
  "json_canonical (JObject [(lit ''a'', JArray [JObject [(lit ''x'', JNull), (lit ''y'', JBool True)]]), (lit ''b'', JNull)])"
proof -
  have "canonicalize_json (JObject [(lit ''b'', JNull),
      (lit ''a'', JArray [JObject [(lit ''y'', JBool True), (lit ''x'', JNull)]])]) =
    Inr (JObject [(lit ''a'', JArray [JObject [(lit ''x'', JNull), (lit ''y'', JBool True)]]), (lit ''b'', JNull)])"
    by code_simp
  then show ?thesis using canonicalize_json_canonical by blast
qed

end
