(* ===== verification/Pipeline_Dag.thy ===== *)
theory Pipeline_Dag
  imports Pipeline_Policy Canonical_Json "HOL-Library.Product_Lexorder"
begin

text \<open>
  Pipeline versions, \<^verbatim>\<open>server/core/octacity-server-pipeline/src/dag.rs\<close> and \<^verbatim>\<open>capability.rs\<close>: Job
  templates, dependency edges, the validating constructor and Kahn's algorithm. The byte lengths
  computed by serde\_json are arguments; \<open>None\<close> is a failed encoding. A panic of the code
  (\<^verbatim>\<open>expect\<close>, counter underflow) is the outer \<open>None\<close>.
\<close>

section \<open>Capabilities\<close>

type_synonym capability = rstr
type_synonym pipeline_node_id = rstr

datatype PipelineError =
    PE_InvalidCapability
  | PE_InvalidNodeTemplate
  | PE_Empty
  | PE_TooManyNodes
  | PE_TooManyEdges
  | PE_DuplicateNode pipeline_node_id
  | PE_DuplicateCapability pipeline_node_id
  | PE_UnavailableCapability pipeline_node_id capability
  | PE_DuplicateEdge
  | PE_SelfDependency pipeline_node_id
  | PE_MissingNode pipeline_node_id
  | PE_FanInExceeded pipeline_node_id
  | PE_FanOutExceeded pipeline_node_id
  | PE_Cycle
  | PE_SnapshotTooLarge
  | PE_UnsupportedSchema

definition MAX_EXECUTION_CAPABILITY_BYTES :: nat where "MAX_EXECUTION_CAPABILITY_BYTES = 64"

definition execution_capability_new :: "rstr \<Rightarrow> PipelineError + capability" where
  "execution_capability_new v =
     (let valid = v \<noteq> [] \<and> str_len v \<le> MAX_EXECUTION_CAPABILITY_BYTES \<and>
        (case v of [] \<Rightarrow> False
         | c # cs \<Rightarrow> (is_ascii_lowercase c \<or> is_ascii_digit c) \<and>
             list_all (\<lambda>c. is_ascii_lowercase c \<or> is_ascii_digit c \<or> c = 46 \<or> c = 95 \<or> c = 45) cs)
      in if \<not> valid then Inl PE_InvalidCapability else Inr v)"

type_synonym capability_catalog = "capability list"

definition capability_catalog_new :: "capability list \<Rightarrow> capability_catalog" where
  "capability_catalog_new cs = bs_of_list cs"

definition catalog_supports :: "capability_catalog \<Rightarrow> capability \<Rightarrow> bool" where
  "catalog_supports catalog c \<longleftrightarrow> c \<in> set catalog"

section \<open>Nodes and edges\<close>

record PipelineNode =
  pn_id :: pipeline_node_id
  pn_name :: rstr
  pn_dependency_policy :: DependencyPolicy
  pn_required_capabilities :: "capability list"
  pn_template :: Json

text \<open>An edge is the pair of its predecessor and its dependent, ordered as derived.\<close>

type_synonym PipelineEdge = "pipeline_node_id \<times> pipeline_node_id"

record PipelineDag =
  dag_nodes :: "PipelineNode list"
  dag_edges :: "PipelineEdge list"

definition MAX_PIPELINE_NODES :: nat where "MAX_PIPELINE_NODES = 1024"
definition MAX_PIPELINE_EDGES :: nat where "MAX_PIPELINE_EDGES = 8192"
definition MAX_PIPELINE_FAN_IN :: nat where "MAX_PIPELINE_FAN_IN = 256"
definition MAX_PIPELINE_FAN_OUT :: nat where "MAX_PIPELINE_FAN_OUT = 256"
definition MAX_PIPELINE_NODE_TEMPLATE_BYTES :: nat where "MAX_PIPELINE_NODE_TEMPLATE_BYTES = 256 * 1024"
definition MAX_PIPELINE_SNAPSHOT_BYTES :: nat where "MAX_PIPELINE_SNAPSHOT_BYTES = 8 * 1024 * 1024"
definition PIPELINE_SNAPSHOT_SCHEMA_VERSION :: u16 where "PIPELINE_SNAPSHOT_SCHEMA_VERSION = 1"

definition validate_template :: "(Json \<Rightarrow> nat option) \<Rightarrow> Json \<Rightarrow> PipelineError + unit" where
  "validate_template json_len template =
     (if \<not> is_object template \<or>
         (case json_len template of Some n \<Rightarrow> MAX_PIPELINE_NODE_TEMPLATE_BYTES < n | None \<Rightarrow> True)
      then Inl PE_InvalidNodeTemplate else Inr ())"

definition pipeline_node_canonicalize ::
  "(Json \<Rightarrow> nat option) \<Rightarrow> PipelineNode \<Rightarrow> PipelineError + PipelineNode"
where
  "pipeline_node_canonicalize json_len node =
     (let caps = sort (pn_required_capabilities node) in
      if has_adjacent_duplicate caps then Inl (PE_DuplicateCapability (pn_id node))
      else and_then (map_err (\<lambda>_. PE_InvalidNodeTemplate) (canonicalize_json (pn_template node))) (\<lambda>template.
           and_then (validate_template json_len template) (\<lambda>_.
           Inr (node\<lparr>pn_required_capabilities := caps, pn_template := template\<rparr>))))"

text \<open>\<^verbatim>\<open>PipelineNode::new\<close> performs the same steps on its arguments.\<close>

definition pipeline_node_new ::
  "(Json \<Rightarrow> nat option) \<Rightarrow> pipeline_node_id \<Rightarrow> rstr \<Rightarrow> DependencyPolicy \<Rightarrow> capability list \<Rightarrow> Json \<Rightarrow>
     PipelineError + PipelineNode"
where
  "pipeline_node_new json_len i name policy capabilities template =
     (let caps = sort capabilities in
      if has_adjacent_duplicate caps then Inl (PE_DuplicateCapability i)
      else and_then (map_err (\<lambda>_. PE_InvalidNodeTemplate) (canonicalize_json template)) (\<lambda>template.
           and_then (validate_template json_len template) (\<lambda>_.
           Inr \<lparr>pn_id = i, pn_name = name, pn_dependency_policy = policy,
                pn_required_capabilities = caps, pn_template = template\<rparr>)))"

section \<open>Kahn's algorithm\<close>

text \<open>Assignment to a present entry (\<^verbatim>\<open>get_mut\<close>).\<close>

primrec bt_set :: "'k \<Rightarrow> 'v \<Rightarrow> ('k, 'v) btree \<Rightarrow> ('k, 'v) btree" where
  "bt_set k v [] = []"
| "bt_set k v (e # m) = (if fst e = k then (k, v) # m else e # bt_set k v m)"

type_synonym counters = "(pipeline_node_id, nat) btree"
type_synonym successors = "(pipeline_node_id, pipeline_node_id list) btree"

definition or_default :: "'v \<Rightarrow> 'v option \<Rightarrow> 'v" where
  "or_default d v = (case v of Some x \<Rightarrow> x | None \<Rightarrow> d)"

text \<open>The loop that counts the incoming edges and groups the outgoing ones.\<close>

primrec kahn_edges :: "PipelineEdge list \<Rightarrow> counters \<times> successors \<Rightarrow> (counters \<times> successors) option" where
  "kahn_edges [] st = Some st"
| "kahn_edges (e # es) st =
     (case bt_get (fst st) (snd e) of
        None \<Rightarrow> None
      | Some c \<Rightarrow> kahn_edges es
          (bt_set (snd e) (c + 1) (fst st),
           bt_insert (fst e) (or_default [] (bt_get (snd st) (fst e)) @ [snd e]) (snd st)))"

text \<open>The inner loop over the dependents of the node taken from the ready set.\<close>

primrec kahn_release ::
  "pipeline_node_id list \<Rightarrow> counters \<times> pipeline_node_id list \<Rightarrow> (counters \<times> pipeline_node_id list) option"
where
  "kahn_release [] st = Some st"
| "kahn_release (d # ds) st =
     (case bt_get (fst st) d of
        None \<Rightarrow> None
      | Some c \<Rightarrow>
          if c = 0 then None
          else kahn_release ds
            (bt_set d (c - 1) (fst st), if c - 1 = 0 then bs_insert d (snd st) else snd st))"

definition positive_counters :: "counters \<Rightarrow> nat" where
  "positive_counters m = length (filter (\<lambda>e. 0 < snd e) m)"

lemma positive_counters_set:
  "bt_get m k = Some c \<Longrightarrow> 0 < c \<Longrightarrow>
     positive_counters (bt_set k (c - 1) m) + (if c = 1 then 1 else 0) = positive_counters m"
  by (induction m) (auto simp: positive_counters_def bt_get_def split: if_splits)

lemma length_bs_insert: "length (bs_insert x xs) \<le> Suc (length xs)"
  by (simp add: bs_insert_def insort_insert_key_def)

lemma kahn_release_measure:
  "kahn_release ds st = Some st' \<Longrightarrow>
     length (snd st') + positive_counters (fst st') \<le> length (snd st) + positive_counters (fst st)"
proof (induction ds arbitrary: st)
  case (Cons d ds)
  from Cons.prems obtain c where c: "bt_get (fst st) d = Some c" "0 < c"
    by (auto split: option.splits if_splits)
  let ?st = "(bt_set d (c - 1) (fst st), if c - 1 = 0 then bs_insert d (snd st) else snd st)"
  have "kahn_release ds ?st = Some st'" using Cons.prems c by simp
  from Cons.IH [OF this] positive_counters_set [OF c] length_bs_insert [of d "snd st"]
  show ?case using c(2) by (cases "c = 1") (simp_all split: if_splits)
qed simp

function kahn_loop ::
  "successors \<Rightarrow> counters \<Rightarrow> pipeline_node_id list \<Rightarrow> pipeline_node_id list \<Rightarrow> pipeline_node_id list option"
where
  "kahn_loop outgoing incoming ready ordered =
     (case ready of
        [] \<Rightarrow> Some ordered
      | identity # rest \<Rightarrow>
          (case kahn_release (or_default [] (bt_get outgoing identity)) (incoming, rest) of
             None \<Rightarrow> None
           | Some st \<Rightarrow> kahn_loop outgoing (fst st) (snd st) (ordered @ [identity])))"
  by auto

termination
proof (relation "measure (\<lambda>(_, incoming, ready, _). length ready + positive_counters incoming)")
  fix outgoing incoming ready ordered identity rest st
  assume "ready = identity # rest"
    and "kahn_release (or_default [] (bt_get outgoing identity)) (incoming, rest) = Some st"
  with kahn_release_measure [OF this(2)]
  show "((outgoing, fst st, snd st, ordered @ [identity]), outgoing, incoming, ready, ordered)
    \<in> measure (\<lambda>(_, incoming, ready, _). length ready + positive_counters incoming)" by simp
qed simp

declare kahn_loop.simps [simp del]

definition topological_identities ::
  "PipelineNode list \<Rightarrow> PipelineEdge list \<Rightarrow> (PipelineError + pipeline_node_id list) option"
where
  "topological_identities nodes edges =
     Option.bind (kahn_edges edges (fold (\<lambda>n. bt_insert (pn_id n) 0) nodes [], [])) (\<lambda>(incoming, outgoing).
       let ready = bs_of_list (map fst (filter (\<lambda>e. snd e = 0) incoming)) in
       Option.bind (kahn_loop outgoing incoming ready []) (\<lambda>ordered.
         Some (if length ordered \<noteq> length nodes then Inl PE_Cycle else Inr ordered)))"

section \<open>The validating constructor\<close>

text \<open>The loop over the sorted edges with its fan-in and fan-out counters.\<close>

primrec check_edges ::
  "pipeline_node_id list \<Rightarrow> PipelineEdge list \<Rightarrow> counters \<Rightarrow> counters \<Rightarrow> PipelineError + unit"
where
  "check_edges identities [] fan_in fan_out = Inr ()"
| "check_edges identities (e # es) fan_in fan_out =
     (if fst e = snd e then Inl (PE_SelfDependency (fst e))
      else case find (\<lambda>i. i \<notin> set identities) [fst e, snd e] of
        Some i \<Rightarrow> Inl (PE_MissingNode i)
      | None \<Rightarrow>
          let incoming = or_default 0 (bt_get fan_in (snd e)) + 1 in
          if MAX_PIPELINE_FAN_IN < incoming then Inl (PE_FanInExceeded (snd e))
          else let outgoing = or_default 0 (bt_get fan_out (fst e)) + 1 in
            if MAX_PIPELINE_FAN_OUT < outgoing then Inl (PE_FanOutExceeded (fst e))
            else check_edges identities es (bt_insert (snd e) incoming fan_in)
                   (bt_insert (fst e) outgoing fan_out))"

definition check_capabilities :: "capability_catalog \<Rightarrow> PipelineNode \<Rightarrow> PipelineError + unit" where
  "check_capabilities catalog node =
     (case find (\<lambda>c. \<not> catalog_supports catalog c) (pn_required_capabilities node) of
        Some c \<Rightarrow> Inl (PE_UnavailableCapability (pn_id node) c)
      | None \<Rightarrow> Inr ())"

text \<open>Everything \<^verbatim>\<open>PipelineDag::build\<close> does before the topological check.\<close>

definition dag_prepare ::
  "(Json \<Rightarrow> nat option) \<Rightarrow> PipelineNode list \<Rightarrow> PipelineEdge list \<Rightarrow> capability_catalog option \<Rightarrow>
     PipelineError + PipelineDag"
where
  "dag_prepare json_len nodes edges capabilities =
     (if nodes = [] then Inl PE_Empty
      else if MAX_PIPELINE_NODES < length nodes then Inl PE_TooManyNodes
      else if MAX_PIPELINE_EDGES < length edges then Inl PE_TooManyEdges
      else and_then (try_map (pipeline_node_canonicalize json_len) nodes) (\<lambda>nodes.
        let nodes = sort_key pn_id nodes in
        case find (\<lambda>(a, b). pn_id a = pn_id b) (windows2 nodes) of
          Some (a, _) \<Rightarrow> Inl (PE_DuplicateNode (pn_id a))
        | None \<Rightarrow>
            and_then (case capabilities of None \<Rightarrow> Inr ()
                      | Some catalog \<Rightarrow> try_each (check_capabilities catalog) nodes) (\<lambda>_.
            let edges = sort edges in
            if has_adjacent_duplicate edges then Inl PE_DuplicateEdge
            else and_then (check_edges (bs_of_list (map pn_id nodes)) edges [] []) (\<lambda>_.
              Inr \<lparr>dag_nodes = nodes, dag_edges = edges\<rparr>))))"

definition dag_build ::
  "(Json \<Rightarrow> nat option) \<Rightarrow> (PipelineDag \<Rightarrow> nat option) \<Rightarrow> PipelineNode list \<Rightarrow> PipelineEdge list \<Rightarrow>
     capability_catalog option \<Rightarrow> (PipelineError + PipelineDag) option"
where
  "dag_build json_len dag_len nodes edges capabilities =
     (case dag_prepare json_len nodes edges capabilities of
        Inl e \<Rightarrow> Some (Inl e)
      | Inr dag \<Rightarrow>
          Option.bind (topological_identities (dag_nodes dag) (dag_edges dag)) (\<lambda>r.
            Some (and_then r (\<lambda>_.
              if case dag_len dag of Some n \<Rightarrow> MAX_PIPELINE_SNAPSHOT_BYTES < n | None \<Rightarrow> True
              then Inl PE_SnapshotTooLarge else Inr dag))))"

definition publishable_new ::
  "(Json \<Rightarrow> nat option) \<Rightarrow> (PipelineDag \<Rightarrow> nat option) \<Rightarrow> PipelineNode list \<Rightarrow> PipelineEdge list \<Rightarrow>
     capability_catalog \<Rightarrow> (PipelineError + PipelineDag) option"
where
  "publishable_new json_len dag_len nodes edges capabilities =
     dag_build json_len dag_len nodes edges (Some capabilities)"

definition for_publication ::
  "(Json \<Rightarrow> nat option) \<Rightarrow> (PipelineDag \<Rightarrow> nat option) \<Rightarrow> PipelineDag \<Rightarrow> capability_catalog \<Rightarrow>
     (PipelineError + PipelineDag) option"
where
  "for_publication json_len dag_len dag capabilities =
     dag_build json_len dag_len (dag_nodes dag) (dag_edges dag) (Some capabilities)"

definition dag_validate ::
  "(Json \<Rightarrow> nat option) \<Rightarrow> (PipelineDag \<Rightarrow> nat option) \<Rightarrow> PipelineDag \<Rightarrow> (PipelineError + unit) option"
where
  "dag_validate json_len dag_len dag =
     map_option (map_ok (\<lambda>_. ())) (dag_build json_len dag_len (dag_nodes dag) (dag_edges dag) None)"

text \<open>The wire form carries a schema version beside the nodes and edges.\<close>

record PipelineDagWire =
  wire_schema_version :: u16
  wire_nodes :: "PipelineNode list"
  wire_edges :: "PipelineEdge list"

definition dag_serialize :: "PipelineDag \<Rightarrow> PipelineDagWire" where
  "dag_serialize dag = \<lparr>wire_schema_version = PIPELINE_SNAPSHOT_SCHEMA_VERSION,
     wire_nodes = dag_nodes dag, wire_edges = dag_edges dag\<rparr>"

definition dag_deserialize ::
  "(Json \<Rightarrow> nat option) \<Rightarrow> (PipelineDag \<Rightarrow> nat option) \<Rightarrow> PipelineDagWire \<Rightarrow> (PipelineError + PipelineDag) option"
where
  "dag_deserialize json_len dag_len wire =
     (if wire_schema_version wire \<noteq> PIPELINE_SNAPSHOT_SCHEMA_VERSION then Some (Inl PE_UnsupportedSchema)
      else dag_build json_len dag_len (wire_nodes wire) (wire_edges wire) None)"

section \<open>Queries\<close>

definition dag_roots :: "PipelineDag \<Rightarrow> PipelineNode list" where
  "dag_roots dag =
     (let dependents = bs_of_list (map snd (dag_edges dag))
      in filter (\<lambda>n. pn_id n \<notin> set dependents) (dag_nodes dag))"

text \<open>The binary search by identity in the sorted node list.\<close>

definition dag_find :: "PipelineNode list \<Rightarrow> pipeline_node_id \<Rightarrow> PipelineNode option" where
  "dag_find nodes i = find (\<lambda>n. pn_id n = i) nodes"

definition dag_topological_order :: "PipelineDag \<Rightarrow> PipelineNode list option" where
  "dag_topological_order dag =
     Option.bind (topological_identities (dag_nodes dag) (dag_edges dag)) (\<lambda>r.
       case r of Inl _ \<Rightarrow> None | Inr identities \<Rightarrow> those (map (dag_find (dag_nodes dag)) identities))"

end
