(* ===== verification/Pipeline_Kahn.thy ===== *)
theory Pipeline_Kahn
  imports Pipeline_Dag
begin

text \<open>
  Correctness of the topological sort of Pipeline graphs. \<open>greedy_topo\<close> is the specification: every
  position holds the least identity among the nodes whose predecessors all came before. The loop
  never panics on edges between existing nodes, produces exactly this order when the graph is
  acyclic and reports a cycle otherwise.
\<close>

section \<open>Specification\<close>

definition edge_preds :: "PipelineEdge list \<Rightarrow> pipeline_node_id \<Rightarrow> pipeline_node_id set" where
  "edge_preds edges n = {p. (p, n) \<in> set edges}"

definition available :: "('a \<Rightarrow> 'a set) \<Rightarrow> 'a set \<Rightarrow> 'a set \<Rightarrow> 'a set" where
  "available p N S = {n \<in> N - S. p n \<subseteq> S}"

primrec greedy_topo :: "('a::linorder \<Rightarrow> 'a set) \<Rightarrow> 'a set \<Rightarrow> 'a set \<Rightarrow> 'a list \<Rightarrow> bool" where
  "greedy_topo p N S [] = True"
| "greedy_topo p N S (x # xs) =
     (x \<in> available p N S \<and> (\<forall>y\<in>available p N S. x \<le> y) \<and> greedy_topo p N (insert x S) xs)"

lemma greedy_topo_topo: "greedy_topo p N S xs \<Longrightarrow> topo_from p S xs \<and> set xs \<subseteq> N"
  by (induction xs arbitrary: S) (auto simp: available_def)

lemma topo_from_closed: "topo_from p {} xs \<Longrightarrow> n \<in> set xs \<Longrightarrow> p n \<subseteq> set xs"
  using topo_from_before [of p "{}" xs] by (fastforce dest: split_list)

lemma greedy_topo_append:
  "greedy_topo p N S (xs @ ys) \<longleftrightarrow> greedy_topo p N S xs \<and> greedy_topo p N (S \<union> set xs) ys"
  by (induction xs arbitrary: S) auto

lemma greedy_topo_unique:
  "greedy_topo p N S xs \<Longrightarrow> greedy_topo p N S ys \<Longrightarrow> length xs = length ys \<Longrightarrow> xs = ys"
proof (induction xs arbitrary: S ys)
  case (Cons x xs)
  then obtain y ys' where ys: "ys = y # ys'" by (cases ys) auto
  from Cons.prems ys have "x \<le> y" "y \<le> x" by auto
  then have "x = y" by simp
  with Cons ys show ?case by auto
qed simp

section \<open>Counters\<close>

lemma bt_get_set: "bt_get (bt_set k v m) k' = (if k' = k then map_option (\<lambda>_. v) (bt_get m k) else bt_get m k')"
  by (induction m) (auto simp: bt_get_def)

lemma keys_bt_set [simp]: "map fst (bt_set k v m) = map fst m"
  by (induction m) auto

lemma bt_get_keys: "bt_get m k \<noteq> None \<longleftrightarrow> k \<in> set (map fst m)"
  by (auto simp: bt_get_def map_of_eq_None_iff)

lemma zero_counter_ids: "bt_wf m \<Longrightarrow> set (map fst (filter (\<lambda>e. snd e = 0) m)) = {n. bt_get m n = Some 0}"
  by (auto simp: bt_get_iff image_iff)

lemma fold_zero_counters:
  "bt_wf m \<Longrightarrow> (\<forall>k c. bt_get m k = Some c \<longrightarrow> c = 0) \<Longrightarrow>
   bt_wf (fold (\<lambda>n. bt_insert (f n) (0 :: nat)) ns m) \<and>
   (\<forall>k. bt_get (fold (\<lambda>n. bt_insert (f n) 0) ns m) k =
      (if k \<in> f ` set ns then Some 0 else bt_get m k))"
proof (induction ns arbitrary: m)
  case (Cons n ns)
  have "bt_wf (bt_insert (f n) 0 m)" using Cons.prems(1) by (rule bt_wf_insert)
  moreover have "\<forall>k c. bt_get (bt_insert (f n) 0 m) k = Some c \<longrightarrow> c = 0"
    using Cons.prems(2) by (simp add: bt_get_insert)
  ultimately show ?case using Cons.IH [of "bt_insert (f n) 0 m"] by (simp add: bt_get_insert)
qed simp

lemma kahn_edges_total:
  assumes "\<forall>e\<in>set es. bt_get inc (snd e) \<noteq> None"
  shows "\<exists>inc' out'. kahn_edges es (inc, out) = Some (inc', out') \<and> map fst inc' = map fst inc \<and>
    (\<forall>n c. bt_get inc n = Some c \<longrightarrow> bt_get inc' n = Some (c + length (filter (\<lambda>e. snd e = n) es))) \<and>
    (\<forall>p. or_default [] (bt_get out' p) = or_default [] (bt_get out p) @ map snd (filter (\<lambda>e. fst e = p) es))"
  using assms
proof (induction es arbitrary: inc out)
  case (Cons e es)
  from Cons.prems obtain c where c: "bt_get inc (snd e) = Some c" by auto
  let ?inc = "bt_set (snd e) (c + 1) inc"
  let ?out = "bt_insert (fst e) (or_default [] (bt_get out (fst e)) @ [snd e]) out"
  have "\<forall>e\<in>set es. bt_get ?inc (snd e) \<noteq> None"
    using Cons.prems c by (auto simp: bt_get_set)
  from Cons.IH [OF this, of ?out] obtain inc' out' where
    "kahn_edges es (?inc, ?out) = Some (inc', out')" "map fst inc' = map fst inc"
    and inc': "\<And>n c. bt_get ?inc n = Some c \<Longrightarrow> bt_get inc' n = Some (c + length (filter (\<lambda>e. snd e = n) es))"
    and out': "\<And>p. or_default [] (bt_get out' p) = or_default [] (bt_get ?out p) @ map snd (filter (\<lambda>e. fst e = p) es)"
    by auto
  moreover have "bt_get inc' n = Some (d + length (filter (\<lambda>e. snd e = n) (e # es)))"
    if "bt_get inc n = Some d" for n d
    using that c inc' [of n] by (auto simp: bt_get_set)
  moreover have "or_default [] (bt_get out' p) =
      or_default [] (bt_get out p) @ map snd (filter (\<lambda>e. fst e = p) (e # es))" for p
    using out' [of p] by (auto simp: bt_get_insert or_default_def)
  ultimately show ?case using c by auto
qed simp

lemma kahn_release_total:
  assumes "\<forall>d\<in>set ds. \<exists>c. bt_get inc d = Some c \<and> length (filter (\<lambda>x. x = d) ds) \<le> c" and "bs_wf ready"
  shows "\<exists>inc' ready'. kahn_release ds (inc, ready) = Some (inc', ready') \<and> map fst inc' = map fst inc \<and>
    bs_wf ready' \<and>
    (\<forall>n c. bt_get inc n = Some c \<longrightarrow> bt_get inc' n = Some (c - length (filter (\<lambda>x. x = n) ds))) \<and>
    set ready' = set ready \<union> {d \<in> set ds. bt_get inc d = Some (length (filter (\<lambda>x. x = d) ds))}"
  using assms
proof (induction ds arbitrary: inc ready)
  case (Cons d ds)
  from Cons.prems(1) obtain c where c: "bt_get inc d = Some c" "length (filter (\<lambda>x. x = d) (d # ds)) \<le> c"
    by (metis list.set_intros(1))
  then have pos: "0 < c" by simp
  let ?inc = "bt_set d (c - 1) inc" and ?ready = "if c - 1 = 0 then bs_insert d ready else ready"
  have bound: "\<forall>x\<in>set ds. \<exists>k. bt_get ?inc x = Some k \<and> length (filter (\<lambda>y. y = x) ds) \<le> k"
  proof
    fix x assume x: "x \<in> set ds"
    show "\<exists>k. bt_get ?inc x = Some k \<and> length (filter (\<lambda>y. y = x) ds) \<le> k"
      using c Cons.prems(1) x by (cases "x = d") (auto simp: bt_get_set)
  qed
  have "bs_wf ?ready" using Cons.prems(2) by (simp add: bs_wf_insert)
  from Cons.IH [OF bound this] obtain inc' ready' where
    IH: "kahn_release ds (?inc, ?ready) = Some (inc', ready')" "map fst inc' = map fst inc" "bs_wf ready'"
    and inc': "\<And>n k. bt_get ?inc n = Some k \<Longrightarrow> bt_get inc' n = Some (k - length (filter (\<lambda>x. x = n) ds))"
    and ready': "set ready' = set ?ready \<union> {x \<in> set ds. bt_get ?inc x = Some (length (filter (\<lambda>y. y = x) ds))}"
    by auto
  have "bt_get inc' n = Some (k - length (filter (\<lambda>x. x = n) (d # ds)))" if "bt_get inc n = Some k" for n k
    using that c(1) inc' [of n] by (cases "n = d") (auto simp: bt_get_set)
  moreover have "set ready' = set ready \<union>
      {x \<in> set (d # ds). bt_get inc x = Some (length (filter (\<lambda>y. y = x) (d # ds)))}"
  proof -
    have zero: "filter (\<lambda>y. y = d) ds = []" if "d \<notin> set ds" using that by (auto simp: filter_empty_conv)
    have nonzero: "filter (\<lambda>y. y = d) ds \<noteq> []" if "d \<in> set ds" using that by (auto simp: filter_empty_conv)
    show ?thesis unfolding ready' using c pos zero nonzero
      by (cases "d \<in> set ds"; cases "c = 1") (auto simp: bt_get_set)
  qed
  ultimately show ?case using IH c(1) pos by auto
qed simp

section \<open>The loop\<close>

definition open_edges :: "PipelineEdge list \<Rightarrow> pipeline_node_id set \<Rightarrow> pipeline_node_id \<Rightarrow> nat" where
  "open_edges edges S n = length (filter (\<lambda>e. snd e = n \<and> fst e \<notin> S) edges)"

definition kahn_inv ::
  "pipeline_node_id set \<Rightarrow> PipelineEdge list \<Rightarrow> counters \<Rightarrow> pipeline_node_id list \<Rightarrow> pipeline_node_id list \<Rightarrow> bool"
where
  "kahn_inv N edges incoming ready ordered \<longleftrightarrow>
     set (map fst incoming) = N \<and> bs_wf ready \<and>
     (\<forall>n\<in>N. bt_get incoming n = Some (open_edges edges (set ordered) n)) \<and>
     set ready = available (edge_preds edges) N (set ordered) \<and>
     greedy_topo (edge_preds edges) N {} ordered"

lemma open_edges_zero_iff: "open_edges edges S n = 0 \<longleftrightarrow> edge_preds edges n \<subseteq> S"
  by (auto simp: open_edges_def edge_preds_def filter_empty_conv)

lemma open_edges_insert:
  "x \<notin> S \<Longrightarrow> open_edges edges (insert x S) n + length (filter (\<lambda>d. d = n) (map snd (filter (\<lambda>e. fst e = x) edges)))
     = open_edges edges S n"
  by (induction edges) (auto simp: open_edges_def)

lemma kahn_step:
  assumes inv: "kahn_inv N edges incoming (x # rest) ordered"
    and closed: "\<forall>e\<in>set edges. snd e \<in> N"
    and out: "\<And>p. or_default [] (bt_get outgoing p) = map snd (filter (\<lambda>e. fst e = p) edges)"
  shows "\<exists>st. kahn_release (or_default [] (bt_get outgoing x)) (incoming, rest) = Some st \<and>
    kahn_inv N edges (fst st) (snd st) (ordered @ [x])"
proof -
  let ?p = "edge_preds edges" and ?S = "set ordered" and ?ds = "map snd (filter (\<lambda>e. fst e = x) edges)"
  from inv have keys: "set (map fst incoming) = N" and wf: "bs_wf (x # rest)"
    and inc: "\<And>n. n \<in> N \<Longrightarrow> bt_get incoming n = Some (open_edges edges ?S n)"
    and ready: "set (x # rest) = available ?p N ?S" and greedy: "greedy_topo ?p N {} ordered"
    by (simp_all add: kahn_inv_def)
  from ready have x: "x \<in> N" "x \<notin> ?S" "?p x \<subseteq> ?S" by (auto simp: available_def)
  note open_x = open_edges_insert [OF x(2), of edges]
  have ds: "set ?ds \<subseteq> N" using closed by auto
  have "\<forall>d\<in>set ?ds. \<exists>c. bt_get incoming d = Some c \<and> length (filter (\<lambda>y. y = d) ?ds) \<le> c"
  proof
    fix d assume "d \<in> set ?ds"
    with ds have "bt_get incoming d = Some (open_edges edges ?S d)" by (intro inc) blast
    moreover have "length (filter (\<lambda>y. y = d) ?ds) \<le> open_edges edges ?S d" using open_x [of d] by linarith
    ultimately show "\<exists>c. bt_get incoming d = Some c \<and> length (filter (\<lambda>y. y = d) ?ds) \<le> c" by blast
  qed
  moreover have "bs_wf rest" using wf by (simp add: bs_wf_def)
  ultimately obtain inc' ready' where release: "kahn_release ?ds (incoming, rest) = Some (inc', ready')"
    and keys': "map fst inc' = map fst incoming" and wf': "bs_wf ready'"
    and inc': "\<And>n c. bt_get incoming n = Some c \<Longrightarrow> bt_get inc' n = Some (c - length (filter (\<lambda>y. y = n) ?ds))"
    and ready': "set ready' = set rest \<union> {d \<in> set ?ds. bt_get incoming d = Some (length (filter (\<lambda>y. y = d) ?ds))}"
    using kahn_release_total [of ?ds incoming rest] by blast
  have counts: "bt_get inc' n = Some (open_edges edges (insert x ?S) n)" if "n \<in> N" for n
    using inc' [OF inc [OF that]] open_x [of n] by (simp add: algebra_simps flip: add_diff_assoc2)
  have new: "d \<in> set ?ds \<and> bt_get incoming d = Some (length (filter (\<lambda>y. y = d) ?ds)) \<longleftrightarrow>
      d \<in> N \<and> x \<in> ?p d \<and> ?p d \<subseteq> insert x ?S" for d
  proof -
    have "d \<in> set ?ds \<longleftrightarrow> x \<in> ?p d" by (force simp: edge_preds_def)
    moreover have "bt_get incoming d = Some (length (filter (\<lambda>y. y = d) ?ds)) \<longleftrightarrow> ?p d \<subseteq> insert x ?S"
      if "d \<in> N" using inc [OF that] open_x [of d] open_edges_zero_iff [of edges "insert x ?S" d] by auto
    ultimately show ?thesis using ds by blast
  qed
  have "x \<notin> set rest" using wf by (auto simp: bs_wf_def)
  then have rest: "set rest = available ?p N ?S - {x}" using ready by auto
  have acyc: "x \<notin> ?p x" using x by auto
  have past: "?p d \<subseteq> ?S" if "d \<in> ?S" for d
    by (rule topo_from_closed [OF conjunct1 [OF greedy_topo_topo [OF greedy]] that])
  have "set ready' = available ?p N (insert x ?S)"
  proof (intro set_eqI)
    fix d
    show "d \<in> set ready' \<longleftrightarrow> d \<in> available ?p N (insert x ?S)"
      using new [of d] rest acyc x past [of d] unfolding ready' Un_iff mem_Collect_eq available_def
      by (cases "x \<in> ?p d") auto
  qed
  moreover have "greedy_topo ?p N {} (ordered @ [x])"
    using greedy ready wf unfolding greedy_topo_append
    by (auto simp: bs_wf_def simp flip: ready)
  ultimately have "kahn_inv N edges inc' ready' (ordered @ [x])"
    using keys keys' wf' counts by (simp add: kahn_inv_def)
  with release out [of x] show ?thesis by auto
qed

lemma kahn_loop_total:
  assumes closed: "\<forall>e\<in>set edges. snd e \<in> N"
  shows "(\<And>p. or_default [] (bt_get outgoing p) = map snd (filter (\<lambda>e. fst e = p) edges)) \<Longrightarrow>
    kahn_inv N edges incoming ready ordered \<Longrightarrow>
    \<exists>xs inc. kahn_loop outgoing incoming ready ordered = Some xs \<and> kahn_inv N edges inc [] xs"
proof (induction outgoing incoming ready ordered rule: kahn_loop.induct)
  case (1 outgoing incoming ready ordered)
  show ?case
  proof (cases ready)
    case Nil
    with 1(3) show ?thesis by (subst kahn_loop.simps) auto
  next
    case (Cons x rest)
    obtain st where st: "kahn_release (or_default [] (bt_get outgoing x)) (incoming, rest) = Some st"
      "kahn_inv N edges (fst st) (snd st) (ordered @ [x])"
      using kahn_step [OF _ closed 1(2)] 1(3) Cons by blast
    from 1(1) [OF Cons st(1) 1(2) st(2)] show ?thesis
      using Cons st(1) by (subst kahn_loop.simps) simp
  qed
qed

section \<open>The topological sort\<close>

text \<open>Pipeline graphs as dependency graphs.\<close>

definition dag_preds :: "PipelineDag \<Rightarrow> pipeline_node_id \<Rightarrow> pipeline_node_id set" where
  "dag_preds dag = edge_preds (dag_edges dag)"

definition dag_closed :: "PipelineDag \<Rightarrow> bool" where
  "dag_closed dag \<longleftrightarrow> (\<forall>e\<in>set (dag_edges dag).
     fst e \<in> pn_id ` set (dag_nodes dag) \<and> snd e \<in> pn_id ` set (dag_nodes dag))"

definition dag_ids :: "PipelineDag \<Rightarrow> pipeline_node_id list" where
  "dag_ids dag = map pn_id (dag_nodes dag)"

interpretation dag_deps: dependency_source dag_ids dag_preds dag_closed
  by unfold_locales (force simp: dag_preds_def edge_preds_def dag_closed_def dag_ids_def)

lemma kahn_start:
  assumes closed: "\<forall>e\<in>set edges. snd e \<in> pn_id ` set nodes"
  shows "\<exists>inc out. kahn_edges edges (fold (\<lambda>n. bt_insert (pn_id n) 0) nodes [], []) = Some (inc, out) \<and>
    kahn_inv (pn_id ` set nodes) edges inc (bs_of_list (map fst (filter (\<lambda>e. snd e = 0) inc))) [] \<and>
    (\<forall>p. or_default [] (bt_get out p) = map snd (filter (\<lambda>e. fst e = p) edges))"
proof -
  let ?N = "pn_id ` set nodes" and ?z = "fold (\<lambda>n. bt_insert (pn_id n) (0 :: nat)) nodes []"
  have z: "bt_wf ?z" "\<And>k. bt_get ?z k = (if k \<in> ?N then Some 0 else None)"
    using fold_zero_counters [of "[]" pn_id nodes] by (simp_all add: bt_get_def bt_wf_def)
  have "\<forall>e\<in>set edges. bt_get ?z (snd e) \<noteq> None" using closed z(2) by auto
  then obtain inc out where run: "kahn_edges edges (?z, []) = Some (inc, out)" and keys: "map fst inc = map fst ?z"
    and inc: "\<And>n c. bt_get ?z n = Some c \<Longrightarrow> bt_get inc n = Some (c + length (filter (\<lambda>e. snd e = n) edges))"
    and out: "\<And>p. or_default [] (bt_get out p) = or_default [] (bt_get [] p) @ map snd (filter (\<lambda>e. fst e = p) edges)"
    using kahn_edges_total [of edges ?z "[]"] by blast
  have wf: "bt_wf inc" using z(1) keys by (simp add: bt_wf_def)
  have N: "set (map fst inc) = ?N"
  proof (intro set_eqI)
    fix n
    show "n \<in> set (map fst inc) \<longleftrightarrow> n \<in> ?N"
      unfolding keys bt_get_keys [of ?z n, symmetric] z(2) by simp
  qed
  have counts: "bt_get inc n = Some (open_edges edges {} n)" if "n \<in> ?N" for n
    using inc [of n 0] z(2) [of n] that by (simp add: open_edges_def)
  have "bt_get inc n = Some 0 \<longleftrightarrow> n \<in> ?N \<and> edge_preds edges n \<subseteq> {}" for n
  proof (cases "n \<in> ?N")
    case True
    then show ?thesis using counts [OF True] open_edges_zero_iff [of edges "{}" n] by simp
  next
    case False
    then have "bt_get inc n = None" using bt_get_keys [of inc n] N by simp
    with False show ?thesis by simp
  qed
  then have "set (map fst (filter (\<lambda>e. snd e = 0) inc)) = available (edge_preds edges) ?N {}"
    unfolding zero_counter_ids [OF wf] available_def by simp
  then have "kahn_inv ?N edges inc (bs_of_list (map fst (filter (\<lambda>e. snd e = 0) inc))) []"
    using N counts by (simp add: kahn_inv_def)
  with run out show ?thesis by (auto simp: bt_get_def or_default_def)
qed

lemma topological_identities_total:
  assumes closed: "dag_closed dag" and dist: "distinct (dag_ids dag)"
  shows "(dag_deps.acyclic_graph dag \<longrightarrow>
      (\<exists>xs. topological_identities (dag_nodes dag) (dag_edges dag) = Some (Inr xs) \<and>
         greedy_topo (dag_preds dag) (set (dag_ids dag)) {} xs \<and> set xs = set (dag_ids dag))) \<and>
    (\<not> dag_deps.acyclic_graph dag \<longrightarrow>
      topological_identities (dag_nodes dag) (dag_edges dag) = Some (Inl PE_Cycle))"
proof -
  let ?E = "dag_edges dag" and ?N = "set (dag_ids dag)"
  have N: "pn_id ` set (dag_nodes dag) = ?N" by (simp add: dag_ids_def)
  have snd_in: "\<forall>e\<in>set ?E. snd e \<in> pn_id ` set (dag_nodes dag)" using closed by (simp add: dag_closed_def)
  obtain inc out where run: "kahn_edges ?E (fold (\<lambda>n. bt_insert (pn_id n) 0) (dag_nodes dag) [], []) = Some (inc, out)"
    and inv: "kahn_inv ?N ?E inc (bs_of_list (map fst (filter (\<lambda>e. snd e = 0) inc))) []"
    and out: "\<And>p. or_default [] (bt_get out p) = map snd (filter (\<lambda>e. fst e = p) ?E)"
    using kahn_start [OF snd_in] unfolding N by blast
  obtain xs inc' where loop: "kahn_loop out inc (bs_of_list (map fst (filter (\<lambda>e. snd e = 0) inc))) [] = Some xs"
    and inv': "kahn_inv ?N ?E inc' [] xs"
    using kahn_loop_total [OF snd_in [unfolded N] out inv] by blast
  have greedy: "greedy_topo (dag_preds dag) ?N {} xs" and stuck: "available (dag_preds dag) ?N (set xs) = {}"
    using inv' by (simp_all add: kahn_inv_def dag_preds_def)
  have topo: "topo_from (dag_preds dag) {} xs" "set xs \<subseteq> ?N" using greedy_topo_topo [OF greedy] by auto
  have len: "length xs = length (dag_nodes dag) \<longleftrightarrow> set xs = ?N"
  proof -
    have "length xs = card (set xs)" using topo_from_distinct [OF topo(1)] by (simp add: distinct_card)
    moreover have "length (dag_nodes dag) = card ?N" using distinct_card [OF dist] by (simp add: dag_ids_def)
    ultimately show ?thesis using topo(2) by (metis List.finite_set card_subset_eq)
  qed
  have acyclic: "dag_deps.acyclic_graph dag \<longleftrightarrow> set xs = ?N"
  proof
    assume "dag_deps.acyclic_graph dag"
    then show "set xs = ?N"
      using dag_deps.progress [OF closed, of "set xs"] stuck topo(2) by (auto simp: available_def)
  qed (use dag_deps.acyclic_of_order topo in blast)
  have "topological_identities (dag_nodes dag) ?E =
      Some (if length xs \<noteq> length (dag_nodes dag) then Inl PE_Cycle else Inr xs)"
    by (simp add: topological_identities_def run loop Let_def)
  with len acyclic greedy show ?thesis by auto
qed

end
