(* ===== verification/Pipeline_Correct.thy ===== *)
theory Pipeline_Correct
  imports Pipeline_Kahn "HOL-Library.Code_Target_Nat"
begin

text \<open>
  Properties of the Pipeline constructor: the invariants of every constructed DAG, that construction
  never panics, that a constructed DAG is a fixed point of construction (so it survives
  serialization, revalidation and publication), and that its topological order exists.
\<close>

section \<open>Edges\<close>

definition fan_in_of :: "PipelineEdge list \<Rightarrow> pipeline_node_id \<Rightarrow> nat" where
  "fan_in_of es n = length (filter (\<lambda>e. snd e = n) es)"

definition fan_out_of :: "PipelineEdge list \<Rightarrow> pipeline_node_id \<Rightarrow> nat" where
  "fan_out_of es n = length (filter (\<lambda>e. fst e = n) es)"

definition endpoints_ok :: "pipeline_node_id set \<Rightarrow> PipelineEdge \<Rightarrow> bool" where
  "endpoints_ok N e \<longleftrightarrow> fst e \<noteq> snd e \<and> fst e \<in> N \<and> snd e \<in> N"

lemma check_edges_step:
  "check_edges ids (e # es) fi fo = Inr () \<longleftrightarrow>
     endpoints_ok (set ids) e \<and>
     or_default 0 (bt_get fi (snd e)) + 1 \<le> MAX_PIPELINE_FAN_IN \<and>
     or_default 0 (bt_get fo (fst e)) + 1 \<le> MAX_PIPELINE_FAN_OUT \<and>
     check_edges ids es (bt_insert (snd e) (or_default 0 (bt_get fi (snd e)) + 1) fi)
       (bt_insert (fst e) (or_default 0 (bt_get fo (fst e)) + 1) fo) = Inr ()"
  by (auto simp: endpoints_ok_def Let_def not_less)

lemma or_default_insert:
  "or_default d (bt_get (bt_insert k v m) n) = (if n = k then v else or_default d (bt_get m n))"
  by (simp add: bt_get_insert or_default_def)

lemma count_bound_Cons:
  fixes c :: "'b \<Rightarrow> nat" and f :: "'a \<Rightarrow> 'b"
  defines "cnt \<equiv> \<lambda>es n. length (filter (\<lambda>e. f e = n) es)"
  shows "(\<forall>n\<in>f ` set (e # es). c n + cnt (e # es) n \<le> M) \<longleftrightarrow>
    c (f e) + 1 \<le> M \<and> (\<forall>n\<in>f ` set es. (if n = f e then c (f e) + 1 else c n) + cnt es n \<le> M)"
    (is "?L \<longleftrightarrow> ?R")
proof
  have cons: "cnt (e # es) n = (if n = f e then cnt es n + 1 else cnt es n)" for n by (simp add: cnt_def)
  assume all: ?L
  have "c (f e) + cnt (e # es) (f e) \<le> M" using all by simp
  then have "c (f e) + 1 \<le> M" by (simp add: cons)
  moreover have "(if n = f e then c (f e) + 1 else c n) + cnt es n \<le> M" if "n \<in> f ` set es" for n
  proof -
    have "n \<in> f ` set (e # es)" using that by simp
    with all have "c n + cnt (e # es) n \<le> M" by blast
    then show ?thesis by (simp add: cons split: if_splits)
  qed
  ultimately show ?R by blast
next
  have cons: "cnt (e # es) n = (if n = f e then cnt es n + 1 else cnt es n)" for n by (simp add: cnt_def)
  assume r: ?R
  show ?L
  proof
    fix n assume n: "n \<in> f ` set (e # es)"
    show "c n + cnt (e # es) n \<le> M"
    proof (cases "n \<in> f ` set es")
      case True
      with r have "(if n = f e then c (f e) + 1 else c n) + cnt es n \<le> M" by blast
      then show ?thesis by (simp add: cons split: if_splits)
    next
      case False
      then have "cnt es n = 0" by (auto simp: cnt_def filter_empty_conv)
      moreover have "n = f e" using n False by auto
      ultimately show ?thesis using r by (simp add: cons)
    qed
  qed
qed

lemma check_edges_Inr_iff:
  "check_edges ids es fi fo = Inr () \<longleftrightarrow>
     (\<forall>e\<in>set es. endpoints_ok (set ids) e) \<and>
     (\<forall>n\<in>snd ` set es. or_default 0 (bt_get fi n) + fan_in_of es n \<le> MAX_PIPELINE_FAN_IN) \<and>
     (\<forall>n\<in>fst ` set es. or_default 0 (bt_get fo n) + fan_out_of es n \<le> MAX_PIPELINE_FAN_OUT)"
proof (induction es arbitrary: fi fo)
  case (Cons e es)
  show ?case
    unfolding check_edges_step Cons.IH or_default_insert fan_in_of_def fan_out_of_def
      count_bound_Cons [where f = snd and c = "\<lambda>n. or_default 0 (bt_get fi n)"]
      count_bound_Cons [where f = fst and c = "\<lambda>n. or_default 0 (bt_get fo n)"]
    by (simp only: list.set ball_simps) blast
qed simp

definition edges_ok :: "pipeline_node_id set \<Rightarrow> PipelineEdge list \<Rightarrow> bool" where
  "edges_ok N es \<longleftrightarrow> (\<forall>e\<in>set es. endpoints_ok N e) \<and>
     (\<forall>n. fan_in_of es n \<le> MAX_PIPELINE_FAN_IN) \<and> (\<forall>n. fan_out_of es n \<le> MAX_PIPELINE_FAN_OUT)"

lemma check_edges_start: "check_edges ids es [] [] = Inr u \<longleftrightarrow> edges_ok (set ids) es"
proof -
  have fin: "fan_in_of es n = 0" if "n \<notin> snd ` set es" for n
    using that by (auto simp: fan_in_of_def filter_empty_conv)
  have fout: "fan_out_of es n = 0" if "n \<notin> fst ` set es" for n
    using that by (auto simp: fan_out_of_def filter_empty_conv)
  have "(\<forall>n\<in>snd ` set es. fan_in_of es n \<le> M) \<longleftrightarrow> (\<forall>n. fan_in_of es n \<le> M)" for M
    using fin by (metis le0)
  moreover have "(\<forall>n\<in>fst ` set es. fan_out_of es n \<le> M) \<longleftrightarrow> (\<forall>n. fan_out_of es n \<le> M)" for M
    using fout by (metis le0)
  moreover have "or_default 0 (bt_get [] n) = (0 :: nat)" for n :: pipeline_node_id
    by (simp add: bt_get_def or_default_def)
  ultimately show ?thesis
    unfolding edges_ok_def using check_edges_Inr_iff [of ids es "[]" "[]"] by simp
qed

section \<open>Nodes\<close>

lemma node_canonicalize_Inr_iff:
  "pipeline_node_canonicalize json_len n = Inr m \<longleftrightarrow>
     distinct (pn_required_capabilities n) \<and>
     (\<exists>t. canonicalize_json (pn_template n) = Inr t \<and> validate_template json_len t = Inr () \<and>
        m = n\<lparr>pn_required_capabilities := sort (pn_required_capabilities n), pn_template := t\<rparr>)"
  by (auto simp: pipeline_node_canonicalize_def Let_def res_simps has_adjacent_duplicate_iff)

lemma node_canonicalize_idem:
  "pipeline_node_canonicalize json_len n = Inr m \<Longrightarrow> pipeline_node_canonicalize json_len m = Inr m"
proof -
  assume "pipeline_node_canonicalize json_len n = Inr m"
  then obtain t where t: "canonicalize_json (pn_template n) = Inr t" "validate_template json_len t = Inr ()"
    and d: "distinct (pn_required_capabilities n)"
    and m: "m = n\<lparr>pn_required_capabilities := sort (pn_required_capabilities n), pn_template := t\<rparr>"
    by (auto simp: node_canonicalize_Inr_iff)
  have "canonicalize_json t = Inr t" using t(1) by (rule canonicalize_json_idem)
  moreover have "sort (sort (pn_required_capabilities n)) = sort (pn_required_capabilities n)"
    by (rule sort_key_id_if_sorted) simp
  ultimately show ?thesis using t d by (simp add: node_canonicalize_Inr_iff m)
qed

lemma windows2_map: "windows2 (map f xs) = map (map_prod f f) (windows2 xs)"
  by (simp add: windows2_def map_tl [symmetric] zip_map_map map_prod_def del: map_tl)

lemma duplicate_node_iff:
  "sorted (map pn_id nodes) \<Longrightarrow>
     find (\<lambda>(a, b). pn_id a = pn_id b) (windows2 nodes) = None \<longleftrightarrow> distinct (map pn_id nodes)"
proof -
  have "find (\<lambda>(a, b). pn_id a = pn_id b) (windows2 nodes) = None \<longleftrightarrow> \<not> has_adjacent_duplicate (map pn_id nodes)"
    by (simp add: has_adjacent_duplicate_def windows2_map list_ex_iff find_None_iff case_prod_unfold) auto
  then show "sorted (map pn_id nodes) \<Longrightarrow> ?thesis" by (simp add: has_adjacent_duplicate_iff)
qed

section \<open>Constructed DAGs\<close>

text \<open>The invariant of every constructed DAG, encodings apart.\<close>

definition dag_shape :: "(Json \<Rightarrow> nat option) \<Rightarrow> PipelineDag \<Rightarrow> bool" where
  "dag_shape json_len dag \<longleftrightarrow>
     dag_nodes dag \<noteq> [] \<and> length (dag_nodes dag) \<le> MAX_PIPELINE_NODES \<and>
     length (dag_edges dag) \<le> MAX_PIPELINE_EDGES \<and>
     sorted_wrt (<) (dag_ids dag) \<and> sorted_wrt (<) (dag_edges dag) \<and>
     (\<forall>n\<in>set (dag_nodes dag). pipeline_node_canonicalize json_len n = Inr n) \<and>
     edges_ok (set (dag_ids dag)) (dag_edges dag)"

definition dag_supported :: "capability_catalog option \<Rightarrow> PipelineDag \<Rightarrow> bool" where
  "dag_supported capabilities dag \<longleftrightarrow> (case capabilities of None \<Rightarrow> True
     | Some catalog \<Rightarrow> \<forall>n\<in>set (dag_nodes dag). set (pn_required_capabilities n) \<subseteq> set catalog)"

lemma check_capabilities_Inr_iff:
  "check_capabilities catalog n = Inr u \<longleftrightarrow> set (pn_required_capabilities n) \<subseteq> set catalog"
proof (cases "find (\<lambda>c. \<not> catalog_supports catalog c) (pn_required_capabilities n)")
  case None
  then have "set (pn_required_capabilities n) \<subseteq> set catalog" by (auto simp: find_None_iff catalog_supports_def)
  with None show ?thesis by (simp add: check_capabilities_def)
next
  case (Some c)
  then have "c \<in> set (pn_required_capabilities n)" "c \<notin> set catalog"
    by (auto simp: find_Some_iff catalog_supports_def)
  with Some show ?thesis by (auto simp: check_capabilities_def)
qed

lemma capabilities_Inr_iff:
  "(case capabilities of None \<Rightarrow> Inr () | Some catalog \<Rightarrow> try_each (check_capabilities catalog) nodes) = Inr u \<longleftrightarrow>
     dag_supported capabilities \<lparr>dag_nodes = nodes, dag_edges = es\<rparr>"
  by (cases capabilities) (simp_all add: dag_supported_def try_each_Inr_iff check_capabilities_Inr_iff)

lemma dag_prepare_Inr_iff:
  "dag_prepare json_len nodes edges capabilities = Inr dag \<longleftrightarrow>
     nodes \<noteq> [] \<and> length nodes \<le> MAX_PIPELINE_NODES \<and> length edges \<le> MAX_PIPELINE_EDGES \<and>
     (\<exists>ns. list_all2 (\<lambda>n m. pipeline_node_canonicalize json_len n = Inr m) nodes ns \<and>
        dag = \<lparr>dag_nodes = sort_key pn_id ns, dag_edges = sort edges\<rparr>) \<and>
     distinct (dag_ids dag) \<and> dag_supported capabilities dag \<and> distinct (dag_edges dag) \<and>
     edges_ok (set (dag_ids dag)) (dag_edges dag)"
proof -
  have step: "(case find (\<lambda>(a, b). pn_id a = pn_id b) (windows2 (sort_key pn_id ns)) of
        Some (a, _) \<Rightarrow> Inl (PE_DuplicateNode (pn_id a)) | None \<Rightarrow> rest) = Inr dag \<longleftrightarrow>
      distinct (map pn_id (sort_key pn_id ns)) \<and> rest = Inr dag" for ns rest
    using duplicate_node_iff [of "sort_key pn_id ns"] by (auto split: option.splits)
  show ?thesis
    unfolding dag_prepare_def Let_def
    by (auto simp: and_then_Inr_iff try_map_Inr_iff step capabilities_Inr_iff [of _ _ _ "sort edges"]
        has_adjacent_duplicate_iff check_edges_start dag_ids_def split: if_splits)
qed

lemma dag_prepare_shape:
  assumes "dag_prepare json_len nodes edges capabilities = Inr dag"
  shows "dag_shape json_len dag" and "dag_supported capabilities dag"
proof -
  from assms obtain ns where ns: "list_all2 (\<lambda>n m. pipeline_node_canonicalize json_len n = Inr m) nodes ns"
    and dag: "dag = \<lparr>dag_nodes = sort_key pn_id ns, dag_edges = sort edges\<rparr>"
    and facts: "nodes \<noteq> []" "length nodes \<le> MAX_PIPELINE_NODES" "length edges \<le> MAX_PIPELINE_EDGES"
      "distinct (dag_ids dag)" "dag_supported capabilities dag" "distinct (dag_edges dag)"
      "edges_ok (set (dag_ids dag)) (dag_edges dag)"
    by (auto simp: dag_prepare_Inr_iff)
  show "dag_supported capabilities dag" by (rule facts(5))
  have canonical: "pipeline_node_canonicalize json_len m = Inr m" if "m \<in> set ns" for m
    using ns that by (induction rule: list_all2_induct) (auto dest: node_canonicalize_idem)
  have "length ns = length nodes" using ns by (simp add: list_all2_lengthD)
  moreover have "sorted (dag_ids dag)" "sorted (dag_edges dag)" by (simp_all add: dag dag_ids_def)
  ultimately show "dag_shape json_len dag"
    using facts canonical unfolding dag_shape_def strict_sorted_iff by (auto simp: dag)
qed

lemma dag_prepare_fixed:
  assumes "dag_shape json_len dag" and "dag_supported capabilities dag"
  shows "dag_prepare json_len (dag_nodes dag) (dag_edges dag) capabilities = Inr dag"
proof -
  have sorted: "sorted (dag_ids dag)" "distinct (dag_ids dag)" "sorted (dag_edges dag)" "distinct (dag_edges dag)"
    using assms(1) by (auto simp: dag_shape_def strict_sorted_iff)
  have "list_all2 (\<lambda>n m. pipeline_node_canonicalize json_len n = Inr m) (dag_nodes dag) (dag_nodes dag)"
    using assms(1) by (simp add: dag_shape_def list_all2_same)
  moreover have "dag = \<lparr>dag_nodes = sort_key pn_id (dag_nodes dag), dag_edges = sort (dag_edges dag)\<rparr>"
    using sorted by (simp add: dag_ids_def sort_key_id_if_sorted)
  ultimately have "\<exists>ns. list_all2 (\<lambda>n m. pipeline_node_canonicalize json_len n = Inr m) (dag_nodes dag) ns \<and>
      dag = \<lparr>dag_nodes = sort_key pn_id ns, dag_edges = sort (dag_edges dag)\<rparr>" by blast
  then show ?thesis
    using assms sorted unfolding dag_prepare_Inr_iff dag_shape_def by simp
qed

lemma dag_shape_closed: "dag_shape json_len dag \<Longrightarrow> dag_closed dag \<and> distinct (dag_ids dag)"
  by (auto simp: dag_shape_def dag_closed_def edges_ok_def endpoints_ok_def dag_ids_def strict_sorted_iff)

definition dag_len_ok :: "(PipelineDag \<Rightarrow> nat option) \<Rightarrow> PipelineDag \<Rightarrow> bool" where
  "dag_len_ok dag_len dag \<longleftrightarrow> (\<exists>n. dag_len dag = Some n \<and> n \<le> MAX_PIPELINE_SNAPSHOT_BYTES)"

lemma dag_build_cases:
  "dag_build json_len dag_len nodes edges capabilities =
     Some (and_then (dag_prepare json_len nodes edges capabilities) (\<lambda>dag.
       if \<not> dag_deps.acyclic_graph dag then Inl PE_Cycle
       else if \<not> dag_len_ok dag_len dag then Inl PE_SnapshotTooLarge
       else Inr dag))"
proof (cases "dag_prepare json_len nodes edges capabilities")
  case (Inl e)
  then show ?thesis by (simp add: dag_build_def)
next
  case (Inr dag)
  have "dag_closed dag" "distinct (dag_ids dag)"
    using dag_shape_closed [OF dag_prepare_shape(1) [OF Inr]] by auto
  note topo = topological_identities_total [OF this]
  have len: "(case dag_len dag of Some n \<Rightarrow> MAX_PIPELINE_SNAPSHOT_BYTES < n | None \<Rightarrow> True) \<longleftrightarrow>
      \<not> dag_len_ok dag_len dag"
    by (auto simp: dag_len_ok_def not_less split: option.splits)
  show ?thesis
    using topo Inr len by (cases "dag_deps.acyclic_graph dag") (auto simp: dag_build_def)
qed

lemma dag_build_Inr_iff:
  "dag_build json_len dag_len nodes edges capabilities = Some (Inr dag) \<longleftrightarrow>
     dag_prepare json_len nodes edges capabilities = Inr dag \<and> dag_deps.acyclic_graph dag \<and>
     dag_len_ok dag_len dag"
  by (auto simp: dag_build_cases and_then_Inr_iff)

section \<open>Properties\<close>

text \<open>A three-node Pipeline used by the examples; its parameters are encodings of constant length.\<close>

definition sample_node :: "rstr \<Rightarrow> PipelineNode" where
  "sample_node i = \<lparr>pn_id = i, pn_name = i, pn_dependency_policy = AllSucceeded,
     pn_required_capabilities = [lit ''oci'', lit ''git''], pn_template = JObject []\<rparr>"

definition sample_dag :: "PipelineDag" where
  "sample_dag = \<lparr>dag_nodes = map (\<lambda>i. (sample_node i)\<lparr>pn_required_capabilities := [lit ''git'', lit ''oci'']\<rparr>)
       [lit ''build'', lit ''lint'', lit ''test''],
     dag_edges = [(lit ''build'', lit ''test''), (lit ''lint'', lit ''build'')]\<rparr>"

lemma sample_dag_build:
  "dag_build (\<lambda>_. Some 2) (\<lambda>_. Some 300) (map sample_node [lit ''test'', lit ''build'', lit ''lint''])
     [(lit ''lint'', lit ''build''), (lit ''build'', lit ''test'')] None = Some (Inr sample_dag)"
  by code_simp

text \<open>The topological sort is correct (C4): on distinct nodes and edges between them Kahn's loop
  neither panics nor runs out of work early. On an acyclic graph it returns every identity once,
  each at a position where it is the least among the nodes whose predecessors all came before, and
  a graph with a cycle is reported as such.\<close>

theorem topological_sort_correct:
  assumes "dag_closed dag" and "distinct (dag_ids dag)"
  shows "if acyclic (dep_rel (set (dag_ids dag)) (dag_preds dag))
    then \<exists>xs. topological_identities (dag_nodes dag) (dag_edges dag) = Some (Inr xs) \<and>
      greedy_topo (dag_preds dag) (set (dag_ids dag)) {} xs \<and>
      topo_from (dag_preds dag) {} xs \<and> set xs = set (dag_ids dag) \<and> distinct xs
    else topological_identities (dag_nodes dag) (dag_edges dag) = Some (Inl PE_Cycle)"
proof (cases "acyclic (dep_rel (set (dag_ids dag)) (dag_preds dag))")
  case True
  then obtain xs where xs: "topological_identities (dag_nodes dag) (dag_edges dag) = Some (Inr xs)"
    "greedy_topo (dag_preds dag) (set (dag_ids dag)) {} xs" "set xs = set (dag_ids dag)"
    using topological_identities_total [OF assms] by (auto simp: dag_deps.acyclic_graph_def)
  have topo: "topo_from (dag_preds dag) {} xs" using greedy_topo_topo [OF xs(2)] by simp
  have "distinct xs" using topo_from_distinct [OF topo] by simp
  with True xs topo show ?thesis by simp
next
  case False
  then show ?thesis
    using topological_identities_total [OF assms] by (simp add: dag_deps.acyclic_graph_def)
qed

theorem topological_sort_correct_witness:
  "topological_identities (dag_nodes sample_dag)
      [(lit ''build'', lit ''test''), (lit ''test'', lit ''build'')] = Some (Inl PE_Cycle) \<and>
   \<not> acyclic (dep_rel (set (dag_ids sample_dag))
       (edge_preds [(lit ''build'', lit ''test''), (lit ''test'', lit ''build'')]))"
proof
  let ?dag = "sample_dag\<lparr>dag_edges := [(lit ''build'', lit ''test''), (lit ''test'', lit ''build'')]\<rparr>"
  show run: "topological_identities (dag_nodes sample_dag)
      [(lit ''build'', lit ''test''), (lit ''test'', lit ''build'')] = Some (Inl PE_Cycle)" by code_simp
  have "dag_closed ?dag" "distinct (dag_ids ?dag)" by code_simp+
  from topological_sort_correct [OF this] run
  show "\<not> acyclic (dep_rel (set (dag_ids sample_dag))
       (edge_preds [(lit ''build'', lit ''test''), (lit ''test'', lit ''build'')]))"
    by (auto simp: dag_ids_def dag_preds_def split: if_splits)
qed

text \<open>Constructed DAGs are well-formed (C3): whatever nodes, edges and catalog are given, a
  successful construction yields between 1 and 1024 nodes in strictly increasing identity order and
  at most 8192 edges in strictly increasing order; every edge joins two different existing nodes,
  no node has more than 256 predecessors or dependents, the graph is acyclic, every template is a
  canonical object within its byte bound, capabilities are strictly sorted and, for a publication,
  all in the catalog, and the encoded snapshot is within 8 MiB.\<close>

theorem dag_build_sound:
  assumes "dag_build json_len dag_len nodes edges capabilities = Some (Inr dag)"
  shows "0 < length (dag_nodes dag) \<and> length (dag_nodes dag) \<le> 1024 \<and> length (dag_edges dag) \<le> 8192 \<and>
    sorted_wrt (<) (map pn_id (dag_nodes dag)) \<and> sorted_wrt (<) (dag_edges dag) \<and>
    (\<forall>(p, d)\<in>set (dag_edges dag). p \<noteq> d \<and> {p, d} \<subseteq> pn_id ` set (dag_nodes dag)) \<and>
    (\<forall>n. fan_in_of (dag_edges dag) n \<le> 256 \<and> fan_out_of (dag_edges dag) n \<le> 256) \<and>
    acyclic (dep_rel (pn_id ` set (dag_nodes dag)) (dag_preds dag)) \<and>
    (\<forall>n\<in>set (dag_nodes dag). json_canonical (pn_template n) \<and> is_object (pn_template n) \<and>
       (\<exists>b. json_len (pn_template n) = Some b \<and> b \<le> 262144) \<and>
       sorted_wrt (<) (pn_required_capabilities n) \<and>
       (\<forall>catalog. capabilities = Some catalog \<longrightarrow> set (pn_required_capabilities n) \<subseteq> set catalog)) \<and>
    (\<exists>b. dag_len dag = Some b \<and> b \<le> 8388608)"
proof -
  have prep: "dag_prepare json_len nodes edges capabilities = Inr dag"
    and acyc: "dag_deps.acyclic_graph dag" and len: "dag_len_ok dag_len dag"
    using assms by (simp_all add: dag_build_Inr_iff)
  note shape = dag_prepare_shape(1) [OF prep, unfolded dag_shape_def] and supp = dag_prepare_shape(2) [OF prep]
  have node: "json_canonical (pn_template n) \<and> is_object (pn_template n) \<and>
       (\<exists>b. json_len (pn_template n) = Some b \<and> b \<le> 262144) \<and>
       sorted_wrt (<) (pn_required_capabilities n)" if "n \<in> set (dag_nodes dag)" for n
  proof -
    from shape that have "pipeline_node_canonicalize json_len n = Inr n" by blast
    then obtain t where t: "canonicalize_json (pn_template n) = Inr t" "validate_template json_len t = Inr ()"
      and d: "distinct (pn_required_capabilities n)"
      and n: "n = n\<lparr>pn_required_capabilities := sort (pn_required_capabilities n), pn_template := t\<rparr>"
      by (auto simp: node_canonicalize_Inr_iff)
    from n have n': "pn_template n = t" "pn_required_capabilities n = sort (pn_required_capabilities n)"
      by (metis PipelineNode.select_convs(5) PipelineNode.surjective PipelineNode.update_convs(5),
          metis PipelineNode.select_convs(4) PipelineNode.surjective PipelineNode.update_convs(4,5))
    then have "sorted (pn_required_capabilities n)" by (metis sorted_sort)
    moreover have "json_canonical t" using t(1) sort_json_canonical by (auto simp: canonicalize_json_Inr_iff)
    ultimately show ?thesis
      using t(2) d by (auto simp: n'(1) validate_template_def strict_sorted_iff
          MAX_PIPELINE_NODE_TEMPLATE_BYTES_def split: if_splits option.splits)
  qed
  have caps: "set (pn_required_capabilities n) \<subseteq> set catalog"
    if "n \<in> set (dag_nodes dag)" "capabilities = Some catalog" for n catalog
    using supp that by (simp add: dag_supported_def)
  show ?thesis
    using shape acyc len caps node
    unfolding edges_ok_def endpoints_ok_def dag_deps.acyclic_graph_def dag_len_ok_def
    by (auto simp: dag_ids_def MAX_PIPELINE_NODES_def MAX_PIPELINE_EDGES_def MAX_PIPELINE_FAN_IN_def
        MAX_PIPELINE_FAN_OUT_def MAX_PIPELINE_SNAPSHOT_BYTES_def)
qed

theorem dag_build_sound_witness:
  "length (dag_nodes sample_dag) \<le> 1024 \<and> sorted_wrt (<) (map pn_id (dag_nodes sample_dag)) \<and>
   acyclic (dep_rel (pn_id ` set (dag_nodes sample_dag)) (dag_preds sample_dag))"
  using dag_build_sound [OF sample_dag_build] by simp

text \<open>Construction is total: \<^verbatim>\<open>PipelineDag::build\<close> returns a DAG or an error on every input; the
  panics written into the topological sort are unreachable.\<close>

theorem dag_build_never_panics:
  "dag_build json_len dag_len nodes edges capabilities \<noteq> None"
  by (simp add: dag_build_cases)

text \<open>Constructed DAGs survive their boundaries (C35): decoding the wire form of a constructed DAG
  gives the same DAG, revalidation accepts it, and publication returns it unchanged exactly when the
  current catalog has all its capabilities.\<close>

theorem dag_roundtrip:
  assumes "dag_build json_len dag_len nodes edges capabilities = Some (Inr dag)"
  shows "dag_deserialize json_len dag_len (dag_serialize dag) = Some (Inr dag) \<and>
    dag_validate json_len dag_len dag = Some (Inr ()) \<and>
    (for_publication json_len dag_len dag catalog = Some (Inr dag) \<longleftrightarrow>
       (\<forall>n\<in>set (dag_nodes dag). set (pn_required_capabilities n) \<subseteq> set catalog))"
proof -
  have prep: "dag_prepare json_len nodes edges capabilities = Inr dag"
    and ok: "dag_deps.acyclic_graph dag" "dag_len_ok dag_len dag"
    using assms by (simp_all add: dag_build_Inr_iff)
  note shape = dag_prepare_shape(1) [OF prep]
  have again: "dag_build json_len dag_len (dag_nodes dag) (dag_edges dag) caps = Some (Inr dag) \<longleftrightarrow>
      dag_supported caps dag" for caps
    using ok dag_prepare_fixed [OF shape] dag_prepare_shape(2) by (auto simp: dag_build_Inr_iff)
  have "dag_build json_len dag_len (dag_nodes dag) (dag_edges dag) None = Some (Inr dag)"
    unfolding again by (simp add: dag_supported_def)
  moreover have "for_publication json_len dag_len dag catalog = Some (Inr dag) \<longleftrightarrow> dag_supported (Some catalog) dag"
    unfolding for_publication_def by (rule again)
  ultimately show ?thesis
    by (simp add: dag_deserialize_def dag_serialize_def dag_validate_def dag_supported_def)
qed

theorem dag_roundtrip_witness:
  "dag_deserialize (\<lambda>_. Some 2) (\<lambda>_. Some 300) (dag_serialize sample_dag) = Some (Inr sample_dag) \<and>
   for_publication (\<lambda>_. Some 2) (\<lambda>_. Some 300) sample_dag [lit ''git'', lit ''oci''] = Some (Inr sample_dag)"
  using dag_roundtrip [OF sample_dag_build, of "[lit ''git'', lit ''oci'']"]
  by (simp add: sample_dag_def)

lemma those_map_Some: "(\<And>x. x \<in> set xs \<Longrightarrow> g x = Some (f x)) \<Longrightarrow> those (map g xs) = Some (map f xs)"
  by (induction xs) auto

lemma dag_find_present:
  assumes "i \<in> set (dag_ids dag)"
  obtains n where "dag_find (dag_nodes dag) i = Some n" "n \<in> set (dag_nodes dag)" "pn_id n = i"
proof -
  from assms obtain n where "find (\<lambda>n. pn_id n = i) (dag_nodes dag) = Some n"
    by (cases "find (\<lambda>n. pn_id n = i) (dag_nodes dag)") (auto simp: find_None_iff dag_ids_def)
  with that show thesis by (auto simp: dag_find_def find_Some_iff)
qed

text \<open>Every constructed DAG can be executed: its topological order exists (the two \<^verbatim>\<open>expect\<close>
  calls cannot fail), lists every node once with each after its predecessors, and the DAG has a
  root; the roots are exactly the nodes without predecessors.\<close>

theorem dag_order_exists:
  assumes "dag_build json_len dag_len nodes edges capabilities = Some (Inr dag)"
  shows "\<exists>ns. dag_topological_order dag = Some ns \<and> distinct (map pn_id ns) \<and> set ns = set (dag_nodes dag) \<and>
    topo_from (dag_preds dag) {} (map pn_id ns) \<and>
    dag_roots dag \<noteq> [] \<and> set (dag_roots dag) = {n \<in> set (dag_nodes dag). dag_preds dag (pn_id n) = {}}"
proof -
  have prep: "dag_prepare json_len nodes edges capabilities = Inr dag" and acyc: "dag_deps.acyclic_graph dag"
    using assms by (simp_all add: dag_build_Inr_iff)
  note shape = dag_prepare_shape(1) [OF prep]
  have closed: "dag_closed dag" and dist: "distinct (dag_ids dag)" using dag_shape_closed [OF shape] by auto
  obtain xs where xs: "topological_identities (dag_nodes dag) (dag_edges dag) = Some (Inr xs)"
    "greedy_topo (dag_preds dag) (set (dag_ids dag)) {} xs" "set xs = set (dag_ids dag)"
    using topological_identities_total [OF closed dist] acyc by blast
  have topo: "topo_from (dag_preds dag) {} xs" using greedy_topo_topo [OF xs(2)] by simp
  define f where "f i = the (dag_find (dag_nodes dag) i)" for i
  have f: "dag_find (dag_nodes dag) i = Some (f i)" "f i \<in> set (dag_nodes dag)" "pn_id (f i) = i" if "i \<in> set xs" for i
  proof -
    from that xs(3) have "i \<in> set (dag_ids dag)" by simp
    then obtain n where "dag_find (dag_nodes dag) i = Some n" "n \<in> set (dag_nodes dag)" "pn_id n = i"
      by (rule dag_find_present)
    then show "dag_find (dag_nodes dag) i = Some (f i)" "f i \<in> set (dag_nodes dag)" "pn_id (f i) = i"
      by (simp_all add: f_def)
  qed
  have order: "dag_topological_order dag = Some (map f xs)"
    using xs(1) f(1) by (simp add: dag_topological_order_def those_map_Some)
  have ids: "map pn_id (map f xs) = xs" using f(3) by (simp add: map_idI)
  have "set (map f xs) = set (dag_nodes dag)"
  proof
    show "set (map f xs) \<subseteq> set (dag_nodes dag)" using f(2) by auto
    show "set (dag_nodes dag) \<subseteq> set (map f xs)"
    proof
      fix n assume n: "n \<in> set (dag_nodes dag)"
      then have i: "pn_id n \<in> set xs" by (simp add: xs(3) dag_ids_def)
      have "f (pn_id n) = n" using dist f(2,3) [OF i] n by (auto simp: dag_ids_def distinct_map inj_on_def)
      with i show "n \<in> set (map f xs)" by force
    qed
  qed
  moreover have roots: "set (dag_roots dag) = {n \<in> set (dag_nodes dag). dag_preds dag (pn_id n) = {}}"
    by (force simp: dag_roots_def dag_preds_def edge_preds_def)
  moreover have "dag_roots dag \<noteq> []"
  proof -
    have "\<not> set (dag_ids dag) \<subseteq> {}" using shape by (simp add: dag_shape_def dag_ids_def)
    from dag_deps.progress [OF closed acyc this] obtain i where "i \<in> set (dag_ids dag)" "dag_preds dag i = {}" by auto
    then have "set (dag_roots dag) \<noteq> {}" unfolding roots by (auto simp: dag_ids_def)
    then show ?thesis by auto
  qed
  ultimately show ?thesis using order ids topo topo_from_distinct [OF topo] by auto
qed

theorem dag_order_exists_witness:
  "\<exists>ns. dag_topological_order sample_dag = Some ns \<and> map pn_id ns = [lit ''lint'', lit ''build'', lit ''test''] \<and>
     topo_from (dag_preds sample_dag) {} (map pn_id ns)"
proof -
  obtain ns where ns: "dag_topological_order sample_dag = Some ns" "topo_from (dag_preds sample_dag) {} (map pn_id ns)"
    using dag_order_exists [OF sample_dag_build] by blast
  moreover have "map_option (map pn_id) (dag_topological_order sample_dag) = Some [lit ''lint'', lit ''build'', lit ''test'']"
    by code_simp
  ultimately show ?thesis by simp
qed

end
