(* ===== verification/Source_Values.thy ===== *)
theory Source_Values
  imports Domain
begin

text \<open>
  Source values of \<^verbatim>\<open>server/core/octacity-server-domain/src/source.rs\<close>: immutable revisions, source
  references, repository locators and source selections. \<^verbatim>\<open>str::split\<close>, \<^verbatim>\<open>split_once\<close>, \<^verbatim>\<open>contains\<close>
  and the ASCII case conversions are written out on lists of characters.
\<close>

section \<open>String operations\<close>

definition to_ascii_lowercase :: "rstr \<Rightarrow> rstr" where
  "to_ascii_lowercase s = map (\<lambda>c. if is_ascii_uppercase c then c + 32 else c) s"

definition is_ascii_alphabetic :: "rchar \<Rightarrow> bool" where
  "is_ascii_alphabetic c \<longleftrightarrow> is_ascii_lowercase c \<or> is_ascii_uppercase c"

definition starts_with :: "rstr \<Rightarrow> rstr \<Rightarrow> bool" where
  "starts_with p s \<longleftrightarrow> take (length p) s = p"

fun str_contains :: "rstr \<Rightarrow> rstr \<Rightarrow> bool" where
  "str_contains p [] = (p = [])"
| "str_contains p (c # s) = (starts_with p (c # s) \<or> str_contains p s)"

fun split_once :: "rstr \<Rightarrow> rstr \<Rightarrow> (rstr \<times> rstr) option" where
  "split_once p [] = (if p = [] then Some ([], []) else None)"
| "split_once p (c # s) =
     (if starts_with p (c # s) then Some ([], drop (length p) (c # s))
      else map_option (\<lambda>(a, b). (c # a, b)) (split_once p s))"

fun split_char :: "rchar \<Rightarrow> rstr \<Rightarrow> rstr list" where
  "split_char d [] = [[]]"
| "split_char d (c # s) =
     (if c = d then [] # split_char d s
      else case split_char d s of [] \<Rightarrow> [[c]] | x # xs \<Rightarrow> (c # x) # xs)"

section \<open>Values\<close>

definition MAX_SOURCE_REFERENCE_BYTES :: nat where "MAX_SOURCE_REFERENCE_BYTES = 1024"
definition MAX_IMMUTABLE_REVISION_BYTES :: nat where "MAX_IMMUTABLE_REVISION_BYTES = 512"
definition MAX_REPOSITORY_LOCATOR_BYTES :: nat where "MAX_REPOSITORY_LOCATOR_BYTES = 2048"

datatype ImmutableRevisionError = ImmutableRevisionError
datatype SourceReferenceError = SourceReferenceError
datatype RepositoryLocatorError = RepositoryLocatorError

definition immutable_revision_new :: "rstr \<Rightarrow> ImmutableRevisionError + rstr" where
  "immutable_revision_new v =
     (if v = [] \<or> MAX_IMMUTABLE_REVISION_BYTES < str_len v \<or> trim v \<noteq> v \<or> list_ex is_control v
      then Inl ImmutableRevisionError else Inr v)"

definition source_reference_new :: "rstr \<Rightarrow> SourceReferenceError + rstr" where
  "source_reference_new v =
     (if v = [] \<or> MAX_SOURCE_REFERENCE_BYTES < str_len v \<or> trim v \<noteq> v \<or> list_ex is_control v
      then Inl SourceReferenceError else Inr v)"

text \<open>The two bytes tested are the first two characters, since a byte below 128 is a character.\<close>

definition has_windows_drive_prefix :: "rstr \<Rightarrow> bool" where
  "has_windows_drive_prefix v = (case v of c # d # _ \<Rightarrow> is_ascii_alphabetic c \<and> d = 58 | _ \<Rightarrow> False)"

definition valid_repository_locator :: "rstr \<Rightarrow> bool" where
  "valid_repository_locator v =
     (if v = [] \<or> MAX_REPOSITORY_LOCATOR_BYTES < str_len v \<or> trim v \<noteq> v \<or> list_ex is_control v
         \<or> (case v of c # _ \<Rightarrow> c = 47 \<or> c = 92 | [] \<Rightarrow> False)
         \<or> (case v of c # _ \<Rightarrow> c = 126 | [] \<Rightarrow> False)
         \<or> has_windows_drive_prefix v
         \<or> list_ex (\<lambda>c. c = 92 \<or> c = 63 \<or> c = 35 \<or> c = 32) v
         \<or> list_ex (\<lambda>c. c = 64) v
         \<or> str_contains (lit ''%2e'') (to_ascii_lowercase v)
         \<or> to_ascii_lowercase (take 5 v) = lit ''file:''
         \<or> list_ex (\<lambda>s. s = lit ''.'' \<or> s = lit ''..'') (split_char 47 v)
      then False
      else case split_once (lit ''://'') v of
        None \<Rightarrow> True
      | Some (scheme, remainder) \<Rightarrow>
          (case scheme of c # _ \<Rightarrow> is_ascii_alphabetic c | [] \<Rightarrow> False) \<and>
          list_all (\<lambda>c. is_ascii_alphanumeric c \<or> c = 43 \<or> c = 45 \<or> c = 46) scheme \<and>
          (case split_once (lit ''/'') remainder of
             None \<Rightarrow> remainder \<noteq> []
           | Some (authority, _) \<Rightarrow> authority \<noteq> []))"

definition repository_locator_new :: "rstr \<Rightarrow> RepositoryLocatorError + rstr" where
  "repository_locator_new v =
     (if \<not> valid_repository_locator v then Inl RepositoryLocatorError else Inr v)"

datatype RepositorySourceSelection =
    DefaultReference
  | Reference rstr
  | ExactRevision rstr

datatype BuildSourceMode = SourceFreeV1

datatype BuildSourceSelection =
    BSS_Repository RepositorySourceSelection
  | BSS_SourceFree BuildSourceMode

definition source_selection_repository :: "BuildSourceSelection \<Rightarrow> RepositorySourceSelection option" where
  "source_selection_repository s = (case s of BSS_Repository r \<Rightarrow> Some r | BSS_SourceFree _ \<Rightarrow> None)"

definition source_selection_mode :: "BuildSourceSelection \<Rightarrow> BuildSourceMode option" where
  "source_selection_mode s = (case s of BSS_Repository _ \<Rightarrow> None | BSS_SourceFree m \<Rightarrow> Some m)"

section \<open>Facts on splitting\<close>

lemma split_char_join: "concat (map (\<lambda>x. d # x) (split_char d s)) = d # s"
  by (induction d s rule: split_char.induct) (auto split: list.splits)

lemma split_char_free: "x \<in> set (split_char d s) \<Longrightarrow> d \<notin> set x"
  by (induction d s arbitrary: x rule: split_char.induct) (auto split: list.splits if_splits)

lemma split_once_Some: "split_once p s = Some (a, b) \<Longrightarrow> s = a @ p @ b"
proof (induction p s arbitrary: a b rule: split_once.induct)
  case (2 p c s)
  show ?case
  proof (cases "starts_with p (c # s)")
    case True
    then have "p @ drop (length p) (c # s) = c # s" unfolding starts_with_def by (metis append_take_drop_id)
    with True 2(2) show ?thesis by auto
  next
    case False
    with 2(2) obtain a' where "split_once p s = Some (a', b)" "a = c # a'" by auto
    with 2(1) [OF False] show ?thesis by auto
  qed
qed (auto split: if_splits)

lemma split_once_None_iff: "split_once p s = None \<longleftrightarrow> \<not> str_contains p s"
  by (induction p s rule: split_once.induct) auto

lemma split_once_char_None: "split_once [d] s = None \<longleftrightarrow> d \<notin> set s"
  by (induction "[d]" s rule: split_once.induct) (auto simp: starts_with_def)

lemma split_once_char_first: "split_once [d] s = Some (a, b) \<Longrightarrow> d \<notin> set a"
  by (induction "[d]" s arbitrary: a rule: split_once.induct) (auto simp: starts_with_def split: if_splits)

text \<open>What the locator check excludes of a value, character by character and segment by segment.\<close>

definition locator_safe :: "rstr \<Rightarrow> bool" where
  "locator_safe v \<longleftrightarrow>
     v \<noteq> [] \<and> str_len v \<le> 2048 \<and> trim v = v \<and>
     (\<forall>c\<in>set v. \<not> is_control c \<and> c \<notin> {32, 35, 63, 64, 92}) \<and>
     hd v \<notin> {47, 92, 126} \<and> \<not> has_windows_drive_prefix v \<and>
     to_ascii_lowercase (take 5 v) \<noteq> lit ''file:'' \<and>
     \<not> str_contains (lit ''%2e'') (to_ascii_lowercase v) \<and>
     lit ''.'' \<notin> set (split_char 47 v) \<and> lit ''..'' \<notin> set (split_char 47 v)"

lemma valid_locator_safe: "valid_repository_locator v \<Longrightarrow> locator_safe v"
  unfolding valid_repository_locator_def locator_safe_def MAX_REPOSITORY_LOCATOR_BYTES_def
  by (cases v) (auto simp: list_ex_iff split: if_splits)

section \<open>Properties\<close>

text \<open>Repository locators are remote and free of credentials: an accepted locator is bounded
  visible text without \<open>@\<close>, query, fragment, backslash or blank, does not name a local path, has no
  dot segment even in percent-encoded form, and, if it has a scheme, splits into a scheme that
  starts with a letter, a non-empty authority without slash, and an optional path.\<close>

theorem repository_locator_remote:
  assumes "repository_locator_new v = Inr w"
  shows "w = v \<and> locator_safe v \<and>
    (str_contains (lit ''://'') v \<longrightarrow>
      (\<exists>scheme authority path. v = scheme @ lit ''://'' @ authority @ path \<and>
         scheme \<noteq> [] \<and> is_ascii_alphabetic (hd scheme) \<and> authority \<noteq> [] \<and> 47 \<notin> set authority \<and>
         (path = [] \<or> hd path = 47)))"
proof -
  from assms have valid: "valid_repository_locator v" and w: "w = v"
    by (auto simp: repository_locator_new_def split: if_splits)
  have "\<exists>scheme authority path. v = scheme @ lit ''://'' @ authority @ path \<and>
         scheme \<noteq> [] \<and> is_ascii_alphabetic (hd scheme) \<and> authority \<noteq> [] \<and> 47 \<notin> set authority \<and>
         (path = [] \<or> hd path = 47)" if "str_contains (lit ''://'') v"
  proof -
    from that obtain scheme remainder where so: "split_once (lit ''://'') v = Some (scheme, remainder)"
      using split_once_None_iff [of "lit ''://''" v] by auto
    with valid have scheme: "scheme \<noteq> []" "is_ascii_alphabetic (hd scheme)"
      and rem: "case split_once (lit ''/'') remainder of None \<Rightarrow> remainder \<noteq> [] | Some (a, _) \<Rightarrow> a \<noteq> []"
      unfolding valid_repository_locator_def by (auto split: if_splits list.splits)
    have v: "v = scheme @ lit ''://'' @ remainder" using so by (rule split_once_Some)
    have slash: "lit ''/'' = [47]" by (simp add: lit_def)
    show ?thesis
    proof (cases "split_once (lit ''/'') remainder")
      case None
      with rem have "remainder \<noteq> []" "47 \<notin> set remainder" by (auto simp: slash split_once_char_None)
      with v scheme have "v = scheme @ lit ''://'' @ remainder @ [] \<and> scheme \<noteq> [] \<and>
          is_ascii_alphabetic (hd scheme) \<and> remainder \<noteq> [] \<and> 47 \<notin> set remainder" by simp
      then show ?thesis by blast
    next
      case (Some ab)
      then obtain a b where ab: "split_once [47] remainder = Some (a, b)" by (cases ab) (auto simp: slash)
      then have "remainder = a @ 47 # b" "47 \<notin> set a"
        using split_once_Some [OF ab] split_once_char_first [OF ab] by auto
      moreover have "a \<noteq> []" using rem ab by (simp add: slash)
      ultimately have "v = scheme @ lit ''://'' @ a @ (47 # b) \<and> scheme \<noteq> [] \<and>
          is_ascii_alphabetic (hd scheme) \<and> a \<noteq> [] \<and> 47 \<notin> set a \<and> hd (47 # b) = 47"
        using v scheme by simp
      then show ?thesis by blast
    qed
  qed
  with w valid_locator_safe [OF valid] show ?thesis by blast
qed

theorem repository_locator_remote_witness:
  "locator_safe (lit ''https://git.example/team/app.git'')"
proof -
  have "repository_locator_new (lit ''https://git.example/team/app.git'') =
      Inr (lit ''https://git.example/team/app.git'')" by code_simp
  from repository_locator_remote [OF this] show ?thesis by blast
qed

end
