(* ===== verification/Execution_Contract.thy ===== *)
theory Execution_Contract
  imports Source_Values "HOL-Library.Code_Target_Nat"
begin

text \<open>
  The provider-neutral execution contract of \<^verbatim>\<open>shared/octacity-protocol\<close>: platforms and runtime
  documents of \<^verbatim>\<open>lib.rs\<close>, and \<^verbatim>\<open>execution.rs\<close> with its contract negotiation, targets, advertised
  capabilities and their validation. The textual error messages of the source are constructors.
\<close>

section \<open>Platforms and runtime documents\<close>

datatype RuntimeMode = RM_Native | RM_Oci
datatype PlatformOs = OS_Linux | OS_Windows | OS_Macos
datatype PlatformArchitecture = Arch_Amd64 | Arch_Arm64

record PlatformSpec =
  os :: PlatformOs
  architecture :: PlatformArchitecture

datatype OciIsolation = Iso_Process | Iso_Hypervisor

datatype RuntimeTarget =
    RT_Native PlatformSpec
  | RT_Oci PlatformSpec OciIsolation rstr

datatype NetworkPolicy = Unrestricted | Disabled | Restricted "rstr list"

record RuntimeSpec =
  rs_target :: RuntimeTarget
  rs_cpu_millis :: u32
  rs_memory_bytes :: u64
  rs_writable_disk_bytes :: u64
  rs_timeout_seconds :: u64
  rs_network :: NetworkPolicy
  rs_workload_identity_profile :: "rstr option"

datatype ContractError =
    CErr_Identity
  | CErr_Range
  | CErr_TargetGuarantees
  | CErr_HostTarget
  | CErr_CrossPlatformTarget
  | CErr_GuestImageMissing
  | CErr_RuntimeLimits
  | CErr_EmptyText
  | CErr_AllowedHosts
  | CErr_CapabilityGuarantees
  | CErr_HostCapability
  | CErr_IsolationCapability
  | CErr_VirtualizationCapability
  | CErr_MacosGuest
  | CErr_MutableReference
  | CErr_Repository
  | CErr_Digest

definition non_empty :: "rstr \<Rightarrow> ContractError + unit" where
  "non_empty v = (if trim v = [] then Inl CErr_EmptyText else Inr ())"

definition is_lower_hex :: "rchar \<Rightarrow> bool" where
  "is_lower_hex c \<longleftrightarrow> is_ascii_digit c \<or> 97 \<le> c \<and> c \<le> 102"

definition sha256_text :: "rstr \<Rightarrow> ContractError + unit" where
  "sha256_text v = (if str_len v = 64 \<and> list_all is_lower_hex v then Inr () else Inl CErr_Digest)"

text \<open>\<^verbatim>\<open>rsplit_once\<close> splits at the last occurrence.\<close>

definition rsplit_once :: "rstr \<Rightarrow> rstr \<Rightarrow> (rstr \<times> rstr) option" where
  "rsplit_once p s = map_option (\<lambda>(a, b). (rev b, rev a)) (split_once (rev p) (rev s))"

definition immutable_oci_reference :: "rstr \<Rightarrow> ContractError + unit" where
  "immutable_oci_reference v =
     (case rsplit_once (lit ''@sha256:'') v of
        None \<Rightarrow> Inl CErr_MutableReference
      | Some (repository, digest) \<Rightarrow>
          if repository = [] \<or> list_ex (\<lambda>c. c = 64) repository \<or> str_contains (lit ''://'') repository
             \<or> list_ex is_whitespace repository
          then Inl CErr_Repository
          else sha256_text digest)"

definition network_ok :: "NetworkPolicy \<Rightarrow> bool" where
  "network_ok n = (case n of
     Restricted hosts \<Rightarrow> \<not> (hosts = [] \<or> list_ex (\<lambda>h. trim h = []) hosts) | _ \<Rightarrow> True)"

definition runtime_spec_mode :: "RuntimeSpec \<Rightarrow> RuntimeMode" where
  "runtime_spec_mode r = (case rs_target r of RT_Native _ \<Rightarrow> RM_Native | RT_Oci _ _ _ \<Rightarrow> RM_Oci)"

definition runtime_spec_platform :: "RuntimeSpec \<Rightarrow> PlatformSpec" where
  "runtime_spec_platform r = (case rs_target r of RT_Native p \<Rightarrow> p | RT_Oci p _ _ \<Rightarrow> p)"

definition runtime_spec_validate :: "RuntimeSpec \<Rightarrow> ContractError + unit" where
  "runtime_spec_validate r =
     (if rs_cpu_millis r = 0 \<or> rs_memory_bytes r = 0 \<or> rs_writable_disk_bytes r = 0 \<or> rs_timeout_seconds r = 0
      then Inl CErr_RuntimeLimits
      else and_then (case rs_workload_identity_profile r of Some p \<Rightarrow> non_empty p | None \<Rightarrow> Inr ()) (\<lambda>_.
        if \<not> network_ok (rs_network r) then Inl CErr_AllowedHosts
        else case rs_target r of
          RT_Native _ \<Rightarrow> Inr ()
        | RT_Oci platform _ img \<Rightarrow>
            if os platform = OS_Macos then Inl CErr_MacosGuest else immutable_oci_reference img))"

section \<open>Contract revisions\<close>

definition EXECUTION_CONTRACT_V1 :: u16 where "EXECUTION_CONTRACT_V1 = 1"
definition EXECUTION_CONTRACT_V2 :: u16 where "EXECUTION_CONTRACT_V2 = 2"
definition EXECUTION_CONTRACT_V3 :: u16 where "EXECUTION_CONTRACT_V3 = 3"
definition EXECUTION_CONTRACT_V4 :: u16 where "EXECUTION_CONTRACT_V4 = 4"
definition MAX_EXECUTION_IDENTITY_BYTES :: nat where "MAX_EXECUTION_IDENTITY_BYTES = 256"

record ExecutionContractRange =
  range_min :: u16
  range_max :: u16

definition SUPPORTED_EXECUTION_CONTRACTS :: ExecutionContractRange where
  "SUPPORTED_EXECUTION_CONTRACTS = \<lparr>range_min = EXECUTION_CONTRACT_V1, range_max = EXECUTION_CONTRACT_V4\<rparr>"

definition validate_execution_identity :: "rstr \<Rightarrow> ContractError + unit" where
  "validate_execution_identity v =
     (if v = [] \<or> MAX_EXECUTION_IDENTITY_BYTES < str_len v \<or> trim v \<noteq> v \<or> list_ex is_control v
      then Inl CErr_Identity else Inr ())"

text \<open>\<^verbatim>\<open>execution_identity!\<close>: the constructor of provider and environment identities.\<close>

definition execution_identity_new :: "rstr \<Rightarrow> ContractError + rstr" where
  "execution_identity_new v = and_then (validate_execution_identity v) (\<lambda>_. Inr v)"

definition contract_negotiate :: "ExecutionContractRange \<Rightarrow> ExecutionContractRange \<Rightarrow> u16 option" where
  "contract_negotiate a peer =
     (let minimum = (if range_min peer < range_min a then range_min a else range_min peer);
          maximum = (if range_max a < range_max peer then range_max a else range_max peer)
      in if minimum = 0 \<or> maximum < minimum then None else Some maximum)"

definition contract_contains :: "ExecutionContractRange \<Rightarrow> u16 \<Rightarrow> bool" where
  "contract_contains r version \<longleftrightarrow> range_min r \<le> version \<and> version \<le> range_max r"

definition contract_validate :: "ExecutionContractRange \<Rightarrow> ContractError + unit" where
  "contract_validate r = (if range_min r = 0 \<or> range_max r < range_min r then Inl CErr_Range else Inr ())"

section \<open>Targets and capabilities\<close>

datatype ExecutionMode = EM_Host | EM_Isolation | EM_Virtualization

datatype ExecutionGuarantee =
  FilesystemIsolation | ProcessIsolation | NetworkIsolation | ResourceIsolation | HardwareVirtualization

definition guarantees_for :: "ExecutionMode \<Rightarrow> ExecutionGuarantee set" where
  "guarantees_for mode = (case mode of
     EM_Host \<Rightarrow> {}
   | EM_Isolation \<Rightarrow> {FilesystemIsolation, ProcessIsolation, NetworkIsolation, ResourceIsolation}
   | EM_Virtualization \<Rightarrow> {FilesystemIsolation, ProcessIsolation, NetworkIsolation, ResourceIsolation,
       HardwareVirtualization})"

record ExecutionTargetV2 =
  tgt_mode :: ExecutionMode
  tgt_host_platform :: PlatformSpec
  tgt_target_platform :: PlatformSpec
  tgt_required_guarantees :: "ExecutionGuarantee set"
  tgt_immutable_image :: "rstr option"

definition target_validate :: "ExecutionTargetV2 \<Rightarrow> ContractError + unit" where
  "target_validate t =
     (if tgt_required_guarantees t \<noteq> guarantees_for (tgt_mode t) then Inl CErr_TargetGuarantees
      else and_then
        (case tgt_mode t of
           EM_Host \<Rightarrow> ensure (\<not> (tgt_host_platform t \<noteq> tgt_target_platform t \<or> tgt_immutable_image t \<noteq> None)) CErr_HostTarget
         | EM_Isolation \<Rightarrow>
             ensure (\<not> (tgt_host_platform t \<noteq> tgt_target_platform t \<and> tgt_immutable_image t = None)) CErr_CrossPlatformTarget
         | EM_Virtualization \<Rightarrow> ensure (tgt_immutable_image t \<noteq> None) CErr_GuestImageMissing) (\<lambda>_.
        case tgt_immutable_image t of
          Some img \<Rightarrow> immutable_oci_reference img
        | None \<Rightarrow> Inr ()))"

record RuntimeSpecV2 =
  rs2_target :: ExecutionTargetV2
  rs2_cpu_millis :: u32
  rs2_memory_bytes :: u64
  rs2_writable_disk_bytes :: u64
  rs2_timeout_seconds :: u64
  rs2_network :: NetworkPolicy
  rs2_workload_identity_profile :: "rstr option"

definition runtime_spec_v2_validate :: "RuntimeSpecV2 \<Rightarrow> ContractError + unit" where
  "runtime_spec_v2_validate r =
     and_then (target_validate (rs2_target r)) (\<lambda>_.
     if rs2_cpu_millis r = 0 \<or> rs2_memory_bytes r = 0 \<or> rs2_writable_disk_bytes r = 0 \<or> rs2_timeout_seconds r = 0
     then Inl CErr_RuntimeLimits
     else and_then (case rs2_workload_identity_profile r of Some p \<Rightarrow> non_empty p | None \<Rightarrow> Inr ()) (\<lambda>_.
       if \<not> network_ok (rs2_network r) then Inl CErr_AllowedHosts else Inr ()))"

record ExecutionCapabilityV2 =
  cap_provider :: rstr
  cap_mode :: ExecutionMode
  cap_host_platform :: PlatformSpec
  cap_target_platform :: PlatformSpec
  cap_guarantees :: "ExecutionGuarantee set"
  cap_immutable_images :: bool

definition capability_validate :: "ExecutionCapabilityV2 \<Rightarrow> ContractError + unit" where
  "capability_validate c =
     (if cap_guarantees c \<noteq> guarantees_for (cap_mode c) then Inl CErr_CapabilityGuarantees
      else case cap_mode c of
        EM_Host \<Rightarrow>
          if cap_host_platform c \<noteq> cap_target_platform c \<or> cap_immutable_images c
          then Inl CErr_HostCapability else Inr ()
      | EM_Isolation \<Rightarrow>
          if cap_host_platform c \<noteq> cap_target_platform c \<and> \<not> cap_immutable_images c
          then Inl CErr_IsolationCapability else Inr ()
      | EM_Virtualization \<Rightarrow>
          if \<not> cap_immutable_images c then Inl CErr_VirtualizationCapability else Inr ())"

definition capability_satisfies :: "ExecutionCapabilityV2 \<Rightarrow> ExecutionTargetV2 \<Rightarrow> bool" where
  "capability_satisfies c t \<longleftrightarrow>
     is_ok (capability_validate c) \<and> is_ok (target_validate t) \<and> cap_mode c = tgt_mode t \<and>
     cap_host_platform c = tgt_host_platform t \<and> cap_target_platform c = tgt_target_platform t \<and>
     tgt_required_guarantees t \<subseteq> cap_guarantees c \<and>
     (tgt_immutable_image t = None \<or> cap_immutable_images c)"

record ExecutionEvidenceV2 =
  ev_provider :: rstr
  ev_target :: ExecutionTargetV2

definition evidence_validate :: "ExecutionEvidenceV2 \<Rightarrow> ContractError + unit" where
  "evidence_validate e = target_validate (ev_target e)"

record ExecutionCacheIdentityV2 =
  ci_execution :: ExecutionEvidenceV2
  ci_environment :: rstr

definition cache_identity_validate :: "ExecutionCacheIdentityV2 \<Rightarrow> ContractError + unit" where
  "cache_identity_validate c = evidence_validate (ci_execution c)"

section \<open>Facts\<close>

lemma rsplit_once_Some: "rsplit_once p s = Some (a, b) \<Longrightarrow> s = a @ p @ b"
proof -
  assume "rsplit_once p s = Some (a, b)"
  then have "split_once (rev p) (rev s) = Some (rev b, rev a)" by (auto simp: rsplit_once_def)
  from split_once_Some [OF this] have "rev (rev s) = rev (rev b @ rev p @ rev a)" by simp
  then show ?thesis by simp
qed

lemma immutable_oci_reference_digest:
  assumes "immutable_oci_reference v = Inr u"
  shows "\<exists>repository digest. v = repository @ lit ''@sha256:'' @ digest \<and> repository \<noteq> [] \<and>
    64 \<notin> set repository \<and> (\<forall>c\<in>set repository. \<not> is_whitespace c) \<and>
    length digest = 64 \<and> (\<forall>c\<in>set digest. is_lower_hex c)"
proof -
  from assms obtain r d where so: "rsplit_once (lit ''@sha256:'') v = Some (r, d)"
    and r: "r \<noteq> []" "\<not> list_ex (\<lambda>c. c = 64) r" "\<not> list_ex is_whitespace r"
    and d: "sha256_text d = Inr u"
    by (auto simp: immutable_oci_reference_def split: option.splits if_splits)
  have hex: "\<forall>c\<in>set d. is_lower_hex c" and "str_len d = 64"
    using d by (auto simp: sha256_text_def list_all_iff split: if_splits)
  moreover from hex have "\<forall>c\<in>set d. c < 128" by (auto simp: is_lower_hex_def is_ascii_digit_def)
  ultimately have "length d = 64" using str_len_ascii [of d] by simp
  with rsplit_once_Some [OF so] r hex show ?thesis by (auto simp: list_ex_iff)
qed

lemma greatest_between:
  "lo \<le> v \<and> v \<le> hi \<and> \<not> (\<exists>w. v < w \<and> lo \<le> w \<and> w \<le> hi) \<longleftrightarrow> lo \<le> hi \<and> v = hi"
  for lo v hi :: "'a::linorder"
proof
  assume v: "lo \<le> v \<and> v \<le> hi \<and> \<not> (\<exists>w. v < w \<and> lo \<le> w \<and> w \<le> hi)"
  then have le: "lo \<le> hi" by (meson order.trans)
  with v have "\<not> v < hi" by blast
  with v le show "lo \<le> hi \<and> v = hi" by simp
qed (auto simp: not_le)

section \<open>Properties\<close>

text \<open>Contract negotiation: two peers agree on a revision exactly when their ranges share one
  (revision 0 is never agreed on by peers whose ranges both start there); the result is the newest
  shared revision and does not depend on who asks.\<close>

theorem contract_negotiate_newest:
  "(contract_negotiate a b = Some v \<longleftrightarrow>
      \<not> (range_min a = 0 \<and> range_min b = 0) \<and> contract_contains a v \<and> contract_contains b v \<and>
      \<not> (\<exists>w. v < w \<and> contract_contains a w \<and> contract_contains b w)) \<and>
   contract_negotiate a b = contract_negotiate b a"
proof -
  have eq: "contract_negotiate x y = (if max (range_min x) (range_min y) = 0 \<or>
      min (range_max x) (range_max y) < max (range_min x) (range_min y) then None
      else Some (min (range_max x) (range_max y)))" for x y
  proof -
    have "(if v < u then u else v) = max u v" "(if u < v then u else v) = min u v" for u v :: u16
      by (auto simp: max_def min_def)
    then show ?thesis unfolding contract_negotiate_def Let_def by presburger
  qed
  define lo where "lo = max (range_min a) (range_min b)"
  define hi where "hi = min (range_max a) (range_max b)"
  have ab: "contract_negotiate a b = (if lo = 0 \<or> hi < lo then None else Some hi)"
    unfolding eq lo_def hi_def ..
  have both: "contract_contains a w \<and> contract_contains b w \<longleftrightarrow> lo \<le> w \<and> w \<le> hi" for w
    by (auto simp: contract_contains_def lo_def hi_def)
  have zero: "range_min a = 0 \<and> range_min b = 0 \<longleftrightarrow> lo = 0" by (auto simp: lo_def max_def)
  have "contract_negotiate a b = Some v \<longleftrightarrow> lo \<noteq> 0 \<and> lo \<le> hi \<and> v = hi" unfolding ab by auto
  also have "\<dots> \<longleftrightarrow> \<not> (range_min a = 0 \<and> range_min b = 0) \<and> contract_contains a v \<and> contract_contains b v \<and>
      \<not> (\<exists>w. v < w \<and> contract_contains a w \<and> contract_contains b w)"
    unfolding zero both greatest_between [symmetric] using both [of v] by blast
  finally show ?thesis unfolding eq by (simp add: max.commute min.commute)
qed

text \<open>What a satisfied target guarantees: a provider route that satisfies a signed target runs
  it in the requested mode on the requested platforms with exactly the guarantees of that mode;
  virtualization always brings the hardware boundary and an image, and every image in play is
  pinned by a SHA-256 digest.\<close>

theorem satisfied_target_guarantees:
  assumes "capability_satisfies c t"
  shows "cap_mode c = tgt_mode t \<and> cap_host_platform c = tgt_host_platform t \<and>
    cap_target_platform c = tgt_target_platform t \<and>
    cap_guarantees c = guarantees_for (tgt_mode t) \<and> tgt_required_guarantees t = guarantees_for (tgt_mode t) \<and>
    (tgt_mode t = EM_Host \<longrightarrow> tgt_immutable_image t = None \<and> cap_host_platform c = cap_target_platform c) \<and>
    (tgt_mode t = EM_Virtualization \<longrightarrow>
       HardwareVirtualization \<in> cap_guarantees c \<and> (\<exists>i. tgt_immutable_image t = Some i)) \<and>
    (\<forall>i. tgt_immutable_image t = Some i \<longrightarrow> cap_immutable_images c \<and>
       (\<exists>repository digest. i = repository @ lit ''@sha256:'' @ digest \<and> repository \<noteq> [] \<and>
          64 \<notin> set repository \<and> length digest = 64 \<and> (\<forall>x\<in>set digest. is_lower_hex x)))"
proof -
  from assms have s: "capability_validate c = Inr ()" "target_validate t = Inr ()" "cap_mode c = tgt_mode t"
    "cap_host_platform c = tgt_host_platform t" "cap_target_platform c = tgt_target_platform t"
    "tgt_immutable_image t = None \<or> cap_immutable_images c"
    by (auto simp: capability_satisfies_def is_ok_iff)
  have g: "cap_guarantees c = guarantees_for (tgt_mode t)" "tgt_required_guarantees t = guarantees_for (tgt_mode t)"
    using s by (auto simp: capability_validate_def target_validate_def split: if_splits)
  have host: "tgt_immutable_image t = None \<and> cap_host_platform c = cap_target_platform c" if "tgt_mode t = EM_Host"
    using s that by (auto simp: target_validate_def res_simps split: if_splits)
  have virt: "\<exists>i. tgt_immutable_image t = Some i" if "tgt_mode t = EM_Virtualization"
    using s(2) that by (auto simp: target_validate_def res_simps split: if_splits)
  have "immutable_oci_reference i = Inr ()" if "tgt_immutable_image t = Some i" for i
    using s(2) that by (auto simp: target_validate_def res_simps split: if_splits)
  from immutable_oci_reference_digest [OF this]
  have image: "cap_immutable_images c \<and>
      (\<exists>repository digest. i = repository @ lit ''@sha256:'' @ digest \<and> repository \<noteq> [] \<and>
          64 \<notin> set repository \<and> length digest = 64 \<and> (\<forall>x\<in>set digest. is_lower_hex x))"
    if "tgt_immutable_image t = Some i" for i
    using s(6) that by fastforce
  have "tgt_mode t = EM_Virtualization \<Longrightarrow> HardwareVirtualization \<in> cap_guarantees c"
    by (simp add: g(1) guarantees_for_def)
  with s(3-5) g host virt image show ?thesis by simp
qed

text \<open>A Linux route and target with a pinned guest image.\<close>

definition sample_platform :: PlatformSpec where
  "sample_platform = \<lparr>os = OS_Linux, architecture = Arch_Amd64\<rparr>"

definition sample_target :: ExecutionTargetV2 where
  "sample_target = \<lparr>tgt_mode = EM_Virtualization, tgt_host_platform = sample_platform,
     tgt_target_platform = sample_platform, tgt_required_guarantees = guarantees_for EM_Virtualization,
     tgt_immutable_image = Some (lit ''registry/guest@sha256:'' @ replicate 64 97)\<rparr>"

definition sample_capability :: ExecutionCapabilityV2 where
  "sample_capability = \<lparr>cap_provider = lit ''kvm'', cap_mode = EM_Virtualization,
     cap_host_platform = sample_platform, cap_target_platform = sample_platform,
     cap_guarantees = guarantees_for EM_Virtualization, cap_immutable_images = True\<rparr>"

theorem satisfied_target_guarantees_witness:
  "capability_satisfies sample_capability sample_target \<and>
   HardwareVirtualization \<in> cap_guarantees sample_capability"
proof -
  have sat: "capability_satisfies sample_capability sample_target" by code_simp
  have "tgt_mode sample_target = EM_Virtualization" by (simp add: sample_target_def)
  with satisfied_target_guarantees [OF sat] sat show ?thesis by blast
qed

end
