(* ===== verification/Scheduler.thy ===== *)
theory Scheduler
  imports Execution_Contract
begin

text \<open>
  Lease, Pool and placement decisions of \<^verbatim>\<open>server/core/octacity-server-scheduler\<close>, with the inventory
  and snapshot documents of \<^verbatim>\<open>shared/octacity-protocol/src/coordinator/mod.rs\<close> and the placement view
  of a Job template of \<^verbatim>\<open>server/core/octacity-server-job/src/spec/model.rs\<close>. The inventory documents
  are complete; of a Job template only what placement reads is kept, in the two view records. The
  action-key format of the external cache protocol is an argument.
\<close>

section \<open>Leases\<close>

datatype LeaseState =
    Lease_Active | Lease_CancellationRequested | Lease_DrainRequested | Lease_Released
  | Lease_Expired | Lease_Fenced | Lease_Completed

datatype LeaseEvent =
    LE_Renew | LE_RequestCancellation | LE_RequestDrain | LE_Release | LE_Expire | LE_Fence | LE_Complete

definition lease_is_open :: "LeaseState \<Rightarrow> bool" where
  "lease_is_open s = (case s of
     Lease_Active \<Rightarrow> True | Lease_CancellationRequested \<Rightarrow> True | Lease_DrainRequested \<Rightarrow> True | _ \<Rightarrow> False)"

definition lease_transition :: "LeaseState \<Rightarrow> LeaseEvent \<Rightarrow> (LeaseState, LeaseEvent) TransitionError + LeaseState" where
  "lease_transition s e =
     (case e of
        LE_Renew \<Rightarrow> if lease_is_open s then Inr s else Inl (TransitionError EK_Lease s e)
      | LE_RequestCancellation \<Rightarrow>
          if s = Lease_Active \<or> s = Lease_DrainRequested then Inr Lease_CancellationRequested
          else Inl (TransitionError EK_Lease s e)
      | LE_RequestDrain \<Rightarrow> if s = Lease_Active then Inr Lease_DrainRequested else Inl (TransitionError EK_Lease s e)
      | LE_Release \<Rightarrow> if lease_is_open s then Inr Lease_Released else Inl (TransitionError EK_Lease s e)
      | LE_Expire \<Rightarrow> if lease_is_open s then Inr Lease_Expired else Inl (TransitionError EK_Lease s e)
      | LE_Fence \<Rightarrow> if lease_is_open s then Inr Lease_Fenced else Inl (TransitionError EK_Lease s e)
      | LE_Complete \<Rightarrow> if lease_is_open s then Inr Lease_Completed else Inl (TransitionError EK_Lease s e))"

definition lease_is_terminal :: "LeaseState \<Rightarrow> bool" where
  "lease_is_terminal s = (case s of
     Lease_Released \<Rightarrow> True | Lease_Expired \<Rightarrow> True | Lease_Fenced \<Rightarrow> True | Lease_Completed \<Rightarrow> True | _ \<Rightarrow> False)"

section \<open>Pools\<close>

datatype PoolDrainState = Pool_Accepting | Pool_GracefulDrain | Pool_ForcedDrain | Pool_Drained

datatype PoolDrainEvent = PD_BeginGraceful | PD_BeginForced | PD_LeasesCleared | PD_Resume

datatype PoolDrainTransitionError = PoolDrainTransitionError PoolDrainState PoolDrainState bool

fun pool_transition ::
  "PoolDrainState \<Rightarrow> PoolDrainEvent \<Rightarrow> (PoolDrainState, PoolDrainEvent) TransitionError + PoolDrainState"
where
  "pool_transition Pool_Accepting PD_BeginGraceful = Inr Pool_GracefulDrain"
| "pool_transition Pool_Accepting PD_BeginForced = Inr Pool_ForcedDrain"
| "pool_transition Pool_GracefulDrain PD_BeginForced = Inr Pool_ForcedDrain"
| "pool_transition Pool_GracefulDrain PD_LeasesCleared = Inr Pool_Drained"
| "pool_transition Pool_ForcedDrain PD_LeasesCleared = Inr Pool_Drained"
| "pool_transition Pool_Drained PD_Resume = Inr Pool_Accepting"
| "pool_transition s e = Inl (TransitionError EK_Pool s e)"

fun pool_requested_event :: "PoolDrainState \<Rightarrow> PoolDrainState \<Rightarrow> bool \<Rightarrow> PoolDrainEvent option" where
  "pool_requested_event Pool_Accepting Pool_GracefulDrain _ = Some PD_BeginGraceful"
| "pool_requested_event Pool_Accepting Pool_ForcedDrain _ = Some PD_BeginForced"
| "pool_requested_event Pool_GracefulDrain Pool_ForcedDrain _ = Some PD_BeginForced"
| "pool_requested_event Pool_GracefulDrain Pool_Drained False = Some PD_LeasesCleared"
| "pool_requested_event Pool_ForcedDrain Pool_Drained False = Some PD_LeasesCleared"
| "pool_requested_event Pool_Drained Pool_Accepting _ = Some PD_Resume"
| "pool_requested_event _ _ _ = None"

definition pool_transition_to ::
  "PoolDrainState \<Rightarrow> PoolDrainState \<Rightarrow> bool \<Rightarrow> PoolDrainTransitionError + PoolDrainState"
where
  "pool_transition_to s requested active_leases =
     (if s = requested then Inr s
      else and_then (ok_or (PoolDrainTransitionError s requested active_leases)
          (pool_requested_event s requested active_leases)) (\<lambda>event.
        map_err (\<lambda>_. PoolDrainTransitionError s requested active_leases) (pool_transition s event)))"

definition pool_accepts_jobs :: "PoolDrainState \<Rightarrow> bool" where
  "pool_accepts_jobs s \<longleftrightarrow> s = Pool_Accepting"

section \<open>Inventory documents\<close>

datatype FactoryEnforcementCapabilityV3 =
    PluginIdentity | ExecutableIdentity | ToolIdentity | CommandArguments | DescendantProcesses
  | FilesystemPaths | MountModes | NetworkHosts | SecretProfiles | WorkloadIdentityProfiles
  | Cpu | Memory | Disk | ProcessCount | ElapsedTime | Outputs | ProtectedInputIntegrity
  | ReadOnlyProtectedInputs | WorkspaceSeparation | ManagedOctaExecution | SourceVisibilityV1

text \<open>The derived \<^verbatim>\<open>Ord\<close> of the enumeration is its declaration order.\<close>

primrec enforcement_index :: "FactoryEnforcementCapabilityV3 \<Rightarrow> nat" where
  "enforcement_index PluginIdentity = 0"
| "enforcement_index ExecutableIdentity = 1"
| "enforcement_index ToolIdentity = 2"
| "enforcement_index CommandArguments = 3"
| "enforcement_index DescendantProcesses = 4"
| "enforcement_index FilesystemPaths = 5"
| "enforcement_index MountModes = 6"
| "enforcement_index NetworkHosts = 7"
| "enforcement_index SecretProfiles = 8"
| "enforcement_index WorkloadIdentityProfiles = 9"
| "enforcement_index Cpu = 10"
| "enforcement_index Memory = 11"
| "enforcement_index Disk = 12"
| "enforcement_index ProcessCount = 13"
| "enforcement_index ElapsedTime = 14"
| "enforcement_index Outputs = 15"
| "enforcement_index ProtectedInputIntegrity = 16"
| "enforcement_index ReadOnlyProtectedInputs = 17"
| "enforcement_index WorkspaceSeparation = 18"
| "enforcement_index ManagedOctaExecution = 19"
| "enforcement_index SourceVisibilityV1 = 20"

lemma enforcement_index_inj: "enforcement_index a = enforcement_index b \<Longrightarrow> a = b"
  by (cases a; cases b) simp_all

instantiation FactoryEnforcementCapabilityV3 :: linorder
begin

definition less_eq_FactoryEnforcementCapabilityV3 where
  "a \<le> b \<longleftrightarrow> enforcement_index a \<le> enforcement_index b"

definition less_FactoryEnforcementCapabilityV3 where
  "a < b \<longleftrightarrow> enforcement_index a < enforcement_index b"

instance
  by standard (auto simp: less_eq_FactoryEnforcementCapabilityV3_def
      less_FactoryEnforcementCapabilityV3_def intro: enforcement_index_inj)

end

record FactoryExecutionCapabilityV3 =
  fe_workspace_anchor :: bool
  fe_controlled_tools :: bool
  fe_execution :: ExecutionCapabilityV2
  fe_enforcement :: "FactoryEnforcementCapabilityV3 list"

record CacheCapability =
  cc_runner_protocol :: u16
  cc_action_key_format :: u16
  cc_remote_http :: bool

record RuntimeCapability =
  rc_backend :: rstr
  rc_mode :: RuntimeMode
  rc_platform :: PlatformSpec
  rc_isolation :: "OciIsolation option"

record TaskPluginInventory =
  tp_name :: rstr
  tp_version :: rstr
  tp_protocol :: u16
  tp_platforms :: "rstr list"
  tp_sha256 :: rstr
  tp_capabilities :: "rstr list"

record SourcePluginInventory =
  sp_name :: rstr
  sp_version :: rstr
  sp_protocol_min :: u16
  sp_protocol_max :: u16
  sp_platforms :: "rstr list"
  sp_sha256 :: rstr

record OctaInventory =
  oi_version :: rstr
  oi_runner_sha256 :: rstr
  oi_build_commit :: "rstr option"
  oi_runner_protocols :: "u16 list"
  oi_event_schemas :: "u16 list"
  oi_plugin_protocols :: "u16 list"
  oi_octafile_versions :: "u8 list"
  oi_features :: "rstr list"
  oi_plugins :: "TaskPluginInventory list"

datatype IpAddr = IpV4 "32 word" | IpV6 "128 word"

record AgentHostDetails =
  hd_hostname :: "rstr option"
  hd_fqdn :: "rstr option"
  hd_os_version :: "rstr option"
  hd_ip_addresses :: "IpAddr list"

record HostCapacity =
  hc_logical_cpu_count :: u32
  hc_total_memory_bytes :: u64
  hc_work_disk_total_bytes :: u64
  hc_state_disk_total_bytes :: u64
  hc_virtualization_available :: bool

record AgentInventory =
  ai_agent_id :: rstr
  ai_agent_version :: rstr
  ai_coordinator_protocols :: "u16 list"
  ai_execution_contract :: ExecutionContractRange
  ai_labels :: "(rstr, rstr) btree"
  ai_host_platform :: PlatformSpec
  ai_host_details :: "AgentHostDetails option"
  ai_host_capacity :: HostCapacity
  ai_runtimes :: "RuntimeCapability list"
  ai_executions :: "ExecutionCapabilityV2 list"
  ai_factory_executions :: "FactoryExecutionCapabilityV3 list"
  ai_octa :: OctaInventory
  ai_source_plugins :: "SourcePluginInventory list"
  ai_cache :: "CacheCapability option"

datatype BackendHealthStatus = BH_Ready | BH_Degraded | BH_Unavailable

record BackendHealth =
  bh_backend :: rstr
  bh_execution :: "ExecutionCapabilityV2 option"
  bh_status :: BackendHealthStatus
  bh_message :: "rstr option"

record ResourceUsageSnapshot =
  ru_observed_at_unix_ms :: u64
  ru_elapsed_ms :: u64
  ru_cpu_time_ms :: u64
  ru_memory_current_bytes :: u64
  ru_memory_peak_bytes :: u64
  ru_disk_current_bytes :: u64
  ru_disk_peak_bytes :: u64
  ru_io_read_bytes :: u64
  ru_io_written_bytes :: u64
  ru_network_received_bytes :: "u64 option"
  ru_network_transmitted_bytes :: "u64 option"

record ActiveJob =
  aj_job_id :: rstr
  aj_attempt :: u32
  aj_lease_id :: rstr
  aj_resource_usage :: "ResourceUsageSnapshot option"

record HostSnapshot =
  hs_available_cpu_millis :: u64
  hs_available_memory_bytes :: u64
  hs_work_disk_free_bytes :: u64
  hs_state_disk_free_bytes :: u64
  hs_active_job :: "ActiveJob option"
  hs_backends :: "BackendHealth list"

section \<open>Requirements\<close>

record JobRequirements =
  jr_capabilities :: "rstr list"
  jr_labels :: "(rstr, rstr) btree"
  jr_minimum_cpu_millis :: u32
  jr_minimum_memory_bytes :: u64
  jr_minimum_disk_bytes :: u64
  jr_runtime_class :: RuntimeClass
  jr_operating_system :: PlatformOs
  jr_architecture :: PlatformArchitecture
  jr_host_platform :: "PlatformSpec option"
  jr_required_guarantees :: "ExecutionGuarantee set"

record OctaSpec =
  oc_version :: rstr
  oc_runner_sha256 :: rstr
  oc_runner_protocol :: u16
  oc_event_schema :: u16
  oc_plugin_protocol :: u16
  oc_plugin_digests :: "(rstr, rstr) btree"

datatype JobRuntimePolicy = Legacy RuntimeSpec | Current RuntimeSpecV2

record JobSourcePluginRequirement =
  sr_provider :: rstr
  sr_version :: rstr
  sr_sha256 :: rstr

record JobPlacementPolicy =
  pp_source :: "JobSourcePluginRequirement option"
  pp_octa :: OctaSpec
  pp_runtime :: JobRuntimePolicy
  pp_requires_cache :: bool
  pp_minimum_execution_contract :: u16

datatype FactoryToolControlModeV3 = TC_Deterministic | TC_ToolRisk

record FactoryToolResponseLimitsV3 =
  rl_per_call_bytes :: u64
  rl_total_bytes :: u64

definition MAX_FACTORY_TOOL_RESPONSE_BYTES :: u64 where "MAX_FACTORY_TOOL_RESPONSE_BYTES = 4 * 1024 * 1024"

datatype ToolLimitsError = ToolLimitsError

definition response_limits_validate :: "FactoryToolResponseLimitsV3 \<Rightarrow> ToolLimitsError + unit" where
  "response_limits_validate l =
     (if rl_per_call_bytes l = 0 \<or> MAX_FACTORY_TOOL_RESPONSE_BYTES < rl_per_call_bytes l
         \<or> rl_total_bytes l < rl_per_call_bytes l
      then Inl ToolLimitsError else Inr ())"

record FactoryToolControlV3 =
  tc_plugin :: rstr
  tc_capability :: rstr
  tc_mode :: FactoryToolControlModeV3
  tc_response_limits :: FactoryToolResponseLimitsV3

record PlacementRequirements =
  pr_job :: JobRequirements
  pr_policy :: JobPlacementPolicy
  pr_factory_enforcement :: "FactoryEnforcementCapabilityV3 list option"
  pr_workspace_anchor :: bool
  pr_tool_control :: "FactoryToolControlV3 option"

text \<open>The view of a Job template placement reads: its source mode, whether its execution is managed
  and with which controls, and, of its policy snapshot, the source plugin, the Octa release, the
  runtime and whether a cache policy is present.\<close>

record SourcePluginPolicy =
  spp_provider :: rstr
  spp_plugin_version :: rstr
  spp_plugin_sha256 :: rstr
  spp_repository_parameter :: rstr

record PolicyView =
  ps_source :: SourcePluginPolicy
  ps_octa :: OctaSpec
  ps_runtime :: JobRuntimePolicy
  ps_has_cache :: bool

record ManagedView =
  mi_required_enforcement :: "FactoryEnforcementCapabilityV3 list"
  mi_workspace_root :: "rstr option"
  mi_tool_control :: "FactoryToolControlV3 option"

datatype JobExecutionIntent = Ordinary | Managed ManagedView

record TemplateView =
  jt_source :: "BuildSourceMode option"
  jt_execution :: JobExecutionIntent
  jt_policy :: PolicyView

definition policy_snapshot_placement :: "PolicyView \<Rightarrow> u16 \<Rightarrow> JobPlacementPolicy" where
  "policy_snapshot_placement p minimum =
     \<lparr>pp_source = Some \<lparr>sr_provider = spp_provider (ps_source p), sr_version = spp_plugin_version (ps_source p),
        sr_sha256 = spp_plugin_sha256 (ps_source p)\<rparr>,
      pp_octa = ps_octa p, pp_runtime = ps_runtime p, pp_requires_cache = ps_has_cache p,
      pp_minimum_execution_contract = minimum\<rparr>"

definition template_placement_policy :: "TemplateView \<Rightarrow> JobPlacementPolicy" where
  "template_placement_policy t =
     (let policy = policy_snapshot_placement (jt_policy t)
        (case jt_execution t of
           Managed _ \<Rightarrow> if jt_source t \<noteq> None then EXECUTION_CONTRACT_V4 else EXECUTION_CONTRACT_V3
         | Ordinary \<Rightarrow>
             (case ps_runtime (jt_policy t) of
                Current _ \<Rightarrow> EXECUTION_CONTRACT_V2 | Legacy _ \<Rightarrow> EXECUTION_CONTRACT_V1))
      in if jt_source t \<noteq> None then policy\<lparr>pp_source := None\<rparr> else policy)"

definition template_required_enforcement :: "TemplateView \<Rightarrow> FactoryEnforcementCapabilityV3 list option" where
  "template_required_enforcement t =
     (case jt_execution t of Ordinary \<Rightarrow> None | Managed m \<Rightarrow> Some (mi_required_enforcement m))"

definition template_requires_anchor :: "TemplateView \<Rightarrow> bool" where
  "template_requires_anchor t =
     (case jt_execution t of Ordinary \<Rightarrow> False | Managed m \<Rightarrow> mi_workspace_root m \<noteq> None)"

definition template_tool_control :: "TemplateView \<Rightarrow> FactoryToolControlV3 option" where
  "template_tool_control t =
     (case jt_execution t of Ordinary \<Rightarrow> None | Managed m \<Rightarrow> mi_tool_control m)"

section \<open>Placement\<close>

text \<open>\<^verbatim>\<open>slice::binary_search\<close>: halve the candidate range, then compare once. On an unsorted slice it
  may miss an element, as the original may.\<close>

function binary_search_from :: "'a::linorder list \<Rightarrow> 'a \<Rightarrow> nat \<Rightarrow> nat \<Rightarrow> bool" where
  "binary_search_from xs x base n =
     (if n \<le> 1 then base < length xs \<and> xs ! base = x
      else let half = n div 2; mid = base + half in
        binary_search_from xs x (if x < xs ! mid then base else mid) (n - half))"
  by auto

termination
proof (relation "measure (\<lambda>(xs, x, base, n). n)")
  fix xs :: "'a::linorder list" and x base n half mid
  assume "\<not> n \<le> (1 :: nat)" "half = n div 2" "mid = base + half"
  then show "((xs, x, if x < xs ! mid then base else mid, n - half), xs, x, base, n)
      \<in> measure (\<lambda>(xs, x, base, n). n)" by auto
qed simp

declare binary_search_from.simps [simp del]

definition binary_search_ok :: "'a::linorder list \<Rightarrow> 'a \<Rightarrow> bool" where
  "binary_search_ok xs x = (if xs = [] then False else binary_search_from xs x 0 (length xs))"

definition plugin_platform :: "PlatformSpec \<Rightarrow> rstr" where
  "plugin_platform p =
     (case os p of OS_Linux \<Rightarrow> lit ''linux'' | OS_Windows \<Rightarrow> lit ''windows'' | OS_Macos \<Rightarrow> lit ''macos'') @
     lit ''-'' @ (case architecture p of Arch_Amd64 \<Rightarrow> lit ''x86_64'' | Arch_Arm64 \<Rightarrow> lit ''aarch64'')"

definition labels_match :: "AgentInventory \<Rightarrow> JobRequirements \<Rightarrow> bool" where
  "labels_match inventory requirements =
     list_all (\<lambda>(k, v). bt_get (ai_labels inventory) k = Some v) (jr_labels requirements)"

definition resources_match :: "HostSnapshot \<Rightarrow> JobRequirements \<Rightarrow> bool" where
  "resources_match snapshot requirements \<longleftrightarrow>
     ucast (jr_minimum_cpu_millis requirements) \<le> hs_available_cpu_millis snapshot \<and>
     jr_minimum_memory_bytes requirements \<le> hs_available_memory_bytes snapshot \<and>
     jr_minimum_disk_bytes requirements \<le> hs_work_disk_free_bytes snapshot"

definition factory_enforcement_matches ::
  "AgentInventory \<Rightarrow> ExecutionCapabilityV2 \<Rightarrow> FactoryEnforcementCapabilityV3 list option \<Rightarrow> bool \<Rightarrow> bool \<Rightarrow> bool"
where
  "factory_enforcement_matches inventory execution required requires_workspace_anchor requires_controlled_tools =
     (case required of
        None \<Rightarrow> True
      | Some required \<Rightarrow>
          list_ex (\<lambda>candidate. fe_execution candidate = execution \<and>
            (\<not> requires_workspace_anchor \<or> fe_workspace_anchor candidate) \<and>
            (\<not> requires_controlled_tools \<or> fe_controlled_tools candidate) \<and>
            list_all (\<lambda>c. binary_search_ok (fe_enforcement candidate) c) required)
          (ai_factory_executions inventory))"

definition legacy_runtime_fits :: "RuntimeClass \<Rightarrow> RuntimeCapability \<Rightarrow> bool" where
  "legacy_runtime_fits c r = (case c of
     RC_Native \<Rightarrow> rc_mode r = RM_Native \<and> rc_isolation r = None
   | RC_OciProcess \<Rightarrow> rc_mode r = RM_Oci \<and> rc_isolation r = Some Iso_Process
   | RC_OciHypervisor \<Rightarrow> rc_mode r = RM_Oci \<and> rc_isolation r = Some Iso_Hypervisor
   | _ \<Rightarrow> False)"

definition required_platform :: "JobRequirements \<Rightarrow> PlatformSpec" where
  "required_platform requirements =
     \<lparr>os = jr_operating_system requirements, architecture = jr_architecture requirements\<rparr>"

definition backend_is_available ::
  "AgentInventory \<Rightarrow> HostSnapshot \<Rightarrow> JobRequirements \<Rightarrow> JobRuntimePolicy \<Rightarrow>
     FactoryEnforcementCapabilityV3 list option \<Rightarrow> bool \<Rightarrow> bool \<Rightarrow> bool"
where
  "backend_is_available inventory snapshot requirements runtime_policy required_enforcement
      requires_workspace_anchor requires_controlled_tools =
     (let platform = required_platform requirements in
      case runtime_policy of
        Current runtime \<Rightarrow>
          (case jr_host_platform requirements of
             None \<Rightarrow> False
           | Some host_platform \<Rightarrow>
               if tgt_host_platform (rs2_target runtime) \<noteq> host_platform
                  \<or> tgt_target_platform (rs2_target runtime) \<noteq> platform
                  \<or> tgt_required_guarantees (rs2_target runtime) \<noteq> jr_required_guarantees requirements
               then False
               else list_ex (\<lambda>execution.
                 capability_satisfies execution (rs2_target runtime) \<and>
                 factory_enforcement_matches inventory execution required_enforcement
                   requires_workspace_anchor requires_controlled_tools \<and>
                 list_ex (\<lambda>health. bh_backend health = cap_provider execution \<and>
                     bh_execution health = Some execution \<and> bh_status health \<noteq> BH_Unavailable)
                   (hs_backends snapshot))
                 (ai_executions inventory))
      | Legacy _ \<Rightarrow>
          list_ex (\<lambda>runtime. rc_platform runtime = platform \<and>
            legacy_runtime_fits (jr_runtime_class requirements) runtime \<and>
            list_ex (\<lambda>health. bh_backend health = rc_backend runtime \<and> bh_status health \<noteq> BH_Unavailable)
              (hs_backends snapshot))
          (ai_runtimes inventory))"

definition legacy_runtime_policy_matches :: "RuntimeSpec \<Rightarrow> RuntimeClass \<Rightarrow> PlatformSpec \<Rightarrow> bool" where
  "legacy_runtime_policy_matches runtime c platform =
     (case (rs_target runtime, c) of
        (RT_Native required, RC_Native) \<Rightarrow> required = platform
      | (RT_Oci required isolation _, RC_OciProcess) \<Rightarrow> required = platform \<and> isolation = Iso_Process
      | (RT_Oci required isolation _, RC_OciHypervisor) \<Rightarrow> required = platform \<and> isolation = Iso_Hypervisor
      | _ \<Rightarrow> False)"

definition current_mode :: "RuntimeClass \<Rightarrow> ExecutionMode option" where
  "current_mode c = (case c of
     RC_Host \<Rightarrow> Some EM_Host | RC_Isolation \<Rightarrow> Some EM_Isolation | RC_Virtualization \<Rightarrow> Some EM_Virtualization
   | _ \<Rightarrow> None)"

definition runtime_policy_matches :: "JobRuntimePolicy \<Rightarrow> RuntimeClass \<Rightarrow> PlatformSpec \<Rightarrow> u16 \<Rightarrow> bool" where
  "runtime_policy_matches runtime c platform version =
     (case runtime of
        Legacy r \<Rightarrow> legacy_runtime_policy_matches r c platform
      | Current r \<Rightarrow> EXECUTION_CONTRACT_V2 \<le> version \<and>
          (case current_mode c of
             None \<Rightarrow> False
           | Some mode \<Rightarrow> tgt_mode (rs2_target r) = mode \<and> tgt_target_platform (rs2_target r) = platform \<and>
               is_ok (target_validate (rs2_target r))))"

definition advertised_capabilities :: "AgentInventory \<Rightarrow> bool \<Rightarrow> rstr list" where
  "advertised_capabilities inventory include_legacy_runtime =
     oi_features (ai_octa inventory) @
     (if include_legacy_runtime
      then concat (map (\<lambda>r. [rc_backend r, (case rc_mode r of RM_Native \<Rightarrow> lit ''native'' | RM_Oci \<Rightarrow> lit ''oci'')] @
        (case rc_isolation r of
           Some Iso_Process \<Rightarrow> [lit ''oci.process''] | Some Iso_Hypervisor \<Rightarrow> [lit ''oci.hypervisor''] | None \<Rightarrow> []))
        (ai_runtimes inventory))
      else []) @
     concat (map tp_capabilities (oi_plugins (ai_octa inventory)))"

definition capabilities_match :: "AgentInventory \<Rightarrow> JobRequirements \<Rightarrow> bool \<Rightarrow> bool" where
  "capabilities_match inventory requirements include_legacy_runtime =
     (let advertised = bs_of_list (advertised_capabilities inventory include_legacy_runtime)
      in list_all (\<lambda>c. c \<in> set advertised) (jr_capabilities requirements))"

definition plugins_match ::
  "TaskPluginInventory list \<Rightarrow> OctaSpec \<Rightarrow> rstr \<Rightarrow> FactoryToolControlV3 option \<Rightarrow> bool"
where
  "plugins_match installed required platform tool_control \<longleftrightarrow>
     list_all (\<lambda>(name, digest). list_ex (\<lambda>plugin.
         tp_name plugin = name \<and> tp_sha256 plugin = digest \<and> tp_protocol plugin = oc_plugin_protocol required \<and>
         list_ex (\<lambda>candidate. candidate = platform) (tp_platforms plugin) \<and>
         (case tool_control of None \<Rightarrow> True
          | Some control \<Rightarrow> tc_plugin control \<noteq> name \<or> tc_capability control \<in> set (tp_capabilities plugin)))
       installed) (oc_plugin_digests required) \<and>
     (case tool_control of None \<Rightarrow> True
      | Some control \<Rightarrow> bt_get (oc_plugin_digests required) (tc_plugin control) \<noteq> None)"

definition matches_placement ::
  "u16 \<Rightarrow> AgentInventory \<Rightarrow> HostSnapshot \<Rightarrow> PlacementRequirements \<Rightarrow> u16 \<Rightarrow> bool"
where
  "matches_placement action_key_format inventory snapshot required version =
     (let requirements = pr_job required; policy = pr_policy required;
          platform = required_platform requirements;
          source_plugin_platform = plugin_platform (ai_host_platform inventory);
          task_plugin_platform = plugin_platform platform
      in if \<not> contract_contains (ai_execution_contract inventory) version
            \<or> \<not> contract_contains SUPPORTED_EXECUTION_CONTRACTS version
         then False
         else
           pp_minimum_execution_contract policy \<le> version \<and>
           labels_match inventory requirements \<and>
           resources_match snapshot requirements \<and>
           backend_is_available inventory snapshot requirements (pp_runtime policy)
             (pr_factory_enforcement required) (pr_workspace_anchor required) (pr_tool_control required \<noteq> None) \<and>
           capabilities_match inventory requirements (runtime_class_is_legacy (jr_runtime_class requirements)) \<and>
           oi_version (ai_octa inventory) = oc_version (pp_octa policy) \<and>
           oi_runner_sha256 (ai_octa inventory) = oc_runner_sha256 (pp_octa policy) \<and>
           oc_runner_protocol (pp_octa policy) \<in> set (oi_runner_protocols (ai_octa inventory)) \<and>
           oc_event_schema (pp_octa policy) \<in> set (oi_event_schemas (ai_octa inventory)) \<and>
           oc_plugin_protocol (pp_octa policy) \<in> set (oi_plugin_protocols (ai_octa inventory)) \<and>
           plugins_match (oi_plugins (ai_octa inventory)) (pp_octa policy) task_plugin_platform
             (pr_tool_control required) \<and>
           (case pp_source policy of None \<Rightarrow> True
            | Some req \<Rightarrow> list_ex (\<lambda>source. sp_name source = sr_provider req \<and> sp_version source = sr_version req \<and>
                sp_sha256 source = sr_sha256 req \<and>
                list_ex (\<lambda>candidate. candidate = source_plugin_platform) (sp_platforms source))
              (ai_source_plugins inventory)) \<and>
           (\<not> pp_requires_cache policy \<or>
             (case ai_cache inventory of None \<Rightarrow> False
              | Some cache \<Rightarrow> cc_runner_protocol cache = oc_runner_protocol (pp_octa policy) \<and>
                  cc_action_key_format cache = action_key_format \<and> cc_remote_http cache)) \<and>
           runtime_policy_matches (pp_runtime policy) (jr_runtime_class requirements) platform version)"

definition template_requirements :: "JobRequirements \<Rightarrow> TemplateView \<Rightarrow> PlacementRequirements" where
  "template_requirements requirements template =
     \<lparr>pr_job = requirements, pr_policy = template_placement_policy template,
      pr_factory_enforcement = template_required_enforcement template,
      pr_workspace_anchor = template_requires_anchor template,
      pr_tool_control = template_tool_control template\<rparr>"

definition is_compatible_with_contract ::
  "u16 \<Rightarrow> AgentInventory \<Rightarrow> HostSnapshot \<Rightarrow> JobRequirements \<Rightarrow> TemplateView \<Rightarrow> u16 \<Rightarrow> bool"
where
  "is_compatible_with_contract action_key_format inventory snapshot requirements template version =
     matches_placement action_key_format inventory snapshot (template_requirements requirements template) version"

definition is_compatible ::
  "u16 \<Rightarrow> AgentInventory \<Rightarrow> HostSnapshot \<Rightarrow> JobRequirements \<Rightarrow> TemplateView \<Rightarrow> bool"
where
  "is_compatible action_key_format inventory snapshot requirements template =
     (case contract_negotiate SUPPORTED_EXECUTION_CONTRACTS (ai_execution_contract inventory) of
        None \<Rightarrow> False
      | Some version \<Rightarrow>
          is_compatible_with_contract action_key_format inventory snapshot requirements template version)"

end
