(* ===== verification/Scheduler_Correct.thy ===== *)
theory Scheduler_Correct
  imports Scheduler
begin

text \<open>
  Properties of the Scheduler: leases cannot be revived and a requested cancellation stays, a
  draining Pool takes no Job before its leases are gone, a placement match is backed by a healthy
  route that enforces what the Job requires, and it does not depend on provider names.
\<close>

section \<open>Leases and Pools\<close>

interpretation lease: lifecycle lease_transition lease_is_terminal
proof
  fix s e s'
  show "lease_is_terminal s \<Longrightarrow> lease_transition s e = Inr s' \<Longrightarrow> s' = s"
    by (cases s; cases e) (simp_all add: lease_transition_def lease_is_terminal_def lease_is_open_def)
qed

definition lease_cancelling :: "LeaseState \<Rightarrow> bool" where
  "lease_cancelling s \<longleftrightarrow> s = Lease_CancellationRequested \<or> lease_is_terminal s"

interpretation lease_cancel: invariant_system lease_transition lease_cancelling
proof
  fix s e s'
  show "lease_cancelling s \<Longrightarrow> lease_transition s e = Inr s' \<Longrightarrow> lease_cancelling s'"
    by (cases s; cases e)
      (simp_all add: lease_transition_def lease_cancelling_def lease_is_terminal_def lease_is_open_def)
qed

definition pool_request :: "PoolDrainState \<Rightarrow> PoolDrainState \<times> bool \<Rightarrow> PoolDrainTransitionError + PoolDrainState" where
  "pool_request s r = pool_transition_to s (fst r) (snd r)"

lemma pool_request_Inr: "pool_request s r = Inr s' \<Longrightarrow> s' = fst r"
  by (cases s; cases "fst r"; cases "snd r") (simp_all add: pool_request_def pool_transition_to_def)

lemma pool_request_draining:
  "pool_request s r = Inr s' \<Longrightarrow> s \<in> {Pool_GracefulDrain, Pool_ForcedDrain} \<Longrightarrow>
     s' \<in> {Pool_GracefulDrain, Pool_ForcedDrain} \<or> r = (Pool_Drained, False) \<and> s' = Pool_Drained"
  by (cases s; cases "fst r"; cases "snd r"; cases r) (auto simp: pool_request_def pool_transition_to_def)

section \<open>Binary search\<close>

lemma binary_search_member: "binary_search_from xs x base n \<Longrightarrow> x \<in> set xs"
proof (induction xs x base n rule: binary_search_from.induct)
  case (1 xs x base n)
  show ?case
  proof (cases "n \<le> 1")
    case True
    with 1(2) show ?thesis by (subst (asm) binary_search_from.simps) auto
  next
    case False
    with 1(2) show ?thesis
      by (subst (asm) binary_search_from.simps) (auto simp: Let_def intro: 1(1) [OF False refl refl])
  qed
qed

lemma binary_search_complete:
  assumes "sorted xs"
  shows "base + n \<le> length xs \<Longrightarrow> \<exists>i. base \<le> i \<and> i < base + n \<and> xs ! i = x \<Longrightarrow> binary_search_from xs x base n"
  using assms
proof (induction xs x base n rule: binary_search_from.induct)
  case (1 xs x base n)
  obtain i where i: "base \<le> i" "i < base + n" "xs ! i = x" using 1(3) by blast
  show ?case
  proof (cases "n \<le> 1")
    case True
    with i have "i = base" "base < length xs" using 1(2) by auto
    with True i(3) show ?thesis by (subst binary_search_from.simps) simp
  next
    case False
    let ?half = "n div 2" let ?mid = "base + ?half"
    let ?base = "if x < xs ! ?mid then base else ?mid"
    have half: "?half \<le> n - ?half" "0 < ?half" "?half < n" using False by auto
    have mid: "?mid < length xs" using 1(2) half by linarith
    have "\<exists>k. ?base \<le> k \<and> k < ?base + (n - ?half) \<and> xs ! k = x"
    proof (cases "x < xs ! ?mid")
      case True
      have "i < ?mid"
      proof (rule ccontr)
        assume "\<not> i < ?mid"
        then have "xs ! ?mid \<le> xs ! i" using 1(4) 1(2) i(2) by (intro sorted_nth_mono) auto
        with True i(3) show False by simp
      qed
      with True i half show ?thesis by (intro exI [of _ i]) simp
    next
      case low: False
      show ?thesis
      proof (cases "i < ?mid")
        case True
        then have "xs ! i \<le> xs ! ?mid" using 1(4) mid by (intro sorted_nth_mono) auto
        with low i(3) have "xs ! ?mid = x" by simp
        with low half show ?thesis by (intro exI [of _ ?mid]) simp
      next
        case False
        with low i half show ?thesis by (intro exI [of _ i]) simp
      qed
    qed
    moreover have "?base + (n - ?half) \<le> length xs" using 1(2) half by auto
    ultimately have "binary_search_from xs x ?base (n - ?half)"
      using 1(1) [OF False refl refl] 1(4) by blast
    with False show ?thesis by (subst binary_search_from.simps) (simp add: Let_def)
  qed
qed

lemma binary_search_ok_member: "binary_search_ok xs x \<Longrightarrow> x \<in> set xs"
  by (auto simp: binary_search_ok_def split: if_splits dest: binary_search_member)

lemma binary_search_ok_iff: "sorted xs \<Longrightarrow> binary_search_ok xs x \<longleftrightarrow> x \<in> set xs"
proof
  assume "sorted xs" "x \<in> set xs"
  then obtain i where "i < length xs" "xs ! i = x" by (metis in_set_conv_nth)
  with \<open>sorted xs\<close> have "binary_search_from xs x 0 (length xs)" by (intro binary_search_complete) auto
  then show "binary_search_ok xs x" using \<open>x \<in> set xs\<close> by (auto simp: binary_search_ok_def)
qed (rule binary_search_ok_member)

section \<open>Provider names\<close>

definition rename_capability :: "(rstr \<Rightarrow> rstr) \<Rightarrow> ExecutionCapabilityV2 \<Rightarrow> ExecutionCapabilityV2" where
  "rename_capability \<rho> c = c\<lparr>cap_provider := \<rho> (cap_provider c)\<rparr>"

definition rename_inventory :: "(rstr \<Rightarrow> rstr) \<Rightarrow> AgentInventory \<Rightarrow> AgentInventory" where
  "rename_inventory \<rho> i = i\<lparr>ai_executions := map (rename_capability \<rho>) (ai_executions i),
     ai_factory_executions := map (\<lambda>f. f\<lparr>fe_execution := rename_capability \<rho> (fe_execution f)\<rparr>) (ai_factory_executions i)\<rparr>"

definition rename_snapshot :: "(rstr \<Rightarrow> rstr) \<Rightarrow> HostSnapshot \<Rightarrow> HostSnapshot" where
  "rename_snapshot \<rho> s = s\<lparr>hs_backends := map (\<lambda>h. h\<lparr>bh_backend := \<rho> (bh_backend h),
     bh_execution := map_option (rename_capability \<rho>) (bh_execution h)\<rparr>) (hs_backends s)\<rparr>"

lemma rename_capability_eq_iff:
  "inj \<rho> \<Longrightarrow> rename_capability \<rho> a = rename_capability \<rho> b \<longleftrightarrow> a = b"
  by (cases a; cases b) (auto simp: rename_capability_def inj_def)

lemma satisfies_rename [simp]: "capability_satisfies (rename_capability \<rho> c) t = capability_satisfies c t"
  by (simp add: capability_satisfies_def capability_validate_def rename_capability_def)

lemma factory_enforcement_rename:
  "inj \<rho> \<Longrightarrow> factory_enforcement_matches (rename_inventory \<rho> i) (rename_capability \<rho> e) req a c =
     factory_enforcement_matches i e req a c"
  by (cases req) (simp_all add: factory_enforcement_matches_def rename_inventory_def list_ex_iff
      rename_capability_eq_iff)

lemma health_rename:
  assumes "inj \<rho>"
  shows "list_ex (\<lambda>h. bh_backend h = cap_provider (rename_capability \<rho> e) \<and>
      bh_execution h = Some (rename_capability \<rho> e) \<and> bh_status h \<noteq> BH_Unavailable) (hs_backends (rename_snapshot \<rho> s)) =
    list_ex (\<lambda>h. bh_backend h = cap_provider e \<and> bh_execution h = Some e \<and> bh_status h \<noteq> BH_Unavailable) (hs_backends s)"
proof -
  have "\<rho> x = cap_provider (rename_capability \<rho> e) \<longleftrightarrow> x = cap_provider e" for x
    using assms by (auto simp: rename_capability_def inj_def)
  moreover have "map_option (rename_capability \<rho>) x = Some (rename_capability \<rho> e) \<longleftrightarrow> x = Some e" for x
    using rename_capability_eq_iff [OF assms] by (cases x) auto
  ultimately show ?thesis by (simp add: rename_snapshot_def list_ex_iff)
qed

lemma backend_rename:
  assumes "inj \<rho>"
  shows "backend_is_available (rename_inventory \<rho> i) (rename_snapshot \<rho> s) r (Current rt) req a c =
    backend_is_available i s r (Current rt) req a c"
proof -
  have "ai_executions (rename_inventory \<rho> i) = map (rename_capability \<rho>) (ai_executions i)"
    by (simp add: rename_inventory_def)
  then show ?thesis
    using factory_enforcement_rename [OF assms] health_rename [OF assms]
    by (simp add: backend_is_available_def Let_def list_ex_iff split: option.splits)
qed

lemma rename_unread:
  "ai_execution_contract (rename_inventory \<rho> i) = ai_execution_contract i"
  "ai_host_platform (rename_inventory \<rho> i) = ai_host_platform i"
  "ai_octa (rename_inventory \<rho> i) = ai_octa i"
  "ai_source_plugins (rename_inventory \<rho> i) = ai_source_plugins i"
  "ai_cache (rename_inventory \<rho> i) = ai_cache i"
  "labels_match (rename_inventory \<rho> i) r = labels_match i r"
  "capabilities_match (rename_inventory \<rho> i) r l = capabilities_match i r l"
  "resources_match (rename_snapshot \<rho> s) r = resources_match s r"
  by (simp_all add: rename_inventory_def rename_snapshot_def labels_match_def capabilities_match_def
      advertised_capabilities_def resources_match_def)

section \<open>A matching Agent\<close>

text \<open>An Agent with one virtualization route qualified for managed work, and a managed Job for it.\<close>

definition sample_runtime :: RuntimeSpecV2 where
  "sample_runtime = \<lparr>rs2_target = sample_target, rs2_cpu_millis = 500, rs2_memory_bytes = 1024,
     rs2_writable_disk_bytes = 1024, rs2_timeout_seconds = 60, rs2_network = Disabled,
     rs2_workload_identity_profile = None\<rparr>"

definition sample_octa :: OctaSpec where
  "sample_octa = \<lparr>oc_version = lit ''1'', oc_runner_sha256 = lit ''d'', oc_runner_protocol = 2,
     oc_event_schema = 1, oc_plugin_protocol = 1, oc_plugin_digests = []\<rparr>"

definition sample_required :: PlacementRequirements where
  "sample_required = \<lparr>
     pr_job = \<lparr>jr_capabilities = [lit ''git''], jr_labels = [], jr_minimum_cpu_millis = 500,
       jr_minimum_memory_bytes = 1024, jr_minimum_disk_bytes = 1024, jr_runtime_class = RC_Virtualization,
       jr_operating_system = OS_Linux, jr_architecture = Arch_Amd64,
       jr_host_platform = Some sample_platform, jr_required_guarantees = guarantees_for EM_Virtualization\<rparr>,
     pr_policy = \<lparr>pp_source = None, pp_octa = sample_octa, pp_runtime = Current sample_runtime,
       pp_requires_cache = False, pp_minimum_execution_contract = 3\<rparr>,
     pr_factory_enforcement = Some [FilesystemPaths, Cpu], pr_workspace_anchor = True, pr_tool_control = None\<rparr>"

definition sample_inventory :: AgentInventory where
  "sample_inventory = \<lparr>ai_agent_id = lit ''a1'', ai_agent_version = lit ''1'', ai_coordinator_protocols = [1],
     ai_execution_contract = \<lparr>range_min = 1, range_max = 3\<rparr>, ai_labels = [],
     ai_host_platform = sample_platform, ai_host_details = None,
     ai_host_capacity = \<lparr>hc_logical_cpu_count = 4, hc_total_memory_bytes = 8192, hc_work_disk_total_bytes = 8192,
       hc_state_disk_total_bytes = 8192, hc_virtualization_available = True\<rparr>, ai_runtimes = [], ai_executions = [sample_capability],
     ai_factory_executions = [\<lparr>fe_workspace_anchor = True, fe_controlled_tools = False,
       fe_execution = sample_capability, fe_enforcement = [FilesystemPaths, NetworkHosts, Cpu]\<rparr>],
     ai_octa = \<lparr>oi_version = lit ''1'', oi_runner_sha256 = lit ''d'', oi_build_commit = None,
       oi_runner_protocols = [2], oi_event_schemas = [1], oi_plugin_protocols = [1], oi_octafile_versions = [1],
       oi_features = [lit ''git''], oi_plugins = []\<rparr>,
     ai_source_plugins = [], ai_cache = None\<rparr>"

definition sample_snapshot :: HostSnapshot where
  "sample_snapshot = \<lparr>hs_available_cpu_millis = 4000, hs_available_memory_bytes = 4096,
     hs_work_disk_free_bytes = 4096, hs_state_disk_free_bytes = 4096, hs_active_job = None,
     hs_backends = [\<lparr>bh_backend = lit ''kvm'', bh_execution = Some sample_capability, bh_status = BH_Degraded,
       bh_message = None\<rparr>]\<rparr>"

lemma sample_matches: "matches_placement 1 sample_inventory sample_snapshot sample_required 3"
  by code_simp

section \<open>Properties\<close>

text \<open>Leases are never revived: a lease for which cancellation was requested only ever stays in
  that state or ends, no event is accepted once it has ended, and a heartbeat renews it without
  changing its state.\<close>

theorem lease_never_revived:
  assumes "run_events lease_transition Lease_CancellationRequested es = Inr s"
  shows "(s = Lease_CancellationRequested \<or> lease_is_terminal s) \<and>
    (lease_is_terminal s \<longrightarrow> (\<forall>e. \<not> is_ok (lease_transition s e))) \<and>
    (\<not> lease_is_terminal s \<longrightarrow> lease_transition s LE_Renew = Inr s)"
proof -
  have "lease_cancelling s"
    using assms by (rule lease_cancel.run_inv) (simp add: lease_cancelling_def)
  moreover have "\<not> is_ok (lease_transition s e)" if "lease_is_terminal s" for e
    using that by (cases s; cases e) (simp_all add: lease_is_terminal_def lease_transition_def lease_is_open_def)
  ultimately show ?thesis by (auto simp: lease_cancelling_def lease_transition_def lease_is_open_def)
qed

theorem lease_never_revived_witness:
  "run_events lease_transition Lease_CancellationRequested [LE_Renew, LE_Complete] = Inr Lease_Completed \<and>
   \<not> is_ok (lease_transition Lease_Completed LE_Renew)"
proof -
  have run: "run_events lease_transition Lease_CancellationRequested [LE_Renew, LE_Complete] = Inr Lease_Completed"
    by code_simp
  have "lease_is_terminal Lease_Completed" by code_simp
  with run lease_never_revived [OF run] show ?thesis by blast
qed

text \<open>Drains complete before a Pool reopens: whatever target states an operator requests of a
  Pool in a graceful or forced drain, if the Pool accepts Jobs again then one of the accepted
  requests declared it drained while no lease was active.\<close>

theorem pool_reopens_only_drained:
  assumes "run_events pool_request s rs = Inr s'" and "s \<in> {Pool_GracefulDrain, Pool_ForcedDrain}"
    and "pool_accepts_jobs s'"
  shows "(Pool_Drained, False) \<in> set rs"
  using assms
proof (induction rs arbitrary: s)
  case Nil
  then show ?case by (auto simp: pool_accepts_jobs_def)
next
  case (Cons r rs)
  then obtain t where t: "pool_request s r = Inr t" "run_events pool_request t rs = Inr s'"
    by (auto simp: res_simps)
  from pool_request_draining [OF t(1) Cons.prems(2)] show ?case
    using Cons.IH [OF t(2)] Cons.prems(3) by auto
qed

theorem pool_reopens_only_drained_witness:
  "(Pool_Drained, False) \<in> set [(Pool_ForcedDrain, True), (Pool_Drained, False), (Pool_Accepting, False)]"
proof -
  have run: "run_events pool_request Pool_GracefulDrain
      [(Pool_ForcedDrain, True), (Pool_Drained, False), (Pool_Accepting, False)] = Inr Pool_Accepting" by code_simp
  show ?thesis by (rule pool_reopens_only_drained [OF run]) (simp_all add: pool_accepts_jobs_def)
qed

text \<open>Placement of managed work is enforceable (C31): when a provider-neutral Job matches an Agent,
  some advertised route satisfies the signed target and is reported healthy, the host has the
  required CPU, memory and disk, and for managed work one qualified route on that same execution
  enforces every required control, with the workspace anchor and the tool bridge when they are
  asked for.\<close>

theorem placement_enforceable:
  assumes "matches_placement k inventory snapshot required version"
    and "pp_runtime (pr_policy required) = Current runtime"
  shows "contract_contains (ai_execution_contract inventory) version \<and>
    pp_minimum_execution_contract (pr_policy required) \<le> version \<and>
    resources_match snapshot (pr_job required) \<and>
    (\<exists>e\<in>set (ai_executions inventory). capability_satisfies e (rs2_target runtime) \<and>
      (\<exists>h\<in>set (hs_backends snapshot). bh_execution h = Some e \<and> bh_status h \<noteq> BH_Unavailable) \<and>
      (\<forall>controls. pr_factory_enforcement required = Some controls \<longrightarrow>
        (\<exists>f\<in>set (ai_factory_executions inventory). fe_execution f = e \<and>
           set controls \<subseteq> set (fe_enforcement f) \<and>
           (pr_workspace_anchor required \<longrightarrow> fe_workspace_anchor f) \<and>
           (pr_tool_control required \<noteq> None \<longrightarrow> fe_controlled_tools f))))"
proof -
  let ?ok = "\<lambda>e. capability_satisfies e (rs2_target runtime) \<and>
      factory_enforcement_matches inventory e (pr_factory_enforcement required)
        (pr_workspace_anchor required) (pr_tool_control required \<noteq> None) \<and>
      list_ex (\<lambda>h. bh_backend h = cap_provider e \<and> bh_execution h = Some e \<and> bh_status h \<noteq> BH_Unavailable)
        (hs_backends snapshot)"
  from assms(1) have basic: "contract_contains (ai_execution_contract inventory) version"
      "pp_minimum_execution_contract (pr_policy required) \<le> version" "resources_match snapshot (pr_job required)"
    and avail: "backend_is_available inventory snapshot (pr_job required) (pp_runtime (pr_policy required))
      (pr_factory_enforcement required) (pr_workspace_anchor required) (pr_tool_control required \<noteq> None)"
    unfolding matches_placement_def Let_def by (simp_all split: if_splits)
  from avail have "list_ex ?ok (ai_executions inventory)"
    unfolding assms(2) backend_is_available_def Let_def by (auto split: option.splits if_splits)
  then obtain e where e: "e \<in> set (ai_executions inventory)" "?ok e" by (auto simp: list_ex_iff)
  have health: "\<exists>h\<in>set (hs_backends snapshot). bh_execution h = Some e \<and> bh_status h \<noteq> BH_Unavailable"
    using e(2) by (auto simp: list_ex_iff)
  have managed: "\<exists>f\<in>set (ai_factory_executions inventory). fe_execution f = e \<and>
      set controls \<subseteq> set (fe_enforcement f) \<and> (pr_workspace_anchor required \<longrightarrow> fe_workspace_anchor f) \<and>
      (pr_tool_control required \<noteq> None \<longrightarrow> fe_controlled_tools f)"
    if "pr_factory_enforcement required = Some controls" for controls
  proof -
    have "factory_enforcement_matches inventory e (Some controls)
        (pr_workspace_anchor required) (pr_tool_control required \<noteq> None)" using e(2) that by simp
    then obtain f where f: "f \<in> set (ai_factory_executions inventory)" "fe_execution f = e"
      "pr_workspace_anchor required \<longrightarrow> fe_workspace_anchor f" "pr_tool_control required \<noteq> None \<longrightarrow> fe_controlled_tools f"
      "\<forall>c\<in>set controls. binary_search_ok (fe_enforcement f) c"
      by (auto simp: factory_enforcement_matches_def list_ex_iff list_all_iff)
    from f(5) have "set controls \<subseteq> set (fe_enforcement f)" by (auto dest: binary_search_ok_member)
    with f show ?thesis by blast
  qed
  show ?thesis using basic e health managed by blast
qed

theorem placement_enforceable_witness:
  "\<exists>f\<in>set (ai_factory_executions sample_inventory). {FilesystemPaths, Cpu} \<subseteq> set (fe_enforcement f) \<and> fe_workspace_anchor f"
proof -
  have "pp_runtime (pr_policy sample_required) = Current sample_runtime"
    "pr_factory_enforcement sample_required = Some [FilesystemPaths, Cpu]" "pr_workspace_anchor sample_required"
    by (simp_all add: sample_required_def)
  with placement_enforceable [OF sample_matches this(1)] show ?thesis by fastforce
qed

text \<open>Placement is provider-neutral: renaming the execution providers of an Agent consistently
  in its inventory and its health report, without merging two names, never changes whether a
  provider-neutral Job matches.\<close>

theorem placement_provider_neutral:
  assumes "inj \<rho>" and "pp_runtime (pr_policy required) = Current runtime"
  shows "matches_placement k (rename_inventory \<rho> inventory) (rename_snapshot \<rho> snapshot) required version =
    matches_placement k inventory snapshot required version"
  unfolding matches_placement_def Let_def rename_unread assms(2) backend_rename [OF assms(1)] ..

theorem placement_provider_neutral_witness:
  "matches_placement 1 (rename_inventory (\<lambda>n. 120 # n) sample_inventory)
     (rename_snapshot (\<lambda>n. 120 # n) sample_snapshot) sample_required 3"
proof -
  have "inj (\<lambda>n. 120 # n :: rstr)" by (rule injI) simp
  moreover have "pp_runtime (pr_policy sample_required) = Current sample_runtime" by (simp add: sample_required_def)
  ultimately show ?thesis using placement_provider_neutral sample_matches by blast
qed

end
