(* ===== verification/Trigger.thy ===== *)
theory Trigger
  imports Canonical_Json Source_Values "HOL-Library.Code_Target_Nat"
begin

text \<open>
  Triggers, \<^verbatim>\<open>server/core/octacity-server-trigger\<close>: occurrence states, normalized occurrences with
  their causality, the protection of internal Trigger lineages and the due batch of a schedule. The
  cron and timezone libraries are the arguments \<open>cron\<close>, \<open>tz\<close> and \<open>after\<close> (the first instant of
  the schedule after a given one, in Unix milliseconds); the byte length of encoded metadata is an
  argument as well.
\<close>

section \<open>Occurrence states\<close>

datatype TriggerOccurrenceState =
    Occ_Pending | Occ_Evaluating | Occ_Deferred | Occ_Accepted | Occ_Suppressed | Occ_Rejected

datatype TriggerOccurrenceEvent =
    TE_BeginEvaluation | TE_Defer | TE_Accept | TE_Suppress | TE_Reject | TE_Retry

fun occurrence_transition ::
  "TriggerOccurrenceState \<Rightarrow> TriggerOccurrenceEvent \<Rightarrow>
     (TriggerOccurrenceState, TriggerOccurrenceEvent) TransitionError + TriggerOccurrenceState"
where
  "occurrence_transition Occ_Pending TE_BeginEvaluation = Inr Occ_Evaluating"
| "occurrence_transition Occ_Evaluating TE_Defer = Inr Occ_Deferred"
| "occurrence_transition Occ_Evaluating TE_Accept = Inr Occ_Accepted"
| "occurrence_transition Occ_Evaluating TE_Suppress = Inr Occ_Suppressed"
| "occurrence_transition Occ_Evaluating TE_Reject = Inr Occ_Rejected"
| "occurrence_transition Occ_Deferred TE_Retry = Inr Occ_Pending"
| "occurrence_transition s e = Inl (TransitionError EK_Trigger s e)"

definition occurrence_is_terminal :: "TriggerOccurrenceState \<Rightarrow> bool" where
  "occurrence_is_terminal s = (case s of
     Occ_Accepted \<Rightarrow> True | Occ_Suppressed \<Rightarrow> True | Occ_Rejected \<Rightarrow> True | _ \<Rightarrow> False)"

section \<open>Normalized occurrences\<close>

definition MAX_TRIGGER_METADATA_ENTRIES :: nat where "MAX_TRIGGER_METADATA_ENTRIES = 64"
definition MAX_TRIGGER_METADATA_BYTES :: nat where "MAX_TRIGGER_METADATA_BYTES = 32 * 1024"
definition MAX_TRIGGER_METADATA_KEY_BYTES :: nat where "MAX_TRIGGER_METADATA_KEY_BYTES = 128"
definition MAX_TRIGGER_EVENT_KIND_BYTES :: nat where "MAX_TRIGGER_EVENT_KIND_BYTES = 128"

datatype TriggerInputError =
    TI_InvalidEventKind | TI_InvalidRevision | TI_InvalidMetadata | TI_MetadataTooLarge
  | TI_InvalidCausality | TI_UnexpectedProviderMetadata

datatype TriggerKind = TK_Manual | TK_Scheduled | TK_External | TK_Internal

definition trigger_kind_as_str :: "TriggerKind \<Rightarrow> rstr" where
  "trigger_kind_as_str k = (case k of
     TK_Manual \<Rightarrow> lit ''manual'' | TK_Scheduled \<Rightarrow> lit ''scheduled''
   | TK_External \<Rightarrow> lit ''external'' | TK_Internal \<Rightarrow> lit ''internal'')"

record TriggerDefinitionRef =
  trg_id :: uuid
  trg_version :: u64

record TriggerTarget =
  configuration_id :: uuid
  configuration_version :: u64

definition valid_text :: "rstr \<Rightarrow> nat \<Rightarrow> bool" where
  "valid_text v maximum_bytes \<longleftrightarrow>
     v \<noteq> [] \<and> str_len v \<le> maximum_bytes \<and> trim v = v \<and> \<not> list_ex is_control v"

definition trigger_event_kind_new :: "rstr \<Rightarrow> TriggerInputError + rstr" where
  "trigger_event_kind_new v =
     (if valid_text v MAX_TRIGGER_EVENT_KIND_BYTES then Inr v else Inl TI_InvalidEventKind)"

datatype TerminalBuildEvent = TB_Succeeded | TB_Failed | TB_Cancelled

definition terminal_event_as_str :: "TerminalBuildEvent \<Rightarrow> rstr" where
  "terminal_event_as_str e = (case e of
     TB_Succeeded \<Rightarrow> lit ''build.succeeded'' | TB_Failed \<Rightarrow> lit ''build.failed''
   | TB_Cancelled \<Rightarrow> lit ''build.cancelled'')"

definition terminal_event_from_build_state :: "rstr \<Rightarrow> TerminalBuildEvent option" where
  "terminal_event_from_build_state s =
     (if s = lit ''succeeded'' then Some TB_Succeeded
      else if s = lit ''failed'' then Some TB_Failed
      else if s = lit ''cancelled'' then Some TB_Cancelled else None)"

definition terminal_event_from_str :: "rstr \<Rightarrow> TriggerInputError + TerminalBuildEvent" where
  "terminal_event_from_str s =
     (if s = lit ''build.succeeded'' then Inr TB_Succeeded
      else if s = lit ''build.failed'' then Inr TB_Failed
      else if s = lit ''build.cancelled'' then Inr TB_Cancelled else Inl TI_InvalidEventKind)"

type_synonym trigger_metadata = "(rstr, Json) btree"

definition validate_metadata :: "(trigger_metadata \<Rightarrow> nat option) \<Rightarrow> trigger_metadata \<Rightarrow> TriggerInputError + unit" where
  "validate_metadata metadata_len entries =
     (if MAX_TRIGGER_METADATA_ENTRIES < length entries
         \<or> list_ex (\<lambda>k. \<not> valid_text k MAX_TRIGGER_METADATA_KEY_BYTES) (bt_keys entries)
      then Inl TI_InvalidMetadata
      else if \<not> (case metadata_len entries of Some n \<Rightarrow> n \<le> MAX_TRIGGER_METADATA_BYTES | None \<Rightarrow> False)
      then Inl TI_MetadataTooLarge
      else Inr ())"

definition trigger_metadata_new :: "(trigger_metadata \<Rightarrow> nat option) \<Rightarrow> trigger_metadata \<Rightarrow> TriggerInputError + trigger_metadata" where
  "trigger_metadata_new metadata_len entries = and_then (validate_metadata metadata_len entries) (\<lambda>_. Inr entries)"

datatype TriggerCause =
    Cause_Manual
  | Cause_Scheduled
  | Cause_External uuid uuid rstr "rstr option" "rstr option"
  | Cause_Internal uuid rstr

definition cause_kind :: "TriggerCause \<Rightarrow> TriggerKind" where
  "cause_kind c = (case c of
     Cause_Manual \<Rightarrow> TK_Manual | Cause_Scheduled \<Rightarrow> TK_Scheduled
   | Cause_External _ _ _ _ _ \<Rightarrow> TK_External | Cause_Internal _ _ \<Rightarrow> TK_Internal)"

record TriggerCausality =
  root_occurrence_id :: uuid
  parent_occurrence_id :: "uuid option"
  causal_depth :: u16

definition causality_root :: "uuid \<Rightarrow> TriggerCausality" where
  "causality_root i = \<lparr>root_occurrence_id = i, parent_occurrence_id = None, causal_depth = 0\<rparr>"

definition causality_derived :: "uuid \<Rightarrow> uuid \<Rightarrow> u16 \<Rightarrow> TriggerCausality" where
  "causality_derived r p d = \<lparr>root_occurrence_id = r, parent_occurrence_id = Some p, causal_depth = d\<rparr>"

definition causality_validate :: "TriggerCausality \<Rightarrow> uuid \<Rightarrow> TriggerKind \<Rightarrow> TriggerInputError + unit" where
  "causality_validate c occurrence_id kind =
     (let root_form = root_occurrence_id c = occurrence_id \<and> parent_occurrence_id c = None \<and> causal_depth c = 0;
          valid = (case kind of
             TK_Internal \<Rightarrow> root_form \<or>
               0 < causal_depth c \<and> root_occurrence_id c \<noteq> occurrence_id \<and>
               (case parent_occurrence_id c of Some p \<Rightarrow> p \<noteq> occurrence_id | None \<Rightarrow> False)
           | _ \<Rightarrow> root_form)
      in if valid then Inr () else Inl TI_InvalidCausality)"

record TriggerDeduplicationKey =
  dk_trigger :: TriggerDefinitionRef
  dk_identity :: rstr

record NormalizedTriggerOccurrence =
  occ_id :: uuid
  occ_trigger :: TriggerDefinitionRef
  occ_target :: TriggerTarget
  deduplication_identity :: rstr
  occ_cause :: TriggerCause
  occ_causality :: TriggerCausality
  provider_metadata :: trigger_metadata
  source_time :: timestamp

record TriggerOccurrenceIntent =
  in_id :: uuid
  in_trigger :: TriggerDefinitionRef
  in_target :: TriggerTarget
  in_deduplication_identity :: rstr
  in_cause :: TriggerCause
  in_causality :: TriggerCausality
  in_provider_metadata :: trigger_metadata
  in_source_time :: "timestamp option"

definition occurrence_validate ::
  "(trigger_metadata \<Rightarrow> nat option) \<Rightarrow> NormalizedTriggerOccurrence \<Rightarrow> TriggerInputError + unit"
where
  "occurrence_validate metadata_len o' =
     and_then (validate_metadata metadata_len (provider_metadata o')) (\<lambda>_.
     let kind = cause_kind (occ_cause o') in
     and_then (causality_validate (occ_causality o') (occ_id o') kind) (\<lambda>_.
     if kind \<noteq> TK_External \<and> provider_metadata o' \<noteq> [] then Inl TI_UnexpectedProviderMetadata else Inr ()))"

definition occurrence_validated ::
  "(trigger_metadata \<Rightarrow> nat option) \<Rightarrow> NormalizedTriggerOccurrence \<Rightarrow> TriggerInputError + NormalizedTriggerOccurrence"
where
  "occurrence_validated metadata_len o' = and_then (occurrence_validate metadata_len o') (\<lambda>_. Inr o')"

definition occurrence_root ::
  "(trigger_metadata \<Rightarrow> nat option) \<Rightarrow> uuid \<Rightarrow> TriggerDefinitionRef \<Rightarrow> TriggerTarget \<Rightarrow> rstr \<Rightarrow> TriggerCause \<Rightarrow>
     trigger_metadata \<Rightarrow> timestamp \<Rightarrow> TriggerInputError + NormalizedTriggerOccurrence"
where
  "occurrence_root metadata_len i trigger target identity cause metadata time =
     occurrence_validated metadata_len \<lparr>occ_id = i, occ_trigger = trigger, occ_target = target,
       deduplication_identity = identity, occ_cause = cause, occ_causality = causality_root i,
       provider_metadata = metadata, source_time = time\<rparr>"

definition occurrence_derived ::
  "(trigger_metadata \<Rightarrow> nat option) \<Rightarrow> uuid \<Rightarrow> TriggerDefinitionRef \<Rightarrow> TriggerTarget \<Rightarrow> rstr \<Rightarrow> TriggerCause \<Rightarrow>
     TriggerCausality \<Rightarrow> timestamp \<Rightarrow> TriggerInputError + NormalizedTriggerOccurrence"
where
  "occurrence_derived metadata_len i trigger target identity cause causality time =
     occurrence_validated metadata_len \<lparr>occ_id = i, occ_trigger = trigger, occ_target = target,
       deduplication_identity = identity, occ_cause = cause, occ_causality = causality,
       provider_metadata = [], source_time = time\<rparr>"

definition deduplication_key :: "NormalizedTriggerOccurrence \<Rightarrow> TriggerDeduplicationKey" where
  "deduplication_key o' = \<lparr>dk_trigger = occ_trigger o', dk_identity = deduplication_identity o'\<rparr>"

definition occurrence_intent :: "NormalizedTriggerOccurrence \<Rightarrow> TriggerOccurrenceIntent" where
  "occurrence_intent o' = \<lparr>in_id = occ_id o', in_trigger = occ_trigger o', in_target = occ_target o',
     in_deduplication_identity = deduplication_identity o', in_cause = occ_cause o',
     in_causality = occ_causality o', in_provider_metadata = provider_metadata o',
     in_source_time = (if cause_kind (occ_cause o') \<noteq> TK_Manual then Some (source_time o') else None)\<rparr>"

section \<open>Internal lineages\<close>

definition MAX_INTERNAL_TRIGGER_DEPTH :: u16 where "MAX_INTERNAL_TRIGGER_DEPTH = 32"

datatype InternalTriggerProtection = ITP_Cycle | ITP_DepthLimit

definition derive_internal_causality ::
  "NormalizedTriggerOccurrence \<Rightarrow> TriggerDefinitionRef \<Rightarrow> TriggerDefinitionRef list \<Rightarrow>
     InternalTriggerProtection + TriggerCausality"
where
  "derive_internal_causality parent candidate ancestry =
     (if list_ex (\<lambda>a. trg_id a = trg_id candidate) ancestry then Inl ITP_Cycle
      else case checked_add (causal_depth (occ_causality parent)) 1 of
        None \<Rightarrow> Inl ITP_DepthLimit
      | Some depth \<Rightarrow>
          if depth \<le> MAX_INTERNAL_TRIGGER_DEPTH
          then Inr (causality_derived (root_occurrence_id (occ_causality parent)) (occ_id parent) depth)
          else Inl ITP_DepthLimit)"

text \<open>\<^verbatim>\<open>any(|trigger| !unique.insert(trigger.id))\<close>.\<close>

primrec repeats_from :: "uuid list \<Rightarrow> uuid list \<Rightarrow> bool" where
  "repeats_from unique [] = False"
| "repeats_from unique (x # xs) = (x \<in> set unique \<or> repeats_from (bs_insert x unique) xs)"

definition validate_internal_ancestry ::
  "NormalizedTriggerOccurrence \<Rightarrow> TriggerDefinitionRef list \<Rightarrow> InternalTriggerProtection + unit"
where
  "validate_internal_ancestry parent ancestry =
     (let expected_len = unat (causal_depth (occ_causality parent)) + 1 in
      if length ancestry \<noteq> expected_len \<or> ancestry = [] \<or> last ancestry \<noteq> occ_trigger parent then Inl ITP_Cycle
      else if unat MAX_INTERNAL_TRIGGER_DEPTH + 1 < length ancestry then Inl ITP_DepthLimit
      else if repeats_from [] (map trg_id ancestry) then Inl ITP_Cycle
      else Inr ())"

section \<open>Schedules\<close>

definition MAX_SCHEDULE_CATCH_UP :: u16 where "MAX_SCHEDULE_CATCH_UP = 64"
definition MAX_SCHEDULE_EXPRESSION_BYTES :: nat where "MAX_SCHEDULE_EXPRESSION_BYTES = 256"
definition MAX_SCHEDULE_TIMEZONE_BYTES :: nat where "MAX_SCHEDULE_TIMEZONE_BYTES = 128"

datatype MissedRunPolicy = RunOnce | CatchUp u16

datatype ScheduleInputError =
    SI_InvalidExpression | SI_InvalidTimezone | SI_InvalidCatchUpLimit | SI_NoNextOccurrence

definition missed_run_limit :: "MissedRunPolicy \<Rightarrow> ScheduleInputError + nat" where
  "missed_run_limit p = (case p of
     RunOnce \<Rightarrow> Inr 1
   | CatchUp maximum \<Rightarrow>
       if 1 \<le> maximum \<and> maximum \<le> MAX_SCHEDULE_CATCH_UP then Inr (unat maximum) else Inl SI_InvalidCatchUpLimit)"

record ScheduleDefinition =
  expression :: rstr
  timezone :: rstr
  missed_run_policy :: MissedRunPolicy

record DueScheduleOccurrences =
  due_list :: "timestamp list"
  next_occurrence_at :: timestamp

record ('s, 'z) calendar =
  cron :: "rstr \<Rightarrow> 's option"
  tz :: "rstr \<Rightarrow> 'z option"
  after :: "'s \<Rightarrow> 'z \<Rightarrow> int \<Rightarrow> int option"

definition schedule_parsed ::
  "('s, 'z) calendar \<Rightarrow> ScheduleDefinition \<Rightarrow> ScheduleInputError + 's \<times> 'z"
where
  "schedule_parsed cal d =
     (if trim (expression d) \<noteq> expression d \<or> expression d = [] \<or> MAX_SCHEDULE_EXPRESSION_BYTES < str_len (expression d)
      then Inl SI_InvalidExpression
      else if trim (timezone d) \<noteq> timezone d \<or> timezone d = [] \<or> MAX_SCHEDULE_TIMEZONE_BYTES < str_len (timezone d)
      then Inl SI_InvalidTimezone
      else and_then (ok_or SI_InvalidExpression (cron cal (expression d))) (\<lambda>schedule.
           and_then (ok_or SI_InvalidTimezone (tz cal (timezone d))) (\<lambda>zone.
           Inr (schedule, zone))))"

definition next_timestamp :: "('s, 'z) calendar \<Rightarrow> 's \<Rightarrow> 'z \<Rightarrow> timestamp \<Rightarrow> ScheduleInputError + timestamp" where
  "next_timestamp cal schedule zone instant =
     and_then (ok_or SI_NoNextOccurrence (after cal schedule zone instant)) (\<lambda>next.
       map_err (\<lambda>_. SI_NoNextOccurrence) (from_unix_millis next))"

definition schedule_validate :: "('s, 'z) calendar \<Rightarrow> ScheduleDefinition \<Rightarrow> ScheduleInputError + unit" where
  "schedule_validate cal d =
     and_then (schedule_parsed cal d) (\<lambda>_. and_then (missed_run_limit (missed_run_policy d)) (\<lambda>_. Inr ()))"

definition next_after :: "('s, 'z) calendar \<Rightarrow> ScheduleDefinition \<Rightarrow> timestamp \<Rightarrow> ScheduleInputError + timestamp" where
  "next_after cal d instant =
     and_then (schedule_parsed cal d) (\<lambda>(schedule, zone). next_timestamp cal schedule zone instant)"

text \<open>The \<^verbatim>\<open>while\<close> loop of the catch-up branch.\<close>

function catch_up_loop ::
  "(timestamp \<Rightarrow> ScheduleInputError + timestamp) \<Rightarrow> timestamp \<Rightarrow> nat \<Rightarrow> timestamp \<Rightarrow> timestamp list \<Rightarrow>
     ScheduleInputError + timestamp list \<times> timestamp"
where
  "catch_up_loop step observed limit next occurrences =
     (if next \<le> observed \<and> length occurrences < limit
      then case step next of
          Inl e \<Rightarrow> Inl e
        | Inr next' \<Rightarrow> catch_up_loop step observed limit next' (occurrences @ [next])
      else Inr (occurrences, next))"
  by auto

termination
  by (relation "measure (\<lambda>(step, observed, limit, next, occurrences). limit - length occurrences)") auto

declare catch_up_loop.simps [simp del]

definition due_occurrences ::
  "('s, 'z) calendar \<Rightarrow> ScheduleDefinition \<Rightarrow> timestamp \<Rightarrow> timestamp \<Rightarrow> ScheduleInputError + DueScheduleOccurrences"
where
  "due_occurrences cal d next observed =
     and_then (schedule_validate cal d) (\<lambda>_.
     if observed < next then Inr \<lparr>due_list = [], next_occurrence_at = next\<rparr>
     else case missed_run_policy d of
       RunOnce \<Rightarrow>
         map_ok (\<lambda>n. \<lparr>due_list = [next], next_occurrence_at = n\<rparr>) (next_after cal d observed)
     | CatchUp _ \<Rightarrow>
         and_then (missed_run_limit (missed_run_policy d)) (\<lambda>limit.
         map_ok (\<lambda>(occurrences, n). \<lparr>due_list = occurrences, next_occurrence_at = n\<rparr>)
           (catch_up_loop (next_after cal d) observed limit next [])))"

section \<open>Lineage facts\<close>

interpretation occurrence: lifecycle occurrence_transition occurrence_is_terminal
proof
  fix s e s'
  show "occurrence_is_terminal s \<Longrightarrow> occurrence_transition s e = Inr s' \<Longrightarrow> s' = s"
    by (cases s; cases e) (simp_all add: occurrence_is_terminal_def)
qed

lemma repeats_from_iff: "repeats_from unique xs \<longleftrightarrow> \<not> (distinct xs \<and> set xs \<inter> set unique = {})"
  by (induction xs arbitrary: unique) auto

lemma validate_internal_ancestry_iff:
  "validate_internal_ancestry parent ancestry = Inr u \<longleftrightarrow>
     length ancestry = unat (causal_depth (occ_causality parent)) + 1 \<and>
     last ancestry = occ_trigger parent \<and> length ancestry \<le> 33 \<and> distinct (map trg_id ancestry)"
  by (auto simp: validate_internal_ancestry_def Let_def repeats_from_iff MAX_INTERNAL_TRIGGER_DEPTH_def)

lemma derive_internal_causality_Inr:
  assumes "derive_internal_causality parent candidate ancestry = Inr c"
  shows "trg_id candidate \<notin> trg_id ` set ancestry"
    and "c = causality_derived (root_occurrence_id (occ_causality parent)) (occ_id parent) (causal_depth c)"
    and "unat (causal_depth c) = unat (causal_depth (occ_causality parent)) + 1"
    and "unat (causal_depth c) \<le> 32"
proof -
  from assms obtain d where d: "checked_add (causal_depth (occ_causality parent)) 1 = Some d" "d \<le> MAX_INTERNAL_TRIGGER_DEPTH"
    and c: "c = causality_derived (root_occurrence_id (occ_causality parent)) (occ_id parent) d"
    and new: "\<not> list_ex (\<lambda>a. trg_id a = trg_id candidate) ancestry"
    by (auto simp: derive_internal_causality_def split: if_splits option.splits)
  show "trg_id candidate \<notin> trg_id ` set ancestry" using new by (auto simp: list_ex_iff)
  show "c = causality_derived (root_occurrence_id (occ_causality parent)) (occ_id parent) (causal_depth c)"
    by (simp add: c causality_derived_def)
  show "unat (causal_depth c) = unat (causal_depth (occ_causality parent)) + 1"
    using unat_checked_add [OF d(1)] by (simp add: c causality_derived_def)
  show "unat (causal_depth c) \<le> 32"
    using d(2) by (simp add: c causality_derived_def MAX_INTERNAL_TRIGGER_DEPTH_def word_le_nat_alt)
qed

text \<open>A lineage as the server builds it: a root occurrence, then occurrences whose causality was
  derived from the last one and its complete ancestry.\<close>

inductive lineage :: "NormalizedTriggerOccurrence list \<Rightarrow> bool" where
  lineage_root: "occ_causality r = causality_root (occ_id r) \<Longrightarrow> lineage [r]"
| lineage_step: "lineage (os @ [p]) \<Longrightarrow>
    derive_internal_causality p (occ_trigger c) (map occ_trigger (os @ [p])) = Inr (occ_causality c) \<Longrightarrow>
    lineage (os @ [p, c])"

lemma lineage_invariant:
  "lineage os \<Longrightarrow> os \<noteq> [] \<and>
     validate_internal_ancestry (last os) (map occ_trigger os) = Inr () \<and>
     (\<forall>x\<in>set os. root_occurrence_id (occ_causality x) = occ_id (hd os))"
proof (induction rule: lineage.induct)
  case (lineage_root r)
  then show ?case by (simp add: validate_internal_ancestry_iff causality_root_def)
next
  case (lineage_step os p c)
  note d = derive_internal_causality_Inr [OF lineage_step(2)]
  from lineage_step.IH have anc: "length (os @ [p]) = unat (causal_depth (occ_causality p)) + 1"
    "distinct (map trg_id (map occ_trigger (os @ [p])))"
    and roots: "\<forall>x\<in>set (os @ [p]). root_occurrence_id (occ_causality x) = occ_id (hd (os @ [p]))"
    by (auto simp: validate_internal_ancestry_iff)
  have hd: "hd (os @ [p, c]) = hd (os @ [p])" by (cases os) auto
  have "root_occurrence_id (occ_causality c) = root_occurrence_id (occ_causality p)"
    using arg_cong [OF d(2), of root_occurrence_id] by (simp add: causality_derived_def)
  then have "\<forall>x\<in>set (os @ [p, c]). root_occurrence_id (occ_causality x) = occ_id (hd (os @ [p, c]))"
    using roots unfolding hd by auto
  moreover have "distinct (map trg_id (map occ_trigger (os @ [p, c])))"
    using anc(2) d(1) by (auto simp: image_image)
  ultimately show ?case using anc(1) d(3,4) by (simp add: validate_internal_ancestry_iff)
qed

section \<open>Schedule facts\<close>

lemma missed_run_limit_Inr: "missed_run_limit p = Inr n \<Longrightarrow> 1 \<le> n \<and> n \<le> 64"
  by (auto simp: missed_run_limit_def MAX_SCHEDULE_CATCH_UP_def word_le_nat_alt split: MissedRunPolicy.splits if_splits)

text \<open>\<open>chain step x ys z\<close>: \<open>ys\<close> are consecutive instants starting at \<open>x\<close>, and \<open>z\<close> is the next one.\<close>

fun chain :: "(timestamp \<Rightarrow> ScheduleInputError + timestamp) \<Rightarrow> timestamp \<Rightarrow> timestamp list \<Rightarrow> timestamp \<Rightarrow> bool" where
  "chain step x [] z = (x = z)"
| "chain step x (y # ys) z = (x = y \<and> (\<exists>n. step y = Inr n \<and> chain step n ys z))"

lemma chain_snoc: "chain step x (ys @ [y]) z \<longleftrightarrow> chain step x ys y \<and> step y = Inr z"
  by (induction ys arbitrary: x) auto

lemma chain_increasing:
  assumes "\<And>a b. step a = Inr b \<Longrightarrow> a < b"
  shows "chain step x ys z \<Longrightarrow> sorted_wrt (<) (ys @ [z]) \<and> x \<le> z \<and> (\<forall>y\<in>set ys. x \<le> y \<and> y < z)"
proof (induction ys arbitrary: x)
  case (Cons y ys)
  then obtain n where n: "x = y" "step y = Inr n" "chain step n ys z" by auto
  with Cons.IH [OF n(3)] assms [OF n(2)] show ?case by (auto intro: less_le_trans)
qed simp

lemma catch_up_loop_chain:
  "catch_up_loop step observed limit next occ = Inr (occ', next') \<Longrightarrow> chain step x occ next \<Longrightarrow>
     length occ \<le> limit \<Longrightarrow> (\<forall>o'\<in>set occ. o' \<le> observed) \<Longrightarrow>
     chain step x occ' next' \<and> length occ' \<le> limit \<and> (\<forall>o'\<in>set occ'. o' \<le> observed) \<and>
     (observed < next' \<or> length occ' = limit)"
proof (induction step observed limit "next" occ rule: catch_up_loop.induct)
  case (1 step observed limit "next" occ)
  show ?case
  proof (cases "next \<le> observed \<and> length occ < limit")
    case True
    with 1(2) obtain n where n: "step next = Inr n"
      and rest: "catch_up_loop step observed limit n (occ @ [next]) = Inr (occ', next')"
      by (subst (asm) catch_up_loop.simps) (auto split: sum.splits)
    have "chain step x (occ @ [next]) n" using 1(3) n by (simp add: chain_snoc)
    with 1(1) [OF True n rest] True 1(5) show ?thesis by auto
  next
    case False
    then have "occ' = occ" "next' = next" using 1(2) by (subst (asm) catch_up_loop.simps, auto)+
    with False 1(3-5) show ?thesis by auto
  qed
qed

section \<open>Properties\<close>

text \<open>Due batches are bounded, ordered and lose nothing (C37): for a calendar whose next instant is
  strictly later, a due batch has at most 64 occurrences, strictly increasing, none after the
  observation, starting with the stored cursor; nothing is selected before the cursor is due. A
  catch-up batch consists of consecutive instants followed by the new cursor, and stops early only
  at its limit; a run-once batch has one occurrence and continues after the observation.\<close>

theorem due_occurrences_sound:
  assumes strict: "\<And>s z t u. after cal s z t = Some u \<Longrightarrow> t < u"
    and "due_occurrences cal d next observed = Inr r"
  shows "length (due_list r) \<le> 64 \<and> sorted_wrt (<) (due_list r @ [next_occurrence_at r]) \<and>
    (\<forall>t\<in>set (due_list r). next \<le> t \<and> t \<le> observed) \<and>
    (due_list r = [] \<longleftrightarrow> observed < next) \<and>
    (observed < next \<longrightarrow> next_occurrence_at r = next) \<and>
    (next \<le> observed \<longrightarrow> hd (due_list r) = next \<and>
      (case missed_run_policy d of
         RunOnce \<Rightarrow> due_list r = [next] \<and> next_after cal d observed = Inr (next_occurrence_at r)
       | CatchUp n \<Rightarrow> chain (next_after cal d) next (due_list r) (next_occurrence_at r) \<and>
           (observed < next_occurrence_at r \<or> length (due_list r) = unat n)))"
proof -
  have step: "a < b" if "next_after cal d a = Inr b" for a b
  proof -
    from that obtain s z n where "after cal s z a = Some n" "from_unix_millis n = Inr b"
      by (auto simp: next_after_def next_timestamp_def res_simps)
    with strict [of s z a n] show ?thesis by (auto simp: from_unix_millis_def split: if_splits)
  qed
  show ?thesis
  proof (cases "observed < next")
    case True
    with assms(2) have "r = \<lparr>due_list = [], next_occurrence_at = next\<rparr>"
      by (auto simp: due_occurrences_def res_simps)
    with True show ?thesis by simp
  next
    case False
    show ?thesis
    proof (cases "missed_run_policy d")
      case RunOnce
      with False assms(2) obtain n where n: "next_after cal d observed = Inr n"
        and r: "r = \<lparr>due_list = [next], next_occurrence_at = n\<rparr>"
        by (auto simp: due_occurrences_def res_simps)
      with step [OF n] False RunOnce show ?thesis by simp
    next
      case (CatchUp m)
      with False assms(2) obtain limit occ n where limit: "missed_run_limit (CatchUp m) = Inr limit"
        and loop: "catch_up_loop (next_after cal d) observed limit next [] = Inr (occ, n)"
        and r: "r = \<lparr>due_list = occ, next_occurrence_at = n\<rparr>"
        by (auto simp: due_occurrences_def res_simps)
      have m: "limit = unat m" using limit by (auto simp: missed_run_limit_def split: if_splits)
      have bound: "1 \<le> limit" "limit \<le> 64" using missed_run_limit_Inr [OF limit] by auto
      have batch: "chain (next_after cal d) next occ n" "length occ \<le> limit" "\<forall>t\<in>set occ. t \<le> observed"
        "observed < n \<or> length occ = limit"
        using catch_up_loop_chain [OF loop, of "next"] by auto
      note inc = chain_increasing [OF step batch(1)]
      have "occ \<noteq> []" using batch(1,4) False bound by auto
      moreover from this have "hd occ = next" using batch(1) by (cases occ) auto
      ultimately show ?thesis using False CatchUp batch inc bound m by (auto simp: r)
    qed
  qed
qed

text \<open>A calendar with an instant every minute.\<close>

definition minutely :: "(unit, unit) calendar" where
  "minutely = \<lparr>cron = (\<lambda>_. Some ()), tz = (\<lambda>_. Some ()), after = (\<lambda>_ _ t. Some (60000 * (t div 60000 + 1)))\<rparr>"

definition sample_schedule :: ScheduleDefinition where
  "sample_schedule = \<lparr>expression = lit ''0 * * * * *'', timezone = lit ''UTC'', missed_run_policy = CatchUp 2\<rparr>"

theorem due_occurrences_sound_witness:
  "due_occurrences minutely sample_schedule 60000 330000 =
     Inr \<lparr>due_list = [60000, 120000], next_occurrence_at = 180000\<rparr> \<and>
   chain (next_after minutely sample_schedule) 60000 [60000, 120000] 180000"
proof -
  have strict: "after minutely s z t = Some u \<Longrightarrow> t < u" for s z t u
    by (auto simp: minutely_def)
  have run: "due_occurrences minutely sample_schedule 60000 330000 =
     Inr \<lparr>due_list = [60000, 120000], next_occurrence_at = 180000\<rparr>" by code_simp
  have "missed_run_policy sample_schedule = CatchUp 2" by (simp add: sample_schedule_def)
  with due_occurrences_sound [OF strict run] run show ?thesis by simp
qed

text \<open>Internal Triggers cannot loop: in every lineage the server can build, each stored ancestry
  passes its validation, no Trigger identity occurs twice, all occurrences share the root of the
  first, and there are at most 33 of them; the next derivation from the last one is refused exactly
  when the candidate already occurs or the depth ceiling of 32 is reached.\<close>

theorem internal_lineage_bounded:
  assumes "lineage os"
  shows "validate_internal_ancestry (last os) (map occ_trigger os) = Inr () \<and>
    distinct (map (\<lambda>x. trg_id (occ_trigger x)) os) \<and> length os \<le> 33 \<and>
    (\<forall>x\<in>set os. root_occurrence_id (occ_causality x) = occ_id (hd os)) \<and>
    (is_ok (derive_internal_causality (last os) candidate (map occ_trigger os)) \<longleftrightarrow>
       trg_id candidate \<notin> (\<lambda>x. trg_id (occ_trigger x)) ` set os \<and> length os \<le> 32)"
proof -
  from lineage_invariant [OF assms] have ne: "os \<noteq> []"
    and valid: "validate_internal_ancestry (last os) (map occ_trigger os) = Inr ()"
    and roots: "\<forall>x\<in>set os. root_occurrence_id (occ_causality x) = occ_id (hd os)" by auto
  let ?d = "causal_depth (occ_causality (last os))"
  have len: "length os = unat ?d + 1" "length os \<le> 33" and dist: "distinct (map trg_id (map occ_trigger os))"
    using valid by (simp_all add: validate_internal_ancestry_iff)
  have add: "checked_add ?d 1 = Some (?d + 1)" "unat (?d + 1) = unat ?d + 1"
    using len unat_checked_add [of ?d 1 "?d + 1"] by (auto simp: checked_add_def)
  have "?d + 1 \<le> MAX_INTERNAL_TRIGGER_DEPTH \<longleftrightarrow> length os \<le> 32"
    using len add(2) by (simp add: MAX_INTERNAL_TRIGGER_DEPTH_def word_le_nat_alt)
  moreover have "list_ex (\<lambda>a. trg_id a = trg_id candidate) (map occ_trigger os) \<longleftrightarrow>
      trg_id candidate \<in> (\<lambda>x. trg_id (occ_trigger x)) ` set os"
    by (auto simp: list_ex_iff intro: rev_image_eqI)
  ultimately have "is_ok (derive_internal_causality (last os) candidate (map occ_trigger os)) \<longleftrightarrow>
      trg_id candidate \<notin> (\<lambda>x. trg_id (occ_trigger x)) ` set os \<and> length os \<le> 32"
    by (simp add: derive_internal_causality_def add(1))
  with valid dist len roots show ?thesis by (simp add: comp_def)
qed

definition sample_occurrence :: "uuid \<Rightarrow> TriggerCausality \<Rightarrow> NormalizedTriggerOccurrence" where
  "sample_occurrence i c = \<lparr>occ_id = i, occ_trigger = \<lparr>trg_id = i, trg_version = 1\<rparr>,
     occ_target = \<lparr>configuration_id = 70, configuration_version = 1\<rparr>, deduplication_identity = lit ''k'',
     occ_cause = Cause_Internal 7 (lit ''build.failed''), occ_causality = c, provider_metadata = [], source_time = 0\<rparr>"

theorem internal_lineage_bounded_witness:
  "lineage [sample_occurrence 1 (causality_root 1), sample_occurrence 2 (causality_derived 1 1 1)] \<and>
   validate_internal_ancestry (sample_occurrence 2 (causality_derived 1 1 1))
     [\<lparr>trg_id = 1, trg_version = 1\<rparr>, \<lparr>trg_id = 2, trg_version = 1\<rparr>] = Inr ()"
proof -
  let ?r = "sample_occurrence 1 (causality_root 1)" and ?c = "sample_occurrence 2 (causality_derived 1 1 1)"
  have "lineage ([] @ [?r])" by (simp add: sample_occurrence_def lineage_root)
  moreover have "derive_internal_causality ?r (occ_trigger ?c) (map occ_trigger ([] @ [?r])) = Inr (occ_causality ?c)"
    by code_simp
  ultimately have "lineage ([] @ [?r, ?c])" by (rule lineage_step)
  then have l: "lineage [?r, ?c]" by simp
  from internal_lineage_bounded [OF this] l show ?thesis by (simp add: sample_occurrence_def)
qed

text \<open>Replay compares intent: two occurrences have the same stable intent exactly when they are
  equal, or when both are manual and differ at most in the time the server observed them; the same
  intent always means the same deduplication key.\<close>

theorem occurrence_intent_exact:
  "(occurrence_intent a = occurrence_intent b \<longleftrightarrow>
      a = b \<or> occ_cause a = Cause_Manual \<and> a\<lparr>source_time := source_time b\<rparr> = b) \<and>
   (occurrence_intent a = occurrence_intent b \<longrightarrow> deduplication_key a = deduplication_key b)"
proof -
  have manual: "cause_kind c = TK_Manual \<longleftrightarrow> c = Cause_Manual" for c by (cases c) (simp_all add: cause_kind_def)
  show ?thesis
    by (cases a; cases b) (auto simp: occurrence_intent_def deduplication_key_def manual)
qed

theorem occurrence_intent_exact_witness:
  "deduplication_key ((sample_occurrence 1 (causality_root 1))\<lparr>occ_cause := Cause_Manual\<rparr>) =
   deduplication_key ((sample_occurrence 1 (causality_root 1))\<lparr>occ_cause := Cause_Manual, source_time := 5\<rparr>)"
proof -
  let ?a = "(sample_occurrence 1 (causality_root 1))\<lparr>occ_cause := Cause_Manual\<rparr>"
  have "occurrence_intent ?a = occurrence_intent (?a\<lparr>source_time := 5\<rparr>)"
    by (simp add: occurrence_intent_def cause_kind_def)
  with occurrence_intent_exact [of ?a "?a\<lparr>source_time := 5\<rparr>"] show ?thesis by simp
qed

end
