(* ===== verification/Octa_Bytes.thy ===== *)
theory Octa_Bytes
  imports Octa_Contracts "HOL-Library.Code_Target_Nat"
begin

unbundle bit_operations_syntax

text \<open>
  Byte strings: big-endian encodings of integers, and the lowercase hexadecimal text of a byte
  array with the parser that several crates repeat.
\<close>

section \<open>Bytes\<close>

text \<open>\<^verbatim>\<open>to_be_bytes\<close> of an integer of \<open>n\<close> bytes; \<^verbatim>\<open>Uuid::as_bytes\<close> is the case of 16 bytes.\<close>

definition be_bytes :: "nat \<Rightarrow> 'w::len word \<Rightarrow> u8 list" where
  "be_bytes n w = map (\<lambda>i. ucast (drop_bit (8 * i) w)) (rev [0..<n])"

lemma length_be_bytes [simp]: "length (be_bytes n w) = n"
  by (simp add: be_bytes_def)

lemma be_bytes_inj:
  assumes "be_bytes n w = be_bytes n (w' :: 'w::len word)" and "LENGTH('w) \<le> 8 * n"
  shows "w = w'"
proof (rule bit_word_eqI)
  fix k assume k: "k < LENGTH('w)"
  have "map (\<lambda>i. ucast (drop_bit (8 * i) w) :: u8) [0..<n] = map (\<lambda>i. ucast (drop_bit (8 * i) w')) [0..<n]"
    using assms(1) unfolding be_bytes_def rev_map [symmetric] by (simp only: rev_is_rev_conv)
  moreover have "k div 8 < n" using k assms(2) by simp
  ultimately have "(ucast (drop_bit (8 * (k div 8)) w) :: u8) = ucast (drop_bit (8 * (k div 8)) w')"
    by (simp add: map_eq_conv)
  then have "bit (ucast (drop_bit (8 * (k div 8)) w) :: u8) (k mod 8) =
      bit (ucast (drop_bit (8 * (k div 8)) w') :: u8) (k mod 8)" by simp
  then show "bit w k = bit w' k" using k by (simp add: bit_ucast_iff bit_drop_bit_eq)
qed

lemma append_eq_same_length:
  "length a = length b \<Longrightarrow> a @ x = b @ y \<longleftrightarrow> a = b \<and> x = y"
  by simp

section \<open>Hexadecimal text\<close>

definition is_lower_hex :: "rchar \<Rightarrow> bool" where
  "is_lower_hex c \<longleftrightarrow> is_ascii_digit c \<or> 97 \<le> c \<and> c \<le> 102"

text \<open>The value of a lowercase digit, \<^verbatim>\<open>hex_digit\<close> of the artifacts crate, where \<open>None\<close> is the
  \<^verbatim>\<open>unreachable!\<close> panic, and \<^verbatim>\<open>hex_nibble\<close> of the cache crate.\<close>

definition hex_digit :: "u8 \<Rightarrow> u8 option" where
  "hex_digit v =
     (if 48 \<le> v \<and> v \<le> 57 then Some (v - 48)
      else if 97 \<le> v \<and> v \<le> 102 then Some (v - 97 + 10)
      else None)"

fun hex_pairs :: "u8 list \<Rightarrow> u8 list option" where
  "hex_pairs (a # b # rest) =
     Option.bind (hex_digit a) (\<lambda>hi. Option.bind (hex_digit b) (\<lambda>lo.
     Option.bind (hex_pairs rest) (\<lambda>digest. Some ((push_bit 4 hi OR lo) # digest))))"
| "hex_pairs _ = Some []"

definition hex_char :: "nat \<Rightarrow> rchar" where
  "hex_char n = (if n < 10 then 48 + n else 87 + n)"

definition digest_display :: "u8 list \<Rightarrow> rstr" where
  "digest_display d = concat (map (\<lambda>b. [hex_char (unat b div 16), hex_char (unat b mod 16)]) d)"

lemma byte_bound: "unat (b :: u8) < 256"
  using unsigned_less [of b] by simp

lemma hex_char_lower: "n < 16 \<Longrightarrow> is_lower_hex (hex_char n)"
  by (simp add: is_lower_hex_def hex_char_def is_ascii_digit_def)

lemma hex_digit_char: "\<forall>n\<in>set [0..<16]. hex_digit (of_nat (hex_char n)) = Some (of_nat n)"
  by code_simp

lemma hex_join: "\<forall>h\<in>set [0..<16]. \<forall>l\<in>set [0..<16]. unat (push_bit 4 (of_nat h) OR of_nat l :: u8) = 16 * h + l"
  by (simp add: upt_rec)

lemma lower_hex_char: "is_lower_hex c \<Longrightarrow> \<exists>n<16. c = hex_char n"
proof -
  assume c: "is_lower_hex c"
  then have "(if c \<le> 57 then c - 48 else c - 87) < 16 \<and> c = hex_char (if c \<le> 57 then c - 48 else c - 87)"
    by (auto simp: is_lower_hex_def is_ascii_digit_def hex_char_def)
  then show ?thesis by blast
qed

lemma hex_pair:
  assumes "h < 16" and "l < 16"
  shows "hex_pairs (of_nat (hex_char h) # of_nat (hex_char l) # rest) =
    map_option (\<lambda>d. of_nat (16 * h + l) # d) (hex_pairs rest)"
proof -
  have digits: "hex_digit (of_nat (hex_char h)) = Some (of_nat h)" "hex_digit (of_nat (hex_char l)) = Some (of_nat l)"
    using hex_digit_char assms by auto
  have "unat (push_bit 4 (of_nat h) OR of_nat l :: u8) = 16 * h + l" using hex_join assms by auto
  then have join: "(push_bit 4 (of_nat h) OR of_nat l :: u8) = of_nat (16 * h + l)"
    using assms by (simp add: word_unat_eq_iff unat_of_nat del: of_nat_add of_nat_mult)
  show ?thesis by (cases "hex_pairs rest") (simp_all add: digits join del: of_nat_add of_nat_mult)
qed

lemma hex_pairs_display: "hex_pairs (map of_nat (digest_display d)) = Some d"
proof (induction d)
  case (Cons b d)
  have b: "unat b < 256" by (rule byte_bound)
  have "(of_nat (16 * (unat b div 16) + unat b mod 16) :: u8) = b" by simp
  with Cons hex_pair [of "unat b div 16" "unat b mod 16" "map of_nat (digest_display d)"] b show ?case
    by (simp add: digest_display_def del: of_nat_add of_nat_mult)
qed (simp add: digest_display_def)

lemma display_lower_hex: "c \<in> set (digest_display d) \<Longrightarrow> is_lower_hex c"
  using byte_bound by (auto simp: digest_display_def less_mult_imp_div_less intro!: hex_char_lower)

lemma length_display: "length (digest_display d) = 2 * length d"
  by (induction d) (simp_all add: digest_display_def)

lemma lower_hex_ascii: "\<forall>c\<in>set s. is_lower_hex c \<Longrightarrow> str_len s = length s"
  by (rule str_len_ascii) (auto simp: is_lower_hex_def is_ascii_digit_def)

text \<open>Every text of hexadecimal pairs is the printed form of the digest it parses to.\<close>

lemma display_hex_pairs:
  "even (length s) \<Longrightarrow> \<forall>c\<in>set s. is_lower_hex c \<Longrightarrow>
     \<exists>d. hex_pairs (map of_nat s) = Some d \<and> digest_display d = s"
proof (induction s rule: induct_list012)
  case (3 a b s)
  from 3(3,4) obtain d where d: "hex_pairs (map of_nat s) = Some d" "digest_display d = s"
    using "3.IH"(1) by auto
  obtain h l where hl: "h < 16" "l < 16" "a = hex_char h" "b = hex_char l"
    using 3(4) lower_hex_char [of a] lower_hex_char [of b] by auto
  have u: "unat (of_nat (16 * h + l) :: u8) = 16 * h + l"
    using hl(1,2) by (simp add: unat_of_nat del: of_nat_add of_nat_mult)
  have "digest_display (of_nat (16 * h + l) # d) = a # b # s"
    using d(2) hl by (simp add: digest_display_def u del: of_nat_add of_nat_mult)
  moreover have "hex_pairs (map of_nat (a # b # s)) = Some (of_nat (16 * h + l) # d)"
    using hex_pair [OF hl(1,2), of "map of_nat s"] d(1)
    by (simp add: hl(3,4) del: hex_pairs.simps of_nat_add of_nat_mult)
  ultimately show ?case by blast
qed (simp_all add: digest_display_def)

end
