(* ===== verification/Artifacts.thy ===== *)
theory Artifacts
  imports Domain Octa_Bytes
begin

text \<open>
  Artifacts, \<^verbatim>\<open>server/core/octacity-server-artifacts\<close>: the publication state machine, the record with
  its optimistic version and retention, hexadecimal content digests, and the manifests of log
  chunks. SHA-256, the name-based UUIDs of version 5 and the text of a UUID belong to third-party
  crates and are arguments.
\<close>

section \<open>State machine\<close>

datatype ArtifactState = Art_Pending | Art_Verifying | Art_Published | Art_Expired | Art_Deleted

datatype ArtifactEvent = AE_BeginVerification | AE_VerificationFailed | AE_Publish | AE_Expire | AE_Delete

definition artifact_state_as_str :: "ArtifactState \<Rightarrow> rstr" where
  "artifact_state_as_str s = (case s of
     Art_Pending \<Rightarrow> lit ''pending'' | Art_Verifying \<Rightarrow> lit ''verifying'' | Art_Published \<Rightarrow> lit ''published''
   | Art_Expired \<Rightarrow> lit ''expired'' | Art_Deleted \<Rightarrow> lit ''deleted'')"

fun artifact_transition ::
  "ArtifactState \<Rightarrow> ArtifactEvent \<Rightarrow> (ArtifactState, ArtifactEvent) TransitionError + ArtifactState"
where
  "artifact_transition Art_Pending AE_BeginVerification = Inr Art_Verifying"
| "artifact_transition Art_Pending AE_Delete = Inr Art_Deleted"
| "artifact_transition Art_Expired AE_Delete = Inr Art_Deleted"
| "artifact_transition Art_Verifying AE_VerificationFailed = Inr Art_Pending"
| "artifact_transition Art_Verifying AE_Publish = Inr Art_Published"
| "artifact_transition Art_Published AE_Expire = Inr Art_Expired"
| "artifact_transition s e = Inl (TransitionError EK_Artifact s e)"

definition artifact_is_visible :: "ArtifactState \<Rightarrow> bool" where
  "artifact_is_visible s = (s = Art_Published)"

definition artifact_state_from_str :: "rstr \<Rightarrow> unit + ArtifactState" where
  "artifact_state_from_str v =
     (if v = lit ''pending'' then Inr Art_Pending
      else if v = lit ''verifying'' then Inr Art_Verifying
      else if v = lit ''published'' then Inr Art_Published
      else if v = lit ''expired'' then Inr Art_Expired
      else if v = lit ''deleted'' then Inr Art_Deleted
      else Inl ())"

section \<open>Values\<close>

definition MAX_ARTIFACT_MEDIA_TYPE_BYTES :: nat where "MAX_ARTIFACT_MEDIA_TYPE_BYTES = 256"
definition MAX_ARTIFACT_REPORT_FORMAT_BYTES :: nat where "MAX_ARTIFACT_REPORT_FORMAT_BYTES = 256"

datatype ArtifactRecordError =
    InvalidDigest | InvalidMediaType | InvalidReportFormat | InvalidRetention | InvalidPersistedShape
  | ARE_InvalidTransition | InvalidTransitionTime | RetentionNotReached | ImmutableIdentityMismatch
  | ARE_VersionConflict | VersionOverflow

text \<open>A digest is an array of 32 bytes.\<close>

type_synonym ArtifactContentDigest = "u8 list"

text \<open>The byte tests accept ASCII only, so on accepted text the bytes are the characters.\<close>

definition digest_from_lower_hex :: "rstr \<Rightarrow> (ArtifactRecordError + ArtifactContentDigest) option" where
  "digest_from_lower_hex v =
     (if str_len v \<noteq> 64 \<or> \<not> list_all is_lower_hex v then Some (Inl InvalidDigest)
      else map_option Inr (hex_pairs (map of_nat v)))"

text \<open>\<^verbatim>\<open>bounded_text!\<close>.\<close>

definition bounded_text_new :: "nat \<Rightarrow> ArtifactRecordError \<Rightarrow> rstr \<Rightarrow> ArtifactRecordError + rstr" where
  "bounded_text_new limit err v =
     (if v = [] \<or> limit < str_len v \<or> trim v \<noteq> v \<or> list_ex is_control v then Inl err else Inr v)"

definition artifact_media_type_new :: "rstr \<Rightarrow> ArtifactRecordError + rstr" where
  "artifact_media_type_new = bounded_text_new MAX_ARTIFACT_MEDIA_TYPE_BYTES InvalidMediaType"

definition artifact_report_format_new :: "rstr \<Rightarrow> ArtifactRecordError + rstr" where
  "artifact_report_format_new = bounded_text_new MAX_ARTIFACT_REPORT_FORMAT_BYTES InvalidReportFormat"

datatype ArtifactType = AT_Artifact | AT_Report rstr

definition artifact_type_as_str :: "ArtifactType \<Rightarrow> rstr" where
  "artifact_type_as_str t = (case t of AT_Artifact \<Rightarrow> lit ''artifact'' | AT_Report _ \<Rightarrow> lit ''report'')"

definition artifact_report_format :: "ArtifactType \<Rightarrow> rstr option" where
  "artifact_report_format t = (case t of AT_Artifact \<Rightarrow> None | AT_Report f \<Rightarrow> Some f)"

datatype ArtifactRetentionPolicy = Keep | DeleteAfter timestamp

definition delete_after :: "ArtifactRetentionPolicy \<Rightarrow> timestamp option" where
  "delete_after p = (case p of Keep \<Rightarrow> None | DeleteAfter v \<Rightarrow> Some v)"

section \<open>Records\<close>

record ArtifactIdentity =
  artifact_id :: uuid
  ai_build_id :: uuid
  ai_attempt_id :: uuid
  ai_job_id :: uuid
  ai_lease_id :: uuid
  logical_name :: rstr
  artifact_type :: ArtifactType
  media_type :: rstr
  size_bytes :: u64
  ai_digest :: ArtifactContentDigest
  retention :: ArtifactRetentionPolicy

record ArtifactRecord =
  ar_identity :: ArtifactIdentity
  ar_state :: ArtifactState
  ar_version :: u64
  created_at :: timestamp
  published_at :: "timestamp option"
  deleted_at :: "timestamp option"

definition artifact_pending :: "ArtifactIdentity \<Rightarrow> timestamp \<Rightarrow> ArtifactRecordError + ArtifactRecord" where
  "artifact_pending identity created =
     (if is_some_and (\<lambda>deadline. deadline \<le> created) (delete_after (retention identity)) then Inl InvalidRetention
      else Inr \<lparr>ar_identity = identity, ar_state = Art_Pending, ar_version = version_initial,
             created_at = created, published_at = None, deleted_at = None\<rparr>)"

definition timestamps_match_state :: "ArtifactRecord \<Rightarrow> bool" where
  "timestamps_match_state r = (case ar_state r of
     Art_Pending \<Rightarrow> published_at r = None \<and> deleted_at r = None
   | Art_Verifying \<Rightarrow> published_at r = None \<and> deleted_at r = None
   | Art_Published \<Rightarrow> published_at r \<noteq> None \<and> deleted_at r = None
   | Art_Expired \<Rightarrow> published_at r \<noteq> None \<and> deleted_at r = None
   | Art_Deleted \<Rightarrow> deleted_at r \<noteq> None)"

definition validate_shape :: "ArtifactRecord \<Rightarrow> ArtifactRecordError + unit" where
  "validate_shape r =
     (if is_some_and (\<lambda>deadline. deadline \<le> created_at r) (delete_after (retention (ar_identity r)))
      then Inl InvalidRetention
      else if \<not> timestamps_match_state r
        \<or> is_some_and (\<lambda>v. v < created_at r) (published_at r)
        \<or> is_some_and (\<lambda>v. v < created_at r) (deleted_at r)
        \<or> (case (published_at r, deleted_at r) of (Some p, Some d) \<Rightarrow> d < p | _ \<Rightarrow> False)
      then Inl InvalidPersistedShape
      else Inr ())"

definition artifact_restore ::
  "ArtifactIdentity \<Rightarrow> ArtifactState \<Rightarrow> u64 \<Rightarrow> timestamp \<Rightarrow> timestamp option \<Rightarrow> timestamp option \<Rightarrow>
     ArtifactRecordError + ArtifactRecord"
where
  "artifact_restore identity state version created published deleted =
     (let r = \<lparr>ar_identity = identity, ar_state = state, ar_version = version,
                created_at = created, published_at = published, deleted_at = deleted\<rparr>
      in and_then (validate_shape r) (\<lambda>_. Inr r))"

definition retention_reached :: "ArtifactRetentionPolicy \<Rightarrow> timestamp \<Rightarrow> bool" where
  "retention_reached p at = (case p of Keep \<Rightarrow> False | DeleteAfter deadline \<Rightarrow> \<not> at < deadline)"

text \<open>The clone of the record with its new state, version and timestamps.\<close>

definition record_update :: "ArtifactRecord \<Rightarrow> ArtifactState \<Rightarrow> u64 \<Rightarrow> ArtifactEvent \<Rightarrow> timestamp \<Rightarrow> ArtifactRecord" where
  "record_update r state version event at =
     (let updated = r\<lparr>ar_state := state, ar_version := version\<rparr>;
          updated = (if event = AE_Publish then updated\<lparr>published_at := Some at\<rparr> else updated)
      in if event = AE_Delete then updated\<lparr>deleted_at := Some at\<rparr> else updated)"

definition record_transition ::
  "ArtifactRecord \<Rightarrow> ArtifactIdentity \<Rightarrow> u64 \<Rightarrow> ArtifactEvent \<Rightarrow> timestamp \<Rightarrow> ArtifactRecordError + ArtifactRecord"
where
  "record_transition r expected_identity expected_version event at =
     (if ar_identity r \<noteq> expected_identity then Inl ImmutableIdentityMismatch
      else if ar_version r \<noteq> expected_version then Inl ARE_VersionConflict
      else if at < created_at r \<or> is_some_and (\<lambda>p. at < p) (published_at r) then Inl InvalidTransitionTime
      else if event = AE_Expire \<and> \<not> retention_reached (retention (ar_identity r)) at then Inl RetentionNotReached
      else
        and_then (map_err (\<lambda>_. ARE_InvalidTransition) (artifact_transition (ar_state r) event)) (\<lambda>state.
        and_then (map_err (\<lambda>_. VersionOverflow) (version_next EK_Artifact (ar_version r))) (\<lambda>version.
        let updated = record_update r state version event at
        in and_then (validate_shape updated) (\<lambda>_. Inr updated))))"

section \<open>Log chunks\<close>

definition MAX_LOG_CHUNK_BYTES :: nat where "MAX_LOG_CHUNK_BYTES = 256 * 1024"

definition CHUNK_NAMESPACE :: uuid where "CHUNK_NAMESPACE = 0x514a903d06815f0ea199e9d721d543f0"
definition WORK_NAMESPACE :: uuid where "WORK_NAMESPACE = 0x6614a6a253345d068e1093ad239b736e"

datatype BuildLogStream = Stdout | Stderr

datatype LogChunkManifestError =
    LC_InvalidSequenceRange | LC_InvalidByteLength | LC_InvalidIdentity | LC_ByteLengthMismatch | LC_DigestMismatch

record LogChunkManifest =
  chunk_id :: uuid
  indexing_work_id :: uuid
  log_stream :: BuildLogStream
  first_sequence :: u64
  last_sequence :: u64
  byte_length :: u64
  chunk_digest :: "u8 list"
  object_identity :: rstr

record StoredLogChunkManifest =
  sl_chunk_id :: uuid
  sl_job_id :: uuid
  sl_stream :: BuildLogStream
  sl_first_sequence :: u64
  sl_last_sequence :: u64
  sl_byte_length :: u64
  sl_digest :: "u8 list"
  sl_object_identity :: rstr

text \<open>The third-party functions a manifest depends on.\<close>

record log_crypto =
  sha256 :: "u8 list \<Rightarrow> u8 list"
  uuid_v5 :: "uuid \<Rightarrow> u8 list \<Rightarrow> uuid"
  uuid_text :: "uuid \<Rightarrow> rstr"

definition identity_bytes :: "uuid \<Rightarrow> BuildLogStream \<Rightarrow> u64 \<Rightarrow> u64 \<Rightarrow> u8 list \<Rightarrow> u8 list" where
  "identity_bytes job stream first_seq last_seq digest =
     be_bytes 16 job @ [case stream of Stdout \<Rightarrow> 1 | Stderr \<Rightarrow> 2] @ be_bytes 8 first_seq @ be_bytes 8 last_seq @ digest"

definition identities ::
  "log_crypto \<Rightarrow> uuid \<Rightarrow> BuildLogStream \<Rightarrow> u64 \<Rightarrow> u64 \<Rightarrow> u8 list \<Rightarrow> LogChunkManifestError + uuid \<times> uuid"
where
  "identities lc job stream first_seq last_seq digest =
     and_then (map_err (\<lambda>_. LC_InvalidIdentity) (id_from_uuid EK_LogChunk
       (uuid_v5 lc CHUNK_NAMESPACE (identity_bytes job stream first_seq last_seq digest)))) (\<lambda>chunk.
     and_then (map_err (\<lambda>_. LC_InvalidIdentity) (id_from_uuid EK_LogIndexingWork
       (uuid_v5 lc WORK_NAMESPACE (be_bytes 16 chunk)))) (\<lambda>work.
     Inr (chunk, work)))"

definition chunk_object_identity :: "log_crypto \<Rightarrow> uuid \<Rightarrow> u8 list \<Rightarrow> rstr" where
  "chunk_object_identity lc chunk digest =
     lit ''log-chunk:v1:'' @ uuid_text lc chunk @ lit '':'' @ digest_display digest"

definition log_prepare ::
  "log_crypto \<Rightarrow> uuid \<Rightarrow> BuildLogStream \<Rightarrow> u64 \<Rightarrow> u64 \<Rightarrow> u8 list \<Rightarrow> LogChunkManifestError + LogChunkManifest"
where
  "log_prepare lc job stream first_seq last_seq bytes =
     (if first_seq = 0 \<or> last_seq < first_seq then Inl LC_InvalidSequenceRange
      else if bytes = [] \<or> MAX_LOG_CHUNK_BYTES < length bytes then Inl LC_InvalidByteLength
      else let digest = sha256 lc bytes in
        and_then (identities lc job stream first_seq last_seq digest) (\<lambda>(chunk, work).
        Inr \<lparr>chunk_id = chunk, indexing_work_id = work, log_stream = stream, first_sequence = first_seq,
             last_sequence = last_seq, byte_length = of_nat (length bytes), chunk_digest = digest,
             object_identity = chunk_object_identity lc chunk digest\<rparr>))"

definition log_restore :: "log_crypto \<Rightarrow> StoredLogChunkManifest \<Rightarrow> LogChunkManifestError + LogChunkManifest" where
  "log_restore lc s =
     (if sl_first_sequence s = 0 \<or> sl_last_sequence s < sl_first_sequence s then Inl LC_InvalidSequenceRange
      else if sl_byte_length s = 0 \<or> of_nat MAX_LOG_CHUNK_BYTES < sl_byte_length s then Inl LC_InvalidByteLength
      else and_then (identities lc (sl_job_id s) (sl_stream s) (sl_first_sequence s) (sl_last_sequence s) (sl_digest s))
        (\<lambda>(expected, work).
        if expected \<noteq> sl_chunk_id s \<or>
            sl_object_identity s \<noteq> chunk_object_identity lc (sl_chunk_id s) (sl_digest s)
        then Inl LC_InvalidIdentity
        else Inr \<lparr>chunk_id = sl_chunk_id s, indexing_work_id = work, log_stream = sl_stream s,
               first_sequence = sl_first_sequence s, last_sequence = sl_last_sequence s,
               byte_length = sl_byte_length s, chunk_digest = sl_digest s,
               object_identity = sl_object_identity s\<rparr>))"

definition log_verify :: "log_crypto \<Rightarrow> LogChunkManifest \<Rightarrow> u8 list \<Rightarrow> LogChunkManifestError + unit" where
  "log_verify lc m bytes =
     (if of_nat (length bytes) \<noteq> byte_length m then Inl LC_ByteLengthMismatch
      else if sha256 lc bytes \<noteq> chunk_digest m then Inl LC_DigestMismatch
      else Inr ())"

text \<open>What an adapter stores of a manifest of one Job.\<close>

definition stored_of :: "uuid \<Rightarrow> LogChunkManifest \<Rightarrow> StoredLogChunkManifest" where
  "stored_of job m = \<lparr>sl_chunk_id = chunk_id m, sl_job_id = job, sl_stream = log_stream m,
     sl_first_sequence = first_sequence m, sl_last_sequence = last_sequence m, sl_byte_length = byte_length m,
     sl_digest = chunk_digest m, sl_object_identity = object_identity m\<rparr>"

section \<open>Record lifecycles\<close>

text \<open>One mutation request: the expected identity and version, the event and its time.\<close>

type_synonym artifact_request = "ArtifactIdentity \<times> u64 \<times> ArtifactEvent \<times> timestamp"

definition record_step :: "ArtifactRecord \<Rightarrow> artifact_request \<Rightarrow> ArtifactRecordError + ArtifactRecord" where
  "record_step r q = (case q of (i, v, e, at) \<Rightarrow> record_transition r i v e at)"

lemma record_update_simps [simp]:
  "ar_identity (record_update r s v e at) = ar_identity r"
  "ar_state (record_update r s v e at) = s"
  "ar_version (record_update r s v e at) = v"
  "created_at (record_update r s v e at) = created_at r"
  "published_at (record_update r s v e at) = (if e = AE_Publish then Some at else published_at r)"
  "deleted_at (record_update r s v e at) = (if e = AE_Delete then Some at else deleted_at r)"
  by (simp_all add: record_update_def Let_def)

lemma record_transition_cases:
  assumes "record_transition r i v e at = Inr r'"
  obtains s w where "r' = record_update r s w e at" "i = ar_identity r" "v = ar_version r"
    "artifact_transition (ar_state r) e = Inr s" "checked_add (ar_version r) 1 = Some w"
    "created_at r \<le> at" "\<not> is_some_and (\<lambda>p. at < p) (published_at r)" "validate_shape r' = Inr ()"
    "e = AE_Expire \<Longrightarrow> retention_reached (retention (ar_identity r)) at"
proof -
  from assms have guards: "i = ar_identity r" "v = ar_version r" "created_at r \<le> at"
    "\<not> is_some_and (\<lambda>p. at < p) (published_at r)" "e = AE_Expire \<Longrightarrow> retention_reached (retention (ar_identity r)) at"
    by (auto simp: record_transition_def split: if_splits)
  with assms obtain s w where "artifact_transition (ar_state r) e = Inr s" "checked_add (ar_version r) 1 = Some w"
    "validate_shape (record_update r s w e at) = Inr ()" "r' = record_update r s w e at"
    unfolding record_transition_def version_next_def by (auto simp: Let_def res_simps simp del: record_update_simps split: if_splits)
  with guards that show ?thesis by blast
qed

interpretation artifact_versions: versioned_entity record_step ar_version
  by unfold_locales (auto simp: record_step_def elim!: record_transition_cases)

interpretation artifact_life: lifecycle record_step "\<lambda>r. ar_state r = Art_Deleted"
proof
  fix r q r' assume "ar_state r = Art_Deleted" and "record_step r q = Inr r'"
  then have "\<exists>e. artifact_transition Art_Deleted e = Inr (ar_state r')"
    by (cases q) (auto simp: record_step_def elim!: record_transition_cases)
  then obtain e where "artifact_transition Art_Deleted e = Inr (ar_state r')" ..
  then show "r' = r" by (cases e) simp_all
qed

lemma pending_Inr:
  assumes "artifact_pending identity t = Inr r"
  shows "ar_identity r = identity" "created_at r = t" "ar_version r = 1" "ar_state r = Art_Pending"
    "published_at r = None" "deleted_at r = None" "validate_shape r = Inr ()"
  using assms
  by (auto simp: artifact_pending_def version_initial_def validate_shape_def timestamps_match_state_def
      is_some_and_def split: if_splits option.splits)

lemma run_identity:
  "run_events record_step r es = Inr r' \<Longrightarrow> ar_identity r' = ar_identity r \<and> created_at r' = created_at r"
proof (induction es arbitrary: r)
  case (Cons q es)
  then obtain t where t: "record_step r q = Inr t" "run_events record_step t es = Inr r'" by (auto simp: res_simps)
  obtain i v e at where q: "q = (i, v, e, at)" by (cases q)
  from Cons.IH [OF t(2)] t(1) show ?case
    by (auto simp: q record_step_def elim!: record_transition_cases)
qed simp

lemma restore_own_fields:
  "validate_shape r = Inr () \<Longrightarrow>
     artifact_restore (ar_identity r) (ar_state r) (ar_version r) (created_at r) (published_at r) (deleted_at r) = Inr r"
  by (cases r) (simp add: artifact_restore_def)

text \<open>The final shape check of a transition never fails on a record of valid shape.\<close>

lemma shape_step:
  assumes "validate_shape r = Inr ()" and "artifact_transition (ar_state r) e = Inr s"
    and "created_at r \<le> at" and "\<not> is_some_and (\<lambda>p. at < p) (published_at r)"
  shows "validate_shape (record_update r s v e at) = Inr ()"
  using assms
  by (cases "ar_state r"; cases e)
    (auto simp: validate_shape_def timestamps_match_state_def is_some_and_def split: if_splits option.splits)

lemma record_transition_exact:
  assumes "validate_shape r = Inr ()"
  shows "record_transition r i v e at =
    (if ar_identity r \<noteq> i then Inl ImmutableIdentityMismatch
     else if ar_version r \<noteq> v then Inl ARE_VersionConflict
     else if at < created_at r \<or> is_some_and (\<lambda>p. at < p) (published_at r) then Inl InvalidTransitionTime
     else if e = AE_Expire \<and> \<not> retention_reached (retention (ar_identity r)) at then Inl RetentionNotReached
     else case artifact_transition (ar_state r) e of
       Inl _ \<Rightarrow> Inl ARE_InvalidTransition
     | Inr s \<Rightarrow> (case checked_add v 1 of None \<Rightarrow> Inl VersionOverflow | Some w \<Rightarrow> Inr (record_update r s w e at)))"
proof (cases "artifact_transition (ar_state r) e")
  case (Inr s)
  show ?thesis
    using shape_step [OF assms Inr, of at]
    unfolding record_transition_def Inr version_next_def by (cases "checked_add v 1") (simp_all add: Let_def)
next
  case (Inl a)
  then show ?thesis by (simp add: record_transition_def)
qed

text \<open>What holds of every record of the server: its shape is valid, and only an Artifact with a
  deadline has lost its visibility after publication.\<close>

definition artifact_inv :: "ArtifactRecord \<Rightarrow> bool" where
  "artifact_inv r \<longleftrightarrow> validate_shape r = Inr () \<and>
     (published_at r \<noteq> None \<and> ar_state r \<noteq> Art_Published \<longrightarrow> retention (ar_identity r) \<noteq> Keep)"

interpretation artifact_invariant: invariant_system record_step artifact_inv
proof
  fix r q r' assume inv: "artifact_inv r" and "record_step r q = Inr r'"
  then obtain i v e at where tr: "record_transition r i v e at = Inr r'" by (cases q) (simp add: record_step_def)
  from tr inv show "artifact_inv r'"
  proof (cases rule: record_transition_cases)
    case (1 s w)
    have "published_at r \<noteq> None \<and> ar_state r \<noteq> Art_Published \<longrightarrow> retention (ar_identity r) \<noteq> Keep"
      and "validate_shape r = Inr ()" using inv by (simp_all add: artifact_inv_def)
    with 1 show ?thesis
      by (cases "ar_state r"; cases e)
        (auto simp: artifact_inv_def retention_reached_def validate_shape_def timestamps_match_state_def
          split: if_splits)
  qed
qed

section \<open>Manifest facts\<close>

lemma identity_bytes_inj:
  "identity_bytes j s f l d = identity_bytes j' s' f' l' d' \<longleftrightarrow> j = j' \<and> s = s' \<and> f = f' \<and> l = l' \<and> d = d'"
  by (auto simp: identity_bytes_def append_eq_same_length dest: be_bytes_inj split: BuildLogStream.splits)

lemma log_prepare_cases:
  assumes "log_prepare lc j s f l bytes = Inr m"
  obtains chunk work where "f \<noteq> 0" "f \<le> l" "bytes \<noteq> []" "length bytes \<le> 262144"
    "identities lc j s f l (sha256 lc bytes) = Inr (chunk, work)"
    "m = \<lparr>chunk_id = chunk, indexing_work_id = work, log_stream = s, first_sequence = f, last_sequence = l,
       byte_length = of_nat (length bytes), chunk_digest = sha256 lc bytes,
       object_identity = chunk_object_identity lc chunk (sha256 lc bytes)\<rparr>"
  using assms by (auto simp: log_prepare_def MAX_LOG_CHUNK_BYTES_def Let_def res_simps split: if_splits)

lemma identities_chunk:
  "identities lc j s f l d = Inr (chunk, work) \<Longrightarrow> chunk = uuid_v5 lc CHUNK_NAMESPACE (identity_bytes j s f l d)"
  by (auto simp: identities_def id_from_uuid_def res_simps split: if_splits)

lemma prepared_chunk:
  "log_prepare lc j s f l bytes = Inr m \<Longrightarrow>
     chunk_id m = uuid_v5 lc CHUNK_NAMESPACE (identity_bytes j s f l (chunk_digest m))"
  by (elim log_prepare_cases) (simp add: identities_chunk)

lemma log_length_bounds:
  assumes "bytes \<noteq> []" and "length bytes \<le> 262144"
  shows "unat (of_nat (length bytes) :: u64) = length bytes"
    "\<not> (of_nat MAX_LOG_CHUNK_BYTES < (of_nat (length bytes) :: u64))" "(of_nat (length bytes) :: u64) \<noteq> 0"
proof -
  show u: "unat (of_nat (length bytes) :: u64) = length bytes" using assms(2) by (simp add: unat_of_nat)
  then show "\<not> (of_nat MAX_LOG_CHUNK_BYTES < (of_nat (length bytes) :: u64))"
    using assms(2) by (simp add: word_less_nat_alt MAX_LOG_CHUNK_BYTES_def)
  show "(of_nat (length bytes) :: u64) \<noteq> 0" using u assms(1) by (metis length_0_conv unat_0)
qed

section \<open>Properties\<close>

text \<open>Artifact records keep their shape (C38): whatever sequence of accepted requests follows a
  reservation, the record keeps its immutable identity, its version counts the accepted requests,
  its fields restore to the same record, and no further request fails on the shape of the stored
  record. An Artifact that is to be kept is visible from its publication on, and a deleted one
  accepts no request.\<close>

theorem artifact_record_life:
  assumes "artifact_pending identity t = Inr r0" and "run_events record_step r0 es = Inr r"
  shows "ar_identity r = identity \<and> created_at r = t \<and> unat (ar_version r) = Suc (length es) \<and>
    artifact_restore (ar_identity r) (ar_state r) (ar_version r) (created_at r) (published_at r) (deleted_at r) = Inr r \<and>
    (\<forall>q. record_step r q \<noteq> Inl InvalidPersistedShape \<and> record_step r q \<noteq> Inl InvalidRetention) \<and>
    (retention identity = Keep \<longrightarrow> (published_at r \<noteq> None \<longleftrightarrow> artifact_is_visible (ar_state r))) \<and>
    (ar_state r = Art_Deleted \<longrightarrow> (\<forall>q. \<not> is_ok (record_step r q)))"
proof -
  note p = pending_Inr [OF assms(1)]
  have id: "ar_identity r = identity" "created_at r = t" using run_identity [OF assms(2)] p by simp_all
  have version: "unat (ar_version r) = Suc (length es)"
    using artifact_versions.version_run [OF assms(2)] p(3) by simp
  have "artifact_inv r0" using p by (simp add: artifact_inv_def)
  from artifact_invariant.run_inv [OF assms(2) this] have inv: "artifact_inv r" .
  then have shape: "validate_shape r = Inr ()" by (simp add: artifact_inv_def)
  have errors: "record_step r q \<noteq> Inl InvalidPersistedShape \<and> record_step r q \<noteq> Inl InvalidRetention" for q
    by (cases q) (simp add: record_step_def record_transition_exact [OF shape] split: sum.splits option.splits)
  have visible: "published_at r \<noteq> None \<longleftrightarrow> artifact_is_visible (ar_state r)" if "retention identity = Keep"
    using inv shape id that
    by (cases "ar_state r") (auto simp: artifact_inv_def artifact_is_visible_def validate_shape_def timestamps_match_state_def
        split: if_splits)
  have final: "\<not> is_ok (record_step r q)" if "ar_state r = Art_Deleted" for q
  proof -
    obtain i v e at where q: "q = (i, v, e, at)" by (cases q)
    show ?thesis by (cases e) (simp_all add: q record_step_def record_transition_exact [OF shape] that)
  qed
  show ?thesis using id version restore_own_fields [OF shape] errors visible final by blast
qed

definition sample_identity :: ArtifactIdentity where
  "sample_identity = \<lparr>artifact_id = 1, ai_build_id = 2, ai_attempt_id = 3, ai_job_id = 4, ai_lease_id = 5,
     logical_name = lit ''app.tar'', artifact_type = AT_Artifact, media_type = lit ''application/x-tar'',
     size_bytes = 10, ai_digest = replicate 32 0, retention = DeleteAfter 50\<rparr>"

theorem artifact_record_life_witness:
  "\<exists>r0 r. artifact_pending sample_identity 10 = Inr r0 \<and>
     run_events record_step r0 [(sample_identity, 1, AE_BeginVerification, 20), (sample_identity, 2, AE_Publish, 30),
       (sample_identity, 3, AE_Expire, 50), (sample_identity, 4, AE_Delete, 60)] = Inr r \<and>
     ar_state r = Art_Deleted \<and> unat (ar_version r) = 5 \<and> \<not> is_ok (record_step r (sample_identity, 5, AE_Publish, 70))"
proof -
  let ?start = "\<lparr>ar_identity = sample_identity, ar_state = Art_Pending, ar_version = 1, created_at = 10,
    published_at = None, deleted_at = None\<rparr>"
  let ?r = "\<lparr>ar_identity = sample_identity, ar_state = Art_Deleted, ar_version = 5, created_at = 10,
    published_at = Some 30, deleted_at = Some 60\<rparr>"
  have start: "artifact_pending sample_identity 10 = Inr ?start" by code_simp
  have run: "run_events record_step ?start [(sample_identity, 1, AE_BeginVerification, 20), (sample_identity, 2, AE_Publish, 30),
       (sample_identity, 3, AE_Expire, 50), (sample_identity, 4, AE_Delete, 60)] = Inr ?r" by code_simp
  from artifact_record_life [OF start run] start run show ?thesis by auto
qed

text \<open>Digests round-trip through their text: parsing never panics, accepts exactly the texts that
  are printed from 32 bytes, and returns those bytes.\<close>

theorem digest_text_roundtrip:
  "(\<exists>res. digest_from_lower_hex v = Some res) \<and>
   (digest_from_lower_hex v = Some (Inr d) \<longleftrightarrow> length d = 32 \<and> v = digest_display d) \<and>
   (digest_from_lower_hex v = Some (Inl e) \<longleftrightarrow> e = InvalidDigest \<and> (\<nexists>d. length d = 32 \<and> v = digest_display d))"
proof (cases "str_len v \<noteq> 64 \<or> \<not> list_all is_lower_hex v")
  case True
  have "\<not> (length d = 32 \<and> v = digest_display d)" for d
  proof
    assume d: "length d = 32 \<and> v = digest_display d"
    then have "\<forall>c\<in>set v. is_lower_hex c" using display_lower_hex by blast
    with d True show False by (simp add: lower_hex_ascii length_display list_all_iff)
  qed
  with True show ?thesis by (auto simp: digest_from_lower_hex_def)
next
  case False
  then have hex: "\<forall>c\<in>set v. is_lower_hex c" and len: "length v = 64"
    using lower_hex_ascii [of v] by (auto simp: list_all_iff)
  from hex len obtain d' where d': "hex_pairs (map of_nat v) = Some d'" "digest_display d' = v"
    using display_hex_pairs [of v] by auto
  have len': "length d' = 32" using length_display [of d'] d'(2) len by simp
  have parse: "digest_from_lower_hex v = Some (Inr d')" using False d'(1) by (simp add: digest_from_lower_hex_def)
  have "v = digest_display d \<Longrightarrow> d' = d" for d using hex_pairs_display [of d] d'(1) by simp
  with parse d'(2) len' show ?thesis by auto
qed

text \<open>Log chunk identities bind their content: a prepared manifest restores from what is stored of
  it, its bytes verify, other bytes verify only with the same length and digest. The chunk identity is
  the name-based UUID of a name that is the same for two manifests exactly when they agree in Job,
  stream, sequence range and digest, so distinct content shares an identity only by a collision of
  that UUID function.\<close>

theorem log_chunk_identity_binds:
  assumes "log_prepare lc j s f l bytes = Inr m"
  shows "log_restore lc (stored_of j m) = Inr m \<and> log_verify lc m bytes = Inr () \<and>
    (length other < 2 ^ 64 \<longrightarrow>
      (log_verify lc m other = Inr () \<longleftrightarrow> length other = length bytes \<and> sha256 lc other = sha256 lc bytes)) \<and>
    chunk_id m = uuid_v5 lc CHUNK_NAMESPACE (identity_bytes j s f l (chunk_digest m)) \<and>
    (log_prepare lc j' s' f' l' bytes' = Inr m' \<longrightarrow>
      chunk_id m' = uuid_v5 lc CHUNK_NAMESPACE (identity_bytes j' s' f' l' (chunk_digest m')) \<and>
      (identity_bytes j' s' f' l' (chunk_digest m') = identity_bytes j s f l (chunk_digest m) \<longleftrightarrow>
       j' = j \<and> s' = s \<and> f' = f \<and> l' = l \<and> chunk_digest m' = chunk_digest m))"
  using assms
proof (cases rule: log_prepare_cases)
  case (1 chunk work)
  note len = log_length_bounds [OF 1(3,4)]
  have restore: "log_restore lc (stored_of j m) = Inr m"
    using 1 len(2,3) by (simp add: log_restore_def stored_of_def)
  have other: "log_verify lc m other = Inr () \<longleftrightarrow> length other = length bytes \<and> sha256 lc other = sha256 lc bytes"
    if "length other < 2 ^ 64"
  proof -
    have "of_nat (length other) = (of_nat (length bytes) :: u64) \<longleftrightarrow> length other = length bytes"
      using that len(1) by (auto simp: word_unat_eq_iff unat_of_nat)
    with 1 show ?thesis by (auto simp: log_verify_def)
  qed
  have "log_verify lc m bytes = Inr ()" using 1 by (simp add: log_verify_def)
  then show ?thesis using restore other prepared_chunk [OF assms] prepared_chunk by (simp add: identity_bytes_inj)
qed

text \<open>A concrete instance of the third-party functions: every digest byte is the length of the input,
  every name-based UUID is one more than the last byte of its name.\<close>

definition sample_crypto :: log_crypto where
  "sample_crypto = \<lparr>sha256 = (\<lambda>b. replicate 32 (of_nat (length b))), uuid_v5 = (\<lambda>_ b. 1 + ucast (last b)),
     uuid_text = (\<lambda>_. lit ''id'')\<rparr>"

theorem log_chunk_identity_binds_witness:
  "\<exists>m. log_prepare sample_crypto 9 Stdout 2 3 [104, 105] = Inr m \<and> log_restore sample_crypto (stored_of 9 m) = Inr m \<and>
     log_verify sample_crypto m [104, 105] = Inr () \<and> log_verify sample_crypto m [104] \<noteq> Inr ()"
proof -
  have "is_ok (log_prepare sample_crypto 9 Stdout 2 3 [104, 105])" by code_simp
  then obtain m where m: "log_prepare sample_crypto 9 Stdout 2 3 [104, 105] = Inr m" by (auto simp: is_ok_iff)
  from log_chunk_identity_binds [OF m, of "[104]"] m show ?thesis by auto
qed

end
