(* ===== verification/Cache.thy ===== *)
theory Cache
  imports Domain Octa_Bytes
begin

unbundle bit_operations_syntax

text \<open>
  Cache policy and sessions, \<^verbatim>\<open>server/core/octacity-server-cache\<close>: permissions, the selection of one
  namespace from immutable policy, bearer credentials, the session machine and the verification of
  blob bytes. The namespace syntax of the cache protocol, HMAC, SHA-256, BLAKE3, the Zstandard
  decoder and the digest type of the cache protocol are arguments.
\<close>

section \<open>Permissions and namespaces\<close>

definition MAX_CACHE_NAMESPACE_BYTES :: nat where "MAX_CACHE_NAMESPACE_BYTES = 128"

datatype cache_error =
    InvalidCacheNamespace | InvalidCachePermissions | CacheExceedsPolicy | InvalidCacheCredential
  | InvalidCacheScope | InvalidCacheDescriptor

definition cache_namespace_new :: "(rstr \<Rightarrow> bool) \<Rightarrow> rstr \<Rightarrow> cache_error + rstr" where
  "cache_namespace_new validate_namespace v =
     (if MAX_CACHE_NAMESPACE_BYTES < str_len v then Inl InvalidCacheNamespace
      else if \<not> validate_namespace v then Inl InvalidCacheNamespace
      else Inr v)"

record CachePermissions =
  perm_read :: bool
  perm_write :: bool

datatype CacheOperation = CacheRead | CacheWrite

definition cache_permissions_new :: "bool \<Rightarrow> bool \<Rightarrow> cache_error + CachePermissions" where
  "cache_permissions_new r w =
     (if r \<or> w then Inr \<lparr>perm_read = r, perm_write = w\<rparr> else Inl InvalidCachePermissions)"

definition is_subset_of :: "CachePermissions \<Rightarrow> CachePermissions \<Rightarrow> bool" where
  "is_subset_of p allowed \<longleftrightarrow>
     (\<not> perm_read p \<or> perm_read allowed) \<and> (\<not> perm_write p \<or> perm_write allowed)"

definition cache_allows :: "CachePermissions \<Rightarrow> CacheOperation \<Rightarrow> bool" where
  "cache_allows p operation = (case operation of CacheRead \<Rightarrow> perm_read p | CacheWrite \<Rightarrow> perm_write p)"

record ProjectCachePolicy =
  pc_namespaces :: "rstr list"
  pc_read :: bool
  pc_write :: bool
  pc_max_bytes :: u64

text \<open>\<^verbatim>\<open>CachePolicy\<close> of the signed job specification.\<close>

record CachePolicy =
  cp_namespace :: rstr
  cp_read :: bool
  cp_write :: bool

record CacheNamespacePolicy =
  np_namespace :: rstr
  np_permissions :: CachePermissions
  quota_bytes :: u64
  retention_seconds :: u64

definition cache_policy_select ::
  "(rstr \<Rightarrow> bool) \<Rightarrow> ProjectCachePolicy \<Rightarrow> u64 \<Rightarrow> rstr \<Rightarrow> CachePermissions \<Rightarrow> CachePolicy \<Rightarrow>
     cache_error + CacheNamespacePolicy"
where
  "cache_policy_select validate_namespace project retention requested permissions signed_policy =
     and_then (cache_namespace_new validate_namespace (cp_namespace signed_policy)) (\<lambda>signed_namespace.
     and_then (cache_permissions_new (cp_read signed_policy) (cp_write signed_policy)) (\<lambda>signed_permissions.
     and_then (cache_permissions_new (pc_read project) (pc_write project)) (\<lambda>project_permissions.
     if signed_namespace \<noteq> requested
       \<or> requested \<notin> set (pc_namespaces project)
       \<or> \<not> is_subset_of permissions signed_permissions
       \<or> \<not> is_subset_of permissions project_permissions
       \<or> pc_max_bytes project = 0
       \<or> retention = 0
     then Inl CacheExceedsPolicy
     else Inr \<lparr>np_namespace = requested, np_permissions = permissions, quota_bytes = pc_max_bytes project,
            retention_seconds = retention\<rparr>)))"

section \<open>Credentials\<close>

definition ascii_bytes :: "string \<Rightarrow> u8 list" where
  "ascii_bytes s = map (\<lambda>c. of_nat (of_char c)) s"

definition CACHE_CREDENTIAL_DOMAIN :: "u8 list" where
  "CACHE_CREDENTIAL_DOMAIN = ascii_bytes ''octacity.cache-credential.v1'' @ [0]"

definition CACHE_CREDENTIAL_DIGEST_DOMAIN :: "u8 list" where
  "CACHE_CREDENTIAL_DIGEST_DOMAIN = ascii_bytes ''octacity.cache-credential-digest.v1'' @ [0]"

text \<open>Keys, credentials and digests are arrays of 32 bytes.\<close>

definition credential_derive :: "(u8 list \<Rightarrow> u8 list \<Rightarrow> u8 list) \<Rightarrow> (uuid \<Rightarrow> u8 list) \<Rightarrow> u8 list \<Rightarrow> uuid \<Rightarrow> u8 list" where
  "credential_derive hmac session_text key session =
     hmac key (CACHE_CREDENTIAL_DOMAIN @ session_text session)"

definition hex_nibble :: "u8 \<Rightarrow> u8 option" where
  "hex_nibble v = hex_digit v"

fun token_loop :: "u8 list \<Rightarrow> cache_error + u8 list" where
  "token_loop (a # b # rest) =
     and_then (ok_or InvalidCacheCredential (hex_nibble a)) (\<lambda>high.
     and_then (ok_or InvalidCacheCredential (hex_nibble b)) (\<lambda>low.
     and_then (token_loop rest) (\<lambda>bytes. Inr ((push_bit 4 high OR low) # bytes))))"
| "token_loop _ = Inr []"

definition credential_from_token :: "rstr \<Rightarrow> cache_error + u8 list" where
  "credential_from_token v =
     (if str_len v \<noteq> 64 \<or> \<not> list_all (\<lambda>c. c < 128) v then Inl InvalidCacheCredential
      else token_loop (map of_nat v))"

definition credential_token :: "u8 list \<Rightarrow> rstr" where
  "credential_token c = digest_display c"

definition credential_digest :: "(u8 list \<Rightarrow> u8 list) \<Rightarrow> u8 list \<Rightarrow> u8 list" where
  "credential_digest sha c = sha (CACHE_CREDENTIAL_DIGEST_DOMAIN @ c)"

definition digest_matches :: "u8 list \<Rightarrow> u8 list \<Rightarrow> bool" where
  "digest_matches a b = (fold (\<lambda>(l, r) difference. difference OR (l XOR r)) (zip a b) 0 = 0)"

section \<open>Sessions\<close>

datatype CacheSessionState = CS_Active | CS_Revoked | CS_Expired

datatype CacheSessionEvent = CSE_Revoke | CSE_Expire

fun cache_session_transition ::
  "CacheSessionState \<Rightarrow> CacheSessionEvent \<Rightarrow> (CacheSessionState, CacheSessionEvent) TransitionError + CacheSessionState"
where
  "cache_session_transition CS_Active CSE_Revoke = Inr CS_Revoked"
| "cache_session_transition CS_Active CSE_Expire = Inr CS_Expired"
| "cache_session_transition CS_Revoked CSE_Revoke = Inr CS_Revoked"
| "cache_session_transition CS_Expired CSE_Expire = Inr CS_Expired"
| "cache_session_transition s e = Inl (TransitionError EK_CacheSession s e)"

definition cache_session_authorized :: "CacheSessionState \<Rightarrow> bool" where
  "cache_session_authorized s = (s = CS_Active)"

section \<open>Blobs\<close>

definition VERIFICATION_BUFFER_BYTES :: nat where "VERIFICATION_BUFFER_BYTES = 1024 * 1024"

datatype BlobEncoding = BE_Identity | BE_ZstdV1

record 'd BlobDescriptor =
  blob_digest :: 'd
  encoding :: BlobEncoding
  encoded_size_bytes :: u64
  expanded_size_bytes :: u64
  entry_count :: u64

datatype CacheIntegrityError = CI_EncodedSize | CI_Encoding | CI_Digest

definition cache_blob_object_new ::
  "('d BlobDescriptor \<Rightarrow> bool) \<Rightarrow> rstr \<Rightarrow> 'd BlobDescriptor \<Rightarrow> cache_error + rstr \<times> 'd BlobDescriptor"
where
  "cache_blob_object_new descriptor_valid scope descriptor =
     (if str_len scope \<noteq> 64 \<or> \<not> list_all is_lower_hex scope then Inl InvalidCacheScope
      else if \<not> descriptor_valid descriptor then Inl InvalidCacheDescriptor
      else Inr (scope, descriptor))"

text \<open>A reader is the sequence of its results: \<open>Inl\<close> an I/O error, \<open>Inr\<close> the bytes of one \<^verbatim>\<open>read\<close>. The end
  of the sequence, like an empty read, is the end of the stream.\<close>

type_synonym reads = "(unit + u8 list) list"

function slice_reads :: "nat \<Rightarrow> u8 list \<Rightarrow> reads" where
  "slice_reads n bytes = (if bytes = [] \<or> n = 0 then [] else Inr (take n bytes) # slice_reads n (drop n bytes))"
  by auto

termination
  by (relation "measure (\<lambda>(n, bytes). length bytes)") auto

declare slice_reads.simps [simp del]

fun verify_loop :: "u64 \<Rightarrow> reads \<Rightarrow> u64 \<Rightarrow> u8 list \<Rightarrow> CacheIntegrityError + u64 \<times> u8 list" where
  "verify_loop maximum [] expanded hashed = Inr (expanded, hashed)"
| "verify_loop maximum (Inl _ # rest) expanded hashed = Inl CI_Encoding"
| "verify_loop maximum (Inr chunk # rest) expanded hashed =
     (if chunk = [] then Inr (expanded, hashed)
      else and_then (ok_or CI_Digest (checked_add expanded (of_nat (length chunk)))) (\<lambda>expanded.
        if maximum < expanded then Inl CI_Digest
        else verify_loop maximum rest expanded (hashed @ chunk)))"

definition verify_blob_bytes ::
  "(u8 list \<Rightarrow> unit + reads) \<Rightarrow> (u8 list \<Rightarrow> u8 list) \<Rightarrow> (u8 list \<Rightarrow> u64 \<Rightarrow> 'd) \<Rightarrow> 'd BlobDescriptor \<Rightarrow> u8 list \<Rightarrow>
     CacheIntegrityError + unit"
where
  "verify_blob_bytes zstd blake digest_new descriptor bytes =
     (if of_nat (length bytes) \<noteq> encoded_size_bytes descriptor then Inl CI_EncodedSize
      else and_then (case encoding descriptor of
          BE_Identity \<Rightarrow> Inr (slice_reads VERIFICATION_BUFFER_BYTES bytes)
        | BE_ZstdV1 \<Rightarrow> map_err (\<lambda>_. CI_Encoding) (zstd bytes)) (\<lambda>reader.
        and_then (verify_loop (expanded_size_bytes descriptor) reader 0 []) (\<lambda>(expanded, hashed).
        if digest_new (blake hashed) expanded \<noteq> blob_digest descriptor then Inl CI_Digest else Inr ())))"

section \<open>Facts\<close>

lemma is_subset_of_iff: "is_subset_of p q \<longleftrightarrow> (\<forall>op. cache_allows p op \<longrightarrow> cache_allows q op)"
  by (auto simp: is_subset_of_def cache_allows_def split: CacheOperation.splits)

lemma token_loop_eq: "token_loop b = ok_or InvalidCacheCredential (hex_pairs b)"
proof (induction b rule: hex_pairs.induct)
  case (1 a b rest)
  then show ?case by (cases "hex_digit a"; cases "hex_digit b"; cases "hex_pairs rest") (simp_all add: hex_nibble_def)
qed simp_all

lemma hex_digit_lower: "c < 128 \<Longrightarrow> hex_digit (of_nat c) = Some d \<Longrightarrow> is_lower_hex c"
  by (auto simp: hex_digit_def is_lower_hex_def is_ascii_digit_def word_le_nat_alt unat_of_nat split: if_splits)

lemma hex_pairs_lower:
  "hex_pairs (map of_nat s) = Some d \<Longrightarrow> even (length s) \<Longrightarrow> \<forall>c\<in>set s. c < 128 \<Longrightarrow> \<forall>c\<in>set s. is_lower_hex c"
proof (induction s arbitrary: d rule: induct_list012)
  case (3 a b s)
  from 3(3) obtain h l d' where "hex_digit (of_nat a) = Some h" "hex_digit (of_nat b) = Some l"
    "hex_pairs (map of_nat s) = Some d'" by (auto simp: bind_eq_Some_conv)
  with 3 show ?case by (auto dest: hex_digit_lower)
qed simp_all

lemma or_fold_zero:
  "fold (\<lambda>(l, r) difference. difference OR (l XOR r)) ps (z :: u8) = 0 \<longleftrightarrow> z = 0 \<and> (\<forall>(l, r)\<in>set ps. l = r)"
proof (induction ps arbitrary: z)
  case (Cons p ps)
  have "z OR (fst p XOR snd p) = 0 \<longleftrightarrow> z = 0 \<and> fst p = snd p"
    by (auto simp: bit_eq_iff bit_or_iff bit_xor_iff)
  with Cons show ?case by (auto simp: case_prod_unfold)
qed simp

text \<open>The bytes a sequence of reads delivers, unless it fails.\<close>

fun stream_content :: "reads \<Rightarrow> u8 list option" where
  "stream_content [] = Some []"
| "stream_content (Inl _ # rest) = None"
| "stream_content (Inr chunk # rest) = (if chunk = [] then Some [] else map_option ((@) chunk) (stream_content rest))"

definition blob_content :: "(u8 list \<Rightarrow> unit + reads) \<Rightarrow> BlobEncoding \<Rightarrow> u8 list \<Rightarrow> u8 list option" where
  "blob_content zstd enc bytes = (case enc of
     BE_Identity \<Rightarrow> Some bytes
   | BE_ZstdV1 \<Rightarrow> (case zstd bytes of Inl _ \<Rightarrow> None | Inr rs \<Rightarrow> stream_content rs))"

lemma slice_reads_content: "0 < n \<Longrightarrow> stream_content (slice_reads n bytes) = Some bytes"
proof (induction n bytes rule: slice_reads.induct)
  case (1 n bytes)
  then show ?case by (subst slice_reads.simps) simp
qed

lemma u64_bound: "unat (w :: u64) < 18446744073709551616"
  using unsigned_less [of w, where 'a = nat] by simp

text \<open>A read fills at most the buffer it is given.\<close>

definition reads_bounded :: "reads \<Rightarrow> bool" where
  "reads_bounded rs = list_all (case_sum (\<lambda>_. True) (\<lambda>chunk. length chunk \<le> VERIFICATION_BUFFER_BYTES)) rs"

lemma slice_reads_bounded: "n \<le> VERIFICATION_BUFFER_BYTES \<Longrightarrow> reads_bounded (slice_reads n bytes)"
proof (induction n bytes rule: slice_reads.induct)
  case (1 n bytes)
  then show ?case by (subst slice_reads.simps) (auto simp: reads_bounded_def)
qed

lemma verify_loop_exact:
  "reads_bounded rs \<Longrightarrow> unat expanded \<le> unat maximum \<Longrightarrow>
   verify_loop maximum rs expanded hashed = Inr (e', h') \<longleftrightarrow>
     (\<exists>c. stream_content rs = Some c \<and> unat expanded + length c \<le> unat maximum \<and>
        unat e' = unat expanded + length c \<and> h' = hashed @ c)"
proof (induction maximum rs expanded hashed rule: verify_loop.induct)
  case (1 maximum expanded hashed)
  then show ?case by (auto simp: word_unat_eq_iff)
next
  case (3 maximum chunk rest expanded hashed)
  show ?case
  proof (cases "chunk = []")
    case True
    with "3.prems" show ?thesis by (auto simp: word_unat_eq_iff)
  next
    case False
    have bounded: "length chunk \<le> 1048576" "reads_bounded rest"
      using "3.prems"(1) by (simp_all add: reads_bounded_def VERIFICATION_BUFFER_BYTES_def)
    then have n: "unat (of_nat (length chunk) :: u64) = length chunk" by (simp add: unat_of_nat)
    show ?thesis
    proof (cases "checked_add expanded (of_nat (length chunk))")
      case None
      then have "2 ^ 64 \<le> unat expanded + length chunk" by (simp add: checked_add_def n split: if_splits)
      then have "unat maximum < unat expanded + length chunk" using u64_bound [of maximum] by simp
      with None False show ?thesis by auto
    next
      case (Some w)
      have u: "unat w = unat expanded + length chunk" using unat_checked_add [OF Some] n by simp
      show ?thesis
      proof (cases "maximum < w")
        case True
        with Some False show ?thesis by (auto simp: word_less_nat_alt u)
      next
        case le: False
        then have "unat w \<le> unat maximum" by (simp add: word_less_nat_alt)
        note IH = "3.IH" [OF False le bounded(2) this]
        have step: "verify_loop maximum (Inr chunk # rest) expanded hashed = verify_loop maximum rest w (hashed @ chunk)"
          using False le Some by simp
        show ?thesis unfolding step IH using False by (auto simp: u)
      qed
    qed
  qed
qed simp

interpretation cache_session: lifecycle cache_session_transition "\<lambda>s. s \<noteq> CS_Active"
  by unfold_locales (auto elim!: cache_session_transition.elims)

section \<open>Properties\<close>

text \<open>A cache session never exceeds policy: selection succeeds exactly when the signed namespace is
  valid, is the requested one and is among the namespaces of the Project, every requested operation
  is allowed by the signed policy and by the Project, both of which allow something, and quota and
  retention are positive; the selected policy is the request with the Project's quota.\<close>

theorem cache_selection_narrows:
  "cache_policy_select valid project retention requested permissions policy = Inr p \<longleftrightarrow>
     str_len requested \<le> 128 \<and> valid requested \<and> cp_namespace policy = requested \<and>
     requested \<in> set (pc_namespaces project) \<and>
     (\<forall>op. cache_allows permissions op \<longrightarrow>
        cache_allows \<lparr>perm_read = cp_read policy, perm_write = cp_write policy\<rparr> op \<and>
        cache_allows \<lparr>perm_read = pc_read project, perm_write = pc_write project\<rparr> op) \<and>
     (cp_read policy \<or> cp_write policy) \<and> (pc_read project \<or> pc_write project) \<and>
     pc_max_bytes project \<noteq> 0 \<and> retention \<noteq> 0 \<and>
     p = \<lparr>np_namespace = requested, np_permissions = permissions, quota_bytes = pc_max_bytes project,
          retention_seconds = retention\<rparr>"
proof -
  have ops: "(\<forall>op. cache_allows permissions op \<longrightarrow> cache_allows q op \<and> cache_allows q' op) \<longleftrightarrow>
      is_subset_of permissions q \<and> is_subset_of permissions q'" for q q'
    unfolding is_subset_of_iff by blast
  show ?thesis
    unfolding ops cache_policy_select_def
    by (auto simp: cache_namespace_new_def cache_permissions_new_def MAX_CACHE_NAMESPACE_BYTES_def
        res_simps split: if_splits)
qed

theorem cache_selection_narrows_witness:
  "is_ok (cache_policy_select (\<lambda>_. True)
     \<lparr>pc_namespaces = [lit ''builds''], pc_read = True, pc_write = True, pc_max_bytes = 1024\<rparr> 60 (lit ''builds'')
     \<lparr>perm_read = True, perm_write = False\<rparr> \<lparr>cp_namespace = lit ''builds'', cp_read = True, cp_write = False\<rparr>)"
proof -
  have "str_len (lit ''builds'') \<le> 128" by code_simp
  then show ?thesis
    using cache_selection_narrows [of "\<lambda>_. True"
        "\<lparr>pc_namespaces = [lit ''builds''], pc_read = True, pc_write = True, pc_max_bytes = 1024\<rparr>" 60 "lit ''builds''"
        "\<lparr>perm_read = True, perm_write = False\<rparr>" "\<lparr>cp_namespace = lit ''builds'', cp_read = True, cp_write = False\<rparr>"
        "\<lparr>np_namespace = lit ''builds'', np_permissions = \<lparr>perm_read = True, perm_write = False\<rparr>,
          quota_bytes = 1024, retention_seconds = 60\<rparr>"]
    by (simp add: is_ok_iff cache_allows_def split: CacheOperation.splits)
qed

text \<open>Cache credentials are compared and printed faithfully: the branch-free comparison of two
  digests of equal length decides equality, the token of a credential parses back to it, and every
  accepted token is the canonical token of the credential it yields.\<close>

theorem cache_credential_text:
  assumes "length c = 32" and "length a = length b"
  shows "(digest_matches a b \<longleftrightarrow> a = b) \<and> credential_from_token (credential_token c) = Inr c \<and>
    (credential_from_token v = Inr d \<longrightarrow> v = credential_token d \<and> length d = 32)"
proof -
  have "digest_matches a b \<longleftrightarrow> (\<forall>(l, r)\<in>set (zip a b). l = r)"
    by (simp add: digest_matches_def or_fold_zero)
  also have "\<dots> \<longleftrightarrow> list_all2 (=) a b" using assms(2) by (simp add: list_all2_iff)
  finally have matches: "digest_matches a b \<longleftrightarrow> a = b" by (simp add: list.rel_eq)
  have lower: "\<forall>x\<in>set (digest_display c). is_lower_hex x" using display_lower_hex by blast
  then have "list_all (\<lambda>x. x < 128) (digest_display c)"
    by (auto simp: list_all_iff is_lower_hex_def is_ascii_digit_def)
  then have parse: "credential_from_token (credential_token c) = Inr c"
    using assms(1) lower_hex_ascii [OF lower]
    by (simp add: credential_from_token_def credential_token_def token_loop_eq hex_pairs_display length_display)
  have "v = credential_token d \<and> length d = 32" if "credential_from_token v = Inr d"
  proof -
    from that have len: "str_len v = 64" and ascii: "\<forall>x\<in>set v. x < 128" and pairs: "hex_pairs (map of_nat v) = Some d"
      by (auto simp: credential_from_token_def token_loop_eq res_simps list_all_iff split: if_splits)
    have n: "length v = 64" using str_len_ascii [OF ascii] len by simp
    with hex_pairs_lower [OF pairs _ ascii] have "\<forall>x\<in>set v. is_lower_hex x" by simp
    from display_hex_pairs [OF _ this] n pairs have v: "digest_display d = v" by auto
    with length_display [of d] n have "length d = 32" by simp
    with v show ?thesis by (simp add: credential_token_def)
  qed
  with matches parse show ?thesis by blast
qed

theorem cache_credential_text_witness:
  "credential_from_token (credential_token (replicate 32 171)) = Inr (replicate 32 171) \<and>
   \<not> digest_matches [1, 2] [1, 3]"
  using cache_credential_text [of "replicate 32 171" "[1, 2]" "[1, 3]"] by simp

text \<open>Blob verification is exact (C39): whatever the sizes of the reads, bytes are accepted exactly when
  their length is the declared encoded size and they decode to content that fits the declared
  expanded size and has the declared digest.\<close>

theorem verify_blob_bytes_exact:
  assumes bounded: "\<And>b rs. zstd b = Inr rs \<Longrightarrow> reads_bounded rs"
  shows "verify_blob_bytes zstd blake digest_new d bytes = Inr () \<longleftrightarrow>
    of_nat (length bytes) = encoded_size_bytes d \<and>
    (\<exists>content. blob_content zstd (encoding d) bytes = Some content \<and>
       length content \<le> unat (expanded_size_bytes d) \<and>
       digest_new (blake content) (of_nat (length content)) = blob_digest d)"
proof -
  have loop: "(\<exists>e h. verify_loop m rs 0 [] = Inr (e, h) \<and> digest_new (blake h) e = x) \<longleftrightarrow>
      (\<exists>c. stream_content rs = Some c \<and> length c \<le> unat m \<and> digest_new (blake c) (of_nat (length c)) = x)"
    if "reads_bounded rs" for m rs x
  proof -
    have "verify_loop m rs 0 [] = Inr (e, h) \<longleftrightarrow>
        (\<exists>c. stream_content rs = Some c \<and> length c \<le> unat m \<and> e = of_nat (length c) \<and> h = c)" for e h
    proof -
      have "unat e = length c \<longleftrightarrow> e = of_nat (length c)" if "length c \<le> unat m" for c :: "u8 list"
        using that u64_bound [of m] by (auto simp: word_unat_eq_iff unat_of_nat)
      then show ?thesis using verify_loop_exact [OF \<open>reads_bounded rs\<close>, of 0 m "[]" e h] by auto
    qed
    then show ?thesis by auto
  qed
  have slice: "stream_content (slice_reads VERIFICATION_BUFFER_BYTES bytes) = Some bytes"
    "reads_bounded (slice_reads VERIFICATION_BUFFER_BYTES bytes)"
    by (simp_all add: slice_reads_content slice_reads_bounded VERIFICATION_BUFFER_BYTES_def)
  show ?thesis
  proof (cases "encoding d")
    case BE_Identity
    then show ?thesis using loop [OF slice(2), of "expanded_size_bytes d" "blob_digest d"]
      by (auto simp: verify_blob_bytes_def blob_content_def slice(1) res_simps)
  next
    case BE_ZstdV1
    show ?thesis
    proof (cases "zstd bytes")
      case (Inl u)
      with BE_ZstdV1 show ?thesis by (simp add: verify_blob_bytes_def blob_content_def)
    next
      case (Inr rs)
      with BE_ZstdV1 loop [OF bounded [OF Inr], of "expanded_size_bytes d" "blob_digest d"] show ?thesis
        by (auto simp: verify_blob_bytes_def blob_content_def res_simps)
    qed
  qed
qed

theorem verify_blob_bytes_exact_witness:
  "verify_blob_bytes (\<lambda>b. if b = [7] then Inr [Inr [1, 2], Inr [3]] else Inl ()) (\<lambda>b. b) (\<lambda>b n. (b, n))
     \<lparr>blob_digest = ([1, 2, 3], 3), encoding = BE_ZstdV1, encoded_size_bytes = 1, expanded_size_bytes = 3, entry_count = 1\<rparr> [7]
     = Inr ()"
  (is "verify_blob_bytes ?zstd ?h ?n ?d ?b = _")
proof -
  have bounded: "reads_bounded rs" if "?zstd b = Inr rs" for b rs
    using that by (auto simp: reads_bounded_def VERIFICATION_BUFFER_BYTES_def split: if_splits)
  from verify_blob_bytes_exact [where zstd = ?zstd and blake = ?h and digest_new = ?n and d = ?d and bytes = ?b,
      OF bounded] show ?thesis by (simp add: blob_content_def)
qed

end
