(* ===== verification/Secrets.thy ===== *)
theory Secrets
  imports Domain
begin

text \<open>
  Delegated secret access, \<^verbatim>\<open>server/core/octacity-server-secrets\<close>: logical references, provider
  configurations, grant requests, grants, the provider registry, provider credential values and
  credential publications. Secret providers are adapters; a registry holds their results for a
  request as functions.
\<close>

section \<open>References\<close>

definition MAX_LOGICAL_REFERENCE_BYTES :: nat where "MAX_LOGICAL_REFERENCE_BYTES = 128"
definition MAX_PROFILE_REFERENCES :: nat where "MAX_PROFILE_REFERENCES = 128"

datatype reference_error = InvalidSecretProfile | InvalidIdentityProfile | InvalidSecretProvider | InvalidSecretReference

definition valid_reference :: "rstr \<Rightarrow> bool" where
  "valid_reference v \<longleftrightarrow>
     v \<noteq> [] \<and> str_len v \<le> MAX_LOGICAL_REFERENCE_BYTES \<and> trim v = v \<and> \<not> list_ex is_control v"

definition valid_identifier :: "rstr \<Rightarrow> bool" where
  "valid_identifier v \<longleftrightarrow>
     valid_reference v \<and> (case v of [] \<Rightarrow> False | c # rest \<Rightarrow> is_ascii_alphanumeric c \<and>
       list_all (\<lambda>c. is_ascii_alphanumeric c \<or> c = 45 \<or> c = 95 \<or> c = 46) rest)"

text \<open>\<^verbatim>\<open>logical_name!\<close>.\<close>

definition logical_name_new :: "(rstr \<Rightarrow> bool) \<Rightarrow> reference_error \<Rightarrow> rstr \<Rightarrow> reference_error + rstr" where
  "logical_name_new validator err v = (if \<not> validator v then Inl err else Inr v)"

definition secret_profile_new :: "rstr \<Rightarrow> reference_error + rstr" where
  "secret_profile_new = logical_name_new valid_reference InvalidSecretProfile"

definition identity_profile_new :: "rstr \<Rightarrow> reference_error + rstr" where
  "identity_profile_new = logical_name_new valid_reference InvalidIdentityProfile"

definition secret_provider_new :: "rstr \<Rightarrow> reference_error + rstr" where
  "secret_provider_new = logical_name_new valid_identifier InvalidSecretProvider"

datatype LogicalSecretReference = LogicalSecretReference (lr_provider: rstr) (lr_reference: rstr)

text \<open>The derived order compares the provider first.\<close>

instantiation LogicalSecretReference :: linorder
begin

definition less_eq_LogicalSecretReference :: "LogicalSecretReference \<Rightarrow> LogicalSecretReference \<Rightarrow> bool" where
  "less_eq_LogicalSecretReference a b \<longleftrightarrow>
     lr_provider a < lr_provider b \<or> lr_provider a = lr_provider b \<and> lr_reference a \<le> lr_reference b"

definition less_LogicalSecretReference :: "LogicalSecretReference \<Rightarrow> LogicalSecretReference \<Rightarrow> bool" where
  "less_LogicalSecretReference a b \<longleftrightarrow>
     lr_provider a < lr_provider b \<or> lr_provider a = lr_provider b \<and> lr_reference a < lr_reference b"

instance
proof
  fix x y z :: LogicalSecretReference
  show "x < y \<longleftrightarrow> x \<le> y \<and> \<not> y \<le> x" "x \<le> x" "x \<le> y \<or> y \<le> x"
    by (auto simp: less_eq_LogicalSecretReference_def less_LogicalSecretReference_def)
  show "x \<le> y \<Longrightarrow> y \<le> z \<Longrightarrow> x \<le> z" "x \<le> y \<Longrightarrow> y \<le> x \<Longrightarrow> x = y"
    by (auto simp: less_eq_LogicalSecretReference_def intro: LogicalSecretReference.expand)
qed

end

definition logical_reference_new :: "rstr \<Rightarrow> rstr \<Rightarrow> reference_error + LogicalSecretReference" where
  "logical_reference_new provider reference =
     (if \<not> valid_reference reference then Inl InvalidSecretReference else Inr (LogicalSecretReference provider reference))"

definition validate_reference_set :: "LogicalSecretReference list \<Rightarrow> bool" where
  "validate_reference_set references \<longleftrightarrow> references \<noteq> [] \<and> length references \<le> MAX_PROFILE_REFERENCES"

section \<open>Grants\<close>

definition MAX_DELEGATED_GRANT_BYTES :: nat where "MAX_DELEGATED_GRANT_BYTES = 16 * 1024"
definition MAX_DELEGATED_GRANT_LIFETIME_SECONDS :: u64 where "MAX_DELEGATED_GRANT_LIFETIME_SECONDS = 60 * 60"

datatype SecretProviderFailureClass = SPF_InvalidRequest | SPF_Unsupported | SPF_Denied | SPF_Unavailable

datatype GrantError =
    InvalidProviderConfiguration | InvalidReferenceSet | InvalidLifetime | InvalidCredential
  | InvalidProviderResponse | ProviderNotConfigured | GE_Provider SecretProviderFailureClass

record SecretProviderConfiguration =
  spc_provider :: rstr
  maximum_grant_lifetime_seconds :: u64

definition configuration_delegated :: "rstr \<Rightarrow> u64 \<Rightarrow> GrantError + SecretProviderConfiguration" where
  "configuration_delegated provider lifetime =
     (if lifetime = 0 \<or> \<not> lifetime \<le> MAX_DELEGATED_GRANT_LIFETIME_SECONDS then Inl InvalidProviderConfiguration
      else Inr \<lparr>spc_provider = provider, maximum_grant_lifetime_seconds = lifetime\<rparr>)"

record GrantSubject =
  gs_project_id :: uuid
  gs_build_id :: uuid
  gs_job_id :: uuid
  gs_lease_id :: uuid

record GrantRequest =
  gr_profile :: rstr
  gr_references :: "LogicalSecretReference list"
  gr_subject :: GrantSubject
  gr_issued_at :: timestamp
  gr_expires_at :: timestamp

definition i64_try_from :: "u64 \<Rightarrow> int option" where
  "i64_try_from v = (if uint v < 2 ^ 63 then Some (uint v) else None)"

definition grant_lifetime :: "timestamp \<Rightarrow> timestamp \<Rightarrow> GrantError + int" where
  "grant_lifetime issued expires =
     ok_or InvalidLifetime (case i64_checked_sub expires issued of
       None \<Rightarrow> None
     | Some lifetime \<Rightarrow> if 0 < lifetime then Some lifetime else None)"

definition grant_maximum_millis :: "SecretProviderConfiguration \<Rightarrow> GrantError + int" where
  "grant_maximum_millis configuration =
     ok_or InvalidLifetime (Option.bind (i64_try_from (maximum_grant_lifetime_seconds configuration))
       (\<lambda>seconds. i64_checked_mul seconds 1000))"

definition grant_request_new ::
  "SecretProviderConfiguration \<Rightarrow> rstr \<Rightarrow> LogicalSecretReference list \<Rightarrow> GrantSubject \<Rightarrow> timestamp \<Rightarrow> timestamp \<Rightarrow>
     GrantError + GrantRequest"
where
  "grant_request_new configuration profile references subject issued expires =
     (if \<not> validate_reference_set references
         \<or> list_ex (\<lambda>reference. lr_provider reference \<noteq> spc_provider configuration) references
      then Inl InvalidReferenceSet
      else
        and_then (grant_lifetime issued expires) (\<lambda>lifetime_millis.
        and_then (grant_maximum_millis configuration) (\<lambda>maximum_millis.
        if maximum_millis < lifetime_millis then Inl InvalidLifetime
        else Inr \<lparr>gr_profile = profile, gr_references = references, gr_subject = subject,
               gr_issued_at = issued, gr_expires_at = expires\<rparr>)))"

definition delegated_credential_new :: "u8 list \<Rightarrow> GrantError + u8 list" where
  "delegated_credential_new bytes =
     (if bytes = [] \<or> MAX_DELEGATED_GRANT_BYTES < length bytes then Inl InvalidCredential else Inr bytes)"

record DelegatedGrant =
  dg_provider :: rstr
  dg_expires_at :: timestamp
  dg_credential :: "u8 list"

text \<open>\<^verbatim>\<open>references().first().expect(..)\<close>: the least reference; \<open>None\<close> is the panic.\<close>

definition request_provider :: "GrantRequest \<Rightarrow> rstr option" where
  "request_provider r = (case gr_references r of [] \<Rightarrow> None | x # _ \<Rightarrow> Some (lr_provider x))"

definition delegated_grant_new ::
  "GrantRequest \<Rightarrow> rstr \<Rightarrow> timestamp \<Rightarrow> u8 list \<Rightarrow> (GrantError + DelegatedGrant) option"
where
  "delegated_grant_new request provider expires credential =
     map_option (\<lambda>expected.
       if provider \<noteq> expected \<or> expires \<le> gr_issued_at request \<or> gr_expires_at request < expires
       then Inl InvalidProviderResponse
       else Inr \<lparr>dg_provider = provider, dg_expires_at = expires, dg_credential = credential\<rparr>) (request_provider request)"

section \<open>Registry\<close>

text \<open>An adapter: its public configuration and its answers.\<close>

record secret_provider =
  sp_configuration :: SecretProviderConfiguration
  sp_check :: "SecretProviderFailureClass + unit"
  sp_issue :: "GrantRequest \<Rightarrow> SecretProviderFailureClass + DelegatedGrant"

type_synonym secret_registry = "(rstr, secret_provider) btree"

primrec registry_fill :: "secret_provider list \<Rightarrow> secret_registry \<Rightarrow> GrantError + secret_registry" where
  "registry_fill [] registry = Inr registry"
| "registry_fill (p # ps) registry =
     (let identity = spc_provider (sp_configuration p) in
      if bt_get registry identity \<noteq> None then Inl InvalidProviderConfiguration
      else registry_fill ps (bt_insert identity p registry))"

definition registry_new :: "secret_provider list \<Rightarrow> GrantError + secret_registry" where
  "registry_new ps = registry_fill ps []"

definition registry_issue :: "secret_registry \<Rightarrow> GrantRequest \<Rightarrow> (GrantError + DelegatedGrant) option" where
  "registry_issue registry request =
     map_option (\<lambda>provider.
       and_then (ok_or ProviderNotConfigured (bt_get registry provider)) (\<lambda>p.
       map_err GE_Provider (sp_issue p request))) (request_provider request)"

definition registry_check :: "secret_registry \<Rightarrow> GrantError + unit" where
  "registry_check registry = try_each (\<lambda>p. map_err GE_Provider (sp_check p)) (bt_values registry)"

section \<open>Provider credentials\<close>

definition MAX_PROVIDER_CREDENTIAL_BYTES :: nat where "MAX_PROVIDER_CREDENTIAL_BYTES = 16 * 1024"

datatype ProviderCredentialError = PC_InvalidValue | PC_NotConfigured | PC_Conflict | PC_Denied | PC_Unavailable

definition provider_credential_new :: "u8 list \<Rightarrow> ProviderCredentialError + u8 list" where
  "provider_credential_new bytes =
     (if bytes = [] \<or> MAX_PROVIDER_CREDENTIAL_BYTES < length bytes then Inl PC_InvalidValue else Inr bytes)"

record CredentialPublication =
  pub_reference :: LogicalSecretReference
  pub_operation :: "u8 list"
  pub_generation :: u64

definition credential_publication_new ::
  "LogicalSecretReference \<Rightarrow> u8 list \<Rightarrow> u64 \<Rightarrow> ProviderCredentialError + CredentialPublication"
where
  "credential_publication_new reference operation generation =
     (if operation = replicate 32 0 \<or> generation = 0 \<or> 0x7fffffffffffffff < generation then Inl PC_Denied
      else Inr \<lparr>pub_reference = reference, pub_operation = operation, pub_generation = generation\<rparr>)"

datatype CredentialPublicationKind = CPK_Provision | CPK_Adopt | CPK_Rotate | CPK_Revoke

section \<open>Facts\<close>

lemma configuration_delegated_Inr:
  assumes "configuration_delegated provider lifetime = Inr c"
  shows "spc_provider c = provider" "maximum_grant_lifetime_seconds c = lifetime" "0 < uint lifetime" "uint lifetime \<le> 3600"
proof -
  from assms have c: "c = \<lparr>spc_provider = provider, maximum_grant_lifetime_seconds = lifetime\<rparr>"
    and bounds: "lifetime \<noteq> 0" "lifetime \<le> 3600"
    by (auto simp: configuration_delegated_def MAX_DELEGATED_GRANT_LIFETIME_SECONDS_def split: if_splits)
  from c show "spc_provider c = provider" "maximum_grant_lifetime_seconds c = lifetime" by simp_all
  show "0 < uint lifetime" using bounds(1) by (simp add: word_uint_eq_iff order_less_le)
  from bounds(2) show "uint lifetime \<le> 3600" by (simp add: word_le_def)
qed

lemma grant_request_exact:
  assumes "configuration_delegated provider lifetime = Inr c" and "timestamp_ok issued" and "timestamp_ok expires"
  shows "grant_request_new c profile references subject issued expires = Inr r \<longleftrightarrow>
    references \<noteq> [] \<and> length references \<le> 128 \<and> (\<forall>x\<in>set references. lr_provider x = provider) \<and>
    issued < expires \<and> expires - issued \<le> uint lifetime * 1000 \<and>
    r = \<lparr>gr_profile = profile, gr_references = references, gr_subject = subject,
         gr_issued_at = issued, gr_expires_at = expires\<rparr>"
proof -
  note c = configuration_delegated_Inr [OF assms(1)]
  have "i64_range (expires - issued)"
    using assms(2,3) by (simp add: i64_range_def timestamp_ok_def MIN_TIMESTAMP_MILLIS_def MAX_TIMESTAMP_MILLIS_def)
  then have life: "grant_lifetime issued expires = Inr x \<longleftrightarrow> issued < expires \<and> x = expires - issued" for x
    by (auto simp: grant_lifetime_def i64_checked_sub_def)
  have "grant_maximum_millis c = Inr (uint lifetime * 1000)"
    using c by (simp add: grant_maximum_millis_def i64_try_from_def i64_checked_mul_def i64_range_def)
  then show ?thesis
    by (auto simp: grant_request_new_def validate_reference_set_def MAX_PROFILE_REFERENCES_def list_ex_iff c(1)
        res_simps life split: if_splits)
qed

lemma registry_fill_get:
  "registry_fill ps reg = Inr reg' \<Longrightarrow> bt_get reg' k = Some p \<Longrightarrow>
     bt_get reg k = Some p \<or> p \<in> set ps \<and> spc_provider (sp_configuration p) = k"
proof (induction ps arbitrary: reg)
  case (Cons q ps)
  then have "registry_fill ps (bt_insert (spc_provider (sp_configuration q)) q reg) = Inr reg'"
    by (auto simp: Let_def split: if_splits)
  from Cons.IH [OF this Cons.prems(2)] show ?case by (auto simp: bt_get_insert split: if_splits)
qed simp

lemma delegated_grant_Inr:
  assumes "delegated_grant_new r p e cred = Some (Inr g)" and "request_provider r = Some q"
  shows "dg_provider g = q" "gr_issued_at r < dg_expires_at g" "dg_expires_at g \<le> gr_expires_at r"
  using assms by (auto simp: delegated_grant_new_def split: if_splits)

section \<open>Properties\<close>

text \<open>Delegated grants are bounded and go to one provider: a request under a delegated configuration
  is accepted exactly when it names between one and 128 references of that provider and a positive
  lifetime within the configured one; issuing it never panics, and every grant that results comes
  from the adapter registered for that provider, expires after the issue, not after the request and
  at most one hour after the issue, for adapters that build grants with \<^verbatim>\<open>DelegatedGrant::new\<close>.\<close>

theorem delegated_grants_bounded:
  assumes "configuration_delegated provider lifetime = Inr c" and "timestamp_ok issued" and "timestamp_ok expires"
    and "registry_new ps = Inr reg"
    and adapters: "\<And>p r g. p \<in> set ps \<Longrightarrow> sp_issue p r = Inr g \<Longrightarrow>
      \<exists>q e cred. delegated_grant_new r q e cred = Some (Inr g)"
  shows "(is_ok (grant_request_new c profile references subject issued expires) \<longleftrightarrow>
      references \<noteq> [] \<and> length references \<le> 128 \<and> (\<forall>x\<in>set references. lr_provider x = provider) \<and>
      issued < expires \<and> expires - issued \<le> uint lifetime * 1000) \<and>
    (\<forall>req. grant_request_new c profile references subject issued expires = Inr req \<longrightarrow>
      (\<exists>res. registry_issue reg req = Some res \<and>
        (\<forall>g. res = Inr g \<longrightarrow> dg_provider g = provider \<and> issued < dg_expires_at g \<and> dg_expires_at g \<le> expires \<and>
           dg_expires_at g - issued \<le> 3600000 \<and>
           (\<exists>p\<in>set ps. spc_provider (sp_configuration p) = provider \<and> sp_issue p req = Inr g))))"
proof -
  note request = grant_request_exact [OF assms(1-3), of profile references subject]
  have "\<exists>res. registry_issue reg req = Some res \<and>
        (\<forall>g. res = Inr g \<longrightarrow> dg_provider g = provider \<and> issued < dg_expires_at g \<and> dg_expires_at g \<le> expires \<and>
           dg_expires_at g - issued \<le> 3600000 \<and>
           (\<exists>p\<in>set ps. spc_provider (sp_configuration p) = provider \<and> sp_issue p req = Inr g))"
    if "grant_request_new c profile references subject issued expires = Inr req" for req
  proof -
    from that have req: "references \<noteq> []" "\<forall>x\<in>set references. lr_provider x = provider"
      "expires - issued \<le> uint lifetime * 1000" "gr_references req = references" "gr_issued_at req = issued"
      "gr_expires_at req = expires" by (auto simp: request)
    then have provider: "request_provider req = Some provider"
      by (cases references) (auto simp: request_provider_def)
    have "dg_provider g = provider \<and> issued < dg_expires_at g \<and> dg_expires_at g \<le> expires \<and>
           dg_expires_at g - issued \<le> 3600000 \<and>
           (\<exists>p\<in>set ps. spc_provider (sp_configuration p) = provider \<and> sp_issue p req = Inr g)"
      if issue: "registry_issue reg req = Some (Inr g)" for g
    proof -
      from issue provider obtain p where p: "bt_get reg provider = Some p" "sp_issue p req = Inr g"
        by (auto simp: registry_issue_def res_simps)
      from registry_fill_get [OF _ p(1), of ps "[]"] assms(4) have mem: "p \<in> set ps"
        "spc_provider (sp_configuration p) = provider" by (auto simp: registry_new_def bt_get_def)
      from adapters [OF mem(1) p(2)] obtain q e cred where "delegated_grant_new req q e cred = Some (Inr g)" by blast
      from delegated_grant_Inr [OF this provider] req configuration_delegated_Inr(4) [OF assms(1)] mem p(2)
      show ?thesis by auto
    qed
    with provider show ?thesis by (auto simp: registry_issue_def)
  qed
  moreover have "is_ok (grant_request_new c profile references subject issued expires) \<longleftrightarrow>
      references \<noteq> [] \<and> length references \<le> 128 \<and> (\<forall>x\<in>set references. lr_provider x = provider) \<and>
      issued < expires \<and> expires - issued \<le> uint lifetime * 1000"
    by (simp add: is_ok_iff request)
  ultimately show ?thesis by blast
qed

text \<open>An adapter that grants what is asked for with a one-byte credential, through the checking
  constructor.\<close>

definition sample_adapter :: "SecretProviderConfiguration \<Rightarrow> secret_provider" where
  "sample_adapter c = \<lparr>sp_configuration = c, sp_check = Inr (),
     sp_issue = (\<lambda>r. case delegated_grant_new r (spc_provider c) (gr_expires_at r) [1] of
       Some (Inr g) \<Rightarrow> Inr g | _ \<Rightarrow> Inl SPF_InvalidRequest)\<rparr>"

definition vault_configuration :: SecretProviderConfiguration where
  "vault_configuration = \<lparr>spc_provider = lit ''vault'', maximum_grant_lifetime_seconds = 60\<rparr>"

definition no_subject :: GrantSubject where
  "no_subject = \<lparr>gs_project_id = 1, gs_build_id = 2, gs_job_id = 3, gs_lease_id = 4\<rparr>"

theorem delegated_grants_bounded_witness:
  "is_ok (grant_request_new vault_configuration (lit ''ci'') [LogicalSecretReference (lit ''vault'') (lit ''kv'')] no_subject 1000 31000) \<and>
   \<not> is_ok (grant_request_new vault_configuration (lit ''ci'') [LogicalSecretReference (lit ''vault'') (lit ''kv'')] no_subject 1000 62000)"
proof -
  have conf: "configuration_delegated (lit ''vault'') 60 = Inr vault_configuration" by code_simp
  have time: "timestamp_ok 1000" "timestamp_ok 31000" "timestamp_ok 62000" by code_simp+
  have reg: "registry_new [sample_adapter vault_configuration] =
      Inr [(lit ''vault'', sample_adapter vault_configuration)]"
    by (simp add: registry_new_def bt_get_def sample_adapter_def vault_configuration_def)
  have adapters: "\<exists>q e cred. delegated_grant_new r q e cred = Some (Inr g)"
    if "p \<in> set [sample_adapter vault_configuration]" "sp_issue p r = Inr g" for p r g
  proof -
    from that have "delegated_grant_new r (lit ''vault'') (gr_expires_at r) [1] = Some (Inr g)"
      by (auto simp: sample_adapter_def vault_configuration_def split: option.splits sum.splits)
    then show ?thesis by blast
  qed
  note bounded = delegated_grants_bounded [where ps = "[sample_adapter vault_configuration]" and
    profile = "lit ''ci''" and references = "[LogicalSecretReference (lit ''vault'') (lit ''kv'')]" and subject = no_subject]
  show ?thesis using bounded [OF conf time(1,2) reg adapters] bounded [OF conf time(1,3) reg adapters] by simp
qed

end
