(* ===== verification/Factory_Budget.thy ===== *)
theory Factory_Budget
  imports Domain Octa_Bytes
begin

text \<open>
  Hard budgets of the Factory, \<^verbatim>\<open>server/core/octacity-server-factory/src/budget.rs\<close> and
  \<^verbatim>\<open>budget_cost.rs\<close>: immutable limits under product ceilings, the comparison of nested limits, usage
  counters with checked arithmetic, and costs that may have an unpriced component.
\<close>

section \<open>Limits\<close>

definition MAX_FACTORY_ATTEMPTS :: u32 where "MAX_FACTORY_ATTEMPTS = 1000"
definition MAX_FACTORY_ELAPSED_MILLIS :: u64 where "MAX_FACTORY_ELAPSED_MILLIS = 365 * 24 * 60 * 60 * 1000"
definition MAX_FACTORY_TOKENS :: u64 where "MAX_FACTORY_TOKENS = 1000000000"
definition MAX_FACTORY_COST_MICRO_UNITS :: u64 where "MAX_FACTORY_COST_MICRO_UNITS = 1000000000000"
definition MAX_FACTORY_OUTPUT_BYTES :: u64 where "MAX_FACTORY_OUTPUT_BYTES = 1024 * 1024 * 1024 * 1024"

datatype BudgetResource = BR_Attempts | BR_ElapsedTime | BR_Tokens | BR_Cost | BR_OutputBytes

definition budget_resource_as_str :: "BudgetResource \<Rightarrow> rstr" where
  "budget_resource_as_str r = (case r of
     BR_Attempts \<Rightarrow> lit ''attempts'' | BR_ElapsedTime \<Rightarrow> lit ''elapsed_time'' | BR_Tokens \<Rightarrow> lit ''tokens''
   | BR_Cost \<Rightarrow> lit ''cost'' | BR_OutputBytes \<Rightarrow> lit ''output_bytes'')"

text \<open>The two variants of \<^verbatim>\<open>FactoryError\<close> that budgets return.\<close>

datatype budget_error = InvalidBudget BudgetResource | BudgetExceeded BudgetResource

record BudgetCeilingViolation =
  cv_resource :: BudgetResource
  cv_requested :: u64
  cv_maximum :: u64

record BudgetLimit =
  max_attempts :: u32
  max_elapsed_millis :: u64
  max_tokens :: u64
  max_cost_micro_units :: u64
  max_output_bytes :: u64

definition validate_limit :: "u64 \<Rightarrow> u64 \<Rightarrow> BudgetResource \<Rightarrow> budget_error + unit" where
  "validate_limit v ceiling resource =
     (if v = 0 \<and> (case resource of BR_Attempts \<Rightarrow> True | BR_ElapsedTime \<Rightarrow> True | _ \<Rightarrow> False) \<or> ceiling < v
      then Inl (InvalidBudget resource) else Inr ())"

definition budget_limit_new :: "u32 \<Rightarrow> u64 \<Rightarrow> u64 \<Rightarrow> u64 \<Rightarrow> u64 \<Rightarrow> budget_error + BudgetLimit" where
  "budget_limit_new attempts elapsed tokens cost output =
     and_then (validate_limit (ucast attempts) (ucast MAX_FACTORY_ATTEMPTS) BR_Attempts) (\<lambda>_.
     and_then (validate_limit elapsed MAX_FACTORY_ELAPSED_MILLIS BR_ElapsedTime) (\<lambda>_.
     and_then (validate_limit tokens MAX_FACTORY_TOKENS BR_Tokens) (\<lambda>_.
     and_then (validate_limit cost MAX_FACTORY_COST_MICRO_UNITS BR_Cost) (\<lambda>_.
     and_then (validate_limit output MAX_FACTORY_OUTPUT_BYTES BR_OutputBytes) (\<lambda>_.
     Inr \<lparr>max_attempts = attempts, max_elapsed_millis = elapsed, max_tokens = tokens,
          max_cost_micro_units = cost, max_output_bytes = output\<rparr>)))))"

definition budget_dimensions :: "BudgetLimit \<Rightarrow> BudgetLimit \<Rightarrow> (BudgetResource \<times> u64 \<times> u64) list" where
  "budget_dimensions self enclosing =
     [(BR_Attempts, ucast (max_attempts self), ucast (max_attempts enclosing)),
      (BR_ElapsedTime, max_elapsed_millis self, max_elapsed_millis enclosing),
      (BR_Tokens, max_tokens self, max_tokens enclosing),
      (BR_Cost, max_cost_micro_units self, max_cost_micro_units enclosing),
      (BR_OutputBytes, max_output_bytes self, max_output_bytes enclosing)]"

text \<open>The \<^verbatim>\<open>while\<close> loop over the dimensions.\<close>

fun excess_loop :: "(BudgetResource \<times> u64 \<times> u64) list \<Rightarrow> BudgetCeilingViolation option" where
  "excess_loop [] = None"
| "excess_loop ((resource, requested, maximum) # rest) =
     (if maximum < requested then Some \<lparr>cv_resource = resource, cv_requested = requested, cv_maximum = maximum\<rparr>
      else excess_loop rest)"

definition first_excess :: "BudgetLimit \<Rightarrow> BudgetLimit \<Rightarrow> BudgetCeilingViolation option" where
  "first_excess self enclosing = excess_loop (budget_dimensions self enclosing)"

definition fits_within :: "BudgetLimit \<Rightarrow> BudgetLimit \<Rightarrow> bool" where
  "fits_within self enclosing = (first_excess self enclosing = None)"

section \<open>Costs\<close>

record BudgetCost =
  known_micro_units :: u64
  unpriced :: bool

datatype CostWire = CW_Known u64 | CW_Unknown u64

definition cost_unknown :: BudgetCost where
  "cost_unknown = \<lparr>known_micro_units = 0, unpriced = True\<rparr>"

definition cost_is_known :: "BudgetCost \<Rightarrow> bool" where
  "cost_is_known c = (\<not> unpriced c)"

definition cost_checked_add :: "BudgetCost \<Rightarrow> BudgetCost \<Rightarrow> BudgetCost option" where
  "cost_checked_add a b =
     Option.bind (checked_add (known_micro_units a) (known_micro_units b)) (\<lambda>k.
     Some \<lparr>known_micro_units = k, unpriced = (unpriced a \<or> unpriced b)\<rparr>)"

definition cost_checked_sub :: "BudgetCost \<Rightarrow> BudgetCost \<Rightarrow> BudgetCost option" where
  "cost_checked_sub a b =
     (if cost_is_known a \<and> \<not> cost_is_known b then None
      else Option.bind (checked_sub (known_micro_units a) (known_micro_units b)) (\<lambda>k.
        Some \<lparr>known_micro_units = k, unpriced = unpriced a\<rparr>))"

definition canonical_bytes :: "BudgetCost \<Rightarrow> u8 list" where
  "canonical_bytes c = be_bytes 8 (known_micro_units c) @ (if unpriced c then [1] else [])"

definition cost_from_u64 :: "u64 \<Rightarrow> BudgetCost" where
  "cost_from_u64 v = \<lparr>known_micro_units = v, unpriced = False\<rparr>"

definition cost_from_wire :: "CostWire \<Rightarrow> BudgetCost" where
  "cost_from_wire w = (case w of
     CW_Known v \<Rightarrow> cost_from_u64 v
   | CW_Unknown k \<Rightarrow> \<lparr>known_micro_units = k, unpriced = True\<rparr>)"

definition cost_to_wire :: "BudgetCost \<Rightarrow> CostWire" where
  "cost_to_wire c = (if unpriced c then CW_Unknown (known_micro_units c) else CW_Known (known_micro_units c))"

definition cost_eq_u64 :: "BudgetCost \<Rightarrow> u64 \<Rightarrow> bool" where
  "cost_eq_u64 c v = (cost_is_known c \<and> known_micro_units c = v)"

section \<open>Usage\<close>

record BudgetUsage =
  attempts :: u32
  elapsed_millis :: u64
  tokens :: u64
  cost_micro_units :: BudgetCost
  output_bytes :: u64

definition usage_default :: BudgetUsage where
  "usage_default = \<lparr>attempts = 0, elapsed_millis = 0, tokens = 0, cost_micro_units = cost_from_u64 0, output_bytes = 0\<rparr>"

definition usage_checked_sub :: "BudgetUsage \<Rightarrow> BudgetUsage \<Rightarrow> BudgetUsage option" where
  "usage_checked_sub a b =
     Option.bind (checked_sub (attempts a) (attempts b)) (\<lambda>n.
     Option.bind (checked_sub (elapsed_millis a) (elapsed_millis b)) (\<lambda>e.
     Option.bind (checked_sub (tokens a) (tokens b)) (\<lambda>t.
     Option.bind (cost_checked_sub (cost_micro_units a) (cost_micro_units b)) (\<lambda>c.
     Option.bind (checked_sub (output_bytes a) (output_bytes b)) (\<lambda>out.
     Some \<lparr>attempts = n, elapsed_millis = e, tokens = t, cost_micro_units = c, output_bytes = out\<rparr>)))))"

definition usage_checked_add :: "BudgetUsage \<Rightarrow> BudgetUsage \<Rightarrow> BudgetUsage option" where
  "usage_checked_add a b =
     Option.bind (checked_add (attempts a) (attempts b)) (\<lambda>n.
     Option.bind (checked_add (elapsed_millis a) (elapsed_millis b)) (\<lambda>e.
     Option.bind (checked_add (tokens a) (tokens b)) (\<lambda>t.
     Option.bind (cost_checked_add (cost_micro_units a) (cost_micro_units b)) (\<lambda>c.
     Option.bind (checked_add (output_bytes a) (output_bytes b)) (\<lambda>out.
     Some \<lparr>attempts = n, elapsed_millis = e, tokens = t, cost_micro_units = c, output_bytes = out\<rparr>)))))"

definition usage_checks :: "BudgetUsage \<Rightarrow> BudgetLimit \<Rightarrow> (bool \<times> BudgetResource) list" where
  "usage_checks u limit =
     [(max_attempts limit < attempts u, BR_Attempts),
      (max_elapsed_millis limit < elapsed_millis u, BR_ElapsedTime),
      (max_tokens limit < tokens u, BR_Tokens),
      (max_cost_micro_units limit < known_micro_units (cost_micro_units u), BR_Cost),
      (max_output_bytes limit < output_bytes u, BR_OutputBytes)]"

definition usage_validate :: "BudgetUsage \<Rightarrow> BudgetLimit \<Rightarrow> budget_error + BudgetUsage" where
  "usage_validate u limit =
     and_then (try_each (\<lambda>(exceeded, resource). if exceeded then Inl (BudgetExceeded resource) else Inr ())
       (usage_checks u limit)) (\<lambda>_. Inr u)"

section \<open>Facts\<close>

lemma unat_ucast_u32: "unat (ucast (a :: u32) :: u64) = unat a"
proof -
  have "unat a < 2 ^ 32" using unsigned_less [of a, where 'a = nat] by simp
  then have "unat a < 2 ^ 64" by simp
  then show ?thesis by (simp add: unsigned_ucast_eq take_bit_nat_eq_self)
qed

lemma ucast_u32_less: "(ucast (a :: u32) :: u64) < ucast b \<longleftrightarrow> a < b"
  by (simp add: word_less_nat_alt unat_ucast_u32)

lemma fits_within_iff:
  "fits_within a b \<longleftrightarrow> max_attempts a \<le> max_attempts b \<and> max_elapsed_millis a \<le> max_elapsed_millis b \<and>
     max_tokens a \<le> max_tokens b \<and> max_cost_micro_units a \<le> max_cost_micro_units b \<and>
     max_output_bytes a \<le> max_output_bytes b"
  by (auto simp: fits_within_def first_excess_def budget_dimensions_def not_less ucast_u32_less)

lemma usage_validate_Inr:
  "usage_validate u l = Inr v \<longleftrightarrow> v = u \<and> attempts u \<le> max_attempts l \<and> elapsed_millis u \<le> max_elapsed_millis l \<and>
     tokens u \<le> max_tokens l \<and> known_micro_units (cost_micro_units u) \<le> max_cost_micro_units l \<and>
     output_bytes u \<le> max_output_bytes l"
  by (auto simp: usage_validate_def usage_checks_def res_simps split: if_splits)

lemma excess_loop_Some:
  "excess_loop ds = Some v \<Longrightarrow> \<exists>before after. ds = before @ (cv_resource v, cv_requested v, cv_maximum v) # after \<and>
     cv_maximum v < cv_requested v \<and> (\<forall>(_, requested, maximum)\<in>set before. requested \<le> maximum)"
proof (induction ds rule: excess_loop.induct)
  case (2 resource requested maximum rest)
  show ?case
  proof (cases "maximum < requested")
    case True
    with 2(2) show ?thesis by (intro exI [of _ "[]"] exI [of _ rest]) auto
  next
    case False
    with 2 obtain before after where "rest = before @ (cv_resource v, cv_requested v, cv_maximum v) # after"
      "cv_maximum v < cv_requested v" "\<forall>(_, requested, maximum)\<in>set before. requested \<le> maximum" by auto
    with False show ?thesis by (intro exI [of _ "(resource, requested, maximum) # before"] exI [of _ after]) auto
  qed
qed simp

lemma usage_checked_add_Some:
  assumes "usage_checked_add a b = Some c"
  shows "checked_add (attempts a) (attempts b) = Some (attempts c)"
    "checked_add (elapsed_millis a) (elapsed_millis b) = Some (elapsed_millis c)"
    "checked_add (tokens a) (tokens b) = Some (tokens c)"
    "checked_add (known_micro_units (cost_micro_units a)) (known_micro_units (cost_micro_units b)) =
       Some (known_micro_units (cost_micro_units c))"
    "unpriced (cost_micro_units c) = (unpriced (cost_micro_units a) \<or> unpriced (cost_micro_units b))"
    "checked_add (output_bytes a) (output_bytes b) = Some (output_bytes c)"
  using assms unfolding usage_checked_add_def cost_checked_add_def bind_eq_Some_conv by auto

lemma checked_add_comm: "checked_add a b = checked_add b a"
  by (simp add: checked_add_def add.commute)

lemma checked_add_le: "checked_add a b = Some c \<Longrightarrow> a \<le> c \<and> b \<le> c"
  by (auto simp: word_le_nat_alt dest: unat_checked_add)

section \<open>Properties\<close>

text \<open>Nested budgets are safe (C40): a limit fits within another exactly when every usage the first
  admits is admitted by the second; otherwise the reported violation is the first dimension, in the
  fixed order, whose request exceeds its maximum.\<close>

theorem budget_nesting_safe:
  "(fits_within inner outer \<longleftrightarrow> (\<forall>u. is_ok (usage_validate u inner) \<longrightarrow> is_ok (usage_validate u outer))) \<and>
   (first_excess inner outer = Some v \<longrightarrow>
      (\<exists>before after. budget_dimensions inner outer = before @ (cv_resource v, cv_requested v, cv_maximum v) # after \<and>
         cv_maximum v < cv_requested v \<and> (\<forall>(_, requested, maximum)\<in>set before. requested \<le> maximum)))"
proof -
  let ?full = "\<lparr>attempts = max_attempts inner, elapsed_millis = max_elapsed_millis inner, tokens = max_tokens inner,
    cost_micro_units = cost_from_u64 (max_cost_micro_units inner), output_bytes = max_output_bytes inner\<rparr>"
  have ok: "is_ok (usage_validate u l) \<longleftrightarrow> attempts u \<le> max_attempts l \<and> elapsed_millis u \<le> max_elapsed_millis l \<and>
     tokens u \<le> max_tokens l \<and> known_micro_units (cost_micro_units u) \<le> max_cost_micro_units l \<and>
     output_bytes u \<le> max_output_bytes l" for u l
    by (simp add: is_ok_iff usage_validate_Inr)
  have "fits_within inner outer" if "\<forall>u. is_ok (usage_validate u inner) \<longrightarrow> is_ok (usage_validate u outer)"
    using that [rule_format, of ?full] by (simp add: ok fits_within_iff cost_from_u64_def)
  moreover have "is_ok (usage_validate u outer)" if "fits_within inner outer" "is_ok (usage_validate u inner)" for u
    using that by (auto simp: ok fits_within_iff)
  ultimately show ?thesis using excess_loop_Some by (auto simp: first_excess_def)
qed

theorem budget_nesting_safe_witness:
  "\<exists>v. first_excess
       \<lparr>max_attempts = 2, max_elapsed_millis = 10, max_tokens = 5, max_cost_micro_units = 9, max_output_bytes = 0\<rparr>
       \<lparr>max_attempts = 3, max_elapsed_millis = 10, max_tokens = 4, max_cost_micro_units = 1, max_output_bytes = 0\<rparr> = Some v \<and>
     cv_resource v = BR_Tokens \<and> cv_maximum v < cv_requested v"
proof -
  let ?a = "\<lparr>max_attempts = 2, max_elapsed_millis = 10, max_tokens = 5, max_cost_micro_units = 9, max_output_bytes = 0\<rparr>"
  let ?b = "\<lparr>max_attempts = 3, max_elapsed_millis = 10, max_tokens = 4, max_cost_micro_units = 1, max_output_bytes = 0\<rparr>"
  have run: "first_excess ?a ?b = Some \<lparr>cv_resource = BR_Tokens, cv_requested = 5, cv_maximum = 4\<rparr>" by code_simp
  with budget_nesting_safe [of ?a ?b] show ?thesis by simp
qed

text \<open>Usage accounting: a sum of usages has exactly the sums of the counters, does not depend on the
  order, gives back the first usage when the second is subtracted (except that an unpriced part
  stays unpriced), and if it stays within a limit so did both parts.\<close>

theorem budget_usage_accounting:
  assumes "usage_checked_add a b = Some c"
  shows "unat (attempts c) = unat (attempts a) + unat (attempts b) \<and>
    unat (elapsed_millis c) = unat (elapsed_millis a) + unat (elapsed_millis b) \<and>
    unat (tokens c) = unat (tokens a) + unat (tokens b) \<and>
    unat (known_micro_units (cost_micro_units c)) =
      unat (known_micro_units (cost_micro_units a)) + unat (known_micro_units (cost_micro_units b)) \<and>
    unat (output_bytes c) = unat (output_bytes a) + unat (output_bytes b) \<and>
    usage_checked_add b a = Some c \<and>
    usage_checked_sub c b =
      Some (a\<lparr>cost_micro_units := (cost_micro_units a)\<lparr>unpriced := unpriced (cost_micro_units c)\<rparr>\<rparr>) \<and>
    (is_ok (usage_validate c l) \<longrightarrow> is_ok (usage_validate a l) \<and> is_ok (usage_validate b l))"
proof -
  note sums = usage_checked_add_Some [OF assms]
  have "usage_checked_add b a = Some c"
    using assms unfolding usage_checked_add_def cost_checked_add_def
    by (simp add: checked_add_comm [of "attempts b"] checked_add_comm [of "elapsed_millis b"]
        checked_add_comm [of "tokens b"] checked_add_comm [of "known_micro_units (cost_micro_units b)"]
        checked_add_comm [of "output_bytes b"] disj_commute)
  moreover have "usage_checked_sub c b =
      Some (a\<lparr>cost_micro_units := (cost_micro_units a)\<lparr>unpriced := unpriced (cost_micro_units c)\<rparr>\<rparr>)"
    using sums(5) sums(1-4,6) [THEN checked_add_sub_cancel]
    by (cases a) (auto simp: usage_checked_sub_def cost_checked_sub_def cost_is_known_def)
  moreover have "is_ok (usage_validate a l) \<and> is_ok (usage_validate b l)" if "is_ok (usage_validate c l)"
    using that sums(1-4,6) [THEN checked_add_le] by (auto simp: is_ok_iff usage_validate_Inr intro: order_trans)
  ultimately show ?thesis using sums(1-4,6) [THEN unat_checked_add] by blast
qed

theorem budget_usage_accounting_witness:
  "usage_checked_sub (usage_default\<lparr>tokens := 5, cost_micro_units := cost_unknown\<rparr>) (usage_default\<lparr>tokens := 2\<rparr>) =
     Some (usage_default\<lparr>tokens := 3, cost_micro_units := cost_unknown\<rparr>)"
proof -
  have "usage_checked_add (usage_default\<lparr>tokens := 3, cost_micro_units := cost_unknown\<rparr>) (usage_default\<lparr>tokens := 2\<rparr>) =
     Some (usage_default\<lparr>tokens := 5, cost_micro_units := cost_unknown\<rparr>)" by code_simp
  from budget_usage_accounting [OF this] show ?thesis by (simp add: cost_unknown_def)
qed

text \<open>Costs keep what is unpriced: the canonical bytes determine a cost, so that an unpriced zero is
  never taken for a measured zero, and the wire form restores to the same cost.\<close>

theorem budget_cost_unambiguous:
  "(canonical_bytes a = canonical_bytes b \<longleftrightarrow> a = b) \<and> cost_from_wire (cost_to_wire a) = a \<and>
   (cost_eq_u64 a n \<longleftrightarrow> a = cost_from_u64 n)"
proof -
  have "a = b" if eq: "canonical_bytes a = canonical_bytes b"
  proof -
    from arg_cong [OF eq, of length] have "unpriced a = unpriced b"
      by (auto simp: canonical_bytes_def split: if_splits)
    moreover from eq have "be_bytes 8 (known_micro_units a) = be_bytes 8 (known_micro_units b)"
      by (simp add: canonical_bytes_def append_eq_same_length)
    then have "known_micro_units a = known_micro_units b" by (rule be_bytes_inj) simp
    ultimately show ?thesis by simp
  qed
  then show ?thesis
    by (cases a) (auto simp: cost_from_wire_def cost_to_wire_def cost_from_u64_def cost_eq_u64_def cost_is_known_def)
qed

end
