(* ===== verification/Factory_Values.thy ===== *)
theory Factory_Values
  imports Factory_Budget Source_Values
begin

text \<open>
  Bounded Factory values, \<^verbatim>\<open>server/core/octacity-server-factory/src/value.rs\<close>: texts, keys, metadata,
  priorities, sequences, content digests and the framing of the bytes that are hashed; and the part of
  \<^verbatim>\<open>error.rs\<close> that the modelled operations return. SHA-256 is the parameter \<open>sha256\<close>.
\<close>

section \<open>Errors\<close>

datatype FactoryTextKind = TK_ExternalWorkIdentity | TK_Key | TK_Text | TK_SafeText | TK_MetadataKey | TK_MetadataValue

datatype TextRejection = TR_Empty | TR_TooLong | TR_SurroundingWhitespace | TR_ControlCharacter
  | TR_InvalidCharacter | TR_InvalidStart | TR_Sensitive

datatype PermissionCategory = PC_PluginIdentity | PC_ExecutableIdentity | PC_ToolIdentity | PC_CommandArguments
  | PC_DescendantProcesses | PC_FilesystemPaths | PC_MountModes | PC_NetworkHosts | PC_SecretProfiles
  | PC_WorkloadIdentityProfiles | PC_Cpu | PC_Memory | PC_Disk | PC_ProcessCount | PC_ElapsedTime | PC_Outputs

datatype FactoryEntityKind = FK_FactoryLaunchPolicy | FK_FactoryAccessProfile | FK_FactoryRole
  | FK_FactoryRoleProfile | FK_FactoryConfiguration | FK_WorkSourceInput | FK_WorkSourceGroup
  | FK_WorkEnvelope | FK_FactoryRun | FK_FlowDefinition | FK_FlowRun | FK_NodeAttempt | FK_WorkflowCycle
  | FK_TaskEnvelope | FK_ContextManifest | FK_RetrievalReceipt | FK_DecisionSignalRequest
  | FK_DecisionSignalReceipt | FK_ChangeSet | FK_EvidenceManifest | FK_EvaluationPlan | FK_Assessment
  | FK_Decision | FK_Escalation | FK_DeliveryAttempt | FK_ReportingAttempt

datatype FactoryEnumKind = EK_FlowNode | EK_RunState | EK_Risk | EK_AssessmentOutcome
  | EK_DecisionOutcome | EK_FindingSeverity | EK_DeterministicGateOutcome | EK_IndeterminatePolicy
  | EK_DeliveryState | EK_ReportingState | EK_DecisionSignalPurpose | EK_DecisionSignalState
  | EK_DecisionSignalMode | EK_DecisionSignalFallback | EK_PermissionCategory | EK_MountMode

datatype FactoryChoiceKind = CK_NodeCapability | CK_ExecutionPolicy | CK_ExecutionTarget
  | CK_EnforcementCapability | CK_SecretProfile | CK_WorkloadIdentityProfile | CK_AdmissionPolicy
  | CK_BuildConfiguration | CK_PermissionCeiling | CK_DecisionSignalProvider | CK_DecisionSignalAdapter
  | CK_DecisionSignalModel | CK_DecisionSignalQuestionSet | CK_DecisionSignalPolicy | CK_CriterionPack
  | CK_Evaluator | CK_DeliveryAdapter | CK_DeliveryPolicy

datatype FactoryRunState = FR_Admitted | FR_Running | FR_Waiting | FR_Cancelled | FR_Completed

type_synonym FactoryKey = rstr
type_synonym FactoryText = rstr
type_synonym FactoryDigest = "u8 list"

text \<open>An immutable definition is named by its identifier, version and digest, compared in this order.\<close>

type_synonym FlowDefinitionRef = "uuid \<times> u64 \<times> FactoryDigest"

datatype FlowBudgetCeiling = BC_Definition | BC_Admission | BC_Configuration

record FlowBudgetCeilingViolation =
  bv_definition :: FlowDefinitionRef
  bv_node :: "FactoryKey option"
  bv_ceiling :: FlowBudgetCeiling
  bv_violation :: BudgetCeilingViolation

text \<open>A card of an issue, and two declared outcomes that can both publish to it.\<close>

datatype FlowIssueSlot = Slot_Named FactoryKey | Slot_Custom uuid FactoryKey FactoryKey

record FlowIssueOutcomeLocation =
  il_definition :: FlowDefinitionRef
  il_node :: FactoryKey
  il_outcome :: FactoryKey
  il_outcome_index :: nat

record FlowIssueSlotConflict =
  ic_slot :: FlowIssueSlot
  ic_producers :: "FlowIssueOutcomeLocation list"

text \<open>All variants but the two that carry a report about code bindings or about one issue presentation.\<close>

datatype FactoryError =
    FE_InvalidIdentifier FactoryEntityKind
  | FE_InvalidText FactoryTextKind TextRejection
  | FE_UnsupportedEnum FactoryEnumKind
  | FE_InvalidDigest
  | FE_InvalidSequence
  | FE_InvalidPriority
  | FE_DuplicateMetadataKey
  | FE_MetadataLimitExceeded
  | FE_Budget budget_error
  | FE_BudgetCeilingExceeded FlowBudgetCeilingViolation
  | FE_ConfigurationNodeCapacityExceeded u32 u32
  | FE_FlowNodeCapacityExceeded FlowDefinitionRef u16 u16
  | FE_InvalidReference rstr
  | FE_InconsistentSubject
  | FE_CollectionLimitExceeded rstr
  | FE_DuplicateChoiceAlias FactoryChoiceKind
  | FE_UnknownChoiceAlias FactoryChoiceKind
  | FE_InvalidConfiguration rstr
  | FE_AmbiguousIssuePresentationSlot FlowIssueSlotConflict
  | FE_InvalidPermission PermissionCategory
  | FE_DuplicatePermission PermissionCategory
  | FE_UnenforceablePermission PermissionCategory
  | FE_InvalidClaim
  | FE_StaleClaim
  | FE_ExpiredClaim
  | FE_InvalidLifecycle FactoryRunState
  | FE_WipExceeded
  | FE_InvalidDecisionPolicy rstr
  | FE_InvalidDecisionSignal rstr
  | FE_InvalidTaskContract rstr

section \<open>Texts and keys\<close>

definition MAX_EXTERNAL_WORK_IDENTITY_BYTES :: nat where "MAX_EXTERNAL_WORK_IDENTITY_BYTES = 256"
definition MAX_FACTORY_KEY_BYTES :: nat where "MAX_FACTORY_KEY_BYTES = 128"
definition MAX_FACTORY_TEXT_BYTES :: nat where "MAX_FACTORY_TEXT_BYTES = 4 * 1024"
definition MAX_FACTORY_SAFE_TEXT_BYTES :: nat where "MAX_FACTORY_SAFE_TEXT_BYTES = 2 * 1024"
definition MAX_FACTORY_METADATA_ENTRIES :: nat where "MAX_FACTORY_METADATA_ENTRIES = 32"
definition MAX_FACTORY_METADATA_KEY_BYTES :: nat where "MAX_FACTORY_METADATA_KEY_BYTES = 64"
definition MAX_FACTORY_METADATA_VALUE_BYTES :: nat where "MAX_FACTORY_METADATA_VALUE_BYTES = 512"
definition MAX_FACTORY_METADATA_BYTES :: nat where "MAX_FACTORY_METADATA_BYTES = 8 * 1024"
definition MAX_WORK_PRIORITY :: u8 where "MAX_WORK_PRIORITY = 100"

definition validate_text :: "rstr \<Rightarrow> nat \<Rightarrow> FactoryTextKind \<Rightarrow> FactoryError + unit" where
  "validate_text v limit kind =
     (if v = [] then Inl (FE_InvalidText kind TR_Empty)
      else if limit < str_len v then Inl (FE_InvalidText kind TR_TooLong)
      else if trim v \<noteq> v then Inl (FE_InvalidText kind TR_SurroundingWhitespace)
      else if list_ex is_control v then Inl (FE_InvalidText kind TR_ControlCharacter)
      else Inr ())"

definition is_key_start :: "rchar \<Rightarrow> bool" where
  "is_key_start c \<longleftrightarrow> is_ascii_lowercase c \<or> is_ascii_digit c"

definition is_key_char :: "rchar \<Rightarrow> bool" where
  "is_key_char c \<longleftrightarrow> is_ascii_lowercase c \<or> is_ascii_digit c \<or> c = 46 \<or> c = 95 \<or> c = 45"

definition validate_key :: "rstr \<Rightarrow> nat \<Rightarrow> FactoryTextKind \<Rightarrow> FactoryError + unit" where
  "validate_key v limit kind =
     (case v of
        [] \<Rightarrow> Inl (FE_InvalidText kind TR_Empty)
      | c # cs \<Rightarrow>
          if limit < str_len v then Inl (FE_InvalidText kind TR_TooLong)
          else if \<not> is_key_start c then Inl (FE_InvalidText kind TR_InvalidStart)
          else if \<not> list_all is_key_char cs then Inl (FE_InvalidText kind TR_InvalidCharacter)
          else Inr ())"

definition bounded_factory_text_new :: "nat \<Rightarrow> FactoryTextKind \<Rightarrow> rstr \<Rightarrow> FactoryError + rstr" where
  "bounded_factory_text_new limit kind v = and_then (validate_text v limit kind) (\<lambda>_. Inr v)"

definition external_work_identity_new :: "rstr \<Rightarrow> FactoryError + rstr" where
  "external_work_identity_new = bounded_factory_text_new MAX_EXTERNAL_WORK_IDENTITY_BYTES TK_ExternalWorkIdentity"

definition factory_text_new :: "rstr \<Rightarrow> FactoryError + FactoryText" where
  "factory_text_new = bounded_factory_text_new MAX_FACTORY_TEXT_BYTES TK_Text"

definition factory_key_new :: "rstr \<Rightarrow> FactoryError + FactoryKey" where
  "factory_key_new v = and_then (validate_key v MAX_FACTORY_KEY_BYTES TK_Key) (\<lambda>_. Inr v)"

definition sensitive_markers :: "rstr list" where
  "sensitive_markers = map lit
     [''-----begin '', ''authorization:'', ''aws_secret_access_key'', ''bearer '', ''github_pat_'', ''ghp_'',
      ''password='', ''password'' @ [CHR 34, CHR 58], ''private_key='', ''secret='', ''sk-proj-'', ''token='',
      ''x-amz-signature'']"

definition contains_sensitive_material :: "rstr \<Rightarrow> bool" where
  "contains_sensitive_material v = list_ex (\<lambda>marker. str_contains marker (to_ascii_lowercase v)) sensitive_markers"

definition factory_safe_text_new :: "rstr \<Rightarrow> FactoryError + rstr" where
  "factory_safe_text_new v =
     and_then (validate_text v MAX_FACTORY_SAFE_TEXT_BYTES TK_SafeText) (\<lambda>_.
     if contains_sensitive_material v then Inl (FE_InvalidText TK_SafeText TR_Sensitive) else Inr v)"

section \<open>Metadata\<close>

definition sensitive_key :: "rstr \<Rightarrow> bool" where
  "sensitive_key k \<longleftrightarrow>
     k \<in> set (map lit [''authorization'', ''credential'', ''password'', ''private_key'', ''secret'', ''signature'', ''token'']) \<or>
     str_contains (lit ''presigned'') k"

text \<open>The loop of \<^verbatim>\<open>FactoryMetadata::try_new\<close>. The byte count is a \<^verbatim>\<open>usize\<close>; its checked sum fails at
  \<open>2 ^ 64\<close>.\<close>

fun metadata_loop :: "(rstr \<times> rstr) list \<Rightarrow> (rstr, rstr) btree \<Rightarrow> nat \<Rightarrow> FactoryError + (rstr, rstr) btree \<times> nat" where
  "metadata_loop [] m n = Inr (m, n)"
| "metadata_loop ((k, v) # es) m n =
     and_then (validate_key k MAX_FACTORY_METADATA_KEY_BYTES TK_MetadataKey) (\<lambda>_.
     if sensitive_key k then Inl (FE_InvalidText TK_MetadataKey TR_Sensitive)
     else and_then (validate_text v MAX_FACTORY_METADATA_VALUE_BYTES TK_MetadataValue) (\<lambda>_.
       if 2 ^ 64 \<le> n + (str_len k + str_len v) then Inl FE_MetadataLimitExceeded
       else if bt_get m k \<noteq> None then Inl FE_DuplicateMetadataKey
       else metadata_loop es (bt_insert k v m) (n + (str_len k + str_len v))))"

definition metadata_try_new :: "(rstr \<times> rstr) list \<Rightarrow> FactoryError + (rstr, rstr) btree" where
  "metadata_try_new entries =
     and_then (metadata_loop entries [] 0) (\<lambda>(m, n).
     if MAX_FACTORY_METADATA_ENTRIES < length m \<or> MAX_FACTORY_METADATA_BYTES < n
     then Inl FE_MetadataLimitExceeded else Inr m)"

section \<open>Sequences, priorities and digests\<close>

definition sequence_new :: "u64 \<Rightarrow> FactoryError + u64" where
  "sequence_new v = (if v = 0 then Inl FE_InvalidSequence else Inr v)"

definition work_priority_new :: "u8 \<Rightarrow> FactoryError + u8" where
  "work_priority_new v = (if MAX_WORK_PRIORITY < v then Inl FE_InvalidPriority else Inr v)"

text \<open>The outer option is the \<^verbatim>\<open>unreachable!\<close> panic of \<^verbatim>\<open>hex_digit\<close>.\<close>

definition factory_digest_from_lower_hex :: "rstr \<Rightarrow> (FactoryError + FactoryDigest) option" where
  "factory_digest_from_lower_hex v =
     (if str_len v \<noteq> 64 \<or> \<not> list_all is_lower_hex v then Some (Inl FE_InvalidDigest)
      else map_option Inr (hex_pairs (map of_nat v)))"

section \<open>Hashed bytes\<close>

text \<open>UTF-8, \<^verbatim>\<open>str::as_bytes\<close>.\<close>

definition utf8 :: "rchar \<Rightarrow> nat list" where
  "utf8 c =
     (if c < 128 then [c]
      else if c < 2048 then [192 + c div 64, 128 + c mod 64]
      else if c < 65536 then [224 + c div 4096, 128 + c div 64 mod 64, 128 + c mod 64]
      else [240 + c div 262144, 128 + c div 4096 mod 64, 128 + c div 64 mod 64, 128 + c mod 64])"

definition as_bytes :: "rstr \<Rightarrow> u8 list" where
  "as_bytes s = map of_nat (concat (map utf8 s))"

text \<open>\<^verbatim>\<open>u64::try_from(length).to_be_bytes()\<close> followed by the bytes: \<^verbatim>\<open>hash_field\<close>, and
  \<^verbatim>\<open>encode_text\<close> of \<^verbatim>\<open>permission.rs\<close>.\<close>

definition encode_count :: "nat \<Rightarrow> u8 list" where
  "encode_count n = be_bytes 8 (of_nat n :: u64)"

definition framed :: "u8 list \<Rightarrow> u8 list" where
  "framed field = encode_count (length field) @ field"

definition digest_preimage :: "rstr \<Rightarrow> u8 list list \<Rightarrow> u8 list" where
  "digest_preimage domain parts = framed (as_bytes domain) @ concat (map framed parts)"

definition factory_digest_sha256 :: "(u8 list \<Rightarrow> FactoryDigest) \<Rightarrow> rstr \<Rightarrow> u8 list list \<Rightarrow> FactoryDigest" where
  "factory_digest_sha256 sha256 domain parts = sha256 (digest_preimage domain parts)"

section \<open>Unambiguous encodings\<close>

text \<open>An encoding whose values can be read off the front of a byte string.\<close>

locale prefix_code =
  fixes enc :: "'a \<Rightarrow> 'b list" and valid :: "'a \<Rightarrow> bool"
  assumes split: "valid x \<Longrightarrow> valid y \<Longrightarrow> enc x @ r = enc y @ s \<Longrightarrow> x = y \<and> r = s"
begin

lemma split_same: "valid x \<Longrightarrow> valid y \<Longrightarrow> enc x @ r = enc y @ s \<longleftrightarrow> x = y \<and> r = s"
  using split by blast

lemma inj: "valid x \<Longrightarrow> valid y \<Longrightarrow> enc x = enc y \<Longrightarrow> x = y"
  using split [of x y "[]" "[]"] by simp

lemma list_split:
  "length xs = length ys \<Longrightarrow> \<forall>x\<in>set xs. valid x \<Longrightarrow> \<forall>y\<in>set ys. valid y \<Longrightarrow>
     concat (map enc xs) @ r = concat (map enc ys) @ s \<Longrightarrow> xs = ys \<and> r = s"
proof (induction xs ys rule: list_induct2)
  case (Cons x xs y ys)
  then have "enc x @ concat (map enc xs) @ r = enc y @ concat (map enc ys) @ s" by simp
  from split [OF _ _ this] Cons.prems(1,2) have "x = y" "concat (map enc xs) @ r = concat (map enc ys) @ s" by simp_all
  with Cons.IH Cons.prems(1,2) show ?case by simp
qed simp

end

text \<open>If no code word is empty, a concatenation determines its words.\<close>

locale nonempty_code = prefix_code +
  assumes nonempty: "enc x \<noteq> []"
begin

lemma concat_inj:
  "\<forall>x\<in>set xs. valid x \<Longrightarrow> \<forall>y\<in>set ys. valid y \<Longrightarrow> concat (map enc xs) = concat (map enc ys) \<Longrightarrow> xs = ys"
proof (induction xs arbitrary: ys)
  case Nil
  then show ?case using nonempty by (cases ys) auto
next
  case (Cons x xs)
  have "ys \<noteq> []" using Cons.prems(3) nonempty [of x] by auto
  then obtain y zs where ys: "ys = y # zs" by (cases ys) simp_all
  have "enc x @ concat (map enc xs) = enc y @ concat (map enc zs)" using Cons.prems(3) ys by simp
  then have "x = y \<and> concat (map enc xs) = concat (map enc zs)" using Cons.prems(1,2) ys by (intro split) simp_all
  moreover from this have "xs = zs" using Cons.prems(1,2) ys by (intro Cons.IH) simp_all
  ultimately show ?case using ys by simp
qed

end

lemma be_bytes_split:
  "LENGTH('w) \<le> 8 * n \<Longrightarrow> be_bytes n w @ r = be_bytes n (w' :: 'w::len word) @ s \<longleftrightarrow> w = w' \<and> r = s"
  using be_bytes_inj [of n w w'] by auto

lemma encode_count_split:
  assumes "m < 2 ^ 64" and "n < 2 ^ 64"
  shows "encode_count m @ r = encode_count n @ s \<longleftrightarrow> m = n \<and> r = s"
proof -
  have "(of_nat m :: u64) = of_nat n \<longleftrightarrow> m = n" using assms by (simp add: word_unat_eq_iff unat_of_nat)
  moreover have "encode_count m @ r = encode_count n @ s \<longleftrightarrow> (of_nat m :: u64) = of_nat n \<and> r = s"
    unfolding encode_count_def by (rule be_bytes_split) simp
  ultimately show ?thesis by simp
qed

interpretation frame: nonempty_code framed "\<lambda>field. length field < 2 ^ 64"
proof
  fix x y r s :: "u8 list"
  assume "length x < 2 ^ 64" "length y < 2 ^ 64" "framed x @ r = framed y @ s"
  then have "length x = length y \<and> x @ r = y @ s" by (simp add: framed_def encode_count_split)
  then show "x = y \<and> r = s" by (auto simp: append_eq_same_length)
next
  fix x :: "u8 list"
  have "length (framed x) \<noteq> 0" by (simp add: framed_def encode_count_def)
  then show "framed x \<noteq> []" by auto
qed

text \<open>A counted sequence of a prefix code is one.\<close>

definition counted :: "('a \<Rightarrow> u8 list) \<Rightarrow> 'a list \<Rightarrow> u8 list" where
  "counted enc xs = encode_count (length xs) @ concat (map enc xs)"

lemma counted_prefix_code:
  assumes "prefix_code enc valid"
  shows "prefix_code (counted enc) (\<lambda>xs. length xs < 2 ^ 64 \<and> (\<forall>x\<in>set xs. valid x))"
proof
  fix x y :: "'a list" and r s
  assume "length x < 2 ^ 64 \<and> (\<forall>x\<in>set x. valid x)" "length y < 2 ^ 64 \<and> (\<forall>x\<in>set y. valid x)"
    "counted enc x @ r = counted enc y @ s"
  then show "x = y \<and> r = s"
    using prefix_code.list_split [OF assms, of x y r s] by (simp add: counted_def encode_count_split)
qed

section \<open>UTF-8\<close>

definition rust_char :: "rchar \<Rightarrow> bool" where
  "rust_char c \<longleftrightarrow> c < 1114112"

definition rust_str :: "rstr \<Rightarrow> bool" where
  "rust_str s \<longleftrightarrow> list_all rust_char s"

lemma utf8_bytes: "rust_char c \<Longrightarrow> b \<in> set (utf8 c) \<Longrightarrow> b < 256"
  by (auto simp: utf8_def rust_char_def split: if_splits)

lemma digits_64: "(a :: nat) div 64 = b div 64 \<Longrightarrow> a mod 64 = b mod 64 \<Longrightarrow> a = b"
  by (metis div_mult_mod_eq)

interpretation utf8_code: nonempty_code utf8 rust_char
proof
  fix c d :: rchar and r s :: "nat list"
  assume c: "rust_char c" and d: "rust_char d" and eq: "utf8 c @ r = utf8 d @ s"
  have lead: "hd (utf8 c) = hd (utf8 d)" using arg_cong [OF eq, of hd] by (auto simp: utf8_def split: if_splits)
  have rank: "(c < 128 \<longleftrightarrow> d < 128) \<and> (c < 2048 \<longleftrightarrow> d < 2048) \<and> (c < 65536 \<longleftrightarrow> d < 65536)"
    using lead c d by (auto simp: utf8_def rust_char_def split: if_splits; presburger)
  show "c = d \<and> r = s"
  proof (cases "c < 2048")
    case True
    with eq rank show ?thesis by (auto simp: utf8_def dest: digits_64 split: if_splits)
  next
    case False
    have "c mod 64 = d mod 64" "c div 64 mod 64 = d div 64 mod 64" "r = s"
      "c div 4096 mod 64 = d div 4096 mod 64" "c div 262144 = d div 262144"
      using eq rank False by (auto simp: utf8_def split: if_splits)
    then have "c = d"
      using digits_64 [of "c div 4096" "d div 4096"] digits_64 [of "c div 64" "d div 64"] digits_64 [of c d]
      by (simp add: div_mult2_eq [symmetric])
    with \<open>r = s\<close> show ?thesis by simp
  qed
next
  show "utf8 c \<noteq> []" for c by (simp add: utf8_def)
qed

lemma as_bytes_inj:
  assumes "rust_str s" and "rust_str t" and "as_bytes s = as_bytes t"
  shows "s = t"
proof (rule utf8_code.concat_inj)
  have "inj_on (of_nat :: nat \<Rightarrow> u8) {..<256}"
    by (rule inj_onI) (simp add: word_unat_eq_iff unat_of_nat)
  moreover have "set (concat (map utf8 u)) \<subseteq> {..<256}" if "rust_str u" for u
    using that utf8_bytes by (auto simp: rust_str_def list_all_iff)
  ultimately show "concat (map utf8 s) = concat (map utf8 t)"
    using assms unfolding as_bytes_def by (meson inj_on_map_eq_map inj_on_subset Un_subset_iff)
qed (use assms in \<open>simp_all add: rust_str_def list_all_iff\<close>)

lemma digest_preimage_inj:
  assumes "rust_str domain" "rust_str domain'" and "length (as_bytes domain) < 2 ^ 64" "length (as_bytes domain') < 2 ^ 64"
    and "\<forall>p\<in>set parts. length p < 2 ^ 64" and "\<forall>p\<in>set parts'. length p < 2 ^ 64"
    and "digest_preimage domain parts = digest_preimage domain' parts'"
  shows "domain = domain' \<and> parts = parts'"
proof -
  have "concat (map framed (as_bytes domain # parts)) = concat (map framed (as_bytes domain' # parts'))"
    using assms(7) by (simp add: digest_preimage_def)
  then have "as_bytes domain # parts = as_bytes domain' # parts'"
    using assms(3-6) by (intro frame.concat_inj) auto
  with as_bytes_inj [OF assms(1,2)] show ?thesis by simp
qed

end
