(* ===== verification/Factory_Graph.thy ===== *)
theory Factory_Graph
  imports Pipeline_Kahn Factory_Values
begin

text \<open>
  Structural analysis of Factory control graphs, \<^verbatim>\<open>server/core/octacity-server-factory/src/graph.rs\<close>
  and \<^verbatim>\<open>flow_graph.rs\<close>: canonical nodes and edges with their structural issues, reachability,
  strongly connected components by two depth first searches, the topological order and the
  measurements. A stack (\<^verbatim>\<open>Vec\<close> with \<^verbatim>\<open>push\<close> and \<^verbatim>\<open>pop\<close>) is a list whose head is the top. An indexing or
  \<^verbatim>\<open>expect\<close> panic is the value \<open>None\<close>. The analysis is generic in its identities; its only instance
  uses \<^verbatim>\<open>FactoryKey\<close>, a text.
\<close>

section \<open>Edges and issues\<close>

text \<open>An edge is the pair of its predecessor and successor; the derived order compares them in turn.\<close>

type_synonym 'a StructuralEdge = "'a \<times> 'a"

datatype 'a StructuralIssue = DuplicateNode 'a | DuplicateEdge "'a StructuralEdge" | MissingNode 'a

text \<open>The derived order: by variant, then by content.\<close>

fun issue_key :: "'a StructuralIssue \<Rightarrow> nat \<times> 'a \<times> 'a" where
  "issue_key (DuplicateNode n) = (0, n, n)"
| "issue_key (DuplicateEdge e) = (1, e)"
| "issue_key (MissingNode n) = (2, n, n)"

lemma issue_key_inj: "issue_key x = issue_key y \<longleftrightarrow> x = y"
  by (cases x; cases y) auto

instantiation StructuralIssue :: (linorder) linorder
begin

definition less_eq_StructuralIssue :: "'a StructuralIssue \<Rightarrow> 'a StructuralIssue \<Rightarrow> bool" where
  "less_eq_StructuralIssue x y \<longleftrightarrow> issue_key x \<le> issue_key y"

definition less_StructuralIssue :: "'a StructuralIssue \<Rightarrow> 'a StructuralIssue \<Rightarrow> bool" where
  "less_StructuralIssue x y \<longleftrightarrow> issue_key x < issue_key y"

instance
  by intro_classes (auto simp: less_eq_StructuralIssue_def less_StructuralIssue_def simp flip: issue_key_inj)

end

record StructuralMeasurements =
  node_count :: nat
  edge_count :: nat
  max_depth :: "nat option"
  max_fan_out :: nat

record 'a StructuralFacts =
  sf_nodes :: "'a list"
  sf_edges :: "'a StructuralEdge list"
  sf_reachable :: "'a list"
  sf_components :: "'a list list"
  sf_cyclic_components :: "'a list list"
  sf_topological_order :: "'a list option"
  sf_measurements :: StructuralMeasurements

section \<open>Collecting nodes and edges\<close>

primrec collect_nodes ::
  "'a::linorder list \<Rightarrow> 'a list \<times> 'a StructuralIssue list \<Rightarrow> 'a list \<times> 'a StructuralIssue list"
where
  "collect_nodes [] st = st"
| "collect_nodes (n # ns) st = collect_nodes ns
     (bs_insert n (fst st), if n \<in> set (fst st) then bs_insert (DuplicateNode n) (snd st) else snd st)"

definition missing_issue :: "'a::linorder list \<Rightarrow> 'a \<Rightarrow> 'a StructuralIssue list \<Rightarrow> 'a StructuralIssue list" where
  "missing_issue nodes n issues = (if n \<notin> set nodes then bs_insert (MissingNode n) issues else issues)"

primrec collect_edges ::
  "'a::linorder list \<Rightarrow> 'a StructuralEdge list \<Rightarrow> 'a StructuralEdge list \<times> 'a StructuralIssue list \<Rightarrow>
     'a StructuralEdge list \<times> 'a StructuralIssue list"
where
  "collect_edges nodes [] st = st"
| "collect_edges nodes (e # es) st = collect_edges nodes es
     (bs_insert e (fst st),
      missing_issue nodes (snd e) (missing_issue nodes (fst e)
        (if e \<in> set (fst st) then bs_insert (DuplicateEdge e) (snd st) else snd st)))"

section \<open>Adjacency\<close>

type_synonym 'a adjacency = "('a, 'a list) btree"

definition empty_adjacency :: "'a::linorder list \<Rightarrow> 'a adjacency" where
  "empty_adjacency nodes = map (\<lambda>n. (n, [])) nodes"

text \<open>\<^verbatim>\<open>get_mut(key).expect(..).insert(value)\<close> for each pair.\<close>

primrec insert_all :: "('a \<times> 'a::linorder) list \<Rightarrow> 'a adjacency \<Rightarrow> 'a adjacency option" where
  "insert_all [] m = Some m"
| "insert_all (e # es) m =
     (case bt_get m (fst e) of
        None \<Rightarrow> None
      | Some xs \<Rightarrow> insert_all es (bt_set (fst e) (bs_insert (snd e) xs) m))"

definition adjacency :: "'a::linorder list \<Rightarrow> 'a StructuralEdge list \<Rightarrow> 'a adjacency option" where
  "adjacency nodes edges = insert_all edges (empty_adjacency nodes)"

definition adjacency_pairs :: "'a adjacency \<Rightarrow> ('a \<times> 'a) list" where
  "adjacency_pairs m = concat (map (\<lambda>(p, xs). map (Pair p) xs) m)"

definition reverse_adjacency :: "'a::linorder list \<Rightarrow> 'a adjacency \<Rightarrow> 'a adjacency option" where
  "reverse_adjacency nodes m = insert_all (map prod.swap (adjacency_pairs m)) (empty_adjacency nodes)"

section \<open>Searches\<close>

lemma unvisited_decreases:
  "bt_get m node = Some x \<Longrightarrow> node \<notin> V \<Longrightarrow> card (set (map fst m) - insert node V) < card (set (map fst m) - V)"
proof -
  assume "bt_get m node = Some x" and new: "node \<notin> V"
  then have "node \<in> set (map fst m)" by (force simp: bt_get_def dest: map_of_SomeD)
  with new have "set (map fst m) - insert node V \<subset> set (map fst m) - V" by blast
  then show ?thesis by (intro psubset_card_mono) auto
qed

lemma unvisited_stays:
  "bt_get m node = None \<Longrightarrow> card (set (map fst m) - insert node V) = card (set (map fst m) - V)"
proof -
  assume "bt_get m node = None"
  then have "node \<notin> set (map fst m)" by (auto simp: bt_get_def map_of_eq_None_iff)
  then have "set (map fst m) - insert node V = set (map fst m) - V" by blast
  then show ?thesis by simp
qed

function reach_loop :: "'a::linorder adjacency \<Rightarrow> 'a list \<Rightarrow> 'a list \<Rightarrow> 'a list" where
  "reach_loop m [] visited = visited"
| "reach_loop m (node # pending) visited =
     (if node \<in> set visited then reach_loop m pending visited
      else case bt_get m node of
        None \<Rightarrow> reach_loop m pending (bs_insert node visited)
      | Some successors \<Rightarrow>
          reach_loop m (filter (\<lambda>n. n \<notin> set (bs_insert node visited)) successors @ pending) (bs_insert node visited))"
  by pat_completeness auto

termination
  by (relation "measures [\<lambda>(m, _, visited). card (set (map fst m) - set visited), \<lambda>(_, pending, _). length pending]")
    (auto simp: unvisited_decreases unvisited_stays simp del: set_map)

definition reachable_nodes :: "'a::linorder list \<Rightarrow> 'a adjacency \<Rightarrow> 'a list" where
  "reachable_nodes roots m = reach_loop m roots []"

text \<open>The search of \<^verbatim>\<open>visit_for_finish_order\<close>; an entry is marked when its node has been expanded.\<close>

function finish_loop ::
  "'a::linorder adjacency \<Rightarrow> ('a \<times> bool) list \<Rightarrow> 'a list \<Rightarrow> 'a list \<Rightarrow> ('a list \<times> 'a list) option"
where
  "finish_loop m [] visited finish_order = Some (visited, finish_order)"
| "finish_loop m ((node, expanded) # pending) visited finish_order =
     (if expanded then finish_loop m pending visited (finish_order @ [node])
      else if node \<in> set visited then finish_loop m pending visited finish_order
      else case bt_get m node of
        None \<Rightarrow> None
      | Some successors \<Rightarrow>
          finish_loop m (map (\<lambda>n. (n, False)) (filter (\<lambda>n. n \<notin> set (bs_insert node visited)) successors) @
            (node, True) # pending) (bs_insert node visited) finish_order)"
  by pat_completeness auto

termination
  by (relation "measures [\<lambda>(m, _, visited, _). card (set (map fst m) - set visited), \<lambda>(_, pending, _, _). length pending]")
    (auto simp: unvisited_decreases simp del: set_map)

definition visit_for_finish_order ::
  "'a::linorder adjacency \<Rightarrow> 'a \<Rightarrow> 'a list \<times> 'a list \<Rightarrow> ('a list \<times> 'a list) option"
where
  "visit_for_finish_order m root st =
     (if root \<in> set (fst st) then Some st else finish_loop m [(root, False)] (fst st) (snd st))"

primrec finish_all :: "'a::linorder adjacency \<Rightarrow> 'a list \<Rightarrow> 'a list \<times> 'a list \<Rightarrow> ('a list \<times> 'a list) option" where
  "finish_all m [] st = Some st"
| "finish_all m (n # ns) st = Option.bind (visit_for_finish_order m n st) (finish_all m ns)"

function component_loop ::
  "'a::linorder adjacency \<Rightarrow> 'a list \<Rightarrow> 'a list \<Rightarrow> 'a list \<Rightarrow> ('a list \<times> 'a list) option"
where
  "component_loop m [] visited component = Some (visited, component)"
| "component_loop m (current # pending) visited component =
     (if current \<in> set visited then component_loop m pending visited component
      else case bt_get m current of
        None \<Rightarrow> None
      | Some predecessors \<Rightarrow>
          component_loop m (filter (\<lambda>n. n \<notin> set (bs_insert current visited)) predecessors @ pending)
            (bs_insert current visited) (bs_insert current component))"
  by pat_completeness auto

termination
  by (relation "measures [\<lambda>(m, _, visited, _). card (set (map fst m) - set visited), \<lambda>(_, pending, _, _). length pending]")
    (auto simp: unvisited_decreases simp del: set_map)

primrec component_scan ::
  "'a::linorder adjacency \<Rightarrow> 'a list \<Rightarrow> 'a list \<Rightarrow> 'a list list \<Rightarrow> 'a list list option"
where
  "component_scan m [] visited components = Some components"
| "component_scan m (node # rest) visited components =
     (if node \<in> set visited then component_scan m rest visited components
      else Option.bind (component_loop m [node] visited []) (\<lambda>(visited, component).
        component_scan m rest visited (components @ [component])))"

definition strongly_connected_components :: "'a::linorder list \<Rightarrow> 'a adjacency \<Rightarrow> 'a list list option" where
  "strongly_connected_components nodes m =
     Option.bind (finish_all m nodes ([], [])) (\<lambda>(_, finish_order).
     Option.bind (reverse_adjacency nodes m) (\<lambda>reverse.
     map_option sort (component_scan reverse (rev finish_order) [] [])))"

definition is_cyclic_component :: "'a adjacency \<Rightarrow> 'a list \<Rightarrow> bool option" where
  "is_cyclic_component m component =
     (if 1 < length component then Some True
      else case component of
        [] \<Rightarrow> Some False
      | node # _ \<Rightarrow> map_option (\<lambda>xs. node \<in> set xs) (bt_get m node))"

primrec filter_panic :: "('a \<Rightarrow> bool option) \<Rightarrow> 'a list \<Rightarrow> 'a list option" where
  "filter_panic p [] = Some []"
| "filter_panic p (x # xs) =
     Option.bind (p x) (\<lambda>keep. map_option (\<lambda>ys. if keep then x # ys else ys) (filter_panic p xs))"

section \<open>Topological order and measurements\<close>

primrec count_all :: "FactoryKey list \<Rightarrow> counters \<Rightarrow> counters option" where
  "count_all [] m = Some m"
| "count_all (n # ns) m =
     (case bt_get m n of None \<Rightarrow> None | Some c \<Rightarrow> count_all ns (bt_set n (c + 1) m))"

text \<open>The loop over the ready set; the inner loop over the successors is \<open>kahn_release\<close>, which the
  Pipeline crate writes in the same way.\<close>

function topological_loop ::
  "FactoryKey adjacency \<Rightarrow> counters \<Rightarrow> FactoryKey list \<Rightarrow> FactoryKey list \<Rightarrow> FactoryKey list option"
where
  "topological_loop m in_degree ready order =
     (case ready of
        [] \<Rightarrow> Some order
      | node # rest \<Rightarrow>
          (case bt_get m node of
             None \<Rightarrow> None
           | Some successors \<Rightarrow>
               (case kahn_release successors (in_degree, rest) of
                  None \<Rightarrow> None
                | Some st \<Rightarrow> topological_loop m (fst st) (snd st) (order @ [node]))))"
  by auto

termination
proof (relation "measure (\<lambda>(_, in_degree, ready, _). length ready + positive_counters in_degree)")
  fix m in_degree ready order node rest successors st
  assume "ready = node # rest" and "kahn_release successors (in_degree, rest) = Some st"
  with kahn_release_measure [OF this(2)]
  show "((m, fst st, snd st, order @ [node]), m, in_degree, ready, order)
    \<in> measure (\<lambda>(_, in_degree, ready, _). length ready + positive_counters in_degree)" by simp
qed simp

declare topological_loop.simps [simp del]

definition topological_order :: "FactoryKey list \<Rightarrow> FactoryKey adjacency \<Rightarrow> FactoryKey list option option" where
  "topological_order nodes m =
     Option.bind (count_all (concat (map snd m)) (map (\<lambda>n. (n, 0)) nodes)) (\<lambda>in_degree.
     let ready = bs_of_list (map fst (filter (\<lambda>e. snd e = 0) in_degree)) in
     map_option (\<lambda>order. if length order = length nodes then Some order else None)
       (topological_loop m in_degree ready []))"

primrec raise_depths :: "nat \<Rightarrow> FactoryKey list \<Rightarrow> counters \<Rightarrow> counters option" where
  "raise_depths next_depth [] depths = Some depths"
| "raise_depths next_depth (s # ss) depths =
     (case bt_get depths s of
        None \<Rightarrow> None
      | Some d \<Rightarrow> raise_depths next_depth ss (bt_set s (max d next_depth) depths))"

primrec depth_loop :: "FactoryKey adjacency \<Rightarrow> FactoryKey list \<Rightarrow> counters \<Rightarrow> counters option" where
  "depth_loop m [] depths = Some depths"
| "depth_loop m (node # order) depths =
     Option.bind (bt_get depths node) (\<lambda>d.
     Option.bind (bt_get m node) (\<lambda>successors.
     Option.bind (raise_depths (d + 1) successors depths) (depth_loop m order)))"

text \<open>\<^verbatim>\<open>.max().unwrap_or(0)\<close>.\<close>

definition max_or_zero :: "nat list \<Rightarrow> nat" where
  "max_or_zero xs = fold max xs 0"

definition maximum_depth :: "FactoryKey list \<Rightarrow> FactoryKey adjacency \<Rightarrow> nat option" where
  "maximum_depth order m =
     map_option (\<lambda>depths. max_or_zero (map snd depths))
       (depth_loop m order (fold (\<lambda>n. bt_insert n 0) order []))"

section \<open>Analysis\<close>

definition graph_analyze ::
  "FactoryKey list \<Rightarrow> FactoryKey StructuralEdge list \<Rightarrow> FactoryKey list \<Rightarrow>
     (FactoryKey StructuralIssue list + FactoryKey StructuralFacts) option"
where
  "graph_analyze nodes edges roots =
     (let (canonical_nodes, issues) = collect_nodes nodes ([], []);
          (canonical_edges, issues) = collect_edges canonical_nodes edges ([], issues);
          canonical_roots = bs_of_list roots;
          issues = fold (missing_issue canonical_nodes) canonical_roots issues
      in if issues \<noteq> [] then Some (Inl issues)
         else
           Option.bind (adjacency canonical_nodes canonical_edges) (\<lambda>m.
           Option.bind (strongly_connected_components canonical_nodes m) (\<lambda>components.
           Option.bind (filter_panic (is_cyclic_component m) components) (\<lambda>cyclic.
           Option.bind (topological_order canonical_nodes m) (\<lambda>order.
           Option.bind (case order of None \<Rightarrow> Some None | Some xs \<Rightarrow> map_option Some (maximum_depth xs m)) (\<lambda>depth.
           Some (Inr \<lparr>sf_nodes = canonical_nodes, sf_edges = canonical_edges,
             sf_reachable = reachable_nodes canonical_roots m, sf_components = components,
             sf_cyclic_components = cyclic, sf_topological_order = order,
             sf_measurements = \<lparr>node_count = length canonical_nodes, edge_count = length canonical_edges,
               max_depth = depth, max_fan_out = max_or_zero (map (\<lambda>e. length (snd e)) m)\<rparr>\<rparr>)))))))"

text \<open>\<^verbatim>\<open>flow_graph.rs\<close> renames the edges, issues and facts of the generic analysis.\<close>

definition analyze_factory_flow_graph ::
  "FactoryKey list \<Rightarrow> FactoryKey StructuralEdge list \<Rightarrow> FactoryKey list \<Rightarrow>
     (FactoryKey StructuralIssue list + FactoryKey StructuralFacts) option"
where
  "analyze_factory_flow_graph nodes edges roots = graph_analyze nodes edges roots"

end
