(* ===== verification/Factory_Graph_Search.thy ===== *)
theory Factory_Graph_Search
  imports Factory_Graph
begin

text \<open>
  Correctness of the searches of the graph analysis: the reachable set, the finishing order of the
  depth first search and the strongly connected components read off it. Reachability outside a set
  \<open>V\<close> of visited nodes is the reflexive transitive closure of \<open>avoid V E\<close>.
\<close>

section \<open>Reachability outside a set\<close>

definition avoid :: "'a set \<Rightarrow> ('a \<times> 'a) set \<Rightarrow> ('a \<times> 'a) set" where
  "avoid V E = {(a, b) \<in> E. a \<notin> V \<and> b \<notin> V}"

lemma avoid_empty [simp]: "avoid {} E = E"
  by (auto simp: avoid_def)

lemma avoid_mono: "V \<subseteq> W \<Longrightarrow> (avoid W E)\<^sup>* \<subseteq> (avoid V E)\<^sup>*"
  by (intro rtrancl_mono) (auto simp: avoid_def)

lemma avoid_outside: "(a, b) \<in> (avoid V E)\<^sup>* \<Longrightarrow> a \<notin> V \<Longrightarrow> b \<notin> V"
  by (induction rule: rtrancl_induct) (auto simp: avoid_def)

lemma rtrancl_closed: "(a, b) \<in> R\<^sup>* \<Longrightarrow> a \<in> S \<Longrightarrow> (\<And>x y. x \<in> S \<Longrightarrow> (x, y) \<in> R \<Longrightarrow> y \<in> S) \<Longrightarrow> b \<in> S"
  by (induction rule: rtrancl_induct) auto

text \<open>A path that avoids \<open>V\<close> either avoids a further set \<open>D\<close> or enters it.\<close>

lemma avoid_cases:
  assumes "(a, b) \<in> (avoid V E)\<^sup>*"
  shows "(a, b) \<in> (avoid (V \<union> D) E)\<^sup>* \<or> (\<exists>d\<in>D. (a, d) \<in> (avoid V E)\<^sup>* \<and> (d, b) \<in> (avoid V E)\<^sup>*)"
  using assms
proof (induction rule: rtrancl_induct)
  case (step b c)
  show ?case
  proof (cases "b \<in> D \<or> c \<in> D")
    case True
    with step(1,2) show ?thesis by (meson r_into_rtrancl rtrancl.rtrancl_into_rtrancl rtrancl.rtrancl_refl)
  next
    case False
    with step(2) have "(b, c) \<in> avoid (V \<union> D) E" by (auto simp: avoid_def)
    with step show ?thesis by (meson rtrancl.rtrancl_into_rtrancl)
  qed
qed simp

text \<open>What an adjacency map represents.\<close>

definition represents :: "'a::linorder adjacency \<Rightarrow> 'a set \<Rightarrow> ('a \<times> 'a) set \<Rightarrow> bool" where
  "represents m N E \<longleftrightarrow> E \<subseteq> N \<times> N \<and> (\<forall>n. bt_get m n \<noteq> None \<longleftrightarrow> n \<in> N) \<and>
     (\<forall>n xs. bt_get m n = Some xs \<longrightarrow> bs_wf xs \<and> set xs = E `` {n})"

lemma represents_get: "represents m N E \<Longrightarrow> n \<in> N \<Longrightarrow> \<exists>xs. bt_get m n = Some xs \<and> set xs = E `` {n}"
  unfolding represents_def by (metis not_None_eq)

lemma represents_none: "represents m N E \<Longrightarrow> bt_get m n = None \<Longrightarrow> E `` {n} = {}"
  unfolding represents_def by (metis Image_singleton_iff SigmaD1 all_not_in_conv subsetD)

section \<open>Exploration\<close>

text \<open>The exploration loop adds exactly what is reachable from its stack outside the visited set.\<close>

definition explored :: "('a \<times> 'a) set \<Rightarrow> 'a set \<Rightarrow> 'a set \<Rightarrow> 'a set" where
  "explored E P V = V \<union> (avoid V E)\<^sup>* `` (P - V)"

lemma explored_empty [simp]: "explored E {} V = V"
  by (simp add: explored_def)

lemma explored_skip: "x \<in> V \<Longrightarrow> explored E (insert x P) V = explored E P V"
  by (auto simp: explored_def)

lemma explored_step:
  assumes "x \<notin> V"
  shows "explored E ((E `` {x} - insert x V) \<union> P) (insert x V) = explored E (insert x P) V" (is "?l = ?r")
proof
  show "?l \<subseteq> ?r"
  proof
    fix y assume "y \<in> ?l"
    then consider "y \<in> insert x V" | z where "z \<in> E `` {x} \<union> P" "z \<notin> insert x V" "(z, y) \<in> (avoid (insert x V) E)\<^sup>*"
      by (auto simp: explored_def)
    then show "y \<in> ?r"
    proof cases
      case 1
      then show ?thesis using assms by (auto simp: explored_def)
    next
      case 2
      then have zy: "(z, y) \<in> (avoid V E)\<^sup>*" using avoid_mono [of V "insert x V" E] by blast
      show ?thesis
      proof (cases "z \<in> P")
        case True
        with 2 zy show ?thesis by (auto simp: explored_def)
      next
        case False
        with 2 assms have "(x, z) \<in> avoid V E" by (auto simp: avoid_def)
        with zy have "(x, y) \<in> (avoid V E)\<^sup>*" by (meson converse_rtrancl_into_rtrancl)
        with assms show ?thesis by (auto simp: explored_def)
      qed
    qed
  qed
  show "?r \<subseteq> ?l"
  proof
    fix y assume "y \<in> ?r"
    then consider "y \<in> V" | z where "z \<in> insert x P" "z \<notin> V" "(z, y) \<in> (avoid V E)\<^sup>*"
      by (auto simp: explored_def)
    then show "y \<in> ?l"
    proof cases
      case 1
      then show ?thesis by (simp add: explored_def)
    next
      case 2
      then have "z \<in> ?l" by (cases "z = x") (auto simp: explored_def)
      moreover have "b \<in> ?l" if "a \<in> ?l" "(a, b) \<in> avoid V E" for a b
      proof (cases "a = x \<or> b = x")
        case True
        with that show ?thesis by (auto simp: explored_def avoid_def)
      next
        case False
        with that have "a \<notin> insert x V" "(a, b) \<in> avoid (insert x V) E" by (auto simp: avoid_def)
        with that(1) show ?thesis by (auto simp: explored_def intro: rtrancl.rtrancl_into_rtrancl)
      qed
      ultimately show ?thesis using rtrancl_closed [OF 2(3)] by blast
    qed
  qed
qed

lemma reach_loop_explored:
  "represents m N E \<Longrightarrow> bs_wf visited \<Longrightarrow>
     bs_wf (reach_loop m pending visited) \<and> set (reach_loop m pending visited) = explored E (set pending) (set visited)"
proof (induction m pending visited rule: reach_loop.induct)
  case (2 m node pending visited)
  show ?case
  proof (cases "node \<in> set visited")
    case True
    with 2 show ?thesis by (simp add: explored_skip)
  next
    case False
    have wf: "bs_wf (bs_insert node visited)" using 2(5) by (rule bs_wf_insert)
    note step = explored_step [OF False, of E "set pending"]
    show ?thesis
    proof (cases "bt_get m node")
      case None
      with 2(2) [OF False None 2(4) wf] step represents_none [OF 2(4) None] False show ?thesis by simp
    next
      case (Some xs)
      then have "set xs = E `` {node}" using 2(4) by (simp add: represents_def)
      moreover have "set (filter (\<lambda>n. n \<notin> set (bs_insert node visited)) xs) = set xs - insert node (set visited)" by auto
      ultimately show ?thesis using 2(3) [OF False Some 2(4) wf] step False Some by simp
    qed
  qed
qed simp

lemma component_loop_explored:
  "represents m N E \<Longrightarrow> set pending \<subseteq> N \<Longrightarrow> bs_wf visited \<Longrightarrow> bs_wf component \<Longrightarrow> set component \<subseteq> set visited \<Longrightarrow>
     \<exists>v c. component_loop m pending visited component = Some (v, c) \<and> bs_wf v \<and> bs_wf c \<and>
       set v = explored E (set pending) (set visited) \<and>
       set c = set component \<union> (explored E (set pending) (set visited) - set visited)"
proof (induction m pending visited component rule: component_loop.induct)
  case (2 m node pending visited component)
  show ?case
  proof (cases "node \<in> set visited")
    case True
    with 2 show ?thesis by (simp add: explored_skip)
  next
    case False
    from 2(4) obtain xs where xs: "bt_get m node = Some xs" "set xs = E `` {node}"
      using represents_get [OF 2(3), of node] by auto
    have E: "E \<subseteq> N \<times> N" using 2(3) by (simp add: represents_def)
    let ?next = "filter (\<lambda>n. n \<notin> set (bs_insert node visited)) xs @ pending"
    have sub: "set ?next \<subseteq> N" using 2(4) xs(2) E by auto
    have stack: "set ?next = (E `` {node} - insert node (set visited)) \<union> set pending" using xs(2) by auto
    from 2(2) [OF False xs(1) 2(3) sub bs_wf_insert [OF 2(5)] bs_wf_insert [OF 2(6)]] 2(7)
    obtain v c where run: "component_loop m ?next (bs_insert node visited) (bs_insert node component) = Some (v, c)"
      and vc: "bs_wf v" "bs_wf c" "set v = explored E (set ?next) (insert node (set visited))"
        "set c = insert node (set component) \<union> (explored E (set ?next) (insert node (set visited)) - insert node (set visited))"
      by auto
    have ex: "explored E (set ?next) (insert node (set visited)) = explored E (set (node # pending)) (set visited)"
      unfolding stack using explored_step [OF False] by simp
    have node: "node \<in> explored E (set (node # pending)) (set visited)"
      using False by (auto simp: explored_def)
    have "component_loop m (node # pending) visited component = Some (v, c)" using False xs(1) run by simp
    moreover have "set c = set component \<union> (explored E (set (node # pending)) (set visited) - set visited)"
      unfolding vc(4) ex using False node by blast
    ultimately show ?thesis using vc ex by auto
  qed
qed simp

section \<open>Finishing order\<close>

text \<open>The recursive depth first search that the stack of \<open>finish_loop\<close> simulates: from the visited set
  \<open>V\<close>, the nodes of a list are visited in turn, giving the new visited set and the nodes in the order
  in which they finish.\<close>

inductive dfs :: "'a::linorder adjacency \<Rightarrow> 'a list \<Rightarrow> 'a list \<Rightarrow> 'a list \<Rightarrow> 'a list \<Rightarrow> bool"
  for m :: "'a::linorder adjacency" where
  dfs_Nil: "dfs m V [] V []"
| dfs_seen: "x \<in> set V \<Longrightarrow> dfs m V xs V' os \<Longrightarrow> dfs m V (x # xs) V' os"
| dfs_new: "x \<notin> set V \<Longrightarrow> bt_get m x = Some ss \<Longrightarrow> 
     dfs m (bs_insert x V) (filter (\<lambda>n. n \<notin> set (bs_insert x V)) ss) V1 os1 \<Longrightarrow> dfs m V1 xs V2 os2 \<Longrightarrow>
     dfs m V (x # xs) V2 (os1 @ x # os2)"

lemma dfs_visited: "dfs m V xs V' os \<Longrightarrow> bs_wf V \<Longrightarrow> bs_wf V' \<and> set V' = set V \<union> set os"
  by (induction rule: dfs.induct) (auto simp: bs_wf_insert)

lemma finish_loop_dfs:
  "dfs m V xs V' os \<Longrightarrow>
     finish_loop m (map (\<lambda>n. (n, False)) xs @ pending) V order = finish_loop m pending V' (order @ os)"
  by (induction arbitrary: pending order rule: dfs.induct) auto

lemma dfs_total:
  assumes m: "represents m N E" and "finite N" and "bs_wf V" and "set xs \<subseteq> N"
  shows "\<exists>V' os. dfs m V xs V' os"
  using assms(3,4)
proof (induction "(card (N - set V), length xs)" arbitrary: V xs rule: less_induct)
  case less
  show ?case
  proof (cases xs)
    case Nil
    then show ?thesis by (auto intro: dfs.intros)
  next
    case (Cons x ys)
    show ?thesis
    proof (cases "x \<in> set V")
      case True
      have "\<exists>V' os. dfs m V ys V' os" by (rule less(1)) (use less(2,3) Cons in auto)
      with True Cons show ?thesis by (auto intro: dfs.intros)
    next
      case False
      have x: "x \<in> N" using less(3) Cons by simp
      then obtain ss where ss: "bt_get m x = Some ss" "set ss = E `` {x}" using represents_get [OF m] by blast
      let ?ss = "filter (\<lambda>n. n \<notin> set (bs_insert x V)) ss"
      have smaller: "card (N - insert x (set V)) < card (N - set V)"
        using False x assms(2) by (intro psubset_card_mono) auto
      have sub: "set ?ss \<subseteq> N" using ss(2) m by (auto simp: represents_def)
      have "\<exists>V' os. dfs m (bs_insert x V) ?ss V' os"
        by (rule less(1)) (use smaller sub less(2) in \<open>auto simp: bs_wf_insert less_prod_def\<close>)
      then obtain V1 os1 where one: "dfs m (bs_insert x V) ?ss V1 os1" by blast
      from dfs_visited [OF one bs_wf_insert [OF less(2)]] have V1: "bs_wf V1" "set V1 = insert x (set V) \<union> set os1" by auto
      have "card (N - set V1) \<le> card (N - insert x (set V))" using assms(2) V1(2) by (intro card_mono) auto
      with smaller have "card (N - set V1) < card (N - set V)" by simp
      then have "\<exists>V' os. dfs m V1 ys V' os"
        by (intro less(1)) (use V1 less(3) Cons in \<open>auto simp: less_prod_def\<close>)
      then obtain V2 os2 where "dfs m V1 ys V2 os2" by blast
      from dfs.dfs_new [OF False ss(1) one this] Cons show ?thesis by blast
    qed
  qed
qed

text \<open>The finished nodes are new, pairwise different, reachable from the list outside the visited set,
  and their successors have all been visited.\<close>

lemma dfs_finished:
  "dfs m V xs V' os \<Longrightarrow> represents m N E \<Longrightarrow> bs_wf V \<Longrightarrow>
     distinct os \<and> set os \<inter> set V = {} \<and> set xs \<subseteq> set V' \<and> (\<forall>a\<in>set os. E `` {a} \<subseteq> set V') \<and>
     (\<forall>a\<in>set os. \<exists>x\<in>set xs. x \<notin> set V \<and> (x, a) \<in> (avoid (set V) E)\<^sup>*)"
proof (induction rule: dfs.induct)
  case (dfs_new x V ss V1 os1 xs V2 os2)
  have wf: "bs_wf (bs_insert x V)" using dfs_new.prems(2) by (rule bs_wf_insert)
  have V1: "bs_wf V1" "set V1 = insert x (set V) \<union> set os1" using dfs_visited [OF dfs_new(3) wf] by auto
  have V2: "set V2 = set V1 \<union> set os2" using dfs_visited [OF dfs_new(4) V1(1)] by auto
  note one = dfs_new.IH(1) [OF dfs_new.prems(1) wf] and two = dfs_new.IH(2) [OF dfs_new.prems(1) V1(1)]
  have ss: "set ss = E `` {x}" using dfs_new.hyps(2) dfs_new.prems(1) by (simp add: represents_def)
  have succ_x: "E `` {x} \<subseteq> set V2"
  proof
    fix b assume "b \<in> E `` {x}"
    then have "b \<in> set ss" using ss by simp
    with one V1 V2 show "b \<in> set V2" by (cases "b \<in> set (bs_insert x V)") auto
  qed
  have reach1: "(x, a) \<in> (avoid (set V) E)\<^sup>*" if "a \<in> set os1" for a
  proof -
    from one that obtain b where b: "b \<in> set ss" "b \<notin> insert x (set V)" "(b, a) \<in> (avoid (insert x (set V)) E)\<^sup>*"
      by auto
    with ss dfs_new.hyps(1) have "(x, b) \<in> avoid (set V) E" by (auto simp: avoid_def)
    moreover have "(b, a) \<in> (avoid (set V) E)\<^sup>*" using b(3) avoid_mono [of "set V" "insert x (set V)" E] by blast
    ultimately show ?thesis by (rule converse_rtrancl_into_rtrancl)
  qed
  have reach2: "\<exists>z\<in>set xs. z \<notin> set V \<and> (z, a) \<in> (avoid (set V) E)\<^sup>*" if "a \<in> set os2" for a
  proof -
    from two that obtain z where "z \<in> set xs" "z \<notin> set V1" "(z, a) \<in> (avoid (set V1) E)\<^sup>*" by blast
    moreover from this have "(z, a) \<in> (avoid (set V) E)\<^sup>*" using avoid_mono [of "set V" "set V1" E] V1(2) by blast
    ultimately show ?thesis using V1(2) by auto
  qed
  have "distinct (os1 @ x # os2)" using one two V1(2) by auto
  moreover have "set (os1 @ x # os2) \<inter> set V = {}" using one two V1(2) dfs_new.hyps(1) by auto
  moreover have "set (x # xs) \<subseteq> set V2" using two V1(2) V2 by auto
  moreover have "\<forall>a\<in>set (os1 @ x # os2). E `` {a} \<subseteq> set V2" using one two succ_x V2 by auto
  moreover have "\<forall>a\<in>set (os1 @ x # os2). \<exists>z\<in>set (x # xs). z \<notin> set V \<and> (z, a) \<in> (avoid (set V) E)\<^sup>*"
    using reach1 reach2 dfs_new.hyps(1) by auto
  ultimately show ?case by blast
qed (auto dest: dfs_visited)

text \<open>\<open>not_after os u w\<close>: \<open>u\<close> finishes no later than \<open>w\<close>.\<close>

definition not_after :: "'a list \<Rightarrow> 'a \<Rightarrow> 'a \<Rightarrow> bool" where
  "not_after os u w \<longleftrightarrow> (\<exists>ys zs. os = ys @ w # zs \<and> u \<in> set (ys @ [w]))"

lemma not_after_refl: "u \<in> set os \<Longrightarrow> not_after os u u"
  by (auto simp: not_after_def dest: split_list)

lemma not_after_append1: "not_after os u w \<Longrightarrow> not_after (os @ os') u w"
  by (force simp: not_after_def)

lemma not_after_append2: "not_after os' u w \<Longrightarrow> not_after (os @ os') u w"
  unfolding not_after_def by (metis Un_iff append.assoc set_append)

lemma not_after_split: "u \<in> set os \<Longrightarrow> w \<in> set os' \<Longrightarrow> not_after (os @ os') u w"
proof -
  assume "u \<in> set os" and "w \<in> set os'"
  then obtain ys zs where "os' = ys @ w # zs" by (auto dest: split_list)
  with \<open>u \<in> set os\<close> have "os @ os' = (os @ ys) @ w # zs \<and> u \<in> set ((os @ ys) @ [w])" by simp
  then show ?thesis unfolding not_after_def by blast
qed

definition mutual :: "('a \<times> 'a) set \<Rightarrow> 'a \<Rightarrow> 'a \<Rightarrow> bool" where
  "mutual R a b \<longleftrightarrow> (a, b) \<in> R\<^sup>* \<and> (b, a) \<in> R\<^sup>*"

lemma mutual_refl [simp]: "mutual R a a"
  by (simp add: mutual_def)

lemma mutual_sym: "mutual R a b \<Longrightarrow> mutual R b a"
  by (simp add: mutual_def)

lemma mutual_trans: "mutual R a b \<Longrightarrow> mutual R b c \<Longrightarrow> mutual R a c"
  unfolding mutual_def by (meson rtrancl_trans)

lemma mutual_avoid_mono: "mutual (avoid W E) a b \<Longrightarrow> V \<subseteq> W \<Longrightarrow> mutual (avoid V E) a b"
  unfolding mutual_def using avoid_mono by blast

text \<open>If \<open>v\<close> reaches \<open>u\<close>, then some node strongly connected with \<open>v\<close> finishes no earlier than \<open>u\<close>.\<close>

lemma dfs_order:
  "dfs m V xs V' os \<Longrightarrow> represents m N E \<Longrightarrow> bs_wf V \<Longrightarrow>
     v \<in> set os \<Longrightarrow> u \<in> set os \<Longrightarrow> (v, u) \<in> (avoid (set V) E)\<^sup>* \<Longrightarrow>
     \<exists>w. mutual (avoid (set V) E) v w \<and> not_after os u w"
proof (induction rule: dfs.induct)
  case (dfs_new x V ss V1 os1 xs V2 os2)
  let ?R = "avoid (set V) E"
  have wf: "bs_wf (bs_insert x V)" using dfs_new.prems(2) by (rule bs_wf_insert)
  have V1: "bs_wf V1" "set V1 = insert x (set V) \<union> set os1" using dfs_visited [OF dfs_new(3) wf] by auto
  have alone: "dfs m V [x] V1 (os1 @ [x])"
    using dfs.dfs_new [OF dfs_new.hyps(1,2) dfs_new.hyps(3) dfs_Nil] by simp
  note fin = dfs_finished [OF alone dfs_new.prems(1,2)] and two = dfs_finished [OF dfs_new.hyps(4) dfs_new.prems(1) V1(1)]
  have from_x: "(x, a) \<in> ?R\<^sup>*" if "a \<in> set os1" for a using fin that by auto
  have closed: "b \<in> insert x (set os1)" if "a \<in> insert x (set os1)" "(a, b) \<in> ?R" for a b
    using fin that V1(2) by (auto simp: avoid_def)
  have stay: "b \<in> insert x (set os1)" if "a \<in> insert x (set os1)" "(a, b) \<in> ?R\<^sup>*" for a b
    by (rule rtrancl_closed [OF that(2,1)]) (rule closed)
  show ?case
  proof (cases "v \<in> insert x (set os1)")
    case early: True
    have u: "u \<in> insert x (set os1)" by (rule stay [OF early dfs_new.prems(5)])
    have x_last: "not_after (os1 @ x # os2) u x" using u by (auto simp: not_after_def)
    show ?thesis
    proof (cases "(v, x) \<in> ?R\<^sup>*")
      case True
      moreover have "(x, v) \<in> ?R\<^sup>*" using early from_x by auto
      ultimately show ?thesis using x_last by (auto simp: mutual_def)
    next
      case False
      with dfs_new.prems(5) have "(v, u) \<in> (avoid (set V \<union> {x}) E)\<^sup>*" using avoid_cases [of v u "set V" E "{x}"] by blast
      then have "(v, u) \<in> (avoid (set (bs_insert x V)) E)\<^sup>*" by simp
      moreover have "v \<noteq> x" "u \<noteq> x" using False dfs_new.prems(5) by auto
      ultimately obtain w where "mutual (avoid (set (bs_insert x V)) E) v w" "not_after os1 u w"
        using dfs_new.IH(1) [OF dfs_new.prems(1) wf] early u by blast
      then show ?thesis using mutual_avoid_mono [of _ E v w "set V"] not_after_append1 by (metis set_bs_insert subset_insertI)
    qed
  next
    case late: False
    then have v: "v \<in> set os2" using dfs_new.prems(3) by auto
    show ?thesis
    proof (cases "u \<in> insert x (set os1)")
      case True
      then have "not_after ((os1 @ [x]) @ os2) u v" using v by (intro not_after_split) auto
      then show ?thesis by (intro exI [of _ v]) simp
    next
      case False
      then have u: "u \<in> set os2" using dfs_new.prems(4) by auto
      have "(v, u) \<in> (avoid (set V \<union> insert x (set os1)) E)\<^sup>*"
        using avoid_cases [OF dfs_new.prems(5), of "insert x (set os1)"] stay False by blast
      then have "(v, u) \<in> (avoid (set V1) E)\<^sup>*" by (simp add: V1(2) Un_commute)
      then obtain w where w: "mutual (avoid (set V1) E) v w" "not_after os2 u w"
        using dfs_new.IH(2) [OF dfs_new.prems(1) V1(1) v u] by blast
      have "mutual ?R v w" using w(1) by (rule mutual_avoid_mono) (auto simp: V1(2))
      moreover have "not_after ((os1 @ [x]) @ os2) u w" using w(2) by (rule not_after_append2)
      ultimately show ?thesis by auto
    qed
  qed
qed auto

lemma finish_all_dfs:
  "dfs m V ns V' os \<Longrightarrow> finish_all m ns (V, order) = Some (V', order @ os)"
proof (induction arbitrary: order rule: dfs.induct)
  case (dfs_new x V ss V1 os1 xs V2 os2)
  have alone: "dfs m V [x] V1 (os1 @ [x])"
    using dfs.dfs_new [OF dfs_new.hyps(1,2) dfs_new.hyps(3) dfs_Nil] by simp
  have "finish_loop m [(x, False)] V order = Some (V1, order @ os1 @ [x])"
    using finish_loop_dfs [OF alone, of "[]" order] by simp
  then show ?case using dfs_new.hyps(1) dfs_new.IH(2) [of "order @ os1 @ [x]"] by (simp add: visit_for_finish_order_def)
qed (auto simp: visit_for_finish_order_def)

section \<open>Strongly connected components\<close>

definition scc :: "('a \<times> 'a) set \<Rightarrow> 'a \<Rightarrow> 'a set" where
  "scc E d = {n. mutual E n d}"

lemma scc_self [simp]: "d \<in> scc E d"
  by (simp add: scc_def)

lemma scc_eq: "n \<in> scc E d \<Longrightarrow> scc E n = scc E d"
  unfolding scc_def using mutual_sym mutual_trans by (metis (mono_tags) Collect_cong mem_Collect_eq)

lemma before_in_distinct:
  assumes "distinct xs" and "xs = p @ u # q" and "xs = a @ w # b" and "u \<in> set b"
  shows "w \<in> set p"
proof (rule ccontr)
  assume no: "w \<notin> set p"
  have "w \<noteq> u" using assms(1,3,4) by auto
  with no assms(2,3) have "w \<in> set q" by (metis UnE in_set_conv_decomp set_append set_ConsD)
  then obtain c d where q: "q = c @ w # d" by (auto dest: split_list)
  have "(p @ u # c) @ w # d = a @ w # b" using assms(2,3) q by simp
  moreover have "w \<notin> set (p @ u # c)" using assms(1,2) q by auto
  moreover have "w \<notin> set d" using assms(1,2) q by auto
  ultimately have "p @ u # c = a" using append_Cons_eq_iff [of w "p @ u # c" d a b] by blast
  then show False using assms(1,3,4) by auto
qed

lemma converse_avoid: "avoid W (E\<inverse>) = (avoid W E)\<inverse>"
  by (auto simp: avoid_def)

text \<open>Searching backwards from the last unfinished node finds exactly its component.\<close>

lemma backward_component:
  assumes os: "dfs m [] ns V os" "represents m N E" "set os = N"
    and todo: "rev os = past @ u # todo"
    and W: "W = {n. \<exists>d\<in>set past. mutual E n d}" and u: "u \<notin> W"
  shows "explored (E\<inverse>) {u} W = W \<union> scc E u" and "scc E u \<inter> W = {}"
proof -
  have dist: "distinct (rev os)" using dfs_finished [OF os(1,2)] by simp
  have NE: "E \<subseteq> N \<times> N" using os(2) by (simp add: represents_def)
  have key: "(v, u) \<in> (avoid W E)\<^sup>* \<longleftrightarrow> mutual E v u" for v
  proof
    assume path: "(v, u) \<in> (avoid W E)\<^sup>*"
    then have vW: "v \<notin> W" using u by (auto elim: converse_rtranclE simp: avoid_def)
    have vu: "(v, u) \<in> E\<^sup>*" using path avoid_mono [of "{}" W E] by auto
    have uN: "u \<in> N" using todo os(3) by (metis in_set_conv_decomp set_rev)
    have "v \<in> N" using vu uN NE by (auto elim: converse_rtranclE)
    then obtain w where w: "mutual E v w" "not_after os u w"
      using dfs_order [OF os(1,2), of v u] vu uN os(3) by auto
    then obtain ys zs where split: "os = ys @ w # zs" "u \<in> set (ys @ [w])" by (auto simp: not_after_def)
    show "mutual E v u"
    proof (cases "u = w")
      case False
      with split have "rev os = rev zs @ w # rev ys" "u \<in> set (rev ys)" by auto
      from before_in_distinct [OF dist todo this] have "w \<in> set past" .
      with w(1) vW show ?thesis unfolding W by blast
    qed (use w in simp)
  next
    assume mut: "mutual E v u"
    show "(v, u) \<in> (avoid W E)\<^sup>*"
    proof (rule ccontr)
      assume "(v, u) \<notin> (avoid W E)\<^sup>*"
      then obtain d where d: "d \<in> W" "(v, d) \<in> E\<^sup>*" "(d, u) \<in> E\<^sup>*"
        using avoid_cases [of v u "{}" E W] mut by (auto simp: mutual_def)
      with mut have "mutual E u d" unfolding mutual_def by (meson rtrancl_trans)
      moreover from d(1) obtain e where "e \<in> set past" "mutual E d e" unfolding W by blast
      ultimately have "u \<in> W" unfolding W using mutual_trans [of E u d e] by blast
      with u show False ..
    qed
  qed
  have "(avoid W (E\<inverse>))\<^sup>* `` ({u} - W) = {v. (v, u) \<in> (avoid W E)\<^sup>*}"
    using u by (auto simp: converse_avoid rtrancl_converse)
  then show "explored (E\<inverse>) {u} W = W \<union> scc E u" by (simp add: explored_def key scc_def)
  have False if n: "n \<in> scc E u" "n \<in> W" for n
  proof -
    from n(2) obtain e where "e \<in> set past" "mutual E n e" unfolding W by blast
    moreover have "mutual E u n" using n(1) by (auto simp: scc_def intro: mutual_sym)
    ultimately have "u \<in> W" unfolding W using mutual_trans [of E u n e] by blast
    with u show False ..
  qed
  then show "scc E u \<inter> W = {}" by blast
qed

lemma component_scan_exact:
  assumes os: "dfs m [] ns V os" "represents m N E" "set os = N" and rm: "represents rm N (E\<inverse>)"
  shows "rev os = past @ todo \<Longrightarrow> bs_wf W \<Longrightarrow> set W = {n. \<exists>d\<in>set past. mutual E n d} \<Longrightarrow>
    \<forall>c\<in>set cs. bs_wf c \<Longrightarrow> distinct cs \<Longrightarrow> set ` set cs = scc E ` set past \<Longrightarrow>
    \<exists>cs'. component_scan rm todo W cs = Some cs' \<and> (\<forall>c\<in>set cs'. bs_wf c) \<and> distinct cs' \<and> set ` set cs' = scc E ` N"
proof (induction todo arbitrary: past W cs)
  case Nil
  then show ?case using os(3) by (auto simp flip: set_rev [of os])
next
  case (Cons u todo)
  have rest: "rev os = (past @ [u]) @ todo" using Cons.prems(1) by simp
  show ?case
  proof (cases "u \<in> set W")
    case True
    then obtain d where d: "d \<in> set past" "mutual E u d" using Cons.prems(3) by auto
    then have same: "scc E u = scc E d" by (intro scc_eq) (simp add: scc_def)
    have "set W = {n. \<exists>d\<in>set (past @ [u]). mutual E n d}"
      using Cons.prems(3) d mutual_trans [of E _ u d] by auto
    moreover have "set ` set cs = scc E ` set (past @ [u])" using Cons.prems(6) d(1) same by auto
    ultimately show ?thesis using Cons.IH [OF rest Cons.prems(2) _ Cons.prems(4,5)] True by simp
  next
    case False
    have uN: "u \<in> N" using Cons.prems(1) os(3) by (metis in_set_conv_decomp set_rev)
    note found = backward_component [OF os Cons.prems(1,3) False]
    obtain v c where run: "component_loop rm [u] W [] = Some (v, c)" and wf: "bs_wf v" "bs_wf c"
      and sets: "set v = set W \<union> scc E u" "set c = scc E u"
    proof -
      have "set W \<union> scc E u - set W = scc E u" using found(2) by blast
      with that component_loop_explored [OF rm, of "[u]" W "[]"] uN Cons.prems(2) found show ?thesis
        by (auto simp del: component_loop.simps)
    qed
    have "set v = {n. \<exists>d\<in>set (past @ [u]). mutual E n d}" using sets(1) Cons.prems(3) by (auto simp: scc_def)
    moreover have "\<forall>c\<in>set (cs @ [c]). bs_wf c" using Cons.prems(4) wf(2) by auto
    moreover have "distinct (cs @ [c])"
    proof -
      have "set c \<notin> set ` set cs"
      proof
        assume "set c \<in> set ` set cs"
        then obtain d where d: "d \<in> set past" "scc E u = scc E d" using Cons.prems(6) sets(2) by auto
        then have "mutual E u d" using scc_self [of u E] by (auto simp: scc_def)
        with d(1) False Cons.prems(3) show False by auto
      qed
      with Cons.prems(5) show ?thesis by auto
    qed
    moreover have "set ` set (cs @ [c]) = scc E ` set (past @ [u])" using Cons.prems(6) sets(2) by auto
    ultimately show ?thesis using Cons.IH [OF rest wf(1)] run False by simp
  qed
qed

end
