(* ===== verification/Factory_Graph_Correct.thy ===== *)
theory Factory_Graph_Correct
  imports Factory_Graph_Search
begin

text \<open>
  Correctness of the structural analysis of Factory graphs: the issues it reports, and for a graph
  without issues its nodes and edges, reachable set, components, cyclic components, topological
  order, longest path and greatest fan-out, each against a definition on the edge relation.
\<close>

section \<open>Sorted sets\<close>

lemma bs_wf_eq: "bs_wf xs \<Longrightarrow> xs = sorted_list_of_set (set xs)"
  by (metis bs_wf_def sorted_list_of_set.idem_if_sorted_distinct strict_sorted_iff)

lemma bs_wf_unique: "bs_wf xs \<Longrightarrow> bs_wf ys \<Longrightarrow> set xs = set ys \<Longrightarrow> xs = ys"
  using bs_wf_eq by metis

section \<open>Issues\<close>

definition structural_issues :: "'a list \<Rightarrow> ('a \<times> 'a) list \<Rightarrow> 'a list \<Rightarrow> 'a StructuralIssue set" where
  "structural_issues nodes edges roots =
     DuplicateNode ` {n \<in> set nodes. 2 \<le> count_list nodes n} \<union>
     DuplicateEdge ` {e \<in> set edges. 2 \<le> count_list edges e} \<union>
     MissingNode ` ((fst ` set edges \<union> snd ` set edges \<union> set roots) - set nodes)"

lemma collect_nodes_exact:
  "bs_wf V \<Longrightarrow> bs_wf is \<Longrightarrow> bs_wf (fst (collect_nodes ns (V, is))) \<and> bs_wf (snd (collect_nodes ns (V, is))) \<and>
     set (fst (collect_nodes ns (V, is))) = set V \<union> set ns \<and>
     set (snd (collect_nodes ns (V, is))) =
       set is \<union> DuplicateNode ` {n \<in> set ns. n \<in> set V \<or> 2 \<le> count_list ns n}"
proof (induction ns arbitrary: V "is")
  case (Cons n ns)
  let ?is = "if n \<in> set V then bs_insert (DuplicateNode n) is else is"
  have one: "Suc 0 \<le> count_list ns n \<longleftrightarrow> n \<in> set ns" using count_list_0_iff [of ns n] by auto
  have "set ?is \<union> DuplicateNode ` {k \<in> set ns. k \<in> insert n (set V) \<or> 2 \<le> count_list ns k} =
      set is \<union> DuplicateNode ` {k \<in> set (n # ns). k \<in> set V \<or> 2 \<le> count_list (n # ns) k}"
    using one by auto
  moreover have "bs_wf ?is" using Cons.prems(2) by (simp add: bs_wf_insert)
  note IH = Cons.IH [OF bs_wf_insert [OF Cons.prems(1), of n] this]
  moreover have step: "collect_nodes (n # ns) (V, is) = collect_nodes ns (bs_insert n V, ?is)" by simp
  ultimately show ?case unfolding step by (simp only: set_bs_insert) auto
qed simp

lemma missing_issue_exact:
  "bs_wf is \<Longrightarrow> bs_wf (missing_issue nodes n is) \<and> set (missing_issue nodes n is) = set is \<union> MissingNode ` ({n} - set nodes)"
  by (auto simp: missing_issue_def bs_wf_insert)

lemma collect_edges_exact:
  "bs_wf V \<Longrightarrow> bs_wf is \<Longrightarrow> bs_wf (fst (collect_edges nodes es (V, is))) \<and> bs_wf (snd (collect_edges nodes es (V, is))) \<and>
     set (fst (collect_edges nodes es (V, is))) = set V \<union> set es \<and>
     set (snd (collect_edges nodes es (V, is))) =
       set is \<union> DuplicateEdge ` {e \<in> set es. e \<in> set V \<or> 2 \<le> count_list es e} \<union>
         MissingNode ` ((fst ` set es \<union> snd ` set es) - set nodes)"
proof (induction es arbitrary: V "is")
  case (Cons e es)
  let ?d = "if e \<in> set V then bs_insert (DuplicateEdge e) is else is"
  let ?is = "missing_issue nodes (snd e) (missing_issue nodes (fst e) ?d)"
  have one: "Suc 0 \<le> count_list es e \<longleftrightarrow> e \<in> set es" using count_list_0_iff [of es e] by auto
  have wf: "bs_wf ?d" using Cons.prems by (simp add: bs_wf_insert)
  have is': "bs_wf ?is" "set ?is = set ?d \<union> MissingNode ` ({fst e, snd e} - set nodes)"
    using missing_issue_exact [OF wf, of nodes "fst e"]
      missing_issue_exact [of "missing_issue nodes (fst e) ?d" nodes "snd e"] by auto
  have dup: "set ?d \<union> DuplicateEdge ` {k \<in> set es. k \<in> insert e (set V) \<or> 2 \<le> count_list es k} =
      set is \<union> DuplicateEdge ` {k \<in> set (e # es). k \<in> set V \<or> 2 \<le> count_list (e # es) k}"
    using one by auto
  have miss: "MissingNode ` ({fst e, snd e} - set nodes) \<union> MissingNode ` ((fst ` set es \<union> snd ` set es) - set nodes) =
      MissingNode ` ((fst ` set (e # es) \<union> snd ` set (e # es)) - set nodes)" by auto
  note IH = Cons.IH [OF bs_wf_insert [OF Cons.prems(1), of e] is'(1)]
  have step: "collect_edges nodes (e # es) (V, is) = collect_edges nodes es (bs_insert e V, ?is)" by simp
  have "set (snd (collect_edges nodes es (bs_insert e V, ?is))) =
      (set ?d \<union> DuplicateEdge ` {k \<in> set es. k \<in> insert e (set V) \<or> 2 \<le> count_list es k}) \<union>
      (MissingNode ` ({fst e, snd e} - set nodes) \<union> MissingNode ` ((fst ` set es \<union> snd ` set es) - set nodes))"
    using IH is'(2) by (simp only: set_bs_insert Un_ac)
  then have "set (snd (collect_edges nodes es (bs_insert e V, ?is))) =
      set is \<union> DuplicateEdge ` {k \<in> set (e # es). k \<in> set V \<or> 2 \<le> count_list (e # es) k} \<union>
      MissingNode ` ((fst ` set (e # es) \<union> snd ` set (e # es)) - set nodes)"
    unfolding dup miss .
  moreover have "set (fst (collect_edges nodes es (bs_insert e V, ?is))) = set V \<union> set (e # es)" using IH by simp
  ultimately show ?case unfolding step using IH by blast
qed simp

lemma missing_roots_exact:
  "bs_wf is \<Longrightarrow> bs_wf (fold (missing_issue nodes) rs is) \<and>
     set (fold (missing_issue nodes) rs is) = set is \<union> MissingNode ` (set rs - set nodes)"
proof (induction rs arbitrary: "is")
  case (Cons r rs)
  have "MissingNode ` ({r} - set nodes) \<union> MissingNode ` (set rs - set nodes) = MissingNode ` (set (r # rs) - set nodes)"
    by auto
  with Cons missing_issue_exact [OF Cons.prems, of nodes r] show ?case by (simp add: Un_assoc)
qed simp

section \<open>Adjacency\<close>

lemma insert_all_exact:
  "\<forall>e\<in>set es. bt_get m (fst e) \<noteq> None \<Longrightarrow> \<forall>n xs. bt_get m n = Some xs \<longrightarrow> bs_wf xs \<Longrightarrow>
     \<exists>m'. insert_all es m = Some m' \<and> map fst m' = map fst m \<and>
       (\<forall>n. bt_get m' n \<noteq> None \<longleftrightarrow> bt_get m n \<noteq> None) \<and>
       (\<forall>n xs. bt_get m n = Some xs \<longrightarrow>
          (\<exists>ys. bt_get m' n = Some ys \<and> bs_wf ys \<and> set ys = set xs \<union> {s. (n, s) \<in> set es}))"
proof (induction es arbitrary: m)
  case (Cons e es)
  obtain xs where xs: "bt_get m (fst e) = Some xs" using Cons.prems(1) by auto
  let ?m = "bt_set (fst e) (bs_insert (snd e) xs) m"
  have wf: "bs_wf xs" using Cons.prems(2) xs by blast
  have keys: "bt_get ?m n \<noteq> None \<longleftrightarrow> bt_get m n \<noteq> None" for n using xs by (auto simp: bt_get_set)
  have "\<forall>e\<in>set es. bt_get ?m (fst e) \<noteq> None" using Cons.prems(1) keys by simp
  moreover have "\<forall>n xs. bt_get ?m n = Some xs \<longrightarrow> bs_wf xs"
    using Cons.prems(2) xs wf by (auto simp: bt_get_set bs_wf_insert)
  ultimately obtain m' where m': "insert_all es ?m = Some m'" "map fst m' = map fst ?m"
    "\<forall>n. bt_get m' n \<noteq> None \<longleftrightarrow> bt_get ?m n \<noteq> None"
    "\<forall>n xs. bt_get ?m n = Some xs \<longrightarrow> (\<exists>ys. bt_get m' n = Some ys \<and> bs_wf ys \<and> set ys = set xs \<union> {s. (n, s) \<in> set es})"
    using Cons.IH [of ?m] by blast
  have "\<exists>ys. bt_get m' n = Some ys \<and> bs_wf ys \<and> set ys = set zs \<union> {s. (n, s) \<in> set (e # es)}"
    if "bt_get m n = Some zs" for n zs
  proof (cases "n = fst e")
    case True
    then have "bt_get ?m n = Some (bs_insert (snd e) xs)" "zs = xs" using xs that by (auto simp: bt_get_set)
    moreover have "{s. (n, s) \<in> set (e # es)} = insert (snd e) {s. (n, s) \<in> set es}" using True by (cases e) auto
    moreover obtain ys where "bt_get m' n = Some ys" "bs_wf ys" "set ys = insert (snd e) (set xs) \<union> {s. (n, s) \<in> set es}"
      using m'(4) calculation(1) by fastforce
    ultimately show ?thesis by auto
  next
    case False
    then have "bt_get ?m n = Some zs" using that by (simp add: bt_get_set)
    moreover have "{s. (n, s) \<in> set (e # es)} = {s. (n, s) \<in> set es}" using False by (cases e) auto
    ultimately show ?thesis using m'(4) by auto
  qed
  with m' xs keys show ?case by simp
qed auto

lemma empty_adjacency_get: "bt_get (empty_adjacency nodes) n = (if n \<in> set nodes then Some [] else None)"
  by (induction nodes) (auto simp: empty_adjacency_def bt_get_def)

lemma filled_adjacency:
  assumes "\<forall>e\<in>set es. fst e \<in> set nodes \<and> snd e \<in> set nodes"
  shows "\<exists>m. insert_all es (empty_adjacency nodes) = Some m \<and> map fst m = nodes \<and> represents m (set nodes) (set es)"
proof -
  obtain m where m: "insert_all es (empty_adjacency nodes) = Some m" "map fst m = map fst (empty_adjacency nodes)"
    "\<forall>n. bt_get m n \<noteq> None \<longleftrightarrow> bt_get (empty_adjacency nodes) n \<noteq> None"
    "\<forall>n xs. bt_get (empty_adjacency nodes) n = Some xs \<longrightarrow>
       (\<exists>ys. bt_get m n = Some ys \<and> bs_wf ys \<and> set ys = set xs \<union> {s. (n, s) \<in> set es})"
  proof -
    have "\<forall>e\<in>set es. bt_get (empty_adjacency nodes) (fst e) \<noteq> None" using assms by (simp add: empty_adjacency_get)
    moreover have "\<forall>n xs. bt_get (empty_adjacency nodes) n = Some xs \<longrightarrow> bs_wf xs" by (simp add: empty_adjacency_get)
    ultimately show ?thesis using insert_all_exact [of es "empty_adjacency nodes"] that by blast
  qed
  have "bs_wf xs \<and> set xs = set es `` {n}" if get: "bt_get m n = Some xs" for n xs
  proof -
    have "bt_get m n \<noteq> None" using get by simp
    then have "n \<in> set nodes" using m(3) by (simp add: empty_adjacency_get split: if_splits)
    then have "bt_get (empty_adjacency nodes) n = Some []" by (simp add: empty_adjacency_get)
    with m(4) have "\<exists>ys. bt_get m n = Some ys \<and> bs_wf ys \<and> set ys = set [] \<union> {s. (n, s) \<in> set es}" by blast
    with get show ?thesis by auto
  qed
  then have "represents m (set nodes) (set es)"
    using assms m(3) by (auto simp: represents_def empty_adjacency_get split: if_splits)
  moreover have "map fst m = nodes" using m(2) by (simp add: empty_adjacency_def comp_def)
  ultimately show ?thesis using m(1) by blast
qed

lemma set_adjacency_pairs:
  assumes "distinct (map fst m)" and "represents m N E"
  shows "set (adjacency_pairs m) = E"
proof -
  have get: "(p, xs) \<in> set m \<longleftrightarrow> bt_get m p = Some xs" for p xs using assms(1) by (simp add: bt_get_def)
  have "(p, s) \<in> set (adjacency_pairs m) \<longleftrightarrow> (\<exists>xs. bt_get m p = Some xs \<and> s \<in> set xs)" for p s
    unfolding adjacency_pairs_def using get by auto
  also have "\<dots> p s \<longleftrightarrow> (p, s) \<in> E" for p s
    using assms(2) represents_get [OF assms(2), of p] by (auto simp: represents_def)
  finally show ?thesis by auto
qed

lemma adjacency_exact:
  assumes "bs_wf nodes" and "set edges \<subseteq> set nodes \<times> set nodes"
  shows "\<exists>m rm. adjacency nodes edges = Some m \<and> map fst m = nodes \<and> represents m (set nodes) (set edges) \<and>
    reverse_adjacency nodes m = Some rm \<and> represents rm (set nodes) ((set edges)\<inverse>)"
proof -
  obtain m where m: "adjacency nodes edges = Some m" "map fst m = nodes" "represents m (set nodes) (set edges)"
  proof -
    have "\<forall>e\<in>set edges. fst e \<in> set nodes \<and> snd e \<in> set nodes" using assms(2) by auto
    from filled_adjacency [OF this] that show ?thesis by (auto simp: adjacency_def)
  qed
  have pairs: "set (map prod.swap (adjacency_pairs m)) = (set edges)\<inverse>"
  proof -
    have "set (adjacency_pairs m) = set edges"
      using set_adjacency_pairs [OF _ m(3)] m(2) bs_wf_distinct [OF assms(1)] by simp
    moreover have "prod.swap ` X = X\<inverse>" for X :: "('a \<times> 'a) set" by force
    ultimately show ?thesis by simp
  qed
  have "\<forall>e\<in>set (map prod.swap (adjacency_pairs m)). fst e \<in> set nodes \<and> snd e \<in> set nodes"
    unfolding pairs using assms(2) by auto
  from filled_adjacency [OF this] m pairs show ?thesis by (auto simp: reverse_adjacency_def)
qed

section \<open>Components\<close>

lemma rtrancl_in_nodes: "(a, b) \<in> E\<^sup>* \<Longrightarrow> E \<subseteq> N \<times> N \<Longrightarrow> a \<in> N \<Longrightarrow> b \<in> N"
  by (induction rule: rtrancl_induct) auto

lemma components_exact:
  assumes "bs_wf nodes" and m: "represents m (set nodes) E" and rm: "represents rm (set nodes) (E\<inverse>)"
    and "reverse_adjacency nodes m = Some rm"
  shows "\<exists>cs. strongly_connected_components nodes m = Some cs \<and> sorted cs \<and> distinct cs \<and>
    set cs = sorted_list_of_set ` scc E ` set nodes"
proof -
  have NE: "E \<subseteq> set nodes \<times> set nodes" using m by (simp add: represents_def)
  obtain V os where d: "dfs m [] nodes V os" using dfs_total [OF m, of "[]" nodes] by auto
  note fin = dfs_finished [OF d m bs_wf_Nil]
  have "set os = set nodes"
  proof
    show "set nodes \<subseteq> set os" using fin dfs_visited [OF d] by auto
    show "set os \<subseteq> set nodes" using fin rtrancl_in_nodes [OF _ NE] by auto
  qed
  then obtain cs where cs: "component_scan rm (rev os) [] [] = Some cs" "\<forall>c\<in>set cs. bs_wf c" "distinct cs"
    "set ` set cs = scc E ` set nodes"
    using component_scan_exact [OF d m _ rm, of "[]" "rev os" "[]" "[]"] by auto
  have "c = sorted_list_of_set (set c)" if "c \<in> set cs" for c using cs(2) that bs_wf_eq by blast
  then have "set cs = sorted_list_of_set ` set ` set cs" by force
  then have "set (sort cs) = sorted_list_of_set ` scc E ` set nodes" using cs(4) by simp
  moreover have "strongly_connected_components nodes m = Some (sort cs)"
    using finish_all_dfs [OF d, of "[]"] assms(4) cs(1) by (simp add: strongly_connected_components_def)
  ultimately show ?thesis using cs(3) by auto
qed

lemma scc_subset: "E \<subseteq> N \<times> N \<Longrightarrow> n \<in> N \<Longrightarrow> scc E n \<subseteq> N"
  unfolding scc_def mutual_def by (rule subsetI) (auto dest: rtrancl_in_nodes [of n])

lemma cyclic_component_exact:
  assumes m: "represents m N E" and "finite N" and "n \<in> N"
  shows "is_cyclic_component m (sorted_list_of_set (scc E n)) = Some (\<exists>k\<in>scc E n. (k, k) \<in> E\<^sup>+)"
proof -
  have NE: "E \<subseteq> N \<times> N" using m by (simp add: represents_def)
  have fin: "finite (scc E n)" using scc_subset [OF NE assms(3)] assms(2) by (rule finite_subset)
  show ?thesis
  proof (cases "1 < card (scc E n)")
    case True
    have "scc E n \<noteq> {n}" using True by auto
    then obtain k where k: "k \<in> scc E n" "k \<noteq> n" using scc_self [of n E] by blast
    then have "(n, k) \<in> E\<^sup>+" "(k, n) \<in> E\<^sup>+" by (auto simp: scc_def mutual_def dest: rtranclD)
    then have "(n, n) \<in> E\<^sup>+" by (rule trancl_trans)
    moreover have "n \<in> scc E n" by simp
    ultimately show ?thesis using True by (auto simp: is_cyclic_component_def)
  next
    case False
    have single: "scc E n = {n}"
    proof -
      have "card (scc E n) \<le> card {n}" using False by simp
      with card_seteq [OF fin, of "{n}"] show ?thesis by simp
    qed
    obtain xs where xs: "bt_get m n = Some xs" "set xs = E `` {n}" using represents_get [OF m assms(3)] by blast
    have "(n, n) \<in> E\<^sup>+ \<longleftrightarrow> (n, n) \<in> E"
    proof
      assume "(n, n) \<in> E\<^sup>+"
      then obtain k where k: "(n, k) \<in> E" "(k, n) \<in> E\<^sup>*" by (meson tranclD)
      then have "k \<in> scc E n" by (auto simp: scc_def mutual_def)
      with k single show "(n, n) \<in> E" by simp
    qed auto
    with single xs show ?thesis by (simp add: is_cyclic_component_def)
  qed
qed

lemma filter_panic_exact: "\<forall>x\<in>set xs. p x = Some (q x) \<Longrightarrow> filter_panic p xs = Some (filter q xs)"
  by (induction xs) auto

section \<open>Topological order\<close>

lemma concat_snd_pairs: "concat (map snd m) = map snd (adjacency_pairs m)"
  by (induction m) (auto simp: adjacency_pairs_def comp_def)

lemma pairs_of_key:
  "distinct (map fst m) \<Longrightarrow> map snd (filter (\<lambda>e. fst e = p) (adjacency_pairs m)) = or_default [] (bt_get m p)"
proof (induction m)
  case (Cons a m)
  obtain q xs where a: "a = (q, xs)" by (cases a)
  have "filter (\<lambda>e. fst e = p) (map (Pair q) xs) = (if q = p then map (Pair q) xs else [])"
    by (induction xs) auto
  moreover have "adjacency_pairs (a # m) = map (Pair q) xs @ adjacency_pairs m" by (simp add: adjacency_pairs_def a)
  moreover have "bt_get m p = None" if "q = p" using Cons.prems that a by (auto simp: bt_get_def map_of_eq_None_iff)
  ultimately show ?case using Cons a by (auto simp: bt_get_def or_default_def comp_def)
qed (simp add: adjacency_pairs_def bt_get_def or_default_def)

lemma count_all_exact:
  "set ns \<subseteq> set (map fst m) \<Longrightarrow>
     \<exists>m'. count_all ns m = Some m' \<and> map fst m' = map fst m \<and>
       (\<forall>n c. bt_get m n = Some c \<longrightarrow> bt_get m' n = Some (c + count_list ns n))"
proof (induction ns arbitrary: m)
  case (Cons x ns)
  obtain c where c: "bt_get m x = Some c" using Cons.prems bt_get_keys [of m x] by auto
  let ?m = "bt_set x (c + 1) m"
  obtain m' where m': "count_all ns ?m = Some m'" "map fst m' = map fst ?m"
    "\<forall>n c. bt_get ?m n = Some c \<longrightarrow> bt_get m' n = Some (c + count_list ns n)"
    using Cons.IH [of ?m] Cons.prems by auto
  have "bt_get m' n = Some (d + count_list (x # ns) n)" if "bt_get m n = Some d" for n d
    using m'(3) [rule_format, of n] that c by (cases "n = x") (auto simp: bt_get_set)
  with m' c show ?case by simp
qed simp

lemma topological_loop_total:
  assumes closed: "\<forall>e\<in>set edges. snd e \<in> N" and keys: "\<And>n. n \<in> N \<Longrightarrow> bt_get m n \<noteq> None"
    and out: "\<And>p. or_default [] (bt_get m p) = map snd (filter (\<lambda>e. fst e = p) edges)"
  shows "kahn_inv N edges incoming ready ordered \<Longrightarrow>
    \<exists>xs inc. topological_loop m incoming ready ordered = Some xs \<and> kahn_inv N edges inc [] xs"
proof (induction "length ready + positive_counters incoming" arbitrary: incoming ready ordered rule: less_induct)
  case less
  show ?case
  proof (cases ready)
    case Nil
    with less(2) show ?thesis by (subst topological_loop.simps) auto
  next
    case (Cons x rest)
    have "x \<in> N" using less(2) Cons by (auto simp: kahn_inv_def available_def)
    with keys obtain ss where ss: "bt_get m x = Some ss" by auto
    then have "or_default [] (bt_get m x) = ss" by (simp add: or_default_def)
    then obtain st where st: "kahn_release ss (incoming, rest) = Some st" "kahn_inv N edges (fst st) (snd st) (ordered @ [x])"
      using kahn_step [OF less(2) [unfolded Cons] closed out] by auto
    from less(1) [OF _ st(2)] kahn_release_measure [OF st(1)] Cons show ?thesis
      using ss st(1) by (subst topological_loop.simps) simp
  qed
qed

text \<open>Adjacency maps as dependency graphs.\<close>

definition adj_preds :: "FactoryKey adjacency \<Rightarrow> FactoryKey \<Rightarrow> FactoryKey set" where
  "adj_preds m = edge_preds (adjacency_pairs m)"

definition adj_closed :: "FactoryKey adjacency \<Rightarrow> bool" where
  "adj_closed m \<longleftrightarrow> (\<forall>e\<in>set (adjacency_pairs m). fst e \<in> set (map fst m) \<and> snd e \<in> set (map fst m))"

interpretation flow_deps: dependency_source "map fst" adj_preds adj_closed
  by unfold_locales (force simp: adj_preds_def edge_preds_def adj_closed_def)

lemma count_list_snd: "count_list (map snd es) n = length (filter (\<lambda>e. snd e = n) es)"
  by (induction es) auto

lemma topological_order_exact:
  assumes nodes: "bs_wf nodes" "map fst m = nodes" and m: "represents m (set nodes) E"
  shows "\<exists>order. topological_order nodes m = Some order \<and>
    (order = None \<longleftrightarrow> \<not> acyclic E) \<and>
    (\<forall>xs. order = Some xs \<longrightarrow> set xs = set nodes \<and> greedy_topo (\<lambda>n. {p. (p, n) \<in> E}) (set nodes) {} xs)"
proof -
  let ?N = "set nodes" and ?es = "adjacency_pairs m"
  have dist: "distinct (map fst m)" using nodes bs_wf_distinct by blast
  have es: "set ?es = E" by (rule set_adjacency_pairs [OF dist m])
  have NE: "E \<subseteq> ?N \<times> ?N" using m by (simp add: represents_def)
  have closed: "adj_closed m" using es NE nodes(2) by (auto simp: adj_closed_def)
  have snd_in: "\<forall>e\<in>set ?es. snd e \<in> ?N" using es NE by auto
  have preds: "adj_preds m = (\<lambda>n. {p. (p, n) \<in> E})" by (rule ext) (simp add: adj_preds_def edge_preds_def es)
  let ?z = "map (\<lambda>n. (n, 0 :: nat)) nodes"
  have z: "bt_get ?z n = (if n \<in> ?N then Some 0 else None)" for n
    by (induction nodes) (auto simp: bt_get_def)
  have keys_z: "map fst ?z = nodes" by (simp add: comp_def)
  have "set (concat (map snd m)) \<subseteq> set (map fst ?z)" unfolding concat_snd_pairs keys_z using snd_in by auto
  then obtain inc where inc: "count_all (concat (map snd m)) ?z = Some inc" "map fst inc = nodes"
    "\<forall>n c. bt_get ?z n = Some c \<longrightarrow> bt_get inc n = Some (c + count_list (concat (map snd m)) n)"
    using count_all_exact [of "concat (map snd m)" ?z] unfolding keys_z by blast
  have count: "count_list (concat (map snd m)) n = open_edges ?es {} n" for n
    by (simp add: concat_snd_pairs open_edges_def count_list_snd)
  have counts: "bt_get inc n = Some (open_edges ?es {} n)" if "n \<in> ?N" for n
    using inc(3) z [of n] that count by simp
  have wf: "bt_wf inc" using inc(2) nodes(1) by (simp add: bt_wf_def bs_wf_def)
  let ?ready = "bs_of_list (map fst (filter (\<lambda>e. snd e = 0) inc))"
  have "set ?ready = available (edge_preds ?es) ?N {}"
  proof -
    have "bt_get inc n = Some 0 \<longleftrightarrow> n \<in> ?N \<and> edge_preds ?es n \<subseteq> {}" for n
      using counts [of n] open_edges_zero_iff [of ?es "{}" n] bt_get_keys [of inc n] inc(2) by (cases "n \<in> ?N") auto
    then show ?thesis by (auto simp: zero_counter_ids [OF wf] available_def simp del: set_map)
  qed
  then have inv: "kahn_inv ?N ?es inc ?ready []" using inc(2) counts by (simp add: kahn_inv_def)
  obtain xs inc' where loop: "topological_loop m inc ?ready [] = Some xs" and inv': "kahn_inv ?N ?es inc' [] xs"
    using topological_loop_total [OF snd_in _ pairs_of_key [OF dist, symmetric] inv] m by (auto simp: represents_def)
  have greedy: "greedy_topo (adj_preds m) ?N {} xs" and stuck: "available (adj_preds m) ?N (set xs) = {}"
    using inv' by (simp_all add: kahn_inv_def adj_preds_def)
  have topo: "topo_from (adj_preds m) {} xs" "set xs \<subseteq> ?N" using greedy_topo_topo [OF greedy] by auto
  have len: "length xs = length nodes \<longleftrightarrow> set xs = ?N"
    using topo topo_from_distinct [OF topo(1)] bs_wf_distinct [OF nodes(1)]
    by (metis List.finite_set card_subset_eq distinct_card)
  have "dep_rel ?N (adj_preds m) = E" using NE by (auto simp: dep_rel_def preds)
  then have acyclic: "flow_deps.acyclic_graph m \<longleftrightarrow> acyclic E" by (simp add: flow_deps.acyclic_graph_def nodes(2))
  have "acyclic E \<longleftrightarrow> set xs = ?N"
  proof
    assume "acyclic E"
    then show "set xs = ?N"
      using flow_deps.progress [OF closed, of "set xs"] acyclic stuck topo(2) nodes(2) by (auto simp: available_def)
  qed (use flow_deps.acyclic_of_order [of m xs] topo acyclic nodes(2) in simp)
  with len greedy inc(1) loop show ?thesis
    by (auto simp: topological_order_def preds Let_def)
qed

section \<open>Longest path\<close>

lemma raise_depths_exact:
  "set ss \<subseteq> set (map fst m) \<Longrightarrow>
     \<exists>m'. raise_depths k ss m = Some m' \<and> map fst m' = map fst m \<and>
       (\<forall>n d. bt_get m n = Some d \<longrightarrow> bt_get m' n = Some (if n \<in> set ss then max d k else d))"
proof (induction ss arbitrary: m)
  case (Cons x ss)
  obtain c where c: "bt_get m x = Some c" using Cons.prems bt_get_keys [of m x] by auto
  let ?m = "bt_set x (max c k) m"
  obtain m' where m': "raise_depths k ss ?m = Some m'" "map fst m' = map fst ?m"
    "\<forall>n d. bt_get ?m n = Some d \<longrightarrow> bt_get m' n = Some (if n \<in> set ss then max d k else d)"
    using Cons.IH [of ?m] Cons.prems by auto
  have "bt_get m' n = Some (if n \<in> set (x # ss) then max d k else d)" if "bt_get m n = Some d" for n d
    using m'(3) [rule_format, of n] that c by (cases "n = x") (auto simp: bt_get_set)
  with m' c show ?case by simp
qed simp

text \<open>After the nodes of \<open>S\<close> have been processed, the depth of a node is attained through \<open>S\<close> and
  exceeds that of its predecessors in \<open>S\<close>.\<close>

definition depths_through :: "('a \<times> 'a) set \<Rightarrow> 'a set \<Rightarrow> 'a set \<Rightarrow> ('a \<Rightarrow> nat) \<Rightarrow> bool" where
  "depths_through E N S f \<longleftrightarrow> (\<forall>n\<in>N. \<forall>p\<in>S. (p, n) \<in> E \<longrightarrow> f p + 1 \<le> f n) \<and>
     (\<forall>n\<in>N. f n = 0 \<or> (\<exists>p\<in>S. (p, n) \<in> E \<and> f n = f p + 1))"

lemma depth_loop_exact:
  assumes m: "represents m N E"
  shows "topo_from (\<lambda>n. {p. (p, n) \<in> E}) S xs \<Longrightarrow> set xs \<subseteq> N \<Longrightarrow> S \<subseteq> N \<Longrightarrow>
    (\<And>n. n \<in> S \<Longrightarrow> {p. (p, n) \<in> E} \<subseteq> S) \<Longrightarrow> set (map fst depths) = N \<Longrightarrow>
    (\<And>n. n \<in> N \<Longrightarrow> bt_get depths n = Some (f n)) \<Longrightarrow> depths_through E N S f \<Longrightarrow>
    \<exists>depths' g. depth_loop m xs depths = Some depths' \<and> map fst depths' = map fst depths \<and>
      (\<forall>n\<in>N. bt_get depths' n = Some (g n)) \<and> depths_through E N (S \<union> set xs) g"
proof (induction xs arbitrary: S depths f)
  case Nil
  then show ?case by auto
next
  case (Cons x xs)
  have x: "x \<in> N" "x \<notin> S" "{p. (p, x) \<in> E} \<subseteq> S" "topo_from (\<lambda>n. {p. (p, n) \<in> E}) (insert x S) xs"
    using Cons.prems(1,2) by auto
  obtain ss where ss: "bt_get m x = Some ss" "set ss = E `` {x}" using represents_get [OF m x(1)] by blast
  have NE: "E \<subseteq> N \<times> N" using m by (simp add: represents_def)
  have "set ss \<subseteq> set (map fst depths)" using ss(2) NE Cons.prems(5) by auto
  from raise_depths_exact [OF this, of "f x + 1"] obtain d1 where
    d1: "raise_depths (f x + 1) ss depths = Some d1" "map fst d1 = map fst depths"
    "\<forall>n d. bt_get depths n = Some d \<longrightarrow> bt_get d1 n = Some (if n \<in> set ss then max d (f x + 1) else d)" by blast
  define g where "g n = (if (x, n) \<in> E then max (f n) (f x + 1) else f n)" for n
  have get: "bt_get d1 n = Some (g n)" if "n \<in> N" for n
    using d1(3) Cons.prems(6) [OF that] ss(2) by (simp add: g_def)
  have same: "g p = f p" if "p \<in> insert x S" for p
  proof -
    have "(x, p) \<notin> E" using that x(2,3) Cons.prems(4) [of p] by auto
    then show ?thesis by (simp add: g_def)
  qed
  have through: "depths_through E N (insert x S) g"
    unfolding depths_through_def
  proof (intro conjI ballI impI)
    fix n p assume n: "n \<in> N" and p: "p \<in> insert x S" "(p, n) \<in> E"
    show "g p + 1 \<le> g n"
    proof (cases "p = x")
      case False
      with p n Cons.prems(7) have "f p + 1 \<le> f n" by (auto simp: depths_through_def)
      moreover have "f n \<le> g n" by (simp add: g_def)
      ultimately show ?thesis using same [OF p(1)] by linarith
    qed (use p same [of x] in \<open>simp add: g_def\<close>)
  next
    fix n assume n: "n \<in> N"
    show "g n = 0 \<or> (\<exists>p\<in>insert x S. (p, n) \<in> E \<and> g n = g p + 1)"
    proof (cases "(x, n) \<in> E \<and> f n \<le> f x + 1")
      case True
      then have "g n = g x + 1" using same [of x] by (simp add: g_def)
      with True show ?thesis by blast
    next
      case False
      then have "g n = f n" by (auto simp: g_def)
      with n Cons.prems(7) same show ?thesis by (auto simp: depths_through_def)
    qed
  qed
  have closed: "{p. (p, n) \<in> E} \<subseteq> insert x S" if "n \<in> insert x S" for n
    using that x(3) Cons.prems(4) by blast
  have "\<exists>depths' g. depth_loop m xs d1 = Some depths' \<and> map fst depths' = map fst d1 \<and>
      (\<forall>n\<in>N. bt_get depths' n = Some (g n)) \<and> depths_through E N (insert x S \<union> set xs) g"
    using Cons.prems(2,3,5) x(1) d1(2) by (intro Cons.IH [OF x(4) _ _ closed _ get through]) auto
  with ss(1) d1(1,2) Cons.prems(6) [OF x(1)] show ?case by simp
qed

lemma depths_paths:
  assumes "depths_through E N N f" and "E \<subseteq> N \<times> N"
  shows "(a, b) \<in> E ^^ k \<Longrightarrow> b \<in> N \<Longrightarrow> k \<le> f b" and "n \<in> N \<Longrightarrow> \<exists>a. (a, n) \<in> E ^^ f n"
proof -
  show "k \<le> f b" if "(a, b) \<in> E ^^ k" "b \<in> N"
    using that
  proof (induction k arbitrary: b)
    case (Suc k)
    then obtain c where c: "(a, c) \<in> E ^^ k" "(c, b) \<in> E" by auto
    then have "c \<in> N" using assms(2) by auto
    then have "f c + 1 \<le> f b" using assms(1) c(2) Suc.prems(2) unfolding depths_through_def by blast
    with Suc.IH [OF c(1) \<open>c \<in> N\<close>] show ?case by linarith
  qed simp
  show "\<exists>a. (a, n) \<in> E ^^ f n" if "n \<in> N"
    using that
  proof (induction "f n" arbitrary: n)
    case 0
    then show ?case by auto
  next
    case (Suc k)
    then obtain p where p: "p \<in> N" "(p, n) \<in> E" "f n = f p + 1"
      using assms(1) unfolding depths_through_def by (metis nat.distinct(1))
    then have "k = f p" using Suc.hyps(2) by simp
    then obtain a where "(a, p) \<in> E ^^ f p" using Suc.hyps(1) p(1) by blast
    with p(2,3) show ?case by auto
  qed
qed

lemma fold_max_bounds:
  fixes k :: nat
  shows "k \<le> fold max xs k \<and> (\<forall>x\<in>set xs. x \<le> fold max xs k)"
proof (induction xs arbitrary: k)
  case (Cons a xs)
  from Cons [of "max a k"] show ?case by auto
qed simp

lemma fold_max_attained:
  fixes k :: nat
  shows "fold max xs k = k \<or> fold max xs k \<in> set xs"
proof (induction xs arbitrary: k)
  case (Cons a xs)
  from Cons [of "max a k"] show ?case by (auto simp: max_def split: if_splits)
qed simp

lemma max_or_zero_exact: "x \<in> set xs \<Longrightarrow> x \<le> max_or_zero xs" "max_or_zero xs = 0 \<or> max_or_zero xs \<in> set xs"
  using fold_max_bounds [of 0 xs] fold_max_attained [of xs 0] by (auto simp: max_or_zero_def)

lemma max_or_zero_Max: "max_or_zero xs = Max (insert 0 (set xs))"
  using max_or_zero_exact(1) [of _ xs] max_or_zero_exact(2) [of xs] by (intro Max_eqI [symmetric]) auto

lemma maximum_depth_exact:
  assumes m: "represents m N E" and xs: "topo_from (\<lambda>n. {p. (p, n) \<in> E}) {} xs" "set xs = N"
  shows "\<exists>d. maximum_depth xs m = Some d \<and> E ^^ d \<noteq> {} \<and> E ^^ Suc d = {}"
proof -
  have NE: "E \<subseteq> N \<times> N" using m by (simp add: represents_def)
  let ?z = "fold (\<lambda>n. bt_insert n (0 :: nat)) xs []"
  have z: "bt_wf ?z" "\<forall>k. bt_get ?z k = (if k \<in> N then Some 0 else None)"
    using fold_zero_counters [of "[]" "\<lambda>n. n" xs] xs(2) by (simp_all add: bt_get_def bt_wf_def)
  have keys: "set (map fst ?z) = N"
  proof (rule set_eqI)
    show "n \<in> set (map fst ?z) \<longleftrightarrow> n \<in> N" for n using z(2) bt_get_keys [of ?z n] by (cases "n \<in> N") simp_all
  qed
  have get: "bt_get ?z n = Some 0" if "n \<in> N" for n using z(2) that by simp
  obtain ds f where ds: "depth_loop m xs ?z = Some ds" "map fst ds = map fst ?z"
    "\<forall>n\<in>N. bt_get ds n = Some (f n)" "depths_through E N N f"
    using depth_loop_exact [OF m xs(1) _ _ _ keys get] xs(2) by (auto simp: depths_through_def)
  let ?d = "max_or_zero (map snd ds)"
  have "bt_wf ds" using z(1) ds(2) by (simp add: bt_wf_def)
  then have dist: "distinct (map fst ds)" by (simp add: bt_wf_def strict_sorted_iff)
  have depths: "set (map snd ds) = f ` N"
  proof -
    have "(n, v) \<in> set ds \<longleftrightarrow> n \<in> N \<and> v = f n" for n v
    proof (cases "n \<in> N")
      case True
      moreover have "(n, v) \<in> set ds \<longleftrightarrow> bt_get ds n = Some v" using dist by (simp add: bt_get_def)
      ultimately show ?thesis using ds(3) by auto
    next
      case False
      then show ?thesis using ds(2) keys by (metis fst_conv image_eqI set_map)
    qed
    then show ?thesis by force
  qed
  have bound: "f n \<le> ?d" if "n \<in> N" for n using max_or_zero_exact(1) [of "f n" "map snd ds"] depths that by simp
  have "E ^^ ?d \<noteq> {}"
  proof (cases "?d = 0")
    case False
    then obtain n where "n \<in> N" "?d = f n" using max_or_zero_exact(2) [of "map snd ds"] depths by auto
    then show ?thesis using depths_paths(2) [OF ds(4) NE] by force
  qed auto
  moreover have "E ^^ Suc ?d = {}"
  proof (rule ccontr)
    assume "E ^^ Suc ?d \<noteq> {}"
    then obtain a b where ab: "(a, b) \<in> E ^^ Suc ?d" by (metis equals0I surj_pair)
    then have "b \<in> N" using NE by auto
    with depths_paths(1) [OF ds(4) NE ab] bound show False by fastforce
  qed
  ultimately show ?thesis using ds(1) by (simp add: maximum_depth_def)
qed

lemma fan_out_exact:
  assumes "distinct (map fst m)" and "represents m (set (map fst m)) E"
  shows "max_or_zero (map (\<lambda>e. length (snd e)) m) = Max (insert 0 ((\<lambda>n. card (E `` {n})) ` set (map fst m)))"
proof -
  have "length (snd e) = card (E `` {fst e})" if "e \<in> set m" for e
  proof -
    have "bt_get m (fst e) = Some (snd e)" using that assms(1) by (simp add: bt_get_def)
    then have "bs_wf (snd e)" "set (snd e) = E `` {fst e}" using assms(2) by (auto simp: represents_def)
    then show ?thesis using bs_wf_distinct distinct_card by metis
  qed
  then have "set (map (\<lambda>e. length (snd e)) m) = (\<lambda>n. card (E `` {n})) ` set (map fst m)" by force
  then show ?thesis by (simp only: max_or_zero_Max)
qed

section \<open>Analysis\<close>

lemma finite_structural_issues [simp]: "finite (structural_issues nodes edges roots)"
  by (simp add: structural_issues_def)

lemma collected_exact:
  assumes N_def: "N = sorted_list_of_set (set nodes)"
  shows "\<exists>first second. collect_nodes nodes ([], []) = (N, first) \<and>
    collect_edges N edges ([], first) = (sorted_list_of_set (set edges), second) \<and>
    fold (missing_issue N) (bs_of_list roots) second = sorted_list_of_set (structural_issues nodes edges roots)"
proof -
  let ?c = "collect_nodes nodes ([], [])"
  have c: "bs_wf (fst ?c)" "bs_wf (snd ?c)" "set (fst ?c) = set nodes"
    "set (snd ?c) = DuplicateNode ` {n \<in> set nodes. 2 \<le> count_list nodes n}"
    using collect_nodes_exact [of "[]" "[]" nodes] by (simp_all add: bs_wf_Nil)
  have N: "fst ?c = N" using bs_wf_eq [OF c(1)] c(3) by (simp add: N_def)
  let ?e = "collect_edges N edges ([], snd ?c)"
  have e: "bs_wf (fst ?e)" "bs_wf (snd ?e)" "set (fst ?e) = set edges"
    "set (snd ?e) = set (snd ?c) \<union> DuplicateEdge ` {e \<in> set edges. 2 \<le> count_list edges e} \<union>
       MissingNode ` ((fst ` set edges \<union> snd ` set edges) - set N)"
    using collect_edges_exact [OF bs_wf_Nil c(2), of N edges] by simp_all
  have E: "fst ?e = sorted_list_of_set (set edges)" using bs_wf_eq [OF e(1)] e(3) by simp
  let ?i = "fold (missing_issue N) (bs_of_list roots) (snd ?e)"
  have i: "bs_wf ?i" "set ?i = set (snd ?e) \<union> MissingNode ` (set roots - set N)"
    using missing_roots_exact [OF e(2), of N "bs_of_list roots"] by simp_all
  have "set ?i = structural_issues nodes edges roots"
  proof -
    have "set N = set nodes" by (simp add: N_def)
    moreover have "MissingNode ` ((fst ` set edges \<union> snd ` set edges) - set nodes) \<union> MissingNode ` (set roots - set nodes) =
      MissingNode ` ((fst ` set edges \<union> snd ` set edges \<union> set roots) - set nodes)" by blast
    ultimately show ?thesis using i(2) e(4) c(4) by (simp add: structural_issues_def Un_assoc)
  qed
  then have "?i = sorted_list_of_set (structural_issues nodes edges roots)" using bs_wf_eq [OF i(1)] by simp
  with N E show ?thesis by (metis prod.collapse)
qed

lemma no_structural_issues:
  "structural_issues nodes edges roots = {} \<Longrightarrow>
     distinct nodes \<and> distinct edges \<and> set edges \<subseteq> set nodes \<times> set nodes \<and> set roots \<subseteq> set nodes"
proof -
  assume none: "structural_issues nodes edges roots = {}"
  have once: "distinct xs" if "{x \<in> set xs. 2 \<le> count_list xs x} = {}" for xs :: "'b list"
  proof (rule ccontr)
    assume "\<not> distinct xs"
    then obtain ys y zs ws where "xs = ys @ [y] @ zs @ [y] @ ws" using not_distinct_decomp by blast
    then have "y \<in> set xs" "2 \<le> count_list xs y" by (simp_all add: count_list_append)
    with that show False by blast
  qed
  have "distinct nodes" "distinct edges" using none by (intro once; simp add: structural_issues_def)+
  moreover have "fst ` set edges \<union> snd ` set edges \<union> set roots \<subseteq> set nodes"
    using none by (simp add: structural_issues_def)
  ultimately show ?thesis by force
qed

text \<open>The facts of a graph with nodes \<open>N\<close>, edges \<open>E\<close> and roots \<open>R\<close>.\<close>

definition exact_facts ::
  "FactoryKey set \<Rightarrow> (FactoryKey \<times> FactoryKey) set \<Rightarrow> FactoryKey set \<Rightarrow> FactoryKey StructuralFacts \<Rightarrow> bool"
where
  "exact_facts N E R f \<longleftrightarrow>
     sf_nodes f = sorted_list_of_set N \<and> sf_edges f = sorted_list_of_set E \<and>
     sf_reachable f = sorted_list_of_set (E\<^sup>* `` R) \<and>
     sorted (sf_components f) \<and> distinct (sf_components f) \<and>
     set (sf_components f) = sorted_list_of_set ` scc E ` N \<and>
     sf_cyclic_components f = filter (\<lambda>c. \<exists>n\<in>set c. (n, n) \<in> E\<^sup>+) (sf_components f) \<and>
     (sf_topological_order f = None \<longleftrightarrow> \<not> acyclic E) \<and>
     (\<forall>xs. sf_topological_order f = Some xs \<longrightarrow> set xs = N \<and> greedy_topo (\<lambda>n. {p. (p, n) \<in> E}) N {} xs) \<and>
     node_count (sf_measurements f) = card N \<and> edge_count (sf_measurements f) = card E \<and>
     (max_depth (sf_measurements f) = None \<longleftrightarrow> \<not> acyclic E) \<and>
     (\<forall>d. max_depth (sf_measurements f) = Some d \<longrightarrow> E ^^ d \<noteq> {} \<and> E ^^ Suc d = {}) \<and>
     max_fan_out (sf_measurements f) = Max (insert 0 ((\<lambda>n. card (E `` {n})) ` N))"

lemma reachable_nodes_exact:
  "represents m N E \<Longrightarrow> reachable_nodes roots m = sorted_list_of_set (E\<^sup>* `` set roots)"
  using reach_loop_explored [of m N E "[]" roots] bs_wf_eq [of "reach_loop m roots []"]
  by (simp add: reachable_nodes_def explored_def bs_wf_Nil)

lemma cyclic_components_exact:
  assumes m: "represents m N E" and fin: "finite N" and cs: "set cs = sorted_list_of_set ` scc E ` N"
  shows "filter_panic (is_cyclic_component m) cs = Some (filter (\<lambda>c. \<exists>n\<in>set c. (n, n) \<in> E\<^sup>+) cs)"
proof (rule filter_panic_exact, rule ballI)
  fix c assume "c \<in> set cs"
  then obtain n where n: "n \<in> N" "c = sorted_list_of_set (scc E n)" using cs by auto
  have "E \<subseteq> N \<times> N" using m by (simp add: represents_def)
  then have "finite (scc E n)" using scc_subset n(1) fin by (metis finite_subset)
  then show "is_cyclic_component m c = Some (\<exists>n\<in>set c. (n, n) \<in> E\<^sup>+)"
    using cyclic_component_exact [OF m fin n(1)] n(2) by simp
qed

lemma analysis_facts:
  assumes wf: "bs_wf nodes" "bs_wf edges" "set edges \<subseteq> set nodes \<times> set nodes"
  obtains m components cyclic order depth where
    "adjacency nodes edges = Some m" "strongly_connected_components nodes m = Some components"
    "filter_panic (is_cyclic_component m) components = Some cyclic" "topological_order nodes m = Some order"
    "(case order of None \<Rightarrow> Some None | Some xs \<Rightarrow> map_option Some (maximum_depth xs m)) = Some depth"
    "exact_facts (set nodes) (set edges) (set roots) \<lparr>sf_nodes = nodes, sf_edges = edges,
       sf_reachable = reachable_nodes roots m, sf_components = components,
       sf_cyclic_components = cyclic, sf_topological_order = order,
       sf_measurements = \<lparr>node_count = length nodes, edge_count = length edges,
         max_depth = depth, max_fan_out = max_or_zero (map (\<lambda>e. length (snd e)) m)\<rparr>\<rparr>"
proof -
  let ?N = "set nodes" and ?E = "set edges"
  obtain m rm where m: "adjacency nodes edges = Some m" "map fst m = nodes" "represents m ?N ?E"
    and rm: "reverse_adjacency nodes m = Some rm" "represents rm ?N (?E\<inverse>)"
    using adjacency_exact [OF wf(1,3)] by blast
  obtain cs where cs: "strongly_connected_components nodes m = Some cs" "sorted cs" "distinct cs"
    "set cs = sorted_list_of_set ` scc ?E ` ?N"
    using components_exact [OF wf(1) m(3) rm(2,1)] by blast
  note cyclic = cyclic_components_exact [OF m(3) _ cs(4)]
  obtain order where order: "topological_order nodes m = Some order" "order = None \<longleftrightarrow> \<not> acyclic ?E"
    "\<forall>xs. order = Some xs \<longrightarrow> set xs = ?N \<and> greedy_topo (\<lambda>n. {p. (p, n) \<in> ?E}) ?N {} xs"
    using topological_order_exact [OF wf(1) m(2,3)] by blast
  obtain depth where depth:
    "(case order of None \<Rightarrow> Some None | Some xs \<Rightarrow> map_option Some (maximum_depth xs m)) = Some depth"
    "depth = None \<longleftrightarrow> order = None" "\<forall>d. depth = Some d \<longrightarrow> ?E ^^ d \<noteq> {} \<and> ?E ^^ Suc d = {}"
  proof (cases order)
    case (Some xs)
    then have "set xs = ?N" "topo_from (\<lambda>n. {p. (p, n) \<in> ?E}) {} xs" using order(3) greedy_topo_topo by blast+
    from maximum_depth_exact [OF m(3) this(2,1)] Some that show ?thesis by auto
  qed (use that in auto)
  have "length nodes = card ?N" "length edges = card ?E"
    using wf(1,2) bs_wf_distinct distinct_card by metis+
  moreover have "max_or_zero (map (\<lambda>e. length (snd e)) m) = Max (insert 0 ((\<lambda>n. card (?E `` {n})) ` ?N))"
    using fan_out_exact [of m ?E] m(2,3) bs_wf_distinct [OF wf(1)] by simp
  ultimately show ?thesis
    using that [OF m(1) cs(1) cyclic order(1) depth(1)] order(2,3) depth(2,3) cs(2-4)
      bs_wf_eq [OF wf(1)] bs_wf_eq [OF wf(2)] reachable_nodes_exact [OF m(3)]
    by (simp add: exact_facts_def)
qed

lemma graph_analyze_issues:
  assumes some: "structural_issues nodes edges roots \<noteq> {}"
  shows "graph_analyze nodes edges roots = Some (Inl (sorted_list_of_set (structural_issues nodes edges roots)))"
proof -
  obtain first second where "collect_nodes nodes ([], []) = (sorted_list_of_set (set nodes), first)"
    "collect_edges (sorted_list_of_set (set nodes)) edges ([], first) = (sorted_list_of_set (set edges), second)"
    "fold (missing_issue (sorted_list_of_set (set nodes))) (bs_of_list roots) second =
       sorted_list_of_set (structural_issues nodes edges roots)"
    using collected_exact [OF refl, of nodes edges roots] by blast
  with some show ?thesis by (simp add: graph_analyze_def)
qed

lemma graph_analyze_facts:
  assumes none: "structural_issues nodes edges roots = {}"
  shows "\<exists>f. graph_analyze nodes edges roots = Some (Inr f) \<and> exact_facts (set nodes) (set edges) (set roots) f"
proof -
  let ?N = "sorted_list_of_set (set nodes)" and ?E = "sorted_list_of_set (set edges)"
  have wf: "bs_wf ?N" "bs_wf ?E" "set ?E \<subseteq> set ?N \<times> set ?N"
    using no_structural_issues [OF none] by (simp_all add: bs_wf_def)
  obtain first second where collected: "collect_nodes nodes ([], []) = (?N, first)"
    "collect_edges ?N edges ([], first) = (?E, second)" "fold (missing_issue ?N) (bs_of_list roots) second = []"
    using collected_exact [OF refl, of nodes edges roots] none by auto
  show ?thesis
  proof (rule analysis_facts [OF wf, of "bs_of_list roots"])
    fix m components cyclic order depth
    assume run: "adjacency ?N ?E = Some m" "strongly_connected_components ?N m = Some components"
      "filter_panic (is_cyclic_component m) components = Some cyclic" "topological_order ?N m = Some order"
      "(case order of None \<Rightarrow> Some None | Some xs \<Rightarrow> map_option Some (maximum_depth xs m)) = Some depth"
    assume "exact_facts (set ?N) (set ?E) (set (bs_of_list roots)) \<lparr>sf_nodes = ?N, sf_edges = ?E,
       sf_reachable = reachable_nodes (bs_of_list roots) m, sf_components = components,
       sf_cyclic_components = cyclic, sf_topological_order = order,
       sf_measurements = \<lparr>node_count = length ?N, edge_count = length ?E,
         max_depth = depth, max_fan_out = max_or_zero (map (\<lambda>e. length (snd e)) m)\<rparr>\<rparr>" (is "exact_facts _ _ _ ?f")
    then have "exact_facts (set nodes) (set edges) (set roots) ?f" by simp
    moreover have "graph_analyze nodes edges roots = Some (Inr ?f)"
      unfolding graph_analyze_def using collected run by simp
    ultimately show ?thesis by blast
  qed
qed

text \<open>
  (C5) The structural analysis of a Factory control graph never panics and is exact. It is rejected
  with the sorted set of its issues precisely when a node or an edge is given twice or an edge or a
  root names an unknown node. Otherwise the facts are those of the edge relation: the sorted nodes
  and edges, everything reachable from the roots, the strongly connected components in order and
  without repetition, those of them that contain a cycle, the topological order that always takes the
  least ready node (present precisely when the graph is acyclic), the length of the longest path and
  the greatest number of successors.
\<close>

theorem graph_analysis_exact:
  "case analyze_factory_flow_graph nodes edges roots of
     None \<Rightarrow> False
   | Some (Inl issues) \<Rightarrow> issues \<noteq> [] \<and> issues = sorted_list_of_set (structural_issues nodes edges roots)
   | Some (Inr f) \<Rightarrow> structural_issues nodes edges roots = {} \<and> exact_facts (set nodes) (set edges) (set roots) f"
proof (cases "structural_issues nodes edges roots = {}")
  case True
  from graph_analyze_facts [OF this] True show ?thesis by (auto simp: analyze_factory_flow_graph_def)
next
  case False
  then show ?thesis by (simp add: analyze_factory_flow_graph_def graph_analyze_issues)
qed

end
