(* ===== verification/Factory_Permission.thy ===== *)
theory Factory_Permission
  imports Factory_Values "HOL-Library.Product_Lexorder"
begin

text \<open>
  Factory authority, \<^verbatim>\<open>server/core/octacity-server-factory/src/permission.rs\<close>: deny-by-default permission
  sets with their bounds, intersection and comparison, the wire form, the bytes whose digest identifies
  a set, and the resolution of effective permissions. A \<^verbatim>\<open>BTreeSet\<close> is its sorted list of elements.
\<close>

section \<open>Grants\<close>

text \<open>The identity, version and digest of an immutable reference, compared in this order.\<close>

type_synonym ImmutableReference = "FactoryKey \<times> FactoryKey \<times> FactoryDigest"

definition MAX_PERMISSION_ENTRIES_PER_CATEGORY :: nat where "MAX_PERMISSION_ENTRIES_PER_CATEGORY = 256"
definition MAX_COMMAND_ARGUMENTS :: nat where "MAX_COMMAND_ARGUMENTS = 64"
definition MAX_COMMAND_ARGUMENT_BYTES :: nat where "MAX_COMMAND_ARGUMENT_BYTES = 16 * 1024"
definition MAX_PERMISSION_PATH_BYTES :: nat where "MAX_PERMISSION_PATH_BYTES = 1024"
definition MAX_PERMISSION_HOST_BYTES :: nat where "MAX_PERMISSION_HOST_BYTES = 253"
definition MAX_FACTORY_CPU_MILLIS :: u32 where "MAX_FACTORY_CPU_MILLIS = 1000000"
definition MAX_FACTORY_MEMORY_BYTES :: u64 where "MAX_FACTORY_MEMORY_BYTES = 1024 * 1024 * 1024 * 1024 * 1024"
definition MAX_FACTORY_DISK_BYTES :: u64 where "MAX_FACTORY_DISK_BYTES = 1024 * 1024 * 1024 * 1024 * 1024"
definition MAX_FACTORY_PROCESS_COUNT :: u32 where "MAX_FACTORY_PROCESS_COUNT = 1000000"
definition MAX_FACTORY_OUTPUT_COUNT :: u32 where "MAX_FACTORY_OUTPUT_COUNT = 1000000"

datatype CommandArgumentPattern = Exact FactoryText | AnyArgument

fun pattern_key :: "CommandArgumentPattern \<Rightarrow> nat \<times> FactoryText" where
  "pattern_key (Exact t) = (0, t)"
| "pattern_key AnyArgument = (1, [])"

lemma pattern_key_inj: "pattern_key x = pattern_key y \<longleftrightarrow> x = y"
  by (cases x; cases y) auto

instantiation CommandArgumentPattern :: linorder
begin

definition less_eq_CommandArgumentPattern :: "CommandArgumentPattern \<Rightarrow> CommandArgumentPattern \<Rightarrow> bool" where
  "less_eq_CommandArgumentPattern x y \<longleftrightarrow> pattern_key x \<le> pattern_key y"

definition less_CommandArgumentPattern :: "CommandArgumentPattern \<Rightarrow> CommandArgumentPattern \<Rightarrow> bool" where
  "less_CommandArgumentPattern x y \<longleftrightarrow> pattern_key x < pattern_key y"

instance
  by intro_classes
    (auto simp: less_eq_CommandArgumentPattern_def less_CommandArgumentPattern_def simp flip: pattern_key_inj)

end

datatype MountMode = ReadOnly | ReadWrite

instantiation MountMode :: linorder
begin

definition less_eq_MountMode :: "MountMode \<Rightarrow> MountMode \<Rightarrow> bool" where
  "less_eq_MountMode x y \<longleftrightarrow> x = ReadOnly \<or> y = ReadWrite"

definition less_MountMode :: "MountMode \<Rightarrow> MountMode \<Rightarrow> bool" where
  "less_MountMode x y \<longleftrightarrow> x = ReadOnly \<and> y = ReadWrite"

instance
proof
  show "x \<le> x" for x :: MountMode by (cases x) (simp_all add: less_eq_MountMode_def)
qed (auto simp: less_eq_MountMode_def less_MountMode_def intro: MountMode.exhaust)

end

fun argument_intersection :: "CommandArgumentPattern \<Rightarrow> CommandArgumentPattern \<Rightarrow> CommandArgumentPattern option" where
  "argument_intersection (Exact l) (Exact r) = (if l = r then Some (Exact l) else None)"
| "argument_intersection (Exact v) AnyArgument = Some (Exact v)"
| "argument_intersection AnyArgument (Exact v) = Some (Exact v)"
| "argument_intersection AnyArgument AnyArgument = Some AnyArgument"

type_synonym CommandPermission = "ImmutableReference \<times> CommandArgumentPattern list"

fun argument_bytes :: "CommandArgumentPattern \<Rightarrow> nat" where
  "argument_bytes (Exact v) = str_len v"
| "argument_bytes AnyArgument = 0"

text \<open>The sum of a \<^verbatim>\<open>usize\<close> that fails on overflow.\<close>

primrec checked_sum :: "nat list \<Rightarrow> nat \<Rightarrow> nat option" where
  "checked_sum [] acc = Some acc"
| "checked_sum (n # ns) acc = (if acc + n < 2 ^ 64 then checked_sum ns (acc + n) else None)"

definition command_permission_try_new ::
  "ImmutableReference \<Rightarrow> CommandArgumentPattern list \<Rightarrow> FactoryError + CommandPermission"
where
  "command_permission_try_new executable arguments =
     (if MAX_COMMAND_ARGUMENTS < length arguments \<or>
         (case checked_sum (map argument_bytes arguments) 0 of
            None \<Rightarrow> True | Some bytes \<Rightarrow> MAX_COMMAND_ARGUMENT_BYTES < bytes)
      then Inl (FE_InvalidPermission PC_CommandArguments) else Inr (executable, arguments))"

definition command_intersection :: "CommandPermission \<Rightarrow> CommandPermission \<Rightarrow> CommandPermission option" where
  "command_intersection x y =
     (if fst x \<noteq> fst y \<or> length (snd x) \<noteq> length (snd y) then None
      else map_option (Pair (fst x)) (those (map2 argument_intersection (snd x) (snd y))))"

type_synonym FactoryPath = rstr

definition factory_path_new :: "rstr \<Rightarrow> FactoryError + FactoryPath" where
  "factory_path_new v =
     (if v \<noteq> [] \<and> str_len v \<le> MAX_PERMISSION_PATH_BYTES \<and> starts_with (lit ''/'') v \<and>
         (v = lit ''/'' \<or> last v \<noteq> 47) \<and> 92 \<notin> set v \<and> \<not> list_ex is_control v \<and>
         (v = lit ''/'' \<or> list_all (\<lambda>s. s \<noteq> [] \<and> s \<noteq> lit ''.'' \<and> s \<noteq> lit ''..'') (tl (split_char 47 v)))
      then Inr v else Inl (FE_InvalidPermission PC_FilesystemPaths))"

definition path_contains :: "FactoryPath \<Rightarrow> FactoryPath \<Rightarrow> bool" where
  "path_contains self other \<longleftrightarrow> self = other \<or> self = lit ''/'' \<or>
     (starts_with self other \<and> starts_with (lit ''/'') (drop (length self) other))"

type_synonym MountPermission = "FactoryPath \<times> MountMode"

definition mount_intersection :: "MountPermission \<Rightarrow> MountPermission \<Rightarrow> MountPermission option" where
  "mount_intersection x y =
     (let mode = if snd x = ReadOnly \<or> snd y = ReadOnly then ReadOnly else ReadWrite
      in if path_contains (fst x) (fst y) then Some (fst y, mode)
         else if path_contains (fst y) (fst x) then Some (fst x, mode)
         else None)"

section \<open>Hosts\<close>

text \<open>The text of \<^verbatim>\<open>std::net\<close> addresses. An address is canonical when printing the address it denotes gives
  the text back.\<close>

fun dec_text :: "nat \<Rightarrow> rstr" where
  "dec_text n = (if n < 10 then [48 + n] else dec_text (n div 10) @ [48 + n mod 10])"

declare dec_text.simps [simp del]

fun hex_text :: "nat \<Rightarrow> rstr" where
  "hex_text n = (if n < 16 then [hex_char n] else hex_text (n div 16) @ [hex_char (n mod 16)])"

declare hex_text.simps [simp del]

definition octets :: "rstr list" where
  "octets = map dec_text [0..<256]"

definition canonical_ipv4 :: "rstr \<Rightarrow> bool" where
  "canonical_ipv4 v \<longleftrightarrow> length (split_char 46 v) = 4 \<and> list_all (\<lambda>p. p \<in> set octets) (split_char 46 v)"

definition join_colon :: "rstr list \<Rightarrow> rstr" where
  "join_colon ps = (case ps of [] \<Rightarrow> [] | p # ps \<Rightarrow> p @ concat (map (\<lambda>q. 58 # q) ps))"

text \<open>The first longest run of zero segments: start and length.\<close>

fun zero_run :: "nat list \<Rightarrow> nat \<Rightarrow> nat \<times> nat \<Rightarrow> nat \<times> nat \<Rightarrow> nat \<times> nat" where
  "zero_run [] i current longest = longest"
| "zero_run (s # ss) i current longest =
     (if s = 0 then
        let current = (if snd current = 0 then i else fst current, snd current + 1)
        in zero_run ss (i + 1) current (if snd longest < snd current then current else longest)
      else zero_run ss (i + 1) (0, 0) longest)"

definition ipv6_text :: "nat list \<Rightarrow> rstr" where
  "ipv6_text segments =
     (if take 6 segments = [0, 0, 0, 0, 0, 65535] then
        lit ''::ffff:'' @ dec_text (segments ! 6 div 256) @ [46] @ dec_text (segments ! 6 mod 256) @ [46] @
          dec_text (segments ! 7 div 256) @ [46] @ dec_text (segments ! 7 mod 256)
      else
        let (start, len) = zero_run segments 0 (0, 0) (0, 0); texts = map hex_text segments
        in if 1 < len then join_colon (take start texts) @ lit ''::'' @ join_colon (drop (start + len) texts)
           else join_colon texts)"

primrec hex_value :: "rstr \<Rightarrow> nat \<Rightarrow> nat" where
  "hex_value [] n = n"
| "hex_value (c # s) n = hex_value s (16 * n + (if c \<le> 57 then c - 48 else c - 87))"

definition ipv6_groups :: "rstr \<Rightarrow> nat list option" where
  "ipv6_groups v =
     (if v = [] then Some []
      else if list_all (\<lambda>g. g \<noteq> [] \<and> length g \<le> 4 \<and> list_all is_lower_hex g) (split_char 58 v)
      then Some (map (\<lambda>g. hex_value g 0) (split_char 58 v)) else None)"

definition ipv4_segments :: "rstr \<Rightarrow> nat list" where
  "ipv4_segments v =
     (let ns = map (\<lambda>p. length (takeWhile (\<lambda>q. q \<noteq> p) octets)) (split_char 46 v)
      in [256 * ns ! 0 + ns ! 1, 256 * ns ! 2 + ns ! 3])"

definition ipv6_read :: "rstr \<Rightarrow> nat list option" where
  "ipv6_read v =
     (if starts_with (lit ''::ffff:'') v \<and> canonical_ipv4 (drop 7 v) then
        Some ([0, 0, 0, 0, 0, 65535] @ ipv4_segments (drop 7 v))
      else case split_once (lit ''::'') v of
        None \<Rightarrow> Option.bind (ipv6_groups v) (\<lambda>g. if length g = 8 then Some g else None)
      | Some (l, r) \<Rightarrow>
          Option.bind (ipv6_groups l) (\<lambda>g. Option.bind (ipv6_groups r) (\<lambda>h.
          if length g + length h < 8 then Some (g @ replicate (8 - length g - length h) 0 @ h) else None)))"

definition canonical_ip :: "rstr \<Rightarrow> bool" where
  "canonical_ip v \<longleftrightarrow> canonical_ipv4 v \<or> (case ipv6_read v of None \<Rightarrow> False | Some s \<Rightarrow> ipv6_text s = v)"

definition valid_dns_label :: "rstr \<Rightarrow> bool" where
  "valid_dns_label l \<longleftrightarrow> l \<noteq> [] \<and> str_len l \<le> 63 \<and>
     list_all (\<lambda>c. is_ascii_lowercase c \<or> is_ascii_digit c \<or> c = 45) l \<and>
     is_ascii_alphanumeric (hd l) \<and> is_ascii_alphanumeric (last l)"

definition network_host_new :: "rstr \<Rightarrow> FactoryError + rstr" where
  "network_host_new v =
     (let canonical_dns = str_len v \<le> MAX_PERMISSION_HOST_BYTES \<and> list_ex is_ascii_lowercase v \<and>
            list_all valid_dns_label (split_char 46 v)
      in if v = [] \<or> \<not> canonical_ip v \<and> \<not> canonical_dns then Inl (FE_InvalidPermission PC_NetworkHosts) else Inr v)"

section \<open>Limits and outputs\<close>

record FactoryResourceLimits =
  rl_cpu_millis :: u32
  rl_memory_bytes :: u64
  rl_disk_bytes :: u64
  rl_process_count :: u32
  rl_elapsed_millis :: u64

definition resource_limits_new :: "u32 \<Rightarrow> u64 \<Rightarrow> u64 \<Rightarrow> u32 \<Rightarrow> u64 \<Rightarrow> FactoryError + FactoryResourceLimits" where
  "resource_limits_new cpu memory disk processes elapsed =
     (if MAX_FACTORY_CPU_MILLIS < cpu then Inl (FE_InvalidPermission PC_Cpu)
      else if MAX_FACTORY_MEMORY_BYTES < memory then Inl (FE_InvalidPermission PC_Memory)
      else if MAX_FACTORY_DISK_BYTES < disk then Inl (FE_InvalidPermission PC_Disk)
      else if MAX_FACTORY_PROCESS_COUNT < processes then Inl (FE_InvalidPermission PC_ProcessCount)
      else if MAX_FACTORY_ELAPSED_MILLIS < elapsed then Inl (FE_InvalidPermission PC_ElapsedTime)
      else Inr \<lparr>rl_cpu_millis = cpu, rl_memory_bytes = memory, rl_disk_bytes = disk,
        rl_process_count = processes, rl_elapsed_millis = elapsed\<rparr>)"

definition resource_intersection :: "FactoryResourceLimits \<Rightarrow> FactoryResourceLimits \<Rightarrow> FactoryResourceLimits" where
  "resource_intersection x y =
     \<lparr>rl_cpu_millis = min (rl_cpu_millis x) (rl_cpu_millis y),
      rl_memory_bytes = min (rl_memory_bytes x) (rl_memory_bytes y),
      rl_disk_bytes = min (rl_disk_bytes x) (rl_disk_bytes y),
      rl_process_count = min (rl_process_count x) (rl_process_count y),
      rl_elapsed_millis = min (rl_elapsed_millis x) (rl_elapsed_millis y)\<rparr>"

record FactoryOutputPermissions =
  op_kinds :: "FactoryKey list"
  op_max_artifact_count :: u32
  op_max_artifact_bytes :: u64
  op_max_report_count :: u32
  op_max_report_bytes :: u64

definition bounded_set :: "'a::linorder list \<Rightarrow> PermissionCategory \<Rightarrow> FactoryError + 'a list" where
  "bounded_set xs category =
     (if MAX_PERMISSION_ENTRIES_PER_CATEGORY < length xs then Inl (FE_CollectionLimitExceeded (lit ''permission grants''))
      else if length (bs_of_list xs) \<noteq> length xs then Inl (FE_DuplicatePermission category)
      else Inr (bs_of_list xs))"

definition set_intersection :: "'a list \<Rightarrow> 'a list \<Rightarrow> 'a list" where
  "set_intersection xs ys = filter (\<lambda>x. x \<in> set ys) xs"

definition cross_intersection :: "('a::linorder \<Rightarrow> 'a \<Rightarrow> 'a option) \<Rightarrow> 'a list \<Rightarrow> 'a list \<Rightarrow> 'a list" where
  "cross_intersection f xs ys = bs_of_list (concat (map (\<lambda>l. List.map_filter (f l) ys) xs))"

definition output_permissions_try_new ::
  "FactoryKey list \<Rightarrow> u32 \<Rightarrow> u64 \<Rightarrow> u32 \<Rightarrow> u64 \<Rightarrow> FactoryError + FactoryOutputPermissions"
where
  "output_permissions_try_new kinds artifacts bytes_a reports bytes_r =
     (if MAX_FACTORY_OUTPUT_COUNT < artifacts \<or> MAX_FACTORY_OUTPUT_COUNT < reports \<or>
         MAX_FACTORY_OUTPUT_BYTES < bytes_a \<or> MAX_FACTORY_OUTPUT_BYTES < bytes_r
      then Inl (FE_InvalidPermission PC_Outputs)
      else and_then (bounded_set kinds PC_Outputs) (\<lambda>kinds.
        Inr \<lparr>op_kinds = kinds, op_max_artifact_count = artifacts, op_max_artifact_bytes = bytes_a,
          op_max_report_count = reports, op_max_report_bytes = bytes_r\<rparr>))"

definition output_intersection :: "FactoryOutputPermissions \<Rightarrow> FactoryOutputPermissions \<Rightarrow> FactoryOutputPermissions" where
  "output_intersection x y =
     \<lparr>op_kinds = set_intersection (op_kinds x) (op_kinds y),
      op_max_artifact_count = min (op_max_artifact_count x) (op_max_artifact_count y),
      op_max_artifact_bytes = min (op_max_artifact_bytes x) (op_max_artifact_bytes y),
      op_max_report_count = min (op_max_report_count x) (op_max_report_count y),
      op_max_report_bytes = min (op_max_report_bytes x) (op_max_report_bytes y)\<rparr>"

section \<open>Permission sets\<close>

text \<open>A draft, a canonical set and the wire document have the same fields; a set holds sorted lists, and
  the values of a document have not been validated.\<close>

record FactoryPermissionSet =
  ps_plugins :: "ImmutableReference list"
  ps_executables :: "ImmutableReference list"
  ps_tools :: "ImmutableReference list"
  ps_commands :: "CommandPermission list"
  ps_max_descendants :: u32
  ps_mounts :: "MountPermission list"
  ps_network_hosts :: "rstr list"
  ps_secret_profiles :: "FactoryKey list"
  ps_workload_identity_profiles :: "FactoryKey list"
  ps_resources :: FactoryResourceLimits
  ps_outputs :: FactoryOutputPermissions

type_synonym FactoryPermissionDraft = FactoryPermissionSet
type_synonym PermissionSetWire = FactoryPermissionSet

definition deny_all :: FactoryPermissionSet where
  "deny_all = \<lparr>ps_plugins = [], ps_executables = [], ps_tools = [], ps_commands = [], ps_max_descendants = 0,
     ps_mounts = [], ps_network_hosts = [], ps_secret_profiles = [], ps_workload_identity_profiles = [],
     ps_resources = \<lparr>rl_cpu_millis = 0, rl_memory_bytes = 0, rl_disk_bytes = 0, rl_process_count = 0, rl_elapsed_millis = 0\<rparr>,
     ps_outputs = \<lparr>op_kinds = [], op_max_artifact_count = 0, op_max_artifact_bytes = 0, op_max_report_count = 0,
       op_max_report_bytes = 0\<rparr>\<rparr>"

text \<open>Whether an earlier and a later mount overlap, in the order of the set.\<close>

primrec mounts_overlap :: "MountPermission list \<Rightarrow> bool" where
  "mounts_overlap [] = False"
| "mounts_overlap (m # ms) =
     (list_ex (\<lambda>n. path_contains (fst m) (fst n) \<or> path_contains (fst n) (fst m)) ms \<or> mounts_overlap ms)"

definition permission_set_try_new :: "FactoryPermissionDraft \<Rightarrow> FactoryError + FactoryPermissionSet" where
  "permission_set_try_new d =
     (if MAX_FACTORY_PROCESS_COUNT < ps_max_descendants d then Inl (FE_InvalidPermission PC_DescendantProcesses)
      else and_then (bounded_set (ps_executables d) PC_ExecutableIdentity) (\<lambda>executables.
      if list_ex (\<lambda>c. fst c \<notin> set executables) (ps_commands d) then Inl (FE_InvalidPermission PC_CommandArguments)
      else and_then (bounded_set (ps_mounts d) PC_FilesystemPaths) (\<lambda>mounts.
      if mounts_overlap mounts then Inl (FE_InvalidPermission PC_FilesystemPaths)
      else and_then (bounded_set (ps_plugins d) PC_PluginIdentity) (\<lambda>plugins.
      and_then (bounded_set (ps_tools d) PC_ToolIdentity) (\<lambda>tools.
      and_then (bounded_set (ps_commands d) PC_CommandArguments) (\<lambda>commands.
      and_then (bounded_set (ps_network_hosts d) PC_NetworkHosts) (\<lambda>hosts.
      and_then (bounded_set (ps_secret_profiles d) PC_SecretProfiles) (\<lambda>secrets.
      and_then (bounded_set (ps_workload_identity_profiles d) PC_WorkloadIdentityProfiles) (\<lambda>identities.
      Inr \<lparr>ps_plugins = plugins, ps_executables = executables, ps_tools = tools, ps_commands = commands,
        ps_max_descendants = ps_max_descendants d, ps_mounts = mounts, ps_network_hosts = hosts,
        ps_secret_profiles = secrets, ps_workload_identity_profiles = identities,
        ps_resources = ps_resources d, ps_outputs = ps_outputs d\<rparr>)))))))))"

definition permission_intersection :: "FactoryPermissionSet \<Rightarrow> FactoryPermissionSet \<Rightarrow> FactoryPermissionSet" where
  "permission_intersection x y =
     \<lparr>ps_plugins = set_intersection (ps_plugins x) (ps_plugins y),
      ps_executables = set_intersection (ps_executables x) (ps_executables y),
      ps_tools = set_intersection (ps_tools x) (ps_tools y),
      ps_commands = cross_intersection command_intersection (ps_commands x) (ps_commands y),
      ps_max_descendants = min (ps_max_descendants x) (ps_max_descendants y),
      ps_mounts = cross_intersection mount_intersection (ps_mounts x) (ps_mounts y),
      ps_network_hosts = set_intersection (ps_network_hosts x) (ps_network_hosts y),
      ps_secret_profiles = set_intersection (ps_secret_profiles x) (ps_secret_profiles y),
      ps_workload_identity_profiles =
        set_intersection (ps_workload_identity_profiles x) (ps_workload_identity_profiles y),
      ps_resources = resource_intersection (ps_resources x) (ps_resources y),
      ps_outputs = output_intersection (ps_outputs x) (ps_outputs y)\<rparr>"

definition with_elapsed_limit :: "FactoryPermissionSet \<Rightarrow> u64 \<Rightarrow> FactoryPermissionSet" where
  "with_elapsed_limit s maximum =
     s\<lparr>ps_resources := (ps_resources s)\<lparr>rl_elapsed_millis := min (rl_elapsed_millis (ps_resources s)) maximum\<rparr>\<rparr>"

definition is_no_broader_than :: "FactoryPermissionSet \<Rightarrow> FactoryPermissionSet \<Rightarrow> bool" where
  "is_no_broader_than s enclosing \<longleftrightarrow> permission_intersection s enclosing = s"

section \<open>Wire form and digest\<close>

definition permission_set_to_wire :: "FactoryPermissionSet \<Rightarrow> PermissionSetWire" where
  "permission_set_to_wire s = s"

definition permission_set_from_wire :: "PermissionSetWire \<Rightarrow> FactoryError + FactoryPermissionSet" where
  "permission_set_from_wire w =
     and_then (try_map (\<lambda>c. command_permission_try_new (fst c) (snd c)) (ps_commands w)) (\<lambda>commands.
     and_then (try_map (\<lambda>m. map_ok (\<lambda>root. (root, snd m)) (factory_path_new (fst m))) (ps_mounts w)) (\<lambda>mounts.
     and_then (try_map network_host_new (ps_network_hosts w)) (\<lambda>hosts.
     and_then (let r = ps_resources w in resource_limits_new (rl_cpu_millis r) (rl_memory_bytes r)
       (rl_disk_bytes r) (rl_process_count r) (rl_elapsed_millis r)) (\<lambda>resources.
     and_then (let p = ps_outputs w in output_permissions_try_new (op_kinds p) (op_max_artifact_count p)
       (op_max_artifact_bytes p) (op_max_report_count p) (op_max_report_bytes p)) (\<lambda>outputs.
     permission_set_try_new (w\<lparr>ps_commands := commands, ps_mounts := mounts, ps_network_hosts := hosts,
       ps_resources := resources, ps_outputs := outputs\<rparr>))))))"

definition encode_reference :: "ImmutableReference \<Rightarrow> u8 list" where
  "encode_reference r = (case r of (identity, version, digest) \<Rightarrow>
     framed (as_bytes identity) @ framed (as_bytes version) @ digest)"

fun encode_argument :: "CommandArgumentPattern \<Rightarrow> u8 list" where
  "encode_argument (Exact v) = 1 # framed (as_bytes v)"
| "encode_argument AnyArgument = [0]"

definition encode_command :: "CommandPermission \<Rightarrow> u8 list" where
  "encode_command c = encode_reference (fst c) @ counted encode_argument (snd c)"

definition encode_mount :: "MountPermission \<Rightarrow> u8 list" where
  "encode_mount m = framed (as_bytes (fst m)) @ [case snd m of ReadOnly \<Rightarrow> 0 | ReadWrite \<Rightarrow> 1]"

definition encode_string :: "rstr \<Rightarrow> u8 list" where
  "encode_string s = framed (as_bytes s)"

definition encode_resources :: "FactoryResourceLimits \<Rightarrow> u8 list" where
  "encode_resources r = be_bytes 4 (rl_cpu_millis r) @ be_bytes 8 (rl_memory_bytes r) @
     be_bytes 8 (rl_disk_bytes r) @ be_bytes 4 (rl_process_count r) @ be_bytes 8 (rl_elapsed_millis r)"

definition encode_outputs :: "FactoryOutputPermissions \<Rightarrow> u8 list" where
  "encode_outputs p = counted encode_string (op_kinds p) @
     be_bytes 4 (op_max_artifact_count p) @ be_bytes 8 (op_max_artifact_bytes p) @
     be_bytes 4 (op_max_report_count p) @ be_bytes 8 (op_max_report_bytes p)"

definition encode_permissions :: "FactoryPermissionSet \<Rightarrow> u8 list" where
  "encode_permissions s =
     encode_string (lit ''plugins'') @ counted encode_reference (ps_plugins s) @
     encode_string (lit ''executables'') @ counted encode_reference (ps_executables s) @
     encode_string (lit ''tools'') @ counted encode_reference (ps_tools s) @
     encode_string (lit ''commands'') @ counted encode_command (ps_commands s) @
     encode_string (lit ''descendants'') @ be_bytes 4 (ps_max_descendants s) @
     encode_string (lit ''mounts'') @ counted encode_mount (ps_mounts s) @
     encode_string (lit ''network'') @ counted encode_string (ps_network_hosts s) @
     encode_string (lit ''secrets'') @ counted encode_string (ps_secret_profiles s) @
     encode_string (lit ''identities'') @ counted encode_string (ps_workload_identity_profiles s) @
     encode_string (lit ''resources'') @ encode_resources (ps_resources s) @
     encode_string (lit ''outputs'') @ encode_outputs (ps_outputs s)"

definition permission_digest :: "(u8 list \<Rightarrow> FactoryDigest) \<Rightarrow> FactoryPermissionSet \<Rightarrow> FactoryDigest" where
  "permission_digest sha256 s = factory_digest_sha256 sha256 (lit ''octacity.factory.permission-set.v1'') [encode_permissions s]"

section \<open>Resolution\<close>

definition all_categories :: "PermissionCategory list" where
  "all_categories = [PC_PluginIdentity, PC_ExecutableIdentity, PC_ToolIdentity, PC_CommandArguments,
     PC_DescendantProcesses, PC_FilesystemPaths, PC_MountModes, PC_NetworkHosts, PC_SecretProfiles,
     PC_WorkloadIdentityProfiles, PC_Cpu, PC_Memory, PC_Disk, PC_ProcessCount, PC_ElapsedTime, PC_Outputs]"

record LocalPermissionCeiling =
  lc_grants :: FactoryPermissionSet
  lc_enforceable :: "PermissionCategory set"

primrec collect_categories ::
  "PermissionCategory list \<Rightarrow> PermissionCategory set \<Rightarrow> FactoryError + PermissionCategory set"
where
  "collect_categories [] cs = Inr cs"
| "collect_categories (c # rest) cs =
     (if c \<in> cs then Inl (FE_DuplicatePermission c) else collect_categories rest (insert c cs))"

definition local_ceiling_try_new ::
  "FactoryPermissionSet \<Rightarrow> PermissionCategory list \<Rightarrow> FactoryError + LocalPermissionCeiling"
where
  "local_ceiling_try_new grants enforceable =
     (if length all_categories < length enforceable
      then Inl (FE_CollectionLimitExceeded (lit ''permission capabilities''))
      else map_ok (\<lambda>cs. \<lparr>lc_grants = grants, lc_enforceable = cs\<rparr>) (collect_categories enforceable {}))"

definition fully_enforced :: "FactoryPermissionSet \<Rightarrow> LocalPermissionCeiling" where
  "fully_enforced grants = \<lparr>lc_grants = grants, lc_enforceable = set all_categories\<rparr>"

definition resolve_factory_permissions ::
  "FactoryPermissionSet \<Rightarrow> FactoryPermissionSet \<Rightarrow> FactoryPermissionSet \<Rightarrow> LocalPermissionCeiling \<Rightarrow>
     FactoryError + FactoryPermissionSet"
where
  "resolve_factory_permissions project_policy configuration task_envelope local_ceiling =
     and_then (try_each (\<lambda>c. ensure (c \<in> lc_enforceable local_ceiling) (FE_UnenforceablePermission c)) all_categories) (\<lambda>_.
     Inr (permission_intersection (permission_intersection (permission_intersection
       project_policy configuration) task_envelope) (lc_grants local_ceiling)))"

end
