(* ===== verification/Factory_Permission_Correct.thy ===== *)
theory Factory_Permission_Correct
  imports Factory_Permission
begin

text \<open>
  What Factory permission sets mean: the requests a set permits, the exactness of intersection and of
  the resolution of effective permissions, the soundness of the comparison of sets and where it is not
  complete, the wire round trip, and the injectivity of the digested bytes.
\<close>

section \<open>Permitted requests\<close>

datatype authority_request =
    Load_Plugin ImmutableReference
  | Start_Executable ImmutableReference
  | Use_Tool ImmutableReference
  | Run_Command ImmutableReference "rstr list"
  | Spawn_Descendants u32
  | Access_Path FactoryPath MountMode
  | Connect_Host rstr
  | Deliver_Secret FactoryKey
  | Assume_Identity FactoryKey
  | Use_Resources u32 u64 u64 u32 u64
  | Publish_Kind FactoryKey
  | Publish_Artifacts u32 u64
  | Publish_Reports u32 u64

fun argument_matches :: "CommandArgumentPattern \<Rightarrow> rstr \<Rightarrow> bool" where
  "argument_matches (Exact v) a = (a = v)"
| "argument_matches AnyArgument a = True"

definition command_covers :: "CommandPermission \<Rightarrow> ImmutableReference \<times> rstr list \<Rightarrow> bool" where
  "command_covers c r \<longleftrightarrow> fst c = fst r \<and> list_all2 argument_matches (snd c) (snd r)"

definition mount_covers :: "MountPermission \<Rightarrow> FactoryPath \<times> MountMode \<Rightarrow> bool" where
  "mount_covers m r \<longleftrightarrow> path_contains (fst m) (fst r) \<and> (snd m = ReadOnly \<longrightarrow> snd r = ReadOnly)"

definition resources_within :: "FactoryResourceLimits \<Rightarrow> u32 \<Rightarrow> u64 \<Rightarrow> u64 \<Rightarrow> u32 \<Rightarrow> u64 \<Rightarrow> bool" where
  "resources_within l cpu memory disk processes elapsed \<longleftrightarrow>
     cpu \<le> rl_cpu_millis l \<and> memory \<le> rl_memory_bytes l \<and> disk \<le> rl_disk_bytes l \<and>
     processes \<le> rl_process_count l \<and> elapsed \<le> rl_elapsed_millis l"

fun permits :: "FactoryPermissionSet \<Rightarrow> authority_request \<Rightarrow> bool" where
  "permits s (Load_Plugin r) = (r \<in> set (ps_plugins s))"
| "permits s (Start_Executable r) = (r \<in> set (ps_executables s))"
| "permits s (Use_Tool r) = (r \<in> set (ps_tools s))"
| "permits s (Run_Command r args) = (\<exists>c\<in>set (ps_commands s). command_covers c (r, args))"
| "permits s (Spawn_Descendants n) = (n \<le> ps_max_descendants s)"
| "permits s (Access_Path p mode) = (\<exists>m\<in>set (ps_mounts s). mount_covers m (p, mode))"
| "permits s (Connect_Host h) = (h \<in> set (ps_network_hosts s))"
| "permits s (Deliver_Secret k) = (k \<in> set (ps_secret_profiles s))"
| "permits s (Assume_Identity k) = (k \<in> set (ps_workload_identity_profiles s))"
| "permits s (Use_Resources cpu memory disk processes elapsed) =
     resources_within (ps_resources s) cpu memory disk processes elapsed"
| "permits s (Publish_Kind k) = (k \<in> set (op_kinds (ps_outputs s)))"
| "permits s (Publish_Artifacts n b) =
     (n \<le> op_max_artifact_count (ps_outputs s) \<and> b \<le> op_max_artifact_bytes (ps_outputs s))"
| "permits s (Publish_Reports n b) =
     (n \<le> op_max_report_count (ps_outputs s) \<and> b \<le> op_max_report_bytes (ps_outputs s))"

section \<open>Meets of grants\<close>

lemma mem_map_filter: "z \<in> set (List.map_filter f ys) \<longleftrightarrow> (\<exists>y\<in>set ys. f y = Some z)"
  by (induction ys) (auto simp: List.map_filter_simps split: option.splits)

text \<open>A partial meet of grants that covers exactly what both grants cover.\<close>

locale grant_meet =
  fixes meet :: "'g::linorder \<Rightarrow> 'g \<Rightarrow> 'g option" and covers :: "'g \<Rightarrow> 'r \<Rightarrow> bool" and valid :: "'g \<Rightarrow> bool"
  assumes meet_covers: "valid x \<Longrightarrow> valid y \<Longrightarrow> (\<exists>z. meet x y = Some z \<and> covers z r) \<longleftrightarrow> covers x r \<and> covers y r"
    and meet_valid: "valid x \<Longrightarrow> valid y \<Longrightarrow> meet x y = Some z \<Longrightarrow> valid z"
begin

lemma set_cross: "z \<in> set (cross_intersection meet xs ys) \<longleftrightarrow> (\<exists>x\<in>set xs. \<exists>y\<in>set ys. meet x y = Some z)"
  by (simp only: cross_intersection_def set_bs_of_list set_concat set_map image_image UN_iff bex_simps mem_map_filter)

lemma cross_valid:
  assumes "\<forall>x\<in>set xs. valid x" and "\<forall>y\<in>set ys. valid y" and "z \<in> set (cross_intersection meet xs ys)"
  shows "valid z"
proof -
  obtain x y where "x \<in> set xs" "y \<in> set ys" "meet x y = Some z" using assms(3) unfolding set_cross by blast
  with assms(1,2) show ?thesis by (intro meet_valid [of x y z]) simp_all
qed

lemma cross_covers:
  assumes "\<forall>x\<in>set xs. valid x" and "\<forall>y\<in>set ys. valid y"
  shows "(\<exists>z\<in>set (cross_intersection meet xs ys). covers z r) \<longleftrightarrow>
     (\<exists>x\<in>set xs. covers x r) \<and> (\<exists>y\<in>set ys. covers y r)"
proof -
  have "(\<exists>z\<in>set (cross_intersection meet xs ys). covers z r) \<longleftrightarrow>
      (\<exists>x\<in>set xs. \<exists>y\<in>set ys. \<exists>z. meet x y = Some z \<and> covers z r)"
    by (auto simp: Bex_def set_cross)
  also have "\<dots> \<longleftrightarrow> (\<exists>x\<in>set xs. \<exists>y\<in>set ys. covers x r \<and> covers y r)"
    using assms meet_covers by (intro bex_cong refl) blast
  finally show ?thesis by blast
qed

end

lemma argument_meet:
  "(\<exists>r. argument_intersection p q = Some r \<and> argument_matches r a) \<longleftrightarrow> argument_matches p a \<and> argument_matches q a"
  by (cases p; cases q) auto

lemma arguments_meet:
  "length ps = length qs \<Longrightarrow>
     (\<exists>rs. those (map2 argument_intersection ps qs) = Some rs \<and> list_all2 argument_matches rs as) \<longleftrightarrow>
       list_all2 argument_matches ps as \<and> list_all2 argument_matches qs as"
proof (induction ps qs arbitrary: as rule: list_induct2)
  case (Cons p ps q qs)
  show ?case
  proof (cases as)
    case Nil
    then show ?thesis by (auto split: option.splits)
  next
    case as: (Cons a as')
    have "(\<exists>rs. those (map2 argument_intersection (p # ps) (q # qs)) = Some rs \<and> list_all2 argument_matches rs as) \<longleftrightarrow>
        (\<exists>r. argument_intersection p q = Some r \<and> argument_matches r a) \<and>
        (\<exists>rs. those (map2 argument_intersection ps qs) = Some rs \<and> list_all2 argument_matches rs as')"
      using as by (auto split: option.splits simp: list_all2_Cons2)
    with Cons.IH [of as'] argument_meet [of p q a] as show ?thesis by auto
  qed
qed auto

interpretation commands: grant_meet command_intersection command_covers "\<lambda>_. True"
proof
  fix x y :: CommandPermission and r :: "ImmutableReference \<times> rstr list"
  show "(\<exists>z. command_intersection x y = Some z \<and> command_covers z r) \<longleftrightarrow> command_covers x r \<and> command_covers y r"
  proof (cases "fst x = fst y \<and> length (snd x) = length (snd y)")
    case True
    then show ?thesis
      using arguments_meet [of "snd x" "snd y" "snd r"]
      by (cases x; cases y; cases r) (auto simp: command_intersection_def command_covers_def)
  next
    case False
    then show ?thesis unfolding command_intersection_def command_covers_def
      using list_all2_lengthD [of argument_matches] by (metis option.distinct(1))
  qed
qed simp

section \<open>Paths\<close>

lemma path_contains_alt:
  "path_contains a b \<longleftrightarrow> a = b \<or> a = [47] \<or> (\<exists>s. b = a @ 47 # s)"
proof -
  have "starts_with a b \<and> starts_with [47] (drop (length a) b) \<longleftrightarrow> (\<exists>s. b = a @ 47 # s)"
  proof
    assume h: "starts_with a b \<and> starts_with [47] (drop (length a) b)"
    then obtain s where "drop (length a) b = 47 # s" by (cases "drop (length a) b") (auto simp: starts_with_def)
    moreover have "b = a @ drop (length a) b" using h by (metis append_take_drop_id starts_with_def)
    ultimately show "\<exists>s. b = a @ 47 # s" by auto
  qed (auto simp: starts_with_def)
  then show ?thesis by (simp add: path_contains_def lit_def)
qed

lemma path_contains_trans: "a \<noteq> [] \<Longrightarrow> path_contains a b \<Longrightarrow> path_contains b c \<Longrightarrow> path_contains a c"
  unfolding path_contains_alt by (elim disjE exE) (auto simp: append_eq_Cons_conv)

lemma path_contains_deeper:
  assumes "p = a @ 47 # s" and "p = b @ 47 # t" and "length a \<le> length b"
  shows "path_contains a b"
proof -
  have "a = take (length a) b" using assms by (metis append_eq_conv_conj take_append take_all diff_is_0_eq take0 append_Nil2)
  then obtain us where us: "b = a @ us" by (metis append_take_drop_id)
  then have "47 # s = us @ 47 # t" using assms(1,2) by simp
  with us show ?thesis by (cases us) (auto simp: path_contains_alt)
qed

lemma path_contains_comparable:
  assumes "path_contains a p" and "path_contains b p"
  shows "path_contains a b \<or> path_contains b a"
proof (cases "a = p \<or> b = p \<or> a = [47] \<or> b = [47]")
  case True
  with assms show ?thesis by (auto simp: path_contains_alt)
next
  case False
  with assms(1) obtain s where "p = a @ 47 # s" by (auto simp: path_contains_alt)
  moreover from False assms(2) obtain t where "p = b @ 47 # t" by (auto simp: path_contains_alt)
  ultimately show ?thesis using path_contains_deeper [of p a s b t] path_contains_deeper [of p b t a s] by linarith
qed

interpretation mounts: grant_meet mount_intersection mount_covers "\<lambda>m. fst m \<noteq> []"
proof
  fix x y :: MountPermission and r :: "FactoryPath \<times> MountMode"
  assume valid: "fst x \<noteq> []" "fst y \<noteq> []"
  have "path_contains (fst x) (fst y) \<or> path_contains (fst y) (fst x)"
    if "path_contains (fst x) (fst r)" "path_contains (fst y) (fst r)"
    using path_contains_comparable that by blast
  moreover have "path_contains (fst x) (fst r)" if "path_contains (fst x) (fst y)" "path_contains (fst y) (fst r)"
    using path_contains_trans valid that by blast
  moreover have "path_contains (fst y) (fst r)" if "path_contains (fst y) (fst x)" "path_contains (fst x) (fst r)"
    using path_contains_trans valid that by blast
  ultimately show "(\<exists>z. mount_intersection x y = Some z \<and> mount_covers z r) \<longleftrightarrow> mount_covers x r \<and> mount_covers y r"
    by (auto simp: mount_intersection_def mount_covers_def Let_def split: if_splits)
next
  show "fst x \<noteq> [] \<Longrightarrow> fst y \<noteq> [] \<Longrightarrow> mount_intersection x y = Some z \<Longrightarrow> fst z \<noteq> []" for x y z :: MountPermission
    by (auto simp: mount_intersection_def Let_def split: if_splits)
qed

section \<open>Intersection and comparison\<close>

lemma set_set_intersection [simp]: "set (set_intersection xs ys) = set xs \<inter> set ys"
  by (auto simp: set_intersection_def)

text \<open>Every \<^verbatim>\<open>FactoryPath\<close> is accepted by its constructor, so no root is empty.\<close>

definition rooted :: "FactoryPermissionSet \<Rightarrow> bool" where
  "rooted s \<longleftrightarrow> (\<forall>m\<in>set (ps_mounts s). fst m \<noteq> [])"

lemma rooted_intersection:
  assumes "rooted s" and "rooted t"
  shows "rooted (permission_intersection s t)"
  unfolding rooted_def
proof
  fix m assume "m \<in> set (ps_mounts (permission_intersection s t))"
  then show "fst m \<noteq> []"
    using assms mounts.cross_valid [of "ps_mounts s" "ps_mounts t" m]
    by (simp add: rooted_def permission_intersection_def)
qed

lemma permits_intersection:
  assumes "rooted s" and "rooted t"
  shows "permits (permission_intersection s t) r \<longleftrightarrow> permits s r \<and> permits t r"
proof (cases r)
  case (Run_Command e args)
  then show ?thesis
    using commands.cross_covers [of "ps_commands s" "ps_commands t" "(e, args)"] by (simp add: permission_intersection_def)
next
  case (Access_Path p mode)
  then show ?thesis
    using mounts.cross_covers [of "ps_mounts s" "ps_mounts t" "(p, mode)"] assms
    by (simp add: permission_intersection_def rooted_def)
qed (auto simp: permission_intersection_def resources_within_def resource_intersection_def output_intersection_def)

section \<open>Wire form\<close>

lemma try_map_identity:
  assumes "\<And>x y. f x = Inr y \<Longrightarrow> y = x"
  shows "try_map f xs = Inr ys \<longleftrightarrow> ys = xs \<and> (\<forall>x\<in>set xs. f x = Inr x)"
proof (induction xs arbitrary: ys)
  case (Cons x xs)
  show ?case
  proof (cases "f x")
    case (Inr y)
    with assms [OF Inr] Cons.IH show ?thesis by (auto simp: res_simps)
  qed simp
qed auto

lemma bounded_set_Inr: "bounded_set xs c = Inr ys \<Longrightarrow> ys = bs_of_list xs \<and> length ys \<le> MAX_PERMISSION_ENTRIES_PER_CATEGORY"
  by (auto simp: bounded_set_def split: if_splits)

lemma bs_of_list_idem [simp]: "bs_of_list (bs_of_list xs) = bs_of_list xs"
  by (simp add: bs_of_list_eq)

lemma bounded_set_again: "bounded_set xs c = Inr ys \<Longrightarrow> bounded_set ys c = Inr ys"
  using bounded_set_Inr [of xs c ys] by (auto simp: bounded_set_def split: if_splits)

lemma set_bounded_set: "bounded_set xs c = Inr ys \<Longrightarrow> set ys = set xs"
  using bounded_set_Inr [of xs c ys] by simp

lemma command_try_new_same: "command_permission_try_new (fst c) (snd c) = Inr d \<Longrightarrow> d = c"
  by (auto simp: command_permission_try_new_def split: if_splits)

lemma mount_try_new_same: "map_ok (\<lambda>root. (root, snd m)) (factory_path_new (fst m)) = Inr n \<Longrightarrow> n = m"
  by (cases m) (auto simp: factory_path_new_def res_simps split: if_splits)

lemma network_host_same: "network_host_new h = Inr k \<Longrightarrow> k = h"
  by (auto simp: network_host_new_def Let_def split: if_splits)

lemmas wire_identity =
  try_map_identity [where f = "\<lambda>c. command_permission_try_new (fst c) (snd c)", OF command_try_new_same]
  try_map_identity [where f = "\<lambda>m. map_ok (\<lambda>root. (root, snd m)) (factory_path_new (fst m))", OF mount_try_new_same]
  try_map_identity [where f = network_host_new, OF network_host_same]

lemma resource_limits_new_again:
  "resource_limits_new a b c d e = Inr r \<Longrightarrow>
     resource_limits_new (rl_cpu_millis r) (rl_memory_bytes r) (rl_disk_bytes r) (rl_process_count r) (rl_elapsed_millis r) = Inr r"
  by (auto simp: resource_limits_new_def split: if_splits)

lemma output_permissions_again:
  "output_permissions_try_new a b c d e = Inr p \<Longrightarrow>
     output_permissions_try_new (op_kinds p) (op_max_artifact_count p) (op_max_artifact_bytes p)
       (op_max_report_count p) (op_max_report_bytes p) = Inr p"
  by (auto simp: output_permissions_try_new_def res_simps bounded_set_again split: if_splits)

lemma permission_set_again:
  assumes "permission_set_try_new d = Inr s"
  shows "permission_set_try_new s = Inr s" and "set (ps_commands s) = set (ps_commands d)"
    and "set (ps_mounts s) = set (ps_mounts d)" and "set (ps_network_hosts s) = set (ps_network_hosts d)"
    and "ps_resources s = ps_resources d" and "ps_outputs s = ps_outputs d"
proof -
  from assms obtain executables mounts plugins tools commands hosts secrets identities where parts:
    "\<not> MAX_FACTORY_PROCESS_COUNT < ps_max_descendants d"
    "bounded_set (ps_executables d) PC_ExecutableIdentity = Inr executables"
    "\<not> list_ex (\<lambda>c. fst c \<notin> set executables) (ps_commands d)"
    "bounded_set (ps_mounts d) PC_FilesystemPaths = Inr mounts" "\<not> mounts_overlap mounts"
    "bounded_set (ps_plugins d) PC_PluginIdentity = Inr plugins" "bounded_set (ps_tools d) PC_ToolIdentity = Inr tools"
    "bounded_set (ps_commands d) PC_CommandArguments = Inr commands"
    "bounded_set (ps_network_hosts d) PC_NetworkHosts = Inr hosts"
    "bounded_set (ps_secret_profiles d) PC_SecretProfiles = Inr secrets"
    "bounded_set (ps_workload_identity_profiles d) PC_WorkloadIdentityProfiles = Inr identities"
    and s: "s = \<lparr>ps_plugins = plugins, ps_executables = executables, ps_tools = tools, ps_commands = commands,
        ps_max_descendants = ps_max_descendants d, ps_mounts = mounts, ps_network_hosts = hosts,
        ps_secret_profiles = secrets, ps_workload_identity_profiles = identities,
        ps_resources = ps_resources d, ps_outputs = ps_outputs d\<rparr>"
    by (auto simp: permission_set_try_new_def res_simps split: if_splits)
  note again = parts(2,4,6-11) [THEN bounded_set_again]
  have "\<not> list_ex (\<lambda>c. fst c \<notin> set executables) commands"
    using parts(3) set_bounded_set [OF parts(8)] by (simp add: list_ex_iff)
  then show "permission_set_try_new s = Inr s" using again parts(1,5) by (simp add: permission_set_try_new_def s)
  show "set (ps_commands s) = set (ps_commands d)" using set_bounded_set [OF parts(8)] by (simp add: s)
  show "set (ps_mounts s) = set (ps_mounts d)" using set_bounded_set [OF parts(4)] by (simp add: s)
  show "set (ps_network_hosts s) = set (ps_network_hosts d)" using set_bounded_set [OF parts(9)] by (simp add: s)
  show "ps_resources s = ps_resources d" "ps_outputs s = ps_outputs d" by (simp_all add: s)
qed

lemma from_wire_again:
  assumes "permission_set_from_wire w = Inr s"
  shows "permission_set_from_wire (permission_set_to_wire s) = Inr s"
proof -
  from assms obtain resources outputs where
    ok: "\<forall>c\<in>set (ps_commands w). command_permission_try_new (fst c) (snd c) = Inr c"
      "\<forall>m\<in>set (ps_mounts w). map_ok (\<lambda>root. (root, snd m)) (factory_path_new (fst m)) = Inr m"
      "\<forall>h\<in>set (ps_network_hosts w). network_host_new h = Inr h"
    and r: "resource_limits_new (rl_cpu_millis (ps_resources w)) (rl_memory_bytes (ps_resources w))
       (rl_disk_bytes (ps_resources w)) (rl_process_count (ps_resources w)) (rl_elapsed_millis (ps_resources w)) = Inr resources"
    and p: "output_permissions_try_new (op_kinds (ps_outputs w)) (op_max_artifact_count (ps_outputs w))
       (op_max_artifact_bytes (ps_outputs w)) (op_max_report_count (ps_outputs w)) (op_max_report_bytes (ps_outputs w)) = Inr outputs"
    and s: "permission_set_try_new (w\<lparr>ps_resources := resources, ps_outputs := outputs\<rparr>) = Inr s"
    unfolding permission_set_from_wire_def Let_def by (auto simp: and_then_Inr_iff wire_identity)
  note new = permission_set_again [OF s]
  have ok': "\<forall>c\<in>set (ps_commands s). command_permission_try_new (fst c) (snd c) = Inr c"
      "\<forall>m\<in>set (ps_mounts s). map_ok (\<lambda>root. (root, snd m)) (factory_path_new (fst m)) = Inr m"
      "\<forall>h\<in>set (ps_network_hosts s). network_host_new h = Inr h"
    using ok new(2-4) by simp_all
  have same: "ps_resources s = resources" "ps_outputs s = outputs" using new(5,6) by simp_all
  then have updated: "s\<lparr>ps_resources := resources, ps_outputs := outputs\<rparr> = s" by auto
  from same resource_limits_new_again [OF r] output_permissions_again [OF p] new(1) ok' show ?thesis
    unfolding permission_set_from_wire_def permission_set_to_wire_def Let_def
    by (simp add: wire_identity [THEN iffD2] updated)
qed

section \<open>Digested bytes\<close>

text \<open>The values a set can hold: texts are Unicode and, like every Rust collection, shorter than
  \<open>2 ^ 64\<close> bytes; digests have 32 bytes.\<close>

definition text_ok :: "rstr \<Rightarrow> bool" where
  "text_ok t \<longleftrightarrow> rust_str t \<and> length (as_bytes t) < 2 ^ 64"

fun reference_ok :: "ImmutableReference \<Rightarrow> bool" where
  "reference_ok (i, v, d) \<longleftrightarrow> text_ok i \<and> text_ok v \<and> length d = 32"

fun argument_ok :: "CommandArgumentPattern \<Rightarrow> bool" where
  "argument_ok (Exact t) = text_ok t"
| "argument_ok AnyArgument = True"

definition all_ok :: "('a \<Rightarrow> bool) \<Rightarrow> 'a list \<Rightarrow> bool" where
  "all_ok p xs \<longleftrightarrow> length xs < 2 ^ 64 \<and> (\<forall>x\<in>set xs. p x)"

definition command_ok :: "CommandPermission \<Rightarrow> bool" where
  "command_ok c \<longleftrightarrow> reference_ok (fst c) \<and> all_ok argument_ok (snd c)"

definition permission_values_ok :: "FactoryPermissionSet \<Rightarrow> bool" where
  "permission_values_ok s \<longleftrightarrow>
     all_ok reference_ok (ps_plugins s) \<and> all_ok reference_ok (ps_executables s) \<and> all_ok reference_ok (ps_tools s) \<and>
     all_ok command_ok (ps_commands s) \<and> all_ok (\<lambda>m. text_ok (fst m)) (ps_mounts s) \<and>
     all_ok text_ok (ps_network_hosts s) \<and> all_ok text_ok (ps_secret_profiles s) \<and>
     all_ok text_ok (ps_workload_identity_profiles s) \<and> all_ok text_ok (op_kinds (ps_outputs s))"

lemma counted_all_ok: "prefix_code enc p \<Longrightarrow> prefix_code (counted enc) (all_ok p)"
  unfolding all_ok_def by (rule counted_prefix_code)

interpretation string_code: prefix_code encode_string text_ok
proof
  fix x y r s assume "text_ok x" "text_ok y" "encode_string x @ r = encode_string y @ s"
  then show "x = y \<and> r = s"
    using frame.split [of "as_bytes x" "as_bytes y" r s] as_bytes_inj by (auto simp: text_ok_def encode_string_def)
qed

lemma framed_string: "framed (as_bytes t) = encode_string t"
  by (simp add: encode_string_def)

interpretation reference_code: prefix_code encode_reference reference_ok
proof
  fix x y r s assume ok: "reference_ok x" "reference_ok y" and eq: "encode_reference x @ r = encode_reference y @ s"
  obtain i v d where x: "x = (i, v, d)" by (cases x)
  obtain j w e where y: "y = (j, w, e)" by (cases y)
  have "i = j \<and> v = w \<and> d @ r = e @ s"
    using ok eq unfolding x y by (simp add: encode_reference_def framed_string string_code.split_same)
  then show "x = y \<and> r = s" using ok by (auto simp: x y append_eq_same_length)
qed

interpretation argument_code: prefix_code encode_argument argument_ok
proof
  fix x y r s assume "argument_ok x" "argument_ok y" "encode_argument x @ r = encode_argument y @ s"
  then show "x = y \<and> r = s"
    by (cases x; cases y) (simp_all add: framed_string string_code.split_same)
qed

interpretation arguments_code: prefix_code "counted encode_argument" "all_ok argument_ok"
  by (rule counted_all_ok) (rule argument_code.prefix_code_axioms)

interpretation command_code: prefix_code encode_command command_ok
proof
  fix x y r s assume "command_ok x" "command_ok y" "encode_command x @ r = encode_command y @ s"
  then show "x = y \<and> r = s"
    by (cases x; cases y)
      (simp add: command_ok_def encode_command_def reference_code.split_same arguments_code.split_same)
qed

interpretation mount_code: prefix_code encode_mount "\<lambda>m. text_ok (fst m)"
proof
  fix x y r s assume "text_ok (fst x)" "text_ok (fst y)" "encode_mount x @ r = encode_mount y @ s"
  then show "x = y \<and> r = s"
    by (cases x; cases y)
      (simp add: encode_mount_def framed_string string_code.split_same split: MountMode.splits)
qed

interpretation references_code: prefix_code "counted encode_reference" "all_ok reference_ok"
  by (rule counted_all_ok) (rule reference_code.prefix_code_axioms)

interpretation commands_code: prefix_code "counted encode_command" "all_ok command_ok"
  by (rule counted_all_ok) (rule command_code.prefix_code_axioms)

interpretation mounts_code: prefix_code "counted encode_mount" "all_ok (\<lambda>m. text_ok (fst m))"
  by (rule counted_all_ok) (rule mount_code.prefix_code_axioms)

interpretation strings_code: prefix_code "counted encode_string" "all_ok text_ok"
  by (rule counted_all_ok) (rule string_code.prefix_code_axioms)

lemmas split_codes =
  references_code.split_same commands_code.split_same mounts_code.split_same strings_code.split_same

lemma encode_resources_split: "encode_resources x @ r = encode_resources y @ s \<longleftrightarrow> x = y \<and> r = s"
  by (cases x; cases y) (auto simp: encode_resources_def be_bytes_split simp del: append_eq_append_conv)

lemma encode_outputs_inj:
  "all_ok text_ok (op_kinds x) \<Longrightarrow> all_ok text_ok (op_kinds y) \<Longrightarrow> encode_outputs x = encode_outputs y \<longleftrightarrow> x = y"
  using be_bytes_inj [of 8 "op_max_report_bytes x" "op_max_report_bytes y"]
  by (cases x; cases y)
    (auto simp: encode_outputs_def be_bytes_split strings_code.split_same simp del: append_eq_append_conv)

lemma encode_permissions_inj:
  assumes "permission_values_ok s" and "permission_values_ok t" and "encode_permissions s = encode_permissions t"
  shows "s = t"
  using assms unfolding permission_values_ok_def encode_permissions_def
  by (cases s; cases t)
    (simp add: split_codes be_bytes_split encode_resources_split encode_outputs_inj del: append_eq_append_conv)

section \<open>Resolution\<close>

lemma try_each_first_error:
  "try_each f xs = Inl e \<Longrightarrow> \<exists>ys x zs. xs = ys @ x # zs \<and> (\<forall>y\<in>set ys. f y = Inr ()) \<and> f x = Inl e"
proof (induction xs)
  case (Cons x xs)
  show ?case
  proof (cases "f x")
    case (Inl d)
    with Cons.prems show ?thesis by (intro exI [of _ "[]"]) simp
  next
    case (Inr u)
    with Cons obtain ys y zs where "xs = ys @ y # zs" "\<forall>y\<in>set ys. f y = Inr ()" "f y = Inl e" by auto
    with Inr show ?thesis by (intro exI [of _ "x # ys"]) auto
  qed
qed simp

lemma all_categories_complete: "c \<in> set all_categories"
  by (cases c) (simp_all add: all_categories_def)

definition sample_executable :: ImmutableReference where
  "sample_executable = (lit ''git'', lit ''v1'', replicate 32 7)"

text \<open>
  (C28) Effective Factory permissions are exact. Resolution fails precisely when the local backend cannot
  enforce some category, and then names the first such category; otherwise the resolved set permits a
  request (a plugin, executable, tool or command line, a path access, a host, a profile, an output, an
  amount of any resource) precisely when the Project policy, the configuration, the task envelope and
  the local grants all permit it.
\<close>

theorem permissions_resolved_exact:
  assumes "rooted project" and "rooted configuration" and "rooted task" and "rooted (lc_grants ceiling)"
  shows "case resolve_factory_permissions project configuration task ceiling of
      Inl e \<Rightarrow> \<exists>before c after. all_categories = before @ c # after \<and> set before \<subseteq> lc_enforceable ceiling \<and>
        c \<notin> lc_enforceable ceiling \<and> e = FE_UnenforceablePermission c
    | Inr s \<Rightarrow> lc_enforceable ceiling = UNIV \<and>
        (\<forall>r. permits s r \<longleftrightarrow> permits project r \<and> permits configuration r \<and> permits task r \<and> permits (lc_grants ceiling) r)"
proof (cases "try_each (\<lambda>c. ensure (c \<in> lc_enforceable ceiling) (FE_UnenforceablePermission c)) all_categories")
  case (Inl e)
  obtain before c after where "all_categories = before @ c # after"
    "\<forall>y\<in>set before. ensure (y \<in> lc_enforceable ceiling) (FE_UnenforceablePermission y) = Inr ()"
    "ensure (c \<in> lc_enforceable ceiling) (FE_UnenforceablePermission c) = Inl e"
    using try_each_first_error [OF Inl] by blast
  then have "all_categories = before @ c # after \<and> set before \<subseteq> lc_enforceable ceiling \<and>
      c \<notin> lc_enforceable ceiling \<and> e = FE_UnenforceablePermission c" by (auto simp: res_simps)
  with Inl show ?thesis by (auto simp: resolve_factory_permissions_def)
next
  case (Inr u)
  then have "lc_enforceable ceiling = UNIV" using all_categories_complete by (auto simp: res_simps)
  with Inr assms show ?thesis
    by (simp add: resolve_factory_permissions_def permits_intersection rooted_intersection)
qed

definition sample_permissions :: FactoryPermissionSet where
  "sample_permissions = deny_all\<lparr>ps_executables := [sample_executable],
     ps_commands := [(sample_executable, [Exact (lit ''status''), AnyArgument])], ps_mounts := [(lit ''/src'', ReadWrite)]\<rparr>"

lemma sample_rooted: "rooted sample_permissions"
  by (simp add: rooted_def sample_permissions_def deny_all_def lit_def)

theorem permissions_resolved_exact_witness:
  "\<exists>s. resolve_factory_permissions sample_permissions sample_permissions sample_permissions
       (fully_enforced sample_permissions) = Inr s \<and>
     permits s (Run_Command sample_executable [lit ''status'', lit ''-s'']) \<and>
     \<not> permits s (Run_Command sample_executable [lit ''push'', lit ''-s''])"
proof -
  let ?p = sample_permissions
  obtain s where s: "resolve_factory_permissions ?p ?p ?p (fully_enforced ?p) = Inr s"
    by (simp add: resolve_factory_permissions_def fully_enforced_def all_categories_def)
  have "lc_grants (fully_enforced ?p) = ?p" by (simp add: fully_enforced_def)
  then have "permits s r \<longleftrightarrow> permits ?p r" for r
    using permissions_resolved_exact [of ?p ?p ?p "fully_enforced ?p"] sample_rooted s by simp
  moreover have "permits ?p (Run_Command sample_executable [lit ''status'', lit ''-s''])"
    "\<not> permits ?p (Run_Command sample_executable [lit ''push'', lit ''-s''])"
    by (simp_all add: sample_permissions_def command_covers_def lit_def)
  ultimately show ?thesis using s by blast
qed

text \<open>
  A permission set that is reported as no broader than an enclosing one permits nothing that the
  enclosing set does not permit, and narrowing the elapsed time never adds authority.
\<close>

theorem no_broader_sound:
  assumes "rooted s" and "rooted enclosing" and "is_no_broader_than s enclosing" and "permits (with_elapsed_limit s maximum) r"
  shows "permits s r \<and> permits enclosing r"
proof -
  have narrowed: "permits s r"
    using assms(4) by (cases r) (auto simp: with_elapsed_limit_def resources_within_def)
  then have "permits (permission_intersection s enclosing) r" using assms(3) by (simp add: is_no_broader_than_def)
  with narrowed assms(1,2) show ?thesis by (simp add: permits_intersection)
qed

theorem no_broader_sound_witness:
  "permits sample_permissions (Access_Path (lit ''/src/lib.rs'') ReadWrite) \<and>
   permits (sample_permissions\<lparr>ps_mounts := [(lit ''/'', ReadWrite)]\<rparr>) (Access_Path (lit ''/src/lib.rs'') ReadWrite)"
proof (rule no_broader_sound [of _ _ 1000])
  show "rooted sample_permissions" by (rule sample_rooted)
  show "rooted (sample_permissions\<lparr>ps_mounts := [(lit ''/'', ReadWrite)]\<rparr>)" by (simp add: rooted_def lit_def)
  show "is_no_broader_than sample_permissions (sample_permissions\<lparr>ps_mounts := [(lit ''/'', ReadWrite)]\<rparr>)"
    by code_simp
  show "permits (with_elapsed_limit sample_permissions 1000) (Access_Path (lit ''/src/lib.rs'') ReadWrite)"
    by code_simp
qed

text \<open>The comparison is not reflexive: two accepted command patterns that overlap meet in a third one.\<close>

definition overlapping_permissions :: FactoryPermissionSet where
  "overlapping_permissions = deny_all\<lparr>ps_executables := [sample_executable],
     ps_commands := [(sample_executable, [Exact (lit ''clone''), AnyArgument]), (sample_executable, [AnyArgument, Exact (lit ''origin'')])]\<rparr>"

lemma no_broader_not_reflexive:
  "permission_set_try_new overlapping_permissions = Inr overlapping_permissions \<and>
   \<not> is_no_broader_than overlapping_permissions overlapping_permissions"
  by code_simp

text \<open>The intersection of two accepted sets need not be accepted: 17 and 16 command patterns meet in
  272, more than a category may hold, so the printed intersection cannot be restored.\<close>

definition wide_permissions :: "CommandPermission list \<Rightarrow> FactoryPermissionSet" where
  "wide_permissions cs = deny_all\<lparr>ps_executables := [sample_executable], ps_commands := cs\<rparr>"

definition first_patterns :: "CommandPermission list" where
  "first_patterns = map (\<lambda>i. (sample_executable, [Exact [97 + i], AnyArgument])) [0..<17]"

definition second_patterns :: "CommandPermission list" where
  "second_patterns = map (\<lambda>j. (sample_executable, [AnyArgument, Exact [97 + j]])) [0..<16]"

lemma wide_intersection:
  "permission_intersection (wide_permissions cs) (wide_permissions ds) =
     wide_permissions (cross_intersection command_intersection cs ds)"
  by (simp add: permission_intersection_def wide_permissions_def deny_all_def set_intersection_def
      cross_intersection_def resource_intersection_def output_intersection_def bs_of_list_def)

lemma met_patterns:
  "set (cross_intersection command_intersection first_patterns second_patterns) =
     (\<lambda>(i, j). (sample_executable, [Exact [97 + i], Exact [97 + j]])) ` ({0..<17} \<times> {0..<16})"
proof -
  have meet: "command_intersection (sample_executable, [Exact [97 + i], AnyArgument])
      (sample_executable, [AnyArgument, Exact [97 + j]]) = Some (sample_executable, [Exact [97 + i], Exact [97 + j]])" for i j
    by (simp add: command_intersection_def)
  have mem: "c \<in> set (cross_intersection command_intersection first_patterns second_patterns) \<longleftrightarrow>
      (\<exists>i\<in>{0..<17}. \<exists>j\<in>{0..<16}. c = (sample_executable, [Exact [97 + i], Exact [97 + j]]))" for c
    by (auto simp only: commands.set_cross first_patterns_def second_patterns_def set_map set_upt bex_simps meet option.inject)
  show ?thesis unfolding set_eq_iff mem by force
qed

lemma patterns_wf: "bs_wf first_patterns" "bs_wf second_patterns"
proof -
  have "sorted_wrt (\<lambda>i j. (sample_executable, [Exact [97 + i], AnyArgument]) < (sample_executable, [Exact [97 + j], AnyArgument])) [0..<17]"
    by (rule sorted_wrt_mono_rel [OF _ sorted_wrt_upt]) (simp add: less_prod_def less_CommandArgumentPattern_def)
  then show "bs_wf first_patterns" by (simp add: bs_wf_def first_patterns_def sorted_wrt_map del: upt_rec_numeral)
  have "sorted_wrt (\<lambda>i j. (sample_executable, [AnyArgument, Exact [97 + i]]) < (sample_executable, [AnyArgument, Exact [97 + j]])) [0..<16]"
    by (rule sorted_wrt_mono_rel [OF _ sorted_wrt_upt]) (simp add: less_prod_def less_CommandArgumentPattern_def)
  then show "bs_wf second_patterns" by (simp add: bs_wf_def second_patterns_def sorted_wrt_map del: upt_rec_numeral)
qed

lemma bounded_set_wf: "bs_wf xs \<Longrightarrow> length xs \<le> MAX_PERMISSION_ENTRIES_PER_CATEGORY \<Longrightarrow> bounded_set xs c = Inr xs"
  by (simp add: bounded_set_def bs_of_list_eq bs_wf_def strict_sorted_iff sorted_list_of_set.idem_if_sorted_distinct)

lemma wide_accepted:
  assumes "bs_wf cs" and "\<forall>c\<in>set cs. fst c = sample_executable" and "length cs \<le> MAX_PERMISSION_ENTRIES_PER_CATEGORY"
  shows "permission_set_try_new (wide_permissions cs) = Inr (wide_permissions cs)"
proof -
  have "\<not> list_ex (\<lambda>c. fst c \<notin> set [sample_executable]) cs" using assms(2) by (auto simp: list_ex_iff)
  moreover have "bs_wf [sample_executable]" by (simp add: bs_wf_def)
  ultimately show ?thesis
    using assms(1,3)
    by (simp add: permission_set_try_new_def wide_permissions_def deny_all_def bounded_set_wf MAX_PERMISSION_ENTRIES_PER_CATEGORY_def)
qed

lemma too_many_patterns:
  "MAX_PERMISSION_ENTRIES_PER_CATEGORY < length (cross_intersection command_intersection first_patterns second_patterns)"
proof -
  let ?cs = "cross_intersection command_intersection first_patterns second_patterns"
  have "inj_on (\<lambda>(i, j). (sample_executable, [Exact [97 + i], Exact [97 + j]])) ({0..<17} \<times> {0..<16 :: nat})"
    by (auto simp: inj_on_def)
  then have "card (set ?cs) = 272" unfolding met_patterns by (simp add: card_image)
  moreover have "distinct ?cs" by (simp add: cross_intersection_def bs_wf_distinct)
  ultimately show ?thesis by (simp add: distinct_card MAX_PERMISSION_ENTRIES_PER_CATEGORY_def)
qed

lemma intersection_not_restorable:
  "permission_set_try_new (wide_permissions first_patterns) = Inr (wide_permissions first_patterns) \<and>
   permission_set_try_new (wide_permissions second_patterns) = Inr (wide_permissions second_patterns) \<and>
   permission_set_from_wire (permission_set_to_wire
     (permission_intersection (wide_permissions first_patterns) (wide_permissions second_patterns))) =
     Inl (FE_CollectionLimitExceeded (lit ''permission grants''))"
proof (intro conjI)
  show "permission_set_try_new (wide_permissions first_patterns) = Inr (wide_permissions first_patterns)"
    by (rule wide_accepted [OF patterns_wf(1)]) (auto simp: first_patterns_def MAX_PERMISSION_ENTRIES_PER_CATEGORY_def)
  show "permission_set_try_new (wide_permissions second_patterns) = Inr (wide_permissions second_patterns)"
    by (rule wide_accepted [OF patterns_wf(2)]) (auto simp: second_patterns_def MAX_PERMISSION_ENTRIES_PER_CATEGORY_def)
  let ?cs = "cross_intersection command_intersection first_patterns second_patterns"
  have each: "command_permission_try_new (fst c) (snd c) = Inr c \<and> fst c = sample_executable" if "c \<in> set ?cs" for c
    using that unfolding met_patterns
    by (auto simp: command_permission_try_new_def MAX_COMMAND_ARGUMENTS_def MAX_COMMAND_ARGUMENT_BYTES_def str_len_def utf8_width_def)
  then have "\<forall>c\<in>set ?cs. command_permission_try_new (fst c) (snd c) = Inr c" by blast
  then have commands: "try_map (\<lambda>c. command_permission_try_new (fst c) (snd c)) ?cs = Inr ?cs"
    by (intro wire_identity(1) [THEN iffD2] conjI refl)
  have "\<not> list_ex (\<lambda>c. fst c \<notin> set [sample_executable]) ?cs" using each by (auto simp: list_ex_iff)
  moreover have "bs_wf [sample_executable]" by (simp add: bs_wf_def)
  moreover have "bounded_set ?cs PC_CommandArguments = Inl (FE_CollectionLimitExceeded (lit ''permission grants''))"
    using too_many_patterns by (simp add: bounded_set_def)
  ultimately show "permission_set_from_wire (permission_set_to_wire
     (permission_intersection (wide_permissions first_patterns) (wide_permissions second_patterns))) =
     Inl (FE_CollectionLimitExceeded (lit ''permission grants''))"
    using commands unfolding wide_intersection
    by (simp add: permission_set_from_wire_def permission_set_to_wire_def permission_set_try_new_def
        wide_permissions_def deny_all_def resource_limits_new_def output_permissions_try_new_def bounded_set_wf
        MAX_PERMISSION_ENTRIES_PER_CATEGORY_def)
qed

text \<open>
  (C29) Two gaps of the permission arithmetic: an accepted set whose command patterns overlap is
  reported as broader than itself, and the intersection of two accepted sets can be printed but not
  read back.
\<close>

theorem permission_arithmetic_gaps:
  "(permission_set_try_new overlapping_permissions = Inr overlapping_permissions \<and>
    \<not> is_no_broader_than overlapping_permissions overlapping_permissions) \<and>
   (permission_set_try_new (wide_permissions first_patterns) = Inr (wide_permissions first_patterns) \<and>
    permission_set_try_new (wide_permissions second_patterns) = Inr (wide_permissions second_patterns) \<and>
    permission_set_from_wire (permission_set_to_wire
      (permission_intersection (wide_permissions first_patterns) (wide_permissions second_patterns))) =
      Inl (FE_CollectionLimitExceeded (lit ''permission grants'')))"
  using no_broader_not_reflexive intersection_not_restorable by (rule conjI)

text \<open>
  (C30) A permission set that was accepted from a document prints to a document that restores the same
  set, and its digested bytes identify it: two sets with the same bytes are equal.
\<close>

theorem permission_set_identity:
  assumes "permission_set_from_wire w = Inr s"
  shows "permission_set_from_wire (permission_set_to_wire s) = Inr s \<and>
    (permission_values_ok s \<longrightarrow> permission_values_ok t \<longrightarrow> encode_permissions s = encode_permissions t \<longrightarrow> s = t)"
  using from_wire_again [OF assms] encode_permissions_inj by blast

theorem permission_set_identity_witness:
  "permission_set_from_wire (permission_set_to_wire sample_permissions) = Inr sample_permissions \<and>
   encode_permissions sample_permissions \<noteq> encode_permissions deny_all"
proof -
  have wire: "permission_set_from_wire sample_permissions = Inr sample_permissions" by code_simp
  have "rust_str t \<and> length (as_bytes t) < 2 ^ 64" if "t \<in> set (map lit [''git'', ''v1'', ''status'', ''/src''])" for t
    using that by (auto simp: rust_str_def rust_char_def as_bytes_def utf8_def lit_def)
  then have "permission_values_ok sample_permissions" "permission_values_ok deny_all"
    by (simp_all add: permission_values_ok_def all_ok_def text_ok_def command_ok_def sample_permissions_def
        sample_executable_def deny_all_def)
  moreover have "sample_permissions \<noteq> deny_all" by (simp add: sample_permissions_def deny_all_def)
  ultimately show ?thesis using permission_set_identity [OF wire, of deny_all] by blast
qed

end
