(* ===== verification/Flow_Definition.thy ===== *)
theory Flow_Definition
  imports Factory_Graph_Correct Factory_Permission_Correct "HOL-Library.Option_ord"
begin

text \<open>
  Factory Flow definitions, \<^verbatim>\<open>server/core/octacity-server-factory/src/flow/contract.rs\<close> and
  \<^verbatim>\<open>flow/definition.rs\<close>: outcomes, terminals, transitions, projections, execution policies and admission
  limits; node declarations and definitions with their canonical form; and the pinned closure of the
  definitions a root reaches. The binding documents of a node (task, code, action, gate, inputs, build
  and profile selection) are values of the type \<open>'b\<close>, and the checks that those documents make on
  themselves are the parameters collected in \<open>binding_checks\<close>. The digest of the serialized content is
  the parameter \<open>digest\<close>. A panic is the value \<open>None\<close>.
\<close>

type_synonym 'a checked = "(FactoryError + 'a) option"

section \<open>Contracts\<close>

definition MAX_FLOW_NESTING_DEPTH :: u16 where "MAX_FLOW_NESTING_DEPTH = 16"
definition MAX_FLOW_EXPANDED_NODES :: u32 where "MAX_FLOW_EXPANDED_NODES = 16384"
definition MAX_FLOW_REPEAT_COUNT :: u16 where "MAX_FLOW_REPEAT_COUNT = 32"
definition MAX_FLOW_FAN_OUT :: u16 where "MAX_FLOW_FAN_OUT = 64"
definition MAX_FLOW_CONTEXT_SELECTIONS :: nat where "MAX_FLOW_CONTEXT_SELECTIONS = 64"
definition MAX_FACTORY_ACTIVE_NODES :: u32 where "MAX_FACTORY_ACTIVE_NODES = 1000"
definition MAX_FLOW_DEFINITION_NODES :: nat where "MAX_FLOW_DEFINITION_NODES = 256"
definition MAX_FLOW_DEFINITION_EDGES :: nat where "MAX_FLOW_DEFINITION_EDGES = 1024"
definition MAX_FLOW_DEFINITION_CLOSURE :: nat where "MAX_FLOW_DEFINITION_CLOSURE = 64"

datatype FlowNodeKind = NK_BuildCommand | NK_Reasoning | NK_DecisionSignal | NK_DeterministicGate | NK_FanOut
  | NK_Join | NK_HumanGate | NK_TrustedAction | NK_SubflowCall

datatype FlowOutcomeKind = OK_Success | OK_Failure

text \<open>How an accepted outcome is displayed on its issue, and the slot of the card.\<close>

datatype FlowIssueReferenceKind = IR_Document | IR_Artifact | IR_Review

record FlowIssueReferenceBinding =
  ib_field :: FactoryKey
  ib_kind :: FlowIssueReferenceKind

datatype FlowIssuePresentation =
    IP_TriageV1 "FactoryKey option"
  | IP_SpecificationsV1 "FactoryKey option"
  | IP_ReviewV1 "FactoryKey option"
  | IP_PublicationV1 "FactoryKey option"
  | IP_CustomV1 "FactoryKey option" FactoryText FactoryKey "FlowIssueReferenceBinding list"

record FlowOutcomeDefinition =
  oc_key :: FactoryKey
  oc_kind :: FlowOutcomeKind
  oc_schema :: ImmutableReference
  oc_public_result :: bool
  oc_issue_presentation :: "FlowIssuePresentation option"

record FlowTerminalDefinition =
  tm_key :: FactoryKey
  tm_schema :: ImmutableReference

datatype FlowTransitionTarget = To_Node FactoryKey | To_Terminal FactoryKey

record FlowTransition =
  ft_predecessor :: FactoryKey
  ft_outcome :: FactoryKey
  ft_target :: FlowTransitionTarget
  ft_max_repeats :: u16
  ft_exhausted_terminal :: "FactoryKey option"
  ft_exhausted_node :: "FactoryKey option"
  ft_starts_cycle :: bool

text \<open>The derived order compares the fields in turn.\<close>

fun target_order :: "FlowTransitionTarget \<Rightarrow> nat \<times> FactoryKey" where
  "target_order (To_Node k) = (0, k)"
| "target_order (To_Terminal k) = (1, k)"

definition transition_order ::
  "FlowTransition \<Rightarrow> FactoryKey \<times> FactoryKey \<times> (nat \<times> FactoryKey) \<times> u16 \<times> FactoryKey option \<times> FactoryKey option \<times> bool"
where
  "transition_order t = (ft_predecessor t, ft_outcome t, target_order (ft_target t), ft_max_repeats t,
     ft_exhausted_terminal t, ft_exhausted_node t, ft_starts_cycle t)"

definition transition_new :: "FactoryKey \<Rightarrow> FactoryKey \<Rightarrow> FlowTransitionTarget \<Rightarrow> FlowTransition" where
  "transition_new predecessor outcome target = \<lparr>ft_predecessor = predecessor, ft_outcome = outcome, ft_target = target,
     ft_max_repeats = 0, ft_exhausted_terminal = None, ft_exhausted_node = None, ft_starts_cycle = False\<rparr>"

definition transition_repeated ::
  "FactoryKey \<Rightarrow> FactoryKey \<Rightarrow> FlowTransitionTarget \<Rightarrow> u16 \<Rightarrow> FactoryKey \<Rightarrow> FactoryError + FlowTransition"
where
  "transition_repeated predecessor outcome target max_repeats exhausted_terminal =
     (if max_repeats = 0 \<or> MAX_FLOW_REPEAT_COUNT < max_repeats
      then Inl (FE_InvalidConfiguration (lit ''Flow transition repeat bound''))
      else Inr ((transition_new predecessor outcome target)
        \<lparr>ft_max_repeats := max_repeats, ft_exhausted_terminal := Some exhausted_terminal\<rparr>))"

definition target_node :: "FlowTransition \<Rightarrow> FactoryKey option" where
  "target_node t = (case ft_target t of To_Node k \<Rightarrow> Some k | To_Terminal _ \<Rightarrow> None)"

definition node_targets :: "FlowTransition \<Rightarrow> FactoryKey list" where
  "node_targets t = List.map_filter id [target_node t, ft_exhausted_node t]"

definition is_exhausted :: "FlowTransition \<Rightarrow> nat \<Rightarrow> bool" where
  "is_exhausted t traversals \<longleftrightarrow> 0 < ft_max_repeats t \<and> unat (ft_max_repeats t) < traversals"

definition selected_node :: "FlowTransition \<Rightarrow> nat \<Rightarrow> FactoryKey option" where
  "selected_node t traversals = (if is_exhausted t traversals then ft_exhausted_node t else target_node t)"

text \<open>Projections name a predecessor, an outcome and a successor.\<close>

type_synonym FlowContextProjection = "FactoryKey \<times> FactoryKey \<times> FactoryKey \<times> FactoryKey list"
type_synonym FlowDataProjection = "FactoryKey \<times> FactoryKey \<times> FactoryKey \<times> ImmutableReference"

definition context_projection_new ::
  "FactoryKey \<Rightarrow> FactoryKey \<Rightarrow> FactoryKey \<Rightarrow> FactoryKey list \<Rightarrow> FactoryError + FlowContextProjection"
where
  "context_projection_new predecessor outcome successor selections =
     (if selections = [] \<or> MAX_FLOW_CONTEXT_SELECTIONS < length selections \<or> has_adjacent_duplicate (sort selections)
      then Inl (FE_InvalidConfiguration (lit ''Flow context projection''))
      else Inr (predecessor, outcome, successor, sort selections))"

record 'b FlowExecutionPolicy =
  fx_budget :: BudgetLimit
  fx_permissions :: FactoryPermissionSet
  fx_max_active_nodes :: u16
  fx_verification :: "'b option"

definition execution_policy_new :: "BudgetLimit \<Rightarrow> FactoryPermissionSet \<Rightarrow> u16 \<Rightarrow> FactoryError + 'b FlowExecutionPolicy" where
  "execution_policy_new budget permissions max_active_nodes =
     (if max_active_nodes = 0 \<or> MAX_FACTORY_ACTIVE_NODES < ucast max_active_nodes
      then Inl (FE_InvalidConfiguration (lit ''Flow WIP bound''))
      else Inr \<lparr>fx_budget = budget, fx_permissions = permissions, fx_max_active_nodes = max_active_nodes,
        fx_verification = None\<rparr>)"

record FlowAdmissionLimits =
  fl_max_depth :: u16
  fl_max_expanded_nodes :: u32
  fl_max_repeat_count :: u16
  fl_max_fan_out :: u16
  fl_max_wip :: u16
  fl_budget :: BudgetLimit
  fl_permissions :: FactoryPermissionSet

definition admission_limits_new ::
  "u16 \<Rightarrow> u32 \<Rightarrow> u16 \<Rightarrow> u16 \<Rightarrow> u16 \<Rightarrow> BudgetLimit \<Rightarrow> FactoryPermissionSet \<Rightarrow> FactoryError + FlowAdmissionLimits"
where
  "admission_limits_new depth expanded repeats fan_out wip budget permissions =
     (if depth = 0 \<or> MAX_FLOW_NESTING_DEPTH < depth \<or> expanded = 0 \<or> MAX_FLOW_EXPANDED_NODES < expanded \<or>
         repeats = 0 \<or> MAX_FLOW_REPEAT_COUNT < repeats \<or> fan_out = 0 \<or> MAX_FLOW_FAN_OUT < fan_out \<or>
         wip = 0 \<or> MAX_FACTORY_ACTIVE_NODES < ucast wip
      then Inl (FE_InvalidConfiguration (lit ''Flow admission limits''))
      else Inr \<lparr>fl_max_depth = depth, fl_max_expanded_nodes = expanded, fl_max_repeat_count = repeats,
        fl_max_fan_out = fan_out, fl_max_wip = wip, fl_budget = budget, fl_permissions = permissions\<rparr>)"

definition product_defaults :: "u16 \<Rightarrow> BudgetLimit \<Rightarrow> FactoryPermissionSet \<Rightarrow> FactoryError + FlowAdmissionLimits" where
  "product_defaults wip budget permissions =
     admission_limits_new MAX_FLOW_NESTING_DEPTH MAX_FLOW_EXPANDED_NODES MAX_FLOW_REPEAT_COUNT MAX_FLOW_FAN_OUT
       wip budget permissions"

section \<open>Nodes\<close>

record 'b FlowNodeDefinition =
  fn_key :: FactoryKey
  fn_kind :: FlowNodeKind
  fn_input_schema :: "ImmutableReference option"
  fn_outcomes :: "FlowOutcomeDefinition list"
  fn_budget :: BudgetLimit
  fn_permissions :: FactoryPermissionSet
  fn_required :: bool
  fn_subflow :: "FlowDefinitionRef option"
  fn_task :: "'b option"
  fn_code :: "'b option"
  fn_action :: "'b option"
  fn_phase_pool :: "FactoryKey option"
  fn_gate :: "'b option"
  fn_operator_requests :: "'b option"
  fn_input_binding :: "'b option"
  fn_context_binding :: "'b option"
  fn_build :: "'b option"
  fn_profile_selection :: "'b option"
  fn_accepted_work_outcomes :: "FactoryKey list"
  fn_max_execution_retries :: u16

text \<open>What the binding documents check: the task instructions (and whether they have entries), the
  profile selection, operator request and build bindings against their node, the sources of an input
  binding among the nodes, the predicate of a gate, and whether a gate has a configured program.\<close>

record 'b binding_checks =
  check_task :: "'b \<Rightarrow> FactoryError + bool"
  check_profile_selection :: "'b \<Rightarrow> 'b FlowNodeDefinition \<Rightarrow> FactoryError + unit"
  check_operator_requests :: "'b \<Rightarrow> 'b FlowNodeDefinition \<Rightarrow> FactoryError + unit"
  check_build :: "'b \<Rightarrow> 'b FlowNodeDefinition \<Rightarrow> FactoryError + unit"
  check_sources :: "'b \<Rightarrow> 'b FlowNodeDefinition list \<Rightarrow> FactoryError + unit"
  check_predicate :: "'b FlowNodeDefinition \<Rightarrow> FactoryError + unit"
  configured_program :: "'b FlowNodeDefinition \<Rightarrow> FactoryError + bool"

definition when_some :: "'a option \<Rightarrow> ('a \<Rightarrow> 'e + unit) \<Rightarrow> 'e + unit" where
  "when_some v f = (case v of None \<Rightarrow> Inr () | Some x \<Rightarrow> f x)"

definition node_outcome :: "'b FlowNodeDefinition \<Rightarrow> FactoryKey \<Rightarrow> FlowOutcomeDefinition option" where
  "node_outcome n k = find (\<lambda>c. oc_key c = k) (fn_outcomes n)"

definition validate_declaration :: "'b binding_checks \<Rightarrow> 'b FlowNodeDefinition \<Rightarrow> FactoryError + unit" where
  "validate_declaration checks n =
     and_then (when_some (fn_task n) (\<lambda>task. and_then (check_task checks task) (\<lambda>has_entries.
       ensure (fn_kind n = NK_Reasoning \<and> has_entries) (FE_InvalidConfiguration (lit ''Flow step task''))))) (\<lambda>_.
     and_then (when_some (fn_profile_selection n) (\<lambda>b. check_profile_selection checks b n)) (\<lambda>_.
     and_then (when_some (fn_operator_requests n) (\<lambda>b. check_operator_requests checks b n)) (\<lambda>_.
     if fn_outcomes n = [] \<or> has_adjacent_duplicate (map oc_key (fn_outcomes n))
     then Inl (FE_InvalidConfiguration (lit ''Flow node outcomes''))
     else if (fn_kind n = NK_SubflowCall) \<noteq> (fn_subflow n \<noteq> None)
     then Inl (FE_InvalidReference (lit ''subflow definition''))
     else Inr ())))"

text \<open>The caller-owned fields of a node; the binding fields are empty.\<close>

definition node_definition_new :: "'b binding_checks \<Rightarrow> 'b FlowNodeDefinition \<Rightarrow> FactoryError + 'b FlowNodeDefinition" where
  "node_definition_new checks input =
     (let n = input\<lparr>fn_outcomes := sort_key oc_key (fn_outcomes input), fn_task := None, fn_code := None,
            fn_action := None, fn_phase_pool := None, fn_gate := None, fn_operator_requests := None,
            fn_input_binding := None, fn_context_binding := None, fn_build := None, fn_profile_selection := None,
            fn_accepted_work_outcomes := [], fn_max_execution_retries := 0\<rparr>
      in and_then (validate_declaration checks n) (\<lambda>_. Inr n))"

definition validate_execution_retries :: "'b FlowNodeDefinition \<Rightarrow> FactoryError + unit" where
  "validate_execution_retries n =
     ensure (\<not> (MAX_FACTORY_ATTEMPTS \<le> ucast (fn_max_execution_retries n) \<or>
         fn_max_execution_retries n \<noteq> 0 \<and>
         fn_kind n \<notin> {NK_BuildCommand, NK_Reasoning, NK_DecisionSignal, NK_TrustedAction}))
       (FE_InvalidConfiguration (lit ''Node execution retry bound''))"

definition validate_work_acceptance :: "'b binding_checks \<Rightarrow> 'b FlowNodeDefinition \<Rightarrow> FactoryError + unit" where
  "validate_work_acceptance checks n =
     (if fn_accepted_work_outcomes n = [] then Inr ()
      else if fn_kind n \<noteq> NK_DeterministicGate then Inl (FE_InvalidConfiguration (lit ''Flow Work acceptance outcomes''))
      else and_then (configured_program checks n) (\<lambda>configured.
        ensure (\<not> (\<not> configured \<or> length (fn_outcomes n) < length (fn_accepted_work_outcomes n) \<or>
            list_ex (\<lambda>(a, b). b \<le> a) (windows2 (fn_accepted_work_outcomes n)) \<or>
            list_ex (\<lambda>k. node_outcome n k = None) (fn_accepted_work_outcomes n)))
          (FE_InvalidConfiguration (lit ''Flow Work acceptance outcomes''))))"

definition validate_node_bindings ::
  "'b binding_checks \<Rightarrow> 'b FlowNodeDefinition list \<Rightarrow> 'b FlowNodeDefinition \<Rightarrow> FactoryError + unit"
where
  "validate_node_bindings checks nodes n =
     and_then (validate_declaration checks n) (\<lambda>_.
     and_then (when_some (fn_build n) (\<lambda>b. check_build checks b n)) (\<lambda>_.
     and_then (when_some (fn_input_binding n) (\<lambda>b. check_sources checks b nodes)) (\<lambda>_.
     and_then (check_predicate checks n) (\<lambda>_.
     and_then (validate_execution_retries n) (\<lambda>_.
     validate_work_acceptance checks n)))))"

definition validate_bindings :: "'b binding_checks \<Rightarrow> 'b FlowNodeDefinition list \<Rightarrow> FactoryError + unit" where
  "validate_bindings checks nodes =
     and_then (ensure (\<not> list_ex (\<lambda>n. (fn_input_binding n \<noteq> None \<or> fn_context_binding n \<noteq> None) \<and> fn_input_schema n = None) nodes)
       (FE_InvalidConfiguration (lit ''Flow input binding schema''))) (\<lambda>_.
     and_then (try_each (validate_node_bindings checks nodes) nodes) (\<lambda>_.
     and_then (ensure (\<not> list_ex (\<lambda>n. fn_gate n \<noteq> None \<and> fn_kind n \<noteq> NK_DeterministicGate) nodes)
       (FE_InvalidConfiguration (lit ''Flow gate node kind''))) (\<lambda>_.
     ensure (\<not> list_ex (\<lambda>n. fn_action n \<noteq> None \<and> fn_kind n \<notin> {NK_TrustedAction, NK_DecisionSignal}) nodes)
       (FE_InvalidConfiguration (lit ''Flow action node kind'')))))"

section \<open>Definitions\<close>

record 'b FlowDefinition =
  fd_reference :: FlowDefinitionRef
  fd_input_schema :: "ImmutableReference option"
  fd_entry :: FactoryKey
  fd_nodes :: "'b FlowNodeDefinition list"
  fd_transitions :: "FlowTransition list"
  fd_terminals :: "FlowTerminalDefinition list"
  fd_context_projections :: "FlowContextProjection list"
  fd_data_projections :: "FlowDataProjection list"
  fd_execution :: "'b FlowExecutionPolicy"
  fd_process :: "'b option"
  fd_code_sources :: "'b option"
  fd_name :: "FactoryText option"

text \<open>What the definition-wide documents check: the code sources with the nodes, the verification policy
  with the definition, and the recipients that the process inputs bind to the nodes.\<close>

record 'b definition_checks =
  node_checks :: "'b binding_checks"
  check_code :: "'b option \<Rightarrow> 'b FlowNodeDefinition list \<Rightarrow> FactoryError + unit"
  check_verification :: "'b \<Rightarrow> 'b FlowDefinition \<Rightarrow> FactoryError + unit"
  bind_process :: "'b \<Rightarrow> 'b FlowNodeDefinition list \<Rightarrow> FactoryError + 'b FlowNodeDefinition list"

definition definition_node :: "'b FlowDefinition \<Rightarrow> FactoryKey \<Rightarrow> 'b FlowNodeDefinition option" where
  "definition_node d k = find (\<lambda>n. fn_key n = k) (fd_nodes d)"

definition transition_edges :: "FlowTransition list \<Rightarrow> FactoryKey StructuralEdge list" where
  "transition_edges ts = bs_of_list (concat (map (\<lambda>t. map (Pair (ft_predecessor t)) (node_targets t)) ts))"

definition structural_edges :: "'b FlowDefinition \<Rightarrow> FactoryKey StructuralEdge list" where
  "structural_edges d = transition_edges (fd_transitions d)"

definition validate_size :: "nat \<Rightarrow> nat \<Rightarrow> FactoryError + unit" where
  "validate_size nodes transitions =
     (if nodes = 0 \<or> MAX_FLOW_DEFINITION_NODES < nodes
      then Inl (FE_CollectionLimitExceeded (lit ''Flow Definition nodes''))
      else if MAX_FLOW_DEFINITION_EDGES < transitions
      then Inl (FE_CollectionLimitExceeded (lit ''Flow Definition transitions''))
      else Inr ())"

text \<open>The content that is digested is the definition without the digest of its reference.\<close>

definition content_digest :: "('b FlowDefinition \<Rightarrow> FactoryDigest) \<Rightarrow> 'b FlowDefinition \<Rightarrow> FactoryDigest" where
  "content_digest digest d = digest (d\<lparr>fd_reference := (fst (fd_reference d), fst (snd (fd_reference d)), [])\<rparr>)"

text \<open>\<^verbatim>\<open>FlowDefinition::new\<close>; the reference of the input has no digest yet.\<close>

definition flow_definition_new ::
  "'b definition_checks \<Rightarrow> ('b FlowDefinition \<Rightarrow> FactoryDigest) \<Rightarrow> 'b FlowDefinition \<Rightarrow> 'b FlowDefinition checked"
where
  "flow_definition_new checks digest input =
     also_then (Some (validate_size (length (fd_nodes input)) (length (fd_transitions input)))) (\<lambda>_.
     also_then (Some (validate_bindings (node_checks checks) (fd_nodes input))) (\<lambda>_.
     let d = input\<lparr>fd_nodes := sort_key fn_key (fd_nodes input),
               fd_transitions := sort_key transition_order (fd_transitions input),
               fd_terminals := sort_key tm_key (fd_terminals input),
               fd_context_projections := sort (fd_context_projections input),
               fd_data_projections := sort (fd_data_projections input),
               fd_process := None, fd_code_sources := None, fd_name := None\<rparr>;
         id = fst (fd_reference input); version = fst (snd (fd_reference input))
     in if list_ex (\<lambda>nested. fst nested = id \<and> fst (snd nested) = version) (List.map_filter fn_subflow (fd_nodes d))
        then Some (Inl (FE_InvalidReference (lit ''recursive Flow Definition'')))
        else also_then (map_option (map_err (\<lambda>_. FE_InvalidReference (lit ''Flow Definition graph'')))
            (analyze_factory_flow_graph (map fn_key (fd_nodes d)) (transition_edges (fd_transitions d)) [fd_entry d])) (\<lambda>_.
          let d = d\<lparr>fd_reference := (id, version, content_digest digest d)\<rparr>
          in also_then (Some (when_some (fx_verification (fd_execution d)) (\<lambda>p. check_verification checks p d))) (\<lambda>_.
             Some (Inr d)))))"

definition strictly_ascending :: "('a \<Rightarrow> 'k::linorder) \<Rightarrow> 'a list \<Rightarrow> bool" where
  "strictly_ascending f xs = list_all (\<lambda>(a, b). f a < f b) (windows2 xs)"

definition validate_canonical_form ::
  "'b definition_checks \<Rightarrow> ('b FlowDefinition \<Rightarrow> FactoryDigest) \<Rightarrow> 'b FlowDefinition \<Rightarrow> FactoryError + unit"
where
  "validate_canonical_form checks digest d =
     and_then (validate_bindings (node_checks checks) (fd_nodes d)) (\<lambda>_.
     and_then (check_code checks (fd_code_sources d) (fd_nodes d)) (\<lambda>_.
     and_then (when_some (fx_verification (fd_execution d)) (\<lambda>p. check_verification checks p d)) (\<lambda>_.
     and_then (when_some (fd_process d) (\<lambda>p. and_then (bind_process checks p (fd_nodes d)) (\<lambda>bound.
       ensure (bound = fd_nodes d) (FE_InvalidReference (lit ''Flow process recipients''))))) (\<lambda>_.
     ensure (strictly_ascending fn_key (fd_nodes d) \<and> strictly_ascending transition_order (fd_transitions d) \<and>
         strictly_ascending tm_key (fd_terminals d) \<and> strictly_ascending id (fd_context_projections d) \<and>
         strictly_ascending id (fd_data_projections d) \<and> snd (snd (fd_reference d)) = content_digest digest d)
       (FE_InvalidReference (lit ''canonical Flow Definition''))))))"

section \<open>Pinned closures\<close>

record 'b PinnedFlowDefinitionClosure =
  fc_root :: FlowDefinitionRef
  fc_definitions :: "'b FlowDefinition list"

definition find_definition :: "'b FlowDefinition list \<Rightarrow> FlowDefinitionRef \<Rightarrow> 'b FlowDefinition option" where
  "find_definition ds r = find (\<lambda>d. fd_reference d = r) ds"

definition subflows :: "'b FlowDefinition \<Rightarrow> FlowDefinitionRef list" where
  "subflows d = List.map_filter fn_subflow (fd_nodes d)"

definition invalid_closure :: FactoryError where
  "invalid_closure = FE_InvalidReference (lit ''reachable Flow Definition closure'')"

text \<open>The inner loop over the nested references of one definition.\<close>

primrec pin_nested ::
  "FlowDefinitionRef list \<Rightarrow> FlowDefinitionRef list \<Rightarrow> FlowDefinitionRef list \<times> FlowDefinitionRef list \<Rightarrow>
     FactoryError + FlowDefinitionRef list \<times> FlowDefinitionRef list"
where
  "pin_nested known [] st = Inr st"
| "pin_nested known (r # rs) st =
     (if r \<notin> set known then Inl invalid_closure
      else pin_nested known rs (if r \<in> set (fst st) then st else (bs_insert r (fst st), r # snd st)))"

lemma pin_nested_measure:
  "pin_nested known rs st = Inr st' \<Longrightarrow>
     length (snd st') + card (set known - set (fst st')) \<le> length (snd st) + card (set known - set (fst st))"
proof (induction rs arbitrary: st)
  case (Cons r rs)
  then have r: "r \<in> set known" by (simp split: if_splits)
  show ?case
  proof (cases "r \<in> set (fst st)")
    case False
    have "set known - set (bs_insert r (fst st)) = (set known - set (fst st)) - {r}" by auto
    then have "card (set known - set (bs_insert r (fst st))) = card (set known - set (fst st)) - 1" using r False by simp
    moreover have "0 < card (set known - set (fst st))" using r False by (auto simp: card_gt_0_iff)
    ultimately show ?thesis using Cons.IH [of "(bs_insert r (fst st), r # snd st)"] Cons.prems r False by simp
  qed (use Cons r in simp)
qed simp

text \<open>The loop over the pending references.\<close>

function pin_loop ::
  "'b FlowDefinition list \<Rightarrow> FlowDefinitionRef list \<Rightarrow> FlowDefinitionRef list \<Rightarrow> FlowDefinitionRef list \<Rightarrow>
     FactoryError + FlowDefinitionRef list"
where
  "pin_loop ds known reached pending =
     (case pending of
        [] \<Rightarrow> Inr reached
      | r # rest \<Rightarrow>
          (case find_definition ds r of
             None \<Rightarrow> Inl invalid_closure
           | Some d \<Rightarrow>
               (case pin_nested known (subflows d) (reached, rest) of
                  Inl e \<Rightarrow> Inl e
                | Inr st \<Rightarrow> pin_loop ds known (fst st) (snd st))))"
  by auto

termination
proof (relation "measure (\<lambda>(_, known, reached, pending). length pending + card (set known - set reached))")
  fix ds :: "'b FlowDefinition list" and known reached pending r rest d st
  assume "pending = r # rest" and "pin_nested known (subflows d) (reached, rest) = Inr st"
  with pin_nested_measure [OF this(2)]
  show "((ds, known, fst st, snd st), ds, known, reached, pending)
    \<in> measure (\<lambda>(_, known, reached, pending). length pending + card (set known - set reached))" by (cases st) simp
qed simp

declare pin_loop.simps [simp del]

definition closure_new ::
  "FlowDefinitionRef \<Rightarrow> 'b FlowDefinition list \<Rightarrow> FactoryError + 'b PinnedFlowDefinitionClosure"
where
  "closure_new root definitions =
     (if definitions = [] \<or> MAX_FLOW_DEFINITION_CLOSURE < length definitions
      then Inl (FE_CollectionLimitExceeded (lit ''Flow Definition closure''))
      else
        let ds = sort_key fd_reference definitions; known = bs_of_list (map fd_reference ds)
        in if length known \<noteq> length ds \<or> root \<notin> set known then Inl invalid_closure
           else and_then (pin_loop ds known [root] [root]) (\<lambda>reached.
             if reached \<noteq> known then Inl invalid_closure
             else Inr \<lparr>fc_root = root, fc_definitions = ds\<rparr>))"

end
