(* ===== verification/Flow_Validation.thy ===== *)
theory Flow_Validation
  imports Flow_Definition
begin

text \<open>
  Validation of one Flow definition before admission, \<^verbatim>\<open>validate_definition\<close> and its helpers in
  \<^verbatim>\<open>server/core/octacity-server-factory/src/flow/validation.rs\<close>: ceilings, control graph, routes of every
  outcome, bounded repeats, reachability of a terminal, projections, and the contracts of nested
  definitions.
\<close>

definition invalid :: "string \<Rightarrow> FactoryError" where
  "invalid field = FE_InvalidConfiguration (lit field)"

section \<open>Transitions\<close>

primrec unique_terminals ::
  "FlowTerminalDefinition list \<Rightarrow> (FactoryKey, FlowTerminalDefinition) btree \<Rightarrow>
     FactoryError + (FactoryKey, FlowTerminalDefinition) btree"
where
  "unique_terminals [] m = Inr m"
| "unique_terminals (t # ts) m =
     (if bt_get m (tm_key t) \<noteq> None then Inl (invalid ''Flow terminal outcomes'')
      else unique_terminals ts (bt_insert (tm_key t) t m))"

text \<open>The index of the cyclic component of a node.\<close>

primrec index_components :: "nat \<Rightarrow> FactoryKey list list \<Rightarrow> (FactoryKey, nat) btree \<Rightarrow> (FactoryKey, nat) btree" where
  "index_components i [] m = m"
| "index_components i (c # cs) m = index_components (Suc i) cs (fold (\<lambda>n. bt_insert n i) c m)"

definition same_component :: "(FactoryKey, nat) btree \<Rightarrow> FactoryKey \<Rightarrow> FactoryKey \<Rightarrow> bool" where
  "same_component m a b \<longleftrightarrow> (case bt_get m a of None \<Rightarrow> False | Some i \<Rightarrow> bt_get m b = Some i)"

definition terminal_matches :: "(FactoryKey, FlowTerminalDefinition) btree \<Rightarrow> FactoryKey \<Rightarrow> FlowOutcomeDefinition \<Rightarrow> bool" where
  "terminal_matches terminals k outcome \<longleftrightarrow>
     (case bt_get terminals k of None \<Rightarrow> False | Some t \<Rightarrow> tm_schema t = oc_schema outcome)"

type_synonym route_counts = "(FactoryKey \<times> FactoryKey, nat) btree"

definition count_route :: "FactoryKey \<times> FactoryKey \<Rightarrow> route_counts \<Rightarrow> route_counts" where
  "count_route r m = bt_insert r (or_default 0 (bt_get m r) + 1) m"

definition route_count :: "route_counts \<Rightarrow> FactoryKey \<times> FactoryKey \<Rightarrow> nat" where
  "route_count m r = or_default 0 (bt_get m r)"

definition check_target ::
  "'b FlowDefinition \<Rightarrow> FlowAdmissionLimits \<Rightarrow> (FactoryKey, FlowTerminalDefinition) btree \<Rightarrow> (FactoryKey, nat) btree \<Rightarrow>
     FlowTransition \<Rightarrow> FlowOutcomeDefinition \<Rightarrow> FactoryKey list \<Rightarrow> FactoryError + FactoryKey list"
where
  "check_target d limits terminals cyclic t outcome used =
     (case ft_target t of
        To_Node s \<Rightarrow>
          (case definition_node d s of
             None \<Rightarrow> Inl (invalid ''Flow transition successor'')
           | Some _ \<Rightarrow>
               if 0 < ft_max_repeats t \<and> \<not> same_component cyclic (ft_predecessor t) s \<or>
                  fl_max_repeat_count limits < ft_max_repeats t
               then Inl (invalid ''Flow repeat bound'') else Inr used)
      | To_Terminal k \<Rightarrow>
          if \<not> terminal_matches terminals k outcome \<or> ft_max_repeats t \<noteq> 0 then Inl (invalid ''Flow terminal route'')
          else Inr (bs_insert k used))"

definition check_exhaustion ::
  "'b FlowDefinition \<Rightarrow> (FactoryKey, FlowTerminalDefinition) btree \<Rightarrow> (FactoryKey, nat) btree \<Rightarrow>
     FlowTransition \<Rightarrow> FlowOutcomeDefinition \<Rightarrow> FactoryKey list \<Rightarrow> FactoryError + FactoryKey list"
where
  "check_exhaustion d terminals cyclic t outcome used =
     (case (ft_exhausted_terminal t, ft_exhausted_node t) of
        (None, None) \<Rightarrow> if ft_max_repeats t = 0 then Inr used else Inl (invalid ''Flow repeat exhaustion route'')
      | (Some k, None) \<Rightarrow>
          if ft_max_repeats t = 0 \<or> \<not> terminal_matches terminals k outcome
          then Inl (invalid ''Flow repeat exhaustion route'') else Inr (bs_insert k used)
      | (None, Some n) \<Rightarrow>
          if ft_max_repeats t \<noteq> 0 \<and> \<not> ft_starts_cycle t \<and>
             (case definition_node d n of None \<Rightarrow> False
              | Some gate \<Rightarrow> fn_kind gate = NK_HumanGate \<and> fn_operator_requests gate \<noteq> None) \<and>
             bt_get cyclic n = None
          then Inr used else Inl (invalid ''Flow repeat exhaustion route'')
      | (Some _, Some _) \<Rightarrow> Inl (invalid ''Flow repeat exhaustion route''))"

definition check_transition ::
  "'b FlowDefinition \<Rightarrow> FlowAdmissionLimits \<Rightarrow> (FactoryKey, FlowTerminalDefinition) btree \<Rightarrow> (FactoryKey, nat) btree \<Rightarrow>
     FlowTransition \<Rightarrow> FactoryKey list \<times> route_counts \<Rightarrow> FactoryError + FactoryKey list \<times> route_counts"
where
  "check_transition d limits terminals cyclic t st =
     (if ft_starts_cycle t \<and> (ft_max_repeats t = 0 \<or> target_node t = None)
      then Inl (invalid ''Flow cycle restart bound'')
      else and_then (ok_or (invalid ''Flow transition predecessor'') (definition_node d (ft_predecessor t))) (\<lambda>predecessor.
        and_then (ok_or (invalid ''Flow transition outcome'') (node_outcome predecessor (ft_outcome t))) (\<lambda>outcome.
        and_then (check_target d limits terminals cyclic t outcome (fst st)) (\<lambda>used.
        and_then (check_exhaustion d terminals cyclic t outcome used) (\<lambda>used.
        Inr (used, count_route (ft_predecessor t, ft_outcome t) (snd st)))))))"

primrec check_transitions ::
  "'b FlowDefinition \<Rightarrow> FlowAdmissionLimits \<Rightarrow> (FactoryKey, FlowTerminalDefinition) btree \<Rightarrow> (FactoryKey, nat) btree \<Rightarrow>
     FlowTransition list \<Rightarrow> FactoryKey list \<times> route_counts \<Rightarrow> FactoryError + FactoryKey list \<times> route_counts"
where
  "check_transitions d limits terminals cyclic [] st = Inr st"
| "check_transitions d limits terminals cyclic (t # ts) st =
     and_then (check_transition d limits terminals cyclic t st) (check_transitions d limits terminals cyclic ts)"

definition check_routes ::
  "'b FlowDefinition \<Rightarrow> FlowAdmissionLimits \<Rightarrow> nat \<Rightarrow> FactoryKey list \<times> route_counts \<Rightarrow> FactoryError + unit"
where
  "check_routes d limits terminal_count st =
     (if list_ex (\<lambda>t. ft_starts_cycle t \<and> bt_get (snd st) (ft_predecessor t, ft_outcome t) \<noteq> Some 1) (fd_transitions d)
      then Inl (invalid ''Flow cycle restart routes'')
      else if list_ex (\<lambda>n. list_ex (\<lambda>c.
          let count = route_count (snd st) (fn_key n, oc_key c)
          in count = 0 \<or> fn_kind n \<noteq> NK_FanOut \<and> count \<noteq> 1 \<or> unat (fl_max_fan_out limits) < count) (fn_outcomes n)) (fd_nodes d)
        \<or> length (fst st) \<noteq> terminal_count
      then Inl (invalid ''Flow outcome routes'')
      else Inr ())"

section \<open>Termination of the control graph\<close>

definition unbounded_edges :: "FlowTransition list \<Rightarrow> FactoryKey StructuralEdge list" where
  "unbounded_edges ts = bs_of_list (List.map_filter (\<lambda>t.
     if ft_max_repeats t = 0 then map_option (Pair (ft_predecessor t)) (target_node t) else None) ts)"

definition direct_terminating :: "FlowTransition list \<Rightarrow> FactoryKey list" where
  "direct_terminating ts = bs_of_list (map ft_predecessor
     (filter (\<lambda>t. target_node t = None \<or> ft_exhausted_terminal t \<noteq> None) ts))"

definition terminating_pass :: "FlowTransition list \<Rightarrow> FactoryKey list \<Rightarrow> FactoryKey list" where
  "terminating_pass ts s = fold (\<lambda>t s.
     if list_ex (\<lambda>k. k \<in> set s) (node_targets t) then bs_insert (ft_predecessor t) s else s) ts s"

lemma terminating_pass_Cons:
  "terminating_pass (t # ts) s = terminating_pass ts
     (if list_ex (\<lambda>k. k \<in> set s) (node_targets t) then bs_insert (ft_predecessor t) s else s)"
  by (simp add: terminating_pass_def)

lemma terminating_pass_grows:
  "set s \<subseteq> set (terminating_pass ts s) \<and> set (terminating_pass ts s) \<subseteq> set s \<union> ft_predecessor ` set ts \<and>
     (set (terminating_pass ts s) = set s \<longrightarrow> length (terminating_pass ts s) = length s)"
proof (induction ts arbitrary: s)
  case (Cons t ts)
  let ?s = "if list_ex (\<lambda>k. k \<in> set s) (node_targets t) then bs_insert (ft_predecessor t) s else s"
  have s: "set s \<subseteq> set ?s" "set ?s \<subseteq> set s \<union> {ft_predecessor t}" "set ?s = set s \<longrightarrow> length ?s = length s"
    by (auto simp: bs_insert_def insort_insert_key_def set_insort_key)
  from Cons [of ?s] s show ?case unfolding terminating_pass_Cons by auto
qed (simp add: terminating_pass_def)

function terminating_loop :: "FlowTransition list \<Rightarrow> FactoryKey list \<Rightarrow> FactoryKey list" where
  "terminating_loop ts s =
     (if length (terminating_pass ts s) = length s then terminating_pass ts s
      else terminating_loop ts (terminating_pass ts s))"
  by auto

termination
proof (relation "measure (\<lambda>(ts, s). card (ft_predecessor ` set ts - set s))")
  fix ts s assume grew: "length (terminating_pass ts s) \<noteq> length s"
  have "set (terminating_pass ts s) \<noteq> set s" using grew terminating_pass_grows by metis
  then have "ft_predecessor ` set ts - set (terminating_pass ts s) \<subset> ft_predecessor ` set ts - set s"
    using terminating_pass_grows [of s ts] by auto
  then show "((ts, terminating_pass ts s), ts, s) \<in> measure (\<lambda>(ts, s). card (ft_predecessor ` set ts - set s))"
    by (simp add: psubset_card_mono)
qed simp

declare terminating_loop.simps [simp del]

section \<open>Projections and nested definitions\<close>

type_synonym route = "FactoryKey \<times> FactoryKey \<times> FactoryKey"

definition transition_routes :: "'b FlowDefinition \<Rightarrow> route list" where
  "transition_routes d = bs_of_list (concat (map (\<lambda>t.
     map (\<lambda>s. (ft_predecessor t, ft_outcome t, s)) (node_targets t)) (fd_transitions d)))"

fun check_data_projection :: "'b FlowDefinition \<Rightarrow> route list \<Rightarrow> FlowDataProjection \<Rightarrow> route list \<Rightarrow> FactoryError + route list" where
  "check_data_projection d routes (p, k, s, schema) seen =
     (if (p, k, s) \<notin> set routes \<or> (p, k, s) \<in> set seen then Inl (invalid ''Flow data projection route'')
      else and_then (ok_or (invalid ''Flow data source'') (definition_node d p)) (\<lambda>source.
        and_then (ok_or (invalid ''Flow data outcome'') (node_outcome source k)) (\<lambda>outcome.
        and_then (ok_or (invalid ''Flow data target'') (definition_node d s)) (\<lambda>target.
        if oc_schema outcome \<noteq> schema \<or> fn_input_schema target \<noteq> Some schema
        then Inl (invalid ''Flow data schema compatibility'') else Inr (bs_insert (p, k, s) seen)))))"

primrec check_data_projections ::
  "'b FlowDefinition \<Rightarrow> route list \<Rightarrow> FlowDataProjection list \<Rightarrow> route list \<Rightarrow> FactoryError + route list"
where
  "check_data_projections d routes [] seen = Inr seen"
| "check_data_projections d routes (p # ps) seen =
     and_then (check_data_projection d routes p seen) (check_data_projections d routes ps)"

definition into_node :: "FactoryKey \<Rightarrow> route list \<Rightarrow> nat" where
  "into_node k routes = length (filter (\<lambda>r. snd (snd r) = k) routes)"

definition validate_projections :: "'b FlowDefinition \<Rightarrow> FactoryError + unit" where
  "validate_projections d =
     (let routes = transition_routes d
      in and_then (check_data_projections d routes (fd_data_projections d) []) (\<lambda>data_routes.
         and_then (try_each (\<lambda>(p, k, s, _). ensure ((p, k, s) \<in> set routes) (invalid ''Flow context projection route''))
           (fd_context_projections d)) (\<lambda>_.
         try_each (\<lambda>n.
           if fn_input_schema n \<noteq> None \<and> fn_key n \<noteq> fd_entry d \<and> fn_input_binding n = None then
             ensure (\<not> (into_node (fn_key n) routes = 0 \<or> into_node (fn_key n) routes \<noteq> into_node (fn_key n) data_routes))
               (invalid ''Flow typed input projection'')
           else Inr ()) (fd_nodes d))))"

definition validate_subflow_contract ::
  "ImmutableReference option \<Rightarrow> FlowOutcomeDefinition list \<Rightarrow> BudgetLimit \<Rightarrow> FactoryPermissionSet \<Rightarrow>
     'b FlowDefinition \<Rightarrow> FactoryError + unit"
where
  "validate_subflow_contract input_schema outcomes budget permissions child =
     ensure (\<not> (input_schema \<noteq> fd_input_schema child \<or>
         \<not> fits_within (fx_budget (fd_execution child)) budget \<or>
         \<not> is_no_broader_than (fx_permissions (fd_execution child)) permissions \<or>
         length outcomes \<noteq> length (fd_terminals child) \<or>
         list_ex (\<lambda>c. case find (\<lambda>t. tm_key t = oc_key c) (fd_terminals child) of
             None \<Rightarrow> True | Some t \<Rightarrow> tm_schema t \<noteq> oc_schema c) outcomes))
       (invalid ''Flow subflow contract'')"

definition validate_node_authority ::
  "'b FlowDefinition \<Rightarrow> 'b FlowDefinition list \<Rightarrow> 'b FlowNodeDefinition \<Rightarrow> FactoryError + unit"
where
  "validate_node_authority d definitions n =
     (case first_excess (fn_budget n) (fx_budget (fd_execution d)) of
        Some violation \<Rightarrow> Inl (FE_BudgetCeilingExceeded \<lparr>bv_definition = fd_reference d, bv_node = Some (fn_key n),
          bv_ceiling = BC_Definition, bv_violation = violation\<rparr>)
      | None \<Rightarrow>
          if \<not> is_no_broader_than (fn_permissions n) (fx_permissions (fd_execution d)) then Inl (invalid ''Flow node authority'')
          else case fn_subflow n of
            None \<Rightarrow> Inr ()
          | Some r \<Rightarrow> and_then (ok_or (invalid ''Flow subflow version'') (find_definition definitions r)) (\<lambda>child.
              validate_subflow_contract (fn_input_schema n) (fn_outcomes n) (fn_budget n) (fn_permissions n) child))"

section \<open>Definitions\<close>

definition validate_ceilings ::
  "'b definition_checks \<Rightarrow> ('b FlowDefinition \<Rightarrow> FactoryDigest) \<Rightarrow> FlowAdmissionLimits \<Rightarrow> 'b FlowDefinition \<Rightarrow> FactoryError + unit"
where
  "validate_ceilings checks digest limits d =
     and_then (validate_canonical_form checks digest d) (\<lambda>_.
     case first_excess (fx_budget (fd_execution d)) (fl_budget limits) of
       Some violation \<Rightarrow> Inl (FE_BudgetCeilingExceeded \<lparr>bv_definition = fd_reference d, bv_node = None,
         bv_ceiling = BC_Admission, bv_violation = violation\<rparr>)
     | None \<Rightarrow>
         if fl_max_wip limits < fx_max_active_nodes (fd_execution d)
         then Inl (FE_FlowNodeCapacityExceeded (fd_reference d) (fx_max_active_nodes (fd_execution d)) (fl_max_wip limits))
         else if fd_terminals d = [] \<or> \<not> is_no_broader_than (fx_permissions (fd_execution d)) (fl_permissions limits)
         then Inl (invalid ''Flow definition bounds'')
         else if Option.bind (definition_node d (fd_entry d)) fn_input_schema \<noteq> fd_input_schema d
         then Inl (invalid ''Flow entry input schema'')
         else Inr ())"

definition validate_definition ::
  "'b definition_checks \<Rightarrow> ('b FlowDefinition \<Rightarrow> FactoryDigest) \<Rightarrow> 'b FlowDefinition list \<Rightarrow> FlowAdmissionLimits \<Rightarrow>
     'b FlowDefinition \<Rightarrow> unit checked"
where
  "validate_definition checks digest definitions limits d =
     also_then (Some (validate_ceilings checks digest limits d)) (\<lambda>_.
     also_then (map_option (map_err (\<lambda>_. invalid ''Flow control graph''))
       (analyze_factory_flow_graph (map fn_key (fd_nodes d)) (structural_edges d) [fd_entry d])) (\<lambda>facts.
     if unat (fl_max_fan_out limits) < max_fan_out (sf_measurements facts) \<or>
        list_ex (\<lambda>n. fn_required n \<and> fn_key n \<notin> set (sf_reachable facts)) (fd_nodes d)
     then Some (Inl (invalid ''Flow reachability or fan-out''))
     else also_then (Some (unique_terminals (fd_terminals d) [])) (\<lambda>terminals.
     also_then (Some (check_transitions d limits terminals
       (index_components 0 (sf_cyclic_components facts) []) (fd_transitions d) ([], []))) (\<lambda>st.
     also_then (Some (check_routes d limits (length terminals) st)) (\<lambda>_.
     also_then (map_option (map_err (\<lambda>_. invalid ''Flow unbounded control graph''))
       (analyze_factory_flow_graph (map fn_key (fd_nodes d)) (unbounded_edges (fd_transitions d)) [fd_entry d])) (\<lambda>unbounded.
     if sf_cyclic_components unbounded \<noteq> [] then Some (Inl (invalid ''Flow repeat bound''))
     else
       let terminating = terminating_loop (fd_transitions d) (direct_terminating (fd_transitions d))
       in if list_ex (\<lambda>n. n \<notin> set terminating) (sf_reachable facts) then Some (Inl (invalid ''Flow terminal reachability''))
          else Some (and_then (validate_projections d) (\<lambda>_. try_each (validate_node_authority d definitions) (fd_nodes d)))))))))"

end
