(* ===== verification/Flow_Correct.thy ===== *)
theory Flow_Correct
  imports Flow_Validation
begin

text \<open>
  Correctness of Flow validation: what an accepted definition guarantees, in terms of its control
  relation rather than of the checks, and a bound on the length of every execution path it allows.
\<close>

section \<open>Control relations\<close>

definition flow_nodes :: "'b FlowDefinition \<Rightarrow> FactoryKey set" where
  "flow_nodes d = fn_key ` set (fd_nodes d)"

definition flow_edges :: "'b FlowDefinition \<Rightarrow> (FactoryKey \<times> FactoryKey) set" where
  "flow_edges d = {(ft_predecessor t, s) |t s. t \<in> set (fd_transitions d) \<and> s \<in> set (node_targets t)}"

definition plain_edges :: "'b FlowDefinition \<Rightarrow> (FactoryKey \<times> FactoryKey) set" where
  "plain_edges d = {(ft_predecessor t, s) |t s. t \<in> set (fd_transitions d) \<and> ft_max_repeats t = 0 \<and> target_node t = Some s}"

lemma set_node_targets: "set (node_targets t) = {s. target_node t = Some s \<or> ft_exhausted_node t = Some s}"
  by (auto simp: node_targets_def List.map_filter_simps split: option.splits)

lemma set_structural_edges: "set (structural_edges d) = flow_edges d"
  by (auto simp: structural_edges_def transition_edges_def flow_edges_def)

lemma set_unbounded_edges: "set (unbounded_edges (fd_transitions d)) = plain_edges d"
  by (auto simp: unbounded_edges_def plain_edges_def mem_map_filter split: if_splits)

section \<open>Graph facts of accepted definitions\<close>

lemma analysis_result:
  assumes "map_option (map_err f) (analyze_factory_flow_graph nodes edges roots) = Some (Inr facts)"
  shows "distinct nodes \<and> set edges \<subseteq> set nodes \<times> set nodes \<and> set roots \<subseteq> set nodes \<and>
    exact_facts (set nodes) (set edges) (set roots) facts"
proof -
  have run: "analyze_factory_flow_graph nodes edges roots = Some (Inr facts)"
    using assms by (auto simp: map_err_Inr_iff)
  have none: "structural_issues nodes edges roots = {}"
    using run graph_analyze_issues [of nodes edges roots] by (auto simp: analyze_factory_flow_graph_def)
  have "exact_facts (set nodes) (set edges) (set roots) facts"
    using run graph_analyze_facts [OF none] by (auto simp: analyze_factory_flow_graph_def)
  with no_structural_issues [OF none] show ?thesis by simp
qed

lemma cyclic_nodes:
  assumes facts: "exact_facts N E R f" and "finite N" and NE: "E \<subseteq> N \<times> N"
  shows "(\<exists>c\<in>set (sf_cyclic_components f). n \<in> set c) \<longleftrightarrow> n \<in> N \<and> (n, n) \<in> E\<^sup>+"
proof -
  have fin: "finite (scc E m)" if "m \<in> N" for m using scc_subset [OF NE that] assms(2) by (rule finite_subset)
  have comps: "set (sf_components f) = sorted_list_of_set ` scc E ` N"
    and cyclic: "sf_cyclic_components f = filter (\<lambda>c. \<exists>n\<in>set c. (n, n) \<in> E\<^sup>+) (sf_components f)"
    using facts by (simp_all add: exact_facts_def)
  show ?thesis
  proof
    assume "\<exists>c\<in>set (sf_cyclic_components f). n \<in> set c"
    then obtain m k where m: "m \<in> N" "n \<in> scc E m" "k \<in> scc E m" "(k, k) \<in> E\<^sup>+"
      using fin by (auto simp: cyclic comps)
    have "n \<in> N" using scc_subset [OF NE m(1)] m(2) by blast
    have "k \<in> scc E n" using m(2,3) scc_eq by metis
    then have nk: "(n, k) \<in> E\<^sup>*" "(k, n) \<in> E\<^sup>*" by (auto simp: scc_def mutual_def)
    have "(n, k) \<in> E\<^sup>* O E\<^sup>+" using nk(1) m(4) by blast
    then have "(n, n) \<in> E\<^sup>+" using nk(2) by (metis relcomp.cases rtrancl_trancl_trancl trancl_rtrancl_trancl)
    with \<open>n \<in> N\<close> show "n \<in> N \<and> (n, n) \<in> E\<^sup>+" by simp
  next
    assume n: "n \<in> N \<and> (n, n) \<in> E\<^sup>+"
    then have "sorted_list_of_set (scc E n) \<in> set (sf_cyclic_components f)" "n \<in> set (sorted_list_of_set (scc E n))"
      using fin by (auto simp: cyclic comps)
    then show "\<exists>c\<in>set (sf_cyclic_components f). n \<in> set c" by blast
  qed
qed

lemma index_components_get:
  "(bt_get (index_components i cs m) n = None) \<longleftrightarrow> bt_get m n = None \<and> (\<forall>c\<in>set cs. n \<notin> set c)"
proof -
  have one: "bt_get (fold (\<lambda>n. bt_insert n i) c m) n = None \<longleftrightarrow> bt_get m n = None \<and> n \<notin> set c"
    for i :: nat and c m by (induction c arbitrary: m) (auto simp: bt_get_insert)
  show ?thesis by (induction cs arbitrary: i m) (auto simp: one)
qed

text \<open>If no component of the unbounded graph is cyclic, its edges are acyclic.\<close>

lemma no_cyclic_components:
  assumes "exact_facts N E R f" and "finite N" and "E \<subseteq> N \<times> N" and "sf_cyclic_components f = []"
  shows "acyclic E"
proof (rule acyclicI, intro allI notI)
  fix n assume n: "(n, n) \<in> E\<^sup>+"
  then have "n \<in> N" using assms(3) by (meson SigmaD1 subsetD tranclD)
  with n cyclic_nodes [OF assms(1-3), of n] assms(4) show False by simp
qed

section \<open>Terminating nodes\<close>

definition leads_to_terminal :: "'b FlowDefinition \<Rightarrow> FactoryKey \<Rightarrow> bool" where
  "leads_to_terminal d n \<longleftrightarrow> (\<exists>t\<in>set (fd_transitions d).
     (n, ft_predecessor t) \<in> (flow_edges d)\<^sup>* \<and> (target_node t = None \<or> ft_exhausted_terminal t \<noteq> None))"

lemma terminating_pass_sound:
  "set ts \<subseteq> set (fd_transitions d) \<Longrightarrow> \<forall>n\<in>set s. leads_to_terminal d n \<Longrightarrow>
     \<forall>n\<in>set (terminating_pass ts s). leads_to_terminal d n"
proof (induction ts arbitrary: s)
  case (Cons t ts)
  let ?s = "if list_ex (\<lambda>k. k \<in> set s) (node_targets t) then bs_insert (ft_predecessor t) s else s"
  have "leads_to_terminal d (ft_predecessor t)" if k: "k \<in> set (node_targets t)" "k \<in> set s" for k
  proof -
    have "(ft_predecessor t, k) \<in> flow_edges d" using k(1) Cons.prems(1) by (auto simp: flow_edges_def)
    moreover have "leads_to_terminal d k" using k(2) Cons.prems(2) by blast
    ultimately show ?thesis unfolding leads_to_terminal_def by (meson converse_rtrancl_into_rtrancl)
  qed
  then have "\<forall>n\<in>set ?s. leads_to_terminal d n" using Cons.prems(2) by (auto simp: list_ex_iff)
  with Cons.IH [of ?s] Cons.prems(1) show ?case unfolding terminating_pass_Cons by simp
qed (simp add: terminating_pass_def)

lemma terminating_loop_sound:
  assumes "\<forall>n\<in>set s. leads_to_terminal d n"
  shows "\<forall>n\<in>set (terminating_loop (fd_transitions d) s). leads_to_terminal d n"
  using assms
proof (induction "fd_transitions d" s rule: terminating_loop.induct)
  case (1 s)
  have pass: "\<forall>n\<in>set (terminating_pass (fd_transitions d) s). leads_to_terminal d n"
    by (rule terminating_pass_sound [OF subset_refl 1(2)])
  show ?case using 1(1) [OF _ pass] pass by (subst terminating_loop.simps) simp
qed

lemma direct_terminating_sound: "\<forall>n\<in>set (direct_terminating (fd_transitions d)). leads_to_terminal d n"
  by (auto simp: direct_terminating_def leads_to_terminal_def)

section \<open>Checked transitions\<close>

lemma index_components_component:
  "bt_get (index_components i cs m) n = Some j \<Longrightarrow>
     bt_get m n = Some j \<or> i \<le> j \<and> j - i < length cs \<and> n \<in> set (cs ! (j - i))"
proof (induction cs arbitrary: i m)
  case (Cons c cs)
  have one: "bt_get (fold (\<lambda>n. bt_insert n i) c m) n = (if n \<in> set c then Some i else bt_get m n)"
    by (induction c arbitrary: m) (auto simp: bt_get_insert)
  from Cons.IH [of "Suc i" "fold (\<lambda>n. bt_insert n i) c m"] Cons.prems
  have "bt_get (fold (\<lambda>n. bt_insert n i) c m) n = Some j \<or>
      Suc i \<le> j \<and> j - Suc i < length cs \<and> n \<in> set (cs ! (j - Suc i))" by simp
  then show ?case
  proof (elim disjE conjE)
    assume "bt_get (fold (\<lambda>n. bt_insert n i) c m) n = Some j"
    then show ?thesis unfolding one by (auto split: if_splits)
  next
    assume j: "Suc i \<le> j" "j - Suc i < length cs" "n \<in> set (cs ! (j - Suc i))"
    then have "j - i = Suc (j - Suc i)" by simp
    with j show ?thesis by simp
  qed
qed simp

lemma same_component_mutual:
  assumes facts: "exact_facts N E R f" and "finite N" and NE: "E \<subseteq> N \<times> N"
    and same: "same_component (index_components 0 (sf_cyclic_components f) []) a b"
  shows "(b, a) \<in> E\<^sup>*"
proof -
  let ?m = "index_components 0 (sf_cyclic_components f) []"
  obtain j where "bt_get ?m a = Some j" "bt_get ?m b = Some j" using same by (auto simp: same_component_def split: option.splits)
  then have "j < length (sf_cyclic_components f)" "a \<in> set (sf_cyclic_components f ! j)" "b \<in> set (sf_cyclic_components f ! j)"
    using index_components_component [of 0 "sf_cyclic_components f" "[]" a j]
      index_components_component [of 0 "sf_cyclic_components f" "[]" b j] by (simp_all add: bt_get_def)
  then obtain c where c: "c \<in> set (sf_cyclic_components f)" "a \<in> set c" "b \<in> set c" using nth_mem by blast
  then have "c \<in> sorted_list_of_set ` scc E ` N" using facts by (auto simp: exact_facts_def)
  then obtain m where m: "m \<in> N" "c = sorted_list_of_set (scc E m)" by blast
  have "finite (scc E m)" using scc_subset [OF NE m(1)] assms(2) by (rule finite_subset)
  with c m have "a \<in> scc E m" "b \<in> scc E m" by simp_all
  then show ?thesis unfolding scc_def mutual_def by (auto intro: rtrancl_trans)
qed

lemma unique_terminals_get:
  "unique_terminals ts m = Inr m' \<Longrightarrow> bt_wf m \<Longrightarrow>
     bt_wf m' \<and> (\<forall>k t. bt_get m' k = Some t \<longrightarrow> bt_get m k = Some t \<or> t \<in> set ts \<and> tm_key t = k) \<and>
     set (map fst m') = set (map fst m) \<union> tm_key ` set ts"
proof (induction ts arbitrary: m)
  case (Cons t ts)
  then have new: "bt_get m (tm_key t) = None" by (simp split: if_splits)
  with Cons.prems have "unique_terminals ts (bt_insert (tm_key t) t m) = Inr m'" by simp
  note IH = Cons.IH [OF this bt_wf_insert [OF Cons.prems(2)]]
  have "bt_get m k = Some u \<or> u \<in> set (t # ts) \<and> tm_key u = k" if "bt_get m' k = Some u" for k u
  proof -
    from IH that have "bt_get (bt_insert (tm_key t) t m) k = Some u \<or> u \<in> set ts \<and> tm_key u = k" by blast
    then show ?thesis by (auto simp: bt_get_insert split: if_splits)
  qed
  moreover have "set (map fst m') = set (map fst m) \<union> tm_key ` set (t # ts)" using IH by (auto simp: set_bt_insert simp del: set_map)
  ultimately show ?case using IH by blast
qed simp

text \<open>The terminal of an outcome, by key and schema.\<close>

definition has_terminal :: "'b FlowDefinition \<Rightarrow> FactoryKey \<Rightarrow> FlowOutcomeDefinition \<Rightarrow> bool" where
  "has_terminal d k c \<longleftrightarrow> (\<exists>tm\<in>set (fd_terminals d). tm_key tm = k \<and> tm_schema tm = oc_schema c)"

text \<open>A transition that may be taken: it leaves a declared outcome; it leads to a declared node, and
  repeats only on a cycle and within the limit, or to a terminal of its schema; and a repeated
  transition has one exhaustion route, to a terminal of its schema or to an operator gate that lies on
  no cycle.\<close>

definition transition_sound :: "'b FlowDefinition \<Rightarrow> FlowAdmissionLimits \<Rightarrow> FlowTransition \<Rightarrow> bool" where
  "transition_sound d limits t \<longleftrightarrow> (\<exists>p c. definition_node d (ft_predecessor t) = Some p \<and>
     node_outcome p (ft_outcome t) = Some c \<and>
     (case ft_target t of
        To_Node s \<Rightarrow> s \<in> flow_nodes d \<and> ft_max_repeats t \<le> fl_max_repeat_count limits \<and>
          (0 < ft_max_repeats t \<longrightarrow> (s, ft_predecessor t) \<in> (flow_edges d)\<^sup>*)
      | To_Terminal k \<Rightarrow> has_terminal d k c \<and> ft_max_repeats t = 0) \<and>
     (ft_max_repeats t = 0 \<longleftrightarrow> ft_exhausted_terminal t = None \<and> ft_exhausted_node t = None) \<and>
     (\<forall>k. ft_exhausted_terminal t = Some k \<longrightarrow> has_terminal d k c \<and> ft_exhausted_node t = None) \<and>
     (\<forall>n. ft_exhausted_node t = Some n \<longrightarrow> (n, n) \<notin> (flow_edges d)\<^sup>+ \<and> \<not> ft_starts_cycle t \<and>
        (\<exists>gate. definition_node d n = Some gate \<and> fn_kind gate = NK_HumanGate \<and> fn_operator_requests gate \<noteq> None)) \<and>
     (ft_starts_cycle t \<longrightarrow> 0 < ft_max_repeats t \<and> target_node t \<noteq> None))"

lemma definition_node_in: "definition_node d k = Some n \<Longrightarrow> n \<in> set (fd_nodes d) \<and> fn_key n = k"
  by (auto simp: definition_node_def find_Some_iff)

lemma check_transition_sound:
  assumes ok: "check_transition d limits terminals cyclic t st = Inr st'"
    and terminals: "\<And>k u. bt_get terminals k = Some u \<Longrightarrow> u \<in> set (fd_terminals d) \<and> tm_key u = k"
    and same: "\<And>a b. same_component cyclic a b \<Longrightarrow> (b, a) \<in> (flow_edges d)\<^sup>*"
    and off: "\<And>n. bt_get cyclic n = None \<Longrightarrow> n \<in> flow_nodes d \<Longrightarrow> (n, n) \<notin> (flow_edges d)\<^sup>+"
  shows "transition_sound d limits t \<and> snd st' = count_route (ft_predecessor t, ft_outcome t) (snd st)"
proof -
  have matches: "has_terminal d k c" if "terminal_matches terminals k c" for k c
    using that terminals by (auto simp: terminal_matches_def has_terminal_def split: option.splits)
  have node: "s \<in> flow_nodes d" if "definition_node d s = Some n" for s n
    using definition_node_in [OF that] by (auto simp: flow_nodes_def)
  obtain p c used used' where pc: "definition_node d (ft_predecessor t) = Some p" "node_outcome p (ft_outcome t) = Some c"
    and target: "check_target d limits terminals cyclic t c (fst st) = Inr used"
    and exhaustion: "check_exhaustion d terminals cyclic t c used = Inr used'"
    and st': "st' = (used', count_route (ft_predecessor t, ft_outcome t) (snd st))"
    and restart: "ft_starts_cycle t \<longrightarrow> 0 < ft_max_repeats t \<and> target_node t \<noteq> None"
    using ok by (auto simp: check_transition_def res_simps word_gt_0 split: if_splits)
  have "case ft_target t of
        To_Node s \<Rightarrow> s \<in> flow_nodes d \<and> ft_max_repeats t \<le> fl_max_repeat_count limits \<and>
          (0 < ft_max_repeats t \<longrightarrow> (s, ft_predecessor t) \<in> (flow_edges d)\<^sup>*)
      | To_Terminal k \<Rightarrow> has_terminal d k c \<and> ft_max_repeats t = 0"
    using target matches node same
    by (auto simp: check_target_def not_less split: FlowTransitionTarget.splits option.splits if_splits)
  moreover have "(ft_max_repeats t = 0 \<longleftrightarrow> ft_exhausted_terminal t = None \<and> ft_exhausted_node t = None) \<and>
     (\<forall>k. ft_exhausted_terminal t = Some k \<longrightarrow> has_terminal d k c \<and> ft_exhausted_node t = None) \<and>
     (\<forall>n. ft_exhausted_node t = Some n \<longrightarrow> (n, n) \<notin> (flow_edges d)\<^sup>+ \<and> \<not> ft_starts_cycle t \<and>
        (\<exists>gate. definition_node d n = Some gate \<and> fn_kind gate = NK_HumanGate \<and> fn_operator_requests gate \<noteq> None))"
    using exhaustion matches node off
    by (auto simp: check_exhaustion_def split: option.splits if_splits)
  ultimately show ?thesis using pc restart st' unfolding transition_sound_def by simp
qed

lemma route_count_step: "route_count (count_route r m) r' = route_count m r' + (if r' = r then 1 else 0)"
  by (simp add: route_count_def count_route_def bt_get_insert or_default_def)

lemma route_count_empty: "route_count [] r = 0"
  by (simp add: route_count_def bt_get_def or_default_def)

definition routes_of :: "FlowTransition list \<Rightarrow> FactoryKey \<times> FactoryKey \<Rightarrow> FlowTransition list" where
  "routes_of ts r = filter (\<lambda>t. (ft_predecessor t, ft_outcome t) = r) ts"

lemma check_transitions_sound:
  assumes terminals: "\<And>k u. bt_get terminals k = Some u \<Longrightarrow> u \<in> set (fd_terminals d) \<and> tm_key u = k"
    and same: "\<And>a b. same_component cyclic a b \<Longrightarrow> (b, a) \<in> (flow_edges d)\<^sup>*"
    and off: "\<And>n. bt_get cyclic n = None \<Longrightarrow> n \<in> flow_nodes d \<Longrightarrow> (n, n) \<notin> (flow_edges d)\<^sup>+"
  shows "check_transitions d limits terminals cyclic ts st = Inr st' \<Longrightarrow>
    (\<forall>t\<in>set ts. transition_sound d limits t) \<and>
    (\<forall>r. route_count (snd st') r = route_count (snd st) r + length (routes_of ts r))"
proof (induction ts arbitrary: st)
  case (Cons t ts)
  then obtain st1 where st1: "check_transition d limits terminals cyclic t st = Inr st1"
    "check_transitions d limits terminals cyclic ts st1 = Inr st'" by (auto simp: res_simps)
  have "transition_sound d limits t" "snd st1 = count_route (ft_predecessor t, ft_outcome t) (snd st)"
    using check_transition_sound [OF st1(1) terminals same off] by simp_all
  with Cons.IH [OF st1(2)] show ?case by (auto simp: route_count_step routes_of_def)
qed (simp add: routes_of_def)

section \<open>Accepted definitions\<close>

text \<open>What validation promises of a definition. Its control graph is closed; every transition may be
  taken; every declared outcome has a route, exactly one unless its node fans out, and a restart is the
  only route of its outcome; the transitions without a repeat bound form no cycle; a terminal can be
  reached from everything that is reachable; data is projected between equal schemas; and budgets and
  authority only narrow from the limits over the definition to its nodes and nested definitions.\<close>

definition flow_routes_sound :: "FlowAdmissionLimits \<Rightarrow> 'b FlowDefinition \<Rightarrow> bool" where
  "flow_routes_sound limits d \<longleftrightarrow>
     (\<forall>t\<in>set (fd_transitions d). transition_sound d limits t \<and>
        (ft_starts_cycle t \<longrightarrow> length (routes_of (fd_transitions d) (ft_predecessor t, ft_outcome t)) = 1)) \<and>
     (\<forall>n\<in>set (fd_nodes d). \<forall>c\<in>set (fn_outcomes n).
        let routes = length (routes_of (fd_transitions d) (fn_key n, oc_key c))
        in 1 \<le> routes \<and> (fn_kind n \<noteq> NK_FanOut \<longrightarrow> routes = 1) \<and> routes \<le> unat (fl_max_fan_out limits))"

definition flow_graph_sound :: "FlowAdmissionLimits \<Rightarrow> 'b FlowDefinition \<Rightarrow> bool" where
  "flow_graph_sound limits d \<longleftrightarrow>
     distinct (map fn_key (fd_nodes d)) \<and> fd_entry d \<in> flow_nodes d \<and> flow_edges d \<subseteq> flow_nodes d \<times> flow_nodes d \<and>
     (\<forall>n\<in>set (fd_nodes d). fn_required n \<longrightarrow> (fd_entry d, fn_key n) \<in> (flow_edges d)\<^sup>*) \<and>
     (\<forall>n\<in>flow_nodes d. card (flow_edges d `` {n}) \<le> unat (fl_max_fan_out limits)) \<and>
     acyclic (plain_edges d) \<and>
     (\<forall>n. (fd_entry d, n) \<in> (flow_edges d)\<^sup>* \<longrightarrow> leads_to_terminal d n)"

definition flow_data_sound :: "'b FlowDefinition \<Rightarrow> bool" where
  "flow_data_sound d \<longleftrightarrow> (\<forall>(p, k, s, schema)\<in>set (fd_data_projections d).
     (p, k, s) \<in> set (transition_routes d) \<and>
     (\<exists>source c target. definition_node d p = Some source \<and> node_outcome source k = Some c \<and> oc_schema c = schema \<and>
        definition_node d s = Some target \<and> fn_input_schema target = Some schema))"

definition flow_authority_sound :: "FlowAdmissionLimits \<Rightarrow> 'b FlowDefinition list \<Rightarrow> 'b FlowDefinition \<Rightarrow> bool" where
  "flow_authority_sound limits definitions d \<longleftrightarrow>
     fits_within (fx_budget (fd_execution d)) (fl_budget limits) \<and>
     is_no_broader_than (fx_permissions (fd_execution d)) (fl_permissions limits) \<and>
     fx_max_active_nodes (fd_execution d) \<le> fl_max_wip limits \<and>
     (\<forall>n\<in>set (fd_nodes d). fits_within (fn_budget n) (fx_budget (fd_execution d)) \<and>
        is_no_broader_than (fn_permissions n) (fx_permissions (fd_execution d)) \<and>
        (\<forall>r. fn_subflow n = Some r \<longrightarrow> (\<exists>child\<in>set definitions. fd_reference child = r \<and>
           fits_within (fx_budget (fd_execution child)) (fn_budget n) \<and>
           is_no_broader_than (fx_permissions (fd_execution child)) (fn_permissions n))))"

lemma validate_ceilings_Inr:
  "validate_ceilings checks digest limits d = Inr u \<Longrightarrow>
     fits_within (fx_budget (fd_execution d)) (fl_budget limits) \<and>
     is_no_broader_than (fx_permissions (fd_execution d)) (fl_permissions limits) \<and>
     fx_max_active_nodes (fd_execution d) \<le> fl_max_wip limits"
  by (auto simp: validate_ceilings_def fits_within_def not_less res_simps split: option.splits if_splits)

lemma validate_node_authority_Inr:
  "validate_node_authority d definitions n = Inr u \<Longrightarrow>
     fits_within (fn_budget n) (fx_budget (fd_execution d)) \<and>
     is_no_broader_than (fn_permissions n) (fx_permissions (fd_execution d)) \<and>
     (\<forall>r. fn_subflow n = Some r \<longrightarrow> (\<exists>child\<in>set definitions. fd_reference child = r \<and>
        fits_within (fx_budget (fd_execution child)) (fn_budget n) \<and>
        is_no_broader_than (fx_permissions (fd_execution child)) (fn_permissions n)))"
  by (auto simp: validate_node_authority_def fits_within_def find_definition_def find_Some_iff res_simps
      validate_subflow_contract_def split: option.splits if_splits)

lemma check_data_projections_sound:
  "check_data_projections d routes ps seen = Inr seen' \<Longrightarrow> (p, k, s, schema) \<in> set ps \<Longrightarrow>
     (p, k, s) \<in> set routes \<and>
     (\<exists>source c target. definition_node d p = Some source \<and> node_outcome source k = Some c \<and> oc_schema c = schema \<and>
        definition_node d s = Some target \<and> fn_input_schema target = Some schema)"
proof (induction ps arbitrary: seen)
  case (Cons q ps)
  then obtain seen1 where q: "check_data_projection d routes q seen = Inr seen1"
    "check_data_projections d routes ps seen1 = Inr seen'" by (auto simp: res_simps)
  show ?case
  proof (cases "q = (p, k, s, schema)")
    case True
    with q(1) show ?thesis by (auto simp: res_simps split: if_splits)
  next
    case False
    with Cons.IH [OF q(2)] Cons.prems(2) show ?thesis by simp
  qed
qed simp

lemma analysis_never_panics: "analyze_factory_flow_graph nodes edges roots \<noteq> None"
  using graph_analyze_issues [of nodes edges roots] graph_analyze_facts [of nodes edges roots]
  by (cases "structural_issues nodes edges roots = {}") (auto simp: analyze_factory_flow_graph_def)

lemma validate_definition_total: "validate_definition checks digest definitions limits d \<noteq> None"
  unfolding validate_definition_def Let_def
  by (auto simp: also_then_None_iff analysis_never_panics split: if_splits)

lemma accepted_cases:
  assumes "validate_definition checks digest definitions limits d = Some (Inr ())"
  obtains facts terminals st unbounded data_routes where
    "validate_ceilings checks digest limits d = Inr ()"
    "map_option (map_err (\<lambda>_. invalid ''Flow control graph''))
       (analyze_factory_flow_graph (map fn_key (fd_nodes d)) (structural_edges d) [fd_entry d]) = Some (Inr facts)"
    "max_fan_out (sf_measurements facts) \<le> unat (fl_max_fan_out limits)"
    "\<forall>n\<in>set (fd_nodes d). fn_required n \<longrightarrow> fn_key n \<in> set (sf_reachable facts)"
    "unique_terminals (fd_terminals d) [] = Inr terminals"
    "check_transitions d limits terminals (index_components 0 (sf_cyclic_components facts) [])
       (fd_transitions d) ([], []) = Inr st"
    "check_routes d limits (length terminals) st = Inr ()"
    "map_option (map_err (\<lambda>_. invalid ''Flow unbounded control graph''))
       (analyze_factory_flow_graph (map fn_key (fd_nodes d)) (unbounded_edges (fd_transitions d)) [fd_entry d]) = Some (Inr unbounded)"
    "sf_cyclic_components unbounded = []"
    "\<forall>n\<in>set (sf_reachable facts). n \<in> set (terminating_loop (fd_transitions d) (direct_terminating (fd_transitions d)))"
    "check_data_projections d (transition_routes d) (fd_data_projections d) [] = Inr data_routes"
    "\<forall>n\<in>set (fd_nodes d). validate_node_authority d definitions n = Inr ()"
  using assms unfolding validate_definition_def Let_def
  by (auto simp: also_then_Inr_iff validate_projections_def Let_def res_simps list_ex_iff not_less
      simp del: map_option_eq_Some split: if_splits)

lemma accepted_graph:
  assumes "validate_definition checks digest definitions limits d = Some (Inr ())"
  shows "flow_graph_sound limits d \<and> flow_routes_sound limits d"
proof (rule accepted_cases [OF assms])
  fix facts terminals st unbounded
  let ?N = "flow_nodes d" and ?E = "flow_edges d"
  assume analysis: "map_option (map_err (\<lambda>_. invalid ''Flow control graph''))
       (analyze_factory_flow_graph (map fn_key (fd_nodes d)) (structural_edges d) [fd_entry d]) = Some (Inr facts)"
    and plain: "map_option (map_err (\<lambda>_. invalid ''Flow unbounded control graph''))
       (analyze_factory_flow_graph (map fn_key (fd_nodes d)) (unbounded_edges (fd_transitions d)) [fd_entry d]) = Some (Inr unbounded)"
    and bounds: "max_fan_out (sf_measurements facts) \<le> unat (fl_max_fan_out limits)"
      "\<forall>n\<in>set (fd_nodes d). fn_required n \<longrightarrow> fn_key n \<in> set (sf_reachable facts)" "sf_cyclic_components unbounded = []"
      "\<forall>n\<in>set (sf_reachable facts). n \<in> set (terminating_loop (fd_transitions d) (direct_terminating (fd_transitions d)))"
    and unique: "unique_terminals (fd_terminals d) [] = Inr terminals"
    and transitions: "check_transitions d limits terminals (index_components 0 (sf_cyclic_components facts) [])
       (fd_transitions d) ([], []) = Inr st"
    and routes: "check_routes d limits (length terminals) st = Inr ()"
  have nodes: "set (map fn_key (fd_nodes d)) = ?N" by (simp add: flow_nodes_def)
  have G: "distinct (map fn_key (fd_nodes d))" "?E \<subseteq> ?N \<times> ?N" "fd_entry d \<in> ?N" "exact_facts ?N ?E {fd_entry d} facts"
    using analysis_result [OF analysis] by (simp_all add: nodes set_structural_edges del: set_map)
  have P: "plain_edges d \<subseteq> ?N \<times> ?N" "exact_facts ?N (plain_edges d) {fd_entry d} unbounded"
    using analysis_result [OF plain] by (simp_all add: nodes set_unbounded_edges del: set_map)
  have fin: "finite ?N" by (simp add: flow_nodes_def)
  have "(fd_entry d, n) \<in> ?E\<^sup>* \<Longrightarrow> n \<in> ?N" for n using rtrancl_in_nodes [OF _ G(2,3)] by blast
  then have reach_fin: "finite (?E\<^sup>* `` {fd_entry d})" by (intro finite_subset [OF _ fin]) auto
  have reach: "set (sf_reachable facts) = ?E\<^sup>* `` {fd_entry d}"
    using G(4) reach_fin by (simp add: exact_facts_def)
  have fan: "card (?E `` {n}) \<le> unat (fl_max_fan_out limits)" if "n \<in> ?N" for n
  proof -
    have "card (?E `` {n}) \<le> Max (insert 0 ((\<lambda>n. card (?E `` {n})) ` ?N))" using that fin by (intro Max_ge) auto
    with bounds(1) G(4) show ?thesis by (simp add: exact_facts_def)
  qed
  have "\<forall>n\<in>set (sf_reachable facts). leads_to_terminal d n"
    using bounds(4) terminating_loop_sound [OF direct_terminating_sound] by blast
  then have graph: "flow_graph_sound limits d"
    using G fan bounds(2) no_cyclic_components [OF P(2) fin P(1) bounds(3)] by (simp add: flow_graph_sound_def reach)
  let ?m = "index_components 0 (sf_cyclic_components facts) []"
  have off: "(n, n) \<notin> ?E\<^sup>+" if "bt_get ?m n = None" "n \<in> ?N" for n
    using that cyclic_nodes [OF G(4) fin G(2), of n] by (auto simp: index_components_get)
  have terminal: "u \<in> set (fd_terminals d) \<and> tm_key u = k" if "bt_get terminals k = Some u" for k u
    using unique_terminals_get [OF unique] that by (auto simp: bt_wf_def bt_get_def)
  have sound: "\<forall>t\<in>set (fd_transitions d). transition_sound d limits t"
    and counts: "route_count (snd st) r = length (routes_of (fd_transitions d) r)" for r
    using check_transitions_sound [OF terminal same_component_mutual [OF G(4) fin G(2)] off transitions]
    by (cases r; simp add: route_count_empty)+
  have single: "length (routes_of (fd_transitions d) (ft_predecessor t, ft_outcome t)) = 1"
    if "t \<in> set (fd_transitions d)" "ft_starts_cycle t" for t
  proof -
    have "bt_get (snd st) (ft_predecessor t, ft_outcome t) = Some 1"
      using routes that by (auto simp: check_routes_def list_ex_iff split: if_splits)
    with counts [of "(ft_predecessor t, ft_outcome t)"] show ?thesis by (simp add: route_count_def or_default_def)
  qed
  have "flow_routes_sound limits d"
    using routes sound single unfolding flow_routes_sound_def check_routes_def Let_def counts
    by (auto simp: list_ex_iff not_less Suc_le_eq split: if_splits)
  with graph show ?thesis by simp
qed

section \<open>Execution paths\<close>

text \<open>A path of node executions within one cycle: each step completes a node with an outcome and
  follows one of its transitions. The number of traversals that selects the route counts the
  completions of the same node and outcome; other branches may have added to it.\<close>

primrec flow_path :: "'b FlowDefinition \<Rightarrow> (FactoryKey \<times> FactoryKey) list \<Rightarrow> FactoryKey \<Rightarrow>
  (FlowTransition \<times> nat \<times> FactoryKey) list \<Rightarrow> bool"
where
  "flow_path d past n [] = True"
| "flow_path d past n (step # rest) = (case step of (t, traversals, s) \<Rightarrow>
     t \<in> set (fd_transitions d) \<and> ft_predecessor t = n \<and> \<not> ft_starts_cycle t \<and>
     count_list past (n, ft_outcome t) < traversals \<and> selected_node t traversals = Some s \<and>
     flow_path d ((n, ft_outcome t) # past) s rest)"

definition repeats_within :: "FlowTransition \<times> nat \<times> FactoryKey \<Rightarrow> bool" where
  "repeats_within step \<longleftrightarrow> (case step of (t, k, s) \<Rightarrow> 0 < ft_max_repeats t \<and> \<not> is_exhausted t k)"

lemma flow_path_edge:
  "t \<in> set (fd_transitions d) \<Longrightarrow> selected_node t k = Some s \<Longrightarrow> (ft_predecessor t, s) \<in> flow_edges d"
  by (auto simp: flow_edges_def set_node_targets selected_node_def split: if_splits)

lemma flow_path_reaches:
  "flow_path d past n steps \<Longrightarrow> (t, k, s) \<in> set steps \<Longrightarrow> (n, s) \<in> (flow_edges d)\<^sup>+"
proof (induction steps arbitrary: past n)
  case (Cons step rest)
  obtain t1 k1 s1 where step: "step = (t1, k1, s1)" by (cases step)
  have edge: "(n, s1) \<in> flow_edges d" using Cons.prems(1) flow_path_edge [of t1 d k1 s1] by (simp add: step)
  show ?case
  proof (cases "(t, k, s) = step")
    case False
    with Cons.prems have "(s1, s) \<in> (flow_edges d)\<^sup>+" by (intro Cons.IH) (auto simp: step)
    with edge show ?thesis by (rule trancl_into_trancl2)
  qed (use edge step in auto)
qed simp

text \<open>A transition is repeated at most as often as its bound allows after the completions so far.\<close>

lemma repeats_of_transition:
  "flow_path d past n steps \<Longrightarrow>
     length (filter (\<lambda>step. fst step = t \<and> repeats_within step) steps) \<le>
       unat (ft_max_repeats t) - count_list past (ft_predecessor t, ft_outcome t)"
proof (induction steps arbitrary: past n)
  case (Cons step rest)
  obtain t1 k s where step: "step = (t1, k, s)" by (cases step)
  have path: "ft_predecessor t1 = n" "count_list past (n, ft_outcome t1) < k" "flow_path d ((n, ft_outcome t1) # past) s rest"
    using Cons.prems by (simp_all add: step)
  note IH = Cons.IH [OF path(3)]
  show ?case
  proof (cases "t1 = t \<and> repeats_within step")
    case True
    then have "k \<le> unat (ft_max_repeats t)" by (auto simp: step repeats_within_def is_exhausted_def)
    with True IH path(1,2) show ?thesis by (auto simp: step)
  next
    case False
    then have "filter (\<lambda>step. fst step = t \<and> repeats_within step) (step # rest) =
        filter (\<lambda>step. fst step = t \<and> repeats_within step) rest" by (auto simp: step)
    with IH show ?thesis by (auto split: if_splits)
  qed
qed simp

lemma length_filter_by_key:
  "\<forall>x\<in>set xs. P x \<longrightarrow> f x \<in> A \<Longrightarrow> finite A \<Longrightarrow>
     length (filter P xs) = (\<Sum>a\<in>A. length (filter (\<lambda>x. f x = a \<and> P x) xs))"
proof (induction xs)
  case (Cons x xs)
  have "(\<Sum>a\<in>A. length (filter (\<lambda>y. f y = a \<and> P y) (x # xs))) =
      (\<Sum>a\<in>A. (if a = f x \<and> P x then 1 else 0) + length (filter (\<lambda>y. f y = a \<and> P y) xs))"
    by (rule sum.cong) auto
  also have "\<dots> = (\<Sum>a\<in>A. if a = f x \<and> P x then 1 else 0) + length (filter P xs)"
    using Cons by (simp add: sum.distrib)
  also have "(\<Sum>a\<in>A. if a = f x \<and> P x then 1 else 0 :: nat) = (if P x then 1 else 0)"
    using Cons.prems by (cases "P x") (auto simp: sum.delta)
  finally show ?case by simp
qed simp

definition repeat_budget :: "'b FlowDefinition \<Rightarrow> nat" where
  "repeat_budget d = (\<Sum>t\<in>set (fd_transitions d). unat (ft_max_repeats t))"

lemma flow_path_transition: "flow_path d past n steps \<Longrightarrow> step \<in> set steps \<Longrightarrow> fst step \<in> set (fd_transitions d)"
  by (induction steps arbitrary: past n) (auto split: prod.splits)

lemma repeats_bounded:
  assumes "flow_path d [] n steps"
  shows "length (filter repeats_within steps) \<le> repeat_budget d"
proof -
  have "length (filter repeats_within steps) =
      (\<Sum>t\<in>set (fd_transitions d). length (filter (\<lambda>step. fst step = t \<and> repeats_within step) steps))"
    using flow_path_transition [OF assms] by (intro length_filter_by_key) auto
  also have "\<dots> \<le> repeat_budget d"
    unfolding repeat_budget_def using repeats_of_transition [OF assms] by (intro sum_mono) fastforce
  finally show ?thesis .
qed

text \<open>An exhausted transition leads to a node on no cycle, so the steps that use up no repeat follow an
  acyclic relation.\<close>

definition forward_edges :: "'b FlowDefinition \<Rightarrow> (FactoryKey \<times> FactoryKey) set" where
  "forward_edges d = plain_edges d \<union>
     {(ft_predecessor t, s) | t s. t \<in> set (fd_transitions d) \<and> ft_exhausted_node t = Some s}"

lemma forward_edges_subset: "forward_edges d \<subseteq> flow_edges d"
  by (auto simp: forward_edges_def plain_edges_def flow_edges_def set_node_targets)

lemma acyclic_union_dead:
  assumes "acyclic A" and "A \<union> B \<subseteq> E" and dead: "\<And>a b. (a, b) \<in> B \<Longrightarrow> (b, b) \<notin> E\<^sup>+"
  shows "acyclic (A \<union> B)"
proof (rule ccontr)
  assume "\<not> acyclic (A \<union> B)"
  then obtain x where x: "(x, x) \<in> (A \<union> B)\<^sup>+" by (auto simp: acyclic_def)
  have mono: "(A \<union> B)\<^sup>+ \<subseteq> E\<^sup>+" using assms(2) by (rule trancl_mono_subset)
  have step: "(u, w) \<in> A\<^sup>+" if "(u, w) \<in> (A \<union> B)\<^sup>+" and "(w, u) \<in> E\<^sup>*" for u w
    using that
  proof (induction rule: trancl_induct)
    case (base y)
    then have "(u, y) \<notin> B" using dead [of u y] assms(2) by (meson UnI2 subsetD rtrancl_into_trancl1)
    with base show ?case by auto
  next
    case (step y z)
    have "(y, u) \<in> E\<^sup>*" using step.hyps(2) step.prems assms(2) by (meson converse_rtrancl_into_rtrancl subsetD)
    moreover have "(y, z) \<notin> B"
    proof
      assume "(y, z) \<in> B"
      moreover have "(u, z) \<in> E\<^sup>+" using step.hyps mono by (meson subsetD trancl.trancl_into_trancl)
      ultimately show False using dead [of y z] step.prems by (meson rtrancl_trancl_trancl)
    qed
    ultimately show ?case using step.IH step.hyps(2) by (meson Un_iff trancl.trancl_into_trancl)
  qed
  from step [OF x] assms(1) show False by (auto simp: acyclic_def)
qed

lemma forward_edges_acyclic:
  assumes "flow_graph_sound limits d" and "flow_routes_sound limits d"
  shows "acyclic (forward_edges d)"
  unfolding forward_edges_def
proof (rule acyclic_union_dead [where E = "flow_edges d"])
  show "acyclic (plain_edges d)" using assms(1) by (simp add: flow_graph_sound_def)
  show "(b, b) \<notin> (flow_edges d)\<^sup>+"
    if "(a, b) \<in> {(ft_predecessor t, s) | t s. t \<in> set (fd_transitions d) \<and> ft_exhausted_node t = Some s}" for a b
    using that assms(2) by (auto simp: flow_routes_sound_def transition_sound_def)
qed (use forward_edges_subset in \<open>simp add: forward_edges_def\<close>)

lemma forward_step:
  assumes "t \<in> set (fd_transitions d)" "selected_node t k = Some s" "\<not> repeats_within (t, k, s)"
  shows "(ft_predecessor t, s) \<in> forward_edges d"
proof (cases "is_exhausted t k")
  case True
  with assms show ?thesis by (auto simp: forward_edges_def selected_node_def)
next
  case False
  with assms(3) have "ft_max_repeats t = 0" by (simp add: repeats_within_def word_gt_0)
  with False assms show ?thesis by (auto simp: forward_edges_def plain_edges_def selected_node_def)
qed

lemma acyclic_rank:
  assumes "finite N" and "E \<subseteq> N \<times> N" and "acyclic E"
  obtains rank :: "'a \<Rightarrow> nat" where "\<And>a b. (a, b) \<in> E \<Longrightarrow> rank b < rank a" and "\<And>a. a \<in> N \<Longrightarrow> rank a < card N"
proof
  let ?rank = "\<lambda>a. card (E\<^sup>+ `` {a})"
  have sub: "E\<^sup>+ `` {a} \<subseteq> N" for a using trancl_subset_Sigma [OF assms(2)] by auto
  show "?rank b < ?rank a" if ab: "(a, b) \<in> E" for a b
  proof (rule psubset_card_mono)
    show "finite (E\<^sup>+ `` {a})" using sub assms(1) by (rule finite_subset)
    have "b \<notin> E\<^sup>+ `` {b}" using assms(3) by (auto simp: acyclic_def)
    moreover have "b \<in> E\<^sup>+ `` {a}" "E\<^sup>+ `` {b} \<subseteq> E\<^sup>+ `` {a}" using ab by (auto intro: trancl_into_trancl2)
    ultimately show "E\<^sup>+ `` {b} \<subset> E\<^sup>+ `` {a}" by blast
  qed
  show "?rank a < card N" if "a \<in> N" for a
  proof (rule psubset_card_mono [OF assms(1)])
    have "a \<notin> E\<^sup>+ `` {a}" using assms(3) by (auto simp: acyclic_def)
    with sub [of a] that show "E\<^sup>+ `` {a} \<subset> N" by blast
  qed
qed

lemma flow_path_ranked:
  assumes graph: "flow_graph_sound limits d"
    and rank: "\<And>a b. (a, b) \<in> forward_edges d \<Longrightarrow> rank b < rank a" "\<And>a. a \<in> flow_nodes d \<Longrightarrow> rank a < card (flow_nodes d)"
  shows "flow_path d past n steps \<Longrightarrow>
    length steps \<le> length (filter repeats_within steps) * card (flow_nodes d) + rank n"
proof (induction steps arbitrary: past n)
  case (Cons step rest)
  obtain t k s where step: "step = (t, k, s)" by (cases step)
  have path: "t \<in> set (fd_transitions d)" "ft_predecessor t = n" "selected_node t k = Some s"
    "flow_path d ((n, ft_outcome t) # past) s rest" using Cons.prems by (simp_all add: step)
  note IH = Cons.IH [OF path(4)]
  have "s \<in> flow_nodes d" using flow_path_edge [OF path(1,3)] graph by (auto simp: flow_graph_sound_def)
  then have s: "rank s < card (flow_nodes d)" by (rule rank(2))
  show ?case
  proof (cases "repeats_within step")
    case False
    then have "rank s < rank n" using rank(1) forward_step [OF path(1,3)] path(2) by (auto simp: step)
    with IH False show ?thesis by simp
  qed (use IH s in simp)
qed simp

lemma flow_path_bounded:
  assumes graph: "flow_graph_sound limits d" and routes: "flow_routes_sound limits d" and "n \<in> flow_nodes d"
    and path: "flow_path d [] n steps"
  shows "length steps < (repeat_budget d + 1) * card (flow_nodes d)"
proof -
  have fin: "finite (flow_nodes d)" by (simp add: flow_nodes_def)
  have forward: "forward_edges d \<subseteq> flow_nodes d \<times> flow_nodes d"
    using forward_edges_subset [of d] graph by (auto simp: flow_graph_sound_def)
  obtain rank where rank: "\<And>a b. (a, b) \<in> forward_edges d \<Longrightarrow> rank b < (rank a :: nat)"
    "\<And>a. a \<in> flow_nodes d \<Longrightarrow> rank a < card (flow_nodes d)"
    using acyclic_rank [OF fin forward forward_edges_acyclic [OF graph routes]] by blast
  have "length steps \<le> length (filter repeats_within steps) * card (flow_nodes d) + rank n"
    by (rule flow_path_ranked [where rank = rank, OF graph _ _ path]) (rule rank; assumption)+
  moreover have "length (filter repeats_within steps) * card (flow_nodes d) \<le> repeat_budget d * card (flow_nodes d)"
    using repeats_bounded [OF path] by (rule mult_le_mono1)
  ultimately show ?thesis using rank(2) [OF assms(3)] unfolding distrib_right by linarith
qed

section \<open>A sample\<close>

text \<open>A loop of two nodes that may repeat twice before the flow ends.\<close>

definition sample_schema :: ImmutableReference where
  "sample_schema = (lit ''schema'', lit ''1'', replicate 32 0)"

definition sample_budget :: BudgetLimit where
  "sample_budget = \<lparr>max_attempts = 1, max_elapsed_millis = 1000, max_tokens = 10, max_cost_micro_units = 10, max_output_bytes = 10\<rparr>"

definition sample_outcome :: "string \<Rightarrow> FlowOutcomeDefinition" where
  "sample_outcome k = \<lparr>oc_key = lit k, oc_kind = OK_Success, oc_schema = sample_schema, oc_public_result = False,
     oc_issue_presentation = None\<rparr>"

definition sample_node :: "string \<Rightarrow> string list \<Rightarrow> unit FlowNodeDefinition" where
  "sample_node k outcomes = \<lparr>fn_key = lit k, fn_kind = NK_Reasoning, fn_input_schema = None,
     fn_outcomes = map sample_outcome outcomes, fn_budget = sample_budget, fn_permissions = deny_all, fn_required = True,
     fn_subflow = None, fn_task = None, fn_code = None, fn_action = None, fn_phase_pool = None, fn_gate = None,
     fn_operator_requests = None, fn_input_binding = None, fn_context_binding = None, fn_build = None,
     fn_profile_selection = None, fn_accepted_work_outcomes = [], fn_max_execution_retries = 0\<rparr>"

definition sample_transitions :: "FlowTransition list" where
  "sample_transitions = [transition_new (lit ''a'') (lit ''ok'') (To_Node (lit ''b'')),
     (transition_new (lit ''b'') (lit ''again'') (To_Node (lit ''a'')))
       \<lparr>ft_max_repeats := 2, ft_exhausted_terminal := Some (lit ''end'')\<rparr>,
     transition_new (lit ''b'') (lit ''done'') (To_Terminal (lit ''end''))]"

definition sample_flow :: "unit FlowDefinition" where
  "sample_flow = \<lparr>fd_reference = (0, 1, replicate 32 0), fd_input_schema = None, fd_entry = lit ''a'',
     fd_nodes = [sample_node ''a'' [''ok''], sample_node ''b'' [''again'', ''done'']], fd_transitions = sample_transitions,
     fd_terminals = [\<lparr>tm_key = lit ''end'', tm_schema = sample_schema\<rparr>], fd_context_projections = [], fd_data_projections = [],
     fd_execution = \<lparr>fx_budget = sample_budget, fx_permissions = deny_all, fx_max_active_nodes = 1, fx_verification = None\<rparr>,
     fd_process = None, fd_code_sources = None, fd_name = None\<rparr>"

definition sample_checks :: "unit definition_checks" where
  "sample_checks = \<lparr>node_checks = \<lparr>check_task = \<lambda>_. Inr True, check_profile_selection = \<lambda>_ _. Inr (),
       check_operator_requests = \<lambda>_ _. Inr (), check_build = \<lambda>_ _. Inr (), check_sources = \<lambda>_ _. Inr (),
       check_predicate = \<lambda>_. Inr (), configured_program = \<lambda>_. Inr False\<rparr>,
     check_code = \<lambda>_ _. Inr (), check_verification = \<lambda>_ _. Inr (), bind_process = \<lambda>_ nodes. Inr nodes\<rparr>"

definition sample_limits :: FlowAdmissionLimits where
  "sample_limits = \<lparr>fl_max_depth = 4, fl_max_expanded_nodes = 100, fl_max_repeat_count = 4, fl_max_fan_out = 4, fl_max_wip = 4,
     fl_budget = sample_budget, fl_permissions = deny_all\<rparr>"

definition sample_digest :: "unit FlowDefinition \<Rightarrow> FactoryDigest" where
  "sample_digest d = replicate 32 0"

lemma sample_accepted:
  "validate_definition sample_checks sample_digest [] sample_limits sample_flow = Some (Inr ())"
  by code_simp

section \<open>Properties\<close>

text \<open>
  (C7) Validation of a Flow definition always returns. It accepts only a definition whose control graph
  is closed over its nodes, reaches every required node from the entry, is bounded in its fan-out, has
  no cycle that is free of repeat bounds and leads from every reachable node to a terminal; whose
  outcomes each have their routes, with repeat bounds and exhaustion routes in order; whose data
  projections carry equal schemas along real routes; and whose nodes and nested definitions stay within
  the budget and the permissions of what encloses them.
\<close>

theorem flow_definition_sound:
  "validate_definition checks digest definitions limits d \<noteq> None \<and>
   (validate_definition checks digest definitions limits d = Some (Inr ()) \<longrightarrow>
      flow_graph_sound limits d \<and> flow_routes_sound limits d \<and> flow_data_sound d \<and> flow_authority_sound limits definitions d)"
proof (intro conjI impI)
  assume accepted: "validate_definition checks digest definitions limits d = Some (Inr ())"
  then show "flow_graph_sound limits d" "flow_routes_sound limits d" using accepted_graph by blast+
  from accepted show "flow_data_sound d"
  proof (rule accepted_cases)
    fix data_routes
    assume "check_data_projections d (transition_routes d) (fd_data_projections d) [] = Inr data_routes"
    then show ?thesis unfolding flow_data_sound_def using check_data_projections_sound by blast
  qed
  from accepted show "flow_authority_sound limits definitions d"
  proof (rule accepted_cases)
    assume "validate_ceilings checks digest limits d = Inr ()"
      and "\<forall>n\<in>set (fd_nodes d). validate_node_authority d definitions n = Inr ()"
    then show ?thesis unfolding flow_authority_sound_def
      using validate_ceilings_Inr validate_node_authority_Inr by metis
  qed
qed (rule validate_definition_total)

theorem flow_definition_sound_witness:
  "validate_definition sample_checks sample_digest [] sample_limits sample_flow = Some (Inr ()) \<and>
   flow_graph_sound sample_limits sample_flow \<and> flow_routes_sound sample_limits sample_flow \<and>
   flow_authority_sound sample_limits [] sample_flow"
  using flow_definition_sound [of sample_checks sample_digest "[]" sample_limits sample_flow] sample_accepted by simp

end
