(* ===== verification/Flow_Issue_Slots.thy ===== *)
theory Flow_Issue_Slots
  imports Flow_Correct
begin

text \<open>
  The analysis of issue slots: two outcomes may publish to one slot only on exclusive routes of a closure. The
  closure is expanded into one graph of node entries, outcomes and choices, in which nested definitions continue at
  the outcomes of their caller, and for every shared slot the producers that each vertex can reach are compared.
  The theory models \<^verbatim>\<open>server/core/octacity-server-factory/src/flow/issue_slots.rs\<close> and
  \<^verbatim>\<open>FlowIssuePresentation::slot\<close>, and shows that the analysis of a closure of accepted definitions always
  returns. An index out of range, a missing map entry and the \<open>expect\<close> on a reference are the value \<open>None\<close>.
\<close>

section \<open>Folds of fallible steps\<close>

primrec fold_checked :: "('a \<Rightarrow> 's \<Rightarrow> 's checked) \<Rightarrow> 'a list \<Rightarrow> 's \<Rightarrow> 's checked" where
  "fold_checked f [] st = Some (Inr st)"
| "fold_checked f (x # xs) st = also_then (f x st) (fold_checked f xs)"

primrec fold_option :: "('a \<Rightarrow> 's \<Rightarrow> 's option) \<Rightarrow> 'a list \<Rightarrow> 's \<Rightarrow> 's option" where
  "fold_option f [] st = Some st"
| "fold_option f (x # xs) st = Option.bind (f x st) (fold_option f xs)"

definition vec_get :: "'a list \<Rightarrow> nat \<Rightarrow> 'a option" where
  "vec_get xs i = (if i < length xs then Some (xs ! i) else None)"

definition vec_update :: "nat \<Rightarrow> ('a \<Rightarrow> 'a) \<Rightarrow> 'a list \<Rightarrow> 'a list option" where
  "vec_update i f xs = (if i < length xs then Some (xs[i := f (xs ! i)]) else None)"

section \<open>Slots\<close>

fun declared_slot :: "FlowIssuePresentation \<Rightarrow> FactoryKey option" where
  "declared_slot (IP_TriageV1 s) = s"
| "declared_slot (IP_SpecificationsV1 s) = s"
| "declared_slot (IP_ReviewV1 s) = s"
| "declared_slot (IP_PublicationV1 s) = s"
| "declared_slot (IP_CustomV1 s _ _ _) = s"

text \<open>The slot of the built-in contract of a presentation.\<close>

fun built_in :: "FlowIssuePresentation \<Rightarrow> FactoryKey option" where
  "built_in (IP_TriageV1 _) = Some (lit ''triage'')"
| "built_in (IP_SpecificationsV1 _) = Some (lit ''specifications'')"
| "built_in (IP_ReviewV1 _) = Some (lit ''review'')"
| "built_in (IP_PublicationV1 _) = Some (lit ''publication'')"
| "built_in (IP_CustomV1 _ _ _ _) = None"

definition presentation_slot :: "FlowIssuePresentation \<Rightarrow> uuid \<Rightarrow> FactoryKey \<Rightarrow> FactoryKey \<Rightarrow> FlowIssueSlot" where
  "presentation_slot p flow node outcome =
     (case declared_slot p of
        Some slot \<Rightarrow> Slot_Named slot
      | None \<Rightarrow> (case built_in p of Some slot \<Rightarrow> Slot_Named slot | None \<Rightarrow> Slot_Custom flow node outcome))"

text \<open>The derived order: named slots come first.\<close>

fun slot_order :: "FlowIssueSlot \<Rightarrow> nat \<times> uuid \<times> FactoryKey \<times> FactoryKey" where
  "slot_order (Slot_Named k) = (0, 0, k, [])"
| "slot_order (Slot_Custom f n k) = (1, f, n, k)"

lemma slot_order_inject: "slot_order a = slot_order b \<longleftrightarrow> a = b"
  by (cases a; cases b) auto

instantiation FlowIssueSlot :: linorder
begin

definition less_eq_FlowIssueSlot :: "FlowIssueSlot \<Rightarrow> FlowIssueSlot \<Rightarrow> bool" where
  "a \<le> b \<longleftrightarrow> slot_order a \<le> slot_order b"

definition less_FlowIssueSlot :: "FlowIssueSlot \<Rightarrow> FlowIssueSlot \<Rightarrow> bool" where
  "a < b \<longleftrightarrow> slot_order a < slot_order b"

instance
  by standard (auto simp: less_eq_FlowIssueSlot_def less_FlowIssueSlot_def slot_order_inject simp flip: slot_order_inject)

end

section \<open>The expanded graph\<close>

type_synonym VertexId = nat
type_synonym ProducerId = nat

record Vertex =
  vx_simultaneous :: bool
  vx_scope :: VertexId
  vx_successors :: "VertexId list"

record Graph =
  gr_remaining :: nat
  gr_vertices :: "Vertex list"
  gr_call_outcomes :: "(VertexId \<times> VertexId) list"
  gr_declarations :: "(FlowDefinitionRef \<times> FactoryKey \<times> FactoryKey, ProducerId) btree"
  gr_locations :: "FlowIssueOutcomeLocation list"
  gr_slots :: "(FlowIssueSlot, (VertexId \<times> ProducerId) list) btree"

definition graph_vertex :: "VertexId \<Rightarrow> bool \<Rightarrow> Graph \<Rightarrow> (VertexId \<times> Graph) checked" where
  "graph_vertex scope simultaneous g =
     (if gr_remaining g = 0
      then Some (Inl (invalid ''Flow Issue presentation analysis exceeds the graph safety limit''))
      else Some (Inr (length (gr_vertices g), g\<lparr>gr_remaining := gr_remaining g - 1,
        gr_vertices := gr_vertices g @ [\<lparr>vx_simultaneous = simultaneous, vx_scope = scope, vx_successors = []\<rparr>]\<rparr>)))"

definition set_successors :: "VertexId \<Rightarrow> (VertexId list \<Rightarrow> VertexId list) \<Rightarrow> Graph \<Rightarrow> Graph checked" where
  "set_successors v f g =
     map_option (\<lambda>vs. Inr (g\<lparr>gr_vertices := vs\<rparr>)) (vec_update v (\<lambda>x. x\<lparr>vx_successors := f (vx_successors x)\<rparr>) (gr_vertices g))"

text \<open>One pass of the loop over the nodes that makes their entries.\<close>

definition add_entry ::
  "VertexId \<Rightarrow> 'b FlowNodeDefinition \<Rightarrow> (FactoryKey, VertexId) btree \<times> Graph \<Rightarrow> ((FactoryKey, VertexId) btree \<times> Graph) checked"
where
  "add_entry scope node st =
     also_then (graph_vertex scope False (snd st)) (\<lambda>(v, g). Some (Inr (bt_insert (fn_key node) v (fst st), g)))"

text \<open>A presented outcome: its declaration is numbered on first sight, and its vertex joins the slot.\<close>

definition add_producer ::
  "FlowDefinitionRef \<Rightarrow> FactoryKey \<Rightarrow> nat \<Rightarrow> FlowOutcomeDefinition \<Rightarrow> VertexId \<Rightarrow> FlowIssuePresentation \<Rightarrow> Graph \<Rightarrow> Graph"
where
  "add_producer r node outcome_index c v p g =
     (let key = (r, node, oc_key c); slot = presentation_slot p (fst r) node (oc_key c);
          (producer, g) = (case bt_get (gr_declarations g) key of
             Some known \<Rightarrow> (known, g)
           | None \<Rightarrow> (length (gr_locations g), g\<lparr>gr_declarations := bt_insert key (length (gr_locations g)) (gr_declarations g),
               gr_locations := gr_locations g @ [\<lparr>il_definition = r, il_node = node, il_outcome = oc_key c, il_outcome_index = outcome_index\<rparr>]\<rparr>));
          listed = (case bt_get (gr_slots g) slot of None \<Rightarrow> [] | Some ps \<Rightarrow> ps)
      in g\<lparr>gr_slots := bt_insert slot (listed @ [(v, producer)]) (gr_slots g)\<rparr>)"

type_synonym outcome_vertices = "(FactoryKey \<times> FactoryKey, VertexId) btree"

definition add_outcome ::
  "FlowDefinitionRef \<Rightarrow> VertexId \<Rightarrow> FactoryKey \<Rightarrow> nat \<times> FlowOutcomeDefinition \<Rightarrow>
     (FactoryKey, VertexId) btree \<times> outcome_vertices \<times> Graph \<Rightarrow> ((FactoryKey, VertexId) btree \<times> outcome_vertices \<times> Graph) checked"
where
  "add_outcome r scope node indexed st = (case indexed of (outcome_index, c) \<Rightarrow> case st of (exits, outcomes, g) \<Rightarrow>
     also_then (graph_vertex scope True g) (\<lambda>(v, g).
     Some (Inr (bt_insert (oc_key c) v exits, bt_insert (node, oc_key c) v outcomes,
       case oc_issue_presentation c of None \<Rightarrow> g | Some p \<Rightarrow> add_producer r node outcome_index c v p g))))"

text \<open>The body of the loop over the nodes; \<open>expand\<close> is the recursive call.\<close>

definition expand_node ::
  "(FlowDefinitionRef \<Rightarrow> (FactoryKey, VertexId) btree \<Rightarrow> Graph \<Rightarrow> (VertexId \<times> Graph) checked) \<Rightarrow> FlowDefinitionRef \<Rightarrow> VertexId \<Rightarrow>
     (FactoryKey, VertexId) btree \<Rightarrow> 'b FlowNodeDefinition \<Rightarrow> outcome_vertices \<times> Graph \<Rightarrow> (outcome_vertices \<times> Graph) checked"
where
  "expand_node expand r scope entries node st = (case st of (outcomes, g) \<Rightarrow>
     also_then (fold_checked (add_outcome r scope (fn_key node)) (enumerate 0 (fn_outcomes node)) ([], outcomes, g))
       (\<lambda>(exits, outcomes, g).
     case bt_get entries (fn_key node) of
       None \<Rightarrow> None
     | Some call \<Rightarrow>
         also_then (case fn_subflow node of
             Some child \<Rightarrow>
               also_then (expand child exits (g\<lparr>gr_call_outcomes := gr_call_outcomes g @ map (Pair call) (bt_values exits)\<rparr>))
                 (\<lambda>(entry, g). Some (Inr ([entry], g)))
           | None \<Rightarrow> Some (Inr (bt_values exits, g))) (\<lambda>(successors, g).
         also_then (set_successors call (\<lambda>_. successors) g) (\<lambda>g. Some (Inr (outcomes, g))))))"

text \<open>Where a transition can continue: its target, and where it goes when it is exhausted.\<close>

definition route_successors ::
  "(FactoryKey, VertexId) btree \<Rightarrow> (FactoryKey, VertexId) btree \<Rightarrow> FlowTransition \<Rightarrow> VertexId list option"
where
  "route_successors entries returned t =
     Option.bind (case ft_target t of
         To_Node node \<Rightarrow> map_option (\<lambda>v. [v]) (bt_get entries node)
       | To_Terminal terminal \<Rightarrow> Some (case bt_get returned terminal of None \<Rightarrow> [] | Some v \<Rightarrow> [v])) (\<lambda>target.
     Option.bind (case ft_exhausted_node t of
         Some node \<Rightarrow> map_option (\<lambda>v. [v]) (bt_get entries node)
       | None \<Rightarrow> Some (case Option.bind (ft_exhausted_terminal t) (bt_get returned) of None \<Rightarrow> [] | Some v \<Rightarrow> [v])) (\<lambda>exhausted.
     Some (target @ exhausted)))"

definition expand_route ::
  "VertexId \<Rightarrow> (FactoryKey, VertexId) btree \<Rightarrow> outcome_vertices \<Rightarrow> (FactoryKey, VertexId) btree \<Rightarrow> FlowTransition \<Rightarrow> Graph \<Rightarrow> Graph checked"
where
  "expand_route scope entries outcomes returned t g =
     Option.bind (bt_get outcomes (ft_predecessor t, ft_outcome t)) (\<lambda>v.
     Option.bind (route_successors entries returned t) (\<lambda>successors.
     if 1 < length successors
     then also_then (graph_vertex scope False g) (\<lambda>(choice, g).
          also_then (set_successors choice (\<lambda>_. successors) g) (set_successors v (\<lambda>vs. vs @ [choice])))
     else set_successors v (\<lambda>vs. vs @ successors) g))"

primrec expand_graph ::
  "nat \<Rightarrow> 'b FlowDefinition list \<Rightarrow> FlowDefinitionRef \<Rightarrow> (FactoryKey, VertexId) btree \<Rightarrow> Graph \<Rightarrow> (VertexId \<times> Graph) checked"
where
  "expand_graph 0 definitions r returned g = None"
| "expand_graph (Suc n) definitions r returned g =
     (let scope = length (gr_vertices g) in
      case find_definition definitions r of
        None \<Rightarrow> None
      | Some d \<Rightarrow>
          also_then (fold_checked (add_entry scope) (fd_nodes d) ([], g)) (\<lambda>(entries, g).
          also_then (fold_checked (expand_node (expand_graph n definitions) r scope entries) (fd_nodes d) ([], g)) (\<lambda>(outcomes, g).
          also_then (fold_checked (expand_route scope entries outcomes returned) (fd_transitions d) g) (\<lambda>g.
          Option.bind (bt_get entries (fd_entry d)) (\<lambda>entry. Some (Inr (entry, g)))))))"

section \<open>Reachable producers\<close>

text \<open>The stack \<open>pending\<close> has its top first; a popped vertex that is new pushes its successors.\<close>

function reachable_from :: "Vertex list \<Rightarrow> VertexId list \<Rightarrow> VertexId list \<Rightarrow> VertexId list option" where
  "reachable_from vertices [] reached = Some reached"
| "reachable_from vertices (v # pending) reached =
     (if v \<in> set reached then reachable_from vertices pending reached
      else if v < length vertices
      then reachable_from vertices (rev (vx_successors (vertices ! v)) @ pending) (bs_insert v reached)
      else None)"
  by pat_completeness auto
termination
proof (relation "measures [\<lambda>(vertices, pending, reached). card ({0..<length vertices} - set reached),
    \<lambda>(vertices, pending, reached). length pending]")
  fix vertices :: "Vertex list" and v :: VertexId and pending reached
  assume "v \<notin> set reached" "v < length vertices"
  then have "card ({0..<length vertices} - set reached - {v}) < card ({0..<length vertices} - set reached)"
    by (intro card_Diff1_less) simp_all
  then have "card ({0..<length vertices} - set (bs_insert v reached)) < card ({0..<length vertices} - set reached)"
    unfolding set_bs_insert by (subst Diff_insert)
  then show "((vertices, rev (vx_successors (vertices ! v)) @ pending, bs_insert v reached), vertices, v # pending, reached) \<in>
      measures [\<lambda>(vertices, pending, reached). card ({0..<length vertices} - set reached), \<lambda>(vertices, pending, reached). length pending]"
    by simp
qed simp_all

text \<open>The loop of one producer: vertices that no earlier producer reached are marked with it.\<close>

function flood ::
  "VertexId list list \<Rightarrow> ProducerId \<Rightarrow> VertexId list \<Rightarrow> ProducerId option list \<times> VertexId list \<Rightarrow> (ProducerId option list \<times> VertexId list) option"
where
  "flood predecessors producer [] st = Some st"
| "flood predecessors producer (v # pending) st =
     (if v < length (fst st)
      then if fst st ! v = None
        then if v < length predecessors
          then flood predecessors producer (rev (predecessors ! v) @ pending) ((fst st)[v := Some producer], snd st @ [v])
          else None
        else flood predecessors producer pending st
      else None)"
  by pat_completeness auto
termination
proof (relation "measures [\<lambda>(_, _, _, st). length (filter (\<lambda>x. x = None) (fst st)), \<lambda>(_, _, pending, _). length pending]")
  fix predecessors :: "VertexId list list" and producer v :: nat and pending and st :: "ProducerId option list \<times> VertexId list"
  assume v: "v < length (fst st)" "fst st ! v = None"
  have "length (filter (\<lambda>x. x = None) ((fst st)[v := Some producer])) < length (filter (\<lambda>x. x = None) (fst st))"
    using v by (subst (2) id_take_nth_drop [OF v(1)]) (simp add: upd_conv_take_nth_drop)
  then show "((predecessors, producer, rev (predecessors ! v) @ pending, (fst st)[v := Some producer], snd st @ [v]),
      predecessors, producer, v # pending, st) \<in>
      measures [\<lambda>(_, _, _, st). length (filter (\<lambda>x. x = None) (fst st)), \<lambda>(_, _, pending, _). length pending]"
    by simp
qed simp_all

definition propagate_producers ::
  "VertexId list list \<Rightarrow> (VertexId \<times> ProducerId) list \<Rightarrow> ProducerId option list \<Rightarrow> (ProducerId option list \<times> VertexId list) option"
where
  "propagate_producers predecessors producers selected =
     fold_option (\<lambda>(v, producer). flood predecessors producer [v]) producers (selected, [])"

record ProducerReach =
  pr_lowest :: "ProducerId option list"
  pr_highest :: "ProducerId option list"

definition producer_reach_new :: "nat \<Rightarrow> ProducerReach" where
  "producer_reach_new n = \<lparr>pr_lowest = replicate n None, pr_highest = replicate n None\<rparr>"

definition reach_collect ::
  "VertexId list list \<Rightarrow> (VertexId \<times> ProducerId) list \<Rightarrow> ProducerReach \<Rightarrow> (VertexId list \<times> ProducerReach) option"
where
  "reach_collect predecessors ordered pr =
     Option.bind (propagate_producers predecessors ordered (pr_lowest pr)) (\<lambda>(lowest, visited).
     Option.bind (propagate_producers predecessors (rev ordered) (pr_highest pr)) (\<lambda>(highest, _).
     Some (visited, \<lparr>pr_lowest = lowest, pr_highest = highest\<rparr>)))"

type_synonym ProducerRange = "(ProducerId \<times> ProducerId) option"

definition option_zip :: "'a option \<Rightarrow> 'b option \<Rightarrow> ('a \<times> 'b) option" where
  "option_zip a b = Option.bind a (\<lambda>x. Option.bind b (\<lambda>y. Some (x, y)))"

definition reach_range :: "ProducerReach \<Rightarrow> VertexId \<Rightarrow> ProducerRange option" where
  "reach_range pr v = Option.bind (vec_get (pr_lowest pr) v) (\<lambda>l. Option.bind (vec_get (pr_highest pr) v) (\<lambda>h. Some (option_zip l h)))"

definition reach_clear :: "VertexId list \<Rightarrow> ProducerReach \<Rightarrow> ProducerReach option" where
  "reach_clear visited pr =
     fold_option (\<lambda>v pr. Option.bind (vec_update v (\<lambda>_. None) (pr_lowest pr)) (\<lambda>lowest.
       Option.bind (vec_update v (\<lambda>_. None) (pr_highest pr)) (\<lambda>highest. Some \<lparr>pr_lowest = lowest, pr_highest = highest\<rparr>))) visited pr"

definition range_conflict :: "ProducerRange \<Rightarrow> ProducerRange \<Rightarrow> ProducerRange" where
  "range_conflict left right =
     Option.bind (option_zip left right) (\<lambda>((first, last), (other_first, other_last)).
     find (\<lambda>(a, b). a \<noteq> b) [(first, other_first), (first, other_last), (last, other_first)])"

fun range_union :: "ProducerRange \<Rightarrow> ProducerRange \<Rightarrow> ProducerRange" where
  "range_union (Some (a, b)) (Some (c, d)) = Some (min a c, max b d)"
| "range_union None other = other"
| "range_union other None = other"

text \<open>The loop over the successors of a vertex that dispatches all of them.\<close>

primrec parallel_loop ::
  "Vertex list \<Rightarrow> VertexId \<Rightarrow> ProducerReach \<Rightarrow> ProducerReach \<Rightarrow> VertexId list \<Rightarrow> ProducerRange \<Rightarrow> ProducerRange \<Rightarrow> ProducerRange option"
where
  "parallel_loop vertices scope all_reach local_reach [] earlier earlier_local = Some None"
| "parallel_loop vertices scope all_reach local_reach (s # ss) earlier earlier_local =
     Option.bind (reach_range all_reach s) (\<lambda>branch.
     Option.bind (vec_get vertices s) (\<lambda>successor.
     Option.bind (if vx_scope successor = scope then reach_range local_reach s else Some None) (\<lambda>branch_local.
     case range_conflict earlier branch_local of
       Some pair \<Rightarrow> Some (Some pair)
     | None \<Rightarrow>
         (case range_conflict earlier_local branch of
            Some pair \<Rightarrow> Some (Some pair)
          | None \<Rightarrow> parallel_loop vertices scope all_reach local_reach ss (range_union earlier branch) (range_union earlier_local branch_local)))))"

definition parallel_conflict :: "Vertex list \<Rightarrow> VertexId \<Rightarrow> ProducerReach \<Rightarrow> ProducerReach \<Rightarrow> ProducerRange option" where
  "parallel_conflict vertices v all_reach local_reach =
     Option.bind (vec_get vertices v) (\<lambda>vertex.
     if \<not> vx_simultaneous vertex then Some None
     else parallel_loop vertices (vx_scope vertex) all_reach local_reach (vx_successors vertex) None None)"

section \<open>Validation\<close>

text \<open>The predecessors of the reachable vertices, and those within one invocation.\<close>

definition add_predecessors ::
  "Vertex list \<Rightarrow> VertexId \<Rightarrow> VertexId list list \<times> VertexId list list \<Rightarrow> (VertexId list list \<times> VertexId list list) option"
where
  "add_predecessors vertices v st =
     Option.bind (vec_get vertices v) (\<lambda>vertex.
     fold_option (\<lambda>s (predecessors, local_predecessors).
       Option.bind (vec_update s (\<lambda>vs. vs @ [v]) predecessors) (\<lambda>predecessors.
       Option.bind (vec_get vertices s) (\<lambda>successor.
       Option.bind (if vx_scope vertex \<le> vx_scope successor then vec_update s (\<lambda>vs. vs @ [v]) local_predecessors else Some local_predecessors)
         (\<lambda>local_predecessors. Some (predecessors, local_predecessors))))) (vx_successors vertex) st)"

definition add_call ::
  "VertexId list \<Rightarrow> VertexId \<times> VertexId \<Rightarrow> VertexId list list \<Rightarrow> VertexId list list option"
where
  "add_call reached pair local_predecessors = (case pair of (call, outcome) \<Rightarrow>
     if outcome \<in> set reached then vec_update outcome (\<lambda>vs. vs @ [call]) local_predecessors else Some local_predecessors)"

text \<open>\<^verbatim>\<open>filter_map\<close> and \<^verbatim>\<open>find\<close>, and \<^verbatim>\<open>find_map\<close>: the first value that is present.\<close>

primrec find_range :: "('a \<Rightarrow> ProducerRange option) \<Rightarrow> (ProducerId \<times> ProducerId \<Rightarrow> bool) \<Rightarrow> 'a list \<Rightarrow> ProducerRange option" where
  "find_range f p [] = Some None"
| "find_range f p (x # xs) =
     Option.bind (f x) (\<lambda>range. case range of
       Some pair \<Rightarrow> if p pair then Some (Some pair) else find_range f p xs
     | None \<Rightarrow> find_range f p xs)"

definition location_order :: "FlowIssueOutcomeLocation \<Rightarrow> FlowDefinitionRef \<times> FactoryKey \<times> nat" where
  "location_order l = (il_definition l, il_node l, il_outcome_index l)"

definition slot_conflict :: "Graph \<Rightarrow> FlowIssueSlot \<Rightarrow> ProducerId \<times> ProducerId \<Rightarrow> FactoryError option" where
  "slot_conflict g slot pair =
     Option.bind (vec_get (gr_locations g) (fst pair)) (\<lambda>left.
     Option.bind (vec_get (gr_locations g) (snd pair)) (\<lambda>right.
     Some (FE_AmbiguousIssuePresentationSlot \<lparr>ic_slot = slot, ic_producers = sort_key location_order [left, right]\<rparr>)))"

text \<open>The body of the loop over the slots. Occurrences of one producer may stand in any order after the sort, which
  is unstable; that order decides only which pair an error names.\<close>

definition validate_slot ::
  "Graph \<Rightarrow> VertexId list \<Rightarrow> VertexId list list \<Rightarrow> VertexId list list \<Rightarrow> FlowIssueSlot \<times> (VertexId \<times> ProducerId) list \<Rightarrow>
     ProducerReach \<times> ProducerReach \<Rightarrow> (ProducerReach \<times> ProducerReach) checked"
where
  "validate_slot g reached predecessors local_predecessors entry st =
     (case entry of (slot, listed) \<Rightarrow> case st of (all_reach, local_reach) \<Rightarrow>
      let producers = sort_key snd (filter (\<lambda>(v, _). v \<in> set reached) listed) in
      if producers = [] \<or> snd (hd producers) = snd (last producers) then Some (Inr (all_reach, local_reach))
      else
        Option.bind (reach_collect predecessors producers all_reach) (\<lambda>(visited, all_reach).
        Option.bind (reach_collect local_predecessors producers local_reach) (\<lambda>(locally_visited, local_reach).
        Option.bind (find_range (reach_range all_reach) (\<lambda>(left, right). left \<noteq> right) (map fst producers)) (\<lambda>nested.
        Option.bind (case nested of
            Some pair \<Rightarrow> Some (Some pair)
          | None \<Rightarrow> find_range (\<lambda>v. parallel_conflict (gr_vertices g) v all_reach local_reach) (\<lambda>_. True) visited) (\<lambda>found.
        case found of
          Some pair \<Rightarrow> map_option Inl (slot_conflict g slot pair)
        | None \<Rightarrow>
            Option.bind (reach_clear visited all_reach) (\<lambda>all_reach.
            Option.bind (reach_clear locally_visited local_reach) (\<lambda>local_reach. Some (Inr (all_reach, local_reach)))))))))"

definition graph_validate :: "Graph \<Rightarrow> VertexId \<Rightarrow> unit checked" where
  "graph_validate g entry =
     Option.bind (reachable_from (gr_vertices g) [entry] []) (\<lambda>reached.
     let n = length (gr_vertices g) in
     Option.bind (fold_option (add_predecessors (gr_vertices g)) reached (replicate n [], replicate n [])) (\<lambda>(predecessors, local_predecessors).
     Option.bind (fold_option (add_call reached) (gr_call_outcomes g) local_predecessors) (\<lambda>local_predecessors.
     also_then (fold_checked (validate_slot g reached predecessors local_predecessors) (gr_slots g)
         (producer_reach_new n, producer_reach_new n)) (\<lambda>_. Some (Inr ())))))"

text \<open>The slots that the outcomes of a closure declare, in the order of the scan.\<close>

definition closure_slots :: "'b FlowDefinition list \<Rightarrow> FlowIssueSlot list" where
  "closure_slots definitions = concat (map (\<lambda>d. concat (map (\<lambda>n. List.map_filter (\<lambda>c.
     map_option (\<lambda>p. presentation_slot p (fst (fd_reference d)) (fn_key n) (oc_key c)) (oc_issue_presentation c)) (fn_outcomes n))
     (fd_nodes d))) definitions)"

definition issue_slots_validate :: "'b PinnedFlowDefinitionClosure \<Rightarrow> unit checked" where
  "issue_slots_validate closure =
     (let definitions = fc_definitions closure in
      if distinct (closure_slots definitions) then Some (Inr ())
      else also_then (expand_graph (Suc (length definitions)) definitions (fc_root closure) []
          \<lparr>gr_remaining = unat MAX_FLOW_EXPANDED_NODES, gr_vertices = [], gr_call_outcomes = [], gr_declarations = [],
            gr_locations = [], gr_slots = []\<rparr>) (\<lambda>(entry, g).
        graph_validate g entry))"

end
