(* ===== verification/Flow_Issue_Slots_Correct.thy ===== *)
theory Flow_Issue_Slots_Correct
  imports Flow_Issue_Slots
begin

text \<open>
  The analysis of issue slots returns on every closure of accepted definitions that nest without recursion: no
  index leaves the graph, every map has the entries that are read, and the recursion stays within its fuel.
\<close>

section \<open>Fallible steps that return\<close>

definition returns :: "'a checked \<Rightarrow> ('a \<Rightarrow> bool) \<Rightarrow> bool" where
  "returns m P \<longleftrightarrow> (case m of None \<Rightarrow> False | Some (Inl _) \<Rightarrow> True | Some (Inr x) \<Rightarrow> P x)"

definition yields :: "'a option \<Rightarrow> ('a \<Rightarrow> bool) \<Rightarrow> bool" where
  "yields m P \<longleftrightarrow> (case m of None \<Rightarrow> False | Some x \<Rightarrow> P x)"

lemma returns_simps [simp]: "returns (Some (Inr x)) P = P x" "returns (Some (Inl e)) P" "\<not> returns None P"
  by (simp_all add: returns_def)

lemma yields_simps [simp]: "yields (Some x) P = P x" "\<not> yields None P"
  by (simp_all add: yields_def)

lemma returns_then: "returns m P \<Longrightarrow> (\<And>x. P x \<Longrightarrow> returns (f x) Q) \<Longrightarrow> returns (also_then m f) Q"
  by (cases m; cases "the m") simp_all

lemma returns_total: "returns m P \<Longrightarrow> m \<noteq> None"
  by (cases m) auto

lemma returns_mono: "returns m P \<Longrightarrow> (\<And>x. P x \<Longrightarrow> Q x) \<Longrightarrow> returns m Q"
  by (auto simp: returns_def split: option.splits sum.splits)

lemma yields_then: "yields m P \<Longrightarrow> (\<And>x. P x \<Longrightarrow> yields (f x) Q) \<Longrightarrow> yields (Option.bind m f) Q"
  by (cases m) simp_all

lemma yields_returns: "yields m P \<Longrightarrow> (\<And>x. P x \<Longrightarrow> returns (f x) Q) \<Longrightarrow> returns (Option.bind m f) Q"
  by (cases m) simp_all

lemma yields_mono: "yields m P \<Longrightarrow> (\<And>x. P x \<Longrightarrow> Q x) \<Longrightarrow> yields m Q"
  by (cases m) simp_all

text \<open>A loop keeps an invariant that speaks of the elements that are done.\<close>

lemma returns_fold:
  assumes "P [] st" and "\<And>seen x st. x \<in> set xs \<Longrightarrow> P seen st \<Longrightarrow> returns (f x st) (P (seen @ [x]))"
  shows "returns (fold_checked f xs st) (P xs)"
proof -
  have "P seen st \<Longrightarrow> set ys \<subseteq> set xs \<Longrightarrow> returns (fold_checked f ys st) (P (seen @ ys))" for seen ys st
  proof (induction ys arbitrary: seen st)
    case (Cons y ys)
    from assms(2) [OF _ Cons.prems(1), of y] Cons.prems(2) have "returns (f y st) (P (seen @ [y]))" by simp
    then show ?case
      using Cons.IH [of "seen @ [y]"] Cons.prems(2) by (auto intro: returns_then)
  qed simp
  from this [of "[]" st xs] assms(1) show ?thesis by simp
qed

lemma yields_fold:
  assumes "P st" and "\<And>x st. x \<in> set xs \<Longrightarrow> P st \<Longrightarrow> yields (f x st) P"
  shows "yields (fold_option f xs st) P"
  using assms
proof (induction xs arbitrary: st)
  case (Cons x xs)
  then show ?case by (auto intro!: yields_then [of "f x st" P])
qed simp

section \<open>Expansion\<close>

definition values_below :: "nat \<Rightarrow> ('k, nat) btree \<Rightarrow> bool" where
  "values_below n m \<longleftrightarrow> (\<forall>v\<in>set (bt_values m). v < n)"

definition graph_ok :: "Graph \<Rightarrow> bool" where
  "graph_ok g \<longleftrightarrow> (let n = length (gr_vertices g); l = length (gr_locations g) in
     (\<forall>x\<in>set (gr_vertices g). \<forall>s\<in>set (vx_successors x). s < n) \<and> (\<forall>(a, b)\<in>set (gr_call_outcomes g). a < n \<and> b < n) \<and>
     values_below l (gr_declarations g) \<and> (\<forall>ps\<in>set (bt_values (gr_slots g)). \<forall>(v, p)\<in>set ps. v < n \<and> p < l))"

text \<open>What every step keeps: the vertices that there are.\<close>

definition grown :: "nat \<Rightarrow> Graph \<Rightarrow> bool" where
  "grown n g \<longleftrightarrow> graph_ok g \<and> n \<le> length (gr_vertices g)"

lemma bt_values_insert: "set (bt_values (bt_insert k v m)) \<subseteq> insert v (set (bt_values m))"
  by (induction m) (auto simp: bt_values_def)

lemma bt_get_value: "bt_get m k = Some v \<Longrightarrow> v \<in> set (bt_values m)"
  by (force simp: bt_get_def bt_values_def dest: map_of_SomeD)

lemma values_below_insert: "values_below n m \<Longrightarrow> v < n \<Longrightarrow> values_below n (bt_insert k v m)"
  using bt_values_insert [of k v m] by (auto simp: values_below_def)

lemma values_below_mono: "values_below n m \<Longrightarrow> n \<le> n' \<Longrightarrow> values_below n' m"
  by (auto simp: values_below_def)

lemma values_below_get: "values_below n m \<Longrightarrow> bt_get m k = Some v \<Longrightarrow> v < n"
  using bt_get_value [of m k v] by (simp add: values_below_def)

lemma graph_vertex_ok:
  assumes "graph_ok g"
  shows "returns (graph_vertex scope b g) (\<lambda>(v, g'). graph_ok g' \<and> v < length (gr_vertices g') \<and> length (gr_vertices g) \<le> length (gr_vertices g'))"
  using assms by (fastforce simp: graph_vertex_def graph_ok_def Let_def)

lemma set_successors_ok:
  assumes "graph_ok g" "v < length (gr_vertices g)"
    and "\<And>ss. \<forall>s\<in>set ss. s < length (gr_vertices g) \<Longrightarrow> \<forall>s\<in>set (f ss). s < length (gr_vertices g)"
  shows "returns (set_successors v f g) (\<lambda>g'. graph_ok g' \<and> length (gr_vertices g') = length (gr_vertices g))"
proof -
  have "\<forall>s\<in>set (f (vx_successors (gr_vertices g ! v))). s < length (gr_vertices g)"
    using assms by (intro assms(3)) (auto simp: graph_ok_def Let_def)
  then show ?thesis using assms(1,2)
    by (auto simp: set_successors_def vec_update_def graph_ok_def Let_def dest!: set_update_subset_insert [THEN subsetD])
qed

lemma add_declaration_ok:
  assumes "graph_ok g"
  shows "graph_ok (g\<lparr>gr_declarations := bt_insert k (length (gr_locations g)) (gr_declarations g), gr_locations := gr_locations g @ [x]\<rparr>)"
proof -
  have "values_below (Suc (length (gr_locations g))) (gr_declarations g)"
    using assms by (simp add: graph_ok_def Let_def) (metis le_SucI order_refl values_below_mono)
  moreover have "\<forall>ps\<in>set (bt_values (gr_slots g)). \<forall>(v, p)\<in>set ps. v < length (gr_vertices g) \<and> p < Suc (length (gr_locations g))"
    using assms by (fastforce simp: graph_ok_def Let_def)
  ultimately show ?thesis using assms by (simp add: graph_ok_def Let_def values_below_insert)
qed

lemma add_slot_ok:
  assumes "graph_ok g" "v < length (gr_vertices g)" "p < length (gr_locations g)"
  shows "graph_ok (g\<lparr>gr_slots := bt_insert slot ((case bt_get (gr_slots g) slot of None \<Rightarrow> [] | Some ps \<Rightarrow> ps) @ [(v, p)]) (gr_slots g)\<rparr>)"
proof -
  let ?n = "length (gr_vertices g)" and ?l = "length (gr_locations g)"
  let ?listed = "case bt_get (gr_slots g) slot of None \<Rightarrow> [] | Some ps \<Rightarrow> ps"
  have slots: "\<forall>ps\<in>set (bt_values (gr_slots g)). \<forall>(v, p)\<in>set ps. v < ?n \<and> p < ?l" using assms(1) by (simp add: graph_ok_def Let_def)
  then have "\<forall>(v, p)\<in>set ?listed. v < ?n \<and> p < ?l" using bt_get_value [of "gr_slots g" slot] by (cases "bt_get (gr_slots g) slot") auto
  with slots assms(2,3) have "\<forall>ps\<in>insert (?listed @ [(v, p)]) (set (bt_values (gr_slots g))). \<forall>(v, p)\<in>set ps. v < ?n \<and> p < ?l" by auto
  then have "\<forall>ps\<in>set (bt_values (bt_insert slot (?listed @ [(v, p)]) (gr_slots g))). \<forall>(v, p)\<in>set ps. v < ?n \<and> p < ?l"
    using bt_values_insert [of slot "?listed @ [(v, p)]" "gr_slots g"] by blast
  then show ?thesis using assms(1) by (simp add: graph_ok_def Let_def)
qed

lemma add_producer_ok:
  assumes "graph_ok g" "v < length (gr_vertices g)"
  shows "graph_ok (add_producer r node i c v p g) \<and> gr_vertices (add_producer r node i c v p g) = gr_vertices g"
proof (cases "bt_get (gr_declarations g) (r, node, oc_key c)")
  case None
  from add_slot_ok [OF add_declaration_ok [OF assms(1)], of v _ _ "length (gr_locations g)"] assms(2) None show ?thesis
    by (simp add: add_producer_def Let_def)
next
  case (Some p')
  then have "p' < length (gr_locations g)"
    using assms(1) values_below_get [of _ "gr_declarations g"] by (simp add: graph_ok_def Let_def)
  from add_slot_ok [OF assms this] Some show ?thesis by (simp add: add_producer_def Let_def)
qed

definition has_keys :: "('k, 'v) btree \<Rightarrow> 'k set \<Rightarrow> bool" where
  "has_keys m K \<longleftrightarrow> (\<forall>k\<in>K. bt_get m k \<noteq> None)"

lemma has_keys_insert: "has_keys m K \<Longrightarrow> has_keys (bt_insert k v m) (insert k K)"
  by (auto simp: has_keys_def bt_get_insert)

lemma add_entry_ok:
  assumes "graph_ok g" "values_below (length (gr_vertices g)) entries" "has_keys entries K"
  shows "returns (add_entry scope node (entries, g)) (\<lambda>(entries', g'). grown (length (gr_vertices g)) g' \<and>
    values_below (length (gr_vertices g')) entries' \<and> has_keys entries' (insert (fn_key node) K))"
  unfolding add_entry_def snd_conv
  by (rule returns_then [OF graph_vertex_ok [OF assms(1)]])
    (use assms in \<open>auto simp: grown_def intro!: values_below_insert has_keys_insert elim: values_below_mono\<close>)

lemma add_outcome_ok:
  assumes "graph_ok g" "values_below (length (gr_vertices g)) exits" "values_below (length (gr_vertices g)) outcomes" "has_keys outcomes K"
  shows "returns (add_outcome r scope node (i, c) (exits, outcomes, g)) (\<lambda>(exits', outcomes', g'). grown (length (gr_vertices g)) g' \<and>
    values_below (length (gr_vertices g')) exits' \<and> values_below (length (gr_vertices g')) outcomes' \<and> has_keys outcomes' (insert (node, oc_key c) K))"
  unfolding add_outcome_def prod.case
proof (rule returns_then [OF graph_vertex_ok [OF assms(1)]])
  fix vg :: "nat \<times> Graph"
  assume vg: "case vg of (v, g') \<Rightarrow> graph_ok g' \<and> v < length (gr_vertices g') \<and> length (gr_vertices g) \<le> length (gr_vertices g')"
  obtain v g' where v: "vg = (v, g')" by (cases vg)
  have "grown (length (gr_vertices g)) (case oc_issue_presentation c of None \<Rightarrow> g' | Some p \<Rightarrow> add_producer r node i c v p g') \<and>
    length (gr_vertices (case oc_issue_presentation c of None \<Rightarrow> g' | Some p \<Rightarrow> add_producer r node i c v p g')) = length (gr_vertices g')"
    using vg add_producer_ok [of g' v] by (auto simp: v grown_def split: option.splits)
  with vg assms(2-4) show "returns (case vg of (v, g) \<Rightarrow> Some (Inr (bt_insert (oc_key c) v exits, bt_insert (node, oc_key c) v outcomes,
      case oc_issue_presentation c of None \<Rightarrow> g | Some p \<Rightarrow> add_producer r node i c v p g)))
    (\<lambda>(exits', outcomes', g'). grown (length (gr_vertices g)) g' \<and> values_below (length (gr_vertices g')) exits' \<and>
      values_below (length (gr_vertices g')) outcomes' \<and> has_keys outcomes' (insert (node, oc_key c) K))"
    by (simp add: v) (auto intro!: values_below_insert has_keys_insert elim: values_below_mono)
qed

lemma add_outcomes_ok:
  assumes g: "graph_ok g" "values_below (length (gr_vertices g)) outcomes" "has_keys outcomes K"
  shows "returns (fold_checked (add_outcome r scope node) (enumerate 0 cs) ([], outcomes, g)) (\<lambda>(exits, outcomes', g').
    grown (length (gr_vertices g)) g' \<and> values_below (length (gr_vertices g')) exits \<and> values_below (length (gr_vertices g')) outcomes' \<and>
    has_keys outcomes' (K \<union> Pair node ` oc_key ` set cs))"
proof -
  let ?P = "\<lambda>(seen :: (nat \<times> FlowOutcomeDefinition) list) (exits, outcomes', g'). grown (length (gr_vertices g)) g' \<and>
    values_below (length (gr_vertices g')) exits \<and> values_below (length (gr_vertices g')) outcomes' \<and>
    has_keys outcomes' (K \<union> Pair node ` oc_key ` snd ` set seen)"
  have "returns (fold_checked (add_outcome r scope node) (enumerate 0 cs) ([], outcomes, g)) (?P (enumerate 0 cs))"
  proof (rule returns_fold)
    show "?P [] ([], outcomes, g)" using g by (simp add: grown_def values_below_def bt_values_def)
    fix seen and x :: "nat \<times> FlowOutcomeDefinition" and st :: "(FactoryKey, nat) btree \<times> outcome_vertices \<times> Graph"
    assume P: "?P seen st"
    obtain exits outcomes' g' where st: "st = (exits, outcomes', g')" by (cases st)
    obtain i c where x: "x = (i, c)" by (cases x)
    show "returns (add_outcome r scope node x st) (?P (seen @ [x]))"
      unfolding st x by (rule returns_mono, rule add_outcome_ok) (use P st in \<open>auto simp: grown_def\<close>)
  qed
  moreover have "oc_key ` snd ` set (enumerate 0 cs) = oc_key ` set cs" by (simp flip: set_map)
  ultimately show ?thesis by simp
qed

lemma expand_node_ok:
  assumes g: "graph_ok g" "values_below (length (gr_vertices g)) outcomes" "has_keys outcomes K"
    and entries: "values_below (length (gr_vertices g)) entries" "has_keys entries {fn_key node}"
    and rec: "\<And>child exits g. fn_subflow node = Some child \<Longrightarrow> graph_ok g \<Longrightarrow> values_below (length (gr_vertices g)) exits \<Longrightarrow>
      returns (expand child exits g) (\<lambda>(e, g'). grown (length (gr_vertices g)) g' \<and> e < length (gr_vertices g'))"
  shows "returns (expand_node expand r scope entries node (outcomes, g)) (\<lambda>(outcomes', g'). grown (length (gr_vertices g)) g' \<and>
    values_below (length (gr_vertices g')) outcomes' \<and> has_keys outcomes' (K \<union> Pair (fn_key node) ` oc_key ` set (fn_outcomes node)))"
proof -
  let ?n = "length (gr_vertices g)"
  obtain call where call: "bt_get entries (fn_key node) = Some call" using entries(2) by (auto simp: has_keys_def)
  with entries(1) have "call < ?n" by (rule values_below_get)
  show ?thesis
    unfolding expand_node_def prod.case
  proof (rule returns_then [OF add_outcomes_ok [OF g]], clarify)
    fix exits :: "(FactoryKey, nat) btree" and outcomes' :: outcome_vertices and g'
    assume "grown ?n g'" and P: "values_below (length (gr_vertices g')) exits" "values_below (length (gr_vertices g')) outcomes'"
      "has_keys outcomes' (K \<union> Pair (fn_key node) ` oc_key ` set (fn_outcomes node))"
    then have P': "graph_ok g'" "?n \<le> length (gr_vertices g')" by (simp_all add: grown_def)
    let ?g = "g'\<lparr>gr_call_outcomes := gr_call_outcomes g' @ map (Pair call) (bt_values exits)\<rparr>"
    have "graph_ok ?g" using P' P(1) \<open>call < ?n\<close> by (fastforce simp: graph_ok_def Let_def values_below_def)
    have successors: "returns (case fn_subflow node of
        Some child \<Rightarrow> also_then (expand child exits ?g) (\<lambda>(entry, g). Some (Inr ([entry], g)))
      | None \<Rightarrow> Some (Inr (bt_values exits, g')))
      (\<lambda>(successors, g2). grown (length (gr_vertices g')) g2 \<and> (\<forall>s\<in>set successors. s < length (gr_vertices g2)))"
    proof (cases "fn_subflow node")
      case None
      then show ?thesis using P'(1) P(1) by (simp add: grown_def values_below_def)
    next
      case (Some child)
      from rec [OF Some \<open>graph_ok ?g\<close>, of exits] P(1) show ?thesis by (auto simp: Some intro!: returns_then)
    qed
    show "returns (case bt_get entries (fn_key node) of None \<Rightarrow> None | Some call \<Rightarrow>
          also_then (case fn_subflow node of
              Some child \<Rightarrow> also_then (expand child exits (g'\<lparr>gr_call_outcomes := gr_call_outcomes g' @ map (Pair call) (bt_values exits)\<rparr>))
                  (\<lambda>(entry, g). Some (Inr ([entry], g)))
            | None \<Rightarrow> Some (Inr (bt_values exits, g'))) (\<lambda>(successors, g).
          also_then (set_successors call (\<lambda>_. successors) g) (\<lambda>g. Some (Inr (outcomes', g)))))
      (\<lambda>(outcomes', g'). grown ?n g' \<and> values_below (length (gr_vertices g')) outcomes' \<and>
        has_keys outcomes' (K \<union> Pair (fn_key node) ` oc_key ` set (fn_outcomes node)))"
      unfolding call option.case
    proof (rule returns_then [OF successors], clarify)
      fix ss g2
      assume "grown (length (gr_vertices g')) g2" "\<forall>s\<in>set ss. s < length (gr_vertices g2)"
      then have "returns (set_successors call (\<lambda>_. ss) g2) (\<lambda>g3. graph_ok g3 \<and> length (gr_vertices g3) = length (gr_vertices g2))"
        using \<open>call < ?n\<close> P'(2) by (intro set_successors_ok) (auto simp: grown_def)
      then show "returns (also_then (set_successors call (\<lambda>_. ss) g2) (\<lambda>g. Some (Inr (outcomes', g))))
        (\<lambda>(outcomes', g'). grown ?n g' \<and> values_below (length (gr_vertices g')) outcomes' \<and>
          has_keys outcomes' (K \<union> Pair (fn_key node) ` oc_key ` set (fn_outcomes node)))"
        by (rule returns_then) (use P P' \<open>grown (length (gr_vertices g')) g2\<close> in \<open>auto simp: grown_def elim: values_below_mono\<close>)
    qed
  qed
qed

text \<open>A definition whose entry, routes and targets exist.\<close>

definition routes_closed :: "'b FlowDefinition \<Rightarrow> bool" where
  "routes_closed d \<longleftrightarrow> fd_entry d \<in> flow_nodes d \<and> (\<forall>t\<in>set (fd_transitions d).
     (\<exists>n\<in>set (fd_nodes d). fn_key n = ft_predecessor t \<and> ft_outcome t \<in> oc_key ` set (fn_outcomes n)) \<and>
     (\<forall>k. ft_target t = To_Node k \<longrightarrow> k \<in> flow_nodes d) \<and> (\<forall>k. ft_exhausted_node t = Some k \<longrightarrow> k \<in> flow_nodes d))"

lemma sound_routes_closed:
  assumes "fd_entry d \<in> flow_nodes d" "\<forall>t\<in>set (fd_transitions d). transition_sound d limits t"
  shows "routes_closed d"
  unfolding routes_closed_def
proof (intro conjI ballI allI impI)
  fix t
  assume "t \<in> set (fd_transitions d)"
  then have sound: "transition_sound d limits t" using assms(2) by blast
  then obtain p c where p: "definition_node d (ft_predecessor t) = Some p" "node_outcome p (ft_outcome t) = Some c"
    by (auto simp: transition_sound_def)
  then have "c \<in> set (fn_outcomes p)" "oc_key c = ft_outcome t" by (auto simp: node_outcome_def find_Some_iff)
  then show "\<exists>n\<in>set (fd_nodes d). fn_key n = ft_predecessor t \<and> ft_outcome t \<in> oc_key ` set (fn_outcomes n)"
    using definition_node_in [OF p(1)] by (metis image_eqI)
  show "k \<in> flow_nodes d" if "ft_target t = To_Node k" for k using sound that by (auto simp: transition_sound_def)
  show "k \<in> flow_nodes d" if "ft_exhausted_node t = Some k" for k
  proof -
    obtain gate where "definition_node d k = Some gate" using sound \<open>ft_exhausted_node t = Some k\<close> by (auto simp: transition_sound_def)
    then show ?thesis using definition_node_in [of d k gate] by (auto simp: flow_nodes_def)
  qed
qed (rule assms(1))

lemma route_successors_ok:
  assumes "values_below n entries" "has_keys entries (flow_nodes d)" "values_below n returned" "routes_closed d" "t \<in> set (fd_transitions d)"
  shows "yields (route_successors entries returned t) (\<lambda>ss. \<forall>s\<in>set ss. s < n)"
proof -
  have node: "yields (map_option (\<lambda>v. [v]) (bt_get entries k)) (\<lambda>ss. \<forall>s\<in>set ss. s < n)" if "k \<in> flow_nodes d" for k
    using assms(2) that values_below_get [OF assms(1), of k] by (auto simp: has_keys_def)
  have terminal: "\<forall>s\<in>set (case m of None \<Rightarrow> [] | Some v \<Rightarrow> [v]). s < n" if "\<forall>v. m = Some v \<longrightarrow> v < n" for m :: "nat option"
    using that by (cases m) simp_all
  have returned: "\<forall>v. bt_get returned k = Some v \<longrightarrow> v < n" for k
    using values_below_get [OF assms(3)] by simp
  have target: "yields (case ft_target t of
      To_Node node \<Rightarrow> map_option (\<lambda>v. [v]) (bt_get entries node)
    | To_Terminal terminal \<Rightarrow> Some (case bt_get returned terminal of None \<Rightarrow> [] | Some v \<Rightarrow> [v])) (\<lambda>ss. \<forall>s\<in>set ss. s < n)"
    using node terminal [OF returned] assms(4,5) by (cases "ft_target t") (simp_all add: routes_closed_def)
  have exhausted: "yields (case ft_exhausted_node t of
      Some node \<Rightarrow> map_option (\<lambda>v. [v]) (bt_get entries node)
    | None \<Rightarrow> Some (case Option.bind (ft_exhausted_terminal t) (bt_get returned) of None \<Rightarrow> [] | Some v \<Rightarrow> [v]))
      (\<lambda>ss. \<forall>s\<in>set ss. s < n)"
  proof (cases "ft_exhausted_node t")
    case None
    have "\<forall>v. Option.bind (ft_exhausted_terminal t) (bt_get returned) = Some v \<longrightarrow> v < n"
      using returned by (cases "ft_exhausted_terminal t") simp_all
    then show ?thesis unfolding None using terminal by simp
  next
    case (Some k)
    then show ?thesis using node assms(4,5) by (simp add: routes_closed_def)
  qed
  show ?thesis
    unfolding route_successors_def
  proof (rule yields_then [OF target], rule yields_then [OF exhausted])
    fix xs ys
    assume "\<forall>s\<in>set xs. s < n" "\<forall>s\<in>set ys. s < n"
    then show "yields (Some (xs @ ys)) (\<lambda>ss. \<forall>s\<in>set ss. s < n)" by auto
  qed
qed

definition outcome_keys :: "'b FlowNodeDefinition list \<Rightarrow> (FactoryKey \<times> FactoryKey) set" where
  "outcome_keys nodes = {(fn_key m, oc_key c) | m c. m \<in> set nodes \<and> c \<in> set (fn_outcomes m)}"

lemma outcome_keys_snoc: "outcome_keys (nodes @ [x]) = outcome_keys nodes \<union> Pair (fn_key x) ` oc_key ` set (fn_outcomes x)"
  by (auto simp: outcome_keys_def)

lemma expand_route_ok:
  assumes g: "grown n g" and maps: "values_below n entries" "has_keys entries (flow_nodes d)" "values_below n returned"
    and outcomes: "values_below n outcomes" "has_keys outcomes (outcome_keys (fd_nodes d))"
    and t: "routes_closed d" "t \<in> set (fd_transitions d)"
  shows "returns (expand_route scope entries outcomes returned t g) (grown n)"
proof -
  have "(ft_predecessor t, ft_outcome t) \<in> outcome_keys (fd_nodes d)"
  proof -
    obtain m c where "m \<in> set (fd_nodes d)" "fn_key m = ft_predecessor t" "c \<in> set (fn_outcomes m)" "ft_outcome t = oc_key c"
      using t by (auto simp: routes_closed_def)
    then show ?thesis unfolding outcome_keys_def by (intro CollectI exI [of _ m] exI [of _ c]) simp
  qed
  with outcomes(2) have "bt_get outcomes (ft_predecessor t, ft_outcome t) \<noteq> None" unfolding has_keys_def by (rule bspec)
  then obtain v where v: "bt_get outcomes (ft_predecessor t, ft_outcome t) = Some v" by (rule not_None_eq [THEN iffD1, THEN exE])
  with outcomes(1) have "v < n" by (rule values_below_get)
  have "returns (if 1 < length ss
      then also_then (graph_vertex scope False g) (\<lambda>(choice, g).
        also_then (set_successors choice (\<lambda>_. ss) g) (set_successors v (\<lambda>vs. vs @ [choice])))
      else set_successors v (\<lambda>vs. vs @ ss) g) (grown n)" if ss: "\<forall>s\<in>set ss. s < n" for ss
  proof (cases "1 < length ss")
    case False
    have "returns (set_successors v (\<lambda>vs. vs @ ss) g) (\<lambda>g'. graph_ok g' \<and> length (gr_vertices g') = length (gr_vertices g))"
      using g \<open>v < n\<close> ss by (intro set_successors_ok) (auto simp: grown_def)
    with False g show ?thesis by (auto simp: grown_def elim: returns_mono)
  next
    case True
    have choice: "returns (also_then (set_successors choice (\<lambda>_. ss) g1) (set_successors v (\<lambda>vs. vs @ [choice]))) (grown n)"
      if g1: "graph_ok g1" "choice < length (gr_vertices g1)" "n \<le> length (gr_vertices g1)" for choice g1
    proof (rule returns_then)
      show "returns (set_successors choice (\<lambda>_. ss) g1) (\<lambda>g'. graph_ok g' \<and> length (gr_vertices g') = length (gr_vertices g1))"
        using g1 ss by (intro set_successors_ok) auto
      fix g2
      assume g2: "graph_ok g2 \<and> length (gr_vertices g2) = length (gr_vertices g1)"
      then have "returns (set_successors v (\<lambda>vs. vs @ [choice]) g2) (\<lambda>g'. graph_ok g' \<and> length (gr_vertices g') = length (gr_vertices g2))"
        using g1 \<open>v < n\<close> by (intro set_successors_ok) auto
      then show "returns (set_successors v (\<lambda>vs. vs @ [choice]) g2) (grown n)"
        by (rule returns_mono) (use g1 g2 in \<open>simp add: grown_def\<close>)
    qed
    have "graph_ok g" using g by (simp add: grown_def)
    from returns_then [OF graph_vertex_ok [OF this, of scope False]] True g choice show ?thesis
      by (auto simp: grown_def intro!: returns_then [OF graph_vertex_ok [OF \<open>graph_ok g\<close>, of scope False]])
  qed
  then show ?thesis
    unfolding expand_route_def v bind.bind_lunit by (intro yields_returns [OF route_successors_ok [OF maps t]])
qed

text \<open>References whose definitions exist and nest at most \<open>n\<close> deep.\<close>

primrec nested_within :: "'b FlowDefinition list \<Rightarrow> nat \<Rightarrow> FlowDefinitionRef \<Rightarrow> bool" where
  "nested_within ds 0 r = False"
| "nested_within ds (Suc n) r = (\<exists>d. find_definition ds r = Some d \<and> (\<forall>c\<in>set (subflows d). nested_within ds n c))"

lemma nested_within_mono: "nested_within ds n r \<Longrightarrow> n \<le> m \<Longrightarrow> nested_within ds m r"
proof (induction n arbitrary: m r)
  case (Suc n)
  then obtain m' where "m = Suc m'" "n \<le> m'" by (cases m) auto
  with Suc show ?case by auto
qed simp

lemma add_entries_ok:
  fixes nodes :: "'b FlowNodeDefinition list"
  assumes "graph_ok g"
  shows "returns (fold_checked (add_entry scope) nodes ([], g)) (\<lambda>(entries, g'). grown (length (gr_vertices g)) g' \<and>
    values_below (length (gr_vertices g')) entries \<and> has_keys entries (fn_key ` set nodes))"
proof -
  let ?E = "\<lambda>(seen :: 'b FlowNodeDefinition list) (entries, g'). grown (length (gr_vertices g)) g' \<and>
    values_below (length (gr_vertices g')) entries \<and> has_keys entries (fn_key ` set seen)"
  show ?thesis
  proof (rule returns_fold [where P = ?E])
    show "?E [] ([], g)" using assms by (simp add: grown_def values_below_def bt_values_def has_keys_def)
    fix seen and x :: "'b FlowNodeDefinition" and st :: "(FactoryKey, nat) btree \<times> Graph"
    assume P: "?E seen st"
    obtain entries g' where st: "st = (entries, g')" by (cases st)
    show "returns (add_entry scope x st) (?E (seen @ [x]))"
      unfolding st by (rule returns_mono, rule add_entry_ok) (use P st in \<open>auto simp: grown_def\<close>)
  qed
qed

lemma expand_nodes_ok:
  fixes nodes :: "'b FlowNodeDefinition list"
  assumes g: "graph_ok g" and entries: "values_below (length (gr_vertices g)) entries" "has_keys entries (fn_key ` set nodes)"
    and rec: "\<And>x child exits g. x \<in> set nodes \<Longrightarrow> fn_subflow x = Some child \<Longrightarrow> graph_ok g \<Longrightarrow> values_below (length (gr_vertices g)) exits \<Longrightarrow>
      returns (expand child exits g) (\<lambda>(e, g'). grown (length (gr_vertices g)) g' \<and> e < length (gr_vertices g'))"
  shows "returns (fold_checked (expand_node expand r scope entries) nodes ([], g)) (\<lambda>(outcomes, g'). grown (length (gr_vertices g)) g' \<and>
    values_below (length (gr_vertices g')) outcomes \<and> has_keys outcomes (outcome_keys nodes))"
proof -
  let ?O = "\<lambda>(seen :: 'b FlowNodeDefinition list) (outcomes, g'). grown (length (gr_vertices g)) g' \<and>
    values_below (length (gr_vertices g')) outcomes \<and> has_keys outcomes (outcome_keys seen)"
  show ?thesis
  proof (rule returns_fold [where P = ?O])
    show "?O [] ([], g)" using g by (simp add: grown_def values_below_def bt_values_def has_keys_def outcome_keys_def)
    fix seen and x :: "'b FlowNodeDefinition" and st :: "outcome_vertices \<times> Graph"
    assume x: "x \<in> set nodes" and P: "?O seen st"
    obtain outcomes g' where st: "st = (outcomes, g')" by (cases st)
    show "returns (expand_node expand r scope entries x st) (?O (seen @ [x]))"
      unfolding st
    proof (rule returns_mono [OF expand_node_ok [OF _ _ _ _ _ rec [OF x], where K = "outcome_keys seen"]])
      show "graph_ok g'" "values_below (length (gr_vertices g')) outcomes" "values_below (length (gr_vertices g')) entries"
        "has_keys outcomes (outcome_keys seen)"
        using P entries(1) unfolding st by (auto simp: grown_def elim: values_below_mono)
      show "has_keys entries {fn_key x}" using entries(2) x by (simp add: has_keys_def)
      show "?O (seen @ [x]) st'" if "case st' of (outcomes', g2) \<Rightarrow> grown (length (gr_vertices g')) g2 \<and>
          values_below (length (gr_vertices g2)) outcomes' \<and>
          has_keys outcomes' (outcome_keys seen \<union> Pair (fn_key x) ` oc_key ` set (fn_outcomes x))" for st'
        using that P unfolding st outcome_keys_snoc by (cases st') (simp add: grown_def)
    qed
  qed
qed

lemma expand_graph_ok:
  fixes ds :: "'b FlowDefinition list"
  assumes "\<forall>d\<in>set ds. routes_closed d"
  shows "nested_within ds n r \<Longrightarrow> graph_ok g \<Longrightarrow> values_below (length (gr_vertices g)) returned \<Longrightarrow>
    returns (expand_graph n ds r returned g) (\<lambda>(e, g'). grown (length (gr_vertices g)) g' \<and> e < length (gr_vertices g'))"
proof (induction n arbitrary: r g returned)
  case (Suc n)
  from Suc.prems(1) obtain d where d: "find_definition ds r = Some d" "\<forall>c\<in>set (subflows d). nested_within ds n c" by auto
  have closed: "routes_closed d" using assms d(1) by (auto simp: find_definition_def find_Some_iff)
  let ?n = "length (gr_vertices g)" and ?scope = "length (gr_vertices g)"
  show ?case
    unfolding expand_graph.simps Let_def d(1) option.case
  proof (rule returns_then [OF add_entries_ok [OF Suc.prems(2)]], clarify)
    fix entries g1
    assume g1: "grown ?n g1" "values_below (length (gr_vertices g1)) entries" "has_keys entries (fn_key ` set (fd_nodes d))"
    have rec: "returns (expand_graph n ds child exits g2) (\<lambda>(e, g'). grown (length (gr_vertices g2)) g' \<and> e < length (gr_vertices g'))"
      if "x \<in> set (fd_nodes d)" "fn_subflow x = Some child" "graph_ok g2" "values_below (length (gr_vertices g2)) exits" for x child exits g2
    proof (rule Suc.IH [OF _ that(3,4)])
      have "child \<in> set (subflows d)"
        using that(1,2) by (cases child) (auto simp: subflows_def List.map_filter_def intro!: image_eqI [of _ _ x])
      with d(2) show "nested_within ds n child" by (rule bspec)
    qed
    have "graph_ok g1" using g1(1) by (simp add: grown_def)
    then have outcomes: "returns (fold_checked (expand_node (expand_graph n ds) r ?scope entries) (fd_nodes d) ([], g1)) (\<lambda>(outcomes, g').
        grown (length (gr_vertices g1)) g' \<and> values_below (length (gr_vertices g')) outcomes \<and> has_keys outcomes (outcome_keys (fd_nodes d)))"
      using g1(2,3) rec by (rule expand_nodes_ok)
    show "returns (also_then (fold_checked (expand_node (expand_graph n ds) r ?scope entries) (fd_nodes d) ([], g1)) (\<lambda>(outcomes, g).
        also_then (fold_checked (expand_route ?scope entries outcomes returned) (fd_transitions d) g) (\<lambda>g.
        Option.bind (bt_get entries (fd_entry d)) (\<lambda>entry. Some (Inr (entry, g))))))
      (\<lambda>(e, g'). grown ?n g' \<and> e < length (gr_vertices g'))"
    proof (rule returns_then [OF outcomes], clarify)
      fix outcomes g2
      assume g2: "grown (length (gr_vertices g1)) g2" "values_below (length (gr_vertices g2)) outcomes"
        "has_keys outcomes (outcome_keys (fd_nodes d))"
      have sizes: "?n \<le> length (gr_vertices g1)" "length (gr_vertices g1) \<le> length (gr_vertices g2)" using g1(1) g2(1) by (simp_all add: grown_def)
      have maps: "values_below (length (gr_vertices g2)) entries" "has_keys entries (flow_nodes d)" "values_below (length (gr_vertices g2)) returned"
        using g1(2,3) Suc.prems(3) sizes by (auto simp: flow_nodes_def elim: values_below_mono)
      have routes: "returns (fold_checked (expand_route ?scope entries outcomes returned) (fd_transitions d) g2) (grown (length (gr_vertices g2)))"
      proof (rule returns_fold)
        show "grown (length (gr_vertices g2)) g2" using g2(1) by (simp add: grown_def)
        show "returns (expand_route ?scope entries outcomes returned t g3) (grown (length (gr_vertices g2)))"
          if "t \<in> set (fd_transitions d)" "grown (length (gr_vertices g2)) g3" for t g3
          using that(2) maps g2(2,3) closed that(1) by (rule expand_route_ok)
      qed
      obtain entry where entry: "bt_get entries (fd_entry d) = Some entry"
        using maps(2) closed by (auto simp: has_keys_def routes_closed_def)
      with maps(1) have "entry < length (gr_vertices g2)" by (rule values_below_get)
      then show "returns (also_then (fold_checked (expand_route ?scope entries outcomes returned) (fd_transitions d) g2) (\<lambda>g.
          Option.bind (bt_get entries (fd_entry d)) (\<lambda>entry. Some (Inr (entry, g)))))
        (\<lambda>(e, g'). grown ?n g' \<and> e < length (gr_vertices g'))"
        by (intro returns_then [OF routes]) (use entry sizes in \<open>simp add: grown_def\<close>)
    qed
  qed
qed simp

section \<open>Validation\<close>

definition edges_ok :: "nat \<Rightarrow> nat list list \<Rightarrow> bool" where
  "edges_ok n es \<longleftrightarrow> length es = n \<and> (\<forall>vs\<in>set es. \<forall>v\<in>set vs. v < n)"

lemma edges_nth: "edges_ok n es \<Longrightarrow> i < n \<Longrightarrow> v \<in> set (es ! i) \<Longrightarrow> v < n"
  unfolding edges_ok_def by (metis nth_mem)

lemma vec_update_append_ok: "edges_ok n es \<Longrightarrow> i < n \<Longrightarrow> v < n \<Longrightarrow> yields (vec_update i (\<lambda>vs. vs @ [v]) es) (edges_ok n)"
  using edges_nth [of n es i] by (auto simp: vec_update_def edges_ok_def dest!: set_update_subset_insert [THEN subsetD])

lemma reachable_from_ok:
  assumes "\<forall>x\<in>set vertices. \<forall>s\<in>set (vx_successors x). s < length vertices"
  shows "\<forall>v\<in>set pending. v < length vertices \<Longrightarrow> \<forall>v\<in>set reached. v < length vertices \<Longrightarrow>
    yields (reachable_from vertices pending reached) (\<lambda>reached. \<forall>v\<in>set reached. v < length vertices)"
  using assms
proof (induction vertices pending reached rule: reachable_from.induct)
  case (2 vertices v pending reached)
  have "\<forall>s\<in>set (vx_successors (vertices ! v)). s < length vertices" if "v < length vertices"
    using "2.prems"(3) nth_mem [OF that] by blast
  then have new: "\<forall>x\<in>set (rev (vx_successors (vertices ! v)) @ pending). x < length vertices" if "v < length vertices"
    using "2.prems"(1) that by auto
  show ?case
  proof (cases "v \<in> set reached")
    case True
    then show ?thesis using "2.IH"(1) "2.prems" by simp
  next
    case False
    have "v < length vertices" "\<forall>x\<in>set (bs_insert v reached). x < length vertices" using "2.prems"(1,2) by simp_all
    with False new "2.IH"(2) [OF False] "2.prems"(3) show ?thesis by simp
  qed
qed simp

lemma add_predecessors_ok:
  assumes "\<forall>x\<in>set vertices. \<forall>s\<in>set (vx_successors x). s < length vertices" "v < length vertices"
    and "edges_ok (length vertices) es" "edges_ok (length vertices) ls"
  shows "yields (add_predecessors vertices v (es, ls)) (\<lambda>(es, ls). edges_ok (length vertices) es \<and> edges_ok (length vertices) ls)"
proof -
  let ?P = "\<lambda>(es, ls). edges_ok (length vertices) es \<and> edges_ok (length vertices) ls"
  have "yields (Option.bind (vec_update s (\<lambda>vs. vs @ [v]) es) (\<lambda>es. Option.bind (vec_get vertices s) (\<lambda>successor.
      Option.bind (if vx_scope (vertices ! v) \<le> vx_scope successor then vec_update s (\<lambda>vs. vs @ [v]) ls else Some ls) (\<lambda>ls. Some (es, ls))))) ?P"
    if s: "s < length vertices" and ok: "edges_ok (length vertices) es" "edges_ok (length vertices) ls" for s es ls
  proof (rule yields_then [OF vec_update_append_ok [OF ok(1) s assms(2)]])
    fix es'
    assume "edges_ok (length vertices) es'"
    moreover have "yields (if vx_scope (vertices ! v) \<le> vx_scope (vertices ! s) then vec_update s (\<lambda>vs. vs @ [v]) ls else Some ls)
        (edges_ok (length vertices))"
      using vec_update_append_ok [OF ok(2) s assms(2)] ok(2) by simp
    ultimately show "yields (Option.bind (vec_get vertices s) (\<lambda>successor.
        Option.bind (if vx_scope (vertices ! v) \<le> vx_scope successor then vec_update s (\<lambda>vs. vs @ [v]) ls else Some ls) (\<lambda>ls. Some (es', ls)))) ?P"
      using s by (auto simp: vec_get_def intro: yields_then)
  qed
  moreover have "s < length vertices" if "s \<in> set (vx_successors (vertices ! v))" for s
    using assms(1) nth_mem [OF assms(2)] that by blast
  ultimately show ?thesis
    using assms(2-4) by (auto simp: add_predecessors_def vec_get_def intro!: yields_fold [where P = ?P])
qed

lemma add_call_ok:
  assumes "edges_ok n es" "call < n" "outcome < n"
  shows "yields (add_call reached (call, outcome) es) (edges_ok n)"
  using vec_update_append_ok [OF assms(1,3,2)] assms(1) by (simp add: add_call_def)

text \<open>Producers that are selected have locations.\<close>

definition selected_ok :: "nat \<Rightarrow> nat \<Rightarrow> nat option list \<Rightarrow> bool" where
  "selected_ok n l sel \<longleftrightarrow> length sel = n \<and> (\<forall>p. Some p \<in> set sel \<longrightarrow> p < l)"

lemma selected_ok_update: "selected_ok n l sel \<Longrightarrow> (\<forall>p. x = Some p \<longrightarrow> p < l) \<Longrightarrow> selected_ok n l (sel[i := x])"
  by (auto simp: selected_ok_def dest!: set_update_subset_insert [THEN subsetD])

lemma flood_ok:
  assumes "edges_ok n predecessors" "producer < l"
  shows "\<forall>v\<in>set pending. v < n \<Longrightarrow> selected_ok n l (fst st) \<Longrightarrow> \<forall>v\<in>set (snd st). v < n \<Longrightarrow>
    yields (flood predecessors producer pending st) (\<lambda>(sel, visited). selected_ok n l sel \<and> (\<forall>v\<in>set visited. v < n))"
  using assms
proof (induction predecessors producer pending st rule: flood.induct)
  case (1 predecessors producer st)
  then show ?case by (cases st) simp
next
  case (2 predecessors producer v pending st)
  have v: "v < n" "v < length (fst st)" "v < length predecessors"
    using "2.prems" by (auto simp: selected_ok_def edges_ok_def)
  show ?case
  proof (cases "fst st ! v = None")
    case True
    have "\<forall>x\<in>set (rev (predecessors ! v) @ pending). x < n" using "2.prems"(1,4) v by (auto simp: edges_ok_def)
    moreover have "selected_ok n l (fst ((fst st)[v := Some producer], snd st @ [v]))"
      using selected_ok_update "2.prems"(2,5) by simp
    moreover have "\<forall>x\<in>set (snd ((fst st)[v := Some producer], snd st @ [v])). x < n" using "2.prems"(3) v by auto
    ultimately show ?thesis using "2.IH"(1) [OF v(2) True v(3)] "2.prems"(4,5) v True by simp
  next
    case False
    then show ?thesis using "2.IH"(2) [OF v(2) False] "2.prems" v by auto
  qed
qed

lemma propagate_ok:
  assumes "edges_ok n predecessors" "selected_ok n l sel" "\<forall>(v, p)\<in>set producers. v < n \<and> p < l"
  shows "yields (propagate_producers predecessors producers sel) (\<lambda>(sel, visited). selected_ok n l sel \<and> (\<forall>v\<in>set visited. v < n))"
  unfolding propagate_producers_def
proof (rule yields_fold)
  fix x and st :: "nat option list \<times> nat list"
  assume "x \<in> set producers" and st: "case st of (sel, visited) \<Rightarrow> selected_ok n l sel \<and> (\<forall>v\<in>set visited. v < n)"
  then obtain v p where x: "x = (v, p)" "v < n" "p < l" using assms(3) by (cases x) auto
  with flood_ok [OF assms(1) x(3), of "[v]" st] st
  show "yields ((case x of (v, producer) \<Rightarrow> flood predecessors producer [v]) st) (\<lambda>(sel, visited). selected_ok n l sel \<and> (\<forall>v\<in>set visited. v < n))"
    by (cases st) simp
qed (use assms(2) in simp)

definition reach_ok :: "nat \<Rightarrow> nat \<Rightarrow> ProducerReach \<Rightarrow> bool" where
  "reach_ok n l pr \<longleftrightarrow> selected_ok n l (pr_lowest pr) \<and> selected_ok n l (pr_highest pr)"

lemma reach_new_ok: "reach_ok n l (producer_reach_new n)"
  by (simp add: reach_ok_def producer_reach_new_def selected_ok_def)

lemma reach_collect_ok:
  assumes "edges_ok n predecessors" "reach_ok n l pr" "\<forall>(v, p)\<in>set producers. v < n \<and> p < l"
  shows "yields (reach_collect predecessors producers pr) (\<lambda>(visited, pr). (\<forall>v\<in>set visited. v < n) \<and> reach_ok n l pr)"
  unfolding reach_collect_def
proof (rule yields_then [OF propagate_ok [OF assms(1) _ assms(3)]], use assms(2) in \<open>simp add: reach_ok_def\<close>, clarify)
  fix lowest visited
  assume low: "selected_ok n l lowest" "\<forall>v\<in>set visited. v < n"
  show "yields (Option.bind (propagate_producers predecessors (rev producers) (pr_highest pr)) (\<lambda>(highest, _).
      Some (visited, \<lparr>pr_lowest = lowest, pr_highest = highest\<rparr>))) (\<lambda>(visited, pr). (\<forall>v\<in>set visited. v < n) \<and> reach_ok n l pr)"
    by (rule yields_then [OF propagate_ok [OF assms(1), of l]]) (use assms(2,3) low in \<open>auto simp: reach_ok_def\<close>)
qed

lemma reach_clear_ok:
  assumes "reach_ok n l pr" "\<forall>v\<in>set visited. v < n"
  shows "yields (reach_clear visited pr) (reach_ok n l)"
  unfolding reach_clear_def
  by (rule yields_fold) (use assms in \<open>auto simp: vec_update_def reach_ok_def intro: selected_ok_update\<close>, auto simp: selected_ok_def)

definition range_ok :: "nat \<Rightarrow> ProducerRange \<Rightarrow> bool" where
  "range_ok l r \<longleftrightarrow> (\<forall>a b. r = Some (a, b) \<longrightarrow> a < l \<and> b < l)"

lemma selected_nth: "selected_ok n l sel \<Longrightarrow> v < n \<Longrightarrow> sel ! v = Some p \<Longrightarrow> p < l"
  by (auto simp: selected_ok_def in_set_conv_nth)

lemma reach_range_ok: "reach_ok n l pr \<Longrightarrow> v < n \<Longrightarrow> yields (reach_range pr v) (range_ok l)"
  by (cases "pr_lowest pr ! v"; cases "pr_highest pr ! v")
    (auto simp: reach_range_def vec_get_def reach_ok_def range_ok_def option_zip_def selected_nth, auto simp: selected_ok_def)

lemma range_conflict_ok: "range_ok l a \<Longrightarrow> range_ok l b \<Longrightarrow> range_ok l (range_conflict a b)"
  by (cases a; cases b) (auto simp: range_ok_def range_conflict_def option_zip_def split: if_splits)

lemma range_union_ok: "range_ok l a \<Longrightarrow> range_ok l b \<Longrightarrow> range_ok l (range_union a b)"
  by (cases "(a, b)" rule: range_union.cases) (auto simp: range_ok_def)

lemma parallel_loop_ok:
  assumes "reach_ok (length vertices) l all_reach" "reach_ok (length vertices) l local_reach"
  shows "\<forall>s\<in>set ss. s < length vertices \<Longrightarrow> range_ok l earlier \<Longrightarrow> range_ok l earlier_local \<Longrightarrow>
    yields (parallel_loop vertices scope all_reach local_reach ss earlier earlier_local) (range_ok l)"
proof (induction ss arbitrary: earlier earlier_local)
  case (Cons s ss)
  have s: "s < length vertices" using Cons.prems(1) by simp
  have none: "range_ok l None" by (simp add: range_ok_def)
  have local: "yields (if vx_scope (vertices ! s) = scope then reach_range local_reach s else Some None) (range_ok l)"
    using reach_range_ok [OF assms(2) s] none by simp
  show ?case
    unfolding parallel_loop.simps
  proof (rule yields_then [OF reach_range_ok [OF assms(1) s]])
    fix branch
    assume branch: "range_ok l branch"
    have "yields (case range_conflict earlier branch_local of Some pair \<Rightarrow> Some (Some pair)
      | None \<Rightarrow> (case range_conflict earlier_local branch of Some pair \<Rightarrow> Some (Some pair)
        | None \<Rightarrow> parallel_loop vertices scope all_reach local_reach ss (range_union earlier branch) (range_union earlier_local branch_local)))
      (range_ok l)" if branch_local: "range_ok l branch_local" for branch_local
      using range_conflict_ok [OF Cons.prems(2) branch_local] range_conflict_ok [OF Cons.prems(3) branch]
        Cons.IH [OF _ range_union_ok [OF Cons.prems(2) branch] range_union_ok [OF Cons.prems(3) branch_local]] Cons.prems(1)
      by (auto split: option.splits)
    then show "yields (Option.bind (vec_get vertices s) (\<lambda>successor.
        Option.bind (if vx_scope successor = scope then reach_range local_reach s else Some None) (\<lambda>branch_local.
        case range_conflict earlier branch_local of Some pair \<Rightarrow> Some (Some pair)
        | None \<Rightarrow> (case range_conflict earlier_local branch of Some pair \<Rightarrow> Some (Some pair)
          | None \<Rightarrow> parallel_loop vertices scope all_reach local_reach ss (range_union earlier branch) (range_union earlier_local branch_local))))) (range_ok l)"
      using s by (simp add: vec_get_def yields_then [OF local])
  qed
qed (simp add: range_ok_def)

lemma parallel_conflict_ok:
  assumes "reach_ok (length vertices) l all_reach" "reach_ok (length vertices) l local_reach" "v < length vertices"
    and "\<forall>x\<in>set vertices. \<forall>s\<in>set (vx_successors x). s < length vertices"
  shows "yields (parallel_conflict vertices v all_reach local_reach) (range_ok l)"
proof -
  have "range_ok l None" by (simp add: range_ok_def)
  moreover have "\<forall>s\<in>set (vx_successors (vertices ! v)). s < length vertices" using assms(4) nth_mem [OF assms(3)] by blast
  ultimately show ?thesis
    using parallel_loop_ok [OF assms(1,2)] assms(3) by (simp add: parallel_conflict_def vec_get_def)
qed

lemma find_range_ok:
  "(\<And>x. x \<in> set xs \<Longrightarrow> yields (f x) (range_ok l)) \<Longrightarrow> yields (find_range f p xs) (range_ok l)"
proof (induction xs)
  case (Cons x xs)
  then have "yields (find_range f p xs) (range_ok l)" by simp
  then show ?case
    unfolding find_range.simps
  proof (intro yields_then [OF Cons.prems [of x]])
    fix range
    assume "range_ok l range"
    with \<open>yields (find_range f p xs) (range_ok l)\<close>
    show "yields (case range of Some pair \<Rightarrow> if p pair then Some (Some pair) else find_range f p xs | None \<Rightarrow> find_range f p xs) (range_ok l)"
      by (cases range) simp_all
  qed simp
qed (simp add: range_ok_def)

lemma validate_slot_ok:
  assumes g: "graph_ok g" and edges: "edges_ok (length (gr_vertices g)) es" "edges_ok (length (gr_vertices g)) ls"
    and entry: "(slot, listed) \<in> set (gr_slots g)"
    and reach: "reach_ok (length (gr_vertices g)) (length (gr_locations g)) all_reach" "reach_ok (length (gr_vertices g)) (length (gr_locations g)) local_reach"
  shows "returns (validate_slot g reached es ls (slot, listed) (all_reach, local_reach)) (\<lambda>(a, b).
    reach_ok (length (gr_vertices g)) (length (gr_locations g)) a \<and> reach_ok (length (gr_vertices g)) (length (gr_locations g)) b)"
proof -
  let ?n = "length (gr_vertices g)" and ?l = "length (gr_locations g)"
  let ?producers = "sort_key snd (filter (\<lambda>(v, _). v \<in> set reached) listed)"
  have "listed \<in> set (bt_values (gr_slots g))" using entry by (force simp: bt_values_def)
  then have producers: "\<forall>(v, p)\<in>set ?producers. v < ?n \<and> p < ?l" using g by (auto simp: graph_ok_def Let_def)
  have successors: "\<forall>x\<in>set (gr_vertices g). \<forall>s\<in>set (vx_successors x). s < ?n" using g by (simp add: graph_ok_def Let_def)
  have found: "returns (case found of Some pair \<Rightarrow> map_option Inl (slot_conflict g slot pair)
      | None \<Rightarrow> Option.bind (reach_clear visited a) (\<lambda>a. Option.bind (reach_clear locally b) (\<lambda>b. Some (Inr (a, b)))))
      (\<lambda>(a, b). reach_ok ?n ?l a \<and> reach_ok ?n ?l b)"
    if "range_ok ?l found" and ok: "reach_ok ?n ?l a" "reach_ok ?n ?l b" "\<forall>v\<in>set visited. v < ?n" "\<forall>v\<in>set locally. v < ?n"
    for found visited locally a b
  proof (cases found)
    case None
    show ?thesis unfolding None option.case
      by (rule yields_returns [OF reach_clear_ok [OF ok(1,3)]], rule yields_returns [OF reach_clear_ok [OF ok(2,4)]]) simp
  next
    case (Some pair)
    with that(1) show ?thesis by (cases pair) (simp add: range_ok_def slot_conflict_def vec_get_def)
  qed
  have collected: "returns (Option.bind (find_range (reach_range a) (\<lambda>(left, right). left \<noteq> right) (map fst ?producers)) (\<lambda>nested.
        Option.bind (case nested of Some pair \<Rightarrow> Some (Some pair)
          | None \<Rightarrow> find_range (\<lambda>v. parallel_conflict (gr_vertices g) v a b) (\<lambda>_. True) visited) (\<lambda>found.
        case found of Some pair \<Rightarrow> map_option Inl (slot_conflict g slot pair)
        | None \<Rightarrow> Option.bind (reach_clear visited a) (\<lambda>a. Option.bind (reach_clear locally b) (\<lambda>b. Some (Inr (a, b)))))))
      (\<lambda>(a, b). reach_ok ?n ?l a \<and> reach_ok ?n ?l b)"
    if ok: "reach_ok ?n ?l a" "reach_ok ?n ?l b" "\<forall>v\<in>set visited. v < ?n" "\<forall>v\<in>set locally. v < ?n" for visited locally a b
  proof (rule yields_returns [OF find_range_ok [where l = ?l]])
    show "yields (reach_range a v) (range_ok ?l)" if "v \<in> set (map fst ?producers)" for v
      using that producers by (intro reach_range_ok [OF ok(1)]) auto
    fix nested
    assume nested: "range_ok ?l nested"
    have "yields (find_range (\<lambda>v. parallel_conflict (gr_vertices g) v a b) (\<lambda>_. True) visited) (range_ok ?l)"
      using ok successors by (intro find_range_ok parallel_conflict_ok) auto
    with nested have "yields (case nested of Some pair \<Rightarrow> Some (Some pair)
        | None \<Rightarrow> find_range (\<lambda>v. parallel_conflict (gr_vertices g) v a b) (\<lambda>_. True) visited) (range_ok ?l)"
      by (cases nested) simp_all
    then show "returns (Option.bind (case nested of Some pair \<Rightarrow> Some (Some pair)
          | None \<Rightarrow> find_range (\<lambda>v. parallel_conflict (gr_vertices g) v a b) (\<lambda>_. True) visited) (\<lambda>found.
        case found of Some pair \<Rightarrow> map_option Inl (slot_conflict g slot pair)
        | None \<Rightarrow> Option.bind (reach_clear visited a) (\<lambda>a. Option.bind (reach_clear locally b) (\<lambda>b. Some (Inr (a, b))))))
      (\<lambda>(a, b). reach_ok ?n ?l a \<and> reach_ok ?n ?l b)"
      by (rule yields_returns) (use found ok in blast)
  qed
  show ?thesis
  proof (cases "?producers = [] \<or> snd (hd ?producers) = snd (last ?producers)")
    case True
    then show ?thesis using reach by (auto simp: validate_slot_def Let_def)
  next
    case False
    then show ?thesis
      unfolding validate_slot_def Let_def prod.case if_not_P [OF False]
      by (intro yields_returns [OF reach_collect_ok [OF edges(1) reach(1) producers]])
        (auto intro!: yields_returns [OF reach_collect_ok [OF edges(2) reach(2) producers]] collected)
  qed
qed

lemma graph_validate_total:
  assumes g: "graph_ok g" and entry: "entry < length (gr_vertices g)"
  shows "returns (graph_validate g entry) (\<lambda>_. True)"
proof -
  let ?n = "length (gr_vertices g)" and ?l = "length (gr_locations g)"
  have successors: "\<forall>x\<in>set (gr_vertices g). \<forall>s\<in>set (vx_successors x). s < ?n" using g by (simp add: graph_ok_def Let_def)
  have empty: "edges_ok ?n (replicate ?n [])" by (simp add: edges_ok_def)
  show ?thesis
    unfolding graph_validate_def Let_def
  proof (rule yields_returns [OF reachable_from_ok [OF successors, of "[entry]" "[]"]])
    fix reached
    assume reached: "\<forall>v\<in>set reached. v < ?n"
    have edges: "yields (fold_option (add_predecessors (gr_vertices g)) reached (replicate ?n [], replicate ?n []))
        (\<lambda>(es, ls). edges_ok ?n es \<and> edges_ok ?n ls)"
      using empty reached add_predecessors_ok [OF successors] by (intro yields_fold) auto
    show "returns (Option.bind (fold_option (add_predecessors (gr_vertices g)) reached (replicate ?n [], replicate ?n []))
        (\<lambda>(es, ls). Option.bind (fold_option (add_call reached) (gr_call_outcomes g) ls) (\<lambda>ls.
          also_then (fold_checked (validate_slot g reached es ls) (gr_slots g) (producer_reach_new ?n, producer_reach_new ?n))
            (\<lambda>_. Some (Inr ()))))) (\<lambda>_. True)"
    proof (rule yields_returns [OF edges], clarify)
      fix es ls
      assume es: "edges_ok ?n es" "edges_ok ?n ls"
      have calls: "yields (fold_option (add_call reached) (gr_call_outcomes g) ls) (edges_ok ?n)"
        using g es(2) add_call_ok by (intro yields_fold) (auto simp: graph_ok_def Let_def)
      show "returns (Option.bind (fold_option (add_call reached) (gr_call_outcomes g) ls) (\<lambda>ls.
          also_then (fold_checked (validate_slot g reached es ls) (gr_slots g) (producer_reach_new ?n, producer_reach_new ?n))
            (\<lambda>_. Some (Inr ())))) (\<lambda>_. True)"
      proof (rule yields_returns [OF calls])
        fix ls
        assume ls: "edges_ok ?n ls"
        have "returns (fold_checked (validate_slot g reached es ls) (gr_slots g) (producer_reach_new ?n, producer_reach_new ?n))
            (\<lambda>(a, b). reach_ok ?n ?l a \<and> reach_ok ?n ?l b)"
          by (rule returns_fold [where P = "\<lambda>_ (a, b). reach_ok ?n ?l a \<and> reach_ok ?n ?l b"])
            (auto simp: reach_new_ok intro!: validate_slot_ok [OF g es(1) ls])
        then show "returns (also_then (fold_checked (validate_slot g reached es ls) (gr_slots g) (producer_reach_new ?n, producer_reach_new ?n))
            (\<lambda>_. Some (Inr ()))) (\<lambda>_. True)"
          by (rule returns_then) simp
      qed
    qed
  qed (use entry in simp_all)
qed

text \<open>The analysis as a whole.\<close>

lemma issue_slots_total:
  assumes "\<forall>d\<in>set (fc_definitions c). routes_closed d" "nested_within (fc_definitions c) (length (fc_definitions c)) (fc_root c)"
  shows "issue_slots_validate c \<noteq> None"
proof -
  let ?g = "\<lparr>gr_remaining = unat MAX_FLOW_EXPANDED_NODES, gr_vertices = [], gr_call_outcomes = [], gr_declarations = [],
    gr_locations = [], gr_slots = []\<rparr>"
  have "graph_ok ?g" "values_below (length (gr_vertices ?g)) []" by (simp_all add: graph_ok_def values_below_def bt_values_def)
  moreover have "nested_within (fc_definitions c) (Suc (length (fc_definitions c))) (fc_root c)"
    by (rule nested_within_mono [OF assms(2)]) simp
  ultimately have expand: "returns (expand_graph (Suc (length (fc_definitions c))) (fc_definitions c) (fc_root c) [] ?g)
      (\<lambda>(e, g'). grown (length (gr_vertices ?g)) g' \<and> e < length (gr_vertices g'))"
    by (intro expand_graph_ok [OF assms(1)])
  have "returns (also_then (expand_graph (Suc (length (fc_definitions c))) (fc_definitions c) (fc_root c) [] ?g)
      (\<lambda>(entry, g). graph_validate g entry)) (\<lambda>_. True)"
    by (rule returns_then [OF expand]) (auto simp: grown_def intro: graph_validate_total)
  from returns_total [OF this] show ?thesis by (simp add: issue_slots_validate_def Let_def del: expand_graph.simps not_None_eq)
qed

end
