(* ===== verification/Flow_Closure.thy ===== *)
theory Flow_Closure
  imports Flow_Issue_Slots_Correct
begin

text \<open>
  Validation of a pinned closure of Flow definitions, \<^verbatim>\<open>ValidatedFlowDefinitionClosure::new\<close>,
  \<^verbatim>\<open>reject_recursive_definitions\<close> and \<^verbatim>\<open>expanded_measurements\<close> in
  \<^verbatim>\<open>server/core/octacity-server-factory/src/flow/validation.rs\<close>. The recursive functions take fuel, which
  the length of the closure bounds; running out of it would be the value \<open>None\<close>.
\<close>

section \<open>Operations\<close>

type_synonym refs = "FlowDefinitionRef list"

text \<open>The state is the pair of the sets \<open>visiting\<close> and \<open>visited\<close>.\<close>

primrec reject_recursive_definitions ::
  "nat \<Rightarrow> 'b FlowDefinition list \<Rightarrow> FlowDefinitionRef \<Rightarrow> refs \<times> refs \<Rightarrow> (refs \<times> refs) checked"
where
  "reject_recursive_definitions 0 definitions r st = None"
| "reject_recursive_definitions (Suc n) definitions r st =
     (if r \<in> set (snd st) then Some (Inr st)
      else if r \<in> set (fst st) then Some (Inl (invalid ''recursive Flow Definition''))
      else case find_definition definitions r of
        None \<Rightarrow> Some (Inl (invalid ''Flow subflow version''))
      | Some d \<Rightarrow>
          also_then (fold_checked (reject_recursive_definitions n definitions) (subflows d) (bs_insert r (fst st), snd st))
            (\<lambda>st. Some (Inr (removeAll r (fst st), bs_insert r (snd st)))))"

definition checked_mul :: "'w::len word \<Rightarrow> 'w word \<Rightarrow> 'w word option" where
  "checked_mul a b = (if unat a * unat b < 2 ^ LENGTH('w) then Some (a * b) else None)"

primrec try_fold :: "('s \<Rightarrow> 'a \<Rightarrow> 's option) \<Rightarrow> 'a list \<Rightarrow> 's \<Rightarrow> 's option" where
  "try_fold f [] acc = Some acc"
| "try_fold f (x # xs) acc = (case f acc x of None \<Rightarrow> None | Some acc \<Rightarrow> try_fold f xs acc)"

definition repeat_multiplier :: "'b FlowDefinition \<Rightarrow> u32 option" where
  "repeat_multiplier d = try_fold (\<lambda>acc t. checked_mul acc (ucast (ft_max_repeats t) + 1))
     (filter (\<lambda>t. 0 < ft_max_repeats t) (fd_transitions d)) 1"

definition retry_expansion :: "'b FlowDefinition \<Rightarrow> u32 option" where
  "retry_expansion d = try_fold (\<lambda>acc n. checked_add acc (1 + ucast (fn_max_execution_retries n))) (fd_nodes d) 0"

type_synonym measurement_memo = "(FlowDefinitionRef, u32 \<times> u16) btree"

definition add_child ::
  "(FlowDefinitionRef \<Rightarrow> measurement_memo \<Rightarrow> ((u32 \<times> u16) \<times> measurement_memo) checked) \<Rightarrow> FlowDefinitionRef \<Rightarrow>
     u32 \<times> u16 \<times> measurement_memo \<Rightarrow> (u32 \<times> u16 \<times> measurement_memo) checked"
where
  "add_child measured child st = (case st of (nodes, depth, memo) \<Rightarrow>
     also_then (measured child memo) (\<lambda>((child_nodes, child_depth), memo).
       case checked_add nodes child_nodes of
         None \<Rightarrow> Some (Inl (invalid ''Flow expanded node count''))
       | Some nodes \<Rightarrow>
           (case checked_add child_depth 1 of
              None \<Rightarrow> Some (Inl (invalid ''Flow nesting depth''))
            | Some child_depth \<Rightarrow> Some (Inr (nodes, max depth child_depth, memo)))))"

primrec expanded_measurements ::
  "nat \<Rightarrow> 'b FlowDefinition list \<Rightarrow> FlowDefinitionRef \<Rightarrow> measurement_memo \<Rightarrow> ((u32 \<times> u16) \<times> measurement_memo) checked"
where
  "expanded_measurements 0 definitions r memo = None"
| "expanded_measurements (Suc n) definitions r memo =
     (case bt_get memo r of
        Some measurement \<Rightarrow> Some (Inr (measurement, memo))
      | None \<Rightarrow>
          also_then (Some (ok_or (invalid ''Flow subflow version'') (find_definition definitions r))) (\<lambda>d.
          also_then (Some (ok_or (invalid ''Flow repeat expansion'') (repeat_multiplier d))) (\<lambda>multiplier.
          also_then (Some (ok_or (invalid ''Flow node retry expansion'') (retry_expansion d))) (\<lambda>nodes.
          also_then (fold_checked (add_child (expanded_measurements n definitions)) (subflows d) (nodes, 1, memo))
            (\<lambda>(nodes, depth, memo).
          also_then (Some (ok_or (invalid ''Flow repeat expansion'') (checked_mul nodes multiplier))) (\<lambda>nodes.
          Some (Inr ((nodes, depth), bt_insert r (nodes, depth) memo))))))))"

record 'b ValidatedFlowDefinitionClosure =
  vc_closure :: "'b PinnedFlowDefinitionClosure"
  vc_limits :: FlowAdmissionLimits
  vc_expanded_nodes :: u32
  vc_max_depth :: u16

definition validated_closure_new ::
  "'b definition_checks \<Rightarrow> ('b FlowDefinition \<Rightarrow> FactoryDigest) \<Rightarrow> 'b PinnedFlowDefinitionClosure \<Rightarrow> FlowAdmissionLimits \<Rightarrow>
     'b ValidatedFlowDefinitionClosure checked"
where
  "validated_closure_new checks digest closure limits =
     (let definitions = fc_definitions closure; fuel = Suc (length definitions) in
      also_then (fold_checked (\<lambda>d _. validate_definition checks digest definitions limits d) definitions ()) (\<lambda>_.
      also_then (reject_recursive_definitions fuel definitions (fc_root closure) ([], [])) (\<lambda>_.
      also_then (expanded_measurements fuel definitions (fc_root closure) []) (\<lambda>((expanded_nodes, max_depth), _).
      if fl_max_expanded_nodes limits < expanded_nodes \<or> fl_max_depth limits < max_depth
      then Some (Inl (invalid ''Flow closure bounds''))
      else also_then (Some (ok_or (invalid ''Flow closure root'') (find_definition definitions (fc_root closure)))) (\<lambda>root.
        if \<not> fits_within (fx_budget (fd_execution root)) (fl_budget limits) \<or>
           \<not> is_no_broader_than (fx_permissions (fd_execution root)) (fl_permissions limits) \<or>
           fl_max_wip limits < fx_max_active_nodes (fd_execution root)
        then Some (Inl (invalid ''Flow admission authority''))
        else also_then (issue_slots_validate closure) (\<lambda>_.
          Some (Inr \<lparr>vc_closure = closure, vc_limits = limits, vc_expanded_nodes = expanded_nodes,
            vc_max_depth = max_depth\<rparr>)))))))"

section \<open>Nesting of definitions\<close>

definition nests :: "'b FlowDefinition list \<Rightarrow> (FlowDefinitionRef \<times> FlowDefinitionRef) set" where
  "nests ds = {(r, c). \<exists>d. find_definition ds r = Some d \<and> c \<in> set (subflows d)}"

text \<open>A reference whose definitions all exist and nest without recursion.\<close>

inductive nested_ok :: "'b FlowDefinition list \<Rightarrow> FlowDefinitionRef \<Rightarrow> bool" for ds where
  nested_okI: "find_definition ds r = Some d \<Longrightarrow> (\<And>c. c \<in> set (subflows d) \<Longrightarrow> nested_ok ds c) \<Longrightarrow> nested_ok ds r"

inductive_cases nested_okE: "nested_ok ds r"

lemma nested_ok_child:
  assumes "nested_ok ds r" and "(r, c) \<in> nests ds"
  shows "nested_ok ds c"
  using assms(1) by (rule nested_okE) (use assms(2) in \<open>simp add: nests_def\<close>)

lemma find_definition_in: "find_definition ds r = Some d \<Longrightarrow> d \<in> set ds \<and> fd_reference d = r"
  by (auto simp: find_definition_def find_Some_iff)

lemma nested_ok_known: "nested_ok ds r \<Longrightarrow> r \<in> fd_reference ` set ds"
  by (auto elim!: nested_okE dest!: find_definition_in)

lemma nested_ok_acyclic: "nested_ok ds r \<Longrightarrow> (r, r) \<notin> (nests ds)\<^sup>+"
proof (induction rule: nested_ok.induct)
  case (nested_okI r d)
  show ?case
  proof
    assume "(r, r) \<in> (nests ds)\<^sup>+"
    then obtain c where c: "(r, c) \<in> nests ds" "(c, r) \<in> (nests ds)\<^sup>*" by (meson tranclD)
    then have "c \<in> set (subflows d)" using nested_okI.hyps by (auto simp: nests_def)
    then have "(c, c) \<notin> (nests ds)\<^sup>+" using nested_okI.IH by blast
    with c show False by (meson rtrancl_into_trancl1)
  qed
qed

lemma fold_checked_Inr_Cons:
  "fold_checked f (x # xs) st = Some (Inr st') \<longleftrightarrow> (\<exists>st1. f x st = Some (Inr st1) \<and> fold_checked f xs st1 = Some (Inr st'))"
  by (auto simp: also_then_Inr_iff)

lemma fold_checked_unit:
  "fold_checked (\<lambda>x _. f x) xs () = Some (Inr ()) \<longleftrightarrow> (\<forall>x\<in>set xs. f x = Some (Inr ()))"
  by (induction xs) (auto simp: also_then_Inr_iff)

lemma fold_checked_invariant:
  assumes "fold_checked f xs st = Some (Inr st')" and "P st"
    and "\<And>x st st'. x \<in> set xs \<Longrightarrow> P st \<Longrightarrow> f x st = Some (Inr st') \<Longrightarrow> P st' \<and> Q x"
  shows "P st' \<and> (\<forall>x\<in>set xs. Q x)"
  using assms
proof (induction xs arbitrary: st)
  case (Cons x xs)
  from Cons.prems(1) obtain st1 where st1: "f x st = Some (Inr st1)" "fold_checked f xs st1 = Some (Inr st')"
    by (auto simp: also_then_Inr_iff)
  with Cons.prems(2,3) have "P st1" "Q x" by auto
  moreover have "P st' \<and> (\<forall>x\<in>set xs. Q x)"
    by (rule Cons.IH [OF st1(2) \<open>P st1\<close>]) (use Cons.prems(3) in \<open>meson list.set_intros(2)\<close>)
  ultimately show ?case by simp
qed simp

lemma fold_checked_error:
  assumes "fold_checked f xs st = Some (Inl e)" and "P st"
    and "\<And>x st st'. x \<in> set xs \<Longrightarrow> P st \<Longrightarrow> f x st = Some (Inr st') \<Longrightarrow> P st'"
  shows "\<exists>x\<in>set xs. \<exists>st. P st \<and> f x st = Some (Inl e)"
  using assms
proof (induction xs arbitrary: st)
  case (Cons x xs)
  show ?case
  proof (cases "f x st = Some (Inl e)")
    case False
    with Cons.prems(1) obtain st1 where st1: "f x st = Some (Inr st1)" "fold_checked f xs st1 = Some (Inl e)"
      by (auto simp: also_then_def split: option.splits sum.splits)
    then have "P st1" using Cons.prems(2,3) by auto
    with Cons.IH [OF st1(2)] Cons.prems(3) show ?thesis by auto
  qed (use Cons.prems in auto)
qed simp

lemma fold_checked_total:
  assumes "P st" and "\<And>x st. x \<in> set xs \<Longrightarrow> P st \<Longrightarrow> f x st \<noteq> None"
    and "\<And>x st st'. x \<in> set xs \<Longrightarrow> P st \<Longrightarrow> f x st = Some (Inr st') \<Longrightarrow> P st'"
  shows "fold_checked f xs st \<noteq> None"
  using assms
proof (induction xs arbitrary: st)
  case (Cons x xs)
  show ?case
  proof
    assume "fold_checked f (x # xs) st = None"
    then obtain st1 where st1: "f x st = Some (Inr st1)" "fold_checked f xs st1 = None"
      using Cons.prems(1) Cons.prems(2) [of x st] by (auto simp: also_then_None_iff)
    then have "P st1" using Cons.prems(1,3) by auto
    then have "fold_checked f xs st1 \<noteq> None" by (rule Cons.IH) (use Cons.prems(2,3) in \<open>meson list.set_intros(2)\<close>)+
    with st1 show False by simp
  qed
qed simp

lemma reject_recursive_step:
  assumes "reject_recursive_definitions (Suc n) ds r st = Some (Inr st')" and "r \<notin> set (snd st)"
  obtains d st1 where "r \<notin> set (fst st)" and "find_definition ds r = Some d"
    and "fold_checked (reject_recursive_definitions n ds) (subflows d) (bs_insert r (fst st), snd st) = Some (Inr st1)"
    and "st' = (removeAll r (fst st1), bs_insert r (snd st1))"
  using assms by (auto simp: also_then_Inr_iff split: if_splits option.splits)

text \<open>An accepted visit leaves the visited references without recursion and restores \<open>visiting\<close>.\<close>

lemma reject_recursive_sound:
  "reject_recursive_definitions n ds r st = Some (Inr st') \<Longrightarrow> \<forall>v\<in>set (snd st). nested_ok ds v \<Longrightarrow>
     nested_ok ds r \<and> set (fst st') = set (fst st) \<and> (\<forall>v\<in>set (snd st'). nested_ok ds v)"
proof (induction n arbitrary: r st st')
  case (Suc n)
  show ?case
  proof (cases "r \<in> set (snd st)")
    case False
    with Suc.prems(1) obtain d st1 where fresh: "r \<notin> set (fst st)" and d: "find_definition ds r = Some d"
      and fold: "fold_checked (reject_recursive_definitions n ds) (subflows d) (bs_insert r (fst st), snd st) = Some (Inr st1)"
      and st': "st' = (removeAll r (fst st1), bs_insert r (snd st1))"
      by (rule reject_recursive_step)
    let ?P = "\<lambda>s. set (fst s) = insert r (set (fst st)) \<and> (\<forall>v\<in>set (snd s). nested_ok ds v)"
    have "?P st1 \<and> (\<forall>c\<in>set (subflows d). nested_ok ds c)"
      using fold
    proof (rule fold_checked_invariant)
      show "?P (bs_insert r (fst st), snd st)" using Suc.prems(2) by simp
      show "?P s' \<and> nested_ok ds c" if "?P s" "reject_recursive_definitions n ds c s = Some (Inr s')" for c s s'
        using Suc.IH [OF that(2)] that(1) by simp
    qed
    with d st' fresh show ?thesis by (auto intro: nested_okI)
  qed (use Suc.prems in auto)
qed simp

lemma reject_recursive_restores:
  "reject_recursive_definitions n ds r st = Some (Inr st') \<Longrightarrow> set (fst st') = set (fst st)"
proof (induction n arbitrary: r st st')
  case (Suc n)
  show ?case
  proof (cases "r \<in> set (snd st)")
    case False
    with Suc.prems obtain d st1 where fresh: "r \<notin> set (fst st)" and "find_definition ds r = Some d"
      and fold: "fold_checked (reject_recursive_definitions n ds) (subflows d) (bs_insert r (fst st), snd st) = Some (Inr st1)"
      and st': "st' = (removeAll r (fst st1), bs_insert r (snd st1))"
      by (rule reject_recursive_step)
    have "set (fst st1) = insert r (set (fst st)) \<and> (\<forall>c\<in>set (subflows d). True)"
      using fold by (rule fold_checked_invariant) (use Suc.IH in auto)
    with st' fresh show ?thesis by auto
  qed (use Suc.prems in auto)
qed simp

text \<open>A rejection is a recursion or a missing definition.\<close>

lemma reject_recursive_complete:
  "reject_recursive_definitions n ds r st = Some (Inl e) \<Longrightarrow> \<forall>v\<in>set (fst st). (v, r) \<in> (nests ds)\<^sup>+ \<Longrightarrow> \<not> nested_ok ds r"
proof (induction n arbitrary: r st)
  case (Suc n)
  show ?case
  proof (cases "r \<in> set (fst st)")
    case True
    with Suc.prems nested_ok_acyclic show ?thesis by blast
  next
    case fresh: False
    show ?thesis
    proof (cases "find_definition ds r")
      case None
      then show ?thesis by (auto elim: nested_okE)
    next
      case (Some d)
      with fresh Suc.prems(1) have
        "fold_checked (reject_recursive_definitions n ds) (subflows d) (bs_insert r (fst st), snd st) = Some (Inl e)"
        by (auto simp: also_then_def split: if_splits option.splits sum.splits)
      then have "\<exists>c\<in>set (subflows d). \<exists>s. set (fst s) = insert r (set (fst st)) \<and>
          reject_recursive_definitions n ds c s = Some (Inl e)"
        by (rule fold_checked_error) (simp, metis reject_recursive_restores)
      then obtain c s where c: "c \<in> set (subflows d)" "set (fst s) = insert r (set (fst st))"
        "reject_recursive_definitions n ds c s = Some (Inl e)" by blast
      have edge: "(r, c) \<in> nests ds" using Some c(1) by (auto simp: nests_def)
      then have "\<forall>v\<in>set (fst s). (v, c) \<in> (nests ds)\<^sup>+"
        using c(2) Suc.prems(2) by (auto intro: trancl.trancl_into_trancl)
      then have "\<not> nested_ok ds c" by (rule Suc.IH [OF c(3)])
      with nested_ok_child edge show ?thesis by blast
    qed
  qed
qed simp

lemma reject_recursive_total:
  "card (fd_reference ` set ds - set (fst st)) < n \<Longrightarrow> reject_recursive_definitions n ds r st \<noteq> None"
proof (induction n arbitrary: r st)
  case (Suc n)
  show ?case
  proof (cases "r \<in> set (snd st) \<or> r \<in> set (fst st)")
    case False
    show ?thesis
    proof (cases "find_definition ds r")
      case (Some d)
      let ?P = "\<lambda>s. set (fst s) = insert r (set (fst st))"
      have "r \<in> fd_reference ` set ds" using find_definition_in [OF Some] by blast
      then have "card (fd_reference ` set ds - insert r (set (fst st))) < card (fd_reference ` set ds - set (fst st))"
        using False by (intro psubset_card_mono) auto
      then have "card (fd_reference ` set ds - insert r (set (fst st))) < n" using Suc.prems by simp
      then have "fold_checked (reject_recursive_definitions n ds) (subflows d) (bs_insert r (fst st), snd st) \<noteq> None"
        using Suc.IH by (intro fold_checked_total [where P = ?P]) (simp, simp, metis reject_recursive_restores)
      with Some False show ?thesis by (auto simp: also_then_None_iff)
    qed (use False in auto)
  qed auto
qed simp

section \<open>Measurements\<close>

text \<open>What the measurements mean over the natural numbers.\<close>

definition repeat_product :: "'b FlowDefinition \<Rightarrow> nat" where
  "repeat_product d = prod_list (map (\<lambda>t. unat (ft_max_repeats t) + 1) (fd_transitions d))"

definition executions :: "'b FlowDefinition \<Rightarrow> nat" where
  "executions d = sum_list (map (\<lambda>n. unat (fn_max_execution_retries n) + 1) (fd_nodes d))"

inductive expands :: "'b FlowDefinition list \<Rightarrow> FlowDefinitionRef \<Rightarrow> nat \<Rightarrow> nat \<Rightarrow> bool" for ds where
  expandsI: "find_definition ds r = Some d \<Longrightarrow>
     list_all2 (\<lambda>c m. expands ds c (fst m) (snd m)) (subflows d) ms \<Longrightarrow>
     expands ds r (repeat_product d * (executions d + sum_list (map fst ms))) (foldl (\<lambda>k m. max k (snd m + 1)) 1 ms)"

lemma expands_unique: "expands ds r N D \<Longrightarrow> expands ds r N' D' \<Longrightarrow> N' = N \<and> D' = D"
proof (induction arbitrary: N' D' rule: expands.induct)
  case (expandsI r d ms)
  note IH = expandsI.IH and found = expandsI.hyps(1)
  from expandsI.prems show ?case
  proof (cases rule: expands.cases)
    case (expandsI d' ms')
    have d: "d' = d" using expandsI(3) found by simp
    note ms' = expandsI(4) [unfolded d]
    have "ms' = ms"
    proof (rule nth_equalityI)
      show len: "length ms' = length ms" using list_all2_lengthD [OF ms'] list_all2_lengthD [OF IH] by simp
      show "ms' ! i = ms ! i" if "i < length ms'" for i
      proof (rule prod_eqI)
        have i: "i < length (subflows d)" using that list_all2_lengthD [OF ms'] by simp
        from list_all2_nthD [OF IH i]
        have unique: "expands ds (subflows d ! i) x y \<Longrightarrow> x = fst (ms ! i) \<and> y = snd (ms ! i)" for x y by simp
        from unique [OF list_all2_nthD [OF ms' i]]
        show "fst (ms' ! i) = fst (ms ! i)" "snd (ms' ! i) = snd (ms ! i)" by simp_all
      qed
    qed
    with expandsI(1,2) d show ?thesis by simp
  qed
qed

lemma foldl_max_ge: "(k :: nat) \<le> foldl (\<lambda>k m. max k (f m)) k ms \<and> (\<forall>m\<in>set ms. f m \<le> foldl (\<lambda>k m. max k (f m)) k ms)"
proof (induction ms arbitrary: k)
  case (Cons m ms)
  from Cons [of "max k (f m)"] show ?case by auto
qed simp

lemma expands_nested_ok: "expands ds r N D \<Longrightarrow> nested_ok ds r"
proof (induction rule: expands.induct)
  case (expandsI r d ms)
  then have "nested_ok ds c" if "c \<in> set (subflows d)" for c
    using that by (auto simp: list_all2_conv_all_nth in_set_conv_nth)
  with expandsI.hyps(1) show ?case by (rule nested_ok.nested_okI)
qed

lemma foldl_max_le: "(k :: nat) \<le> B \<Longrightarrow> \<forall>m\<in>set ms. f m \<le> B \<Longrightarrow> foldl (\<lambda>k m. max k (f m)) k ms \<le> B"
  by (induction ms arbitrary: k) auto

lemma nested_ok_expands:
  "nested_ok ds r \<Longrightarrow> \<exists>N D. expands ds r N D \<and> D \<le> card {c. (r, c) \<in> (nests ds)\<^sup>* \<and> nested_ok ds c}"
proof (induction rule: nested_ok.induct)
  case (nested_okI r d)
  let ?below = "\<lambda>r. {c. (r, c) \<in> (nests ds)\<^sup>* \<and> nested_ok ds c}"
  have r: "nested_ok ds r" using nested_okI.hyps by (rule nested_ok.nested_okI)
  have "\<forall>c\<in>set (subflows d). \<exists>m. expands ds c (fst m) (snd m) \<and> snd m \<le> card (?below c)"
    using nested_okI.IH by fastforce
  from bchoice [OF this] obtain m where
    m: "\<And>c. c \<in> set (subflows d) \<Longrightarrow> expands ds c (fst (m c)) (snd (m c)) \<and> snd (m c) \<le> card (?below c)" by blast
  let ?ms = "map m (subflows d)"
  have "list_all2 (\<lambda>c m. expands ds c (fst m) (snd m)) (subflows d) ?ms"
    using m by (simp add: list_all2_conv_all_nth)
  with nested_okI.hyps(1) have "expands ds r (repeat_product d * (executions d + sum_list (map fst ?ms)))
      (foldl (\<lambda>k m. max k (snd m + 1)) 1 ?ms)" by (rule expandsI)
  moreover have "foldl (\<lambda>k m. max k (snd m + 1)) 1 ?ms \<le> card (?below r)"
  proof (rule foldl_max_le)
    have "?below r \<subseteq> fd_reference ` set ds"
      using nested_ok_known by blast
    then have fin: "finite (?below r)" by (rule finite_subset) simp
    then show "1 \<le> card (?below r)" using r card_gt_0_iff [of "?below r"] by (metis (mono_tags, lifting) One_nat_def Suc_leI empty_iff mem_Collect_eq rtrancl.rtrancl_refl)
    show "\<forall>x\<in>set ?ms. snd x + 1 \<le> card (?below r)"
    proof
      fix x assume "x \<in> set ?ms"
      then obtain c where c: "c \<in> set (subflows d)" "x = m c" by auto
      have edge: "(r, c) \<in> nests ds" using nested_okI.hyps(1) c(1) by (auto simp: nests_def)
      have "r \<notin> ?below c" using nested_ok_acyclic [OF r] edge by (auto dest: rtrancl_into_trancl2)
      moreover have "?below c \<subseteq> ?below r" using edge by (auto intro: converse_rtrancl_into_rtrancl)
      moreover have "r \<in> ?below r" using r by simp
      ultimately have "card (?below c) < card (?below r)" by (intro psubset_card_mono [OF fin]) auto
      with m [OF c(1)] c(2) show "snd x + 1 \<le> card (?below r)" by simp
    qed
  qed
  ultimately show ?case by blast
qed

lemma nested_depth_bounded:
  assumes "nested_ok ds r"
  obtains N D where "expands ds r N D" and "D \<le> length ds"
proof -
  have "{c. (r, c) \<in> (nests ds)\<^sup>* \<and> nested_ok ds c} \<subseteq> fd_reference ` set ds"
    using nested_ok_known by blast
  then have "card {c. (r, c) \<in> (nests ds)\<^sup>* \<and> nested_ok ds c} \<le> card (fd_reference ` set ds)" by (intro card_mono) auto
  also have "\<dots> \<le> length ds" by (metis card_image_le card_length finite_set le_trans)
  finally show ?thesis using nested_ok_expands [OF assms] that by fastforce
qed

text \<open>The checked arithmetic.\<close>

lemma unat_ucast_Suc: "unat (ucast (x :: u16) + 1 :: u32) = unat x + 1" "unat (1 + ucast (x :: u16) :: u32) = unat x + 1"
proof -
  have "unat x < 2 ^ 16" using unsigned_less [of x, where 'a = nat] by simp
  then have "unat (ucast x :: u32) = unat x" "unat x + 1 < 2 ^ 32"
    by (simp_all add: unsigned_ucast_eq take_bit_nat_eq_self)
  then show "unat (ucast x + 1 :: u32) = unat x + 1" by (simp add: unat_word_ariths)
  then show "unat (1 + ucast x :: u32) = unat x + 1" by (simp add: add.commute)
qed

lemma checked_mul_cases:
  "(case checked_mul a (b :: 'w::len word) of
      None \<Rightarrow> 2 ^ LENGTH('w) \<le> unat a * unat b
    | Some c \<Rightarrow> unat c = unat a * unat b)"
  by (simp add: checked_mul_def unat_word_ariths)

lemma checked_add_cases:
  "(case checked_add a (b :: 'w::len word) of
      None \<Rightarrow> 2 ^ LENGTH('w) \<le> unat a + unat b
    | Some c \<Rightarrow> unat c = unat a + unat b)"
  by (simp add: checked_add_def unat_word_ariths)

lemma prod_list_pos: "1 \<le> prod_list (map (\<lambda>x. f x + (1::nat)) xs)"
  by (induction xs) auto

text \<open>A fold of checked operations computes the exact result, or fails when that result is too large.\<close>

locale checked_fold =
  fixes step :: "'w::len word \<Rightarrow> 'a \<Rightarrow> 'w word option" and exact :: "nat \<Rightarrow> 'a \<Rightarrow> nat"
  assumes step_Some: "step acc x = Some acc' \<Longrightarrow> unat acc' = exact (unat acc) x"
    and step_None: "step acc x = None \<Longrightarrow> 2 ^ LENGTH('w) \<le> exact (unat acc) x"
    and growing: "a \<le> exact a x"
begin

lemma exact_growing: "a \<le> foldl exact a xs"
  by (induction xs arbitrary: a) (auto intro: order_trans growing)

lemma try_fold_exact:
  "case try_fold step xs acc of
     None \<Rightarrow> 2 ^ LENGTH('w) \<le> foldl exact (unat acc) xs
   | Some acc' \<Rightarrow> unat acc' = foldl exact (unat acc) xs"
proof (induction xs arbitrary: acc)
  case (Cons x xs)
  show ?case
  proof (cases "step acc x")
    case None
    then have "2 ^ LENGTH('w) \<le> exact (unat acc) x" by (rule step_None)
    also have "\<dots> \<le> foldl exact (exact (unat acc) x) xs" by (rule exact_growing)
    finally show ?thesis using None by simp
  next
    case (Some acc')
    then show ?thesis using Cons [of acc'] step_Some [OF Some] by (simp split: option.split_asm option.split)
  qed
qed simp

end

interpretation multiply: checked_fold "\<lambda>acc (t :: FlowTransition). checked_mul acc (ucast (ft_max_repeats t) + 1 :: u32)"
  "\<lambda>a t. a * (unat (ft_max_repeats t) + 1)"
proof
  fix acc acc' :: u32 and t :: FlowTransition
  show "checked_mul acc (ucast (ft_max_repeats t) + 1) = Some acc' \<Longrightarrow> unat acc' = unat acc * (unat (ft_max_repeats t) + 1)"
    using checked_mul_cases [of acc "ucast (ft_max_repeats t) + 1"] by (simp add: unat_ucast_Suc)
  show "checked_mul acc (ucast (ft_max_repeats t) + 1) = None \<Longrightarrow>
      2 ^ LENGTH(32) \<le> unat acc * (unat (ft_max_repeats t) + 1)"
    using checked_mul_cases [of acc "ucast (ft_max_repeats t) + 1"] by (simp add: unat_ucast_Suc)
qed simp

interpretation accumulate: checked_fold "\<lambda>acc (n :: 'b FlowNodeDefinition). checked_add acc (1 + ucast (fn_max_execution_retries n) :: u32)"
  "\<lambda>a n. a + (unat (fn_max_execution_retries n) + 1)"
proof
  fix acc acc' :: u32 and n :: "'b FlowNodeDefinition"
  show "checked_add acc (1 + ucast (fn_max_execution_retries n)) = Some acc' \<Longrightarrow>
      unat acc' = unat acc + (unat (fn_max_execution_retries n) + 1)"
    using checked_add_cases [of acc "1 + ucast (fn_max_execution_retries n)"] by (simp add: unat_ucast_Suc)
  show "checked_add acc (1 + ucast (fn_max_execution_retries n)) = None \<Longrightarrow>
      2 ^ LENGTH(32) \<le> unat acc + (unat (fn_max_execution_retries n) + 1)"
    using checked_add_cases [of acc "1 + ucast (fn_max_execution_retries n)"] by (simp add: unat_ucast_Suc)
qed simp

lemma foldl_times: "foldl (\<lambda>a t. a * f t) a ts = a * prod_list (map f ts)" for a :: nat
  by (induction ts arbitrary: a) (simp_all add: mult.assoc)

lemma foldl_plus: "foldl (\<lambda>a t. a + f t) a ts = a + sum_list (map f ts)" for a :: nat
  by (induction ts arbitrary: a) (simp_all add: add.assoc)

lemma repeat_product_filtered:
  "prod_list (map (\<lambda>t. unat (ft_max_repeats t) + 1) (filter (\<lambda>t. 0 < ft_max_repeats t) ts)) =
   prod_list (map (\<lambda>t. unat (ft_max_repeats t) + 1) ts)"
  by (induction ts) (auto simp: word_gt_0)

lemma repeat_multiplier_exact:
  "case repeat_multiplier d of None \<Rightarrow> 2 ^ 32 \<le> repeat_product d | Some m \<Rightarrow> unat m = repeat_product d"
  using multiply.try_fold_exact [of 1 "filter (\<lambda>t. 0 < ft_max_repeats t) (fd_transitions d)"]
  unfolding repeat_multiplier_def repeat_product_def foldl_times repeat_product_filtered by (auto split: option.splits)

lemma retry_expansion_exact:
  "case retry_expansion d of None \<Rightarrow> 2 ^ 32 \<le> executions d | Some m \<Rightarrow> unat m = executions d"
  using accumulate.try_fold_exact [of 0 "fd_nodes d"]
  unfolding retry_expansion_def executions_def foldl_plus by (auto split: option.splits)

definition memo_ok :: "'b FlowDefinition list \<Rightarrow> measurement_memo \<Rightarrow> bool" where
  "memo_ok ds memo \<longleftrightarrow> (\<forall>r v. bt_get memo r = Some v \<longrightarrow> expands ds r (unat (fst v)) (unat (snd v)))"

text \<open>A measured reference has its exact expansion, or fails because that is too large for the result.\<close>

definition measures :: "'b FlowDefinition list \<Rightarrow> nat \<Rightarrow> nat \<Rightarrow> ((u32 \<times> u16) \<times> measurement_memo) checked \<Rightarrow> bool" where
  "measures ds N D result \<longleftrightarrow>
     (\<exists>e. result = Some (Inl e) \<and> 2 ^ 32 \<le> N) \<or>
     (\<exists>nodes depth memo. result = Some (Inr ((nodes, depth), memo)) \<and> unat nodes = N \<and> unat depth = D \<and> memo_ok ds memo)"

lemma unat_max: "unat (max a b) = max (unat a) (unat b)"
  by (simp add: max_def word_le_nat_alt)

lemma add_children_exact:
  assumes "list_all2 (\<lambda>c m. \<forall>memo. memo_ok ds memo \<longrightarrow> measures ds (fst m) (snd m) (measured c memo)) cs ms"
    and "memo_ok ds memo" and "\<forall>m\<in>set ms. snd m + 1 < 2 ^ 16"
  shows "(\<exists>e. fold_checked (add_child measured) cs (nodes, depth, memo) = Some (Inl e) \<and>
        2 ^ 32 \<le> unat nodes + sum_list (map fst ms)) \<or>
     (\<exists>nodes' depth' memo'. fold_checked (add_child measured) cs (nodes, depth, memo) = Some (Inr (nodes', depth', memo')) \<and>
        unat nodes' = unat nodes + sum_list (map fst ms) \<and>
        unat depth' = foldl (\<lambda>k m. max k (snd m + 1)) (unat depth) ms \<and> memo_ok ds memo')"
  using assms
proof (induction arbitrary: nodes depth memo rule: list_all2_induct)
  case Nil
  then show ?case by simp
next
  case (Cons c cs m ms)
  from Cons.hyps(1) Cons.prems(1) have "measures ds (fst m) (snd m) (measured c memo)" by blast
  then consider (fails) e where "measured c memo = Some (Inl e)" "2 ^ 32 \<le> fst m"
    | (counts) n k memo1 where "measured c memo = Some (Inr ((n, k), memo1))" "unat n = fst m" "unat k = snd m" "memo_ok ds memo1"
    unfolding measures_def by blast
  then show ?case
  proof cases
    case fails
    then show ?thesis by (simp add: add_child_def)
  next
    case counts
    have "unat k + 1 < 2 ^ 16" using Cons.prems(2) counts(3) by simp
    then obtain k1 where k1: "checked_add k 1 = Some k1" "unat k1 = snd m + 1"
      using checked_add_cases [of k 1] counts(3) by (cases "checked_add k 1") auto
    show ?thesis
    proof (cases "checked_add nodes n")
      case None
      then have "2 ^ 32 \<le> unat nodes + fst m" using checked_add_cases [of nodes n] counts(2) by simp
      then show ?thesis using None counts(1) by (simp add: add_child_def)
    next
      case (Some nodes1)
      then have nodes1: "unat nodes1 = unat nodes + fst m" using checked_add_cases [of nodes n] counts(2) by simp
      have step: "add_child measured c (nodes, depth, memo) = Some (Inr (nodes1, max depth k1, memo1))"
        using Some counts(1) k1(1) by (simp add: add_child_def)
      from Cons.IH [OF counts(4), of nodes1 "max depth k1"] Cons.prems(2)
      show ?thesis unfolding fold_checked.simps step also_then_simps by (simp add: nodes1 k1(2) unat_max add.assoc)
    qed
  qed
qed

lemma expanded_measurements_exact:
  assumes "\<forall>d\<in>set ds. fd_nodes d \<noteq> []"
  shows "expands ds r N D \<Longrightarrow> D \<le> n \<Longrightarrow> D < 2 ^ 16 \<Longrightarrow> memo_ok ds memo \<Longrightarrow>
    measures ds N D (expanded_measurements n ds r memo)"
proof (induction arbitrary: n memo rule: expands.induct)
  case (expandsI r d ms)
  let ?N = "repeat_product d * (executions d + sum_list (map fst ms))" and ?D = "foldl (\<lambda>k m. max k (snd m + 1)) 1 ms"
  have self: "expands ds r ?N ?D"
    using expandsI.hyps(1) by (rule expands.expandsI) (rule list_all2_mono [OF expandsI.IH], blast)
  have depths: "\<forall>m\<in>set ms. snd m + 1 \<le> ?D" "1 \<le> ?D" using foldl_max_ge [of 1 "\<lambda>m. snd m + 1" ms] by auto
  obtain n' where n: "n = Suc n'" using depths(2) expandsI.prems(1) by (cases n) auto
  have pos: "1 \<le> executions d"
    using assms find_definition_in [OF expandsI.hyps(1)] by (cases "fd_nodes d") (auto simp: executions_def)
  show ?case
  proof (cases "bt_get memo r")
    case (Some v)
    with expandsI.prems(3) have "expands ds r (unat (fst v)) (unat (snd v))" unfolding memo_ok_def by blast
    with expands_unique [OF self] have "unat (fst v) = ?N" "unat (snd v) = ?D" by blast+
    with Some n expandsI.prems(3) show ?thesis by (auto simp: measures_def prod_eq_iff)
  next
    case fresh: None
    have children: "list_all2 (\<lambda>c m. \<forall>memo. memo_ok ds memo \<longrightarrow>
        measures ds (fst m) (snd m) (expanded_measurements n' ds c memo)) (subflows d) ms"
      unfolding list_all2_conv_all_nth
    proof (intro conjI allI impI)
      show len: "length (subflows d) = length ms" using expandsI.IH by (rule list_all2_lengthD)
      fix i memo assume i: "i < length (subflows d)" and memo: "memo_ok ds memo"
      have "snd (ms ! i) + 1 \<le> ?D" using depths(1) i len by simp
      then have "snd (ms ! i) \<le> n'" "snd (ms ! i) < 2 ^ 16" using expandsI.prems(1,2) n by simp_all
      with list_all2_nthD [OF expandsI.IH i] memo
      show "measures ds (fst (ms ! i)) (snd (ms ! i)) (expanded_measurements n' ds (subflows d ! i) memo)" by simp
    qed
    show ?thesis
    proof (cases "repeat_multiplier d")
      case None
      have "2 ^ 32 \<le> repeat_product d" using repeat_multiplier_exact [of d] None by simp
      also have "\<dots> \<le> ?N" using pos by simp
      finally show ?thesis using None n fresh expandsI.hyps(1) by (simp add: measures_def ok_or_def)
    next
      case multiplier: (Some multiplier)
      have prod: "unat multiplier = repeat_product d" using repeat_multiplier_exact [of d] multiplier by simp
      have prod_pos: "1 \<le> repeat_product d" unfolding repeat_product_def by (rule prod_list_pos)
      have scaled: "x \<le> repeat_product d * x" for x :: nat using prod_pos by simp
      show ?thesis
      proof (cases "retry_expansion d")
        case None
        have "2 ^ 32 \<le> executions d" using retry_expansion_exact [of d] None by simp
        also have "\<dots> \<le> ?N" using scaled [of "executions d + sum_list (map fst ms)"] by linarith
        finally show ?thesis using None n fresh multiplier expandsI.hyps(1) by (simp add: measures_def ok_or_def)
      next
        case (Some nodes)
        have own: "unat nodes = executions d" using retry_expansion_exact [of d] Some by simp
        have bound: "\<forall>m\<in>set ms. snd m + 1 < 2 ^ 16" using depths(1) expandsI.prems(2) by auto
        note run = n fresh multiplier Some expandsI.hyps(1) ok_or_def
        from add_children_exact [OF children expandsI.prems(3) bound, of nodes 1]
        consider (fails) e where "fold_checked (add_child (expanded_measurements n' ds)) (subflows d) (nodes, 1, memo) = Some (Inl e)"
            "2 ^ 32 \<le> executions d + sum_list (map fst ms)"
          | (counts) nodes' depth' memo' where
            "fold_checked (add_child (expanded_measurements n' ds)) (subflows d) (nodes, 1, memo) = Some (Inr (nodes', depth', memo'))"
            "unat nodes' = executions d + sum_list (map fst ms)" "unat depth' = ?D" "memo_ok ds memo'"
          unfolding own by auto
        then show ?thesis
        proof cases
          case fails
          have "2 ^ 32 \<le> ?N" using fails(2) scaled [of "executions d + sum_list (map fst ms)"] by linarith
          then show ?thesis using fails(1) by (simp add: run measures_def)
        next
          case counts
          have times: "unat nodes' * unat multiplier = ?N" by (simp add: counts(2) prod mult.commute)
          show ?thesis
          proof (cases "checked_mul nodes' multiplier")
            case None
            then show ?thesis using counts(1) checked_mul_cases [of nodes' multiplier] times by (simp add: run measures_def)
          next
            case (Some result)
            then have "unat result = ?N" using checked_mul_cases [of nodes' multiplier] times by simp
            moreover from this have "memo_ok ds (bt_insert r (result, depth') memo')"
              using counts(3,4) self by (auto simp: memo_ok_def bt_get_insert)
            ultimately show ?thesis using Some counts(1,3) by (simp add: run measures_def)
          qed
        qed
      qed
    qed
  qed
qed

section \<open>Pinning\<close>

lemma nests_perm:
  assumes "distinct (map fd_reference ds)"
  shows "nests (sort_key fd_reference ds) = nests ds"
proof -
  have "find_definition (sort_key fd_reference ds) r = find_definition ds r" for r
  proof (cases "find_definition ds r")
    case None
    then have "\<forall>d\<in>set ds. fd_reference d \<noteq> r" by (auto simp: find_definition_def find_None_iff)
    then have "find_definition (sort_key fd_reference ds) r = None" by (simp add: find_definition_def find_None_iff)
    with None show ?thesis by simp
  next
    case (Some d)
    moreover obtain d' where d': "find_definition (sort_key fd_reference ds) r = Some d'"
      using find_definition_in [OF Some] by (cases "find_definition (sort_key fd_reference ds) r")
        (auto simp: find_definition_def find_None_iff)
    moreover have "d' = d"
      using find_definition_in [OF Some] find_definition_in [OF d'] assms by (auto simp: distinct_map inj_on_def)
    ultimately show ?thesis by simp
  qed
  then show ?thesis by (simp add: nests_def)
qed

lemma pin_nested_exact:
  "case pin_nested known rs st of
     Inl e \<Rightarrow> e = invalid_closure \<and> \<not> set rs \<subseteq> set known
   | Inr st' \<Rightarrow> set rs \<subseteq> set known \<and> set (fst st') = set (fst st) \<union> set rs \<and>
       set (snd st') = set (snd st) \<union> (set rs - set (fst st)) \<and> (bs_wf (fst st) \<longrightarrow> bs_wf (fst st'))"
proof (induction rs arbitrary: st)
  case (Cons r rs)
  let ?st = "if r \<in> set (fst st) then st else (bs_insert r (fst st), r # snd st)"
  show ?case
  proof (cases "r \<in> set known")
    case True
    then have "pin_nested known (r # rs) st = pin_nested known rs ?st" by simp
    with True Cons [of ?st] show ?thesis by (auto simp: bs_wf_insert split: sum.splits if_splits)
  qed simp
qed simp

text \<open>The references that were reached are closed under nesting, except for those still pending.\<close>

definition pin_invariant :: "'b FlowDefinition list \<Rightarrow> refs \<Rightarrow> FlowDefinitionRef \<Rightarrow> refs \<Rightarrow> refs \<Rightarrow> bool" where
  "pin_invariant ds known root reached pending \<longleftrightarrow>
     set known = fd_reference ` set ds \<and> bs_wf reached \<and> root \<in> set reached \<and> set pending \<subseteq> set reached \<and> set reached \<subseteq> set known \<inter> (nests ds)\<^sup>* `` {root} \<and>
     (\<forall>r\<in>set reached - set pending. nests ds `` {r} \<subseteq> set reached)"

lemma pin_invariant_step:
  assumes inv: "pin_invariant ds known root reached (r # rest)" and d: "find_definition ds r = Some d"
    and st: "pin_nested known (subflows d) (reached, rest) = Inr st"
  shows "pin_invariant ds known root (fst st) (snd st)"
proof -
  have nests: "nests ds `` {r} = set (subflows d)" using d by (auto simp: nests_def)
  have exact: "set (subflows d) \<subseteq> set known" "set (fst st) = set reached \<union> set (subflows d)"
      "set (snd st) = set rest \<union> (set (subflows d) - set reached)" "bs_wf reached \<longrightarrow> bs_wf (fst st)"
    using pin_nested_exact [where known = known and rs = "subflows d" and st = "(reached, rest)"] by (simp_all add: st)
  have old: "set known = fd_reference ` set ds" "bs_wf reached" "root \<in> set reached" "r \<in> set reached" "set rest \<subseteq> set reached"
      "set reached \<subseteq> set known" "set reached \<subseteq> (nests ds)\<^sup>* `` {root}"
      "\<forall>r'\<in>set reached - insert r (set rest). nests ds `` {r'} \<subseteq> set reached"
    using inv unfolding pin_invariant_def by (simp_all only: list.set insert_subset Int_subset_iff le_inf_iff) blast+
  have below: "set (subflows d) \<subseteq> (nests ds)\<^sup>* `` {root}"
  proof
    fix s assume "s \<in> set (subflows d)"
    then have "(r, s) \<in> nests ds" using nests by blast
    moreover have "(root, r) \<in> (nests ds)\<^sup>*" using old(4,7) by blast
    ultimately show "s \<in> (nests ds)\<^sup>* `` {root}" by (blast intro: rtrancl_into_rtrancl)
  qed
  have closed: "nests ds `` {r'} \<subseteq> set (fst st)" if "r' \<in> set (fst st) - set (snd st)" for r'
  proof (cases "r' = r")
    case False
    with that have "r' \<in> set reached - insert r (set rest)" unfolding exact by blast
    with old(8) have "nests ds `` {r'} \<subseteq> set reached" by blast
    then show ?thesis by (simp add: exact(2) le_supI1)
  qed (simp add: nests exact(2))
  show ?thesis
    unfolding pin_invariant_def using closed exact old below by (simp add: le_supI1 Diff_subset subset_trans) blast
qed

lemma pin_loop_exact:
  "pin_invariant ds known root reached pending \<Longrightarrow>
    (case pin_loop ds known reached pending of
       Inl e \<Rightarrow> e = invalid_closure \<and> \<not> (nests ds)\<^sup>* `` {root} \<subseteq> set known
     | Inr found \<Rightarrow> bs_wf found \<and> set found = (nests ds)\<^sup>* `` {root} \<and> set found \<subseteq> set known)"
proof (induction ds known reached pending rule: pin_loop.induct)
  case (1 ds known reached pending)
  show ?case
  proof (cases pending)
    case Nil
    have "(nests ds)\<^sup>* `` {root} \<subseteq> set reached"
    proof (rule subsetI)
      fix x assume "x \<in> (nests ds)\<^sup>* `` {root}"
      then have "(root, x) \<in> (nests ds)\<^sup>*" by simp
      then show "x \<in> set reached"
        using 1(2) Nil unfolding pin_invariant_def by (induction rule: rtrancl_induct) auto
    qed
    with 1(2) Nil show ?thesis by (auto simp: pin_loop.simps [of ds known reached] pin_invariant_def)
  next
    case (Cons r rest)
    have r: "r \<in> fd_reference ` set ds" "(root, r) \<in> (nests ds)\<^sup>*" using 1(2) Cons by (auto simp: pin_invariant_def)
    obtain d where d: "find_definition ds r = Some d"
      using r(1) by (cases "find_definition ds r") (auto simp: find_definition_def find_None_iff)
    show ?thesis
    proof (cases "pin_nested known (subflows d) (reached, rest)")
      case (Inl e)
      with pin_nested_exact [where known = known and rs = "subflows d" and st = "(reached, rest)"] obtain c
        where c: "c \<in> set (subflows d)" "c \<notin> set known" and e: "e = invalid_closure" by auto
      have "(r, c) \<in> nests ds" using d c(1) by (auto simp: nests_def)
      with r(2) have "(root, c) \<in> (nests ds)\<^sup>*" by (rule rtrancl_into_rtrancl)
      with c(2) have "\<not> (nests ds)\<^sup>* `` {root} \<subseteq> set known" by blast
      with Inl Cons d e show ?thesis by (simp add: pin_loop.simps [of ds known reached])
    next
      case (Inr st)
      have "pin_invariant ds known root (fst st) (snd st)" using pin_invariant_step [OF _ d Inr] 1(2) Cons by simp
      from 1(1) [OF Cons d Inr this] Inr Cons d show ?thesis by (simp add: pin_loop.simps [of ds known reached])
    qed
  qed
qed

section \<open>A sample\<close>

definition sample_path :: "(FlowTransition \<times> nat \<times> FactoryKey) list" where
  "sample_path = (let step = sample_transitions ! 0; back = sample_transitions ! 1 in
     [(step, 1, lit ''b''), (back, 1, lit ''a''), (step, 2, lit ''b''), (back, 2, lit ''a''), (step, 3, lit ''b'')])"

definition sample_closure :: "unit PinnedFlowDefinitionClosure" where
  "sample_closure = \<lparr>fc_root = fd_reference sample_flow, fc_definitions = [sample_flow]\<rparr>"

definition sample_validated :: "unit ValidatedFlowDefinitionClosure" where
  "sample_validated = \<lparr>vc_closure = sample_closure, vc_limits = sample_limits, vc_expanded_nodes = 6, vc_max_depth = 1\<rparr>"

lemma sample_pinned: "closure_new (fd_reference sample_flow) [sample_flow] = Inr sample_closure"
  by code_simp

lemma sample_validates:
  "validated_closure_new sample_checks sample_digest sample_closure sample_limits = Some (Inr sample_validated)"
  by code_simp

section \<open>Properties\<close>

lemma known_length:
  "length (bs_of_list (map fd_reference (sort_key fd_reference ds))) = length ds \<longleftrightarrow> distinct (map fd_reference ds)"
proof -
  let ?known = "bs_of_list (map fd_reference (sort_key fd_reference ds))"
  have "length ?known = card (set ?known)" by (rule sym, rule distinct_card) (rule bs_wf_distinct, rule bs_wf_of_list)
  also have "\<dots> = card (set (map fd_reference ds))" by simp
  finally show ?thesis using distinct_card [of "map fd_reference ds"] card_distinct [of "map fd_reference ds"] by auto
qed

text \<open>
  A closure is pinned exactly when its definitions are between one and 64, have distinct
  references, and are the definitions that the root reaches through nested references, all of them and
  no other; the result holds them in the order of their references.
\<close>

theorem closure_new_exact:
  "closure_new root ds = Inr closure \<longleftrightarrow>
     ds \<noteq> [] \<and> length ds \<le> MAX_FLOW_DEFINITION_CLOSURE \<and> distinct (map fd_reference ds) \<and>
     fd_reference ` set ds = (nests ds)\<^sup>* `` {root} \<and>
     closure = \<lparr>fc_root = root, fc_definitions = sort_key fd_reference ds\<rparr>"
proof (cases "ds \<noteq> [] \<and> length ds \<le> MAX_FLOW_DEFINITION_CLOSURE \<and> distinct (map fd_reference ds) \<and> root \<in> fd_reference ` set ds")
  case True
  let ?sorted = "sort_key fd_reference ds"
  let ?known = "bs_of_list (map fd_reference ?sorted)"
  have refs: "set ?known = fd_reference ` set ds" by simp
  have len: "length ?known = length ds" using True by (simp add: known_length)
  have distinct: "distinct (map fd_reference ds)" using True by blast
  have "pin_invariant ?sorted ?known root [root] [root]" using True by (simp add: pin_invariant_def bs_wf_def)
  note pinned = pin_loop_exact [OF this, unfolded nests_perm [OF distinct] refs]
  show ?thesis
  proof (cases "pin_loop ?sorted ?known [root] [root]")
    case (Inl e)
    with pinned have "fd_reference ` set ds \<noteq> (nests ds)\<^sup>* `` {root}" by auto
    with Inl True len show ?thesis by (simp add: closure_new_def Let_def)
  next
    case (Inr found)
    have "found = ?known \<longleftrightarrow> set found = set ?known"
    proof
      assume "set found = set ?known"
      then show "found = ?known" using pinned Inr bs_wf_of_list [of "map fd_reference ?sorted"]
        by (intro strict_sorted_equal) (simp_all add: bs_wf_def)
    qed simp
    then have "found = ?known \<longleftrightarrow> fd_reference ` set ds = (nests ds)\<^sup>* `` {root}" using pinned Inr refs by auto
    with Inr True len show ?thesis by (auto simp: closure_new_def Let_def)
  qed
next
  case False
  then show ?thesis by (auto simp: closure_new_def Let_def known_length)
qed

lemma accepted_nodes: "validate_definition checks digest definitions limits d = Some (Inr ()) \<Longrightarrow> fd_nodes d \<noteq> []"
  using accepted_graph by (fastforce simp: flow_graph_sound_def flow_nodes_def)

lemma closure_root: "closure_new root ds = Inr closure \<Longrightarrow>
  length (fc_definitions closure) \<le> 64 \<and> fc_root closure = root \<and>
  (\<exists>d. find_definition (fc_definitions closure) root = Some d)"
  by (auto simp: closure_new_def Let_def res_simps MAX_FLOW_DEFINITION_CLOSURE_def find_definition_def image_iff
      simp flip: not_None_eq simp: find_None_iff split: if_splits)

lemma measured_root:
  assumes "\<forall>d\<in>set ds. fd_nodes d \<noteq> []" and "length ds \<le> 64" and "expands ds r N D" and "D \<le> length ds"
  shows "measures ds N D (expanded_measurements (Suc (length ds)) ds r [])"
  using assms by (intro expanded_measurements_exact) (auto simp: memo_ok_def bt_get_def)

text \<open>The stages of the validation, for a closure whose definitions are all accepted.\<close>

lemma reject_root:
  assumes "reject_recursive_definitions (Suc (length ds)) ds r ([], []) = Some (Inr st)"
  obtains N D where "expands ds r N D" and "D \<le> length ds"
proof -
  have "nested_ok ds r" using reject_recursive_sound [OF assms] by simp
  then show thesis using nested_depth_bounded that by blast
qed

lemma reject_root_total: "reject_recursive_definitions (Suc (length ds)) ds r ([], []) \<noteq> None"
proof (rule reject_recursive_total)
  have "card (fd_reference ` set ds) \<le> length ds" by (metis card_image_le card_length finite_set le_trans)
  then show "card (fd_reference ` set ds - set (fst ([], [] :: refs))) < Suc (length ds)" by simp
qed

lemma reject_root_accepts:
  assumes "nested_ok ds r"
  shows "\<exists>st. reject_recursive_definitions (Suc (length ds)) ds r ([], []) = Some (Inr st)"
proof (cases "reject_recursive_definitions (Suc (length ds)) ds r ([], [])")
  case None
  with reject_root_total show ?thesis by blast
next
  case (Some result)
  with reject_recursive_complete [of "Suc (length ds)" ds r "([], [])"] assms show ?thesis by (cases result) auto
qed

lemma of_nat_unat_eq: "unat (w :: 'w::len word) = n \<longleftrightarrow> w = of_nat n \<and> n < 2 ^ LENGTH('w)"
proof
  assume "unat w = n"
  then show "w = of_nat n \<and> n < 2 ^ LENGTH('w)" using unsigned_less [of w, where 'a = nat] by auto
qed (simp add: unat_of_nat)

lemma definitions_total:
  "fold_checked (\<lambda>d _. validate_definition checks digest definitions limits d) ds () \<noteq> None"
  by (rule fold_checked_total [where P = "\<lambda>_. True"]) (simp_all add: validate_definition_total del: not_None_eq)

text \<open>The outcome for a closure whose definitions are all accepted.\<close>

lemma validated_recursive:
  assumes "\<forall>d\<in>set (fc_definitions c). validate_definition checks digest (fc_definitions c) limits d = Some (Inr ())"
    and "\<not> nested_ok (fc_definitions c) (fc_root c)"
  shows "\<exists>e. validated_closure_new checks digest c limits = Some (Inl e)"
proof -
  let ?ds = "fc_definitions c"
  have all: "fold_checked (\<lambda>d _. validate_definition checks digest ?ds limits d) ?ds () = Some (Inr ())"
    using assms(1) by (simp add: fold_checked_unit)
  have "reject_recursive_definitions (Suc (length ?ds)) ?ds (fc_root c) ([], []) \<noteq> Some (Inr st)" for st
    using reject_recursive_sound [of "Suc (length ?ds)" ?ds "fc_root c" "([], [])" st] assms(2) by auto
  with reject_root_total [of ?ds "fc_root c"] obtain e where
    "reject_recursive_definitions (Suc (length ?ds)) ?ds (fc_root c) ([], []) = Some (Inl e)"
    by (metis option.exhaust sum.exhaust)
  with all show ?thesis by (simp add: validated_closure_new_def Let_def del: reject_recursive_definitions.simps)
qed

lemma accepted_closed: "validate_definition checks digest definitions limits d = Some (Inr ()) \<Longrightarrow> routes_closed d"
  using accepted_graph [of checks digest definitions limits d] sound_routes_closed [of d limits]
  by (simp add: flow_graph_sound_def flow_routes_sound_def)

lemma expands_nested_within: "expands ds r N D \<Longrightarrow> nested_within ds D r"
proof (induction rule: expands.induct)
  case (expandsI r d ms)
  let ?D = "foldl (\<lambda>k m. max k (snd m + 1)) 1 ms"
  have bound: "a \<le> foldl (\<lambda>k m. max k (snd m + 1)) a ms \<and> (\<forall>m\<in>set ms. snd m < foldl (\<lambda>k m. max k (snd m + 1)) a ms)"
    for a :: nat and ms :: "(nat \<times> nat) list"
  proof (induction ms arbitrary: a)
    case (Cons m ms)
    from Cons [of "max a (snd m + 1)"] show ?case by auto
  qed simp
  obtain n where n: "?D = Suc n" using bound [of 1 ms] by (cases ?D) auto
  have "nested_within ds n c" if c: "c \<in> set (subflows d)" for c
  proof -
    obtain i where i: "i < length ms" "nested_within ds (snd (ms ! i)) c"
      using expandsI(2) c by (auto simp: list_all2_conv_all_nth in_set_conv_nth)
    then have "snd (ms ! i) \<le> n" using bound [of 1 ms] nth_mem [OF i(1)] n by fastforce
    with i(2) show ?thesis by (rule nested_within_mono)
  qed
  with expandsI(1) show ?case unfolding n by simp
qed

lemma validated_expansion:
  assumes accepted: "\<forall>d\<in>set (fc_definitions c). validate_definition checks digest (fc_definitions c) limits d = Some (Inr ())"
    and "length (fc_definitions c) \<le> 64" and root: "find_definition (fc_definitions c) (fc_root c) = Some root"
    and expands: "expands (fc_definitions c) (fc_root c) N D" and "D \<le> length (fc_definitions c)"
  shows "if N \<le> unat (fl_max_expanded_nodes limits) \<and> D \<le> unat (fl_max_depth limits)
    then validated_closure_new checks digest c limits = also_then (issue_slots_validate c) (\<lambda>_. Some (Inr
      \<lparr>vc_closure = c, vc_limits = limits, vc_expanded_nodes = of_nat N, vc_max_depth = of_nat D\<rparr>))
    else \<exists>e. validated_closure_new checks digest c limits = Some (Inl e)"
proof -
  let ?ds = "fc_definitions c"
  have all: "fold_checked (\<lambda>d _. validate_definition checks digest ?ds limits d) ?ds () = Some (Inr ())"
    using accepted by (simp add: fold_checked_unit)
  obtain st where st: "reject_recursive_definitions (Suc (length ?ds)) ?ds (fc_root c) ([], []) = Some (Inr st)"
    using reject_root_accepts [OF expands_nested_ok [OF expands]] by blast
  have ceilings: "fits_within (fx_budget (fd_execution root)) (fl_budget limits)"
    "is_no_broader_than (fx_permissions (fd_execution root)) (fl_permissions limits)"
    "\<not> fl_max_wip limits < fx_max_active_nodes (fd_execution root)"
    using accepted find_definition_in [OF root] validate_ceilings_Inr [of checks digest limits root]
    by (auto elim!: ballE accepted_cases)
  have "measures ?ds N D (expanded_measurements (Suc (length ?ds)) ?ds (fc_root c) [])"
    using accepted accepted_nodes assms(2,4,5) by (intro measured_root) blast+
  then consider (fails) e where "expanded_measurements (Suc (length ?ds)) ?ds (fc_root c) [] = Some (Inl e)" "2 ^ 32 \<le> N"
    | (counts) nodes depth memo where
      "expanded_measurements (Suc (length ?ds)) ?ds (fc_root c) [] = Some (Inr ((nodes, depth), memo))"
      "unat nodes = N" "unat depth = D"
    unfolding measures_def by blast
  then show ?thesis
  proof cases
    case fails
    have "\<not> N \<le> unat (fl_max_expanded_nodes limits)"
      using fails(2) unsigned_less [of "fl_max_expanded_nodes limits", where 'a = nat] by simp
    with fails(1) all st show ?thesis
      by (simp add: validated_closure_new_def Let_def del: reject_recursive_definitions.simps expanded_measurements.simps)
  next
    case counts
    have words: "nodes = of_nat N" "depth = of_nat D" using counts(2,3) by auto
    have "(fl_max_expanded_nodes limits < nodes \<or> fl_max_depth limits < depth) \<longleftrightarrow>
        \<not> (N \<le> unat (fl_max_expanded_nodes limits) \<and> D \<le> unat (fl_max_depth limits))"
      using counts(2,3) by (auto simp: word_less_nat_alt)
    with counts(1) all st root ceilings show ?thesis
      by (simp add: validated_closure_new_def Let_def ok_or_def words
          del: reject_recursive_definitions.simps expanded_measurements.simps)
  qed
qed

lemma validated_closure_iff:
  assumes "closure_new root ds = Inr closure"
  shows "validated_closure_new checks digest closure limits \<noteq> None \<and>
    (validated_closure_new checks digest closure limits = Some (Inr v) \<longleftrightarrow>
      (\<forall>d\<in>set (fc_definitions closure). validate_definition checks digest (fc_definitions closure) limits d = Some (Inr ())) \<and>
      issue_slots_validate closure = Some (Inr ()) \<and>
      (\<exists>N D. expands (fc_definitions closure) root N D \<and>
         N \<le> unat (fl_max_expanded_nodes limits) \<and> D \<le> unat (fl_max_depth limits) \<and>
         v = \<lparr>vc_closure = closure, vc_limits = limits, vc_expanded_nodes = of_nat N, vc_max_depth = of_nat D\<rparr>))"
proof -
  let ?ds = "fc_definitions closure" and ?run = "validated_closure_new checks digest closure limits"
  let ?accepted = "\<forall>d\<in>set ?ds. validate_definition checks digest ?ds limits d = Some (Inr ())"
  have facts: "length ?ds \<le> 64" "root = fc_root closure" using closure_root [OF assms] by simp_all
  obtain rootd where rootd: "find_definition ?ds (fc_root closure) = Some rootd" using closure_root [OF assms] facts by blast
  show ?thesis
  proof (cases "?accepted \<and> nested_ok ?ds root")
    case True
    then obtain N D where expands: "expands ?ds (fc_root closure) N D" "D \<le> length ?ds"
      using nested_depth_bounded facts(2) by blast
    have unique: "expands ?ds root N' D' \<longleftrightarrow> N' = N \<and> D' = D" for N' D'
      using expands_unique [OF expands(1)] expands(1) facts(2) by blast
    have "issue_slots_validate closure \<noteq> None"
    proof (rule issue_slots_total)
      show "\<forall>d\<in>set ?ds. routes_closed d" using True accepted_closed by blast
      show "nested_within ?ds (length ?ds) (fc_root closure)" using expands_nested_within [OF expands(1)] expands(2) by (rule nested_within_mono)
    qed
    with True validated_expansion [OF _ facts(1) rootd expands, of checks digest limits]
    show ?thesis unfolding unique by (cases "issue_slots_validate closure"; cases "the (issue_slots_validate closure)") (auto split: if_splits)
  next
    case False
    have "\<not> ?accepted \<Longrightarrow> \<exists>e. ?run = Some (Inl e)"
      using definitions_total [of checks digest ?ds limits ?ds] fold_checked_unit [of "validate_definition checks digest ?ds limits" ?ds]
      by (cases "fold_checked (\<lambda>d _. validate_definition checks digest ?ds limits d) ?ds ()")
        (auto simp: validated_closure_new_def Let_def also_then_def split: sum.splits)
    with False validated_recursive [of closure checks digest limits] facts(2)
    have "\<exists>e. ?run = Some (Inl e)" by blast
    with False expands_nested_ok [of ?ds root] show ?thesis by auto
  qed
qed

lemma sum_le_prod: "sum_list (map f xs) + 1 \<le> prod_list (map (\<lambda>x. f x + (1::nat)) xs)"
proof (induction xs)
  case (Cons x xs)
  let ?P = "prod_list (map (\<lambda>x. f x + 1) xs)"
  have "f x \<le> f x * ?P" using prod_list_pos [of f xs] by simp
  then have "sum_list (map f xs) + 1 + f x \<le> ?P + f x * ?P" using Cons by linarith
  then show ?case by simp
qed simp

lemma sum_set_le: "sum f (set xs) \<le> sum_list (map (f :: 'a \<Rightarrow> nat) xs)"
  by (induction xs) (auto simp: sum.insert_if)

lemma repeat_budget_le: "repeat_budget d + 1 \<le> repeat_product d"
  using sum_set_le [of "\<lambda>t. unat (ft_max_repeats t)" "fd_transitions d"]
    sum_le_prod [of "\<lambda>t. unat (ft_max_repeats t)" "fd_transitions d"]
  unfolding repeat_budget_def repeat_product_def by linarith

lemma nodes_le_executions: "card (flow_nodes d) \<le> executions d"
proof -
  have "card (flow_nodes d) \<le> length (map fn_key (fd_nodes d))"
    using card_length [of "map fn_key (fd_nodes d)"] by (simp add: flow_nodes_def)
  also have "\<dots> \<le> executions d" unfolding executions_def by (simp add: sum_list_Suc)
  finally show ?thesis .
qed

text \<open>
  (C8) Validation of a pinned closure always returns; no recursion of the code runs away. A closure is
  accepted exactly when each of its definitions is accepted, the root nests without recursion, with an
  expansion and a nesting depth within the limits, and the analysis of the issue slots finds no two outcomes that
  could publish to one slot. The recorded
  measurements are those of the exact expansion: the node executions of a definition and of its nested
  definitions, times its repeat bounds.
\<close>

theorem flow_closure_exact:
  assumes "closure_new root ds = Inr closure"
  shows "validated_closure_new checks digest closure limits \<noteq> None \<and>
    (validated_closure_new checks digest closure limits = Some (Inr v) \<longleftrightarrow>
      (\<forall>d\<in>set (fc_definitions closure). validate_definition checks digest (fc_definitions closure) limits d = Some (Inr ())) \<and>
      issue_slots_validate closure = Some (Inr ()) \<and>
      (\<exists>N D. expands (fc_definitions closure) root N D \<and>
         N \<le> unat (fl_max_expanded_nodes limits) \<and> D \<le> unat (fl_max_depth limits) \<and>
         v = \<lparr>vc_closure = closure, vc_limits = limits, vc_expanded_nodes = of_nat N, vc_max_depth = of_nat D\<rparr>))"
  using assms by (rule validated_closure_iff)

theorem flow_closure_exact_witness:
  "closure_new (fd_reference sample_flow) [sample_flow] = Inr sample_closure \<and>
   (\<exists>N D. expands [sample_flow] (fd_reference sample_flow) N D \<and> N \<le> 100 \<and> D \<le> 4)"
proof -
  have "\<exists>N D. expands (fc_definitions sample_closure) (fd_reference sample_flow) N D \<and>
      N \<le> unat (fl_max_expanded_nodes sample_limits) \<and> D \<le> unat (fl_max_depth sample_limits)"
    using flow_closure_exact [OF sample_pinned, of sample_checks sample_digest sample_limits sample_validated]
      sample_validates by blast
  then show ?thesis using sample_pinned by (simp add: sample_closure_def sample_limits_def)
qed

text \<open>
  (C9) The recorded expansion is a bound on execution: every path of node executions within one cycle of
  the root definition of a validated closure has fewer steps than the expanded nodes, so a run of the
  flow ends within the admitted limit.
\<close>

theorem expansion_covers_paths:
  assumes pinned: "closure_new root ds = Inr closure"
    and valid: "validated_closure_new checks digest closure limits = Some (Inr v)"
    and d: "find_definition (fc_definitions closure) root = Some d" and path: "flow_path d [] (fd_entry d) steps"
  shows "length steps < unat (vc_expanded_nodes v) \<and> vc_expanded_nodes v \<le> fl_max_expanded_nodes limits"
proof -
  let ?ds = "fc_definitions closure"
  obtain N D where accepted: "\<forall>d\<in>set ?ds. validate_definition checks digest ?ds limits d = Some (Inr ())"
    and expands: "expands ?ds root N D" "N \<le> unat (fl_max_expanded_nodes limits)" and v: "vc_expanded_nodes v = of_nat N"
    using validated_closure_iff [OF pinned, of checks digest limits v] valid by auto
  have N: "unat (vc_expanded_nodes v) = N"
    using expands(2) unsigned_less [of "fl_max_expanded_nodes limits", where 'a = nat] unfolding v by (simp add: unat_of_nat)
  have sound: "flow_graph_sound limits d" "flow_routes_sound limits d"
    using accepted_graph accepted find_definition_in [OF d] by blast+
  then have entry: "fd_entry d \<in> flow_nodes d" by (simp add: flow_graph_sound_def)
  have "length steps < (repeat_budget d + 1) * card (flow_nodes d)" using sound entry path by (rule flow_path_bounded)
  also have "\<dots> \<le> repeat_product d * executions d" using repeat_budget_le nodes_le_executions by (rule mult_le_mono)
  also have "\<dots> \<le> N" using expands(1) by (rule expands.cases) (use d in simp)
  finally show ?thesis using N expands(2) by (simp add: word_le_nat_alt)
qed

theorem expansion_covers_paths_witness:
  "flow_path sample_flow [] (fd_entry sample_flow) sample_path \<and> length sample_path = 5 \<and>
   length sample_path < unat (vc_expanded_nodes sample_validated)"
proof -
  have found: "find_definition (fc_definitions sample_closure) (fd_reference sample_flow) = Some sample_flow" by code_simp
  have path: "flow_path sample_flow [] (fd_entry sample_flow) sample_path" by code_simp
  have "length sample_path = 5" by code_simp
  with path expansion_covers_paths [OF sample_pinned sample_validates found path] show ?thesis by simp
qed

end
