(* ===== verification/Flow_Runtime.thy ===== *)
theory Flow_Runtime
  imports Flow_Closure
begin

text \<open>
  The durable records of a Flow execution: claims and lifecycle progress
  (\<^verbatim>\<open>server/core/octacity-server-factory/src/lifecycle_decision.rs\<close> and \<^verbatim>\<open>execution.rs\<close>), admitted flows,
  Flow Runs, workflow cycles, node attempts and completions (\<^verbatim>\<open>flow/runtime.rs\<close>) and technical stops
  (\<^verbatim>\<open>flow/stop.rs\<close>). SHA-256 is the parameter \<open>sha256\<close>. The documents that are attached to an admitted
  flow (code pins, data schemas, pools) are a value of the type \<open>'a\<close> with the checks of \<open>flow_environment\<close>.
\<close>

section \<open>Claims\<close>

record FactoryClaim =
  cl_fence :: FactoryDigest
  cl_claimed_at :: timestamp
  cl_expires_at :: timestamp

definition factory_claim_new :: "FactoryDigest \<Rightarrow> timestamp \<Rightarrow> timestamp \<Rightarrow> FactoryError + FactoryClaim" where
  "factory_claim_new fence claimed_at expires_at =
     (if expires_at \<le> claimed_at then Inl FE_InvalidClaim
      else Inr \<lparr>cl_fence = fence, cl_claimed_at = claimed_at, cl_expires_at = expires_at\<rparr>)"

definition verify_fence :: "FactoryClaim \<Rightarrow> FactoryDigest \<Rightarrow> timestamp \<Rightarrow> FactoryError + unit" where
  "verify_fence claim presented observed_at =
     (if cl_fence claim \<noteq> presented then Inl FE_StaleClaim
      else if observed_at < cl_claimed_at claim then Inl FE_InvalidClaim
      else if cl_expires_at claim \<le> observed_at then Inl FE_ExpiredClaim
      else Inr ())"

record FactoryClaimOwnership =
  ow_owner :: FactoryKey
  ow_claim :: FactoryClaim

section \<open>Lifecycle progress\<close>

datatype FactoryLifecycleProgress = LP_Admitted | LP_FlowRunning uuid | LP_FlowCancelled uuid
  | LP_FlowResolved uuid FactoryKey

fun lifecycle_matches :: "FactoryRunState \<Rightarrow> FactoryLifecycleProgress \<Rightarrow> bool" where
  "lifecycle_matches FR_Admitted LP_Admitted = True"
| "lifecycle_matches FR_Running (LP_FlowRunning _) = True"
| "lifecycle_matches FR_Waiting (LP_FlowRunning _) = True"
| "lifecycle_matches FR_Cancelled (LP_FlowCancelled _) = True"
| "lifecycle_matches FR_Completed (LP_FlowResolved _ _) = True"
| "lifecycle_matches _ _ = False"

definition validate_lifecycle_progress :: "FactoryRunState \<Rightarrow> FactoryLifecycleProgress \<Rightarrow> FactoryError + unit" where
  "validate_lifecycle_progress state progress = ensure (lifecycle_matches state progress) (FE_InvalidLifecycle state)"

fun lifecycle_follows :: "FactoryLifecycleProgress \<Rightarrow> FactoryLifecycleProgress \<Rightarrow> bool" where
  "lifecycle_follows LP_Admitted (LP_FlowRunning _) = True"
| "lifecycle_follows LP_Admitted (LP_FlowCancelled _) = True"
| "lifecycle_follows (LP_FlowRunning previous) (LP_FlowRunning root) = (previous = root)"
| "lifecycle_follows (LP_FlowRunning previous) (LP_FlowCancelled root) = (previous = root)"
| "lifecycle_follows (LP_FlowRunning previous) (LP_FlowResolved root _) = (previous = root)"
| "lifecycle_follows _ _ = False"

definition validate_lifecycle_transition ::
  "FactoryRunState \<Rightarrow> FactoryLifecycleProgress \<Rightarrow> FactoryRunState \<Rightarrow> FactoryLifecycleProgress \<Rightarrow> FactoryError + unit"
where
  "validate_lifecycle_transition previous_state previous next_state new =
     and_then (validate_lifecycle_progress previous_state previous) (\<lambda>_.
     and_then (validate_lifecycle_progress next_state new) (\<lambda>_.
     ensure ((previous_state = next_state \<and> previous = new) \<or> lifecycle_follows previous new)
       (FE_InvalidLifecycle next_state)))"

section \<open>Flow Runs and cycles\<close>

definition factory_id_from_uuid :: "FactoryEntityKind \<Rightarrow> uuid \<Rightarrow> FactoryError + uuid" where
  "factory_id_from_uuid entity v = (if v = 0 then Inl (FE_InvalidIdentifier entity) else Inr v)"

record FlowRunParent =
  fp_flow_run_id :: uuid
  fp_node_attempt_id :: uuid

record FlowRun =
  fr_id :: uuid
  fr_factory_run_id :: uuid
  fr_definition :: FlowDefinitionRef
  fr_parent :: "FlowRunParent option"

text \<open>The argument \<open>run_id\<close> is the identity of the Factory Run.\<close>

definition flow_run_root :: "uuid \<Rightarrow> FlowDefinitionRef \<Rightarrow> FactoryError + FlowRun" where
  "flow_run_root run_id definition =
     and_then (factory_id_from_uuid FK_FlowRun run_id) (\<lambda>id.
     Inr \<lparr>fr_id = id, fr_factory_run_id = run_id, fr_definition = definition, fr_parent = None\<rparr>)"

definition flow_run_nested :: "uuid \<Rightarrow> uuid \<Rightarrow> FlowDefinitionRef \<Rightarrow> FlowRunParent \<Rightarrow> FlowRun" where
  "flow_run_nested uid run_id definition parent =
     \<lparr>fr_id = uid, fr_factory_run_id = run_id, fr_definition = definition, fr_parent = Some parent\<rparr>"

record WorkflowCycle =
  wc_id :: uuid
  wc_flow_run_id :: uuid
  wc_number :: u64
  wc_predecessor :: "uuid option"
  wc_source_attempt_id :: "uuid option"

definition cycle_initial :: "FlowRun \<Rightarrow> FactoryError + WorkflowCycle" where
  "cycle_initial flow_run =
     and_then (factory_id_from_uuid FK_WorkflowCycle (fr_id flow_run)) (\<lambda>id.
     Inr \<lparr>wc_id = id, wc_flow_run_id = fr_id flow_run, wc_number = 1, wc_predecessor = None, wc_source_attempt_id = None\<rparr>)"

definition cycle_next :: "uuid \<Rightarrow> uuid \<Rightarrow> u64 \<Rightarrow> uuid \<Rightarrow> uuid \<Rightarrow> WorkflowCycle" where
  "cycle_next uid flow_run_id number predecessor source =
     \<lparr>wc_id = uid, wc_flow_run_id = flow_run_id, wc_number = number, wc_predecessor = Some predecessor,
      wc_source_attempt_id = Some source\<rparr>"

section \<open>Node attempts\<close>

datatype NodeExecutionIdentity = NX_BuiltIn | NX_External ImmutableReference

definition is_compatible :: "NodeExecutionIdentity \<Rightarrow> FlowNodeKind \<Rightarrow> bool" where
  "is_compatible x kind = (case kind of
     NK_BuildCommand \<Rightarrow> x \<noteq> NX_BuiltIn
   | NK_Reasoning \<Rightarrow> x \<noteq> NX_BuiltIn
   | NK_DecisionSignal \<Rightarrow> x \<noteq> NX_BuiltIn
   | NK_TrustedAction \<Rightarrow> x \<noteq> NX_BuiltIn
   | NK_DeterministicGate \<Rightarrow> x = NX_BuiltIn
   | NK_FanOut \<Rightarrow> x = NX_BuiltIn
   | NK_Join \<Rightarrow> x = NX_BuiltIn
   | NK_HumanGate \<Rightarrow> x = NX_BuiltIn
   | NK_SubflowCall \<Rightarrow> x = NX_BuiltIn)"

record NodeAttempt =
  na_id :: uuid
  na_factory_run_id :: uuid
  na_flow_run_id :: uuid
  na_workflow_cycle_id :: uuid
  na_node_key :: FactoryKey
  na_node_kind :: FlowNodeKind
  na_number :: u64
  na_input_digest :: FactoryDigest
  na_budget :: BudgetLimit
  na_started_at :: timestamp
  na_deadline :: timestamp
  na_execution :: NodeExecutionIdentity
  na_ownership :: FactoryClaimOwnership
  na_retry_of :: "uuid option"

definition na_claim :: "NodeAttempt \<Rightarrow> FactoryClaim" where
  "na_claim a = ow_claim (na_ownership a)"

text \<open>The elapsed time is a checked difference of signed milliseconds.\<close>

definition validate_execution_window :: "NodeAttempt \<Rightarrow> FactoryError + unit" where
  "validate_execution_window a =
     and_then (verify_fence (na_claim a) (cl_fence (na_claim a)) (na_started_at a)) (\<lambda>_.
     ensure (\<not> (na_deadline a \<le> na_started_at a \<or>
         (case i64_checked_sub (na_deadline a) (na_started_at a) of
            None \<Rightarrow> True
          | Some elapsed \<Rightarrow> elapsed < 0 \<or> uint (max_elapsed_millis (na_budget a)) < elapsed)))
       (FE_InvalidReference (lit ''Node Attempt execution window'')))"

text \<open>The caller-owned fields are those of \<open>input\<close>; the owning identities come from the run and the cycle.\<close>

definition node_attempt_new ::
  "FlowRun \<Rightarrow> WorkflowCycle \<Rightarrow> 'b FlowDefinition \<Rightarrow> NodeAttempt \<Rightarrow> FactoryError + NodeAttempt"
where
  "node_attempt_new flow_run cycle definition input =
     (if fr_definition flow_run \<noteq> fd_reference definition \<or> wc_flow_run_id cycle \<noteq> fr_id flow_run \<or>
         (case definition_node definition (na_node_key input) of
            None \<Rightarrow> True
          | Some node \<Rightarrow> fn_kind node \<noteq> na_node_kind input \<or> na_budget input \<noteq> fn_budget node) \<or>
         \<not> is_compatible (na_execution input) (na_node_kind input)
      then Inl (FE_InvalidReference (lit ''Node Attempt definition''))
      else
        let a = input\<lparr>na_factory_run_id := fr_factory_run_id flow_run, na_flow_run_id := fr_id flow_run,
                  na_workflow_cycle_id := wc_id cycle, na_retry_of := None\<rparr>
        in and_then (validate_execution_window a) (\<lambda>_. Inr a))"

definition with_retry_of :: "NodeAttempt \<Rightarrow> NodeAttempt \<Rightarrow> FactoryError + NodeAttempt" where
  "with_retry_of a previous =
     (if na_factory_run_id a \<noteq> na_factory_run_id previous \<or> na_flow_run_id a \<noteq> na_flow_run_id previous \<or>
         na_workflow_cycle_id a \<noteq> na_workflow_cycle_id previous \<or> na_node_key a \<noteq> na_node_key previous \<or>
         na_node_kind a \<noteq> na_node_kind previous \<or> na_execution a \<noteq> na_execution previous \<or>
         na_budget a \<noteq> na_budget previous \<or> na_number a \<le> na_number previous \<or>
         na_started_at a < na_started_at previous
      then Inl (FE_InvalidReference (lit ''Node execution retry predecessor''))
      else Inr (a\<lparr>na_retry_of := Some (na_id previous)\<rparr>))"

definition accepts_completion_owner :: "NodeAttempt \<Rightarrow> FactoryClaimOwnership \<Rightarrow> bool" where
  "accepts_completion_owner a owner \<longleftrightarrow>
     ow_owner owner = ow_owner (na_ownership a) \<and> cl_claimed_at (na_claim a) \<le> cl_claimed_at (ow_claim owner) \<or>
     cl_expires_at (na_claim a) \<le> cl_claimed_at (ow_claim owner)"

definition verify_observer :: "NodeAttempt \<Rightarrow> FactoryClaimOwnership \<Rightarrow> timestamp \<Rightarrow> FactoryError + unit" where
  "verify_observer a owner instant =
     (if \<not> accepts_completion_owner a owner then Inl (FE_InvalidReference (lit ''Node Attempt observer''))
      else verify_fence (ow_claim owner) (cl_fence (ow_claim owner)) instant)"

definition cycle_restart :: "uuid \<Rightarrow> WorkflowCycle \<Rightarrow> NodeAttempt \<Rightarrow> FactoryError + WorkflowCycle" where
  "cycle_restart uid previous source =
     (if na_flow_run_id source \<noteq> wc_flow_run_id previous \<or> na_workflow_cycle_id source \<noteq> wc_id previous
      then Inl (FE_InvalidReference (lit ''workflow cycle source''))
      else case Option.bind (checked_add (wc_number previous) 1) (\<lambda>v. case sequence_new v of Inl _ \<Rightarrow> None | Inr n \<Rightarrow> Some n) of
        None \<Rightarrow> Inl (FE_InvalidReference (lit ''workflow cycle number''))
      | Some number \<Rightarrow> Inr (cycle_next uid (wc_flow_run_id previous) number (wc_id previous) (na_id source)))"

section \<open>Completions\<close>

record NodeAttemptCompletion =
  nc_id :: FactoryDigest
  nc_node_attempt_id :: uuid
  nc_flow_run_id :: uuid
  nc_workflow_cycle_id :: uuid
  nc_node_key :: FactoryKey
  nc_outcome :: FactoryKey
  nc_output_schema :: ImmutableReference
  nc_output_digest :: FactoryDigest
  nc_ownership :: FactoryClaimOwnership
  nc_usage :: BudgetUsage
  nc_observed_at :: timestamp

text \<open>\<^verbatim>\<open>to_be_bytes\<close> of the observation time is that of its two's complement.\<close>

definition completion_fields :: "NodeAttemptCompletion \<Rightarrow> u8 list list" where
  "completion_fields c =
     [be_bytes 16 (nc_node_attempt_id c), as_bytes (nc_outcome c), snd (snd (nc_output_schema c)), nc_output_digest c,
      as_bytes (ow_owner (nc_ownership c)), cl_fence (ow_claim (nc_ownership c)),
      be_bytes 4 (attempts (nc_usage c)), be_bytes 8 (elapsed_millis (nc_usage c)), be_bytes 8 (tokens (nc_usage c)),
      canonical_bytes (cost_micro_units (nc_usage c)), be_bytes 8 (output_bytes (nc_usage c)),
      be_bytes 8 (word_of_int (nc_observed_at c) :: u64)]"

text \<open>The caller-owned fields are those of \<open>input\<close>.\<close>

definition completion_new ::
  "(u8 list \<Rightarrow> FactoryDigest) \<Rightarrow> NodeAttempt \<Rightarrow> 'b FlowDefinition \<Rightarrow> NodeAttemptCompletion \<Rightarrow> FactoryError + NodeAttemptCompletion"
where
  "completion_new sha256 a definition input =
     and_then (ok_or (FE_InvalidReference (lit ''Node Attempt completion node'')) (definition_node definition (na_node_key a))) (\<lambda>node.
     if fn_kind node \<noteq> na_node_kind a \<or>
        (case node_outcome node (nc_outcome input) of None \<Rightarrow> True | Some c \<Rightarrow> oc_schema c \<noteq> nc_output_schema input) \<or>
        \<not> accepts_completion_owner a (nc_ownership input)
     then Inl (FE_InvalidReference (lit ''Node Attempt completion outcome''))
     else
       and_then (verify_fence (ow_claim (nc_ownership input)) (cl_fence (ow_claim (nc_ownership input))) (nc_observed_at input)) (\<lambda>_.
       and_then (map_err FE_Budget (usage_validate (nc_usage input) (na_budget a))) (\<lambda>_.
       let c = input\<lparr>nc_node_attempt_id := na_id a, nc_flow_run_id := na_flow_run_id a,
                 nc_workflow_cycle_id := na_workflow_cycle_id a, nc_node_key := na_node_key a\<rparr>
       in Inr (c\<lparr>nc_id := factory_digest_sha256 sha256 (lit ''octacity.factory.node-attempt-completion.v1'') (completion_fields c)\<rparr>))))"

section \<open>Technical stops\<close>

datatype FlowNodeStopReason = SR_Cancelled timestamp | SR_ExecutionFailed

record FlowNodeStop =
  st_node_attempt_id :: uuid
  st_input_digest :: FactoryDigest
  st_ownership :: FactoryClaimOwnership
  st_reason :: FlowNodeStopReason
  st_observed_at :: timestamp
  st_usage :: BudgetUsage
  st_execution :: "FactoryDigest option"

definition invalid_stop :: FactoryError where
  "invalid_stop = FE_InvalidConfiguration (lit ''Node stop receipt'')"

text \<open>An execution is given by its owning attempt and its digest.\<close>

definition node_stop_new ::
  "NodeAttempt \<Rightarrow> FactoryClaimOwnership \<Rightarrow> FlowNodeStopReason \<Rightarrow> timestamp \<Rightarrow> BudgetUsage \<Rightarrow> (uuid \<times> FactoryDigest) option \<Rightarrow>
     FactoryError + FlowNodeStop"
where
  "node_stop_new a ownership reason observed_at usage execution =
     and_then (verify_observer a ownership observed_at) (\<lambda>_.
     if observed_at < na_started_at a \<or>
        (case reason of
           SR_Cancelled requested_at \<Rightarrow> requested_at < na_started_at a \<or> observed_at < requested_at
         | SR_ExecutionFailed \<Rightarrow> False) \<or>
        attempts usage \<noteq> 0 \<or> (case execution of None \<Rightarrow> False | Some (owner, _) \<Rightarrow> owner \<noteq> na_id a)
     then Inl invalid_stop
     else if max_output_bytes (na_budget a) < output_bytes usage then Inl invalid_stop
     else Inr \<lparr>st_node_attempt_id = na_id a, st_input_digest = na_input_digest a, st_ownership = ownership,
       st_reason = reason, st_observed_at = observed_at, st_usage = usage, st_execution = map_option snd execution\<rparr>)"

section \<open>Admitted flows\<close>

definition MAX_FACTORY_ACTIVE_RUNS :: u32 where "MAX_FACTORY_ACTIVE_RUNS = 10000"

record FactoryWipLimits =
  wl_max_active_runs :: u32
  wl_max_active_nodes :: u32

definition wip_limits_new :: "u32 \<Rightarrow> u32 \<Rightarrow> FactoryError + FactoryWipLimits" where
  "wip_limits_new runs nodes =
     (if runs = 0 \<or> MAX_FACTORY_ACTIVE_RUNS < runs then Inl (FE_InvalidConfiguration (lit ''max_active_runs''))
      else if nodes = 0 \<or> MAX_FACTORY_ACTIVE_NODES < nodes then Inl (FE_InvalidConfiguration (lit ''max_active_nodes''))
      else Inr \<lparr>wl_max_active_runs = runs, wl_max_active_nodes = nodes\<rparr>)"

definition validate_wip_limits :: "FlowAdmissionLimits \<Rightarrow> FactoryWipLimits \<Rightarrow> FactoryError + unit" where
  "validate_wip_limits limits wip =
     and_then (wip_limits_new (wl_max_active_runs wip) (wl_max_active_nodes wip)) (\<lambda>_.
     ensure (\<not> wl_max_active_nodes wip < ucast (fl_max_wip limits))
       (FE_InvalidConfiguration (lit ''admitted Flow configuration WIP'')))"

record ('b, 'a) AdmittedFlow =
  af_closure :: "'b PinnedFlowDefinitionClosure"
  af_limits :: FlowAdmissionLimits
  af_wip_limits :: FactoryWipLimits
  af_root_run :: FlowRun
  af_initial_cycle :: WorkflowCycle
  af_attached :: 'a

text \<open>The checks that the documents of a closure and of an admitted flow make on themselves.\<close>

record ('b, 'a) flow_environment =
  en_definition_checks :: "'b definition_checks"
  en_digest :: "'b FlowDefinition \<Rightarrow> FactoryDigest"
  en_code_pins :: "'b PinnedFlowDefinitionClosure \<Rightarrow> 'a \<Rightarrow> FactoryError + unit"
  en_data_schemas :: "'b PinnedFlowDefinitionClosure \<Rightarrow> 'a \<Rightarrow> FactoryError + unit"
  en_pools :: "'b PinnedFlowDefinitionClosure \<Rightarrow> FlowAdmissionLimits \<Rightarrow> 'a \<Rightarrow> FactoryError + unit"
  en_no_attachments :: 'a

definition closure_validate ::
  "('b, 'a) flow_environment \<Rightarrow> 'b PinnedFlowDefinitionClosure \<Rightarrow> FlowAdmissionLimits \<Rightarrow> 'b ValidatedFlowDefinitionClosure checked"
where
  "closure_validate env closure limits =
     validated_closure_new (en_definition_checks env) (en_digest env) closure limits"

definition validate_root_bindings :: "('b, 'a) AdmittedFlow \<Rightarrow> FactoryError + unit" where
  "validate_root_bindings f =
     ensure (\<not> (fr_definition (af_root_run f) \<noteq> fc_root (af_closure f) \<or> fr_parent (af_root_run f) \<noteq> None \<or>
         wc_flow_run_id (af_initial_cycle f) \<noteq> fr_id (af_root_run f) \<or> wc_number (af_initial_cycle f) \<noteq> 1 \<or>
         wc_predecessor (af_initial_cycle f) \<noteq> None))
       (FE_InvalidReference (lit ''admitted Flow root''))"

definition admitted_flow_new ::
  "('b, 'a) flow_environment \<Rightarrow> 'b PinnedFlowDefinitionClosure \<Rightarrow> FlowAdmissionLimits \<Rightarrow> FlowRun \<Rightarrow> WorkflowCycle \<Rightarrow>
     FactoryWipLimits \<Rightarrow> ('b, 'a) AdmittedFlow checked"
where
  "admitted_flow_new env closure limits root_run initial_cycle wip_limits =
     also_then (Some (validate_wip_limits limits wip_limits)) (\<lambda>_.
     also_then (closure_validate env closure limits) (\<lambda>_.
     let f = \<lparr>af_closure = closure, af_limits = limits, af_wip_limits = wip_limits, af_root_run = root_run,
              af_initial_cycle = initial_cycle, af_attached = en_no_attachments env\<rparr>
     in also_then (Some (validate_root_bindings f)) (\<lambda>_. Some (Inr f))))"

definition admitted_validated ::
  "('b, 'a) flow_environment \<Rightarrow> ('b, 'a) AdmittedFlow \<Rightarrow> 'b ValidatedFlowDefinitionClosure checked"
where
  "admitted_validated env f =
     also_then (Some (validate_root_bindings f)) (\<lambda>_.
     also_then (Some (en_code_pins env (af_closure f) (af_attached f))) (\<lambda>_.
     also_then (Some (validate_wip_limits (af_limits f) (af_wip_limits f))) (\<lambda>_.
     also_then (Some (en_data_schemas env (af_closure f) (af_attached f))) (\<lambda>_.
     also_then (Some (en_pools env (af_closure f) (af_limits f) (af_attached f))) (\<lambda>_.
     closure_validate env (af_closure f) (af_limits f))))))"

end
