(* ===== verification/Flow_Interpreter.thy ===== *)
theory Flow_Interpreter
  imports Flow_Runtime
begin

text \<open>
  The stateless interpreter of admitted flows: the runtime history and its measured consumption
  (\<^verbatim>\<open>server/core/octacity-server-factory/src/flow/history.rs\<close>), the directives that follow a completion
  (\<^verbatim>\<open>flow/interpreter.rs\<close>) and the control position of a flow (\<^verbatim>\<open>flow/progress.rs\<close>).
\<close>

section \<open>Runtime history\<close>

record FlowRuntimeHistory =
  hi_stops :: "FlowNodeStop list"
  hi_flow_runs :: "FlowRun list"
  hi_cycles :: "WorkflowCycle list"
  hi_attempts :: "NodeAttempt list"
  hi_completions :: "NodeAttemptCompletion list"

type_synonym flow_usage = "(uuid, BudgetUsage) btree"

definition add_flow_usage :: "flow_usage \<Rightarrow> uuid \<Rightarrow> BudgetUsage \<Rightarrow> FactoryError + flow_usage" where
  "add_flow_usage usage flow observed =
     (case usage_checked_add (or_default usage_default (bt_get usage flow)) observed of
        None \<Rightarrow> Inl (invalid ''Flow budget usage'')
      | Some added \<Rightarrow> Inr (bt_insert flow added usage))"

primrec sum_usage_from :: "BudgetUsage \<Rightarrow> BudgetUsage list \<Rightarrow> FactoryError + BudgetUsage" where
  "sum_usage_from acc [] = Inr acc"
| "sum_usage_from acc (u # us) =
     (case usage_checked_add acc u of None \<Rightarrow> Inl (invalid ''Flow budget usage'') | Some acc \<Rightarrow> sum_usage_from acc us)"

definition sum_usage :: "BudgetUsage list \<Rightarrow> FactoryError + BudgetUsage" where
  "sum_usage = sum_usage_from usage_default"

definition find_attempt :: "FlowRuntimeHistory \<Rightarrow> uuid \<Rightarrow> NodeAttempt option" where
  "find_attempt h uid = find (\<lambda>a. na_id a = uid) (hi_attempts h)"

definition completion_of :: "FlowRuntimeHistory \<Rightarrow> uuid \<Rightarrow> NodeAttemptCompletion option" where
  "completion_of h uid = find (\<lambda>c. nc_node_attempt_id c = uid) (hi_completions h)"

definition find_cycle :: "FlowRuntimeHistory \<Rightarrow> uuid \<Rightarrow> WorkflowCycle option" where
  "find_cycle h uid = find (\<lambda>c. wc_id c = uid) (hi_cycles h)"

primrec add_completions :: "NodeAttemptCompletion list \<Rightarrow> flow_usage \<Rightarrow> FactoryError + flow_usage" where
  "add_completions [] usage = Inr usage"
| "add_completions (c # cs) usage = and_then (add_flow_usage usage (nc_flow_run_id c) (nc_usage c)) (add_completions cs)"

text \<open>The flow of a stop is looked up among the attempts; the last row of an identity counts.\<close>

primrec add_stops :: "(uuid, uuid) btree \<Rightarrow> FlowNodeStop list \<Rightarrow> flow_usage \<Rightarrow> FactoryError + flow_usage" where
  "add_stops flows [] usage = Inr usage"
| "add_stops flows (s # ss) usage =
     and_then (ok_or (invalid ''Node stop attempt'') (bt_get flows (st_node_attempt_id s))) (\<lambda>flow.
     and_then (add_flow_usage usage flow (st_usage s)) (add_stops flows ss))"

definition observed_usage_by_flow :: "FlowRuntimeHistory \<Rightarrow> FactoryError + flow_usage" where
  "observed_usage_by_flow h =
     (let flows = fold (\<lambda>a. bt_insert (na_id a) (na_flow_run_id a)) (hi_attempts h) []
      in and_then (add_completions (hi_completions h) []) (add_stops flows (hi_stops h)))"

definition active_nodes :: "FlowRuntimeHistory \<Rightarrow> NodeAttempt list" where
  "active_nodes h =
     (let completed = bs_of_list (map nc_node_attempt_id (hi_completions h) @ map st_node_attempt_id (hi_stops h))
      in filter (\<lambda>a. na_node_kind a \<noteq> NK_SubflowCall \<and> na_id a \<notin> set completed) (hi_attempts h))"

definition active_node_count :: "FlowRuntimeHistory \<Rightarrow> nat" where
  "active_node_count h = length (active_nodes h)"

definition saturating_sub :: "'w::len word \<Rightarrow> 'w word \<Rightarrow> 'w word" where
  "saturating_sub a b = (if b \<le> a then a - b else 0)"

definition stop_overrun :: "BudgetUsage \<Rightarrow> BudgetLimit \<Rightarrow> BudgetUsage" where
  "stop_overrun spent limit = usage_default
     \<lparr>tokens := saturating_sub (tokens spent) (max_tokens limit),
      elapsed_millis := saturating_sub (elapsed_millis spent) (max_elapsed_millis limit),
      cost_micro_units := cost_from_u64 (saturating_sub (known_micro_units (cost_micro_units spent)) (max_cost_micro_units limit))\<rparr>"

primrec add_overruns :: "FlowRuntimeHistory \<Rightarrow> FlowNodeStop list \<Rightarrow> flow_usage \<Rightarrow> FactoryError + flow_usage" where
  "add_overruns h [] usage = Inr usage"
| "add_overruns h (s # ss) usage =
     and_then (ok_or (invalid ''Node stop attempt'') (find_attempt h (st_node_attempt_id s))) (\<lambda>a.
     and_then (add_flow_usage usage (na_flow_run_id a) (stop_overrun (st_usage s) (na_budget a))) (add_overruns h ss))"

definition stop_overruns_by_flow :: "FlowRuntimeHistory \<Rightarrow> FactoryError + flow_usage" where
  "stop_overruns_by_flow h = add_overruns h (hi_stops h) []"

definition validate_budget_usage :: "FlowRuntimeHistory \<Rightarrow> FlowAdmissionLimits \<Rightarrow> BudgetUsage \<Rightarrow> FactoryError + unit" where
  "validate_budget_usage h limits usage =
     and_then (stop_overruns_by_flow h) (\<lambda>overruns.
     and_then (sum_usage (bt_values overruns)) (\<lambda>overrun.
     and_then (ok_or (invalid ''stopped usage accounting'') (usage_checked_sub usage overrun)) (\<lambda>charged.
     and_then (map_err FE_Budget (usage_validate charged (fl_budget limits))) (\<lambda>_. Inr ()))))"

text \<open>The current cycle of a flow is its row of greatest number, the last one among equals.\<close>

fun max_cycle :: "WorkflowCycle list \<Rightarrow> WorkflowCycle option" where
  "max_cycle [] = None"
| "max_cycle (c # cs) = (case max_cycle cs of None \<Rightarrow> Some c | Some m \<Rightarrow> Some (if wc_number m < wc_number c then c else m))"

primrec current_cycle_loop :: "nat \<Rightarrow> FlowRuntimeHistory \<Rightarrow> uuid \<Rightarrow> bool" where
  "current_cycle_loop 0 h current = False"
| "current_cycle_loop (Suc n) h current =
     (case find_cycle h current of
        None \<Rightarrow> False
      | Some cycle \<Rightarrow>
          if max_cycle (filter (\<lambda>c. wc_flow_run_id c = wc_flow_run_id cycle) (hi_cycles h)) \<noteq> Some cycle then False
          else (case find (\<lambda>r. fr_id r = wc_flow_run_id cycle) (hi_flow_runs h) of
             None \<Rightarrow> False
           | Some flow \<Rightarrow>
               (case fr_parent flow of
                  None \<Rightarrow> True
                | Some parent \<Rightarrow>
                    (case find (\<lambda>a. na_id a = fp_node_attempt_id parent \<and> na_flow_run_id a = fp_flow_run_id parent) (hi_attempts h) of
                       None \<Rightarrow> False
                     | Some call \<Rightarrow> current_cycle_loop n h (na_workflow_cycle_id call)))))"

definition is_current_cycle :: "FlowRuntimeHistory \<Rightarrow> uuid \<Rightarrow> bool" where
  "is_current_cycle h uid = current_cycle_loop (Suc (length (hi_flow_runs h))) h uid"

section \<open>Directives\<close>

type_synonym FlowDirectiveInputs = "FlowContextProjection list \<times> FlowDataProjection list"

datatype FlowDirective =
    RestartCycle FactoryKey uuid
  | ExecuteNode FlowDefinitionRef FactoryKey FlowNodeKind FlowDirectiveInputs
  | EnterSubflow FactoryKey FlowDefinitionRef FlowDirectiveInputs
  | Complete FactoryKey FactoryDigest

definition interpreter_definition ::
  "'b ValidatedFlowDefinitionClosure \<Rightarrow> FlowRun \<Rightarrow> FactoryError + 'b FlowDefinition"
where
  "interpreter_definition v flow =
     ok_or (invalid ''Flow Run definition'') (find_definition (fc_definitions (vc_closure v)) (fr_definition flow))"

definition directive_for_node :: "'b FlowDefinition \<Rightarrow> FactoryKey \<Rightarrow> FlowDirectiveInputs \<Rightarrow> FactoryError + FlowDirective" where
  "directive_for_node d k inputs =
     and_then (ok_or (invalid ''Flow directive node'') (definition_node d k)) (\<lambda>node.
     Inr (case fn_subflow node of
       Some nested \<Rightarrow> EnterSubflow k nested inputs
     | None \<Rightarrow> ExecuteNode (fd_reference d) k (fn_kind node) inputs))"

definition projected_inputs :: "'b FlowDefinition \<Rightarrow> FactoryKey \<Rightarrow> FactoryKey \<Rightarrow> FactoryKey \<Rightarrow> FlowDirectiveInputs" where
  "projected_inputs d p k s =
     (filter (\<lambda>(p', k', s', _). p' = p \<and> k' = k \<and> s' = s) (fd_context_projections d),
      filter (\<lambda>(p', k', s', _). p' = p \<and> k' = k \<and> s' = s) (fd_data_projections d))"

definition interpreter_start :: "'b ValidatedFlowDefinitionClosure \<Rightarrow> FlowRun \<Rightarrow> FactoryError + FlowDirective" where
  "interpreter_start v flow =
     and_then (interpreter_definition v flow) (\<lambda>d. directive_for_node d (fd_entry d) ([], []))"

definition validate_runtime_limits ::
  "'b ValidatedFlowDefinitionClosure \<Rightarrow> 'b FlowDefinition \<Rightarrow> FlowRun \<Rightarrow> NodeAttemptCompletion \<Rightarrow> FlowRuntimeHistory \<Rightarrow>
     FactoryError + unit"
where
  "validate_runtime_limits v d flow completion h =
     (if length (filter (\<lambda>a. na_id a = nc_node_attempt_id completion) (hi_attempts h)) \<noteq> 1 \<or>
         length (filter (\<lambda>c. nc_node_attempt_id c = nc_node_attempt_id completion) (hi_completions h)) \<noteq> 1
      then Inl (invalid ''Flow append-only attempt history'')
      else and_then (observed_usage_by_flow h) (\<lambda>usage.
        and_then (map_err FE_Budget (usage_validate (or_default usage_default (bt_get usage (fr_id flow))) (fx_budget (fd_execution d)))) (\<lambda>_.
        and_then (sum_usage (bt_values usage)) (\<lambda>aggregate.
        and_then (map_err FE_Budget (usage_validate aggregate (fl_budget (vc_limits v)))) (\<lambda>_. Inr ())))))"

definition outcome_traversals :: "FlowRuntimeHistory \<Rightarrow> uuid \<Rightarrow> FactoryKey \<Rightarrow> FactoryKey \<Rightarrow> nat" where
  "outcome_traversals h flow k outcome = length (filter
     (\<lambda>c. nc_flow_run_id c = flow \<and> nc_node_key c = k \<and> nc_outcome c = outcome) (hi_completions h))"

text \<open>The directive of one transition.\<close>

definition terminal_directive ::
  "'b FlowDefinition \<Rightarrow> FlowOutcomeDefinition \<Rightarrow> nat \<Rightarrow> FlowTransition \<Rightarrow> FactoryError + FlowDirective"
where
  "terminal_directive d declared traversals t =
     (let (terminal_key, field) =
        (if is_exhausted t traversals then (ft_exhausted_terminal t, ''Flow repeat exhaustion route'')
         else (case ft_target t of To_Terminal k \<Rightarrow> Some k | To_Node _ \<Rightarrow> None, ''Flow terminal schema''))
      in case Option.bind terminal_key (\<lambda>k. find (\<lambda>m. tm_key m = k) (fd_terminals d)) of
           Some terminal \<Rightarrow>
             if tm_schema terminal = oc_schema declared then Inr (Complete (tm_key terminal) (snd (snd (tm_schema terminal))))
             else Inl (invalid field)
         | None \<Rightarrow> Inl (invalid field))"

definition transition_directive ::
  "'b FlowDefinition \<Rightarrow> NodeAttempt \<Rightarrow> FlowOutcomeDefinition \<Rightarrow> nat \<Rightarrow> FlowTransition \<Rightarrow> FactoryError + FlowDirective"
where
  "transition_directive d a declared traversals t =
     (case selected_node t traversals of
        Some successor \<Rightarrow>
          if ft_starts_cycle t then Inr (RestartCycle successor (na_id a))
          else directive_for_node d successor (projected_inputs d (na_node_key a) (oc_key declared) successor)
      | None \<Rightarrow> terminal_directive d declared traversals t)"

definition control_directives ::
  "'b ValidatedFlowDefinitionClosure \<Rightarrow> FlowRun \<Rightarrow> WorkflowCycle \<Rightarrow> NodeAttempt \<Rightarrow> NodeAttemptCompletion \<Rightarrow>
     FlowRuntimeHistory \<Rightarrow> FactoryError + FlowDirective list"
where
  "control_directives v flow cycle a completion h =
     and_then (interpreter_definition v flow) (\<lambda>d.
     if wc_flow_run_id cycle \<noteq> fr_id flow \<or> na_flow_run_id a \<noteq> fr_id flow \<or> na_workflow_cycle_id a \<noteq> wc_id cycle \<or>
        nc_node_attempt_id completion \<noteq> na_id a \<or> nc_flow_run_id completion \<noteq> fr_id flow \<or>
        nc_workflow_cycle_id completion \<noteq> wc_id cycle \<or> nc_node_key completion \<noteq> na_node_key a
     then Inl (invalid ''Flow interpretation snapshot'')
     else
       and_then (ok_or (invalid ''Flow interpretation node'') (definition_node d (na_node_key a))) (\<lambda>node.
       and_then (case node_outcome node (nc_outcome completion) of
           Some c \<Rightarrow> if oc_schema c = nc_output_schema completion then Inr c else Inl (invalid ''Flow interpretation outcome'')
         | None \<Rightarrow> Inl (invalid ''Flow interpretation outcome'')) (\<lambda>declared.
       and_then (validate_runtime_limits v d flow completion h) (\<lambda>_.
       let transitions = filter (\<lambda>t. ft_predecessor t = na_node_key a \<and> ft_outcome t = nc_outcome completion) (fd_transitions d)
       in if transitions = [] then Inl (invalid ''Flow interpretation transition'')
          else try_map (transition_directive d a declared
            (outcome_traversals h (fr_id flow) (na_node_key a) (nc_outcome completion))) transitions))))"

fun is_complete :: "FlowDirective \<Rightarrow> bool" where
  "is_complete (Complete _ _) = True"
| "is_complete _ = False"

text \<open>The sum of active and next nodes saturates at the word size of the machine.\<close>

definition advance ::
  "'b ValidatedFlowDefinitionClosure \<Rightarrow> FlowRun \<Rightarrow> WorkflowCycle \<Rightarrow> NodeAttempt \<Rightarrow> NodeAttemptCompletion \<Rightarrow>
     FlowRuntimeHistory \<Rightarrow> FactoryError + FlowDirective list"
where
  "advance v flow cycle a completion h =
     and_then (control_directives v flow cycle a completion h) (\<lambda>directives.
     and_then (interpreter_definition v flow) (\<lambda>d.
     let next_nodes = length (filter (\<lambda>x. \<not> is_complete x) directives);
         max_wip = min (fx_max_active_nodes (fd_execution d)) (fl_max_wip (vc_limits v))
     in if unat max_wip < min (active_node_count h + next_nodes) (2 ^ 64 - 1) then Inl (invalid ''Flow WIP exhausted'')
        else Inr directives))"

definition declared_successor_keys :: "'b FlowDefinition \<Rightarrow> FactoryKey \<Rightarrow> FactoryKey \<Rightarrow> nat \<Rightarrow> FactoryKey list" where
  "declared_successor_keys d p outcome traversals = bs_of_list (List.map_filter (\<lambda>t. selected_node t traversals)
     (filter (\<lambda>t. \<not> ft_starts_cycle t \<and> ft_predecessor t = p \<and> ft_outcome t = outcome) (fd_transitions d)))"

section \<open>Cycle entries\<close>

definition cycle_ceiling :: "WorkflowCycle \<Rightarrow> FlowRuntimeHistory \<Rightarrow> u64 option" where
  "cycle_ceiling cycle h =
     (case map na_number (filter (\<lambda>a. na_workflow_cycle_id a = wc_id cycle) (hi_attempts h)) of
        [] \<Rightarrow> None | n # ns \<Rightarrow> Some (fold max ns n))"

definition traversals_until :: "FlowRun \<Rightarrow> u64 option \<Rightarrow> FlowRuntimeHistory \<Rightarrow> FactoryKey \<Rightarrow> FactoryKey \<Rightarrow> nat" where
  "traversals_until flow ceiling h k outcome = length (filter
     (\<lambda>c. nc_flow_run_id c = fr_id flow \<and>
        list_ex (\<lambda>a. na_id a = nc_node_attempt_id c \<and> Some (na_number a) \<le> ceiling) (hi_attempts h) \<and>
        nc_node_key c = k \<and> nc_outcome c = outcome) (hi_completions h))"

text \<open>The earliest attempt of a cycle whose result selects a restart, by attempt number.\<close>

primrec restart_scan ::
  "'b FlowDefinition \<Rightarrow> FlowRun \<Rightarrow> u64 option \<Rightarrow> FlowRuntimeHistory \<Rightarrow> NodeAttempt list \<Rightarrow> (u64 \<times> uuid \<times> FactoryKey) option \<Rightarrow>
     FactoryError + (u64 \<times> uuid \<times> FactoryKey) option"
where
  "restart_scan d flow ceiling h [] selected = Inr selected"
| "restart_scan d flow ceiling h (a # as) selected =
     (case completion_of h (na_id a) of
        None \<Rightarrow> restart_scan d flow ceiling h as selected
      | Some c \<Rightarrow>
          (case find (\<lambda>t. ft_starts_cycle t \<and> ft_predecessor t = na_node_key a \<and> ft_outcome t = nc_outcome c) (fd_transitions d) of
             None \<Rightarrow> restart_scan d flow ceiling h as selected
           | Some edge \<Rightarrow>
               if unat (ft_max_repeats edge) < traversals_until flow ceiling h (na_node_key a) (nc_outcome c)
               then restart_scan d flow ceiling h as selected
               else (case ft_target edge of
                  To_Terminal _ \<Rightarrow> Inl (invalid ''workflow cycle declared restart'')
                | To_Node node \<Rightarrow>
                    restart_scan d flow ceiling h as
                      (case selected of
                         None \<Rightarrow> Some (na_number a, na_id a, node)
                       | Some (number, _, _) \<Rightarrow> if na_number a < number then Some (na_number a, na_id a, node) else selected))))"

definition restart_in_cycle ::
  "'b ValidatedFlowDefinitionClosure \<Rightarrow> FlowRun \<Rightarrow> WorkflowCycle \<Rightarrow> FlowRuntimeHistory \<Rightarrow> FactoryError + (uuid \<times> FactoryKey) option"
where
  "restart_in_cycle v flow cycle h =
     and_then (interpreter_definition v flow) (\<lambda>d.
     map_ok (map_option snd) (restart_scan d flow (cycle_ceiling cycle h) h
       (filter (\<lambda>a. na_workflow_cycle_id a = wc_id cycle \<and> na_flow_run_id a = fr_id flow) (hi_attempts h)) None))"

definition unfinished :: "FlowRuntimeHistory \<Rightarrow> NodeAttempt \<Rightarrow> bool" where
  "unfinished h a \<longleftrightarrow> \<not> list_ex (\<lambda>c. nc_node_attempt_id c = na_id a) (hi_completions h) \<and>
     \<not> list_ex (\<lambda>s. st_node_attempt_id s = na_id a) (hi_stops h)"

definition cycle_entry ::
  "'b ValidatedFlowDefinitionClosure \<Rightarrow> FlowRun \<Rightarrow> WorkflowCycle \<Rightarrow> FlowRuntimeHistory \<Rightarrow> FactoryError + FactoryKey"
where
  "cycle_entry v flow cycle h =
     (if wc_flow_run_id cycle \<noteq> fr_id flow then Inl (invalid ''workflow cycle owner'')
      else case wc_predecessor cycle of
        None \<Rightarrow> and_then (interpreter_definition v flow) (\<lambda>d. Inr (fd_entry d))
      | Some predecessor \<Rightarrow>
          and_then (ok_or (invalid ''workflow cycle source'') (wc_source_attempt_id cycle)) (\<lambda>source.
          and_then (ok_or (invalid ''workflow cycle source'') (find_attempt h source)) (\<lambda>a.
          and_then (ok_or (invalid ''workflow cycle predecessor'') (find_cycle h predecessor)) (\<lambda>previous.
          if na_flow_run_id a \<noteq> fr_id flow \<or> na_workflow_cycle_id a \<noteq> wc_id previous \<or>
             list_ex (\<lambda>row. na_workflow_cycle_id row = wc_id previous \<and> unfinished h row) (hi_attempts h)
          then Inl (invalid ''workflow cycle unfinished predecessor'')
          else and_then (restart_in_cycle v flow previous h) (\<lambda>selected.
            case selected of
              Some (chosen, node) \<Rightarrow> if chosen = source then Inr node else Inl (invalid ''workflow cycle declared restart'')
            | None \<Rightarrow> Inl (invalid ''workflow cycle declared restart''))))))"

section \<open>Progress\<close>

datatype FlowProgress = At_RestartCycle FactoryKey uuid | At_Node FactoryKey | At_Terminal FactoryKey uuid | At_Waiting

record position_state =
  po_ready :: "FactoryKey list"
  po_restart :: "FlowProgress option"
  po_terminal :: "(u64 \<times> FactoryKey \<times> uuid) option"

definition apply_directive :: "NodeAttempt list \<Rightarrow> NodeAttempt \<Rightarrow> FlowDirective \<Rightarrow> position_state \<Rightarrow> position_state" where
  "apply_directive rows a directive st =
     (let ready = (\<lambda>node. if list_ex (\<lambda>s. na_node_key s = node \<and> na_number a < na_number s) rows then st
                     else st\<lparr>po_ready := bs_insert node (po_ready st)\<rparr>)
      in case directive of
        RestartCycle node source \<Rightarrow>
          if po_restart st = None then st\<lparr>po_restart := Some (At_RestartCycle node source)\<rparr> else st
      | ExecuteNode _ node _ _ \<Rightarrow> ready node
      | EnterSubflow node _ _ \<Rightarrow> ready node
      | Complete k _ \<Rightarrow>
          (case po_terminal st of
             None \<Rightarrow> st\<lparr>po_terminal := Some (na_number a, k, na_id a)\<rparr>
           | Some (number, _, _) \<Rightarrow>
               if number < na_number a then st\<lparr>po_terminal := Some (na_number a, k, na_id a)\<rparr> else st))"

primrec position_scan ::
  "'b ValidatedFlowDefinitionClosure \<Rightarrow> FlowRun \<Rightarrow> WorkflowCycle \<Rightarrow> FlowRuntimeHistory \<Rightarrow> NodeAttempt list \<Rightarrow>
     NodeAttempt list \<Rightarrow> position_state \<Rightarrow> FactoryError + position_state"
where
  "position_scan v flow cycle h rows [] st = Inr st"
| "position_scan v flow cycle h rows (a # as) st =
     (case completion_of h (na_id a) of
        None \<Rightarrow> position_scan v flow cycle h rows as st
      | Some c \<Rightarrow>
          and_then (control_directives v flow cycle a c h) (\<lambda>directives.
          position_scan v flow cycle h rows as (fold (apply_directive rows a) directives st)))"

definition cycle_rows :: "FlowRun \<Rightarrow> WorkflowCycle \<Rightarrow> FlowRuntimeHistory \<Rightarrow> NodeAttempt list" where
  "cycle_rows flow cycle h = sort_key na_number
     (filter (\<lambda>a. na_flow_run_id a = fr_id flow \<and> na_workflow_cycle_id a = wc_id cycle) (hi_attempts h))"

definition pending_rows :: "NodeAttempt list \<Rightarrow> FlowRuntimeHistory \<Rightarrow> NodeAttempt list" where
  "pending_rows rows h = filter (\<lambda>a.
     \<not> list_ex (\<lambda>s. na_retry_of s = Some (na_id a)) rows \<and>
     \<not> list_ex (\<lambda>c. nc_node_attempt_id c = na_id a) (hi_completions h)) rows"

definition position ::
  "'b ValidatedFlowDefinitionClosure \<Rightarrow> FlowRun \<Rightarrow> WorkflowCycle \<Rightarrow> FlowRuntimeHistory \<Rightarrow>
     FactoryError + FlowProgress \<times> FactoryKey list"
where
  "position v flow cycle h =
     (let rows = cycle_rows flow cycle h; pending = pending_rows rows h;
          pending_keys = bs_of_list (map na_node_key pending) in
      if rows = [] then and_then (cycle_entry v flow cycle h) (\<lambda>entry. Inr (At_Node entry, [entry]))
      else and_then (position_scan v flow cycle h rows rows \<lparr>po_ready = pending_keys, po_restart = None, po_terminal = None\<rparr>) (\<lambda>st.
        case po_restart st of
          Some restart \<Rightarrow>
            Inr (case pending of p # _ \<Rightarrow> At_Node (na_node_key p) | [] \<Rightarrow> restart, pending_keys)
        | None \<Rightarrow>
            Inr (case pending of
                p # _ \<Rightarrow> At_Node (na_node_key p)
              | [] \<Rightarrow> (case po_ready st of
                  node # _ \<Rightarrow> At_Node node
                | [] \<Rightarrow> (case po_terminal st of
                    Some (_, k, source) \<Rightarrow> At_Terminal k source
                  | None \<Rightarrow> At_Waiting)), po_ready st)))"

definition progress ::
  "'b ValidatedFlowDefinitionClosure \<Rightarrow> FlowRun \<Rightarrow> WorkflowCycle \<Rightarrow> FlowRuntimeHistory \<Rightarrow> FactoryError + FlowProgress"
where
  "progress v flow cycle h = map_ok fst (position v flow cycle h)"

definition ready_nodes ::
  "'b ValidatedFlowDefinitionClosure \<Rightarrow> FlowRun \<Rightarrow> WorkflowCycle \<Rightarrow> FlowRuntimeHistory \<Rightarrow> FactoryError + FactoryKey list"
where
  "ready_nodes v flow cycle h = map_ok snd (position v flow cycle h)"

end
