(* ===== verification/Flow_History.thy ===== *)
theory Flow_History
  imports Flow_Interpreter
begin

text \<open>
  Validation of a complete Flow runtime history against the admitted closure,
  \<^verbatim>\<open>validate_flow_runtime_history\<close> and its helpers in
  \<^verbatim>\<open>server/core/octacity-server-factory/src/flow/history.rs\<close>.
\<close>

section \<open>Identities\<close>

definition unique_by :: "'r list \<Rightarrow> ('r \<Rightarrow> 'k::linorder) \<Rightarrow> string \<Rightarrow> FactoryError + ('k, 'r) btree" where
  "unique_by records key field = map_err (\<lambda>_. invalid field) (collect_unique (map (\<lambda>r. (key r, r)) records) [])"

type_synonym run_table = "(uuid, FlowRun) btree"
type_synonym cycle_table = "(uuid, WorkflowCycle) btree"
type_synonym attempt_table = "(uuid, NodeAttempt) btree"

definition closure_definition :: "'b ValidatedFlowDefinitionClosure \<Rightarrow> FlowDefinitionRef \<Rightarrow> 'b FlowDefinition option" where
  "closure_definition v r = find_definition (fc_definitions (vc_closure v)) r"

section \<open>Flow Runs\<close>

definition validate_parent ::
  "'b ValidatedFlowDefinitionClosure \<Rightarrow> FlowRuntimeHistory \<Rightarrow> run_table \<Rightarrow> attempt_table \<Rightarrow> 'b FlowDefinition \<Rightarrow>
     FlowRunParent \<Rightarrow> FactoryError + unit"
where
  "validate_parent v h runs attempt_rows d parent =
     (if length (filter (\<lambda>r. fr_parent r = Some parent) (hi_flow_runs h)) \<noteq> 1 then Inl (invalid ''unique nested Flow call'')
      else
        and_then (ok_or (invalid ''nested Flow parent Run'') (bt_get runs (fp_flow_run_id parent))) (\<lambda>parent_run.
        and_then (ok_or (invalid ''nested Flow parent attempt'') (bt_get attempt_rows (fp_node_attempt_id parent))) (\<lambda>call.
        let nested = Option.bind (Option.bind (closure_definition v (fr_definition parent_run)) (\<lambda>p. definition_node p (na_node_key call)))
              (\<lambda>node. if fn_kind node = NK_SubflowCall then fn_subflow node else None)
        in if na_flow_run_id call \<noteq> fr_id parent_run \<or> nested \<noteq> Some (fd_reference d)
           then Inl (invalid ''nested Flow definition'') else Inr ())))"

definition validate_flow_run ::
  "'b ValidatedFlowDefinitionClosure \<Rightarrow> FlowRun \<Rightarrow> FlowRuntimeHistory \<Rightarrow> run_table \<Rightarrow> attempt_table \<Rightarrow> FlowRun \<Rightarrow> FactoryError + unit"
where
  "validate_flow_run v root h runs attempt_rows flow =
     and_then (ok_or (invalid ''Flow Run definition'') (closure_definition v (fr_definition flow))) (\<lambda>d.
     if fr_factory_run_id flow \<noteq> fr_factory_run_id root then Inl (invalid ''Flow Run Factory Run'')
     else when_some (fr_parent flow) (validate_parent v h runs attempt_rows d))"

section \<open>Cycles\<close>

definition validate_successor_cycle ::
  "'b ValidatedFlowDefinitionClosure \<Rightarrow> cycle_table \<Rightarrow> FlowRuntimeHistory \<Rightarrow> FlowRun \<Rightarrow> WorkflowCycle \<Rightarrow> FactoryError + unit"
where
  "validate_successor_cycle v cycles h flow cycle =
     when_some (wc_predecessor cycle) (\<lambda>predecessor.
       and_then (ok_or (invalid ''workflow cycle predecessor'') (bt_get cycles predecessor)) (\<lambda>previous.
       if wc_flow_run_id previous \<noteq> fr_id flow \<or> checked_add (wc_number previous) 1 \<noteq> Some (wc_number cycle) \<or>
          length (filter (\<lambda>c. wc_predecessor c = Some predecessor) (bt_values cycles)) \<noteq> 1
       then Inl (invalid ''workflow cycle sequence'')
       else and_then (cycle_entry v flow cycle h) (\<lambda>_. Inr ())))"

definition validate_run_cycles ::
  "'b ValidatedFlowDefinitionClosure \<Rightarrow> cycle_table \<Rightarrow> FlowRuntimeHistory \<Rightarrow> FlowRun \<Rightarrow> FactoryError + unit"
where
  "validate_run_cycles v cycles h flow =
     (let run_cycles = filter (\<lambda>c. wc_flow_run_id c = fr_id flow) (bt_values cycles)
      in case filter (\<lambda>c. wc_predecessor c = None) run_cycles of
           [first] \<Rightarrow>
             if wc_number first \<noteq> 1 \<or> wc_id first \<noteq> fr_id flow \<or> wc_source_attempt_id first \<noteq> None
             then Inl (invalid ''Flow Run initial cycle'')
             else try_each (validate_successor_cycle v cycles h flow) run_cycles
         | _ \<Rightarrow> Inl (invalid ''Flow Run initial cycle''))"

definition validate_cycles ::
  "('b, 'a) AdmittedFlow \<Rightarrow> 'b ValidatedFlowDefinitionClosure \<Rightarrow> run_table \<Rightarrow> cycle_table \<Rightarrow> FlowRuntimeHistory \<Rightarrow> FactoryError + unit"
where
  "validate_cycles f v runs cycles h =
     (if bt_get cycles (wc_id (af_initial_cycle f)) \<noteq> Some (af_initial_cycle f) then Inl (invalid ''initial workflow cycle'')
      else try_each (validate_run_cycles v cycles h) (bt_values runs))"

section \<open>Attempts\<close>

definition validate_attempt_row ::
  "'b ValidatedFlowDefinitionClosure \<Rightarrow> run_table \<Rightarrow> cycle_table \<Rightarrow> NodeAttempt \<Rightarrow> FactoryError + unit"
where
  "validate_attempt_row v runs cycles a =
     and_then (ok_or (invalid ''Node Attempt Flow Run'') (bt_get runs (na_flow_run_id a))) (\<lambda>flow.
     and_then (ok_or (invalid ''Node Attempt workflow cycle'') (bt_get cycles (na_workflow_cycle_id a))) (\<lambda>cycle.
     and_then (ok_or (invalid ''Node Attempt definition'')
       (Option.bind (closure_definition v (fr_definition flow)) (\<lambda>d. definition_node d (na_node_key a)))) (\<lambda>node.
     if na_factory_run_id a \<noteq> fr_factory_run_id flow \<or> wc_flow_run_id cycle \<noteq> fr_id flow then Inl (invalid ''Node Attempt ownership'')
     else if na_node_kind a \<noteq> fn_kind node \<or> na_budget a \<noteq> fn_budget node then Inl (invalid ''Node Attempt declaration'')
     else if \<not> is_compatible (na_execution a) (na_node_kind a) then Inl (invalid ''Node Attempt executor'')
     else validate_execution_window a)))"

text \<open>The numbers of the attempts of a flow are one, two, three and so on.\<close>

definition numbered_from_one :: "u64 list \<Rightarrow> bool" where
  "numbered_from_one numbers = list_all (\<lambda>(i, actual). unat actual = i + 1) (List.enumerate 0 (sort numbers))"

definition validate_numbers :: "NodeAttempt list \<Rightarrow> FactoryError + unit" where
  "validate_numbers rows =
     try_each (\<lambda>flow. ensure (numbered_from_one (map na_number (filter (\<lambda>a. na_flow_run_id a = flow) rows)))
       (invalid ''Node Attempt sequence'')) (bs_of_list (map na_flow_run_id rows))"

text \<open>The loop over the retried attempts; \<open>remaining\<close> is the number of retries that may still be counted.\<close>

primrec retry_lineage :: "nat \<Rightarrow> attempt_table \<Rightarrow> NodeAttempt \<Rightarrow> FactoryError + unit" where
  "retry_lineage 0 attempt_rows current =
     (case na_retry_of current of None \<Rightarrow> Inr () | Some _ \<Rightarrow> Inl (invalid ''Node retry bound''))"
| "retry_lineage (Suc remaining) attempt_rows current =
     (case na_retry_of current of
        None \<Rightarrow> Inr ()
      | Some parent \<Rightarrow>
          and_then (ok_or (invalid ''Node retry predecessor'') (bt_get attempt_rows parent)) (retry_lineage remaining attempt_rows))"

definition validate_retry ::
  "'b FlowDefinition \<Rightarrow> attempt_table \<Rightarrow> FlowRuntimeHistory \<Rightarrow> NodeAttempt \<Rightarrow> uuid \<Rightarrow> FactoryError + unit"
where
  "validate_retry d attempt_rows h a previous_id =
     and_then (ok_or (invalid ''Node retry predecessor'') (bt_get attempt_rows previous_id)) (\<lambda>previous.
     and_then (ok_or (invalid ''Node retry confirmed failure'')
       (Option.bind (find (\<lambda>s. st_node_attempt_id s = previous_id) (hi_stops h))
         (\<lambda>s. if st_reason s = SR_ExecutionFailed then Some s else None))) (\<lambda>stopped.
     and_then (with_retry_of a previous) (\<lambda>linked.
     if linked \<noteq> a \<or> na_started_at a < st_observed_at stopped \<or>
        length (filter (\<lambda>row. na_retry_of row = Some previous_id) (hi_attempts h)) \<noteq> 1
     then Inl (invalid ''Node retry lineage'')
     else and_then (ok_or (invalid ''Node retry declaration'') (definition_node d (na_node_key a))) (\<lambda>node.
       retry_lineage (unat (fn_max_execution_retries node)) attempt_rows a))))"

definition traversals_through ::
  "attempt_table \<Rightarrow> NodeAttemptCompletion list \<Rightarrow> NodeAttemptCompletion \<Rightarrow> NodeAttempt \<Rightarrow> nat"
where
  "traversals_through attempt_rows completions completion producer = length (filter
     (\<lambda>c. nc_flow_run_id c = nc_flow_run_id completion \<and> nc_node_key c = nc_node_key completion \<and>
        nc_outcome c = nc_outcome completion \<and>
        (case bt_get attempt_rows (nc_node_attempt_id c) of None \<Rightarrow> False | Some a \<Rightarrow> na_number a \<le> na_number producer)) completions)"

definition declares_successor ::
  "'b FlowDefinition \<Rightarrow> attempt_table \<Rightarrow> FlowRuntimeHistory \<Rightarrow> WorkflowCycle \<Rightarrow> FactoryKey \<Rightarrow> NodeAttempt \<Rightarrow> bool"
where
  "declares_successor d attempt_rows h cycle k predecessor \<longleftrightarrow>
     na_workflow_cycle_id predecessor = wc_id cycle \<and>
     (case completion_of h (na_id predecessor) of
        None \<Rightarrow> False
      | Some completion \<Rightarrow>
          k \<in> set (declared_successor_keys d (na_node_key predecessor) (nc_outcome completion)
            (traversals_through attempt_rows (hi_completions h) completion predecessor)))"

text \<open>The route of one attempt; \<open>earlier\<close> holds the attempts before it in number order.\<close>

definition validate_route ::
  "'b ValidatedFlowDefinitionClosure \<Rightarrow> FlowRun \<Rightarrow> 'b FlowDefinition \<Rightarrow> cycle_table \<Rightarrow> attempt_table \<Rightarrow> FlowRuntimeHistory \<Rightarrow>
     NodeAttempt list \<Rightarrow> NodeAttempt \<Rightarrow> FactoryError + unit"
where
  "validate_route v flow d cycles attempt_rows h earlier a =
     (case na_retry_of a of
        Some previous_id \<Rightarrow> validate_retry d attempt_rows h a previous_id
      | None \<Rightarrow>
          and_then (ok_or (invalid ''Node cycle'') (bt_get cycles (na_workflow_cycle_id a))) (\<lambda>cycle.
          if \<not> list_ex (\<lambda>p. na_workflow_cycle_id p = wc_id cycle) earlier
          then and_then (cycle_entry v flow cycle h) (\<lambda>entry.
            ensure (na_node_key a = entry) (invalid ''Flow entry attempt''))
          else ensure (list_ex (declares_successor d attempt_rows h cycle (na_node_key a)) earlier)
            (invalid ''Flow Node Attempt route'')))"

primrec validate_routes ::
  "'b ValidatedFlowDefinitionClosure \<Rightarrow> FlowRun \<Rightarrow> 'b FlowDefinition \<Rightarrow> cycle_table \<Rightarrow> attempt_table \<Rightarrow> FlowRuntimeHistory \<Rightarrow>
     NodeAttempt list \<Rightarrow> NodeAttempt list \<Rightarrow> FactoryError + unit"
where
  "validate_routes v flow d cycles attempt_rows h earlier [] = Inr ()"
| "validate_routes v flow d cycles attempt_rows h earlier (a # as) =
     and_then (validate_route v flow d cycles attempt_rows h earlier a)
       (\<lambda>_. validate_routes v flow d cycles attempt_rows h (earlier @ [a]) as)"

definition validate_run_attempts ::
  "'b ValidatedFlowDefinitionClosure \<Rightarrow> cycle_table \<Rightarrow> attempt_table \<Rightarrow> FlowRuntimeHistory \<Rightarrow> FlowRun \<Rightarrow> FactoryError + unit"
where
  "validate_run_attempts v cycles attempt_rows h flow =
     and_then (ok_or (invalid ''Flow Run definition'') (closure_definition v (fr_definition flow))) (\<lambda>d.
     validate_routes v flow d cycles attempt_rows h []
       (sort_key na_number (filter (\<lambda>a. na_flow_run_id a = fr_id flow) (hi_attempts h))))"

definition validate_attempts ::
  "'b ValidatedFlowDefinitionClosure \<Rightarrow> run_table \<Rightarrow> cycle_table \<Rightarrow> attempt_table \<Rightarrow> FlowRuntimeHistory \<Rightarrow> FactoryError + unit"
where
  "validate_attempts v runs cycles attempt_rows h =
     and_then (try_each (validate_attempt_row v runs cycles) (bt_values attempt_rows)) (\<lambda>_.
     and_then (validate_numbers (hi_attempts h)) (\<lambda>_.
     try_each (validate_run_attempts v cycles attempt_rows h) (bt_values runs)))"

section \<open>Completions and stops\<close>

definition validate_completion ::
  "'b ValidatedFlowDefinitionClosure \<Rightarrow> run_table \<Rightarrow> attempt_table \<Rightarrow> NodeAttemptCompletion \<Rightarrow> uuid list \<Rightarrow> FactoryError + uuid list"
where
  "validate_completion v runs attempt_rows c completed =
     and_then (ok_or (invalid ''Node Attempt completion attempt'') (bt_get attempt_rows (nc_node_attempt_id c))) (\<lambda>a.
     and_then (ok_or (invalid ''Node Attempt completion definition'')
       (Option.bind (bt_get runs (na_flow_run_id a)) (\<lambda>flow. closure_definition v (fr_definition flow)))) (\<lambda>d.
     if nc_node_attempt_id c \<in> set completed \<or> na_flow_run_id a \<noteq> nc_flow_run_id c \<or>
        na_workflow_cycle_id a \<noteq> nc_workflow_cycle_id c \<or> na_node_key a \<noteq> nc_node_key c \<or>
        \<not> accepts_completion_owner a (nc_ownership c) \<or>
        verify_fence (ow_claim (nc_ownership c)) (cl_fence (ow_claim (nc_ownership c))) (nc_observed_at c) \<noteq> Inr () \<or>
        (case usage_validate (nc_usage c) (na_budget a) of Inl _ \<Rightarrow> True | Inr _ \<Rightarrow> False) \<or>
        (case Option.bind (definition_node d (na_node_key a)) (\<lambda>node. node_outcome node (nc_outcome c)) of
           None \<Rightarrow> True | Some declared \<Rightarrow> oc_schema declared \<noteq> nc_output_schema c)
     then Inl (invalid ''Node Attempt completion'')
     else Inr (bs_insert (nc_node_attempt_id c) completed)))"

primrec validate_completions ::
  "'b ValidatedFlowDefinitionClosure \<Rightarrow> run_table \<Rightarrow> attempt_table \<Rightarrow> NodeAttemptCompletion list \<Rightarrow> uuid list \<Rightarrow> FactoryError + unit"
where
  "validate_completions v runs attempt_rows [] completed = Inr ()"
| "validate_completions v runs attempt_rows (c # cs) completed =
     and_then (validate_completion v runs attempt_rows c completed) (validate_completions v runs attempt_rows cs)"

primrec validate_stops ::
  "attempt_table \<Rightarrow> NodeAttemptCompletion list \<Rightarrow> FlowNodeStop list \<Rightarrow> uuid list \<Rightarrow> FactoryError + unit"
where
  "validate_stops attempt_rows completions [] stopped = Inr ()"
| "validate_stops attempt_rows completions (s # ss) stopped =
     and_then (ok_or (invalid ''Node stop owner'') (bt_get attempt_rows (st_node_attempt_id s))) (\<lambda>a.
     if na_id a \<in> set stopped \<or> list_ex (\<lambda>c. nc_node_attempt_id c = na_id a) completions then Inl (invalid ''unique Node stop'')
     else and_then (verify_observer a (st_ownership s) (st_observed_at s)) (\<lambda>_.
       if attempts (st_usage s) \<noteq> 0 \<or> max_output_bytes (na_budget a) < output_bytes (st_usage s)
       then Inl (invalid ''Node stop usage'')
       else validate_stops attempt_rows completions ss (bs_insert (na_id a) stopped)))"

section \<open>Budgets\<close>

definition validate_run_budget ::
  "'b PinnedFlowDefinitionClosure \<Rightarrow> flow_usage \<Rightarrow> flow_usage \<Rightarrow> FlowRun \<Rightarrow> FactoryError + unit"
where
  "validate_run_budget closure usage overruns flow =
     and_then (ok_or (invalid ''Flow Run definition'') (find_definition (fc_definitions closure) (fr_definition flow))) (\<lambda>d.
     and_then (ok_or (invalid ''stopped Flow usage accounting'')
       (usage_checked_sub (or_default usage_default (bt_get usage (fr_id flow))) (or_default usage_default (bt_get overruns (fr_id flow))))) (\<lambda>charged.
     and_then (map_err FE_Budget (usage_validate charged (fx_budget (fd_execution d)))) (\<lambda>_. Inr ())))"

definition validate_flow_budgets :: "('b, 'a) AdmittedFlow \<Rightarrow> FlowRuntimeHistory \<Rightarrow> flow_usage \<Rightarrow> FactoryError + unit" where
  "validate_flow_budgets f h usage =
     and_then (sum_usage (bt_values usage)) (\<lambda>aggregate.
     and_then (validate_budget_usage h (af_limits f) aggregate) (\<lambda>_.
     and_then (stop_overruns_by_flow h) (\<lambda>overruns.
     try_each (validate_run_budget (af_closure f) usage overruns) (hi_flow_runs h))))"

section \<open>Histories\<close>

definition validate_flow_runtime_history ::
  "('b, 'a) flow_environment \<Rightarrow> ('b, 'a) AdmittedFlow \<Rightarrow> FlowRuntimeHistory \<Rightarrow> unit checked"
where
  "validate_flow_runtime_history env f h =
     also_then (admitted_validated env f) (\<lambda>v. Some (
       and_then (unique_by (hi_flow_runs h) fr_id ''Flow Run identity'') (\<lambda>runs.
       and_then (unique_by (hi_cycles h) wc_id ''workflow cycle identity'') (\<lambda>cycles.
       and_then (unique_by (hi_attempts h) na_id ''Node Attempt identity'') (\<lambda>attempt_rows.
       if bt_get runs (fr_id (af_root_run f)) \<noteq> Some (af_root_run f) \<or>
          length (filter (\<lambda>r. fr_parent r = None) (bt_values runs)) \<noteq> 1
       then Inl (invalid ''Flow runtime root'')
       else
         and_then (try_each (validate_flow_run v (af_root_run f) h runs attempt_rows) (bt_values runs)) (\<lambda>_.
         and_then (validate_cycles f v runs cycles h) (\<lambda>_.
         and_then (validate_attempts v runs cycles attempt_rows h) (\<lambda>_.
         and_then (validate_completions v runs attempt_rows (hi_completions h) []) (\<lambda>_.
         and_then (validate_stops attempt_rows (hi_completions h) (hi_stops h) []) (\<lambda>_.
         if unat (fl_max_wip (vc_limits v)) < active_node_count h then Inl (invalid ''Flow aggregate WIP'')
         else and_then (observed_usage_by_flow h) (validate_flow_budgets f h)))))))))))"

end
