(* ===== verification/Flow_Runtime_Correct.thy ===== *)
theory Flow_Runtime_Correct
  imports Flow_History
begin

text \<open>
  Correctness of the Flow interpreter and of the validation of runtime histories: what an accepted
  history is, that the interpreter follows only declared routes, and that it always finds a next step
  for an accepted history, unless the measured consumption exceeds a budget.
\<close>

section \<open>Validated closures\<close>

lemma closure_validate_Inr:
  assumes "closure_validate env closure limits = Some (Inr v)"
  shows "vc_closure v = closure \<and> vc_limits v = limits \<and>
    (\<forall>d\<in>set (fc_definitions closure).
       validate_definition (en_definition_checks env) (en_digest env) (fc_definitions closure) limits d = Some (Inr ()))"
  using assms unfolding closure_validate_def validated_closure_new_def Let_def
  by (auto simp: also_then_Inr_iff fold_checked_unit split: if_splits prod.splits)

lemma unique_terminals_distinct:
  "unique_terminals ts m = Inr m' \<Longrightarrow> distinct (map tm_key ts) \<and> (\<forall>t\<in>set ts. bt_get m (tm_key t) = None)"
proof (induction ts arbitrary: m)
  case (Cons t ts)
  then have "bt_get m (tm_key t) = None" "unique_terminals ts (bt_insert (tm_key t) t m) = Inr m'"
    by (auto split: if_splits)
  with Cons.IH [OF this(2)] show ?case by (auto simp: bt_get_insert split: if_splits)
qed simp

lemma accepted_terminals:
  "validate_definition checks digest definitions limits d = Some (Inr ()) \<Longrightarrow> distinct (map tm_key (fd_terminals d))"
  by (erule accepted_cases) (use unique_terminals_distinct in blast)

lemma has_terminal_found:
  assumes "distinct (map tm_key (fd_terminals d))" and "has_terminal d k c"
  obtains u where "find (\<lambda>m. tm_key m = k) (fd_terminals d) = Some u" and "u \<in> set (fd_terminals d)"
    and "tm_key u = k" and "tm_schema u = oc_schema c"
proof -
  obtain u where u: "u \<in> set (fd_terminals d)" "tm_key u = k" "tm_schema u = oc_schema c"
    using assms(2) by (auto simp: has_terminal_def)
  obtain u' where u': "find (\<lambda>m. tm_key m = k) (fd_terminals d) = Some u'"
    using u by (cases "find (\<lambda>m. tm_key m = k) (fd_terminals d)") (auto simp: find_None_iff)
  then have "u' \<in> set (fd_terminals d)" "tm_key u' = k" by (auto simp: find_Some_iff)
  with u assms(1) have "u' = u" by (auto simp: distinct_map inj_on_def)
  with that u u' show thesis by blast
qed

section \<open>Directives\<close>

text \<open>The directive that a transition declares after a number of traversals.\<close>

definition declares ::
  "'b FlowDefinition \<Rightarrow> NodeAttempt \<Rightarrow> nat \<Rightarrow> FlowTransition \<Rightarrow> FlowDirective \<Rightarrow> bool"
where
  "declares d a n t x \<longleftrightarrow> (case x of
     RestartCycle s source \<Rightarrow> ft_starts_cycle t \<and> selected_node t n = Some s \<and> source = na_id a
   | ExecuteNode r s kind inputs \<Rightarrow> \<not> ft_starts_cycle t \<and> selected_node t n = Some s \<and> r = fd_reference d \<and>
       (\<exists>node. definition_node d s = Some node \<and> fn_kind node = kind \<and> fn_subflow node = None) \<and>
       inputs = projected_inputs d (ft_predecessor t) (ft_outcome t) s
   | EnterSubflow s nested inputs \<Rightarrow> \<not> ft_starts_cycle t \<and> selected_node t n = Some s \<and>
       (\<exists>node. definition_node d s = Some node \<and> fn_subflow node = Some nested) \<and>
       inputs = projected_inputs d (ft_predecessor t) (ft_outcome t) s
   | Complete k schema \<Rightarrow> selected_node t n = None \<and>
       (if is_exhausted t n then ft_exhausted_terminal t = Some k else ft_target t = To_Terminal k) \<and>
       (\<exists>u\<in>set (fd_terminals d). tm_key u = k \<and> snd (snd (tm_schema u)) = schema))"

lemma flow_node_found:
  assumes "k \<in> flow_nodes d"
  obtains node where "definition_node d k = Some node"
  using assms by (cases "definition_node d k") (auto simp: definition_node_def flow_nodes_def find_None_iff)

lemma node_outcome_key: "node_outcome node k = Some c \<Longrightarrow> oc_key c = k \<and> c \<in> set (fn_outcomes node)"
  by (auto simp: node_outcome_def find_Some_iff)

lemma transition_directive_declared:
  assumes graph: "flow_graph_sound limits d" and terminals: "distinct (map tm_key (fd_terminals d))"
    and sound: "transition_sound d limits t" and t: "t \<in> set (fd_transitions d)"
    and a: "ft_predecessor t = na_node_key a" "definition_node d (na_node_key a) = Some node"
    and declared: "node_outcome node (ft_outcome t) = Some declared"
  shows "\<exists>x. transition_directive d a declared n t = Inr x \<and> declares d a n t x"
proof (cases "selected_node t n")
  case (Some s)
  have "s \<in> flow_nodes d" using flow_path_edge [OF t Some] graph by (auto simp: flow_graph_sound_def)
  then obtain target where target: "definition_node d s = Some target" by (rule flow_node_found)
  have "oc_key declared = ft_outcome t" using node_outcome_key [OF declared] by simp
  then show ?thesis using Some target a(1)
    by (auto simp: transition_directive_def directive_for_node_def declares_def split: option.splits)
next
  case None
  have c: "transition_sound d limits t \<Longrightarrow> ft_exhausted_terminal t = Some k \<Longrightarrow> has_terminal d k declared"
    "ft_target t = To_Terminal k \<Longrightarrow> has_terminal d k declared" for k
    using sound a declared by (auto simp: transition_sound_def)
  show ?thesis
  proof (cases "is_exhausted t n")
    case True
    then have "0 < ft_max_repeats t" "ft_exhausted_node t = None"
      using None by (simp_all add: is_exhausted_def selected_node_def)
    then obtain k where k: "ft_exhausted_terminal t = Some k" using sound by (auto simp: transition_sound_def)
    from terminals c(1) [OF sound k] obtain u where "find (\<lambda>m. tm_key m = k) (fd_terminals d) = Some u"
      "u \<in> set (fd_terminals d)" "tm_key u = k" "tm_schema u = oc_schema declared" by (rule has_terminal_found)
    then show ?thesis using None True k by (auto simp: transition_directive_def terminal_directive_def declares_def)
  next
    case False
    then obtain k where k: "ft_target t = To_Terminal k"
      using None by (auto simp: selected_node_def target_node_def split: FlowTransitionTarget.splits)
    from terminals c(2) [OF k] obtain u where "find (\<lambda>m. tm_key m = k) (fd_terminals d) = Some u"
      "u \<in> set (fd_terminals d)" "tm_key u = k" "tm_schema u = oc_schema declared" by (rule has_terminal_found)
    then show ?thesis using None False k by (auto simp: transition_directive_def terminal_directive_def declares_def)
  qed
qed

lemma try_map_total:
  "\<forall>x\<in>set xs. \<exists>y. f x = Inr y \<and> P x y \<Longrightarrow> \<exists>ys. try_map f xs = Inr ys \<and> list_all2 P xs ys"
proof (induction xs)
  case (Cons x xs)
  then obtain y ys where "f x = Inr y" "P x y" "try_map f xs = Inr ys" "list_all2 P xs ys" by auto
  then show ?case by auto
qed simp

text \<open>A snapshot of one completed attempt that belongs together.\<close>

definition snapshot_of :: "'b FlowDefinition \<Rightarrow> FlowRun \<Rightarrow> WorkflowCycle \<Rightarrow> NodeAttempt \<Rightarrow> NodeAttemptCompletion \<Rightarrow> bool" where
  "snapshot_of d flow cycle a c \<longleftrightarrow>
     wc_flow_run_id cycle = fr_id flow \<and> na_flow_run_id a = fr_id flow \<and> na_workflow_cycle_id a = wc_id cycle \<and>
     nc_node_attempt_id c = na_id a \<and> nc_flow_run_id c = fr_id flow \<and> nc_workflow_cycle_id c = wc_id cycle \<and>
     nc_node_key c = na_node_key a \<and>
     (\<exists>node declared. definition_node d (na_node_key a) = Some node \<and> node_outcome node (nc_outcome c) = Some declared \<and>
        oc_schema declared = nc_output_schema c)"

text \<open>A snapshot of an accepted definition has a directive for each of its declared routes.\<close>

lemma control_directives_declared:
  assumes d: "interpreter_definition v flow = Inr d" and snapshot: "snapshot_of d flow cycle a c"
    and accepted: "validate_definition checks digest definitions limits d = Some (Inr ())"
    and budget: "validate_runtime_limits v d flow c h = Inr ()"
  shows "\<exists>xs. control_directives v flow cycle a c h = Inr xs \<and> xs \<noteq> [] \<and>
    list_all2 (declares d a (outcome_traversals h (fr_id flow) (na_node_key a) (nc_outcome c)))
      (routes_of (fd_transitions d) (na_node_key a, nc_outcome c)) xs"
proof -
  let ?routes = "routes_of (fd_transitions d) (na_node_key a, nc_outcome c)"
  let ?n = "outcome_traversals h (fr_id flow) (na_node_key a) (nc_outcome c)"
  have sound: "flow_graph_sound limits d" "flow_routes_sound limits d" using accepted_graph [OF accepted] by simp_all
  obtain node declared where node: "definition_node d (na_node_key a) = Some node"
    "node_outcome node (nc_outcome c) = Some declared" "oc_schema declared = nc_output_schema c"
    using snapshot by (auto simp: snapshot_of_def)
  have "1 \<le> length ?routes"
    using sound(2) definition_node_in [OF node(1)] node_outcome_key [OF node(2)]
    by (fastforce simp: flow_routes_sound_def Let_def)
  then have some: "?routes \<noteq> []" by auto
  have "\<exists>x. transition_directive d a declared ?n t = Inr x \<and> declares d a ?n t x" if "t \<in> set ?routes" for t
  proof (rule transition_directive_declared [OF sound(1) accepted_terminals [OF accepted]])
    have t: "t \<in> set (fd_transitions d)" "ft_predecessor t = na_node_key a" "ft_outcome t = nc_outcome c"
      using that by (auto simp: routes_of_def)
    then show "t \<in> set (fd_transitions d)" "ft_predecessor t = na_node_key a" by simp_all
    show "transition_sound d limits t" using sound(2) t(1) unfolding flow_routes_sound_def by blast
    show "definition_node d (na_node_key a) = Some node" by (rule node(1))
    show "node_outcome node (ft_outcome t) = Some declared" using node(2) t(3) by simp
  qed
  then have "\<exists>xs. try_map (transition_directive d a declared ?n) ?routes = Inr xs \<and> list_all2 (declares d a ?n) ?routes xs"
    by (intro try_map_total) simp
  then obtain xs where xs: "try_map (transition_directive d a declared ?n) ?routes = Inr xs"
    "list_all2 (declares d a ?n) ?routes xs" by blast
  have routes: "filter (\<lambda>t. ft_predecessor t = na_node_key a \<and> ft_outcome t = nc_outcome c) (fd_transitions d) = ?routes"
    by (simp add: routes_of_def)
  have "xs \<noteq> []" using xs(2) some by auto
  moreover have "control_directives v flow cycle a c h = Inr xs"
    using d snapshot node budget some xs(1) by (simp add: control_directives_def snapshot_of_def Let_def routes)
  ultimately show ?thesis using xs(2) by blast
qed

section \<open>Accepted histories\<close>

lemma unique_by_Inr:
  assumes "unique_by xs key field = Inr m"
  shows "distinct (map key xs)" and "set (bt_values m) = set xs" and "bt_get m k = Some x \<longleftrightarrow> x \<in> set xs \<and> key x = k"
proof -
  have m: "distinct (map key xs)" "m = sort_key fst (map (\<lambda>r. (key r, r)) xs)"
    using assms by (auto simp: unique_by_def res_simps collect_unique_Inr_iff comp_def)
  then show "distinct (map key xs)" by blast
  have set: "set m = (\<lambda>r. (key r, r)) ` set xs" by (simp add: m(2))
  then show "set (bt_values m) = set xs" by (auto simp: bt_values_def image_image)
  have "bt_wf m" unfolding m(2) using m(1) by (intro bt_wf_sort_key) (simp add: comp_def)
  then show "bt_get m k = Some x \<longleftrightarrow> x \<in> set xs \<and> key x = k" by (auto simp: bt_get_iff set)
qed

lemma admitted_validated_Inr:
  assumes "admitted_validated env f = Some (Inr v)"
  shows "closure_validate env (af_closure f) (af_limits f) = Some (Inr v)"
  using assms unfolding admitted_validated_def by (auto simp: also_then_Inr_iff)

lemma accepted_history_cases:
  assumes "validate_flow_runtime_history env f h = Some (Inr ())" and "admitted_validated env f = Some (Inr v)"
  obtains runs cycles rows usage where
    "unique_by (hi_flow_runs h) fr_id ''Flow Run identity'' = Inr runs"
    "unique_by (hi_cycles h) wc_id ''workflow cycle identity'' = Inr cycles"
    "unique_by (hi_attempts h) na_id ''Node Attempt identity'' = Inr rows"
    "bt_get runs (fr_id (af_root_run f)) = Some (af_root_run f)"
    "length (filter (\<lambda>r. fr_parent r = None) (bt_values runs)) = 1"
    "\<forall>flow\<in>set (hi_flow_runs h). validate_flow_run v (af_root_run f) h runs rows flow = Inr ()"
    "\<forall>flow\<in>set (hi_flow_runs h). validate_run_cycles v cycles h flow = Inr ()"
    "\<forall>a\<in>set (hi_attempts h). validate_attempt_row v runs cycles a = Inr ()"
    "validate_numbers (hi_attempts h) = Inr ()"
    "\<forall>flow\<in>set (hi_flow_runs h). validate_run_attempts v cycles rows h flow = Inr ()"
    "validate_completions v runs rows (hi_completions h) [] = Inr ()"
    "validate_stops rows (hi_completions h) (hi_stops h) [] = Inr ()"
    "active_node_count h \<le> unat (fl_max_wip (vc_limits v))"
    "observed_usage_by_flow h = Inr usage" "validate_flow_budgets f h usage = Inr ()"
proof -
  from assms obtain runs cycles rows usage where
    tables: "unique_by (hi_flow_runs h) fr_id ''Flow Run identity'' = Inr runs"
      "unique_by (hi_cycles h) wc_id ''workflow cycle identity'' = Inr cycles"
      "unique_by (hi_attempts h) na_id ''Node Attempt identity'' = Inr rows"
    and root: "bt_get runs (fr_id (af_root_run f)) = Some (af_root_run f)"
      "length (filter (\<lambda>r. fr_parent r = None) (bt_values runs)) = 1"
    and checks: "try_each (validate_flow_run v (af_root_run f) h runs rows) (bt_values runs) = Inr ()"
      "validate_cycles f v runs cycles h = Inr ()" "validate_attempts v runs cycles rows h = Inr ()"
      "validate_completions v runs rows (hi_completions h) [] = Inr ()"
      "validate_stops rows (hi_completions h) (hi_stops h) [] = Inr ()"
      "\<not> unat (fl_max_wip (vc_limits v)) < active_node_count h"
      "observed_usage_by_flow h = Inr usage" "validate_flow_budgets f h usage = Inr ()"
    unfolding validate_flow_runtime_history_def
    by (simp add: also_then_Inr_iff and_then_Inr_iff split: if_split_asm) blast
  have "\<forall>flow\<in>set (hi_flow_runs h). validate_run_cycles v cycles h flow = Inr ()"
    using checks(2) unique_by_Inr(2) [OF tables(1)] by (auto simp: validate_cycles_def res_simps split: if_splits)
  moreover have "\<forall>a\<in>set (hi_attempts h). validate_attempt_row v runs cycles a = Inr ()"
    "validate_numbers (hi_attempts h) = Inr ()"
    "\<forall>flow\<in>set (hi_flow_runs h). validate_run_attempts v cycles rows h flow = Inr ()"
    using checks(3) unique_by_Inr(2) [OF tables(1)] unique_by_Inr(2) [OF tables(3)]
    by (auto simp: validate_attempts_def res_simps)
  moreover have "\<forall>flow\<in>set (hi_flow_runs h). validate_flow_run v (af_root_run f) h runs rows flow = Inr ()"
    using checks(1) unique_by_Inr(2) [OF tables(1)] by (auto simp: res_simps)
  ultimately show thesis using that [OF tables root] checks by simp
qed

lemma validate_completions_each:
  "validate_completions v runs rows cs completed = Inr () \<Longrightarrow>
     (\<forall>c\<in>set cs. \<exists>seen seen'. validate_completion v runs rows c seen = Inr seen') \<and>
     distinct (map nc_node_attempt_id cs) \<and> set (map nc_node_attempt_id cs) \<inter> set completed = {}"
proof (induction cs arbitrary: completed)
  case (Cons c cs)
  then obtain seen where seen: "validate_completion v runs rows c completed = Inr seen"
    "validate_completions v runs rows cs seen = Inr ()" by (auto simp: res_simps)
  have "seen = bs_insert (nc_node_attempt_id c) completed" "nc_node_attempt_id c \<notin> set completed"
    using seen(1) by (auto simp: validate_completion_def res_simps split: if_splits)
  with Cons.IH [OF seen(2)] seen(1) show ?case by auto
qed simp

lemma validate_completion_Inr:
  assumes "validate_completion v runs rows c seen = Inr seen'"
  obtains a flow d node declared where "bt_get rows (nc_node_attempt_id c) = Some a" "bt_get runs (na_flow_run_id a) = Some flow"
    "closure_definition v (fr_definition flow) = Some d" "na_flow_run_id a = nc_flow_run_id c"
    "na_workflow_cycle_id a = nc_workflow_cycle_id c" "na_node_key a = nc_node_key c"
    "usage_validate (nc_usage c) (na_budget a) = Inr (nc_usage c)" "accepts_completion_owner a (nc_ownership c)"
    "definition_node d (na_node_key a) = Some node" "node_outcome node (nc_outcome c) = Some declared"
    "oc_schema declared = nc_output_schema c"
proof -
  from assms obtain a where a: "bt_get rows (nc_node_attempt_id c) = Some a"
    by (auto simp: validate_completion_def res_simps)
  with assms obtain flow d where d: "bt_get runs (na_flow_run_id a) = Some flow" "closure_definition v (fr_definition flow) = Some d"
    by (auto simp: validate_completion_def res_simps bind_eq_Some_conv)
  have conditions: "na_flow_run_id a = nc_flow_run_id c" "na_workflow_cycle_id a = nc_workflow_cycle_id c"
    "na_node_key a = nc_node_key c" "accepts_completion_owner a (nc_ownership c)"
    "\<not> (case usage_validate (nc_usage c) (na_budget a) of Inl _ \<Rightarrow> True | Inr _ \<Rightarrow> False)"
    "\<not> (case Option.bind (definition_node d (na_node_key a)) (\<lambda>node. node_outcome node (nc_outcome c)) of
        None \<Rightarrow> True | Some declared \<Rightarrow> oc_schema declared \<noteq> nc_output_schema c)"
    using assms a d by (simp_all add: validate_completion_def split: if_split_asm)
  from conditions(6) obtain node declared where "definition_node d (na_node_key a) = Some node"
    "node_outcome node (nc_outcome c) = Some declared" "oc_schema declared = nc_output_schema c"
    by (auto split: option.splits simp: bind_eq_Some_conv)
  moreover have "usage_validate (nc_usage c) (na_budget a) = Inr (nc_usage c)"
    using conditions(5) by (auto simp: usage_validate_def res_simps split: sum.splits)
  ultimately show thesis using that a d conditions by blast
qed

lemma length_filter_unique: "distinct (map f xs) \<Longrightarrow> x \<in> set xs \<Longrightarrow> length (filter (\<lambda>y. f y = f x) xs) = 1"
proof (induction xs)
  case (Cons y ys)
  then show ?case by (cases "y = x") (auto simp: filter_empty_conv image_iff)
qed simp

lemma runtime_limits_budget:
  assumes "distinct (map na_id (hi_attempts h))" and "a \<in> set (hi_attempts h)"
    and "distinct (map nc_node_attempt_id (hi_completions h))" and "c \<in> set (hi_completions h)"
    and "nc_node_attempt_id c = na_id a" and "observed_usage_by_flow h = Inr usage"
    and "sum_usage (bt_values usage) = Inr aggregate"
  shows "validate_runtime_limits v d flow c h = Inr () \<or> (\<exists>e. validate_runtime_limits v d flow c h = Inl (FE_Budget e))"
proof -
  have "length (filter (\<lambda>b. na_id b = nc_node_attempt_id c) (hi_attempts h)) = 1"
    using length_filter_unique [OF assms(1,2)] assms(5) by simp
  moreover have "length (filter (\<lambda>b. nc_node_attempt_id b = nc_node_attempt_id c) (hi_completions h)) = 1"
    using length_filter_unique [OF assms(3,4)] by simp
  ultimately show ?thesis
    using assms(6,7)
    by (cases "usage_validate (or_default usage_default (bt_get usage (fr_id flow))) (fx_budget (fd_execution d))";
        cases "usage_validate aggregate (fl_budget (vc_limits v))") (simp_all add: validate_runtime_limits_def)
qed

text \<open>Every completed attempt of an accepted history is a snapshot of an accepted definition.\<close>

lemma history_snapshot:
  assumes history: "validate_flow_runtime_history env f h = Some (Inr ())" "admitted_validated env f = Some (Inr v)"
    and a: "a \<in> set (hi_attempts h)" "completion_of h (na_id a) = Some c"
    and flow: "flow \<in> set (hi_flow_runs h)" "fr_id flow = na_flow_run_id a"
    and cycle: "cycle \<in> set (hi_cycles h)" "wc_id cycle = na_workflow_cycle_id a"
  obtains d where "interpreter_definition v flow = Inr d" "snapshot_of d flow cycle a c"
    "d \<in> set (fc_definitions (vc_closure v))"
    "validate_runtime_limits v d flow c h = Inr () \<or> (\<exists>e. validate_runtime_limits v d flow c h = Inl (FE_Budget e))"
proof (rule accepted_history_cases [OF history])
  fix runs cycles rows usage
  assume tables: "unique_by (hi_flow_runs h) fr_id ''Flow Run identity'' = Inr runs"
      "unique_by (hi_cycles h) wc_id ''workflow cycle identity'' = Inr cycles"
      "unique_by (hi_attempts h) na_id ''Node Attempt identity'' = Inr rows"
    and attempts: "\<forall>a\<in>set (hi_attempts h). validate_attempt_row v runs cycles a = Inr ()"
    and completions: "validate_completions v runs rows (hi_completions h) [] = Inr ()"
    and usage: "observed_usage_by_flow h = Inr usage" "validate_flow_budgets f h usage = Inr ()"
  have c: "c \<in> set (hi_completions h)" "nc_node_attempt_id c = na_id a"
    using a(2) by (auto simp: completion_of_def find_Some_iff)
  obtain seen seen' where "validate_completion v runs rows c seen = Inr seen'"
    using validate_completions_each [OF completions] c(1) by blast
  then obtain a' flow' d node declared where row: "bt_get rows (nc_node_attempt_id c) = Some a'" "bt_get runs (na_flow_run_id a') = Some flow'"
    and d: "closure_definition v (fr_definition flow') = Some d"
    and same: "na_flow_run_id a' = nc_flow_run_id c" "na_workflow_cycle_id a' = nc_workflow_cycle_id c" "na_node_key a' = nc_node_key c"
    and outcome: "definition_node d (na_node_key a') = Some node" "node_outcome node (nc_outcome c) = Some declared"
      "oc_schema declared = nc_output_schema c" by (rule validate_completion_Inr)
  have "bt_get rows (na_id a) = Some a" using unique_by_Inr(3) [OF tables(3)] a(1) by simp
  then have a': "a' = a" using row(1) c(2) by simp
  have "bt_get runs (fr_id flow) = Some flow" using unique_by_Inr(3) [OF tables(1)] flow(1) by simp
  then have flow': "flow' = flow" using row(2) a' flow(2) by simp
  have "bt_get cycles (wc_id cycle) = Some cycle" using unique_by_Inr(3) [OF tables(2)] cycle(1) by simp
  then have "wc_flow_run_id cycle = fr_id flow"
    using bspec [OF attempts a(1)] flow cycle \<open>bt_get runs (fr_id flow) = Some flow\<close>
    by (auto simp: validate_attempt_row_def res_simps split: if_splits)
  then have "snapshot_of d flow cycle a c"
    using same outcome a' flow cycle c(2) by (auto simp: snapshot_of_def)
  moreover have "interpreter_definition v flow = Inr d"
    using d flow' by (simp add: interpreter_definition_def closure_definition_def)
  moreover have "d \<in> set (fc_definitions (vc_closure v))"
    using d find_definition_in unfolding closure_definition_def by blast
  moreover obtain aggregate where "sum_usage (bt_values usage) = Inr aggregate"
    using usage(2) by (auto simp: validate_flow_budgets_def res_simps)
  then have "validate_runtime_limits v d flow c h = Inr () \<or> (\<exists>e. validate_runtime_limits v d flow c h = Inl (FE_Budget e))"
    using unique_by_Inr(1) [OF tables(3)] a(1) validate_completions_each [OF completions] c usage(1)
    by (intro runtime_limits_budget) auto
  ultimately show thesis using that by blast
qed

lemma history_accepted:
  assumes "admitted_validated env f = Some (Inr v)" and "d \<in> set (fc_definitions (vc_closure v))"
  shows "validate_definition (en_definition_checks env) (en_digest env) (fc_definitions (vc_closure v)) (vc_limits v) d = Some (Inr ())"
  using closure_validate_Inr [OF admitted_validated_Inr [OF assms(1)]] assms(2) by simp

lemma interprets:
  assumes history: "validate_flow_runtime_history env f h = Some (Inr ())" "admitted_validated env f = Some (Inr v)"
    and a: "a \<in> set (hi_attempts h)" "completion_of h (na_id a) = Some c"
    and flow: "flow \<in> set (hi_flow_runs h)" "fr_id flow = na_flow_run_id a"
    and cycle: "cycle \<in> set (hi_cycles h)" "wc_id cycle = na_workflow_cycle_id a"
  shows "(\<exists>d xs. interpreter_definition v flow = Inr d \<and> control_directives v flow cycle a c h = Inr xs \<and> xs \<noteq> [] \<and>
      list_all2 (declares d a (outcome_traversals h (fr_id flow) (na_node_key a) (nc_outcome c)))
        (routes_of (fd_transitions d) (na_node_key a, nc_outcome c)) xs) \<or>
    (\<exists>e. control_directives v flow cycle a c h = Inl (FE_Budget e))"
proof -
  obtain d where d: "interpreter_definition v flow = Inr d" "snapshot_of d flow cycle a c"
    "d \<in> set (fc_definitions (vc_closure v))"
    and limits: "validate_runtime_limits v d flow c h = Inr () \<or> (\<exists>e. validate_runtime_limits v d flow c h = Inl (FE_Budget e))"
    using assms by (rule history_snapshot)
  from limits show ?thesis
  proof
    assume "validate_runtime_limits v d flow c h = Inr ()"
    from control_directives_declared [OF d(1,2) history_accepted [OF history(2) d(3)] this] d(1) show ?thesis by blast
  next
    assume "\<exists>e. validate_runtime_limits v d flow c h = Inl (FE_Budget e)"
    with d(1,2) show ?thesis by (auto simp: control_directives_def snapshot_of_def)
  qed
qed

section \<open>Positions\<close>

fun dispatches :: "FlowDirective \<Rightarrow> FactoryKey \<Rightarrow> bool" where
  "dispatches (ExecuteNode _ k _ _) node = (k = node)"
| "dispatches (EnterSubflow k _ _) node = (k = node)"
| "dispatches _ _ = False"

text \<open>A directive shows in the state of the scan.\<close>

definition reflected :: "NodeAttempt list \<Rightarrow> NodeAttempt \<Rightarrow> FlowDirective \<Rightarrow> position_state \<Rightarrow> bool" where
  "reflected rows a x st \<longleftrightarrow> (case x of
     RestartCycle _ _ \<Rightarrow> po_restart st \<noteq> None
   | Complete _ _ \<Rightarrow> po_terminal st \<noteq> None
   | _ \<Rightarrow> \<forall>node. dispatches x node \<longrightarrow> node \<in> set (po_ready st) \<or>
       (\<exists>s\<in>set rows. na_node_key s = node \<and> na_number a < na_number s))"

text \<open>The state of the scan comes from directives.\<close>

definition justified :: "(NodeAttempt \<Rightarrow> FlowDirective \<Rightarrow> bool) \<Rightarrow> FactoryKey set \<Rightarrow> position_state \<Rightarrow> bool" where
  "justified follows initial st \<longleftrightarrow>
     (\<forall>node\<in>set (po_ready st). node \<in> initial \<or> (\<exists>a x. follows a x \<and> dispatches x node)) \<and>
     (\<forall>p. po_restart st = Some p \<longrightarrow> (\<exists>a node. p = At_RestartCycle node (na_id a) \<and> follows a (RestartCycle node (na_id a)))) \<and>
     (\<forall>n k source. po_terminal st = Some (n, k, source) \<longrightarrow>
        (\<exists>a schema. source = na_id a \<and> n = na_number a \<and> follows a (Complete k schema)))"

lemma apply_reflects: "reflected rows a x (apply_directive rows a x st)"
  by (cases x) (auto simp: reflected_def apply_directive_def Let_def list_ex_iff split: option.splits)

lemma apply_keeps: "reflected rows b y st \<Longrightarrow> reflected rows b y (apply_directive rows a x st)"
  by (cases y; cases x) (auto simp: reflected_def apply_directive_def Let_def split: option.splits)

lemma fold_keeps: "reflected rows b y st \<Longrightarrow> reflected rows b y (fold (apply_directive rows a) xs st)"
  by (induction xs arbitrary: st) (auto intro: apply_keeps)

lemma fold_reflects: "x \<in> set xs \<Longrightarrow> reflected rows a x (fold (apply_directive rows a) xs st)"
proof (induction xs arbitrary: st)
  case (Cons y ys)
  then show ?case by (cases "x = y") (auto intro: fold_keeps apply_reflects)
qed simp

lemma apply_justified:
  assumes "justified follows initial st" and "follows a x"
    and source: "\<And>node source. x = RestartCycle node source \<Longrightarrow> source = na_id a"
  shows "justified follows initial (apply_directive rows a x st)"
proof (cases x)
  case (RestartCycle node source)
  with assms show ?thesis by (auto simp: justified_def apply_directive_def Let_def)
next
  case (ExecuteNode r node kind inputs)
  then have "dispatches x node" by simp
  with assms(2) have "\<exists>a x. follows a x \<and> dispatches x node" by blast
  with assms(1) ExecuteNode show ?thesis by (simp add: justified_def apply_directive_def Let_def)
next
  case (EnterSubflow node r inputs)
  then have "dispatches x node" by simp
  with assms(2) have "\<exists>a x. follows a x \<and> dispatches x node" by blast
  with assms(1) EnterSubflow show ?thesis by (simp add: justified_def apply_directive_def Let_def)
next
  case (Complete k schema)
  with assms show ?thesis by (auto simp: justified_def apply_directive_def Let_def split: option.splits)
qed

lemma fold_justified:
  assumes "justified follows initial st" and "\<forall>x\<in>set xs. follows a x \<and> (\<forall>node source. x = RestartCycle node source \<longrightarrow> source = na_id a)"
  shows "justified follows initial (fold (apply_directive rows a) xs st)"
  using assms by (induction xs arbitrary: st) (auto intro!: apply_justified)

text \<open>A successful scan reflects every directive and holds nothing else.\<close>

definition follows_completion ::
  "'b ValidatedFlowDefinitionClosure \<Rightarrow> FlowRun \<Rightarrow> WorkflowCycle \<Rightarrow> FlowRuntimeHistory \<Rightarrow> NodeAttempt list \<Rightarrow> NodeAttempt \<Rightarrow> FlowDirective \<Rightarrow> bool"
where
  "follows_completion v flow cycle h rows a x \<longleftrightarrow> a \<in> set rows \<and>
     (\<exists>c xs. completion_of h (na_id a) = Some c \<and> control_directives v flow cycle a c h = Inr xs \<and> x \<in> set xs)"

lemma restart_source:
  fixes v :: "'b ValidatedFlowDefinitionClosure"
  assumes "control_directives v flow cycle a c h = Inr xs" and "RestartCycle node source \<in> set xs"
  shows "source = na_id a"
proof -
  obtain d :: "'b FlowDefinition" and declared n ts where "list_all2 (\<lambda>t x. transition_directive d a declared n t = Inr x) ts xs"
    using assms(1) by (auto simp: control_directives_def res_simps Let_def split: if_splits)
  then obtain t where "transition_directive d a declared n t = Inr (RestartCycle node source)"
    using assms(2) by (auto simp: list_all2_conv_all_nth in_set_conv_nth)
  then show ?thesis
    by (auto simp: transition_directive_def directive_for_node_def terminal_directive_def res_simps Let_def
        split: option.splits if_splits prod.splits FlowTransitionTarget.splits)
qed

lemma position_scan_result:
  assumes "position_scan v flow cycle h rows as st = Inr st'" and "set as \<subseteq> set rows"
    and "justified (follows_completion v flow cycle h rows) initial st"
  shows "justified (follows_completion v flow cycle h rows) initial st' \<and>
    (\<forall>b y. reflected rows b y st \<longrightarrow> reflected rows b y st') \<and>
    (\<forall>a\<in>set as. \<forall>x. follows_completion v flow cycle h rows a x \<longrightarrow> reflected rows a x st')"
  using assms
proof (induction as arbitrary: st)
  case (Cons a as)
  show ?case
  proof (cases "completion_of h (na_id a)")
    case None
    then have "position_scan v flow cycle h rows as st = Inr st'" using Cons.prems(1) by simp
    from Cons.IH [OF this] Cons.prems(2,3) None show ?thesis by (auto simp: follows_completion_def)
  next
    case (Some c)
    then obtain xs where xs: "control_directives v flow cycle a c h = Inr xs"
      "position_scan v flow cycle h rows as (fold (apply_directive rows a) xs st) = Inr st'"
      using Cons.prems(1) by (auto simp: res_simps)
    have "\<forall>x\<in>set xs. follows_completion v flow cycle h rows a x \<and> (\<forall>node source. x = RestartCycle node source \<longrightarrow> source = na_id a)"
      using Some xs(1) Cons.prems(2) restart_source [OF xs(1)] by (auto simp: follows_completion_def)
    then have "justified (follows_completion v flow cycle h rows) initial (fold (apply_directive rows a) xs st)"
      using Cons.prems(3) by (intro fold_justified)
    from Cons.IH [OF xs(2) _ this] Cons.prems(2) have IH:
      "justified (follows_completion v flow cycle h rows) initial st'"
      "\<And>b y. reflected rows b y (fold (apply_directive rows a) xs st) \<Longrightarrow> reflected rows b y st'"
      "\<forall>a\<in>set as. \<forall>x. follows_completion v flow cycle h rows a x \<longrightarrow> reflected rows a x st'" by auto
    have "reflected rows a x st'" if "follows_completion v flow cycle h rows a x" for x
      using that Some xs(1) by (intro IH(2) fold_reflects) (simp add: follows_completion_def)
    with IH fold_keeps show ?thesis by auto
  qed
qed simp

section \<open>Routes of attempts\<close>

lemma validate_routes_each:
  "validate_routes v flow d cycles rows h earlier as = Inr () \<Longrightarrow> as = pre @ a # post \<Longrightarrow>
     validate_route v flow d cycles rows h (earlier @ pre) a = Inr ()"
proof (induction as arbitrary: earlier pre)
  case (Cons b bs)
  show ?case
  proof (cases pre)
    case Nil
    with Cons.prems show ?thesis by (auto simp: res_simps)
  next
    case (Cons x xs)
    with Cons.prems have "validate_routes v flow d cycles rows h (earlier @ [b]) bs = Inr ()" "bs = xs @ a # post" "x = b"
      by (auto simp: res_simps)
    from Cons.IH [OF this(1,2)] this(3) Cons show ?thesis by simp
  qed
qed simp

text \<open>The attempts of a flow in number order have distinct numbers.\<close>

lemma numbered_distinct: "numbered_from_one numbers \<Longrightarrow> distinct numbers"
proof -
  assume "numbered_from_one numbers"
  then have nth: "unat (sort numbers ! i) = i + 1" if "i < length numbers" for i
    using that by (auto simp: numbered_from_one_def list_all_length nth_enumerate_eq)
  have "distinct (sort numbers)" unfolding distinct_conv_nth using nth by (metis add_right_imp_eq length_sort)
  then show ?thesis by simp
qed

lemma run_rows_strict:
  assumes "validate_numbers (hi_attempts h) = Inr ()"
  shows "sorted_wrt (\<lambda>a b. na_number a < na_number b) (sort_key na_number (filter (\<lambda>a. na_flow_run_id a = flow) (hi_attempts h)))"
proof -
  let ?rows = "filter (\<lambda>a. na_flow_run_id a = flow) (hi_attempts h)"
  have "distinct (map na_number ?rows)"
  proof (cases "flow \<in> set (map na_flow_run_id (hi_attempts h))")
    case True
    with assms have "numbered_from_one (map na_number ?rows)"
      by (auto simp: validate_numbers_def res_simps)
    then show ?thesis by (rule numbered_distinct)
  next
    case False
    then have "?rows = []" by (auto simp: filter_empty_conv)
    then show ?thesis by simp
  qed
  then have "distinct (map na_number (sort_key na_number ?rows))" by (simp add: distinct_map)
  moreover have "sorted (map na_number (sort_key na_number ?rows))" by simp
  ultimately have "sorted_wrt (<) (map na_number (sort_key na_number ?rows))" by (simp add: strict_sorted_iff)
  then show ?thesis by (simp add: sorted_wrt_map)
qed

lemma attempt_route:
  assumes history: "validate_flow_runtime_history env f h = Some (Inr ())" "admitted_validated env f = Some (Inr v)"
    and a: "a \<in> set (hi_attempts h)"
  obtains runs cycles rows flow d cycle earlier where
    "unique_by (hi_attempts h) na_id ''Node Attempt identity'' = Inr rows"
    "unique_by (hi_cycles h) wc_id ''workflow cycle identity'' = Inr cycles"
    "flow \<in> set (hi_flow_runs h)" "fr_id flow = na_flow_run_id a" "closure_definition v (fr_definition flow) = Some d"
    "cycle \<in> set (hi_cycles h)" "wc_id cycle = na_workflow_cycle_id a" "wc_flow_run_id cycle = fr_id flow"
    "validate_route v flow d cycles rows h earlier a = Inr ()"
    "\<forall>b\<in>set earlier. b \<in> set (hi_attempts h) \<and> na_flow_run_id b = na_flow_run_id a \<and> na_number b < na_number a"
proof (rule accepted_history_cases [OF history])
  fix runs cycles rows
  assume tables: "unique_by (hi_flow_runs h) fr_id ''Flow Run identity'' = Inr runs"
      "unique_by (hi_cycles h) wc_id ''workflow cycle identity'' = Inr cycles"
      "unique_by (hi_attempts h) na_id ''Node Attempt identity'' = Inr rows"
    and attempts: "\<forall>a\<in>set (hi_attempts h). validate_attempt_row v runs cycles a = Inr ()"
    and numbers: "validate_numbers (hi_attempts h) = Inr ()"
    and routes: "\<forall>flow\<in>set (hi_flow_runs h). validate_run_attempts v cycles rows h flow = Inr ()"
  obtain flow cycle where "bt_get runs (na_flow_run_id a) = Some flow" "bt_get cycles (na_workflow_cycle_id a) = Some cycle"
    and own: "wc_flow_run_id cycle = fr_id flow"
    using bspec [OF attempts a] by (auto simp: validate_attempt_row_def res_simps split: if_splits)
  then have flow: "flow \<in> set (hi_flow_runs h)" "fr_id flow = na_flow_run_id a"
    and cycle: "cycle \<in> set (hi_cycles h)" "wc_id cycle = na_workflow_cycle_id a"
    using unique_by_Inr(3) [OF tables(1)] unique_by_Inr(3) [OF tables(2)] by simp_all
  let ?rows = "sort_key na_number (filter (\<lambda>b. na_flow_run_id b = fr_id flow) (hi_attempts h))"
  obtain d where d: "closure_definition v (fr_definition flow) = Some d"
    and valid: "validate_routes v flow d cycles rows h [] ?rows = Inr ()"
    using bspec [OF routes flow(1)] by (auto simp: validate_run_attempts_def res_simps)
  have "a \<in> set ?rows" using a flow(2) by simp
  then obtain earlier post where split: "?rows = earlier @ a # post" by (meson split_list)
  have "validate_route v flow d cycles rows h earlier a = Inr ()" using validate_routes_each [OF valid split] by simp
  moreover have "\<forall>b\<in>set earlier. b \<in> set (hi_attempts h) \<and> na_flow_run_id b = na_flow_run_id a \<and> na_number b < na_number a"
  proof
    fix b assume b: "b \<in> set earlier"
    then have "b \<in> set ?rows" unfolding split by simp
    moreover have "na_number b < na_number a"
      using run_rows_strict [OF numbers, of "fr_id flow"] b unfolding split by (simp add: sorted_wrt_append)
    ultimately show "b \<in> set (hi_attempts h) \<and> na_flow_run_id b = na_flow_run_id a \<and> na_number b < na_number a"
      using flow(2) by simp
  qed
  ultimately show thesis using that tables flow cycle own d by blast
qed

lemma with_retry_of_Inr:
  "with_retry_of a b = Inr a' \<Longrightarrow> na_flow_run_id a = na_flow_run_id b \<and> na_workflow_cycle_id a = na_workflow_cycle_id b \<and>
     na_node_key a = na_node_key b \<and> na_number b < na_number a \<and> na_execution a = na_execution b \<and> na_budget a = na_budget b"
  by (auto simp: with_retry_of_def not_le split: if_splits)

lemma retry_later:
  assumes "validate_flow_runtime_history env f h = Some (Inr ())" "admitted_validated env f = Some (Inr v)"
    and "a \<in> set (hi_attempts h)" and "b \<in> set (hi_attempts h)" and "na_retry_of a = Some (na_id b)"
  shows "na_number b < na_number a"
proof -
  obtain cycles rows flow d earlier where rows: "unique_by (hi_attempts h) na_id ''Node Attempt identity'' = Inr rows"
    and route: "validate_route v flow d cycles rows h earlier a = Inr ()"
    using attempt_route [OF assms(1-3)] by metis
  have "bt_get rows (na_id b) = Some b" using unique_by_Inr(3) [OF rows] assms(4) by simp
  with route assms(5) obtain linked where "with_retry_of a b = Inr linked"
    by (auto simp: validate_route_def validate_retry_def res_simps split: if_splits)
  then show ?thesis using with_retry_of_Inr by blast
qed

section \<open>Progress\<close>

lemma cycle_rows_in:
  "a \<in> set (cycle_rows flow cycle h) \<longleftrightarrow>
     a \<in> set (hi_attempts h) \<and> na_flow_run_id a = fr_id flow \<and> na_workflow_cycle_id a = wc_id cycle"
  by (auto simp: cycle_rows_def)

lemma position_scan_total:
  assumes history: "validate_flow_runtime_history env f h = Some (Inr ())" "admitted_validated env f = Some (Inr v)"
    and flow: "flow \<in> set (hi_flow_runs h)" and cycle: "cycle \<in> set (hi_cycles h)"
  shows "set as \<subseteq> set (cycle_rows flow cycle h) \<Longrightarrow>
    (\<exists>st'. position_scan v flow cycle h rows as st = Inr st') \<or> (\<exists>e. position_scan v flow cycle h rows as st = Inl (FE_Budget e))"
proof (induction as arbitrary: st)
  case (Cons a as)
  show ?case
  proof (cases "completion_of h (na_id a)")
    case None
    with Cons show ?thesis by simp
  next
    case (Some c)
    have "a \<in> set (hi_attempts h)" "fr_id flow = na_flow_run_id a" "wc_id cycle = na_workflow_cycle_id a"
      using Cons.prems by (auto simp: cycle_rows_in)
    then have "(\<exists>xs. control_directives v flow cycle a c h = Inr xs) \<or> (\<exists>e. control_directives v flow cycle a c h = Inl (FE_Budget e))"
      using interprets [OF history _ Some flow _ cycle] by blast
    then show ?thesis
    proof
      assume "\<exists>xs. control_directives v flow cycle a c h = Inr xs"
      then obtain xs where "control_directives v flow cycle a c h = Inr xs" by blast
      with Cons.IH [of "fold (apply_directive rows a) xs st"] Cons.prems Some show ?thesis by simp
    qed (use Some in auto)
  qed
qed simp

lemma position_scan_interprets:
  "position_scan v flow cycle h rows as st = Inr st' \<Longrightarrow> a \<in> set as \<Longrightarrow> completion_of h (na_id a) = Some c \<Longrightarrow>
     \<exists>xs. control_directives v flow cycle a c h = Inr xs"
  by (induction as arbitrary: st) (auto simp: res_simps split: option.splits)

lemma cycle_entry_found:
  assumes history: "validate_flow_runtime_history env f h = Some (Inr ())" "admitted_validated env f = Some (Inr v)"
    and flow: "flow \<in> set (hi_flow_runs h)" and cycle: "cycle \<in> set (hi_cycles h)" "wc_flow_run_id cycle = fr_id flow"
  shows "\<exists>entry. cycle_entry v flow cycle h = Inr entry"
proof (rule accepted_history_cases [OF history])
  fix runs cycles rows
  assume tables: "unique_by (hi_cycles h) wc_id ''workflow cycle identity'' = Inr cycles"
    and valid: "\<forall>flow\<in>set (hi_flow_runs h). validate_flow_run v (af_root_run f) h runs rows flow = Inr ()"
      "\<forall>flow\<in>set (hi_flow_runs h). validate_run_cycles v cycles h flow = Inr ()"
  show ?thesis
  proof (cases "wc_predecessor cycle")
    case None
    have "\<exists>d. closure_definition v (fr_definition flow) = Some d"
      using bspec [OF valid(1) flow] by (auto simp: validate_flow_run_def res_simps)
    with None cycle(2) show ?thesis by (auto simp: cycle_entry_def interpreter_definition_def closure_definition_def)
  next
    case (Some predecessor)
    have "cycle \<in> set (filter (\<lambda>c. wc_flow_run_id c = fr_id flow) (bt_values cycles))"
      using unique_by_Inr(2) [OF tables] cycle by simp
    then have "validate_successor_cycle v cycles h flow cycle = Inr ()"
      using bspec [OF valid(2) flow]
      by (auto simp: validate_run_cycles_def Let_def res_simps split: list.splits if_splits)
    with Some show ?thesis by (auto simp: validate_successor_cycle_def when_some_def res_simps split: if_splits)
  qed
qed

text \<open>The last attempt of a cycle leaves something to do: it is unfinished or its directives show.\<close>

lemma last_row_shows:
  assumes history: "validate_flow_runtime_history env f h = Some (Inr ())" "admitted_validated env f = Some (Inr v)"
    and flow: "flow \<in> set (hi_flow_runs h)" and cycle: "cycle \<in> set (hi_cycles h)"
    and rows: "cycle_rows flow cycle h \<noteq> []"
    and scan: "position_scan v flow cycle h (cycle_rows flow cycle h) (cycle_rows flow cycle h) st = Inr st'"
      "justified (follows_completion v flow cycle h (cycle_rows flow cycle h)) initial st"
  shows "pending_rows (cycle_rows flow cycle h) h \<noteq> [] \<or> po_restart st' \<noteq> None \<or> po_ready st' \<noteq> [] \<or> po_terminal st' \<noteq> None"
proof -
  let ?rows = "cycle_rows flow cycle h"
  define a where "a = last ?rows"
  have a: "a \<in> set ?rows" unfolding a_def using rows by simp
  have last: "na_number s \<le> na_number a" if s: "s \<in> set ?rows" for s
  proof -
    have sorted: "sorted (map na_number ?rows)" by (simp add: cycle_rows_def)
    obtain i where "i < length ?rows" "?rows ! i = s" using s unfolding in_set_conv_nth by blast
    with sorted_nth_mono [OF sorted, of i "length ?rows - 1"] rows show ?thesis by (simp add: a_def last_conv_nth)
  qed
  show ?thesis
  proof (cases "completion_of h (na_id a)")
    case None
    have "na_retry_of s \<noteq> Some (na_id a)" if "s \<in> set ?rows" for s
      using retry_later [OF history, of s a] last [OF that] that a by (auto simp: cycle_rows_in)
    then have "a \<in> set (pending_rows ?rows h)"
      using a None by (auto simp: pending_rows_def list_ex_iff completion_of_def find_None_iff)
    then show ?thesis by auto
  next
    case (Some c)
    have in_history: "a \<in> set (hi_attempts h)" "fr_id flow = na_flow_run_id a" "wc_id cycle = na_workflow_cycle_id a"
      using a by (auto simp: cycle_rows_in)
    obtain xs where xs: "control_directives v flow cycle a c h = Inr xs" using position_scan_interprets [OF scan(1) a Some] by blast
    have "xs \<noteq> []"
      using interprets [OF history in_history(1) Some flow in_history(2) cycle in_history(3)] unfolding xs by auto
    then obtain x where "x \<in> set xs" by (cases xs) auto
    with xs Some a have "follows_completion v flow cycle h ?rows a x" by (auto simp: follows_completion_def)
    then have "reflected ?rows a x st'" using position_scan_result [OF scan(1) subset_refl scan(2)] a by blast
    then show ?thesis using last by (cases x) (fastforce simp: reflected_def not_le dest: leD)+
  qed
qed

lemma apply_ready_mono: "set (po_ready st) \<subseteq> set (po_ready (apply_directive rows a x st))"
  by (cases x) (auto simp: apply_directive_def Let_def split: option.splits)

lemma fold_ready_mono: "set (po_ready st) \<subseteq> set (po_ready (fold (apply_directive rows a) xs st))"
proof (induction xs arbitrary: st)
  case (Cons x xs)
  from subset_trans [OF apply_ready_mono Cons] show ?case by simp
qed simp

lemma position_scan_ready_mono: "position_scan v flow cycle h rows as st = Inr st' \<Longrightarrow> set (po_ready st) \<subseteq> set (po_ready st')"
proof (induction as arbitrary: st)
  case (Cons a as)
  then show ?case
    by (cases "completion_of h (na_id a)") (auto simp: res_simps dest: subset_trans [OF fold_ready_mono, THEN subsetD])
qed simp

definition position_sound ::
  "'b ValidatedFlowDefinitionClosure \<Rightarrow> FlowRun \<Rightarrow> WorkflowCycle \<Rightarrow> FlowRuntimeHistory \<Rightarrow> FlowProgress \<Rightarrow> FactoryKey list \<Rightarrow> bool"
where
  "position_sound v flow cycle h p ready \<longleftrightarrow>
     (let rows = cycle_rows flow cycle h; follows = follows_completion v flow cycle h rows in
      (rows = [] \<longrightarrow> (\<exists>entry. cycle_entry v flow cycle h = Inr entry \<and> p = At_Node entry \<and> ready = [entry])) \<and>
      (rows \<noteq> [] \<longrightarrow> (\<forall>node\<in>set ready. (\<exists>a\<in>set (pending_rows rows h). na_node_key a = node) \<or> (\<exists>a x. follows a x \<and> dispatches x node))) \<and>
      (case p of
         At_Waiting \<Rightarrow> False
       | At_Node node \<Rightarrow> node \<in> set ready
       | At_RestartCycle node source \<Rightarrow> ready = [] \<and> pending_rows rows h = [] \<and>
           (\<exists>a. source = na_id a \<and> follows a (RestartCycle node source))
       | At_Terminal k source \<Rightarrow> ready = [] \<and> pending_rows rows h = [] \<and>
           (\<exists>a schema. source = na_id a \<and> follows a (Complete k schema))))"

section \<open>What an accepted history is\<close>

text \<open>The number of retries that lead to an attempt.\<close>

inductive retries :: "FlowRuntimeHistory \<Rightarrow> NodeAttempt \<Rightarrow> nat \<Rightarrow> bool" for h where
  retries_none: "retries h a 0"
| retries_of: "na_retry_of a = Some (na_id b) \<Longrightarrow> b \<in> set (hi_attempts h) \<Longrightarrow> retries h b n \<Longrightarrow> retries h a (Suc n)"

inductive_cases retriesE: "retries h a n"

lemma retry_lineage_bounds:
  assumes "unique_by (hi_attempts h) na_id ''Node Attempt identity'' = Inr rows"
  shows "retry_lineage k rows a = Inr () \<Longrightarrow> retries h a n \<Longrightarrow> n \<le> k"
proof (induction k arbitrary: a n)
  case 0
  from 0(2) 0(1) show ?case by cases auto
next
  case (Suc k)
  from Suc.prems(2) show ?case
  proof (rule retriesE)
    fix b m assume b: "n = Suc m" "na_retry_of a = Some (na_id b)" "b \<in> set (hi_attempts h)" "retries h b m"
    have "bt_get rows (na_id b) = Some b" using unique_by_Inr(3) [OF assms] b(3) by simp
    with Suc.prems(1) b(2) have "retry_lineage k rows b = Inr ()" by simp
    from Suc.IH [OF this b(4)] b(1) show ?thesis by simp
  qed simp
qed

text \<open>Why an attempt exists: it retries a failed attempt of the same node, it enters its cycle, or an
  earlier completed attempt of its cycle has a declared route to it.\<close>

definition attempt_justified ::
  "'b ValidatedFlowDefinitionClosure \<Rightarrow> FlowRuntimeHistory \<Rightarrow> FlowRun \<Rightarrow> WorkflowCycle \<Rightarrow> 'b FlowDefinition \<Rightarrow> NodeAttempt \<Rightarrow> bool"
where
  "attempt_justified v h flow cycle d a \<longleftrightarrow>
     (case na_retry_of a of
        Some uid \<Rightarrow>
          (\<exists>b\<in>set (hi_attempts h). na_id b = uid \<and> na_workflow_cycle_id b = na_workflow_cycle_id a \<and>
             na_node_key b = na_node_key a \<and> na_number b < na_number a) \<and>
          (\<exists>s\<in>set (hi_stops h). st_node_attempt_id s = uid \<and> st_reason s = SR_ExecutionFailed \<and> st_observed_at s \<le> na_started_at a) \<and>
          (\<exists>node. definition_node d (na_node_key a) = Some node \<and>
             (\<forall>n. retries h a n \<longrightarrow> n \<le> unat (fn_max_execution_retries node)))
      | None \<Rightarrow>
          cycle_entry v flow cycle h = Inr (na_node_key a) \<or>
          (\<exists>b\<in>set (hi_attempts h). \<exists>c t n. na_workflow_cycle_id b = na_workflow_cycle_id a \<and> na_number b < na_number a \<and>
             completion_of h (na_id b) = Some c \<and> t \<in> set (routes_of (fd_transitions d) (na_node_key b, nc_outcome c)) \<and>
             \<not> ft_starts_cycle t \<and> selected_node t n = Some (na_node_key a)))"

lemma declares_successor_route:
  assumes "declares_successor d rows h cycle k b"
  shows "na_workflow_cycle_id b = wc_id cycle \<and> (\<exists>c t n. completion_of h (na_id b) = Some c \<and>
    t \<in> set (routes_of (fd_transitions d) (na_node_key b, nc_outcome c)) \<and> \<not> ft_starts_cycle t \<and> selected_node t n = Some k)"
proof -
  obtain c where c: "completion_of h (na_id b) = Some c"
    and k: "k \<in> set (declared_successor_keys d (na_node_key b) (nc_outcome c) (traversals_through rows (hi_completions h) c b))"
    using assms by (auto simp: declares_successor_def split: option.splits)
  then obtain t where "t \<in> set (routes_of (fd_transitions d) (na_node_key b, nc_outcome c))" "\<not> ft_starts_cycle t"
    "selected_node t (traversals_through rows (hi_completions h) c b) = Some k"
    by (auto simp: declared_successor_keys_def routes_of_def map_filter_def)
  with c assms show ?thesis by (auto simp: declares_successor_def)
qed

lemma attempt_exists:
  assumes history: "validate_flow_runtime_history env f h = Some (Inr ())" "admitted_validated env f = Some (Inr v)"
    and a: "a \<in> set (hi_attempts h)"
  shows "\<exists>flow\<in>set (hi_flow_runs h). \<exists>cycle\<in>set (hi_cycles h). \<exists>d. fr_id flow = na_flow_run_id a \<and> wc_id cycle = na_workflow_cycle_id a \<and>
    closure_definition v (fr_definition flow) = Some d \<and> attempt_justified v h flow cycle d a"
proof (rule attempt_route [OF history a])
  fix cycles rows flow d cycle earlier
  assume tables: "unique_by (hi_attempts h) na_id ''Node Attempt identity'' = Inr rows"
      "unique_by (hi_cycles h) wc_id ''workflow cycle identity'' = Inr cycles"
    and flow: "flow \<in> set (hi_flow_runs h)" "fr_id flow = na_flow_run_id a" "closure_definition v (fr_definition flow) = Some d"
    and cycle: "cycle \<in> set (hi_cycles h)" "wc_id cycle = na_workflow_cycle_id a"
    and route: "validate_route v flow d cycles rows h earlier a = Inr ()"
    and earlier: "\<forall>b\<in>set earlier. b \<in> set (hi_attempts h) \<and> na_flow_run_id b = na_flow_run_id a \<and> na_number b < na_number a"
  have "attempt_justified v h flow cycle d a"
  proof (cases "na_retry_of a")
    case None
    have "bt_get cycles (na_workflow_cycle_id a) = Some cycle" using unique_by_Inr(3) [OF tables(2)] cycle by simp
    with route None have "cycle_entry v flow cycle h = Inr (na_node_key a) \<or>
        (\<exists>b\<in>set earlier. declares_successor d rows h cycle (na_node_key a) b)"
      by (auto simp: validate_route_def res_simps list_ex_iff split: if_splits)
    then show ?thesis
    proof
      assume "\<exists>b\<in>set earlier. declares_successor d rows h cycle (na_node_key a) b"
      then obtain b where b: "b \<in> set earlier" "declares_successor d rows h cycle (na_node_key a) b" by blast
      obtain c t n where "na_workflow_cycle_id b = na_workflow_cycle_id a" "completion_of h (na_id b) = Some c"
          "t \<in> set (routes_of (fd_transitions d) (na_node_key b, nc_outcome c))" "\<not> ft_starts_cycle t"
          "selected_node t n = Some (na_node_key a)"
        using declares_successor_route [OF b(2)] cycle(2) by auto
      moreover have "b \<in> set (hi_attempts h)" "na_number b < na_number a" using earlier b(1) by simp_all
      ultimately show ?thesis unfolding attempt_justified_def None option.case by blast
    qed (simp add: attempt_justified_def None)
  next
    case (Some uid)
    with route have "validate_retry d rows h a uid = Inr ()" by (simp add: validate_route_def)
    then obtain b stop linked node where b: "bt_get rows uid = Some b" "with_retry_of a b = Inr linked"
      and stop: "find (\<lambda>s. st_node_attempt_id s = uid) (hi_stops h) = Some stop" "st_reason stop = SR_ExecutionFailed"
        "\<not> na_started_at a < st_observed_at stop"
      and node: "definition_node d (na_node_key a) = Some node" "retry_lineage (unat (fn_max_execution_retries node)) rows a = Inr ()"
      by (auto simp: validate_retry_def res_simps bind_eq_Some_conv split: if_splits)
    have "b \<in> set (hi_attempts h)" "na_id b = uid" using unique_by_Inr(3) [OF tables(1)] b(1) by simp_all
    moreover have "stop \<in> set (hi_stops h)" "st_node_attempt_id stop = uid" using stop(1) by (auto simp: find_Some_iff)
    ultimately show ?thesis
      using with_retry_of_Inr [OF b(2)] stop(2,3) node(1) retry_lineage_bounds [OF tables(1) node(2)]
      unfolding attempt_justified_def Some by (auto simp: not_less)
  qed
  with flow cycle show ?thesis by blast
qed

lemma validate_stops_each:
  "validate_stops rows completions ss stopped = Inr () \<Longrightarrow> (\<And>k a. bt_get rows k = Some a \<Longrightarrow> na_id a = k) \<Longrightarrow>
     distinct (map st_node_attempt_id ss) \<and> set (map st_node_attempt_id ss) \<inter> set stopped = {} \<and>
     set (map st_node_attempt_id ss) \<inter> set (map nc_node_attempt_id completions) = {}"
proof (induction ss arbitrary: stopped)
  case (Cons s ss)
  then obtain a where a: "bt_get rows (st_node_attempt_id s) = Some a" "na_id a \<notin> set stopped"
    "\<not> list_ex (\<lambda>c. nc_node_attempt_id c = na_id a) completions"
    "validate_stops rows completions ss (bs_insert (na_id a) stopped) = Inr ()"
    by (auto simp: res_simps split: if_splits)
  with Cons.IH [OF a(4) Cons.prems(2)] Cons.prems(2) [OF a(1)] show ?case by (auto simp: list_ex_iff)
qed simp

section \<open>A running flow\<close>

text \<open>The sample flow with its first node completed and its second node running.\<close>

definition sample_environment :: "(unit, unit) flow_environment" where
  "sample_environment = \<lparr>en_definition_checks = sample_checks, en_digest = sample_digest, en_code_pins = \<lambda>_ _. Inr (),
     en_data_schemas = \<lambda>_ _. Inr (), en_pools = \<lambda>_ _ _. Inr (), en_no_attachments = ()\<rparr>"

definition sample_run :: FlowRun where
  "sample_run = \<lparr>fr_id = 1, fr_factory_run_id = 1, fr_definition = fd_reference sample_flow, fr_parent = None\<rparr>"

definition sample_cycle :: WorkflowCycle where
  "sample_cycle = \<lparr>wc_id = 1, wc_flow_run_id = 1, wc_number = 1, wc_predecessor = None, wc_source_attempt_id = None\<rparr>"

definition sample_admitted :: "(unit, unit) AdmittedFlow" where
  "sample_admitted = \<lparr>af_closure = sample_closure, af_limits = sample_limits,
     af_wip_limits = \<lparr>wl_max_active_runs = 10, wl_max_active_nodes = 10\<rparr>, af_root_run = sample_run,
     af_initial_cycle = sample_cycle, af_attached = ()\<rparr>"

definition sample_owner :: FactoryClaimOwnership where
  "sample_owner = \<lparr>ow_owner = lit ''worker'',
     ow_claim = \<lparr>cl_fence = replicate 32 0, cl_claimed_at = 0, cl_expires_at = 100\<rparr>\<rparr>"

definition sample_attempt :: "uuid \<Rightarrow> string \<Rightarrow> u64 \<Rightarrow> NodeAttempt" where
  "sample_attempt uid k n = \<lparr>na_id = uid, na_factory_run_id = 1, na_flow_run_id = 1, na_workflow_cycle_id = 1, na_node_key = lit k,
     na_node_kind = NK_Reasoning, na_number = n, na_input_digest = replicate 32 0, na_budget = sample_budget, na_started_at = 1,
     na_deadline = 50, na_execution = NX_External sample_schema, na_ownership = sample_owner, na_retry_of = None\<rparr>"

definition sample_completion :: NodeAttemptCompletion where
  "sample_completion = \<lparr>nc_id = replicate 32 0, nc_node_attempt_id = 10, nc_flow_run_id = 1, nc_workflow_cycle_id = 1,
     nc_node_key = lit ''a'', nc_outcome = lit ''ok'', nc_output_schema = sample_schema, nc_output_digest = replicate 32 0,
     nc_ownership = sample_owner, nc_usage = usage_default, nc_observed_at = 20\<rparr>"

definition sample_history :: FlowRuntimeHistory where
  "sample_history = \<lparr>hi_stops = [], hi_flow_runs = [sample_run], hi_cycles = [sample_cycle],
     hi_attempts = [sample_attempt 10 ''a'' 1, sample_attempt 11 ''b'' 2], hi_completions = [sample_completion]\<rparr>"

lemma sample_admitted_validates: "admitted_validated sample_environment sample_admitted = Some (Inr sample_validated)"
proof -
  have "validate_root_bindings sample_admitted = Inr ()" "validate_wip_limits sample_limits (af_wip_limits sample_admitted) = Inr ()"
    by code_simp+
  then show ?thesis
    by (simp add: admitted_validated_def closure_validate_def sample_environment_def sample_validates) (simp add: sample_admitted_def sample_validates)
qed

lemma sample_history_accepted: "validate_flow_runtime_history sample_environment sample_admitted sample_history = Some (Inr ())"
  unfolding validate_flow_runtime_history_def sample_admitted_validates also_then_simps by code_simp

section \<open>Properties\<close>

text \<open>
  (C10) An accepted history has unique runs, cycles and attempts. Every attempt of it is there for a
  reason: it enters its cycle, it follows a declared route from an earlier completed attempt, or it
  retries a failed attempt of its node within the declared number of retries. An attempt ends at most
  once, in a completion or in a stop, and the unfinished attempts are within the admitted width.
\<close>

theorem accepted_history_sound:
  assumes "validate_flow_runtime_history env f h = Some (Inr ())" "admitted_validated env f = Some (Inr v)"
  shows "distinct (map fr_id (hi_flow_runs h)) \<and> distinct (map wc_id (hi_cycles h)) \<and> distinct (map na_id (hi_attempts h)) \<and>
    (\<forall>a\<in>set (hi_attempts h). \<exists>flow\<in>set (hi_flow_runs h). \<exists>cycle\<in>set (hi_cycles h). \<exists>d.
       fr_id flow = na_flow_run_id a \<and> wc_id cycle = na_workflow_cycle_id a \<and>
       closure_definition v (fr_definition flow) = Some d \<and> attempt_justified v h flow cycle d a) \<and>
    distinct (map nc_node_attempt_id (hi_completions h) @ map st_node_attempt_id (hi_stops h)) \<and>
    active_node_count h \<le> unat (fl_max_wip (vc_limits v))"
proof (rule accepted_history_cases [OF assms])
  fix runs cycles rows usage
  assume tables: "unique_by (hi_flow_runs h) fr_id ''Flow Run identity'' = Inr runs"
      "unique_by (hi_cycles h) wc_id ''workflow cycle identity'' = Inr cycles"
      "unique_by (hi_attempts h) na_id ''Node Attempt identity'' = Inr rows"
    and ends: "validate_completions v runs rows (hi_completions h) [] = Inr ()"
      "validate_stops rows (hi_completions h) (hi_stops h) [] = Inr ()"
    and wip: "active_node_count h \<le> unat (fl_max_wip (vc_limits v))"
  have "distinct (map nc_node_attempt_id (hi_completions h))" using validate_completions_each [OF ends(1)] by blast
  moreover have "bt_get rows k = Some a \<Longrightarrow> na_id a = k" for k a using unique_by_Inr(3) [OF tables(3)] by simp
  note validate_stops_each [OF ends(2) this]
  ultimately have "distinct (map nc_node_attempt_id (hi_completions h) @ map st_node_attempt_id (hi_stops h))" by auto
  with tables [THEN unique_by_Inr(1)] wip attempt_exists [OF assms] show ?thesis by blast
qed

theorem accepted_history_sound_witness:
  "validate_flow_runtime_history sample_environment sample_admitted sample_history = Some (Inr ()) \<and>
   active_node_count sample_history = 1 \<and> active_node_count sample_history \<le> unat (fl_max_wip (vc_limits sample_validated))"
proof -
  have "active_node_count sample_history = 1" by code_simp
  with accepted_history_sound [OF sample_history_accepted sample_admitted_validates] sample_history_accepted show ?thesis by blast
qed

text \<open>
  (C11) Every completed attempt of an accepted history is interpreted: the directives that follow it are
  those that its declared routes select after the recorded traversals, at least one of them, each a
  restart, a node of the pinned definition, a nested definition or a terminal of the right schema. The
  only failure is a measured consumption beyond a budget.
\<close>

theorem accepted_history_interprets:
  assumes "validate_flow_runtime_history env f h = Some (Inr ())" "admitted_validated env f = Some (Inr v)"
    and "a \<in> set (hi_attempts h)" "completion_of h (na_id a) = Some c"
    and "flow \<in> set (hi_flow_runs h)" "fr_id flow = na_flow_run_id a"
    and "cycle \<in> set (hi_cycles h)" "wc_id cycle = na_workflow_cycle_id a"
  shows "(\<exists>d xs. interpreter_definition v flow = Inr d \<and> control_directives v flow cycle a c h = Inr xs \<and> xs \<noteq> [] \<and>
      list_all2 (declares d a (outcome_traversals h (fr_id flow) (na_node_key a) (nc_outcome c)))
        (routes_of (fd_transitions d) (na_node_key a, nc_outcome c)) xs) \<or>
    (\<exists>e. control_directives v flow cycle a c h = Inl (FE_Budget e))"
  using assms by (rule interprets)

theorem accepted_history_interprets_witness:
  "completion_of sample_history 10 = Some sample_completion \<and>
   (\<exists>xs. control_directives sample_validated sample_run sample_cycle (sample_attempt 10 ''a'' 1) sample_completion sample_history = Inr xs \<and>
      xs \<noteq> [])"
proof -
  let ?a = "sample_attempt 10 ''a'' 1"
  have row: "?a \<in> set (hi_attempts sample_history)" "sample_run \<in> set (hi_flow_runs sample_history)"
    "sample_cycle \<in> set (hi_cycles sample_history)" by (simp_all add: sample_history_def)
  have owner: "fr_id sample_run = na_flow_run_id ?a" "wc_id sample_cycle = na_workflow_cycle_id ?a"
    by (simp_all add: sample_run_def sample_cycle_def sample_attempt_def)
  have found: "completion_of sample_history (na_id ?a) = Some sample_completion" by code_simp
  have budget: "\<not> (\<exists>e. control_directives sample_validated sample_run sample_cycle ?a sample_completion sample_history = Inl (FE_Budget e))"
  proof -
    have "(case control_directives sample_validated sample_run sample_cycle ?a sample_completion sample_history of Inl _ \<Rightarrow> False | Inr _ \<Rightarrow> True)"
      by code_simp
    then show ?thesis by auto
  qed
  have "na_id ?a = 10" by (simp add: sample_attempt_def)
  with accepted_history_interprets [OF sample_history_accepted sample_admitted_validates row(1) found row(2) owner(1) row(3) owner(2)]
    budget found show ?thesis by auto
qed

text \<open>
  (C12) The position of a cycle can always be derived from an accepted history, unless the measured
  consumption exceeds a budget, and it is never that of waiting: it is an unfinished or newly ready
  node, the declared restart, or the terminal that a retained result selected, the last two only when
  nothing is pending or ready. Every ready node is pending or follows a retained completion.
\<close>

theorem accepted_history_progresses:
  assumes history: "validate_flow_runtime_history env f h = Some (Inr ())" "admitted_validated env f = Some (Inr v)"
    and flow: "flow \<in> set (hi_flow_runs h)" and cycle: "cycle \<in> set (hi_cycles h)" "wc_flow_run_id cycle = fr_id flow"
  shows "(\<exists>p ready. position v flow cycle h = Inr (p, ready) \<and> position_sound v flow cycle h p ready) \<or>
    (\<exists>e. position v flow cycle h = Inl (FE_Budget e))"
proof (cases "cycle_rows flow cycle h = []")
  case True
  from cycle_entry_found [OF assms] obtain entry where "cycle_entry v flow cycle h = Inr entry" by blast
  with True show ?thesis by (simp add: position_def position_sound_def Let_def)
next
  case rows: False
  let ?rows = "cycle_rows flow cycle h"
  let ?pending = "pending_rows ?rows h"
  let ?keys = "bs_of_list (map na_node_key ?pending)"
  let ?st = "\<lparr>po_ready = ?keys, po_restart = None, po_terminal = None\<rparr>"
  let ?follows = "follows_completion v flow cycle h ?rows"
  have start: "justified ?follows (set ?keys) ?st" by (simp add: justified_def)
  from position_scan_total [OF history flow cycle(1) subset_refl, of ?rows ?st]
  show ?thesis
  proof
    assume "\<exists>e. position_scan v flow cycle h ?rows ?rows ?st = Inl (FE_Budget e)"
    with rows show ?thesis by (auto simp: position_def Let_def)
  next
    assume "\<exists>st'. position_scan v flow cycle h ?rows ?rows ?st = Inr st'"
    then obtain st' where scan: "position_scan v flow cycle h ?rows ?rows ?st = Inr st'" by blast
    have just: "justified ?follows (set ?keys) st'" using position_scan_result [OF scan subset_refl start] by blast
    have left: "?pending \<noteq> [] \<or> po_restart st' \<noteq> None \<or> po_ready st' \<noteq> [] \<or> po_terminal st' \<noteq> None"
      by (rule last_row_shows [OF history flow cycle(1) rows scan start])
    have keys: "set ?keys \<subseteq> set (po_ready st')" using position_scan_ready_mono [OF scan] by simp
    have pending: "\<exists>a\<in>set ?pending. na_node_key a = node" if "node \<in> set ?keys" for node using that by auto
    have ready: "(\<exists>a\<in>set ?pending. na_node_key a = node) \<or> (\<exists>a x. ?follows a x \<and> dispatches x node)"
      if "node \<in> set (po_ready st')" for node using just that pending unfolding justified_def by blast
    show ?thesis
    proof (cases "po_restart st'")
      case (Some restart)
      then obtain a node where "restart = At_RestartCycle node (na_id a)" "?follows a (RestartCycle node (na_id a))"
        using just unfolding justified_def by blast
      note here = this Some scan rows ready
      show ?thesis
      proof (cases ?pending)
        case Nil
        with here show ?thesis by (auto simp: position_def position_sound_def Let_def bs_of_list_def)
      next
        case (Cons b bs)
        then have "na_node_key b \<in> set (po_ready st')" using keys by auto
        with Cons here show ?thesis by (auto simp: position_def position_sound_def Let_def)
      qed
    next
      case None
      show ?thesis
      proof (cases ?pending)
        case (Cons b bs)
        then have "na_node_key b \<in> set (po_ready st')" using keys by auto
        with Cons None scan rows ready show ?thesis by (auto simp: position_def position_sound_def Let_def)
      next
        case Nil
        then consider node nodes where "po_ready st' = node # nodes" | n k source where "po_ready st' = []" "po_terminal st' = Some (n, k, source)"
          using left None by (cases "po_ready st'"; cases "po_terminal st'") auto
        then show ?thesis
        proof cases
          case 1
          with Nil None scan rows ready show ?thesis by (auto simp: position_def position_sound_def Let_def)
        next
          case 2
          then have "\<exists>a schema. source = na_id a \<and> ?follows a (Complete k schema)" using just unfolding justified_def by blast
          with 2 Nil None scan rows show ?thesis by (auto simp: position_def position_sound_def Let_def)
        qed
      qed
    qed
  qed
qed

theorem accepted_history_progresses_witness:
  "position sample_validated sample_run sample_cycle sample_history = Inr (At_Node (lit ''b''), [lit ''b'']) \<and>
   position_sound sample_validated sample_run sample_cycle sample_history (At_Node (lit ''b'')) [lit ''b'']"
proof -
  have row: "sample_run \<in> set (hi_flow_runs sample_history)" "sample_cycle \<in> set (hi_cycles sample_history)"
    "wc_flow_run_id sample_cycle = fr_id sample_run"
    by (simp_all add: sample_history_def sample_cycle_def sample_run_def)
  have "position sample_validated sample_run sample_cycle sample_history = Inr (At_Node (lit ''b''), [lit ''b''])" by code_simp
  with accepted_history_progresses [OF sample_history_accepted sample_admitted_validates row] show ?thesis by simp
qed

end
