(* ===== verification/Flow_Data.thy ===== *)
theory Flow_Data
  imports Factory_Permission Canonical_Json
begin

text \<open>
  Configured data contracts of Flow nodes, \<^verbatim>\<open>server/core/octacity-server-factory/src/flow/data.rs\<close>: shapes of
  JSON values, their validation, the values they accept, the comparison of two shapes, the expansion of
  the named shapes of a template (\<^verbatim>\<open>flow/template.rs\<close>, \<^verbatim>\<open>data_schemas\<close>), and payloads. A \<^verbatim>\<open>BTreeMap\<close> is the
  list of its entries in key order; \<open>shape_wf\<close> states that keys are distinct. The text of a number is the
  one that serde\_json writes, so equal numbers have equal texts. Serialization, its inverse and
  SHA-256 are the parameters of \<open>flow_json\<close>.
\<close>

section \<open>Decimal numbers\<close>

definition digits :: "rstr \<Rightarrow> nat option" where
  "digits t = (if t \<noteq> [] \<and> list_all is_ascii_digit t then Some (fold (\<lambda>c n. n * 10 + (c - 48)) t 0) else None)"

text \<open>\<^verbatim>\<open>as_i64\<close>: a number written without fraction and exponent, in range; the text \<open>-0\<close> is read as a
  floating point number.\<close>

definition json_i64 :: "Json \<Rightarrow> int option" where
  "json_i64 v = (case v of
     JNumber (c # t) \<Rightarrow>
       Option.bind (if c = 45 then map_option (\<lambda>n. - int n) (digits t) else map_option int (digits (c # t))) (\<lambda>n.
         if i64_range n \<and> \<not> (c = 45 \<and> n = 0) then Some n else None)
   | _ \<Rightarrow> None)"

section \<open>Shapes\<close>

definition MAX_FLOW_DATA_BYTES :: nat where "MAX_FLOW_DATA_BYTES = 1048576"
definition MAX_FLOW_SCHEMA_BYTES :: nat where "MAX_FLOW_SCHEMA_BYTES = 16 * 1024"
definition MAX_FLOW_SCHEMA_DEPTH :: nat where "MAX_FLOW_SCHEMA_DEPTH = 16"
definition MAX_FLOW_SCHEMA_ENTRIES :: nat where "MAX_FLOW_SCHEMA_ENTRIES = 64"
definition MAX_FLOW_SCHEMA_ITEMS :: u16 where "MAX_FLOW_SCHEMA_ITEMS = 128"
definition MAX_FLOW_VARIANT_NAME_BYTES :: nat where "MAX_FLOW_VARIANT_NAME_BYTES = 128"
definition MAX_EXPANDED_SCHEMA_NODES :: nat where "MAX_EXPANDED_SCHEMA_NODES = 4096"

datatype FlowValueSchema =
    S_Reference FactoryKey
  | S_Object "(FactoryKey \<times> bool \<times> FlowValueSchema) list"
  | S_String nat nat
  | S_Integer int int
  | S_Boolean
  | S_Array FlowValueSchema u16 u16
  | S_Enum "Json list"
  | S_ExternallyTagged "(rstr \<times> FlowValueSchema option) list"

text \<open>Whether a field is required, and its shape.\<close>

type_synonym FlowFieldSchema = "bool \<times> FlowValueSchema"

lemma size_field_less: "(k, req, s) \<in> set members \<Longrightarrow> size s < Suc (size_list (size_prod (\<lambda>_. 0) (size_prod (\<lambda>_. 0) size)) members)"
  by (induction members) auto

lemma size_variant_less: "(k, Some s) \<in> set variants \<Longrightarrow> size s < Suc (size_list (size_prod (\<lambda>_. 0) (size_option size)) variants)"
  by (induction variants) auto

lemma size_variant_get: "Some (Some s) = map_of variants k \<Longrightarrow> size s < Suc (size_list (size_prod (\<lambda>_. 0) (size_option size)) variants)"
  by (drule sym) (auto dest!: map_of_SomeD size_variant_less)

definition invalid_data :: FactoryError where
  "invalid_data = FE_InvalidConfiguration (lit ''Flow data contract'')"

text \<open>The maps of a shape have every key once.\<close>

function shape_wf :: "FlowValueSchema \<Rightarrow> bool" where
  "shape_wf (S_Object members) \<longleftrightarrow> distinct (map fst members) \<and> (\<forall>e\<in>set members. shape_wf (snd (snd e)))"
| "shape_wf (S_Array item _ _) \<longleftrightarrow> shape_wf item"
| "shape_wf (S_ExternallyTagged variants) \<longleftrightarrow> distinct (map fst variants) \<and>
     (\<forall>e\<in>set variants. case snd e of None \<Rightarrow> True | Some s \<Rightarrow> shape_wf s)"
| "shape_wf (S_Reference _) \<longleftrightarrow> True"
| "shape_wf (S_String _ _) \<longleftrightarrow> True"
| "shape_wf (S_Integer _ _) \<longleftrightarrow> True"
| "shape_wf S_Boolean \<longleftrightarrow> True"
| "shape_wf (S_Enum _) \<longleftrightarrow> True"
  by pat_completeness auto

termination
  by (relation "measure size") (auto dest: size_field_less size_variant_less)

definition is_scalar :: "Json \<Rightarrow> bool" where
  "is_scalar v = (case v of JObject _ \<Rightarrow> False | JArray _ \<Rightarrow> False | _ \<Rightarrow> True)"

lemma try_each_cong [fundef_cong]:
  "xs = ys \<Longrightarrow> (\<And>x. x \<in> set ys \<Longrightarrow> f x = g x) \<Longrightarrow> try_each f xs = try_each g ys"
  by (induction ys arbitrary: xs) auto

function schema_validate :: "FlowValueSchema \<Rightarrow> nat \<Rightarrow> FactoryError + unit" where
  "schema_validate shape depth =
     (if MAX_FLOW_SCHEMA_DEPTH < depth then Inl invalid_data
      else case shape of
        S_Boolean \<Rightarrow> Inr ()
      | S_Integer minimum maximum \<Rightarrow> ensure (minimum \<le> maximum) invalid_data
      | S_String min_bytes max_bytes \<Rightarrow> ensure (min_bytes \<le> max_bytes \<and> max_bytes \<le> MAX_FLOW_DATA_BYTES) invalid_data
      | S_Array item min_items max_items \<Rightarrow>
          if min_items \<le> max_items \<and> max_items \<le> MAX_FLOW_SCHEMA_ITEMS then schema_validate item (depth + 1) else Inl invalid_data
      | S_Object members \<Rightarrow>
          if length members \<le> MAX_FLOW_SCHEMA_ENTRIES then try_each (\<lambda>e. schema_validate (snd (snd e)) (depth + 1)) members
          else Inl invalid_data
      | S_Enum vs \<Rightarrow>
          ensure (vs \<noteq> [] \<and> length vs \<le> MAX_FLOW_SCHEMA_ENTRIES \<and> list_all is_scalar vs \<and> distinct vs) invalid_data
      | S_ExternallyTagged variants \<Rightarrow>
          if variants \<noteq> [] \<and> length variants \<le> MAX_FLOW_SCHEMA_ENTRIES then
            try_each (\<lambda>e.
              if trim (fst e) = [] \<or> MAX_FLOW_VARIANT_NAME_BYTES < str_len (fst e) \<or> list_ex is_control (fst e)
              then Inl invalid_data
              else case snd e of None \<Rightarrow> Inr () | Some s \<Rightarrow> schema_validate s (depth + 1)) variants
          else Inl invalid_data
      | S_Reference _ \<Rightarrow> Inl invalid_data)"
  by auto

termination
  by (relation "measure (size \<circ> fst)") (auto dest: size_field_less size_variant_less)

declare schema_validate.simps [simp del]

function accepts :: "FlowValueSchema \<Rightarrow> Json \<Rightarrow> bool" where
  "accepts shape v =
     (case shape of
        S_Reference _ \<Rightarrow> False
      | S_Boolean \<Rightarrow> (case v of JBool _ \<Rightarrow> True | _ \<Rightarrow> False)
      | S_Integer minimum maximum \<Rightarrow> (case json_i64 v of None \<Rightarrow> False | Some n \<Rightarrow> minimum \<le> n \<and> n \<le> maximum)
      | S_String min_bytes max_bytes \<Rightarrow> (case v of JString s \<Rightarrow> min_bytes \<le> str_len s \<and> str_len s \<le> max_bytes | _ \<Rightarrow> False)
      | S_Array item min_items max_items \<Rightarrow>
          (case v of JArray vs \<Rightarrow> unat min_items \<le> length vs \<and> length vs \<le> unat max_items \<and> list_all (\<lambda>v. accepts item v) vs
           | _ \<Rightarrow> False)
      | S_Enum vs \<Rightarrow> v \<in> set vs
      | S_ExternallyTagged variants \<Rightarrow>
          (case v of
             JString name \<Rightarrow> map_of variants name = Some None
           | JObject [(name, w)] \<Rightarrow> (case map_of variants name of Some (Some s) \<Rightarrow> accepts s w | _ \<Rightarrow> False)
           | _ \<Rightarrow> False)
      | S_Object members \<Rightarrow>
          (case v of
             JObject object \<Rightarrow>
               list_all (\<lambda>e. fst e \<in> set (map fst members)) object \<and>
               list_all (\<lambda>e. case map_of object (fst e) of None \<Rightarrow> \<not> fst (snd e) | Some w \<Rightarrow> accepts (snd (snd e)) w) members
           | _ \<Rightarrow> False))"
  by auto

termination
  by (relation "measure (size \<circ> fst)") (auto dest!: map_of_SomeD size_variant_less dest: size_field_less)

declare accepts.simps [simp del]

function covers :: "FlowValueSchema \<Rightarrow> FlowValueSchema \<Rightarrow> bool" where
  "covers self producer =
     (case (self, producer) of
        (_, S_Enum vs) \<Rightarrow> list_all (accepts self) vs
      | (S_String a b, S_String c d) \<Rightarrow> a \<le> c \<and> d \<le> b
      | (S_Integer a b, S_Integer c d) \<Rightarrow> a \<le> c \<and> d \<le> b
      | (S_Boolean, S_Boolean) \<Rightarrow> True
      | (S_Array a b c, S_Array d e f) \<Rightarrow> b \<le> e \<and> f \<le> c \<and> covers a d
      | (S_Object target, S_Object source) \<Rightarrow>
          list_all (\<lambda>e. case map_of target (fst e) of None \<Rightarrow> False | Some expected \<Rightarrow> covers (snd expected) (snd (snd e))) source \<and>
          list_all (\<lambda>e. \<not> fst (snd e) \<or> (case map_of source (fst e) of None \<Rightarrow> False | Some actual \<Rightarrow> fst actual)) target
      | (S_ExternallyTagged target, S_ExternallyTagged source) \<Rightarrow>
          list_all (\<lambda>e. case (map_of target (fst e), snd e) of
              (Some None, None) \<Rightarrow> True
            | (Some (Some expected), Some actual) \<Rightarrow> covers expected actual
            | _ \<Rightarrow> False) source
      | _ \<Rightarrow> False)"
  by auto

termination
  by (relation "measure (size \<circ> fst)") (auto intro: size_variant_get dest!: map_of_SomeD dest: size_field_less)

declare covers.simps [simp del]

section \<open>Named shapes of a template\<close>

text \<open>Collection of an iterator whose steps change a counter.\<close>

primrec thread_map :: "('a \<Rightarrow> 's \<Rightarrow> 'e + 'b \<times> 's) \<Rightarrow> 'a list \<Rightarrow> 's \<Rightarrow> 'e + 'b list \<times> 's" where
  "thread_map f [] st = Inr ([], st)"
| "thread_map f (x # xs) st =
     and_then (f x st) (\<lambda>(y, st). and_then (thread_map f xs st) (\<lambda>(ys, st). Inr (y # ys, st)))"

lemma thread_map_cong [fundef_cong]:
  "xs = ys \<Longrightarrow> (\<And>x st. x \<in> set ys \<Longrightarrow> f x st = g x st) \<Longrightarrow> st = st' \<Longrightarrow> thread_map f xs st = thread_map g ys st'"
proof (induction ys arbitrary: xs st st')
  case (Cons y ys)
  then have "thread_map f ys = thread_map g ys" by (intro ext) auto
  with Cons.prems show ?case by simp
qed simp

record FlowTemplateSchema =
  ts_identity :: FactoryKey
  ts_version :: FactoryKey
  ts_shape :: FlowValueSchema

function schema_resolve ::
  "(FactoryKey, FlowTemplateSchema) btree \<Rightarrow> FlowValueSchema \<Rightarrow> nat \<Rightarrow> nat \<Rightarrow> FactoryError + FlowValueSchema \<times> nat"
where
  "schema_resolve schemas shape depth remaining =
     (if remaining = 0 then Inl invalid_data
      else if MAX_FLOW_SCHEMA_DEPTH < depth then Inl invalid_data
      else let remaining = remaining - 1 in
        case shape of
          S_Reference schema \<Rightarrow>
            (case bt_get schemas schema of
               None \<Rightarrow> Inl invalid_data
             | Some template \<Rightarrow> schema_resolve schemas (ts_shape template) (depth + 1) remaining)
        | S_Object members \<Rightarrow>
            map_ok (\<lambda>(members, remaining). (S_Object members, remaining))
              (thread_map (\<lambda>(key, required, s) remaining.
                 map_ok (\<lambda>(s, remaining). ((key, required, s), remaining)) (schema_resolve schemas s (depth + 1) remaining))
               members remaining)
        | S_Array item min_items max_items \<Rightarrow>
            map_ok (\<lambda>(item, remaining). (S_Array item min_items max_items, remaining))
              (schema_resolve schemas item (depth + 1) remaining)
        | S_ExternallyTagged variants \<Rightarrow>
            map_ok (\<lambda>(variants, remaining). (S_ExternallyTagged variants, remaining))
              (thread_map (\<lambda>(name, s) remaining.
                 case s of
                   None \<Rightarrow> Inr ((name, None), remaining)
                 | Some s \<Rightarrow> map_ok (\<lambda>(s, remaining). ((name, Some s), remaining)) (schema_resolve schemas s (depth + 1) remaining))
               variants remaining)
        | other \<Rightarrow> Inr (other, remaining))"
  by auto

termination
  by (relation "measure (\<lambda>(_, _, depth, _). Suc MAX_FLOW_SCHEMA_DEPTH - depth)") auto

declare schema_resolve.simps [simp del]

section \<open>Contracts and payloads\<close>

record FlowDataSchema =
  ds_reference :: ImmutableReference
  ds_shape :: FlowValueSchema

record FlowPayload =
  fp_schema :: ImmutableReference
  fp_value :: Json

record flow_json =
  schema_bytes :: "FactoryKey \<Rightarrow> FactoryKey \<Rightarrow> FlowValueSchema \<Rightarrow> u8 list option"
  payload_bytes :: "FlowPayload \<Rightarrow> u8 list option"
  payload_wire :: "u8 list \<Rightarrow> (ImmutableReference \<times> Json) option"
  data_sha256 :: "u8 list \<Rightarrow> FactoryDigest"
  value_len :: "Json \<Rightarrow> nat option"
  json_pointer :: "Json \<Rightarrow> rstr \<Rightarrow> Json option"

definition data_schema_new :: "flow_json \<Rightarrow> FactoryKey \<Rightarrow> FactoryKey \<Rightarrow> FlowValueSchema \<Rightarrow> FactoryError + FlowDataSchema" where
  "data_schema_new env identity version shape =
     and_then (schema_validate shape 0) (\<lambda>_.
     and_then (ok_or invalid_data (schema_bytes env identity version shape)) (\<lambda>bytes.
     if MAX_FLOW_SCHEMA_BYTES < length bytes then Inl invalid_data
     else Inr \<lparr>ds_reference = (identity, version,
         factory_digest_sha256 (data_sha256 env) (lit ''octacity.factory.flow-data-schema.v1'') [bytes]), ds_shape = shape\<rparr>))"

definition data_schema_from_wire :: "flow_json \<Rightarrow> ImmutableReference \<Rightarrow> FlowValueSchema \<Rightarrow> FactoryError + FlowDataSchema" where
  "data_schema_from_wire env reference shape =
     and_then (data_schema_new env (fst reference) (fst (snd reference)) shape) (\<lambda>schema.
     if ds_reference schema \<noteq> reference then Inl invalid_data else Inr schema)"

definition accepts_all :: "FlowDataSchema \<Rightarrow> FlowValueSchema \<Rightarrow> bool" where
  "accepts_all schema producer \<longleftrightarrow> is_ok (schema_validate producer 0) \<and> covers (ds_shape schema) producer"

definition payload_new :: "flow_json \<Rightarrow> FlowDataSchema \<Rightarrow> Json \<Rightarrow> FactoryError + FlowPayload" where
  "payload_new env schema v =
     (if \<not> accepts (ds_shape schema) v then Inl invalid_data
      else let payload = \<lparr>fp_schema = ds_reference schema, fp_value = v\<rparr> in
        and_then (ok_or invalid_data (payload_bytes env payload)) (\<lambda>bytes.
        if MAX_FLOW_DATA_BYTES < length bytes then Inl invalid_data else Inr payload))"

definition payload_restore :: "flow_json \<Rightarrow> u8 list \<Rightarrow> FlowDataSchema \<Rightarrow> FactoryError + FlowPayload" where
  "payload_restore env bytes schema =
     (if MAX_FLOW_DATA_BYTES < length bytes then Inl invalid_data
      else and_then (ok_or invalid_data (payload_wire env bytes)) (\<lambda>(reference, v).
        if reference \<noteq> ds_reference schema then Inl invalid_data else payload_new env schema v))"

definition invalid_template :: FactoryError where
  "invalid_template = FE_InvalidConfiguration (lit ''Flow configuration template'')"

definition data_schemas ::
  "flow_json \<Rightarrow> (FactoryKey, FlowTemplateSchema) btree \<Rightarrow> FactoryError + (FactoryKey, FlowDataSchema) btree"
where
  "data_schemas env schemas =
     (if schemas = [] \<or> MAX_FLOW_SCHEMA_ENTRIES < length schemas then Inl invalid_template
      else try_map (\<lambda>(choice, schema).
        and_then (schema_resolve schemas (ts_shape schema) 0 MAX_EXPANDED_SCHEMA_NODES) (\<lambda>(shape, _).
        map_ok (Pair choice) (data_schema_new env (ts_identity schema) (ts_version schema) shape))) schemas)"

section \<open>Soundness of the comparison\<close>

lemma accepts_object:
  "accepts (S_Object members) v \<longleftrightarrow> (\<exists>object. v = JObject object \<and> fst ` set object \<subseteq> fst ` set members \<and>
     (\<forall>(k, req, s)\<in>set members. case map_of object k of None \<Rightarrow> \<not> req | Some w \<Rightarrow> accepts s w))"
  by (subst accepts.simps) (simp add: list_all_iff case_prod_beta image_subset_iff split: Json.split)

lemma accepts_array:
  "accepts (S_Array item lo hi) v \<longleftrightarrow> (\<exists>vs. v = JArray vs \<and> unat lo \<le> length vs \<and> length vs \<le> unat hi \<and> (\<forall>w\<in>set vs. accepts item w))"
  by (subst accepts.simps) (auto simp: list_all_iff split: Json.splits)

lemma accepts_tagged:
  "accepts (S_ExternallyTagged variants) v \<longleftrightarrow>
     (\<exists>name. v = JString name \<and> map_of variants name = Some None) \<or>
     (\<exists>name w s. v = JObject [(name, w)] \<and> map_of variants name = Some (Some s) \<and> accepts s w)"
  by (subst accepts.simps) (auto split: Json.splits list.splits option.splits)

lemma accepts_leaf:
  "accepts (S_Reference k) v = False"
  "accepts (S_Enum vs) v \<longleftrightarrow> v \<in> set vs"
  "accepts (S_String a b) v \<longleftrightarrow> (\<exists>s. v = JString s \<and> a \<le> str_len s \<and> str_len s \<le> b)"
  "accepts (S_Integer m n) v \<longleftrightarrow> (\<exists>i. json_i64 v = Some i \<and> m \<le> i \<and> i \<le> n)"
  "accepts S_Boolean v \<longleftrightarrow> (\<exists>b. v = JBool b)"
  by (simp_all add: accepts.simps [of _ v] split: Json.split option.split)

lemmas accepts_iff = accepts_object accepts_array accepts_tagged accepts_leaf

lemma covers_object:
  "covers (S_Object target) (S_Object source) \<longleftrightarrow>
     (\<forall>e\<in>set source. case map_of target (fst e) of None \<Rightarrow> False | Some expected \<Rightarrow> covers (snd expected) (snd (snd e))) \<and>
     (\<forall>e\<in>set target. \<not> fst (snd e) \<or> (case map_of source (fst e) of None \<Rightarrow> False | Some actual \<Rightarrow> fst actual))"
  by (subst covers.simps) (simp add: list_all_iff)

lemma covers_tagged:
  "covers (S_ExternallyTagged target) (S_ExternallyTagged source) \<longleftrightarrow>
     (\<forall>e\<in>set source. case (map_of target (fst e), snd e) of
         (Some None, None) \<Rightarrow> True
       | (Some (Some expected), Some actual) \<Rightarrow> covers expected actual
       | _ \<Rightarrow> False)"
  by (subst covers.simps) (simp add: list_all_iff)

lemma covers_enum: "covers target (S_Enum vs) \<longleftrightarrow> (\<forall>v\<in>set vs. accepts target v)"
  by (cases target) (simp_all add: covers.simps [of _ "S_Enum vs"] list_all_iff)

lemma covers_tagged_entry:
  assumes "covers (S_ExternallyTagged target) (S_ExternallyTagged source)" "(name, shape) \<in> set source"
  shows "case shape of None \<Rightarrow> map_of target name = Some None
    | Some s \<Rightarrow> \<exists>t. map_of target name = Some (Some t) \<and> covers t s"
  using bspec [OF assms(1) [unfolded covers_tagged] assms(2)] by (simp split: option.splits)

lemma covers_object_entry:
  assumes "covers (S_Object target) (S_Object source)" "(k, req, s) \<in> set source"
  shows "\<exists>req' t. map_of target k = Some (req', t) \<and> covers t s"
  using bspec [OF conjunct1 [OF assms(1) [unfolded covers_object]] assms(2)] by (simp split: option.splits) (metis prod.collapse)

lemma covers_object_required:
  assumes "covers (S_Object target) (S_Object source)" "(k, True, t) \<in> set target"
  shows "\<exists>s. map_of source k = Some (True, s)"
  using bspec [OF conjunct2 [OF assms(1) [unfolded covers_object]] assms(2)] by (auto split: option.splits)

text \<open>Every value of a covered shape is a value of the covering one.\<close>

lemma covers_sound: "covers target source \<Longrightarrow> shape_wf target \<Longrightarrow> accepts source v \<Longrightarrow> accepts target v"
proof (induction "size target" arbitrary: target source v rule: less_induct)
  case less
  show ?case
  proof (cases source)
    case (S_Enum vs)
    with less.prems show ?thesis by (simp add: covers_enum accepts_leaf)
  next
    case (S_Object members)
    then obtain fields' where target: "target = S_Object fields'"
      using less.prems(1) by (subst (asm) covers.simps) (auto split: FlowValueSchema.splits)
    from less.prems(3) [unfolded S_Object accepts_object] obtain object where
      v: "v = JObject object" "fst ` set object \<subseteq> fst ` set members" and
      all: "\<forall>(k, req, s)\<in>set members. case map_of object k of None \<Rightarrow> \<not> req | Some w \<Rightarrow> accepts s w"
      by blast
    have sub: "case map_of object k of None \<Rightarrow> \<not> req | Some w \<Rightarrow> accepts s w" if "(k, req, s) \<in> set members" for k req s
      using bspec [OF all that] by simp
    note cover = less.prems(1) [unfolded target S_Object]
    have "fst ` set object \<subseteq> fst ` set fields'"
    proof
      fix k assume "k \<in> fst ` set object"
      then obtain req s where "(k, req, s) \<in> set members" using v(2) by force
      from covers_object_entry [OF cover this] show "k \<in> fst ` set fields'" by (force dest: map_of_SomeD)
    qed
    moreover have "case map_of object k of None \<Rightarrow> \<not> req | Some w \<Rightarrow> accepts t w" if t: "(k, req, t) \<in> set fields'" for k req t
    proof (cases "map_of object k")
      case None
      have "\<not> req"
      proof
        assume req
        with covers_object_required [OF cover] t obtain s where "(k, True, s) \<in> set members" by (fastforce dest: map_of_SomeD)
        from sub [OF this] None show False by simp
      qed
      with None show ?thesis by simp
    next
      case (Some w)
      then have "k \<in> fst ` set members" using v(2) by (force dest: map_of_SomeD)
      then obtain req' s where s: "(k, req', s) \<in> set members" by force
      from covers_object_entry [OF cover s] obtain r t' where t': "map_of fields' k = Some (r, t')" "covers t' s" by blast
      have "map_of fields' k = Some (req, t)" using t less.prems(2) by (simp add: target)
      with t' have "covers t s" by simp
      moreover have "size t < size target" using size_field_less [OF t] by (simp add: target)
      moreover have "shape_wf t" using less.prems(2) t by (auto simp: target)
      moreover have "accepts s w" using sub [OF s] Some by simp
      ultimately show ?thesis using less.hyps Some by simp
    qed
    ultimately show ?thesis by (auto simp: target accepts_object v(1))
  next
    case (S_Array item lo hi)
    then obtain t lo' hi' where target: "target = S_Array t lo' hi'" "lo' \<le> lo" "hi \<le> hi'" "covers t item"
      using less.prems(1) by (subst (asm) covers.simps) (auto split: FlowValueSchema.splits)
    then have "size t < size target" "shape_wf t" using less.prems(2) by simp_all
    with less.hyps target(4) have "accepts item w \<Longrightarrow> accepts t w" for w by blast
    with less.prems(3) S_Array target(1-3) show ?thesis by (force simp: accepts_array word_le_nat_alt)
  next
    case (S_ExternallyTagged variants)
    then obtain variants' where target: "target = S_ExternallyTagged variants'"
      using less.prems(1) by (subst (asm) covers.simps) (auto split: FlowValueSchema.splits)
    note entry = covers_tagged_entry [OF less.prems(1) [unfolded target S_ExternallyTagged]]
    from less.prems(3) [unfolded S_ExternallyTagged accepts_tagged] show ?thesis
    proof (elim disjE exE conjE)
      fix name assume name: "v = JString name" "map_of variants name = Some None"
      from entry [OF map_of_SomeD [OF name(2)]] name(1) show ?thesis by (simp add: target accepts_tagged)
    next
      fix name w s assume name: "v = JObject [(name, w)]" "map_of variants name = Some (Some s)" "accepts s w"
      from entry [OF map_of_SomeD [OF name(2)]] obtain t where t: "map_of variants' name = Some (Some t)" "covers t s" by auto
      have "size t < size target" using size_variant_get [OF t(1) [symmetric]] by (simp add: target)
      moreover have "shape_wf t" using less.prems(2) map_of_SomeD [OF t(1)] by (fastforce simp: target)
      ultimately have "accepts t w" using less.hyps t(2) name(3) by blast
      with t(1) name(1) show ?thesis by (simp add: target accepts_tagged)
    qed
  qed (use less.prems in \<open>subst (asm) covers.simps, auto simp: accepts_leaf split: FlowValueSchema.splits\<close>)+
qed


section \<open>Meaning of named shapes\<close>

text \<open>The shape that a named one stands for.\<close>

inductive expands_to :: "(FactoryKey \<Rightarrow> FlowValueSchema option) \<Rightarrow> FlowValueSchema \<Rightarrow> FlowValueSchema \<Rightarrow> bool" for names where
  expands_to_Reference: "names k = Some t \<Longrightarrow> expands_to names t s \<Longrightarrow> expands_to names (S_Reference k) s"
| expands_to_Object: "length ms' = length ms \<Longrightarrow>
     (\<And>i. i < length ms \<Longrightarrow> fst (ms' ! i) = fst (ms ! i) \<and> fst (snd (ms' ! i)) = fst (snd (ms ! i)) \<and>
        expands_to names (snd (snd (ms ! i))) (snd (snd (ms' ! i)))) \<Longrightarrow>
     expands_to names (S_Object ms) (S_Object ms')"
| expands_to_Array: "expands_to names t s \<Longrightarrow> expands_to names (S_Array t lo hi) (S_Array s lo hi)"
| expands_to_Tagged: "length vs' = length vs \<Longrightarrow>
     (\<And>i. i < length vs \<Longrightarrow> fst (vs' ! i) = fst (vs ! i) \<and>
        (snd (vs ! i) = None \<and> snd (vs' ! i) = None \<or>
         (\<exists>t s. snd (vs ! i) = Some t \<and> snd (vs' ! i) = Some s \<and> expands_to names t s))) \<Longrightarrow>
     expands_to names (S_ExternallyTagged vs) (S_ExternallyTagged vs')"
| expands_to_String: "expands_to names (S_String a b) (S_String a b)"
| expands_to_Integer: "expands_to names (S_Integer m n) (S_Integer m n)"
| expands_to_Boolean: "expands_to names S_Boolean S_Boolean"
| expands_to_Enum: "expands_to names (S_Enum js) (S_Enum js)"

function shape_nodes :: "FlowValueSchema \<Rightarrow> nat" where
  "shape_nodes shape = Suc (case shape of
     S_Object members \<Rightarrow> sum_list (map (\<lambda>e. shape_nodes (snd (snd e))) members)
   | S_Array item _ _ \<Rightarrow> shape_nodes item
   | S_ExternallyTagged variants \<Rightarrow> sum_list (map (\<lambda>e. case snd e of None \<Rightarrow> 0 | Some s \<Rightarrow> shape_nodes s) variants)
   | _ \<Rightarrow> 0)"
  by auto

termination
  by (relation "measure size") (auto dest: size_field_less size_variant_less)

declare shape_nodes.simps [simp del]

function closed_shape :: "FlowValueSchema \<Rightarrow> bool" where
  "closed_shape shape \<longleftrightarrow> (case shape of
     S_Reference _ \<Rightarrow> False
   | S_Object members \<Rightarrow> list_all (\<lambda>e. closed_shape (snd (snd e))) members
   | S_Array item _ _ \<Rightarrow> closed_shape item
   | S_ExternallyTagged variants \<Rightarrow> list_all (\<lambda>e. case snd e of None \<Rightarrow> True | Some s \<Rightarrow> closed_shape s) variants
   | _ \<Rightarrow> True)"
  by auto

termination
  by (relation "measure size") (auto dest: size_field_less size_variant_less)

declare closed_shape.simps [simp del]

lemma expands_to_closed: "expands_to names t s \<Longrightarrow> closed_shape s"
proof (induction rule: expands_to.induct)
  case (expands_to_Object ms' ms)
  then show ?case by (subst closed_shape.simps) (auto simp: list_all_length)
next
  case (expands_to_Tagged vs' vs)
  have "case snd (vs' ! i) of None \<Rightarrow> True | Some s \<Rightarrow> closed_shape s" if "i < length vs'" for i
    using expands_to_Tagged(1) expands_to_Tagged(2) [of i] that by auto
  then show ?case by (subst closed_shape.simps) (simp add: list_all_length)
next
  case (expands_to_Array t s lo hi)
  then show ?case by (subst closed_shape.simps) simp
qed (simp_all add: closed_shape.simps)

lemma thread_map_Inr:
  assumes "\<And>x st y st'. x \<in> set xs \<Longrightarrow> f x st = Inr (y, st') \<Longrightarrow> P x y \<and> cost y + st' \<le> st"
    and "thread_map f xs st = Inr (ys, st')"
  shows "list_all2 P xs ys \<and> sum_list (map cost ys) + st' \<le> (st :: nat)"
  using assms
proof (induction xs arbitrary: st ys)
  case (Cons x xs)
  from Cons.prems(2) obtain y mid zs where split: "f x st = Inr (y, mid)" "thread_map f xs mid = Inr (zs, st')" "ys = y # zs"
    by (auto simp: res_simps)
  have head: "P x y \<and> cost y + mid \<le> st" by (rule Cons.prems(1) [OF _ split(1)]) simp
  have "list_all2 P xs zs \<and> sum_list (map cost zs) + st' \<le> mid" by (rule Cons.IH [OF _ split(2)]) (rule Cons.prems(1), simp_all)
  with head split(3) show ?case by simp
qed simp

lemma schema_resolve_sound:
  "schema_resolve schemas shape depth remaining = Inr (s, left) \<Longrightarrow>
     expands_to (\<lambda>k. map_option ts_shape (bt_get schemas k)) shape s \<and> shape_nodes s + left \<le> remaining"
proof (induction schemas shape depth remaining arbitrary: s left rule: schema_resolve.induct)
  case (1 schemas shape depth remaining)
  let ?names = "\<lambda>k. map_option ts_shape (bt_get schemas k)"
  have pos: "remaining \<noteq> 0" "\<not> MAX_FLOW_SCHEMA_DEPTH < depth"
    using "1.prems" by (subst (asm) schema_resolve.simps, auto split: if_splits)+
  note step = "1.prems" [unfolded schema_resolve.simps [of _ shape] if_not_P [OF pos(1)] if_not_P [OF pos(2)] Let_def]
  note IH = "1.IH" [OF pos refl]
  show ?case
  proof (cases shape)
    case (S_Reference k)
    then obtain template where t: "bt_get schemas k = Some template"
        "schema_resolve schemas (ts_shape template) (depth + 1) (remaining - 1) = Inr (s, left)"
      using step by (auto split: option.splits)
    from IH(1) [OF S_Reference t] t(1) S_Reference show ?thesis by (auto intro: expands_to_Reference)
  next
    case (S_Object members)
    then obtain ms where ms: "s = S_Object ms" "thread_map (\<lambda>(key, required, s) remaining.
        map_ok (\<lambda>(s, remaining). ((key, required, s), remaining)) (schema_resolve schemas s (depth + 1) remaining))
        members (remaining - 1) = Inr (ms, left)"
      using step by (auto simp: res_simps)
    have "list_all2 (\<lambda>e e'. fst e' = fst e \<and> fst (snd e') = fst (snd e) \<and> expands_to ?names (snd (snd e)) (snd (snd e'))) members ms \<and>
        sum_list (map (\<lambda>e. shape_nodes (snd (snd e))) ms) + left \<le> remaining - 1"
    proof (rule thread_map_Inr [OF _ ms(2)], goal_cases)
      case (1 x st y st')
      obtain key req t where x: "x = (key, req, t)" by (cases x)
      with 1 obtain t' where t': "y = (key, req, t')" "schema_resolve schemas t (depth + 1) st = Inr (t', st')"
        by (auto simp: res_simps)
      from IH(2) [OF S_Object 1(1) x [symmetric] refl t'(2)] x t'(1) show ?case by simp
    qed
    then show ?thesis using pos(1)
      by (auto simp: S_Object ms(1) shape_nodes.simps [of "S_Object ms"] list_all2_conv_all_nth intro!: expands_to_Object)
  next
    case (S_Array item lo hi)
    then obtain t where t: "s = S_Array t lo hi" "schema_resolve schemas item (depth + 1) (remaining - 1) = Inr (t, left)"
      using step by (auto simp: res_simps)
    from IH(3) [OF S_Array t(2)] pos(1) show ?thesis
      by (auto simp: S_Array t(1) shape_nodes.simps [of "S_Array t lo hi"] intro: expands_to_Array)
  next
    case (S_ExternallyTagged variants)
    then obtain vs where vs: "s = S_ExternallyTagged vs" "thread_map (\<lambda>(name, s) remaining.
        case s of None \<Rightarrow> Inr ((name, None), remaining)
        | Some s \<Rightarrow> map_ok (\<lambda>(s, remaining). ((name, Some s), remaining)) (schema_resolve schemas s (depth + 1) remaining))
        variants (remaining - 1) = Inr (vs, left)"
      using step by (auto simp: res_simps)
    have "list_all2 (\<lambda>e e'. fst e' = fst e \<and> (snd e = None \<and> snd e' = None \<or>
          (\<exists>t s. snd e = Some t \<and> snd e' = Some s \<and> expands_to ?names t s))) variants vs \<and>
        sum_list (map (\<lambda>e. case snd e of None \<Rightarrow> 0 | Some s \<Rightarrow> shape_nodes s) vs) + left \<le> remaining - 1"
    proof (rule thread_map_Inr [OF _ vs(2)], goal_cases)
      case (1 x st y st')
      obtain name t where x: "x = (name, t)" by (cases x)
      show ?case
      proof (cases t)
        case None
        with 1(2) show ?thesis by (auto simp: x)
      next
        case (Some t0)
        with 1 x obtain t' where t': "y = (name, Some t')" "schema_resolve schemas t0 (depth + 1) st = Inr (t', st')"
          by (auto simp: res_simps)
        from IH(4) [OF S_ExternallyTagged 1(1) x [symmetric] Some t'(2)] x t'(1) Some show ?thesis by simp
      qed
    qed
    then show ?thesis using pos(1)
      by (auto simp: S_ExternallyTagged vs(1) shape_nodes.simps [of "S_ExternallyTagged vs"] list_all2_conv_all_nth intro!: expands_to_Tagged)
  qed (use step pos(1) in \<open>auto simp: shape_nodes.simps intro: expands_to.intros\<close>)
qed

lemma list_all2_source: "list_all2 P xs ys \<Longrightarrow> y \<in> set ys \<Longrightarrow> \<exists>x\<in>set xs. P x y"
  by (induction rule: list_all2_induct) auto

section \<open>Properties\<close>

text \<open>
  Comparison of shapes is sound: if a contract accepts all values of a producer shape, every value of
  that shape makes a payload of the contract, and the bytes of the payload restore it, provided that they
  are within the size limit and that deserialization reverses serialization.
\<close>

theorem accepted_producer_fits:
  assumes "accepts_all schema producer" "shape_wf (ds_shape schema)" "accepts producer v"
    and "payload_bytes env \<lparr>fp_schema = ds_reference schema, fp_value = v\<rparr> = Some bytes"
    and "length bytes \<le> MAX_FLOW_DATA_BYTES" "payload_wire env bytes = Some (ds_reference schema, v)"
  shows "payload_new env schema v = Inr \<lparr>fp_schema = ds_reference schema, fp_value = v\<rparr> \<and>
    payload_restore env bytes schema = payload_new env schema v"
proof -
  have "accepts (ds_shape schema) v" using assms(1-3) covers_sound by (auto simp: accepts_all_def)
  with assms(4-6) show ?thesis by (simp add: payload_new_def payload_restore_def)
qed

text \<open>A codec for the witnesses, on which everything has the same small size.\<close>

definition sample_json :: flow_json where
  "sample_json = \<lparr>schema_bytes = (\<lambda>_ _ _. Some [1]), payload_bytes = (\<lambda>_. Some [2]),
     payload_wire = (\<lambda>_. Some ((lit ''count'', lit ''v1'', []), JObject [(lit ''n'', JNumber (lit ''3''))])),
     data_sha256 = (\<lambda>_. []), value_len = (\<lambda>_. Some 2), json_pointer = (\<lambda>v path. if path = [] then Some v else None)\<rparr>"

theorem accepted_producer_fits_witness:
  "is_ok (payload_restore sample_json [2] \<lparr>ds_reference = (lit ''count'', lit ''v1'', []),
     ds_shape = S_Object [(lit ''n'', True, S_Integer 0 10), (lit ''text'', False, S_Boolean)]\<rparr>)"
proof -
  let ?schema = "\<lparr>ds_reference = (lit ''count'', lit ''v1'', []),
    ds_shape = S_Object [(lit ''n'', True, S_Integer 0 10), (lit ''text'', False, S_Boolean)]\<rparr>"
  let ?producer = "S_Object [(lit ''n'', True, S_Integer 2 5)]"
  have "accepts_all ?schema ?producer" "shape_wf (ds_shape ?schema)" "accepts ?producer (JObject [(lit ''n'', JNumber (lit ''3''))])"
    by code_simp+
  from accepted_producer_fits [OF this, of sample_json "[2]"] show ?thesis
    by (simp add: sample_json_def MAX_FLOW_DATA_BYTES_def)
qed

text \<open>
  (C26) Expansion of the named shapes of a template always returns, also for recursive names, and what it
  publishes are the shapes that the names stand for: without references, valid, of at most 4096 nodes,
  under the identity and version of the template entry.
\<close>

theorem data_schemas_sound:
  assumes "data_schemas env schemas = Inr published"
  shows "bt_keys published = bt_keys schemas \<and> (\<forall>choice schema. (choice, schema) \<in> set published \<longrightarrow>
    (\<exists>t. (choice, t) \<in> set schemas \<and> expands_to (\<lambda>k. map_option ts_shape (bt_get schemas k)) (ts_shape t) (ds_shape schema) \<and>
      closed_shape (ds_shape schema) \<and> schema_validate (ds_shape schema) 0 = Inr () \<and>
      shape_nodes (ds_shape schema) \<le> MAX_EXPANDED_SCHEMA_NODES \<and>
      fst (ds_reference schema) = ts_identity t \<and> fst (snd (ds_reference schema)) = ts_version t))"
proof -
  let ?publish = "\<lambda>(choice, schema).
    and_then (schema_resolve schemas (ts_shape schema) 0 MAX_EXPANDED_SCHEMA_NODES) (\<lambda>(shape, _).
    map_ok (Pair choice) (data_schema_new env (ts_identity schema) (ts_version schema) shape))"
  have all: "list_all2 (\<lambda>x y. ?publish x = Inr y) schemas published"
    using assms by (simp add: data_schemas_def try_map_Inr_iff split: if_splits)
  have "fst y = fst x" if "?publish x = Inr y" for x y
    using that by (auto simp: res_simps split: prod.splits)
  then have "list_all2 (\<lambda>x y. fst y = fst x) schemas published" by (rule list_all2_mono [OF all])
  then have "map fst published = map fst schemas" by (induction rule: list_all2_induct) simp_all
  moreover have "\<exists>t. (choice, t) \<in> set schemas \<and>
      expands_to (\<lambda>k. map_option ts_shape (bt_get schemas k)) (ts_shape t) (ds_shape schema) \<and>
      closed_shape (ds_shape schema) \<and> schema_validate (ds_shape schema) 0 = Inr () \<and>
      shape_nodes (ds_shape schema) \<le> MAX_EXPANDED_SCHEMA_NODES \<and>
      fst (ds_reference schema) = ts_identity t \<and> fst (snd (ds_reference schema)) = ts_version t"
    if mem: "(choice, schema) \<in> set published" for choice schema
  proof -
    obtain x where x: "x \<in> set schemas" "?publish x = Inr (choice, schema)"
      using list_all2_source [OF all mem] by blast
    obtain t where t: "x = (choice, t)" using x(2) by (cases x) (auto simp: res_simps)
    obtain shape left where s: "schema_resolve schemas (ts_shape t) 0 MAX_EXPANDED_SCHEMA_NODES = Inr (shape, left)"
        "data_schema_new env (ts_identity t) (ts_version t) shape = Inr schema"
      using x(2) by (auto simp: t res_simps)
    have "ds_shape schema = shape \<and> schema_validate shape 0 = Inr () \<and>
        fst (ds_reference schema) = ts_identity t \<and> fst (snd (ds_reference schema)) = ts_version t"
      using s(2) by (auto simp: data_schema_new_def res_simps split: if_splits)
    with schema_resolve_sound [OF s(1)] expands_to_closed x(1) t show ?thesis by auto
  qed
  ultimately show ?thesis by (auto simp: bt_keys_def)
qed

definition sample_template :: "(FactoryKey, FlowTemplateSchema) btree" where
  "sample_template = [(lit ''flag'', \<lparr>ts_identity = lit ''flag'', ts_version = lit ''v1'', ts_shape = S_Boolean\<rparr>),
     (lit ''report'', \<lparr>ts_identity = lit ''report'', ts_version = lit ''v2'',
        ts_shape = S_Object [(lit ''ok'', True, S_Reference (lit ''flag''))]\<rparr>)]"

theorem data_schemas_sound_witness:
  "\<exists>published. data_schemas sample_json sample_template = Inr published \<and> bt_keys published = [lit ''flag'', lit ''report'']"
proof -
  have "is_ok (data_schemas sample_json sample_template)" by code_simp
  then obtain published where p: "data_schemas sample_json sample_template = Inr published" by (auto simp: is_ok_iff)
  from data_schemas_sound [OF p] p show ?thesis by (simp add: sample_template_def bt_keys_def)
qed

end
