(* ===== verification/Flow_Mapping.thy ===== *)
theory Flow_Mapping
  imports Flow_Data
begin

text \<open>
  Data mappings of Flow nodes, \<^verbatim>\<open>server/core/octacity-server-factory/src/flow/mapping.rs\<close>: validation,
  projection of a value with its size budget, the static checks that a mapping fits two shapes and that a
  projected field comes from allowed pointers only. \<^verbatim>\<open>serde_json::Value::pointer\<close> and the length of written JSON
  are parameters; \<open>rfc6901\<close> and \<open>compact_writer\<close> state what the properties need of them.
\<close>

section \<open>Pointers\<close>

definition MAX_FLOW_POINTER_BYTES :: nat where "MAX_FLOW_POINTER_BYTES = 256"

definition invalid_gate :: FactoryError where
  "invalid_gate = FE_InvalidConfiguration (lit ''Flow gate program'')"

text \<open>Every tilde starts one of the two escapes; a byte below 128 is a character.\<close>

fun escapes_ok :: "rstr \<Rightarrow> bool" where
  "escapes_ok [] \<longleftrightarrow> True"
| "escapes_ok (c # s) \<longleftrightarrow>
     (if c = 126 then (case s of [] \<Rightarrow> False | d # s \<Rightarrow> (d = 48 \<or> d = 49) \<and> escapes_ok s) else escapes_ok s)"

definition validate_pointer :: "rstr \<Rightarrow> FactoryError + unit" where
  "validate_pointer path =
     (if MAX_FLOW_POINTER_BYTES < str_len path \<or> path \<noteq> [] \<and> \<not> starts_with (lit ''/'') path then Inl invalid_gate
      else ensure (escapes_ok path) invalid_gate)"

text \<open>\<^verbatim>\<open>str::replace\<close> of a pair of characters by one.\<close>

fun replace_pair :: "rchar \<Rightarrow> rchar \<Rightarrow> rchar \<Rightarrow> rstr \<Rightarrow> rstr" where
  "replace_pair a b r (x # y # s) = (if x = a \<and> y = b then r # replace_pair a b r s else x # replace_pair a b r (y # s))"
| "replace_pair a b r s = s"

definition unescape :: "rstr \<Rightarrow> rstr" where
  "unescape s = replace_pair 126 48 126 (replace_pair 126 49 47 s)"

text \<open>The first segment of a path and the rest.\<close>

definition projection_segment :: "rstr \<Rightarrow> (rstr \<times> rstr) option" where
  "projection_segment path = (case path of
     [] \<Rightarrow> None
   | c # rest \<Rightarrow> if c = 47 then Some (unescape (takeWhile (\<lambda>c. c \<noteq> 47) rest), dropWhile (\<lambda>c. c \<noteq> 47) rest) else None)"

text \<open>\<^verbatim>\<open>str::parse\<close> of an unsigned integer below a bound, and the text of a number.\<close>

definition parse_unsigned :: "nat \<Rightarrow> rstr \<Rightarrow> nat option" where
  "parse_unsigned bound t =
     Option.bind (digits (case t of c # s \<Rightarrow> if c = 43 then s else t | [] \<Rightarrow> [])) (\<lambda>n. if n < bound then Some n else None)"

fun nat_text :: "nat \<Rightarrow> rstr" where
  "nat_text n = (if n < 10 then [48 + n] else nat_text (n div 10) @ [48 + n mod 10])"

declare nat_text.simps [simp del]

section \<open>Mappings\<close>

definition MAX_FLOW_MAPPING_BYTES :: nat where "MAX_FLOW_MAPPING_BYTES = 16 * 1024"
definition MAX_MAPPING_NODES :: nat where "MAX_MAPPING_NODES = 128"

datatype FlowValueMapping =
    M_Pointer rstr
  | M_Constant Json
  | M_Object "(FactoryKey \<times> FlowValueMapping) list"
  | M_Array "FlowValueMapping list"
  | M_IfPresent rstr FlowValueMapping FlowValueMapping

lemma size_selection_less: "(k, m) \<in> set es \<Longrightarrow> size m < Suc (size_list (size_prod (\<lambda>_. 0) size) es)"
  by (induction es) auto

definition invalid_mapping :: FactoryError where
  "invalid_mapping = FE_InvalidConfiguration (lit ''Flow data mapping'')"

text \<open>A loop whose steps change a counter.\<close>

primrec thread_each :: "('a \<Rightarrow> 's \<Rightarrow> 'e + 's) \<Rightarrow> 'a list \<Rightarrow> 's \<Rightarrow> 'e + 's" where
  "thread_each f [] st = Inr st"
| "thread_each f (x # xs) st = and_then (f x st) (thread_each f xs)"

lemma thread_each_cong [fundef_cong]:
  "xs = ys \<Longrightarrow> (\<And>x st. x \<in> set ys \<Longrightarrow> f x st = g x st) \<Longrightarrow> st = st' \<Longrightarrow> thread_each f xs st = thread_each g ys st'"
proof (induction ys arbitrary: xs st st')
  case (Cons y ys)
  then have "thread_each f ys = thread_each g ys" by (intro ext) auto
  with Cons.prems show ?case by simp
qed simp

function mapping_validate :: "FlowValueMapping \<Rightarrow> nat \<Rightarrow> nat \<Rightarrow> FactoryError + nat" where
  "mapping_validate m depth count =
     (let count = count + 1 in
      if MAX_FLOW_SCHEMA_DEPTH < depth \<or> MAX_MAPPING_NODES < count then Inl invalid_mapping
      else case m of
        M_Pointer path \<Rightarrow> map_ok (\<lambda>_. count) (validate_pointer path)
      | M_Constant _ \<Rightarrow> Inr count
      | M_Array items \<Rightarrow>
          if unat MAX_FLOW_SCHEMA_ITEMS < length items then Inl invalid_mapping
          else thread_each (\<lambda>item count. mapping_validate item (depth + 1) count) items count
      | M_IfPresent path present otherwise \<Rightarrow>
          and_then (validate_pointer path) (\<lambda>_.
          and_then (mapping_validate present (depth + 1) count) (\<lambda>count.
          mapping_validate otherwise (depth + 1) count))
      | M_Object es \<Rightarrow>
          if MAX_FLOW_SCHEMA_ENTRIES < length es then Inl invalid_mapping
          else thread_each (\<lambda>e count. mapping_validate (snd e) (depth + 1) count) es count)"
  by auto

termination
  by (relation "measure (\<lambda>(_, depth, _). Suc MAX_FLOW_SCHEMA_DEPTH - depth)") auto

declare mapping_validate.simps [simp del]

definition spend :: "nat \<Rightarrow> nat \<Rightarrow> FactoryError + nat" where
  "spend remaining bytes = (if remaining < bytes then Inl invalid_mapping else Inr (remaining - bytes))"

definition copy_bounded :: "flow_json \<Rightarrow> Json \<Rightarrow> nat \<Rightarrow> FactoryError + Json \<times> nat" where
  "copy_bounded env v remaining =
     and_then (ok_or invalid_mapping (value_len env v)) (\<lambda>bytes.
     and_then (spend remaining bytes) (\<lambda>remaining. Inr (v, remaining)))"

function mapping_project :: "flow_json \<Rightarrow> Json \<Rightarrow> FlowValueMapping \<Rightarrow> nat \<Rightarrow> FactoryError + Json \<times> nat" where
  "mapping_project env root m remaining =
     (case m of
        M_Pointer path \<Rightarrow>
          and_then (ok_or invalid_mapping (json_pointer env root path)) (\<lambda>v. copy_bounded env v remaining)
      | M_Constant v \<Rightarrow> copy_bounded env v remaining
      | M_Array items \<Rightarrow>
          and_then (spend remaining (2 + (length items - 1))) (\<lambda>remaining.
          map_ok (\<lambda>(vs, remaining). (JArray vs, remaining))
            (thread_map (\<lambda>item remaining. mapping_project env root item remaining) items remaining))
      | M_IfPresent path present otherwise \<Rightarrow>
          if json_pointer env root path \<noteq> None then mapping_project env root present remaining
          else mapping_project env root otherwise remaining
      | M_Object es \<Rightarrow>
          and_then (spend remaining 2) (\<lambda>remaining.
          map_ok (\<lambda>(vs, remaining). (JObject vs, remaining))
            (thread_map (\<lambda>e remaining.
               and_then (ok_or invalid_mapping (value_len env (JString (fst e)))) (\<lambda>bytes.
               and_then (spend remaining (bytes + 2)) (\<lambda>remaining.
               map_ok (\<lambda>(v, remaining). ((fst e, v), remaining)) (mapping_project env root (snd e) remaining)))) es remaining)))"
  by auto

termination
  by (relation "measure (\<lambda>(_, _, m, _). size m)")
    (auto dest: size_selection_less simp: less_Suc_eq_le size_list_estimation')

declare mapping_project.simps [simp del]

text \<open>The shape that a pointer selects in the input shape, the loop of \<^verbatim>\<open>fits\<close>.\<close>

primrec select_shape :: "FlowValueSchema \<Rightarrow> rstr list \<Rightarrow> FlowValueSchema option" where
  "select_shape shape [] = Some shape"
| "select_shape shape (segment # segments) =
     (let key = unescape segment in
      case shape of
        S_Object members \<Rightarrow>
          (case find (\<lambda>e. fst e = key) members of None \<Rightarrow> None | Some e \<Rightarrow> select_shape (snd (snd e)) segments)
      | S_Array item _ max_items \<Rightarrow>
          (case parse_unsigned (2 ^ 16) key of
             None \<Rightarrow> None
           | Some index \<Rightarrow> if index < unat max_items \<and> nat_text index = key then select_shape item segments else None)
      | S_ExternallyTagged variants \<Rightarrow>
          (case map_of variants key of Some (Some s) \<Rightarrow> select_shape s segments | _ \<Rightarrow> None)
      | _ \<Rightarrow> None)"

function fits :: "FlowValueMapping \<Rightarrow> FlowValueSchema \<Rightarrow> FlowValueSchema \<Rightarrow> bool" where
  "fits m input target =
     (case m of
        M_Pointer path \<Rightarrow>
          (case select_shape input (tl (split_char 47 path)) of None \<Rightarrow> False | Some shape \<Rightarrow> covers target shape)
      | M_Constant v \<Rightarrow> accepts target v
      | M_Object es \<Rightarrow>
          (case target of
             S_Object expected \<Rightarrow>
               list_all (\<lambda>e. case map_of expected (fst e) of None \<Rightarrow> False | Some field \<Rightarrow> fits (snd e) input (snd field)) es \<and>
               list_all (\<lambda>e. \<not> fst (snd e) \<or> fst e \<in> set (map fst es)) expected
           | _ \<Rightarrow> False)
      | M_Array items \<Rightarrow>
          (case target of
             S_Array item min_items max_items \<Rightarrow>
               unat min_items \<le> length items \<and> length items \<le> unat max_items \<and> list_all (\<lambda>m. fits m input item) items
           | _ \<Rightarrow> False)
      | M_IfPresent _ present otherwise \<Rightarrow> fits present input target \<and> fits otherwise input target)"
  by auto

termination
  by (relation "measure (size \<circ> fst)") (auto dest: size_selection_less simp: less_Suc_eq_le size_list_estimation')

declare fits.simps [simp del]

function selects_only :: "(rstr \<Rightarrow> bool) \<Rightarrow> FlowValueMapping \<Rightarrow> rstr \<Rightarrow> bool" where
  "selects_only check m path =
     (case m of
        M_Pointer source \<Rightarrow> check (source @ path)
      | M_IfPresent _ present otherwise \<Rightarrow> selects_only check present path \<and> selects_only check otherwise path
      | M_Object es \<Rightarrow>
          (case projection_segment path of
             None \<Rightarrow> False
           | Some (key, tail) \<Rightarrow> (case map_of es key of None \<Rightarrow> False | Some v \<Rightarrow> selects_only check v tail))
      | M_Array items \<Rightarrow>
          (case projection_segment path of
             None \<Rightarrow> False
           | Some (key, tail) \<Rightarrow>
               (case parse_unsigned (2 ^ 64) key of
                  None \<Rightarrow> False
                | Some index \<Rightarrow> if index < length items then selects_only check (items ! index) tail else False))
      | M_Constant _ \<Rightarrow> False)"
  by auto

termination
  by (relation "measure (\<lambda>(_, m, _). size m)")
    (auto dest!: map_of_SomeD size_selection_less simp: less_Suc_eq_le intro: size_list_estimation' [OF nth_mem])

declare selects_only.simps [simp del]

function is_input_independent :: "FlowValueMapping \<Rightarrow> bool" where
  "is_input_independent m \<longleftrightarrow> (case m of
     M_Constant _ \<Rightarrow> True
   | M_Object es \<Rightarrow> list_all (\<lambda>e. is_input_independent (snd e)) es
   | M_Array items \<Rightarrow> list_all (\<lambda>m. is_input_independent m) items
   | _ \<Rightarrow> False)"
  by auto

termination
  by (relation "measure size") (auto dest: size_selection_less simp: less_Suc_eq_le size_list_estimation')

declare is_input_independent.simps [simp del]

definition mapping_new :: "(FlowValueMapping \<Rightarrow> nat option) \<Rightarrow> FlowValueMapping \<Rightarrow> FactoryError + FlowValueMapping" where
  "mapping_new mapping_len m =
     and_then (mapping_validate m 0 0) (\<lambda>_.
     and_then (ok_or invalid_mapping (mapping_len m)) (\<lambda>bytes.
     if MAX_FLOW_MAPPING_BYTES < bytes then Inl invalid_mapping else Inr m))"

definition project_raw :: "flow_json \<Rightarrow> FlowValueMapping \<Rightarrow> Json \<Rightarrow> FactoryError + Json" where
  "project_raw env m input = map_ok fst (mapping_project env input m MAX_FLOW_DATA_BYTES)"

definition project_value :: "flow_json \<Rightarrow> FlowValueMapping \<Rightarrow> Json \<Rightarrow> FlowDataSchema \<Rightarrow> FactoryError + FlowPayload" where
  "project_value env m input schema = and_then (project_raw env m input) (payload_new env schema)"

definition project_payload :: "flow_json \<Rightarrow> FlowValueMapping \<Rightarrow> FlowPayload \<Rightarrow> FlowDataSchema \<Rightarrow> FactoryError + FlowPayload" where
  "project_payload env m input schema = project_value env m (fp_value input) schema"

end
