(* ===== verification/Flow_Mapping_Correct.thy ===== *)
theory Flow_Mapping_Correct
  imports Flow_Mapping
begin

text \<open>
  What a data mapping guarantees: a mapping that fits projects values of the target shape, a checked field
  comes from the checked pointers, and a projection is never larger than its budget.
\<close>

section \<open>Pointers\<close>

text \<open>The member that a reference token of RFC 6901 selects; array indices have no leading zeros.\<close>

definition json_member :: "Json \<Rightarrow> rstr \<Rightarrow> Json option" where
  "json_member v key = (case v of
     JObject object \<Rightarrow> map_of object key
   | JArray vs \<Rightarrow>
       (case digits key of None \<Rightarrow> None | Some n \<Rightarrow> if n < length vs \<and> nat_text n = key then Some (vs ! n) else None)
   | _ \<Rightarrow> None)"

text \<open>Lookup of a JSON pointer: the empty pointer is the whole value, a slash starts a token.\<close>

definition rfc6901 :: "(Json \<Rightarrow> rstr \<Rightarrow> Json option) \<Rightarrow> bool" where
  "rfc6901 pointer \<longleftrightarrow> (\<forall>v. pointer v [] = Some v) \<and> (\<forall>v c path. c \<noteq> 47 \<longrightarrow> pointer v (c # path) = None) \<and>
     (\<forall>v rest. pointer v (47 # rest) =
        Option.bind (json_member v (unescape (takeWhile (\<lambda>c. c \<noteq> 47) rest))) (\<lambda>w. pointer w (dropWhile (\<lambda>c. c \<noteq> 47) rest)))"

lemma rfc6901_simps:
  assumes "rfc6901 pointer"
  shows "pointer v [] = Some v" "c \<noteq> 47 \<Longrightarrow> pointer v (c # path) = None"
    "pointer v (47 # rest) =
       Option.bind (json_member v (unescape (takeWhile (\<lambda>c. c \<noteq> 47) rest))) (\<lambda>w. pointer w (dropWhile (\<lambda>c. c \<noteq> 47) rest))"
  using assms unfolding rfc6901_def by blast+

lemma rfc6901_segment:
  assumes "rfc6901 pointer" "projection_segment path = Some (key, tail)"
  shows "pointer v path = Option.bind (json_member v key) (\<lambda>w. pointer w tail)"
  using assms(2) rfc6901_simps(3) [OF assms(1)] by (auto simp: projection_segment_def split: list.splits if_splits)

lemma rfc6901_no_segment:
  assumes "rfc6901 pointer" "projection_segment path = None"
  shows "path = [] \<or> pointer v path = None"
  using assms(2) rfc6901_simps(2) [OF assms(1)] by (auto simp: projection_segment_def split: list.splits if_splits)

lemma dropWhile_neq_cases: "dropWhile (\<lambda>c. c \<noteq> d) s = [] \<or> (\<exists>t. dropWhile (\<lambda>c. c \<noteq> d) s = d # t)"
  by (induction s) auto

text \<open>Pointers compose.\<close>

lemma rfc6901_compose:
  assumes "rfc6901 pointer" "path = [] \<or> hd path = 47"
  shows "pointer v (source @ path) = Option.bind (pointer v source) (\<lambda>w. pointer w path)"
proof (induction "length source" arbitrary: source v rule: less_induct)
  case less
  note simps = rfc6901_simps [OF assms(1)]
  show ?case
  proof (cases source)
    case Nil
    then show ?thesis by (simp add: simps)
  next
    case (Cons c rest)
    show ?thesis
    proof (cases "c = 47")
      case True
      let ?head = "takeWhile (\<lambda>c. c \<noteq> 47)" and ?tail = "dropWhile (\<lambda>c. c \<noteq> (47 :: nat))"
      have split: "?head (rest @ path) = ?head rest" "?tail (rest @ path) = ?tail rest @ path"
        using assms(2) by (induction rest) (cases path; auto)+
      have "length (?tail rest) < length source" using length_dropWhile_le [of _ rest] by (simp add: Cons le_imp_less_Suc)
      note IH = less [OF this]
      show ?thesis by (simp add: Cons True simps(3) split IH Option.bind_assoc)
    next
      case False
      then show ?thesis by (simp add: Cons simps)
    qed
  qed
qed

section \<open>Types\<close>

lemma split_char_segment: "split_char d s = takeWhile (\<lambda>c. c \<noteq> d) s # (case dropWhile (\<lambda>c. c \<noteq> d) s of [] \<Rightarrow> [] | _ # t \<Rightarrow> split_char d t)"
  by (induction s) (auto split: list.splits)

text \<open>A number is read the same under every bound.\<close>

lemma parse_canonical:
  assumes "parse_unsigned bound key = Some n" "nat_text n = key"
  shows "digits key = Some n"
proof -
  have "hd (nat_text m) \<noteq> 43 \<and> nat_text m \<noteq> []" for m
    by (induction m rule: nat_text.induct) (subst nat_text.simps, subst nat_text.simps, auto)
  then have "key \<noteq> []" "hd key \<noteq> 43" using assms(2) by auto
  with assms(1) show ?thesis by (cases key) (auto simp: parse_unsigned_def split: Option.bind_splits if_splits)
qed

lemma digits_parse: "digits key = Some n \<Longrightarrow> parse_unsigned bound key = Some m \<Longrightarrow> m = n"
  by (cases key) (auto simp: parse_unsigned_def digits_def is_ascii_digit_def split: Option.bind_splits if_splits)

lemma json_member_typed:
  assumes "select_shape shape (segment # segments) = Some result" "accepts shape v" "json_member v (unescape segment) = Some w"
  shows "\<exists>s. accepts s w \<and> select_shape s segments = Some result"
proof (cases shape)
  case (S_Object members)
  with assms(1) obtain e where e: "find (\<lambda>e. fst e = unescape segment) members = Some e" "select_shape (snd (snd e)) segments = Some result"
    by (auto split: option.splits)
  from e(1) have "e \<in> set members" "fst e = unescape segment" by (auto simp: find_Some_iff)
  moreover obtain object where "v = JObject object" "\<forall>(k, req, s)\<in>set members. case map_of object k of None \<Rightarrow> \<not> req | Some w \<Rightarrow> accepts s w"
    using assms(2) [unfolded S_Object accepts_object] by blast
  ultimately have "accepts (snd (snd e)) w" using assms(3) by (fastforce simp: json_member_def)
  with e(2) show ?thesis by blast
next
  case (S_Array item lo hi)
  with assms(1) have "select_shape item segments = Some result" by (auto simp: Let_def split: option.splits if_splits)
  moreover have "accepts item w"
    using assms(2,3) by (auto simp: S_Array accepts_array json_member_def split: option.splits if_splits)
  ultimately show ?thesis by blast
next
  case (S_ExternallyTagged variants)
  with assms(1) obtain s where s: "map_of variants (unescape segment) = Some (Some s)" "select_shape s segments = Some result"
    by (auto simp: Let_def split: option.splits)
  have "accepts s w" using assms(2,3) s(1) by (auto simp: S_ExternallyTagged accepts_tagged json_member_def split: if_splits)
  with s(2) show ?thesis by blast
qed (use assms(1) in \<open>simp_all add: Let_def\<close>)

lemma pointer_typed:
  assumes "rfc6901 pointer"
  shows "pointer v path = Some w \<Longrightarrow> accepts shape v \<Longrightarrow> select_shape shape (tl (split_char 47 path)) = Some result \<Longrightarrow> accepts result w"
proof (induction "length path" arbitrary: path v shape rule: less_induct)
  case less
  note simps = rfc6901_simps [OF assms]
  show ?case
  proof (cases path)
    case Nil
    with less.prems show ?thesis by (simp add: simps)
  next
    case (Cons c rest)
    then have c: "c = 47" using less.prems(1) simps(2) by (metis option.distinct(1))
    let ?tail = "dropWhile (\<lambda>c. c \<noteq> (47 :: nat)) rest"
    obtain u where u: "json_member v (unescape (takeWhile (\<lambda>c. c \<noteq> 47) rest)) = Some u" "pointer u ?tail = Some w"
      using less.prems(1) by (auto simp: Cons c simps(3) bind_eq_Some_conv)
    have segments: "tl (split_char 47 path) = takeWhile (\<lambda>c. c \<noteq> 47) rest # tl (split_char 47 ?tail)"
      using dropWhile_neq_cases [of 47 rest] by (auto simp: Cons c split_char_segment [of 47 rest] simp del: dropWhile_eq_Nil_conv)
    from json_member_typed [OF less.prems(3) [unfolded segments] less.prems(2) u(1)] obtain s where
      s: "accepts s u" "select_shape s (tl (split_char 47 ?tail)) = Some result" by blast
    have "length ?tail < length path" using length_dropWhile_le [of _ rest] by (simp add: Cons le_imp_less_Suc)
    from less.hyps [OF this u(2) s] show ?thesis .
  qed
qed

lemma copy_bounded_value: "copy_bounded env v remaining = Inr (w, left) \<Longrightarrow> w = v"
  by (auto simp: copy_bounded_def res_simps)

lemma thread_map_related:
  assumes "\<And>x st y st'. x \<in> set xs \<Longrightarrow> f x st = Inr (y, st') \<Longrightarrow> P x y" "thread_map f xs st = Inr (ys, st')"
  shows "list_all2 P xs ys"
  using assms
proof (induction xs arbitrary: st ys)
  case (Cons x xs)
  from Cons.prems(2) obtain y mid zs where split: "f x st = Inr (y, mid)" "thread_map f xs mid = Inr (zs, st')" "ys = y # zs"
    by (auto simp: res_simps)
  have "P x y" by (rule Cons.prems(1) [OF _ split(1)]) simp
  moreover have "list_all2 P xs zs" by (rule Cons.IH [OF _ split(2)]) (rule Cons.prems(1), simp_all)
  ultimately show ?case by (simp add: split(3))
qed simp

text \<open>The results of the members of an object, and of the items of an array.\<close>

lemma mapping_project_Object:
  assumes "mapping_project env root (M_Object es) remaining = Inr (v, left)"
  shows "\<exists>vs. v = JObject vs \<and> list_all2 (\<lambda>e w. fst w = fst e \<and> (\<exists>st st'. mapping_project env root (snd e) st = Inr (snd w, st'))) es vs"
proof -
  obtain vs st where vs: "v = JObject vs" "thread_map (\<lambda>e remaining.
      and_then (ok_or invalid_mapping (value_len env (JString (fst e)))) (\<lambda>bytes.
      and_then (spend remaining (bytes + 2)) (\<lambda>remaining.
      map_ok (\<lambda>(v, remaining). ((fst e, v), remaining)) (mapping_project env root (snd e) remaining)))) es st = Inr (vs, left)"
    using assms by (subst (asm) mapping_project.simps) (auto simp: res_simps)
  have "list_all2 (\<lambda>e w. fst w = fst e \<and> (\<exists>st st'. mapping_project env root (snd e) st = Inr (snd w, st'))) es vs"
    by (rule thread_map_related [OF _ vs(2)]) (auto simp: res_simps; blast)
  with vs(1) show ?thesis by blast
qed

lemma mapping_project_Array:
  assumes "mapping_project env root (M_Array items) remaining = Inr (v, left)"
  shows "\<exists>vs. v = JArray vs \<and> list_all2 (\<lambda>m w. \<exists>st st'. mapping_project env root m st = Inr (w, st')) items vs"
proof -
  obtain vs st where vs: "v = JArray vs"
      "thread_map (\<lambda>item remaining. mapping_project env root item remaining) items st = Inr (vs, left)"
    using assms by (subst (asm) mapping_project.simps) (auto simp: res_simps)
  have "list_all2 (\<lambda>m w. \<exists>st st'. mapping_project env root m st = Inr (w, st')) items vs"
    by (rule thread_map_related [OF _ vs(2)]) blast
  with vs(1) show ?thesis by blast
qed

lemma mapping_project_leaf:
  "mapping_project env root (M_Pointer path) remaining = Inr (v, left) \<Longrightarrow> json_pointer env root path = Some v"
  "mapping_project env root (M_Constant c) remaining = Inr (v, left) \<Longrightarrow> v = c"
  "mapping_project env root (M_IfPresent path m1 m2) remaining =
     (if json_pointer env root path \<noteq> None then mapping_project env root m1 remaining else mapping_project env root m2 remaining)"
  by (simp_all add: mapping_project.simps [of _ _ "M_Pointer path"] mapping_project.simps [of _ _ "M_Constant c"]
      mapping_project.simps [of _ _ "M_IfPresent path m1 m2"]) (auto simp: res_simps dest: copy_bounded_value)

lemma map_of_list_all2:
  "list_all2 (\<lambda>e w. fst w = fst e \<and> P (snd e) (snd w)) es vs \<Longrightarrow>
     (case map_of es k of None \<Rightarrow> map_of vs k = None | Some m \<Rightarrow> \<exists>w. map_of vs k = Some w \<and> P m w)"
  by (induction rule: list_all2_induct) (auto split: option.splits)

lemma mapping_fits_accepts:
  assumes "rfc6901 (json_pointer env)" "accepts input root"
  shows "fits m input target \<Longrightarrow> shape_wf target \<Longrightarrow> mapping_project env root m remaining = Inr (v, left) \<Longrightarrow> accepts target v"
proof (induction "size m" arbitrary: m target remaining v left rule: less_induct)
  case less
  show ?case
  proof (cases m)
    case (M_Pointer path)
    with less.prems(1) obtain shape where shape: "select_shape input (tl (split_char 47 path)) = Some shape" "covers target shape"
      by (subst (asm) fits.simps) (auto split: option.splits)
    have "json_pointer env root path = Some v" by (rule mapping_project_leaf(1) [OF less.prems(3) [unfolded M_Pointer]])
    from covers_sound [OF shape(2) less.prems(2) pointer_typed [OF assms(1) this assms(2) shape(1)]] show ?thesis .
  next
    case (M_Constant c)
    with less.prems mapping_project_leaf(2) show ?thesis by (subst (asm) fits.simps) fastforce
  next
    case (M_Object es)
    obtain expected where target: "target = S_Object expected"
      and each: "\<forall>e\<in>set es. case map_of expected (fst e) of None \<Rightarrow> False | Some field \<Rightarrow> fits (snd e) input (snd field)"
      and required: "\<forall>e\<in>set expected. \<not> fst (snd e) \<or> fst e \<in> fst ` set es"
      using less.prems(1) by (subst (asm) fits.simps) (auto simp: M_Object list_all_iff split: FlowValueSchema.splits)
    obtain vs where vs: "v = JObject vs"
        "list_all2 (\<lambda>e w. fst w = fst e \<and> (\<exists>st st'. mapping_project env root (snd e) st = Inr (snd w, st'))) es vs"
      using mapping_project_Object [OF less.prems(3) [unfolded M_Object]] by blast
    have keys: "map fst vs = map fst es" using vs(2) by (induction rule: list_all2_induct) simp_all
    have "fst ` set vs \<subseteq> fst ` set expected"
    proof
      fix k assume "k \<in> fst ` set vs"
      then obtain e where "e \<in> set es" "fst e = k" using keys by (metis image_iff list.set_map)
      with bspec [OF each this(1)] show "k \<in> fst ` set expected" by (auto split: option.splits dest!: map_of_SomeD intro: rev_image_eqI)
    qed
    moreover have "case map_of vs k of None \<Rightarrow> \<not> req | Some w \<Rightarrow> accepts t w" if t: "(k, req, t) \<in> set expected" for k req t
    proof (cases "map_of es k")
      case None
      with map_of_list_all2 [OF vs(2), of k] have "map_of vs k = None" by simp
      moreover have "\<not> req" using bspec [OF required t] None by (auto simp: map_of_eq_None_iff)
      ultimately show ?thesis by simp
    next
      case (Some m')
      with map_of_list_all2 [OF vs(2), of k] obtain w st st' where
        w: "map_of vs k = Some w" "mapping_project env root m' st = Inr (w, st')" by auto
      have mem: "(k, m') \<in> set es" by (rule map_of_SomeD [OF Some])
      have "map_of expected k = Some (req, t)" using t less.prems(2) by (simp add: target)
      with bspec [OF each mem] have "fits m' input t" by simp
      moreover have "size m' < size m" using size_selection_less [OF mem] by (simp add: M_Object)
      moreover have "shape_wf t" using less.prems(2) t by (auto simp: target)
      ultimately have "accepts t w" using less.hyps w(2) by blast
      with w(1) show ?thesis by simp
    qed
    ultimately show ?thesis by (auto simp: target accepts_object vs(1))
  next
    case (M_Array items)
    obtain item lo hi where target: "target = S_Array item lo hi" "unat lo \<le> length items" "length items \<le> unat hi"
        "\<forall>m\<in>set items. fits m input item"
      using less.prems(1) by (subst (asm) fits.simps) (auto simp: M_Array list_all_iff split: FlowValueSchema.splits)
    obtain vs where vs: "v = JArray vs" "list_all2 (\<lambda>m w. \<exists>st st'. mapping_project env root m st = Inr (w, st')) items vs"
      using mapping_project_Array [OF less.prems(3) [unfolded M_Array]] by blast
    have wf: "shape_wf item" using less.prems(2) by (simp add: target(1))
    have "accepts item w" if w: "w \<in> set vs" for w
    proof -
      obtain m' st st' where m': "m' \<in> set items" "mapping_project env root m' st = Inr (w, st')"
        using list_all2_source [OF vs(2) w] by blast
      have "size m' < size m" using m'(1) by (simp add: M_Array less_Suc_eq_le size_list_estimation')
      from less.hyps [OF this _ wf m'(2)] target(4) m'(1) show ?thesis by blast
    qed
    with target(1-3) vs(1) list_all2_lengthD [OF vs(2)] show ?thesis by (simp add: accepts_array)
  next
    case (M_IfPresent path m1 m2)
    with less.prems(1) have sub: "fits m1 input target" "fits m2 input target" by (subst (asm) fits.simps, simp)+
    have small: "size m1 < size m" "size m2 < size m" by (simp_all add: M_IfPresent)
    from less.prems(3) show ?thesis
      using less.hyps [OF small(1) sub(1) less.prems(2)] less.hyps [OF small(2) sub(2) less.prems(2)]
      by (auto simp: M_IfPresent mapping_project_leaf(3) split: if_splits)
  qed
qed

section \<open>Provenance\<close>

lemma selected_field_source:
  assumes "rfc6901 (json_pointer env)"
  shows "mapping_project env root m remaining = Inr (v, left) \<Longrightarrow> selects_only check m path \<Longrightarrow> json_pointer env v path = Some w \<Longrightarrow>
    \<exists>source. check source \<and> json_pointer env root source = Some w"
proof (induction "size m" arbitrary: m path remaining v left rule: less_induct)
  case less
  note segment = rfc6901_segment [OF assms]
  show ?case
  proof (cases m)
    case (M_Pointer source)
    have v: "json_pointer env root source = Some v" by (rule mapping_project_leaf(1) [OF less.prems(1) [unfolded M_Pointer]])
    have "path = [] \<or> hd path = 47" using less.prems(3) rfc6901_simps(2) [OF assms] by (cases path) force+
    from rfc6901_compose [OF assms this, of root source] v less.prems(2,3) show ?thesis
      by (subst (asm) selects_only.simps) (auto simp: M_Pointer)
  next
    case (M_Constant c)
    with less.prems(2) show ?thesis by (subst (asm) selects_only.simps) simp
  next
    case (M_Object es)
    obtain key tail m' where sel: "projection_segment path = Some (key, tail)" "map_of es key = Some m'" "selects_only check m' tail"
      using less.prems(2) by (subst (asm) selects_only.simps) (auto simp: M_Object split: option.splits)
    obtain vs where vs: "v = JObject vs"
        "list_all2 (\<lambda>e w. fst w = fst e \<and> (\<exists>st st'. mapping_project env root (snd e) st = Inr (snd w, st'))) es vs"
      using mapping_project_Object [OF less.prems(1) [unfolded M_Object]] by blast
    from map_of_list_all2 [OF vs(2), of key] sel(2) obtain u st st' where
      u: "map_of vs key = Some u" "mapping_project env root m' st = Inr (u, st')" by auto
    have "json_pointer env u tail = Some w"
      using less.prems(3) segment [OF sel(1), of v] u(1) by (simp add: vs(1) json_member_def)
    moreover have "size m' < size m" using size_selection_less [OF map_of_SomeD [OF sel(2)]] by (simp add: M_Object)
    ultimately show ?thesis using less.hyps u(2) sel(3) by blast
  next
    case (M_Array items)
    obtain key tail index where sel: "projection_segment path = Some (key, tail)" "parse_unsigned (2 ^ 64) key = Some index"
        "index < length items" "selects_only check (items ! index) tail"
      using less.prems(2) by (subst (asm) selects_only.simps) (auto simp: M_Array split: option.splits if_splits)
    obtain vs where vs: "v = JArray vs" "list_all2 (\<lambda>m w. \<exists>st st'. mapping_project env root m st = Inr (w, st')) items vs"
      using mapping_project_Array [OF less.prems(1) [unfolded M_Array]] by blast
    obtain u where u: "json_member v key = Some u" "json_pointer env u tail = Some w"
      using less.prems(3) segment [OF sel(1), of v] by (auto simp: bind_eq_Some_conv)
    then obtain n where n: "digits key = Some n" "u = vs ! n" by (auto simp: vs(1) json_member_def split: option.splits if_splits)
    have "n = index" using digits_parse [OF n(1) sel(2)] by simp
    then obtain st st' where "mapping_project env root (items ! index) st = Inr (u, st')"
      using list_all2_nthD [OF vs(2) sel(3)] n(2) by blast
    moreover have "size (items ! index) < size m" using sel(3) by (simp add: M_Array less_Suc_eq_le size_list_estimation' [OF nth_mem])
    ultimately show ?thesis using less.hyps sel(4) u(2) by blast
  next
    case (M_IfPresent p m1 m2)
    with less.prems(2) have sub: "selects_only check m1 path" "selects_only check m2 path" by (subst (asm) selects_only.simps, simp)+
    have "size m1 < size m" "size m2 < size m" by (simp_all add: M_IfPresent)
    from less.hyps [OF this(1) _ sub(1) less.prems(3)] less.hyps [OF this(2) _ sub(2) less.prems(3)] less.prems(1) show ?thesis
      by (auto simp: M_IfPresent mapping_project_leaf(3) split: if_splits)
  qed
qed

section \<open>Sizes\<close>

text \<open>Compact JSON: brackets, a comma between entries, a colon after each key.\<close>

definition compact_writer :: "(Json \<Rightarrow> nat option) \<Rightarrow> bool" where
  "compact_writer len \<longleftrightarrow>
     (\<forall>vs ls. list_all2 (\<lambda>v l. len v = Some l) vs ls \<longrightarrow> len (JArray vs) = Some (2 + (length vs - 1) + sum_list ls)) \<and>
     (\<forall>es ls. list_all2 (\<lambda>e l. \<exists>k v. len (JString (fst e)) = Some k \<and> len (snd e) = Some v \<and> l = k + 1 + v) es ls \<longrightarrow>
        len (JObject es) = Some (2 + (length es - 1) + sum_list ls))"

lemma spend_Inr: "spend remaining bytes = Inr left \<longleftrightarrow> bytes + left = remaining"
  by (auto simp: spend_def)

lemma copy_bounded_size: "copy_bounded env v remaining = Inr (w, left) \<Longrightarrow> \<exists>n. value_len env w = Some n \<and> n + left \<le> remaining"
  by (auto simp: copy_bounded_def res_simps spend_Inr)

lemma thread_map_sizes:
  assumes "\<And>x st y st'. x \<in> set xs \<Longrightarrow> f x st = Inr (y, st') \<Longrightarrow> \<exists>l. P y l \<and> l + st' \<le> (st :: nat)" "thread_map f xs st = Inr (ys, st')"
  shows "length ys = length xs \<and> (\<exists>ls. list_all2 P ys ls \<and> sum_list ls + st' \<le> st)"
  using assms
proof (induction xs arbitrary: st ys)
  case (Cons x xs)
  from Cons.prems(2) obtain y mid zs where split: "f x st = Inr (y, mid)" "thread_map f xs mid = Inr (zs, st')" "ys = y # zs"
    by (auto simp: res_simps)
  have "\<exists>l. P y l \<and> l + mid \<le> st" by (rule Cons.prems(1) [OF _ split(1)]) simp
  then obtain l where l: "P y l" "l + mid \<le> st" by blast
  have "length zs = length xs \<and> (\<exists>ls. list_all2 P zs ls \<and> sum_list ls + st' \<le> mid)"
    by (rule Cons.IH [OF _ split(2)]) (rule Cons.prems(1), simp_all)
  then obtain ls where "length zs = length xs" "list_all2 P zs ls" "sum_list ls + st' \<le> mid" by blast
  with l split(3) show ?case by (auto intro!: exI [of _ "l # ls"])
qed simp

lemma projection_size:
  assumes "compact_writer (value_len env)"
  shows "mapping_project env root m remaining = Inr (v, left) \<Longrightarrow> \<exists>n. value_len env v = Some n \<and> n + left \<le> remaining"
proof (induction "size m" arbitrary: m remaining v left rule: less_induct)
  case less
  show ?case
  proof (cases m)
    case (M_Pointer path)
    with less.prems show ?thesis by (subst (asm) mapping_project.simps) (auto simp: res_simps dest: copy_bounded_size)
  next
    case (M_Constant c)
    with less.prems show ?thesis by (subst (asm) mapping_project.simps) (auto dest: copy_bounded_size)
  next
    case (M_Array items)
    obtain vs where vs: "v = JArray vs" "2 + (length items - 1) \<le> remaining"
        "thread_map (\<lambda>item remaining. mapping_project env root item remaining) items (remaining - (2 + (length items - 1))) = Inr (vs, left)"
      using less.prems by (subst (asm) mapping_project.simps) (auto simp: M_Array res_simps spend_def split: if_splits)
    have "length vs = length items \<and> (\<exists>ls. list_all2 (\<lambda>v l. value_len env v = Some l) vs ls \<and>
        sum_list ls + left \<le> remaining - (2 + (length items - 1)))"
    proof (rule thread_map_sizes [OF _ vs(3)], goal_cases)
      case (1 x st y st')
      have "size x < size m" using 1(1) by (simp add: M_Array less_Suc_eq_le size_list_estimation')
      from less.hyps [OF this 1(2)] show ?case .
    qed
    then obtain ls where ls: "length vs = length items" "list_all2 (\<lambda>v l. value_len env v = Some l) vs ls"
        "sum_list ls + left \<le> remaining - (2 + (length items - 1))" by blast
    from assms ls(2) have "value_len env v = Some (2 + (length vs - 1) + sum_list ls)" by (simp add: compact_writer_def vs(1))
    with ls(1,3) vs(2) show ?thesis by (simp add: le_diff_conv2)
  next
    case (M_Object es)
    obtain vs where vs: "v = JObject vs" "2 \<le> remaining" "thread_map (\<lambda>e remaining.
        and_then (ok_or invalid_mapping (value_len env (JString (fst e)))) (\<lambda>bytes.
        and_then (spend remaining (bytes + 2)) (\<lambda>remaining.
        map_ok (\<lambda>(v, remaining). ((fst e, v), remaining)) (mapping_project env root (snd e) remaining)))) es (remaining - 2) = Inr (vs, left)"
      using less.prems by (subst (asm) mapping_project.simps) (auto simp: M_Object res_simps spend_def split: if_splits)
    have "length vs = length es \<and> (\<exists>ls. list_all2 (\<lambda>w l. \<exists>k v. value_len env (JString (fst w)) = Some k \<and> value_len env (snd w) = Some v \<and> l = k + 2 + v) vs ls \<and>
        sum_list ls + left \<le> remaining - 2)"
    proof (rule thread_map_sizes [OF _ vs(3)], goal_cases)
      case (1 e st y st')
      then obtain k st1 u where e: "value_len env (JString (fst e)) = Some k" "k + 2 + st1 = st"
          "mapping_project env root (snd e) st1 = Inr (u, st')" "y = (fst e, u)"
        by (auto simp: res_simps spend_Inr)
      have "size (snd e) < size m" using size_selection_less [of "fst e" "snd e" es] 1(1) by (simp add: M_Object)
      from less.hyps [OF this e(3)] obtain n where "value_len env u = Some n" "n + st' \<le> st1" by blast
      with e show ?case by auto
    qed
    then obtain ls where ls: "length vs = length es" "sum_list ls + left \<le> remaining - 2"
        "list_all2 (\<lambda>w l. \<exists>k v. value_len env (JString (fst w)) = Some k \<and> value_len env (snd w) = Some v \<and> l = k + 2 + v) vs ls" by blast
    from ls(3) have less1: "list_all2 (\<lambda>w l. \<exists>k v. value_len env (JString (fst w)) = Some k \<and> value_len env (snd w) = Some v \<and> l = k + 1 + v)
        vs (map (\<lambda>l. l - 1) ls)" and sum: "sum_list (map (\<lambda>l. l - 1) ls) + length vs = sum_list ls"
      by (induction rule: list_all2_induct) auto
    from assms less1 have "value_len env v = Some (2 + (length vs - 1) + sum_list (map (\<lambda>l. l - 1) ls))"
      by (simp add: compact_writer_def vs(1))
    with sum ls(2) vs(2) show ?thesis by auto
  next
    case (M_IfPresent p m1 m2)
    have "size m1 < size m" "size m2 < size m" by (simp_all add: M_IfPresent)
    from less.hyps [OF this(1)] less.hyps [OF this(2)] less.prems show ?thesis
      by (auto simp: M_IfPresent mapping_project_leaf(3) split: if_splits)
  qed
qed

section \<open>Projections without a budget\<close>

text \<open>The value that a mapping selects from an input with the bytes it is charged for, \<open>None\<close> when a pointer
  of a selected branch is absent or a value cannot be written. An object is charged one byte more than
  its text has.\<close>

function projection :: "flow_json \<Rightarrow> Json \<Rightarrow> FlowValueMapping \<Rightarrow> (Json \<times> nat) option" where
  "projection env root m =
     (case m of
        M_Pointer path \<Rightarrow> Option.bind (json_pointer env root path) (\<lambda>v. map_option (Pair v) (value_len env v))
      | M_Constant v \<Rightarrow> map_option (Pair v) (value_len env v)
      | M_Array items \<Rightarrow>
          map_option (\<lambda>ps. (JArray (map fst ps), 2 + (length items - 1) + sum_list (map snd ps)))
            (those (map (\<lambda>item. projection env root item) items))
      | M_IfPresent path present otherwise \<Rightarrow>
          if json_pointer env root path \<noteq> None then projection env root present else projection env root otherwise
      | M_Object es \<Rightarrow>
          map_option (\<lambda>ps. (JObject (map fst ps), 2 + sum_list (map snd ps)))
            (those (map (\<lambda>e. Option.bind (value_len env (JString (fst e))) (\<lambda>bytes.
               map_option (\<lambda>(v, n). ((fst e, v), bytes + 2 + n)) (projection env root (snd e)))) es)))"
  by auto

termination
  by (relation "measure (\<lambda>(_, _, m). size m)")
    (auto dest: size_selection_less simp: less_Suc_eq_le size_list_estimation')

declare projection.simps [simp del]

definition charged :: "('a \<times> nat) option \<Rightarrow> nat \<Rightarrow> FactoryError + 'a \<times> nat" where
  "charged p remaining = (case p of
     Some (y, n) \<Rightarrow> if n \<le> remaining then Inr (y, remaining - n) else Inl invalid_mapping
   | None \<Rightarrow> Inl invalid_mapping)"

lemma thread_map_charged:
  assumes "\<And>x st. x \<in> set xs \<Longrightarrow> f x st = charged (g x) st"
  shows "thread_map f xs st = charged (map_option (\<lambda>ps. (map fst ps, sum_list (map snd ps))) (those (map g xs))) st"
  using assms
proof (induction xs arbitrary: st)
  case (Cons x xs)
  have x: "f x st = charged (g x) st" by (rule Cons.prems) simp
  have xs: "thread_map f xs st' = charged (map_option (\<lambda>ps. (map fst ps, sum_list (map snd ps))) (those (map g xs))) st'" for st'
    by (rule Cons.IH) (rule Cons.prems, simp)
  show ?case
  proof (cases "g x")
    case None
    then show ?thesis by (simp add: x charged_def)
  next
    case (Some p)
    then obtain y n where p: "g x = Some (y, n)" by (cases p) auto
    show ?thesis by (cases "those (map g xs)") (auto simp: x xs p charged_def)
  qed
qed (simp add: charged_def)

lemma charged_copy: "copy_bounded env v remaining = charged (map_option (Pair v) (value_len env v)) remaining"
  by (auto simp: copy_bounded_def charged_def spend_def split: option.splits)

lemma charged_spend:
  "and_then (spend remaining k) (\<lambda>st. map_ok (\<lambda>(y, st). (h y, st)) (charged p st)) =
     charged (map_option (\<lambda>(y, n). (h y, k + n)) p) remaining"
  by (auto simp: charged_def spend_def split: option.splits)

text \<open>The budget changes nothing but the failure when it is exceeded.\<close>

lemma mapping_project_charged: "mapping_project env root m remaining = charged (projection env root m) remaining"
proof (induction "size m" arbitrary: m remaining rule: less_induct)
  case less
  show ?case
  proof (cases m)
    case (M_Pointer path)
    then show ?thesis
      by (cases "json_pointer env root path")
        (simp_all add: mapping_project.simps [of _ _ "M_Pointer path"] projection.simps [of _ _ "M_Pointer path"] charged_copy, simp add: charged_def)
  next
    case (M_Constant v)
    then show ?thesis by (simp add: mapping_project.simps [of _ _ "M_Constant v"] projection.simps [of _ _ "M_Constant v"] charged_copy)
  next
    case (M_IfPresent path present otherwise)
    then have "size present < size m" "size otherwise < size m" by simp_all
    with less M_IfPresent show ?thesis by (simp add: mapping_project.simps [of _ _ "M_IfPresent path present otherwise"] projection.simps [of _ _ "M_IfPresent path present otherwise"])
  next
    case (M_Array items)
    have "thread_map (\<lambda>item remaining. mapping_project env root item remaining) items st =
        charged (map_option (\<lambda>ps. (map fst ps, sum_list (map snd ps))) (those (map (\<lambda>item. projection env root item) items))) st" for st
      by (rule thread_map_charged, rule less) (simp add: M_Array less_Suc_eq_le size_list_estimation')
    then show ?thesis
      by (simp add: M_Array mapping_project.simps [of _ _ "M_Array items"] projection.simps [of _ _ "M_Array items"] charged_spend
          option.map_comp comp_def)
  next
    case (M_Object es)
    have "thread_map (\<lambda>e remaining.
        and_then (ok_or invalid_mapping (value_len env (JString (fst e)))) (\<lambda>bytes.
        and_then (spend remaining (bytes + 2)) (\<lambda>remaining.
        map_ok (\<lambda>(v, remaining). ((fst e, v), remaining)) (mapping_project env root (snd e) remaining)))) es st =
      charged (map_option (\<lambda>ps. (map fst ps, sum_list (map snd ps))) (those (map (\<lambda>e. Option.bind (value_len env (JString (fst e))) (\<lambda>bytes.
        map_option (\<lambda>(v, n). ((fst e, v), bytes + 2 + n)) (projection env root (snd e)))) es))) st" for st
    proof (rule thread_map_charged)
      fix e st assume e: "e \<in> set es"
      then have "size (snd e) < size m" using size_selection_less [of "fst e" "snd e" es] by (simp add: M_Object)
      note less [OF this]
      then show "and_then (ok_or invalid_mapping (value_len env (JString (fst e)))) (\<lambda>bytes.
          and_then (spend st (bytes + 2)) (\<lambda>remaining.
          map_ok (\<lambda>(v, remaining). ((fst e, v), remaining)) (mapping_project env root (snd e) remaining))) =
        charged (Option.bind (value_len env (JString (fst e))) (\<lambda>bytes.
          map_option (\<lambda>(v, n). ((fst e, v), bytes + 2 + n)) (projection env root (snd e)))) st"
        by (cases "value_len env (JString (fst e))") (simp_all add: charged_spend, simp add: charged_def)
    qed
    then show ?thesis
      by (simp add: M_Object mapping_project.simps [of _ _ "M_Object es"] projection.simps [of _ _ "M_Object es"] charged_spend
          option.map_comp comp_def)
  qed
qed

section \<open>Properties\<close>

text \<open>
  (C23) A mapping that fits is well typed, and its projection is exact. On a value of the input shape it
  fails exactly when a pointer of a selected branch is absent, a value cannot be written, or the charged
  size exceeds 1 MiB. Otherwise the result is the selected value, which has the target shape and is written
  in at most the charged size, and it becomes a payload unless the payload with its schema reference
  cannot be written in 1 MiB. This needs a pointer lookup of RFC 6901 and a compact writer.
\<close>

theorem mapping_type_sound:
  assumes "rfc6901 (json_pointer env)" "compact_writer (value_len env)"
    and "fits m input (ds_shape schema)" "shape_wf (ds_shape schema)" "accepts input root"
  shows "case projection env root m of
      None \<Rightarrow> project_raw env m root = Inl invalid_mapping \<and> project_value env m root schema = Inl invalid_mapping
    | Some (v, n) \<Rightarrow>
        accepts (ds_shape schema) v \<and> (\<exists>k. value_len env v = Some k \<and> k \<le> n) \<and>
        (if n \<le> MAX_FLOW_DATA_BYTES
         then project_raw env m root = Inr v \<and>
           (project_value env m root schema = Inr \<lparr>fp_schema = ds_reference schema, fp_value = v\<rparr> \<longleftrightarrow>
              (\<exists>bytes. payload_bytes env \<lparr>fp_schema = ds_reference schema, fp_value = v\<rparr> = Some bytes \<and>
                 length bytes \<le> MAX_FLOW_DATA_BYTES))
         else project_raw env m root = Inl invalid_mapping \<and> project_value env m root schema = Inl invalid_mapping)"
proof (cases "projection env root m")
  case None
  then show ?thesis by (simp add: project_value_def project_raw_def mapping_project_charged charged_def)
next
  case (Some p)
  then obtain v n where p: "projection env root m = Some (v, n)" by (cases p) auto
  then have project: "mapping_project env root m n = Inr (v, 0)" by (simp add: mapping_project_charged charged_def)
  have accepts: "accepts (ds_shape schema) v" by (rule mapping_fits_accepts [OF assms(1,5,3,4) project])
  moreover have "\<exists>k. value_len env v = Some k \<and> k \<le> n"
    using projection_size [OF assms(2) project] by fastforce
  moreover have "project_raw env m root = (if n \<le> MAX_FLOW_DATA_BYTES then Inr v else Inl invalid_mapping)"
    by (simp add: project_raw_def mapping_project_charged p charged_def)
  ultimately show ?thesis 
    by (cases "payload_bytes env \<lparr>fp_schema = ds_reference schema, fp_value = v\<rparr>")
      (auto simp: p project_value_def payload_new_def Let_def)
qed

text \<open>Pointer lookup and the length of written JSON, for the witnesses.\<close>

function pointer_lookup :: "Json \<Rightarrow> rstr \<Rightarrow> Json option" where
  "pointer_lookup v [] = Some v"
| "pointer_lookup v (c # rest) = (if c \<noteq> 47 then None
     else Option.bind (json_member v (unescape (takeWhile (\<lambda>c. c \<noteq> 47) rest))) (\<lambda>w. pointer_lookup w (dropWhile (\<lambda>c. c \<noteq> 47) rest)))"
  by pat_completeness auto

termination
  by (relation "measure (length \<circ> snd)") (auto simp: less_Suc_eq_le length_dropWhile_le)

fun written_len :: "Json \<Rightarrow> nat" where
  "written_len JNull = 4"
| "written_len (JBool b) = (if b then 4 else 5)"
| "written_len (JNumber t) = length t"
| "written_len (JString s) = length s + 2"
| "written_len (JArray vs) = 2 + (length vs - 1) + sum_list (map written_len vs)"
| "written_len (JObject es) = 2 + (length es - 1) + sum_list (map (\<lambda>e. length (fst e) + 3 + written_len (snd e)) es)"

lemma rfc6901_pointer_lookup: "rfc6901 pointer_lookup"
  by (simp add: rfc6901_def)

lemma compact_writer_written_len: "compact_writer (\<lambda>v. Some (written_len v))"
proof -
  have "sum_list (map written_len vs) = sum_list ls" if "list_all2 (\<lambda>v l. written_len v = l) vs ls" for vs ls
    using that by (induction rule: list_all2_induct) simp_all
  moreover have "sum_list (map (\<lambda>e. length (fst e) + 3 + written_len (snd e)) es) = sum_list ls"
    if "list_all2 (\<lambda>e l. l = length (fst e) + 2 + 1 + written_len (snd e)) es ls" for es :: "(rstr \<times> Json) list" and ls
    using that by (induction rule: list_all2_induct) simp_all
  ultimately show ?thesis by (simp add: compact_writer_def)
qed

definition sample_mapping_json :: flow_json where
  "sample_mapping_json = sample_json\<lparr>value_len := \<lambda>v. Some (written_len v), json_pointer := pointer_lookup\<rparr>"

definition sample_mapping :: FlowValueMapping where
  "sample_mapping = M_Object [(lit ''first'', M_Pointer (lit ''/items/0'')), (lit ''kind'', M_Constant (JString (lit ''x'')))]"

definition sample_input :: FlowValueSchema where
  "sample_input = S_Object [(lit ''items'', True, S_Array (S_Integer 0 9) 1 4)]"

definition sample_root :: Json where
  "sample_root = JObject [(lit ''items'', JArray [JNumber (lit ''7'')])]"

definition sample_target :: FlowDataSchema where
  "sample_target = \<lparr>ds_reference = (lit ''out'', lit ''v1'', []),
     ds_shape = S_Object [(lit ''first'', True, S_Integer 0 100), (lit ''kind'', True, S_Enum [JString (lit ''x'')])]\<rparr>"

lemma sample_mapping_laws: "rfc6901 (json_pointer sample_mapping_json)" "compact_writer (value_len sample_mapping_json)"
  using rfc6901_pointer_lookup compact_writer_written_len by (simp_all add: sample_mapping_json_def)

lemma sample_mapping_result:
  "project_raw sample_mapping_json sample_mapping sample_root =
     Inr (JObject [(lit ''first'', JNumber (lit ''7'')), (lit ''kind'', JString (lit ''x''))])"
  by code_simp

theorem mapping_type_sound_witness:
  "accepts (ds_shape sample_target) (JObject [(lit ''first'', JNumber (lit ''7'')), (lit ''kind'', JString (lit ''x''))])"
proof -
  have "fits sample_mapping sample_input (ds_shape sample_target)" "shape_wf (ds_shape sample_target)" "accepts sample_input sample_root"
    by code_simp+
  from mapping_type_sound [OF sample_mapping_laws this] sample_mapping_result show ?thesis
    by (auto split: option.splits prod.splits if_splits)
qed

text \<open>
  (C25) The static check of a projected field is sound: if every source pointer of the field passes, then
  the value that the field has after the projection is the value of the input at a pointer that passes.
\<close>

theorem projected_field_provenance:
  assumes "rfc6901 (json_pointer env)" "selects_only check m path" "project_raw env m root = Inr v" "json_pointer env v path = Some w"
  shows "\<exists>source. check source \<and> json_pointer env root source = Some w"
  using assms selected_field_source by (auto simp: project_raw_def res_simps)

theorem projected_field_provenance_witness:
  "\<exists>source. source = lit ''/items/0'' \<and> json_pointer sample_mapping_json sample_root source = Some (JNumber (lit ''7''))"
proof -
  have "selects_only (\<lambda>source. source = lit ''/items/0'') sample_mapping (lit ''/first'')"
    "json_pointer sample_mapping_json (JObject [(lit ''first'', JNumber (lit ''7'')), (lit ''kind'', JString (lit ''x''))]) (lit ''/first'') =
       Some (JNumber (lit ''7''))"
    by code_simp+
  from projected_field_provenance [OF sample_mapping_laws(1) this(1) sample_mapping_result this(2)] show ?thesis .
qed

end
