(* ===== verification/Flow_Gate.thy ===== *)
theory Flow_Gate
  imports Flow_Definition Flow_Mapping_Correct
begin

text \<open>
  Declarative gates of Flow nodes, \<^verbatim>\<open>server/core/octacity-server-factory/src/flow/predicate.rs\<close> and
  \<^verbatim>\<open>flow/gate.rs\<close>: predicates over a projected value, their validation and their evaluation under a shared budget
  of steps, and programs of ordered rules with a precondition, a fallback and output mappings. The
  encoded sizes and the parser of bound programs are parameters. Evaluation returns the rest of the
  budget also when it fails, as the mutable counter of the code does.
\<close>

section \<open>Repository paths\<close>

definition MAX_FACTORY_REPOSITORY_PATH_BYTES :: nat where "MAX_FACTORY_REPOSITORY_PATH_BYTES = 1024"

type_synonym FactoryRepositoryPath = rstr

definition repository_path_new :: "rstr \<Rightarrow> FactoryError + FactoryRepositoryPath" where
  "repository_path_new v =
     (if v \<noteq> [] \<and> str_len v \<le> MAX_FACTORY_REPOSITORY_PATH_BYTES \<and> \<not> starts_with (lit ''/'') v \<and> last v \<noteq> 47 \<and>
         92 \<notin> set v \<and> 58 \<notin> set v \<and> \<not> list_ex is_control v \<and>
         list_all (\<lambda>s. s \<noteq> [] \<and> s \<noteq> lit ''.'' \<and> s \<noteq> lit ''..'') (split_char 47 v)
      then Inr v else Inl (FE_InvalidTaskContract (lit ''repository path'')))"

definition path_within :: "FactoryRepositoryPath \<Rightarrow> FactoryRepositoryPath \<Rightarrow> bool" where
  "path_within path prefix \<longleftrightarrow> path = prefix \<or> starts_with prefix path \<and> starts_with (lit ''/'') (drop (length prefix) path)"

section \<open>Predicates\<close>

definition MAX_RULES :: nat where "MAX_RULES = 64"
definition MAX_DEPTH :: nat where "MAX_DEPTH = 16"
definition MAX_PREDICATES :: nat where "MAX_PREDICATES = 128"
definition MAX_EVALUATION_STEPS :: nat where "MAX_EVALUATION_STEPS = 16384"
definition MAX_FLOW_GATE_PARAMETER_BYTES :: nat where "MAX_FLOW_GATE_PARAMETER_BYTES = 8 * 1024"

datatype FlowPredicateFailure = MissingInput | InvalidType | EvaluationBoundExceeded

datatype FlowQuantifier = Q_Any | Q_Every

datatype FlowComparison = Cmp_Equal | Cmp_ExactValue | Cmp_RepositoryPathWithin | Cmp_RepositoryPathWithinAny | Cmp_Greater | Cmp_LessOrEqual

datatype FlowOperand = O_ObservationTime | O_Path rstr | O_Item rstr | O_Literal Json

datatype FlowPredicate =
    P_Absent rstr
  | P_Compare FlowOperand FlowComparison FlowOperand
  | P_All "FlowPredicate list"
  | P_Any "FlowPredicate list"
  | P_ForEach FlowOperand FlowQuantifier FlowPredicate
  | P_Not FlowPredicate
  | P_Exists FlowOperand

definition operand_validate :: "FlowOperand \<Rightarrow> bool \<Rightarrow> FactoryError + unit" where
  "operand_validate operand in_item = (case operand of
     O_ObservationTime \<Rightarrow> Inr ()
   | O_Path path \<Rightarrow> validate_pointer path
   | O_Item path \<Rightarrow> if \<not> in_item then Inl invalid_gate else validate_pointer path
   | O_Literal v \<Rightarrow> ensure (case v of JObject _ \<Rightarrow> False | JArray _ \<Rightarrow> False | JNumber _ \<Rightarrow> json_i64 v \<noteq> None | _ \<Rightarrow> True) invalid_gate)"

function predicate_validate :: "FlowPredicate \<Rightarrow> nat \<Rightarrow> nat \<Rightarrow> bool \<Rightarrow> FactoryError + nat" where
  "predicate_validate p depth count in_item =
     (let count = count + 1 in
      if MAX_DEPTH < depth \<or> MAX_PREDICATES < count then Inl invalid_gate
      else case p of
        P_All ps \<Rightarrow>
          if ps = [] then Inl invalid_gate else thread_each (\<lambda>p count. predicate_validate p (depth + 1) count in_item) ps count
      | P_Any ps \<Rightarrow>
          if ps = [] then Inl invalid_gate else thread_each (\<lambda>p count. predicate_validate p (depth + 1) count in_item) ps count
      | P_ForEach collection _ p \<Rightarrow>
          and_then (operand_validate collection in_item) (\<lambda>_. predicate_validate p (depth + 1) count True)
      | P_Not p \<Rightarrow> predicate_validate p (depth + 1) count in_item
      | P_Exists operand \<Rightarrow> map_ok (\<lambda>_. count) (operand_validate operand in_item)
      | P_Absent path \<Rightarrow> map_ok (\<lambda>_. count) (validate_pointer path)
      | P_Compare left _ right \<Rightarrow>
          and_then (operand_validate left in_item) (\<lambda>_. map_ok (\<lambda>_. count) (operand_validate right in_item)))"
  by auto

termination
  by (relation "measure (\<lambda>(_, depth, _, _). Suc MAX_DEPTH - depth)") auto

declare predicate_validate.simps [simp del]

definition validate_predicates :: "FlowPredicate list \<Rightarrow> FactoryError + unit" where
  "validate_predicates ps = map_ok (\<lambda>_. ()) (thread_each (\<lambda>p count. predicate_validate p 0 count False) ps 0)"

definition operand_resolve :: "flow_json \<Rightarrow> Json \<Rightarrow> Json option \<Rightarrow> Json option \<Rightarrow> FlowOperand \<Rightarrow> FlowPredicateFailure + Json" where
  "operand_resolve env root item at operand = ok_or MissingInput (case operand of
     O_ObservationTime \<Rightarrow> at
   | O_Path path \<Rightarrow> json_pointer env root path
   | O_Item path \<Rightarrow> Option.bind item (\<lambda>item. json_pointer env item path)
   | O_Literal v \<Rightarrow> Some v)"

type_synonym 'a counted = "nat \<Rightarrow> (FlowPredicateFailure + 'a) \<times> nat"

primrec aggregate_loop :: "FlowQuantifier \<Rightarrow> ('a \<Rightarrow> bool counted) \<Rightarrow> 'a list \<Rightarrow> bool \<Rightarrow> bool \<Rightarrow> bool counted" where
  "aggregate_loop q f [] seen result remaining = (if seen then Inr result else Inl InvalidType, remaining)"
| "aggregate_loop q f (x # xs) seen result remaining =
     (case f x remaining of
        (Inl e, remaining) \<Rightarrow> (Inl e, remaining)
      | (Inr v, remaining) \<Rightarrow>
          aggregate_loop q f xs True (case q of Q_Any \<Rightarrow> result \<or> v | Q_Every \<Rightarrow> result \<and> v) remaining)"

definition aggregate :: "FlowQuantifier \<Rightarrow> ('a \<Rightarrow> bool counted) \<Rightarrow> 'a list \<Rightarrow> bool counted" where
  "aggregate q f xs remaining = aggregate_loop q f xs False (q = Q_Every) remaining"

lemma aggregate_loop_cong:
  "(\<And>x st. x \<in> set xs \<Longrightarrow> f x st = g x st) \<Longrightarrow> aggregate_loop q f xs seen result r = aggregate_loop q g xs seen result r"
  by (induction xs arbitrary: seen result r) (auto split: prod.splits sum.splits)

lemma aggregate_cong [fundef_cong]:
  "q = q' \<Longrightarrow> xs = ys \<Longrightarrow> (\<And>x st. x \<in> set ys \<Longrightarrow> f x st = g x st) \<Longrightarrow> r = r' \<Longrightarrow> aggregate q f xs r = aggregate q' g ys r'"
  unfolding aggregate_def by (hypsubst, rule aggregate_loop_cong, blast)

definition json_path :: "Json \<Rightarrow> FlowPredicateFailure + FactoryRepositoryPath" where
  "json_path v = (case v of JString s \<Rightarrow> map_err (\<lambda>_. InvalidType) (repository_path_new s) | _ \<Rightarrow> Inl InvalidType)"

primrec roots_loop :: "FactoryRepositoryPath \<Rightarrow> Json list \<Rightarrow> bool \<Rightarrow> bool counted" where
  "roots_loop path [] matched remaining = (Inr matched, remaining)"
| "roots_loop path (v # vs) matched remaining =
     (if remaining = 0 then (Inl EvaluationBoundExceeded, 0)
      else case json_path v of
        Inl e \<Rightarrow> (Inl e, remaining - 1)
      | Inr prefix \<Rightarrow> roots_loop path vs (matched \<or> path_within path prefix) (remaining - 1))"

definition scalars_equal :: "Json \<Rightarrow> Json \<Rightarrow> FlowPredicateFailure + bool" where
  "scalars_equal a b =
     (if (case (a, b) of (JNull, JNull) \<Rightarrow> True | (JBool _, JBool _) \<Rightarrow> True | (JString _, JString _) \<Rightarrow> True | _ \<Rightarrow> False) \<or>
         json_i64 a \<noteq> None \<and> json_i64 b \<noteq> None
      then Inr (a = b) else Inl InvalidType)"

definition compare :: "FlowComparison \<Rightarrow> Json \<Rightarrow> Json \<Rightarrow> bool counted" where
  "compare comparison a b remaining = (case comparison of
     Cmp_ExactValue \<Rightarrow> (Inr (a = b), remaining)
   | Cmp_Equal \<Rightarrow> (scalars_equal a b, remaining)
   | Cmp_RepositoryPathWithin \<Rightarrow>
       (and_then (json_path a) (\<lambda>path. and_then (json_path b) (\<lambda>prefix. Inr (path_within path prefix))), remaining)
   | Cmp_RepositoryPathWithinAny \<Rightarrow>
       (case json_path a of
          Inl e \<Rightarrow> (Inl e, remaining)
        | Inr path \<Rightarrow> (case b of JArray vs \<Rightarrow> roots_loop path vs False remaining | _ \<Rightarrow> (Inl InvalidType, remaining)))
   | Cmp_Greater \<Rightarrow>
       (and_then (ok_or InvalidType (json_i64 a)) (\<lambda>m. and_then (ok_or InvalidType (json_i64 b)) (\<lambda>n. Inr (n < m))), remaining)
   | Cmp_LessOrEqual \<Rightarrow>
       (and_then (ok_or InvalidType (json_i64 a)) (\<lambda>m. and_then (ok_or InvalidType (json_i64 b)) (\<lambda>n. Inr (m \<le> n))), remaining))"

function evaluate :: "flow_json \<Rightarrow> Json \<Rightarrow> Json option \<Rightarrow> Json option \<Rightarrow> FlowPredicate \<Rightarrow> bool counted" where
  "evaluate env root item at p remaining =
     (if remaining = 0 then (Inl EvaluationBoundExceeded, 0)
      else let remaining = remaining - 1 in
        case p of
          P_All ps \<Rightarrow> aggregate Q_Every (\<lambda>p r. evaluate env root item at p r) ps remaining
        | P_Any ps \<Rightarrow> aggregate Q_Any (\<lambda>p r. evaluate env root item at p r) ps remaining
        | P_ForEach collection q p \<Rightarrow>
            (case operand_resolve env root item at collection of
               Inl e \<Rightarrow> (Inl e, remaining)
             | Inr v \<Rightarrow>
                 (case v of
                    JArray vs \<Rightarrow> aggregate q (\<lambda>v r. evaluate env root (Some v) at p r) vs remaining
                  | _ \<Rightarrow> (Inl InvalidType, remaining)))
        | P_Not p \<Rightarrow> map_prod (map_ok Not) id (evaluate env root item at p remaining)
        | P_Exists operand \<Rightarrow> (map_ok (\<lambda>_. True) (operand_resolve env root item at operand), remaining)
        | P_Absent path \<Rightarrow> (Inr (json_pointer env root path = None), remaining)
        | P_Compare left comparison right \<Rightarrow>
            (case and_then (operand_resolve env root item at left) (\<lambda>a.
                map_ok (Pair a) (operand_resolve env root item at right)) of
               Inl e \<Rightarrow> (Inl e, remaining)
             | Inr (a, b) \<Rightarrow> compare comparison a b remaining))"
  by auto

termination
  by (relation "measure (\<lambda>(_, _, _, _, p, _). size p)") (auto simp: less_Suc_eq_le size_list_estimation')

declare evaluate.simps [simp del]

section \<open>Programs\<close>

record FlowGateRule =
  gr_when :: FlowPredicate
  gr_outcome :: FactoryKey

record FlowGateProgram =
  gp_precondition :: "FlowPredicate option"
  gp_precondition_failure_output :: "FlowValueMapping option"
  gp_rules :: "FlowGateRule list"
  gp_fallback :: FactoryKey
  gp_outputs :: "(FactoryKey, FlowValueMapping) btree"
  gp_default_output :: "FlowValueMapping option"

definition validate_bytes :: "(FlowGateProgram \<Rightarrow> nat option) \<Rightarrow> FlowGateProgram \<Rightarrow> FactoryError + unit" where
  "validate_bytes program_len program =
     (if gp_precondition program = None \<and> gp_precondition_failure_output program \<noteq> None then Inl invalid_gate
      else and_then (validate_predicates ((case gp_precondition program of None \<Rightarrow> [] | Some p \<Rightarrow> [p]) @ map gr_when (gp_rules program))) (\<lambda>_.
        and_then (ok_or invalid_gate (program_len program)) (\<lambda>bytes.
        ensure (bytes \<le> MAX_FLOW_GATE_PARAMETER_BYTES) invalid_gate)))"

definition program_new :: "(FlowGateProgram \<Rightarrow> nat option) \<Rightarrow> FlowGateRule list \<Rightarrow> FactoryKey \<Rightarrow> FactoryError + FlowGateProgram" where
  "program_new program_len rules fallback =
     (if MAX_RULES < length rules then Inl invalid_gate
      else let program = \<lparr>gp_precondition = None, gp_precondition_failure_output = None, gp_rules = rules, gp_fallback = fallback,
          gp_outputs = [], gp_default_output = None\<rparr> in
        map_ok (\<lambda>_. program) (validate_bytes program_len program))"

definition with_precondition :: "(FlowGateProgram \<Rightarrow> nat option) \<Rightarrow> FlowPredicate \<Rightarrow> FlowGateProgram \<Rightarrow> FactoryError + FlowGateProgram" where
  "with_precondition program_len p program =
     (let program = program\<lparr>gp_precondition := Some p\<rparr> in map_ok (\<lambda>_. program) (validate_bytes program_len program))"

definition with_default_output_mapping ::
  "(FlowGateProgram \<Rightarrow> nat option) \<Rightarrow> FlowValueMapping \<Rightarrow> FlowGateProgram \<Rightarrow> FactoryError + FlowGateProgram"
where
  "with_default_output_mapping program_len m program =
     (let program = program\<lparr>gp_default_output := Some m\<rparr> in map_ok (\<lambda>_. program) (validate_bytes program_len program))"

definition with_output_mapping ::
  "(FlowGateProgram \<Rightarrow> nat option) \<Rightarrow> FactoryKey \<Rightarrow> FlowValueMapping \<Rightarrow> FlowGateProgram \<Rightarrow> FactoryError + FlowGateProgram"
where
  "with_output_mapping program_len outcome m program =
     (if outcome \<noteq> gp_fallback program \<and> \<not> list_ex (\<lambda>rule. gr_outcome rule = outcome) (gp_rules program) then Inl invalid_gate
      else let program = program\<lparr>gp_outputs := bt_insert outcome m (gp_outputs program)\<rparr> in
        map_ok (\<lambda>_. program) (validate_bytes program_len program))"

text \<open>The wire form has the same members; they are validated one after the other.\<close>

definition program_from_wire :: "(FlowGateProgram \<Rightarrow> nat option) \<Rightarrow> FlowGateProgram \<Rightarrow> FactoryError + FlowGateProgram" where
  "program_from_wire program_len wire =
     and_then (program_new program_len (gp_rules wire) (gp_fallback wire)) (\<lambda>program.
     and_then (case gp_precondition wire of None \<Rightarrow> Inr program | Some p \<Rightarrow> with_precondition program_len p program) (\<lambda>program.
     let program = program\<lparr>gp_precondition_failure_output := gp_precondition_failure_output wire\<rparr> in
     and_then (validate_bytes program_len program) (\<lambda>_.
     and_then (case gp_default_output wire of None \<Rightarrow> Inr program | Some m \<Rightarrow> with_default_output_mapping program_len m program) (\<lambda>program.
     thread_each (\<lambda>(outcome, m). with_output_mapping program_len outcome m) (gp_outputs wire) program))))"

definition has_precondition :: "FlowGateProgram \<Rightarrow> bool" where
  "has_precondition program \<longleftrightarrow> gp_precondition program \<noteq> None \<or> gp_precondition_failure_output program \<noteq> None"

definition has_complete_output_mapping :: "FlowGateProgram \<Rightarrow> bool" where
  "has_complete_output_mapping program \<longleftrightarrow> gp_default_output program \<noteq> None \<or>
     list_all (\<lambda>outcome. bt_get (gp_outputs program) outcome \<noteq> None) (map gr_outcome (gp_rules program) @ [gp_fallback program])"

definition validate_outcomes :: "FlowGateProgram \<Rightarrow> 'b FlowNodeDefinition \<Rightarrow> FactoryError + unit" where
  "validate_outcomes program node =
     (if node_outcome node (gp_fallback program) = None \<or> list_ex (\<lambda>rule. node_outcome node (gr_outcome rule) = None) (gp_rules program)
      then Inl invalid_gate else Inr ())"

definition outcome_selects_only :: "(rstr \<Rightarrow> bool) \<Rightarrow> FlowGateProgram \<Rightarrow> FactoryKey \<Rightarrow> rstr \<Rightarrow> bool" where
  "outcome_selects_only check program outcome path =
     (let output = (case bt_get (gp_outputs program) outcome of None \<Rightarrow> gp_default_output program | Some m \<Rightarrow> Some m);
          failed = (if outcome = gp_fallback program then gp_precondition_failure_output program else None)
      in (case output of None \<Rightarrow> False | Some m \<Rightarrow> selects_only check m path) \<and>
         (case failed of None \<Rightarrow> True | Some m \<Rightarrow> selects_only check m path))"

definition ok :: "'e + 'a \<Rightarrow> 'a option" where
  "ok r = (case r of Inl _ \<Rightarrow> None | Inr x \<Rightarrow> Some x)"

primrec select_rules :: "flow_json \<Rightarrow> Json \<Rightarrow> Json option \<Rightarrow> FactoryKey \<Rightarrow> FlowGateRule list \<Rightarrow> nat \<Rightarrow> FactoryError + FactoryKey \<times> bool" where
  "select_rules env input at fallback [] remaining = Inr (fallback, True)"
| "select_rules env input at fallback (rule # rules) remaining =
     (case evaluate env input None at (gr_when rule) remaining of (matched, remaining) \<Rightarrow>
        if remaining = 0 then Inl invalid_gate
        else if ok matched = Some True then Inr (gr_outcome rule, True)
        else select_rules env input at fallback rules remaining)"

definition select_with_time :: "flow_json \<Rightarrow> FlowGateProgram \<Rightarrow> Json \<Rightarrow> Json option \<Rightarrow> FactoryError + FactoryKey \<times> bool" where
  "select_with_time env program input at =
     (case gp_precondition program of
        None \<Rightarrow> select_rules env input at (gp_fallback program) (gp_rules program) MAX_EVALUATION_STEPS
      | Some p \<Rightarrow>
          (case evaluate env input None at p MAX_EVALUATION_STEPS of (matched, remaining) \<Rightarrow>
             if remaining = 0 then Inl invalid_gate
             else if ok matched \<noteq> Some True then Inr (gp_fallback program, False)
             else select_rules env input at (gp_fallback program) (gp_rules program) remaining))"

definition int_text :: "int \<Rightarrow> rstr" where
  "int_text n = (if n < 0 then 45 # nat_text (nat (- n)) else nat_text (nat n))"

definition program_select :: "flow_json \<Rightarrow> FlowGateProgram \<Rightarrow> FlowPayload \<Rightarrow> FactoryError + FactoryKey" where
  "program_select env program input = map_ok fst (select_with_time env program (fp_value input) None)"

definition program_select_at :: "flow_json \<Rightarrow> FlowGateProgram \<Rightarrow> FlowPayload \<Rightarrow> int \<Rightarrow> FactoryError + FactoryKey" where
  "program_select_at env program input at = map_ok fst (select_with_time env program (fp_value input) (Some (JNumber (int_text at))))"

section \<open>Bindings\<close>

record FlowGateBinding =
  gb_policy :: ImmutableReference
  gb_parameters :: Json

definition gate_binding_new :: "flow_json \<Rightarrow> ImmutableReference \<Rightarrow> Json \<Rightarrow> FactoryError + FlowGateBinding" where
  "gate_binding_new env policy parameters =
     (if \<not> is_object parameters \<or> (case value_len env parameters of None \<Rightarrow> True | Some bytes \<Rightarrow> MAX_FLOW_GATE_PARAMETER_BYTES < bytes)
      then Inl (FE_InvalidConfiguration (lit ''Flow gate parameters''))
      else Inr \<lparr>gb_policy = policy, gb_parameters = parameters\<rparr>)"

definition gate_policy :: rstr where "gate_policy = lit ''factory.declarative-gate''"

definition policy_reference :: "flow_json \<Rightarrow> FactoryError + ImmutableReference" where
  "policy_reference env =
     and_then (factory_key_new gate_policy) (\<lambda>identity.
     and_then (factory_key_new (lit ''v1'')) (\<lambda>version.
     Inr (identity, version, factory_digest_sha256 (data_sha256 env) (lit ''octacity.factory.declarative-gate-contract.v1'')
       [as_bytes (lit ''ordered-rules;typed-scalars;missing-unknown;bounded-quantifiers;explicit-fallback;owner-observation-time;default-output-with-exact-overrides;portable-repository-path-containment;bounded-repository-root-list;fail-closed-shared-precondition;16384-steps'')])))"

text \<open>How bindings and programs are written: the binding of a node, the written form of a program, its
  parser (before validation) and its encoded size.\<close>

record 'b gate_codec =
  binding_of :: "'b \<Rightarrow> FlowGateBinding"
  program_value :: "FlowGateProgram \<Rightarrow> Json option"
  program_wire :: "Json \<Rightarrow> FlowGateProgram option"
  program_len :: "FlowGateProgram \<Rightarrow> nat option"

definition program_binding :: "flow_json \<Rightarrow> 'b gate_codec \<Rightarrow> FlowGateProgram \<Rightarrow> FactoryError + FlowGateBinding" where
  "program_binding env codec program =
     and_then (policy_reference env) (\<lambda>policy.
     and_then (ok_or invalid_gate (program_value codec program)) (gate_binding_new env policy))"

definition program_from_node :: "flow_json \<Rightarrow> 'b gate_codec \<Rightarrow> 'b FlowNodeDefinition \<Rightarrow> FactoryError + FlowGateProgram" where
  "program_from_node env codec node =
     and_then (ok_or invalid_gate (map_option (binding_of codec) (fn_gate node))) (\<lambda>binding.
     and_then (if fn_kind node \<noteq> NK_DeterministicGate then Inl invalid_gate else Inr ()) (\<lambda>_.
     and_then (policy_reference env) (\<lambda>policy.
     if gb_policy binding \<noteq> policy then Inl invalid_gate
     else and_then (ok_or invalid_gate (program_wire codec (gb_parameters binding))) (\<lambda>wire.
       and_then (map_err (\<lambda>_. invalid_gate) (program_from_wire (program_len codec) wire)) (\<lambda>program.
       map_ok (\<lambda>_. program) (validate_outcomes program node))))))"

definition gate_configured_program ::
  "flow_json \<Rightarrow> 'b gate_codec \<Rightarrow> 'b FlowNodeDefinition \<Rightarrow> FactoryError + FlowGateProgram option"
where
  "gate_configured_program env codec node =
     (case fn_gate node of
        None \<Rightarrow> Inr None
      | Some binding \<Rightarrow>
          if fst (gb_policy (binding_of codec binding)) = gate_policy then map_ok Some (program_from_node env codec node)
          else Inr None)"

definition gate_validate_binding :: "flow_json \<Rightarrow> 'b gate_codec \<Rightarrow> 'b FlowNodeDefinition \<Rightarrow> FactoryError + unit" where
  "gate_validate_binding env codec node = map_ok (\<lambda>_. ()) (gate_configured_program env codec node)"

text \<open>The outcome and payload that a gate records for an input payload at a time.\<close>

definition program_record ::
  "flow_json \<Rightarrow> 'b gate_codec \<Rightarrow> FlowGateProgram \<Rightarrow> 'b FlowNodeDefinition \<Rightarrow> FlowPayload \<Rightarrow> FlowDataSchema \<Rightarrow> int \<Rightarrow>
     FactoryError + FactoryKey \<times> FlowPayload"
where
  "program_record env codec program node input schema at =
     and_then (program_from_node env codec node) (\<lambda>configured.
     if configured \<noteq> program then Inl invalid_gate
     else and_then (select_with_time env program (fp_value input) (Some (JNumber (int_text at)))) (\<lambda>(outcome, passed).
       if (case node_outcome node outcome of None \<Rightarrow> True | Some declared \<Rightarrow> oc_schema declared \<noteq> ds_reference schema) then Inl invalid_gate
       else let failure_output = (if passed then None else gp_precondition_failure_output program);
            selected = (case failure_output of
                Some m \<Rightarrow> Some m
              | None \<Rightarrow> (case bt_get (gp_outputs program) outcome of Some m \<Rightarrow> Some m | None \<Rightarrow> gp_default_output program))
         in and_then (ok_or invalid_gate selected) (\<lambda>m.
            map_ok (Pair outcome) (project_payload env m input schema))))"

end
