(* ===== verification/Flow_Gate_Correct.thy ===== *)
theory Flow_Gate_Correct
  imports Flow_Gate Flow_Correct
begin

text \<open>
  Correctness of declarative gates: evaluation with a budget agrees with a three-valued meaning of
  predicates without one, and validation accepts exactly the bounded well-scoped predicates.
\<close>

section \<open>Meaning\<close>

text \<open>The value of a predicate is known (\<open>Some\<close>) only if all values it depends on are: a quantifier over
  nothing, a missing operand or a mistyped one make it unknown.\<close>

definition quantify :: "FlowQuantifier \<Rightarrow> bool option list \<Rightarrow> bool option" where
  "quantify q ks = (if ks = [] \<or> None \<in> set ks then None
     else Some (case q of Q_Any \<Rightarrow> Some True \<in> set ks | Q_Every \<Rightarrow> Some False \<notin> set ks))"

definition known_comparison :: "FlowComparison \<Rightarrow> Json \<Rightarrow> Json \<Rightarrow> bool option" where
  "known_comparison comparison a b = (case comparison of
     Cmp_RepositoryPathWithinAny \<Rightarrow>
       Option.bind (ok (json_path a)) (\<lambda>path. case b of
           JArray vs \<Rightarrow> if \<exists>v\<in>set vs. ok (json_path v) = None then None
             else Some (\<exists>v\<in>set vs. \<exists>prefix. json_path v = Inr prefix \<and> path_within path prefix)
         | _ \<Rightarrow> None)
   | _ \<Rightarrow> ok (fst (compare comparison a b 0)))"

function known :: "flow_json \<Rightarrow> Json \<Rightarrow> Json option \<Rightarrow> Json option \<Rightarrow> FlowPredicate \<Rightarrow> bool option" where
  "known env root item at p = (case p of
     P_All ps \<Rightarrow> quantify Q_Every (map (\<lambda>p. known env root item at p) ps)
   | P_Any ps \<Rightarrow> quantify Q_Any (map (\<lambda>p. known env root item at p) ps)
   | P_ForEach collection q p \<Rightarrow>
       (case operand_resolve env root item at collection of
          Inr (JArray vs) \<Rightarrow> quantify q (map (\<lambda>v. known env root (Some v) at p) vs)
        | _ \<Rightarrow> None)
   | P_Not p \<Rightarrow> map_option Not (known env root item at p)
   | P_Exists operand \<Rightarrow> (if operand_resolve env root item at operand = Inl MissingInput then None else Some True)
   | P_Absent path \<Rightarrow> Some (json_pointer env root path = None)
   | P_Compare left comparison right \<Rightarrow>
       Option.bind (ok (operand_resolve env root item at left)) (\<lambda>a.
       Option.bind (ok (operand_resolve env root item at right)) (\<lambda>b. known_comparison comparison a b)))"
  by auto

termination
  by (relation "measure (\<lambda>(_, _, _, _, p). size p)") (auto simp: less_Suc_eq_le size_list_estimation')

declare known.simps [simp del]

text \<open>The steps of an evaluation, which ends at the first unknown operand.\<close>

primrec prefix_steps :: "(bool option \<times> nat) list \<Rightarrow> nat" where
  "prefix_steps [] = 0"
| "prefix_steps (k # ks) = snd k + (if fst k = None then 0 else prefix_steps ks)"

primrec root_steps :: "Json list \<Rightarrow> nat" where
  "root_steps [] = 0"
| "root_steps (v # vs) = Suc (if ok (json_path v) = None then 0 else root_steps vs)"

definition comparison_steps :: "FlowComparison \<Rightarrow> Json \<Rightarrow> Json \<Rightarrow> nat" where
  "comparison_steps comparison a b = (case (comparison, json_path a, b) of
     (Cmp_RepositoryPathWithinAny, Inr _, JArray vs) \<Rightarrow> root_steps vs | _ \<Rightarrow> 0)"

function steps :: "flow_json \<Rightarrow> Json \<Rightarrow> Json option \<Rightarrow> Json option \<Rightarrow> FlowPredicate \<Rightarrow> nat" where
  "steps env root item at p = Suc (case p of
     P_All ps \<Rightarrow> prefix_steps (map (\<lambda>p. (known env root item at p, steps env root item at p)) ps)
   | P_Any ps \<Rightarrow> prefix_steps (map (\<lambda>p. (known env root item at p, steps env root item at p)) ps)
   | P_ForEach collection q p \<Rightarrow>
       (case operand_resolve env root item at collection of
          Inr (JArray vs) \<Rightarrow> prefix_steps (map (\<lambda>v. (known env root (Some v) at p, steps env root (Some v) at p)) vs)
        | _ \<Rightarrow> 0)
   | P_Not p \<Rightarrow> steps env root item at p
   | P_Compare left comparison right \<Rightarrow>
       (case (operand_resolve env root item at left, operand_resolve env root item at right) of
          (Inr a, Inr b) \<Rightarrow> comparison_steps comparison a b | _ \<Rightarrow> 0)
   | _ \<Rightarrow> 0)"
  by auto

termination
  by (relation "measure (\<lambda>(_, _, _, _, p). size p)") (auto simp: less_Suc_eq_le size_list_estimation')

declare steps.simps [simp del]

section \<open>Evaluation\<close>

text \<open>A counted computation agrees with a known value that takes some steps, or exhausts the budget.\<close>

definition agrees :: "bool counted \<Rightarrow> bool option \<Rightarrow> nat \<Rightarrow> bool" where
  "agrees f k n \<longleftrightarrow> (\<forall>r. if n \<le> r then ok (fst (f r)) = k \<and> snd (f r) = r - n else f r = (Inl EvaluationBoundExceeded, 0))"

lemma ok_simps [simp]: "ok (Inl e) = None" "ok (Inr x) = Some x"
  by (simp_all add: ok_def)

lemma agreesD:
  assumes "agrees f k n"
  shows "n \<le> r \<Longrightarrow> ok (fst (f r)) = k" "n \<le> r \<Longrightarrow> snd (f r) = r - n" "r < n \<Longrightarrow> f r = (Inl EvaluationBoundExceeded, 0)"
  using assms by (auto simp: agrees_def split: if_splits dest: leD)

lemma aggregate_loop_agrees:
  assumes "\<And>x. x \<in> set xs \<Longrightarrow> agrees (f x) (k x) (n x)"
  shows "agrees (aggregate_loop q f xs seen result)
    (if None \<in> k ` set xs \<or> \<not> seen \<and> xs = [] then None
     else Some (case q of Q_Any \<Rightarrow> result \<or> Some True \<in> k ` set xs | Q_Every \<Rightarrow> result \<and> Some False \<notin> k ` set xs))
    (prefix_steps (map (\<lambda>x. (k x, n x)) xs))"
  using assms
proof (induction xs arbitrary: seen result)
  case Nil
  then show ?case by (auto simp: agrees_def split: FlowQuantifier.split)
next
  case (Cons x xs)
  have head: "agrees (f x) (k x) (n x)" using Cons.prems by simp
  note rest = Cons.IH [OF Cons.prems, OF list.set_intros(2)]
  show ?case unfolding agrees_def
  proof (intro allI)
    fix r
    show "if prefix_steps (map (\<lambda>x. (k x, n x)) (x # xs)) \<le> r
      then ok (fst (aggregate_loop q f (x # xs) seen result r)) =
          (if None \<in> k ` set (x # xs) \<or> \<not> seen \<and> x # xs = [] then None
           else Some (case q of Q_Any \<Rightarrow> result \<or> Some True \<in> k ` set (x # xs) | Q_Every \<Rightarrow> result \<and> Some False \<notin> k ` set (x # xs))) \<and>
        snd (aggregate_loop q f (x # xs) seen result r) = r - prefix_steps (map (\<lambda>x. (k x, n x)) (x # xs))
      else aggregate_loop q f (x # xs) seen result r = (Inl EvaluationBoundExceeded, 0)"
    proof (cases "n x \<le> r")
      case False
      then show ?thesis using agreesD(3) [OF head, of r] by simp
    next
      case True
      note first = agreesD(1,2) [OF head True]
      show ?thesis
      proof (cases "k x")
        case None
        with first obtain e where "f x r = (Inl e, r - n x)" by (cases "f x r"; cases "fst (f x r)") auto
        with None True show ?thesis by simp
      next
        case (Some b)
        with first have fx: "f x r = (Inr b, r - n x)" by (cases "f x r"; cases "fst (f x r)") auto
        let ?result = "case q of Q_Any \<Rightarrow> result \<or> b | Q_Every \<Rightarrow> result \<and> b"
        note tail = rest [of True ?result, unfolded agrees_def, rule_format, of "r - n x"]
        show ?thesis using tail True by (auto simp: fx Some split: if_splits FlowQuantifier.splits)
      qed
    qed
  qed
qed

lemma agrees_eq: "agrees f k n \<Longrightarrow> g = f \<Longrightarrow> k = k' \<Longrightarrow> n = n' \<Longrightarrow> agrees g k' n'"
  by simp

lemma aggregate_agrees:
  assumes "\<And>x. x \<in> set xs \<Longrightarrow> agrees (f x) (k x) (n x)"
  shows "agrees (aggregate q f xs) (quantify q (map k xs)) (prefix_steps (map (\<lambda>x. (k x, n x)) xs))"
proof -
  have unfold: "aggregate q f xs = aggregate_loop q f xs False (q = Q_Every)" by (rule ext) (simp add: aggregate_def)
  have meaning: "(if None \<in> k ` set xs \<or> \<not> False \<and> xs = [] then None
      else Some (case q of Q_Any \<Rightarrow> q = Q_Every \<or> Some True \<in> k ` set xs | Q_Every \<Rightarrow> q = Q_Every \<and> Some False \<notin> k ` set xs)) =
    quantify q (map k xs)"
    by (cases q) (auto simp: quantify_def)
  have "agrees (aggregate_loop q f xs False (q = Q_Every)) (if None \<in> k ` set xs \<or> \<not> False \<and> xs = [] then None
      else Some (case q of Q_Any \<Rightarrow> q = Q_Every \<or> Some True \<in> k ` set xs | Q_Every \<Rightarrow> q = Q_Every \<and> Some False \<notin> k ` set xs))
      (prefix_steps (map (\<lambda>x. (k x, n x)) xs))"
    by (rule aggregate_loop_agrees) (rule assms)
  then show ?thesis unfolding unfold meaning .
qed

lemma agrees_now: "agrees (\<lambda>r. (res, r)) k 0 \<longleftrightarrow> ok res = k"
  by (simp add: agrees_def)

lemma agrees_Suc: "agrees f k n \<Longrightarrow> agrees (\<lambda>r. if r = 0 then (Inl EvaluationBoundExceeded, 0) else f (r - 1)) k (Suc n)"
  unfolding agrees_def by (auto simp: Suc_le_eq)

lemma roots_loop_agrees:
  "agrees (roots_loop path vs matched)
     (if \<exists>v\<in>set vs. ok (json_path v) = None then None
      else Some (matched \<or> (\<exists>v\<in>set vs. \<exists>prefix. json_path v = Inr prefix \<and> path_within path prefix))) (root_steps vs)"
proof (induction vs arbitrary: matched)
  case (Cons v vs)
  show ?case
  proof (cases "json_path v")
    case (Inl e)
    have "roots_loop path (v # vs) matched = (\<lambda>r. if r = 0 then (Inl EvaluationBoundExceeded, 0) else (\<lambda>r. (Inl e, r)) (r - 1))"
      by (rule ext) (simp add: Inl)
    moreover have "agrees (\<lambda>r. if r = 0 then (Inl EvaluationBoundExceeded, 0) else (\<lambda>r. (Inl e, r)) (r - 1)) None (Suc 0)"
      by (rule agrees_Suc) (simp add: agrees_now)
    ultimately show ?thesis by (simp add: Inl)
  next
    case (Inr prefix)
    have "roots_loop path (v # vs) matched = (\<lambda>r. if r = 0 then (Inl EvaluationBoundExceeded, 0)
        else roots_loop path vs (matched \<or> path_within path prefix) (r - 1))"
      by (rule ext) (simp add: Inr)
    then show ?thesis by (intro agrees_eq [OF agrees_Suc [OF Cons.IH [of "matched \<or> path_within path prefix"]]]) (simp_all add: Inr disj_assoc)
  qed
qed (simp add: agrees_def)

lemma compare_agrees: "agrees (compare comparison a b) (known_comparison comparison a b) (comparison_steps comparison a b)"
proof (cases "comparison = Cmp_RepositoryPathWithinAny \<and> (\<exists>path. json_path a = Inr path) \<and> (\<exists>vs. b = JArray vs)")
  case True
  then obtain path vs where args: "comparison = Cmp_RepositoryPathWithinAny" "json_path a = Inr path" "b = JArray vs" by blast
  have "compare comparison a b = roots_loop path vs False" by (rule ext) (simp add: compare_def args)
  then show ?thesis by (intro agrees_eq [OF roots_loop_agrees [of path vs False]]) (simp_all add: args known_comparison_def comparison_steps_def)
next
  case False
  then have "compare comparison a b = (\<lambda>r. (fst (compare comparison a b 0), r))"
    by (intro ext, cases comparison) (auto simp: compare_def split: sum.split Json.split)
  moreover have "known_comparison comparison a b = ok (fst (compare comparison a b 0))"
    using False by (cases comparison) (auto simp: known_comparison_def compare_def ok_def split: sum.split Json.split)
  moreover have "comparison_steps comparison a b = 0"
    using False by (cases comparison) (auto simp: comparison_steps_def split: sum.split Json.split)
  ultimately show ?thesis by (metis agrees_now)
qed

lemma agrees_map_Not: "agrees f k n \<Longrightarrow> agrees (\<lambda>r. map_prod (map_ok Not) id (f r)) (map_option Not k) n"
  unfolding agrees_def
proof (intro allI, goal_cases)
  case (1 r)
  then show ?case by (drule_tac x = r in spec) (cases "f r"; cases "fst (f r)"; auto split: if_splits)
qed

lemma operand_resolve_Inl: "operand_resolve env root item at operand = Inl e \<Longrightarrow> e = MissingInput"
  by (simp add: operand_resolve_def ok_or_def split: option.splits)

lemma evaluate_unfold: "evaluate env root item at p = (\<lambda>r. if r = 0 then (Inl EvaluationBoundExceeded, 0) else
    (case p of
       P_All ps \<Rightarrow> aggregate Q_Every (\<lambda>p. evaluate env root item at p) ps
     | P_Any ps \<Rightarrow> aggregate Q_Any (\<lambda>p. evaluate env root item at p) ps
     | P_ForEach collection q p \<Rightarrow>
         (case operand_resolve env root item at collection of
            Inl e \<Rightarrow> (\<lambda>r. (Inl e, r))
          | Inr v \<Rightarrow> (case v of JArray vs \<Rightarrow> aggregate q (\<lambda>v. evaluate env root (Some v) at p) vs | _ \<Rightarrow> (\<lambda>r. (Inl InvalidType, r))))
     | P_Not p \<Rightarrow> (\<lambda>r. map_prod (map_ok Not) id (evaluate env root item at p r))
     | P_Exists operand \<Rightarrow> (\<lambda>r. (map_ok (\<lambda>_. True) (operand_resolve env root item at operand), r))
     | P_Absent path \<Rightarrow> (\<lambda>r. (Inr (json_pointer env root path = None), r))
     | P_Compare left comparison right \<Rightarrow>
         (case and_then (operand_resolve env root item at left) (\<lambda>a. map_ok (Pair a) (operand_resolve env root item at right)) of
            Inl e \<Rightarrow> (\<lambda>r. (Inl e, r)) | Inr (a, b) \<Rightarrow> compare comparison a b)) (r - 1))"
  by (rule ext, subst evaluate.simps) (simp add: Let_def split: FlowPredicate.split sum.split Json.split)

lemma evaluate_agrees: "agrees (evaluate env root item at p) (known env root item at p) (steps env root item at p)"
proof (induction "size p" arbitrary: p item rule: less_induct)
  case less
  note unfolds = evaluate_unfold [of env root item at] known.simps [of env root item at] steps.simps [of env root item at]
  show ?case
  proof (cases p)
    case (P_All ps)
    have "size x < size p" if "x \<in> set ps" for x using that by (simp add: P_All less_Suc_eq_le size_list_estimation')
    with less.hyps have sub: "agrees (evaluate env root item at x) (known env root item at x) (steps env root item at x)" if "x \<in> set ps" for x
      using that by blast
    show ?thesis unfolding P_All unfolds [of "P_All ps", unfolded FlowPredicate.case] by (intro agrees_Suc aggregate_agrees sub)
  next
    case (P_Any ps)
    have "size x < size p" if "x \<in> set ps" for x using that by (simp add: P_Any less_Suc_eq_le size_list_estimation')
    with less.hyps have sub: "agrees (evaluate env root item at x) (known env root item at x) (steps env root item at x)" if "x \<in> set ps" for x
      using that by blast
    show ?thesis unfolding P_Any unfolds [of "P_Any ps", unfolded FlowPredicate.case] by (intro agrees_Suc aggregate_agrees sub)
  next
    case (P_ForEach collection q p')
    show ?thesis
    proof (cases "operand_resolve env root item at collection")
      case (Inl e)
      show ?thesis unfolding P_ForEach unfolds [of "P_ForEach collection q p'", unfolded FlowPredicate.case] Inl sum.case by (intro agrees_Suc) (simp add: agrees_now)
    next
      case (Inr v)
      show ?thesis
      proof (cases "\<exists>vs. v = JArray vs")
        case True
        then obtain vs where v: "v = JArray vs" by blast
        have "agrees (evaluate env root (Some w) at p') (known env root (Some w) at p') (steps env root (Some w) at p')" for w
          by (rule less.hyps) (simp add: P_ForEach)
        then show ?thesis unfolding P_ForEach unfolds [of "P_ForEach collection q p'", unfolded FlowPredicate.case] Inr v sum.case Json.case by (intro agrees_Suc aggregate_agrees)
      next
        case False
        then show ?thesis unfolding P_ForEach unfolds [of "P_ForEach collection q p'", unfolded FlowPredicate.case] Inr sum.case
          by (intro agrees_Suc) (auto simp: agrees_now split: Json.split)
      qed
    qed
  next
    case (P_Not p')
    have "agrees (evaluate env root item at p') (known env root item at p') (steps env root item at p')" by (rule less.hyps) (simp add: P_Not)
    then show ?thesis unfolding P_Not unfolds [of "P_Not p'", unfolded FlowPredicate.case] by (intro agrees_Suc agrees_map_Not)
  next
    case (P_Exists operand)
    show ?thesis unfolding P_Exists unfolds [of "P_Exists operand", unfolded FlowPredicate.case]
      by (intro agrees_Suc) (auto simp: agrees_now map_ok_def dest: operand_resolve_Inl split: sum.split)
  next
    case (P_Absent path)
    show ?thesis unfolding P_Absent unfolds [of "P_Absent path", unfolded FlowPredicate.case] by (intro agrees_Suc) (simp add: agrees_now)
  next
    case (P_Compare left comparison right)
    show ?thesis
    proof (cases "operand_resolve env root item at left")
      case (Inl e)
      show ?thesis unfolding P_Compare unfolds [of "P_Compare left comparison right", unfolded FlowPredicate.case] by (intro agrees_Suc) (simp add: Inl agrees_now)
    next
      case a: (Inr a)
      show ?thesis
      proof (cases "operand_resolve env root item at right")
        case (Inl e)
        show ?thesis unfolding P_Compare unfolds [of "P_Compare left comparison right", unfolded FlowPredicate.case] by (intro agrees_Suc) (simp add: a Inl agrees_now)
      next
        case (Inr b)
        show ?thesis unfolding P_Compare unfolds [of "P_Compare left comparison right", unfolded FlowPredicate.case] by (intro agrees_Suc) (simp add: a Inr compare_agrees)
      qed
    qed
  qed
qed

section \<open>Selection\<close>

primrec rules_steps :: "flow_json \<Rightarrow> Json \<Rightarrow> Json option \<Rightarrow> FlowGateRule list \<Rightarrow> nat" where
  "rules_steps env input at [] = 0"
| "rules_steps env input at (rule # rules) = steps env input None at (gr_when rule) +
     (if known env input None at (gr_when rule) = Some True then 0 else rules_steps env input at rules)"

definition gate_steps :: "flow_json \<Rightarrow> FlowGateProgram \<Rightarrow> Json \<Rightarrow> Json option \<Rightarrow> nat" where
  "gate_steps env program input at = (case gp_precondition program of
     None \<Rightarrow> rules_steps env input at (gp_rules program)
   | Some p \<Rightarrow> steps env input None at p + (if known env input None at p = Some True then rules_steps env input at (gp_rules program) else 0))"

text \<open>The first rule whose condition is known to hold, once the precondition is known to hold.\<close>

definition gate_choice :: "flow_json \<Rightarrow> FlowGateProgram \<Rightarrow> Json \<Rightarrow> Json option \<Rightarrow> FactoryKey \<times> bool" where
  "gate_choice env program input at =
     (if \<exists>p. gp_precondition program = Some p \<and> known env input None at p \<noteq> Some True then (gp_fallback program, False)
      else case find (\<lambda>rule. known env input None at (gr_when rule) = Some True) (gp_rules program) of
        None \<Rightarrow> (gp_fallback program, True) | Some rule \<Rightarrow> (gr_outcome rule, True))"

lemma select_rules_exact:
  "0 < r \<Longrightarrow> select_rules env input at fallback rules r =
     (if rules_steps env input at rules < r
      then Inr (case find (\<lambda>rule. known env input None at (gr_when rule) = Some True) rules of
        None \<Rightarrow> (fallback, True) | Some rule \<Rightarrow> (gr_outcome rule, True))
      else Inl invalid_gate)"
proof (induction rules arbitrary: r)
  case (Cons rule rules)
  note step = agreesD [OF evaluate_agrees [of env input None at "gr_when rule"]]
  let ?n = "steps env input None at (gr_when rule)"
  show ?case
  proof (cases "?n < r")
    case True
    then obtain matched where e: "evaluate env input None at (gr_when rule) r = (matched, r - ?n)"
        "ok matched = known env input None at (gr_when rule)"
      using step(1,2) [of r] by (metis less_imp_le prod.collapse)
    from Cons.IH [of "r - ?n"] True show ?thesis by (auto simp: e less_diff_conv2 add.commute)
  next
    case False
    then have "snd (evaluate env input None at (gr_when rule) r) = 0"
      using step(2,3) [of r] by (cases "?n = r") simp_all
    with False show ?thesis by (simp add: case_prod_beta)
  qed
qed simp

lemma select_exact:
  "select_with_time env program input at =
     (if gate_steps env program input at < MAX_EVALUATION_STEPS then Inr (gate_choice env program input at) else Inl invalid_gate)"
proof (cases "gp_precondition program")
  case None
  then show ?thesis using select_rules_exact [of MAX_EVALUATION_STEPS]
    by (simp add: select_with_time_def gate_steps_def gate_choice_def MAX_EVALUATION_STEPS_def)
next
  case (Some p)
  note step = agreesD [OF evaluate_agrees [of env input None at p], of MAX_EVALUATION_STEPS]
  let ?n = "steps env input None at p" and ?M = MAX_EVALUATION_STEPS
  show ?thesis
  proof (cases "?n < ?M")
    case True
    then obtain matched where e: "evaluate env input None at p ?M = (matched, ?M - ?n)" "ok matched = known env input None at p"
      using step(1,2) by (metis less_imp_le prod.collapse)
    from select_rules_exact [of "?M - ?n" env input at "gp_fallback program" "gp_rules program"] True Some show ?thesis
      by (auto simp: e select_with_time_def gate_steps_def gate_choice_def less_diff_conv2 add.commute)
  next
    case False
    then have "snd (evaluate env input None at p ?M) = 0" using step(2,3) by (cases "?n = ?M") simp_all
    with False Some show ?thesis by (simp add: select_with_time_def gate_steps_def case_prod_beta)
  qed
qed

section \<open>Validation\<close>

function predicate_nodes :: "FlowPredicate \<Rightarrow> nat" where
  "predicate_nodes p = Suc (case p of
     P_All ps \<Rightarrow> sum_list (map (\<lambda>p. predicate_nodes p) ps)
   | P_Any ps \<Rightarrow> sum_list (map (\<lambda>p. predicate_nodes p) ps)
   | P_ForEach _ _ p \<Rightarrow> predicate_nodes p
   | P_Not p \<Rightarrow> predicate_nodes p
   | _ \<Rightarrow> 0)"
  by auto

termination
  by (relation "measure size") (auto simp: less_Suc_eq_le size_list_estimation')

declare predicate_nodes.simps [simp del]

text \<open>Nesting at most \<open>n\<close> below the root, conditions to combine, and items only inside a quantifier.\<close>

function predicate_ok :: "FlowPredicate \<Rightarrow> nat \<Rightarrow> bool \<Rightarrow> bool" where
  "predicate_ok p n in_item = (case p of
     P_All ps \<Rightarrow> ps \<noteq> [] \<and> 0 < n \<and> list_all (\<lambda>p. predicate_ok p (n - 1) in_item) ps
   | P_Any ps \<Rightarrow> ps \<noteq> [] \<and> 0 < n \<and> list_all (\<lambda>p. predicate_ok p (n - 1) in_item) ps
   | P_ForEach collection _ p \<Rightarrow> operand_validate collection in_item = Inr () \<and> 0 < n \<and> predicate_ok p (n - 1) True
   | P_Not p \<Rightarrow> 0 < n \<and> predicate_ok p (n - 1) in_item
   | P_Exists operand \<Rightarrow> operand_validate operand in_item = Inr ()
   | P_Absent path \<Rightarrow> validate_pointer path = Inr ()
   | P_Compare left _ right \<Rightarrow> operand_validate left in_item = Inr () \<and> operand_validate right in_item = Inr ())"
  by auto

termination
  by (relation "measure (size \<circ> fst)") (auto simp: less_Suc_eq_le size_list_estimation')

declare predicate_ok.simps [simp del]

lemma validate_pointer_cases: "validate_pointer path = Inr () \<or> validate_pointer path = Inl invalid_gate"
  by (simp add: validate_pointer_def ensure_def)

lemma operand_validate_cases: "operand_validate operand in_item = Inr () \<or> operand_validate operand in_item = Inl invalid_gate"
  using validate_pointer_cases by (auto simp: operand_validate_def ensure_def split: FlowOperand.split)

lemma thread_each_counts:
  assumes "\<And>x c. x \<in> set xs \<Longrightarrow> c \<le> M \<Longrightarrow> f x c = (if A x \<and> c + n x \<le> M then Inr (c + n x) else Inl e)" "c \<le> M"
  shows "thread_each f xs c = (if (\<forall>x\<in>set xs. A x) \<and> c + sum_list (map n xs) \<le> (M :: nat) then Inr (c + sum_list (map n xs)) else Inl e)"
  using assms
proof (induction xs arbitrary: c)
  case (Cons x xs)
  have first: "f x c = (if A x \<and> c + n x \<le> M then Inr (c + n x) else Inl e)" by (rule Cons.prems(1)) (simp_all add: Cons.prems(2))
  show ?case
  proof (cases "A x \<and> c + n x \<le> M")
    case True
    have "thread_each f xs (c + n x) = (if (\<forall>x\<in>set xs. A x) \<and> c + n x + sum_list (map n xs) \<le> M then Inr (c + n x + sum_list (map n xs)) else Inl e)"
      by (rule Cons.IH) (use Cons.prems True in \<open>simp_all\<close>)
    with True first show ?thesis by (simp add: add.assoc)
  next
    case False
    with first show ?thesis by (cases "A x") simp_all
  qed
qed simp

lemma predicate_validate_exact:
  "count \<le> MAX_PREDICATES \<Longrightarrow> depth \<le> MAX_DEPTH \<Longrightarrow> predicate_validate p depth count in_item =
     (if predicate_ok p (MAX_DEPTH - depth) in_item \<and> count + predicate_nodes p \<le> MAX_PREDICATES
      then Inr (count + predicate_nodes p) else Inl invalid_gate)"
proof (induction "size p" arbitrary: p depth count in_item rule: less_induct)
  case less
  show ?case
  proof (cases "count + 1 \<le> MAX_PREDICATES")
    case False
    then show ?thesis by (simp add: predicate_validate.simps [of p] predicate_nodes.simps [of p])
  next
    case True
    have deep: "predicate_validate q (depth + 1) c i =
        (if depth < MAX_DEPTH \<and> predicate_ok q (MAX_DEPTH - depth - 1) i \<and> c + predicate_nodes q \<le> MAX_PREDICATES
         then Inr (c + predicate_nodes q) else Inl invalid_gate)"
      if "size q < size p" "c \<le> MAX_PREDICATES" for q c i
    proof (cases "depth < MAX_DEPTH")
      case True
      with less.hyps [OF that(1,2), of "depth + 1" i] show ?thesis by (simp add: diff_diff_left)
    next
      case False
      then show ?thesis by (simp add: predicate_validate.simps [of q])
    qed
    have each: "thread_each (\<lambda>q c. predicate_validate q (depth + 1) c in_item) ps (count + 1) =
        (if (\<forall>q\<in>set ps. depth < MAX_DEPTH \<and> predicate_ok q (MAX_DEPTH - depth - 1) in_item) \<and>
            count + 1 + sum_list (map predicate_nodes ps) \<le> MAX_PREDICATES
         then Inr (count + 1 + sum_list (map predicate_nodes ps)) else Inl invalid_gate)"
      if "\<And>q. q \<in> set ps \<Longrightarrow> size q < size p" for ps
      by (rule thread_each_counts) (use deep that True in \<open>simp_all\<close>)
    note unfolds = predicate_validate.simps predicate_nodes.simps predicate_ok.simps
    have start: "\<not> (MAX_DEPTH < depth \<or> MAX_PREDICATES < count + 1)" using less.prems True by simp
    show ?thesis
    proof (cases p)
      case (P_All ps)
      have "size q < size p" if "q \<in> set ps" for q using that by (simp add: P_All less_Suc_eq_le size_list_estimation')
      note all = each [of ps, OF this, unfolded One_nat_def add_Suc_right add_0_right]
      have "(\<forall>q\<in>set ps. depth < MAX_DEPTH \<and> A q) \<longleftrightarrow> depth < MAX_DEPTH \<and> (\<forall>q\<in>set ps. A q)" if "ps \<noteq> []" for A
        using that by (cases ps) auto
      then show ?thesis using start by (auto simp: P_All unfolds [of "P_All ps"] all Let_def list_all_iff)
    next
      case (P_Any ps)
      have "size q < size p" if "q \<in> set ps" for q using that by (simp add: P_Any less_Suc_eq_le size_list_estimation')
      note all = each [of ps, OF this, unfolded One_nat_def add_Suc_right add_0_right]
      have "(\<forall>q\<in>set ps. depth < MAX_DEPTH \<and> A q) \<longleftrightarrow> depth < MAX_DEPTH \<and> (\<forall>q\<in>set ps. A q)" if "ps \<noteq> []" for A
        using that by (cases ps) auto
      then show ?thesis using start by (auto simp: P_Any unfolds [of "P_Any ps"] all Let_def list_all_iff)
    next
      case (P_ForEach collection q p')
      with deep [of p' "count + 1" True] True start operand_validate_cases [of collection in_item] show ?thesis
        by (auto simp: unfolds [of "P_ForEach collection q p'"] Let_def)
    next
      case (P_Not p')
      with deep [of p' "count + 1" in_item] True start show ?thesis by (auto simp: unfolds [of "P_Not p'"] Let_def)
    next
      case (P_Exists operand)
      with True start operand_validate_cases [of operand in_item] show ?thesis by (auto simp: unfolds [of "P_Exists operand"] Let_def)
    next
      case (P_Absent path)
      with True start validate_pointer_cases [of path] show ?thesis by (auto simp: unfolds [of "P_Absent path"] Let_def)
    next
      case (P_Compare left comparison right)
      with True start operand_validate_cases [of left in_item] operand_validate_cases [of right in_item] show ?thesis
        by (auto simp: unfolds [of "P_Compare left comparison right"] Let_def)
    qed
  qed
qed

lemma validate_predicates_exact:
  "validate_predicates ps = (if (\<forall>p\<in>set ps. predicate_ok p MAX_DEPTH False) \<and> sum_list (map predicate_nodes ps) \<le> MAX_PREDICATES
     then Inr () else Inl invalid_gate)"
proof -
  have "thread_each (\<lambda>p count. predicate_validate p 0 count False) ps 0 =
      (if (\<forall>p\<in>set ps. predicate_ok p MAX_DEPTH False) \<and> 0 + sum_list (map predicate_nodes ps) \<le> MAX_PREDICATES
       then Inr (0 + sum_list (map predicate_nodes ps)) else Inl invalid_gate)"
    by (rule thread_each_counts) (simp_all add: predicate_validate_exact)
  then show ?thesis by (simp add: validate_predicates_def)
qed

text \<open>A predicate without free items means the same under every item.\<close>

lemma operand_scoped:
  "operand_validate operand False = Inr () \<Longrightarrow> operand_resolve env root item at operand = operand_resolve env root item' at operand"
  by (cases operand) (simp_all add: operand_validate_def operand_resolve_def)

lemma predicate_scoped: "predicate_ok p n False \<Longrightarrow> known env root item at p = known env root item' at p"
proof (induction "size p" arbitrary: p n rule: less_induct)
  case less
  have sub: "known env root item at q = known env root item' at q" if "size q < size p" "predicate_ok q m False" for q m
    using less.hyps that by blast
  have list: "map (known env root item at) ps = map (known env root item' at) ps"
    if "\<forall>q\<in>set ps. size q < size p \<and> predicate_ok q (n - 1) False" for ps
    using that sub by (intro map_cong) auto
  have small: "\<forall>q\<in>set ps. size q < size p" if "p = P_All ps \<or> p = P_Any ps" for ps
    using that by (auto simp: less_Suc_eq_le size_list_estimation')
  show ?case
  proof (cases p)
    case (P_All ps)
    have "map (known env root item at) ps = map (known env root item' at) ps"
      by (rule list) (use less.prems small [of ps] in \<open>simp add: P_All predicate_ok.simps [of "P_All ps"] list_all_iff\<close>)
    then show ?thesis by (simp only: P_All known.simps [of _ _ _ _ "P_All ps"] FlowPredicate.case)
  next
    case (P_Any ps)
    have "map (known env root item at) ps = map (known env root item' at) ps"
      by (rule list) (use less.prems small [of ps] in \<open>simp add: P_Any predicate_ok.simps [of "P_Any ps"] list_all_iff\<close>)
    then show ?thesis by (simp only: P_Any known.simps [of _ _ _ _ "P_Any ps"] FlowPredicate.case)
  next
    case (P_ForEach collection q p')
    with less.prems have "operand_validate collection False = Inr ()" by (simp add: predicate_ok.simps [of "P_ForEach collection q p'"])
    from operand_scoped [OF this, of env root item at item'] show ?thesis
      by (simp add: P_ForEach known.simps [of _ _ _ _ "P_ForEach collection q p'"])
  next
    case (P_Not p')
    with less.prems sub [of p' "n - 1"] show ?thesis
      by (simp add: predicate_ok.simps [of "P_Not p'"] known.simps [of _ _ _ _ "P_Not p'"])
  next
    case (P_Exists operand)
    with less.prems have "operand_validate operand False = Inr ()" by (simp add: predicate_ok.simps [of "P_Exists operand"])
    from operand_scoped [OF this, of env root item at item'] show ?thesis
      by (simp add: P_Exists known.simps [of _ _ _ _ "P_Exists operand"])
  next
    case (P_Absent path)
    then show ?thesis by (simp add: known.simps [of _ _ _ _ "P_Absent path"])
  next
    case (P_Compare left comparison right)
    with less.prems have "operand_validate left False = Inr ()" "operand_validate right False = Inr ()"
      by (simp_all add: predicate_ok.simps [of "P_Compare left comparison right"])
    from this [THEN operand_scoped, of env root item at item'] show ?thesis
      by (simp add: P_Compare known.simps [of _ _ _ _ "P_Compare left comparison right"])
  qed
qed

section \<open>Properties\<close>

text \<open>
  (C24) A gate selects by the three-valued meaning of its conditions: the fallback if the precondition is
  not known to hold, otherwise the first rule that is known to hold, otherwise the fallback. It fails
  exactly when the conditions evaluated for this choice take the whole budget of 16384 steps, so no
  choice is ever made on a truncated evaluation, and evaluation always ends.
\<close>

theorem gate_selects_first_known:
  "select_with_time env program input at =
     (if gate_steps env program input at < MAX_EVALUATION_STEPS then Inr (gate_choice env program input at) else Inl invalid_gate)"
  by (rule select_exact)

text \<open>A program of rules and a fallback.\<close>

definition rules_program :: "FlowGateRule list \<Rightarrow> FactoryKey \<Rightarrow> FlowGateProgram" where
  "rules_program rules fallback = \<lparr>gp_precondition = None, gp_precondition_failure_output = None, gp_rules = rules, gp_fallback = fallback,
     gp_outputs = [], gp_default_output = None\<rparr>"

text \<open>
  (C27) Gate programs are accepted exactly within their bounds: at most 64 rules with at most 128
  conditions in total, nested at most 16 deep, over valid pointers and scalar literals, within the encoded
  size. In an accepted program items occur only inside a quantifier, so conditions of rules mean the same
  whatever item surrounds them.
\<close>

theorem gate_programs_bounded:
  "(is_ok (program_new len rules fallback) \<longleftrightarrow>
      length rules \<le> MAX_RULES \<and> (\<forall>rule\<in>set rules. predicate_ok (gr_when rule) MAX_DEPTH False) \<and>
      sum_list (map (\<lambda>rule. predicate_nodes (gr_when rule)) rules) \<le> MAX_PREDICATES \<and>
      (\<exists>n. len (rules_program rules fallback) = Some n \<and> n \<le> MAX_FLOW_GATE_PARAMETER_BYTES)) \<and>
    (is_ok (program_new len rules fallback) \<longrightarrow> program_new len rules fallback = Inr (rules_program rules fallback) \<and>
      (\<forall>rule env root item item' at. rule \<in> set rules \<longrightarrow>
         known env root item at (gr_when rule) = known env root item' at (gr_when rule)))"
proof -
  have bytes: "is_ok (validate_bytes len (rules_program rules fallback)) \<longleftrightarrow>
      (\<forall>rule\<in>set rules. predicate_ok (gr_when rule) MAX_DEPTH False) \<and>
      sum_list (map (\<lambda>rule. predicate_nodes (gr_when rule)) rules) \<le> MAX_PREDICATES \<and>
      (\<exists>n. len (rules_program rules fallback) = Some n \<and> n \<le> MAX_FLOW_GATE_PARAMETER_BYTES)"
    by (auto simp: validate_bytes_def validate_predicates_exact is_ok_iff res_simps rules_program_def comp_def split: if_splits)
  have new: "program_new len rules fallback =
      (if MAX_RULES < length rules then Inl invalid_gate else map_ok (\<lambda>_. rules_program rules fallback) (validate_bytes len (rules_program rules fallback)))"
    by (simp add: program_new_def rules_program_def)
  have ok: "is_ok (program_new len rules fallback) \<longleftrightarrow> length rules \<le> MAX_RULES \<and> is_ok (validate_bytes len (rules_program rules fallback))"
    by (auto simp: new is_ok_iff res_simps)
  moreover have "program_new len rules fallback = Inr (rules_program rules fallback)" if "is_ok (program_new len rules fallback)"
    using that by (auto simp: new is_ok_iff res_simps split: if_splits)
  ultimately show ?thesis unfolding bytes using predicate_scoped by blast
qed

definition sample_rules :: "FlowGateRule list" where
  "sample_rules = [\<lparr>gr_when = P_ForEach (O_Path (lit ''/items'')) Q_Every (P_Compare (O_Item []) Cmp_Greater (O_Literal (JNumber (lit ''3'')))),
     gr_outcome = lit ''high''\<rparr>]"

theorem gate_programs_bounded_witness:
  "is_ok (program_new (\<lambda>_. Some 100) sample_rules (lit ''low''))"
proof -
  have "(\<forall>rule\<in>set sample_rules. predicate_ok (gr_when rule) MAX_DEPTH False)" "length sample_rules \<le> MAX_RULES"
    "sum_list (map (\<lambda>rule. predicate_nodes (gr_when rule)) sample_rules) \<le> MAX_PREDICATES"
    by code_simp+
  then show ?thesis using gate_programs_bounded [of "\<lambda>_. Some 100" sample_rules "lit ''low''"]
    by (simp add: MAX_FLOW_GATE_PARAMETER_BYTES_def)
qed

text \<open>
  What a gate records is typed and chosen by its program: the outcome is the gate's choice at the time
  of the record, the node declares it with the schema of the payload, and the payload has the shape of
  that schema.
\<close>

theorem gate_record_typed:
  assumes "program_record env codec program node input schema time = Inr (outcome, payload)"
  shows "outcome = fst (gate_choice env program (fp_value input) (Some (JNumber (int_text time)))) \<and>
    (\<exists>declared. node_outcome node outcome = Some declared \<and> oc_schema declared = fp_schema payload) \<and>
    fp_schema payload = ds_reference schema \<and> accepts (ds_shape schema) (fp_value payload)"
proof -
  obtain passed m where r: "select_with_time env program (fp_value input) (Some (JNumber (int_text time))) = Inr (outcome, passed)"
      "\<exists>declared. node_outcome node outcome = Some declared \<and> oc_schema declared = ds_reference schema"
      "project_payload env m input schema = Inr payload"
    using assms by (auto simp: program_record_def Let_def res_simps split: if_splits option.splits)
  have "fp_schema payload = ds_reference schema \<and> accepts (ds_shape schema) (fp_value payload)"
    using r(3) by (auto simp: project_payload_def project_value_def payload_new_def Let_def res_simps split: if_splits)
  with r(1,2) show ?thesis by (auto simp: select_exact split: if_splits)
qed

definition sample_gate_schema :: FlowDataSchema where
  "sample_gate_schema = \<lparr>ds_reference = sample_schema, ds_shape = S_Array (S_Integer 0 9) 0 4\<rparr>"

definition sample_program :: FlowGateProgram where
  "sample_program = (rules_program sample_rules (lit ''low''))\<lparr>gp_default_output := Some (M_Pointer (lit ''/items''))\<rparr>"

definition sample_codec :: "unit gate_codec" where
  "sample_codec = \<lparr>binding_of = (\<lambda>_. \<lparr>gb_policy = (gate_policy, lit ''v1'', []), gb_parameters = JObject []\<rparr>),
     program_value = (\<lambda>_. Some (JObject [])), program_wire = (\<lambda>_. Some sample_program), program_len = (\<lambda>_. Some 100)\<rparr>"

definition sample_gate :: "unit FlowNodeDefinition" where
  "sample_gate = (sample_node ''gate'' [''high'', ''low''])\<lparr>fn_kind := NK_DeterministicGate, fn_gate := Some ()\<rparr>"

definition sample_observation :: FlowPayload where
  "sample_observation = \<lparr>fp_schema = sample_schema, fp_value = JObject [(lit ''items'', JArray [JNumber (lit ''5'')])]\<rparr>"

theorem gate_record_typed_witness:
  "\<exists>payload. program_record sample_mapping_json sample_codec sample_program sample_gate sample_observation sample_gate_schema 0 =
     Inr (lit ''high'', payload) \<and> accepts (ds_shape sample_gate_schema) (fp_value payload)"
proof -
  have "map_ok fst (program_record sample_mapping_json sample_codec sample_program sample_gate sample_observation sample_gate_schema 0) =
      Inr (lit ''high'')"
    by code_simp
  then obtain payload where r: "program_record sample_mapping_json sample_codec sample_program sample_gate sample_observation
      sample_gate_schema 0 = Inr (lit ''high'', payload)"
    by (auto simp: res_simps)
  from gate_record_typed [OF r] r show ?thesis by blast
qed

end
