(* ===== verification/Runner_Redaction.thy ===== *)
theory Runner_Redaction
  imports Factory_Values Canonical_Json "HOL-Library.Sublist" "HOL-Library.Product_Lexorder" "HOL-Library.Option_ord"
begin

text \<open>
  Removal of credentials from runner output,
  \<^verbatim>\<open>agent/octacity-runner/src/supervisor/redaction.rs\<close> and the selection of sensitive values of
  \<^verbatim>\<open>agent/octacity-runner/src/private_files.rs\<close>: the prefix tables and automata of the values, the
  redaction of one output stream that arrives in chunks, the redaction of complete byte strings and JSON
  values, and the ordered queue of runner events. Base64, the length of a serialized event and the
  allocated size of a stream are the parameters of \<open>redaction_env\<close>.
  A panic, or a loop that does not end, is the value \<open>None\<close>. A \<^verbatim>\<open>VecDeque\<close> is a list; the states of
  all values after one byte are consecutive entries of the flat history, as in the code.
\<close>

section \<open>Sensitive values\<close>

text \<open>\<^verbatim>\<open>u8::is_ascii_whitespace\<close>: space, tab, line feed, form feed and carriage return.\<close>

definition is_ascii_whitespace :: "u8 \<Rightarrow> bool" where
  "is_ascii_whitespace b \<longleftrightarrow> b \<in> set [32, 9, 10, 12, 13]"

definition trim_ascii :: "u8 list \<Rightarrow> u8 list" where
  "trim_ascii bytes = rev (dropWhile is_ascii_whitespace (rev (dropWhile is_ascii_whitespace bytes)))"

definition selected_forms :: "u8 list \<Rightarrow> u8 list list" where
  "selected_forms v =
     (let trimmed = trim_ascii v in v # (if trimmed \<noteq> [] \<and> trimmed \<noteq> v then [trimmed] else []))"

definition sensitive_values_new :: "u8 list list \<Rightarrow> u8 list list" where
  "sensitive_values_new vs = remdups_adj (sort (concat (map selected_forms (filter (\<lambda>v. v \<noteq> []) vs))))"

section \<open>Prefix automata\<close>

text \<open>The loop \<^verbatim>\<open>while state > 0 && byte != pattern[state]\<close>, shared by the table and the automaton.\<close>

partial_function (option) fall_back :: "u8 list \<Rightarrow> nat list \<Rightarrow> u8 \<Rightarrow> nat \<Rightarrow> nat option" where
  "fall_back pattern table byte state =
     (if state = 0 then Some 0
      else if length pattern \<le> state then None
      else if byte = pattern ! state then Some state
      else if length table < state then None
      else fall_back pattern table byte (table ! (state - 1)))"

declare fall_back.simps [code]

definition advance_prefix :: "nat \<Rightarrow> u8 \<Rightarrow> u8 list \<Rightarrow> nat list \<Rightarrow> nat option" where
  "advance_prefix state byte pattern table =
     Option.bind (fall_back pattern table byte state) (\<lambda>state.
     if length pattern \<le> state then None
     else Some (if byte = pattern ! state then state + 1 else state))"

primrec prefix_table_loop :: "u8 list \<Rightarrow> nat list \<Rightarrow> nat \<Rightarrow> nat list \<Rightarrow> nat list option" where
  "prefix_table_loop pattern [] matched table = Some table"
| "prefix_table_loop pattern (index # rest) matched table =
     Option.bind (advance_prefix matched (pattern ! index) pattern table) (\<lambda>matched.
     prefix_table_loop pattern rest matched (table[index := matched]))"

definition prefix_table :: "u8 list \<Rightarrow> nat list option" where
  "prefix_table pattern = prefix_table_loop pattern [1..<length pattern] 0 (replicate (length pattern) 0)"

fun advance_states :: "nat list \<Rightarrow> u8 \<Rightarrow> u8 list list \<Rightarrow> nat list list \<Rightarrow> nat list option" where
  "advance_states (s # states) byte (v # values) (t # tables) =
     Option.bind (advance_prefix s byte v t) (\<lambda>s'.
     Option.bind (advance_states states byte values tables) (\<lambda>states'. Some (s' # states')))"
| "advance_states states byte values tables = Some states"

text \<open>The first index whose automaton has read its whole value.\<close>

primrec full_match :: "u8 list list \<Rightarrow> nat \<Rightarrow> nat list \<Rightarrow> nat option option" where
  "full_match values i [] = Some None"
| "full_match values i (s # states) =
     (if length values \<le> i then None
      else if s = length (values ! i) then Some (Some i)
      else full_match values (i + 1) states)"

section \<open>Redaction of a stream\<close>

definition REDACTION_MARKER :: "u8 list" where
  "REDACTION_MARKER = [91, 114, 101, 100, 97, 99, 116, 101, 100, 93]"

definition append_marker :: "u8 list \<Rightarrow> nat \<Rightarrow> u8 list" where
  "append_marker target removed =
     target @ (if removed < length REDACTION_MARKER then replicate removed 42 else REDACTION_MARKER)"

record RedactionStream =
  rs_anchor :: nat
  rs_pending :: "u8 list"
  rs_history :: "nat list"
  rs_base :: "nat list"
  rs_states :: "nat list"

definition redaction_stream_new :: "nat \<Rightarrow> nat \<Rightarrow> RedactionStream" where
  "redaction_stream_new anchor patterns =
     \<lparr>rs_anchor = anchor, rs_pending = [], rs_history = [], rs_base = replicate patterns 0, rs_states = replicate patterns 0\<rparr>"

definition push_byte :: "u8 \<Rightarrow> u8 list list \<Rightarrow> nat list list \<Rightarrow> RedactionStream \<Rightarrow> RedactionStream option" where
  "push_byte byte values tables st =
     Option.bind (advance_states (rs_states st) byte values tables) (\<lambda>states.
     Some (st\<lparr>rs_pending := rs_pending st @ [byte], rs_states := states, rs_history := rs_history st @ states\<rparr>))"

text \<open>\<^verbatim>\<open>pop_back\<close> on an empty deque does nothing.\<close>

definition pop_back_n :: "nat \<Rightarrow> 'a list \<Rightarrow> 'a list" where
  "pop_back_n n xs = take (length xs - n) xs"

definition remove_match :: "nat \<Rightarrow> RedactionStream \<Rightarrow> RedactionStream option" where
  "remove_match matched st =
     (let n = length (rs_states st);
          pending = pop_back_n matched (rs_pending st);
          history = pop_back_n (matched * n) (rs_history st);
          st = st\<lparr>rs_pending := pending, rs_history := history\<rparr>
      in if pending = [] then Some (st\<lparr>rs_states := rs_base st\<rparr>)
         else if length history < n then None
         else Some (st\<lparr>rs_states := drop (length history - n) history\<rparr>))"

primrec marker_is_safe :: "u8 list \<Rightarrow> nat list \<Rightarrow> u8 list list \<Rightarrow> nat list list \<Rightarrow> bool option" where
  "marker_is_safe [] states values tables = Some True"
| "marker_is_safe (byte # marker) states values tables =
     Option.bind (advance_states states byte values tables) (\<lambda>states.
     Option.bind (full_match values 0 states) (\<lambda>found.
     if found \<noteq> None then Some False else marker_is_safe marker states values tables))"

primrec push_bytes :: "u8 list \<Rightarrow> u8 list list \<Rightarrow> nat list list \<Rightarrow> RedactionStream \<Rightarrow> RedactionStream option" where
  "push_bytes [] values tables st = Some st"
| "push_bytes (byte # bytes) values tables st =
     Option.bind (push_byte byte values tables st) (push_bytes bytes values tables)"

definition append_safe_marker :: "nat \<Rightarrow> u8 list list \<Rightarrow> nat list list \<Rightarrow> RedactionStream \<Rightarrow> RedactionStream option" where
  "append_safe_marker removed values tables st =
     (let preferred = append_marker [] removed; fallback = [35] in
      Option.bind (marker_is_safe preferred (rs_states st) values tables) (\<lambda>safe.
      Option.bind (if safe then Some preferred
         else Option.bind (marker_is_safe fallback (rs_states st) values tables) (\<lambda>safe.
           Some (if safe then fallback else []))) (\<lambda>candidate.
      push_bytes candidate values tables st)))"

text \<open>The loop releases the bytes before the longest candidate prefix, \<open>n\<close> of them.\<close>

primrec release_loop :: "nat \<Rightarrow> u8 list \<Rightarrow> RedactionStream \<Rightarrow> (u8 list \<times> RedactionStream) option" where
  "release_loop 0 output st = Some (output, st)"
| "release_loop (Suc n) output st =
     (case rs_pending st of
        [] \<Rightarrow> None
      | byte # pending \<Rightarrow>
          let k = length (rs_base st) in
          if length (rs_history st) < k then None
          else release_loop n (output @ [byte])
            (st\<lparr>rs_pending := pending, rs_base := take k (rs_history st), rs_history := drop k (rs_history st)\<rparr>))"

definition release_safe_prefix :: "u8 list \<Rightarrow> RedactionStream \<Rightarrow> (u8 list \<times> RedactionStream) option" where
  "release_safe_prefix output st =
     (let retained = fold max (rs_states st) 0 in release_loop (length (rs_pending st) - retained) output st)"

primrec stream_push_loop ::
  "u8 list \<Rightarrow> u8 list list \<Rightarrow> nat list list \<Rightarrow> u8 list \<Rightarrow> RedactionStream \<Rightarrow> (u8 list \<times> RedactionStream) option"
where
  "stream_push_loop [] values tables output st = Some (output, st)"
| "stream_push_loop (byte # bytes) values tables output st =
     Option.bind (push_byte byte values tables st) (\<lambda>st.
     Option.bind (full_match values 0 (rs_states st)) (\<lambda>found.
     Option.bind (case found of
         None \<Rightarrow> Some st
       | Some index \<Rightarrow>
           Option.bind (remove_match (length (values ! index)) st)
             (append_safe_marker (rs_states st ! index) values tables)) (\<lambda>st.
     Option.bind (release_safe_prefix output st) (\<lambda>(output, st).
     stream_push_loop bytes values tables output st))))"

definition stream_push ::
  "u8 list \<Rightarrow> u8 list list \<Rightarrow> nat list list \<Rightarrow> RedactionStream \<Rightarrow> (u8 list \<times> RedactionStream) option"
where
  "stream_push bytes values tables st = stream_push_loop bytes values tables [] st"

definition stream_finish :: "RedactionStream \<Rightarrow> u8 list \<times> RedactionStream" where
  "stream_finish st =
     (rs_pending st, st\<lparr>rs_pending := [], rs_history := [], rs_base := replicate (length (rs_base st)) 0,
        rs_states := replicate (length (rs_states st)) 0\<rparr>)"

definition stream_finish_masked ::
  "u8 list list \<Rightarrow> nat list list \<Rightarrow> RedactionStream \<Rightarrow> (u8 list \<times> RedactionStream) option"
where
  "stream_finish_masked values tables st =
     (let removed = length (rs_pending st) in
      Option.bind (remove_match removed st) (\<lambda>st.
      Option.bind (append_safe_marker removed values tables st) (\<lambda>st. Some (stream_finish st))))"

section \<open>Redaction of byte strings\<close>

text \<open>\<^verbatim>\<open>memmem\<close>: the first position at which the needle occurs.\<close>

fun find_bytes :: "u8 list \<Rightarrow> u8 list \<Rightarrow> nat option" where
  "find_bytes needle [] = (if needle = [] then Some 0 else None)"
| "find_bytes needle (b # bytes) =
     (if take (length needle) (b # bytes) = needle then Some 0
      else map_option Suc (find_bytes needle bytes))"

lemma find_bytes_bound: "find_bytes needle bytes = Some i \<Longrightarrow> i + length needle \<le> length bytes"
proof (induction needle bytes arbitrary: i rule: find_bytes.induct)
  case (2 needle b bytes)
  show ?case
  proof (cases "take (length needle) (b # bytes) = needle")
    case True
    then have "length needle \<le> length (b # bytes)" by (metis length_take min.cobounded1)
    with True 2 show ?thesis by simp
  qed (use 2 in auto)
qed (auto split: if_splits)

text \<open>The bytes after the last replacement are \<open>bytes\<close>; an empty needle is never configured, and for
  it the loop of the code would not end.\<close>

function replace_rest :: "u8 list \<Rightarrow> u8 list \<Rightarrow> u8 list \<Rightarrow> u8 list" where
  "replace_rest needle bytes redacted =
     (if needle = [] then redacted @ bytes
      else case find_bytes needle bytes of
        None \<Rightarrow> redacted @ bytes
      | Some relative \<Rightarrow>
          replace_rest needle (drop (relative + length needle) bytes)
            (append_marker (redacted @ take relative bytes) (length needle)))"
  by auto

termination
  by (relation "measure (\<lambda>(needle, bytes, redacted). length bytes)")
    (auto dest!: find_bytes_bound intro: diff_less simp flip: length_greater_0_conv)

declare replace_rest.simps [simp del]

definition redact_needle :: "u8 list \<Rightarrow> u8 list \<Rightarrow> u8 list" where
  "redact_needle needle bytes = replace_rest needle bytes []"

definition redact_bytes :: "u8 list list \<Rightarrow> u8 list \<Rightarrow> u8 list" where
  "redact_bytes values bytes = fold redact_needle values bytes"

section \<open>Redaction of text\<close>

definition is_continuation :: "u8 \<Rightarrow> bool" where
  "is_continuation b \<longleftrightarrow> 128 \<le> unat b \<and> unat b < 192"

definition unicode_scalar :: "rchar \<Rightarrow> bool" where
  "unicode_scalar c \<longleftrightarrow> c < 55296 \<or> 57344 \<le> c \<and> c < 1114112"

text \<open>One character of \<^verbatim>\<open>String::from_utf8\<close>: the lead byte gives the number of continuation bytes, and
  neither an overlong form nor a surrogate is accepted.\<close>

definition decode_char :: "u8 list \<Rightarrow> (rchar \<times> u8 list) option" where
  "decode_char bytes = (case bytes of
     [] \<Rightarrow> None
   | b # rest \<Rightarrow>
       let n = unat b;
           more = (if n < 128 then 0 else if n < 224 then 1 else if n < 240 then 2 else 3);
           lead = (if n < 128 then n else if n < 224 then n - 192 else if n < 240 then n - 224 else n - 240);
           c = fold (\<lambda>b c. c * 64 + (unat b - 128)) (take more rest) lead
       in if (128 \<le> n \<and> n < 192) \<or> length rest < more \<or> \<not> list_all is_continuation (take more rest) \<or>
             utf8_width c \<noteq> Suc more \<or> \<not> unicode_scalar c
          then None else Some (c, drop more rest))"

lemma decode_char_shorter: "decode_char bytes = Some (c, rest) \<Longrightarrow> length rest < length bytes"
  by (auto simp: decode_char_def Let_def split: list.splits if_splits)

function from_utf8 :: "u8 list \<Rightarrow> rstr option" where
  "from_utf8 bytes =
     (if bytes = [] then Some []
      else case decode_char bytes of
        None \<Rightarrow> None
      | Some (c, rest) \<Rightarrow> map_option (Cons c) (from_utf8 rest))"
  by auto

termination
  by (relation "measure length") (auto dest: decode_char_shorter)

declare from_utf8.simps [simp del]

definition redact_string :: "u8 list list \<Rightarrow> rstr \<Rightarrow> rstr option" where
  "redact_string values s = from_utf8 (redact_bytes values (as_bytes s))"

primrec opt_map :: "('a \<Rightarrow> 'b option) \<Rightarrow> 'a list \<Rightarrow> 'b list option" where
  "opt_map f [] = Some []"
| "opt_map f (x # xs) = Option.bind (f x) (\<lambda>y. Option.bind (opt_map f xs) (\<lambda>ys. Some (y # ys)))"

lemma opt_map_cong [fundef_cong]:
  "xs = ys \<Longrightarrow> (\<And>x. x \<in> set ys \<Longrightarrow> f x = g x) \<Longrightarrow> opt_map f xs = opt_map g ys"
  by (induction ys arbitrary: xs) auto

section \<open>Events\<close>

record RunnerEvent =
  ev_schema_version :: u16
  ev_sequence :: u64
  ev_timestamp :: rstr
  ev_category :: rstr
  ev_data :: "(rstr \<times> Json) list"

datatype RunnerSupervisionError = Protocol rstr

record redaction_env =
  base64_encode :: "u8 list \<Rightarrow> rstr"
  base64_decode :: "rstr \<Rightarrow> u8 list option"
  event_wire_bytes :: "RunnerEvent \<Rightarrow> RunnerSupervisionError + nat"
  allocated_bytes :: "RedactionStream \<Rightarrow> nat"

definition json_str :: "Json option \<Rightarrow> rstr option" where
  "json_str v = (case v of Some (JString s) \<Rightarrow> Some s | _ \<Rightarrow> None)"

definition json_object :: "Json option \<Rightarrow> (rstr \<times> Json) list option" where
  "json_object v = (case v of Some (JObject m) \<Rightarrow> Some m | _ \<Rightarrow> None)"

text \<open>\<^verbatim>\<open>as_u64\<close>: the text of a number that was read as a non-negative integer consists of digits.\<close>

definition json_u64 :: "Json option \<Rightarrow> u64 option" where
  "json_u64 v = (case v of
     Some (JNumber t) \<Rightarrow>
       (let n = fold (\<lambda>c n. n * 10 + (c - 48)) t 0
        in if t \<noteq> [] \<and> list_all (\<lambda>c. 48 \<le> c \<and> c < 58) t \<and> n < 2 ^ 64 then Some (of_nat n) else None)
   | _ \<Rightarrow> None)"

text \<open>The replaced keys are present in the maps of the code, so where a new key would go does not matter.\<close>

primrec json_insert :: "rstr \<Rightarrow> Json \<Rightarrow> (rstr \<times> Json) list \<Rightarrow> (rstr \<times> Json) list" where
  "json_insert k v [] = [(k, v)]"
| "json_insert k v (e # m) = (if fst e = k then (k, v) # m else e # json_insert k v m)"

text \<open>The redacted bytes of an encoded payload, the entry \<^verbatim>\<open>data\<close> of a map whose format is binary.\<close>

definition byte_payload :: "redaction_env \<Rightarrow> u8 list list \<Rightarrow> (rstr \<times> Json) list \<Rightarrow> rstr \<Rightarrow> Json \<Rightarrow> rstr option" where
  "byte_payload env values m k v =
     (if k = lit ''data'' \<and> json_str (map_of m (lit ''format'')) \<in> {Some (lit ''bytes''), Some (lit ''raw_bytes'')}
      then Option.bind (json_str (Some v)) (\<lambda>encoded.
        map_option (\<lambda>bytes. base64_encode env (redact_bytes values bytes)) (base64_decode env encoded))
      else None)"

fun redact_value :: "redaction_env \<Rightarrow> u8 list list \<Rightarrow> Json \<Rightarrow> Json option" where
  "redact_value env values (JString s) = map_option JString (redact_string values s)"
| "redact_value env values (JArray items) = map_option JArray (opt_map (redact_value env values) items)"
| "redact_value env values (JObject m) = map_option JObject (opt_map (\<lambda>e.
     map_option (Pair (fst e)) (case byte_payload env values m (fst e) (snd e) of
         Some encoded \<Rightarrow> map_option JString (redact_string values encoded)
       | None \<Rightarrow> redact_value env values (snd e))) m)"
| "redact_value env values v = Some v"

definition redact_map :: "redaction_env \<Rightarrow> u8 list list \<Rightarrow> (rstr \<times> Json) list \<Rightarrow> (rstr \<times> Json) list option" where
  "redact_map env values m =
     Option.bind (redact_value env values (JObject m)) (\<lambda>v. json_object (Some v))"

type_synonym StreamKey = "u64 \<times> u64 option \<times> rstr \<times> rstr"

datatype OutputFormat = OF_Bytes | OF_RawBytes | OF_Line

definition output_format :: "rstr \<Rightarrow> OutputFormat option" where
  "output_format s =
     (if s = lit ''bytes'' then Some OF_Bytes else if s = lit ''raw_bytes'' then Some OF_RawBytes
      else if s = lit ''line'' then Some OF_Line else None)"

definition format_name :: "OutputFormat \<Rightarrow> rstr" where
  "format_name f = (case f of OF_Bytes \<Rightarrow> lit ''bytes'' | OF_RawBytes \<Rightarrow> lit ''raw_bytes'' | OF_Line \<Rightarrow> lit ''line'')"

definition output_payload :: "redaction_env \<Rightarrow> RunnerEvent \<Rightarrow> (StreamKey \<times> OutputFormat \<times> u8 list) option" where
  "output_payload env event =
     (let m = ev_data event in
      if json_str (map_of m (lit ''type'')) \<noteq> Some (lit ''output'') then None
      else
        Option.bind (json_object (map_of m (lit ''payload''))) (\<lambda>payload.
        Option.bind (Option.bind (json_str (map_of payload (lit ''format''))) output_format) (\<lambda>format.
        Option.bind (json_str (map_of payload (lit ''data''))) (\<lambda>encoded.
        Option.bind (if format = OF_Line then Some (as_bytes encoded) else base64_decode env encoded) (\<lambda>bytes.
        Option.bind (json_u64 (map_of m (lit ''run_id''))) (\<lambda>run_id.
        Option.bind (json_str (map_of m (lit ''command_id''))) (\<lambda>command_id.
        Option.bind (json_str (map_of m (lit ''stream''))) (\<lambda>stream.
        Some ((run_id, json_u64 (map_of m (lit ''step_id'')), command_id, stream), format, bytes)))))))))"

definition set_output_data :: "redaction_env \<Rightarrow> RunnerEvent \<Rightarrow> u8 list \<Rightarrow> OutputFormat \<Rightarrow> RunnerEvent option" where
  "set_output_data env event bytes format =
     Option.bind (json_object (map_of (ev_data event) (lit ''payload''))) (\<lambda>payload.
     Option.bind (if format = OF_Line then from_utf8 bytes else Some (base64_encode env bytes)) (\<lambda>text.
     Some (event\<lparr>ev_data := json_insert (lit ''payload'')
       (JObject (json_insert (lit ''data'') (JString text)
         (json_insert (lit ''format'') (JString (format_name format)) payload))) (ev_data event)\<rparr>)))"

end
