(* ===== verification/Runner_Redaction_Match.thy ===== *)
theory Runner_Redaction_Match
  imports Runner_Redaction
begin

text \<open>
  Correctness of the redaction of byte streams. \<open>overlap v t\<close> is the specification of an automaton
  state: the length of the longest prefix of the value \<open>v\<close> that is a suffix of the text \<open>t\<close>. The prefix
  tables and the automata compute it, and a stream keeps it for every prefix of what it has emitted and
  still holds, so no value ever becomes part of that text.
\<close>

section \<open>Longest overlaps\<close>

definition overlap_below :: "nat \<Rightarrow> 'a list \<Rightarrow> 'a list \<Rightarrow> nat" where
  "overlap_below n v t = (GREATEST k. k \<le> n \<and> suffix (take k v) t)"

abbreviation overlap :: "'a list \<Rightarrow> 'a list \<Rightarrow> nat" where
  "overlap v t \<equiv> overlap_below (length v) v t"

lemma overlap_below_props:
  shows "overlap_below n v t \<le> n" and "suffix (take (overlap_below n v t) v) t"
proof -
  have "0 \<le> n \<and> suffix (take 0 v) t" by simp
  then have "overlap_below n v t \<le> n \<and> suffix (take (overlap_below n v t) v) t"
    unfolding overlap_below_def by (rule GreatestI_nat [where b = n]) simp
  then show "overlap_below n v t \<le> n" "suffix (take (overlap_below n v t) v) t" by blast+
qed

lemma overlap_below_greatest: "k \<le> n \<Longrightarrow> suffix (take k v) t \<Longrightarrow> k \<le> overlap_below n v t"
  unfolding overlap_below_def by (rule Greatest_le_nat [where b = n]) auto

lemma overlap_below_eqI:
  assumes "k \<le> n" "suffix (take k v) t" "\<And>j. j \<le> n \<Longrightarrow> suffix (take j v) t \<Longrightarrow> j \<le> k"
  shows "overlap_below n v t = k"
  using assms overlap_below_greatest overlap_below_props by (metis le_antisym)

lemma overlap_full: "overlap v t = length v \<longleftrightarrow> suffix v t"
proof
  assume "overlap v t = length v"
  then show "suffix v t" using overlap_below_props(2) [of "length v" v t] by simp
next
  assume "suffix v t"
  then show "overlap v t = length v" by (intro overlap_below_eqI) simp_all
qed

lemma suffix_of_suffix: "suffix xs zs \<Longrightarrow> suffix ys zs \<Longrightarrow> length xs \<le> length ys \<Longrightarrow> suffix xs ys"
  by (rule suffix_length_suffix)

lemma suffix_take_Suc:
  assumes "k < length v"
  shows "suffix (take (Suc k) v) (t @ [b]) \<longleftrightarrow> suffix (take k v) t \<and> v ! k = b"
  using assms by (auto simp: take_Suc_conv_app_nth)

section \<open>Prefix tables\<close>

text \<open>The first \<open>n\<close> entries of a table are the longest proper overlaps of the value with its own prefixes.\<close>

definition table_ok :: "u8 list \<Rightarrow> nat list \<Rightarrow> nat \<Rightarrow> bool" where
  "table_ok v table n \<longleftrightarrow> n \<le> length table \<and> n \<le> length v \<and>
     (\<forall>i<n. table ! i = overlap_below i v (take (Suc i) v))"

lemma table_ok_mono: "table_ok v table n \<Longrightarrow> m \<le> n \<Longrightarrow> table_ok v table m"
  by (auto simp: table_ok_def)

lemma fall_back_finds:
  assumes "table_ok v table s" and "s < length v" and "suffix (take s v) t"
  shows "\<exists>r\<le> s. fall_back v table b s = Some r \<and> suffix (take r v) t \<and> (r = 0 \<or> v ! r = b) \<and>
     (\<forall>k\<le> s. suffix (take k v) t \<longrightarrow> v ! k = b \<longrightarrow> k \<le> r)"
  using assms
proof (induction s rule: less_induct)
  case (less s)
  show ?case
  proof (cases "s = 0 \<or> b = v ! s")
    case True
    then have "fall_back v table b s = Some s" using less.prems(2) by (subst fall_back.simps) auto
    with True less.prems show ?thesis by auto
  next
    case False
    let ?n = "table ! (s - 1)"
    have n: "?n = overlap_below (s - 1) v (take s v)" using less.prems(1) False by (simp add: table_ok_def)
    then have small: "?n < s" using overlap_below_props(1) [of "s - 1" v "take s v"] False by linarith
    have step: "fall_back v table b s = fall_back v table b ?n"
      using False less.prems(1,2) by (subst fall_back.simps) (simp add: table_ok_def)
    have "suffix (take ?n v) (take s v)" unfolding n by (rule overlap_below_props)
    then have suf: "suffix (take ?n v) t" using less.prems(3) by (rule suffix_order.trans)
    have "table_ok v table ?n" by (rule table_ok_mono [OF less.prems(1) less_imp_le [OF small]])
    from less.IH [OF small this _ suf] small less.prems(2) obtain r where r: "r \<le> ?n" "fall_back v table b ?n = Some r"
      "suffix (take r v) t" "r = 0 \<or> v ! r = b" "\<forall>k\<le>?n. suffix (take k v) t \<longrightarrow> v ! k = b \<longrightarrow> k \<le> r" by auto
    have "k \<le> r" if k: "k \<le> s" "suffix (take k v) t" "v ! k = b" for k
    proof -
      have "k \<le> s - 1" using k False by (cases "k = s") auto
      moreover have "suffix (take k v) (take s v)"
        using k less.prems(2,3) by (intro suffix_of_suffix [OF k(2)]) simp_all
      ultimately have "k \<le> ?n" unfolding n by (rule overlap_below_greatest)
      with r(5) k show ?thesis by blast
    qed
    with r small step show ?thesis by auto
  qed
qed

text \<open>One step of the automaton: from the longest overlap below a bound to the next.\<close>

lemma advance_prefix_step:
  assumes "table_ok v table s" and "s = overlap_below n v t" and "n < length v"
  shows "advance_prefix s b v table = Some (overlap_below (Suc n) v (t @ [b]))"
proof -
  have s: "s \<le> n" "suffix (take s v) t" using overlap_below_props assms(2) by simp_all
  then obtain r where r: "r \<le> s" "fall_back v table b s = Some r" "suffix (take r v) t" "r = 0 \<or> v ! r = b"
      "\<forall>k\<le> s. suffix (take k v) t \<longrightarrow> v ! k = b \<longrightarrow> k \<le> r"
    using fall_back_finds [OF assms(1), of t b] assms(3) by auto
  have len: "r < length v" using r(1) s(1) assms(3) by simp
  have least: "k \<le> r" if "k \<le> n" "suffix (take k v) t" "v ! k = b" for k
    using r(5) overlap_below_greatest [OF that(1,2)] assms(2) that by simp
  have cand: "\<exists>k\<le>n. j = Suc k \<and> suffix (take k v) t \<and> v ! k = b" if "j \<le> Suc n" "suffix (take j v) (t @ [b])" "j \<noteq> 0" for j
    using that assms(3) suffix_take_Suc [of "j - 1" v t b] by (cases j) auto
  have "overlap_below (Suc n) v (t @ [b]) = (if b = v ! r then r + 1 else r)"
  proof (rule overlap_below_eqI)
    show "(if b = v ! r then r + 1 else r) \<le> Suc n" using r(1) s(1) by simp
    show "suffix (take (if b = v ! r then r + 1 else r) v) (t @ [b])"
      using r(3,4) len suffix_take_Suc [of r v t b] by auto
    fix j assume j: "j \<le> Suc n" "suffix (take j v) (t @ [b])"
    show "j \<le> (if b = v ! r then r + 1 else r)"
    proof (cases "j = 0")
      case False
      then obtain k where k: "k \<le> n" "j = Suc k" "suffix (take k v) t" "v ! k = b" using cand [OF j] by blast
      then have "k \<le> r" by (intro least)
      moreover have "v ! r = b" using r(4) k \<open>k \<le> r\<close> by auto
      ultimately show ?thesis using k(2) by simp
    qed simp
  qed
  with r(2) len show ?thesis by (simp add: advance_prefix_def)
qed

lemma prefix_table_loop_finds:
  assumes "table_ok v table i" and "length table = length v" and "0 < i" and "i \<le> length v"
    and "m = overlap_below (i - 1) v (take i v)"
  shows "\<exists>t. prefix_table_loop v [i..<length v] m table = Some t \<and> table_ok v t (length v)"
  using assms
proof (induction "length v - i" arbitrary: i m table)
  case 0
  then show ?case by simp
next
  case (Suc n)
  then have i: "i < length v" by simp
  let ?m = "overlap_below i v (take (Suc i) v)"
  have "m < i" using overlap_below_props(1) [of "i - 1" v "take i v"] Suc.prems(3,5) by linarith
  then have "table_ok v table m" using table_ok_mono [OF Suc.prems(1)] by simp
  from advance_prefix_step [OF this Suc.prems(5), of "v ! i"] i Suc.prems(3)
  have step: "advance_prefix m (v ! i) v table = Some ?m" by (simp add: take_Suc_conv_app_nth)
  have "table[i := ?m] ! j = overlap_below j v (take (Suc j) v)" if "j < Suc i" for j
    using that Suc.prems(1,2) i by (cases "j = i") (simp_all add: table_ok_def)
  then have ok: "table_ok v (table[i := ?m]) (Suc i)" using Suc.prems(2) i by (simp add: table_ok_def)
  have n: "n = length v - Suc i" using Suc.hyps(2) by simp
  have "\<exists>t. prefix_table_loop v [Suc i..<length v] ?m (table[i := ?m]) = Some t \<and> table_ok v t (length v)"
    by (rule Suc.hyps(1) [OF n ok]) (use Suc.prems(2) i in simp_all)
  moreover have "[i..<length v] = i # [Suc i..<length v]" using i by (rule upt_conv_Cons)
  ultimately show ?case using step by simp
qed

lemma prefix_table_finds: "\<exists>t. prefix_table v = Some t \<and> table_ok v t (length v)"
proof (cases v)
  case Nil
  then show ?thesis by (simp add: prefix_table_def table_ok_def)
next
  case (Cons b w)
  have zero: "overlap_below 0 v t = 0" for t using overlap_below_props(1) [of 0 v t] by simp
  have "table_ok v (replicate (length v) 0) 1" using Cons zero by (simp add: table_ok_def)
  with prefix_table_loop_finds [of v "replicate (length v) 0" 1 0] Cons zero show ?thesis
    by (simp add: prefix_table_def)
qed

lemma advance_prefix_overlap:
  assumes "table_ok v table (length v)" and "\<not> suffix v t" and "v \<noteq> []"
  shows "advance_prefix (overlap v t) b v table = Some (overlap v (t @ [b]))"
proof -
  let ?n = "length v - 1"
  have less: "overlap v t < length v"
    using overlap_below_props(1) [of "length v" v t] overlap_full [of v t] assms(2) by linarith
  have "overlap v t = overlap_below ?n v t"
  proof (rule sym, rule overlap_below_eqI)
    show "overlap v t \<le> ?n" using less by simp
    show "suffix (take (overlap v t) v) t" by (rule overlap_below_props)
    show "j \<le> overlap v t" if "j \<le> ?n" "suffix (take j v) t" for j using that by (intro overlap_below_greatest) simp_all
  qed
  moreover have "table_ok v table (overlap v t)" by (rule table_ok_mono [OF assms(1) less_imp_le [OF less]])
  moreover have "?n < length v" "Suc ?n = length v" using assms(3) by (simp_all add: Suc_leI)
  ultimately show ?thesis using advance_prefix_step [of v table "overlap v t" ?n t b] by simp
qed

section \<open>All values at once\<close>

definition states_of :: "u8 list list \<Rightarrow> u8 list \<Rightarrow> nat list" where
  "states_of vs t = map (\<lambda>v. overlap v t) vs"

definition tables_ok :: "u8 list list \<Rightarrow> nat list list \<Rightarrow> bool" where
  "tables_ok vs tables \<longleftrightarrow> list_all2 (\<lambda>v table. v \<noteq> [] \<and> table_ok v table (length v)) vs tables"

text \<open>A text that no value occurs in.\<close>

definition clean :: "u8 list list \<Rightarrow> u8 list \<Rightarrow> bool" where
  "clean vs t \<longleftrightarrow> (\<forall>v\<in>set vs. \<not> sublist v t)"

lemma length_states_of [simp]: "length (states_of vs t) = length vs"
  by (simp add: states_of_def)

lemma clean_sublist: "clean vs t \<Longrightarrow> sublist s t \<Longrightarrow> clean vs s"
  unfolding clean_def using sublist_order.order.trans by blast

lemma clean_snoc: "clean vs (t @ [b]) \<longleftrightarrow> clean vs t \<and> (\<forall>v\<in>set vs. \<not> suffix v (t @ [b]))"
  unfolding clean_def sublist_snoc by blast

lemma clean_not_suffix: "clean vs t \<Longrightarrow> v \<in> set vs \<Longrightarrow> \<not> suffix v t"
  unfolding clean_def using suffix_imp_sublist by blast

lemma advance_states_overlap:
  "tables_ok vs tables \<Longrightarrow> \<forall>v\<in>set vs. \<not> suffix v t \<Longrightarrow>
     advance_states (states_of vs t) b vs tables = Some (states_of vs (t @ [b]))"
proof (induction vs arbitrary: tables)
  case (Cons v vs)
  then obtain table tables' where tables: "tables = table # tables'" by (auto simp: tables_ok_def list_all2_Cons1)
  have "advance_prefix (overlap v t) b v table = Some (overlap v (t @ [b]))"
    using Cons.prems tables by (intro advance_prefix_overlap) (simp_all add: tables_ok_def)
  moreover have "advance_states (states_of vs t) b vs tables' = Some (states_of vs (t @ [b]))"
    using Cons.prems tables by (intro Cons.IH) (simp_all add: tables_ok_def)
  ultimately show ?case unfolding tables by (simp add: states_of_def)
qed (simp add: states_of_def)

lemma full_match_from:
  "i \<le> length vs \<Longrightarrow> (case full_match vs i (states_of (drop i vs) t) of
       None \<Rightarrow> False
     | Some None \<Rightarrow> \<forall>v\<in>set (drop i vs). \<not> suffix v t
     | Some (Some j) \<Rightarrow> j < length vs \<and> suffix (vs ! j) t)"
proof (induction "length vs - i" arbitrary: i)
  case 0
  then show ?case by (simp add: states_of_def)
next
  case (Suc n)
  then have i: "i < length vs" by simp
  then have drop: "drop i vs = vs ! i # drop (Suc i) vs" by (rule Cons_nth_drop_Suc [symmetric])
  show ?case
  proof (cases "suffix (vs ! i) t")
    case True
    with i show ?thesis unfolding drop by (simp add: states_of_def overlap_full)
  next
    case False
    then have "full_match vs i (states_of (drop i vs) t) = full_match vs (Suc i) (states_of (drop (Suc i) vs) t)"
      using i unfolding drop by (simp add: states_of_def overlap_full)
    moreover have "case full_match vs (Suc i) (states_of (drop (Suc i) vs) t) of
         None \<Rightarrow> False
       | Some None \<Rightarrow> \<forall>v\<in>set (drop (Suc i) vs). \<not> suffix v t
       | Some (Some j) \<Rightarrow> j < length vs \<and> suffix (vs ! j) t"
      using Suc.hyps(2) i by (intro Suc.hyps(1)) simp_all
    ultimately show ?thesis using False unfolding drop by (simp split: option.splits)
  qed
qed

lemma full_match_cases:
  obtains (none) "full_match vs 0 (states_of vs t) = Some None" "\<forall>v\<in>set vs. \<not> suffix v t"
    | (found) j where "full_match vs 0 (states_of vs t) = Some (Some j)" "j < length vs" "suffix (vs ! j) t"
  using full_match_from [of 0 vs t] by (auto split: option.splits)

section \<open>The state of a stream\<close>

text \<open>The states after every prefix of the pending bytes, for a stream that has emitted \<open>e\<close>.\<close>

definition history_of :: "u8 list list \<Rightarrow> u8 list \<Rightarrow> u8 list \<Rightarrow> nat list" where
  "history_of vs e p = concat (map (\<lambda>k. states_of vs (e @ take (Suc k) p)) [0..<length p])"

definition stream_ok :: "u8 list list \<Rightarrow> u8 list \<Rightarrow> RedactionStream \<Rightarrow> bool" where
  "stream_ok vs e st \<longleftrightarrow> rs_states st = states_of vs (e @ rs_pending st) \<and> rs_base st = states_of vs e \<and>
     rs_history st = history_of vs e (rs_pending st)"

lemma history_of_Nil [simp]: "history_of vs e [] = []"
  by (simp add: history_of_def)

lemma history_of_snoc: "history_of vs e (p @ [b]) = history_of vs e p @ states_of vs (e @ p @ [b])"
proof -
  have same: "map (\<lambda>k. states_of vs (e @ take (Suc k) (p @ [b]))) [0..<length p] =
      map (\<lambda>k. states_of vs (e @ take (Suc k) p)) [0..<length p]" by (rule map_cong) simp_all
  have "history_of vs e (p @ [b]) =
      concat (map (\<lambda>k. states_of vs (e @ take (Suc k) (p @ [b]))) [0..<length p]) @ states_of vs (e @ p @ [b])"
    by (simp add: history_of_def del: take_append)
  then show ?thesis unfolding same by (simp add: history_of_def)
qed

lemma history_of_Cons: "history_of vs e (b # p) = states_of vs (e @ [b]) @ history_of vs (e @ [b]) p"
proof -
  have "[0..<length (b # p)] = 0 # map Suc [0..<length p]" by (simp add: upt_conv_Cons map_Suc_upt del: upt_Suc)
  then show ?thesis by (simp add: history_of_def comp_def)
qed

lemma length_history_of [simp]: "length (history_of vs e p) = length p * length vs"
  by (induction p arbitrary: e) (simp_all add: history_of_Cons)

lemma take_history_of: "m \<le> length p \<Longrightarrow> take (m * length vs) (history_of vs e p) = history_of vs e (take m p)"
proof (induction p arbitrary: e m)
  case (Cons b p)
  then show ?case by (cases m) (simp_all add: history_of_Cons)
qed simp

lemma last_history_of:
  assumes "p \<noteq> []"
  shows "drop (length (history_of vs e p) - length vs) (history_of vs e p) = states_of vs (e @ p)"
proof -
  obtain q b where "p = q @ [b]" using assms by (cases p rule: rev_cases) simp_all
  then show ?thesis by (simp add: history_of_snoc del: length_history_of)
qed

lemma stream_new_ok:
  assumes "\<forall>v\<in>set vs. v \<noteq> []"
  shows "stream_ok vs [] (redaction_stream_new anchor (length vs))"
proof -
  have "overlap v [] = 0" for v :: "u8 list" using overlap_below_props(2) [of "length v" v "[]"]
      overlap_below_props(1) [of "length v" v "[]"] by (cases v) auto
  then have "states_of vs [] = replicate (length vs) 0" by (simp add: states_of_def map_replicate_const)
  then show ?thesis by (simp add: stream_ok_def redaction_stream_new_def)
qed

section \<open>Stream operations\<close>

lemma push_byte_ok:
  assumes "tables_ok vs tables" "stream_ok vs e st" "clean vs (e @ rs_pending st)"
  shows "\<exists>st'. push_byte b vs tables st = Some st' \<and> stream_ok vs e st' \<and> rs_pending st' = rs_pending st @ [b]"
proof -
  have "\<forall>v\<in>set vs. \<not> suffix v (e @ rs_pending st)" using assms(3) clean_not_suffix by blast
  then have "advance_states (rs_states st) b vs tables = Some (states_of vs (e @ rs_pending st @ [b]))"
    using advance_states_overlap [OF assms(1), of "e @ rs_pending st" b] assms(2) by (simp add: stream_ok_def)
  then show ?thesis using assms(2) by (simp add: push_byte_def stream_ok_def history_of_snoc)
qed

lemma remove_match_ok:
  assumes "stream_ok vs e st"
  shows "\<exists>st'. remove_match m st = Some st' \<and> stream_ok vs e st' \<and> rs_pending st' = take (length (rs_pending st) - m) (rs_pending st)"
proof -
  let ?p = "rs_pending st"
  let ?q = "take (length ?p - m) ?p"
  have n: "length (rs_states st) = length vs" using assms by (simp add: stream_ok_def)
  have "length (rs_history st) - m * length vs = (length ?p - m) * length vs"
    using assms by (simp add: stream_ok_def diff_mult_distrib)
  then have h: "pop_back_n (m * length vs) (rs_history st) = history_of vs e ?q"
    using assms take_history_of [of "length ?p - m" ?p vs e] by (simp add: pop_back_n_def stream_ok_def)
  obtain q where q: "?q = q" by blast
  have p: "pop_back_n m ?p = q" using q by (simp add: pop_back_n_def)
  note eqs = h [unfolded q] n p
  show ?thesis unfolding q
  proof (cases "q = []")
    case True
    with assms eqs show "\<exists>st'. remove_match m st = Some st' \<and> stream_ok vs e st' \<and> rs_pending st' = q"
      by (simp add: remove_match_def stream_ok_def Let_def)
  next
    case False
    then have "length vs \<le> length q * length vs" by (cases q) auto
    with False assms eqs last_history_of [OF False, of vs e]
    show "\<exists>st'. remove_match m st = Some st' \<and> stream_ok vs e st' \<and> rs_pending st' = q"
      by (simp add: remove_match_def stream_ok_def Let_def)
  qed
qed

lemma push_bytes_ok:
  assumes "tables_ok vs tables"
  shows "stream_ok vs e st \<Longrightarrow> clean vs (e @ rs_pending st @ m) \<Longrightarrow>
    \<exists>st'. push_bytes m vs tables st = Some st' \<and> stream_ok vs e st' \<and> rs_pending st' = rs_pending st @ m"
proof (induction m arbitrary: st)
  case (Cons b m)
  have "clean vs (e @ rs_pending st)" using Cons.prems(2) by (rule clean_sublist) auto
  from push_byte_ok [OF assms Cons.prems(1) this, of b] obtain st1 where
    st1: "push_byte b vs tables st = Some st1" "stream_ok vs e st1" "rs_pending st1 = rs_pending st @ [b]" by blast
  have "clean vs (e @ rs_pending st1 @ m)" using Cons.prems(2) st1(3) by simp
  from Cons.IH [OF st1(2) this] st1 show ?case by auto
qed simp

lemma marker_is_safe_exact:
  assumes "tables_ok vs tables"
  shows "clean vs t \<Longrightarrow> marker_is_safe m (states_of vs t) vs tables = Some (clean vs (t @ m))"
proof (induction m arbitrary: t)
  case (Cons b m)
  have step: "advance_states (states_of vs t) b vs tables = Some (states_of vs (t @ [b]))"
    using Cons.prems clean_not_suffix by (intro advance_states_overlap [OF assms]) blast
  show ?case
  proof (cases rule: full_match_cases [of vs "t @ [b]"])
    case none
    then have "clean vs (t @ [b])" using Cons.prems clean_snoc by blast
    from Cons.IH [OF this] none step show ?thesis by simp
  next
    case (found j)
    then have "\<not> clean vs (t @ [b])" using clean_not_suffix nth_mem by blast
    then have "\<not> clean vs (t @ b # m)" using clean_sublist [of vs "t @ b # m" "t @ [b]"] by auto
    with found step show ?thesis by simp
  qed
qed simp

lemma append_safe_marker_ok:
  assumes "tables_ok vs tables" "stream_ok vs e st" "clean vs (e @ rs_pending st)"
  shows "\<exists>m st'. append_safe_marker n vs tables st = Some st' \<and> stream_ok vs e st' \<and> rs_pending st' = rs_pending st @ m \<and>
    clean vs (e @ rs_pending st @ m) \<and>
    m = (if clean vs (e @ rs_pending st @ append_marker [] n) then append_marker [] n
         else if clean vs (e @ rs_pending st @ [35]) then [35] else [])"
proof -
  let ?t = "e @ rs_pending st"
  let ?m = "if clean vs (?t @ append_marker [] n) then append_marker [] n else if clean vs (?t @ [35]) then [35] else []"
  have safe: "marker_is_safe m (rs_states st) vs tables = Some (clean vs (?t @ m))" for m
    using marker_is_safe_exact [OF assms(1,3)] assms(2) by (simp add: stream_ok_def)
  have "append_safe_marker n vs tables st = push_bytes ?m vs tables st"
    by (simp add: append_safe_marker_def safe Let_def)
  moreover have clean: "clean vs (e @ rs_pending st @ ?m)" using assms(3) by simp
  ultimately show ?thesis using push_bytes_ok [OF assms(1,2) clean] by auto
qed

lemma release_loop_ok:
  "stream_ok vs e st \<Longrightarrow> n \<le> length (rs_pending st) \<Longrightarrow>
     \<exists>st'. release_loop n out st = Some (out @ take n (rs_pending st), st') \<and>
       stream_ok vs (e @ take n (rs_pending st)) st' \<and> rs_pending st' = drop n (rs_pending st) \<and> rs_states st' = rs_states st"
proof (induction n arbitrary: e st out)
  case (Suc n)
  then obtain b p where p: "rs_pending st = b # p" by (cases "rs_pending st") auto
  let ?st = "st\<lparr>rs_pending := p, rs_base := states_of vs (e @ [b]), rs_history := history_of vs (e @ [b]) p\<rparr>"
  have "release_loop (Suc n) out st = release_loop n (out @ [b]) ?st"
    using Suc.prems(1) p by (simp add: stream_ok_def history_of_Cons Let_def)
  moreover have "stream_ok vs (e @ [b]) ?st" using Suc.prems(1) p by (simp add: stream_ok_def)
  ultimately show ?case using Suc.IH [of "e @ [b]" ?st "out @ [b]"] Suc.prems(2) p by simp
qed simp

lemma release_safe_prefix_ok:
  assumes "stream_ok vs e st"
  shows "\<exists>o' st'. release_safe_prefix out st = Some (out @ o', st') \<and> stream_ok vs (e @ o') st' \<and>
     o' @ rs_pending st' = rs_pending st \<and> rs_states st' = rs_states st \<and>
     length (rs_pending st') = min (length (rs_pending st)) (fold max (rs_states st) 0)"
proof -
  let ?n = "length (rs_pending st) - fold max (rs_states st) 0"
  obtain st' where "release_loop ?n out st = Some (out @ take ?n (rs_pending st), st')"
      "stream_ok vs (e @ take ?n (rs_pending st)) st'" "rs_pending st' = drop ?n (rs_pending st)" "rs_states st' = rs_states st"
    using release_loop_ok [OF assms, of ?n out] by auto
  then show ?thesis by (intro exI [of _ "take ?n (rs_pending st)"] exI [of _ st']) (simp add: release_safe_prefix_def Let_def min_def)
qed

lemma fold_max_ge: "x \<in> set xs \<Longrightarrow> x \<le> fold max xs (a :: nat)"
proof -
  have mono: "a \<le> fold max xs a" for a and xs :: "nat list"
  proof (induction xs arbitrary: a)
    case (Cons y xs)
    from Cons.IH [of "max y a"] show ?case by simp
  qed simp
  show "x \<in> set xs \<Longrightarrow> x \<le> fold max xs a"
  proof (induction xs arbitrary: a)
    case (Cons y xs)
    with mono [of "max y a" xs] show ?case by auto
  qed simp
qed

text \<open>Values without the bytes of the markers, and a stream that holds every candidate prefix whole.\<close>

definition plain :: "u8 list list \<Rightarrow> bool" where
  "plain vs \<longleftrightarrow> (\<forall>v\<in>set vs. {35, 42, 93} \<inter> set v = {})"

definition tight :: "u8 list list \<Rightarrow> u8 list \<Rightarrow> u8 list \<Rightarrow> bool" where
  "tight vs e p \<longleftrightarrow> (\<forall>v\<in>set vs. overlap v (e @ p) \<le> length p)"

lemma overlap_snoc: "overlap v (t @ [b]) \<le> Suc (overlap v t)"
proof (cases "overlap v (t @ [b])")
  case (Suc k)
  have "suffix (take (Suc k) v) (t @ [b])" "k < length v"
    using overlap_below_props [of "length v" v "t @ [b]"] Suc by simp_all
  then have "k \<le> overlap v t" using suffix_take_Suc [of k v t b] by (intro overlap_below_greatest) simp_all
  with Suc show ?thesis by simp
qed simp

lemma overlap_new_byte:
  assumes "b \<notin> set v"
  shows "overlap v (t @ [b]) = 0"
proof (cases "overlap v (t @ [b])")
  case (Suc k)
  have "suffix (take (Suc k) v) (t @ [b])" "k < length v"
    using overlap_below_props [of "length v" v "t @ [b]"] Suc by simp_all
  then have "v ! k = b" using suffix_take_Suc [of k v t b] by simp
  with assms \<open>k < length v\<close> show ?thesis using nth_mem by blast
qed

lemma tight_snoc: "tight vs e p \<Longrightarrow> tight vs e (p @ [b])"
  unfolding tight_def using overlap_snoc [of _ "e @ p" b] by (fastforce intro: order_trans)

lemma marker_last: "0 < n \<Longrightarrow> \<exists>m b. append_marker [] n = m @ [b] \<and> b \<in> {42, 93}"
proof (cases "n < 10")
  case True
  assume "0 < n"
  then have "replicate n 42 = replicate (n - 1) 42 @ [42 :: u8]" by (cases n) (simp_all add: replicate_append_same)
  with True show ?thesis by (auto simp: append_marker_def REDACTION_MARKER_def)
next
  case False
  then have "append_marker [] n = butlast REDACTION_MARKER @ [93]" by (simp add: append_marker_def REDACTION_MARKER_def)
  then show ?thesis by blast
qed

lemma marker_tight:
  assumes "plain vs" "0 < n" "\<forall>v\<in>set vs. v \<noteq> []" "clean vs t"
    and "m = (if clean vs (t @ append_marker [] n) then append_marker [] n else if clean vs (t @ [35]) then [35] else [])"
  shows "\<forall>v\<in>set vs. overlap v (t @ m) = 0"
proof -
  have "clean vs (t @ [35])"
    unfolding clean_snoc using assms(1,3,4) by (auto simp: plain_def suffix_def append_eq_append_conv2 Cons_eq_append_conv)
  then have "\<exists>m' b. m = m' @ [b] \<and> b \<in> {35, 42, 93}" using assms(5) marker_last [OF assms(2)] by auto
  then obtain m' b where m: "m = m' @ [b]" "b \<in> {35, 42, 93}" by blast
  have "overlap v (t @ m) = 0" if "v \<in> set vs" for v
    using overlap_new_byte [of b v "t @ m'"] m assms(1) that by (auto simp: plain_def)
  then show ?thesis by blast
qed

lemma remove_found:
  assumes tables: "tables_ok vs tables" and st: "stream_ok vs e st" "rs_pending st = p @ [b]" and p: "clean vs (e @ p)"
    and v: "v \<in> set vs"
  shows "\<exists>st'. Option.bind (remove_match (length v) st) (append_safe_marker n vs tables) = Some st' \<and>
    stream_ok vs e st' \<and> clean vs (e @ rs_pending st') \<and> (plain vs \<longrightarrow> 0 < n \<longrightarrow> tight vs e (rs_pending st'))"
proof -
  obtain st1 where st1: "remove_match (length v) st = Some st1" "stream_ok vs e st1"
      "rs_pending st1 = take (length (p @ [b]) - length v) (p @ [b])"
    using remove_match_ok [OF st(1), of "length v"] st(2) by auto
  have "v \<noteq> []" using tables v by (auto simp: tables_ok_def list_all2_conv_all_nth in_set_conv_nth)
  then have "rs_pending st1 = take (length p + 1 - length v) p" using st1(3) by (cases v) simp_all
  then have "clean vs (e @ rs_pending st1)"
    using clean_sublist [OF p, of "e @ rs_pending st1"] by (simp add: take_is_prefix prefix_imp_sublist)
  from append_safe_marker_ok [OF tables st1(2) this, of n] obtain m st' where
    st': "append_safe_marker n vs tables st1 = Some st'" "stream_ok vs e st'" "rs_pending st' = rs_pending st1 @ m"
      "clean vs (e @ rs_pending st')"
      "m = (if clean vs (e @ rs_pending st1 @ append_marker [] n) then append_marker [] n
         else if clean vs (e @ rs_pending st1 @ [35]) then [35] else [])" by metis
  have nonempty: "\<forall>v\<in>set vs. v \<noteq> []" using tables by (auto simp: tables_ok_def list_all2_conv_all_nth in_set_conv_nth)
  have "m = (if clean vs ((e @ rs_pending st1) @ append_marker [] n) then append_marker [] n
      else if clean vs ((e @ rs_pending st1) @ [35]) then [35] else [])"
    unfolding append_assoc by (rule st'(5))
  note zero = marker_tight [OF _ _ nonempty \<open>clean vs (e @ rs_pending st1)\<close> this]
  have "tight vs e (rs_pending st')" if "plain vs" "0 < n"
    using zero [OF that] unfolding tight_def st'(3) append_assoc by simp
  with st1(1) st'(1,2,4) show ?thesis by simp
qed

lemma stream_push_loop_ok:
  assumes tables: "tables_ok vs tables"
  shows "stream_ok vs e st \<Longrightarrow> clean vs (e @ rs_pending st) \<Longrightarrow>
    \<exists>o' st'. stream_push_loop bytes vs tables out st = Some (out @ o', st') \<and> stream_ok vs (e @ o') st' \<and>
      clean vs (e @ o' @ rs_pending st') \<and>
      (clean vs (e @ rs_pending st @ bytes) \<longrightarrow> o' @ rs_pending st' = rs_pending st @ bytes) \<and>
      (bytes \<noteq> [] \<longrightarrow> length (rs_pending st') \<le> fold max (rs_states st') 0) \<and>
      (plain vs \<longrightarrow> tight vs e (rs_pending st) \<longrightarrow> tight vs (e @ o') (rs_pending st'))"
proof (induction bytes arbitrary: e st out)
  case (Cons b bytes)
  let ?p = "rs_pending st"
  obtain st1 where st1: "push_byte b vs tables st = Some st1" "stream_ok vs e st1" "rs_pending st1 = ?p @ [b]"
    using push_byte_ok [OF tables Cons.prems] by blast
  have states: "rs_states st1 = states_of vs (e @ ?p @ [b])" using st1(2,3) by (simp add: stream_ok_def)
  define handle where "handle found = (case found of None \<Rightarrow> Some st1
     | Some i \<Rightarrow> Option.bind (remove_match (length (vs ! i)) st1) (append_safe_marker (rs_states st1 ! i) vs tables))" for found
  obtain found st2 where st2: "full_match vs 0 (rs_states st1) = Some found" "handle found = Some st2"
      "stream_ok vs e st2" "clean vs (e @ rs_pending st2)"
      "clean vs (e @ ?p @ b # bytes) \<Longrightarrow> rs_pending st2 = ?p @ [b]"
      "plain vs \<Longrightarrow> tight vs e ?p \<Longrightarrow> tight vs e (rs_pending st2)"
  proof (cases rule: full_match_cases [of vs "e @ ?p @ [b]"])
    case none
    then have "clean vs (e @ ?p @ [b])" using clean_snoc [of vs "e @ ?p" b] Cons.prems(2) by simp
    then show ?thesis using that [of None st1] none st1 states tight_snoc [of vs e ?p b] by (simp add: handle_def)
  next
    case (found j)
    then have mem: "vs ! j \<in> set vs" by simp
    have "rs_states st1 ! j = length (vs ! j)"
      using found states overlap_full [of "vs ! j" "e @ ?p @ [b]"] by (simp add: states_of_def)
    moreover have "vs ! j \<noteq> []" using tables found(2) by (auto simp: tables_ok_def list_all2_conv_all_nth)
    ultimately have "0 < rs_states st1 ! j" by simp
    with remove_found [OF tables st1(2,3) Cons.prems(2) mem, of "rs_states st1 ! j"]
    obtain st2 where "handle (Some j) = Some st2" "stream_ok vs e st2" "clean vs (e @ rs_pending st2)"
      "plain vs \<Longrightarrow> tight vs e (rs_pending st2)" by (auto simp: handle_def)
    moreover have "\<not> clean vs (e @ ?p @ b # bytes)"
      using found clean_not_suffix [of vs "e @ ?p @ [b]"] clean_sublist [of vs "e @ ?p @ b # bytes" "e @ ?p @ [b]"] nth_mem by auto
    ultimately show ?thesis using that [of "Some j" st2] found(1) states by simp
  qed
  have tight3: "tight vs (e @ o1) (rs_pending st3)"
    if st3: "stream_ok vs e st2" "o1 @ rs_pending st3 = rs_pending st2" "tight vs e (rs_pending st2)"
      "length (rs_pending st3) = min (length (rs_pending st2)) (fold max (rs_states st2) 0)" for o1 and st3 :: RedactionStream
  proof -
    have "overlap v (e @ rs_pending st2) \<le> fold max (rs_states st2) 0" if "v \<in> set vs" for v
      using that st3(1) fold_max_ge [of "overlap v (e @ rs_pending st2)" "rs_states st2"] by (auto simp: stream_ok_def states_of_def)
    with st3 show ?thesis by (auto simp: tight_def)
  qed
  obtain o1 st3 where st3: "release_safe_prefix out st2 = Some (out @ o1, st3)" "stream_ok vs (e @ o1) st3"
      "o1 @ rs_pending st3 = rs_pending st2" "rs_states st3 = rs_states st2"
      "length (rs_pending st3) = min (length (rs_pending st2)) (fold max (rs_states st2) 0)"
    using release_safe_prefix_ok [OF st2(3)] by blast
  have "stream_push_loop (b # bytes) vs tables out st = stream_push_loop bytes vs tables (out @ o1) st3"
    using st1(1) st2(1,2) st3(1) by (simp add: handle_def)
  moreover have "clean vs ((e @ o1) @ rs_pending st3)" using st2(4) st3(3) by simp
  from Cons.IH [OF st3(2) this, of "out @ o1"] obtain o2 st' where
    st': "stream_push_loop bytes vs tables (out @ o1) st3 = Some ((out @ o1) @ o2, st')" "stream_ok vs ((e @ o1) @ o2) st'"
      "clean vs ((e @ o1) @ o2 @ rs_pending st')"
      "clean vs ((e @ o1) @ rs_pending st3 @ bytes) \<longrightarrow> o2 @ rs_pending st' = rs_pending st3 @ bytes"
      "bytes \<noteq> [] \<longrightarrow> length (rs_pending st') \<le> fold max (rs_states st') 0"
      "plain vs \<longrightarrow> tight vs (e @ o1) (rs_pending st3) \<longrightarrow> tight vs ((e @ o1) @ o2) (rs_pending st')" by blast
  have "o1 @ o2 @ rs_pending st' = ?p @ b # bytes" if same: "clean vs (e @ ?p @ b # bytes)"
  proof -
    have held: "o1 @ rs_pending st3 = ?p @ [b]" using st2(5) [OF same] st3(3) by simp
    have "(e @ o1) @ rs_pending st3 @ bytes = e @ (o1 @ rs_pending st3) @ bytes" by simp
    also have "\<dots> = e @ ?p @ b # bytes" unfolding held by simp
    finally have "clean vs ((e @ o1) @ rs_pending st3 @ bytes)" using same by (simp only:)
    with st'(4) have "o2 @ rs_pending st' = rs_pending st3 @ bytes" by (rule mp)
    then have "o1 @ o2 @ rs_pending st' = (o1 @ rs_pending st3) @ bytes" by simp
    then show ?thesis unfolding held by simp
  qed
  moreover have "length (rs_pending st') \<le> fold max (rs_states st') 0"
    using st'(1,5) st3(4,5) by (cases "bytes = []") auto
  moreover have "tight vs (e @ o1 @ o2) (rs_pending st')" if "plain vs" "tight vs e ?p"
    using st'(6) that tight3 [OF st2(3) st3(3) st2(6) [OF that] st3(5)] by simp
  ultimately show ?case using st'(1,2,3) by (intro exI [of _ "o1 @ o2"] exI [of _ st']) simp
qed (auto)

lemma stream_push_ok:
  assumes "tables_ok vs tables" "stream_ok vs e st" "clean vs (e @ rs_pending st)"
  obtains o' st' where "stream_push bytes vs tables st = Some (o', st')" "stream_ok vs (e @ o') st'"
    "clean vs (e @ o' @ rs_pending st')" "clean vs (e @ rs_pending st @ bytes) \<longrightarrow> o' @ rs_pending st' = rs_pending st @ bytes"
    "bytes \<noteq> [] \<longrightarrow> length (rs_pending st') \<le> fold max (rs_states st') 0"
    "plain vs \<longrightarrow> tight vs e (rs_pending st) \<longrightarrow> tight vs (e @ o') (rs_pending st')"
  using stream_push_loop_ok [OF assms, of bytes "[]"] by (auto simp: stream_push_def)

lemma stream_finish_masked_ok:
  assumes tables: "tables_ok vs tables" and st: "stream_ok vs e st" "clean vs (e @ rs_pending st)"
  obtains o' st' where "stream_finish_masked vs tables st = Some (o', st')" "clean vs (e @ o')"
proof -
  obtain st1 where st1: "remove_match (length (rs_pending st)) st = Some st1" "stream_ok vs e st1" "rs_pending st1 = []"
    using remove_match_ok [OF st(1), of "length (rs_pending st)"] by auto
  have "clean vs (e @ rs_pending st1)" using clean_sublist [OF st(2), of e] st1(3) by auto
  from append_safe_marker_ok [OF tables st1(2) this, of "length (rs_pending st)"] obtain m st2 where
    "append_safe_marker (length (rs_pending st)) vs tables st1 = Some st2" "rs_pending st2 = m" "clean vs (e @ m)"
    using st1(3) by auto
  with st1(1) show ?thesis by (intro that) (simp_all add: stream_finish_masked_def stream_finish_def)
qed

end
