(* ===== verification/Runner_Events.thy ===== *)
theory Runner_Events
  imports Runner_Redaction
begin

text \<open>
  The ordered queue of runner events of \<^verbatim>\<open>agent/octacity-runner/src/supervisor/redaction.rs\<close>: an event
  waits while a stream anchored at it or at an earlier event holds a possible prefix of a sensitive
  value. A panic is the value \<open>None\<close>; \<^verbatim>\<open>usize\<close> arithmetic is written out on natural numbers. The
  credential files that add values during an execution are not modelled, only the extension itself.
\<close>

definition MAX_RUNNER_OUTPUT_FRAME_BYTES :: nat where "MAX_RUNNER_OUTPUT_FRAME_BYTES = 16 * 1024 * 1024"

definition MAX_REDACTION_STREAMS :: nat where "MAX_REDACTION_STREAMS = 64"

definition MAX_REDACTION_PENDING_BYTES :: nat where
  "MAX_REDACTION_PENDING_BYTES = MAX_RUNNER_OUTPUT_FRAME_BYTES"

record PendingEvent =
  pe_event :: RunnerEvent
  pe_bytes :: nat

record RunnerRedactions =
  rr_values :: "u8 list list"
  rr_tables :: "nat list list"
  rr_streams :: "(StreamKey, RedactionStream) btree"
  rr_pending :: "PendingEvent list"
  rr_pending_bytes :: nat

type_synonym 'a supervised = "(RunnerSupervisionError + 'a) option"

definition redactions_new :: "u8 list list \<Rightarrow> RunnerRedactions option" where
  "redactions_new vs =
     (let selected = sort_key (\<lambda>v. - int (length v)) (sensitive_values_new vs) in
      Option.bind (opt_map prefix_table selected) (\<lambda>tables.
      Some \<lparr>rr_values = selected, rr_tables = tables, rr_streams = [], rr_pending = [], rr_pending_bytes = 0\<rparr>))"

definition redactions_extend :: "u8 list list \<Rightarrow> RunnerRedactions \<Rightarrow> RunnerRedactions option" where
  "redactions_extend additional r = redactions_new (rr_values r @ additional)"

definition redaction_limit :: "string \<Rightarrow> RunnerSupervisionError" where
  "redaction_limit kind = Protocol (lit (''redaction '' @ kind @ '' exceeds the bounded supervisor limit''))"

definition usize_saturating_add :: "nat \<Rightarrow> nat \<Rightarrow> nat" where
  "usize_saturating_add a b = min (a + b) (2 ^ 64 - 1)"

definition total_bytes :: "redaction_env \<Rightarrow> RunnerRedactions \<Rightarrow> nat" where
  "total_bytes env r = usize_saturating_add (rr_pending_bytes r)
     (fold (\<lambda>st acc. usize_saturating_add acc (allocated_bytes env st)) (bt_values (rr_streams r)) 0)"

section \<open>Release\<close>

primrec pop_events :: "nat \<Rightarrow> PendingEvent list \<Rightarrow> nat \<Rightarrow> RunnerEvent list \<Rightarrow> (RunnerEvent list \<times> PendingEvent list \<times> nat) supervised" where
  "pop_events 0 queue bytes emitted = Some (Inr (emitted, queue, bytes))"
| "pop_events (Suc n) queue bytes emitted =
     (case queue of
        [] \<Rightarrow> Some (Inl (Protocol (lit ''redaction queue became inconsistent'')))
      | p # rest \<Rightarrow>
          if bytes < pe_bytes p then None
          else pop_events n rest (bytes - pe_bytes p) (emitted @ [pe_event p]))"

definition first_anchor :: "RunnerRedactions \<Rightarrow> nat" where
  "first_anchor r = (case map rs_anchor (bt_values (rr_streams r)) of
     [] \<Rightarrow> length (rr_pending r) | a # as \<Rightarrow> fold min as a)"

definition release_resolved :: "RunnerRedactions \<Rightarrow> (RunnerEvent list \<times> RunnerRedactions) supervised" where
  "release_resolved r =
     (let count = first_anchor r in
      also_then (pop_events count (rr_pending r) (rr_pending_bytes r) []) (\<lambda>(emitted, queue, bytes).
      Some (Inr (emitted, r\<lparr>rr_pending := queue, rr_pending_bytes := bytes,
        rr_streams := map (\<lambda>e. (fst e, (snd e)\<lparr>rs_anchor := rs_anchor (snd e) - count\<rparr>)) (rr_streams r)\<rparr>))))"

section \<open>Changes of a pending event\<close>

definition push_event :: "RunnerEvent \<Rightarrow> nat \<Rightarrow> RunnerRedactions \<Rightarrow> RunnerRedactions supervised" where
  "push_event event bytes r =
     (if 2 ^ 64 \<le> rr_pending_bytes r + bytes then Some (Inl (redaction_limit ''pending byte count''))
      else Some (Inr (r\<lparr>rr_pending_bytes := rr_pending_bytes r + bytes,
        rr_pending := rr_pending r @ [\<lparr>pe_event = event, pe_bytes = bytes\<rparr>]\<rparr>)))"

text \<open>The event at the index is replaced, then its size is refreshed.\<close>

definition refresh_event :: "redaction_env \<Rightarrow> nat \<Rightarrow> RunnerEvent \<Rightarrow> RunnerRedactions \<Rightarrow> RunnerRedactions supervised" where
  "refresh_event env index event r =
     also_then (Some (event_wire_bytes env event)) (\<lambda>bytes.
       let old = pe_bytes (rr_pending r ! index) in
       if rr_pending_bytes r < old \<or> 2 ^ 64 \<le> rr_pending_bytes r - old + bytes then None
       else Some (Inr (r\<lparr>rr_pending_bytes := rr_pending_bytes r - old + bytes,
         rr_pending := (rr_pending r)[index := \<lparr>pe_event = event, pe_bytes = bytes\<rparr>]\<rparr>)))"

definition store_output_data ::
  "redaction_env \<Rightarrow> nat \<Rightarrow> u8 list \<Rightarrow> OutputFormat \<Rightarrow> RunnerRedactions \<Rightarrow> RunnerRedactions supervised"
where
  "store_output_data env index bytes format r =
     (if length (rr_pending r) \<le> index then None
      else Option.bind (set_output_data env (pe_event (rr_pending r ! index)) bytes format) (\<lambda>event.
        refresh_event env index event r))"

definition append_output_data :: "redaction_env \<Rightarrow> nat \<Rightarrow> u8 list \<Rightarrow> RunnerRedactions \<Rightarrow> RunnerRedactions supervised" where
  "append_output_data env index added r =
     (if length (rr_pending r) \<le> index then None
      else case output_payload env (pe_event (rr_pending r ! index)) of
        None \<Rightarrow> Some (Inl (Protocol (lit ''redaction anchor is not an output event'')))
      | Some (_, format, bytes) \<Rightarrow> store_output_data env index (bytes @ added) format r)"

definition redact_event :: "redaction_env \<Rightarrow> nat \<Rightarrow> RunnerRedactions \<Rightarrow> RunnerRedactions supervised" where
  "redact_event env index r =
     (if length (rr_pending r) \<le> index then None
      else let event = pe_event (rr_pending r ! index) in
        Option.bind (redact_map env (rr_values r) (ev_data event)) (\<lambda>m.
        refresh_event env index (event\<lparr>ev_data := m\<rparr>) r))"

section \<open>Stream boundaries\<close>

definition remove_stream :: "StreamKey \<Rightarrow> RunnerRedactions \<Rightarrow> RunnerRedactions" where
  "remove_stream key r = r\<lparr>rr_streams := filter (\<lambda>e. fst e \<noteq> key) (rr_streams r)\<rparr>"

definition append_tail :: "redaction_env \<Rightarrow> nat \<Rightarrow> u8 list \<Rightarrow> RunnerRedactions \<Rightarrow> RunnerRedactions supervised" where
  "append_tail env anchor bytes r =
     (if bytes = [] then Some (Inr r)
      else also_then (append_output_data env anchor bytes r) (redact_event env anchor))"

primrec flush_keys :: "redaction_env \<Rightarrow> StreamKey list \<Rightarrow> RunnerRedactions \<Rightarrow> RunnerRedactions supervised" where
  "flush_keys env [] r = Some (Inr r)"
| "flush_keys env (key # keys) r =
     (case bt_get (rr_streams r) key of
        None \<Rightarrow> flush_keys env keys r
      | Some st \<Rightarrow>
          also_then (append_tail env (rs_anchor st) (fst (stream_finish st)) (remove_stream key r)) (flush_keys env keys))"

primrec mask_keys :: "redaction_env \<Rightarrow> StreamKey list \<Rightarrow> RunnerRedactions \<Rightarrow> RunnerRedactions supervised" where
  "mask_keys env [] r = Some (Inr r)"
| "mask_keys env (key # keys) r =
     (case bt_get (rr_streams r) key of
        None \<Rightarrow> mask_keys env keys r
      | Some st \<Rightarrow>
          Option.bind (stream_finish_masked (rr_values r) (rr_tables r) st) (\<lambda>(bytes, _).
          also_then (append_tail env (rs_anchor st) bytes (remove_stream key r)) (mask_keys env keys)))"

definition relieve_pressure :: "redaction_env \<Rightarrow> RunnerRedactions \<Rightarrow> (RunnerEvent list \<times> RunnerRedactions) supervised" where
  "relieve_pressure env r = also_then (mask_keys env (bt_keys (rr_streams r)) r) release_resolved"

text \<open>The streams that a finished step or run ends; \<open>None\<close> for any other event.\<close>

definition boundary :: "RunnerEvent \<Rightarrow> (u64 \<times> u64 option) option" where
  "boundary event =
     Option.bind (json_u64 (map_of (ev_data event) (lit ''run_id''))) (\<lambda>run_id.
     let kind = json_str (map_of (ev_data event) (lit ''type'')) in
     if kind = Some (lit ''step_finished'')
     then Some (run_id, Option.bind (json_object (map_of (ev_data event) (lit ''step''))) (\<lambda>step. json_u64 (map_of step (lit ''id''))))
     else if kind = Some (lit ''run_finished'') then Some (run_id, None)
     else None)"

definition flush_for_boundary :: "redaction_env \<Rightarrow> nat \<Rightarrow> RunnerRedactions \<Rightarrow> RunnerRedactions supervised" where
  "flush_for_boundary env index r =
     (if length (rr_pending r) \<le> index then None
      else case boundary (pe_event (rr_pending r ! index)) of
        None \<Rightarrow> Some (Inr r)
      | Some (run_id, step_id) \<Rightarrow>
          flush_keys env (filter (\<lambda>(run, step, _). run = run_id \<and> (step_id = None \<or> step = step_id)) (bt_keys (rr_streams r))) r)"

section \<open>Events\<close>

text \<open>A chunk of bytes goes through the stream of its key, which is opened on demand and dropped as soon as
  nothing is pending.\<close>

definition redact_chunk ::
  "u8 list list \<Rightarrow> nat list list \<Rightarrow> nat \<Rightarrow> StreamKey \<Rightarrow> u8 list \<Rightarrow> (StreamKey, RedactionStream) btree \<Rightarrow>
     (u8 list \<times> (StreamKey, RedactionStream) btree) option"
where
  "redact_chunk values tables index key bytes streams =
     (let st = (case bt_get streams key of
            None \<Rightarrow> redaction_stream_new index (length values) | Some st \<Rightarrow> st)\<lparr>rs_anchor := index\<rparr>
      in Option.bind (stream_push bytes values tables st) (\<lambda>(released, st).
         Some (released, if rs_pending st = [] then filter (\<lambda>e. fst e \<noteq> key) streams else bt_insert key st streams)))"

definition redact_output ::
  "redaction_env \<Rightarrow> nat \<Rightarrow> StreamKey \<Rightarrow> OutputFormat \<Rightarrow> u8 list \<Rightarrow> RunnerRedactions \<Rightarrow> RunnerRedactions supervised"
where
  "redact_output env index key format bytes r =
     (if format = OF_Line then
        (case bt_get (rr_streams r) key of
           None \<Rightarrow> Some (Inr r)
         | Some st \<Rightarrow>
             Option.bind (stream_push bytes (rr_values r) (rr_tables r) st) (\<lambda>(released, st).
             store_output_data env index (released @ fst (stream_finish st) @ [10]) OF_Bytes (remove_stream key r)))
      else
        Option.bind (redact_chunk (rr_values r) (rr_tables r) index key bytes (rr_streams r)) (\<lambda>(released, streams).
        store_output_data env index released format (r\<lparr>rr_streams := streams\<rparr>)))"

definition relieve_if ::
  "redaction_env \<Rightarrow> bool \<Rightarrow> RunnerEvent list \<Rightarrow> RunnerRedactions \<Rightarrow> (RunnerEvent list \<times> RunnerRedactions) supervised"
where
  "relieve_if env needed emitted r =
     (if needed then also_then (relieve_pressure env r) (\<lambda>(released, r). Some (Inr (emitted @ released, r)))
      else Some (Inr (emitted, r)))"

definition events :: "redaction_env \<Rightarrow> RunnerEvent \<Rightarrow> RunnerRedactions \<Rightarrow> (RunnerEvent list \<times> RunnerRedactions) supervised" where
  "events env event r =
     also_then (release_resolved r) (\<lambda>(emitted, r).
     let output = output_payload env event in
     also_then (relieve_if env (case output of None \<Rightarrow> False
         | Some (key, _, _) \<Rightarrow> bt_get (rr_streams r) key = None \<and> length (rr_streams r) = MAX_REDACTION_STREAMS) emitted r) (\<lambda>(emitted, r).
     also_then (Some (event_wire_bytes env event)) (\<lambda>bytes.
     also_then (relieve_if env (MAX_REDACTION_PENDING_BYTES < usize_saturating_add (total_bytes env r) bytes) emitted r) (\<lambda>(emitted, r).
     also_then (push_event event bytes r) (\<lambda>r.
     let index = length (rr_pending r) - 1 in
     also_then (case output of None \<Rightarrow> Some (Inr r)
         | Some (key, format, bytes) \<Rightarrow> redact_output env index key format bytes r) (\<lambda>r.
     also_then (redact_event env index r) (\<lambda>r.
     also_then (flush_for_boundary env index r) (\<lambda>r.
     also_then (relieve_if env (MAX_REDACTION_PENDING_BYTES < total_bytes env r) emitted r) (\<lambda>(emitted, r).
     if MAX_REDACTION_PENDING_BYTES < total_bytes env r then Some (Inl (redaction_limit ''pending byte count''))
     else also_then (release_resolved r) (\<lambda>(released, r). Some (Inr (emitted @ released, r))))))))))))"

definition finish_events :: "redaction_env \<Rightarrow> RunnerRedactions \<Rightarrow> (RunnerEvent list \<times> RunnerRedactions) supervised" where
  "finish_events env r = also_then (flush_keys env (bt_keys (rr_streams r)) r) release_resolved"

definition redact_message :: "RunnerRedactions \<Rightarrow> rstr \<Rightarrow> rstr option" where
  "redact_message r message = redact_string (rr_values r) message"

definition redact_results :: "redaction_env \<Rightarrow> RunnerRedactions \<Rightarrow> Json list \<Rightarrow> Json list option" where
  "redact_results env r results = opt_map (redact_value env (rr_values r)) results"

end
