(* ===== verification/Runner_Redaction_Correct.thy ===== *)
theory Runner_Redaction_Correct
  imports Runner_Redaction_Match Runner_Events
begin

text \<open>
  What the redaction of output chunks guarantees, with the streams opened and dropped as the code does: no
  sensitive value in a released piece; none in all that is emitted for a stream, and unchanged output when
  there is nothing to redact, as long as the values avoid the bytes that markers end with.
\<close>

section \<open>Byte strings\<close>

lemma find_bytes_None: "find_bytes needle bytes = None \<longleftrightarrow> \<not> sublist needle bytes"
proof (induction needle bytes rule: find_bytes.induct)
  case (2 needle b bytes)
  have "take (length needle) (b # bytes) = needle \<longleftrightarrow> prefix needle (b # bytes)"
    by (metis append_eq_conv_conj prefix_def take_is_prefix)
  with 2 show ?case by (auto simp: sublist_Cons_right)
qed simp

lemma find_bytes_Some:
  "find_bytes needle bytes = Some i \<Longrightarrow> bytes = take i bytes @ needle @ drop (i + length needle) bytes \<and>
     (needle \<noteq> [] \<longrightarrow> \<not> sublist needle (take i bytes))"
proof (induction needle bytes arbitrary: i rule: find_bytes.induct)
  case (2 needle b bytes)
  show ?case
  proof (cases "take (length needle) (b # bytes) = needle")
    case True
    with 2 have "i = 0" by simp
    with True show ?thesis by (metis add_0 append_Nil append_take_drop_id sublist_Nil_right take_0)
  next
    case False
    with 2 obtain j where j: "i = Suc j" "find_bytes needle bytes = Some j" by auto
    have split: "bytes = take j bytes @ needle @ drop (j + length needle) bytes" "needle \<noteq> [] \<longrightarrow> \<not> sublist needle (take j bytes)"
      using "2.IH" [OF False j(2)] by auto
    have "\<not> prefix needle (b # take j bytes)"
    proof
      assume "prefix needle (b # take j bytes)"
      moreover have "prefix (b # take j bytes) (b # bytes)" by (simp add: take_is_prefix)
      ultimately have "prefix needle (b # bytes)" by (rule prefix_order.trans)
      with False show False by (metis append_eq_conv_conj prefix_def)
    qed
    with j split show ?thesis by (auto simp: sublist_Cons_right)
  qed
qed (auto split: if_splits)

text \<open>A byte string with every occurrence of a value replaced, from the left.\<close>

inductive redacted :: "u8 list \<Rightarrow> u8 list \<Rightarrow> u8 list \<Rightarrow> bool" for n where
  redacted_rest: "\<not> sublist n t \<Longrightarrow> redacted n t t"
| redacted_match: "\<not> sublist n p \<Longrightarrow> redacted n t u \<Longrightarrow> redacted n (p @ n @ t) (p @ append_marker [] (length n) @ u)"

lemma append_marker_append: "append_marker acc n = acc @ append_marker [] n"
  by (simp add: append_marker_def)

lemma replace_rest_redacted: "n \<noteq> [] \<Longrightarrow> \<exists>u. replace_rest n t acc = acc @ u \<and> redacted n t u"
proof (induction t arbitrary: acc rule: length_induct)
  case (1 t)
  show ?case
  proof (cases "find_bytes n t")
    case None
    then have "replace_rest n t acc = acc @ t" using 1 by (subst replace_rest.simps) simp
    with None show ?thesis by (auto simp: find_bytes_None intro: redacted_rest)
  next
    case (Some i)
    let ?p = "take i t"
    let ?t = "drop (i + length n) t"
    have t: "t = ?p @ n @ ?t" "\<not> sublist n ?p" using find_bytes_Some [OF Some] "1.prems" by blast+
    have "length ?t < length t" using find_bytes_bound [OF Some] "1.prems" by (cases n) auto
    with 1 obtain u where u: "replace_rest n ?t (append_marker (acc @ ?p) (length n)) = append_marker (acc @ ?p) (length n) @ u"
      "redacted n ?t u" by blast
    have "replace_rest n t acc = acc @ ?p @ append_marker [] (length n) @ u"
      using u(1) Some "1.prems" by (subst replace_rest.simps) (simp add: append_marker_append [of "acc @ ?p"])
    with redacted_match [OF t(2) u(2)] t(1) show ?thesis by metis
  qed
qed

lemma redact_needle_redacted: "n \<noteq> [] \<Longrightarrow> redacted n t (redact_needle n t)"
  using replace_rest_redacted [of n t "[]"] by (auto simp: redact_needle_def)

lemma redact_needle_same: "\<not> sublist n t \<Longrightarrow> redact_needle n t = t"
  unfolding redact_needle_def by (subst replace_rest.simps) (simp add: find_bytes_None [symmetric])

lemma redact_bytes_same: "clean vs t \<Longrightarrow> redact_bytes vs t = t"
  unfolding redact_bytes_def by (induction vs) (simp_all add: clean_def redact_needle_same)

lemma sublist_separated:
  assumes "sublist v (p @ x # u)" "x \<notin> set v"
  shows "sublist v p \<or> sublist v u"
proof -
  obtain ps ss where "p @ x # u = ps @ v @ ss" using assms(1) by (auto simp: sublist_def)
  then consider us where "p = ps @ us" "us @ x # u = v @ ss" | us where "p @ us = ps" "x # u = us @ v @ ss"
    by (auto simp: append_eq_append_conv2)
  then show ?thesis
  proof cases
    case 1
    then consider ws where "us = v @ ws" | ws where "us @ ws = v" "x # u = ws @ ss"
      by (auto simp: append_eq_append_conv2)
    then show ?thesis
    proof cases
      case 2
      then have "ws = []" using assms(2) by (cases ws) auto
      with 2 \<open>p = ps @ us\<close> show ?thesis by auto
    qed (use \<open>p = ps @ us\<close> in auto)
  next
    case 2
    then show ?thesis
    proof (cases us)
      case Nil
      with 2 assms(2) have "v = []" by (cases v) auto
      then show ?thesis by simp
    qed auto
  qed
qed

lemma sublist_stars: "sublist v (replicate k x @ u) \<Longrightarrow> x \<notin> set v \<Longrightarrow> sublist v u"
proof (induction k)
  case (Suc k)
  then have "sublist v [] \<or> sublist v (replicate k x @ u)" using sublist_separated [of v "[]" x] by simp
  with Suc show ?case by auto
qed simp

definition marker_core :: "u8 list" where
  "marker_core = [114, 101, 100, 97, 99, 116, 101, 100]"

lemma sublist_marker:
  assumes "sublist v (p @ append_marker [] n @ u)" "0 < n" "{42, 91, 93} \<inter> set v = {}"
  shows "sublist v p \<or> sublist v u \<or> 10 \<le> n \<and> sublist v marker_core"
proof (cases "n < 10")
  case True
  then obtain k where k: "n = Suc k" using assms(2) by (cases n) auto
  then have "append_marker [] n = 42 # replicate k 42" using True by (simp add: append_marker_def REDACTION_MARKER_def)
  then have "sublist v p \<or> sublist v (replicate k 42 @ u)" using assms sublist_separated [of v p 42] by simp
  then show ?thesis using sublist_stars [of v k 42 u] assms(3) by auto
next
  case False
  then have "p @ append_marker [] n @ u = p @ 91 # marker_core @ 93 # u"
    by (simp add: append_marker_def REDACTION_MARKER_def marker_core_def)
  with assms have "sublist v p \<or> sublist v (marker_core @ 93 # u)" using sublist_separated [of v p 91] by simp
  then show ?thesis using sublist_separated [of v marker_core 93 u] assms(3) False by auto
qed

lemma redacted_clean:
  assumes "redacted n t u" "n \<noteq> []" "length n \<le> length v" "{42, 91, 93} \<inter> set v = {}"
  shows "sublist v u \<Longrightarrow> sublist v t \<and> v \<noteq> n"
  using assms(1)
proof (induction rule: redacted.induct)
  case (redacted_match p t u)
  from sublist_marker [OF redacted_match.prems _ assms(4)] assms(2)
  consider "sublist v p" | "sublist v u" | "10 \<le> length n" "sublist v marker_core" by auto
  then show ?case
  proof cases
    case 1
    then have "sublist v (p @ n @ t)" by (rule sublist_order.order.trans) simp
    with 1 redacted_match.hyps(1) show ?thesis by auto
  next
    case 2
    then have t: "sublist v t" "v \<noteq> n" using redacted_match.IH by blast+
    have "sublist t (p @ n @ t)" by (metis append.assoc sublist_append_leftI)
    with t show ?thesis by (blast intro: sublist_order.order.trans)
  next
    case 3
    then have "length v \<le> 8" using sublist_length_le [of v marker_core] by (simp add: marker_core_def)
    with 3 assms(3) show ?thesis by simp
  qed
qed auto

lemma redact_bytes_clean:
  assumes "sorted_wrt (\<lambda>a b. length b \<le> length a) vs" "\<forall>v\<in>set vs. v \<noteq> [] \<and> {42, 91, 93} \<inter> set v = {}"
  shows "clean vs (redact_bytes vs t)"
proof -
  have "clean (seen @ vs) (redact_bytes vs t)"
    if "sorted_wrt (\<lambda>a b. length b \<le> length a) (seen @ vs)" "\<forall>v\<in>set (seen @ vs). v \<noteq> [] \<and> {42, 91, 93} \<inter> set v = {}" "clean seen t"
    for seen using that
  proof (induction vs arbitrary: seen t)
    case (Cons n vs)
    let ?u = "redact_needle n t"
    have "clean (seen @ [n]) ?u"
      unfolding clean_def
    proof (intro ballI notI)
      fix v assume v: "v \<in> set (seen @ [n])" "sublist v ?u"
      have "length n \<le> length v" using Cons.prems(1) v(1) by (auto simp: sorted_wrt_append)
      with redacted_clean [OF redact_needle_redacted _ this, of t] Cons.prems(2) v have "sublist v t" "v \<noteq> n" by auto
      with v(1) Cons.prems(3) show False by (auto simp: clean_def)
    qed
    from Cons.IH [of "seen @ [n]" ?u, OF _ _ this] Cons.prems show ?case by (simp add: redact_bytes_def)
  qed (simp add: redact_bytes_def)
  from this [of "[]"] assms show ?thesis by (simp add: clean_def)
qed

section \<open>Configured values\<close>

lemma sensitive_values_set:
  "set (sensitive_values_new vs) = {v. v \<in> set vs \<and> v \<noteq> []} \<union> {trim_ascii v | v. v \<in> set vs \<and> v \<noteq> [] \<and> trim_ascii v \<noteq> []}"
  by (auto simp: sensitive_values_new_def selected_forms_def Let_def split: if_splits)

lemma opt_map_tables:
  "\<forall>v\<in>set vs. v \<noteq> [] \<Longrightarrow> \<exists>tables. opt_map prefix_table vs = Some tables \<and> tables_ok vs tables"
proof (induction vs)
  case (Cons v vs)
  then obtain tables where "opt_map prefix_table vs = Some tables" "tables_ok vs tables" by auto
  moreover obtain table where "prefix_table v = Some table" "table_ok v table (length v)" using prefix_table_finds by blast
  ultimately show ?case using Cons.prems by (simp add: tables_ok_def)
qed (simp add: tables_ok_def)

lemma redactions_new_total: "\<exists>r. redactions_new vs = Some r"
proof -
  have "\<forall>v\<in>set (sort_key (\<lambda>v. - int (length v)) (sensitive_values_new vs)). v \<noteq> []" by (auto simp: sensitive_values_set)
  from opt_map_tables [OF this] show ?thesis by (auto simp: redactions_new_def Let_def)
qed

lemma redactions_new_Some:
  assumes "redactions_new vs = Some r"
  shows "tables_ok (rr_values r) (rr_tables r)" "rr_streams r = []" "rr_pending r = []" "rr_pending_bytes r = 0"
    "set (rr_values r) = set (sensitive_values_new vs)" "sorted_wrt (\<lambda>a b. length b \<le> length a) (rr_values r)"
    "\<forall>v\<in>set (rr_values r). v \<noteq> []"
proof -
  let ?vs = "sort_key (\<lambda>v. - int (length v)) (sensitive_values_new vs)"
  have nonempty: "\<forall>v\<in>set ?vs. v \<noteq> []" by (auto simp: sensitive_values_set)
  then obtain tables where tables: "opt_map prefix_table ?vs = Some tables" "tables_ok ?vs tables" using opt_map_tables by blast
  then have r: "r = \<lparr>rr_values = ?vs, rr_tables = tables, rr_streams = [], rr_pending = [], rr_pending_bytes = 0\<rparr>"
    using assms by (simp add: redactions_new_def Let_def)
  show "sorted_wrt (\<lambda>a b. length b \<le> length a) (rr_values r)"
    using sorted_sort_key [of "\<lambda>v. - int (length v)" "sensitive_values_new vs"] by (simp add: r sorted_map)
  show "tables_ok (rr_values r) (rr_tables r)" "rr_streams r = []" "rr_pending r = []" "rr_pending_bytes r = 0"
    "set (rr_values r) = set (sensitive_values_new vs)" "\<forall>v\<in>set (rr_values r). v \<noteq> []"
    using tables(2) nonempty by (simp_all add: r)
qed

section \<open>Chunks of streams\<close>

lemma fresh_stream:
  assumes "\<forall>v\<in>set vs. v \<noteq> []" and st_def: "st = redaction_stream_new anchor (length vs)"
  shows "stream_ok vs [] st" "clean vs ([] @ rs_pending st)" "length (rs_pending st) \<le> fold max (rs_states st) 0"
    "tight vs [] (rs_pending st)"
proof -
  show ok: "stream_ok vs [] st" unfolding st_def by (rule stream_new_ok [OF assms(1)])
  show "clean vs ([] @ rs_pending st)" using assms(1) by (simp add: st_def redaction_stream_new_def clean_def)
  show "length (rs_pending st) \<le> fold max (rs_states st) 0" by (simp add: st_def redaction_stream_new_def)
  have "overlap v [] = 0" for v :: "u8 list" using overlap_below_props(2) [of "length v" v "[]"]
      overlap_below_props(1) [of "length v" v "[]"] by (cases v) auto
  then show "tight vs [] (rs_pending st)" by (simp add: tight_def st_def redaction_stream_new_def)
qed

lemma fold_max_bound: "\<forall>x\<in>set xs. x \<le> n \<Longrightarrow> a \<le> n \<Longrightarrow> fold max xs a \<le> (n :: nat)"
  by (induction xs arbitrary: a) simp_all

lemma states_short:
  assumes "clean vs t" "\<forall>v\<in>set vs. length v \<le> Suc n"
  shows "fold max (states_of vs t) 0 \<le> n"
proof (rule fold_max_bound)
  have "overlap v t \<le> n" if v: "v \<in> set vs" for v
  proof -
    have "overlap v t \<noteq> length v" using clean_not_suffix [OF assms(1) v] overlap_full [of v t] by simp
    then have "overlap v t < length v" using overlap_below_props(1) [of "length v" v t] by simp
    with assms(2) v show ?thesis by fastforce
  qed
  then show "\<forall>x\<in>set (states_of vs t). x \<le> n" by (auto simp: states_of_def)
qed simp

lemma resolved_fresh:
  assumes "stream_ok vs e st" "tight vs e []" "rs_pending st = []"
  shows "st\<lparr>rs_anchor := a\<rparr> = redaction_stream_new a (length vs)"
proof -
  have "states_of vs e = replicate (length vs) 0"
    using assms(2) by (simp add: states_of_def tight_def list_eq_iff_nth_eq)
  with assms(1,3) show ?thesis by (cases st) (simp add: stream_ok_def redaction_stream_new_def)
qed

lemma trim_ascii_length: "length (trim_ascii v) \<le> length v"
  unfolding trim_ascii_def by (metis length_dropWhile_le length_rev order_trans)

lemma secret_forms: "v \<in> set vs \<Longrightarrow> w \<in> {v, trim_ascii v} - {[]} \<Longrightarrow> w \<in> set (sensitive_values_new vs)"
  by (auto simp: sensitive_values_set trim_ascii_def)

text \<open>Chunks of any number of streams, each with the index of its event, and the pieces that are released.\<close>

primrec redact_chunks ::
  "u8 list list \<Rightarrow> nat list list \<Rightarrow> (nat \<times> StreamKey \<times> u8 list) list \<Rightarrow> (StreamKey, RedactionStream) btree \<Rightarrow>
     ((StreamKey \<times> u8 list) list \<times> (StreamKey, RedactionStream) btree) option"
where
  "redact_chunks vs tables [] streams = Some ([], streams)"
| "redact_chunks vs tables (c # cs) streams =
     Option.bind (redact_chunk vs tables (fst c) (fst (snd c)) (snd (snd c)) streams) (\<lambda>(out, streams).
     Option.bind (redact_chunks vs tables cs streams) (\<lambda>(rest, streams). Some ((fst (snd c), out) # rest, streams)))"

definition bytes_of :: "StreamKey \<Rightarrow> (StreamKey \<times> u8 list) list \<Rightarrow> u8 list" where
  "bytes_of key pieces = concat (map snd (filter (\<lambda>p. fst p = key) pieces))"

text \<open>The stream that the next chunk of a key meets, and the bytes that its end adds.\<close>

definition current :: "u8 list list \<Rightarrow> (StreamKey, RedactionStream) btree \<Rightarrow> StreamKey \<Rightarrow> RedactionStream" where
  "current vs streams key = (case bt_get streams key of None \<Rightarrow> redaction_stream_new 0 (length vs) | Some st \<Rightarrow> st)"

definition held :: "(StreamKey, RedactionStream) btree \<Rightarrow> StreamKey \<Rightarrow> u8 list" where
  "held streams key = (case bt_get streams key of None \<Rightarrow> [] | Some st \<Rightarrow> fst (stream_finish st))"

lemma bt_get_filter: "bt_get (filter (\<lambda>e. fst e \<noteq> key) m) k = (if k = key then None else bt_get m k)"
  by (induction m) (auto simp: bt_get_def)

lemma bytes_of_Cons: "bytes_of key (p # pieces) = (if fst p = key then snd p else []) @ bytes_of key pieces"
  by (simp add: bytes_of_def)

lemma stream_ok_anchor [simp]: "stream_ok vs e (st\<lparr>rs_anchor := a\<rparr>) = stream_ok vs e st"
  by (simp add: stream_ok_def)

lemma redaction_stream_new_anchor: "(redaction_stream_new a n)\<lparr>rs_anchor := b\<rparr> = redaction_stream_new b n"
  by (simp add: redaction_stream_new_def)

lemma redact_chunk_current:
  "redact_chunk vs tables index key bytes streams =
     Option.bind (stream_push bytes vs tables ((current vs streams key)\<lparr>rs_anchor := index\<rparr>)) (\<lambda>(released, st).
     Some (released, if rs_pending st = [] then filter (\<lambda>e. fst e \<noteq> key) streams else bt_insert key st streams))"
  by (simp add: redact_chunk_def current_def redaction_stream_new_anchor split: option.split)

lemma current_after:
  "current vs (if rs_pending st = [] then filter (\<lambda>e. fst e \<noteq> key) streams else bt_insert key st streams) k =
     (if k \<noteq> key then current vs streams k else if rs_pending st = [] then redaction_stream_new 0 (length vs) else st)"
  by (simp add: current_def bt_get_filter bt_get_insert)

text \<open>What holds of the stream of a key that emitted \<open>e\<close> of the input \<open>i\<close>; the second form also across drops.\<close>

definition stream_safe :: "u8 list list \<Rightarrow> u8 list \<Rightarrow> RedactionStream \<Rightarrow> bool" where
  "stream_safe vs e st \<longleftrightarrow> stream_ok vs e st \<and> clean vs (e @ rs_pending st) \<and> length (rs_pending st) \<le> fold max (rs_states st) 0"

definition stream_exact :: "u8 list list \<Rightarrow> u8 list \<Rightarrow> u8 list \<Rightarrow> RedactionStream \<Rightarrow> bool" where
  "stream_exact vs e i st \<longleftrightarrow> stream_safe vs e st \<and> tight vs e (rs_pending st) \<and> (clean vs i \<longrightarrow> e @ rs_pending st = i)"

lemma fresh_safe: "\<forall>v\<in>set vs. v \<noteq> [] \<Longrightarrow> stream_safe vs [] (redaction_stream_new anchor (length vs))"
  using fresh_stream [of vs _ anchor] by (simp add: stream_safe_def)

lemma stream_push_safe:
  assumes "tables_ok vs tables" and "stream_safe vs e st"
  obtains out st' where "stream_push bytes vs tables (st\<lparr>rs_anchor := a\<rparr>) = Some (out, st')" and "stream_safe vs (e @ out) st'"
    and "clean vs (e @ rs_pending st @ bytes) \<longrightarrow> out @ rs_pending st' = rs_pending st @ bytes"
    and "plain vs \<longrightarrow> tight vs e (rs_pending st) \<longrightarrow> tight vs (e @ out) (rs_pending st')"
proof -
  let ?st = "st\<lparr>rs_anchor := a\<rparr>"
  obtain out st' where st': "stream_push bytes vs tables ?st = Some (out, st')" "stream_ok vs (e @ out) st'"
      "clean vs (e @ out @ rs_pending st')" "clean vs (e @ rs_pending ?st @ bytes) \<longrightarrow> out @ rs_pending st' = rs_pending ?st @ bytes"
      "bytes \<noteq> [] \<longrightarrow> length (rs_pending st') \<le> fold max (rs_states st') 0"
      "plain vs \<longrightarrow> tight vs e (rs_pending ?st) \<longrightarrow> tight vs (e @ out) (rs_pending st')"
    using stream_push_ok [OF assms(1), of e ?st bytes] assms(2) by (auto simp: stream_safe_def)
  moreover have "length (rs_pending st') \<le> fold max (rs_states st') 0"
    using st'(1,5) assms(2) by (cases "bytes = []") (auto simp: stream_push_def stream_safe_def)
  ultimately show thesis by (intro that [of out st']) (simp_all add: stream_safe_def)
qed

lemma redact_chunks_safe:
  assumes tables: "tables_ok vs tables" and nonempty: "\<forall>v\<in>set vs. v \<noteq> []"
  shows "\<forall>k. \<exists>e. stream_safe vs e (current vs streams k) \<Longrightarrow>
    \<exists>outs streams'. redact_chunks vs tables cs streams = Some (outs, streams') \<and> (\<forall>p\<in>set outs. clean vs (snd p)) \<and>
      (\<forall>k. \<exists>e. stream_safe vs e (current vs streams' k))"
proof (induction cs arbitrary: streams)
  case (Cons c cs)
  obtain index key bytes where c: "c = (index, key, bytes)" by (cases c)
  from Cons.prems obtain e where "stream_safe vs e (current vs streams key)" by blast
  then obtain out st where push: "stream_push bytes vs tables ((current vs streams key)\<lparr>rs_anchor := index\<rparr>) = Some (out, st)"
    and st: "stream_safe vs (e @ out) st"
    by (rule stream_push_safe [OF tables])
  have "clean vs out" using st clean_sublist [of vs "e @ out @ rs_pending st" out] by (simp add: stream_safe_def)
  let ?streams = "if rs_pending st = [] then filter (\<lambda>e. fst e \<noteq> key) streams else bt_insert key st streams"
  have "\<exists>e. stream_safe vs e (current vs ?streams k)" for k
  proof (cases "k = key")
    case True
    then show ?thesis unfolding current_after using st fresh_safe [OF nonempty, of 0] by (cases "rs_pending st = []") auto
  next
    case False
    then show ?thesis unfolding current_after using Cons.prems [rule_format, of k] by simp
  qed
  then have "\<forall>k. \<exists>e. stream_safe vs e (current vs ?streams k)" ..
  from Cons.IH [OF this] obtain outs streams' where "redact_chunks vs tables cs ?streams = Some (outs, streams')"
    "\<forall>p\<in>set outs. clean vs (snd p)" "\<forall>k. \<exists>e. stream_safe vs e (current vs streams' k)" by blast
  with push \<open>clean vs out\<close> show ?case by (auto simp: c redact_chunk_current)
qed simp

lemma redact_chunks_exact:
  assumes tables: "tables_ok vs tables" and plain: "plain vs"
  shows "\<forall>k. stream_exact vs (e k) (i k) (current vs streams k) \<Longrightarrow>
    redact_chunks vs tables cs streams = Some (outs, streams') \<Longrightarrow>
    \<forall>k. stream_exact vs (e k @ bytes_of k outs) (i k @ bytes_of k (map snd cs)) (current vs streams' k)"
proof (induction cs arbitrary: streams e i outs)
  case Nil
  then show ?case by (simp add: bytes_of_def)
next
  case (Cons c cs)
  obtain index key bytes where c: "c = (index, key, bytes)" by (cases c)
  let ?st = "current vs streams key"
  have key: "stream_exact vs (e key) (i key) ?st" using Cons.prems(1) by blast
  then have "stream_safe vs (e key) ?st" by (simp add: stream_exact_def)
  then obtain out st where push: "stream_push bytes vs tables (?st\<lparr>rs_anchor := index\<rparr>) = Some (out, st)"
    and st: "stream_safe vs (e key @ out) st" and same: "clean vs (e key @ rs_pending ?st @ bytes) \<longrightarrow> out @ rs_pending st = rs_pending ?st @ bytes"
    and tight: "plain vs \<longrightarrow> tight vs (e key) (rs_pending ?st) \<longrightarrow> tight vs (e key @ out) (rs_pending st)"
    by (rule stream_push_safe [OF tables])
  let ?streams = "if rs_pending st = [] then filter (\<lambda>e. fst e \<noteq> key) streams else bt_insert key st streams"
  from Cons.prems(2) push obtain rest where rest: "redact_chunks vs tables cs ?streams = Some (rest, streams')" "outs = (key, out) # rest"
    by (auto simp: c redact_chunk_current bind_eq_Some_conv)
  have "e key @ out @ rs_pending st = i key @ bytes" if clean: "clean vs (i key @ bytes)"
  proof -
    have "clean vs (i key)" using clean_sublist [OF clean, of "i key"] by simp
    then have before: "e key @ rs_pending ?st = i key" using key by (simp add: stream_exact_def)
    with clean same have "out @ rs_pending st = rs_pending ?st @ bytes" by (metis append.assoc)
    with before show ?thesis by (metis append.assoc)
  qed
  then have exact: "stream_exact vs (e key @ out) (i key @ bytes) st"
    using st tight plain key by (simp add: stream_exact_def)
  have fresh: "redaction_stream_new 0 (length vs) = st\<lparr>rs_anchor := 0\<rparr>" if "rs_pending st = []"
    using resolved_fresh [of vs "e key @ out" st 0] exact that by (simp add: stream_exact_def stream_safe_def)
  have "\<forall>k. stream_exact vs ((e(key := e key @ out)) k) ((i(key := i key @ bytes)) k) (current vs ?streams k)"
  proof
    fix k
    show "stream_exact vs ((e(key := e key @ out)) k) ((i(key := i key @ bytes)) k) (current vs ?streams k)"
      unfolding current_after using Cons.prems(1) [rule_format, of k] exact fresh
      by (cases "rs_pending st = []"; cases "k = key") (simp_all add: stream_exact_def stream_safe_def)
  qed
  note IH = Cons.IH [OF this rest(1)]
  show ?case
  proof
    fix k
    show "stream_exact vs (e k @ bytes_of k outs) (i k @ bytes_of k (map snd (c # cs))) (current vs streams' k)"
      using IH [rule_format, of k] by (cases "k = key") (simp_all add: rest(2) c bytes_of_Cons)
  qed
qed

text \<open>The streams of a fresh table, run over any chunks.\<close>

lemma held_pending: "held streams key = rs_pending (current vs streams key)"
  by (simp add: held_def current_def stream_finish_def redaction_stream_new_def split: option.split)

lemma pending_short:
  assumes "stream_safe ws e st" "set ws = set (sensitive_values_new vs)" "\<forall>v\<in>set vs. length v \<le> Suc n"
  shows "length (rs_pending st) \<le> n"
proof -
  have "\<forall>v\<in>set ws. length v \<le> Suc n"
    using assms(2,3) trim_ascii_length by (fastforce simp: sensitive_values_set intro: order_trans)
  from states_short [OF _ this, of "e @ rs_pending st"] assms(1) show ?thesis
    by (auto simp: stream_safe_def stream_ok_def intro: order_trans)
qed

lemma plain_values:
  assumes "\<forall>v\<in>set vs. {35, 42, 93} \<inter> set v = {}" "set ws = set (sensitive_values_new vs)"
  shows "plain ws"
proof -
  have "set (trim_ascii v) \<subseteq> set v" for v unfolding trim_ascii_def set_rev by (auto dest!: set_dropWhileD)
  with assms show ?thesis by (fastforce simp: plain_def sensitive_values_set)
qed

lemma stream_exact_ends:
  assumes "tables_ok vs tables" "stream_exact vs (bytes_of key outs) i (current vs streams key)"
  shows "clean vs (bytes_of key outs @ held streams key)" "clean vs i \<Longrightarrow> bytes_of key outs @ held streams key = i"
    "bt_get streams key = Some st \<Longrightarrow> \<exists>masked st'. stream_finish_masked vs tables st = Some (masked, st') \<and> clean vs (bytes_of key outs @ masked)"
proof -
  show "clean vs (bytes_of key outs @ held streams key)" "clean vs i \<Longrightarrow> bytes_of key outs @ held streams key = i"
    using assms(2) by (simp_all add: held_pending [of _ _ vs] stream_exact_def stream_safe_def)
  assume "bt_get streams key = Some st"
  then show "\<exists>masked st'. stream_finish_masked vs tables st = Some (masked, st') \<and> clean vs (bytes_of key outs @ masked)"
    using assms(2) stream_finish_masked_ok [OF assms(1), of "bytes_of key outs" st]
    by (fastforce simp: stream_exact_def stream_safe_def current_def)
qed

lemma redact_chunks_run:
  assumes new: "redactions_new vs = Some r"
  obtains outs streams where "redact_chunks (rr_values r) (rr_tables r) chunks (rr_streams r) = Some (outs, streams)"
    and "\<forall>p\<in>set outs. clean (rr_values r) (snd p)"
    and "\<forall>key st n. bt_get streams key = Some st \<longrightarrow> (\<forall>v\<in>set vs. length v \<le> Suc n) \<longrightarrow> length (rs_pending st) \<le> n"
    and "\<And>key. \<forall>v\<in>set vs. {35, 42, 93} \<inter> set v = {} \<Longrightarrow>
      stream_exact (rr_values r) (bytes_of key outs) (bytes_of key (map snd chunks)) (current (rr_values r) streams key)"
proof -
  let ?vs = "rr_values r" and ?tables = "rr_tables r"
  note r = redactions_new_Some(1,5,7) [OF new]
  have start: "current ?vs (rr_streams r) k = redaction_stream_new 0 (length ?vs)" for k
    using redactions_new_Some(2) [OF new] by (simp add: current_def bt_get_def)
  have "\<forall>k. \<exists>e. stream_safe ?vs e (current ?vs (rr_streams r) k)" unfolding start using fresh_safe [OF r(3), of 0] by auto
  then obtain outs streams where run: "redact_chunks ?vs ?tables chunks (rr_streams r) = Some (outs, streams)"
    and pieces: "\<forall>p\<in>set outs. clean ?vs (snd p)" and safe: "\<forall>k. \<exists>e. stream_safe ?vs e (current ?vs streams k)"
    using redact_chunks_safe [OF r(1,3), of "rr_streams r" chunks] by blast
  have short: "length (rs_pending st) \<le> n" if "bt_get streams key = Some st" "\<forall>v\<in>set vs. length v \<le> Suc n" for key st n
    using safe [rule_format, of key] pending_short [OF _ r(2) that(2)] that(1) by (auto simp: current_def)
  have "stream_exact ?vs (bytes_of key outs) (bytes_of key (map snd chunks)) (current ?vs streams key)"
    if "\<forall>v\<in>set vs. {35, 42, 93} \<inter> set v = {}" for key
  proof -
    have "\<forall>k. stream_exact ?vs [] [] (current ?vs (rr_streams r) k)" unfolding start using fresh_stream [OF r(3) refl, of 0]
      by (simp add: stream_exact_def stream_safe_def) (simp add: redaction_stream_new_def)
    from redact_chunks_exact [OF r(1) plain_values [OF that r(2)], of "\<lambda>_. []" "\<lambda>_. []", OF this run, rule_format, of key]
    show ?thesis by simp
  qed
  with run pieces short show thesis by (intro that [of outs streams]) blast+
qed

definition ascii :: "string \<Rightarrow> u8 list" where
  "ascii s = as_bytes (lit s)"

section \<open>Properties\<close>

text \<open>
  (C21) The redaction of output chunks, with the streams opened and dropped as the code does. Whatever
  the sensitive values are and however the chunks of any number of streams are interleaved, it never panics,
  no released piece contains a value or its trimmed form, and a stream never holds back as many bytes as the
  longest value has. If moreover no value contains a byte that markers end with (a number sign, an
  asterisk or a closing bracket), then no value occurs in all that is emitted for a stream either, across its
  chunks and drops and also when it is finished or masked under pressure, and a stream whose input contains no
  value is emitted unchanged.
\<close>

theorem redaction_stream_safe:
  "\<exists>r. redactions_new vs = Some r \<and> (\<forall>chunks. \<exists>outs streams.
     redact_chunks (rr_values r) (rr_tables r) chunks (rr_streams r) = Some (outs, streams) \<and>
     (\<forall>p\<in>set outs. \<forall>v\<in>set vs. \<forall>w\<in>{v, trim_ascii v} - {[]}. \<not> sublist w (snd p)) \<and>
     (\<forall>key st n. bt_get streams key = Some st \<longrightarrow> (\<forall>v\<in>set vs. length v \<le> Suc n) \<longrightarrow> length (rs_pending st) \<le> n) \<and>
     ((\<forall>v\<in>set vs. {35, 42, 93} \<inter> set v = {}) \<longrightarrow> (\<forall>key.
        (\<forall>v\<in>set vs. \<forall>w\<in>{v, trim_ascii v} - {[]}. \<not> sublist w (bytes_of key outs @ held streams key)) \<and>
        (\<forall>st. bt_get streams key = Some st \<longrightarrow> (\<exists>masked st'. stream_finish_masked (rr_values r) (rr_tables r) st = Some (masked, st') \<and>
           (\<forall>v\<in>set vs. \<forall>w\<in>{v, trim_ascii v} - {[]}. \<not> sublist w (bytes_of key outs @ masked)))) \<and>
        ((\<forall>v\<in>set (rr_values r). \<not> sublist v (bytes_of key (map snd chunks))) \<longrightarrow>
           bytes_of key outs @ held streams key = bytes_of key (map snd chunks)))))"
  (is "\<exists>r. _ \<and> (\<forall>chunks. ?runs r chunks)")
proof -
  obtain r where new: "redactions_new vs = Some r" using redactions_new_total by blast
  let ?vs = "rr_values r" and ?tables = "rr_tables r"
  note r = redactions_new_Some(1,5) [OF new]
  have secret: "\<forall>v\<in>set vs. \<forall>w\<in>{v, trim_ascii v} - {[]}. \<not> sublist w t" if "clean ?vs t" for t
    using secret_forms [of _ vs] that r(2) by (auto simp: clean_def)
  have "?runs r chunks" for chunks
  proof -
    from redact_chunks_run [OF new, of chunks] obtain outs streams where
      run: "redact_chunks ?vs ?tables chunks (rr_streams r) = Some (outs, streams)" "\<forall>p\<in>set outs. clean ?vs (snd p)"
      and short: "\<forall>key st n. bt_get streams key = Some st \<longrightarrow> (\<forall>v\<in>set vs. length v \<le> Suc n) \<longrightarrow> length (rs_pending st) \<le> n"
      and exact: "\<And>key. \<forall>v\<in>set vs. {35, 42, 93} \<inter> set v = {} \<Longrightarrow>
        stream_exact ?vs (bytes_of key outs) (bytes_of key (map snd chunks)) (current ?vs streams key)" by blast
    show ?thesis
    proof (intro exI [of _ outs] exI [of _ streams] conjI impI allI)
      show "\<forall>p\<in>set outs. \<forall>v\<in>set vs. \<forall>w\<in>{v, trim_ascii v} - {[]}. \<not> sublist w (snd p)" using run(2) secret by blast
    next
      fix key
      assume plain: "\<forall>v\<in>set vs. {35, 42, 93} \<inter> set v = {}"
      note ends = stream_exact_ends [OF r(1) exact [OF plain]]
      show "\<forall>v\<in>set vs. \<forall>w\<in>{v, trim_ascii v} - {[]}. \<not> sublist w (bytes_of key outs @ held streams key)"
        by (rule secret) (rule ends(1))
      show "bytes_of key outs @ held streams key = bytes_of key (map snd chunks)"
        if "\<forall>v\<in>set ?vs. \<not> sublist v (bytes_of key (map snd chunks))"
        using that by (intro ends(2)) (simp add: clean_def)
      show "\<exists>masked st'. stream_finish_masked ?vs ?tables st = Some (masked, st') \<and>
          (\<forall>v\<in>set vs. \<forall>w\<in>{v, trim_ascii v} - {[]}. \<not> sublist w (bytes_of key outs @ masked))" if "bt_get streams key = Some st" for st
        using ends(3) [OF that] secret by blast
    qed (use run short in blast)+
  qed
  with new show ?thesis by blast
qed

theorem redaction_stream_safe_witness:
  "\<exists>r outs streams. redactions_new [ascii ''s3cret''] = Some r \<and>
     redact_chunks (rr_values r) (rr_tables r) [(0, (1, None, lit ''build'', lit ''stdout''), ascii ''key s3''),
       (1, (1, None, lit ''build'', lit ''stderr''), ascii ''ok''), (2, (1, None, lit ''build'', lit ''stdout''), ascii ''cret.'')]
       (rr_streams r) = Some (outs, streams) \<and>
     (\<forall>p\<in>set outs. \<not> sublist (ascii ''s3cret'') (snd p)) \<and>
     \<not> sublist (ascii ''s3cret'') (bytes_of (1, None, lit ''build'', lit ''stdout'') outs @ held streams (1, None, lit ''build'', lit ''stdout'')) \<and>
     bytes_of (1, None, lit ''build'', lit ''stderr'') outs @ held streams (1, None, lit ''build'', lit ''stderr'') = ascii ''ok''"
proof -
  let ?out = "(1, None, lit ''build'', lit ''stdout'') :: StreamKey" and ?err = "(1, None, lit ''build'', lit ''stderr'') :: StreamKey"
  let ?chunks = "[(0 :: nat, ?out, ascii ''key s3''), (1, ?err, ascii ''ok''), (2, ?out, ascii ''cret.'')]"
  have secret: "ascii ''s3cret'' \<in> {ascii ''s3cret'', trim_ascii (ascii ''s3cret'')} - {[]}" by code_simp
  have plain: "\<forall>v\<in>set [ascii ''s3cret'']. {35, 42, 93} \<inter> set v = {}" by code_simp
  obtain r where new: "redactions_new [ascii ''s3cret''] = Some r" and run: "\<exists>outs streams.
      redact_chunks (rr_values r) (rr_tables r) ?chunks (rr_streams r) = Some (outs, streams) \<and>
      (\<forall>p\<in>set outs. \<not> sublist (ascii ''s3cret'') (snd p)) \<and>
      \<not> sublist (ascii ''s3cret'') (bytes_of ?out outs @ held streams ?out) \<and>
      ((\<forall>v\<in>set (rr_values r). \<not> sublist v (bytes_of ?err (map snd ?chunks))) \<longrightarrow>
         bytes_of ?err outs @ held streams ?err = bytes_of ?err (map snd ?chunks))"
    using redaction_stream_safe [of "[ascii ''s3cret'']"]
    apply (elim exE conjE)
    apply (drule spec [of _ ?chunks])
    apply (elim exE conjE)
    apply (drule mp [OF _ plain])
    apply (rule that, assumption)
    apply (intro exI conjI, assumption)
    using secret by auto
  have "\<forall>v\<in>set (rr_values r). \<not> sublist v (bytes_of ?err (map snd ?chunks))"
    unfolding redactions_new_Some(5) [OF new] by code_simp
  moreover have "bytes_of ?err (map snd ?chunks) = ascii ''ok''" by code_simp
  ultimately show ?thesis using new run by auto
qed

end
