(* ===== verification/Runner_Redaction_Text.thy ===== *)
theory Runner_Redaction_Text
  imports Runner_Redaction_Correct
begin

text \<open>
  Redaction of strings. UTF-8 is self-synchronizing: a value that is a string itself starts and ends at
  character boundaries wherever it occurs, so replacing it leaves a string.
\<close>

section \<open>Decoding\<close>

definition scalar_str :: "rstr \<Rightarrow> bool" where
  "scalar_str s \<longleftrightarrow> list_all unicode_scalar s"

lemma scalar_rust: "unicode_scalar c \<Longrightarrow> rust_char c"
  by (auto simp: unicode_scalar_def rust_char_def)

lemma unat_u8: "n < 256 \<Longrightarrow> unat (of_nat n :: u8) = n"
  by (simp add: unat_of_nat)

lemma join_64: "(c div 64) * 64 + c mod 64 = (c :: nat)"
  by simp

lemma join_4096: "(c div 4096 * 64 + c div 64 mod 64) * 64 + c mod 64 = (c :: nat)"
proof -
  have "c div 4096 * 64 + c div 64 mod 64 = c div 64" using join_64 [of "c div 64"] by (simp flip: div_mult2_eq)
  then show ?thesis by simp
qed

lemma join_262144: "((c div 262144 * 64 + c div 4096 mod 64) * 64 + c div 64 mod 64) * 64 + c mod 64 = (c :: nat)"
proof -
  have "c div 262144 * 64 + c div 4096 mod 64 = c div 4096" using join_64 [of "c div 4096"] by (simp flip: div_mult2_eq)
  then show ?thesis using join_4096 [of c] by simp
qed

text \<open>The bytes of a character, as numbers.\<close>

lemma utf8_cases:
  assumes "unicode_scalar c"
  obtains (one) b where "map of_nat (utf8 c) = [b :: u8]" "unat b = c" "c < 128"
  | (two) b1 b2 where "map of_nat (utf8 c) = [b1, b2 :: u8]" "unat b1 = 192 + c div 64" "unat b2 = 128 + c mod 64"
      "192 + c div 64 < 224" "128 \<le> c" "c < 2048"
  | (three) b1 b2 b3 where "map of_nat (utf8 c) = [b1, b2, b3 :: u8]" "unat b1 = 224 + c div 4096"
      "unat b2 = 128 + c div 64 mod 64" "unat b3 = 128 + c mod 64" "224 + c div 4096 < 240" "2048 \<le> c" "c < 65536"
  | (four) b1 b2 b3 b4 where "map of_nat (utf8 c) = [b1, b2, b3, b4 :: u8]" "unat b1 = 240 + c div 262144"
      "unat b2 = 128 + c div 4096 mod 64" "unat b3 = 128 + c div 64 mod 64" "unat b4 = 128 + c mod 64"
      "240 + c div 262144 < 245" "65536 \<le> c"
proof -
  have c: "c < 1114112" using assms by (auto simp: unicode_scalar_def)
  have low: "unat (of_nat (128 + m mod 64) :: u8) = 128 + m mod 64" for m
    using mod_less_divisor [of 64 m] by (intro unat_u8) linarith
  consider "c < 128" | "128 \<le> c" "c < 2048" | "2048 \<le> c" "c < 65536" | "65536 \<le> c" by linarith
  then show thesis
  proof cases
    case 1
    with that(1) [of "of_nat c"] unat_u8 [of c] show thesis by (simp add: utf8_def)
  next
    case 2
    then have lead: "192 + c div 64 < 224" by (simp add: less_mult_imp_div_less)
    then show thesis using 2 low [of c] unat_u8 [of "192 + c div 64"]
      by (intro that(2) [of "of_nat (192 + c div 64)" "of_nat (128 + c mod 64)"]) (simp_all add: utf8_def del: of_nat_add)
  next
    case 3
    then have lead: "224 + c div 4096 < 240" by (simp add: less_mult_imp_div_less)
    then show thesis using 3 low [of c] low [of "c div 64"] unat_u8 [of "224 + c div 4096"]
      by (intro that(3) [of "of_nat (224 + c div 4096)" "of_nat (128 + c div 64 mod 64)" "of_nat (128 + c mod 64)"])
        (simp_all add: utf8_def del: of_nat_add)
  next
    case 4
    have lead: "240 + c div 262144 < 245" using c by (simp add: less_mult_imp_div_less)
    then show thesis using 4 low [of c] low [of "c div 64"] low [of "c div 4096"] unat_u8 [of "240 + c div 262144"]
      by (intro that(4) [of "of_nat (240 + c div 262144)" "of_nat (128 + c div 4096 mod 64)" "of_nat (128 + c div 64 mod 64)"
            "of_nat (128 + c mod 64)"]) (simp_all add: utf8_def del: of_nat_add)
  qed
qed

lemma decode_char_utf8:
  assumes "unicode_scalar c"
  shows "decode_char (map of_nat (utf8 c) @ r) = Some (c, r)"
  using assms
proof (cases rule: utf8_cases)
  case (one b)
  with assms show ?thesis by (simp add: decode_char_def utf8_width_def)
next
  case (two b1 b2)
  with assms show ?thesis by (simp add: decode_char_def utf8_width_def is_continuation_def Let_def)
next
  case (three b1 b2 b3)
  with assms join_4096 [of c] show ?thesis by (simp add: decode_char_def utf8_width_def is_continuation_def Let_def)
next
  case (four b1 b2 b3 b4)
  with assms join_262144 [of c] show ?thesis by (simp add: decode_char_def utf8_width_def is_continuation_def Let_def)
qed

lemma as_bytes_simps [simp]: "as_bytes [] = []" "as_bytes (c # s) = map of_nat (utf8 c) @ as_bytes s"
  "as_bytes (s @ t) = as_bytes s @ as_bytes t"
  by (simp_all add: as_bytes_def)

lemma from_utf8_as_bytes: "scalar_str s \<Longrightarrow> from_utf8 (as_bytes s) = Some s"
proof (induction s)
  case Nil
  then show ?case by (subst from_utf8.simps) simp
next
  case (Cons c s)
  then have c: "unicode_scalar c" "scalar_str s" by (simp_all add: scalar_str_def)
  have "utf8 c \<noteq> []" by (simp add: utf8_def)
  then have "from_utf8 (as_bytes (c # s)) = map_option (Cons c) (from_utf8 (as_bytes s))"
    using decode_char_utf8 [OF c(1), of "as_bytes s"] by (subst from_utf8.simps) simp
  with Cons.IH [OF c(2)] show ?case by simp
qed

section \<open>Boundaries\<close>

lemma utf8_shape:
  assumes "unicode_scalar c"
  obtains b rest where "map of_nat (utf8 c) = b # rest" "\<not> is_continuation b" "list_all is_continuation rest"
  using assms
proof (cases rule: utf8_cases)
  case (one b)
  with that show thesis by (simp add: is_continuation_def)
next
  case (two b1 b2)
  with that show thesis by (simp add: is_continuation_def)
next
  case (three b1 b2 b3)
  with that show thesis by (simp add: is_continuation_def)
next
  case (four b1 b2 b3 b4)
  with that show thesis by (simp add: is_continuation_def)
qed

lemma as_bytes_lead:
  assumes "scalar_str s" "s \<noteq> []"
  obtains b rest where "as_bytes s = b # rest" "\<not> is_continuation b"
proof -
  obtain c t where s: "s = c # t" using assms(2) by (cases s) auto
  then have "unicode_scalar c" using assms(1) by (simp add: scalar_str_def)
  then obtain b rest where "map of_nat (utf8 c) = b # rest" "\<not> is_continuation b" by (rule utf8_shape)
  with s that show thesis by simp
qed

text \<open>A byte that starts a character can only stand at a character boundary.\<close>

lemma boundary_split:
  "scalar_str s \<Longrightarrow> as_bytes s = p @ b # q \<Longrightarrow> \<not> is_continuation b \<Longrightarrow>
     \<exists>s1 s2. s = s1 @ s2 \<and> p = as_bytes s1 \<and> b # q = as_bytes s2"
proof (induction s arbitrary: p)
  case (Cons c s)
  then have c: "unicode_scalar c" "scalar_str s" by (simp_all add: scalar_str_def)
  obtain l rest where shape: "map of_nat (utf8 c) = l # rest" "\<not> is_continuation l" "list_all is_continuation rest"
    using utf8_shape [OF c(1)] .
  show ?case
  proof (cases p)
    case Nil
    with Cons.prems show ?thesis by (intro exI [of _ "[]"] exI [of _ "c # s"]) simp
  next
    case (Cons l' p')
    with Cons.prems(2) shape(1) have eq: "rest @ as_bytes s = p' @ b # q" "l' = l" by simp_all
    have "length rest \<le> length p'"
    proof (rule ccontr)
      assume "\<not> length rest \<le> length p'"
      then have "rest ! length p' = b" using arg_cong [OF eq(1), of "\<lambda>xs. xs ! length p'"] by (simp add: nth_append)
      with \<open>\<not> length rest \<le> length p'\<close> shape(3) Cons.prems(3) show False by (auto simp: list_all_length)
    qed
    then obtain p2 where p2: "p' = rest @ p2" "as_bytes s = p2 @ b # q"
      using eq(1) by (metis append_eq_append_conv_if append_eq_conv_conj append_take_drop_id)
    from Cons.IH [OF c(2) p2(2) Cons.prems(3)] obtain s1 s2 where
      "s = s1 @ s2" "p2 = as_bytes s1" "b # q = as_bytes s2" by blast
    with shape(1) eq(2) p2(1) Cons show ?thesis by (intro exI [of _ "c # s1"] exI [of _ s2]) simp
  qed
qed simp

lemma prefix_string:
  "scalar_str v \<Longrightarrow> scalar_str s \<Longrightarrow> as_bytes s = as_bytes v @ q \<Longrightarrow> \<exists>t. s = v @ t \<and> q = as_bytes t"
proof (induction v arbitrary: s)
  case (Cons c v)
  then have "s \<noteq> []" by (auto simp: utf8_def split: if_splits)
  then obtain d t where s: "s = d # t" by (cases s) auto
  have scalars: "unicode_scalar c" "unicode_scalar d" "scalar_str v" "scalar_str t"
    using Cons.prems(1,2) s by (simp_all add: scalar_str_def)
  have eq: "map of_nat (utf8 d) @ as_bytes t = map of_nat (utf8 c) @ as_bytes v @ q" using Cons.prems(3) s by simp
  from arg_cong [OF eq, of decode_char] scalars(1,2) have "d = c" "as_bytes t = as_bytes v @ q"
    by (simp_all add: decode_char_utf8)
  with Cons.IH [OF scalars(3,4)] s show ?case by auto
qed simp

lemma occurrence_split:
  assumes "scalar_str v" "v \<noteq> []" "scalar_str s" "as_bytes s = p @ as_bytes v @ q"
  obtains s1 s2 where "p = as_bytes s1" "q = as_bytes s2" "scalar_str s1" "scalar_str s2"
proof -
  obtain b rest where b: "as_bytes v = b # rest" "\<not> is_continuation b" using as_bytes_lead [OF assms(1,2)] .
  then have "as_bytes s = p @ b # (rest @ q)" using assms(4) by simp
  from boundary_split [OF assms(3) this b(2)] obtain s1 s2 where
    s: "s = s1 @ s2" "p = as_bytes s1" "b # (rest @ q) = as_bytes s2" by blast
  have scalars: "scalar_str s1" "scalar_str s2" using assms(3) s(1) by (simp_all add: scalar_str_def)
  have "as_bytes s2 = as_bytes v @ q" using s(3) b(1) by simp
  from prefix_string [OF assms(1) scalars(2) this] obtain t where "s2 = v @ t" "q = as_bytes t" by blast
  with that s(2) scalars show thesis by (auto simp: scalar_str_def)
qed

section \<open>Redacted strings\<close>

lemma marker_string: "\<exists>m. append_marker [] n = as_bytes m \<and> scalar_str m"
proof (cases "n < 10")
  case True
  have "as_bytes (replicate n 42) = replicate n 42" by (induction n) (simp_all add: utf8_def)
  with True show ?thesis
    by (intro exI [of _ "replicate n 42"]) (simp add: append_marker_def REDACTION_MARKER_def scalar_str_def list_all_iff unicode_scalar_def)
next
  case False
  then show ?thesis
    by (intro exI [of _ "lit ''[redacted]''"])
      (simp add: append_marker_def REDACTION_MARKER_def scalar_str_def unicode_scalar_def lit_def utf8_def)
qed

lemma redacted_string:
  assumes "scalar_str v" "v \<noteq> []"
  shows "redacted (as_bytes v) t u \<Longrightarrow> t = as_bytes s \<Longrightarrow> scalar_str s \<Longrightarrow> \<exists>w. u = as_bytes w \<and> scalar_str w"
proof (induction arbitrary: s rule: redacted.induct)
  case (redacted_match p t u)
  from redacted_match.prems have "as_bytes s = p @ as_bytes v @ t" by simp
  then obtain s1 s2 where s: "p = as_bytes s1" "t = as_bytes s2" "scalar_str s1" "scalar_str s2"
    using occurrence_split [OF assms redacted_match.prems(2)] by blast
  from redacted_match.IH [OF s(2,4)] obtain w where w: "u = as_bytes w" "scalar_str w" by blast
  obtain m where m: "append_marker [] (length (as_bytes v)) = as_bytes m" "scalar_str m" using marker_string by blast
  show ?case using s(1,3) w m by (intro exI [of _ "s1 @ m @ w"]) (simp add: scalar_str_def)
qed blast

lemma redact_bytes_string:
  "\<forall>v\<in>set vs. \<exists>w. v = as_bytes w \<and> scalar_str w \<and> w \<noteq> [] \<Longrightarrow> scalar_str s \<Longrightarrow>
     \<exists>w. redact_bytes vs (as_bytes s) = as_bytes w \<and> scalar_str w"
proof (induction vs arbitrary: s)
  case (Cons v vs)
  then obtain w where w: "v = as_bytes w" "scalar_str w" "w \<noteq> []" by auto
  have "as_bytes w \<noteq> []" by (rule as_bytes_lead [OF w(2,3)]) simp
  then have "redacted (as_bytes w) (as_bytes s) (redact_needle v (as_bytes s))" using redact_needle_redacted w(1) by simp
  from redacted_string [OF w(2,3) this refl Cons.prems(2)] obtain s' where
    s': "redact_needle v (as_bytes s) = as_bytes s'" "scalar_str s'" by blast
  have "\<forall>v\<in>set vs. \<exists>w. v = as_bytes w \<and> scalar_str w \<and> w \<noteq> []" using Cons.prems(1) unfolding list.set by blast
  from Cons.IH [OF this s'(2)] obtain u where u: "redact_bytes vs (as_bytes s') = as_bytes u" "scalar_str u" by blast
  have "redact_bytes (v # vs) (as_bytes s) = as_bytes u" using u(1) unfolding redact_bytes_def by (simp only: fold.simps comp_def s'(1))
  with u(2) show ?case by blast
qed (auto simp: redact_bytes_def)

lemma trim_ascii_string:
  assumes "scalar_str w"
  shows "\<exists>u. trim_ascii (as_bytes w) = as_bytes u \<and> scalar_str u"
proof -
  have plain: "\<not> is_continuation b" if "is_ascii_whitespace b" for b
    using that by (auto simp: is_ascii_whitespace_def is_continuation_def)
  have lead: "\<exists>u. dropWhile is_ascii_whitespace (as_bytes w) = as_bytes u \<and> scalar_str u" if "scalar_str w" for w
    using that
  proof (induction w)
    case (Cons c w)
    then have c: "unicode_scalar c" "scalar_str w" by (simp_all add: scalar_str_def)
    show ?case
      using c(1)
    proof (cases rule: utf8_cases)
      case (one b)
      with Cons.IH [OF c(2)] Cons.prems show ?thesis by (cases "is_ascii_whitespace b") (auto intro: exI [of _ "c # w"])
    qed (use Cons.prems in \<open>auto simp: is_ascii_whitespace_def unat_gt_0 word_unat_eq_iff intro!: exI [of _ "c # w"]\<close>)
  qed (simp add: exI [of _ "[]"] scalar_str_def)
  obtain u where u: "dropWhile is_ascii_whitespace (as_bytes w) = as_bytes u" "scalar_str u" using lead [OF assms] by blast
  have "\<exists>v. rev (dropWhile is_ascii_whitespace (rev (as_bytes u))) = as_bytes v \<and> scalar_str v"
    using u(2)
  proof (induction u rule: rev_induct)
    case (snoc c u)
    then have c: "unicode_scalar c" "scalar_str u" by (simp_all add: scalar_str_def)
    show ?case
      using c(1)
    proof (cases rule: utf8_cases)
      case (one b)
      with snoc.IH [OF c(2)] snoc.prems show ?thesis by (cases "is_ascii_whitespace b") (auto intro: exI [of _ "u @ [c]"])
    qed (use snoc.prems in \<open>auto simp: is_ascii_whitespace_def word_unat_eq_iff intro!: exI [of _ "u @ [c]"]\<close>)
  qed (simp add: exI [of _ "[]"] scalar_str_def)
  with u(1) show ?thesis by (simp add: trim_ascii_def)
qed

section \<open>Properties\<close>

text \<open>
  (C32) The redaction of a message whose sensitive values are strings never panics: the result is a
  string again. A message without a value is unchanged, and if no value contains a star or a bracket,
  no value and no trimmed value is left in the result.
\<close>

theorem redacted_message_clean:
  assumes "redactions_new (map as_bytes vs) = Some r" "\<forall>v\<in>set vs. scalar_str v" "scalar_str s"
  shows "\<exists>u. redact_message r s = Some u \<and> scalar_str u \<and>
    ((\<forall>v\<in>set (rr_values r). \<not> sublist v (as_bytes s)) \<longrightarrow> u = s) \<and>
    ((\<forall>v\<in>set vs. {42, 91, 93} \<inter> set (as_bytes v) = {}) \<longrightarrow>
      (\<forall>v\<in>set vs. \<forall>w\<in>{as_bytes v, trim_ascii (as_bytes v)} - {[]}. \<not> sublist w (as_bytes u)))"
proof -
  note r = redactions_new_Some(5,6,7) [OF assms(1)]
  have strings: "\<exists>w. v = as_bytes w \<and> scalar_str w \<and> w \<noteq> []" if v: "v \<in> set (rr_values r)" for v
  proof -
    have "\<exists>w. v = as_bytes w \<and> scalar_str w"
      using v assms(2) trim_ascii_string unfolding r(1) sensitive_values_set by fastforce
    with r(3) v show ?thesis by (metis as_bytes_simps(1))
  qed
  then obtain u where u: "redact_bytes (rr_values r) (as_bytes s) = as_bytes u" "scalar_str u"
    using redact_bytes_string [OF _ assms(3), of "rr_values r"] by blast
  have result: "redact_message r s = Some u" using u from_utf8_as_bytes by (simp add: redact_message_def redact_string_def)
  have "u = s" if "\<forall>v\<in>set (rr_values r). \<not> sublist v (as_bytes s)"
  proof -
    have "redact_bytes (rr_values r) (as_bytes s) = as_bytes s" by (rule redact_bytes_same) (use that in \<open>simp add: clean_def\<close>)
    with u(1) have same: "as_bytes u = as_bytes s" by (rule trans [OF sym])
    have "from_utf8 (as_bytes s) = Some u" using from_utf8_as_bytes [OF u(2)] unfolding same .
    then have "Some s = Some u" unfolding from_utf8_as_bytes [OF assms(3)] .
    then show ?thesis by (rule option.inject [THEN iffD1, THEN sym])
  qed
  moreover have "\<not> sublist w (as_bytes u)"
    if safe: "\<forall>v\<in>set vs. {42, 91, 93} \<inter> set (as_bytes v) = {}" and w: "v \<in> set vs" "w \<in> {as_bytes v, trim_ascii (as_bytes v)} - {[]}" for v w
  proof -
    have sub: "set (trim_ascii x) \<subseteq> set x" for x unfolding trim_ascii_def set_rev by (auto dest!: set_dropWhileD)
    have "\<forall>x\<in>set (rr_values r). x \<noteq> [] \<and> {42, 91, 93} \<inter> set x = {}"
    proof
      fix x assume x: "x \<in> set (rr_values r)"
      then obtain v where "v \<in> set vs" "x = as_bytes v \<or> x = trim_ascii (as_bytes v)"
        unfolding r(1) sensitive_values_set by auto
      then have "set x \<subseteq> set (as_bytes v)" "{42, 91, 93} \<inter> set (as_bytes v) = {}"
        using sub [of "as_bytes v"] bspec [OF safe] by auto
      then have "{42, 91, 93} \<inter> set x = {}" by blast
      with bspec [OF r(3) x] show "x \<noteq> [] \<and> {42, 91, 93} \<inter> set x = {}" by (rule conjI)
    qed
    from redact_bytes_clean [OF r(2) this, of "as_bytes s"] have "clean (rr_values r) (as_bytes u)" unfolding u(1) .
    moreover have "w \<in> set (rr_values r)" using secret_forms [of "as_bytes v" "map as_bytes vs" w] w unfolding r(1) by simp
    ultimately show ?thesis by (simp add: clean_def)
  qed
  ultimately show ?thesis using result u(2) by (intro exI [of _ u] conjI impI ballI) simp_all
qed

theorem redacted_message_clean_witness:
  "\<exists>r u. redactions_new (map as_bytes [lit ''jwt'']) = Some r \<and> redact_message r (lit ''a jwt'') = Some u \<and>
     \<not> sublist (as_bytes (lit ''jwt'')) (as_bytes u)"
proof -
  obtain r where r: "redactions_new (map as_bytes [lit ''jwt'']) = Some r" using redactions_new_total by blast
  have scalars: "\<forall>v\<in>set [lit ''jwt'']. scalar_str v" "scalar_str (lit ''a jwt'')"
    by (simp_all add: scalar_str_def lit_def unicode_scalar_def)
  have "\<forall>v\<in>set [lit ''jwt'']. {42, 91, 93} \<inter> set (as_bytes v) = {}" "as_bytes (lit ''jwt'') \<noteq> []"
    by (simp_all add: lit_def utf8_def)
  with redacted_message_clean [OF r scalars] r show ?thesis by auto
qed

text \<open>
  (C34) Both conditions are needed. A value that is one of its own markers is reproduced by the
  redaction of a message, and a value that is not valid UTF-8 can cut a character in two, on which the
  redaction panics.
\<close>

theorem redact_message_gaps:
  "(\<exists>r. redactions_new [ascii ''***''] = Some r \<and> redact_message r (lit ''***'') = Some (lit ''***'')) \<and>
   (\<exists>r. redactions_new [[169]] = Some r \<and> redact_message r [233] = None)"
proof -
  have "(case redactions_new [ascii ''***''] of None \<Rightarrow> False | Some r \<Rightarrow> redact_message r (lit ''***'') = Some (lit ''***''))"
    "(case redactions_new [[169]] of None \<Rightarrow> False | Some r \<Rightarrow> redact_message r [233] = None)"
    by code_simp+
  then show ?thesis by (auto split: option.splits)
qed

end
