(* ===== verification/Runner_Events_Correct.thy ===== *)
theory Runner_Events_Correct
  imports Runner_Redaction_Correct "HOL-Library.Code_Target_Nat"
begin

text \<open>
  The queue of runner events: its sizes and anchors stay consistent, so it never fails on them, and every
  operation keeps the events that were received, once each and in their order. A run of two events shows where
  the redaction of streams ends.
\<close>

section \<open>Consistency\<close>

text \<open>What redaction leaves of an event.\<close>

definition header :: "RunnerEvent \<Rightarrow> u16 \<times> u64 \<times> rstr \<times> rstr" where
  "header e = (ev_schema_version e, ev_sequence e, ev_timestamp e, ev_category e)"

abbreviation waiting :: "RunnerRedactions \<Rightarrow> (u16 \<times> u64 \<times> rstr \<times> rstr) list" where
  "waiting r \<equiv> map (\<lambda>p. header (pe_event p)) (rr_pending r)"

definition queue_ok :: "RunnerRedactions \<Rightarrow> bool" where
  "queue_ok r \<longleftrightarrow> bt_wf (rr_streams r) \<and> (\<forall>e\<in>set (rr_streams r). rs_anchor (snd e) < length (rr_pending r)) \<and>
     rr_pending_bytes r = sum_list (map pe_bytes (rr_pending r))"

text \<open>A step that emits events and changes others, but loses and reorders none.\<close>

definition keeps :: "RunnerEvent list \<Rightarrow> RunnerRedactions \<Rightarrow> RunnerRedactions \<Rightarrow> bool" where
  "keeps emitted r r' \<longleftrightarrow> queue_ok r' \<and> waiting r = map header emitted @ waiting r' \<and> rr_values r' = rr_values r \<and>
     set (bt_keys (rr_streams r')) \<subseteq> set (bt_keys (rr_streams r))"

lemma keeps_refl: "queue_ok r \<Longrightarrow> keeps [] r r"
  by (simp add: keeps_def)

lemma keeps_trans: "keeps xs r s \<Longrightarrow> keeps ys s t \<Longrightarrow> keeps (xs @ ys) r t"
  by (auto simp: keeps_def)

lemma keeps_queue: "keeps xs r s \<Longrightarrow> queue_ok s"
  by (simp add: keeps_def)

lemma waiting_length: "waiting r = waiting r' \<Longrightarrow> length (rr_pending r) = length (rr_pending r')"
  by (metis length_map)

lemma bt_wf_filter: "bt_wf m \<Longrightarrow> bt_wf (filter P m)"
  unfolding bt_wf_def by (induction m) auto

lemma set_bt_insert_le: "set (bt_insert k v m) \<subseteq> insert (k, v) (set m)"
  by (induction m) auto

lemma fold_min_le: "fold min xs a \<le> (a :: nat)" "x \<in> set xs \<Longrightarrow> fold min xs a \<le> x"
proof -
  show le: "fold min xs a \<le> a" for a and xs :: "nat list"
  proof (induction xs arbitrary: a)
    case (Cons y xs)
    from Cons.IH [of "min y a"] show ?case by simp
  qed simp
  show "x \<in> set xs \<Longrightarrow> fold min xs a \<le> x"
  proof (induction xs arbitrary: a)
    case (Cons y xs)
    with le [of xs "min y a"] show ?case by auto
  qed simp
qed

lemma first_anchor_le:
  assumes "queue_ok r"
  shows "first_anchor r \<le> length (rr_pending r)" and "e \<in> set (rr_streams r) \<Longrightarrow> first_anchor r \<le> rs_anchor (snd e)"
proof -
  have le: "first_anchor r \<le> rs_anchor (snd e)" if "e \<in> set (rr_streams r)" for e
    using that fold_min_le by (cases "rr_streams r") (auto simp: first_anchor_def bt_values_def)
  then show "e \<in> set (rr_streams r) \<Longrightarrow> first_anchor r \<le> rs_anchor (snd e)" .
  show "first_anchor r \<le> length (rr_pending r)"
  proof (cases "rr_streams r")
    case (Cons e es)
    then have "rs_anchor (snd e) < length (rr_pending r)" using assms by (simp add: queue_ok_def)
    with le [of e] Cons show ?thesis by simp
  qed (simp add: first_anchor_def bt_values_def)
qed

lemma pop_events_exact:
  "n \<le> length q \<Longrightarrow> pop_events n q (sum_list (map pe_bytes q)) acc =
     Some (Inr (acc @ map pe_event (take n q), drop n q, sum_list (map pe_bytes (drop n q))))"
proof (induction n arbitrary: q acc)
  case (Suc n)
  then obtain p ps where q: "q = p # ps" by (cases q) auto
  with Suc.IH [of ps "acc @ [pe_event p]"] Suc.prems show ?case by simp
qed simp

lemma release_resolved_exact:
  assumes "queue_ok r"
  obtains r' where "release_resolved r = Some (Inr (map pe_event (take (first_anchor r) (rr_pending r)), r'))"
    "keeps (map pe_event (take (first_anchor r) (rr_pending r))) r r'" "bt_keys (rr_streams r') = bt_keys (rr_streams r)"
    "rr_pending r' = drop (first_anchor r) (rr_pending r)"
proof -
  let ?n = "first_anchor r"
  let ?q = "drop ?n (rr_pending r)"
  let ?r = "r\<lparr>rr_pending := ?q, rr_pending_bytes := sum_list (map pe_bytes ?q),
    rr_streams := map (\<lambda>e. (fst e, (snd e)\<lparr>rs_anchor := rs_anchor (snd e) - ?n\<rparr>)) (rr_streams r)\<rparr>"
  have bytes: "rr_pending_bytes r = sum_list (map pe_bytes (rr_pending r))" using assms by (simp add: queue_ok_def)
  have "release_resolved r = Some (Inr (map pe_event (take ?n (rr_pending r)), ?r))"
    using pop_events_exact [OF first_anchor_le(1) [OF assms], of "[]"] by (simp add: release_resolved_def Let_def bytes)
  moreover have "rs_anchor (snd e) - ?n < length (rr_pending r) - ?n" if "e \<in> set (rr_streams r)" for e
    using that assms first_anchor_le(2) [OF assms that] by (auto simp: queue_ok_def intro: diff_less_mono)
  moreover have "bt_wf (rr_streams ?r)" using assms by (simp add: queue_ok_def bt_wf_def comp_def)
  moreover have "waiting r = map (\<lambda>p. header (pe_event p)) (take ?n (rr_pending r)) @ map (\<lambda>p. header (pe_event p)) ?q"
    by (metis append_take_drop_id map_append)
  ultimately show ?thesis
    by (intro that [of ?r]) (auto simp: keeps_def queue_ok_def bt_keys_def comp_def)
qed

lemma release_resolved_keeps: "queue_ok r \<Longrightarrow> release_resolved r = Some (Inr (emitted, r')) \<Longrightarrow> keeps emitted r r'"
  by (erule release_resolved_exact) simp

section \<open>Changes of pending events\<close>

lemma refresh_event_keeps:
  assumes "queue_ok r" "index < length (rr_pending r)" "header event = header (pe_event (rr_pending r ! index))"
    and "refresh_event env index event r = Some (Inr r')"
  shows "keeps [] r r'" and "rr_streams r' = rr_streams r"
proof -
  let ?old = "pe_bytes (rr_pending r ! index)"
  obtain bytes where r': "r' = r\<lparr>rr_pending_bytes := rr_pending_bytes r - ?old + bytes,
      rr_pending := (rr_pending r)[index := \<lparr>pe_event = event, pe_bytes = bytes\<rparr>]\<rparr>"
    using assms(4) unfolding refresh_event_def also_then_Inr_iff by (auto simp: Let_def split: if_splits)
  have "?old \<le> sum_list (map pe_bytes (rr_pending r))" using assms(2) by (intro member_le_sum_list) simp_all
  then have "sum_list (map pe_bytes (rr_pending r')) = rr_pending_bytes r'"
    using assms(1,2) by (simp add: r' queue_ok_def map_update sum_list_update)
  moreover have "waiting r' = waiting r"
    using assms(2,3) by (simp add: r' map_update list_update_same_conv)
  ultimately show "keeps [] r r'" using assms(1) by (auto simp: keeps_def queue_ok_def r')
  show "rr_streams r' = rr_streams r" by (simp add: r')
qed

lemma set_output_data_header: "set_output_data env event bytes format = Some event' \<Longrightarrow> header event' = header event"
  by (auto simp: set_output_data_def header_def bind_eq_Some_conv)

lemma store_output_data_keeps:
  assumes "queue_ok r" "store_output_data env index bytes format r = Some (Inr r')"
  shows "keeps [] r r'" and "rr_streams r' = rr_streams r"
proof -
  obtain event where "index < length (rr_pending r)" "header event = header (pe_event (rr_pending r ! index))"
    "refresh_event env index event r = Some (Inr r')"
    using assms(2) by (auto simp: store_output_data_def bind_eq_Some_conv dest: set_output_data_header split: if_splits)
  from refresh_event_keeps [OF assms(1) this] show "keeps [] r r'" "rr_streams r' = rr_streams r" .
qed

lemma append_output_data_keeps:
  assumes "queue_ok r" "append_output_data env index bytes r = Some (Inr r')"
  shows "keeps [] r r'" and "rr_streams r' = rr_streams r"
  using assms store_output_data_keeps [OF assms(1)] by (auto simp: append_output_data_def split: if_splits option.splits)

lemma redact_event_keeps:
  assumes "queue_ok r" "redact_event env index r = Some (Inr r')"
  shows "keeps [] r r'" and "rr_streams r' = rr_streams r"
proof -
  obtain m where "index < length (rr_pending r)"
    "refresh_event env index ((pe_event (rr_pending r ! index))\<lparr>ev_data := m\<rparr>) r = Some (Inr r')"
    using assms(2) by (auto simp: redact_event_def Let_def bind_eq_Some_conv split: if_splits)
  with refresh_event_keeps [OF assms(1), of index "(pe_event (rr_pending r ! index))\<lparr>ev_data := m\<rparr>" env r']
  show "keeps [] r r'" "rr_streams r' = rr_streams r" by (simp_all add: header_def)
qed

section \<open>Stream boundaries\<close>

lemma remove_stream_keeps: "queue_ok r \<Longrightarrow> keeps [] r (remove_stream key r)"
  by (auto simp: keeps_def queue_ok_def remove_stream_def bt_wf_filter bt_keys_def)

lemma append_tail_keeps:
  assumes "queue_ok r" "append_tail env anchor bytes r = Some (Inr r')"
  shows "keeps [] r r'" and "rr_streams r' = rr_streams r"
proof -
  have "keeps [] r r' \<and> rr_streams r' = rr_streams r"
  proof (cases "bytes = []")
    case True
    with assms show ?thesis by (simp add: append_tail_def keeps_refl)
  next
    case False
    with assms(2) obtain s where s: "append_output_data env anchor bytes r = Some (Inr s)" "redact_event env anchor s = Some (Inr r')"
      by (auto simp: append_tail_def also_then_Inr_iff)
    note one = append_output_data_keeps [OF assms(1) s(1)]
    note two = redact_event_keeps [OF keeps_queue [OF one(1)] s(2)]
    from keeps_trans [OF one(1) two(1)] one(2) two(2) show ?thesis by simp
  qed
  then show "keeps [] r r'" "rr_streams r' = rr_streams r" by blast+
qed

lemma drop_stream_keeps:
  assumes "queue_ok r" "append_tail env anchor bytes (remove_stream key r) = Some (Inr s)"
  shows "keeps [] r s" and "rr_streams s = filter (\<lambda>e. fst e \<noteq> key) (rr_streams r)"
proof -
  note one = remove_stream_keeps [OF assms(1), of key]
  note two = append_tail_keeps [OF keeps_queue [OF one] assms(2)]
  show "keeps [] r s" using keeps_trans [OF one two(1)] by simp
  show "rr_streams s = filter (\<lambda>e. fst e \<noteq> key) (rr_streams r)" using two(2) by (simp add: remove_stream_def)
qed

lemma filter_absent:
  "bt_get m key = None \<Longrightarrow> filter (\<lambda>e. fst e \<notin> set (key # keys)) m = filter (\<lambda>e. fst e \<notin> set keys) m"
  by (intro filter_cong) (auto simp: bt_get_def map_of_eq_None_iff)

lemma flush_keys_keeps:
  "queue_ok r \<Longrightarrow> flush_keys env keys r = Some (Inr r') \<Longrightarrow>
     keeps [] r r' \<and> rr_streams r' = filter (\<lambda>e. fst e \<notin> set keys) (rr_streams r)"
proof (induction keys arbitrary: r)
  case (Cons key keys)
  show ?case
  proof (cases "bt_get (rr_streams r) key")
    case None
    with Cons filter_absent [OF None, of keys] show ?thesis by simp
  next
    case (Some st)
    with Cons.prems(2) obtain s where s: "append_tail env (rs_anchor st) (fst (stream_finish st)) (remove_stream key r) = Some (Inr s)"
      "flush_keys env keys s = Some (Inr r')" by (auto simp: also_then_Inr_iff)
    note one = drop_stream_keeps [OF Cons.prems(1) s(1)]
    from Cons.IH [OF keeps_queue [OF one(1)] s(2)] one keeps_trans [OF one(1), of "[]" r'] show ?thesis
      by (auto simp: conj_commute intro: filter_cong)
  qed
qed (simp add: keeps_refl)

lemma mask_keys_keeps:
  "queue_ok r \<Longrightarrow> mask_keys env keys r = Some (Inr r') \<Longrightarrow>
     keeps [] r r' \<and> rr_streams r' = filter (\<lambda>e. fst e \<notin> set keys) (rr_streams r)"
proof (induction keys arbitrary: r)
  case (Cons key keys)
  show ?case
  proof (cases "bt_get (rr_streams r) key")
    case None
    with Cons filter_absent [OF None, of keys] show ?thesis by simp
  next
    case (Some st)
    with Cons.prems(2) obtain bytes s where s: "append_tail env (rs_anchor st) bytes (remove_stream key r) = Some (Inr s)"
      "mask_keys env keys s = Some (Inr r')" by (auto simp: also_then_Inr_iff bind_eq_Some_conv)
    note one = drop_stream_keeps [OF Cons.prems(1) s(1)]
    from Cons.IH [OF keeps_queue [OF one(1)] s(2)] one keeps_trans [OF one(1), of "[]" r'] show ?thesis
      by (auto simp: conj_commute intro: filter_cong)
  qed
qed (simp add: keeps_refl)

lemma relieve_pressure_keeps:
  assumes "queue_ok r" "relieve_pressure env r = Some (Inr (emitted, r'))"
  shows "keeps emitted r r'" and "rr_streams r' = []"
proof -
  obtain s where s: "mask_keys env (bt_keys (rr_streams r)) r = Some (Inr s)" "release_resolved s = Some (Inr (emitted, r'))"
    using assms(2) by (auto simp: relieve_pressure_def also_then_Inr_iff)
  have one: "keeps [] r s" "rr_streams s = []"
    using mask_keys_keeps [OF assms(1) s(1)] by (auto simp: bt_keys_def filter_empty_conv)
  note two = release_resolved_keeps [OF keeps_queue [OF one(1)] s(2)]
  show "keeps emitted r r'" using keeps_trans [OF one(1) two] by simp
  show "rr_streams r' = []" using two one(2) by (simp add: keeps_def bt_keys_def)
qed

lemma relieve_if_keeps:
  assumes "queue_ok r" "relieve_if env needed acc r = Some (Inr (emitted, r'))"
  obtains more where "emitted = acc @ more" "keeps more r r'" "needed \<Longrightarrow> rr_streams r' = []" "\<not> needed \<Longrightarrow> r' = r"
proof (cases needed)
  case True
  with assms(2) obtain more where "relieve_pressure env r = Some (Inr (more, r'))" "emitted = acc @ more"
    by (auto simp: relieve_if_def also_then_Inr_iff)
  with relieve_pressure_keeps [OF assms(1) this(1)] True that [of more] show thesis by simp
next
  case False
  then have "emitted = acc" "r' = r" using assms(2) by (simp_all add: relieve_if_def)
  with that [of "[]"] keeps_refl [OF assms(1)] False show thesis by simp
qed

lemma flush_for_boundary_keeps:
  assumes "queue_ok r" "flush_for_boundary env index r = Some (Inr r')"
  shows "keeps [] r r'"
proof (cases "boundary (pe_event (rr_pending r ! index))")
  case None
  with assms keeps_refl show ?thesis by (simp add: flush_for_boundary_def split: if_splits)
next
  case (Some scope)
  with assms(2) obtain keys where "flush_keys env keys r = Some (Inr r')"
    by (cases scope) (auto simp: flush_for_boundary_def split: if_splits)
  with flush_keys_keeps [OF assms(1)] show ?thesis by blast
qed

section \<open>Output\<close>

lemma push_bytes_anchor: "push_bytes bytes vs tables st = Some st' \<Longrightarrow> rs_anchor st' = rs_anchor st"
  by (induction bytes arbitrary: st) (auto simp: push_byte_def bind_eq_Some_conv)

lemma handled_anchor:
  "Option.bind (remove_match n st) (append_safe_marker k vs tables) = Some st' \<Longrightarrow> rs_anchor st' = rs_anchor st"
  by (auto simp: remove_match_def append_safe_marker_def Let_def bind_eq_Some_conv dest: push_bytes_anchor split: if_splits)

lemma release_loop_anchor: "release_loop n out st = Some (out', st') \<Longrightarrow> rs_anchor st' = rs_anchor st"
  by (induction n arbitrary: out st) (auto simp: Let_def split: list.splits if_splits)

lemma stream_push_anchor: "stream_push bytes vs tables st = Some (out, st') \<Longrightarrow> rs_anchor st' = rs_anchor st"
proof -
  have "stream_push_loop bytes vs tables acc st = Some (out, st') \<Longrightarrow> rs_anchor st' = rs_anchor st" for acc
  proof (induction bytes arbitrary: acc st)
    case (Cons b bytes)
    then obtain st1 found st2 acc' st3 where st: "push_byte b vs tables st = Some st1"
      "(case found of None \<Rightarrow> Some st1 | Some i \<Rightarrow> Option.bind (remove_match (length (vs ! i)) st1)
         (append_safe_marker (rs_states st1 ! i) vs tables)) = Some st2"
      "release_safe_prefix acc st2 = Some (acc', st3)" "stream_push_loop bytes vs tables acc' st3 = Some (out, st')"
      by (auto simp: bind_eq_Some_conv)
    have "rs_anchor st1 = rs_anchor st" using st(1) by (auto simp: push_byte_def bind_eq_Some_conv)
    moreover have "rs_anchor st2 = rs_anchor st1" using st(2) handled_anchor by (cases found) auto
    moreover have "rs_anchor st3 = rs_anchor st2" using st(3) release_loop_anchor by (simp add: release_safe_prefix_def Let_def)
    ultimately show ?case using Cons.IH [OF st(4)] by simp
  qed simp
  then show "stream_push bytes vs tables st = Some (out, st') \<Longrightarrow> rs_anchor st' = rs_anchor st" by (simp add: stream_push_def)
qed

lemma insert_stream_ok:
  assumes "queue_ok r" "rs_anchor st < length (rr_pending r)"
  shows "queue_ok (r\<lparr>rr_streams := bt_insert key st (rr_streams r)\<rparr>)"
  using assms set_bt_insert_le [of key st "rr_streams r"] by (auto simp: queue_ok_def bt_wf_insert)

lemma redact_output_keeps:
  assumes "queue_ok r" "index < length (rr_pending r)" "redact_output env index key format bytes r = Some (Inr r')"
  shows "queue_ok r'" "waiting r' = waiting r" "rr_values r' = rr_values r"
    "set (bt_keys (rr_streams r')) \<subseteq> insert key (set (bt_keys (rr_streams r)))"
proof -
  have "queue_ok r' \<and> waiting r' = waiting r \<and> rr_values r' = rr_values r \<and>
      set (bt_keys (rr_streams r')) \<subseteq> insert key (set (bt_keys (rr_streams r)))"
  proof (cases "r' = r")
    case True
    with assms(1) show ?thesis by auto
  next
    case False
    define st where "st = (case bt_get (rr_streams r) key of
        None \<Rightarrow> redaction_stream_new index (length (rr_values r)) | Some st \<Rightarrow> st)\<lparr>rs_anchor := index\<rparr>"
    obtain s out f where s: "store_output_data env index out f s = Some (Inr r')"
      "s = remove_stream key r \<or> (\<exists>st'. rs_anchor st' = index \<and> s = r\<lparr>rr_streams := bt_insert key st' (rr_streams r)\<rparr>)"
    proof (cases "format = OF_Line")
      case True
      with assms(3) False that [of _ _ "remove_stream key r"] show thesis
        by (auto simp: redact_output_def bind_eq_Some_conv split: option.splits prod.splits)
    next
      case bytes: False
      then obtain released st' where push: "stream_push bytes (rr_values r) (rr_tables r) st = Some (released, st')"
        "store_output_data env index released format (if rs_pending st' = [] then remove_stream key r
           else r\<lparr>rr_streams := bt_insert key st' (rr_streams r)\<rparr>) = Some (Inr r')"
        using assms(3) by (auto simp: redact_output_def redact_chunk_def remove_stream_def Let_def st_def bind_eq_Some_conv split: if_splits)
      have "rs_anchor st' = index" using stream_push_anchor [OF push(1)] by (simp add: st_def)
      with that push(2) show thesis by (cases "rs_pending st' = []") auto
    qed
    have s_ok: "queue_ok s \<and> waiting s = waiting r \<and> rr_values s = rr_values r \<and>
        set (bt_keys (rr_streams s)) \<subseteq> insert key (set (bt_keys (rr_streams r)))"
      using s(2)
    proof (elim disjE exE conjE)
      assume "s = remove_stream key r"
      with remove_stream_keeps [OF assms(1), of key] show ?thesis by (auto simp: keeps_def)
    next
      fix st' assume st': "rs_anchor st' = index" "s = r\<lparr>rr_streams := bt_insert key st' (rr_streams r)\<rparr>"
      have "queue_ok s" unfolding st'(2) using st'(1) assms(2) by (intro insert_stream_ok [OF assms(1)]) simp
      then show ?thesis using set_bt_insert [of key st' "rr_streams r"] by (simp add: st'(2) bt_keys_def)
    qed
    from store_output_data_keeps [OF conjunct1 [OF s_ok] s(1)] s_ok show ?thesis by (auto simp: keeps_def)
  qed
  then show "queue_ok r'" "waiting r' = waiting r" "rr_values r' = rr_values r"
    "set (bt_keys (rr_streams r')) \<subseteq> insert key (set (bt_keys (rr_streams r)))" by blast+
qed

section \<open>Runs\<close>

lemma push_event_ok:
  assumes "queue_ok r" "push_event event bytes r = Some (Inr r')"
  shows "queue_ok r'" "waiting r' = waiting r @ [header event]" "rr_values r' = rr_values r" "rr_streams r' = rr_streams r"
    "length (rr_pending r') = Suc (length (rr_pending r))"
proof -
  have r': "r' = r\<lparr>rr_pending_bytes := rr_pending_bytes r + bytes,
      rr_pending := rr_pending r @ [\<lparr>pe_event = event, pe_bytes = bytes\<rparr>]\<rparr>"
    using assms(2) by (simp add: push_event_def split: if_splits)
  show "queue_ok r'" using assms(1) by (simp add: r' queue_ok_def less_SucI)
  show "waiting r' = waiting r @ [header event]" "rr_values r' = rr_values r" "rr_streams r' = rr_streams r"
    "length (rr_pending r') = Suc (length (rr_pending r))" by (simp_all add: r')
qed

definition within_bounds :: "RunnerRedactions \<Rightarrow> bool" where
  "within_bounds r \<longleftrightarrow> rr_pending_bytes r \<le> MAX_REDACTION_PENDING_BYTES \<and> length (rr_streams r) \<le> MAX_REDACTION_STREAMS"

lemma streams_length: "queue_ok r \<Longrightarrow> length (rr_streams r) = card (set (bt_keys (rr_streams r)))"
  by (metis bt_keys_def bt_wf_distinct distinct_card length_map queue_ok_def)

lemma keeps_streams_le:
  assumes "queue_ok r" "keeps xs r s"
  shows "length (rr_streams s) \<le> length (rr_streams r)"
proof -
  have "card (set (bt_keys (rr_streams s))) \<le> card (set (bt_keys (rr_streams r)))"
    using assms(2) by (intro card_mono) (simp_all add: keeps_def)
  then show ?thesis by (simp add: streams_length [OF assms(1)] streams_length [OF keeps_queue [OF assms(2)]])
qed

lemma total_bytes_pending:
  assumes "total_bytes env r \<le> MAX_REDACTION_PENDING_BYTES"
  shows "rr_pending_bytes r \<le> MAX_REDACTION_PENDING_BYTES"
  using assms by (simp add: total_bytes_def usize_saturating_add_def MAX_REDACTION_PENDING_BYTES_def MAX_RUNNER_OUTPUT_FRAME_BYTES_def
      min_def split: if_splits)

lemma release_resolved_bytes:
  assumes "queue_ok r" "release_resolved r = Some (Inr (emitted, s))"
  shows "rr_pending_bytes s \<le> rr_pending_bytes r"
proof -
  obtain r' where r': "release_resolved r = Some (Inr (map pe_event (take (first_anchor r) (rr_pending r)), r'))"
      "keeps (map pe_event (take (first_anchor r) (rr_pending r))) r r'" "rr_pending r' = drop (first_anchor r) (rr_pending r)"
    using release_resolved_exact [OF assms(1)] by blast
  then have "s = r'" "rr_pending_bytes r' = sum_list (map pe_bytes (drop (first_anchor r) (rr_pending r)))"
    "rr_pending_bytes r = sum_list (map pe_bytes (rr_pending r))" using assms by (auto simp: keeps_def queue_ok_def)
  moreover have "sum_list (map pe_bytes (rr_pending r)) = sum_list (map pe_bytes (take (first_anchor r) (rr_pending r))) +
      sum_list (map pe_bytes (drop (first_anchor r) (rr_pending r)))"
    by (metis append_take_drop_id map_append sum_list.append)
  ultimately show ?thesis by simp
qed

lemma events_ok:
  assumes "queue_ok r" "length (rr_streams r) \<le> MAX_REDACTION_STREAMS" "events env event r = Some (Inr (emitted, r'))"
  shows "queue_ok r'" "waiting r @ [header event] = map header emitted @ waiting r'" "within_bounds r'"
proof -
  let ?full = "\<lambda>r. case output_payload env event of None \<Rightarrow> False
         | Some (key, _, _) \<Rightarrow> bt_get (rr_streams r) key = None \<and> length (rr_streams r) = MAX_REDACTION_STREAMS"
  obtain e1 r1 e2 r2 bytes e3 r3 r4 r5 r6 r7 e8 r8 e9 where
    s1: "release_resolved r = Some (Inr (e1, r1))" and s2: "relieve_if env (?full r1) e1 r1 = Some (Inr (e2, r2))" and
    s3: "relieve_if env (MAX_REDACTION_PENDING_BYTES < usize_saturating_add (total_bytes env r2) bytes) e2 r2 = Some (Inr (e3, r3))" and
    s4: "push_event event bytes r3 = Some (Inr r4)" and
    s5: "(case output_payload env event of None \<Rightarrow> Some (Inr r4)
         | Some (key, format, bytes) \<Rightarrow> redact_output env (length (rr_pending r4) - 1) key format bytes r4) = Some (Inr r5)" and
    s6: "redact_event env (length (rr_pending r4) - 1) r5 = Some (Inr r6)" and
    s7: "flush_for_boundary env (length (rr_pending r4) - 1) r6 = Some (Inr r7)" and
    s8: "relieve_if env (MAX_REDACTION_PENDING_BYTES < total_bytes env r7) e3 r7 = Some (Inr (e8, r8))" and
    s9: "total_bytes env r8 \<le> MAX_REDACTION_PENDING_BYTES" "release_resolved r8 = Some (Inr (e9, r'))" "emitted = e8 @ e9"
    using assms(3) unfolding events_def by (auto simp: also_then_Inr_iff Let_def not_less simp del: One_nat_def split: if_splits)
  have k1: "keeps e1 r r1" by (rule release_resolved_keeps [OF assms(1) s1])
  obtain m2 where m2: "e2 = e1 @ m2" "keeps m2 r1 r2" "?full r1 \<Longrightarrow> rr_streams r2 = []"
    using relieve_if_keeps [OF keeps_queue [OF k1] s2] by blast
  obtain m3 where m3: "e3 = e2 @ m3" "keeps m3 r2 r3" using relieve_if_keeps [OF keeps_queue [OF m2(2)] s3] by blast
  have k3: "keeps e3 r r3" using keeps_trans [OF keeps_trans [OF k1 m2(2)] m3(2)] m2(1) m3(1) by simp
  note q4 = push_event_ok [OF keeps_queue [OF k3] s4]
  have q5: "queue_ok r5" "waiting r5 = waiting r4" "length (rr_streams r5) \<le> MAX_REDACTION_STREAMS"
  proof -
    have small: "length (rr_streams r4) \<le> MAX_REDACTION_STREAMS"
      using keeps_streams_le [OF assms(1) k3] assms(2) q4(4) by simp
    have "queue_ok r5 \<and> waiting r5 = waiting r4 \<and> length (rr_streams r5) \<le> MAX_REDACTION_STREAMS"
    proof (cases "output_payload env event")
      case None
      with s5 q4(1) small show ?thesis by simp
    next
      case (Some o')
      obtain key format data where o': "o' = (key, format, data)" by (cases o')
      with s5 Some have out: "redact_output env (length (rr_pending r4) - 1) key format data r4 = Some (Inr r5)" by simp
      have index: "length (rr_pending r4) - 1 < length (rr_pending r4)" using q4(5) by simp
      note kept = redact_output_keeps [OF q4(1) index out]
      have sub: "set (bt_keys (rr_streams r4)) \<subseteq> set (bt_keys (rr_streams r2))" "set (bt_keys (rr_streams r2)) \<subseteq> set (bt_keys (rr_streams r1))"
        using m2(2) m3(2) q4(4) by (simp_all add: keeps_def)
      have one: "length (rr_streams r1) = card (set (bt_keys (rr_streams r1)))" "length (rr_streams r1) \<le> MAX_REDACTION_STREAMS"
        using streams_length [OF keeps_queue [OF k1]] keeps_streams_le [OF assms(1) k1] assms(2) by simp_all
      have "card (set (bt_keys (rr_streams r5))) \<le> MAX_REDACTION_STREAMS"
      proof (cases "?full r1")
        case True
        then have "set (bt_keys (rr_streams r5)) \<subseteq> {key}" using m2(3) sub kept(4) by (auto simp: bt_keys_def)
        then have "card (set (bt_keys (rr_streams r5))) \<le> card {key}" by (intro card_mono) simp_all
        then show ?thesis by (simp add: MAX_REDACTION_STREAMS_def)
      next
        case False
        have "set (bt_keys (rr_streams r5)) \<subseteq> insert key (set (bt_keys (rr_streams r1)))" using sub kept(4) by blast
        then have "card (set (bt_keys (rr_streams r5))) \<le> card (insert key (set (bt_keys (rr_streams r1))))" by (intro card_mono) simp_all
        moreover have "card (insert key (set (bt_keys (rr_streams r1)))) \<le> MAX_REDACTION_STREAMS"
          using False one Some o' by (auto simp: card_insert_if bt_get_def map_of_eq_None_iff bt_keys_def)
        ultimately show ?thesis by simp
      qed
      then have "length (rr_streams r5) \<le> MAX_REDACTION_STREAMS" using streams_length [OF kept(1)] by simp
      with kept show ?thesis by simp
    qed
    then show "queue_ok r5" "waiting r5 = waiting r4" "length (rr_streams r5) \<le> MAX_REDACTION_STREAMS" by blast+
  qed
  have k6: "keeps [] r5 r6" by (rule redact_event_keeps [OF q5(1) s6])
  have k7: "keeps [] r6 r7" by (rule flush_for_boundary_keeps [OF keeps_queue [OF k6] s7])
  obtain m8 where m8: "e8 = e3 @ m8" "keeps m8 r7 r8" using relieve_if_keeps [OF keeps_queue [OF k7] s8] by blast
  have k9: "keeps e9 r8 r'" by (rule release_resolved_keeps [OF keeps_queue [OF m8(2)] s9(2)])
  have rest: "keeps (m8 @ e9) r5 r'" using keeps_trans [OF keeps_trans [OF k6 k7] keeps_trans [OF m8(2) k9]] by simp
  show "queue_ok r'" by (rule keeps_queue [OF k9])
  show "waiting r @ [header event] = map header emitted @ waiting r'"
    using k3 q4(2) q5(2) rest m8(1) s9(3) by (simp add: keeps_def)
  show "within_bounds r'"
    using total_bytes_pending [OF s9(1)] release_resolved_bytes [OF keeps_queue [OF m8(2)] s9(2)] keeps_streams_le [OF q5(1) rest] q5(3)
    by (simp add: within_bounds_def)
qed

primrec run_events :: "redaction_env \<Rightarrow> RunnerEvent list \<Rightarrow> RunnerRedactions \<Rightarrow> (RunnerEvent list \<times> RunnerRedactions) supervised" where
  "run_events env [] r = Some (Inr ([], r))"
| "run_events env (e # es) r =
     also_then (events env e r) (\<lambda>(emitted, r).
     also_then (run_events env es r) (\<lambda>(rest, r). Some (Inr (emitted @ rest, r))))"

lemma run_events_ok:
  "queue_ok r \<Longrightarrow> within_bounds r \<Longrightarrow> run_events env es r = Some (Inr (emitted, r')) \<Longrightarrow>
     queue_ok r' \<and> within_bounds r' \<and> waiting r @ map header es = map header emitted @ waiting r'"
proof (induction es arbitrary: r emitted)
  case (Cons e es)
  then obtain first s rest where s: "events env e r = Some (Inr (first, s))" "run_events env es s = Some (Inr (rest, r'))"
    "emitted = first @ rest" by (auto simp: also_then_Inr_iff)
  have "length (rr_streams r) \<le> MAX_REDACTION_STREAMS" using Cons.prems(2) by (simp add: within_bounds_def)
  note step = events_ok [OF Cons.prems(1) this s(1)]
  note rest = Cons.IH [OF step(1,3) s(2)]
  have "waiting r @ map header (e # es) = (waiting r @ [header e]) @ map header es" by simp
  also have "\<dots> = map header first @ (waiting s @ map header es)" by (simp only: step(2) append.assoc)
  also have "\<dots> = map header emitted @ waiting r'" by (simp only: rest s(3) map_append append.assoc)
  finally show ?case using rest by blast
qed simp

section \<open>Properties\<close>

text \<open>
  (C22) Redaction delays events but neither loses, repeats nor reorders them: after any sequence of
  events, what was emitted followed by what is pending has the headers that were received, in their
  order, and the final flush emits the rest. Meanwhile the pending bytes and the open streams stay within
  their limits.
\<close>

theorem events_in_order:
  assumes "redactions_new vs = Some r" "run_events env es r = Some (Inr (emitted, r'))"
  shows "map header es = map header emitted @ map (\<lambda>p. header (pe_event p)) (rr_pending r') \<and>
    rr_pending_bytes r' \<le> MAX_REDACTION_PENDING_BYTES \<and> length (rr_streams r') \<le> MAX_REDACTION_STREAMS \<and>
    (\<forall>rest r''. finish_events env r' = Some (Inr (rest, r'')) \<longrightarrow> map header (emitted @ rest) = map header es \<and> rr_pending r'' = [])"
proof -
  note new = redactions_new_Some(2-4) [OF assms(1)]
  have "queue_ok r" "within_bounds r"
    using new by (simp_all add: queue_ok_def bt_wf_def within_bounds_def)
  from run_events_ok [OF this assms(2)] new have run: "queue_ok r'" "within_bounds r'" "map header es = map header emitted @ waiting r'"
    by simp_all
  have "map header (emitted @ rest) = map header es \<and> rr_pending r'' = []"
    if "finish_events env r' = Some (Inr (rest, r''))" for rest r''
  proof -
    obtain s where s: "flush_keys env (bt_keys (rr_streams r')) r' = Some (Inr s)" "release_resolved s = Some (Inr (rest, r''))"
      using \<open>finish_events env r' = Some (Inr (rest, r''))\<close> by (auto simp: finish_events_def also_then_Inr_iff)
    have flushed: "keeps [] r' s" "rr_streams s = []"
      using flush_keys_keeps [OF run(1) s(1)] by (auto simp: bt_keys_def filter_empty_conv)
    have "first_anchor s = length (rr_pending s)" using flushed(2) by (simp add: first_anchor_def bt_values_def)
    moreover obtain t where "release_resolved s = Some (Inr (map pe_event (take (first_anchor s) (rr_pending s)), t))"
        "rr_pending t = drop (first_anchor s) (rr_pending s)"
      by (rule release_resolved_exact [OF keeps_queue [OF flushed(1)]])
    ultimately have "rest = map pe_event (rr_pending s)" "rr_pending r'' = []" using s(2) by simp_all
    moreover have "waiting r' = waiting s" using flushed(1) by (simp add: keeps_def)
    ultimately show ?thesis using run(3) by (simp add: comp_def)
  qed
  with run show ?thesis by (simp add: within_bounds_def)
qed

text \<open>A codec for the witness: every byte is the character of its number.\<close>

definition sample_env :: redaction_env where
  "sample_env = \<lparr>base64_encode = map unat, base64_decode = (\<lambda>s. if list_all (\<lambda>c. c < 256) s then Some (map of_nat s) else None),
     event_wire_bytes = (\<lambda>_. Inr 100), allocated_bytes = (\<lambda>st. length (rs_pending st))\<rparr>"

definition sample_event :: "u64 \<Rightarrow> string \<Rightarrow> RunnerEvent" where
  "sample_event n message = \<lparr>ev_schema_version = 4, ev_sequence = n, ev_timestamp = lit ''t'', ev_category = lit ''execution'',
     ev_data = [(lit ''message'', JString (lit message))]\<rparr>"

theorem events_in_order_witness:
  "\<exists>r emitted r'. redactions_new [ascii ''xy''] = Some r \<and>
     run_events sample_env [sample_event 1 ''axy'', sample_event 2 ''z''] r = Some (Inr (emitted, r')) \<and> length emitted = 2 \<and>
     map header emitted @ map (\<lambda>p. header (pe_event p)) (rr_pending r') = map header [sample_event 1 ''axy'', sample_event 2 ''z'']"
proof -
  have "(case redactions_new [ascii ''xy''] of None \<Rightarrow> False | Some r \<Rightarrow>
     (case run_events sample_env [sample_event 1 ''axy'', sample_event 2 ''z''] r of
        Some (Inr (emitted, _)) \<Rightarrow> length emitted = 2 | _ \<Rightarrow> False))"
    by code_simp
  then obtain r emitted r' where r: "redactions_new [ascii ''xy''] = Some r"
      "run_events sample_env [sample_event 1 ''axy'', sample_event 2 ''z''] r = Some (Inr (emitted, r'))" "length emitted = 2"
    by (auto split: option.splits sum.splits)
  from events_in_order [OF r(1,2)] r show ?thesis by metis
qed

text \<open>An output event of one stream of a run.\<close>

definition sample_output :: "u64 \<Rightarrow> string \<Rightarrow> RunnerEvent" where
  "sample_output n data = \<lparr>ev_schema_version = 4, ev_sequence = n, ev_timestamp = lit ''t'', ev_category = lit ''execution'',
     ev_data = [(lit ''command_id'', JString (lit ''build'')),
       (lit ''payload'', JObject [(lit ''data'', JString (lit data)), (lit ''format'', JString (lit ''bytes''))]),
       (lit ''run_id'', JNumber (lit ''1'')), (lit ''stream'', JString (lit ''stdout'')), (lit ''type'', JString (lit ''output''))]\<rparr>"

definition output_bytes :: "redaction_env \<Rightarrow> RunnerEvent list \<Rightarrow> u8 list" where
  "output_bytes env es = concat (map (\<lambda>e. case output_payload env e of None \<Rightarrow> [] | Some (_, _, bytes) \<Rightarrow> bytes) es)"

text \<open>
  (C33) Where the guarantee for streams ends: values that contain the bytes of markers. Two output events of one
  stream are redacted one after the other. The first leaves nothing pending, so that its stream is dropped although
  it has emitted the first byte of a value; the second opens a new stream, and the bytes of the two emitted events
  together contain the value. Neither event as it was received contains it, nor do the two together: it is the
  redaction between them that brings its bytes next to each other.
\<close>

theorem redaction_reset_leaks:
  "\<exists>r emitted r'. redactions_new (map ascii [''xy'', ''abz'', ''x*'', ''x#'']) = Some r \<and>
     run_events sample_env [sample_output 1 ''xabz'', sample_output 2 ''y''] r = Some (Inr (emitted, r')) \<and>
     map ev_sequence emitted = [1, 2] \<and> rr_streams r' = [] \<and> rr_pending r' = [] \<and>
     sublist (ascii ''xy'') (output_bytes sample_env emitted) \<and>
     \<not> sublist (ascii ''xy'') (output_bytes sample_env [sample_output 1 ''xabz'', sample_output 2 ''y''])"
proof -
  have "(case redactions_new (map ascii [''xy'', ''abz'', ''x*'', ''x#'']) of None \<Rightarrow> False | Some r \<Rightarrow>
     (case run_events sample_env [sample_output 1 ''xabz'', sample_output 2 ''y''] r of
        Some (Inr (emitted, r')) \<Rightarrow> map ev_sequence emitted = [1, 2] \<and> rr_streams r' = [] \<and> rr_pending r' = [] \<and>
          sublist (ascii ''xy'') (output_bytes sample_env emitted)
      | _ \<Rightarrow> False))"
    by code_simp
  moreover have "\<not> sublist (ascii ''xy'') (output_bytes sample_env [sample_output 1 ''xabz'', sample_output 2 ''y''])"
    by code_simp
  ultimately show ?thesis by (auto split: option.splits sum.splits)
qed

end
