(* ===== verification/Factory_Subject.thy ===== *)
theory Factory_Subject
  imports Flow_Runtime
begin

text \<open>
  Subjects of Factory work, \<^verbatim>\<open>server/core/octacity-server-factory/src/subject.rs\<close>, the subjects and Artifact references of
  task contracts (\<^verbatim>\<open>task_contract/common.rs\<close>) and the part of a frozen node input that capabilities check
  (\<^verbatim>\<open>flow/input.rs\<close>). The fields of an input or a context that no modelled operation reads are one value of
  the type \<open>'x\<close>; the JSON text of a record and SHA-256 are the parameters of \<open>factory_json\<close>.
\<close>

section \<open>Subjects\<close>

record ExactSubject =
  es_project_id :: uuid
  es_repository_id :: uuid
  es_base_revision :: rstr

record CandidateSubject =
  cs_exact :: ExactSubject
  cs_candidate_revision :: rstr
  cs_changeset_digest :: FactoryDigest

datatype ProjectInputSubject = PI_V1 uuid FactoryDigest

datatype WorkSubject = WS_Repository ExactSubject | WS_ProjectInput ProjectInputSubject

definition exact_subject_digest :: "(u8 list \<Rightarrow> FactoryDigest) \<Rightarrow> ExactSubject \<Rightarrow> FactoryDigest" where
  "exact_subject_digest sha s = factory_digest_sha256 sha (lit ''octacity.factory.subject.v1'')
     [be_bytes 16 (es_project_id s), be_bytes 16 (es_repository_id s), as_bytes (es_base_revision s)]"

definition work_subject_project_id :: "WorkSubject \<Rightarrow> uuid" where
  "work_subject_project_id s =
     (case s of WS_Repository subject \<Rightarrow> es_project_id subject | WS_ProjectInput (PI_V1 project _) \<Rightarrow> project)"

definition work_subject_repository :: "WorkSubject \<Rightarrow> FactoryError + ExactSubject" where
  "work_subject_repository s =
     (case s of WS_Repository subject \<Rightarrow> Inr subject | WS_ProjectInput _ \<Rightarrow> Inl FE_InconsistentSubject)"

definition work_subject_digest :: "(u8 list \<Rightarrow> FactoryDigest) \<Rightarrow> WorkSubject \<Rightarrow> FactoryDigest" where
  "work_subject_digest sha s =
     (case s of
        WS_Repository subject \<Rightarrow> exact_subject_digest sha subject
      | WS_ProjectInput (PI_V1 project input) \<Rightarrow>
          factory_digest_sha256 sha (lit ''octacity.factory.project-input-subject.v1'') [be_bytes 16 project, input])"

text \<open>The comparison of Work with a repository base.\<close>

definition work_subject_is :: "WorkSubject \<Rightarrow> ExactSubject \<Rightarrow> bool" where
  "work_subject_is s other \<longleftrightarrow> (case s of WS_Repository subject \<Rightarrow> subject = other | WS_ProjectInput _ \<Rightarrow> False)"

datatype FactoryTaskSubject = TS_Exact ExactSubject | TS_Candidate CandidateSubject | TS_WorkInputV1 WorkSubject

definition task_subject_exact :: "FactoryTaskSubject \<Rightarrow> FactoryError + ExactSubject" where
  "task_subject_exact s =
     (case s of TS_Exact subject \<Rightarrow> Inr subject | TS_Candidate subject \<Rightarrow> Inr (cs_exact subject)
      | TS_WorkInputV1 _ \<Rightarrow> Inl FE_InconsistentSubject)"

definition task_subject_candidate :: "FactoryTaskSubject \<Rightarrow> CandidateSubject option" where
  "task_subject_candidate s = (case s of TS_Candidate subject \<Rightarrow> Some subject | _ \<Rightarrow> None)"

lemma work_subject_is_iff: "work_subject_is s other \<longleftrightarrow> s = WS_Repository other"
  by (cases s) (auto simp: work_subject_is_def)

section \<open>Artifact references\<close>

text \<open>Compared by Artifact, digest and size, in this order.\<close>

type_synonym FactoryArtifactReference = "uuid \<times> FactoryDigest \<times> u64"

definition MAX_CONTEXT_MANIFEST_ENTRIES :: nat where "MAX_CONTEXT_MANIFEST_ENTRIES = 256"
definition MAX_CONTEXT_ENTRY_BYTES :: u64 where "MAX_CONTEXT_ENTRY_BYTES = 16 * 1024 * 1024"

definition far_artifact_id :: "FactoryArtifactReference \<Rightarrow> uuid" where
  "far_artifact_id r = fst r"

definition far_content_digest :: "FactoryArtifactReference \<Rightarrow> FactoryDigest" where
  "far_content_digest r = fst (snd r)"

definition validate_encoded_size :: "u64 \<Rightarrow> FactoryError + unit" where
  "validate_encoded_size encoded =
     ensure (\<not> (encoded = 0 \<or> MAX_CONTEXT_ENTRY_BYTES < encoded)) (FE_InvalidTaskContract (lit ''encoded size''))"

definition artifact_reference_new :: "uuid \<Rightarrow> FactoryDigest \<Rightarrow> u64 \<Rightarrow> FactoryError + FactoryArtifactReference" where
  "artifact_reference_new artifact digest encoded =
     and_then (validate_encoded_size encoded) (\<lambda>_. Inr (artifact, digest, encoded))"

section \<open>Frozen node inputs\<close>

datatype 'x FlowNodeCode = NC_None | NC_Source FactoryTaskSubject 'x

record 'x ContextManifest =
  cm_id :: uuid
  cm_subject :: FactoryTaskSubject
  cm_rest :: 'x

record 'x FlowNodeInput =
  ni_subject :: WorkSubject
  ni_code :: "'x FlowNodeCode option"
  ni_factory_run_id :: uuid
  ni_flow_run_id :: uuid
  ni_cycle_id :: uuid
  ni_node :: FactoryKey
  ni_context :: "'x ContextManifest option"
  ni_rest :: 'x

record 'x factory_json =
  json_sha256 :: "u8 list \<Rightarrow> FactoryDigest"
  node_input_bytes :: "'x FlowNodeInput \<Rightarrow> u8 list option"
  context_bytes :: "'x ContextManifest \<Rightarrow> u8 list option"

definition invalid_node_input :: FactoryError where
  "invalid_node_input = FE_InvalidConfiguration (lit ''Flow node input'')"

definition node_input_digest :: "('x, 'm) factory_json_scheme \<Rightarrow> 'x FlowNodeInput \<Rightarrow> FactoryError + FactoryDigest" where
  "node_input_digest env input =
     map_ok (\<lambda>bytes. factory_digest_sha256 (json_sha256 env) (lit ''octacity.factory.flow-node-input.v1'') [bytes])
       (ok_or invalid_node_input (node_input_bytes env input))"

definition context_digest :: "('x, 'm) factory_json_scheme \<Rightarrow> 'x ContextManifest \<Rightarrow> FactoryError + FactoryDigest" where
  "context_digest env context =
     map_ok (\<lambda>bytes. factory_digest_sha256 (json_sha256 env) (lit ''octacity.factory.context-manifest.v1'') [bytes])
       (ok_or (FE_InvalidTaskContract (lit ''canonical record serialization'')) (context_bytes env context))"

definition verify_attempt :: "('x, 'm) factory_json_scheme \<Rightarrow> 'x FlowNodeInput \<Rightarrow> NodeAttempt \<Rightarrow> FactoryError + unit" where
  "verify_attempt env input attempt =
     and_then (validate_execution_window attempt) (\<lambda>_.
     if na_factory_run_id attempt \<noteq> ni_factory_run_id input \<or> na_flow_run_id attempt \<noteq> ni_flow_run_id input \<or>
        na_workflow_cycle_id attempt \<noteq> ni_cycle_id input \<or> na_node_key attempt \<noteq> ni_node input
     then Inl invalid_node_input
     else and_then (node_input_digest env input) (\<lambda>digest.
       ensure (na_input_digest attempt = digest) invalid_node_input))"

definition exact_resource :: "'x FlowNodeInput \<Rightarrow> FactoryError + ExactSubject" where
  "exact_resource input =
     (case ni_code input of
        None \<Rightarrow> work_subject_repository (ni_subject input)
      | Some NC_None \<Rightarrow> Inl invalid_node_input
      | Some (NC_Source subject _) \<Rightarrow> task_subject_exact subject)"

end
