(* ===== verification/Decision_Signal.thy ===== *)
theory Decision_Signal
  imports Factory_Subject
begin

text \<open>
  Decision Signals, \<^verbatim>\<open>server/core/octacity-server-factory/src/decision_signal/question.rs\<close> and
  \<^verbatim>\<open>contract.rs\<close>, with the requests of \<^verbatim>\<open>execution.rs\<close> and the profiles of \<^verbatim>\<open>configuration.rs\<close>: bounded questions
  put to a model provider, the request that freezes them and the answers it accepts. A panic
  (\<^verbatim>\<open>expect\<close>, \<^verbatim>\<open>unreachable!\<close>) on a restored value is \<open>None\<close>. Signed scores are integers.
\<close>

section \<open>Vocabulary\<close>

datatype DecisionSignalPurpose = SP_Routing | SP_ToolRisk | SP_ProfileSelection

datatype DecisionSignalState = SS_Completed | SS_TimedOut | SS_Invalid | SS_Unavailable | SS_Cancelled

datatype DecisionSignalMode = SM_Shadow | SM_Advisory | SM_BoundedControl

datatype DecisionSignalFallback = SF_Deny | SF_Escalate

datatype DecisionSignalInputMedia = IM_CanonicalJson | IM_Utf8Text

datatype DecisionSignalQuestionKind = QK_FiniteChoice | QK_BoundedScore

definition signal_purpose_as_str :: "DecisionSignalPurpose \<Rightarrow> rstr" where
  "signal_purpose_as_str p = lit (case p of
     SP_Routing \<Rightarrow> ''routing'' | SP_ToolRisk \<Rightarrow> ''tool_risk'' | SP_ProfileSelection \<Rightarrow> ''profile_selection'')"

definition signal_state_as_str :: "DecisionSignalState \<Rightarrow> rstr" where
  "signal_state_as_str s = lit (case s of
     SS_Completed \<Rightarrow> ''completed'' | SS_TimedOut \<Rightarrow> ''timed_out'' | SS_Invalid \<Rightarrow> ''invalid''
   | SS_Unavailable \<Rightarrow> ''unavailable'' | SS_Cancelled \<Rightarrow> ''cancelled'')"

definition signal_mode_as_str :: "DecisionSignalMode \<Rightarrow> rstr" where
  "signal_mode_as_str m = lit (case m of
     SM_Shadow \<Rightarrow> ''shadow'' | SM_Advisory \<Rightarrow> ''advisory'' | SM_BoundedControl \<Rightarrow> ''bounded_control'')"

definition signal_fallback_as_str :: "DecisionSignalFallback \<Rightarrow> rstr" where
  "signal_fallback_as_str f = lit (case f of SF_Deny \<Rightarrow> ''deny'' | SF_Escalate \<Rightarrow> ''escalate'')"

text \<open>The derived orders follow the declarations.\<close>

primrec purpose_index :: "DecisionSignalPurpose \<Rightarrow> nat" where
  "purpose_index SP_Routing = 0"
| "purpose_index SP_ToolRisk = 1"
| "purpose_index SP_ProfileSelection = 2"

instantiation DecisionSignalPurpose :: linorder
begin

definition less_eq_DecisionSignalPurpose :: "DecisionSignalPurpose \<Rightarrow> DecisionSignalPurpose \<Rightarrow> bool" where
  "less_eq_DecisionSignalPurpose x y \<longleftrightarrow> purpose_index x \<le> purpose_index y"

definition less_DecisionSignalPurpose :: "DecisionSignalPurpose \<Rightarrow> DecisionSignalPurpose \<Rightarrow> bool" where
  "less_DecisionSignalPurpose x y \<longleftrightarrow> purpose_index x < purpose_index y"

instance
proof
  fix x y :: DecisionSignalPurpose
  show "x \<le> y \<Longrightarrow> y \<le> x \<Longrightarrow> x = y"
    by (cases x; cases y) (simp_all add: less_eq_DecisionSignalPurpose_def)
qed (auto simp: less_eq_DecisionSignalPurpose_def less_DecisionSignalPurpose_def)

end

instantiation DecisionSignalInputMedia :: linorder
begin

definition less_eq_DecisionSignalInputMedia :: "DecisionSignalInputMedia \<Rightarrow> DecisionSignalInputMedia \<Rightarrow> bool" where
  "less_eq_DecisionSignalInputMedia x y \<longleftrightarrow> x = IM_CanonicalJson \<or> y = IM_Utf8Text"

definition less_DecisionSignalInputMedia :: "DecisionSignalInputMedia \<Rightarrow> DecisionSignalInputMedia \<Rightarrow> bool" where
  "less_DecisionSignalInputMedia x y \<longleftrightarrow> x = IM_CanonicalJson \<and> y = IM_Utf8Text"

instance
proof
  show "x \<le> x" for x :: DecisionSignalInputMedia by (cases x) (simp_all add: less_eq_DecisionSignalInputMedia_def)
qed (auto simp: less_eq_DecisionSignalInputMedia_def less_DecisionSignalInputMedia_def
      intro: DecisionSignalInputMedia.exhaust)

end

instantiation DecisionSignalQuestionKind :: linorder
begin

definition less_eq_DecisionSignalQuestionKind :: "DecisionSignalQuestionKind \<Rightarrow> DecisionSignalQuestionKind \<Rightarrow> bool" where
  "less_eq_DecisionSignalQuestionKind x y \<longleftrightarrow> x = QK_FiniteChoice \<or> y = QK_BoundedScore"

definition less_DecisionSignalQuestionKind :: "DecisionSignalQuestionKind \<Rightarrow> DecisionSignalQuestionKind \<Rightarrow> bool" where
  "less_DecisionSignalQuestionKind x y \<longleftrightarrow> x = QK_FiniteChoice \<and> y = QK_BoundedScore"

instance
proof
  show "x \<le> x" for x :: DecisionSignalQuestionKind by (cases x) (simp_all add: less_eq_DecisionSignalQuestionKind_def)
qed (auto simp: less_eq_DecisionSignalQuestionKind_def less_DecisionSignalQuestionKind_def
      intro: DecisionSignalQuestionKind.exhaust)

end

section \<open>Texts of digests\<close>

definition signal_int_text :: "int \<Rightarrow> rstr" where
  "signal_int_text v = (if v < 0 then 45 # dec_text (nat (- v)) else dec_text (nat v))"

text \<open>The parts of a \<^verbatim>\<open>format!\<close> separated by NUL.\<close>

fun nul_text :: "rstr list \<Rightarrow> rstr" where
  "nul_text [] = []"
| "nul_text [t] = t"
| "nul_text (t # ts) = t @ 0 # nul_text ts"

definition signal_reference_bytes :: "ImmutableReference \<Rightarrow> u8 list" where
  "signal_reference_bytes r =
     as_bytes (nul_text [fst r, fst (snd r), digest_display (snd (snd r))])"

definition budget_limit_text :: "BudgetLimit \<Rightarrow> rstr" where
  "budget_limit_text limit = nul_text [dec_text (unat (max_attempts limit)), dec_text (unat (max_elapsed_millis limit)),
     dec_text (unat (max_tokens limit)), dec_text (unat (max_cost_micro_units limit)), dec_text (unat (max_output_bytes limit))]"

definition cost_display :: "BudgetCost \<Rightarrow> rstr" where
  "cost_display c =
     (if cost_is_known c then dec_text (unat (known_micro_units c))
      else lit ''unknown(known_micro_units='' @ dec_text (unat (known_micro_units c)) @ lit '')'')"

definition usage_text :: "BudgetUsage \<Rightarrow> rstr" where
  "usage_text u = nul_text [dec_text (unat (attempts u)), dec_text (unat (elapsed_millis u)), dec_text (unat (tokens u)),
     cost_display (cost_micro_units u), dec_text (unat (output_bytes u))]"

section \<open>Questions\<close>

definition MAX_DECISION_SIGNAL_CHOICES :: nat where "MAX_DECISION_SIGNAL_CHOICES = 32"
definition MAX_DECISION_SIGNAL_QUESTIONS :: nat where "MAX_DECISION_SIGNAL_QUESTIONS = 32"
definition DECISION_SIGNAL_PROBABILITY_SCALE :: u32 where "DECISION_SIGNAL_PROBABILITY_SCALE = 1000000"

abbreviation invalid_signal :: "string \<Rightarrow> FactoryError" where
  "invalid_signal field \<equiv> FE_InvalidDecisionSignal (lit field)"

definition probability_new :: "u32 \<Rightarrow> FactoryError + u32" where
  "probability_new parts_per_million =
     (if DECISION_SIGNAL_PROBABILITY_SCALE < parts_per_million then Inl (invalid_signal ''probability'')
      else Inr parts_per_million)"

type_synonym DecisionSignalChoices = "FactoryKey list"

definition signal_choices_try_new :: "FactoryKey list \<Rightarrow> FactoryError + DecisionSignalChoices" where
  "signal_choices_try_new choices =
     (if \<not> (2 \<le> length choices \<and> length choices \<le> MAX_DECISION_SIGNAL_CHOICES)
      then Inl (FE_CollectionLimitExceeded (lit ''Decision Signal choices''))
      else if length (remdups_adj (sort choices)) \<noteq> length choices then Inl (invalid_signal ''duplicate choice'')
      else Inr choices)"

record DecisionSignalRouteSet =
  rt_state :: FactoryKey
  rt_choices :: DecisionSignalChoices

record DecisionSignalScoreDomain =
  score_minimum :: int
  score_maximum :: int

definition score_domain_new :: "int \<Rightarrow> int \<Rightarrow> FactoryError + DecisionSignalScoreDomain" where
  "score_domain_new minimum maximum =
     (if maximum \<le> minimum then Inl (invalid_signal ''score domain'')
      else Inr \<lparr>score_minimum = minimum, score_maximum = maximum\<rparr>)"

definition score_domain_contains :: "DecisionSignalScoreDomain \<Rightarrow> int \<Rightarrow> bool" where
  "score_domain_contains d score \<longleftrightarrow> score_minimum d \<le> score \<and> score \<le> score_maximum d"

datatype DecisionSignalQuestionDomain = QD_FiniteChoice DecisionSignalChoices | QD_BoundedScore DecisionSignalScoreDomain

type_synonym DecisionSignalChoiceCriterion = "FactoryKey \<times> FactoryText"

datatype DecisionSignalQuestionCriteria =
    QC_FiniteChoice "DecisionSignalChoiceCriterion list"
  | QC_BoundedScore "FactoryText list"

definition question_domain_kind :: "DecisionSignalQuestionDomain \<Rightarrow> DecisionSignalQuestionKind" where
  "question_domain_kind d = (case d of QD_FiniteChoice _ \<Rightarrow> QK_FiniteChoice | QD_BoundedScore _ \<Rightarrow> QK_BoundedScore)"

record DecisionSignalQuestion =
  sq_reference :: ImmutableReference
  sq_instructions :: FactoryText
  sq_domain :: DecisionSignalQuestionDomain
  sq_criteria :: DecisionSignalQuestionCriteria

definition criteria_match_domain :: "DecisionSignalQuestionDomain \<Rightarrow> DecisionSignalQuestionCriteria \<Rightarrow> bool" where
  "criteria_match_domain d c =
     (case (d, c) of
        (QD_FiniteChoice choices, QC_FiniteChoice criteria) \<Rightarrow>
          length choices = length criteria \<and> list_all (\<lambda>(choice, criterion). choice = fst criterion) (zip choices criteria)
      | (QD_BoundedScore scores, QC_BoundedScore criteria) \<Rightarrow>
          i64_range (int (length criteria)) \<and> int (length criteria) = score_maximum scores - score_minimum scores + 1
      | _ \<Rightarrow> False)"

definition signal_question_new ::
  "ImmutableReference \<Rightarrow> FactoryText \<Rightarrow> DecisionSignalQuestionDomain \<Rightarrow> DecisionSignalQuestionCriteria \<Rightarrow>
     FactoryError + DecisionSignalQuestion"
where
  "signal_question_new reference instructions d c =
     (if \<not> criteria_match_domain d c then Inl (invalid_signal ''question criteria'')
      else Inr \<lparr>sq_reference = reference, sq_instructions = instructions, sq_domain = d, sq_criteria = c\<rparr>)"

text \<open>The text of a question; criteria of the other kind are unreachable.\<close>

definition encode_signal_question :: "DecisionSignalQuestion \<Rightarrow> u8 list option" where
  "encode_signal_question q =
     map_option (\<lambda>suffix_text. signal_reference_bytes (sq_reference q) @ 0 # as_bytes (sq_instructions q) @ suffix_text)
       (case (sq_domain q, sq_criteria q) of
          (QD_FiniteChoice choices, QC_FiniteChoice criteria) \<Rightarrow>
            Some (as_bytes (0 # lit ''choice'') @ concat (map (\<lambda>(choice, criterion).
              0 # as_bytes choice @ 0 # as_bytes (snd criterion)) (zip choices criteria)))
        | (QD_BoundedScore scores, QC_BoundedScore criteria) \<Rightarrow>
            Some (as_bytes (0 # lit ''score'' @ 0 # nul_text [signal_int_text (score_minimum scores), signal_int_text (score_maximum scores)]) @
              concat (map (\<lambda>criterion. 0 # as_bytes criterion) criteria))
        | _ \<Rightarrow> None)"

section \<open>Provider inputs\<close>

record DecisionSignalProviderLimits =
  max_input_bytes :: u32
  max_questions :: u16
  max_choices :: u16

definition provider_limits_new :: "u32 \<Rightarrow> u16 \<Rightarrow> u16 \<Rightarrow> FactoryError + DecisionSignalProviderLimits" where
  "provider_limits_new inputs questions choices =
     (if inputs = 0 \<or> of_nat MAX_FACTORY_TEXT_BYTES < inputs then Inl (invalid_signal ''maximum input bytes'')
      else if questions = 0 \<or> of_nat MAX_DECISION_SIGNAL_QUESTIONS < questions then Inl (invalid_signal ''maximum questions'')
      else if choices < 2 \<or> of_nat MAX_DECISION_SIGNAL_CHOICES < choices then Inl (invalid_signal ''maximum choices'')
      else Inr \<lparr>max_input_bytes = inputs, max_questions = questions, max_choices = choices\<rparr>)"

record DecisionSignalProviderInput =
  sn_media :: DecisionSignalInputMedia
  sn_state_document :: FactoryText
  sn_questions :: "DecisionSignalQuestion list"
  sn_consuming_question :: FactoryKey
  sn_routing_state :: "FactoryKey option"
  sn_digest :: FactoryDigest

text \<open>The parameters: reading and writing a JSON document again, and the JSON text of the criteria of a
  threshold (the questions, the consuming one, the purpose, the probability semantics, the calibration
  and the two bounds).\<close>

record 'x signal_json = "'x factory_json" +
  canonical_document :: "rstr \<Rightarrow> rstr option"
  signal_criteria :: "DecisionSignalQuestion list \<Rightarrow> FactoryKey \<Rightarrow> DecisionSignalPurpose \<Rightarrow> ImmutableReference \<Rightarrow>
    ImmutableReference \<Rightarrow> u32 \<Rightarrow> u32 \<Rightarrow> u8 list"

definition canonicalize_state_document ::
  "('x, 'm) signal_json_scheme \<Rightarrow> DecisionSignalInputMedia \<Rightarrow> FactoryText \<Rightarrow> FactoryError + FactoryText"
where
  "canonicalize_state_document env media document =
     (if media = IM_Utf8Text then Inr document
      else and_then (ok_or (invalid_signal ''canonical JSON input'') (canonical_document env document)) factory_text_new)"

fun encode_questions :: "DecisionSignalQuestion list \<Rightarrow> u8 list list option" where
  "encode_questions [] = Some []"
| "encode_questions (q # qs) =
     Option.bind (encode_signal_question q) (\<lambda>bytes. map_option (\<lambda>rest. bytes # rest) (encode_questions qs))"

definition digest_provider_input ::
  "('x, 'm) signal_json_scheme \<Rightarrow> DecisionSignalInputMedia \<Rightarrow> FactoryText \<Rightarrow> DecisionSignalQuestion list \<Rightarrow>
     FactoryKey \<Rightarrow> FactoryKey option \<Rightarrow> FactoryDigest option"
where
  "digest_provider_input env media document questions consuming routing =
     map_option (\<lambda>encoded. factory_digest_sha256 (json_sha256 env) (lit ''octacity.decision-signal.input.v1'')
         ([as_bytes (lit (case media of IM_CanonicalJson \<Rightarrow> ''canonical-json'' | IM_Utf8Text \<Rightarrow> ''utf8-text'')),
           as_bytes document, as_bytes consuming,
           (case routing of None \<Rightarrow> [] | Some state \<Rightarrow> as_bytes state)] @ encoded))
       (encode_questions questions)"

definition question_identity :: "DecisionSignalQuestion \<Rightarrow> FactoryKey" where
  "question_identity q = fst (sq_reference q)"

definition is_finite_question :: "DecisionSignalQuestion \<Rightarrow> bool" where
  "is_finite_question q \<longleftrightarrow> (case sq_domain q of QD_FiniteChoice _ \<Rightarrow> True | QD_BoundedScore _ \<Rightarrow> False)"

definition provider_input_new ::
  "('x, 'm) signal_json_scheme \<Rightarrow> DecisionSignalInputMedia \<Rightarrow> FactoryText \<Rightarrow> DecisionSignalQuestion list \<Rightarrow>
     FactoryKey \<Rightarrow> FactoryKey option \<Rightarrow> (FactoryError + DecisionSignalProviderInput) option"
where
  "provider_input_new env media document questions consuming routing =
     (if questions = [] \<or> MAX_DECISION_SIGNAL_QUESTIONS < length questions
      then Some (Inl (invalid_signal ''question count''))
      else if length (remdups_adj (sort (map question_identity questions))) \<noteq> length questions \<or>
          \<not> list_ex (\<lambda>q. question_identity q = consuming \<and> is_finite_question q) questions
      then Some (Inl (invalid_signal ''consuming question''))
      else also_then (Some (canonicalize_state_document env media document)) (\<lambda>canonical.
        map_option (\<lambda>digest. Inr \<lparr>sn_media = media, sn_state_document = canonical, sn_questions = questions,
            sn_consuming_question = consuming, sn_routing_state = routing, sn_digest = digest\<rparr>)
          (digest_provider_input env media canonical questions consuming routing)))"

definition input_choices :: "DecisionSignalProviderInput \<Rightarrow> DecisionSignalChoices option" where
  "input_choices input =
     Option.bind (find (\<lambda>q. question_identity q = sn_consuming_question input) (sn_questions input)) (\<lambda>q.
       case sq_domain q of QD_FiniteChoice choices \<Rightarrow> Some choices | QD_BoundedScore _ \<Rightarrow> None)"

section \<open>Capabilities, thresholds and profiles\<close>

record DecisionSignalProviderCapability =
  sc_provider :: ImmutableReference
  sc_adapter :: ImmutableReference
  sc_model :: ImmutableReference
  sc_probability_semantics :: ImmutableReference
  sc_data_handling :: ImmutableReference
  sc_purposes :: "DecisionSignalPurpose list"
  sc_media :: "DecisionSignalInputMedia list"
  sc_question_kinds :: "DecisionSignalQuestionKind list"
  sc_limits :: DecisionSignalProviderLimits
  sc_budget_ceiling :: BudgetLimit

text \<open>The three lists of \<open>c\<close> are those of the caller; the exact identities and bounds are kept.\<close>

definition provider_capability_new :: "DecisionSignalProviderCapability \<Rightarrow> FactoryError + DecisionSignalProviderCapability" where
  "provider_capability_new c =
     (let purposes = remdups_adj (sort (sc_purposes c));
          media = remdups_adj (sort (sc_media c));
          kinds = remdups_adj (sort (sc_question_kinds c))
      in if purposes = [] \<or> 3 < length purposes \<or> length purposes \<noteq> length (sc_purposes c)
         then Inl (invalid_signal ''supported purposes'')
         else if media = [] \<or> kinds = [] \<or> length media \<noteq> length (sc_media c) \<or>
             length kinds \<noteq> length (sc_question_kinds c)
         then Inl (invalid_signal ''provider capability shape'')
         else Inr (c\<lparr>sc_purposes := purposes, sc_media := media, sc_question_kinds := kinds\<rparr>))"

record DecisionSignalThreshold =
  th_purpose :: DecisionSignalPurpose
  th_probability_semantics :: ImmutableReference
  th_calibration :: ImmutableReference
  th_minimum_probability :: u32
  th_minimum_margin :: u32
  th_profile_qualification :: "FactoryDigest option"

definition threshold_new ::
  "DecisionSignalPurpose \<Rightarrow> ImmutableReference \<Rightarrow> ImmutableReference \<Rightarrow> u32 \<Rightarrow> u32 \<Rightarrow> FactoryError + DecisionSignalThreshold"
where
  "threshold_new purpose semantics calibration minimum margin =
     (if minimum = 0 then Inl (invalid_signal ''minimum probability'')
      else Inr \<lparr>th_purpose = purpose, th_probability_semantics = semantics, th_calibration = calibration,
        th_minimum_probability = minimum, th_minimum_margin = margin, th_profile_qualification = None\<rparr>)"

text \<open>\<^verbatim>\<open>saturating_sub\<close> of the two probabilities.\<close>

definition threshold_accepts :: "DecisionSignalThreshold \<Rightarrow> u32 \<Rightarrow> u32 \<Rightarrow> bool" where
  "threshold_accepts t selected runner_up \<longleftrightarrow>
     th_minimum_probability t \<le> selected \<and>
     th_minimum_margin t \<le> (if runner_up \<le> selected then selected - runner_up else 0)"

record DecisionSignalProfile =
  pr_purpose :: DecisionSignalPurpose
  pr_provider :: ImmutableReference
  pr_adapter :: ImmutableReference
  pr_model :: ImmutableReference
  pr_question_set :: ImmutableReference
  pr_policy :: ImmutableReference
  pr_mode :: DecisionSignalMode
  pr_fallback :: DecisionSignalFallback
  pr_budget :: BudgetLimit
  pr_routes :: "DecisionSignalRouteSet option"

definition signal_profile_new :: "DecisionSignalProfile \<Rightarrow> FactoryError + DecisionSignalProfile" where
  "signal_profile_new definition_of =
     (if (pr_purpose definition_of = SP_Routing) \<noteq> (pr_routes definition_of \<noteq> None)
      then Inl (FE_InvalidConfiguration (lit ''decision_signal_routes''))
      else Inr definition_of)"

definition profile_qualification_digest ::
  "('x, 'm) signal_json_scheme \<Rightarrow> ImmutableReference \<Rightarrow> ImmutableReference \<Rightarrow> ImmutableReference \<Rightarrow> ImmutableReference \<Rightarrow>
     ImmutableReference \<Rightarrow> DecisionSignalProviderInput \<Rightarrow> DecisionSignalThreshold \<Rightarrow> FactoryDigest"
where
  "profile_qualification_digest env provider adapter model questions policy input threshold =
     factory_digest_sha256 (json_sha256 env) (lit ''octacity.decision-signal.profile-qualification.v1'')
       [signal_reference_bytes provider, signal_reference_bytes adapter, signal_reference_bytes model,
        signal_reference_bytes questions, signal_reference_bytes policy,
        signal_criteria env (sn_questions input) (sn_consuming_question input) (th_purpose threshold)
          (th_probability_semantics threshold) (th_calibration threshold) (th_minimum_probability threshold)
          (th_minimum_margin threshold)]"

definition qualify_profile_selection ::
  "('x, 'm) signal_json_scheme \<Rightarrow> DecisionSignalThreshold \<Rightarrow> DecisionSignalProfile \<Rightarrow> DecisionSignalProviderInput \<Rightarrow>
     FactoryError + DecisionSignalThreshold"
where
  "qualify_profile_selection env t profile input =
     (if th_purpose t \<noteq> SP_ProfileSelection \<or> pr_purpose profile \<noteq> th_purpose t
      then Inl (invalid_signal ''profile qualification purpose'')
      else Inr (t\<lparr>th_profile_qualification := Some (profile_qualification_digest env (pr_provider profile)
        (pr_adapter profile) (pr_model profile) (pr_question_set profile) (pr_policy profile) input t)\<rparr>))"

section \<open>Requests\<close>

record DecisionSignalRequest =
  rq_id :: uuid
  rq_node_attempt_id :: uuid
  rq_frozen_input_digest :: FactoryDigest
  rq_run_id :: uuid
  rq_subject :: WorkSubject
  rq_purpose :: DecisionSignalPurpose
  rq_input_digest :: FactoryDigest
  rq_policy_digest :: FactoryDigest
  rq_budget :: BudgetLimit

definition signal_request_new ::
  "('x, 'm) factory_json_scheme \<Rightarrow> uuid \<Rightarrow> 'x FlowNodeInput \<Rightarrow> NodeAttempt \<Rightarrow> DecisionSignalPurpose \<Rightarrow>
     FactoryDigest \<Rightarrow> FactoryDigest \<Rightarrow> BudgetLimit \<Rightarrow> FactoryError + DecisionSignalRequest"
where
  "signal_request_new env i input node purpose input_digest policy_digest budget =
     and_then (verify_attempt env input node) (\<lambda>_.
     and_then (node_input_digest env input) (\<lambda>frozen.
     Inr \<lparr>rq_id = i, rq_node_attempt_id = na_id node, rq_frozen_input_digest = frozen,
       rq_run_id = ni_factory_run_id input, rq_subject = ni_subject input, rq_purpose = purpose,
       rq_input_digest = input_digest, rq_policy_digest = policy_digest, rq_budget = budget\<rparr>))"

definition uuid_of_bytes :: "u8 list \<Rightarrow> uuid" where
  "uuid_of_bytes bytes = fold (\<lambda>b acc. push_bit 8 acc + ucast b) bytes 0"

definition node_attempt_id_from_uuid :: "uuid \<Rightarrow> FactoryError + uuid" where
  "node_attempt_id_from_uuid value_of = (if value_of = 0 then Inl (FE_InvalidIdentifier FK_NodeAttempt) else Inr value_of)"

definition profile_selection_request ::
  "('x, 'm) factory_json_scheme \<Rightarrow> uuid \<Rightarrow> 'x FlowNodeInput \<Rightarrow> FactoryDigest \<Rightarrow> FactoryDigest \<Rightarrow> BudgetLimit \<Rightarrow>
     FactoryError + DecisionSignalRequest"
where
  "profile_selection_request env i input input_digest policy_digest budget =
     and_then (node_input_digest env input) (\<lambda>frozen.
     let identity = factory_digest_sha256 (json_sha256 env) (lit ''octacity.factory.profile-signal-owner.v1'') [frozen]
     in and_then (node_attempt_id_from_uuid (uuid_of_bytes (take 16 identity))) (\<lambda>owner.
     Inr \<lparr>rq_id = i, rq_node_attempt_id = owner, rq_frozen_input_digest = frozen,
       rq_run_id = ni_factory_run_id input, rq_subject = ni_subject input, rq_purpose = SP_ProfileSelection,
       rq_input_digest = input_digest, rq_policy_digest = policy_digest, rq_budget = budget\<rparr>))"

record DecisionSignalProviderRequest =
  pq_request :: DecisionSignalRequest
  pq_provider :: ImmutableReference
  pq_adapter :: ImmutableReference
  pq_model :: ImmutableReference
  pq_question_set :: ImmutableReference
  pq_policy :: ImmutableReference
  pq_probability_semantics :: ImmutableReference
  pq_data_handling :: ImmutableReference
  pq_input :: DecisionSignalProviderInput
  pq_threshold :: DecisionSignalThreshold
  pq_mode :: DecisionSignalMode
  pq_fallback :: DecisionSignalFallback
  pq_deadline :: timestamp
  pq_digest :: FactoryDigest

definition routing_input_matches_profile ::
  "DecisionSignalPurpose \<Rightarrow> DecisionSignalRouteSet option \<Rightarrow> DecisionSignalProviderInput \<Rightarrow> bool option"
where
  "routing_input_matches_profile purpose routes input =
     (case (purpose, routes, sn_routing_state input) of
        (SP_Routing, Some r, Some state) \<Rightarrow>
          if rt_state r = state then map_option (\<lambda>choices. rt_choices r = choices) (input_choices input) else Some False
      | (SP_ToolRisk, None, None) \<Rightarrow> Some True
      | (SP_ProfileSelection, None, None) \<Rightarrow> Some True
      | _ \<Rightarrow> Some False)"

definition digest_provider_request ::
  "('x, 'm) signal_json_scheme \<Rightarrow> DecisionSignalProviderRequest \<Rightarrow> FactoryDigest"
where
  "digest_provider_request env q =
     factory_digest_sha256 (json_sha256 env) (lit ''octacity.decision-signal.request.v2'')
       [be_bytes 16 (rq_id (pq_request q)), be_bytes 16 (rq_node_attempt_id (pq_request q)),
        rq_frozen_input_digest (pq_request q), be_bytes 16 (rq_run_id (pq_request q)),
        as_bytes (signal_purpose_as_str (rq_purpose (pq_request q))), sn_digest (pq_input q),
        rq_policy_digest (pq_request q), signal_reference_bytes (pq_provider q), signal_reference_bytes (pq_adapter q),
        signal_reference_bytes (pq_model q), signal_reference_bytes (pq_question_set q), signal_reference_bytes (pq_policy q),
        signal_reference_bytes (pq_probability_semantics q), signal_reference_bytes (pq_data_handling q),
        signal_reference_bytes (th_calibration (pq_threshold q)), as_bytes (budget_limit_text (rq_budget (pq_request q))),
        as_bytes (nul_text ([dec_text (unat (th_minimum_probability (pq_threshold q))),
            dec_text (unat (th_minimum_margin (pq_threshold q)))] @
          (case th_profile_qualification (pq_threshold q) of None \<Rightarrow> [] | Some digest \<Rightarrow> [digest_display digest]))),
        as_bytes (signal_mode_as_str (pq_mode q)), as_bytes (signal_fallback_as_str (pq_fallback q)),
        be_bytes 8 (of_int (pq_deadline q) :: u64)]"

definition validate_request_integrity ::
  "('x, 'm) signal_json_scheme \<Rightarrow> DecisionSignalProviderRequest \<Rightarrow> FactoryError + unit"
where
  "validate_request_integrity env q =
     ensure (\<not> (rq_input_digest (pq_request q) \<noteq> sn_digest (pq_input q) \<or>
         rq_policy_digest (pq_request q) \<noteq> snd (snd (pq_policy q)) \<or>
         (rq_purpose (pq_request q) = SP_ProfileSelection \<and>
            th_profile_qualification (pq_threshold q) \<noteq>
              Some (profile_qualification_digest env (pq_provider q) (pq_adapter q) (pq_model q) (pq_question_set q)
                (pq_policy q) (pq_input q) (pq_threshold q))) \<or>
         pq_digest q \<noteq> digest_provider_request env q))
       (invalid_signal ''provider request integrity'')"

text \<open>\<^verbatim>\<open>try_from(length).unwrap_or(MAX)\<close>.\<close>

definition saturated_len :: "'a list \<Rightarrow> 'w::len word" where
  "saturated_len xs = of_nat (min (length xs) (2 ^ LENGTH('w) - 1))"

definition provider_request_new ::
  "('x, 'm) signal_json_scheme \<Rightarrow> DecisionSignalRequest \<Rightarrow> DecisionSignalProfile \<Rightarrow> DecisionSignalProviderCapability \<Rightarrow>
     DecisionSignalProviderInput \<Rightarrow> DecisionSignalThreshold \<Rightarrow> timestamp \<Rightarrow> (FactoryError + DecisionSignalProviderRequest) option"
where
  "provider_request_new env r profile capability input threshold deadline =
     (let refused = Some (Inl (invalid_signal ''provider request capability'')) in
      if rq_purpose r \<noteq> pr_purpose profile \<or> rq_purpose r \<notin> set (sc_purposes capability) \<or>
         pr_provider profile \<noteq> sc_provider capability \<or> pr_adapter profile \<noteq> sc_adapter capability \<or>
         pr_model profile \<noteq> sc_model capability \<or> rq_input_digest r \<noteq> sn_digest input \<or>
         rq_policy_digest r \<noteq> snd (snd (pr_policy profile))
      then refused
      else Option.bind (routing_input_matches_profile (rq_purpose r) (pr_routes profile) input) (\<lambda>matches.
        if \<not> matches \<or> th_purpose threshold \<noteq> rq_purpose r \<or>
           th_probability_semantics threshold \<noteq> sc_probability_semantics capability \<or>
           sn_media input \<notin> set (sc_media capability) \<or>
           list_ex (\<lambda>q. question_domain_kind (sq_domain q) \<notin> set (sc_question_kinds capability)) (sn_questions input) \<or>
           max_input_bytes (sc_limits capability) < saturated_len (as_bytes (sn_state_document input)) \<or>
           max_questions (sc_limits capability) < saturated_len (sn_questions input) \<or>
           list_ex (\<lambda>q. case sq_domain q of
               QD_FiniteChoice choices \<Rightarrow> max_choices (sc_limits capability) < saturated_len choices
             | QD_BoundedScore _ \<Rightarrow> False) (sn_questions input) \<or>
           \<not> fits_within (rq_budget r) (pr_budget profile) \<or>
           \<not> fits_within (pr_budget profile) (sc_budget_ceiling capability) \<or>
           \<not> fits_within (rq_budget r) (sc_budget_ceiling capability)
        then refused
        else let q = \<lparr>pq_request = r, pq_provider = sc_provider capability, pq_adapter = sc_adapter capability,
                 pq_model = sc_model capability, pq_question_set = pr_question_set profile, pq_policy = pr_policy profile,
                 pq_probability_semantics = sc_probability_semantics capability, pq_data_handling = sc_data_handling capability,
                 pq_input = input, pq_threshold = threshold, pq_mode = pr_mode profile, pq_fallback = pr_fallback profile,
                 pq_deadline = deadline, pq_digest = replicate 32 0\<rparr>;
               q = q\<lparr>pq_digest := digest_provider_request env q\<rparr>
             in Some (and_then (validate_request_integrity env q) (\<lambda>_. Inr q))))"

section \<open>Answers\<close>

datatype DecisionSignalAnswerValue =
    AV_FiniteChoice FactoryKey u32 u32
  | AV_BoundedScore int u32

type_synonym DecisionSignalAnswer = "ImmutableReference \<times> DecisionSignalAnswerValue"

record DecisionSignalProviderResult =
  sr_request_id :: uuid
  sr_provider :: ImmutableReference
  sr_adapter :: ImmutableReference
  sr_model :: ImmutableReference
  sr_probability_semantics :: ImmutableReference
  sr_answers :: "DecisionSignalAnswer list"
  sr_usage :: BudgetUsage
  sr_result_digest :: FactoryDigest

definition encode_answer :: "DecisionSignalAnswer \<Rightarrow> u8 list" where
  "encode_answer a = signal_reference_bytes (fst a) @
     (case snd a of
        AV_FiniteChoice selected probability runner_up \<Rightarrow>
          as_bytes (0 # lit ''choice'' @ 0 # nul_text [selected, dec_text (unat probability), dec_text (unat runner_up)])
      | AV_BoundedScore score confidence \<Rightarrow>
          as_bytes (0 # lit ''score'' @ 0 # nul_text [signal_int_text score, dec_text (unat confidence)]))"

definition digest_provider_result ::
  "('x, 'm) signal_json_scheme \<Rightarrow> uuid \<Rightarrow> ImmutableReference \<Rightarrow> ImmutableReference \<Rightarrow> ImmutableReference \<Rightarrow>
     ImmutableReference \<Rightarrow> DecisionSignalAnswer list \<Rightarrow> BudgetUsage \<Rightarrow> FactoryDigest"
where
  "digest_provider_result env i provider adapter model semantics answers usage =
     factory_digest_sha256 (json_sha256 env) (lit ''octacity.decision-signal.result.v1'')
       ([be_bytes 16 i, signal_reference_bytes provider, signal_reference_bytes adapter, signal_reference_bytes model,
         signal_reference_bytes semantics, as_bytes (usage_text usage)] @ map encode_answer answers)"

definition provider_result_new ::
  "('x, 'm) signal_json_scheme \<Rightarrow> uuid \<Rightarrow> ImmutableReference \<Rightarrow> ImmutableReference \<Rightarrow> ImmutableReference \<Rightarrow>
     ImmutableReference \<Rightarrow> DecisionSignalAnswer list \<Rightarrow> BudgetUsage \<Rightarrow> FactoryError + DecisionSignalProviderResult"
where
  "provider_result_new env i provider adapter model semantics answers usage =
     (if answers = [] \<or> MAX_DECISION_SIGNAL_QUESTIONS < length answers then Inl (invalid_signal ''provider answers'')
      else if length (remdups_adj (sort (map (\<lambda>a. fst (fst a)) answers))) \<noteq> length answers
      then Inl (invalid_signal ''provider answers'')
      else Inr \<lparr>sr_request_id = i, sr_provider = provider, sr_adapter = adapter, sr_model = model,
        sr_probability_semantics = semantics, sr_answers = answers, sr_usage = usage,
        sr_result_digest = digest_provider_result env i provider adapter model semantics answers usage\<rparr>)"

definition has_measured_usage_for :: "DecisionSignalProviderResult \<Rightarrow> DecisionSignalProviderRequest \<Rightarrow> bool" where
  "has_measured_usage_for r q \<longleftrightarrow>
     sr_request_id r = rq_id (pq_request q) \<and> sr_provider r = pq_provider q \<and> sr_adapter r = pq_adapter q \<and>
     sr_model r = pq_model q \<and> sr_probability_semantics r = pq_probability_semantics q \<and>
     is_ok (usage_validate (sr_usage r) (rq_budget (pq_request q)))"

definition answer_matches :: "DecisionSignalAnswer \<Rightarrow> DecisionSignalQuestion \<Rightarrow> bool" where
  "answer_matches a q \<longleftrightarrow>
     fst a = sq_reference q \<and>
     (case (snd a, sq_domain q) of
        (AV_FiniteChoice selected probability runner_up, QD_FiniteChoice choices) \<Rightarrow>
          selected \<in> set choices \<and> runner_up \<le> probability
      | (AV_BoundedScore score _, QD_BoundedScore scores) \<Rightarrow> score_domain_contains scores score
      | _ \<Rightarrow> False)"

definition answers_match_questions :: "DecisionSignalAnswer list \<Rightarrow> DecisionSignalQuestion list \<Rightarrow> bool" where
  "answers_match_questions answers questions \<longleftrightarrow>
     length answers = length questions \<and> list_all (\<lambda>(a, q). answer_matches a q) (zip answers questions)"

definition result_is_valid_for :: "DecisionSignalProviderResult \<Rightarrow> DecisionSignalProviderRequest \<Rightarrow> bool" where
  "result_is_valid_for r q \<longleftrightarrow>
     has_measured_usage_for r q \<and> answers_match_questions (sr_answers r) (sn_questions (pq_input q))"

fun find_choice :: "FactoryKey \<Rightarrow> DecisionSignalAnswer list \<Rightarrow> (FactoryKey \<times> u32 \<times> u32) option" where
  "find_choice consuming [] = None"
| "find_choice consuming (a # as) =
     (if fst (fst a) \<noteq> consuming then find_choice consuming as
      else case snd a of
        AV_FiniteChoice selected probability runner_up \<Rightarrow> Some (selected, probability, runner_up)
      | AV_BoundedScore _ _ \<Rightarrow> find_choice consuming as)"

definition consuming_choice ::
  "DecisionSignalProviderResult \<Rightarrow> DecisionSignalProviderRequest \<Rightarrow> (FactoryKey \<times> u32 \<times> u32) option"
where
  "consuming_choice r q = find_choice (sn_consuming_question (pq_input q)) (sr_answers r)"

record DecisionSignalProviderFailure =
  sf_request_id :: uuid
  sf_provider :: ImmutableReference
  sf_adapter :: ImmutableReference
  sf_model :: ImmutableReference
  sf_state :: DecisionSignalState
  sf_usage :: "BudgetUsage option"

definition provider_failure_new ::
  "uuid \<Rightarrow> ImmutableReference \<Rightarrow> ImmutableReference \<Rightarrow> ImmutableReference \<Rightarrow> DecisionSignalState \<Rightarrow> BudgetUsage \<Rightarrow>
     FactoryError + DecisionSignalProviderFailure"
where
  "provider_failure_new i provider adapter model state usage =
     (if state = SS_Completed then Inl (invalid_signal ''provider failure state'')
      else Inr \<lparr>sf_request_id = i, sf_provider = provider, sf_adapter = adapter, sf_model = model,
        sf_state = state, sf_usage = Some usage\<rparr>)"

definition provider_failure_unobserved ::
  "uuid \<Rightarrow> ImmutableReference \<Rightarrow> ImmutableReference \<Rightarrow> ImmutableReference \<Rightarrow> DecisionSignalState \<Rightarrow>
     FactoryError + DecisionSignalProviderFailure"
where
  "provider_failure_unobserved i provider adapter model state =
     map_ok (\<lambda>f. f\<lparr>sf_usage := None\<rparr>) (provider_failure_new i provider adapter model state usage_default)"

definition failure_is_valid_for :: "DecisionSignalProviderFailure \<Rightarrow> DecisionSignalProviderRequest \<Rightarrow> bool" where
  "failure_is_valid_for f q \<longleftrightarrow>
     sf_request_id f = rq_id (pq_request q) \<and> sf_provider f = pq_provider q \<and> sf_adapter f = pq_adapter q \<and>
     sf_model f = pq_model q \<and>
     is_some_and (\<lambda>usage. is_ok (usage_validate usage (rq_budget (pq_request q)))) (sf_usage f)"

datatype DecisionSignalProviderObservation =
    SO_Result DecisionSignalProviderResult
  | SO_Failure DecisionSignalProviderFailure

definition observation_is_valid_for ::
  "DecisionSignalProviderObservation \<Rightarrow> DecisionSignalProviderRequest \<Rightarrow> bool"
where
  "observation_is_valid_for observation q \<longleftrightarrow>
     (case observation of SO_Result r \<Rightarrow> result_is_valid_for r q | SO_Failure f \<Rightarrow> failure_is_valid_for f q)"

end
