(* ===== verification/Decision_Signal_Consume.thy ===== *)
theory Decision_Signal_Consume
  imports Decision_Signal
begin

text \<open>
  Consumption of Decision Signals, \<^verbatim>\<open>server/core/octacity-server-factory/src/decision_signal/consumption.rs\<close>: the
  deterministic disposition that follows a provider observation and the receipt that records it. The
  lemmas show which dispositions a provider can bring about, that receipts pass their own restoration
  check, and which changes of a stored receipt that check does not see.
\<close>

section \<open>Dispositions and receipts\<close>

datatype DecisionSignalDisposition = SD_Route FactoryKey | SD_Profile FactoryKey | SD_Allow | SD_Deny | SD_Escalate

datatype DecisionSignalConsumptionKind = SC_Shadow | SC_Advisory | SC_BoundedControl | SC_Fallback

record DecisionSignalConsumption =
  co_baseline :: DecisionSignalDisposition
  co_recommendation :: "DecisionSignalDisposition option"
  co_final :: DecisionSignalDisposition
  co_kind :: DecisionSignalConsumptionKind

record ToolRiskChoiceMapping =
  tr_choices :: DecisionSignalChoices
  tr_dispositions :: "(FactoryKey, DecisionSignalDisposition) btree"

definition is_tool_disposition :: "DecisionSignalDisposition \<Rightarrow> bool" where
  "is_tool_disposition d \<longleftrightarrow> d \<in> {SD_Allow, SD_Deny, SD_Escalate}"

fun tool_risk_entries ::
  "(FactoryKey \<times> DecisionSignalDisposition) list \<Rightarrow> (FactoryKey, DecisionSignalDisposition) btree \<Rightarrow>
     FactoryError + (FactoryKey, DecisionSignalDisposition) btree"
where
  "tool_risk_entries [] mapping = Inr mapping"
| "tool_risk_entries ((choice, disposition) # entries) mapping =
     (if \<not> is_tool_disposition disposition \<or> bt_get mapping choice \<noteq> None
      then Inl (invalid_signal ''tool-risk choice mapping'')
      else tool_risk_entries entries (bt_insert choice disposition mapping))"

definition tool_risk_mapping_try_new ::
  "DecisionSignalChoices \<Rightarrow> (FactoryKey \<times> DecisionSignalDisposition) list \<Rightarrow> FactoryError + ToolRiskChoiceMapping"
where
  "tool_risk_mapping_try_new choices entries =
     and_then (tool_risk_entries entries []) (\<lambda>mapping.
     if length mapping \<noteq> length choices \<or> list_ex (\<lambda>choice. bt_get mapping choice = None) choices
     then Inl (invalid_signal ''tool-risk choice mapping'')
     else Inr \<lparr>tr_choices = choices, tr_dispositions = mapping\<rparr>)"

record DecisionSignalReceipt =
  dr_id :: uuid
  dr_request :: DecisionSignalProviderRequest
  dr_state :: DecisionSignalState
  dr_usage :: BudgetUsage
  dr_result :: "DecisionSignalProviderResult option"
  dr_consumption :: DecisionSignalConsumption
  dr_digest :: FactoryDigest

definition encode_disposition :: "DecisionSignalDisposition \<Rightarrow> u8 list" where
  "encode_disposition d =
     (case d of
        SD_Route route \<Rightarrow> as_bytes (nul_text [lit ''route'', route])
      | SD_Profile candidate \<Rightarrow> as_bytes (nul_text [lit ''profile'', candidate])
      | SD_Allow \<Rightarrow> as_bytes (lit ''allow'')
      | SD_Deny \<Rightarrow> as_bytes (lit ''deny'')
      | SD_Escalate \<Rightarrow> as_bytes (lit ''escalate''))"

definition encode_consumption :: "DecisionSignalConsumption \<Rightarrow> u8 list" where
  "encode_consumption c =
     encode_disposition (co_baseline c) @ 0 #
     (case co_recommendation c of None \<Rightarrow> [] | Some d \<Rightarrow> encode_disposition d) @ 0 #
     encode_disposition (co_final c) @ 0 #
     as_bytes (lit (case co_kind c of SC_Shadow \<Rightarrow> ''shadow'' | SC_Advisory \<Rightarrow> ''advisory''
       | SC_BoundedControl \<Rightarrow> ''bounded_control'' | SC_Fallback \<Rightarrow> ''fallback''))"

definition digest_receipt ::
  "('x, 'm) signal_json_scheme \<Rightarrow> uuid \<Rightarrow> DecisionSignalProviderRequest \<Rightarrow> DecisionSignalState \<Rightarrow> BudgetUsage \<Rightarrow>
     DecisionSignalProviderResult option \<Rightarrow> DecisionSignalConsumption \<Rightarrow> FactoryDigest"
where
  "digest_receipt env i q state usage result consumption =
     factory_digest_sha256 (json_sha256 env) (lit ''octacity.decision-signal.receipt.v1'')
       [be_bytes 16 i, pq_digest q, as_bytes (signal_state_as_str state), as_bytes (usage_text usage),
        (case result of None \<Rightarrow> replicate 32 0 | Some r \<Rightarrow> sr_result_digest r), encode_consumption consumption]"

definition validate_receipt_integrity ::
  "('x, 'm) signal_json_scheme \<Rightarrow> DecisionSignalReceipt \<Rightarrow> FactoryError + unit"
where
  "validate_receipt_integrity env r =
     and_then (validate_request_integrity env (dr_request r)) (\<lambda>_.
     ensure ((case dr_result r of
           Some result \<Rightarrow> dr_state r = SS_Completed \<and> dr_usage r = sr_usage result \<and>
             result_is_valid_for result (dr_request r)
         | None \<Rightarrow> dr_state r \<noteq> SS_Completed) \<and>
         dr_digest r = digest_receipt env (dr_id r) (dr_request r) (dr_state r) (dr_usage r) (dr_result r)
           (dr_consumption r))
       (invalid_signal ''receipt integrity''))"

definition receipt_replay ::
  "('x, 'm) signal_json_scheme \<Rightarrow> DecisionSignalReceipt \<Rightarrow> DecisionSignalProviderRequest \<Rightarrow> FactoryError + DecisionSignalConsumption"
where
  "receipt_replay env r q =
     and_then (validate_receipt_integrity env r) (\<lambda>_.
     if dr_request r \<noteq> q then Inl (FE_InvalidReference (lit ''Decision Signal receipt replay''))
     else Inr (dr_consumption r))"

section \<open>Consumption\<close>

record NormalizedObservation =
  no_state :: DecisionSignalState
  no_usage :: BudgetUsage
  no_result :: "DecisionSignalProviderResult option"

definition ensure_observed_failure :: "DecisionSignalProviderObservation \<Rightarrow> FactoryError + unit" where
  "ensure_observed_failure observation =
     (case observation of
        SO_Failure f \<Rightarrow> ensure (sf_usage f \<noteq> None) (invalid_signal ''unobserved provider outcome'')
      | SO_Result _ \<Rightarrow> Inr ())"

text \<open>The \<^verbatim>\<open>expect\<close> on the usage of a valid failure panics when it was not observed.\<close>

definition normalize_observation ::
  "DecisionSignalProviderRequest \<Rightarrow> DecisionSignalProviderObservation \<Rightarrow> NormalizedObservation option"
where
  "normalize_observation q observation =
     (let unusable = \<lparr>no_state = SS_Invalid, no_usage = usage_default, no_result = None\<rparr> in
      case observation of
        SO_Result r \<Rightarrow>
          Some (if result_is_valid_for r q then \<lparr>no_state = SS_Completed, no_usage = sr_usage r, no_result = Some r\<rparr>
            else if rq_purpose (pq_request q) = SP_ProfileSelection \<and> has_measured_usage_for r q
            then \<lparr>no_state = SS_Invalid, no_usage = sr_usage r, no_result = None\<rparr>
            else unusable)
      | SO_Failure f \<Rightarrow>
          if failure_is_valid_for f q
          then map_option (\<lambda>usage. \<lparr>no_state = sf_state f, no_usage = usage, no_result = None\<rparr>) (sf_usage f)
          else Some unusable)"

definition build_receipt ::
  "('x, 'm) signal_json_scheme \<Rightarrow> uuid \<Rightarrow> DecisionSignalProviderRequest \<Rightarrow> NormalizedObservation \<Rightarrow>
     DecisionSignalDisposition \<Rightarrow> DecisionSignalDisposition option \<Rightarrow> DecisionSignalReceipt"
where
  "build_receipt env i q observation baseline recommendation =
     (let fallback = (case pq_fallback q of SF_Deny \<Rightarrow> SD_Deny | SF_Escalate \<Rightarrow> SD_Escalate);
          (final, kind) = (case pq_mode q of
             SM_Shadow \<Rightarrow> (baseline, SC_Shadow)
           | SM_Advisory \<Rightarrow> (baseline, SC_Advisory)
           | SM_BoundedControl \<Rightarrow> (case recommendation of Some d \<Rightarrow> (d, SC_BoundedControl) | None \<Rightarrow> (fallback, SC_Fallback)));
          consumption = \<lparr>co_baseline = baseline, co_recommendation = recommendation, co_final = final, co_kind = kind\<rparr>
      in \<lparr>dr_id = i, dr_request = q, dr_state = no_state observation, dr_usage = no_usage observation,
           dr_result = no_result observation, dr_consumption = consumption,
           dr_digest = digest_receipt env i q (no_state observation) (no_usage observation) (no_result observation) consumption\<rparr>)"

text \<open>The calibrated answer of a normalized observation.\<close>

definition accepted_choice :: "DecisionSignalProviderRequest \<Rightarrow> NormalizedObservation \<Rightarrow> FactoryKey option" where
  "accepted_choice q observation =
     Option.bind (Option.bind (no_result observation) (\<lambda>r. consuming_choice r q)) (\<lambda>(selected, probability, runner_up).
       if threshold_accepts (pq_threshold q) probability runner_up then Some selected else None)"

definition consume_finite_signal ::
  "('x, 'm) signal_json_scheme \<Rightarrow> uuid \<Rightarrow> DecisionSignalProviderRequest \<Rightarrow> DecisionSignalProviderObservation \<Rightarrow>
     FactoryKey \<Rightarrow> DecisionSignalPurpose \<Rightarrow> (FactoryKey \<Rightarrow> DecisionSignalDisposition) \<Rightarrow>
     (FactoryError + DecisionSignalReceipt) option"
where
  "consume_finite_signal env i q observation baseline purpose disposition =
     (let refused = Some (Inl (invalid_signal ''finite signal baseline'')) in
      if rq_purpose (pq_request q) \<noteq> purpose then refused
      else Option.bind (input_choices (pq_input q)) (\<lambda>choices.
        if baseline \<notin> set choices then refused
        else also_then (Some (ensure_observed_failure observation)) (\<lambda>_.
          Option.bind (normalize_observation q observation) (\<lambda>normalized.
          Some (Inr (build_receipt env i q normalized (disposition baseline)
            (map_option disposition (accepted_choice q normalized))))))))"

definition consume_routing_signal ::
  "('x, 'm) signal_json_scheme \<Rightarrow> uuid \<Rightarrow> DecisionSignalProviderRequest \<Rightarrow> DecisionSignalProviderObservation \<Rightarrow>
     FactoryKey \<Rightarrow> (FactoryError + DecisionSignalReceipt) option"
where
  "consume_routing_signal env i q observation baseline =
     consume_finite_signal env i q observation baseline SP_Routing SD_Route"

definition consume_profile_selection_signal ::
  "('x, 'm) signal_json_scheme \<Rightarrow> uuid \<Rightarrow> DecisionSignalProviderRequest \<Rightarrow> DecisionSignalProviderObservation \<Rightarrow>
     FactoryKey \<Rightarrow> (FactoryError + DecisionSignalReceipt) option"
where
  "consume_profile_selection_signal env i q observation baseline =
     (if \<not> observation_is_valid_for observation q \<and>
         \<not> (case observation of SO_Result r \<Rightarrow> has_measured_usage_for r q | SO_Failure _ \<Rightarrow> False)
      then Some (Inl (invalid_signal ''unobserved profile outcome''))
      else consume_finite_signal env i q observation baseline SP_ProfileSelection SD_Profile)"

definition consume_tool_risk_signal ::
  "('x, 'm) signal_json_scheme \<Rightarrow> uuid \<Rightarrow> DecisionSignalProviderRequest \<Rightarrow> DecisionSignalProviderObservation \<Rightarrow>
     ToolRiskChoiceMapping \<Rightarrow> (FactoryError + DecisionSignalReceipt) option"
where
  "consume_tool_risk_signal env i q observation mapping =
     (let refused = Some (Inl (invalid_signal ''tool-risk purpose'')) in
      if rq_purpose (pq_request q) \<noteq> SP_ToolRisk then refused
      else Option.bind (input_choices (pq_input q)) (\<lambda>choices.
        if tr_choices mapping \<noteq> choices then refused
        else also_then (Some (ensure_observed_failure observation)) (\<lambda>_.
          Option.bind (normalize_observation q observation) (\<lambda>normalized.
          Some (Inr (build_receipt env i q normalized SD_Allow
            (Option.bind (accepted_choice q normalized) (bt_get (tr_dispositions mapping)))))))))"

section \<open>What an input guarantees\<close>

lemma sorted_dedup_length: "length (remdups_adj (sort xs)) = length xs \<longleftrightarrow> distinct xs" for xs :: "'a::linorder list"
proof
  assume eq: "length (remdups_adj (sort xs)) = length xs"
  have "distinct (remdups_adj ys)" if "sorted ys" for ys :: "'a list"
    using that by (induction ys rule: remdups_adj.induct) (auto simp: less_le)
  then have "distinct (remdups_adj (sort xs))" by simp
  then have "card (set xs) = length xs" using eq distinct_card [of "remdups_adj (sort xs)"] by simp
  then show "distinct xs" by (rule card_distinct)
next
  assume "distinct xs"
  then show "length (remdups_adj (sort xs)) = length xs" by (simp add: remdups_adj_distinct)
qed

definition signal_input_ok :: "DecisionSignalProviderInput \<Rightarrow> bool" where
  "signal_input_ok input \<longleftrightarrow> distinct (map question_identity (sn_questions input)) \<and>
     list_ex (\<lambda>q. question_identity q = sn_consuming_question input \<and> is_finite_question q) (sn_questions input)"

lemma provider_input_new_ok:
  assumes "provider_input_new env media document questions consuming routing = Some (Inr input)"
  shows "signal_input_ok input"
  using assms unfolding provider_input_new_def signal_input_ok_def sorted_dedup_length [symmetric]
  by (auto simp: also_then_Inr_iff split: if_splits)

lemma provider_input_fields:
  assumes "provider_input_new env media document questions consuming routing = Some (Inr input)"
  shows "sn_media input = media" "canonicalize_state_document env media document = Inr (sn_state_document input)"
    "sn_questions input = questions" "sn_consuming_question input = consuming" "sn_routing_state input = routing"
  using assms by (auto simp: provider_input_new_def also_then_Inr_iff split: if_splits)

lemma find_distinct_key:
  "distinct (map f xs) \<Longrightarrow> x \<in> set xs \<Longrightarrow> find (\<lambda>y. f y = f x) xs = Some x"
  by (induction xs) (auto simp: rev_image_eqI)

lemma input_choices_total:
  assumes "signal_input_ok input"
  obtains question choices where "question \<in> set (sn_questions input)"
    and "question_identity question = sn_consuming_question input"
    and "sq_domain question = QD_FiniteChoice choices" and "input_choices input = Some choices"
proof -
  from assms obtain question where q: "question \<in> set (sn_questions input)"
      "question_identity question = sn_consuming_question input" "is_finite_question question"
    by (auto simp: signal_input_ok_def list_ex_iff)
  from q(3) obtain choices where c: "sq_domain question = QD_FiniteChoice choices"
    by (auto simp: is_finite_question_def split: DecisionSignalQuestionDomain.splits)
  have "find (\<lambda>q. question_identity q = sn_consuming_question input) (sn_questions input) = Some question"
    using find_distinct_key [of question_identity "sn_questions input" question] assms q
    by (simp add: signal_input_ok_def)
  with c have "input_choices input = Some choices" by (simp add: input_choices_def)
  with q c show thesis by (auto intro: that)
qed

section \<open>What a provider can bring about\<close>

text \<open>The provider answered the consuming question with \<open>k\<close> in a valid result, with the calibrated
  probability and lead over the next answer.\<close>

definition calibrated :: "DecisionSignalProviderRequest \<Rightarrow> DecisionSignalProviderObservation \<Rightarrow> FactoryKey \<Rightarrow> bool" where
  "calibrated q observation k \<longleftrightarrow> (\<exists>r reference p u. observation = SO_Result r \<and> result_is_valid_for r q \<and>
     fst reference = sn_consuming_question (pq_input q) \<and> (reference, AV_FiniteChoice k p u) \<in> set (sr_answers r) \<and>
     th_minimum_probability (pq_threshold q) \<le> p \<and> unat (th_minimum_margin (pq_threshold q)) + unat u \<le> unat p)"

definition fallback_disposition :: "DecisionSignalFallback \<Rightarrow> DecisionSignalDisposition" where
  "fallback_disposition f = (case f of SF_Deny \<Rightarrow> SD_Deny | SF_Escalate \<Rightarrow> SD_Escalate)"

definition controlled ::
  "DecisionSignalProviderRequest \<Rightarrow> DecisionSignalProviderObservation \<Rightarrow> DecisionSignalChoices \<Rightarrow>
     DecisionSignalDisposition \<Rightarrow> (FactoryKey \<Rightarrow> DecisionSignalDisposition) \<Rightarrow> DecisionSignalDisposition \<Rightarrow> bool"
where
  "controlled q observation choices baseline act final \<longleftrightarrow>
     (if pq_mode q = SM_BoundedControl
      then (\<forall>k. calibrated q observation k \<longrightarrow> k \<in> set choices \<and> final = act k) \<and>
           ((\<forall>k. \<not> calibrated q observation k) \<longrightarrow> final = fallback_disposition (pq_fallback q))
      else final = baseline)"

lemma matched_answer:
  assumes "answers_match_questions answers questions" and "a \<in> set answers"
  obtains q where "q \<in> set questions" and "answer_matches a q"
proof -
  from assms(2) obtain n where n: "n < length answers" "a = answers ! n" by (auto simp: in_set_conv_nth)
  with assms(1) have "n < length questions" "answer_matches a (questions ! n)"
    by (auto simp: answers_match_questions_def list_all_length)
  then show thesis by (intro that [of "questions ! n"]) simp_all
qed

lemma matched_identities:
  "answers_match_questions answers questions \<Longrightarrow> map (\<lambda>a. fst (fst a)) answers = map question_identity questions"
  unfolding answers_match_questions_def
  by (rule nth_equalityI) (auto simp: list_all_length answer_matches_def question_identity_def)

lemma find_choice_iff:
  "distinct (map (\<lambda>a. fst (fst a)) answers) \<Longrightarrow>
     find_choice consuming answers = Some (k, p, u) \<longleftrightarrow>
       (\<exists>reference. fst reference = consuming \<and> (reference, AV_FiniteChoice k p u) \<in> set answers)"
proof (induction answers)
  case (Cons a as)
  show ?case
  proof (cases "fst (fst a) = consuming")
    case True
    with Cons.prems have "consuming \<notin> set (map (\<lambda>b. fst (fst b)) as)" by (simp only: list.map distinct.simps) simp
    then have "\<forall>b\<in>set as. fst (fst b) \<noteq> consuming" unfolding set_map by blast
    moreover from this have "find_choice consuming as = None" by (induction as) auto
    moreover have "(reference, v) \<notin> set as" if "fst reference = consuming" for reference v
      using calculation(1) that by force
    ultimately show ?thesis using True by (cases a) (auto split: DecisionSignalAnswerValue.splits)
  next
    case False
    with Cons show ?thesis by auto
  qed
qed simp

lemma consuming_choice_iff:
  assumes "signal_input_ok (pq_input q)" and "result_is_valid_for r q"
  shows "consuming_choice r q = Some (k, p, u) \<longleftrightarrow>
    (\<exists>reference. fst reference = sn_consuming_question (pq_input q) \<and> (reference, AV_FiniteChoice k p u) \<in> set (sr_answers r))"
proof -
  have "map (\<lambda>a. fst (fst a)) (sr_answers r) = map question_identity (sn_questions (pq_input q))"
    using assms(2) by (intro matched_identities) (simp add: result_is_valid_for_def)
  then have "distinct (map (\<lambda>a. fst (fst a)) (sr_answers r))" using assms(1) by (simp add: signal_input_ok_def)
  then show ?thesis unfolding consuming_choice_def by (rule find_choice_iff)
qed

lemma consumed_answer_declared:
  assumes ok: "signal_input_ok (pq_input q)" and valid: "result_is_valid_for r q"
    and ref: "fst reference = sn_consuming_question (pq_input q)"
    and ans: "(reference, AV_FiniteChoice k p u) \<in> set (sr_answers r)"
    and choices: "input_choices (pq_input q) = Some choices"
  shows "k \<in> set choices \<and> u \<le> p"
proof -
  from valid have match: "answers_match_questions (sr_answers r) (sn_questions (pq_input q))"
    by (simp add: result_is_valid_for_def)
  from matched_answer [OF match ans] obtain question where question: "question \<in> set (sn_questions (pq_input q))"
    and m: "answer_matches (reference, AV_FiniteChoice k p u) question" by blast
  from m ref have "question_identity question = sn_consuming_question (pq_input q)"
    by (simp add: answer_matches_def question_identity_def)
  then have "find (\<lambda>x. question_identity x = sn_consuming_question (pq_input q)) (sn_questions (pq_input q)) = Some question"
    using find_distinct_key [of question_identity _ question] ok question by (simp add: signal_input_ok_def)
  with choices m show ?thesis
    by (auto simp: input_choices_def answer_matches_def split: DecisionSignalQuestionDomain.splits)
qed

lemma threshold_accepts_iff:
  "u \<le> p \<Longrightarrow> threshold_accepts t p u \<longleftrightarrow>
     th_minimum_probability t \<le> p \<and> unat (th_minimum_margin t) + unat u \<le> unat p"
  unfolding threshold_accepts_def by (auto simp: word_le_nat_alt unat_sub)

lemma normalized_result:
  "normalize_observation q observation = Some n \<Longrightarrow>
     no_result n = Some r \<longleftrightarrow> observation = SO_Result r \<and> result_is_valid_for r q"
  by (auto simp: normalize_observation_def Let_def
      split: DecisionSignalProviderObservation.splits if_splits)

lemma accepted_choice_iff:
  assumes ok: "signal_input_ok (pq_input q)" and n: "normalize_observation q observation = Some n"
  shows "accepted_choice q n = Some k \<longleftrightarrow> calibrated q observation k"
proof -
  obtain choices where choices: "input_choices (pq_input q) = Some choices"
    using input_choices_total [OF ok] by blast
  have step: "(case c of (s, p, u) \<Rightarrow> if threshold_accepts (pq_threshold q) p u then Some s else None) = Some k \<longleftrightarrow>
      (\<exists>p u. c = (k, p, u) \<and> threshold_accepts (pq_threshold q) p u)" for c :: "FactoryKey \<times> u32 \<times> u32"
    by (cases c) auto
  have accepts: "threshold_accepts (pq_threshold q) p u \<longleftrightarrow>
      th_minimum_probability (pq_threshold q) \<le> p \<and> unat (th_minimum_margin (pq_threshold q)) + unat u \<le> unat p"
    if "result_is_valid_for r q" "fst reference = sn_consuming_question (pq_input q)"
      "(reference, AV_FiniteChoice k p u) \<in> set (sr_answers r)" for r reference p u
    using consumed_answer_declared [OF ok that choices] threshold_accepts_iff by blast
  have "accepted_choice q n = Some k \<longleftrightarrow>
      (\<exists>r p u. observation = SO_Result r \<and> result_is_valid_for r q \<and> consuming_choice r q = Some (k, p, u) \<and>
        threshold_accepts (pq_threshold q) p u)"
    unfolding accepted_choice_def bind_eq_Some_conv normalized_result [OF n] step by blast
  then show ?thesis
    unfolding calibrated_def using accepts consuming_choice_iff [OF ok] by metis
qed

lemma calibrated_declared:
  "signal_input_ok (pq_input q) \<Longrightarrow> input_choices (pq_input q) = Some choices \<Longrightarrow> calibrated q observation k \<Longrightarrow> k \<in> set choices"
  using consumed_answer_declared by (fastforce simp: calibrated_def)

lemma built_receipt:
  "dr_id (build_receipt env i q n b rec) = i"
  "dr_request (build_receipt env i q n b rec) = q"
  "dr_state (build_receipt env i q n b rec) = no_state n"
  "dr_usage (build_receipt env i q n b rec) = no_usage n"
  "dr_result (build_receipt env i q n b rec) = no_result n"
  "co_final (dr_consumption (build_receipt env i q n b rec)) =
     (if pq_mode q = SM_BoundedControl
      then (case rec of Some d \<Rightarrow> d | None \<Rightarrow> fallback_disposition (pq_fallback q)) else b)"
  "dr_digest (build_receipt env i q n b rec) =
     digest_receipt env i q (no_state n) (no_usage n) (no_result n) (dr_consumption (build_receipt env i q n b rec))"
  by (simp_all add: build_receipt_def Let_def fallback_disposition_def split: DecisionSignalMode.splits option.splits
      DecisionSignalFallback.splits)

lemma built_controlled:
  assumes "signal_input_ok (pq_input q)" and "input_choices (pq_input q) = Some choices"
    and n: "normalize_observation q observation = Some n" and "\<And>k. k \<in> set choices \<Longrightarrow> rec k = Some (act k)"
  shows "controlled q observation choices b act (co_final (dr_consumption
    (build_receipt env i q n b
      (Option.bind (accepted_choice q n) rec))))"
proof (cases "accepted_choice q n")
  case None
  then have "\<forall>k. \<not> calibrated q observation k" using accepted_choice_iff [OF assms(1) n] by (metis option.distinct(1))
  with None show ?thesis by (simp add: controlled_def built_receipt)
next
  case (Some k)
  then have "calibrated q observation k'  \<longleftrightarrow> k' = k" for k' using accepted_choice_iff [OF assms(1) n] by (metis option.inject)
  moreover from this have "k \<in> set choices" using calibrated_declared [OF assms(1,2)] by blast
  ultimately show ?thesis using Some assms(4) by (simp add: controlled_def built_receipt)
qed

lemma tool_risk_entries_sound:
  "tool_risk_entries entries mapping = Inr m \<Longrightarrow> \<forall>k d. bt_get mapping k = Some d \<longrightarrow> is_tool_disposition d \<Longrightarrow>
     bt_get m k = Some d \<Longrightarrow> is_tool_disposition d"
  by (induction entries mapping rule: tool_risk_entries.induct) (auto simp: bt_get_insert split: if_splits)

lemma tool_risk_mapping_sound:
  assumes "tool_risk_mapping_try_new listed entries = Inr mapping"
  shows "tr_choices mapping = listed"
    and "k \<in> set listed \<Longrightarrow> \<exists>d. bt_get (tr_dispositions mapping) k = Some d"
    and "bt_get (tr_dispositions mapping) k = Some d \<Longrightarrow> is_tool_disposition d"
proof -
  from assms obtain m where m: "tool_risk_entries entries [] = Inr m"
      and listed: "\<forall>k\<in>set listed. bt_get m k \<noteq> None"
      and eq: "mapping = \<lparr>tr_choices = listed, tr_dispositions = m\<rparr>"
    by (auto simp: tool_risk_mapping_try_new_def res_simps list_ex_iff split: if_splits)
  from eq show "tr_choices mapping = listed" by simp
  from eq listed show "k \<in> set listed \<Longrightarrow> \<exists>d. bt_get (tr_dispositions mapping) k = Some d" by auto
  from eq tool_risk_entries_sound [OF m] show "bt_get (tr_dispositions mapping) k = Some d \<Longrightarrow> is_tool_disposition d"
    by (simp add: bt_get_def)
qed

lemma finite_signal_controlled:
  assumes "signal_input_ok (pq_input q)" and "input_choices (pq_input q) = Some choices"
    and "consume_finite_signal env i q observation b purpose act = Some (Inr r)"
  shows "b \<in> set choices \<and> controlled q observation choices (act b) act (co_final (dr_consumption r))"
proof -
  from assms(2,3) obtain n where n: "normalize_observation q observation = Some n" and b: "b \<in> set choices"
    and r: "r = build_receipt env i q n (act b) (map_option act (accepted_choice q n))"
    by (auto simp: consume_finite_signal_def Let_def also_then_Inr_iff bind_eq_Some_conv split: if_splits)
  with built_controlled [OF assms(1,2) n, of "\<lambda>k. Some (act k)" act "act b" env i] show ?thesis
    by (simp add: map_conv_bind_option comp_def)
qed

lemma tool_signal_controlled:
  assumes "signal_input_ok (pq_input q)" and "input_choices (pq_input q) = Some choices"
    and mapping: "tool_risk_mapping_try_new listed entries = Inr mapping"
    and r: "consume_tool_risk_signal env i q observation mapping = Some (Inr r)"
  shows "listed = choices"
    and "controlled q observation choices SD_Allow (\<lambda>k. the (bt_get (tr_dispositions mapping) k)) (co_final (dr_consumption r))"
    and "is_tool_disposition (co_final (dr_consumption r))"
proof -
  from r assms(2) obtain n where n: "normalize_observation q observation = Some n" and eq: "tr_choices mapping = choices"
    and receipt: "r = build_receipt env i q n SD_Allow (Option.bind (accepted_choice q n) (bt_get (tr_dispositions mapping)))"
    by (auto simp: consume_tool_risk_signal_def Let_def also_then_Inr_iff bind_eq_Some_conv split: if_splits)
  let ?rec = "Option.bind (accepted_choice q n) (bt_get (tr_dispositions mapping))"
  from eq tool_risk_mapping_sound(1) [OF mapping] show listed: "listed = choices" by simp
  show "controlled q observation choices SD_Allow (\<lambda>k. the (bt_get (tr_dispositions mapping) k)) (co_final (dr_consumption r))"
    unfolding receipt using tool_risk_mapping_sound(2) [OF mapping] listed
    by (intro built_controlled [OF assms(1,2) n]) fastforce
  have "is_tool_disposition d" if "?rec = Some d" for d
    using that tool_risk_mapping_sound(3) [OF mapping] by (auto simp: bind_eq_Some_conv)
  then show "is_tool_disposition (co_final (dr_consumption r))"
    by (auto simp: receipt built_receipt is_tool_disposition_def fallback_disposition_def
        split: option.splits DecisionSignalFallback.splits)
qed

text \<open>The \<^verbatim>\<open>expect\<close> of the normalization is unreachable.\<close>

lemma normalize_total:
  "\<exists>n. normalize_observation q observation = Some n"
  by (auto simp: normalize_observation_def Let_def failure_is_valid_for_def is_some_and_def
      split: DecisionSignalProviderObservation.splits option.splits)

text \<open>A failure whose usage nobody measured.\<close>

definition unobserved :: "DecisionSignalProviderObservation \<Rightarrow> bool" where
  "unobserved observation \<longleftrightarrow> (\<exists>f. observation = SO_Failure f \<and> sf_usage f = None)"

lemma observed_iff: "ensure_observed_failure observation = Inr u \<longleftrightarrow> \<not> unobserved observation"
  by (auto simp: ensure_observed_failure_def unobserved_def res_simps split: DecisionSignalProviderObservation.splits)

lemma consumed_observed:
  "consume_finite_signal env i q observation b purpose act = Some (Inr r) \<Longrightarrow> \<not> unobserved observation"
  "consume_tool_risk_signal env i q observation mapping = Some (Inr r) \<Longrightarrow> \<not> unobserved observation"
  by (auto simp: consume_finite_signal_def consume_tool_risk_signal_def Let_def also_then_Inr_iff bind_eq_Some_conv observed_iff
      split: if_splits)

lemma finite_signal_total:
  "input_choices (pq_input q) = Some choices \<Longrightarrow> consume_finite_signal env i q observation b purpose act \<noteq> None"
  using normalize_total [of q observation]
  by (cases "ensure_observed_failure observation") (auto simp: consume_finite_signal_def Let_def)

lemma tool_signal_total:
  "input_choices (pq_input q) = Some choices \<Longrightarrow> consume_tool_risk_signal env i q observation mapping \<noteq> None"
  using normalize_total [of q observation]
  by (cases "ensure_observed_failure observation") (auto simp: consume_tool_risk_signal_def Let_def)

text \<open>(C14) What a provider can bring about through a Decision Signal. For a request over a constructed
  input, consuming an observation never panics, whatever the purpose, and a failure whose usage was not
  observed never yields a receipt; a routing or profile signal needs a declared
  baseline and a tool-risk signal the mapping of exactly the declared choices. In shadow and advisory
  mode the final disposition is the baseline. In bounded control it is the disposition of the one
  answer to the consuming question that a valid result gives with the calibrated probability and
  lead, always a declared choice, and without such an answer the configured fail-closed
  fallback. A tool-risk signal ends in allow, deny or escalate and never in a route or a profile.\<close>

theorem signal_control_bounded:
  assumes "provider_input_new env media document questions consuming routing = Some (Inr (pq_input q))"
  shows "\<exists>choices. input_choices (pq_input q) = Some choices \<and>
    (\<forall>b. consume_routing_signal env i q observation b \<noteq> None \<and>
       consume_profile_selection_signal env i q observation b \<noteq> None) \<and>
    (\<forall>mapping. consume_tool_risk_signal env i q observation mapping \<noteq> None) \<and>
    (\<forall>b r. consume_routing_signal env i q observation b = Some (Inr r) \<longrightarrow>
       \<not> unobserved observation \<and> b \<in> set choices \<and> controlled q observation choices (SD_Route b) SD_Route (co_final (dr_consumption r))) \<and>
    (\<forall>b r. consume_profile_selection_signal env i q observation b = Some (Inr r) \<longrightarrow>
       \<not> unobserved observation \<and> b \<in> set choices \<and> controlled q observation choices (SD_Profile b) SD_Profile (co_final (dr_consumption r))) \<and>
    (\<forall>listed entries mapping r. tool_risk_mapping_try_new listed entries = Inr mapping \<longrightarrow>
       consume_tool_risk_signal env i q observation mapping = Some (Inr r) \<longrightarrow>
       \<not> unobserved observation \<and> listed = choices \<and> is_tool_disposition (co_final (dr_consumption r)) \<and>
       controlled q observation choices SD_Allow (\<lambda>k. the (bt_get (tr_dispositions mapping) k)) (co_final (dr_consumption r)))"
proof -
  have ok: "signal_input_ok (pq_input q)" using assms by (rule provider_input_new_ok)
  then obtain choices where choices: "input_choices (pq_input q) = Some choices" using input_choices_total by blast
  show ?thesis
  proof (intro exI [of _ choices] conjI allI impI)
    fix b r assume "consume_routing_signal env i q observation b = Some (Inr r)"
    then show "b \<in> set choices" "controlled q observation choices (SD_Route b) SD_Route (co_final (dr_consumption r))"
      using finite_signal_controlled [OF ok choices] unfolding consume_routing_signal_def by blast+
    show "\<not> unobserved observation" using \<open>consume_routing_signal env i q observation b = _\<close> unfolding consume_routing_signal_def
      by (rule consumed_observed)
  next
    fix b r assume "consume_profile_selection_signal env i q observation b = Some (Inr r)"
    then have "consume_finite_signal env i q observation b SP_ProfileSelection SD_Profile = Some (Inr r)"
      by (simp add: consume_profile_selection_signal_def split: if_splits)
    then show "\<not> unobserved observation" "b \<in> set choices" "controlled q observation choices (SD_Profile b) SD_Profile (co_final (dr_consumption r))"
      using finite_signal_controlled [OF ok choices] consumed_observed(1) by blast+
  next
    fix b
    show "consume_routing_signal env i q observation b \<noteq> None" "consume_profile_selection_signal env i q observation b \<noteq> None"
      using finite_signal_total [OF choices, of env i observation b]
      unfolding consume_routing_signal_def consume_profile_selection_signal_def by simp_all
  next
    show "consume_tool_risk_signal env i q observation mapping \<noteq> None" for mapping
      using choices by (rule tool_signal_total)
  next
    fix listed entries mapping r
    assume m: "tool_risk_mapping_try_new listed entries = Inr mapping"
      "consume_tool_risk_signal env i q observation mapping = Some (Inr r)"
    show "\<not> unobserved observation" "listed = choices" "is_tool_disposition (co_final (dr_consumption r))"
      "controlled q observation choices SD_Allow (\<lambda>k. the (bt_get (tr_dispositions mapping) k)) (co_final (dr_consumption r))"
      using tool_signal_controlled [OF ok choices m] consumed_observed(2) [OF m(2)] by blast+
  qed (fact choices)
qed

section \<open>Receipts\<close>

text \<open>A failure carries a terminal state other than completion, as its constructors ensure.\<close>

definition observation_ok :: "DecisionSignalProviderObservation \<Rightarrow> bool" where
  "observation_ok observation \<longleftrightarrow> (case observation of SO_Failure f \<Rightarrow> sf_state f \<noteq> SS_Completed | SO_Result _ \<Rightarrow> True)"

lemma failures_ok:
  "provider_failure_new j p a m state usage = Inr f \<Longrightarrow> observation_ok (SO_Failure f)"
  "provider_failure_unobserved j p a m state = Inr f \<Longrightarrow> observation_ok (SO_Failure f)"
  by (auto simp: provider_failure_unobserved_def provider_failure_new_def observation_ok_def res_simps split: if_splits)

lemma normalized_result_ok:
  "observation_ok observation \<Longrightarrow> normalize_observation q observation = Some n \<Longrightarrow>
     (case no_result n of
        Some result \<Rightarrow> no_state n = SS_Completed \<and> no_usage n = sr_usage result \<and> result_is_valid_for result q
      | None \<Rightarrow> no_state n \<noteq> SS_Completed)"
  by (auto simp: normalize_observation_def observation_ok_def Let_def split: DecisionSignalProviderObservation.splits if_splits)

lemma built_integrity:
  "validate_request_integrity env q = Inr () \<Longrightarrow> observation_ok observation \<Longrightarrow> normalize_observation q observation = Some n \<Longrightarrow>
     validate_receipt_integrity env (build_receipt env i q n b rec) = Inr ()"
  using normalized_result_ok [of observation q n]
  unfolding validate_receipt_integrity_def built_receipt(1-5) built_receipt(7) by (simp add: ensure_def)

lemma consumed_receipt:
  assumes "consume_finite_signal env i q observation b purpose act = Some (Inr r) \<or>
    consume_tool_risk_signal env i q observation mapping = Some (Inr r)"
  obtains n base rec where "normalize_observation q observation = Some n" and "r = build_receipt env i q n base rec"
  using assms that
  by (auto simp: consume_finite_signal_def consume_tool_risk_signal_def Let_def also_then_Inr_iff bind_eq_Some_conv split: if_splits)

text \<open>A request built from a profile and a capability passes its restoration check.\<close>

lemma provider_request_integrity:
  assumes "provider_request_new env r profile capability input threshold deadline = Some (Inr q)"
  shows "validate_request_integrity env q = Inr ()"
proof -
  from assms obtain p where "and_then (validate_request_integrity env p) (\<lambda>_. Inr p) = Inr q"
    by (auto simp: provider_request_new_def Let_def bind_eq_Some_conv simp del: and_then_simps split: if_splits)
  then show ?thesis by (auto simp: and_then_Inr_iff)
qed

lemma provider_request_fields:
  assumes "provider_request_new env r profile capability input threshold deadline = Some (Inr q)"
  shows "pq_request q = r" "pq_input q = input" "pq_threshold q = threshold" "pq_mode q = pr_mode profile"
    "pq_provider q = sc_provider capability" "pq_adapter q = sc_adapter capability" "pq_model q = sc_model capability"
    "pq_probability_semantics q = sc_probability_semantics capability"
  using assms by (auto simp: provider_request_new_def Let_def bind_eq_Some_conv res_simps split: if_splits)

text \<open>(C19) Receipts are restorable. For a request built from a profile and a capability, and an observation
  that the provider adapter can construct, every receipt a consumption returns passes the check of restored receipts, and replaying it against its own request
  returns the recorded disposition; replaying it against any other request is refused.\<close>

theorem signal_receipt_replays:
  assumes "provider_request_new env request profile capability input threshold deadline = Some (Inr q)"
    and "observation_ok observation"
    and "consume_routing_signal env i q observation b = Some (Inr r) \<or>
         consume_profile_selection_signal env i q observation b = Some (Inr r) \<or>
         consume_tool_risk_signal env i q observation mapping = Some (Inr r)"
  shows "validate_receipt_integrity env r = Inr () \<and> dr_id r = i \<and>
    receipt_replay env r q = Inr (dr_consumption r) \<and>
    (\<forall>other. other \<noteq> q \<longrightarrow> receipt_replay env r other = Inl (FE_InvalidReference (lit ''Decision Signal receipt replay'')))"
proof -
  from assms(3) obtain purpose act where "consume_finite_signal env i q observation b purpose act = Some (Inr r) \<or>
      consume_tool_risk_signal env i q observation mapping = Some (Inr r)"
    by (auto simp: consume_routing_signal_def consume_profile_selection_signal_def split: if_splits)
  then obtain n base rec where n: "normalize_observation q observation = Some n" and r: "r = build_receipt env i q n base rec"
    by (rule consumed_receipt)
  have "validate_receipt_integrity env r = Inr ()"
    unfolding r using provider_request_integrity [OF assms(1)] assms(2) n by (rule built_integrity)
  moreover have "dr_request r = q" "dr_id r = i" by (simp_all add: r built_receipt)
  ultimately show ?thesis by (simp add: receipt_replay_def)
qed

text \<open>(C20) What the check of restored receipts does not see. A receipt that passes it still passes after its
  subject is replaced by any other, after the state document or routing state that was shown to the provider is replaced, and after the
  provider's answers are replaced by any other answers that fit the questions, as long as the digests stored next to these
  values are kept: neither the subject nor the recomputed input and result digests enter the
  check.\<close>

theorem receipt_integrity_gaps:
  assumes "validate_receipt_integrity env r = Inr ()"
  shows "validate_receipt_integrity env (r\<lparr>dr_request := dr_request r\<lparr>pq_request := pq_request (dr_request r)\<lparr>rq_subject := s\<rparr>\<rparr>\<rparr>) = Inr () \<and>
    validate_receipt_integrity env (r\<lparr>dr_request := dr_request r\<lparr>pq_input := pq_input (dr_request r)\<lparr>sn_state_document := document,
      sn_routing_state := state\<rparr>\<rparr>\<rparr>) = Inr () \<and>
    (\<forall>result answers. dr_result r = Some result \<longrightarrow>
       answers_match_questions answers (sn_questions (pq_input (dr_request r))) \<longrightarrow>
       validate_receipt_integrity env (r\<lparr>dr_result := Some (result\<lparr>sr_answers := answers\<rparr>)\<rparr>) = Inr ())"
  using assms
  by (simp add: validate_receipt_integrity_def validate_request_integrity_def res_simps digest_provider_request_def
      profile_qualification_digest_def digest_receipt_def result_is_valid_for_def has_measured_usage_for_def split: option.splits)

section \<open>A routing request\<close>

definition sample_signal_env :: "unit signal_json" where
  "sample_signal_env = \<lparr>json_sha256 = \<lambda>bytes. take 32 (rev bytes @ replicate 32 0), node_input_bytes = \<lambda>_. Some [],
     context_bytes = \<lambda>_. Some [], canonical_document = Some, signal_criteria = \<lambda>_ _ _ _ _ _ _. []\<rparr>"

definition sample_signal_ref :: "string \<Rightarrow> ImmutableReference" where
  "sample_signal_ref name = (lit name, lit ''1'', replicate 32 7)"

definition sample_signal_choices :: DecisionSignalChoices where
  "sample_signal_choices = [lit ''approve'', lit ''rework'']"

definition sample_signal_question :: DecisionSignalQuestion where
  "sample_signal_question = \<lparr>sq_reference = sample_signal_ref ''next'', sq_instructions = lit ''Select'',
     sq_domain = QD_FiniteChoice sample_signal_choices,
     sq_criteria = QC_FiniteChoice [(lit ''approve'', lit ''Good''), (lit ''rework'', lit ''Bad'')]\<rparr>"

definition sample_signal_input :: DecisionSignalProviderInput where
  "sample_signal_input = (case provider_input_new sample_signal_env IM_Utf8Text (lit ''State'') [sample_signal_question]
     (lit ''next'') (Some (lit ''review'')) of Some (Inr input) \<Rightarrow> input)"

definition sample_signal_budget :: BudgetLimit where
  "sample_signal_budget = \<lparr>max_attempts = 1, max_elapsed_millis = 1000, max_tokens = 100, max_cost_micro_units = 10, max_output_bytes = 10\<rparr>"

definition sample_signal_profile :: DecisionSignalProfile where
  "sample_signal_profile = \<lparr>pr_purpose = SP_Routing, pr_provider = sample_signal_ref ''p'', pr_adapter = sample_signal_ref ''a'',
     pr_model = sample_signal_ref ''m'', pr_question_set = sample_signal_ref ''q'', pr_policy = sample_signal_ref ''policy'',
     pr_mode = SM_BoundedControl, pr_fallback = SF_Escalate, pr_budget = sample_signal_budget,
     pr_routes = Some \<lparr>rt_state = lit ''review'', rt_choices = sample_signal_choices\<rparr>\<rparr>"

definition sample_signal_capability :: DecisionSignalProviderCapability where
  "sample_signal_capability = \<lparr>sc_provider = sample_signal_ref ''p'', sc_adapter = sample_signal_ref ''a'',
     sc_model = sample_signal_ref ''m'', sc_probability_semantics = sample_signal_ref ''s'',
     sc_data_handling = sample_signal_ref ''d'', sc_purposes = [SP_Routing], sc_media = [IM_Utf8Text],
     sc_question_kinds = [QK_FiniteChoice],
     sc_limits = \<lparr>max_input_bytes = 4096, max_questions = 4, max_choices = 4\<rparr>, sc_budget_ceiling = sample_signal_budget\<rparr>"

definition sample_signal_request :: DecisionSignalRequest where
  "sample_signal_request = \<lparr>rq_id = 1, rq_node_attempt_id = 2, rq_frozen_input_digest = replicate 32 1, rq_run_id = 3,
     rq_subject = WS_Repository \<lparr>es_project_id = 4, es_repository_id = 5, es_base_revision = lit ''abc''\<rparr>,
     rq_purpose = SP_Routing, rq_input_digest = sn_digest sample_signal_input, rq_policy_digest = replicate 32 7,
     rq_budget = sample_signal_budget\<rparr>"

definition sample_signal_threshold :: DecisionSignalThreshold where
  "sample_signal_threshold = \<lparr>th_purpose = SP_Routing, th_probability_semantics = sample_signal_ref ''s'',
     th_calibration = sample_signal_ref ''c'', th_minimum_probability = 600000, th_minimum_margin = 200000,
     th_profile_qualification = None\<rparr>"

definition sample_provider_request :: DecisionSignalProviderRequest where
  "sample_provider_request = (case provider_request_new sample_signal_env sample_signal_request sample_signal_profile
     sample_signal_capability sample_signal_input sample_signal_threshold 99 of Some (Inr q) \<Rightarrow> q)"

definition sample_signal_result :: DecisionSignalProviderResult where
  "sample_signal_result = \<lparr>sr_request_id = 1, sr_provider = sample_signal_ref ''p'', sr_adapter = sample_signal_ref ''a'',
     sr_model = sample_signal_ref ''m'', sr_probability_semantics = sample_signal_ref ''s'',
     sr_answers = [(sample_signal_ref ''next'', AV_FiniteChoice (lit ''rework'') 900000 100000)],
     sr_usage = usage_default, sr_result_digest = replicate 32 9\<rparr>"

lemma sample_input_built:
  "provider_input_new sample_signal_env IM_Utf8Text (lit ''State'') [sample_signal_question] (lit ''next'') (Some (lit ''review'')) =
     Some (Inr sample_signal_input)"
proof -
  have "provider_input_new sample_signal_env IM_Utf8Text (lit ''State'') [sample_signal_question] (lit ''next'') (Some (lit ''review'')) \<noteq> None"
    "\<nexists>e. provider_input_new sample_signal_env IM_Utf8Text (lit ''State'') [sample_signal_question] (lit ''next'') (Some (lit ''review'')) = Some (Inl e)"
    by (simp_all add: provider_input_new_def MAX_DECISION_SIGNAL_QUESTIONS_def sample_signal_question_def question_identity_def
        is_finite_question_def sample_signal_ref_def canonicalize_state_document_def digest_provider_input_def encode_signal_question_def)
  then show ?thesis unfolding sample_signal_input_def by (auto split: sum.splits)
qed

lemmas sample_input_fields = provider_input_fields [OF sample_input_built]

lemma sample_document: "sn_state_document sample_signal_input = lit ''State''"
  using sample_input_fields(2) by (simp add: canonicalize_state_document_def)

lemma sample_choices: "input_choices sample_signal_input = Some sample_signal_choices"
  by (simp add: input_choices_def sample_input_fields question_identity_def sample_signal_question_def sample_signal_ref_def)

lemma sample_request_built:
  "provider_request_new sample_signal_env sample_signal_request sample_signal_profile sample_signal_capability sample_signal_input
     sample_signal_threshold 99 = Some (Inr sample_provider_request)"
proof -
  have "\<exists>q. provider_request_new sample_signal_env sample_signal_request sample_signal_profile sample_signal_capability
      sample_signal_input sample_signal_threshold 99 = Some (Inr q)"
    by (simp add: provider_request_new_def Let_def routing_input_matches_profile_def sample_choices sample_input_fields sample_document
        sample_signal_request_def sample_signal_profile_def sample_signal_capability_def sample_signal_threshold_def
        sample_signal_question_def sample_signal_choices_def question_domain_kind_def saturated_len_def as_bytes_def lit_def utf8_def
        fits_within_def first_excess_def budget_dimensions_def sample_signal_budget_def sample_signal_ref_def
        validate_request_integrity_def digest_provider_request_def)
  then show ?thesis unfolding sample_provider_request_def by auto
qed

lemmas sample_request_fields = provider_request_fields [OF sample_request_built]

lemma sample_calibrated: "calibrated sample_provider_request (SO_Result sample_signal_result) (lit ''rework'')"
  by (simp add: calibrated_def result_is_valid_for_def has_measured_usage_for_def sample_request_fields sample_input_fields
      sample_signal_result_def sample_signal_capability_def sample_signal_request_def sample_signal_threshold_def answers_match_questions_def answer_matches_def
      sample_signal_question_def sample_signal_choices_def sample_signal_ref_def usage_validate_def usage_checks_def
      usage_default_def sample_signal_budget_def cost_from_u64_def)

lemma sample_consumed:
  "\<exists>r. consume_routing_signal sample_signal_env 8 sample_provider_request (SO_Result sample_signal_result) (lit ''approve'') = Some (Inr r)"
proof -
  obtain n where "normalize_observation sample_provider_request (SO_Result sample_signal_result) = Some n"
    using normalize_total by blast
  then show ?thesis
    by (simp add: consume_routing_signal_def consume_finite_signal_def Let_def sample_request_fields sample_signal_request_def
      sample_choices sample_signal_choices_def ensure_observed_failure_def)
qed

theorem signal_control_bounded_witness:
  "\<exists>r. consume_routing_signal sample_signal_env 8 sample_provider_request (SO_Result sample_signal_result) (lit ''approve'') = Some (Inr r) \<and>
     co_final (dr_consumption r) = SD_Route (lit ''rework'')"
proof -
  from sample_consumed obtain r where
    r: "consume_routing_signal sample_signal_env 8 sample_provider_request (SO_Result sample_signal_result) (lit ''approve'') = Some (Inr r)" ..
  with signal_control_bounded [of sample_signal_env IM_Utf8Text "lit ''State''" "[sample_signal_question]" "lit ''next''"
      "Some (lit ''review'')" sample_provider_request 8 "SO_Result sample_signal_result"]
  have "controlled sample_provider_request (SO_Result sample_signal_result) sample_signal_choices (SD_Route (lit ''approve'')) SD_Route
      (co_final (dr_consumption r))"
    by (simp add: sample_request_fields sample_input_built sample_choices)
  with sample_calibrated have "co_final (dr_consumption r) = SD_Route (lit ''rework'')"
    by (simp add: controlled_def sample_request_fields sample_signal_profile_def)
  with r show ?thesis by blast
qed

theorem signal_receipt_replays_witness:
  "\<exists>r. consume_routing_signal sample_signal_env 8 sample_provider_request (SO_Result sample_signal_result) (lit ''approve'') = Some (Inr r) \<and>
     receipt_replay sample_signal_env r sample_provider_request = Inr (dr_consumption r)"
proof -
  from sample_consumed obtain r where
    r: "consume_routing_signal sample_signal_env 8 sample_provider_request (SO_Result sample_signal_result) (lit ''approve'') = Some (Inr r)" ..
  with signal_receipt_replays [OF sample_request_built, of "SO_Result sample_signal_result" 8 "lit ''approve''" r]
  show ?thesis by (auto simp: observation_ok_def)
qed

theorem receipt_integrity_gaps_witness:
  "\<exists>r. validate_receipt_integrity sample_signal_env r = Inr () \<and>
     rq_subject (pq_request (dr_request r)) = WS_ProjectInput (PI_V1 9 [])"
proof -
  obtain n where n: "normalize_observation sample_provider_request (SO_Result sample_signal_result) = Some n"
    by (simp add: normalize_observation_def Let_def)
  have "validate_receipt_integrity sample_signal_env (build_receipt sample_signal_env 8 sample_provider_request n SD_Allow None) = Inr ()"
    using provider_request_integrity [OF sample_request_built] _ n by (rule built_integrity) (simp add: observation_ok_def)
  from conjunct1 [OF receipt_integrity_gaps [OF this, of "WS_ProjectInput (PI_V1 9 [])"]] show ?thesis
    by (intro exI conjI) (assumption, simp)
qed

end
