(* ===== verification/Review_Plan.thy ===== *)
theory Review_Plan
  imports Decision_Signal_Consume
begin

text \<open>
  Evidence and review plans, \<^verbatim>\<open>server/core/octacity-server-factory/src/evidence.rs\<close> and \<^verbatim>\<open>review_plan.rs\<close>, with the evaluation
  policy of \<^verbatim>\<open>configuration.rs\<close>: the retained deterministic evidence of one candidate, and the frozen
  selection of criteria, evaluator branches and bounds under which the candidate is reviewed. The JSON texts
  of the records are parameters.
\<close>

section \<open>Vocabulary\<close>

datatype DeterministicGateOutcome = GO_Passed | GO_Failed | GO_Indeterminate

datatype EvidenceOutputKind = EO_Report | EO_Artifact

datatype ReviewPurpose = RP_Requirements | RP_Implementation | RP_CodeReview | RP_Verification | RP_Deployment

definition gate_outcome_as_str :: "DeterministicGateOutcome \<Rightarrow> rstr" where
  "gate_outcome_as_str g = lit (case g of GO_Passed \<Rightarrow> ''passed'' | GO_Failed \<Rightarrow> ''failed'' | GO_Indeterminate \<Rightarrow> ''indeterminate'')"

definition evidence_output_kind_as_str :: "EvidenceOutputKind \<Rightarrow> rstr" where
  "evidence_output_kind_as_str k = lit (case k of EO_Report \<Rightarrow> ''report'' | EO_Artifact \<Rightarrow> ''artifact'')"

primrec review_purpose_index :: "ReviewPurpose \<Rightarrow> nat" where
  "review_purpose_index RP_Requirements = 0"
| "review_purpose_index RP_Implementation = 1"
| "review_purpose_index RP_CodeReview = 2"
| "review_purpose_index RP_Verification = 3"
| "review_purpose_index RP_Deployment = 4"

instantiation ReviewPurpose :: linorder
begin

definition less_eq_ReviewPurpose :: "ReviewPurpose \<Rightarrow> ReviewPurpose \<Rightarrow> bool" where
  "less_eq_ReviewPurpose x y \<longleftrightarrow> review_purpose_index x \<le> review_purpose_index y"

definition less_ReviewPurpose :: "ReviewPurpose \<Rightarrow> ReviewPurpose \<Rightarrow> bool" where
  "less_ReviewPurpose x y \<longleftrightarrow> review_purpose_index x < review_purpose_index y"

instance
proof
  fix x y :: ReviewPurpose
  show "x \<le> y \<Longrightarrow> y \<le> x \<Longrightarrow> x = y" by (cases x; cases y) (simp_all add: less_eq_ReviewPurpose_def)
qed (auto simp: less_eq_ReviewPurpose_def less_ReviewPurpose_def)

end

abbreviation invalid_reference :: "string \<Rightarrow> FactoryError" where
  "invalid_reference relationship \<equiv> FE_InvalidReference (lit relationship)"

definition validate_review_count :: "nat \<Rightarrow> nat \<Rightarrow> nat \<Rightarrow> string \<Rightarrow> FactoryError + unit" where
  "validate_review_count count minimum maximum collection =
     (if count < minimum then Inl (invalid_reference collection)
      else if maximum < count then Inl (FE_CollectionLimitExceeded (lit collection))
      else Inr ())"

section \<open>Evidence\<close>

definition MAX_EVIDENCE_ITEMS :: nat where "MAX_EVIDENCE_ITEMS = 256"

record ChangeSet =
  ch_id :: uuid
  ch_node_attempt_id :: uuid
  ch_subject :: CandidateSubject
  ch_bundle_artifact :: uuid
  ch_manifest_artifact :: uuid

definition changeset_new ::
  "('x, 'm) factory_json_scheme \<Rightarrow> uuid \<Rightarrow> 'x FlowNodeInput \<Rightarrow> NodeAttempt \<Rightarrow> CandidateSubject \<Rightarrow> uuid \<Rightarrow> uuid \<Rightarrow>
     FactoryError + ChangeSet"
where
  "changeset_new env i input node subject bundle manifest =
     and_then (exact_resource input) (\<lambda>exact.
     if cs_exact subject \<noteq> exact then Inl FE_InconsistentSubject
     else if na_factory_run_id node \<noteq> ni_factory_run_id input \<or> na_flow_run_id node \<noteq> ni_flow_run_id input \<or>
         na_workflow_cycle_id node \<noteq> ni_cycle_id input \<or> na_node_key node \<noteq> ni_node input
     then Inl (invalid_reference ''changeset producing node input'')
     else and_then (node_input_digest env input) (\<lambda>digest.
       if na_input_digest node \<noteq> digest then Inl (invalid_reference ''changeset producing node input'')
       else if bundle = manifest then Inl (invalid_reference ''changeset artifacts'')
       else Inr \<lparr>ch_id = i, ch_node_attempt_id = na_id node, ch_subject = subject,
         ch_bundle_artifact = bundle, ch_manifest_artifact = manifest\<rparr>))"

record EvidenceProducer =
  ep_build_id :: uuid
  ep_attempt_id :: uuid
  ep_job_id :: uuid
  ep_tool :: ImmutableReference
  ep_plugin :: ImmutableReference

record EvidenceRequirement =
  er_kind :: FactoryKey
  er_output_kind :: EvidenceOutputKind
  er_schema :: ImmutableReference
  er_tool :: ImmutableReference
  er_plugin :: ImmutableReference

record EvidenceItem =
  ei_subject :: CandidateSubject
  ei_kind :: FactoryKey
  ei_output_kind :: EvidenceOutputKind
  ei_artifact :: FactoryArtifactReference
  ei_schema :: ImmutableReference
  ei_producer :: EvidenceProducer
  ei_outcome :: DeterministicGateOutcome
  ei_published_at :: timestamp
  ei_fresh_until :: timestamp

record EvidenceManifest =
  em_id :: uuid
  em_changeset_id :: uuid
  em_subject :: CandidateSubject
  em_constructed_at :: timestamp
  em_requirements :: "EvidenceRequirement list"
  em_items :: "EvidenceItem list"
  em_inputs :: "FactoryArtifactReference list"

definition requirement_met :: "EvidenceRequirement \<Rightarrow> EvidenceItem \<Rightarrow> bool" where
  "requirement_met requirement item \<longleftrightarrow>
     er_kind requirement = ei_kind item \<and> er_output_kind requirement = ei_output_kind item \<and>
     er_schema requirement = ei_schema item \<and> er_tool requirement = ep_tool (ei_producer item) \<and>
     er_plugin requirement = ep_plugin (ei_producer item)"

text \<open>The lists are sorted by kind before duplicate kinds are refused.\<close>

definition evidence_from_parts ::
  "uuid \<Rightarrow> uuid \<Rightarrow> CandidateSubject \<Rightarrow> timestamp \<Rightarrow> EvidenceRequirement list \<Rightarrow> EvidenceItem list \<Rightarrow>
     FactoryError + EvidenceManifest"
where
  "evidence_from_parts i changeset subject constructed_at requirements items =
     and_then (validate_review_count (length requirements) 1 MAX_EVIDENCE_ITEMS ''evidence requirements'') (\<lambda>_.
     if MAX_EVIDENCE_ITEMS < length items then Inl (FE_CollectionLimitExceeded (lit ''evidence items''))
     else let requirements = sort_key er_kind requirements; items = sort_key ei_kind items in
       if has_adjacent_duplicate (map er_kind requirements) \<or> has_adjacent_duplicate (map ei_kind items) \<or>
          \<not> distinct (map (\<lambda>item. far_artifact_id (ei_artifact item)) items)
       then Inl (invalid_reference ''evidence artifact'')
       else if length requirements \<noteq> length items \<or>
          \<not> list_all (\<lambda>(requirement, item). requirement_met requirement item) (zip requirements items)
       then Inl (invalid_reference ''evidence completeness'')
       else if list_ex (\<lambda>item. ei_subject item \<noteq> subject) items then Inl FE_InconsistentSubject
       else if list_ex (\<lambda>item. constructed_at < ei_published_at item \<or> ei_fresh_until item \<le> constructed_at) items
       then Inl (invalid_reference ''evidence freshness'')
       else Inr \<lparr>em_id = i, em_changeset_id = changeset, em_subject = subject, em_constructed_at = constructed_at,
         em_requirements = requirements, em_items = items, em_inputs = []\<rparr>)"

definition evidence_manifest_new ::
  "uuid \<Rightarrow> ChangeSet \<Rightarrow> CandidateSubject \<Rightarrow> timestamp \<Rightarrow> EvidenceRequirement list \<Rightarrow> EvidenceItem list \<Rightarrow>
     FactoryError + EvidenceManifest"
where
  "evidence_manifest_new i changeset subject constructed_at requirements items =
     (if subject \<noteq> ch_subject changeset then Inl FE_InconsistentSubject
      else evidence_from_parts i (ch_id changeset) subject constructed_at requirements items)"

definition canonical_evidence_inputs :: "FactoryArtifactReference list \<Rightarrow> FactoryError + FactoryArtifactReference list" where
  "canonical_evidence_inputs inputs =
     (let inputs = sort_key far_artifact_id inputs in
      if inputs = [] \<or> MAX_CONTEXT_MANIFEST_ENTRIES < length inputs \<or> has_adjacent_duplicate (map far_artifact_id inputs)
      then Inl (invalid_reference ''evidence inputs'')
      else Inr inputs)"

definition with_inputs :: "EvidenceManifest \<Rightarrow> FactoryArtifactReference list \<Rightarrow> FactoryError + EvidenceManifest" where
  "with_inputs m inputs = map_ok (\<lambda>canonical. m\<lparr>em_inputs := canonical\<rparr>) (canonical_evidence_inputs inputs)"

definition verify_for :: "EvidenceManifest \<Rightarrow> ChangeSet \<Rightarrow> FactoryArtifactReference list \<Rightarrow> FactoryError + unit" where
  "verify_for m candidate inputs =
     and_then (with_inputs m inputs) (\<lambda>required.
     ensure (\<not> (em_changeset_id m \<noteq> ch_id candidate \<or> em_subject m \<noteq> ch_subject candidate \<or> em_inputs m \<noteq> em_inputs required))
       (invalid_reference ''evidence subject and inputs''))"

text \<open>Restoring a manifest: an absent inventory stays absent.\<close>

definition evidence_from_wire :: "EvidenceManifest \<Rightarrow> FactoryError + EvidenceManifest" where
  "evidence_from_wire w =
     and_then (evidence_from_parts (em_id w) (em_changeset_id w) (em_subject w) (em_constructed_at w)
       (em_requirements w) (em_items w)) (\<lambda>m.
     if em_inputs w = [] then Inr m else with_inputs m (em_inputs w))"

text \<open>The items are sorted and their kinds distinct, so the binary search finds the only match.\<close>

definition evidence_item :: "EvidenceManifest \<Rightarrow> FactoryKey \<Rightarrow> EvidenceItem option" where
  "evidence_item m kind = find (\<lambda>item. ei_kind item = kind) (em_items m)"

section \<open>Evaluation policy\<close>

definition MAX_CRITERION_PACKS :: nat where "MAX_CRITERION_PACKS = 32"
definition MAX_EVALUATORS :: nat where "MAX_EVALUATORS = 32"

record EvaluationPolicy =
  pl_criterion_packs :: "ImmutableReference list"
  pl_evaluators :: "ImmutableReference list"
  pl_required_quorum :: u16
  pl_budget :: BudgetLimit

definition validate_unique_references :: "ImmutableReference list \<Rightarrow> nat \<Rightarrow> string \<Rightarrow> FactoryError + unit" where
  "validate_unique_references references maximum collection =
     (if length references < 1 \<or> maximum < length references then Inl (FE_CollectionLimitExceeded (lit collection))
      else ensure (distinct references) (FE_InvalidConfiguration (lit collection)))"

definition evaluation_policy_try_new ::
  "ImmutableReference list \<Rightarrow> ImmutableReference list \<Rightarrow> u16 \<Rightarrow> BudgetLimit \<Rightarrow> FactoryError + EvaluationPolicy"
where
  "evaluation_policy_try_new packs evaluators quorum budget =
     and_then (validate_unique_references packs MAX_CRITERION_PACKS ''criterion packs'') (\<lambda>_.
     and_then (validate_unique_references evaluators MAX_EVALUATORS ''evaluators'') (\<lambda>_.
     and_then (ensure (distinct (map fst packs)) (FE_InvalidConfiguration (lit ''criterion pack identities''))) (\<lambda>_.
     and_then (ensure (distinct (map fst evaluators)) (FE_InvalidConfiguration (lit ''evaluator identities''))) (\<lambda>_.
     if quorum = 0 \<or> length evaluators < unat quorum then Inl (FE_InvalidConfiguration (lit ''evaluator quorum''))
     else Inr \<lparr>pl_criterion_packs = sort packs, pl_evaluators = sort evaluators, pl_required_quorum = quorum,
       pl_budget = budget\<rparr>))))"

section \<open>Criteria, branches and capabilities\<close>

record CriterionPack =
  cp_project_id :: uuid
  cp_reference :: ImmutableReference
  cp_schema :: ImmutableReference
  cp_artifact :: FactoryArtifactReference

definition criterion_pack_new ::
  "uuid \<Rightarrow> ImmutableReference \<Rightarrow> ImmutableReference \<Rightarrow> FactoryArtifactReference \<Rightarrow> FactoryError + CriterionPack"
where
  "criterion_pack_new project reference schema artifact =
     (if snd (snd reference) \<noteq> far_content_digest artifact then Inl (invalid_reference ''criterion pack artifact digest'')
      else Inr \<lparr>cp_project_id = project, cp_reference = reference, cp_schema = schema, cp_artifact = artifact\<rparr>)"

record ReviewBranch =
  rb_key :: FactoryKey
  rb_evaluator :: ImmutableReference
  rb_substitutes :: "ImmutableReference list"
  rb_required :: bool

definition review_branch_new :: "FactoryKey \<Rightarrow> ImmutableReference \<Rightarrow> bool \<Rightarrow> ReviewBranch" where
  "review_branch_new key evaluator required =
     \<lparr>rb_key = key, rb_evaluator = evaluator, rb_substitutes = [], rb_required = required\<rparr>"

definition review_branch_with_substitutes ::
  "FactoryKey \<Rightarrow> ImmutableReference \<Rightarrow> ImmutableReference list \<Rightarrow> bool \<Rightarrow> FactoryError + ReviewBranch"
where
  "review_branch_with_substitutes key evaluator substitutes required =
     (let substitutes = sort substitutes in
      if substitutes = [] \<or> has_adjacent_duplicate substitutes \<or> evaluator \<in> set substitutes \<or>
         \<not> distinct (map fst substitutes) \<or> list_ex (\<lambda>s. fst s = fst evaluator) substitutes
      then Inl (invalid_reference ''review branch substitutes'')
      else Inr \<lparr>rb_key = key, rb_evaluator = evaluator, rb_substitutes = substitutes, rb_required = required\<rparr>)"

definition review_branch_from_wire :: "ReviewBranch \<Rightarrow> FactoryError + ReviewBranch" where
  "review_branch_from_wire w =
     (if rb_substitutes w = [] then Inr (review_branch_new (rb_key w) (rb_evaluator w) (rb_required w))
      else review_branch_with_substitutes (rb_key w) (rb_evaluator w) (rb_substitutes w) (rb_required w))"

text \<open>The exact evaluators of a branch, the primary one first.\<close>

definition branch_evaluators :: "ReviewBranch \<Rightarrow> ImmutableReference list" where
  "branch_evaluators b = rb_evaluator b # rb_substitutes b"

definition allows_evaluator :: "ReviewBranch \<Rightarrow> ImmutableReference \<Rightarrow> bool" where
  "allows_evaluator b evaluator \<longleftrightarrow> rb_evaluator b = evaluator \<or> evaluator \<in> set (rb_substitutes b)"

definition canonicalize_unique :: "'a::linorder list \<Rightarrow> string \<Rightarrow> FactoryError + 'a list" where
  "canonicalize_unique xs collection =
     (if xs = [] then Inl (invalid_reference collection)
      else if has_adjacent_duplicate (sort xs) then Inl (invalid_reference collection)
      else Inr (sort xs))"

record ReviewEvaluatorCapability =
  rc_evaluator :: ImmutableReference
  rc_purposes :: "ReviewPurpose list"
  rc_data_handling :: "ImmutableReference list"
  rc_budget_ceiling :: BudgetLimit

definition review_capability_try_new ::
  "ImmutableReference \<Rightarrow> ReviewPurpose list \<Rightarrow> ImmutableReference list \<Rightarrow> BudgetLimit \<Rightarrow> FactoryError + ReviewEvaluatorCapability"
where
  "review_capability_try_new evaluator purposes data_handling ceiling_of =
     and_then (canonicalize_unique purposes ''evaluator purposes'') (\<lambda>ps.
     and_then (canonicalize_unique data_handling ''evaluator data handling'') (\<lambda>hs.
     Inr \<lparr>rc_evaluator = evaluator, rc_purposes = ps, rc_data_handling = hs, rc_budget_ceiling = ceiling_of\<rparr>))"

definition capability_supports :: "ReviewEvaluatorCapability \<Rightarrow> ReviewPurpose \<Rightarrow> ImmutableReference \<Rightarrow> BudgetLimit \<Rightarrow> bool" where
  "capability_supports c purpose data_handling budget \<longleftrightarrow>
     purpose \<in> set (rc_purposes c) \<and> data_handling \<in> set (rc_data_handling c) \<and> fits_within budget (rc_budget_ceiling c)"

section \<open>Plans\<close>

record EvaluationPlanDefinition =
  pd_id :: uuid
  pd_purpose :: ReviewPurpose
  pd_subject :: CandidateSubject
  pd_criterion_packs :: "CriterionPack list"
  pd_branches :: "ReviewBranch list"
  pd_budget :: BudgetLimit
  pd_created_at :: timestamp
  pd_deadline :: timestamp
  pd_data_handling :: ImmutableReference

record EvaluationPlan =
  ev_id :: uuid
  ev_evidence_id :: uuid
  ev_purpose :: ReviewPurpose
  ev_subject :: CandidateSubject
  ev_criterion_packs :: "CriterionPack list"
  ev_branches :: "ReviewBranch list"
  ev_required_quorum :: u16
  ev_budget :: BudgetLimit
  ev_created_at :: timestamp
  ev_deadline :: timestamp
  ev_data_handling :: ImmutableReference

type_synonym EvaluationPlanWire = EvaluationPlan

text \<open>The deadline lies after the creation, at most the elapsed budget later.\<close>

definition elapsed_ok :: "timestamp \<Rightarrow> timestamp \<Rightarrow> BudgetLimit \<Rightarrow> bool" where
  "elapsed_ok created deadline budget \<longleftrightarrow>
     (case i64_checked_sub deadline created of
        None \<Rightarrow> False
      | Some elapsed \<Rightarrow> 0 \<le> elapsed \<and> elapsed \<noteq> 0 \<and> elapsed \<le> uint (max_elapsed_millis budget))"

definition validate_branch_evaluators :: "ReviewBranch list \<Rightarrow> FactoryError + unit" where
  "validate_branch_evaluators branches =
     and_then (ensure (distinct (concat (map branch_evaluators branches))) (invalid_reference ''review evaluators'')) (\<lambda>_.
     ensure (distinct (map fst (concat (map branch_evaluators branches)))) (invalid_reference ''review evaluator identities''))"

text \<open>\<^verbatim>\<open>u16::try_from\<close> of a count of at most 32 branches.\<close>

definition u16_try_from :: "nat \<Rightarrow> string \<Rightarrow> FactoryError + u16" where
  "u16_try_from n collection =
     (if n < 2 ^ 16 then Inr (of_nat n) else Inl (FE_CollectionLimitExceeded (lit collection)))"

definition validate_plan_shape :: "EvaluationPlanWire \<Rightarrow> FactoryError + unit" where
  "validate_plan_shape plan =
     (if list_ex (\<lambda>pack. cp_project_id pack \<noteq> es_project_id (cs_exact (ev_subject plan))) (ev_criterion_packs plan)
      then Inl FE_InconsistentSubject
      else if \<not> elapsed_ok (ev_created_at plan) (ev_deadline plan) (ev_budget plan)
      then Inl (invalid_reference ''evaluation deadline'')
      else
        and_then (validate_review_count (length (ev_criterion_packs plan)) 1 MAX_CRITERION_PACKS ''criterion packs'') (\<lambda>_.
        and_then (validate_review_count (length (ev_branches plan)) 1 MAX_EVALUATORS ''review branches'') (\<lambda>_.
        and_then (u16_try_from (length (filter rb_required (ev_branches plan))) ''review branches'') (\<lambda>required.
        and_then (u16_try_from (length (ev_branches plan)) ''review branches'') (\<lambda>branch_count.
        if ev_required_quorum plan = 0 \<or> branch_count < ev_required_quorum plan \<or> ev_required_quorum plan < required
        then Inl (invalid_reference ''evaluation quorum'')
        else
          and_then (ensure (distinct (map cp_reference (ev_criterion_packs plan))) (invalid_reference ''criterion packs'')) (\<lambda>_.
          and_then (ensure (distinct (map (\<lambda>p. fst (cp_reference p)) (ev_criterion_packs plan)))
            (invalid_reference ''criterion pack identities'')) (\<lambda>_.
          and_then (ensure (distinct (map rb_key (ev_branches plan))) (invalid_reference ''review branches'')) (\<lambda>_.
          validate_branch_evaluators (ev_branches plan)))))))))"

definition evaluation_plan_from_parts :: "EvaluationPlanWire \<Rightarrow> FactoryError + EvaluationPlan" where
  "evaluation_plan_from_parts w =
     and_then (validate_plan_shape w) (\<lambda>_.
     Inr (w\<lparr>ev_criterion_packs := sort_key cp_reference (ev_criterion_packs w),
            ev_branches := sort_key rb_key (ev_branches w)\<rparr>))"

definition has_evaluator :: "EvaluationPlan \<Rightarrow> ImmutableReference \<Rightarrow> bool" where
  "has_evaluator plan evaluator \<longleftrightarrow> list_ex (\<lambda>b. allows_evaluator b evaluator) (ev_branches plan)"

definition has_evaluator_identity :: "EvaluationPlan \<Rightarrow> FactoryKey \<Rightarrow> bool" where
  "has_evaluator_identity plan evaluator \<longleftrightarrow>
     list_ex (\<lambda>b. fst (rb_evaluator b) = evaluator \<or> list_ex (\<lambda>s. fst s = evaluator) (rb_substitutes b)) (ev_branches plan)"

definition evaluator_count :: "EvaluationPlan \<Rightarrow> nat" where
  "evaluator_count plan = length (ev_branches plan)"

record 'x plan_json = "'x signal_json" +
  plan_bytes :: "EvaluationPlan \<Rightarrow> u8 list option"
  evidence_bytes :: "EvidenceManifest \<Rightarrow> u8 list option"

definition evaluation_plan_digest :: "('x, 'm) plan_json_scheme \<Rightarrow> EvaluationPlan \<Rightarrow> FactoryError + FactoryDigest" where
  "evaluation_plan_digest env plan =
     map_ok (\<lambda>bytes. factory_digest_sha256 (json_sha256 env) (lit ''octacity.factory.evaluation-plan.v2'') [bytes])
       (ok_or (invalid_reference ''evaluation plan serialization'') (plan_bytes env plan))"

definition evidence_digest :: "('x, 'm) plan_json_scheme \<Rightarrow> EvidenceManifest \<Rightarrow> FactoryError + FactoryDigest" where
  "evidence_digest env m =
     map_ok (\<lambda>bytes. factory_digest_sha256 (json_sha256 env) (lit ''octacity.factory.evidence-manifest.v2'') [bytes])
       (ok_or (invalid_reference ''evidence manifest serialization'') (evidence_bytes env m))"

section \<open>Preparation\<close>

datatype ReviewPlanEscalation =
    RequiredCapabilityUnavailable FactoryKey
  | QuorumCapabilityUnavailable u16 u16

datatype ReviewPlanPreparation = Plan_Ready EvaluationPlan | Plan_Escalate ReviewPlanEscalation

definition validate_plan_definition ::
  "EvaluationPlanDefinition \<Rightarrow> EvidenceManifest \<Rightarrow> EvaluationPolicy \<Rightarrow> FactoryError + unit"
where
  "validate_plan_definition d evidence policy =
     (if pd_subject d \<noteq> em_subject evidence \<or>
         list_ex (\<lambda>pack. cp_project_id pack \<noteq> es_project_id (cs_exact (pd_subject d))) (pd_criterion_packs d)
      then Inl FE_InconsistentSubject
      else if pd_budget d \<noteq> pl_budget policy then Inl (invalid_reference ''evaluation budget'')
      else if \<not> elapsed_ok (pd_created_at d) (pd_deadline d) (pd_budget d) then Inl (invalid_reference ''evaluation deadline'')
      else
        and_then (validate_review_count (length (pd_criterion_packs d)) 1 MAX_CRITERION_PACKS ''criterion packs'') (\<lambda>_.
        and_then (validate_review_count (length (pd_branches d)) 1 MAX_EVALUATORS ''review branches'') (\<lambda>_.
        and_then (ensure (distinct (map cp_reference (pd_criterion_packs d))) (invalid_reference ''criterion packs'')) (\<lambda>_.
        and_then (ensure (distinct (map (\<lambda>p. fst (cp_reference p)) (pd_criterion_packs d)))
          (invalid_reference ''criterion pack identities'')) (\<lambda>_.
        and_then (ensure (distinct (map rb_key (pd_branches d))) (invalid_reference ''review branches'')) (\<lambda>_.
        and_then (validate_branch_evaluators (pd_branches d)) (\<lambda>_.
        ensure (sort (map cp_reference (pd_criterion_packs d)) = sort (pl_criterion_packs policy) \<and>
            sort (concat (map branch_evaluators (pd_branches d))) = sort (pl_evaluators policy))
          (invalid_reference ''evaluation policy selection''))))))))"

definition branch_compatible :: "EvaluationPlanDefinition \<Rightarrow> ReviewEvaluatorCapability list \<Rightarrow> ReviewBranch \<Rightarrow> bool" where
  "branch_compatible d capabilities b \<longleftrightarrow>
     list_ex (\<lambda>evaluator. list_ex (\<lambda>c. rc_evaluator c = evaluator \<and>
       capability_supports c (pd_purpose d) (pd_data_handling d) (pd_budget d)) capabilities) (branch_evaluators b)"

text \<open>The set of compatible branch keys is the list of the keys without repetition.\<close>

definition prepare_evaluation_plan ::
  "EvaluationPlanDefinition \<Rightarrow> EvidenceManifest \<Rightarrow> EvaluationPolicy \<Rightarrow> ReviewEvaluatorCapability list \<Rightarrow>
     FactoryError + ReviewPlanPreparation"
where
  "prepare_evaluation_plan d evidence policy capabilities =
     and_then (validate_plan_definition d evidence policy) (\<lambda>_.
     and_then (ensure (distinct (map (\<lambda>c. fst (rc_evaluator c)) capabilities)) (invalid_reference ''review capability identities'')) (\<lambda>_.
     let packs = sort_key cp_reference (pd_criterion_packs d);
         branches = sort_key rb_key (pd_branches d);
         compatible = remdups (map rb_key (filter (branch_compatible d capabilities) branches))
     in case find (\<lambda>b. rb_required b \<and> rb_key b \<notin> set compatible) branches of
          Some b \<Rightarrow> Inr (Plan_Escalate (RequiredCapabilityUnavailable (rb_key b)))
        | None \<Rightarrow>
            and_then (u16_try_from (length compatible) ''review capabilities'') (\<lambda>available.
            if available < pl_required_quorum policy
            then Inr (Plan_Escalate (QuorumCapabilityUnavailable (pl_required_quorum policy) available))
            else map_ok Plan_Ready (evaluation_plan_from_parts \<lparr>ev_id = pd_id d, ev_evidence_id = em_id evidence,
              ev_purpose = pd_purpose d, ev_subject = pd_subject d, ev_criterion_packs = packs, ev_branches = branches,
              ev_required_quorum = pl_required_quorum policy, ev_budget = pd_budget d, ev_created_at = pd_created_at d,
              ev_deadline = pd_deadline d, ev_data_handling = pd_data_handling d\<rparr>))))"

end
