(* ===== verification/Review_Assessment.thy ===== *)
theory Review_Assessment
  imports Review_Plan
begin

text \<open>
  Assessments of evaluators, \<^verbatim>\<open>server/core/octacity-server-factory/src/assessment.rs\<close> with \<^verbatim>\<open>assessment/finding.rs\<close> and
  \<^verbatim>\<open>assessment/provenance.rs\<close>: typed findings that cite exact evidence, and results bound to one
  plan, one evaluator and one candidate.
\<close>

section \<open>Findings\<close>

datatype AssessmentOutcome = AO_Satisfied | AO_Violated | AO_Indeterminate

datatype FindingSeverity = FS_Advisory | FS_Low | FS_Medium | FS_High | FS_Critical

definition finding_severity_as_str :: "FindingSeverity \<Rightarrow> rstr" where
  "finding_severity_as_str s = lit (case s of FS_Advisory \<Rightarrow> ''advisory'' | FS_Low \<Rightarrow> ''low'' | FS_Medium \<Rightarrow> ''medium''
     | FS_High \<Rightarrow> ''high'' | FS_Critical \<Rightarrow> ''critical'')"

primrec severity_index :: "FindingSeverity \<Rightarrow> nat" where
  "severity_index FS_Advisory = 0"
| "severity_index FS_Low = 1"
| "severity_index FS_Medium = 2"
| "severity_index FS_High = 3"
| "severity_index FS_Critical = 4"

instantiation FindingSeverity :: linorder
begin

definition less_eq_FindingSeverity :: "FindingSeverity \<Rightarrow> FindingSeverity \<Rightarrow> bool" where
  "less_eq_FindingSeverity x y \<longleftrightarrow> severity_index x \<le> severity_index y"

definition less_FindingSeverity :: "FindingSeverity \<Rightarrow> FindingSeverity \<Rightarrow> bool" where
  "less_FindingSeverity x y \<longleftrightarrow> severity_index x < severity_index y"

instance
proof
  fix x y :: FindingSeverity
  show "x \<le> y \<Longrightarrow> y \<le> x \<Longrightarrow> x = y" by (cases x; cases y) (simp_all add: less_eq_FindingSeverity_def)
qed (auto simp: less_eq_FindingSeverity_def less_FindingSeverity_def)

end

definition MAX_ASSESSMENT_FINDINGS :: nat where "MAX_ASSESSMENT_FINDINGS = 128"
definition MAX_ASSESSMENT_EVIDENCE_REFERENCES :: nat where "MAX_ASSESSMENT_EVIDENCE_REFERENCES = 32"

text \<open>Compared by kind, then by Artifact.\<close>

type_synonym AssessmentEvidenceReference = "FactoryKey \<times> FactoryArtifactReference"

datatype AssessmentFindingKind = AK_Violation FindingSeverity | AK_EvidenceGap

record AssessmentFinding =
  af_finding :: AssessmentFindingKind
  af_summary :: rstr
  af_evidence :: "AssessmentEvidenceReference list"
  af_remediation :: rstr
  af_fingerprint :: FactoryDigest

datatype EvaluationResultFinding =
    RF_Violation FindingSeverity rstr "FactoryKey list" rstr
  | RF_EvidenceGap rstr "FactoryKey list" rstr

record BoundedSummary =
  bs_schema_version :: u16
  bs_subject :: FactoryTaskSubject
  bs_content :: rstr
  bs_content_digest :: FactoryDigest
  bs_provenance_digest :: FactoryDigest

record AssessmentProvenance =
  ap_plan_digest :: FactoryDigest
  ap_evidence_id :: uuid
  ap_criterion_packs :: "ImmutableReference list"
  ap_evaluator :: ImmutableReference
  ap_model :: ImmutableReference
  ap_prompt_digest :: FactoryDigest
  ap_result :: FactoryArtifactReference
  ap_record :: FactoryArtifactReference

record Assessment =
  as_id :: uuid
  as_plan_id :: uuid
  as_subject :: CandidateSubject
  as_outcome :: AssessmentOutcome
  as_summary :: BoundedSummary
  as_findings :: "AssessmentFinding list"
  as_provenance :: AssessmentProvenance

record 'x review_json = "'x plan_json" +
  finding_bytes :: "AssessmentFindingKind \<Rightarrow> rstr \<Rightarrow> AssessmentEvidenceReference list \<Rightarrow> rstr \<Rightarrow> u8 list option"
  assessment_bytes :: "Assessment \<Rightarrow> u8 list option"
  uuid_text :: "uuid \<Rightarrow> rstr"

definition finding_severity :: "AssessmentFinding \<Rightarrow> FindingSeverity option" where
  "finding_severity f = (case af_finding f of AK_Violation severity \<Rightarrow> Some severity | AK_EvidenceGap \<Rightarrow> None)"

definition evidence_reference_resolve :: "FactoryKey \<Rightarrow> EvidenceManifest \<Rightarrow> FactoryError + AssessmentEvidenceReference" where
  "evidence_reference_resolve kind evidence =
     map_ok (\<lambda>item. (kind, ei_artifact item))
       (ok_or (invalid_reference ''assessment finding evidence'') (evidence_item evidence kind))"

definition finding_from_parts ::
  "('x, 'm) review_json_scheme \<Rightarrow> AssessmentFindingKind \<Rightarrow> rstr \<Rightarrow> AssessmentEvidenceReference list \<Rightarrow> rstr \<Rightarrow>
     FactoryDigest option \<Rightarrow> FactoryError + AssessmentFinding"
where
  "finding_from_parts env finding summary evidence remediation expected_fingerprint =
     (if evidence = [] \<or> MAX_ASSESSMENT_EVIDENCE_REFERENCES < length evidence
      then Inl (invalid_reference ''assessment finding evidence'')
      else let evidence = sort evidence in
        if has_adjacent_duplicate (map fst evidence) then Inl (invalid_reference ''assessment finding evidence'')
        else and_then (ok_or (invalid_reference ''assessment finding serialization'')
            (finding_bytes env finding summary evidence remediation)) (\<lambda>bytes.
          let fingerprint = factory_digest_sha256 (json_sha256 env) (lit ''octacity.factory.assessment-finding.v1'') [bytes] in
          if is_some_and (\<lambda>expected. expected \<noteq> fingerprint) expected_fingerprint
          then Inl (invalid_reference ''assessment finding fingerprint'')
          else Inr \<lparr>af_finding = finding, af_summary = summary, af_evidence = evidence, af_remediation = remediation,
            af_fingerprint = fingerprint\<rparr>))"

definition finding_from_result ::
  "('x, 'm) review_json_scheme \<Rightarrow> EvaluationResultFinding \<Rightarrow> EvidenceManifest \<Rightarrow> FactoryError + AssessmentFinding"
where
  "finding_from_result env finding evidence =
     (let (kind, summary, kinds, remediation) = (case finding of
            RF_Violation severity summary kinds remediation \<Rightarrow> (AK_Violation severity, summary, kinds, remediation)
          | RF_EvidenceGap summary kinds remediation \<Rightarrow> (AK_EvidenceGap, summary, kinds, remediation))
      in and_then (try_map (\<lambda>k. evidence_reference_resolve k evidence) kinds) (\<lambda>references.
         finding_from_parts env kind summary references remediation None))"

definition validate_findings :: "AssessmentOutcome \<Rightarrow> AssessmentFinding list \<Rightarrow> FactoryError + unit" where
  "validate_findings outcome findings =
     (if MAX_ASSESSMENT_FINDINGS < length findings then Inl (FE_CollectionLimitExceeded (lit ''assessment findings''))
      else ensure (case outcome of
          AO_Satisfied \<Rightarrow> findings = []
        | AO_Violated \<Rightarrow> findings \<noteq> [] \<and> list_all (\<lambda>f. finding_severity f \<noteq> None) findings
        | AO_Indeterminate \<Rightarrow> findings \<noteq> [] \<and> list_all (\<lambda>f. finding_severity f = None) findings)
        (invalid_reference ''assessment outcome findings''))"

section \<open>Provenance\<close>

definition provenance_from_parts :: "AssessmentProvenance \<Rightarrow> FactoryError + AssessmentProvenance" where
  "provenance_from_parts parts =
     (if ap_criterion_packs parts = [] \<or> MAX_CRITERION_PACKS < length (ap_criterion_packs parts) \<or>
         far_artifact_id (ap_result parts) = far_artifact_id (ap_record parts)
      then Inl (invalid_reference ''assessment provenance'')
      else if list_ex (\<lambda>(a, b). b \<le> a) (windows2 (sort (ap_criterion_packs parts)))
      then Inl (invalid_reference ''assessment criterion packs'')
      else Inr (parts\<lparr>ap_criterion_packs := sort (ap_criterion_packs parts)\<rparr>))"

definition provenance_new ::
  "('x, 'm) plan_json_scheme \<Rightarrow> EvaluationPlan \<Rightarrow> ImmutableReference \<Rightarrow> ImmutableReference \<Rightarrow> FactoryDigest \<Rightarrow>
     FactoryArtifactReference \<Rightarrow> FactoryArtifactReference \<Rightarrow> FactoryError + AssessmentProvenance"
where
  "provenance_new env plan evaluator model prompt_digest result record_of =
     (if \<not> has_evaluator plan evaluator \<or> far_artifact_id result = far_artifact_id record_of
      then Inl (invalid_reference ''assessment provenance'')
      else and_then (evaluation_plan_digest env plan) (\<lambda>digest.
        provenance_from_parts \<lparr>ap_plan_digest = digest, ap_evidence_id = ev_evidence_id plan,
          ap_criterion_packs = map cp_reference (ev_criterion_packs plan), ap_evaluator = evaluator, ap_model = model,
          ap_prompt_digest = prompt_digest, ap_result = result, ap_record = record_of\<rparr>))"

section \<open>Assessments\<close>

record AssessmentInput =
  ai_subject :: CandidateSubject
  ai_evaluator :: ImmutableReference
  ai_outcome :: AssessmentOutcome
  ai_summary :: BoundedSummary
  ai_findings :: "AssessmentFinding list"
  ai_model :: ImmutableReference
  ai_prompt_digest :: FactoryDigest
  ai_result :: FactoryArtifactReference
  ai_provenance :: FactoryArtifactReference

definition assessment_new ::
  "('x, 'm) plan_json_scheme \<Rightarrow> uuid \<Rightarrow> EvaluationPlan \<Rightarrow> AssessmentInput \<Rightarrow> FactoryError + Assessment"
where
  "assessment_new env i plan input =
     (if ai_subject input \<noteq> ev_subject plan \<or> bs_subject (ai_summary input) \<noteq> TS_Candidate (ai_subject input)
      then Inl FE_InconsistentSubject
      else and_then (validate_findings (ai_outcome input) (ai_findings input)) (\<lambda>_.
        and_then (provenance_new env plan (ai_evaluator input) (ai_model input) (ai_prompt_digest input)
          (ai_result input) (ai_provenance input)) (\<lambda>provenance.
        Inr \<lparr>as_id = i, as_plan_id = ev_id plan, as_subject = ai_subject input, as_outcome = ai_outcome input,
          as_summary = ai_summary input, as_findings = ai_findings input, as_provenance = provenance\<rparr>)))"

definition assessment_from_wire :: "Assessment \<Rightarrow> FactoryError + Assessment" where
  "assessment_from_wire w =
     (if bs_subject (as_summary w) \<noteq> TS_Candidate (as_subject w) then Inl FE_InconsistentSubject
      else and_then (validate_findings (as_outcome w) (as_findings w)) (\<lambda>_. Inr w))"

definition as_evaluator :: "Assessment \<Rightarrow> FactoryKey" where
  "as_evaluator a = fst (ap_evaluator (as_provenance a))"

definition as_evaluator_reference :: "Assessment \<Rightarrow> ImmutableReference" where
  "as_evaluator_reference a = ap_evaluator (as_provenance a)"

definition assessment_validate_bindings ::
  "('x, 'm) plan_json_scheme \<Rightarrow> Assessment \<Rightarrow> EvaluationPlan \<Rightarrow> EvidenceManifest \<Rightarrow> FactoryError + unit"
where
  "assessment_validate_bindings env a plan evidence =
     (let refused = Inl (invalid_reference ''assessment bindings'') in
      if as_plan_id a \<noteq> ev_id plan \<or> as_subject a \<noteq> ev_subject plan then refused
      else and_then (evaluation_plan_digest env plan) (\<lambda>digest.
        if ap_plan_digest (as_provenance a) \<noteq> digest \<or> ap_evidence_id (as_provenance a) \<noteq> em_id evidence \<or>
           ev_evidence_id plan \<noteq> em_id evidence \<or> em_subject evidence \<noteq> as_subject a \<or>
           \<not> has_evaluator plan (ap_evaluator (as_provenance a))
        then refused
        else if map cp_reference (ev_criterion_packs plan) \<noteq> ap_criterion_packs (as_provenance a) \<or>
           list_ex (\<lambda>reference. case evidence_item evidence (fst reference) of
               None \<Rightarrow> True
             | Some item \<Rightarrow> ei_artifact item \<noteq> snd reference) (concat (map af_evidence (as_findings a)))
        then refused
        else Inr ()))"

definition assessment_digest :: "('x, 'm) review_json_scheme \<Rightarrow> Assessment \<Rightarrow> FactoryError + FactoryDigest" where
  "assessment_digest env a =
     map_ok (\<lambda>bytes. factory_digest_sha256 (json_sha256 env) (lit ''octacity.factory.assessment.v2'') [bytes])
       (ok_or (invalid_reference ''assessment serialization'') (assessment_bytes env a))"

end
