(* ===== verification/Review_Progress.thy ===== *)
theory Review_Progress
  imports Review_Assessment
begin

text \<open>
  Progress of an evaluation, \<^verbatim>\<open>server/core/octacity-server-factory/src/evaluation_progress.rs\<close>: the evaluator branches of a plan,
  their transitions, the immutable result of a branch, and the join that a decision consumes.
\<close>

section \<open>Branches\<close>

datatype EvaluationBranchState =
    BS_Pending | BS_AttemptCreated | BS_BuildActive | BS_ResultPending | BS_Completed | BS_RetryableFailure
  | BS_RetryRequested | BS_Failed | BS_Substituted | BS_Exhausted | BS_Missing | BS_Cancelled

type_synonym EvaluationNodeBinding = "uuid \<times> uuid \<times> FactoryDigest"

record EvaluationBranchResult =
  br_branch :: FactoryKey
  br_evaluator :: ImmutableReference
  br_assessment_id :: uuid
  br_node_attempt_id :: uuid
  br_factory_run_id :: uuid
  br_input_digest :: FactoryDigest
  br_context_manifest_id :: uuid
  br_context_digest :: FactoryDigest
  br_substituted :: bool

record EvaluationBranch =
  eb_key :: FactoryKey
  eb_required :: bool
  eb_state :: EvaluationBranchState
  eb_evaluator :: ImmutableReference
  eb_substitutes :: "ImmutableReference list"
  eb_result :: "EvaluationBranchResult option"

definition invalid_progress :: FactoryError where
  "invalid_progress = FE_InvalidLifecycle FR_Running"

definition branch_result_new ::
  "('x, 'm) factory_json_scheme \<Rightarrow> EvaluationPlan \<Rightarrow> 'x FlowNodeInput \<Rightarrow> NodeAttempt \<Rightarrow> Assessment \<Rightarrow>
     FactoryError + EvaluationBranchResult"
where
  "branch_result_new env plan input node a =
     and_then (verify_attempt env input node) (\<lambda>_.
     and_then (ok_or (invalid_reference ''evaluation node Context'') (ni_context input)) (\<lambda>context.
     and_then (ok_or (invalid_reference ''evaluation branch result evaluator'')
       (find (\<lambda>b. allows_evaluator b (as_evaluator_reference a)) (ev_branches plan))) (\<lambda>branch.
     let refused = Inl (invalid_reference ''evaluation branch result bindings'') in
     if as_plan_id a \<noteq> ev_id plan \<or> as_subject a \<noteq> ev_subject plan \<or>
        task_subject_candidate (cm_subject context) \<noteq> Some (ev_subject plan)
     then refused
     else and_then (exact_resource input) (\<lambda>exact.
       if exact \<noteq> cs_exact (ev_subject plan) then refused
       else and_then (node_input_digest env input) (\<lambda>input_digest.
         and_then (context_digest env context) (\<lambda>context_digest.
         Inr \<lparr>br_branch = rb_key branch, br_evaluator = as_evaluator_reference a, br_assessment_id = as_id a,
           br_node_attempt_id = na_id node, br_factory_run_id = ni_factory_run_id input, br_input_digest = input_digest,
           br_context_manifest_id = cm_id context, br_context_digest = context_digest,
           br_substituted = (as_evaluator_reference a \<noteq> rb_evaluator branch)\<rparr>))))))"

definition branch_from_review_branch :: "ReviewBranch \<Rightarrow> EvaluationBranch" where
  "branch_from_review_branch b = \<lparr>eb_key = rb_key b, eb_required = rb_required b, eb_state = BS_Pending,
     eb_evaluator = rb_evaluator b, eb_substitutes = rb_substitutes b, eb_result = None\<rparr>"

text \<open>The result a completed or substituted branch carries.\<close>

definition branch_result_fits :: "EvaluationBranch \<Rightarrow> bool" where
  "branch_result_fits b \<longleftrightarrow>
     (let result_state = (case eb_state b of BS_Completed \<Rightarrow> Some False | BS_Substituted \<Rightarrow> Some True | _ \<Rightarrow> None) in
      case (result_state, eb_result b) of
        (Some substituted, Some result) \<Rightarrow>
          br_branch result = eb_key b \<and> br_substituted result = substituted \<and>
          (if substituted then br_evaluator result \<noteq> eb_evaluator b \<and> br_evaluator result \<in> set (eb_substitutes b)
           else br_evaluator result = eb_evaluator b)
      | (None, None) \<Rightarrow> True
      | _ \<Rightarrow> False)"

definition branch_from_wire :: "EvaluationBranch \<Rightarrow> FactoryError + EvaluationBranch" where
  "branch_from_wire w =
     (let w = w\<lparr>eb_substitutes := sort (eb_substitutes w)\<rparr> in
      if has_adjacent_duplicate (eb_substitutes w) \<or> eb_evaluator w \<in> set (eb_substitutes w) then Inl invalid_progress
      else if branch_result_fits w then Inr w else Inl invalid_progress)"

definition with_state :: "EvaluationBranch \<Rightarrow> EvaluationBranchState \<Rightarrow> EvaluationBranch" where
  "with_state b state = b\<lparr>eb_state := state\<rparr>"

definition with_result :: "EvaluationBranch \<Rightarrow> EvaluationBranchResult \<Rightarrow> FactoryError + EvaluationBranch" where
  "with_result b result =
     (if br_branch result \<noteq> eb_key b \<or> eb_result b \<noteq> None then Inl invalid_progress
      else if br_evaluator result = eb_evaluator b \<and> \<not> br_substituted result
      then Inr (b\<lparr>eb_state := BS_Completed, eb_result := Some result\<rparr>)
      else if br_evaluator result \<noteq> eb_evaluator b \<and> br_substituted result \<and> br_evaluator result \<in> set (eb_substitutes b)
      then Inr (b\<lparr>eb_state := BS_Substituted, eb_result := Some result\<rparr>)
      else Inl invalid_progress)"

definition valid_branch_transition :: "EvaluationBranchState \<Rightarrow> EvaluationBranchState \<Rightarrow> bool" where
  "valid_branch_transition previous next_state \<longleftrightarrow>
     (case previous of
        BS_Pending \<Rightarrow> next_state = BS_AttemptCreated
      | BS_RetryRequested \<Rightarrow> next_state = BS_AttemptCreated
      | BS_RetryableFailure \<Rightarrow> next_state \<in> {BS_RetryRequested, BS_Exhausted}
      | BS_AttemptCreated \<Rightarrow> next_state = BS_BuildActive
      | BS_BuildActive \<Rightarrow> next_state \<in> {BS_ResultPending, BS_Completed, BS_RetryableFailure, BS_Failed, BS_Missing, BS_Cancelled}
      | BS_ResultPending \<Rightarrow> next_state \<in> {BS_Completed, BS_Substituted}
      | _ \<Rightarrow> False)"

section \<open>Progress\<close>

record EvaluationProgress =
  pg_branches :: "EvaluationBranch list"
  pg_required_quorum :: u16

definition progress_try_new :: "EvaluationBranch list \<Rightarrow> u16 \<Rightarrow> FactoryError + EvaluationProgress" where
  "progress_try_new branches quorum =
     (if branches = [] \<or> MAX_EVALUATORS < length branches \<or> quorum = 0 \<or> length branches < unat quorum \<or>
         \<not> distinct (map eb_key branches)
      then Inl invalid_progress
      else Inr \<lparr>pg_branches = sort_key eb_key branches, pg_required_quorum = quorum\<rparr>)"

definition progress_from_plan :: "EvaluationPlan \<Rightarrow> FactoryError + EvaluationProgress" where
  "progress_from_plan plan = progress_try_new (map branch_from_review_branch (ev_branches plan)) (ev_required_quorum plan)"

definition replace_branch :: "EvaluationProgress \<Rightarrow> FactoryKey \<Rightarrow> EvaluationBranch \<Rightarrow> FactoryError + EvaluationProgress" where
  "replace_branch p key replacement =
     progress_try_new (map (\<lambda>b. if eb_key b = key then replacement else b) (pg_branches p)) (pg_required_quorum p)"

definition advance_branch ::
  "EvaluationProgress \<Rightarrow> FactoryKey \<Rightarrow> EvaluationBranchState \<Rightarrow> FactoryError + EvaluationProgress"
where
  "advance_branch p key next_state =
     (case find (\<lambda>b. eb_key b = key) (pg_branches p) of
        None \<Rightarrow> Inl invalid_progress
      | Some current \<Rightarrow>
          if next_state \<in> {BS_Completed, BS_Substituted} \<or> \<not> valid_branch_transition (eb_state current) next_state
          then Inl invalid_progress
          else replace_branch p key (with_state current next_state))"

definition record_result :: "EvaluationProgress \<Rightarrow> EvaluationBranchResult \<Rightarrow> FactoryError + EvaluationProgress" where
  "record_result p result =
     (case find (\<lambda>b. eb_key b = br_branch result) (pg_branches p) of
        None \<Rightarrow> Inl invalid_progress
      | Some current \<Rightarrow>
          if eb_state current \<noteq> BS_ResultPending then Inl invalid_progress
          else and_then (with_result current result) (\<lambda>replacement. replace_branch p (eb_key current) replacement))"

definition exhaust_branch :: "EvaluationProgress \<Rightarrow> FactoryKey \<Rightarrow> FactoryError + EvaluationProgress" where
  "exhaust_branch p key = advance_branch p key BS_Exhausted"

definition validate_plan_binding :: "EvaluationProgress \<Rightarrow> EvaluationPlan \<Rightarrow> bool \<Rightarrow> FactoryError + unit" where
  "validate_plan_binding p plan require_terminal_results =
     and_then (progress_from_plan plan) (\<lambda>planned.
     ensure (\<not> (length (pg_branches p) \<noteq> length (pg_branches planned) \<or> pg_required_quorum p \<noteq> pg_required_quorum planned \<or>
         list_ex (\<lambda>(actual, expected). eb_key actual \<noteq> eb_key expected \<or> eb_required actual \<noteq> eb_required expected \<or>
             eb_evaluator actual \<noteq> eb_evaluator expected \<or> eb_substitutes actual \<noteq> eb_substitutes expected \<or>
             (require_terminal_results \<and> eb_state actual \<in> {BS_Completed, BS_Substituted} \<and> eb_result actual = None))
           (zip (pg_branches p) (pg_branches planned))))
       invalid_progress)"

definition branch_open :: "EvaluationBranchState \<Rightarrow> bool" where
  "branch_open s \<longleftrightarrow>
     s \<in> {BS_Pending, BS_AttemptCreated, BS_BuildActive, BS_ResultPending, BS_RetryableFailure, BS_RetryRequested}"

text \<open>The second component is the set of node bindings, listed in branch order.\<close>

definition decision_bindings ::
  "EvaluationProgress \<Rightarrow> EvaluationPlan \<Rightarrow> FactoryError + uuid list \<times> EvaluationNodeBinding list"
where
  "decision_bindings p plan =
     and_then (validate_plan_binding p plan False) (\<lambda>_.
     if list_ex (\<lambda>b. branch_open (eb_state b)) (pg_branches p) \<or>
        list_ex (\<lambda>b. eb_required b \<and> eb_state b \<notin> {BS_Completed, BS_Substituted}) (pg_branches p)
     then Inl invalid_progress
     else let results = List.map_filter eb_result (pg_branches p); ids = map br_assessment_id results in
       if length ids < unat (pg_required_quorum p) \<or> \<not> distinct ids then Inl invalid_progress
       else Inr (ids, map (\<lambda>r. (br_factory_run_id r, br_node_attempt_id r, br_input_digest r)) results))"

definition decision_assessment_ids :: "EvaluationProgress \<Rightarrow> EvaluationPlan \<Rightarrow> FactoryError + uuid list" where
  "decision_assessment_ids p plan = map_ok fst (decision_bindings p plan)"

definition progress_validate_bindings ::
  "('x, 'm) factory_json_scheme \<Rightarrow> EvaluationProgress \<Rightarrow> EvaluationPlan \<Rightarrow> 'x FlowNodeInput list \<Rightarrow> NodeAttempt list \<Rightarrow>
     Assessment list \<Rightarrow> FactoryError + unit"
where
  "progress_validate_bindings env p plan inputs nodes assessments =
     and_then (validate_plan_binding p plan True) (\<lambda>_.
     try_each (\<lambda>result.
       and_then (ok_or invalid_progress (find (\<lambda>i. node_input_digest env i = Inr (br_input_digest result)) inputs)) (\<lambda>input.
       and_then (ok_or invalid_progress (find (\<lambda>n. na_id n = br_node_attempt_id result) nodes)) (\<lambda>node.
       and_then (ok_or invalid_progress (find (\<lambda>a. as_id a = br_assessment_id result) assessments)) (\<lambda>a.
       and_then (branch_result_new env plan input node a) (\<lambda>expected.
       ensure (expected = result) invalid_progress)))))
       (List.map_filter eb_result (pg_branches p)))"

datatype DecisionOutcome = DO_Accept | DO_Rework | DO_Reject | DO_Escalate | DO_Cancel

datatype EvaluationState = ES_PlanRequired | ES_Branches EvaluationProgress | ES_DecisionRecorded uuid DecisionOutcome

end
