(* ===== verification/Decision_Engine.thy ===== *)
theory Decision_Engine
  imports Review_Progress
begin

text \<open>
  Deterministic decisions, \<^verbatim>\<open>server/core/octacity-server-factory/src/decision_engine.rs\<close> and \<^verbatim>\<open>evaluation.rs\<close>: the immutable policy,
  the inputs of one decision with their validation, the reasons against acceptance and the recorded
  decision with the check of its bindings. A panic (\<^verbatim>\<open>expect\<close> on a serialization) is \<open>None\<close>.
\<close>

section \<open>Policies\<close>

definition MAX_DECISION_ASSESSMENTS :: nat where "MAX_DECISION_ASSESSMENTS = 64"
definition MAX_DECISION_SIGNAL_RECEIPTS :: nat where "MAX_DECISION_SIGNAL_RECEIPTS = 64"
definition MAX_DECISION_REASONS :: nat where "MAX_DECISION_REASONS = MAX_CRITERION_PACKS + MAX_EVALUATORS + 1"

datatype IndeterminatePolicy = IP_RequiredOnly | IP_Any

definition indeterminate_policy_as_str :: "IndeterminatePolicy \<Rightarrow> rstr" where
  "indeterminate_policy_as_str p = lit (case p of IP_RequiredOnly \<Rightarrow> ''required_only'' | IP_Any \<Rightarrow> ''any'')"

definition decision_outcome_as_str :: "DecisionOutcome \<Rightarrow> rstr" where
  "decision_outcome_as_str d = lit (case d of DO_Accept \<Rightarrow> ''accept'' | DO_Rework \<Rightarrow> ''rework'' | DO_Reject \<Rightarrow> ''reject''
     | DO_Escalate \<Rightarrow> ''escalate'' | DO_Cancel \<Rightarrow> ''cancel'')"

record DecisionPolicyDefinition =
  df_required_evidence :: "FactoryKey list"
  df_required_evaluators :: "FactoryKey list"
  df_quorum :: u16
  df_severity_threshold :: FindingSeverity
  df_indeterminate_policy :: IndeterminatePolicy
  df_failure_outcome :: DecisionOutcome

record DecisionPolicy =
  dp_version :: u64
  dp_digest :: FactoryDigest
  dp_required_evidence :: "FactoryKey list"
  dp_required_evaluators :: "FactoryKey list"
  dp_quorum :: u16
  dp_severity_threshold :: FindingSeverity
  dp_indeterminate_policy :: IndeterminatePolicy
  dp_failure_outcome :: DecisionOutcome

definition validate_policy_keys :: "FactoryKey list \<Rightarrow> nat \<Rightarrow> string \<Rightarrow> FactoryError + unit" where
  "validate_policy_keys keys maximum field =
     ensure (\<not> (keys = [] \<or> maximum < length keys \<or> \<not> distinct keys)) (FE_InvalidDecisionPolicy (lit field))"

definition digest_policy :: "('x, 'm) factory_json_scheme \<Rightarrow> DecisionPolicyDefinition \<Rightarrow> FactoryDigest" where
  "digest_policy env d =
     factory_digest_sha256 (json_sha256 env) (lit ''octacity.decision-policy.v1'')
       ([be_bytes 2 (df_quorum d), as_bytes (finding_severity_as_str (df_severity_threshold d)),
         as_bytes (indeterminate_policy_as_str (df_indeterminate_policy d)),
         as_bytes (decision_outcome_as_str (df_failure_outcome d))] @
        map (\<lambda>key. as_bytes (nul_text [lit ''evidence'', key])) (df_required_evidence d) @
        map (\<lambda>key. as_bytes (nul_text [lit ''evaluator'', key])) (df_required_evaluators d))"

definition decision_policy_try_new ::
  "('x, 'm) factory_json_scheme \<Rightarrow> u64 \<Rightarrow> DecisionPolicyDefinition \<Rightarrow> FactoryError + DecisionPolicy"
where
  "decision_policy_try_new env version d =
     and_then (validate_policy_keys (df_required_evidence d) MAX_CRITERION_PACKS ''required_evidence'') (\<lambda>_.
     and_then (validate_policy_keys (df_required_evaluators d) MAX_EVALUATORS ''required_evaluators'') (\<lambda>_.
     if df_quorum d = 0 \<or> MAX_EVALUATORS < unat (df_quorum d) then Inl (FE_InvalidDecisionPolicy (lit ''quorum''))
     else if df_failure_outcome d = DO_Accept then Inl (FE_InvalidDecisionPolicy (lit ''failure_outcome''))
     else let d = d\<lparr>df_required_evidence := sort (df_required_evidence d), df_required_evaluators := sort (df_required_evaluators d)\<rparr>
       in Inr \<lparr>dp_version = version, dp_digest = digest_policy env d, dp_required_evidence = df_required_evidence d,
            dp_required_evaluators = df_required_evaluators d, dp_quorum = df_quorum d,
            dp_severity_threshold = df_severity_threshold d, dp_indeterminate_policy = df_indeterminate_policy d,
            dp_failure_outcome = df_failure_outcome d\<rparr>))"

section \<open>Inputs\<close>

record DecisionEngineInput =
  di_evidence :: EvidenceManifest
  di_plan :: EvaluationPlan
  di_policy :: DecisionPolicy
  di_assessments :: "Assessment list"
  di_signal_receipts :: "DecisionSignalReceipt list"
  di_signal_nodes :: "EvaluationNodeBinding list"

definition from_completed_evaluation ::
  "EvidenceManifest \<Rightarrow> EvaluationPlan \<Rightarrow> DecisionPolicy \<Rightarrow> EvaluationProgress \<Rightarrow> Assessment list \<Rightarrow>
     DecisionSignalReceipt list \<Rightarrow> FactoryError + DecisionEngineInput"
where
  "from_completed_evaluation evidence plan policy p assessments receipts =
     and_then (decision_bindings p plan) (\<lambda>(accepted, nodes).
     and_then (try_map (\<lambda>i. ok_or (invalid_reference ''evaluation decision assessment'')
       (find (\<lambda>a. as_id a = i) assessments)) accepted) (\<lambda>selected.
     Inr \<lparr>di_evidence = evidence, di_plan = plan, di_policy = policy, di_assessments = selected,
       di_signal_receipts = receipts, di_signal_nodes = nodes\<rparr>))"

definition receipt_node :: "DecisionSignalReceipt \<Rightarrow> EvaluationNodeBinding" where
  "receipt_node r = (let q = pq_request (dr_request r) in (rq_run_id q, rq_node_attempt_id q, rq_frozen_input_digest q))"

text \<open>The checks of one receipt.\<close>

definition receipt_bound ::
  "('x, 'm) signal_json_scheme \<Rightarrow> ExactSubject \<Rightarrow> EvaluationNodeBinding list \<Rightarrow> DecisionSignalReceipt \<Rightarrow> bool"
where
  "receipt_bound env exact nodes r \<longleftrightarrow>
     work_subject_is (rq_subject (pq_request (dr_request r))) exact \<and> rq_purpose (pq_request (dr_request r)) = SP_Routing \<and>
     receipt_node r \<in> set nodes \<and> is_ok (validate_receipt_integrity env r)"

definition validate_signal_receipts ::
  "('x, 'm) signal_json_scheme \<Rightarrow> EvaluationPlan \<Rightarrow> DecisionSignalReceipt list \<Rightarrow> EvaluationNodeBinding list \<Rightarrow> FactoryError + unit"
where
  "validate_signal_receipts env plan receipts nodes =
     ensure (\<not> (list_ex (\<lambda>r. \<not> receipt_bound env (cs_exact (ev_subject plan)) nodes r) receipts \<or>
         \<not> distinct (map dr_id receipts) \<or> \<not> distinct (map (\<lambda>r. rq_id (pq_request (dr_request r))) receipts)))
       (invalid_reference ''decision signal receipt'')"

definition validate_assessments ::
  "('x, 'm) plan_json_scheme \<Rightarrow> EvaluationPlan \<Rightarrow> EvidenceManifest \<Rightarrow> Assessment list \<Rightarrow> FactoryError + unit"
where
  "validate_assessments env plan evidence assessments =
     (if list_ex (\<lambda>a. as_plan_id a \<noteq> ev_id plan \<or> as_subject a \<noteq> ev_subject plan) assessments
      then Inl FE_InconsistentSubject
      else if \<not> distinct (map as_id assessments) \<or> \<not> distinct (map as_evaluator assessments)
      then Inl (invalid_reference ''decision assessment'')
      else try_each (\<lambda>a. assessment_validate_bindings env a plan evidence) assessments)"

definition validate_input :: "('x, 'm) plan_json_scheme \<Rightarrow> DecisionEngineInput \<Rightarrow> FactoryError + unit" where
  "validate_input env input =
     (let plan = di_plan input; policy = di_policy input in
      if ev_evidence_id plan \<noteq> em_id (di_evidence input) \<or> ev_subject plan \<noteq> em_subject (di_evidence input)
      then Inl FE_InconsistentSubject
      else if dp_quorum policy \<noteq> ev_required_quorum plan \<or> evaluator_count plan < unat (dp_quorum policy) \<or>
         list_ex (\<lambda>e. \<not> has_evaluator_identity plan e) (dp_required_evaluators policy)
      then Inl (FE_InvalidDecisionPolicy (lit ''evaluation_plan''))
      else if MAX_DECISION_ASSESSMENTS < length (di_assessments input)
      then Inl (FE_CollectionLimitExceeded (lit ''decision assessments''))
      else if MAX_DECISION_SIGNAL_RECEIPTS < length (di_signal_receipts input)
      then Inl (FE_CollectionLimitExceeded (lit ''decision signal receipts''))
      else and_then (validate_assessments env plan (di_evidence input) (di_assessments input)) (\<lambda>_.
        validate_signal_receipts env plan (di_signal_receipts input) (di_signal_nodes input)))"

definition encode_evidence_item :: "('x, 'm) review_json_scheme \<Rightarrow> EvidenceItem \<Rightarrow> u8 list" where
  "encode_evidence_item env item =
     (let producer = ei_producer item; reference = (\<lambda>r :: ImmutableReference. [fst r, fst (snd r), digest_display (snd (snd r))]) in
      as_bytes (nul_text ([lit ''evidence'', ei_kind item, evidence_output_kind_as_str (ei_output_kind item),
          uuid_text env (far_artifact_id (ei_artifact item)), digest_display (far_content_digest (ei_artifact item))] @
        reference (ei_schema item) @
        [uuid_text env (ep_build_id producer), uuid_text env (ep_attempt_id producer), uuid_text env (ep_job_id producer)] @
        reference (ep_tool producer) @ reference (ep_plugin producer) @
        [signal_int_text (ei_published_at item), signal_int_text (ei_fresh_until item), gate_outcome_as_str (ei_outcome item)])))"

definition encode_signal_receipt :: "DecisionSignalReceipt \<Rightarrow> u8 list" where
  "encode_signal_receipt r = be_bytes 16 (dr_id r) @ dr_digest r"

fun encode_assessments :: "('x, 'm) review_json_scheme \<Rightarrow> Assessment list \<Rightarrow> u8 list list option" where
  "encode_assessments env [] = Some []"
| "encode_assessments env (a # as) =
     Option.bind (assessment_bytes env a) (\<lambda>bytes. map_option (\<lambda>rest. bytes # rest) (encode_assessments env as))"

definition digest_decision_input ::
  "('x, 'm) review_json_scheme \<Rightarrow> DecisionEngineInput \<Rightarrow> (FactoryError + FactoryDigest) option"
where
  "digest_decision_input env input =
     also_then (Some (evaluation_plan_digest env (di_plan input))) (\<lambda>plan_digest.
     map_option (\<lambda>assessments. Inr (factory_digest_sha256 (json_sha256 env) (lit ''octacity.decision-engine.input.v3'')
         ([be_bytes 16 (em_id (di_evidence input)), be_bytes 16 (ev_id (di_plan input)),
           cs_changeset_digest (em_subject (di_evidence input)), dp_digest (di_policy input), plan_digest] @
          map (encode_evidence_item env) (em_items (di_evidence input)) @ sort assessments @
          sort (map encode_signal_receipt (di_signal_receipts input)))))
       (encode_assessments env (di_assessments input)))"

section \<open>Reasons\<close>

datatype DecisionReason =
    PolicySatisfied
  | RequiredEvidenceMissing FactoryKey
  | RequiredEvidenceFailed FactoryKey
  | RequiredEvidenceIndeterminate FactoryKey
  | RequiredAssessmentMissing FactoryKey
  | AssessmentIndeterminate FactoryKey
  | SeverityThresholdExceeded FactoryKey FindingSeverity
  | QuorumNotMet u16 u16

definition evaluate_required_evidence :: "DecisionPolicy \<Rightarrow> (FactoryKey, EvidenceItem) btree \<Rightarrow> DecisionReason list" where
  "evaluate_required_evidence policy gates =
     List.map_filter (\<lambda>key. case map_option ei_outcome (bt_get gates key) of
         None \<Rightarrow> Some (RequiredEvidenceMissing key)
       | Some GO_Failed \<Rightarrow> Some (RequiredEvidenceFailed key)
       | Some GO_Indeterminate \<Rightarrow> Some (RequiredEvidenceIndeterminate key)
       | Some GO_Passed \<Rightarrow> None) (dp_required_evidence policy)"

text \<open>The greatest severity of an iterator, if it yields any.\<close>

definition max_severity :: "FindingSeverity list \<Rightarrow> FindingSeverity option" where
  "max_severity severities = (case severities of [] \<Rightarrow> None | s # rest \<Rightarrow> Some (fold max rest s))"

definition assessment_reason :: "DecisionPolicy \<Rightarrow> FactoryKey \<times> Assessment \<Rightarrow> DecisionReason option" where
  "assessment_reason policy entry =
     (case as_outcome (snd entry) of
        AO_Indeterminate \<Rightarrow>
          if fst entry \<in> set (dp_required_evaluators policy) \<or> dp_indeterminate_policy policy = IP_Any
          then Some (AssessmentIndeterminate (fst entry)) else None
      | AO_Violated \<Rightarrow>
          (case max_severity (List.map_filter finding_severity (as_findings (snd entry))) of
             Some severity \<Rightarrow>
               if dp_severity_threshold policy \<le> severity then Some (SeverityThresholdExceeded (fst entry) severity) else None
           | None \<Rightarrow> None)
      | AO_Satisfied \<Rightarrow> None)"

definition evaluate_assessments :: "DecisionPolicy \<Rightarrow> (FactoryKey, Assessment) btree \<Rightarrow> DecisionReason list" where
  "evaluate_assessments policy assessments =
     map RequiredAssessmentMissing (filter (\<lambda>e. bt_get assessments e = None) (dp_required_evaluators policy)) @
     List.map_filter (assessment_reason policy) assessments"

section \<open>Decisions\<close>

record Decision =
  de_id :: uuid
  de_plan_id :: uuid
  de_subject :: CandidateSubject
  de_outcome :: DecisionOutcome
  de_assessment_ids :: "uuid list"
  de_signal_receipt_ids :: "uuid list"
  de_reasons :: "DecisionReason list"
  de_input_digest :: FactoryDigest
  de_policy_version :: u64
  de_policy_digest :: FactoryDigest

definition decision_from_engine ::
  "uuid \<Rightarrow> EvaluationPlan \<Rightarrow> DecisionOutcome \<Rightarrow> Assessment list \<Rightarrow> DecisionSignalReceipt list \<Rightarrow> DecisionReason list \<Rightarrow>
     FactoryDigest \<Rightarrow> u64 \<Rightarrow> FactoryDigest \<Rightarrow> FactoryError + Decision"
where
  "decision_from_engine i plan outcome assessments receipts reasons input_digest version policy_digest =
     (if MAX_DECISION_ASSESSMENTS < length assessments then Inl (FE_CollectionLimitExceeded (lit ''decision assessments''))
      else if MAX_DECISION_SIGNAL_RECEIPTS < length receipts
      then Inl (FE_CollectionLimitExceeded (lit ''decision signal receipts''))
      else and_then (validate_review_count (length reasons) 1 MAX_DECISION_REASONS ''decision reasons'') (\<lambda>_.
        if list_ex (\<lambda>a. as_plan_id a \<noteq> ev_id plan \<or> as_subject a \<noteq> ev_subject plan) assessments
        then Inl FE_InconsistentSubject
        else if \<not> distinct (map as_id assessments) then Inl (invalid_reference ''decision assessment'')
        else if \<not> distinct (map dr_id receipts) then Inl (invalid_reference ''decision signal receipt'')
        else Inr \<lparr>de_id = i, de_plan_id = ev_id plan, de_subject = ev_subject plan, de_outcome = outcome,
          de_assessment_ids = map as_id assessments, de_signal_receipt_ids = map dr_id receipts, de_reasons = reasons,
          de_input_digest = input_digest, de_policy_version = version, de_policy_digest = policy_digest\<rparr>))"

definition collect_by :: "('a \<Rightarrow> 'k::linorder) \<Rightarrow> 'a list \<Rightarrow> ('k, 'a) btree" where
  "collect_by key xs = fold (\<lambda>(k, v). bt_insert k v) (map (\<lambda>x. (key x, x)) xs) []"

definition decision_reasons :: "DecisionEngineInput \<Rightarrow> DecisionReason list" where
  "decision_reasons input =
     evaluate_required_evidence (di_policy input) (collect_by ei_kind (em_items (di_evidence input))) @
     evaluate_assessments (di_policy input) (collect_by as_evaluator (di_assessments input)) @
     (if length (di_assessments input) < unat (dp_quorum (di_policy input))
      then [QuorumNotMet (dp_quorum (di_policy input)) (of_nat (length (di_assessments input)))] else [])"

definition evaluate_decision ::
  "('x, 'm) review_json_scheme \<Rightarrow> uuid \<Rightarrow> DecisionEngineInput \<Rightarrow> (FactoryError + Decision) option"
where
  "evaluate_decision env i input =
     also_then (Some (validate_input env input)) (\<lambda>_.
     also_then (digest_decision_input env input) (\<lambda>input_digest.
     let reasons = decision_reasons input;
         (outcome, reasons) = (if reasons = [] then (DO_Accept, [PolicySatisfied])
           else (dp_failure_outcome (di_policy input), reasons))
     in Some (decision_from_engine i (di_plan input) outcome (bt_values (collect_by as_evaluator (di_assessments input)))
          (sort_key dr_id (di_signal_receipts input)) reasons input_digest
          (dp_version (di_policy input)) (dp_digest (di_policy input)))))"

definition decision_validate_bindings ::
  "('x, 'm) signal_json_scheme \<Rightarrow> Decision \<Rightarrow> EvaluationPlan \<Rightarrow> EvaluationProgress \<Rightarrow> Assessment list \<Rightarrow>
     DecisionSignalReceipt list \<Rightarrow> FactoryError + unit"
where
  "decision_validate_bindings env d plan p assessments receipts =
     (if de_plan_id d \<noteq> ev_id plan \<or> de_subject d \<noteq> ev_subject plan then Inl FE_InconsistentSubject
      else and_then (decision_bindings p plan) (\<lambda>(accepted, nodes).
        if set accepted \<noteq> set (de_assessment_ids d) then Inl (invalid_reference ''decision completed join'')
        else ensure (distinct (de_assessment_ids d) \<and> distinct (de_signal_receipt_ids d) \<and>
            list_all (\<lambda>i. is_some_and (\<lambda>a. as_plan_id a = de_plan_id d \<and> as_subject a = de_subject d \<and>
                list_ex (\<lambda>b. allows_evaluator b (as_evaluator_reference a)) (ev_branches plan))
              (map_of (rev (map (\<lambda>a. (as_id a, a)) assessments)) i)) (de_assessment_ids d) \<and>
            list_all (\<lambda>i. is_some_and (receipt_bound env (cs_exact (de_subject d)) nodes)
              (map_of (rev (map (\<lambda>r. (dr_id r, r)) receipts)) i)) (de_signal_receipt_ids d))
          (invalid_reference ''decision inputs'')))"

end
