(* ===== verification/Review_Correct.thy ===== *)
theory Review_Correct
  imports Review_Progress "HOL-Library.Multiset"
begin

text \<open>
  Properties of review plans and of the progress of an evaluation: what a prepared plan guarantees and
  when preparation escalates, and what every run of branch transitions keeps.
\<close>

section \<open>Canonical lists\<close>

lemma strict_of_sort_key: "distinct (map f xs) \<Longrightarrow> sorted_wrt (<) (map f (sort_key f xs))"
  by (simp add: strict_sorted_iff distinct_map inj_on_def)

lemma sort_key_fixed: "sorted_wrt (<) (map f xs) \<Longrightarrow> sort_key f xs = xs"
  by (simp add: sort_key_id_if_sorted strict_sorted_iff)

lemma mset_sort_map: "mset (map g (sort_key f xs)) = mset (map g xs)"
  by (metis mset_map mset_sort)

lemma distinct_sort_map [simp]: "distinct (map g (sort_key f xs)) \<longleftrightarrow> distinct (map g xs)"
  using mset_sort_map by (rule mset_eq_imp_distinct_iff)

lemma mset_sort_concat: "mset (concat (map g (sort_key f xs))) = mset (concat (map g xs))"
  by (simp add: mset_concat flip: sum_mset_sum_list)

lemma length_sort_concat: "length (concat (map g (sort_key f xs))) = length (concat (map g xs))"
  using arg_cong [OF mset_sort_concat, of size] by (simp only: size_mset)

lemma distinct_sort_concat [simp]:
  "distinct (map h (concat (map g (sort_key f xs)))) \<longleftrightarrow> distinct (map h (concat (map g xs)))"
  by (rule mset_eq_imp_distinct_iff) (simp only: mset_map mset_sort_concat)

lemma length_filter_sort [simp]: "length (filter P (sort_key f xs)) = length (filter P xs)"
  by (metis mset_filter mset_sort size_mset)

section \<open>Plans\<close>

text \<open>The shape every plan has, whatever the order of its lists.\<close>

definition plan_shape :: "EvaluationPlan \<Rightarrow> bool" where
  "plan_shape plan \<longleftrightarrow>
     (\<forall>pack\<in>set (ev_criterion_packs plan). cp_project_id pack = es_project_id (cs_exact (ev_subject plan))) \<and>
     elapsed_ok (ev_created_at plan) (ev_deadline plan) (ev_budget plan) \<and>
     1 \<le> length (ev_criterion_packs plan) \<and> length (ev_criterion_packs plan) \<le> MAX_CRITERION_PACKS \<and>
     1 \<le> length (ev_branches plan) \<and> length (ev_branches plan) \<le> MAX_EVALUATORS \<and>
     ev_required_quorum plan \<noteq> 0 \<and> unat (ev_required_quorum plan) \<le> length (ev_branches plan) \<and>
     length (filter rb_required (ev_branches plan)) \<le> unat (ev_required_quorum plan) \<and>
     distinct (map cp_reference (ev_criterion_packs plan)) \<and>
     distinct (map (\<lambda>p. fst (cp_reference p)) (ev_criterion_packs plan)) \<and>
     distinct (map rb_key (ev_branches plan)) \<and>
     distinct (concat (map branch_evaluators (ev_branches plan))) \<and>
     distinct (map fst (concat (map branch_evaluators (ev_branches plan))))"

text \<open>A canonical plan also has its criteria and branches in strictly increasing order.\<close>

definition plan_ok :: "EvaluationPlan \<Rightarrow> bool" where
  "plan_ok plan \<longleftrightarrow> plan_shape plan \<and>
     sorted_wrt (<) (map cp_reference (ev_criterion_packs plan)) \<and> sorted_wrt (<) (map rb_key (ev_branches plan))"

lemma u16_of_count: "n < 2 ^ 16 \<Longrightarrow> unat (of_nat n :: u16) = n"
  by (simp add: unsigned_of_nat take_bit_nat_eq_self)

lemma u16_try_from_iff [res_simps]: "u16_try_from n c = Inr v \<longleftrightarrow> n < 2 ^ 16 \<and> v = of_nat n"
  by (auto simp: u16_try_from_def)

lemma validate_review_count_iff [res_simps]: "validate_review_count n lo hi c = Inr u \<longleftrightarrow> lo \<le> n \<and> n \<le> hi"
  by (auto simp: validate_review_count_def)

lemma validate_branch_evaluators_iff [res_simps]:
  "validate_branch_evaluators branches = Inr u \<longleftrightarrow>
     distinct (concat (map branch_evaluators branches)) \<and> distinct (map fst (concat (map branch_evaluators branches)))"
  by (auto simp: validate_branch_evaluators_def res_simps)

lemma validate_plan_shape_iff: "validate_plan_shape w = Inr () \<longleftrightarrow> plan_shape w"
proof -
  have small: "length (filter rb_required (ev_branches w)) < 2 ^ 16 \<and> length (ev_branches w) < 2 ^ 16"
    if "length (ev_branches w) \<le> MAX_EVALUATORS"
    using that le_trans [OF length_filter_le [of rb_required "ev_branches w"] that] by (simp add: MAX_EVALUATORS_def)
  show ?thesis
  proof (cases "length (ev_branches w) \<le> MAX_EVALUATORS")
    case True
    with small have "unat (of_nat (length (filter rb_required (ev_branches w))) :: u16) = length (filter rb_required (ev_branches w))"
      "unat (of_nat (length (ev_branches w)) :: u16) = length (ev_branches w)" by (simp_all add: u16_of_count)
    with small [OF True] show ?thesis
      by (auto simp: validate_plan_shape_def plan_shape_def res_simps list_ex_iff word_less_nat_alt not_less split: if_splits)
  next
    case False
    then show ?thesis by (auto simp: validate_plan_shape_def plan_shape_def res_simps split: if_splits)
  qed
qed

lemma plan_from_parts_iff:
  "evaluation_plan_from_parts w = Inr plan \<longleftrightarrow>
     plan_shape w \<and> plan = w\<lparr>ev_criterion_packs := sort_key cp_reference (ev_criterion_packs w),
       ev_branches := sort_key rb_key (ev_branches w)\<rparr>"
  by (auto simp: evaluation_plan_from_parts_def res_simps validate_plan_shape_iff [symmetric])

lemma plan_from_parts_ok:
  assumes "evaluation_plan_from_parts w = Inr plan"
  shows "plan_ok plan" and "evaluation_plan_from_parts plan = Inr plan"
proof -
  have shape: "plan_shape plan" "distinct (map cp_reference (ev_criterion_packs w))" "distinct (map rb_key (ev_branches w))"
    and plan: "plan = w\<lparr>ev_criterion_packs := sort_key cp_reference (ev_criterion_packs w), ev_branches := sort_key rb_key (ev_branches w)\<rparr>"
    using assms distinct_sort_concat [of id branch_evaluators rb_key "ev_branches w"]
    by (auto simp: plan_from_parts_iff plan_shape_def)
  then show ok: "plan_ok plan" by (simp add: plan_ok_def strict_of_sort_key)
  then show "evaluation_plan_from_parts plan = Inr plan" by (simp add: plan_from_parts_iff plan_ok_def sort_key_fixed)
qed

section \<open>Preparation\<close>

text \<open>A capability is advertised for some exact evaluator of the branch, under the purpose, data handling and budget
  of the plan.\<close>

definition dispatchable :: "EvaluationPlanDefinition \<Rightarrow> ReviewEvaluatorCapability list \<Rightarrow> ReviewBranch \<Rightarrow> bool" where
  "dispatchable d capabilities b \<longleftrightarrow> (\<exists>c\<in>set capabilities. allows_evaluator b (rc_evaluator c) \<and>
     pd_purpose d \<in> set (rc_purposes c) \<and> pd_data_handling d \<in> set (rc_data_handling c) \<and>
     fits_within (pd_budget d) (rc_budget_ceiling c))"

lemma branch_evaluators_iff: "e \<in> set (branch_evaluators b) \<longleftrightarrow> allows_evaluator b e"
  by (auto simp: branch_evaluators_def allows_evaluator_def)

lemma branch_compatible_iff: "branch_compatible d capabilities = dispatchable d capabilities"
proof
  fix b
  have "branch_compatible d capabilities b \<longleftrightarrow> (\<exists>c\<in>set capabilities. rc_evaluator c \<in> set (branch_evaluators b) \<and>
      capability_supports c (pd_purpose d) (pd_data_handling d) (pd_budget d))"
    unfolding branch_compatible_def list_ex_iff by blast
  then show "branch_compatible d capabilities b = dispatchable d capabilities b"
    unfolding dispatchable_def capability_supports_def branch_evaluators_iff .
qed

lemma policy_sound:
  assumes "evaluation_policy_try_new packs evaluators quorum budget = Inr policy"
  shows "set (pl_criterion_packs policy) = set packs" "set (pl_evaluators policy) = set evaluators"
    "length (pl_evaluators policy) \<le> MAX_EVALUATORS" "pl_required_quorum policy = quorum" "pl_budget policy = budget"
  using assms by (auto simp: evaluation_policy_try_new_def validate_unique_references_def res_simps split: if_splits)

lemma validate_plan_definition_sound:
  assumes "validate_plan_definition d evidence policy = Inr ()"
  shows "pd_subject d = em_subject evidence" "pd_budget d = pl_budget policy"
    "distinct (map rb_key (pd_branches d))" "length (pd_branches d) \<le> MAX_EVALUATORS"
    "set (map cp_reference (pd_criterion_packs d)) = set (pl_criterion_packs policy)"
    "set (concat (map branch_evaluators (pd_branches d))) = set (pl_evaluators policy)"
    "length (concat (map branch_evaluators (pd_branches d))) = length (pl_evaluators policy)"
proof -
  from assms have eqs: "sort (map cp_reference (pd_criterion_packs d)) = sort (pl_criterion_packs policy)"
    "sort (concat (map branch_evaluators (pd_branches d))) = sort (pl_evaluators policy)"
    by (auto simp: validate_plan_definition_def res_simps split: if_splits)
  from arg_cong [OF eqs(1), of set] show "set (map cp_reference (pd_criterion_packs d)) = set (pl_criterion_packs policy)" by simp
  from arg_cong [OF eqs(2), of set] show "set (concat (map branch_evaluators (pd_branches d))) = set (pl_evaluators policy)" by simp
  from arg_cong [OF eqs(2), of length] show "length (concat (map branch_evaluators (pd_branches d))) = length (pl_evaluators policy)"
    by simp
qed (use assms in \<open>auto simp: validate_plan_definition_def res_simps split: if_splits\<close>)

lemma compatible_keys:
  assumes "distinct (map rb_key branches)" and "b \<in> set branches"
  shows "rb_key b \<in> rb_key ` set (filter P branches) \<longleftrightarrow> P b"
  using assms by (auto simp: distinct_map inj_on_def)

lemma compatible_count:
  assumes "distinct (map rb_key branches)"
  shows "length (remdups (map rb_key (filter P (sort_key rb_key branches)))) = length (filter P branches)"
proof -
  have "distinct (map rb_key (filter P (sort_key rb_key branches)))"
    using assms by (intro distinct_map_filter) simp
  then show ?thesis by (simp add: distinct_remdups_id)
qed

lemma find_selects: "find P xs = Some x \<Longrightarrow> x \<in> set xs \<and> P x"
  by (auto simp: find_Some_iff)

lemma ready_branches:
  assumes "distinct (map rb_key (pd_branches d))"
    and "find (\<lambda>b. rb_required b \<and> rb_key b \<notin> set (remdups (map rb_key (filter (branch_compatible d capabilities)
      (sort_key rb_key (pd_branches d)))))) (sort_key rb_key (pd_branches d)) = r"
  shows "case r of
      None \<Rightarrow> \<forall>b\<in>set (pd_branches d). rb_required b \<longrightarrow> dispatchable d capabilities b
    | Some b \<Rightarrow> b \<in> set (pd_branches d) \<and> rb_required b \<and> \<not> dispatchable d capabilities b"
  using assms compatible_keys [OF assms(1), of _ "branch_compatible d capabilities"]
  by (auto simp: find_None_iff branch_compatible_iff dest!: find_selects split: option.splits)

text \<open>(C16) Preparing a review plan. A plan that is ready is canonical and restorable, reviews the candidate of the
  evidence under the budget and quorum of the policy, selects exactly the criteria and the evaluators
  of the policy (substitutes included, at most 32 of them), and every required branch and at least a
  quorum of branches has an advertised capability for its purpose, data handling and budget. Preparation
  escalates only for a required branch without such a capability, or when fewer branches than the quorum have one,
  with the exact count.\<close>

theorem prepared_plan_sound:
  assumes policy: "evaluation_policy_try_new packs evaluators quorum budget = Inr policy"
    and prepared: "prepare_evaluation_plan d evidence policy capabilities = Inr r"
  shows "case r of
      Plan_Ready plan \<Rightarrow> plan_ok plan \<and> evaluation_plan_from_parts plan = Inr plan \<and>
        ev_evidence_id plan = em_id evidence \<and> ev_subject plan = em_subject evidence \<and>
        ev_budget plan = budget \<and> ev_required_quorum plan = quorum \<and>
        set (map cp_reference (ev_criterion_packs plan)) = set packs \<and>
        set (concat (map branch_evaluators (ev_branches plan))) = set evaluators \<and>
        length (concat (map branch_evaluators (ev_branches plan))) \<le> MAX_EVALUATORS \<and>
        (\<forall>b\<in>set (ev_branches plan). rb_required b \<longrightarrow> dispatchable d capabilities b) \<and>
        unat quorum \<le> length (filter (dispatchable d capabilities) (ev_branches plan))
    | Plan_Escalate (RequiredCapabilityUnavailable key) \<Rightarrow>
        \<exists>b\<in>set (pd_branches d). rb_key b = key \<and> rb_required b \<and> \<not> dispatchable d capabilities b
    | Plan_Escalate (QuorumCapabilityUnavailable required found) \<Rightarrow>
        required = quorum \<and> found < quorum \<and>
        unat found = length (filter (dispatchable d capabilities) (pd_branches d))"
proof -
  let ?sorted = "sort_key rb_key (pd_branches d)"
  let ?compatible = "remdups (map rb_key (filter (branch_compatible d capabilities) ?sorted))"
  have valid: "validate_plan_definition d evidence policy = Inr ()"
    using prepared by (auto simp: prepare_evaluation_plan_def res_simps)
  note sound = validate_plan_definition_sound [OF valid] policy_sound [OF policy]
  have count: "length ?compatible = length (filter (dispatchable d capabilities) (pd_branches d))"
    unfolding compatible_count [OF sound(3)] by (simp add: branch_compatible_iff)
  have small: "length ?compatible < 2 ^ 16"
    unfolding count using le_trans [OF length_filter_le sound(4), of "dispatchable d capabilities"] by (simp add: MAX_EVALUATORS_def)
  show ?thesis
  proof (cases "find (\<lambda>b. rb_required b \<and> rb_key b \<notin> set ?compatible) ?sorted")
    case (Some b)
    with prepared valid have "r = Plan_Escalate (RequiredCapabilityUnavailable (rb_key b))"
      by (auto simp: prepare_evaluation_plan_def res_simps)
    with ready_branches [OF sound(3) Some] show ?thesis by auto
  next
    case None
    show ?thesis
    proof (cases "length ?compatible < unat quorum")
      case True
      then have less: "(of_nat (length ?compatible) :: u16) < pl_required_quorum policy"
        using small sound(11) by (simp add: word_less_nat_alt u16_of_count)
      with None prepared valid have "r = Plan_Escalate (QuorumCapabilityUnavailable (pl_required_quorum policy) (of_nat (length ?compatible)))"
        by (auto simp: prepare_evaluation_plan_def Let_def res_simps split: if_splits)
      with less count small sound(11) show ?thesis by (simp add: u16_of_count)
    next
      case False
      then have "\<not> (of_nat (length ?compatible) :: u16) < pl_required_quorum policy"
        using small sound(11) by (simp add: word_less_nat_alt u16_of_count)
      with None prepared valid obtain plan where r: "r = Plan_Ready plan" and
        plan: "evaluation_plan_from_parts \<lparr>ev_id = pd_id d, ev_evidence_id = em_id evidence,
              ev_purpose = pd_purpose d, ev_subject = pd_subject d, ev_criterion_packs = sort_key cp_reference (pd_criterion_packs d),
              ev_branches = ?sorted, ev_required_quorum = pl_required_quorum policy, ev_budget = pd_budget d,
              ev_created_at = pd_created_at d, ev_deadline = pd_deadline d, ev_data_handling = pd_data_handling d\<rparr> = Inr plan"
        by (auto simp: prepare_evaluation_plan_def Let_def res_simps split: if_splits)
      have len: "length (concat (map branch_evaluators (sort_key rb_key ?sorted))) = length (concat (map branch_evaluators (pd_branches d)))"
        by (simp only: length_sort_concat)
      from plan_from_parts_ok [OF plan] plan ready_branches [OF sound(3) None] sound False count len show ?thesis
        by (simp add: r plan_from_parts_iff)
    qed
  qed
qed

section \<open>Progress of an evaluation\<close>

datatype evaluation_event = EE_Advance FactoryKey EvaluationBranchState | EE_Exhaust FactoryKey | EE_Record EvaluationBranchResult

definition review_step :: "EvaluationProgress \<Rightarrow> evaluation_event \<Rightarrow> FactoryError + EvaluationProgress" where
  "review_step p e = (case e of
     EE_Advance key state \<Rightarrow> advance_branch p key state
   | EE_Exhaust key \<Rightarrow> exhaust_branch p key
   | EE_Record result \<Rightarrow> record_result p result)"

lemma map_key_update:
  "distinct (map f xs) \<Longrightarrow> n < length xs \<Longrightarrow> map (\<lambda>b. if f b = f (xs ! n) then r else b) xs = xs[n := r]"
proof (rule nth_equalityI)
  fix i assume d: "distinct (map f xs)" and n: "n < length xs" and i: "i < length (map (\<lambda>b. if f b = f (xs ! n) then r else b) xs)"
  then have "f (xs ! i) = f (xs ! n) \<longleftrightarrow> i = n" using nth_eq_iff_index_eq [OF d, of i n] by simp
  with i n show "map (\<lambda>b. if f b = f (xs ! n) then r else b) xs ! i = xs[n := r] ! i" by (simp add: nth_list_update)
qed simp

lemma replaced:
  assumes sorted: "sorted_wrt (<) (map eb_key (pg_branches p))" and n: "n < length (pg_branches p)"
    and key: "eb_key r = eb_key (pg_branches p ! n)"
    and q: "replace_branch p (eb_key (pg_branches p ! n)) r = Inr q"
  shows "q = p\<lparr>pg_branches := (pg_branches p)[n := r]\<rparr>"
proof -
  have eq: "map (\<lambda>b. if eb_key b = eb_key (pg_branches p ! n) then r else b) (pg_branches p) = (pg_branches p)[n := r]"
    using sorted n by (intro map_key_update) (auto simp: strict_sorted_iff)
  have "map eb_key ((pg_branches p)[n := r]) = map eb_key (pg_branches p)"
    using n key by (simp add: map_update list_update_same_conv)
  with sorted have "sort_key eb_key ((pg_branches p)[n := r]) = (pg_branches p)[n := r]"
    by (intro sort_key_fixed) simp
  with q have "q = \<lparr>pg_branches = (pg_branches p)[n := r], pg_required_quorum = pg_required_quorum p\<rparr>"
    unfolding replace_branch_def eq progress_try_new_def by (simp split: if_splits)
  then show ?thesis by simp
qed

lemma find_index: "find P xs = Some x \<Longrightarrow> \<exists>n<length xs. x = xs ! n \<and> P x"
  by (auto simp: find_Some_iff)

lemma transition_open: "valid_branch_transition s t \<Longrightarrow> branch_open s"
  by (cases s) (simp_all add: valid_branch_transition_def branch_open_def)

definition fixed_part :: "EvaluationBranch \<Rightarrow> FactoryKey \<times> bool \<times> ImmutableReference \<times> ImmutableReference list" where
  "fixed_part b = (eb_key b, eb_required b, eb_evaluator b, eb_substitutes b)"

text \<open>Every accepted event changes one open branch; it keeps what the plan fixed and gives a result exactly to a
  completed or substituted branch.\<close>

lemma review_step_branch:
  assumes sorted: "sorted_wrt (<) (map eb_key (pg_branches p))" and q: "review_step p e = Inr q"
  obtains n b where "n < length (pg_branches p)" and "branch_open (eb_state (pg_branches p ! n))"
    and "q = p\<lparr>pg_branches := (pg_branches p)[n := b]\<rparr>"
    and "fixed_part b = fixed_part (pg_branches p ! n)"
    and "branch_result_fits (pg_branches p ! n) \<Longrightarrow> branch_result_fits b"
proof -
  note changed = that
  have advance: thesis if "advance_branch p key state = Inr q" for key state
  proof -
    from that obtain current where c: "find (\<lambda>b. eb_key b = key) (pg_branches p) = Some current"
      "state \<notin> {BS_Completed, BS_Substituted}" "valid_branch_transition (eb_state current) state"
      "replace_branch p key (with_state current state) = Inr q"
      by (auto simp: advance_branch_def split: option.splits if_splits)
    from find_index [OF c(1)] obtain n where n: "n < length (pg_branches p)" "current = pg_branches p ! n" "eb_key current = key"
      by blast
    have "branch_result_fits (with_state current state)" if "branch_result_fits current"
      using that c(2) transition_open [OF c(3)]
      by (cases "eb_state current"; cases state)
        (auto simp: branch_result_fits_def with_state_def Let_def branch_open_def split: option.splits)
    with n c replaced [OF sorted n(1), of "with_state current state"] transition_open [OF c(3)] show thesis
      by (intro changed [of n "with_state current state"]) (simp_all add: with_state_def fixed_part_def)
  qed
  have recorded: thesis if "record_result p result = Inr q" for result
  proof -
    from that obtain current replacement where c: "find (\<lambda>b. eb_key b = br_branch result) (pg_branches p) = Some current"
      "eb_state current = BS_ResultPending" "with_result current result = Inr replacement"
      "replace_branch p (eb_key current) replacement = Inr q"
      by (auto simp: record_result_def res_simps split: option.splits if_splits)
    from find_index [OF c(1)] obtain n where n: "n < length (pg_branches p)" "current = pg_branches p ! n" by blast
    have fits: "branch_result_fits replacement"
      using c(3) by (auto simp: with_result_def branch_result_fits_def Let_def split: if_splits)
    have "eb_key replacement = eb_key current \<and> eb_required replacement = eb_required current \<and>
        eb_evaluator replacement = eb_evaluator current \<and> eb_substitutes replacement = eb_substitutes current"
      using c(3) by (auto simp: with_result_def split: if_splits)
    with n c fits replaced [OF sorted n(1), of replacement] show thesis
      by (intro changed [of n replacement]) (simp_all add: branch_open_def fixed_part_def)
  qed
  from q show thesis
    by (cases e) (auto simp: review_step_def exhaust_branch_def intro: advance recorded)
qed

text \<open>The progress of the plan: its branches in order, each with the result its state calls for.\<close>

definition planned_part :: "ReviewBranch \<Rightarrow> FactoryKey \<times> bool \<times> ImmutableReference \<times> ImmutableReference list" where
  "planned_part b = (rb_key b, rb_required b, rb_evaluator b, rb_substitutes b)"

definition progress_ok :: "EvaluationPlan \<Rightarrow> EvaluationProgress \<Rightarrow> bool" where
  "progress_ok plan p \<longleftrightarrow> map fixed_part (pg_branches p) = map planned_part (ev_branches plan) \<and>
     pg_required_quorum p = ev_required_quorum plan \<and> list_all branch_result_fits (pg_branches p)"

definition frozen :: "EvaluationProgress \<Rightarrow> EvaluationProgress \<Rightarrow> bool" where
  "frozen p q \<longleftrightarrow> (\<forall>n<length (pg_branches p). \<not> branch_open (eb_state (pg_branches p ! n)) \<longrightarrow> pg_branches q ! n = pg_branches p ! n)"

definition joined :: "EvaluationProgress \<Rightarrow> bool" where
  "joined p \<longleftrightarrow> sorted_wrt (<) (map eb_key (pg_branches p)) \<and> list_all (\<lambda>b. \<not> branch_open (eb_state b)) (pg_branches p)"

lemma planned_keys:
  assumes "map fixed_part bs = map planned_part rs"
  shows "map eb_key bs = map rb_key rs"
proof -
  from assms have "map fst (map fixed_part bs) = map fst (map planned_part rs)" by (rule arg_cong)
  then show ?thesis by (simp add: comp_def fixed_part_def planned_part_def)
qed

lemma progress_ok_sorted: "plan_ok plan \<Longrightarrow> progress_ok plan p \<Longrightarrow> sorted_wrt (<) (map eb_key (pg_branches p))"
  using planned_keys [of "pg_branches p" "ev_branches plan"] by (simp add: progress_ok_def plan_ok_def)

interpretation review: invariant_system review_step "\<lambda>q. plan_ok plan \<and> progress_ok plan q \<and> progress_ok plan p \<and> frozen p q" for plan p
proof unfold_locales
  fix s e s'
  assume inv: "plan_ok plan \<and> progress_ok plan s \<and> progress_ok plan p \<and> frozen p s" and step: "review_step s e = Inr s'"
  from inv have sorted: "sorted_wrt (<) (map eb_key (pg_branches s))" using progress_ok_sorted by blast
  from review_step_branch [OF sorted step] obtain n b where n: "n < length (pg_branches s)" "branch_open (eb_state (pg_branches s ! n))"
    and s': "s' = s\<lparr>pg_branches := (pg_branches s)[n := b]\<rparr>"
    and b: "fixed_part b = fixed_part (pg_branches s ! n)" "branch_result_fits (pg_branches s ! n) \<Longrightarrow> branch_result_fits b"
    by blast
  have "map fixed_part (pg_branches s') = map fixed_part (pg_branches s)"
    using n(1) b(1) by (simp add: s' map_update list_update_same_conv)
  moreover have "list_all branch_result_fits (pg_branches s')"
    using inv b(2) n(1) by (auto simp: s' progress_ok_def list_all_length nth_list_update)
  moreover have "frozen p s'"
    using inv n by (auto simp: s' frozen_def nth_list_update)
  ultimately show "plan_ok plan \<and> progress_ok plan s' \<and> progress_ok plan p \<and> frozen p s'"
    using inv by (simp add: progress_ok_def s')
qed

interpretation review_join: lifecycle review_step joined
proof unfold_locales
  fix s e s' assume "joined s" and step: "review_step s e = Inr s'"
  then show "s' = s"
    using review_step_branch [OF _ step] by (fastforce simp: joined_def list_all_length)
qed

lemma planned_progress:
  assumes "plan_ok plan"
  shows "progress_from_plan plan = Inr \<lparr>pg_branches = map branch_from_review_branch (ev_branches plan),
    pg_required_quorum = ev_required_quorum plan\<rparr>"
proof -
  have keys: "map eb_key (map branch_from_review_branch (ev_branches plan)) = map rb_key (ev_branches plan)"
    by (simp add: branch_from_review_branch_def)
  have "sort_key eb_key (map branch_from_review_branch (ev_branches plan)) = map branch_from_review_branch (ev_branches plan)"
    by (rule sort_key_fixed) (use assms in \<open>simp only: keys plan_ok_def\<close>)
  moreover have "distinct (map eb_key (map branch_from_review_branch (ev_branches plan)))"
    using assms by (simp only: keys) (simp add: plan_ok_def plan_shape_def)
  ultimately show ?thesis
    using assms unfolding progress_from_plan_def progress_try_new_def by (auto simp: plan_ok_def plan_shape_def)
qed

lemma planned_progress_ok:
  "progress_ok plan \<lparr>pg_branches = map branch_from_review_branch (ev_branches plan), pg_required_quorum = ev_required_quorum plan\<rparr>"
  by (auto simp: progress_ok_def branch_from_review_branch_def fixed_part_def planned_part_def branch_result_fits_def list_all_iff)

lemma fits_result_iff:
  "branch_result_fits b \<Longrightarrow> eb_result b \<noteq> None \<longleftrightarrow> eb_state b \<in> {BS_Completed, BS_Substituted}"
  by (cases "eb_state b") (auto simp: branch_result_fits_def Let_def split: option.splits)

lemma progress_ok_binding:
  assumes "plan_ok plan" and ok: "progress_ok plan p"
  shows "validate_plan_binding p plan b = Inr ()"
proof -
  have len: "length (pg_branches p) = length (ev_branches plan)"
    using ok by (auto simp: progress_ok_def dest: map_eq_imp_length_eq)
  have "fixed_part (pg_branches p ! n) = planned_part (ev_branches plan ! n)" if "n < length (ev_branches plan)" for n
    using ok that len by (metis nth_map progress_ok_def)
  moreover have "branch_result_fits (pg_branches p ! n)" if "n < length (ev_branches plan)" for n
    using ok that len by (simp add: progress_ok_def list_all_length)
  ultimately show ?thesis
    using ok len fits_result_iff
    by (auto simp: validate_plan_binding_def planned_progress [OF assms(1)] res_simps progress_ok_def list_ex_length
        fixed_part_def planned_part_def branch_from_review_branch_def)
qed

lemma join_branches:
  assumes "decision_bindings p plan = Inr (ids, nodes)"
  shows "list_all (\<lambda>b. \<not> branch_open (eb_state b)) (pg_branches p)"
    and "\<forall>b\<in>set (pg_branches p). eb_required b \<longrightarrow> eb_state b \<in> {BS_Completed, BS_Substituted}"
    and "ids = map br_assessment_id (List.map_filter eb_result (pg_branches p))"
    and "nodes = map (\<lambda>r. (br_factory_run_id r, br_node_attempt_id r, br_input_digest r)) (List.map_filter eb_result (pg_branches p))"
    and "distinct ids" and "unat (pg_required_quorum p) \<le> length ids"
  using assms by (auto simp: decision_bindings_def Let_def res_simps list_ex_iff list_all_iff split: if_splits)

lemma set_map_filter: "set (List.map_filter f xs) = {y. \<exists>x\<in>set xs. f x = Some y}"
  by (induction xs) (auto simp: List.map_filter_simps split: option.splits)

text \<open>(C15) Every run of branch events from the fan-out of a plan stays bound to the plan: the branches, evaluators and
  quorum of the plan, and a result in exactly the completed and substituted branches, given by the primary evaluator or
  by a declared substitute. A branch that has ended never changes again. When the join yields assessments for a
  decision, every required branch has its result among them, they are distinct and at least a
  quorum, and no further event is accepted, so the inputs of the decision cannot change any more.\<close>

theorem evaluation_progress_sound:
  assumes plan: "evaluation_plan_from_parts w = Inr plan"
  shows "\<exists>start. progress_from_plan plan = Inr start \<and>
    (\<forall>p. reachable review_step start p \<longrightarrow>
       validate_plan_binding p plan True = Inr () \<and> list_all branch_result_fits (pg_branches p) \<and>
       (\<forall>q. reachable review_step p q \<longrightarrow> frozen p q) \<and>
       (\<forall>ids nodes. decision_bindings p plan = Inr (ids, nodes) \<longrightarrow>
          (\<forall>b\<in>set (pg_branches p). eb_required b \<longrightarrow> (\<exists>r. eb_result b = Some r \<and> br_assessment_id r \<in> set ids)) \<and>
          distinct ids \<and> unat (ev_required_quorum plan) \<le> length ids \<and>
          (\<forall>q. reachable review_step p q \<longrightarrow> q = p)))"
proof -
  have ok: "plan_ok plan" using plan by (rule plan_from_parts_ok(1))
  let ?start = "\<lparr>pg_branches = map branch_from_review_branch (ev_branches plan), pg_required_quorum = ev_required_quorum plan\<rparr>"
  have progress: "progress_ok plan p" if "reachable review_step ?start p" for p
    using review.reachable_inv [OF that, of plan ?start] ok planned_progress_ok by (simp add: frozen_def)
  show ?thesis
  proof (intro exI [of _ ?start] conjI allI impI)
    show "progress_from_plan plan = Inr ?start" using ok by (rule planned_progress)
  next
    fix p assume p: "reachable review_step ?start p"
    show "validate_plan_binding p plan True = Inr ()" using ok progress [OF p] by (rule progress_ok_binding)
    show "list_all branch_result_fits (pg_branches p)" using progress [OF p] by (simp add: progress_ok_def)
  next
    fix p q assume "reachable review_step ?start p" "reachable review_step p q"
    then show "frozen p q" using review.reachable_inv [of p q plan p] ok progress by (simp add: frozen_def)
  next
    fix p ids nodes assume p: "reachable review_step ?start p" and join: "decision_bindings p plan = Inr (ids, nodes)"
    show "distinct ids" "unat (ev_required_quorum plan) \<le> length ids"
      using join_branches(5,6) [OF join] progress [OF p] by (simp_all add: progress_ok_def)
    show "\<forall>b\<in>set (pg_branches p). eb_required b \<longrightarrow> (\<exists>r. eb_result b = Some r \<and> br_assessment_id r \<in> set ids)"
    proof (intro ballI impI)
      fix b assume b: "b \<in> set (pg_branches p)" "eb_required b"
      then have "eb_result b \<noteq> None"
        using join_branches(2) [OF join] fits_result_iff progress [OF p] by (simp add: progress_ok_def list_all_iff)
      with b(1) join_branches(3) [OF join] show "\<exists>r. eb_result b = Some r \<and> br_assessment_id r \<in> set ids"
        by (auto simp: set_map_filter)
    qed
    show "q = p" if "reachable review_step p q" for q
      using review_join.reachable_from_terminal [OF that] join_branches(1) [OF join] progress_ok_sorted [OF ok progress [OF p]]
      by (simp add: joined_def)
  qed
qed

section \<open>A review of one candidate\<close>

definition sample_candidate :: CandidateSubject where
  "sample_candidate = \<lparr>cs_exact = \<lparr>es_project_id = 4, es_repository_id = 5, es_base_revision = lit ''abc''\<rparr>,
     cs_candidate_revision = lit ''def'', cs_changeset_digest = replicate 32 2\<rparr>"

definition sample_evidence_item :: EvidenceItem where
  "sample_evidence_item = \<lparr>ei_subject = sample_candidate, ei_kind = lit ''tests'', ei_output_kind = EO_Report,
     ei_artifact = (21, replicate 32 3, 10), ei_schema = sample_signal_ref ''schema'',
     ei_producer = \<lparr>ep_build_id = 31, ep_attempt_id = 32, ep_job_id = 33, ep_tool = sample_signal_ref ''tool'', ep_plugin = sample_signal_ref ''plugin''\<rparr>,
     ei_outcome = GO_Passed, ei_published_at = 10, ei_fresh_until = 1000\<rparr>"

definition sample_evidence :: EvidenceManifest where
  "sample_evidence = \<lparr>em_id = 11, em_changeset_id = 12, em_subject = sample_candidate, em_constructed_at = 20,
     em_requirements = [\<lparr>er_kind = lit ''tests'', er_output_kind = EO_Report, er_schema = sample_signal_ref ''schema'',
       er_tool = sample_signal_ref ''tool'', er_plugin = sample_signal_ref ''plugin''\<rparr>],
     em_items = [sample_evidence_item], em_inputs = []\<rparr>"

definition sample_pack :: CriterionPack where
  "sample_pack = \<lparr>cp_project_id = 4, cp_reference = sample_signal_ref ''criteria'', cp_schema = sample_signal_ref ''schema'',
     cp_artifact = (22, replicate 32 7, 10)\<rparr>"

definition sample_branch :: ReviewBranch where
  "sample_branch = review_branch_new (lit ''security'') (sample_signal_ref ''evaluator'') True"

definition sample_evaluation_policy :: EvaluationPolicy where
  "sample_evaluation_policy = \<lparr>pl_criterion_packs = [sample_signal_ref ''criteria''], pl_evaluators = [sample_signal_ref ''evaluator''],
     pl_required_quorum = 1, pl_budget = sample_signal_budget\<rparr>"

definition sample_plan_definition :: EvaluationPlanDefinition where
  "sample_plan_definition = \<lparr>pd_id = 41, pd_purpose = RP_CodeReview, pd_subject = sample_candidate, pd_criterion_packs = [sample_pack],
     pd_branches = [sample_branch], pd_budget = sample_signal_budget, pd_created_at = 30, pd_deadline = 900,
     pd_data_handling = sample_signal_ref ''data''\<rparr>"

definition sample_review_capability :: ReviewEvaluatorCapability where
  "sample_review_capability = \<lparr>rc_evaluator = sample_signal_ref ''evaluator'', rc_purposes = [RP_CodeReview],
     rc_data_handling = [sample_signal_ref ''data''], rc_budget_ceiling = sample_signal_budget\<rparr>"

definition sample_plan :: EvaluationPlan where
  "sample_plan = \<lparr>ev_id = 41, ev_evidence_id = 11, ev_purpose = RP_CodeReview, ev_subject = sample_candidate,
     ev_criterion_packs = [sample_pack], ev_branches = [sample_branch], ev_required_quorum = 1, ev_budget = sample_signal_budget,
     ev_created_at = 30, ev_deadline = 900, ev_data_handling = sample_signal_ref ''data''\<rparr>"

lemmas sample_review_defs = sample_plan_definition_def sample_evidence_def sample_evaluation_policy_def sample_pack_def sample_branch_def
  review_branch_new_def branch_evaluators_def sample_candidate_def sample_signal_ref_def MAX_CRITERION_PACKS_def MAX_EVALUATORS_def

lemma sample_policy_built:
  "evaluation_policy_try_new [sample_signal_ref ''criteria''] [sample_signal_ref ''evaluator''] 1 sample_signal_budget =
     Inr sample_evaluation_policy"
  by (simp add: evaluation_policy_try_new_def validate_unique_references_def sample_review_defs)

lemma sample_definition_valid: "validate_plan_definition sample_plan_definition sample_evidence sample_evaluation_policy = Inr ()"
  by (simp add: validate_plan_definition_def sample_review_defs validate_review_count_def validate_branch_evaluators_def
      elapsed_ok_def i64_checked_sub_def i64_range_def sample_signal_budget_def)

lemma sample_compatible: "branch_compatible sample_plan_definition [sample_review_capability] sample_branch"
  by (simp add: branch_compatible_def capability_supports_def sample_review_capability_def sample_review_defs
      fits_within_def first_excess_def budget_dimensions_def sample_signal_budget_def)

lemma sample_plan_restored: "evaluation_plan_from_parts sample_plan = Inr sample_plan"
  by (simp add: evaluation_plan_from_parts_def validate_plan_shape_def sample_plan_def sample_review_defs validate_review_count_def
      validate_branch_evaluators_def u16_try_from_def elapsed_ok_def i64_checked_sub_def i64_range_def sample_signal_budget_def)

lemma sample_prepared:
  "prepare_evaluation_plan sample_plan_definition sample_evidence sample_evaluation_policy [sample_review_capability] =
     Inr (Plan_Ready sample_plan)"
proof -
  have fields: "pd_branches sample_plan_definition = [sample_branch]" "pd_criterion_packs sample_plan_definition = [sample_pack]"
    "rb_required sample_branch" "pl_required_quorum sample_evaluation_policy = 1"
    by (simp_all add: sample_plan_definition_def sample_branch_def review_branch_new_def sample_evaluation_policy_def)
  show ?thesis
    unfolding prepare_evaluation_plan_def
    using sample_definition_valid sample_compatible sample_plan_restored
    by (simp add: fields Let_def u16_try_from_def, simp add: sample_plan_def sample_plan_definition_def sample_evidence_def)
qed

theorem prepared_plan_sound_witness:
  "plan_ok sample_plan \<and> dispatchable sample_plan_definition [sample_review_capability] sample_branch"
  using prepared_plan_sound [OF sample_policy_built sample_prepared]
  by (simp add: sample_plan_def sample_branch_def review_branch_new_def)

theorem evaluation_progress_sound_witness:
  "\<exists>start. progress_from_plan sample_plan = Inr start \<and> validate_plan_binding start sample_plan True = Inr ()"
proof -
  note sound = evaluation_progress_sound [OF sample_plan_restored]
  show ?thesis by (rule exE [OF sound], elim conjE, intro exI conjI, assumption) (simp add: reachable.start)
qed

end
