(* ===== verification/Decision_Correct.thy ===== *)
theory Decision_Correct
  imports Decision_Engine Review_Correct
begin

text \<open>
  Properties of the Decision Engine: a decision accepts exactly when no rule of the policy stands against it and records exactly
  the rules that do, it does not depend on the order of its inputs, and the decision over a
  completed evaluation is always produced and passes the check of its bindings.
\<close>

section \<open>Maps of the inputs\<close>

lemma bt_insert_new: "k \<notin> fst ` set m \<Longrightarrow> set (bt_insert k v m) = insert (k, v) (set m)"
  by (induction m) auto

lemma collect_by_wf: "bt_wf (collect_by key xs)"
  unfolding collect_by_def using bt.wf_empty by (rule bt.wf_insert_all)

lemma set_collect_all:
  "distinct (map fst kvs) \<Longrightarrow> fst ` set kvs \<inter> fst ` set m = {} \<Longrightarrow>
     set (fold (\<lambda>(k, v). bt_insert k v) kvs m) = set kvs \<union> set m"
proof (induction kvs arbitrary: m)
  case (Cons e kvs)
  obtain k v where e: "e = (k, v)" by (cases e)
  have "k \<notin> fst ` set m" using Cons.prems e by auto
  then have new: "set (bt_insert k v m) = insert (k, v) (set m)" by (rule bt_insert_new)
  have "fst ` set kvs \<inter> fst ` set (bt_insert k v m) = {}" using Cons.prems e by (auto simp: new)
  with Cons e new show ?case by simp
qed simp

lemma collect_by_distinct:
  assumes "distinct (map key xs)"
  shows "collect_by key xs = map (\<lambda>x. (key x, x)) (sort_key key xs)"
proof (rule map_sorted_distinct_set_unique [where f = fst])
  have s: "set (collect_by key xs) = (\<lambda>x. (key x, x)) ` set xs"
    using set_collect_all [of "map (\<lambda>x. (key x, x)) xs" "[]"] assms by (simp add: collect_by_def comp_def)
  then show "set (collect_by key xs) = set (map (\<lambda>x. (key x, x)) (sort_key key xs))" by simp
  show "inj_on fst (set (collect_by key xs) \<union> set (map (\<lambda>x. (key x, x)) (sort_key key xs)))"
    using assms by (auto simp: s inj_on_def distinct_map)
  show "sorted (map fst (collect_by key xs))" "distinct (map fst (collect_by key xs))"
    using collect_by_wf [of key xs] by (simp_all add: bt_wf_def strict_sorted_iff)
  show "sorted (map fst (map (\<lambda>x. (key x, x)) (sort_key key xs)))" "distinct (map fst (map (\<lambda>x. (key x, x)) (sort_key key xs)))"
    using assms distinct_sort_map [of key key xs] by (simp_all add: comp_def)
qed

lemma set_collect_by: "distinct (map key xs) \<Longrightarrow> set (collect_by key xs) = (\<lambda>x. (key x, x)) ` set xs"
  by (simp add: collect_by_distinct)

lemma collect_by_get:
  assumes "distinct (map key xs)"
  shows "bt_get (collect_by key xs) k = Some x \<longleftrightarrow> x \<in> set xs \<and> key x = k"
    and "bt_get (collect_by key xs) k = None \<longleftrightarrow> k \<notin> key ` set xs"
proof -
  have "distinct (map fst (collect_by key xs))" using collect_by_wf [of key xs] by (simp add: bt_wf_def strict_sorted_iff)
  then show "bt_get (collect_by key xs) k = Some x \<longleftrightarrow> x \<in> set xs \<and> key x = k"
    by (auto simp: bt_get_def collect_by_distinct [OF assms])
  show "bt_get (collect_by key xs) k = None \<longleftrightarrow> k \<notin> key ` set xs"
    by (simp add: bt_get_def map_of_eq_None_iff collect_by_distinct [OF assms] image_image)
qed

lemma filter_key_single: "distinct (map f zs) \<Longrightarrow> k \<in> set zs \<Longrightarrow> filter (\<lambda>x. f k = f x) zs = [k]"
  by (induction zs) (auto simp: filter_empty_conv image_iff dest: sym)

lemma sort_key_unique:
  assumes "mset xs = mset ys" and "distinct (map f ys)"
  shows "sort_key f xs = sort_key f ys"
proof (rule properties_for_sort_key)
  show "mset (sort_key f ys) = mset xs" using assms(1) by simp
  show "filter (\<lambda>x. f k = f x) (sort_key f ys) = filter (\<lambda>x. f k = f x) xs" if "k \<in> set (sort_key f ys)" for k
  proof -
    have "filter (\<lambda>x. f k = f x) zs = [k]" if z: "mset zs = mset ys" for zs
    proof (rule filter_key_single)
      show "k \<in> set zs" using \<open>k \<in> set (sort_key f ys)\<close> mset_eq_setD [OF z] by simp
      have "mset (map f zs) = mset (map f ys)" using z by simp
      then show "distinct (map f zs)" using assms(2) mset_eq_imp_distinct_iff by blast
    qed
    then show ?thesis using assms(1) by simp
  qed
qed simp

section \<open>Reasons\<close>

definition has_severity :: "DecisionPolicy \<Rightarrow> Assessment \<Rightarrow> FindingSeverity \<Rightarrow> bool" where
  "has_severity policy a s \<longleftrightarrow> as_outcome a = AO_Violated \<and> (\<exists>f\<in>set (as_findings a). finding_severity f = Some s) \<and>
     (\<forall>f\<in>set (as_findings a). \<forall>t. finding_severity f = Some t \<longrightarrow> t \<le> s) \<and> dp_severity_threshold policy \<le> s"

text \<open>A rule of the policy that stands against acceptance.\<close>

fun reason_against :: "DecisionEngineInput \<Rightarrow> DecisionReason \<Rightarrow> bool" where
  "reason_against input PolicySatisfied = False"
| "reason_against input (RequiredEvidenceMissing k) =
     (k \<in> set (dp_required_evidence (di_policy input)) \<and> k \<notin> ei_kind ` set (em_items (di_evidence input)))"
| "reason_against input (RequiredEvidenceFailed k) =
     (k \<in> set (dp_required_evidence (di_policy input)) \<and>
      (\<exists>item\<in>set (em_items (di_evidence input)). ei_kind item = k \<and> ei_outcome item = GO_Failed))"
| "reason_against input (RequiredEvidenceIndeterminate k) =
     (k \<in> set (dp_required_evidence (di_policy input)) \<and>
      (\<exists>item\<in>set (em_items (di_evidence input)). ei_kind item = k \<and> ei_outcome item = GO_Indeterminate))"
| "reason_against input (RequiredAssessmentMissing e) =
     (e \<in> set (dp_required_evaluators (di_policy input)) \<and> e \<notin> as_evaluator ` set (di_assessments input))"
| "reason_against input (AssessmentIndeterminate e) =
     ((e \<in> set (dp_required_evaluators (di_policy input)) \<or> dp_indeterminate_policy (di_policy input) = IP_Any) \<and>
      (\<exists>a\<in>set (di_assessments input). as_evaluator a = e \<and> as_outcome a = AO_Indeterminate))"
| "reason_against input (SeverityThresholdExceeded e s) =
     (\<exists>a\<in>set (di_assessments input). as_evaluator a = e \<and> has_severity (di_policy input) a s)"
| "reason_against input (QuorumNotMet required observed) =
     (length (di_assessments input) < unat (dp_quorum (di_policy input)) \<and> required = dp_quorum (di_policy input) \<and>
      observed = of_nat (length (di_assessments input)))"

text \<open>What acceptance promises.\<close>

definition acceptable :: "DecisionEngineInput \<Rightarrow> bool" where
  "acceptable input \<longleftrightarrow>
     (\<forall>k\<in>set (dp_required_evidence (di_policy input)). \<exists>item\<in>set (em_items (di_evidence input)).
        ei_kind item = k \<and> ei_outcome item = GO_Passed) \<and>
     set (dp_required_evaluators (di_policy input)) \<subseteq> as_evaluator ` set (di_assessments input) \<and>
     (\<forall>a\<in>set (di_assessments input). as_outcome a = AO_Indeterminate \<longrightarrow>
        as_evaluator a \<notin> set (dp_required_evaluators (di_policy input)) \<and> dp_indeterminate_policy (di_policy input) = IP_RequiredOnly) \<and>
     (\<forall>a\<in>set (di_assessments input). \<forall>f\<in>set (as_findings a). \<forall>s. as_outcome a = AO_Violated \<longrightarrow>
        finding_severity f = Some s \<longrightarrow> s < dp_severity_threshold (di_policy input)) \<and>
     unat (dp_quorum (di_policy input)) \<le> length (di_assessments input)"

lemma fold_max_initial: "s \<le> fold max xs (s :: 'a::linorder)"
proof (induction xs arbitrary: s)
  case (Cons y xs)
  from Cons.IH [of "max y s"] show ?case by simp
qed simp

lemma fold_max_upper: "x \<in> insert s (set xs) \<Longrightarrow> x \<le> fold max xs (s :: 'a::linorder)"
proof (induction xs arbitrary: s)
  case (Cons y xs)
  then show ?case using fold_max_initial [of "max y s" xs] Cons.IH [of "max y s"] by auto
qed simp

lemma fold_max_member: "fold max xs (s :: 'a::linorder) \<in> insert s (set xs)"
proof (induction xs arbitrary: s)
  case (Cons y xs)
  from Cons.IH [of "max y s"] show ?case by (auto simp: max_def split: if_splits)
qed simp

lemma max_severity_iff: "max_severity xs = Some s \<longleftrightarrow> s \<in> set xs \<and> (\<forall>t\<in>set xs. t \<le> s)"
proof (cases xs)
  case (Cons x ys)
  have ge: "\<forall>t\<in>set xs. t \<le> fold max ys x" using fold_max_upper [of _ x ys] by (simp add: Cons)
  have mem: "fold max ys x \<in> set xs" using fold_max_member [of ys x] by (simp add: Cons)
  have "s = fold max ys x" if "s \<in> set xs" "\<forall>t\<in>set xs. t \<le> s" using that ge mem by (blast intro: order_antisym)
  then show ?thesis using ge mem by (auto simp: max_severity_def Cons)
qed (simp add: max_severity_def)

lemma assessment_reason_iff:
  "assessment_reason policy (e, a) = Some r \<longleftrightarrow>
     (r = AssessmentIndeterminate e \<and> as_outcome a = AO_Indeterminate \<and>
        (e \<in> set (dp_required_evaluators policy) \<or> dp_indeterminate_policy policy = IP_Any)) \<or>
     (\<exists>s. r = SeverityThresholdExceeded e s \<and> has_severity policy a s)"
proof (cases "as_outcome a")
  case AO_Violated
  have sev: "has_severity policy a s \<longleftrightarrow>
      max_severity (List.map_filter finding_severity (as_findings a)) = Some s \<and> dp_severity_threshold policy \<le> s" for s
    using AO_Violated by (auto simp: has_severity_def max_severity_iff set_map_filter)
  show ?thesis using AO_Violated
    by (cases "max_severity (List.map_filter finding_severity (as_findings a))") (auto simp: assessment_reason_def sev)
qed (auto simp: assessment_reason_def has_severity_def split: if_splits)

lemma evaluate_assessments_iff:
  assumes "distinct (map as_evaluator xs)"
  shows "r \<in> set (evaluate_assessments policy (collect_by as_evaluator xs)) \<longleftrightarrow>
     (\<exists>e\<in>set (dp_required_evaluators policy) - as_evaluator ` set xs. r = RequiredAssessmentMissing e) \<or>
     (\<exists>a\<in>set xs. assessment_reason policy (as_evaluator a, a) = Some r)"
  by (auto simp: evaluate_assessments_def collect_by_get(2) [OF assms] set_map_filter set_collect_by [OF assms])

definition gate_reason :: "(FactoryKey, EvidenceItem) btree \<Rightarrow> FactoryKey \<Rightarrow> DecisionReason option" where
  "gate_reason gates key = (case map_option ei_outcome (bt_get gates key) of
         None \<Rightarrow> Some (RequiredEvidenceMissing key)
       | Some GO_Failed \<Rightarrow> Some (RequiredEvidenceFailed key)
       | Some GO_Indeterminate \<Rightarrow> Some (RequiredEvidenceIndeterminate key)
       | Some GO_Passed \<Rightarrow> None)"

lemma gate_reason_iff:
  assumes "distinct (map ei_kind items)"
  shows "gate_reason (collect_by ei_kind items) k = Some r \<longleftrightarrow>
      r = RequiredEvidenceMissing k \<and> k \<notin> ei_kind ` set items \<or>
        (\<exists>item\<in>set items. ei_kind item = k \<and>
          (r = RequiredEvidenceFailed k \<and> ei_outcome item = GO_Failed \<or>
           r = RequiredEvidenceIndeterminate k \<and> ei_outcome item = GO_Indeterminate))"
proof (cases "bt_get (collect_by ei_kind items) k")
  case None
  then have "k \<notin> ei_kind ` set items" by (simp add: collect_by_get(2) [OF assms])
  then show ?thesis using None by (auto simp: gate_reason_def image_iff)
next
  case (Some item)
  then have one: "other \<in> set items \<and> ei_kind other = k \<longleftrightarrow> item = other" for other
    using collect_by_get(1) [OF assms, of k other] by simp
  have "(\<exists>x\<in>set items. ei_kind x = k \<and> Q x) \<longleftrightarrow> Q item" for Q
  proof -
    have "(\<exists>x\<in>set items. ei_kind x = k \<and> Q x) \<longleftrightarrow> (\<exists>x. item = x \<and> Q x)" unfolding one [symmetric] by auto
    then show ?thesis by simp
  qed
  moreover have "k \<in> ei_kind ` set items" using one [of item] by auto
  ultimately show ?thesis using Some by (cases "ei_outcome item") (auto simp: gate_reason_def)
qed

lemma set_required_evidence:
  "set (evaluate_required_evidence policy gates) = {r. \<exists>k\<in>set (dp_required_evidence policy). gate_reason gates k = Some r}"
  unfolding evaluate_required_evidence_def set_map_filter gate_reason_def ..

lemma decision_reasons_iff:
  assumes "distinct (map ei_kind (em_items (di_evidence input)))" and "distinct (map as_evaluator (di_assessments input))"
  shows "r \<in> set (decision_reasons input) \<longleftrightarrow> reason_against input r"
  unfolding decision_reasons_def set_append Un_iff set_required_evidence mem_Collect_eq gate_reason_iff [OF assms(1)]
    evaluate_assessments_iff [OF assms(2)] assessment_reason_iff
  by (cases r) auto

lemma acceptable_iff:
  assumes "distinct (map ei_kind (em_items (di_evidence input)))"
  shows "acceptable input \<longleftrightarrow> (\<forall>r. \<not> reason_against input r)"
proof
  have one: "item = other" if "item \<in> set (em_items (di_evidence input))" "other \<in> set (em_items (di_evidence input))"
      "ei_kind item = ei_kind other" for item other
    using assms that by (auto simp: distinct_map inj_on_def)
  show "\<forall>r. \<not> reason_against input r" if ok: "acceptable input"
  proof
    fix r
    show "\<not> reason_against input r"
    proof (cases r)
      case (RequiredEvidenceFailed k)
      then show ?thesis using ok one by (fastforce simp: acceptable_def)
    next
      case (RequiredEvidenceIndeterminate k)
      then show ?thesis using ok one by (fastforce simp: acceptable_def)
    next
      case (SeverityThresholdExceeded e s)
      then show ?thesis using ok by (fastforce simp: acceptable_def has_severity_def)
    qed (use ok in \<open>fastforce simp: acceptable_def\<close>)+
  qed
next
  assume "\<forall>r. \<not> reason_against input r"
  then have no: "\<not> reason_against input r" for r by blast
  show "acceptable input"
    unfolding acceptable_def
  proof (intro conjI ballI allI impI)
    show "\<exists>item\<in>set (em_items (di_evidence input)). ei_kind item = k \<and> ei_outcome item = GO_Passed"
      if "k \<in> set (dp_required_evidence (di_policy input))" for k
    proof -
      from no [of "RequiredEvidenceMissing k"] that obtain item where item: "item \<in> set (em_items (di_evidence input))" "ei_kind item = k"
        by auto
      moreover have "ei_outcome item \<noteq> GO_Failed" "ei_outcome item \<noteq> GO_Indeterminate"
        using no [of "RequiredEvidenceFailed k"] no [of "RequiredEvidenceIndeterminate k"] that item by auto
      ultimately show ?thesis by (cases "ei_outcome item") auto
    qed
    show "set (dp_required_evaluators (di_policy input)) \<subseteq> as_evaluator ` set (di_assessments input)"
      using no [of "RequiredAssessmentMissing _"] by auto
    show "unat (dp_quorum (di_policy input)) \<le> length (di_assessments input)"
      using no [of "QuorumNotMet (dp_quorum (di_policy input)) (of_nat (length (di_assessments input)))"] by simp
    fix a
    assume a: "a \<in> set (di_assessments input)"
    have i: "as_evaluator a \<notin> set (dp_required_evaluators (di_policy input))"
        "dp_indeterminate_policy (di_policy input) \<noteq> IP_Any" if "as_outcome a = AO_Indeterminate"
      using no [of "AssessmentIndeterminate (as_evaluator a)"] a that by auto
    then show "as_outcome a = AO_Indeterminate \<Longrightarrow> as_evaluator a \<notin> set (dp_required_evaluators (di_policy input))"
      "as_outcome a = AO_Indeterminate \<Longrightarrow> dp_indeterminate_policy (di_policy input) = IP_RequiredOnly"
      by (auto intro: IndeterminatePolicy.exhaust [of "dp_indeterminate_policy (di_policy input)"])
    show "s < dp_severity_threshold (di_policy input)"
      if v: "as_outcome a = AO_Violated" and f: "f \<in> set (as_findings a)" "finding_severity f = Some s" for f s
    proof (rule ccontr)
      assume "\<not> s < dp_severity_threshold (di_policy input)"
      let ?m = "Max (set (List.map_filter finding_severity (as_findings a)))"
      have s: "s \<in> set (List.map_filter finding_severity (as_findings a))" using f by (auto simp: set_map_filter)
      then have "?m \<in> set (List.map_filter finding_severity (as_findings a))" by (intro Max_in) auto
      moreover have "\<forall>t\<in>set (List.map_filter finding_severity (as_findings a)). t \<le> ?m" by simp
      moreover have "dp_severity_threshold (di_policy input) \<le> ?m"
        using \<open>\<not> s < _\<close> Max_ge [OF _ s] by fastforce
      ultimately have "has_severity (di_policy input) a ?m" unfolding has_severity_def using v by (auto simp: set_map_filter)
      then show False using no [of "SeverityThresholdExceeded (as_evaluator a) ?m"] a by auto
    qed
  qed
qed

section \<open>Evaluated decisions\<close>

lemma validate_input_sound:
  assumes "validate_input env input = Inr ()"
  shows "ev_subject (di_plan input) = em_subject (di_evidence input)" "dp_quorum (di_policy input) = ev_required_quorum (di_plan input)"
    "\<forall>e\<in>set (dp_required_evaluators (di_policy input)). has_evaluator_identity (di_plan input) e"
    "length (di_assessments input) \<le> MAX_DECISION_ASSESSMENTS" "length (di_signal_receipts input) \<le> MAX_DECISION_SIGNAL_RECEIPTS"
    "\<forall>a\<in>set (di_assessments input). as_plan_id a = ev_id (di_plan input) \<and> as_subject a = ev_subject (di_plan input)"
    "distinct (map as_id (di_assessments input))" "distinct (map as_evaluator (di_assessments input))"
    "\<forall>a\<in>set (di_assessments input). assessment_validate_bindings env a (di_plan input) (di_evidence input) = Inr ()"
    "\<forall>r\<in>set (di_signal_receipts input). receipt_bound env (cs_exact (ev_subject (di_plan input))) (di_signal_nodes input) r"
    "distinct (map dr_id (di_signal_receipts input))"
  using assms
  by (auto simp: validate_input_def Let_def validate_assessments_def validate_signal_receipts_def res_simps list_ex_iff split: if_splits)

lemma evaluate_decision_iff:
  "evaluate_decision env i input = Some (Inr d) \<longleftrightarrow>
     validate_input env input = Inr () \<and> (\<exists>digest. digest_decision_input env input = Some (Inr digest) \<and>
       decision_from_engine i (di_plan input)
         (if decision_reasons input = [] then DO_Accept else dp_failure_outcome (di_policy input))
         (bt_values (collect_by as_evaluator (di_assessments input))) (sort_key dr_id (di_signal_receipts input))
         (if decision_reasons input = [] then [PolicySatisfied] else decision_reasons input) digest
         (dp_version (di_policy input)) (dp_digest (di_policy input)) = Inr d)"
  by (cases "validate_input env input"; cases "digest_decision_input env input")
    (auto simp: evaluate_decision_def also_then_def Let_def split: sum.splits)

lemma evidence_kinds_distinct:
  assumes "evidence_from_wire w = Inr evidence"
  shows "distinct (map ei_kind (em_items evidence))"
proof -
  obtain m where m: "evidence_from_parts (em_id w) (em_changeset_id w) (em_subject w) (em_constructed_at w)
      (em_requirements w) (em_items w) = Inr m" "em_items evidence = em_items m"
  proof (cases "em_inputs w = []")
    case True
    then show thesis using assms that by (auto simp: evidence_from_wire_def res_simps)
  next
    case False
    then show thesis using assms that by (auto simp: evidence_from_wire_def with_inputs_def res_simps)
  qed
  from m(1) have "distinct (map ei_kind (em_items m))"
    by (auto simp: evidence_from_parts_def res_simps has_adjacent_duplicate_iff Let_def split: if_splits)
  then show ?thesis by (simp add: m(2))
qed

lemma decision_policy_sound:
  assumes "decision_policy_try_new env version d = Inr policy"
  shows "dp_failure_outcome policy = df_failure_outcome d" "df_failure_outcome d \<noteq> DO_Accept"
    "length (dp_required_evidence policy) \<le> MAX_CRITERION_PACKS" "distinct (dp_required_evaluators policy)"
proof -
  from assms have d: "distinct (df_required_evaluators d)" "length (df_required_evidence d) \<le> MAX_CRITERION_PACKS"
    "df_failure_outcome d \<noteq> DO_Accept"
    by (auto simp: decision_policy_try_new_def validate_policy_keys_def res_simps split: if_splits)
  from assms have "dp_failure_outcome policy = df_failure_outcome d" "dp_required_evidence policy = sort (df_required_evidence d)"
    "dp_required_evaluators policy = sort (df_required_evaluators d)"
    by (auto simp: decision_policy_try_new_def Let_def res_simps split: if_splits)
  with d show "dp_failure_outcome policy = df_failure_outcome d" "df_failure_outcome d \<noteq> DO_Accept"
    "length (dp_required_evidence policy) \<le> MAX_CRITERION_PACKS" "distinct (dp_required_evaluators policy)" by simp_all
qed

text \<open>(C13) A recorded decision accepts exactly when every required piece of evidence is present and passed, every required
  evaluator assessed the candidate, no indeterminate assessment matters under the policy, no violation reaches the
  severity threshold and the quorum is met; it then gives the single reason that the policy is
  satisfied. Otherwise it has the failure outcome of the policy, which is never acceptance, and its reasons are exactly the rules that stand against
  acceptance.\<close>

theorem decision_exact:
  assumes evidence: "evidence_from_wire w = Inr (di_evidence input)"
    and policy: "decision_policy_try_new env0 version def = Inr (di_policy input)"
    and decided: "evaluate_decision env i input = Some (Inr d)"
  shows "(de_outcome d = DO_Accept \<longleftrightarrow> acceptable input) \<and>
    (if acceptable input then de_reasons d = [PolicySatisfied]
     else de_outcome d = df_failure_outcome def \<and> set (de_reasons d) = {r. reason_against input r})"
proof -
  have valid: "validate_input env input = Inr ()" using decided by (simp add: evaluate_decision_iff)
  note kinds = evidence_kinds_distinct [OF evidence]
  have reasons: "r \<in> set (decision_reasons input) \<longleftrightarrow> reason_against input r" for r
    using kinds validate_input_sound(8) [OF valid] by (rule decision_reasons_iff)
  then have "decision_reasons input = [] \<longleftrightarrow> acceptable input"
    unfolding acceptable_iff [OF kinds] by (metis empty_iff empty_set list.set_intros(1) neq_Nil_conv)
  moreover have "de_outcome d = (if decision_reasons input = [] then DO_Accept else dp_failure_outcome (di_policy input)) \<and>
      de_reasons d = (if decision_reasons input = [] then [PolicySatisfied] else decision_reasons input)"
    using decided by (auto simp: evaluate_decision_iff decision_from_engine_def res_simps split: if_splits)
  ultimately show ?thesis using decision_policy_sound(1,2) [OF policy] reasons by auto
qed

section \<open>Order of the inputs\<close>

lemma sort_mset: "mset xs = mset ys \<Longrightarrow> sort xs = sort (ys :: 'a::linorder list)"
  by (rule properties_for_sort) simp_all

lemma encode_assessments_map:
  "encode_assessments env as =
     (if \<exists>a\<in>set as. assessment_bytes env a = None then None else Some (map (\<lambda>a. the (assessment_bytes env a)) as))"
  by (induction as) (auto simp: bind_eq_None_conv)

text \<open>Every assessment that is refused is refused with the same error.\<close>

lemma bindings_error:
  assumes "as_plan_id a = ev_id plan" and "as_subject a = ev_subject plan"
  shows "assessment_validate_bindings env a plan evidence \<in>
    {Inr (), Inl (case evaluation_plan_digest env plan of Inl e \<Rightarrow> e | Inr _ \<Rightarrow> invalid_reference ''assessment bindings'')}"
  using assms by (cases "evaluation_plan_digest env plan") (auto simp: assessment_validate_bindings_def Let_def)

lemma try_each_const_error:
  assumes "\<forall>x\<in>set xs. f x \<in> {Inr (), Inl e}"
  shows "try_each f xs = (if \<exists>x\<in>set xs. f x \<noteq> Inr () then Inl e else Inr ())"
  using assms by (induction xs) auto

lemma validate_assessments_mset:
  assumes "mset as = mset bs"
  shows "validate_assessments env plan evidence as = validate_assessments env plan evidence bs"
proof -
  note same = mset_eq_setD [OF assms]
  have d2: "distinct (map as_evaluator as) \<longleftrightarrow> distinct (map as_evaluator bs)"
    by (rule mset_eq_imp_distinct_iff) (simp add: assms)
  have d1: "distinct (map as_id as) \<longleftrightarrow> distinct (map as_id bs)"
    by (rule mset_eq_imp_distinct_iff) (simp add: assms)
  show ?thesis
  proof (cases "\<forall>a\<in>set bs. as_plan_id a = ev_id plan \<and> as_subject a = ev_subject plan")
    case True
    then have "\<forall>a\<in>set bs. assessment_validate_bindings env a plan evidence \<in>
        {Inr (), Inl (case evaluation_plan_digest env plan of Inl e \<Rightarrow> e | Inr _ \<Rightarrow> invalid_reference ''assessment bindings'')}"
      using bindings_error by blast
    note each = try_each_const_error [OF this] try_each_const_error [OF this [folded same]]
    show ?thesis unfolding validate_assessments_def list_ex_iff same d1 d2 each ..
  next
    case False
    then show ?thesis unfolding validate_assessments_def list_ex_iff same by auto
  qed
qed

lemma validate_receipts_mset:
  assumes "mset rs = mset ss"
  shows "validate_signal_receipts env plan rs nodes = validate_signal_receipts env plan ss nodes"
proof -
  have "distinct (map dr_id rs) \<longleftrightarrow> distinct (map dr_id ss)"
    "distinct (map (\<lambda>r. rq_id (pq_request (dr_request r))) rs) \<longleftrightarrow> distinct (map (\<lambda>r. rq_id (pq_request (dr_request r))) ss)"
    by (rule mset_eq_imp_distinct_iff, simp add: assms)+
  then show ?thesis unfolding validate_signal_receipts_def list_ex_iff mset_eq_setD [OF assms] by simp
qed

lemma digest_input_mset:
  assumes "mset as = mset (di_assessments input)" and "mset rs = mset (di_signal_receipts input)"
  shows "digest_decision_input env (input\<lparr>di_assessments := as, di_signal_receipts := rs\<rparr>) = digest_decision_input env input"
proof -
  have sorted: "sort (map f as) = sort (map f (di_assessments input))" for f :: "Assessment \<Rightarrow> u8 list"
    by (rule sort_mset) (simp add: assms)
  have receipts: "sort (map encode_signal_receipt rs) = sort (map encode_signal_receipt (di_signal_receipts input))"
    by (rule sort_mset) (simp add: assms)
  show ?thesis
    unfolding digest_decision_input_def encode_assessments_map mset_eq_setD [OF assms(1)]
    by (cases "\<exists>a\<in>set (di_assessments input). assessment_bytes env a = None")
      (auto simp: sorted receipts mset_eq_setD [OF assms(1)])
qed

text \<open>(C18) A decision does not depend on the order in which its assessments and its signal receipts are given: every
  permutation gives the same result, the recorded decision with its digest or the same error.\<close>

theorem decision_order_independent:
  assumes assessments: "mset as = mset (di_assessments input)" and receipts: "mset rs = mset (di_signal_receipts input)"
  shows "evaluate_decision env i (input\<lparr>di_assessments := as, di_signal_receipts := rs\<rparr>) = evaluate_decision env i input"
proof -
  let ?other = "input\<lparr>di_assessments := as, di_signal_receipts := rs\<rparr>"
  have valid: "validate_input env ?other = validate_input env input"
    using mset_eq_length [OF assessments] mset_eq_length [OF receipts]
    by (simp add: validate_input_def Let_def validate_assessments_mset [OF assessments] validate_receipts_mset [OF receipts])
  show ?thesis
  proof (cases "validate_input env input")
    case (Inl e)
    then show ?thesis by (simp add: evaluate_decision_def valid)
  next
    case (Inr u)
    then have ok: "validate_input env input = Inr ()" by simp
    have d: "distinct (map as_evaluator (di_assessments input))" using ok by (rule validate_input_sound)
    then have "distinct (map as_evaluator as)" using mset_eq_imp_distinct_iff [of "map as_evaluator as" "map as_evaluator (di_assessments input)"]
      by (simp add: assessments)
    then have collected: "collect_by as_evaluator as = collect_by as_evaluator (di_assessments input)"
      using d by (simp add: collect_by_distinct sort_key_unique [OF assessments d])
    then have reasons: "decision_reasons ?other = decision_reasons input"
      by (simp add: decision_reasons_def mset_eq_length [OF assessments])
    have "sort_key dr_id rs = sort_key dr_id (di_signal_receipts input)"
      using receipts validate_input_sound(11) [OF ok] by (rule sort_key_unique)
    then show ?thesis
      unfolding evaluate_decision_def valid digest_input_mset [OF assms] reasons by (simp add: collected Let_def)
  qed
qed

section \<open>Decisions over a completed evaluation\<close>

lemma prepared_evaluators:
  assumes policy: "evaluation_policy_try_new packs evaluators quorum budget = Inr policy"
    and prepared: "prepare_evaluation_plan d evidence policy capabilities = Inr (Plan_Ready plan)"
  shows "length (concat (map branch_evaluators (ev_branches plan))) \<le> MAX_EVALUATORS"
proof -
  have valid: "validate_plan_definition d evidence policy = Inr ()"
    using prepared by (auto simp: prepare_evaluation_plan_def res_simps)
  from prepared have "ev_branches plan = sort_key rb_key (sort_key rb_key (pd_branches d))"
    by (auto simp: prepare_evaluation_plan_def Let_def res_simps plan_from_parts_iff split: if_splits option.splits)
  then have "length (concat (map branch_evaluators (ev_branches plan))) = length (concat (map branch_evaluators (pd_branches d)))"
    by (simp only: length_sort_concat)
  then show ?thesis using validate_plan_definition_sound(7) [OF valid] policy_sound(3) [OF policy] by simp
qed

lemma identity_iff: "has_evaluator_identity plan e \<longleftrightarrow> e \<in> fst ` set (concat (map branch_evaluators (ev_branches plan)))"
  by (auto simp: has_evaluator_identity_def branch_evaluators_def list_ex_iff image_iff)

lemma bound_evaluator:
  assumes "assessment_validate_bindings env a plan evidence = Inr ()"
  shows "has_evaluator plan (as_evaluator_reference a)" and "has_evaluator_identity plan (as_evaluator a)"
    and "\<exists>digest. evaluation_plan_digest env plan = Inr digest"
proof -
  show has: "has_evaluator plan (as_evaluator_reference a)" and "\<exists>digest. evaluation_plan_digest env plan = Inr digest"
    using assms by (auto simp: assessment_validate_bindings_def Let_def as_evaluator_reference_def res_simps split: if_splits)
  from has show "has_evaluator_identity plan (as_evaluator a)"
    by (force simp: has_evaluator_def has_evaluator_identity_def list_ex_iff allows_evaluator_def as_evaluator_def as_evaluator_reference_def)
qed

lemma length_map_filter: "length (List.map_filter f xs) \<le> length xs"
  by (induction xs) (auto simp: List.map_filter_simps split: option.splits)

text \<open>Every evaluator of the plan gives at most one reason: it is missing, or its assessment stands against.\<close>

lemma evaluate_assessments_bound:
  assumes "distinct (map as_evaluator xs)" and "distinct (dp_required_evaluators policy)"
    and "\<forall>e\<in>set (dp_required_evaluators policy). has_evaluator_identity plan e" and "\<forall>a\<in>set xs. has_evaluator_identity plan (as_evaluator a)"
  shows "length (evaluate_assessments policy (collect_by as_evaluator xs)) \<le> length (concat (map branch_evaluators (ev_branches plan)))"
proof -
  let ?missing = "filter (\<lambda>e. bt_get (collect_by as_evaluator xs) e = None) (dp_required_evaluators policy)"
  have "length (evaluate_assessments policy (collect_by as_evaluator xs)) \<le> length ?missing + length (collect_by as_evaluator xs)"
    unfolding evaluate_assessments_def by (simp add: length_map_filter)
  also have "\<dots> = length (?missing @ map as_evaluator xs)" by (simp add: collect_by_distinct [OF assms(1)])
  also have "\<dots> = card (set (?missing @ map as_evaluator xs))"
    using assms(1,2) by (intro distinct_card [symmetric]) (auto simp: collect_by_get(2) [OF assms(1)])
  also have "\<dots> \<le> card (fst ` set (concat (map branch_evaluators (ev_branches plan))))"
    using assms(3,4) by (intro card_mono) (auto simp: identity_iff simp del: set_concat)
  also have "\<dots> \<le> length (concat (map branch_evaluators (ev_branches plan)))"
    by (rule le_trans [OF card_image_le card_length]) simp
  finally show ?thesis .
qed

lemma decision_reasons_bound:
  assumes policy: "decision_policy_try_new env0 version def = Inr (di_policy input)" and valid: "validate_input env input = Inr ()"
    and evaluators: "length (concat (map branch_evaluators (ev_branches (di_plan input)))) \<le> MAX_EVALUATORS"
  shows "length (decision_reasons input) \<le> MAX_DECISION_REASONS"
proof -
  have "length (evaluate_required_evidence (di_policy input) (collect_by ei_kind (em_items (di_evidence input)))) \<le> MAX_CRITERION_PACKS"
    unfolding evaluate_required_evidence_def
    using le_trans [OF length_map_filter decision_policy_sound(3) [OF policy]] .
  moreover have "length (evaluate_assessments (di_policy input) (collect_by as_evaluator (di_assessments input))) \<le> MAX_EVALUATORS"
    using le_trans [OF evaluate_assessments_bound evaluators] validate_input_sound(3,8,9) [OF valid]
      decision_policy_sound(4) [OF policy] bound_evaluator(2) by blast
  ultimately show ?thesis unfolding decision_reasons_def MAX_DECISION_REASONS_def length_append
    by (cases "length (di_assessments input) < unat (dp_quorum (di_policy input))") simp_all
qed

lemma completed_selection:
  assumes completed: "from_completed_evaluation evidence plan policy p assessments receipts = Inr input"
  obtains ids where "decision_bindings p plan = Inr (ids, di_signal_nodes input)" and "map as_id (di_assessments input) = ids"
    and "set (di_assessments input) \<subseteq> set assessments" and "di_assessments input \<noteq> []"
    and "di_plan input = plan" "di_evidence input = evidence" "di_policy input = policy" "di_signal_receipts input = receipts"
proof -
  note selection = that
  from completed obtain ids selected where ids: "decision_bindings p plan = Inr (ids, di_signal_nodes input)"
    and selected: "try_map (\<lambda>i. ok_or (invalid_reference ''evaluation decision assessment'') (find (\<lambda>a. as_id a = i) assessments)) ids = Inr selected"
    and input: "di_plan input = plan" "di_evidence input = evidence" "di_policy input = policy" "di_signal_receipts input = receipts"
      "di_assessments input = selected"
    by (auto simp: from_completed_evaluation_def res_simps split: prod.splits)
  from selected have each: "list_all2 (\<lambda>i a. find (\<lambda>a. as_id a = i) assessments = Some a) ids selected"
    by (auto simp: res_simps)
  then have "map as_id selected = ids" and sub: "set selected \<subseteq> set assessments"
    by (induction rule: list_all2_induct) (auto dest!: find_selects)
  moreover have "ids \<noteq> []"
  proof -
    from ids have "pg_required_quorum p \<noteq> 0"
      by (auto simp: decision_bindings_def validate_plan_binding_def progress_from_plan_def progress_try_new_def res_simps split: if_splits)
    then have "0 < unat (pg_required_quorum p)" by (simp add: unat_gt_0)
    with join_branches(6) [OF ids] show ?thesis by auto
  qed
  ultimately show thesis using ids input by (intro selection [of ids]) auto
qed

lemma bt_values_collect: "distinct (map key xs) \<Longrightarrow> bt_values (collect_by key xs) = sort_key key xs"
  by (simp add: collect_by_distinct bt_values_def comp_def)

lemma decision_built:
  assumes "length as \<le> MAX_DECISION_ASSESSMENTS" and "length rs \<le> MAX_DECISION_SIGNAL_RECEIPTS"
    and "1 \<le> length reasons \<and> length reasons \<le> MAX_DECISION_REASONS"
    and "\<forall>a\<in>set as. as_plan_id a = ev_id plan \<and> as_subject a = ev_subject plan"
    and "distinct (map as_id as)" and "distinct (map dr_id rs)"
  shows "\<exists>d. decision_from_engine i plan outcome as rs reasons input_digest policy_version policy_digest = Inr d \<and>
    de_plan_id d = ev_id plan \<and> de_subject d = ev_subject plan \<and> de_assessment_ids d = map as_id as \<and> de_signal_receipt_ids d = map dr_id rs"
  using assms by (auto simp: decision_from_engine_def validate_review_count_def list_ex_iff)

lemma decision_evaluated:
  assumes policy: "decision_policy_try_new env0 version def = Inr (di_policy input)" and valid: "validate_input env input = Inr ()"
    and evaluators: "length (concat (map branch_evaluators (ev_branches (di_plan input)))) \<le> MAX_EVALUATORS"
    and assessed: "di_assessments input \<noteq> []" and encoded: "\<forall>a\<in>set (di_assessments input). assessment_bytes env a \<noteq> None"
  obtains d where "evaluate_decision env i input = Some (Inr d)" and "de_plan_id d = ev_id (di_plan input)"
    and "de_subject d = ev_subject (di_plan input)" and "de_assessment_ids d = map as_id (sort_key as_evaluator (di_assessments input))"
    and "de_signal_receipt_ids d = map dr_id (sort_key dr_id (di_signal_receipts input))"
proof -
  note decided = that
  note sound = validate_input_sound [OF valid]
  from assessed sound(9) obtain digest where "evaluation_plan_digest env (di_plan input) = Inr digest"
    using bound_evaluator(3) by (metis last_in_set)
  then obtain input_digest where digest: "digest_decision_input env input = Some (Inr input_digest)"
    using encoded by (auto simp: digest_decision_input_def encode_assessments_map)
  let ?reasons = "if decision_reasons input = [] then [PolicySatisfied] else decision_reasons input"
  have reasons: "1 \<le> length ?reasons \<and> length ?reasons \<le> MAX_DECISION_REASONS"
    using decision_reasons_bound [OF policy valid evaluators] by (auto simp: Suc_le_eq MAX_DECISION_REASONS_def)
  have "\<exists>d. decision_from_engine i (di_plan input) outcome (bt_values (collect_by as_evaluator (di_assessments input)))
      (sort_key dr_id (di_signal_receipts input)) ?reasons input_digest policy_version policy_digest = Inr d \<and>
      de_plan_id d = ev_id (di_plan input) \<and> de_subject d = ev_subject (di_plan input) \<and>
      de_assessment_ids d = map as_id (sort_key as_evaluator (di_assessments input)) \<and>
      de_signal_receipt_ids d = map dr_id (sort_key dr_id (di_signal_receipts input))" for outcome policy_version policy_digest
    using sound(4-8,11) reasons by (subst bt_values_collect [OF sound(8)], intro decision_built) simp_all
  then show thesis using decided valid digest by (auto simp: evaluate_decision_iff)
qed

text \<open>(C17) Over a completed evaluation of a prepared plan, whose assessments have distinct identities and
  can be serialized, the engine fails only if the validation of its inputs does, with that error. When the inputs validate, it
  records a decision: the reasons stay within the limit of 65, because a prepared plan has at most 32
  evaluators and each gives at most one reason, and the decision passes the check of its bindings
  against the same plan, progress, assessments and receipts, so a stored decision is accepted again.\<close>

theorem completed_decision_recorded:
  assumes evaluation_policy: "evaluation_policy_try_new packs evaluators quorum budget = Inr epolicy"
    and prepared: "prepare_evaluation_plan pd evidence epolicy capabilities = Inr (Plan_Ready plan)"
    and policy: "decision_policy_try_new env0 version def = Inr dpolicy"
    and completed: "from_completed_evaluation evidence plan dpolicy p assessments receipts = Inr input"
    and ids: "distinct (map as_id assessments)"
    and encoded: "\<forall>a\<in>set assessments. assessment_bytes env a \<noteq> None"
  shows "case validate_input env input of
      Inl e \<Rightarrow> evaluate_decision env i input = Some (Inl e)
    | Inr _ \<Rightarrow> \<exists>d. evaluate_decision env i input = Some (Inr d) \<and>
        length (de_reasons d) \<le> MAX_DECISION_REASONS \<and> decision_validate_bindings env d plan p assessments receipts = Inr ()"
proof (cases "validate_input env input")
  case (Inl e)
  then show ?thesis by (simp add: evaluate_decision_def)
next
  case (Inr u)
  then have valid: "validate_input env input = Inr ()" by simp
  obtain accepted where join: "decision_bindings p plan = Inr (accepted, di_signal_nodes input)"
    and accepted: "map as_id (di_assessments input) = accepted"
    and selected: "set (di_assessments input) \<subseteq> set assessments" "di_assessments input \<noteq> []"
    and input: "di_plan input = plan" "di_policy input = dpolicy" "di_signal_receipts input = receipts"
    using completed by (rule completed_selection)
  have evaluators: "length (concat (map branch_evaluators (ev_branches (di_plan input)))) \<le> MAX_EVALUATORS"
    unfolding input using evaluation_policy prepared by (rule prepared_evaluators)
  have encoded: "\<forall>a\<in>set (di_assessments input). assessment_bytes env a \<noteq> None" using encoded selected by blast
  obtain d where d: "evaluate_decision env i input = Some (Inr d)" "de_plan_id d = ev_id plan" "de_subject d = ev_subject plan"
    "de_assessment_ids d = map as_id (sort_key as_evaluator (di_assessments input))" "de_signal_receipt_ids d = map dr_id (sort_key dr_id receipts)"
    by (rule decision_evaluated [OF policy [folded input(2)] valid evaluators selected(2) encoded]) (simp add: input)
  note sound = validate_input_sound [OF valid, unfolded input]
  have "map_of (rev (map (\<lambda>a. (as_id a, a)) assessments)) (as_id a) = Some a" if "a \<in> set (di_assessments input)" for a
    using that selected ids by (intro map_of_is_SomeI) (auto simp: rev_map [symmetric] comp_def)
  moreover have "map_of (rev (map (\<lambda>r. (dr_id r, r)) receipts)) (dr_id r) = Some r" if "r \<in> set receipts" for r
    using that sound(11) by (intro map_of_is_SomeI) (auto simp: rev_map [symmetric] comp_def)
  moreover have "list_ex (\<lambda>b. allows_evaluator b (as_evaluator_reference a)) (ev_branches plan)" if "a \<in> set (di_assessments input)" for a
    using bound_evaluator(1) sound(9) that unfolding has_evaluator_def by blast
  moreover have "set accepted = set (de_assessment_ids d)" unfolding d(4) accepted [symmetric] by simp
  ultimately have "decision_validate_bindings env d plan p assessments receipts = Inr ()"
    using sound d by (auto simp: decision_validate_bindings_def join res_simps list_all_iff is_some_and_def)
  moreover have "length (de_reasons d) \<le> MAX_DECISION_REASONS"
    using d(1) by (auto simp: evaluate_decision_iff decision_from_engine_def res_simps split: if_splits)
  ultimately show ?thesis using d(1) valid by auto
qed

section \<open>A decision on one candidate\<close>

definition sample_review_env :: "unit review_json" where
  "sample_review_env = \<lparr>json_sha256 = \<lambda>_. replicate 32 5, node_input_bytes = \<lambda>_. Some [], context_bytes = \<lambda>_. Some [],
     canonical_document = Some, signal_criteria = \<lambda>_ _ _ _ _ _ _. [], plan_bytes = \<lambda>_. Some [], evidence_bytes = \<lambda>_. Some [],
     finding_bytes = \<lambda>_ _ _ _. Some [], assessment_bytes = \<lambda>_. Some [], uuid_text = \<lambda>_. lit ''id''\<rparr>"

definition sample_finding :: AssessmentFinding where
  "sample_finding = \<lparr>af_finding = AK_Violation FS_High, af_summary = lit ''s'', af_evidence = [(lit ''tests'', 21, replicate 32 3, 10)],
     af_remediation = lit ''r'', af_fingerprint = replicate 32 5\<rparr>"

definition sample_assessment :: "uuid \<Rightarrow> string \<Rightarrow> Assessment" where
  "sample_assessment i evaluator = \<lparr>as_id = i, as_plan_id = 41, as_subject = sample_candidate, as_outcome = AO_Violated,
     as_summary = \<lparr>bs_schema_version = 1, bs_subject = TS_Candidate sample_candidate, bs_content = lit ''c'',
       bs_content_digest = replicate 32 5, bs_provenance_digest = replicate 32 5\<rparr>,
     as_findings = [sample_finding],
     as_provenance = \<lparr>ap_plan_digest = replicate 32 5, ap_evidence_id = 11, ap_criterion_packs = [sample_signal_ref ''criteria''],
       ap_evaluator = sample_signal_ref evaluator, ap_model = sample_signal_ref ''model'', ap_prompt_digest = replicate 32 5,
       ap_result = (61, replicate 32 5, 10), ap_record = (62, replicate 32 5, 10)\<rparr>\<rparr>"

definition sample_decision_definition :: DecisionPolicyDefinition where
  "sample_decision_definition = \<lparr>df_required_evidence = [lit ''tests''], df_required_evaluators = [lit ''evaluator''], df_quorum = 1,
     df_severity_threshold = FS_High, df_indeterminate_policy = IP_RequiredOnly, df_failure_outcome = DO_Rework\<rparr>"

definition sample_decision_policy :: DecisionPolicy where
  "sample_decision_policy = \<lparr>dp_version = 1, dp_digest = replicate 32 5, dp_required_evidence = [lit ''tests''],
     dp_required_evaluators = [lit ''evaluator''], dp_quorum = 1, dp_severity_threshold = FS_High,
     dp_indeterminate_policy = IP_RequiredOnly, dp_failure_outcome = DO_Rework\<rparr>"

definition sample_branch_result :: EvaluationBranchResult where
  "sample_branch_result = \<lparr>br_branch = lit ''security'', br_evaluator = sample_signal_ref ''evaluator'', br_assessment_id = 71,
     br_node_attempt_id = 72, br_factory_run_id = 73, br_input_digest = replicate 32 5, br_context_manifest_id = 74,
     br_context_digest = replicate 32 5, br_substituted = False\<rparr>"

definition sample_progress :: EvaluationProgress where
  "sample_progress = \<lparr>pg_branches = [\<lparr>eb_key = lit ''security'', eb_required = True, eb_state = BS_Completed,
     eb_evaluator = sample_signal_ref ''evaluator'', eb_substitutes = [], eb_result = Some sample_branch_result\<rparr>], pg_required_quorum = 1\<rparr>"

definition sample_decision_input :: DecisionEngineInput where
  "sample_decision_input = \<lparr>di_evidence = sample_evidence, di_plan = sample_plan, di_policy = sample_decision_policy,
     di_assessments = [sample_assessment 71 ''evaluator''], di_signal_receipts = [],
     di_signal_nodes = [(73, 72, replicate 32 5)]\<rparr>"

lemma sample_decision_policy_built:
  "decision_policy_try_new sample_review_env 1 sample_decision_definition = Inr sample_decision_policy"
  by (simp add: decision_policy_try_new_def validate_policy_keys_def sample_decision_definition_def sample_decision_policy_def
      MAX_CRITERION_PACKS_def MAX_EVALUATORS_def digest_policy_def factory_digest_sha256_def sample_review_env_def)

lemma sample_joined: "decision_bindings sample_progress sample_plan = Inr ([71], [(73, 72, replicate 32 5)])"
  by (simp add: decision_bindings_def validate_plan_binding_def progress_from_plan_def progress_try_new_def sample_progress_def
      sample_plan_def sample_branch_def review_branch_new_def branch_from_review_branch_def MAX_EVALUATORS_def
      List.map_filter_simps sample_branch_result_def branch_open_def)

lemma sample_completed:
  "from_completed_evaluation sample_evidence sample_plan sample_decision_policy sample_progress [sample_assessment 71 ''evaluator''] [] =
     Inr sample_decision_input"
  by (simp add: from_completed_evaluation_def sample_joined sample_decision_input_def, simp add: sample_assessment_def)

lemma sample_digest: "evaluation_plan_digest sample_review_env plan = Inr (replicate 32 5)"
  by (simp add: evaluation_plan_digest_def sample_review_env_def factory_digest_sha256_def)

lemma sample_bound:
  "assessment_validate_bindings sample_review_env (sample_assessment 71 ''evaluator'') sample_plan sample_evidence = Inr ()"
  by (simp add: assessment_validate_bindings_def sample_digest Let_def, simp add: sample_assessment_def sample_plan_def sample_evidence_def
      sample_finding_def sample_pack_def sample_evidence_item_def evidence_item_def has_evaluator_def allows_evaluator_def
      sample_branch_def review_branch_new_def sample_signal_ref_def)

lemma sample_input_valid: "validate_input sample_review_env sample_decision_input = Inr ()"
proof -
  have "validate_assessments sample_review_env sample_plan sample_evidence [sample_assessment 71 ''evaluator''] = Inr ()"
    by (simp add: validate_assessments_def sample_bound, simp add: sample_assessment_def sample_plan_def)
  then show ?thesis
    by (simp add: validate_input_def sample_decision_input_def validate_signal_receipts_def MAX_DECISION_ASSESSMENTS_def,
        simp add: sample_plan_def sample_evidence_def sample_decision_policy_def evaluator_count_def has_evaluator_identity_def
          sample_branch_def review_branch_new_def sample_signal_ref_def)
qed

lemma sample_evidence_restored: "evidence_from_wire sample_evidence = Inr sample_evidence"
  by (simp add: evidence_from_wire_def evidence_from_parts_def sample_evidence_def sample_evidence_item_def requirement_met_def
      validate_review_count_def MAX_EVIDENCE_ITEMS_def sample_signal_ref_def has_adjacent_duplicate_iff Let_def)

lemma sample_decided:
  obtains d where "evaluate_decision sample_review_env 51 sample_decision_input = Some (Inr d)"
proof (rule decision_evaluated [of sample_review_env 1 sample_decision_definition sample_decision_input sample_review_env])
  show "decision_policy_try_new sample_review_env 1 sample_decision_definition = Inr (di_policy sample_decision_input)"
    by (simp add: sample_decision_policy_built sample_decision_input_def)
  show "length (concat (map branch_evaluators (ev_branches (di_plan sample_decision_input)))) \<le> MAX_EVALUATORS"
    by (simp add: sample_decision_input_def sample_plan_def sample_branch_def review_branch_new_def branch_evaluators_def MAX_EVALUATORS_def)
qed (use that sample_input_valid in \<open>auto simp: sample_decision_input_def sample_review_env_def\<close>)

theorem decision_exact_witness:
  "\<exists>d. evaluate_decision sample_review_env 51 sample_decision_input = Some (Inr d) \<and> de_outcome d = DO_Rework \<and>
     SeverityThresholdExceeded (lit ''evaluator'') FS_High \<in> set (de_reasons d)"
proof (rule sample_decided)
  fix d assume d: "evaluate_decision sample_review_env 51 sample_decision_input = Some (Inr d)"
  have fields: "di_evidence sample_decision_input = sample_evidence" "di_policy sample_decision_input = sample_decision_policy"
    "di_assessments sample_decision_input = [sample_assessment 71 ''evaluator'']"
    by (simp_all add: sample_decision_input_def)
  have against: "reason_against sample_decision_input (SeverityThresholdExceeded (lit ''evaluator'') FS_High)"
    by (simp add: fields sample_assessment_def sample_finding_def has_severity_def finding_severity_def as_evaluator_def
        sample_signal_ref_def sample_decision_policy_def)
  have kinds: "distinct (map ei_kind (em_items (di_evidence sample_decision_input)))" by (simp add: fields sample_evidence_def)
  have "\<not> acceptable sample_decision_input" using against unfolding acceptable_iff [OF kinds] by blast
  with decision_exact [of sample_evidence sample_decision_input sample_review_env 1 sample_decision_definition sample_review_env 51 d]
    sample_evidence_restored sample_decision_policy_built d against
  show ?thesis by (intro exI [of _ d]) (auto simp: fields sample_decision_definition_def)
qed

theorem decision_order_independent_witness:
  "evaluate_decision sample_review_env 51 (sample_decision_input\<lparr>
       di_assessments := [sample_assessment 75 ''other'', sample_assessment 71 ''evaluator''], di_signal_receipts := []\<rparr>) =
   evaluate_decision sample_review_env 51 (sample_decision_input\<lparr>
       di_assessments := [sample_assessment 71 ''evaluator'', sample_assessment 75 ''other'']\<rparr>)"
  using decision_order_independent [of "[sample_assessment 75 ''other'', sample_assessment 71 ''evaluator'']"
      "sample_decision_input\<lparr>di_assessments := [sample_assessment 71 ''evaluator'', sample_assessment 75 ''other'']\<rparr>" "[]" sample_review_env 51]
  by (simp add: sample_decision_input_def)

theorem completed_decision_recorded_witness:
  "\<exists>d. evaluate_decision sample_review_env 51 sample_decision_input = Some (Inr d) \<and>
     decision_validate_bindings sample_review_env d sample_plan sample_progress [sample_assessment 71 ''evaluator''] [] = Inr ()"
proof -
  have "distinct (map as_id [sample_assessment 71 ''evaluator''])" by simp
  moreover have "\<forall>a\<in>set [sample_assessment 71 ''evaluator'']. assessment_bytes sample_review_env a \<noteq> None"
    by (simp add: sample_review_env_def)
  ultimately show ?thesis
    using completed_decision_recorded [OF sample_policy_built sample_prepared sample_decision_policy_built sample_completed,
        of sample_review_env 51] sample_input_valid by auto
qed

end
