(* ===== verification/Spec2Isabelle.thy ===== *)
theory Spec2Isabelle
  imports Orchestrator_Correct Pipeline_Correct Scheduler_Correct Trigger Artifacts Cache Secrets Factory_Budget Flow_Runtime_Correct Flow_Gate_Correct Runner_Redaction_Text Runner_Events_Correct Decision_Correct
begin

text \<open>
  Verification of the decision core of OctaCity.

  \<^bold>\<open>The program.\<close> OctaCity is a build and work orchestration server with remote Agents. Its core crates
  (\<^verbatim>\<open>server/core\<close>) decide and its other layers execute: a Trigger occurrence starts a Build of a
  published Pipeline version; the Orchestrator derives the Job graph of every Attempt and reconciles it
  after each change; the Scheduler places ready Jobs on Agents through signed execution targets; the Job
  produces Artifacts and log chunks, uses caches under a session policy and secrets under delegated
  grants. The Factory part admits Flow definitions, that is control graphs of nodes with budgets,
  permissions and routes, pins their closures, and interprets the durable history of a running flow;
  it consumes bounded signals of external decision services, prepares reviews of candidates, follows
  their evaluators and decides from evidence and assessments. On the Agent, the supervisor of a runner removes credentials from everything the runner emits.

  \<^bold>\<open>Conventions.\<close> Integers keep their width as words (\<open>u8\<close> to \<open>u64\<close>, \<open>uuid\<close> of 128 bits), with
  \<^verbatim>\<open>checked_add\<close> and its relatives as functions into \<open>option\<close>; lengths of collections are natural
  numbers. A Rust string is the list of its characters, \<^verbatim>\<open>Result\<close> is a sum whose left side is the error,
  a panic is the value \<open>None\<close> where the code can panic, and \<^verbatim>\<open>BTreeMap\<close> and \<^verbatim>\<open>BTreeSet\<close> are sorted
  lists with the laws of the locale \<open>ordered_map\<close>. Every definition that models code is executable.

  \<^bold>\<open>Shared theories.\<close>
  \<^item> \<open>Octa_Prelude\<close>: words, results, sequencing of fallible steps, the rule collections.
  \<^item> \<open>Octa_Containers\<close>: ordered maps and sets. \<open>Octa_Bytes\<close>: big-endian encodings and hexadecimal text.
  \<^item> \<open>Octa_Contracts\<close>: the locales that state the contracts of several components, each interpreted on
    the operations of the components: \<open>invariant_system\<close> (predicates kept by every transition),
    \<open>lifecycle\<close> and \<open>ranked_lifecycle\<close> (terminal states are final; every run is bounded),
    \<open>versioned_entity\<close> (each accepted change advances the optimistic version), \<open>dependency_source\<close>
    (closed graphs given by direct predecessors, and their induction when acyclic).

  \<^bold>\<open>Server core.\<close>
  \<^item> \<open>Domain\<close>, \<open>Source_Values\<close>, \<open>Canonical_Json\<close>: value objects of \<^verbatim>\<open>octacity-server-domain\<close>
    (\<^verbatim>\<open>id.rs\<close>, \<^verbatim>\<open>version.rs\<close>, \<^verbatim>\<open>name.rs\<close>, \<^verbatim>\<open>identity.rs\<close>, \<^verbatim>\<open>time.rs\<close>, \<^verbatim>\<open>execution.rs\<close>, \<^verbatim>\<open>source.rs\<close>, \<^verbatim>\<open>json.rs\<close>):
    what each constructor accepts, and that canonical JSON is bounded, sorted and a fixed point.
  \<^item> \<open>Job_State\<close> (\<^verbatim>\<open>octacity-server-job/src/lib.rs\<close>): the Job machine; a requested cancellation is final.
  \<^item> \<open>Pipeline_Policy\<close>, \<open>Pipeline_Dag\<close> (\<^verbatim>\<open>octacity-server-pipeline\<close>): fan-in policies and the validating
    constructor. \<open>Pipeline_Kahn\<close> shows that the sort returns the greedy topological order exactly of
    acyclic graphs, \<open>Pipeline_Correct\<close> that construction never panics, which invariants a DAG has, and that
    it survives serialization and publication.
  \<^item> \<open>Orchestrator_State\<close>, \<open>Orchestrator_Reconcile\<close> (\<^verbatim>\<open>octacity-server-orchestrator\<close>): the Attempt, Build
    and orchestration machines, retry, cancellation, validation and reconciliation of Job graphs.
    \<open>Orchestrator_Validation\<close> shows that the depth first search accepts exactly the acyclic graphs,
    \<open>Orchestrator_Fixpoint\<close> that the loop computes the unique settled assignment, the abstract
    specification that \<open>Orchestrator_Correct\<close> refines it to; the latter also has replay, progress and the
    composition of cancellation with reconciliation.
  \<^item> \<open>Execution_Contract\<close> (\<^verbatim>\<open>shared/octacity-protocol/src/execution.rs\<close>), \<open>Scheduler\<close>
    (\<^verbatim>\<open>octacity-server-scheduler\<close>): targets, capabilities, leases, Pools and placement.
    \<open>Scheduler_Correct\<close>: a match is enforceable and does not depend on provider names.
  \<^item> \<open>Trigger\<close> (\<^verbatim>\<open>octacity-server-trigger\<close>): occurrences, internal causality and schedules, with the
    bounds on due batches and lineages.
  \<^item> \<open>Artifacts\<close>, \<open>Cache\<close>, \<open>Secrets\<close> (the crates of these names): records with retention and log chunk
    manifests; namespaces, sessions and blob verification; references, grants and credential values.

  \<^bold>\<open>Factory\<close> (\<^verbatim>\<open>octacity-server-factory\<close>).
  \<^item> \<open>Factory_Budget\<close> (\<^verbatim>\<open>budget.rs\<close>, \<^verbatim>\<open>budget_cost.rs\<close>), \<open>Factory_Values\<close> (\<^verbatim>\<open>value.rs\<close>): limits, usage and
    cost arithmetic; bounded values and the framed encodings that are hashed. The locale \<open>prefix_code\<close>
    states that concatenated encodings can be told apart.
  \<^item> \<open>Factory_Permission\<close> (\<^verbatim>\<open>permission.rs\<close>): sets, intersection, comparison, wire form, digests and the
    resolution against a local ceiling. \<open>Factory_Permission_Correct\<close> gives sets a meaning, the requests
    they permit, and proves the operations exact with respect to it; the locale \<open>grant_meet\<close> is the law
    that command and mount intersections share.
  \<^item> \<open>Factory_Graph\<close> (\<^verbatim>\<open>graph.rs\<close>, \<^verbatim>\<open>flow_graph.rs\<close>): the analysis of control graphs.
    \<open>Factory_Graph_Search\<close> and \<open>Factory_Graph_Correct\<close> prove it exact, the two depth first searches
    for strongly connected components included.
  \<^item> \<open>Flow_Definition\<close>, \<open>Flow_Validation\<close>, \<open>Flow_Correct\<close> (\<^verbatim>\<open>flow/contract.rs\<close>, \<^verbatim>\<open>flow/definition.rs\<close>,
    \<^verbatim>\<open>flow/validation.rs\<close>): definitions, their validation, and what an accepted definition guarantees.
    \<open>Flow_Issue_Slots\<close>, \<open>Flow_Issue_Slots_Correct\<close> (\<^verbatim>\<open>flow/issue_slots.rs\<close>, the slots of
    \<^verbatim>\<open>flow/issue_presentation.rs\<close>): the expanded graph of a closure and the search for two outcomes that could
    publish to one issue slot, which returns on closures of accepted definitions. \<open>Flow_Closure\<close>: pinned
    closures, nesting without recursion, exact measurements and what validation accepts.
  \<^item> \<open>Flow_Runtime\<close>, \<open>Flow_Interpreter\<close>, \<open>Flow_History\<close> (\<^verbatim>\<open>lifecycle_decision.rs\<close>, \<^verbatim>\<open>flow/runtime.rs\<close>,
    \<^verbatim>\<open>flow/stop.rs\<close>, \<^verbatim>\<open>flow/history.rs\<close>, \<^verbatim>\<open>flow/interpreter.rs\<close>, \<^verbatim>\<open>flow/progress.rs\<close>): durable records, the
    interpreter and the validation of histories. \<open>Flow_Runtime_Correct\<close> composes them with the
    validation of definitions: an accepted history contains only declared steps, and the interpreter
    always finds the next one unless a budget is overrun.
  \<^item> \<open>Flow_Data\<close> (\<^verbatim>\<open>flow/data.rs\<close>, \<^verbatim>\<open>data_schemas\<close> of \<^verbatim>\<open>flow/template.rs\<close>): shapes of JSON values, payloads and
    the expansion of named shapes; comparing shapes is sound, expansion ends and publishes what the
    names stand for. \<open>Flow_Mapping\<close> (\<^verbatim>\<open>flow/mapping.rs\<close>), \<open>Flow_Mapping_Correct\<close>: mappings that fit are
    well typed and bounded and fail exactly for an absent pointer, an unwritable value or the size; checked fields come from checked pointers. \<open>Flow_Gate\<close> (\<^verbatim>\<open>flow/predicate.rs\<close>,
    \<^verbatim>\<open>flow/gate.rs\<close>), \<open>Flow_Gate_Correct\<close>: predicates under a budget agree with a three-valued meaning
    without one, and a gate selects by that meaning.
  \<^item> \<open>Factory_Subject\<close> (\<^verbatim>\<open>subject.rs\<close>, parts of \<^verbatim>\<open>task_contract\<close> and \<^verbatim>\<open>flow/input.rs\<close>): what work is about.
    \<open>Decision_Signal\<close>, \<open>Decision_Signal_Consume\<close> (\<^verbatim>\<open>decision_signal/question.rs\<close>, \<^verbatim>\<open>contract.rs\<close>, \<^verbatim>\<open>consumption.rs\<close>): questions,
    providers, requests, results and the consumption of a signal; a provider brings about only a
    calibrated declared choice, receipts replay, and what their check does not see.
  \<^item> \<open>Review_Plan\<close>, \<open>Review_Assessment\<close>, \<open>Review_Progress\<close> (\<^verbatim>\<open>evidence.rs\<close>, \<^verbatim>\<open>review_plan.rs\<close>, \<^verbatim>\<open>assessment.rs\<close>,
    \<^verbatim>\<open>evaluation_progress.rs\<close>): evidence manifests, plans, assessments and evaluator branches. \<open>Review_Correct\<close>: what a prepared
    plan guarantees, and that the progress of an evaluation stays bound to its plan until the join.
    \<open>Decision_Engine\<close> (\<^verbatim>\<open>decision_engine.rs\<close>, \<^verbatim>\<open>evaluation.rs\<close>), \<open>Decision_Correct\<close>: decisions accept exactly
    under the rules of the policy, do not depend on the order of their inputs, and over a completed
    evaluation are recorded, whenever the inputs validate, with bindings that can be checked again.

  \<^bold>\<open>Agent\<close> (\<^verbatim>\<open>agent/octacity-runner\<close>).
  \<^item> \<open>Runner_Redaction\<close>, \<open>Runner_Events\<close> (\<^verbatim>\<open>supervisor/redaction.rs\<close>, the sensitive values of
    \<^verbatim>\<open>private_files.rs\<close>): the automata of the values, stream redaction, redaction of strings and JSON,
    and the ordered queue of events. \<open>Runner_Redaction_Match\<close> proves the prefix tables right;
    \<open>Runner_Redaction_Correct\<close> that no released piece contains a value, and that none appears in a whole
    stream, however it is chunked and dropped, when the values avoid the bytes that markers end with;
    \<open>Runner_Redaction_Text\<close> that redacting strings is clean and keeps UTF-8; \<open>Runner_Events_Correct\<close> that
    events are neither lost nor reordered and the queue is bounded, and a run of events that brings a value about.

  \<^bold>\<open>Termination and fuel.\<close> Loops over collections are structural recursion; loops with a worklist are
  functions with a measure. Fuel appears where the code recurses through data: nested Flow definitions
  in the three walks over a closure (one more than the closure has definitions, since a path without repetition is not longer, and a
  repetition is an error found before), the chain of parent cycles (one more than there are Flow Runs)
  and the lineage of retries (the admitted number of retries). The properties of these operations state
  that they return, not only what they return. The fall-back loop of the redaction automata is a partial
  function, proved to end because prefix tables decrease.

  \<^bold>\<open>Parameters.\<close> Code outside the repository is an argument of the definitions that use it: the lengths
  of serialized JSON, cron and time zone evaluation, UUID text and version 5 identities, SHA-256, HMAC,
  BLAKE3, Zstandard, the cache protocol crate, Base64, JSON pointer lookup, the writer and reader of
  JSON documents (the records \<open>factory_json\<close>, \<open>signal_json\<close>, \<open>plan_json\<close> and \<open>review_json\<close> hold the
  serializers of the Factory documents) and the capacity of allocated buffers. Where a property needs a law of such a function, the law is a named
  hypothesis (\<open>rfc6901\<close>, \<open>compact_writer\<close>) with a concrete function that satisfies it in the witness. The binding
  documents of Flow nodes, work and configuration contents are type parameters with the few
  observations that validation makes of them.

  \<^bold>\<open>Not modelled.\<close> The documents that bind Flow nodes to work (preparation of node inputs,
  records, \<^verbatim>\<open>flow/journal.rs\<close>, the fields that issue presentations read, work envelopes, roles, delivery and release documents) are large wire
  shapes whose checks are independent of the control decisions above. The derivation and signing of JobSpecs and the coordinator envelopes are left out
  beyond what placement reads. Application services, stores, APIs, adapters and the process wiring
  perform asynchronous input and output around the core. Of the Agent, execution back ends, lifecycle,
  sources, refreshed credential files and process supervision depend on the operating system. Observability, command line,
  user interface, fuzzing and tests carry no decision of the core.
\<close>

end
